(* ===== verification/Prelude.thy ===== *)
theory Prelude
  imports Main "HOL-Library.Word"
begin

unbundle bit_operations_syntax

text \<open>
  Shared foundations of the rohccxx development: the machine types, the outcome of an
  operation on caller-supplied memory, checked reads and writes, the \<open>size_t\<close> subtraction,
  and the bit-level equality rules by which the component theories compute with octets.

  A C++ buffer argument \<open>(const uint8_t* in, size_t len)\<close> is a list of octets, its length being
  \<open>len\<close>. Reading \<open>in[i]\<close> is \<open>rd\<close>, which is \<open>Fault\<close> outside the buffer, so a theorem that an
  operation is never \<open>Fault\<close> is a memory-safety theorem. An output argument
  \<open>(uint8_t* out, size_t* out_len)\<close> is its capacity, and the operation returns the octets it
  leaves in \<open>out[0 .. *out_len)\<close>; writing past the capacity is \<open>Fault\<close> again. \<open>Reject\<close> is the
  \<open>return false\<close> of the source. Null pointers are outside the model: a buffer argument is a
  buffer.
\<close>

section \<open>Machine types and outcomes\<close>

type_synonym byte = "8 word"
type_synonym u16 = "16 word"
type_synonym u32 = "32 word"
type_synonym u64 = "64 word"
type_synonym bytes = "8 word list"

datatype 'a res = Done 'a | Reject | Fault

definition rd :: "bytes \<Rightarrow> nat \<Rightarrow> (byte \<Rightarrow> 'a res) \<Rightarrow> 'a res" where
  "rd buf i k = (if i < length buf then k (buf ! i) else Fault)"

definition put :: "nat \<Rightarrow> bytes \<Rightarrow> byte \<Rightarrow> (bytes \<Rightarrow> 'a res) \<Rightarrow> 'a res" where
  "put cap out b k = (if length out < cap then k (out @ [b]) else Fault)"

definition put_all :: "nat \<Rightarrow> bytes \<Rightarrow> bytes \<Rightarrow> (bytes \<Rightarrow> 'a res) \<Rightarrow> 'a res" where
  "put_all cap out bs k = (if length out + length bs \<le> cap then k (out @ bs) else Fault)"

definition copy_in :: "bytes \<Rightarrow> nat \<Rightarrow> nat \<Rightarrow> (bytes \<Rightarrow> 'a res) \<Rightarrow> 'a res" where
  \<comment> \<open>\<open>memcpy(dst, buf + i, n)\<close>\<close>
  "copy_in buf i n k = (if i + n \<le> length buf then k (take n (drop i buf)) else Fault)"

fun seq_res :: "'a res \<Rightarrow> ('a \<Rightarrow> 'b res) \<Rightarrow> 'b res" where
  "seq_res (Done x) k = k x"
| "seq_res Reject k = Reject"
| "seq_res Fault k = Fault"

definition szsub :: "nat \<Rightarrow> nat \<Rightarrow> nat" where
  \<comment> \<open>subtraction of \<open>size_t\<close> values, which wraps below zero\<close>
  "szsub a b = (if b \<le> a then a - b else 2 ^ 64 + a - b)"

lemma szsub_le [simp]: "b \<le> a \<Longrightarrow> szsub a b = a - b"
  by (simp add: szsub_def)

lemma rd_in [simp]: "i < length buf \<Longrightarrow> rd buf i k = k (buf ! i)"
  by (simp add: rd_def)

lemma put_in [simp]: "length out < cap \<Longrightarrow> put cap out b k = k (out @ [b])"
  by (simp add: put_def)

lemma put_all_in [simp]: "length out + length bs \<le> cap \<Longrightarrow> put_all cap out bs k = k (out @ bs)"
  by (simp add: put_all_def)

lemma copy_in_in [simp]: "i + n \<le> length buf \<Longrightarrow> copy_in buf i n k = k (take n (drop i buf))"
  by (simp add: copy_in_def)

lemma seq_res_eq_Done: "seq_res r k = Done y \<longleftrightarrow> (\<exists>x. r = Done x \<and> k x = Done y)"
  by (cases r) auto

lemma seq_res_eq_Fault: "seq_res r k = Fault \<longleftrightarrow> r = Fault \<or> (\<exists>x. r = Done x \<and> k x = Fault)"
  by (cases r) auto

lemma rd_eq_Done: "rd buf i k = Done y \<longleftrightarrow> i < length buf \<and> k (buf ! i) = Done y"
  by (simp add: rd_def)

lemma put_eq_Done: "put cap out b k = Done y \<longleftrightarrow> length out < cap \<and> k (out @ [b]) = Done y"
  by (simp add: put_def)

lemma put_all_eq_Done:
  "put_all cap out bs k = Done y \<longleftrightarrow> length out + length bs \<le> cap \<and> k (out @ bs) = Done y"
  by (simp add: put_all_def)

lemmas res_eq_Done = seq_res_eq_Done rd_eq_Done put_eq_Done put_all_eq_Done

definition view :: "bytes \<Rightarrow> nat \<Rightarrow> (bytes \<Rightarrow> 'a res) \<Rightarrow> 'a res" where
  \<comment> \<open>the buffer \<open>(in + i, len - i)\<close>\<close>
  "view buf i k = (if i \<le> length buf then k (drop i buf) else Fault)"

lemma view_in [simp]: "i \<le> length buf \<Longrightarrow> view buf i k = k (drop i buf)"
  by (simp add: view_def)

text \<open>Congruences that let recursive operations call themselves behind a read.\<close>

lemma seq_res_cong [fundef_cong]:
  "r = r' \<Longrightarrow> (\<And>x. r' = Done x \<Longrightarrow> k x = k' x) \<Longrightarrow> seq_res r k = seq_res r' k'"
  by (cases r') auto

lemma rd_cong [fundef_cong]:
  "buf = buf' \<Longrightarrow> i = i' \<Longrightarrow> (i' < length buf' \<Longrightarrow> k (buf' ! i') = k' (buf' ! i')) \<Longrightarrow> rd buf i k = rd buf' i' k'"
  by (simp add: rd_def)

lemma copy_in_cong [fundef_cong]:
  "buf = buf' \<Longrightarrow> i = i' \<Longrightarrow> n = n' \<Longrightarrow>
   (i' + n' \<le> length buf' \<Longrightarrow> k (take n' (drop i' buf')) = k' (take n' (drop i' buf'))) \<Longrightarrow>
   copy_in buf i n k = copy_in buf' i' n' k'"
  by (simp add: copy_in_def)

section \<open>Safety of compound operations\<close>

text \<open>
  \<open>safe P r\<close>: the operation does not fault, and when it succeeds its result satisfies \<open>P\<close>. The rules in
  \<open>safe_intros\<close> decompose an operation along its control flow, so that memory safety of a decoder is
  proved by applying them and discharging the bounds.
\<close>

definition guard :: "bool \<Rightarrow> 'a res \<Rightarrow> 'a res" where
  \<comment> \<open>\<open>if(!b) return false;\<close>\<close>
  "guard b r = (if b then r else Reject)"

definition safe :: "('a \<Rightarrow> bool) \<Rightarrow> 'a res \<Rightarrow> bool" where
  "safe P r \<longleftrightarrow> (case r of Done x \<Rightarrow> P x | Reject \<Rightarrow> True | Fault \<Rightarrow> False)"

named_theorems safe_intros \<open>decomposition of \<open>safe\<close> along the control flow\<close>

lemma safe_simps [simp]: "safe P (Done x) = P x" "safe P Reject" "\<not> safe P Fault"
  by (simp_all add: safe_def)

lemma safe_not_Fault: "safe P r \<Longrightarrow> r \<noteq> Fault"
  by (auto simp: safe_def)

lemma safe_Done: "safe P r \<Longrightarrow> r = Done x \<Longrightarrow> P x"
  by (simp add: safe_def)

lemma safe_mono: "safe P r \<Longrightarrow> (\<And>x. P x \<Longrightarrow> Q x) \<Longrightarrow> safe Q r"
  by (cases r) auto

lemma safe_DoneI [safe_intros]: "P x \<Longrightarrow> safe P (Done x)"
  by simp

lemma safe_RejectI [safe_intros]: "safe P Reject"
  by simp

lemma safe_seq: "safe Q r \<Longrightarrow> (\<And>x. Q x \<Longrightarrow> safe P (k x)) \<Longrightarrow> safe P (seq_res r k)"
  by (cases r) auto

lemma safe_guard [safe_intros]: "(b \<Longrightarrow> safe P r) \<Longrightarrow> safe P (guard b r)"
  by (simp add: guard_def)

lemma safe_if [safe_intros]: "(b \<Longrightarrow> safe P r) \<Longrightarrow> (\<not> b \<Longrightarrow> safe P s) \<Longrightarrow> safe P (if b then r else s)"
  by simp

lemma safe_rd [safe_intros]: "i < length buf \<Longrightarrow> safe P (k (buf ! i)) \<Longrightarrow> safe P (rd buf i k)"
  by simp

lemma safe_copy_in [safe_intros]:
  "i + n \<le> length buf \<Longrightarrow> safe P (k (take n (drop i buf))) \<Longrightarrow> safe P (copy_in buf i n k)"
  by simp

lemma safe_view [safe_intros]: "i \<le> length buf \<Longrightarrow> safe P (k (drop i buf)) \<Longrightarrow> safe P (view buf i k)"
  by simp

lemma safe_Let [safe_intros]: "safe P (f x) \<Longrightarrow> safe P (let y = x in f y)"
  by simp

lemma guard_simps [simp]: "guard True r = r" "guard False r = Reject"
  by (simp_all add: guard_def)

text \<open>
  \<open>returns P r\<close>: a result, if there is one, satisfies \<open>P\<close>. Its rules have no side conditions, so what an
  operation leaves alone is proved by decomposing it.
\<close>

definition returns :: "('a \<Rightarrow> bool) \<Rightarrow> 'a res \<Rightarrow> bool" where
  "returns P r \<longleftrightarrow> (\<forall>x. r = Done x \<longrightarrow> P x)"

named_theorems returns_intros \<open>decomposition of \<open>returns\<close> along the control flow\<close>

lemma returns_simps [simp]: "returns P (Done x) = P x" "returns P Reject" "returns P Fault"
  by (simp_all add: returns_def)

lemma returns_Done: "returns P r \<Longrightarrow> r = Done x \<Longrightarrow> P x"
  by (simp add: returns_def)

lemma returns_seq: "returns Q r \<Longrightarrow> (\<And>x. Q x \<Longrightarrow> returns P (k x)) \<Longrightarrow> returns P (seq_res r k)"
  by (cases r) auto

lemma returns_rules [returns_intros]:
  "(b \<Longrightarrow> returns P r) \<Longrightarrow> returns P (guard b r)"
  "(b \<Longrightarrow> returns P r) \<Longrightarrow> (\<not> b \<Longrightarrow> returns P s) \<Longrightarrow> returns P (if b then r else s)"
  "(\<And>x. returns P (kb x)) \<Longrightarrow> returns P (rd buf i kb)"
  "(\<And>v. returns P (kv v)) \<Longrightarrow> returns P (copy_in buf i n kv)"
  "(\<And>v. returns P (kv v)) \<Longrightarrow> returns P (view buf i kv)"
  "returns P (f y) \<Longrightarrow> returns P (let z = y in f z)"
  by (simp_all add: guard_def rd_def copy_in_def view_def)

section \<open>Words bit by bit\<close>

text \<open>
  Octet layouts are proved bit by bit: an equation between words of a known width becomes the
  finite conjunction of the equations of their bits, which \<open>bit_simps\<close> evaluates.
\<close>

lemma all_less_8:
  "(\<forall>n<8. P n) \<longleftrightarrow> P 0 \<and> P 1 \<and> P 2 \<and> P 3 \<and> P 4 \<and> P 5 \<and> P 6 \<and> P (7::nat)"
  by (simp add: numeral_eq_Suc All_less_Suc conj_ac)

lemma all_less_16:
  "(\<forall>n<16. P n) \<longleftrightarrow> (\<forall>n<8. P n) \<and> P 8 \<and> P 9 \<and> P 10 \<and> P 11 \<and> P 12 \<and> P 13 \<and> P 14 \<and> P (15::nat)"
  by (simp add: numeral_eq_Suc All_less_Suc conj_ac)

lemma all_less_32:
  "(\<forall>n<32. P n) \<longleftrightarrow> (\<forall>n<16. P n) \<and> P 16 \<and> P 17 \<and> P 18 \<and> P 19 \<and> P 20 \<and> P 21 \<and> P 22 \<and> P 23
     \<and> P 24 \<and> P 25 \<and> P 26 \<and> P 27 \<and> P 28 \<and> P 29 \<and> P 30 \<and> P (31::nat)"
  by (simp add: numeral_eq_Suc All_less_Suc conj_ac)

lemma word_eq_all_bits: "(x :: 'a::len word) = y \<longleftrightarrow> (\<forall>n<LENGTH('a). bit x n = bit y n)"
  by (auto intro: bit_word_eqI)

lemma byte_eq_bits: "(x :: 8 word) = y \<longleftrightarrow> (\<forall>n<8. bit x n = bit y n)"
  using word_eq_all_bits [of x y] by simp

lemma u16_eq_bits: "(x :: 16 word) = y \<longleftrightarrow> (\<forall>n<16. bit x n = bit y n)"
  using word_eq_all_bits [of x y] by simp

lemma u32_eq_bits: "(x :: 32 word) = y \<longleftrightarrow> (\<forall>n<32. bit x n = bit y n)"
  using word_eq_all_bits [of x y] by simp

lemmas byte_bits = byte_eq_bits all_less_8 bit_simps
lemmas u16_bits = u16_eq_bits all_less_16 all_less_8 bit_simps
lemmas u32_bits = u32_eq_bits all_less_32 all_less_16 all_less_8 bit_simps

lemma bit_byte_ge [simp]: "8 \<le> n \<Longrightarrow> \<not> bit (x :: 8 word) n"
  using bit_imp_le_length [of x n] by auto

lemma bit_u16_ge [simp]: "16 \<le> n \<Longrightarrow> \<not> bit (x :: 16 word) n"
  using bit_imp_le_length [of x n] by auto

lemma bit_u32_ge [simp]: "32 \<le> n \<Longrightarrow> \<not> bit (x :: 32 word) n"
  using bit_imp_le_length [of x n] by auto

lemma word_less_exp_bit:
  fixes w :: "'a::len word"
  assumes "w < 2 ^ n" and "n \<le> m"
  shows "\<not> bit w m"
proof
  assume b: "bit w m"
  then have "m < LENGTH('a)" by (rule bit_imp_le_length)
  from assms(1) have "take_bit n w = w"
    using assms(2) \<open>m < LENGTH('a)\<close> by (simp add: less_mask_eq take_bit_eq_mask)
  with b assms(2) show False
    by (metis bit_take_bit_iff leD)
qed

lemma word_xor_eq_0_iff: "(a :: 'a::len word) XOR b = 0 \<longleftrightarrow> a = b"
  by (auto simp: bit_eq_iff bit_xor_iff)

lemma word_xor_cancel: "(a :: 'a::len word) XOR c = b XOR c \<longleftrightarrow> a = b"
  by (auto simp: bit_eq_iff bit_xor_iff)

lemma unat_byte_less [simp]: "unat (b :: 8 word) < 256"
  using unsigned_less [of b] by simp

lemma take_bit_byte [simp]: "take_bit 8 (b :: 8 word) = b"
  by (simp add: byte_bits)

lemma take_bit_small: "(w :: 'a::len word) < 2 ^ n \<Longrightarrow> n < LENGTH('a) \<Longrightarrow> take_bit n w = w"
  by (simp add: less_mask_eq take_bit_eq_mask)

lemma mod_add_right_cancel_nat: "(a + l) mod R = (b + l) mod R \<Longrightarrow> a mod R = (b :: nat) mod R"
proof -
  assume "(a + l) mod R = (b + l) mod R"
  then have "(int a + int l) mod int R = (int b + int l) mod int R"
    by (metis of_nat_add of_nat_mod)
  then have "(int a + int l - int l) mod int R = (int b + int l - int l) mod int R"
    by (metis mod_diff_left_eq)
  then show ?thesis by (simp flip: of_nat_mod)
qed

section \<open>Words as natural numbers\<close>

lemma unat_take_bit_mod: "unat (take_bit w (v :: 'a::len word)) = unat v mod 2 ^ w"
  by (subst unsigned_take_bit_eq) (rule take_bit_eq_mod)

lemma unat_and_mask: "unat ((v :: 'a::len word) AND mask w) = unat v mod 2 ^ w"
  by (simp only: unat_take_bit_mod take_bit_eq_mask [symmetric])

lemma unat_add_nowrap:
  "unat (a :: 'a::len word) + unat b < 2 ^ LENGTH('a) \<Longrightarrow> unat (a + b) = unat a + unat b"
  by (simp add: unat_add_lem)

lemma unat_sub_le: "unat b \<le> unat (a :: 'a::len word) \<Longrightarrow> unat (a - b) = unat a - unat b"
  by (simp add: unat_sub word_le_nat_alt)

lemma unat_ucast_32_64 [simp]: "unat (ucast (v :: 32 word) :: 64 word) = unat v"
proof -
  have "unat v < 2 ^ 64" by (rule order_less_le_trans [OF unsigned_less]) simp
  then show ?thesis by (simp add: unsigned_ucast_eq take_bit_nat_eq_self)
qed

lemma unat_u16_bound: "unat (x :: u16) < 65536"
  using unsigned_less [of x] by simp

lemma unat_ucast_u16 [simp]: "unat (ucast (x :: u16) :: u32) = unat x"
  by (simp add: unsigned_ucast_eq take_bit_nat_eq_self order_less_trans [OF unat_u16_bound])

lemma unat_replace_low:
  fixes x l :: "'a::len word"
  assumes "unat l < 2 ^ w"
  shows "unat ((x AND NOT (mask w)) OR l) = unat x div 2 ^ w * 2 ^ w + unat l"
proof -
  have "take_bit w l = l"
    by (metis assms mod_less unat_take_bit_mod word_unat_eq_iff)
  then have b: "bit l m \<Longrightarrow> m < w" for m by (metis bit_take_bit_iff)
  have sum: "(x AND NOT (mask w)) OR l = (x AND NOT (mask w)) + l"
    by (rule disjunctive_add_eq_or [symmetric]) (auto simp: bit_eq_iff bit_simps dest: b)
  then have "unat ((x AND NOT (mask w)) OR l) = unat (x AND NOT (mask w)) + unat l"
    by (metis le_word_or2 unat_plus_simple)
  moreover have "x AND NOT (mask w) = push_bit w (drop_bit w x)"
    by (rule bit_word_eqI) (auto simp: bit_simps)
  then have "x = (x AND NOT (mask w)) + take_bit w x" by (simp add: bits_ident)
  moreover have "(x AND NOT (mask w)) + take_bit w x = (x AND NOT (mask w)) OR take_bit w x"
    by (rule disjunctive_add_eq_or) (auto simp: bit_eq_iff bit_simps)
  ultimately have "unat x = unat (x AND NOT (mask w)) + unat x mod 2 ^ w"
    by (metis le_word_or2 unat_plus_simple unat_take_bit_mod)
  then have "unat (x AND NOT (mask w)) = unat x div 2 ^ w * 2 ^ w"
    by (metis add_right_cancel div_mult_mod_eq)
  then show ?thesis using \<open>unat ((x AND NOT (mask w)) OR l) = _\<close> by simp
qed
section \<open>Big-endian fields\<close>

definition be16 :: "u16 \<Rightarrow> bytes" where
  "be16 v = [ucast (drop_bit 8 v), ucast (v AND 0xFF)]"

definition be32 :: "u32 \<Rightarrow> bytes" where
  "be32 v = [ucast (drop_bit 24 v), ucast (drop_bit 16 v), ucast (drop_bit 8 v), ucast (v AND 0xFF)]"

definition of_be16 :: "byte \<Rightarrow> byte \<Rightarrow> u16" where
  "of_be16 a b = push_bit 8 (ucast a) OR ucast b"

definition of_be32 :: "byte \<Rightarrow> byte \<Rightarrow> byte \<Rightarrow> byte \<Rightarrow> u32" where
  "of_be32 a b c d = push_bit 24 (ucast a) OR push_bit 16 (ucast b) OR push_bit 8 (ucast c) OR ucast d"

lemma length_be16 [simp]: "length (be16 v) = 2"
  by (simp add: be16_def)

lemma length_be32 [simp]: "length (be32 v) = 4"
  by (simp add: be32_def)

lemma of_be16_be16 [simp]: "of_be16 (be16 v ! 0) (be16 v ! Suc 0) = v"
  by (simp add: of_be16_def be16_def u16_bits)

lemma of_be32_be32 [simp]:
  "of_be32 (be32 v ! 0) (be32 v ! Suc 0) (be32 v ! 2) (be32 v ! 3) = v"
  by (simp add: of_be32_def be32_def u32_bits)

lemma be16_of_be16: "be16 (of_be16 a b) = [a, b]"
  by (simp add: of_be16_def be16_def byte_bits)

lemma be32_of_be32: "be32 (of_be32 a b c d) = [a, b, c, d]"
  by (simp add: of_be32_def be32_def byte_bits)

section \<open>Self-delimiting encodings\<close>

text \<open>
  The contract of a wire encoding whose decoder consumes a prefix of its input: what was
  encoded is decoded whatever follows it, the decoder accepts nothing but encodings, and it
  never reads outside its input. Clients get unique decodability from it.
\<close>

locale prefix_codec =
  fixes enc :: "'a \<Rightarrow> bytes" and dec :: "bytes \<Rightarrow> ('a \<times> nat) res" and valid :: "'a \<Rightarrow> bool"
  assumes dec_enc: "valid v \<Longrightarrow> dec (enc v @ rest) = Done (v, length (enc v))"
    and enc_dec: "dec bs = Done (v, n) \<Longrightarrow> valid v \<and> n \<le> length bs \<and> take n bs = enc v"
    and dec_safe: "dec bs \<noteq> Fault"
begin

lemma dec_length: "dec bs = Done (v, n) \<Longrightarrow> n = length (enc v)"
  using enc_dec by (metis length_take min.absorb2)

lemma dec_iff: "dec bs = Done (v, n) \<longleftrightarrow> valid v \<and> n = length (enc v) \<and> (\<exists>rest. bs = enc v @ rest)"
proof
  assume d: "dec bs = Done (v, n)"
  then have "bs = enc v @ drop n bs" using enc_dec by (metis append_take_drop_id)
  with d enc_dec dec_length show "valid v \<and> n = length (enc v) \<and> (\<exists>rest. bs = enc v @ rest)" by blast
qed (auto simp: dec_enc)

lemma prefix_free:
  assumes "valid v" and "valid w" and "enc v @ r = enc w @ s"
  shows "v = w \<and> r = s"
proof -
  have "Done (v, length (enc v)) = Done (w, length (enc w))"
    using dec_enc [OF assms(1), of r] dec_enc [OF assms(2), of s] assms(3) by simp
  then have "v = w" by simp
  with assms(3) show ?thesis by simp
qed

lemma enc_inj: "valid v \<Longrightarrow> valid w \<Longrightarrow> enc v = enc w \<Longrightarrow> v = w"
  using prefix_free [of v w "[]" "[]"] by simp

end

end
