(* ===== verification/Crc.thy ===== *)
theory Crc
  imports Prelude
begin

text \<open>
  The ROHC checksums of \<open>include/rohccxx/utils/crc.hpp\<close>: the literal tables for CRC-7 and
  CRC-8, the table that the source computes at compile time for CRC-3, and the three
  table-driven folds. The locale \<open>table_crc\<close> states what such an engine relies on (a linear
  table whose kernel avoids the register) and derives from it which corruptions the checksum
  detects; the three checksums interpret it.
\<close>

section \<open>Tables\<close>

definition crc_table_7 :: "byte list" where
  "crc_table_7 = [
    0x00, 0x40, 0x73, 0x33, 0x15, 0x55, 0x66, 0x26, 0x2a, 0x6a, 0x59, 0x19, 0x3f, 0x7f, 0x4c, 0x0c,
    0x54, 0x14, 0x27, 0x67, 0x41, 0x01, 0x32, 0x72, 0x7e, 0x3e, 0x0d, 0x4d, 0x6b, 0x2b, 0x18, 0x58,
    0x5b, 0x1b, 0x28, 0x68, 0x4e, 0x0e, 0x3d, 0x7d, 0x71, 0x31, 0x02, 0x42, 0x64, 0x24, 0x17, 0x57,
    0x0f, 0x4f, 0x7c, 0x3c, 0x1a, 0x5a, 0x69, 0x29, 0x25, 0x65, 0x56, 0x16, 0x30, 0x70, 0x43, 0x03,
    0x45, 0x05, 0x36, 0x76, 0x50, 0x10, 0x23, 0x63, 0x6f, 0x2f, 0x1c, 0x5c, 0x7a, 0x3a, 0x09, 0x49,
    0x11, 0x51, 0x62, 0x22, 0x04, 0x44, 0x77, 0x37, 0x3b, 0x7b, 0x48, 0x08, 0x2e, 0x6e, 0x5d, 0x1d,
    0x1e, 0x5e, 0x6d, 0x2d, 0x0b, 0x4b, 0x78, 0x38, 0x34, 0x74, 0x47, 0x07, 0x21, 0x61, 0x52, 0x12,
    0x4a, 0x0a, 0x39, 0x79, 0x5f, 0x1f, 0x2c, 0x6c, 0x60, 0x20, 0x13, 0x53, 0x75, 0x35, 0x06, 0x46,
    0x79, 0x39, 0x0a, 0x4a, 0x6c, 0x2c, 0x1f, 0x5f, 0x53, 0x13, 0x20, 0x60, 0x46, 0x06, 0x35, 0x75,
    0x2d, 0x6d, 0x5e, 0x1e, 0x38, 0x78, 0x4b, 0x0b, 0x07, 0x47, 0x74, 0x34, 0x12, 0x52, 0x61, 0x21,
    0x22, 0x62, 0x51, 0x11, 0x37, 0x77, 0x44, 0x04, 0x08, 0x48, 0x7b, 0x3b, 0x1d, 0x5d, 0x6e, 0x2e,
    0x76, 0x36, 0x05, 0x45, 0x63, 0x23, 0x10, 0x50, 0x5c, 0x1c, 0x2f, 0x6f, 0x49, 0x09, 0x3a, 0x7a,
    0x3c, 0x7c, 0x4f, 0x0f, 0x29, 0x69, 0x5a, 0x1a, 0x16, 0x56, 0x65, 0x25, 0x03, 0x43, 0x70, 0x30,
    0x68, 0x28, 0x1b, 0x5b, 0x7d, 0x3d, 0x0e, 0x4e, 0x42, 0x02, 0x31, 0x71, 0x57, 0x17, 0x24, 0x64,
    0x67, 0x27, 0x14, 0x54, 0x72, 0x32, 0x01, 0x41, 0x4d, 0x0d, 0x3e, 0x7e, 0x58, 0x18, 0x2b, 0x6b,
    0x33, 0x73, 0x40, 0x00, 0x26, 0x66, 0x55, 0x15, 0x19, 0x59, 0x6a, 0x2a, 0x0c, 0x4c, 0x7f, 0x3f]"

definition crc_table_8 :: "byte list" where
  "crc_table_8 = [
    0x00, 0x91, 0xe3, 0x72, 0x07, 0x96, 0xe4, 0x75, 0x0e, 0x9f, 0xed, 0x7c, 0x09, 0x98, 0xea, 0x7b,
    0x1c, 0x8d, 0xff, 0x6e, 0x1b, 0x8a, 0xf8, 0x69, 0x12, 0x83, 0xf1, 0x60, 0x15, 0x84, 0xf6, 0x67,
    0x38, 0xa9, 0xdb, 0x4a, 0x3f, 0xae, 0xdc, 0x4d, 0x36, 0xa7, 0xd5, 0x44, 0x31, 0xa0, 0xd2, 0x43,
    0x24, 0xb5, 0xc7, 0x56, 0x23, 0xb2, 0xc0, 0x51, 0x2a, 0xbb, 0xc9, 0x58, 0x2d, 0xbc, 0xce, 0x5f,
    0x70, 0xe1, 0x93, 0x02, 0x77, 0xe6, 0x94, 0x05, 0x7e, 0xef, 0x9d, 0x0c, 0x79, 0xe8, 0x9a, 0x0b,
    0x6c, 0xfd, 0x8f, 0x1e, 0x6b, 0xfa, 0x88, 0x19, 0x62, 0xf3, 0x81, 0x10, 0x65, 0xf4, 0x86, 0x17,
    0x48, 0xd9, 0xab, 0x3a, 0x4f, 0xde, 0xac, 0x3d, 0x46, 0xd7, 0xa5, 0x34, 0x41, 0xd0, 0xa2, 0x33,
    0x54, 0xc5, 0xb7, 0x26, 0x53, 0xc2, 0xb0, 0x21, 0x5a, 0xcb, 0xb9, 0x28, 0x5d, 0xcc, 0xbe, 0x2f,
    0xe0, 0x71, 0x03, 0x92, 0xe7, 0x76, 0x04, 0x95, 0xee, 0x7f, 0x0d, 0x9c, 0xe9, 0x78, 0x0a, 0x9b,
    0xfc, 0x6d, 0x1f, 0x8e, 0xfb, 0x6a, 0x18, 0x89, 0xf2, 0x63, 0x11, 0x80, 0xf5, 0x64, 0x16, 0x87,
    0xd8, 0x49, 0x3b, 0xaa, 0xdf, 0x4e, 0x3c, 0xad, 0xd6, 0x47, 0x35, 0xa4, 0xd1, 0x40, 0x32, 0xa3,
    0xc4, 0x55, 0x27, 0xb6, 0xc3, 0x52, 0x20, 0xb1, 0xca, 0x5b, 0x29, 0xb8, 0xcd, 0x5c, 0x2e, 0xbf,
    0x90, 0x01, 0x73, 0xe2, 0x97, 0x06, 0x74, 0xe5, 0x9e, 0x0f, 0x7d, 0xec, 0x99, 0x08, 0x7a, 0xeb,
    0x8c, 0x1d, 0x6f, 0xfe, 0x8b, 0x1a, 0x68, 0xf9, 0x82, 0x13, 0x61, 0xf0, 0x85, 0x14, 0x66, 0xf7,
    0xa8, 0x39, 0x4b, 0xda, 0xaf, 0x3e, 0x4c, 0xdd, 0xa6, 0x37, 0x45, 0xd4, 0xa1, 0x30, 0x42, 0xd3,
    0xb4, 0x25, 0x57, 0xc6, 0xb3, 0x22, 0x50, 0xc1, 0xba, 0x2b, 0x59, 0xc8, 0xbd, 0x2c, 0x5e, 0xcf]"

definition crc3_bit :: "byte \<Rightarrow> byte" where
  "crc3_bit v = (if v AND 0x01 \<noteq> 0 then drop_bit 1 v XOR 0x06 else drop_bit 1 v)"

definition crc3_transition :: "byte \<Rightarrow> byte" where
  "crc3_transition v = (crc3_bit ^^ 8) v AND 0x07"

definition crc_table_3 :: "byte list" where
  "crc_table_3 = map (\<lambda>i. crc3_transition (word_of_nat i)) [0..<256]"

definition crc3 :: "bytes \<Rightarrow> byte" where
  "crc3 data = foldl (\<lambda>crc b. crc_table_3 ! unat (crc XOR b)) 0x07 data"

definition crc7 :: "bytes \<Rightarrow> byte" where
  "crc7 data = foldl (\<lambda>crc b. crc_table_7 ! unat (b XOR (crc AND 0x7F))) 0x7F data"

definition crc8 :: "bytes \<Rightarrow> byte" where
  "crc8 data = foldl (\<lambda>crc b. crc_table_8 ! unat (b XOR crc)) 0xFF data"

section \<open>The tables are the shift registers of the ROHC polynomials\<close>

text \<open>
  The reference: eight shifts of a right-shifting register with feedback polynomial \<open>poly\<close>
  (bit-reversed): \<open>0x06\<close> for CRC-3, \<open>0x79\<close> for CRC-7, \<open>0xE0\<close> for CRC-8 (RFC 5795, 5.3.1.1).
\<close>

definition lfsr_bit :: "byte \<Rightarrow> byte \<Rightarrow> byte" where
  "lfsr_bit poly v = (if bit v 0 then drop_bit 1 v XOR poly else drop_bit 1 v)"

definition lfsr_octet :: "byte \<Rightarrow> byte \<Rightarrow> byte" where
  "lfsr_octet poly v = (lfsr_bit poly ^^ 8) v"

lemma lfsr_bit_xor: "lfsr_bit poly (a XOR b) = lfsr_bit poly a XOR lfsr_bit poly b"
  by (auto simp: lfsr_bit_def drop_bit_xor bit_xor_iff ac_simps)

lemma lfsr_octet_xor: "lfsr_octet poly (a XOR b) = lfsr_octet poly a XOR lfsr_octet poly b"
proof -
  have "(lfsr_bit poly ^^ n) (a XOR b) = (lfsr_bit poly ^^ n) a XOR (lfsr_bit poly ^^ n) b" for n
    by (induction n) (simp_all add: lfsr_bit_xor)
  then show ?thesis by (simp add: lfsr_octet_def)
qed

lemma lfsr_octet_unfold:
  "lfsr_octet poly v = lfsr_bit poly (lfsr_bit poly (lfsr_bit poly (lfsr_bit poly
     (lfsr_bit poly (lfsr_bit poly (lfsr_bit poly (lfsr_bit poly v)))))))"
  by (simp add: lfsr_octet_def numeral_eq_Suc)

lemma upt_256:
  "[0..<256] = [
    0, 1, 2, 3, 4, 5, 6, 7, 8, 9, 10, 11, 12, 13, 14, 15,
    16, 17, 18, 19, 20, 21, 22, 23, 24, 25, 26, 27, 28, 29, 30, 31,
    32, 33, 34, 35, 36, 37, 38, 39, 40, 41, 42, 43, 44, 45, 46, 47,
    48, 49, 50, 51, 52, 53, 54, 55, 56, 57, 58, 59, 60, 61, 62, 63,
    64, 65, 66, 67, 68, 69, 70, 71, 72, 73, 74, 75, 76, 77, 78, 79,
    80, 81, 82, 83, 84, 85, 86, 87, 88, 89, 90, 91, 92, 93, 94, 95,
    96, 97, 98, 99, 100, 101, 102, 103, 104, 105, 106, 107, 108, 109, 110, 111,
    112, 113, 114, 115, 116, 117, 118, 119, 120, 121, 122, 123, 124, 125, 126, 127,
    128, 129, 130, 131, 132, 133, 134, 135, 136, 137, 138, 139, 140, 141, 142, 143,
    144, 145, 146, 147, 148, 149, 150, 151, 152, 153, 154, 155, 156, 157, 158, 159,
    160, 161, 162, 163, 164, 165, 166, 167, 168, 169, 170, 171, 172, 173, 174, 175,
    176, 177, 178, 179, 180, 181, 182, 183, 184, 185, 186, 187, 188, 189, 190, 191,
    192, 193, 194, 195, 196, 197, 198, 199, 200, 201, 202, 203, 204, 205, 206, 207,
    208, 209, 210, 211, 212, 213, 214, 215, 216, 217, 218, 219, 220, 221, 222, 223,
    224, 225, 226, 227, 228, 229, 230, 231, 232, 233, 234, 235, 236, 237, 238, 239,
    240, 241, 242, 243, 244, 245, 246, 247, 248, 249, 250, 251, 252, 253, 254, 255]"
  by (simp add: upt_rec)

lemma crc_table_7_eq: "crc_table_7 = map (\<lambda>i. lfsr_octet 0x79 (word_of_nat i)) [0..<256]"
  unfolding upt_256 list.map by (simp add: crc_table_7_def lfsr_octet_unfold lfsr_bit_def)

lemma crc_table_8_eq: "crc_table_8 = map (\<lambda>i. lfsr_octet 0xE0 (word_of_nat i)) [0..<256]"
  unfolding upt_256 list.map by (simp add: crc_table_8_def lfsr_octet_unfold lfsr_bit_def)

lemma nth_octet_table: "map (\<lambda>i. f (word_of_nat i)) [0..<256] ! unat v = f (v :: byte)"
  by simp

lemma crc3_bit_eq: "crc3_bit v = lfsr_bit 0x06 v"
  by (simp add: crc3_bit_def lfsr_bit_def and_one_eq odd_iff_mod_2_eq_one [symmetric] bit_0)

text \<open>Where the register of a polynomial of degree \<open>n\<close> can have a bit set.\<close>

lemma lfsr_bit_range:
  assumes "\<And>m. n \<le> m \<Longrightarrow> \<not> bit poly m" and "n \<le> m" and "\<not> bit v (Suc m)"
  shows "\<not> bit (lfsr_bit poly v) m"
  using assms by (simp add: lfsr_bit_def bit_simps)

lemma lfsr_steps_range:
  assumes "\<And>m. n \<le> m \<Longrightarrow> \<not> bit poly m" and "n \<le> m" and "8 \<le> m + k"
  shows "\<not> bit ((lfsr_bit poly ^^ k) v) m"
  using assms(2,3)
proof (induction k arbitrary: m)
  case 0
  then show ?case by simp
next
  case (Suc k)
  then have "\<not> bit ((lfsr_bit poly ^^ k) v) (Suc m)" by simp
  then show ?case using lfsr_bit_range [OF assms(1) Suc.prems(1)] by simp
qed

lemma lfsr_octet_range:
  assumes "\<And>m. n \<le> m \<Longrightarrow> \<not> bit poly m"
  shows "take_bit n (lfsr_octet poly v) = lfsr_octet poly v"
proof (rule bit_word_eqI)
  fix m
  have "n \<le> m \<Longrightarrow> \<not> bit (lfsr_octet poly v) m"
    unfolding lfsr_octet_def by (rule lfsr_steps_range [OF assms]) simp_all
  then show "bit (take_bit n (lfsr_octet poly v)) m = bit (lfsr_octet poly v) m"
    by (cases "m < n") (simp_all add: bit_take_bit_iff)
qed

lemma lfsr_bit_kernel:
  assumes "bit poly (n - 1)" and "\<not> bit v n" and "0 < n" and "lfsr_bit poly v = 0"
  shows "v = 0"
proof -
  have "\<not> bit v 0"
  proof
    assume "bit v 0"
    with assms have "bit (drop_bit 1 v XOR poly) (n - 1)"
      by (simp add: bit_simps)
    with \<open>bit v 0\<close> assms(4) show False by (simp add: lfsr_bit_def)
  qed
  with assms(4) have d: "drop_bit 1 v = 0" by (simp add: lfsr_bit_def)
  show "v = 0"
  proof (rule bit_word_eqI)
    fix m
    have "bit v (Suc j) = bit (drop_bit 1 v) j" for j by (simp add: bit_simps)
    with d \<open>\<not> bit v 0\<close> show "bit v m = bit (0 :: byte) m" by (cases m) simp_all
  qed
qed

lemma lfsr_octet_kernel:
  assumes p: "bit poly (n - 1)" "\<And>m. n \<le> m \<Longrightarrow> \<not> bit poly m" "0 < n"
    and v: "take_bit n v = v" and z: "lfsr_octet poly v = 0"
  shows "v = 0"
proof -
  have vr: "\<not> bit v m" if "n \<le> m" for m
    using v that by (metis bit_take_bit_iff leD)
  have r: "\<not> bit ((lfsr_bit poly ^^ k) v) m" if "n \<le> m" for k m
    using that by (induction k arbitrary: m) (simp_all add: vr lfsr_bit_range [OF p(2)])
  have "(lfsr_bit poly ^^ k) v = 0 \<Longrightarrow> v = 0" for k
  proof (induction k)
    case (Suc k)
    then show ?case using lfsr_bit_kernel [OF p(1) r p(3)] by simp
  qed simp
  with z show ?thesis unfolding lfsr_octet_def by blast
qed

section \<open>Table-driven checksums and the corruptions they detect\<close>

locale table_crc =
  fixes tab :: "byte \<Rightarrow> byte" and width :: nat and init :: byte and run :: "bytes \<Rightarrow> byte"
  assumes tab_xor: "tab (a XOR b) = tab a XOR tab b"
    and tab_range: "take_bit width (tab a) = tab a"
    and tab_kernel: "take_bit width c = c \<Longrightarrow> tab c = 0 \<Longrightarrow> c = 0"
    and init_range: "take_bit width init = init"
    and run_eq: "run data = foldl (\<lambda>c b. tab (b XOR c)) init data"
begin

lemma fold_range: "take_bit width c = c \<Longrightarrow>
    take_bit width (foldl (\<lambda>c b. tab (b XOR c)) c ys) = foldl (\<lambda>c b. tab (b XOR c)) c ys"
  by (induction ys arbitrary: c) (simp_all add: tab_range)

lemma run_range: "take_bit width (run data) = run data"
  unfolding run_eq by (rule fold_range [OF init_range])

lemma tab_eq_iff: "tab a = tab b \<longleftrightarrow> tab (a XOR b) = 0"
  by (simp add: tab_xor word_xor_eq_0_iff)

lemma tab_shift: "tab (a XOR c) = tab (b XOR c) \<longleftrightarrow> tab (a XOR b) = 0"
  by (simp add: tab_xor word_xor_eq_0_iff word_xor_cancel)

lemma fold_state_eq:
  "take_bit width c = c \<Longrightarrow> take_bit width d = d \<Longrightarrow>
   foldl (\<lambda>c b. tab (b XOR c)) c ys = foldl (\<lambda>c b. tab (b XOR c)) d ys \<longleftrightarrow> c = d"
proof (induction ys arbitrary: c d)
  case (Cons y ys)
  have "tab (y XOR c) = tab (y XOR d) \<longleftrightarrow> tab (c XOR d) = 0"
    using tab_shift [of c y d] by (simp add: xor.commute)
  also have "\<dots> \<longleftrightarrow> c = d"
    using tab_kernel [of "c XOR d"] Cons.prems
    by (auto simp: take_bit_xor word_xor_eq_0_iff tab_eq_iff [symmetric])
  finally show ?case using Cons.IH by (simp add: tab_range)
qed simp

lemma octet_corruption: "run (xs @ a # ys) = run (xs @ b # ys) \<longleftrightarrow> tab (a XOR b) = 0"
proof -
  let ?c = "foldl (\<lambda>c b. tab (b XOR c)) init xs"
  have "run (xs @ a # ys) = run (xs @ b # ys) \<longleftrightarrow> tab (a XOR ?c) = tab (b XOR ?c)"
    unfolding run_eq by (simp add: fold_state_eq tab_range)
  also have "\<dots> \<longleftrightarrow> tab (a XOR b) = 0"
    by (rule tab_shift)
  finally show ?thesis .
qed

end

lemma crc3_fold: "crc3 data = foldl (\<lambda>c b. lfsr_octet 0x06 (b XOR c)) 0x07 data"
proof -
  have "crc3_transition v = lfsr_octet 0x06 v" for v
  proof -
    have "take_bit 3 (lfsr_octet 0x06 v) = lfsr_octet 0x06 v"
      by (rule lfsr_octet_range) (rule word_less_exp_bit, simp_all)
    then show ?thesis
      by (simp add: crc3_transition_def crc3_bit_eq [abs_def] lfsr_octet_def [symmetric]
          take_bit_eq_mask mask_numeral)
  qed
  then show ?thesis
    by (simp add: crc3_def crc_table_3_def nth_octet_table xor.commute)
qed

lemma crc8_fold: "crc8 data = foldl (\<lambda>c b. lfsr_octet 0xE0 (b XOR c)) 0xFF data"
  by (simp add: crc8_def crc_table_8_eq nth_octet_table)

lemma poly3_degree: "3 \<le> m \<Longrightarrow> \<not> bit (0x06 :: byte) m"
  by (rule word_less_exp_bit [of _ 3]) simp_all

lemma poly7_degree: "7 \<le> m \<Longrightarrow> \<not> bit (0x79 :: byte) m"
  by (rule word_less_exp_bit [of _ 7]) simp_all

interpretation crc3: table_crc "lfsr_octet 0x06" 3 "0x07" crc3
proof unfold_locales
  show "take_bit 3 (lfsr_octet 0x06 a) = lfsr_octet 0x06 a" for a
    by (rule lfsr_octet_range [OF poly3_degree])
  show "c = 0" if "take_bit 3 c = c" "lfsr_octet 0x06 c = 0" for c
    by (rule lfsr_octet_kernel [OF _ poly3_degree _ that]) simp_all
qed (simp_all add: lfsr_octet_xor crc3_fold)

interpretation crc8: table_crc "lfsr_octet 0xE0" 8 "0xFF" crc8
proof unfold_locales
  show "take_bit 8 (lfsr_octet 0xE0 a) = lfsr_octet 0xE0 a" for a
    by (rule lfsr_octet_range) simp
  show "c = 0" if "take_bit 8 c = c" "lfsr_octet 0xE0 c = 0" for c
    by (rule lfsr_octet_kernel [of "0xE0" 8]) (use that in simp_all)
qed (simp_all add: lfsr_octet_xor crc8_fold)

text \<open>CRC-7 masks its register with \<open>0x7F\<close>, which changes nothing: the register never leaves
  seven bits.\<close>

interpretation crc7: table_crc "lfsr_octet 0x79" 7 "0x7F" crc7
proof unfold_locales
  have range: "take_bit 7 (lfsr_octet 0x79 a) = lfsr_octet 0x79 a" for a
    by (rule lfsr_octet_range [OF poly7_degree])
  then show "take_bit 7 (lfsr_octet 0x79 a) = lfsr_octet 0x79 a" for a .
  show "c = 0" if "take_bit 7 c = c" "lfsr_octet 0x79 c = 0" for c
    by (rule lfsr_octet_kernel [OF _ poly7_degree _ that]) simp_all
  have "foldl (\<lambda>c b. lfsr_octet 0x79 (b XOR (c AND 0x7F))) c data
      = foldl (\<lambda>c b. lfsr_octet 0x79 (b XOR c)) c data" if "take_bit 7 c = c" for c data
    using that
  proof (induction data arbitrary: c)
    case (Cons b data)
    from Cons.prems have "c AND 0x7F = c" by (simp add: take_bit_eq_mask mask_numeral)
    with Cons.IH range show ?case by simp
  qed simp
  then show "crc7 data = foldl (\<lambda>c b. lfsr_octet 0x79 (b XOR c)) 0x7F data" for data
    by (simp add: crc7_def crc_table_7_eq nth_octet_table)
qed (simp_all add: lfsr_octet_xor)

lemma crc7_kernel: "lfsr_octet 0x79 d = 0 \<longleftrightarrow> d = 0 \<or> d = 0xF3"
proof
  have g: "lfsr_octet 0x79 0xF3 = 0"
    by (simp add: lfsr_octet_unfold lfsr_bit_def)
  assume z: "lfsr_octet 0x79 d = 0"
  show "d = 0 \<or> d = 0xF3"
  proof (cases "bit d 7")
    case True
    then have "take_bit 7 (d XOR 0xF3) = d XOR 0xF3"
      by (simp add: byte_bits)
    moreover have "lfsr_octet 0x79 (d XOR 0xF3) = 0"
      by (simp add: lfsr_octet_xor g z)
    ultimately have "d XOR 0xF3 = 0" by (rule crc7.tab_kernel)
    then show ?thesis by (simp add: word_xor_eq_0_iff)
  next
    case False
    then have "take_bit 7 d = d" by (simp add: byte_bits)
    with z show ?thesis using crc7.tab_kernel by blast
  qed
next
  assume "d = 0 \<or> d = 0xF3"
  then show "lfsr_octet 0x79 d = 0" by (auto simp: lfsr_octet_unfold lfsr_bit_def)
qed

lemma crc3_and_7 [simp]: "crc3 data AND 7 = crc3 data"
  using crc3.run_range [of data] by (simp add: take_bit_eq_mask mask_numeral)

lemma crc7_and_7F [simp]: "crc7 data AND 0x7F = crc7 data"
  using crc7.run_range [of data] by (simp add: take_bit_eq_mask mask_numeral)

lemma crc8_octet: "crc8 (xs @ a # ys) = crc8 (xs @ b # ys) \<longleftrightarrow> a = b"
proof -
  have "lfsr_octet 0xE0 (a XOR b) = 0 \<longleftrightarrow> a XOR b = 0"
    using crc8.tab_kernel [of "a XOR b"] by (auto simp: crc8.tab_eq_iff [symmetric] word_xor_eq_0_iff)
  then show ?thesis by (simp add: crc8.octet_corruption word_xor_eq_0_iff)
qed

lemma crc7_octet: "crc7 (xs @ a # ys) = crc7 (xs @ b # ys) \<longleftrightarrow> a = b \<or> a XOR b = 0xF3"
  by (simp add: crc7.octet_corruption crc7_kernel word_xor_eq_0_iff)

section \<open>Properties\<close>

text \<open>C40. The literal CRC-7 and CRC-8 tables and the computed CRC-3 table implement the bit-serial
  shift registers of the ROHC polynomials: for every message, each table-driven checksum of the
  source equals the fold of eight register shifts per octet.\<close>

theorem crc_tables_implement_registers:
  "crc3 data = foldl (\<lambda>c b. lfsr_octet 0x06 (b XOR c)) 0x07 data \<and>
   crc7 data = foldl (\<lambda>c b. lfsr_octet 0x79 (b XOR c)) 0x7F data \<and>
   crc8 data = foldl (\<lambda>c b. lfsr_octet 0xE0 (b XOR c)) 0xFF data"
  by (intro conjI crc3.run_eq crc7.run_eq crc8.run_eq)

text \<open>Replacing any single octet of a message changes its CRC-8; it changes its CRC-7 unless the
  two octets differ exactly by the pattern \<open>0xF3\<close> (the generator polynomial itself), so every
  error burst of up to seven bits inside an octet is caught by CRC-7 too.\<close>

theorem crc_detects_octet_corruption:
  "(crc8 (xs @ a # ys) = crc8 (xs @ b # ys) \<longleftrightarrow> a = b) \<and>
   (crc7 (xs @ a # ys) = crc7 (xs @ b # ys) \<longleftrightarrow> a = b \<or> a XOR b = 0xF3)"
  using crc8_octet crc7_octet by blast

end
