(* ===== verification/Cid.thy ===== *)
theory Cid
  imports Prelude
begin

text \<open>
  Context identifiers and the self-describing variable-length field that carries large CIDs
  (\<open>include/rohccxx/core/cid.hpp\<close>). The field takes one octet up to \<open>0x7F\<close> and two octets up
  to \<open>0x3FFF\<close>; the decoder rejects a two-octet form of a value that fits in one octet, so the
  encoding is canonical. \<open>sdvl\<close> is the abstract encoding that the writer and the reader are
  shown to implement.
\<close>

section \<open>Model\<close>

definition small_cid_max :: u32 where
  "small_cid_max = 0x0F"

definition large_cid_max :: u32 where
  "large_cid_max = 0x3FFF"

definition is_small :: "u32 \<Rightarrow> bool" where
  "is_small v \<longleftrightarrow> v \<le> small_cid_max"

definition is_valid_for_space :: "u32 \<Rightarrow> bool \<Rightarrow> bool" where
  "is_valid_for_space v large_cid_space \<longleftrightarrow>
     (if large_cid_space then v \<le> large_cid_max else is_small v)"

definition write_large :: "nat \<Rightarrow> bytes \<Rightarrow> u32 \<Rightarrow> bytes res" where
  "write_large cap out v =
     (if v > large_cid_max then Reject
      else if v \<le> 0x7F then
        (if length out + 1 > cap then Reject
         else put cap out (ucast v) Done)
      else if length out + 2 > cap then Reject
      else put cap out (ucast (0x80 OR (drop_bit 8 v AND 0x3F))) (\<lambda>out.
           put cap out (ucast (v AND 0xFF)) Done))"

definition read_large :: "bytes \<Rightarrow> (u32 \<times> nat) res" where
  "read_large p =
     (if length p = 0 then Reject
      else rd p 0 (\<lambda>b0.
        if b0 AND 0x80 = 0 then Done (ucast (b0 AND 0x7F), 1)
        else if b0 AND 0xC0 = 0x80 then
          (if length p < 2 then Reject
           else rd p 1 (\<lambda>b1.
             let v = push_bit 8 (ucast (b0 AND 0x3F)) OR ucast b1 in
             if v \<le> 0x7F then Reject else Done (v, 2)))
        else Reject))"

definition encoded_len :: "u32 \<Rightarrow> nat" where
  "encoded_len v = (if v \<le> 0x7F then 1 else 2)"

section \<open>The encoding it implements\<close>

definition sdvl :: "u32 \<Rightarrow> bytes" where
  "sdvl v = (if v \<le> 0x7F then [ucast v]
             else [ucast (0x80 OR (drop_bit 8 v AND 0x3F)), ucast (v AND 0xFF)])"

lemma length_sdvl [simp]: "length (sdvl v) = encoded_len v"
  by (simp add: sdvl_def encoded_len_def)

lemma encoded_len_cases: "encoded_len v = 1 \<or> encoded_len v = 2"
  by (simp add: encoded_len_def)

lemma encoded_len_bounds: "1 \<le> encoded_len v" "encoded_len v \<le> 2"
  by (simp_all add: encoded_len_def)

lemma write_large_eq:
  "write_large cap out v =
     (if v \<le> large_cid_max \<and> length out + encoded_len v \<le> cap then Done (out @ sdvl v) else Reject)"
  by (auto simp: write_large_def sdvl_def encoded_len_def put_def)

lemma le_7F_bits: "(v :: u32) \<le> 0x7F \<longleftrightarrow> v = v AND 0x7F"
proof
  assume "v \<le> 0x7F"
  then have "v < 2 ^ 7" by (simp add: word_le_nat_alt word_less_nat_alt)
  then have "take_bit 7 v = v" by (rule take_bit_small) simp
  then show "v = v AND 0x7F" by (simp add: take_bit_eq_mask mask_numeral)
next
  assume "v = v AND 0x7F"
  then show "v \<le> 0x7F" by (metis word_and_le1)
qed

lemma le_3FFF_bits: "(v :: u32) \<le> 0x3FFF \<longleftrightarrow> v = v AND 0x3FFF"
proof
  assume "v \<le> 0x3FFF"
  then have "v < 2 ^ 14" by (simp add: word_le_nat_alt word_less_nat_alt)
  then have "take_bit 14 v = v" by (rule take_bit_small) simp
  then show "v = v AND 0x3FFF" by (simp add: take_bit_eq_mask mask_numeral)
next
  assume "v = v AND 0x3FFF"
  then show "v \<le> 0x3FFF" by (metis word_and_le1)
qed

lemma read_sdvl:
  assumes "v \<le> large_cid_max"
  shows "read_large (sdvl v @ rest) = Done (v, encoded_len v)"
proof (cases "v \<le> 0x7F")
  case True
  then have v: "v = v AND 0x7F" by (simp add: le_7F_bits)
  have "\<not> bit (v AND 0x7F) 7" by (simp add: bit_simps)
  with v have "\<not> bit v 7" by simp
  then have "(ucast v :: byte) AND 0x80 = 0"
    by (simp add: byte_bits)
  moreover have "(ucast ((ucast v :: byte) AND 0x7F) :: u32) = v"
    by (subst (2) v) (simp add: u32_bits)
  ultimately show ?thesis using True
    by (simp add: read_large_def sdvl_def encoded_len_def)
next
  case False
  from assms have v: "v = v AND 0x3FFF"
    by (simp add: large_cid_max_def le_3FFF_bits)
  let ?b = "ucast (0x80 OR (drop_bit 8 v AND 0x3F)) :: byte"
  have "?b AND 0x80 \<noteq> 0" "?b AND 0xC0 = 0x80"
    by (simp_all add: byte_bits)
  moreover have "push_bit 8 (ucast (?b AND 0x3F)) OR ucast (ucast (v AND 0xFF) :: byte) = v"
    by (subst (3) v) (simp add: u32_bits)
  ultimately show ?thesis using False
    by (simp add: read_large_def sdvl_def encoded_len_def)
qed

lemma read_large_inv:
  assumes "read_large p = Done (v, n)"
  shows "v \<le> large_cid_max \<and> n \<le> length p \<and> take n p = sdvl v"
proof (cases p)
  case Nil
  with assms show ?thesis by (simp add: read_large_def)
next
  case (Cons b0 q)
  show ?thesis
  proof (cases "b0 AND 0x80 = 0")
    case True
    with assms Cons have v: "v = ucast (b0 AND 0x7F)" and n: "n = 1"
      by (simp_all add: read_large_def)
    have "v \<le> 0x7F" unfolding le_7F_bits v by (simp add: u32_bits)
    moreover from True have "(ucast v :: byte) = b0" unfolding v by (simp add: byte_bits)
    ultimately show ?thesis using n Cons order_trans [of v "0x7F" "0x3FFF"]
      by (simp add: sdvl_def large_cid_max_def)
  next
    case False
    then obtain b1 r where q: "q = b1 # r" and hi: "b0 AND 0xC0 = 0x80"
      and v: "v = push_bit 8 (ucast (b0 AND 0x3F)) OR ucast b1" and big: "\<not> v \<le> 0x7F" and n: "n = 2"
      using assms Cons by (cases q) (auto simp: read_large_def Let_def split: if_splits)
    have "v \<le> large_cid_max" unfolding large_cid_max_def le_3FFF_bits v by (simp add: u32_bits)
    moreover from hi have "(ucast (0x80 OR (drop_bit 8 v AND 0x3F)) :: byte) = b0"
      unfolding v by (simp add: byte_bits)
    moreover have "(ucast (v AND 0xFF) :: byte) = b1" unfolding v by (simp add: byte_bits)
    ultimately show ?thesis using big n Cons q by (simp add: sdvl_def)
  qed
qed

lemma read_large_safe: "read_large p \<noteq> Fault"
  by (simp add: read_large_def Let_def)

interpretation sdvl: prefix_codec sdvl read_large "\<lambda>v. v \<le> large_cid_max"
  by unfold_locales (simp_all add: read_sdvl read_large_inv read_large_safe)

section \<open>Properties\<close>

text \<open>The large-CID field round-trips and is canonical. For every CID of the large space and
  every buffer with room, the writer succeeds and appends one or two octets, from which the
  reader, whatever follows, gets back exactly that CID and the number of octets it took; and
  every input the reader accepts starts with the unique encoding of the CID it returns. It never
  reads outside its input.\<close>

theorem large_cid_roundtrip_canonical:
  "(v \<le> large_cid_max \<and> length out + encoded_len v \<le> cap \<longrightarrow>
      (\<exists>field. write_large cap out v = Done (out @ field) \<and> length field = encoded_len v \<and>
               read_large (field @ rest) = Done (v, encoded_len v))) \<and>
   (read_large p = Done (w, n) \<longleftrightarrow>
      w \<le> large_cid_max \<and> n = encoded_len w \<and> (\<exists>tail. p = sdvl w @ tail)) \<and>
   read_large p \<noteq> Fault"
proof (intro conjI impI)
  assume "v \<le> large_cid_max \<and> length out + encoded_len v \<le> cap"
  then show "\<exists>field. write_large cap out v = Done (out @ field) \<and> length field = encoded_len v \<and>
                   read_large (field @ rest) = Done (v, encoded_len v)"
    by (intro exI [of _ "sdvl v"]) (simp add: write_large_eq read_sdvl)
next
  show "read_large p = Done (w, n) \<longleftrightarrow>
           w \<le> large_cid_max \<and> n = encoded_len w \<and> (\<exists>tail. p = sdvl w @ tail)"
    using sdvl.dec_iff [of p w n] by simp
qed (rule read_large_safe)

theorem large_cid_roundtrip_canonical_witness:
  "(\<exists>field. write_large 4 [0xFD] 0x1234 = Done ([0xFD] @ field) \<and> length field = 2 \<and>
      read_large (field @ [1, 2]) = Done (0x1234, 2)) \<and> read_large [0x80, 0x05] = Reject"
  using large_cid_roundtrip_canonical [of "0x1234" "[0xFD]" 4 "[1, 2]"]
  by (simp add: encoded_len_def large_cid_max_def read_large_def)

end
