(* ===== verification/Bits.thy ===== *)
theory Bits
  imports Crc
begin

text \<open>
  Bit-aligned fields: \<open>BitReader\<close> (\<open>core/bit_reader.hpp\<close>), \<open>BitWriter\<close> (\<open>core/bit_writer.hpp\<close>)
  and the bit-aligned checksum tests (\<open>core/bit_crc.hpp\<close>). The refinement lemmas relate both to
  one abstract object, the list of bits of a buffer, most significant bit of each octet first:
  writing \<open>n\<close> bits into a zeroed region replaces them by \<open>msb_bits n v\<close>, reading \<open>n\<close> bits
  consumes a prefix \<open>msb_bits n v\<close> and returns \<open>v\<close> cut to \<open>n\<close> bits.
\<close>

section \<open>Model\<close>

definition size_max :: nat where
  "size_max = 2 ^ 64 - 1"

record bit_reader =
  br_buf :: bytes
  bit_len :: nat
  br_bitpos :: nat
  br_valid :: bool

definition bit_reader_bounded :: "bytes \<Rightarrow> nat \<Rightarrow> bit_reader" where
  "bit_reader_bounded b byte_len =
     \<lparr>br_buf = b, bit_len = (if byte_len > size_max div 8 then size_max else byte_len * 8),
      br_bitpos = 0, br_valid = True\<rparr>"

definition bit_reader_unbounded :: "bytes \<Rightarrow> bit_reader" where
  \<comment> \<open>the constructor's default for \<open>byte_len\<close>\<close>
  "bit_reader_unbounded b = bit_reader_bounded b (size_max div 8)"

definition can_read :: "bit_reader \<Rightarrow> nat \<Rightarrow> bool" where
  "can_read br bits \<longleftrightarrow> br_valid br \<and> br_bitpos br \<le> bit_len br \<and> bits \<le> bit_len br - br_bitpos br"

fun read_loop :: "bytes \<Rightarrow> nat \<Rightarrow> nat \<Rightarrow> u32 \<Rightarrow> (u32 \<times> nat) res" where
  "read_loop buf bitpos 0 value = Done (value, bitpos)"
| "read_loop buf bitpos (Suc n) value =
     rd buf (bitpos div 8) (\<lambda>b.
       read_loop buf (bitpos + 1) n
         (push_bit 1 value OR (drop_bit (7 - bitpos mod 8) (ucast b) AND 1)))"

definition read_bits :: "bit_reader \<Rightarrow> nat \<Rightarrow> (u32 \<times> bit_reader) res" where
  "read_bits br bits =
     (if bits > 32 \<or> \<not> can_read br bits then Done (0, br\<lparr>br_valid := False\<rparr>)
      else seq_res (read_loop (br_buf br) (br_bitpos br) bits 0) (\<lambda>(value, pos).
             Done (value, br\<lparr>br_bitpos := pos\<rparr>)))"

record bit_writer =
  bw_buf :: bytes
  bw_bitpos :: nat

fun write_loop :: "bytes \<Rightarrow> nat \<Rightarrow> u32 \<Rightarrow> nat \<Rightarrow> (bytes \<times> nat) res" where
  "write_loop buf bitpos value 0 = Done (buf, bitpos)"
| "write_loop buf bitpos value (Suc i) =
     (if bit value i then
        rd buf (bitpos div 8) (\<lambda>b.
          write_loop (buf[bitpos div 8 := b OR push_bit (7 - bitpos mod 8) 1]) (bitpos + 1) value i)
      else write_loop buf (bitpos + 1) value i)"

definition write_bits :: "bit_writer \<Rightarrow> u32 \<Rightarrow> nat \<Rightarrow> bit_writer res" where
  "write_bits bw value bits =
     seq_res (write_loop (bw_buf bw) (bw_bitpos bw) value bits) (\<lambda>(buf, pos).
       Done (bw\<lparr>bw_buf := buf, bw_bitpos := pos\<rparr>))"

definition bytes_written :: "bit_writer \<Rightarrow> nat" where
  "bytes_written bw = (bw_bitpos bw + 7) div 8"

fun received_bits :: "bytes \<Rightarrow> nat \<Rightarrow> nat \<Rightarrow> byte \<Rightarrow> byte res" where
  "received_bits buf bit_index 0 received = Done received"
| "received_bits buf bit_index (Suc n) received =
     rd buf (bit_index div 8) (\<lambda>b.
       received_bits buf (bit_index + 1) n
         (push_bit 1 received OR (drop_bit (7 - bit_index mod 8) b AND 1)))"

definition crc_over :: "(bytes \<Rightarrow> byte) \<Rightarrow> bytes \<Rightarrow> nat \<Rightarrow> (byte \<Rightarrow> 'a res) \<Rightarrow> 'a res" where
  \<comment> \<open>a checksum call \<open>crc(buf, n)\<close>, which reads \<open>buf[0..n)\<close>\<close>
  "crc_over crc buf n k = (if n \<le> length buf then k (crc (take n buf)) else Fault)"

definition validate_crc7_bits :: "bytes \<Rightarrow> nat \<Rightarrow> bool res" where
  "validate_crc7_bits buf total_bits =
     (if total_bits < 7 then Done False
      else let data_bits = total_bits - 7; data_bytes = (data_bits + 7) div 8 in
        crc_over crc7 buf data_bytes (\<lambda>c.
          seq_res (received_bits buf data_bits 7 0) (\<lambda>received. Done ((c AND 0x7F) = received))))"

definition validate_crc8_bits :: "bytes \<Rightarrow> nat \<Rightarrow> bool res" where
  "validate_crc8_bits buf total_bits =
     (if total_bits < 8 then Done False
      else let data_bits = total_bits - 8; data_bytes = (data_bits + 7) div 8 in
        crc_over crc8 buf data_bytes (\<lambda>c.
          seq_res (received_bits buf data_bits 8 0) (\<lambda>received. Done (c = received))))"

section \<open>Refinement to bit lists\<close>

definition octet_bits :: "byte \<Rightarrow> bool list" where
  "octet_bits b = map (\<lambda>i. bit b (7 - i)) [0..<8]"

definition buf_bits :: "bytes \<Rightarrow> bool list" where
  "buf_bits buf = concat (map octet_bits buf)"

definition msb_bits :: "nat \<Rightarrow> 'a::len word \<Rightarrow> bool list" where
  "msb_bits n v = map (\<lambda>i. bit v (n - 1 - i)) [0..<n]"

lemma length_octet_bits [simp]: "length (octet_bits b) = 8"
  by (simp add: octet_bits_def)

lemma length_buf_bits [simp]: "length (buf_bits buf) = 8 * length buf"
  by (induction buf) (simp_all add: buf_bits_def)

lemma length_msb_bits [simp]: "length (msb_bits n v) = n"
  by (simp add: msb_bits_def)

lemma msb_bits_0 [simp]: "msb_bits 0 v = []"
  by (simp add: msb_bits_def)

lemma msb_bits_Suc: "msb_bits (Suc n) v = bit v n # msb_bits n v"
  by (simp add: msb_bits_def upt_conv_Cons map_Suc_upt [symmetric] del: upt_Suc)

lemma nth_octet_bits: "i < 8 \<Longrightarrow> octet_bits b ! i = bit b (7 - i)"
  by (simp add: octet_bits_def)

lemma nth_buf_bits: "k < 8 * length buf \<Longrightarrow> buf_bits buf ! k = bit (buf ! (k div 8)) (7 - k mod 8)"
proof (induction buf arbitrary: k)
  case (Cons b buf)
  show ?case
  proof (cases "k < 8")
    case True
    then show ?thesis by (simp add: buf_bits_def nth_append nth_octet_bits)
  next
    case False
    then have "k - 8 < 8 * length buf" "k div 8 = Suc ((k - 8) div 8)" "k mod 8 = (k - 8) mod 8"
      using Cons.prems by (auto simp: le_div_geq le_mod_geq)
    with False Cons.IH [of "k - 8"] show ?thesis
      by (simp add: buf_bits_def nth_append)
  qed
qed simp

lemma div8_in: "k < 8 * n \<Longrightarrow> k div 8 < (n :: nat)"
  by (simp add: less_mult_imp_div_less mult.commute)

lemma buf_bits_set:
  assumes "p < 8 * length buf"
  shows "buf_bits (buf[p div 8 := buf ! (p div 8) OR push_bit (7 - p mod 8) 1]) = (buf_bits buf)[p := True]"
proof (rule nth_equalityI)
  fix k assume "k < length (buf_bits (buf[p div 8 := buf ! (p div 8) OR push_bit (7 - p mod 8) 1]))"
  then have k: "k < 8 * length buf" by simp
  have lt: "k div 8 < length buf" "p div 8 < length buf" using k assms by (simp_all add: div8_in)
  have same: "7 - k mod 8 = 7 - p mod 8 \<longleftrightarrow> k mod 8 = p mod 8"
    using mod_less_divisor [of 8 k] mod_less_divisor [of 8 p] by (auto simp: less_Suc_eq_le)
  have "k = p \<longleftrightarrow> k div 8 = p div 8 \<and> k mod 8 = p mod 8"
    by (metis div_mult_mod_eq)
  then show "buf_bits (buf[p div 8 := buf ! (p div 8) OR push_bit (7 - p mod 8) 1]) ! k
      = (buf_bits buf)[p := True] ! k"
    using k lt same assms
    by (auto simp: nth_buf_bits nth_list_update bit_or_iff bit_exp_iff)
qed simp

fun shift_in :: "u32 \<Rightarrow> bool list \<Rightarrow> u32" where
  "shift_in v [] = v"
| "shift_in v (b # bs) = shift_in (push_bit 1 v OR of_bool b) bs"

lemma shift_in_msb: "n \<le> 32 \<Longrightarrow> shift_in v (msb_bits n w) = push_bit n v OR take_bit n w"
proof (induction n arbitrary: v)
  case (Suc n)
  then have "shift_in v (msb_bits (Suc n) w)
      = push_bit n (push_bit 1 v OR of_bool (bit w n)) OR take_bit n w"
    by (simp add: msb_bits_Suc)
  also have "\<dots> = push_bit (Suc n) v OR take_bit (Suc n) w"
    using Suc.prems
    by (intro bit_word_eqI) (auto simp: bit_simps less_Suc_eq bit_1_iff split: if_splits)
  finally show ?case .
qed simp

lemma read_loop_bits:
  "p + n \<le> 8 * length buf \<Longrightarrow>
   read_loop buf p n v = Done (shift_in v (take n (drop p (buf_bits buf))), p + n)"
proof (induction n arbitrary: p v)
  case (Suc n)
  then have p: "p < 8 * length buf" by simp
  then have "take (Suc n) (drop p (buf_bits buf)) = buf_bits buf ! p # take n (drop (Suc p) (buf_bits buf))"
    by (simp add: take_Suc Cons_nth_drop_Suc [symmetric])
  moreover have "drop_bit (7 - p mod 8) (ucast (buf ! (p div 8))) AND (1 :: u32)
      = of_bool (buf_bits buf ! p)"
  proof -
    have "7 - p mod 8 < (32 :: nat)" by arith
    with p show ?thesis
      by (simp add: nth_buf_bits and_one_eq mod_2_eq_odd bit_unsigned_iff flip: bit_iff_odd_drop_bit)
  qed
  ultimately show ?case
    using Suc p by (simp add: div8_in)
qed simp

lemma write_loop_bits:
  assumes "p + n \<le> 8 * length buf" and "\<And>k. p \<le> k \<Longrightarrow> k < 8 * length buf \<Longrightarrow> \<not> buf_bits buf ! k"
  shows "\<exists>buf'. write_loop buf p v n = Done (buf', p + n) \<and> length buf' = length buf \<and>
           buf_bits buf' = take p (buf_bits buf) @ msb_bits n v @ drop (p + n) (buf_bits buf)"
  using assms
proof (induction n arbitrary: p buf)
  case (Suc n)
  define buf1 where
    "buf1 = (if bit v n then buf[p div 8 := buf ! (p div 8) OR push_bit (7 - p mod 8) 1] else buf)"
  from Suc.prems(1) have p: "p < 8 * length buf" by simp
  have len1: "length buf1 = length buf" by (simp add: buf1_def)
  have bits: "buf_bits buf1 = (buf_bits buf)[p := bit v n]"
    using buf_bits_set [OF p] Suc.prems(2) [of p] p list_update_id [of "buf_bits buf" p]
    by (simp add: buf1_def)
  have "\<not> buf_bits buf1 ! k" if "Suc p \<le> k" "k < 8 * length buf1" for k
    unfolding bits using that Suc.prems(2) [of k] by (simp add: len1)
  then obtain buf' where w: "write_loop buf1 (Suc p) v n = Done (buf', Suc p + n)"
    and l: "length buf' = length buf1"
    and b: "buf_bits buf' = take (Suc p) (buf_bits buf1) @ msb_bits n v @ drop (Suc p + n) (buf_bits buf1)"
    using Suc.IH [of "Suc p" buf1] Suc.prems(1) len1 by auto
  have "write_loop buf p v (Suc n) = write_loop buf1 (Suc p) v n"
    using p by (simp add: div8_in buf1_def)
  moreover have "take (Suc p) ((buf_bits buf)[p := bit v n]) = take p (buf_bits buf) @ [bit v n]"
    using p by (simp add: take_Suc_conv_app_nth)
  ultimately show ?case
    using w l b bits len1 by (simp add: msb_bits_Suc)
qed simp

section \<open>Sequences of fields\<close>

fun write_fields :: "bit_writer \<Rightarrow> (u32 \<times> nat) list \<Rightarrow> bit_writer res" where
  "write_fields bw [] = Done bw"
| "write_fields bw ((v, n) # fs) = seq_res (write_bits bw v n) (\<lambda>bw. write_fields bw fs)"

fun read_fields :: "bit_reader \<Rightarrow> nat list \<Rightarrow> (u32 list \<times> bit_reader) res" where
  "read_fields br [] = Done ([], br)"
| "read_fields br (n # ns) = seq_res (read_bits br n) (\<lambda>(v, br).
     seq_res (read_fields br ns) (\<lambda>(vs, br). Done (v # vs, br)))"

definition written :: "bit_writer \<Rightarrow> bool list" where
  "written bw = take (bw_bitpos bw) (buf_bits (bw_buf bw))"

definition clean :: "bit_writer \<Rightarrow> bool" where
  "clean bw \<longleftrightarrow> (\<forall>k. bw_bitpos bw \<le> k \<longrightarrow> k < 8 * length (bw_buf bw) \<longrightarrow> \<not> buf_bits (bw_buf bw) ! k)"

definition room :: "bit_writer \<Rightarrow> nat" where
  "room bw = 8 * length (bw_buf bw) - bw_bitpos bw"

definition pending :: "bit_reader \<Rightarrow> bool list" where
  "pending br = drop (br_bitpos br) (buf_bits (br_buf br))"

definition usable :: "bit_reader \<Rightarrow> bool" where
  \<comment> \<open>valid, and declared at least as long as the buffer it points to\<close>
  "usable br \<longleftrightarrow> br_valid br \<and> 8 * length (br_buf br) \<le> bit_len br \<and> br_bitpos br \<le> bit_len br"

lemma write_bits_law:
  assumes "clean bw" and "n \<le> room bw" and "bw_bitpos bw \<le> 8 * length (bw_buf bw)"
  shows "\<exists>bw'. write_bits bw v n = Done bw' \<and> clean bw' \<and> length (bw_buf bw') = length (bw_buf bw) \<and>
           bw_bitpos bw' = bw_bitpos bw + n \<and> written bw' = written bw @ msb_bits n v"
proof -
  have fits: "bw_bitpos bw + n \<le> 8 * length (bw_buf bw)"
    using assms by (simp add: room_def)
  then obtain buf' where w: "write_loop (bw_buf bw) (bw_bitpos bw) v n = Done (buf', bw_bitpos bw + n)"
    and l: "length buf' = length (bw_buf bw)"
    and b: "buf_bits buf' = take (bw_bitpos bw) (buf_bits (bw_buf bw)) @ msb_bits n v
              @ drop (bw_bitpos bw + n) (buf_bits (bw_buf bw))"
    using write_loop_bits [of "bw_bitpos bw" n "bw_buf bw" v] assms(1) by (auto simp: clean_def)
  let ?bw = "bw\<lparr>bw_buf := buf', bw_bitpos := bw_bitpos bw + n\<rparr>"
  have "clean ?bw"
    using assms(1) fits unfolding clean_def by (auto simp: b l nth_append min_absorb2)
  moreover have "written ?bw = written bw @ msb_bits n v"
    using fits by (simp add: written_def b min_absorb2)
  moreover have "write_bits bw v n = Done ?bw"
    by (simp add: write_bits_def w)
  ultimately show ?thesis using l by (intro exI [of _ ?bw]) simp
qed

lemma read_bits_law:
  assumes "usable br" and "pending br = msb_bits n v @ rest" and "n \<le> 32"
  shows "read_bits br n = Done (take_bit n v, br\<lparr>br_bitpos := br_bitpos br + n\<rparr>) \<and>
         pending (br\<lparr>br_bitpos := br_bitpos br + n\<rparr>) = rest \<and>
         usable (br\<lparr>br_bitpos := br_bitpos br + n\<rparr>)"
proof -
  have len: "8 * length (br_buf br) - br_bitpos br = n + length rest"
    using arg_cong [OF assms(2), of length] by (simp add: pending_def)
  show ?thesis
  proof (cases "n = 0")
    case True
    with assms show ?thesis
      by (cases br) (simp add: read_bits_def can_read_def usable_def pending_def)
  next
    case False
    with len have fits: "br_bitpos br + n \<le> 8 * length (br_buf br)" by linarith
    then have "can_read br n" using assms(1) by (auto simp: can_read_def usable_def)
    moreover have "take n (drop (br_bitpos br) (buf_bits (br_buf br))) = msb_bits n v"
      using assms(2) by (simp add: pending_def)
    moreover have "pending (br\<lparr>br_bitpos := br_bitpos br + n\<rparr>) = drop n (pending br)"
      by (simp add: pending_def add.commute)
    ultimately show ?thesis
      using assms fits by (simp add: read_bits_def read_loop_bits shift_in_msb usable_def)
  qed
qed

abbreviation field_bits :: "(u32 \<times> nat) list \<Rightarrow> bool list" where
  "field_bits fs \<equiv> concat (map (\<lambda>(v, n). msb_bits n v) fs)"

abbreviation field_width :: "(u32 \<times> nat) list \<Rightarrow> nat" where
  "field_width fs \<equiv> sum_list (map snd fs)"

lemma write_fields_law:
  assumes "clean bw" and "field_width fs \<le> room bw" and "bw_bitpos bw \<le> 8 * length (bw_buf bw)"
  shows "\<exists>bw'. write_fields bw fs = Done bw' \<and> clean bw' \<and> length (bw_buf bw') = length (bw_buf bw) \<and>
           bw_bitpos bw' = bw_bitpos bw + field_width fs \<and> written bw' = written bw @ field_bits fs"
  using assms
proof (induction fs arbitrary: bw)
  case (Cons f fs)
  obtain v n where f: "f = (v, n)" by (cases f)
  with Cons.prems have "n \<le> room bw" by simp
  then obtain bw1 where w: "write_bits bw v n = Done bw1" "clean bw1"
    "length (bw_buf bw1) = length (bw_buf bw)" "bw_bitpos bw1 = bw_bitpos bw + n"
    "written bw1 = written bw @ msb_bits n v"
    using write_bits_law [of bw n v] Cons.prems by blast
  then have "field_width fs \<le> room bw1" "bw_bitpos bw1 \<le> 8 * length (bw_buf bw1)"
    using Cons.prems f by (auto simp: room_def)
  then obtain bw2 where "write_fields bw1 fs = Done bw2" "clean bw2"
    "length (bw_buf bw2) = length (bw_buf bw1)" "bw_bitpos bw2 = bw_bitpos bw1 + field_width fs"
    "written bw2 = written bw1 @ field_bits fs"
    using Cons.IH w(2) by blast
  with w f show ?case by simp
qed simp

lemma read_fields_law:
  assumes "usable br" and "pending br = field_bits fs @ rest" and "list_all (\<lambda>(v, n). n \<le> 32) fs"
  shows "read_fields br (map snd fs)
           = Done (map (\<lambda>(v, n). take_bit n v) fs, br\<lparr>br_bitpos := br_bitpos br + field_width fs\<rparr>) \<and>
         pending (br\<lparr>br_bitpos := br_bitpos br + field_width fs\<rparr>) = rest \<and>
         usable (br\<lparr>br_bitpos := br_bitpos br + field_width fs\<rparr>)"
  using assms
proof (induction fs arbitrary: br)
  case (Cons f fs)
  obtain v n where f: "f = (v, n)" by (cases f)
  let ?br = "br\<lparr>br_bitpos := br_bitpos br + n\<rparr>"
  have r: "read_bits br n = Done (take_bit n v, ?br)" "pending ?br = field_bits fs @ rest" "usable ?br"
    using read_bits_law [of br n v "field_bits fs @ rest"] Cons.prems f by auto
  show ?case using Cons.IH [of ?br] r Cons.prems f by (simp add: add.assoc)
qed simp

text \<open>A zeroed buffer of \<open>n\<close> octets is a clean writer, and a buffer that was filled exactly is read
  back field by field.\<close>

lemma buf_bits_zero: "buf_bits (replicate n 0) = replicate (8 * n) False"
  by (rule nth_equalityI) (simp_all add: nth_buf_bits div8_in)

definition fresh_writer :: "nat \<Rightarrow> bit_writer" where
  "fresh_writer n = \<lparr>bw_buf = replicate n 0, bw_bitpos = 0\<rparr>"

lemma write_fields_fresh:
  assumes "field_width fs \<le> 8 * n"
  shows "\<exists>bw. write_fields (fresh_writer n) fs = Done bw \<and> length (bw_buf bw) = n \<and>
           bw_bitpos bw = field_width fs \<and> take (field_width fs) (buf_bits (bw_buf bw)) = field_bits fs"
  using write_fields_law [of "fresh_writer n" fs] assms
  by (auto simp: fresh_writer_def clean_def room_def written_def buf_bits_zero)

lemma usable_unbounded: "length b \<le> size_max div 8 \<Longrightarrow> usable (bit_reader_unbounded b)"
  by (simp add: usable_def bit_reader_unbounded_def bit_reader_bounded_def)

lemma pending_unbounded: "pending (bit_reader_unbounded b) = buf_bits b"
  by (simp add: pending_def bit_reader_unbounded_def bit_reader_bounded_def)

text \<open>Every list of bits is the bits of a sequence of fields, and the octets are determined by
  their bits.\<close>

lemma msb_bits_cong: "(\<And>i. i < n \<Longrightarrow> bit v i = bit w i) \<Longrightarrow> msb_bits n v = msb_bits n w"
  by (simp add: msb_bits_def)

lemma bits_value: "length bs \<le> 32 \<Longrightarrow> \<exists>v :: u32. bs = msb_bits (length bs) v"
proof (induction bs)
  case (Cons b bs)
  then obtain v :: u32 where v: "bs = msb_bits (length bs) v" by auto
  define w :: u32 where "w = take_bit (length bs) v OR (if b then 2 ^ length bs else 0)"
  have "bit w (length bs) = b" using Cons.prems by (simp add: w_def bit_simps)
  moreover have "msb_bits (length bs) w = msb_bits (length bs) v"
    using Cons.prems by (intro msb_bits_cong) (auto simp: w_def bit_simps)
  ultimately have "b # bs = msb_bits (length (b # bs)) w" using v by (simp add: msb_bits_Suc)
  then show ?case by blast
qed simp

lemma fields_of_bits:
  "length bs = sum_list ns \<Longrightarrow> list_all (\<lambda>n. n \<le> 32) ns \<Longrightarrow> \<exists>vs. length vs = length ns \<and> bs = field_bits (zip vs ns)"
proof (induction ns arbitrary: bs)
  case (Cons n ns)
  obtain v :: u32 where v: "take n bs = msb_bits n v"
    using bits_value [of "take n bs"] Cons.prems by auto
  obtain vs where vs: "length vs = length ns" "drop n bs = field_bits (zip vs ns)"
    using Cons.IH [of "drop n bs"] Cons.prems by auto
  have "bs = take n bs @ drop n bs" by simp
  then have "bs = field_bits (zip (v # vs) (n # ns))" using v vs(2) by simp
  then show ?case using vs(1) by (intro exI [of _ "v # vs"]) simp
qed simp

lemma buf_bits_inj:
  assumes "length a = length b" and "buf_bits a = buf_bits b"
  shows "a = b"
proof (rule nth_equalityI [OF assms(1)])
  fix i assume i: "i < length a"
  have flip: "bit (a ! i) (7 - j) = bit (b ! i) (7 - j)" if "j < 8" for j
    using nth_buf_bits [of "8 * i + j" a] nth_buf_bits [of "8 * i + j" b] assms i that by simp
  have "bit (a ! i) n = bit (b ! i) n" if "n < 8" for n
    using flip [of "7 - n"] that by simp
  then show "a ! i = b ! i" by (simp add: byte_eq_bits)
qed

section \<open>Properties\<close>

text \<open>Bit fields round-trip. For every sequence of fields of at most 32 bits that fits in a
  zeroed buffer, writing them one after another with \<open>BitWriter\<close> succeeds without touching memory
  outside the buffer, and reading the same widths with \<open>BitReader\<close> from the start returns every
  field cut to its width and ends at the bit position where the writer stopped.\<close>

theorem bit_fields_roundtrip:
  assumes "field_width fs \<le> 8 * n" and "n \<le> size_max div 8" and "list_all (\<lambda>(v, k). k \<le> 32) fs"
  shows "\<exists>bw. write_fields (fresh_writer n) fs = Done bw \<and> length (bw_buf bw) = n \<and>
           read_fields (bit_reader_unbounded (bw_buf bw)) (map snd fs)
             = Done (map (\<lambda>(v, k). take_bit k v) fs,
                     (bit_reader_unbounded (bw_buf bw))\<lparr>br_bitpos := bw_bitpos bw\<rparr>)"
proof -
  obtain bw where w: "write_fields (fresh_writer n) fs = Done bw" "length (bw_buf bw) = n"
    "bw_bitpos bw = field_width fs" "take (field_width fs) (buf_bits (bw_buf bw)) = field_bits fs"
    using write_fields_fresh [OF assms(1)] by blast
  let ?br = "bit_reader_unbounded (bw_buf bw)"
  have "pending ?br = field_bits fs @ drop (field_width fs) (buf_bits (bw_buf bw))"
    by (metis append_take_drop_id pending_unbounded w(4))
  moreover have "usable ?br" using assms(2) w(2) by (simp add: usable_unbounded)
  ultimately have "read_fields ?br (map snd fs)
      = Done (map (\<lambda>(v, k). take_bit k v) fs, ?br\<lparr>br_bitpos := br_bitpos ?br + field_width fs\<rparr>)"
    using read_fields_law [of ?br fs] assms(3) by blast
  moreover have "br_bitpos ?br = 0" by (simp add: bit_reader_unbounded_def bit_reader_bounded_def)
  ultimately show ?thesis using w by (intro exI [of _ bw]) simp
qed

theorem bit_fields_roundtrip_witness:
  "\<exists>bw. write_fields (fresh_writer 2) [(5, 3), (0x155, 9), (3, 4)] = Done bw \<and> length (bw_buf bw) = 2 \<and>
     read_fields (bit_reader_unbounded (bw_buf bw)) [3, 9, 4]
       = Done ([5, 0x155, 3], (bit_reader_unbounded (bw_buf bw))\<lparr>br_bitpos := bw_bitpos bw\<rparr>)"
  using bit_fields_roundtrip [of "[(5, 3), (0x155, 9), (3, 4)]" 2]
  by (simp add: size_max_def)

end
