(* ===== verification/Lsb.thy ===== *)
theory Lsb
  imports Cid
begin

text \<open>
  Least-significant-bit encodings of header fields: the interpretation window
  \<open>LsbWindow\<close> (\<open>core/lsb_window.hpp\<close>, in the 32-bit instance the library decodes with) and the
  numeric half of \<open>core/encoding_methods.hpp\<close> (lines 42--290 and 563--625): W-LSB with an offset
  parameter, IP-ID offsets, scaled and timer-based RTP timestamps. Shift counts that C++ leaves
  undefined are \<open>Fault\<close>.
\<close>

section \<open>LsbWindow\<close>

record 'a lsb_window =
  win_ref :: 'a

definition lsb_init :: "'a \<Rightarrow> 'a lsb_window" where
  "lsb_init initial = \<lparr>win_ref = initial\<rparr>"

definition lsb_update :: "'a lsb_window \<Rightarrow> 'a \<Rightarrow> 'a lsb_window" where
  "lsb_update w value = w\<lparr>win_ref := value\<rparr>"

definition dist_mod :: "u32 \<Rightarrow> u32 \<Rightarrow> u32" where
  "dist_mod a b =
     (let d = (if a \<ge> b then a - b else b - a);
          wrap = NOT 0 - d + 1
      in if d < wrap then d else wrap)"

definition lsb_decode :: "u32 lsb_window \<Rightarrow> u32 \<Rightarrow> nat \<Rightarrow> u32 res" where
  "lsb_decode w lsb k =
     (if k \<ge> 32 then Fault
      else let range = push_bit k 1;
               half = drop_bit 1 range;
               base = ((win_ref w + half) div range) * range;
               c0 = base + lsb;
               c1 = c0 + range;
               c2 = c0 - range;
               best = c0;
               best_dist = dist_mod c0 (win_ref w);
               d1 = dist_mod c1 (win_ref w);
               (best, best_dist) = (if d1 < best_dist then (c1, d1) else (best, best_dist));
               d2 = dist_mod c2 (win_ref w)
           in Done (if d2 < best_dist then c2 else best))"

section \<open>W-LSB with offset\<close>

datatype encoded_field =
  RtpSequence | RtpTimestamp | IpId | IpIdOffset | UdpChecksum | UdpLiteCoverage

definition natural_field_width :: "encoded_field \<Rightarrow> nat" where
  "natural_field_width f = (case f of
     RtpTimestamp \<Rightarrow> 32 | RtpSequence \<Rightarrow> 16 | IpId \<Rightarrow> 16 | IpIdOffset \<Rightarrow> 16
   | UdpChecksum \<Rightarrow> 16 | UdpLiteCoverage \<Rightarrow> 16)"

definition default_lsb_width :: "encoded_field \<Rightarrow> nat" where
  "default_lsb_width f = (case f of
     RtpSequence \<Rightarrow> 6 | RtpTimestamp \<Rightarrow> 8
   | IpId \<Rightarrow> natural_field_width f | IpIdOffset \<Rightarrow> natural_field_width f
   | UdpChecksum \<Rightarrow> natural_field_width f | UdpLiteCoverage \<Rightarrow> natural_field_width f)"

definition mask_for_width :: "nat \<Rightarrow> u32" where
  "mask_for_width width = (if width \<ge> 32 then 0xFFFFFFFF else push_bit width 1 - 1)"

definition least_significant_bits :: "u32 \<Rightarrow> nat \<Rightarrow> u32" where
  "least_significant_bits value width = value AND mask_for_width width"

definition lsb_u16 :: "u16 \<Rightarrow> nat \<Rightarrow> u16" where
  "lsb_u16 value width = ucast (least_significant_bits (ucast value) width)"

definition lsb_u32 :: "u32 \<Rightarrow> nat \<Rightarrow> u32" where
  "lsb_u32 value width = least_significant_bits value width"

function minimal_lsb_width :: "u32 \<Rightarrow> u32 \<Rightarrow> nat \<Rightarrow> nat" where
  "minimal_lsb_width value reference width =
     (if width < 32 then
        (if least_significant_bits value width \<noteq> least_significant_bits reference width then width
         else minimal_lsb_width value reference (width + 1))
      else 32)"
  by pat_completeness auto
termination by (relation "measure (\<lambda>(v, r, w). 32 - w)") auto

declare minimal_lsb_width.simps [simp del]

definition modulus_for_width :: "nat \<Rightarrow> u64" where
  "modulus_for_width width = (if width \<ge> 32 then push_bit 32 1 else push_bit width 1)"

definition decode_lsb_with_p :: "u32 \<Rightarrow> nat \<Rightarrow> u32 \<Rightarrow> u32 \<Rightarrow> nat \<Rightarrow> u32 res" where
  "decode_lsb_with_p lsb width reference p field_width =
     (if width = 0 \<or> field_width = 0 \<or> field_width > 32 \<or> width > field_width then Reject
      else let range = modulus_for_width width;
               modulus = modulus_for_width field_width in
        if ucast p \<ge> range \<or> (ucast lsb AND (range - 1)) \<noteq> ucast lsb then Reject
        else if width = field_width then Done (lsb AND mask_for_width field_width)
        else let ref = ucast reference AND (modulus - 1);
                 lower = (ref + modulus - (ucast p mod modulus)) mod modulus;
                 candidate = (lower AND NOT (range - 1)) OR ucast lsb;
                 candidate = (if (candidate + modulus - lower) mod modulus \<ge> range
                              then (candidate + range) mod modulus else candidate)
             in Done (ucast (candidate AND (modulus - 1))))"

definition encode_offset_ip_id :: "u16 \<Rightarrow> u16 \<Rightarrow> u16" where
  "encode_offset_ip_id ip_id sequence = ip_id - sequence"

definition decode_offset_ip_id :: "u16 \<Rightarrow> u16 \<Rightarrow> u16" where
  "decode_offset_ip_id offset sequence = sequence + offset"

definition encode_field_lsb :: "encoded_field \<Rightarrow> u32 \<Rightarrow> nat \<Rightarrow> u32" where
  "encode_field_lsb f value width =
     (let effective_width = (if width = 0 then default_lsb_width f else width)
      in least_significant_bits value effective_width)"

definition decode_field_lsb_with_p :: "encoded_field \<Rightarrow> u32 \<Rightarrow> u32 \<Rightarrow> nat \<Rightarrow> u32 \<Rightarrow> u32 res" where
  "decode_field_lsb_with_p f lsb reference width p =
     (let effective_width = (if width = 0 then default_lsb_width f else width)
      in decode_lsb_with_p lsb effective_width reference p (natural_field_width f))"

definition decode_field_lsb :: "encoded_field \<Rightarrow> u32 \<Rightarrow> u32 \<Rightarrow> nat \<Rightarrow> u32" where
  "decode_field_lsb f lsb reference width =
     (let effective_width = (if width = 0 then default_lsb_width f else width);
          default_p = (if effective_width \<ge> natural_field_width f then 0
                       else push_bit (effective_width - 1) 1)
      in case decode_field_lsb_with_p f lsb reference effective_width default_p of
           Done decoded \<Rightarrow> decoded | _ \<Rightarrow> 0)"

definition decode_ip_id_offset_lsb_with_p :: "u16 \<Rightarrow> u16 \<Rightarrow> u16 \<Rightarrow> nat \<Rightarrow> u32 \<Rightarrow> u16 res" where
  "decode_ip_id_offset_lsb_with_p offset_lsb sequence reference_offset width p =
     seq_res (decode_field_lsb_with_p IpIdOffset (ucast offset_lsb) (ucast reference_offset) width p)
       (\<lambda>offset. Done (decode_offset_ip_id (ucast offset) sequence))"

definition encode_ip_id_offset_lsb :: "u16 \<Rightarrow> u16 \<Rightarrow> nat \<Rightarrow> u16" where
  "encode_ip_id_offset_lsb ip_id sequence width =
     (let offset = encode_offset_ip_id ip_id sequence
      in ucast (encode_field_lsb IpIdOffset (ucast offset) width))"

definition decode_ip_id_offset_lsb :: "u16 \<Rightarrow> u16 \<Rightarrow> u16 \<Rightarrow> nat \<Rightarrow> u16" where
  "decode_ip_id_offset_lsb offset_lsb sequence reference_offset width =
     (let offset = ucast (decode_field_lsb IpIdOffset (ucast offset_lsb) (ucast reference_offset) width)
      in decode_offset_ip_id offset sequence)"

section \<open>Scaled and timer-based timestamps\<close>

definition infer_timestamp_stride :: "u16 \<Rightarrow> u32 \<Rightarrow> u16 \<Rightarrow> u32 \<Rightarrow> (u32 \<times> u32) option" where
  "infer_timestamp_stride previous_seq previous_ts current_seq current_ts =
     (let seq_delta = current_seq - previous_seq;
          ts_delta = current_ts - previous_ts in
      if seq_delta = 0 \<or> ts_delta = 0 \<or> ts_delta mod ucast seq_delta \<noteq> 0 then None
      else let stride = ts_delta div ucast seq_delta in
        if stride > 1000 then None
        else Some (stride, if stride = 0 then 0 else current_ts mod stride))"

definition can_scale_timestamp :: "u32 \<Rightarrow> u32 \<Rightarrow> bool" where
  "can_scale_timestamp timestamp stride \<longleftrightarrow> stride \<noteq> 0 \<and> timestamp mod stride = 0"

definition can_scale_timestamp_residue :: "u32 \<Rightarrow> u32 \<Rightarrow> u32 \<Rightarrow> bool" where
  "can_scale_timestamp_residue timestamp stride residue \<longleftrightarrow>
     stride \<noteq> 0 \<and> timestamp mod stride = residue mod stride"

record scaled_timestamp =
  ts_scaled_value :: u32
  ts_scaled_residue :: u32

definition scale_timestamp :: "u32 \<Rightarrow> u32 \<Rightarrow> scaled_timestamp" where
  "scale_timestamp timestamp stride =
     \<lparr>ts_scaled_value = (if stride = 0 then timestamp else timestamp div stride),
      ts_scaled_residue = (if stride = 0 then 0 else timestamp mod stride)\<rparr>"

definition unscale_timestamp :: "u32 \<Rightarrow> u32 \<Rightarrow> u32 \<Rightarrow> u32" where
  "unscale_timestamp scaled stride residue = (if stride = 0 then scaled else scaled * stride + residue)"

definition advance_timer_scaled_timestamp :: "u32 \<Rightarrow> u32 \<Rightarrow> u32 \<Rightarrow> u32 option" where
  "advance_timer_scaled_timestamp reference_timestamp timestamp_stride elapsed_timer_ticks =
     (if timestamp_stride = 0 then None
      else Some (reference_timestamp + timestamp_stride * elapsed_timer_ticks))"

definition decode_scaled_lsb :: "u32 \<Rightarrow> nat \<Rightarrow> u32 \<Rightarrow> u32 \<Rightarrow> u32 \<Rightarrow> u32 res" where
  "decode_scaled_lsb scaled_lsb width reference_timestamp stride residue =
     (if stride = 0 then lsb_decode (lsb_init reference_timestamp) scaled_lsb width
      else let reference_scaled = reference_timestamp div stride in
        seq_res (lsb_decode (lsb_init reference_scaled) scaled_lsb width) (\<lambda>decoded_scaled.
          Done (unscale_timestamp decoded_scaled stride residue)))"

definition decode_scaled_lsb_with_timestamp_prediction ::
    "u32 \<Rightarrow> nat \<Rightarrow> u32 \<Rightarrow> u32 \<Rightarrow> u32 \<Rightarrow> u32 \<Rightarrow> u32 res" where
  "decode_scaled_lsb_with_timestamp_prediction scaled_lsb width predicted_timestamp
       fallback_reference_timestamp stride residue =
     (let predicted_scaled = scale_timestamp predicted_timestamp stride in
      if stride \<noteq> 0 \<and> encode_field_lsb RtpTimestamp (ts_scaled_value predicted_scaled) width = scaled_lsb
      then Done predicted_timestamp
      else decode_scaled_lsb scaled_lsb width fallback_reference_timestamp stride residue)"

definition decode_timer_scaled_lsb :: "u32 \<Rightarrow> nat \<Rightarrow> u32 \<Rightarrow> u32 \<Rightarrow> u32 \<Rightarrow> u32 \<Rightarrow> u32 option res" where
  "decode_timer_scaled_lsb scaled_lsb width reference_timestamp timestamp_stride elapsed_timer_ticks residue =
     (case advance_timer_scaled_timestamp reference_timestamp timestamp_stride elapsed_timer_ticks of
        None \<Rightarrow> Done None
      | Some advanced \<Rightarrow>
          seq_res (decode_scaled_lsb_with_timestamp_prediction scaled_lsb width advanced advanced
                     timestamp_stride residue) (\<lambda>ts. Done (Some ts)))"

section \<open>What W-LSB decoding computes\<close>

text \<open>
  The decoding interval of a field of \<open>N\<close> values sent in \<open>R\<close> values starts \<open>p\<close> below the
  reference. \<open>wlsb\<close> is the arithmetic specification: the member of the interval that ends in
  \<open>lsb\<close>.
\<close>

definition wlsb_offset :: "nat \<Rightarrow> nat \<Rightarrow> nat \<Rightarrow> nat \<Rightarrow> nat" where
  "wlsb_offset N ref p v = (v + N - (ref + N - p) mod N) mod N"

lemma wlsb_unique:
  assumes "R dvd N" and "v < N" and "w < N" and "v mod R = w mod R"
    and "wlsb_offset N ref p v < R" and "wlsb_offset N ref p w < R"
  shows "v = w"
proof -
  define l where "l = (ref + N - p) mod N"
  have l: "l < N" using assms(2) by (simp add: l_def)
  have ret: "(wlsb_offset N ref p x + l) mod N = x" if "x < N" for x
  proof -
    have "(wlsb_offset N ref p x + l) mod N = (x + N - l + l) mod N"
      by (simp add: wlsb_offset_def l_def [symmetric] mod_add_left_eq)
    also have "\<dots> = x" using l that by simp
    finally show ?thesis .
  qed
  have "(wlsb_offset N ref p v + l) mod R = (wlsb_offset N ref p w + l) mod R"
    using ret [OF assms(2)] ret [OF assms(3)] assms(1,4) by (metis mod_mod_cancel)
  then have "wlsb_offset N ref p v mod R = wlsb_offset N ref p w mod R"
    by (rule mod_add_right_cancel_nat)
  then have "wlsb_offset N ref p v = wlsb_offset N ref p w" using assms(5,6) by simp
  then show ?thesis using ret [OF assms(2)] ret [OF assms(3)] by metis
qed

definition wlsb :: "nat \<Rightarrow> nat \<Rightarrow> nat \<Rightarrow> nat \<Rightarrow> nat \<Rightarrow> nat" where
  "wlsb N R ref p lsb =
     (let lower = (ref + N - p) mod N; candidate = lower div R * R + lsb in
      if (candidate + N - lower) mod N \<ge> R then (candidate + R) mod N else candidate)"

lemma wlsb_spec:
  assumes "N = R * q" and "2 \<le> q" and "lsb < R" and "p < R" and "ref < N"
  shows "wlsb N R ref p lsb < N \<and> wlsb N R ref p lsb mod R = lsb \<and>
         wlsb_offset N ref p (wlsb N R ref p lsb) < R"
proof -
  define lower where "lower = (ref + N - p) mod N"
  define m where "m = lower mod R"
  define h where "h = lower div R"
  have R0: "0 < R" and N0: "0 < N" using assms by auto
  have RR: "2 * R \<le> N" using assms(1,2) by simp
  have lN: "lower < N" using N0 by (simp add: lower_def)
  have split: "lower = h * R + m" and mR: "m < R" by (simp_all add: m_def h_def R0)
  have hq: "h < q" using lN assms(1) R0 unfolding h_def by (simp add: less_mult_imp_div_less mult.commute)
  then have top: "h * R + R \<le> N" using assms(1) by (metis Suc_leI add.commute mult.commute mult_Suc_right mult_le_mono2)
  show ?thesis
  proof (cases "m \<le> lsb")
    case True
    then have "h * R + lsb + N - lower = N + (lsb - m)" using split by simp
    moreover have "lsb - m < R" "lsb - m < N" using assms(3) RR by auto
    ultimately have d: "(h * R + lsb + N - lower) mod N = lsb - m" by simp
    then have "wlsb N R ref p lsb = h * R + lsb"
      using \<open>lsb - m < R\<close> by (simp add: wlsb_def Let_def lower_def [symmetric] h_def [symmetric])
    then show ?thesis
      using d assms(3) top by (simp add: wlsb_offset_def lower_def [symmetric] less_imp_diff_less)
  next
    case False
    then have e: "h * R + lsb + N - lower = N - (m - lsb)" using split by simp
    have g: "R \<le> N - (m - lsb)" "N - (m - lsb) < N" using False mR RR by auto
    have "(h * R + lsb + N - lower) mod N = N - (m - lsb)" using e g(2) by simp
    then have w: "wlsb N R ref p lsb = (h * R + lsb + R) mod N"
      using g(1) by (simp add: wlsb_def Let_def lower_def [symmetric] h_def [symmetric])
    have "R dvd N" using assms(1) by simp
    then have r: "wlsb N R ref p lsb mod R = lsb" using w assms(3) by (simp add: mod_mod_cancel)
    have "wlsb_offset N ref p (wlsb N R ref p lsb) = ((h * R + lsb + R) mod N + (N - lower)) mod N"
      using lN by (simp add: wlsb_offset_def lower_def [symmetric] w)
    also have "\<dots> = (h * R + lsb + R + (N - lower)) mod N" by (simp add: mod_add_left_eq)
    also have "h * R + lsb + R + (N - lower) = N + (R - (m - lsb))" using split False mR lN by simp
    also have "(N + (R - (m - lsb))) mod N = R - (m - lsb)" using RR R0 by simp
    finally show ?thesis using r w N0 False R0 by simp
  qed
qed

lemma unat_exp: "n < LENGTH('a) \<Longrightarrow> unat (2 ^ n :: 'a::len word) = 2 ^ n"
proof -
  assume "n < LENGTH('a)"
  then have "(2 :: nat) ^ n < 2 ^ LENGTH('a)" by simp
  then have "unat (of_nat (2 ^ n) :: 'a word) = 2 ^ n"
    by (simp only: unsigned_of_nat take_bit_nat_eq_self of_nat_id)
  then show ?thesis by simp
qed

lemma uint_exp: "n < LENGTH('a) \<Longrightarrow> uint (2 ^ n :: 'a::len word) = 2 ^ n"
  using unat_exp [of n] by (metis of_nat_numeral of_nat_power uint_nat)

lemma unat_modulus_for_width: "w \<le> 32 \<Longrightarrow> unat (modulus_for_width w) = 2 ^ w"
  by (auto simp: modulus_for_width_def unat_exp)

lemma modulus_minus_1: "w \<le> 32 \<Longrightarrow> modulus_for_width w - 1 = mask w"
  by (auto simp: modulus_for_width_def mask_eq_exp_minus_1)

lemma mask_for_width_mask: "w \<le> 32 \<Longrightarrow> mask_for_width w = mask w"
  by (auto simp: mask_for_width_def mask_eq_exp_minus_1 mask_numeral)

lemma least_significant_bits_take_bit: "w \<le> 32 \<Longrightarrow> least_significant_bits v w = take_bit w v"
  by (simp add: least_significant_bits_def mask_for_width_mask take_bit_eq_mask)

lemma decode_lsb_with_p_eq:
  assumes "0 < w" and "w < fw" and "fw \<le> 32" and "unat p < 2 ^ w" and "unat lsb < 2 ^ w"
  shows "\<exists>v. decode_lsb_with_p lsb w reference p fw = Done v \<and>
           unat v = wlsb (2 ^ fw) (2 ^ w) (unat reference mod 2 ^ fw) (unat p) (unat lsb)"
proof -
  define N R :: nat where "N = 2 ^ fw" and "R = 2 ^ w"
  define M K where "M = modulus_for_width fw" and "K = modulus_for_width w"
  have M: "unat M = N" and K: "unat K = R" and Mm: "M - 1 = mask fw" and Km: "K - 1 = mask w"
    using assms(2,3) by (simp_all add: M_def K_def N_def R_def unat_modulus_for_width modulus_minus_1)
  have RN: "R < N" using assms(2) by (simp add: N_def R_def)
  have N32: "N \<le> 2 ^ 32" using assms(3) unfolding N_def by (rule power_increasing) simp
  have pR: "unat p < R" and lR: "unat lsb < R" using assms(4,5) by (simp_all add: R_def)
  define ref :: u64 where "ref = ucast reference AND (M - 1)"
  have ref: "unat ref = unat reference mod N" by (simp add: ref_def Mm unat_and_mask N_def)
  have refN: "unat ref < N" using ref RN by simp
  define lower where "lower = (ref + M - (ucast p mod M)) mod M"
  have pM: "unat (ucast p mod M :: u64) = unat p" using pR RN by (simp add: unat_mod_distrib M)
  have lower: "unat lower = (unat ref + N - unat p) mod N"
    using refN N32 pR RN
    by (simp add: lower_def unat_mod_distrib unat_sub_le unat_add_nowrap pM M)
  have lN: "unat lower < N" using lower RN by simp
  define cand where "cand = (lower AND NOT (K - 1)) OR ucast lsb"
  have cand: "unat cand = unat lower div R * R + unat lsb"
    unfolding cand_def Km R_def using lR by (subst unat_replace_low) (simp_all add: R_def)
  have candN: "unat cand < N + R"
    using cand lN lR div_times_less_eq_dividend [of "unat lower" R] by linarith
  have diff: "unat ((cand + M - lower) mod M) = (unat cand + N - unat lower) mod N"
    using candN N32 lN RN by (simp add: unat_mod_distrib unat_sub_le unat_add_nowrap M)
  have wrap: "unat ((cand + K) mod M) = (unat cand + R) mod N"
    using candN N32 RN by (simp add: unat_mod_distrib unat_add_nowrap M K)
  define out where "out = (if (cand + M - lower) mod M \<ge> K then (cand + K) mod M else cand)"
  have out: "unat out = wlsb N R (unat ref) (unat p) (unat lsb)"
    by (simp add: out_def word_le_nat_alt diff wrap K cand wlsb_def Let_def lower)
  have "N = R * 2 ^ (fw - w)" "2 \<le> (2 :: nat) ^ (fw - w)"
    using assms(2) self_le_power [of 2 "fw - w"] by (simp_all add: N_def R_def flip: power_add)
  then have outN: "unat out < N" using wlsb_spec [of N R _ "unat lsb" "unat p" "unat ref"] lR pR refN out by simp
  have "unat (ucast (out AND (M - 1)) :: u32) = unat out"
    using outN N32 by (simp add: Mm unsigned_ucast_eq unat_and_mask N_def take_bit_nat_eq_self)
  moreover have "decode_lsb_with_p lsb w reference p fw = Done (ucast (out AND (M - 1)))"
  proof -
    have "\<not> ucast p \<ge> K" using pR by (simp add: word_le_nat_alt K)
    moreover have "ucast lsb AND (K - 1) = (ucast lsb :: u64)"
      using lR by (simp add: word_unat_eq_iff Km unat_and_mask R_def)
    ultimately show ?thesis
      using assms(1-3) by (simp add: decode_lsb_with_p_def Let_def M_def [symmetric] K_def [symmetric]
          ref_def [symmetric] lower_def [symmetric] cand_def [symmetric] out_def)
  qed
  ultimately show ?thesis using out ref by (simp add: N_def R_def)
qed

lemma wlsb_decode:
  assumes "0 < w" and "w \<le> fw" and "fw \<le> 32" and "unat p < 2 ^ w" and "unat v < 2 ^ fw"
    and "wlsb_offset (2 ^ fw) (unat reference mod 2 ^ fw) (unat p) (unat v) < 2 ^ w"
  shows "decode_lsb_with_p (least_significant_bits v w) w reference p fw = Done v"
proof -
  have l: "unat (least_significant_bits v w) = unat v mod 2 ^ w"
    using assms by (simp add: least_significant_bits_take_bit unat_take_bit_mod)
  show ?thesis
  proof (cases "w = fw")
    case True
    have "least_significant_bits v fw = v"
      using l assms(5) True by (simp add: word_unat_eq_iff)
    moreover have "v AND mask fw = v"
      using assms(5) by (simp add: word_unat_eq_iff unat_and_mask)
    moreover have "ucast v AND mask fw = (ucast v :: u64)"
      using assms(5) by (simp add: word_unat_eq_iff unat_and_mask)
    moreover have "\<not> ucast p \<ge> modulus_for_width fw"
      using assms(3,4) True by (simp add: word_le_nat_alt unat_modulus_for_width)
    ultimately show ?thesis
      using assms(1,3) True
      by (simp add: decode_lsb_with_p_def Let_def modulus_minus_1 mask_for_width_mask)
  next
    case False
    obtain d where d: "decode_lsb_with_p (least_significant_bits v w) w reference p fw = Done d"
      "unat d = wlsb (2 ^ fw) (2 ^ w) (unat reference mod 2 ^ fw) (unat p) (unat v mod 2 ^ w)"
      using decode_lsb_with_p_eq [of w fw p "least_significant_bits v w" reference] assms l False by auto
    have N: "(2 :: nat) ^ fw = 2 ^ w * 2 ^ (fw - w)" "2 \<le> (2 :: nat) ^ (fw - w)"
      using assms(2) False self_le_power [of 2 "fw - w"] by (simp_all flip: power_add)
    have "unat d = unat v"
      using wlsb_unique [of "2 ^ w" "2 ^ fw" "unat d" "unat v" "unat reference mod 2 ^ fw" "unat p"]
        wlsb_spec [OF N, of "unat v mod 2 ^ w" "unat p" "unat reference mod 2 ^ fw"] d assms N(1)
      by simp
    then show ?thesis using d(1) by (simp add: word_unat_eq_iff)
  qed
qed

section \<open>What LsbWindow decodes\<close>

lemma dist_mod_offset: "\<exists>t. \<bar>t\<bar> = uint (dist_mod a b) \<and> a = b + of_int t"
proof -
  have w: "NOT 0 - d + 1 = - d" for d :: u32 by simp
  obtain d where d: "d = dist_mod a b" by blast
  then consider "a = b + d" | "a = b - d"
    unfolding dist_mod_def Let_def w by (auto split: if_splits)
  then show ?thesis
  proof cases
    case 1
    then show ?thesis using d by (intro exI [of _ "uint d"]) simp
  next
    case 2
    then show ?thesis using d by (intro exI [of _ "- uint d"]) simp
  qed
qed

lemma take_bit_word_of_int: "k \<le> 32 \<Longrightarrow> take_bit k (word_of_int z :: u32) = word_of_int (take_bit k z)"
  by (rule bit_word_eqI) (auto simp: bit_simps)

lemma take_bit_add_cong:
  assumes "k \<le> 32" and "take_bit k (x :: u32) = take_bit k y"
  shows "take_bit k (x + z) = take_bit k (y + z)"
proof -
  have "take_bit k (uint x) = take_bit k (uint y)"
    using assms(2) by (metis unsigned_take_bit_eq)
  then have "take_bit k (uint x + uint z) = take_bit k (uint y + uint z)"
    by (metis take_bit_add)
  then have "take_bit k (word_of_int (uint x + uint z) :: u32) = take_bit k (word_of_int (uint y + uint z))"
    using assms(1) by (simp only: take_bit_word_of_int)
  then show ?thesis by simp
qed

lemma take_bit_mult_exp: "take_bit k ((x :: u32) * 2 ^ k) = 0"
  by (rule bit_word_eqI) (simp add: bit_simps flip: push_bit_eq_mult)

lemma close_congruent_eq:
  fixes x v r :: u32
  assumes "0 < k" and "k \<le> 32" and "take_bit k x = take_bit k v"
    and "uint (dist_mod x r) < 2 ^ (k - 1)" and "uint (dist_mod v r) < 2 ^ (k - 1)"
  shows "x = v"
proof -
  obtain s t where s: "\<bar>s\<bar> < 2 ^ (k - 1)" "x = r + of_int s" and t: "\<bar>t\<bar> < 2 ^ (k - 1)" "v = r + of_int t"
    using dist_mod_offset [of x r] dist_mod_offset [of v r] assms(4,5) by metis
  have "take_bit k (x - r) = take_bit k (v - r)"
    using take_bit_add_cong [OF assms(2,3), of "- r"] by simp
  then have "take_bit k (of_int s :: u32) = take_bit k (of_int t)" using s(2) t(2) by simp
  then have "uint (take_bit k (of_int s :: u32)) = uint (take_bit k (of_int t :: u32))" by simp
  then have "take_bit k s = take_bit k t"
    using assms(2) by (simp add: unsigned_take_bit_eq uint_word_of_int_eq take_bit_take_bit)
  then have "(2 ^ k) dvd (s - t)" by (simp add: take_bit_eq_mod mod_eq_dvd_iff)
  moreover have "\<bar>s - t\<bar> < 2 * 2 ^ (k - 1)" using s(1) t(1) by linarith
  moreover have "(2 :: int) * 2 ^ (k - 1) = 2 ^ k" using assms(1) by (simp flip: power_Suc)
  ultimately have "s - t = 0" using dvd_imp_le_int [of "s - t" "2 ^ k"] by (cases "s - t = 0") simp_all
  then show ?thesis using s(2) t(2) by simp
qed

lemma lsb_decode_candidate:
  fixes v r :: u32
  assumes "0 < k" and "k < 32" and "uint (dist_mod v r) < 2 ^ (k - 1)"
  shows "v = (r + 2 ^ (k - 1)) div 2 ^ k * 2 ^ k + take_bit k v \<or>
         v = (r + 2 ^ (k - 1)) div 2 ^ k * 2 ^ k + take_bit k v - 2 ^ k"
proof -
  define R :: int where "R = 2 ^ k"
  define y where "y = r + 2 ^ (k - 1)"
  define q m where "q = uint y div R" and "m = uint y mod R"
  obtain t where t: "\<bar>t\<bar> < 2 ^ (k - 1)" "v = r + of_int t"
    using dist_mod_offset [of v r] assms(3) by metis
  define s where "s = t - 2 ^ (k - 1)"
  have half: "R = 2 * 2 ^ (k - 1)" using assms(1) by (simp add: R_def flip: power_Suc)
  have s: "- R < s" "s < 0" using t(1) half by (simp_all add: s_def)
  have m: "0 \<le> m" "m < R" by (simp_all add: m_def R_def)
  have y: "uint y = q * R + m" by (simp add: q_def m_def)
  have v: "v = of_int (q * R + (m + s))"
  proof -
    have "v = y + of_int s" using t(2) by (simp add: y_def s_def)
    also have "\<dots> = of_int (uint y + s)" by simp
    finally show ?thesis by (simp add: y)
  qed
  have tb: "take_bit k v = of_int ((m + s) mod R)"
  proof -
    have "take_bit k v = of_int (take_bit k (q * R + (m + s)))"
      unfolding v using assms(2) by (intro take_bit_word_of_int) simp
    also have "take_bit k (q * R + (m + s)) = (m + s) mod R"
      by (simp add: take_bit_eq_mod R_def)
    finally show ?thesis .
  qed
  have base: "y div 2 ^ k * 2 ^ k = of_int (q * R)"
  proof -
    have "uint (2 ^ k :: u32) = R" using assms(2) by (simp add: R_def uint_exp)
    then have "y div 2 ^ k = of_int q" by (metis q_def uint_div_distrib word_of_int_uint)
    then show ?thesis by (simp add: R_def)
  qed
  show ?thesis
  proof (cases "0 \<le> m + s")
    case True
    then have "(m + s) mod R = m + s" using m s by simp
    then show ?thesis using v tb base by (simp add: y_def)
  next
    case False
    then have "(m + s + R) mod R = m + s + R" using m s by (intro mod_pos_pos_trivial) auto
    then have "(m + s) mod R = m + s + R" by simp
    then show ?thesis using v tb base by (simp add: y_def R_def)
  qed
qed

lemma lsb_decode_window:
  assumes "0 < k" and "k < 32" and "uint (dist_mod v (win_ref w)) < 2 ^ (k - 1)"
  shows "lsb_decode w (take_bit k v) k = Done v"
proof -
  define c where "c = (win_ref w + 2 ^ (k - 1)) div 2 ^ k * 2 ^ k + take_bit k v"
  define D where "D x = dist_mod x (win_ref w)" for x
  have shift: "take_bit k (x + 2 ^ k) = take_bit k x" "take_bit k (x - 2 ^ k) = take_bit k x" for x :: u32
    using assms(2) take_bit_add_cong [of k "2 ^ k" 0 x] take_bit_mult_exp [of k 1]
      take_bit_add_cong [of k "2 ^ k" 0 "x - 2 ^ k"] by (simp_all add: add.commute)
  have c: "take_bit k c = take_bit k v"
    unfolding c_def by (subst take_bit_add_cong [where y = 0]) (use assms(2) in \<open>simp_all add: take_bit_mult_exp\<close>)
  have half: "drop_bit 1 (push_bit k 1) = (2 ^ (k - 1) :: u32)"
    using assms(1,2) by (intro bit_word_eqI) (auto simp: bit_simps)
  define a where "a = (if D (c + 2 ^ k) < D c then c + 2 ^ k else c)"
  define b where "b = (if D (c - 2 ^ k) < D a then c - 2 ^ k else a)"
  have dec: "lsb_decode w (take_bit k v) k = Done b"
    using assms(2)
    unfolding lsb_decode_def Let_def half unfolding push_bit_eq_mult mult_1
    unfolding c_def [symmetric] D_def [symmetric]
    by (simp add: a_def b_def)
  have "v = c \<or> v = c - 2 ^ k"
    using lsb_decode_candidate [OF assms] by (simp add: c_def)
  then have "D b \<le> D v" by (auto simp: b_def a_def)
  then have "uint (D b) < 2 ^ (k - 1)"
    using assms(3) by (simp add: D_def word_le_def)
  moreover have "take_bit k b = take_bit k v"
    by (simp add: b_def a_def shift c)
  ultimately show ?thesis
    using close_congruent_eq [of k b v "win_ref w"] assms dec by (simp add: D_def)
qed

section \<open>Properties\<close>

lemma decode_lsb_with_p_guard:
  "decode_lsb_with_p lsb w reference p fw = Done v \<Longrightarrow> w \<le> 32 \<Longrightarrow> unat lsb < 2 ^ w"
proof -
  assume d: "decode_lsb_with_p lsb w reference p fw = Done v" and w: "w \<le> 32"
  then have "ucast lsb AND mask w = (ucast lsb :: u64)"
    by (auto simp: decode_lsb_with_p_def Let_def modulus_minus_1 split: if_splits)
  then have "unat lsb = unat lsb mod 2 ^ w" by (metis unat_and_mask unat_ucast_32_64)
  then show ?thesis by (metis mod_less_divisor zero_less_numeral zero_less_power)
qed

lemma decode_lsb_with_p_iff:
  assumes "0 < w" and "w \<le> fw" and "fw \<le> 32" and "unat p < 2 ^ w"
  shows "decode_lsb_with_p lsb w reference p fw = Done v \<longleftrightarrow>
         unat v < 2 ^ fw \<and> lsb = least_significant_bits v w \<and>
         wlsb_offset (2 ^ fw) (unat reference mod 2 ^ fw) (unat p) (unat v) < 2 ^ w"
proof
  assume d: "decode_lsb_with_p lsb w reference p fw = Done v"
  then have l: "unat lsb < 2 ^ w" using decode_lsb_with_p_guard assms(2,3) by simp
  show "unat v < 2 ^ fw \<and> lsb = least_significant_bits v w \<and>
         wlsb_offset (2 ^ fw) (unat reference mod 2 ^ fw) (unat p) (unat v) < 2 ^ w"
  proof (cases "w = fw")
    case True
    then have "v = lsb AND mask w"
      using d assms(3) by (auto simp: decode_lsb_with_p_def Let_def mask_for_width_mask split: if_splits)
    then have "unat v = unat lsb" using l by (simp add: unat_and_mask)
    then have "v = lsb" by (simp add: word_unat_eq_iff)
    then show ?thesis
      using l True assms(3) by (simp add: least_significant_bits_take_bit word_unat_eq_iff
          unat_take_bit_mod wlsb_offset_def)
  next
    case False
    have N: "(2 :: nat) ^ fw = 2 ^ w * 2 ^ (fw - w)" "2 \<le> (2 :: nat) ^ (fw - w)"
      using assms(2) False self_le_power [of 2 "fw - w"] by (simp_all flip: power_add)
    have "unat v = wlsb (2 ^ fw) (2 ^ w) (unat reference mod 2 ^ fw) (unat p) (unat lsb)"
      using decode_lsb_with_p_eq [of w fw p lsb reference] assms l False d by auto
    then show ?thesis
      using wlsb_spec [OF N l assms(4), of "unat reference mod 2 ^ fw"] assms(2,3)
      by (simp add: least_significant_bits_take_bit word_unat_eq_iff unat_take_bit_mod)
  qed
qed (use wlsb_decode assms in blast)

text \<open>
  C29. W-LSB decoding is exact: with interpretation offset \<open>p\<close>, \<open>decode_lsb_with_p\<close> returns \<open>v\<close>
  precisely when \<open>v\<close> is a value of the field that ends in the received bits and lies in the
  interval of \<open>2 ^ w\<close> values starting \<open>p\<close> below the reference, modulo the field's width. So a
  compressor that sends a value of the interval is understood, and nothing else is ever decoded.
\<close>

theorem wlsb_decode_exact:
  assumes "0 < w" and "w \<le> fw" and "fw \<le> 32" and "unat p < 2 ^ w"
  shows "decode_lsb_with_p lsb w reference p fw = Done v \<longleftrightarrow>
         unat v < 2 ^ fw \<and> lsb = least_significant_bits v w \<and>
         wlsb_offset (2 ^ fw) (unat reference mod 2 ^ fw) (unat p) (unat v) < 2 ^ w"
  using decode_lsb_with_p_iff [OF assms] .

theorem wlsb_decode_exact_witness:
  "decode_lsb_with_p 2 4 0xFFFE 7 16 = Done 2 \<and> decode_lsb_with_p 2 4 0xFFFE 7 16 \<noteq> Done 0xFFF2"
  using wlsb_decode_exact [of 4 16 7 2 "0xFFFE" 2] wlsb_decode_exact [of 4 16 7 2 "0xFFFE" "0xFFF2"]
  by (simp add: least_significant_bits_def mask_for_width_def wlsb_offset_def)

lemma decode_scaled_lsb_window:
  assumes "0 < k" and "k < 32" and "stride \<noteq> 0" and "residue = v mod stride"
    and "uint (dist_mod (v div stride) (reference_timestamp div stride)) < 2 ^ (k - 1)"
  shows "decode_scaled_lsb (take_bit k (v div stride)) k reference_timestamp stride residue = Done v"
proof -
  have "v div stride * stride + v mod stride = v"
    by (metis word_mod_div_equality)
  then show ?thesis
    using assms lsb_decode_window [of k "v div stride" "lsb_init (reference_timestamp div stride)"]
    by (simp add: decode_scaled_lsb_def Let_def lsb_init_def unscale_timestamp_def)
qed

text \<open>
  Scaled RTP timestamps survive the window: for a non-zero stride and the timestamp's own
  residue, decoding the \<open>k\<close> low bits of the scaled timestamp gives the timestamp back whenever
  its scaled value is within \<open>2 ^ (k-1)\<close> of the scaled reference, on the circle of 32-bit
  numbers; the timer-based variant gives it back when the reference advanced by the elapsed ticks
  is the timestamp itself or satisfies the same bound.
\<close>

theorem scaled_timestamp_roundtrip:
  assumes "0 < k" and "k < 32" and "stride \<noteq> 0"
    and "advanced = reference_timestamp + stride * ticks"
    and "uint (dist_mod (v div stride) (advanced div stride)) < 2 ^ (k - 1)"
    and "advanced mod stride = v mod stride"
  shows "decode_scaled_lsb (least_significant_bits (v div stride) k) k advanced stride (v mod stride) = Done v \<and>
         decode_timer_scaled_lsb (least_significant_bits (v div stride) k) k reference_timestamp stride ticks
           (v mod stride) = Done (Some v)"
proof -
  have l: "least_significant_bits x k = take_bit k x" for x
    using assms(2) by (simp add: least_significant_bits_take_bit)
  have d: "decode_scaled_lsb (take_bit k (v div stride)) k advanced stride (v mod stride) = Done v"
    using decode_scaled_lsb_window [OF assms(1-3) refl assms(5)] .
  have "advanced = v" if "take_bit k (advanced div stride) = take_bit k (v div stride)"
  proof -
    have "uint (dist_mod (advanced div stride) (advanced div stride)) < 2 ^ (k - 1)"
      by (simp add: dist_mod_def Let_def)
    then have "advanced div stride = v div stride"
      using close_congruent_eq [of k "advanced div stride" "v div stride" "advanced div stride"]
        that assms(1,2,5) by simp
    then show ?thesis using assms(6) by (metis word_mod_div_equality)
  qed
  then have "decode_timer_scaled_lsb (take_bit k (v div stride)) k reference_timestamp stride ticks
      (v mod stride) = Done (Some v)"
    using d assms(1,3)
    by (auto simp: decode_timer_scaled_lsb_def advance_timer_scaled_timestamp_def Let_def
        decode_scaled_lsb_with_timestamp_prediction_def scale_timestamp_def encode_field_lsb_def l
        assms(4) [symmetric])
  with d show ?thesis by (simp add: l)
qed

theorem scaled_timestamp_roundtrip_witness:
  "decode_scaled_lsb (least_significant_bits (0xFFFFFFF0 div 160) 5) 5 0xFFFFFF50 160
     (0xFFFFFFF0 mod 160) = Done 0xFFFFFFF0"
  using scaled_timestamp_roundtrip [of 5 160 "0xFFFFFF50" "0xFFFFFEB0" 1 "0xFFFFFFF0"]
  by (simp add: dist_mod_def Let_def word_less_def unsigned_minus_1_eq_mask mask_eq_exp_minus_1)

text \<open>
  IP-ID offsets round trip through W-LSB: the decoder, given the sequence number and a
  reference offset, recovers the IP-ID exactly when the offset \<open>ip_id - sequence\<close> (wrapping in 16
  bits) lies in the decoding interval of the reference offset, across wrap-around of both fields.
\<close>

theorem ip_id_offset_roundtrip:
  assumes "0 < w" and "w \<le> 16" and "unat p < 2 ^ w"
    and "wlsb_offset (2 ^ 16) (unat reference_offset) (unat p) (unat (ip_id - sequence)) < 2 ^ w"
  shows "decode_ip_id_offset_lsb_with_p (encode_ip_id_offset_lsb ip_id sequence w) sequence
           reference_offset w p = Done ip_id"
proof -
  define off where "off = ip_id - sequence"
  have u: "unat (ucast x :: u32) = unat x" for x :: u16
  proof -
    have "unat x < 2 ^ 32" by (rule order_less_le_trans [OF unsigned_less]) simp
    then show ?thesis by (simp add: unsigned_ucast_eq take_bit_nat_eq_self)
  qed
  have e: "ucast (encode_ip_id_offset_lsb ip_id sequence w) = least_significant_bits (ucast off) w"
  proof -
    have "ucast (ucast (take_bit w (ucast off :: u32)) :: u16) = take_bit w (ucast off :: u32)"
      using assms(2) by (auto simp: u32_bits)
    then show ?thesis
      using assms(1,2) by (simp add: encode_ip_id_offset_lsb_def Let_def encode_field_lsb_def
          encode_offset_ip_id_def off_def least_significant_bits_take_bit)
  qed
  have "unat off < 2 ^ 16" "unat reference_offset < 2 ^ 16"
    by (rule order_less_le_trans [OF unsigned_less], simp)+
  have down: "ucast (ucast x :: u32) = x" for x :: u16 by (simp add: u16_bits)
  from \<open>unat off < 2 ^ 16\<close> \<open>unat reference_offset < 2 ^ 16\<close>
  have "decode_lsb_with_p (least_significant_bits (ucast off) w) w (ucast reference_offset) p 16
      = Done (ucast off)"
    using assms by (intro wlsb_decode) (simp_all add: u off_def)
  then show ?thesis
    using assms(1) by (simp add: decode_ip_id_offset_lsb_with_p_def decode_field_lsb_with_p_def e
        natural_field_width_def decode_offset_ip_id_def off_def down)
qed

theorem ip_id_offset_roundtrip_witness:
  "decode_ip_id_offset_lsb_with_p (encode_ip_id_offset_lsb 3 0xFFFE 4) 0xFFFE 0xFFFF 4 8 = Done 3"
  using ip_id_offset_roundtrip [of 4 8 "0xFFFF" 3 "0xFFFE"] by (simp add: wlsb_offset_def)

end
