(* ===== verification/Lists.thy ===== *)
theory Lists
  imports Cid
begin

text \<open>
  The list codecs of \<open>core/encoding_methods.hpp\<close>: extension lists of type/value pairs with their
  per-profile entry points, and the chain of IPv6 extension headers. The extension-list codec is an
  instance of the self-delimiting encodings of the prelude; an accepted chain of extension headers
  is shown to tile its octets.
\<close>

section \<open>Extension lists\<close>

datatype extension_list_kind = Empty | NonEmpty

record extension_list_item =
  eli_type :: byte
  eli_value :: byte

datatype profile_list = Generic | Ipv4Options | Ipv6ExtensionHeaders | RtpCsrc | RtpExtensionHeaders

definition empty_list_marker :: byte where
  "empty_list_marker = 0x00"

definition is_empty_list :: "byte \<Rightarrow> bool" where
  "is_empty_list marker \<longleftrightarrow> marker = empty_list_marker"

definition is_non_empty_list_marker :: "byte \<Rightarrow> bool" where
  "is_non_empty_list_marker marker \<longleftrightarrow> marker \<noteq> empty_list_marker"

definition classify_extension_list_marker :: "byte \<Rightarrow> extension_list_kind" where
  "classify_extension_list_marker marker = (if is_empty_list marker then Empty else NonEmpty)"

definition write_empty_list :: "nat \<Rightarrow> bytes \<Rightarrow> bytes res" where
  "write_empty_list capacity out =
     (if length out \<ge> capacity then Reject else put capacity out empty_list_marker Done)"

definition read_empty_list :: "bytes \<Rightarrow> nat \<Rightarrow> nat res" where
  "read_empty_list inp pos =
     (if pos \<ge> length inp then Reject
      else rd inp pos (\<lambda>marker. if is_empty_list marker then Done (pos + 1) else Reject))"

fun put_items :: "nat \<Rightarrow> bytes \<Rightarrow> extension_list_item list \<Rightarrow> bytes res" where
  "put_items capacity out [] = Done out"
| "put_items capacity out (item # items) =
     put capacity out (eli_type item) (\<lambda>out.
     put capacity out (eli_value item) (\<lambda>out. put_items capacity out items))"

definition write_extension_list :: "nat \<Rightarrow> bytes \<Rightarrow> extension_list_item list \<Rightarrow> byte \<Rightarrow> bytes res" where
  "write_extension_list capacity out items count =
     (if count = 0 then write_empty_list capacity out
      else if count > 0x7F \<or> szsub capacity (length out) < 1 + unat count * 2 then Reject
      else if length items < unat count then Fault
      else put capacity out (0x80 OR count) (\<lambda>out. put_items capacity out (take (unat count) items)))"

fun get_items :: "bytes \<Rightarrow> nat \<Rightarrow> nat \<Rightarrow> (extension_list_item list \<times> nat) res" where
  "get_items inp pos 0 = Done ([], pos)"
| "get_items inp pos (Suc n) =
     rd inp pos (\<lambda>t. rd inp (pos + 1) (\<lambda>v.
     seq_res (get_items inp (pos + 2) n) (\<lambda>(items, pos). Done (\<lparr>eli_type = t, eli_value = v\<rparr> # items, pos))))"

definition read_extension_list :: "bytes \<Rightarrow> nat \<Rightarrow> byte \<Rightarrow> (extension_list_item list \<times> nat) res" where
  \<comment> \<open>the items and the new position; the item array has \<open>capacity\<close> elements\<close>
  "read_extension_list inp pos capacity =
     (if pos \<ge> length inp then Reject
      else rd inp pos (\<lambda>marker.
        if is_empty_list marker then Done ([], pos + 1)
        else if (marker AND 0x80) = 0 then Reject
        else let count = marker AND 0x7F in
          if count = 0 \<or> count > capacity \<or> szsub (szsub (length inp) pos) 1 < unat count * 2 then Reject
          else get_items inp (pos + 1) (unat count)))"

definition write_profile_list :: "profile_list \<Rightarrow> nat \<Rightarrow> bytes \<Rightarrow> extension_list_item list \<Rightarrow> byte \<Rightarrow> bytes res" where
  "write_profile_list l capacity out items count = write_extension_list capacity out items count"

definition read_profile_list :: "profile_list \<Rightarrow> bytes \<Rightarrow> nat \<Rightarrow> byte \<Rightarrow> (extension_list_item list \<times> nat) res" where
  "read_profile_list l inp pos capacity = read_extension_list inp pos capacity"

definition write_ipv4_options_list :: "nat \<Rightarrow> bytes \<Rightarrow> extension_list_item list \<Rightarrow> byte \<Rightarrow> bytes res" where
  "write_ipv4_options_list = write_profile_list Ipv4Options"

definition read_ipv4_options_list :: "bytes \<Rightarrow> nat \<Rightarrow> byte \<Rightarrow> (extension_list_item list \<times> nat) res" where
  "read_ipv4_options_list = read_profile_list Ipv4Options"

definition write_rtp_csrc_list :: "nat \<Rightarrow> bytes \<Rightarrow> extension_list_item list \<Rightarrow> byte \<Rightarrow> bytes res" where
  "write_rtp_csrc_list = write_profile_list RtpCsrc"

definition read_rtp_csrc_list :: "bytes \<Rightarrow> nat \<Rightarrow> byte \<Rightarrow> (extension_list_item list \<times> nat) res" where
  "read_rtp_csrc_list = read_profile_list RtpCsrc"

definition write_ipv6_extension_header_list :: "nat \<Rightarrow> bytes \<Rightarrow> extension_list_item list \<Rightarrow> byte \<Rightarrow> bytes res" where
  "write_ipv6_extension_header_list = write_profile_list Ipv6ExtensionHeaders"

definition read_ipv6_extension_header_list :: "bytes \<Rightarrow> nat \<Rightarrow> byte \<Rightarrow> (extension_list_item list \<times> nat) res" where
  "read_ipv6_extension_header_list = read_profile_list Ipv6ExtensionHeaders"

definition write_rtp_extension_header_list :: "nat \<Rightarrow> bytes \<Rightarrow> extension_list_item list \<Rightarrow> byte \<Rightarrow> bytes res" where
  "write_rtp_extension_header_list = write_profile_list RtpExtensionHeaders"

definition read_rtp_extension_header_list :: "bytes \<Rightarrow> nat \<Rightarrow> byte \<Rightarrow> (extension_list_item list \<times> nat) res" where
  "read_rtp_extension_header_list = read_profile_list RtpExtensionHeaders"

section \<open>Chains of IPv6 extension headers\<close>

record ipv6_extension_header_item =
  ext_type :: byte
  ext_next_header :: byte
  ext_offset :: byte
  ext_length :: byte

definition is_ipv6_extension_header_type :: "byte \<Rightarrow> bool" where
  "is_ipv6_extension_header_type next_header \<longleftrightarrow>
     next_header = 0 \<or> next_header = 43 \<or> next_header = 44 \<or> next_header = 60"

definition ipv6_extension_header_length :: "bytes \<Rightarrow> byte \<Rightarrow> byte res" where
  "ipv6_extension_header_length data header_type =
     (if header_type = 44 then if length data < 8 then Reject else Done 8
      else if length data < 2 then Reject
      else rd data 1 (\<lambda>b.
        let computed = (unat b + 1) * 8 in
        if computed < 8 \<or> computed > 0xFF \<or> length data < computed then Reject
        else Done (of_nat computed)))"

lemma header_length_result:
  "ipv6_extension_header_length data t \<noteq> Fault"
  "ipv6_extension_header_length data t = Done h \<Longrightarrow>
     8 \<le> unat h \<and> unat h \<le> length data \<and> 8 dvd unat h \<and>
     unat h = (if t = 44 then 8 else (unat (data ! 1) + 1) * 8)"
proof -
  show "ipv6_extension_header_length data t \<noteq> Fault"
    by (simp add: ipv6_extension_header_length_def Let_def)
  have u: "(unat b + 1) * 8 \<le> 0xFF \<Longrightarrow> unat (of_nat ((unat b + 1) * 8) :: byte) = (unat b + 1) * 8" for b :: byte
    by (simp only: unsigned_of_nat) (simp add: take_bit_nat_eq_self)
  show "ipv6_extension_header_length data t = Done h \<Longrightarrow>
     8 \<le> unat h \<and> unat h \<le> length data \<and> 8 dvd unat h \<and> unat h = (if t = 44 then 8 else (unat (data ! 1) + 1) * 8)"
    using u by (auto simp: ipv6_extension_header_length_def Let_def not_less simp del: of_nat_mult of_nat_add split: if_splits)
qed

function extension_items ::
    "bytes \<Rightarrow> byte \<Rightarrow> byte \<Rightarrow> nat \<Rightarrow> ipv6_extension_header_item list \<Rightarrow> (ipv6_extension_header_item list \<times> byte) res" where
  \<comment> \<open>the loop of \<open>parse_ipv6_extension_header_items\<close>; the list holds the first \<open>count\<close> items\<close>
  "extension_items data capacity current pos items =
     (if pos < length data then
        if \<not> is_ipv6_extension_header_type current \<or> length items \<ge> unat capacity \<or> pos > 0xFF then Reject
        else seq_res (ipv6_extension_header_length (drop pos data) current) (\<lambda>header_len.
          rd data pos (\<lambda>nxt.
          extension_items data capacity nxt (pos + unat header_len)
            (items @ [\<lparr>ext_type = current, ext_next_header = nxt, ext_offset = of_nat pos, ext_length = header_len\<rparr>])))
      else Done (items, current))"
  by pat_completeness auto
termination
  by (relation "measure (\<lambda>(data, c, cur, pos, items). length data - pos)") (auto dest!: header_length_result(2))

declare extension_items.simps [simp del]

definition parse_ipv6_extension_header_items ::
    "bytes \<Rightarrow> byte \<Rightarrow> byte \<Rightarrow> (ipv6_extension_header_item list \<times> byte) res" where
  \<comment> \<open>the items and \<open>terminal_next_header\<close>\<close>
  "parse_ipv6_extension_header_items data first_next_header capacity =
     (if length data = 0 then
        if is_ipv6_extension_header_type first_next_header then Reject else Done ([], first_next_header)
      else if capacity = 0 then Reject
      else extension_items data capacity first_next_header 0 [])"

definition validate_ipv6_extension_header_list :: "bytes \<Rightarrow> byte \<Rightarrow> byte res" where
  "validate_ipv6_extension_header_list data first_next_header =
     seq_res (parse_ipv6_extension_header_items data first_next_header 16) (\<lambda>(items, terminal). Done terminal)"

section \<open>The extension-list encoding\<close>

definition item_wire :: "extension_list_item \<Rightarrow> bytes" where
  "item_wire item = [eli_type item, eli_value item]"

definition list_wire :: "extension_list_item list \<Rightarrow> bytes" where
  "list_wire items = (if items = [] then [0] else (0x80 OR of_nat (length items)) # concat (map item_wire items))"

lemma length_items_wire [simp]: "length (concat (map item_wire items)) = 2 * length items"
  by (induction items) (simp_all add: item_wire_def)

lemma length_list_wire: "length (list_wire items) = 1 + 2 * length items"
  by (simp add: list_wire_def)

lemma put_items_eq:
  "length out + 2 * length items \<le> capacity \<Longrightarrow>
   put_items capacity out items = Done (out @ concat (map item_wire items))"
  by (induction items arbitrary: out) (simp_all add: item_wire_def)

lemma unat_count: "length items \<le> 127 \<Longrightarrow> unat (of_nat (length items) :: byte) = length items"
  by (simp add: unsigned_of_nat take_bit_nat_eq_self)

lemma count_octet:
  fixes c :: byte
  assumes "c \<le> 0x7F"
  shows "(0x80 OR c) AND 0x80 \<noteq> 0" "(0x80 OR c) AND 0x7F = c" "0x80 OR c \<noteq> 0"
proof -
  have "c < 2 ^ 7" using assms by (simp add: word_le_nat_alt word_less_nat_alt)
  then have "\<not> bit c 7" by (rule word_less_exp_bit) simp
  then show "(0x80 OR c) AND 0x80 \<noteq> 0" "(0x80 OR c) AND 0x7F = c" "0x80 OR c \<noteq> 0"
    by (auto simp: byte_bits)
qed

lemma write_extension_list_eq:
  assumes "length items \<le> 127" and "length out \<le> capacity"
  shows "write_extension_list capacity out items (of_nat (length items)) =
    (if length out + length (list_wire items) \<le> capacity then Done (out @ list_wire items) else Reject)"
proof (cases "items = []")
  case True
  then show ?thesis using assms by (simp add: write_extension_list_def write_empty_list_def list_wire_def empty_list_marker_def)
next
  case False
  have u: "unat (of_nat (length items) :: byte) = length items" by (rule unat_count [OF assms(1)])
  have z: "(of_nat (length items) :: byte) \<noteq> 0" using False u by (metis length_0_conv unat_0)
  have "\<not> (of_nat (length items) :: byte) > 0x7F" using u assms(1) by (simp add: word_less_nat_alt)
  then show ?thesis
    using False u z assms put_items_eq [of "out @ [0x80 OR of_nat (length items)]" items capacity]
    by (auto simp: write_extension_list_def list_wire_def)
qed

lemma get_items_wire:
  "get_items (pre @ concat (map item_wire items) @ rest) (length pre) (length items) =
     Done (items, length pre + 2 * length items)"
proof (induction items arbitrary: pre)
  case (Cons item items)
  have "\<lparr>eli_type = eli_type item, eli_value = eli_value item\<rparr> = item" by simp
  then show ?case
    using Cons.IH [of "pre @ item_wire item"] by (simp add: item_wire_def nth_append)
qed simp

lemma get_items_inv:
  "pos + 2 * n \<le> length inp \<Longrightarrow> \<exists>items. get_items inp pos n = Done (items, pos + 2 * n) \<and>
     length items = n \<and> take (2 * n) (drop pos inp) = concat (map item_wire items)"
proof (induction n arbitrary: pos)
  case (Suc n)
  then obtain items where i: "get_items inp (pos + 2) n = Done (items, pos + 2 + 2 * n)" "length items = n"
    "take (2 * n) (drop (pos + 2) inp) = concat (map item_wire items)"
    by (metis add.assoc add_Suc_right mult_Suc_right)
  have "drop pos inp = inp ! pos # inp ! Suc pos # drop (pos + 2) inp"
    using Suc.prems by (simp add: Cons_nth_drop_Suc)
  then have "take (2 * Suc n) (drop pos inp) = inp ! pos # inp ! Suc pos # concat (map item_wire items)"
    using i(3) by simp
  then show ?case
    using i Suc.prems
    by (intro exI [of _ "\<lparr>eli_type = inp ! pos, eli_value = inp ! Suc pos\<rparr> # items"]) (simp add: item_wire_def [of "\<lparr>eli_type = t, eli_value = v\<rparr>" for t v])
qed simp

lemma read_list_wire:
  assumes "length items \<le> 127" and "length items \<le> unat capacity"
  shows "read_extension_list (list_wire items @ rest) 0 capacity = Done (items, length (list_wire items))"
proof (cases "items = []")
  case True
  then show ?thesis by (simp add: read_extension_list_def list_wire_def is_empty_list_def empty_list_marker_def)
next
  case False
  let ?c = "of_nat (length items) :: byte"
  have u: "unat ?c = length items" by (rule unat_count [OF assms(1)])
  then have c: "?c \<le> 0x7F" "?c \<noteq> 0" "\<not> ?c > capacity"
    using assms False by (auto simp: word_le_nat_alt word_less_nat_alt)
  show ?thesis
    using get_items_wire [of "[0x80 OR ?c]" items rest] count_octet [OF c(1)] c u False
    by (simp add: read_extension_list_def list_wire_def is_empty_list_def empty_list_marker_def Let_def)
qed

lemma read_list_inv:
  assumes "read_extension_list bs 0 capacity = Done (items, n)"
  shows "(length items \<le> 127 \<and> length items \<le> unat capacity) \<and> n \<le> length bs \<and> take n bs = list_wire items"
proof -
  obtain m q where bs: "bs = m # q"
    using assms by (cases bs) (simp_all add: read_extension_list_def)
  show ?thesis
  proof (cases "m = 0")
    case True
    then show ?thesis using assms
      by (auto simp: bs read_extension_list_def is_empty_list_def empty_list_marker_def list_wire_def)
  next
    case False
    let ?c = "m AND 0x7F"
    have ok: "(m AND 0x80) \<noteq> 0" "?c \<noteq> 0" "\<not> ?c > capacity" "unat ?c * 2 \<le> length q"
      and g: "get_items bs 1 (unat ?c) = Done (items, n)"
      using assms False
      by (auto simp: bs read_extension_list_def is_empty_list_def empty_list_marker_def Let_def split: if_splits)
    obtain xs where xs: "get_items bs 1 (unat ?c) = Done (xs, 1 + 2 * unat ?c)" "length xs = unat ?c"
      "take (2 * unat ?c) (drop 1 bs) = concat (map item_wire xs)"
      using get_items_inv [of 1 "unat ?c" bs] ok(4) by (auto simp: bs)
    then have x: "xs = items" "n = 1 + 2 * unat ?c" using g by auto
    have le: "unat ?c \<le> 127" using word_and_le1 [of m "0x7F"] by (simp add: word_le_nat_alt)
    have "bit m 7" using ok(1) by (simp add: byte_bits)
    then have m: "0x80 OR ?c = m" by (simp add: byte_bits)
    have "(of_nat (length items) :: byte) = ?c" using xs(2) x by simp
    moreover have "items \<noteq> []" using xs(2) x(1) ok(2) by (metis list.size(3) unat_eq_zero)
    ultimately have "list_wire items = m # concat (map item_wire items)" using m by (simp add: list_wire_def)
    moreover have "take n bs = m # take (2 * unat ?c) q" using x by (simp add: bs)
    ultimately show ?thesis
      using xs x le ok by (simp add: bs word_less_nat_alt not_less)
  qed
qed

lemma read_list_safe: "read_extension_list bs pos capacity \<noteq> Fault"
proof -
  have "get_items bs (pos + 1) n \<noteq> Fault" if "pos + 1 + 2 * n \<le> length bs" for n
    using get_items_inv [OF that] by auto
  then show ?thesis
    by (auto simp: read_extension_list_def Let_def rd_def not_less)
qed

interpretation extension_list: prefix_codec list_wire "\<lambda>bs. read_extension_list bs 0 capacity"
    "\<lambda>items. length items \<le> 127 \<and> length items \<le> unat capacity" for capacity
  by unfold_locales (simp_all add: read_list_wire read_list_inv read_list_safe)

section \<open>Chains tile their octets\<close>

fun chain_ok :: "bytes \<Rightarrow> byte \<Rightarrow> nat \<Rightarrow> ipv6_extension_header_item list \<Rightarrow> byte \<Rightarrow> bool" where
  "chain_ok data current pos [] terminal \<longleftrightarrow> pos = length data \<and> current = terminal"
| "chain_ok data current pos (item # items) terminal \<longleftrightarrow>
     is_ipv6_extension_header_type current \<and> ext_type item = current \<and> unat (ext_offset item) = pos \<and>
     pos + unat (ext_length item) \<le> length data \<and>
     unat (ext_length item) = (if current = 44 then 8 else (unat (data ! (pos + 1)) + 1) * 8) \<and>
     ext_next_header item = data ! pos \<and>
     chain_ok data (data ! pos) (pos + unat (ext_length item)) items terminal"

lemma header_length_iff:
  "ipv6_extension_header_length data t = Done h \<longleftrightarrow>
     unat h = (if t = 44 then 8 else (unat (data ! 1) + 1) * 8) \<and> unat h \<le> length data"
proof
  assume r: "unat h = (if t = 44 then 8 else (unat (data ! 1) + 1) * 8) \<and> unat h \<le> length data"
  have "unat h < 256" by simp
  moreover have "h = of_nat (unat h)" by simp
  ultimately show "ipv6_extension_header_length data t = Done h"
    using r by (auto simp: ipv6_extension_header_length_def Let_def split: if_splits)
qed (use header_length_result(2) [of data t h] in simp)

lemma extension_items_iff:
  "pos \<le> length data \<Longrightarrow> length acc \<le> unat capacity \<Longrightarrow>
   extension_items data capacity current pos acc = Done (items, terminal) \<longleftrightarrow>
     (\<exists>chain. items = acc @ chain \<and> length items \<le> unat capacity \<and> chain_ok data current pos chain terminal)"
proof (induction "length data - pos" arbitrary: pos acc current rule: less_induct)
  case less
  show ?case
  proof (cases "pos < length data")
    case False
    have "chain_ok data current pos chain terminal \<longleftrightarrow> chain = [] \<and> current = terminal" for chain
      using False less.prems(1) by (cases chain) auto
    then show ?thesis using False less.prems by (subst extension_items.simps) auto
  next
    case True
    let ?hl = "ipv6_extension_header_length (drop pos data) current"
    let ?item = "\<lambda>h. \<lparr>ext_type = current, ext_next_header = data ! pos, ext_offset = of_nat pos, ext_length = h\<rparr>"
    have hl: "?hl = Done h \<longleftrightarrow> pos + unat h \<le> length data \<and>
        unat h = (if current = 44 then 8 else (unat (data ! (pos + 1)) + 1) * 8)" for h
      using True by (auto simp: header_length_iff)
    have IH: "extension_items data capacity (data ! pos) (pos + unat h) (acc @ [?item h]) = Done (items, terminal) \<longleftrightarrow>
        (\<exists>chain. items = (acc @ [?item h]) @ chain \<and> length items \<le> unat capacity \<and>
           chain_ok data (data ! pos) (pos + unat h) chain terminal)"
      if "?hl = Done h" "length acc < unat capacity" for h
      using that less.prems True hl [of h] header_length_result(2) [OF that(1)]
      by (intro less.hyps) auto
    have "extension_items data capacity current pos acc = Done (items, terminal) \<longleftrightarrow>
      is_ipv6_extension_header_type current \<and> length acc < unat capacity \<and> pos \<le> 0xFF \<and>
      (\<exists>h. ?hl = Done h \<and>
         extension_items data capacity (data ! pos) (pos + unat h) (acc @ [?item h]) = Done (items, terminal))"
      using True by (subst extension_items.simps) (auto simp: seq_res_eq_Done)
    also have "\<dots> \<longleftrightarrow> is_ipv6_extension_header_type current \<and> length acc < unat capacity \<and> pos \<le> 0xFF \<and>
      (\<exists>h. ?hl = Done h \<and> (\<exists>chain. items = acc @ ?item h # chain \<and> length items \<le> unat capacity \<and>
         chain_ok data (data ! pos) (pos + unat h) chain terminal))"
      using IH by auto
    also have "\<dots> \<longleftrightarrow> (\<exists>i chain. items = acc @ i # chain \<and> length items \<le> unat capacity \<and>
        chain_ok data current pos (i # chain) terminal)" (is "?L \<longleftrightarrow> ?R")
    proof
      assume ?L
      then show ?R using hl by (auto simp: unsigned_of_nat take_bit_nat_eq_self)
    next
      assume ?R
      then obtain i chain where i: "items = acc @ i # chain" "length items \<le> unat capacity"
        "chain_ok data current pos (i # chain) terminal" by blast
      then have o: "unat (ext_offset i) = pos" by simp
      then have "pos \<le> 0xFF" "ext_offset i = of_nat pos" using unat_byte_less [of "ext_offset i"] by auto
      then show ?L using i hl [of "ext_length i"] by (auto intro!: exI [of _ "ext_length i"])
    qed
    also have "\<dots> \<longleftrightarrow> (\<exists>chain. items = acc @ chain \<and> length items \<le> unat capacity \<and>
        chain_ok data current pos chain terminal)"
      using True by (metis chain_ok.simps(1) less_irrefl neq_Nil_conv)
    finally show ?thesis .
  qed
qed

lemma extension_items_safe: "extension_items data capacity current pos acc \<noteq> Fault"
proof (induction data capacity current pos acc rule: extension_items.induct)
  case (1 data capacity current pos acc)
  show ?case
    using 1 header_length_result(1) [of "drop pos data" current]
    by (subst extension_items.simps) (auto simp: seq_res_eq_Fault)
qed

section \<open>Properties\<close>

text \<open>
  Extension lists round-trip and are canonical. A list of at most 127 items is written exactly when
  it fits, and read back from any position it was written at when the reader's array has room for it;
  the octets the reader accepts at the start of a buffer are exactly the encodings of the lists it
  returns, and it never reads outside the buffer.
\<close>

theorem extension_list_roundtrip:
  "(length items \<le> 127 \<and> length items \<le> unat capacity \<and> length out \<le> len \<longrightarrow>
      write_extension_list len out items (of_nat (length items)) =
        (if length out + 1 + 2 * length items \<le> len then Done (out @ list_wire items) else Reject) \<and>
      read_extension_list (list_wire items @ rest) 0 capacity = Done (items, 1 + 2 * length items)) \<and>
   (read_extension_list bs 0 capacity = Done (items', n) \<longleftrightarrow>
      length items' \<le> 127 \<and> length items' \<le> unat capacity \<and> n = 1 + 2 * length items' \<and>
      (\<exists>tail. bs = list_wire items' @ tail)) \<and>
   read_extension_list bs pos capacity \<noteq> Fault"
  using extension_list.dec_iff [where capacity = capacity and bs = bs and v = items' and n = n]
  by (simp add: write_extension_list_eq read_list_wire read_list_safe length_list_wire)

theorem extension_list_roundtrip_witness:
  "read_extension_list (list_wire [\<lparr>eli_type = 1, eli_value = 2\<rparr>] @ [9]) 0 4 = Done ([\<lparr>eli_type = 1, eli_value = 2\<rparr>], 3)"
  using extension_list_roundtrip [of "[\<lparr>eli_type = 1, eli_value = 2\<rparr>]" 4 "[]" 8 "[9]"] by simp

text \<open>
  C35. An accepted chain of IPv6 extension headers tiles its octets. The parser returns a list of items
  and a terminal protocol number exactly when the items lie one after the other from the first octet to the
  last, each one of a known extension type, announced by its predecessor, of the length its header
  carries (eight octets for a fragment header), with an 8-bit offset, and there are no more items than
  the caller's array holds; on no octets it accepts exactly a first header that is not an extension. It never reads outside the buffer, so the
  loop ends for every input.
\<close>

theorem ipv6_extension_chain:
  "(parse_ipv6_extension_header_items data first capacity = Done (items, terminal) \<longleftrightarrow>
      chain_ok data first 0 items terminal \<and> length items \<le> unat capacity \<and>
      (is_ipv6_extension_header_type first \<longrightarrow> data \<noteq> [])) \<and>
   parse_ipv6_extension_header_items data first capacity \<noteq> Fault"
proof (cases "data = []")
  case True
  then have "chain_ok data first 0 items terminal \<longleftrightarrow> items = [] \<and> first = terminal"
    by (cases items) auto
  then show ?thesis using True by (auto simp: parse_ipv6_extension_header_items_def)
next
  case False
  then have "items \<noteq> []" if "chain_ok data first 0 items terminal"
    using that by auto
  moreover have "capacity = 0 \<longleftrightarrow> unat capacity = 0" by (simp add: unat_eq_0)
  ultimately show ?thesis
    using False extension_items_iff [of 0 data "[]" capacity first items terminal] extension_items_safe
    by (auto simp: parse_ipv6_extension_header_items_def)
qed

theorem ipv6_extension_chain_witness:
  "parse_ipv6_extension_header_items [17, 0, 1, 2, 3, 4, 5, 6] 60 4 =
     Done ([\<lparr>ext_type = 60, ext_next_header = 17, ext_offset = 0, ext_length = 8\<rparr>], 17)"
  by (subst ipv6_extension_chain [THEN conjunct1]) (simp add: is_ipv6_extension_header_type_def)

end
