(* ===== verification/Protocols.thy ===== *)
theory Protocols
  imports Prelude
begin

text \<open>
  The uncompressed headers: \<open>protocols/ipv4.hpp\<close>, \<open>ipv6.hpp\<close>, \<open>udp.hpp\<close>, \<open>rtp.hpp\<close> over the wire
  scalars of \<open>wire/types.hpp\<close>, \<open>wire/convert.hpp\<close> and \<open>utils/bytes.hpp\<close>. A header view
  \<open>reinterpret_cast<const Header*>(p)\<close> is a record of the fields in host order; making one reads
  every octet it covers. A pointer into the packet is an offset. The fact proved is that the walk
  over IPv6 extension headers stays within the datagram.
\<close>

section \<open>Wire scalars\<close>

definition load_be16 :: "bytes \<Rightarrow> nat \<Rightarrow> u16" where
  "load_be16 p i = of_be16 (p ! i) (p ! (i + 1))"

definition load_be32 :: "bytes \<Rightarrow> nat \<Rightarrow> u32" where
  "load_be32 p i = of_be32 (p ! i) (p ! (i + 1)) (p ! (i + 2)) (p ! (i + 3))"

definition bounds_check :: "nat \<Rightarrow> nat \<Rightarrow> nat \<Rightarrow> bool" where
  \<comment> \<open>\<open>bounds_check(base, len, base + offset, want)\<close>\<close>
  "bounds_check len offset want \<longleftrightarrow> offset + want \<le> len"

section \<open>IPv4\<close>

record ipv4_header =
  ip4_version_ihl :: byte
  ip4_tos :: byte
  ip4_total_length :: u16
  ip4_identification :: u16
  ip4_flags_fragment :: u16
  ip4_ttl :: byte
  ip4_protocol :: byte
  ip4_checksum :: u16
  ip4_src :: u32
  ip4_dst :: u32

definition ipv4_header_of :: "bytes \<Rightarrow> ipv4_header" where
  "ipv4_header_of h =
     \<lparr>ip4_version_ihl = h ! 0, ip4_tos = h ! 1, ip4_total_length = load_be16 h 2,
      ip4_identification = load_be16 h 4, ip4_flags_fragment = load_be16 h 6, ip4_ttl = h ! 8,
      ip4_protocol = h ! 9, ip4_checksum = load_be16 h 10, ip4_src = load_be32 h 12,
      ip4_dst = load_be32 h 16\<rparr>"

definition is_fragmented :: "u16 \<Rightarrow> bool" where
  "is_fragmented flags_fragment \<longleftrightarrow> flags_fragment AND 0x3FFF \<noteq> 0"

definition ipv4_parse :: "bytes \<Rightarrow> (ipv4_header \<times> nat) res" where
  "ipv4_parse data =
     (if length data < 20 then Reject
      else copy_in data 0 20 (\<lambda>h.
        let ip = ipv4_header_of h; vihl = ip4_version_ihl ip in
        if drop_bit 4 vihl \<noteq> 4 then Reject
        else let header_len = unat (vihl AND 0x0F) * 4 in
          if header_len < 20 \<or> header_len > length data then Reject else Done (ip, header_len)))"

section \<open>IPv6\<close>

record ipv6_header =
  ip6_version_tc_flow :: u32
  ip6_payload_length :: u16
  ip6_next_header :: byte
  ip6_hop_limit :: byte
  ip6_src :: bytes
  ip6_dst :: bytes

definition ipv6_header_of :: "bytes \<Rightarrow> ipv6_header" where
  "ipv6_header_of h =
     \<lparr>ip6_version_tc_flow = load_be32 h 0, ip6_payload_length = load_be16 h 4,
      ip6_next_header = h ! 6, ip6_hop_limit = h ! 7, ip6_src = take 16 (drop 8 h),
      ip6_dst = take 16 (drop 24 h)\<rparr>"

definition is_extension_header :: "byte \<Rightarrow> bool" where
  "is_extension_header next_header \<longleftrightarrow>
     next_header = 0 \<or> next_header = 43 \<or> next_header = 44 \<or> next_header = 60"

definition extension_header_len :: "bytes \<Rightarrow> nat \<Rightarrow> byte \<Rightarrow> nat res" where
  "extension_header_len data len next_header =
     (if next_header = 44 then (if len \<ge> 8 then Done 8 else Reject)
      else if len < 2 then Reject
      else rd data 1 (\<lambda>b. let header_len = (unat b + 1) * 8 in
             if header_len \<ge> 8 \<and> len \<ge> header_len then Done header_len else Reject))"

function ipv6_extension_loop :: "bytes \<Rightarrow> nat \<Rightarrow> byte \<Rightarrow> nat \<Rightarrow> nat \<Rightarrow> (byte \<times> nat \<times> nat) res" where
  "ipv6_extension_loop data total_len nxt pos extension_len =
     (if is_extension_header nxt then
        (if pos \<le> length data then
           (case extension_header_len (drop pos data) (szsub total_len pos) nxt of
              Done ext_len \<Rightarrow>
                (if pos < length data then
                   ipv6_extension_loop data total_len (data ! pos) (pos + ext_len) (extension_len + ext_len)
                 else Fault)
            | Reject \<Rightarrow> Reject
            | Fault \<Rightarrow> Fault)
         else Fault)
      else Done (nxt, pos, extension_len))"
  by pat_completeness auto
termination
  by (relation "measure (\<lambda>(data, t, n, pos, e). length data - pos)")
    (auto simp: extension_header_len_def Let_def rd_def split: if_splits)

declare ipv6_extension_loop.simps [simp del]

definition ipv6_parse :: "bytes \<Rightarrow> (ipv6_header \<times> nat \<times> byte \<times> nat) res" where
  \<comment> \<open>\<open>(hdr, header_len, terminal_next_header, extension_len)\<close>\<close>
  "ipv6_parse data =
     (if length data < 40 then Reject
      else copy_in data 0 40 (\<lambda>h.
        let ip = ipv6_header_of h in
        if drop_bit 28 (ip6_version_tc_flow ip) \<noteq> 6 then Reject
        else let total_len = 40 + unat (ip6_payload_length ip) in
          if total_len > length data then Reject
          else seq_res (ipv6_extension_loop data total_len (ip6_next_header ip) 40 0)
            (\<lambda>(nxt, pos, extension_len). Done (ip, pos, nxt, extension_len))))"

section \<open>UDP and RTP\<close>

record udp_header =
  udp_src_port :: u16
  udp_dst_port :: u16
  udp_length :: u16
  udp_checksum :: u16

definition udp_header_of :: "bytes \<Rightarrow> udp_header" where
  "udp_header_of h = \<lparr>udp_src_port = load_be16 h 0, udp_dst_port = load_be16 h 2,
     udp_length = load_be16 h 4, udp_checksum = load_be16 h 6\<rparr>"

definition udp_parse :: "bytes \<Rightarrow> nat \<Rightarrow> udp_header res" where
  "udp_parse base data =
     (if \<not> bounds_check (length base) data 8 then Reject
      else copy_in base data 8 (\<lambda>h. Done (udp_header_of h)))"

record rtp_header =
  rh_vpxcc :: byte
  rh_mpt :: byte
  rh_sequence :: u16
  rh_timestamp :: u32
  rh_ssrc :: u32

definition rtp_header_of :: "bytes \<Rightarrow> rtp_header" where
  "rtp_header_of h = \<lparr>rh_vpxcc = h ! 0, rh_mpt = h ! 1, rh_sequence = load_be16 h 2,
     rh_timestamp = load_be32 h 4, rh_ssrc = load_be32 h 8\<rparr>"

definition rtp_version :: "rtp_header \<Rightarrow> byte" where
  "rtp_version h = drop_bit 6 (rh_vpxcc h)"

definition rtp_parse :: "bytes \<Rightarrow> nat \<Rightarrow> rtp_header res" where
  "rtp_parse base data =
     (if \<not> bounds_check (length base) data 12 then Reject
      else copy_in base data 12 (\<lambda>h.
        let rtp = rtp_header_of h in if rtp_version rtp \<noteq> 2 then Reject else Done rtp))"

section \<open>Safety of the parsers\<close>

lemma extension_header_len_result:
  "len \<le> length data \<Longrightarrow> extension_header_len data len n \<noteq> Fault \<and>
     (\<forall>h. extension_header_len data len n = Done h \<longrightarrow> 8 \<le> h \<and> h \<le> len)"
  by (auto simp: extension_header_len_def Let_def)

lemma ipv6_extension_loop_result:
  "pos \<le> total_len \<Longrightarrow> total_len \<le> length data \<Longrightarrow>
   ipv6_extension_loop data total_len nxt pos ext \<noteq> Fault \<and>
   (\<forall>n p e. ipv6_extension_loop data total_len nxt pos ext = Done (n, p, e) \<longrightarrow>
      \<not> is_extension_header n \<and> p \<le> total_len \<and> p + ext = pos + e)"
proof (induction data total_len nxt pos ext rule: ipv6_extension_loop.induct)
  case (1 data total_len nxt pos ext)
  show ?case
  proof (cases "extension_header_len (drop pos data) (szsub total_len pos) nxt")
    case (Done h)
    have h: "8 \<le> h" "h \<le> total_len - pos"
      using extension_header_len_result [of "total_len - pos" "drop pos data" nxt] 1(2,3) Done by auto
    then have pos: "pos < length data" "pos + h \<le> total_len" using 1(2,3) by auto
    show ?thesis
    proof (cases "is_extension_header nxt")
      case True
      then show ?thesis
        using 1(1) [of h] h pos 1(2,3) Done
        by (subst (1 2) ipv6_extension_loop.simps) auto
    qed (use 1(2) in \<open>subst (1 2) ipv6_extension_loop.simps; simp\<close>)
  next
    case Reject
    then show ?thesis using 1(2,3) by (subst (1 2) ipv6_extension_loop.simps) auto
  next
    case Fault
    then show ?thesis
      using extension_header_len_result [of "total_len - pos" "drop pos data" nxt] 1(2,3) by auto
  qed
qed

lemma ipv4_parse_result:
  "ipv4_parse data \<noteq> Fault \<and>
   (\<forall>ip h. ipv4_parse data = Done (ip, h) \<longrightarrow> 20 \<le> h \<and> h \<le> length data)"
  by (auto simp: ipv4_parse_def Let_def)

lemma ipv6_parse_result:
  "ipv6_parse data \<noteq> Fault \<and>
   (\<forall>ip h n e. ipv6_parse data = Done (ip, h, n, e) \<longrightarrow>
      \<not> is_extension_header n \<and> h = 40 + e \<and> h \<le> 40 + unat (ip6_payload_length ip) \<and> h \<le> length data)"
proof -
  define ip where "ip = ipv6_header_of (take 40 data)"
  have loop: "40 + unat (ip6_payload_length ip) \<le> length data \<Longrightarrow>
      ipv6_extension_loop data (40 + unat (ip6_payload_length ip)) (ip6_next_header ip) 40 0 \<noteq> Fault \<and>
      (\<forall>n p e. ipv6_extension_loop data (40 + unat (ip6_payload_length ip)) (ip6_next_header ip) 40 0
         = Done (n, p, e) \<longrightarrow>
       \<not> is_extension_header n \<and> p \<le> 40 + unat (ip6_payload_length ip) \<and> p + 0 = 40 + e)"
    by (rule ipv6_extension_loop_result) simp_all
  define r where
    "r = ipv6_extension_loop data (40 + unat (ip6_payload_length ip)) (ip6_next_header ip) 40 0"
  have p: "ipv6_parse data =
      (if length data < 40 \<or> drop_bit 28 (ip6_version_tc_flow ip) \<noteq> 6 \<or>
          40 + unat (ip6_payload_length ip) > length data then Reject
       else seq_res r (\<lambda>(nxt, pos, extension_len). Done (ip, pos, nxt, extension_len)))"
    by (simp add: ipv6_parse_def Let_def ip_def [symmetric] r_def)
  show ?thesis
    unfolding p using loop [folded r_def] by (cases r) (auto split: if_splits)
qed

lemma udp_parse_not_Fault [simp]: "udp_parse base off \<noteq> Fault"
  by (simp add: udp_parse_def bounds_check_def)

lemma rtp_parse_not_Fault [simp]: "rtp_parse base off \<noteq> Fault"
  by (simp add: rtp_parse_def bounds_check_def Let_def)

end
