(* ===== verification/Context.thy ===== *)
theory Context
  imports Bits Lsb Protocols
begin

text \<open>
  The compression context: \<open>core/context.hpp\<close>, its table \<open>core/context_table.hpp\<close>, the
  initialisation \<open>core/context_init.hpp\<close> and the context checksum \<open>core/context_crc.hpp\<close>. The
  fixed-size arrays of the source are lists whose lengths \<open>context_wf\<close> pins down. The constructor
  of the large \<open>Context\<close> structure is the value-initialisation \<open>new Context[n]()\<close> of the table.
\<close>

section \<open>Model\<close>

datatype profile = Uncompressed | LLA_RTP | RTP | UDP | ESP | IP | RTP_UDP_Lite | UDP_Lite

definition profile_code :: "profile \<Rightarrow> u16" where
  "profile_code p = (case p of Uncompressed \<Rightarrow> 0x0000 | LLA_RTP \<Rightarrow> 0x0005 | RTP \<Rightarrow> 0x0101
     | UDP \<Rightarrow> 0x0102 | ESP \<Rightarrow> 0x0103 | IP \<Rightarrow> 0x0104 | RTP_UDP_Lite \<Rightarrow> 0x0107 | UDP_Lite \<Rightarrow> 0x0108)"

datatype mode = ModeUncompressed | Optimistic | Reliable

datatype rohc_state = NoContext | StaticEstablished | DynamicEstablished

record rtp_context =
  rtp_ssrc :: u32
  rtp_last_seq :: u16
  rtp_last_ts :: u32
  rtp_vpxcc :: byte
  rtp_mpt :: byte
  rtp_initialized :: byte
  rtp_ts_stride :: u32
  rtp_ts_residue :: u32
  rtp_timer_elapsed_ticks :: u32
  rtp_timer_based_ts :: bool
  rtp_csrc_list_len :: byte
  rtp_csrc_list :: bytes
  rtp_extension_len :: u16
  rtp_extension_bytes :: bytes
  rtp_padding_len :: byte
  rtp_padding_bytes :: bytes
  rtp_seq_window :: "u16 lsb_window"
  rtp_ts_window :: "u32 lsb_window"

record rohc_context =
  ctx_profile :: profile
  ctx_mode :: mode
  ctx_rohc_state :: rohc_state
  ctx_cid :: u32
  ctx_large_cid :: bool
  ctx_tx_count :: u32
  ctx_nack_count :: byte
  ctx_static_acked :: bool
  ctx_dynamic_acked :: bool
  ctx_profile_has_been_used :: bool
  ctx_profile_replacement_active :: bool
  ctx_profile_replacement_pending :: bool
  ctx_formal_pt0_since_confirmation :: byte
  ctx_formal_pt0_crc7_seen :: bool
  ctx_formal_pt0_crc3_retired :: bool
  ctx_reject_legacy_udp_pt0_until_refresh :: bool
  ctx_limit_legacy_udp_pt0_to_sequential :: bool
  ctx_compact_profile_replacement_seen :: bool
  ctx_context_revision :: u64
  ctx_msn :: u16
  ctx_reorder_ratio :: byte
  ctx_transmitted_msn_history :: "u16 list"
  ctx_transmitted_context_revision_history :: "u64 list"
  ctx_transmitted_msn_head :: byte
  ctx_transmitted_msn_count :: byte
  ctx_ip_version :: byte
  ctx_ipv4_tos :: byte
  ctx_ipv4_ttl :: byte
  ctx_ipv4_id :: u16
  ctx_ipv4_flags :: byte
  ctx_ipv4_id_sequential :: bool
  ctx_ipv4_id_behavior :: byte
  ctx_ipv4_protocol :: byte
  ctx_ipv4_saddr :: u32
  ctx_ipv4_daddr :: u32
  ctx_ipv4_options_len :: byte
  ctx_ipv4_options :: bytes
  ctx_ipv6_traffic_class :: byte
  ctx_ipv6_flow_label :: u32
  ctx_ipv6_next_header :: byte
  ctx_ipv6_hop_limit :: byte
  ctx_ipv6_extension_len :: byte
  ctx_ipv6_saddr :: bytes
  ctx_ipv6_daddr :: bytes
  ctx_ipv6_extensions :: bytes
  ctx_udp_sport :: u16
  ctx_udp_dport :: u16
  ctx_udp_length_or_coverage :: u16
  ctx_udp_check :: u16
  ctx_udp_checksum_used :: bool
  ctx_esp_spi :: u32
  ctx_esp_sequence :: u32
  ctx_legacy_esp_payload_includes_header :: bool
  ctx_rtp :: rtp_context

definition rtp_context_zero :: rtp_context where
  "rtp_context_zero =
     \<lparr>rtp_ssrc = 0, rtp_last_seq = 0, rtp_last_ts = 0, rtp_vpxcc = 0, rtp_mpt = 0, rtp_initialized = 0,
      rtp_ts_stride = 0, rtp_ts_residue = 0, rtp_timer_elapsed_ticks = 0, rtp_timer_based_ts = False,
      rtp_csrc_list_len = 0, rtp_csrc_list = replicate 60 0, rtp_extension_len = 0,
      rtp_extension_bytes = replicate 256 0, rtp_padding_len = 0, rtp_padding_bytes = replicate 255 0,
      rtp_seq_window = lsb_init 0, rtp_ts_window = lsb_init 0\<rparr>"

definition context_zero :: rohc_context where
  "context_zero =
     \<lparr>ctx_profile = Uncompressed, ctx_mode = ModeUncompressed, ctx_rohc_state = NoContext, ctx_cid = 0,
      ctx_large_cid = False, ctx_tx_count = 0, ctx_nack_count = 0, ctx_static_acked = False,
      ctx_dynamic_acked = False, ctx_profile_has_been_used = False,
      ctx_profile_replacement_active = False, ctx_profile_replacement_pending = False,
      ctx_formal_pt0_since_confirmation = 0, ctx_formal_pt0_crc7_seen = False,
      ctx_formal_pt0_crc3_retired = False, ctx_reject_legacy_udp_pt0_until_refresh = False,
      ctx_limit_legacy_udp_pt0_to_sequential = False, ctx_compact_profile_replacement_seen = False,
      ctx_context_revision = 0, ctx_msn = 0, ctx_reorder_ratio = 0,
      ctx_transmitted_msn_history = replicate 64 0,
      ctx_transmitted_context_revision_history = replicate 64 0, ctx_transmitted_msn_head = 0,
      ctx_transmitted_msn_count = 0, ctx_ip_version = 4, ctx_ipv4_tos = 0, ctx_ipv4_ttl = 0,
      ctx_ipv4_id = 0, ctx_ipv4_flags = 0, ctx_ipv4_id_sequential = False, ctx_ipv4_id_behavior = 0,
      ctx_ipv4_protocol = 0, ctx_ipv4_saddr = 0, ctx_ipv4_daddr = 0, ctx_ipv4_options_len = 0,
      ctx_ipv4_options = replicate 40 0, ctx_ipv6_traffic_class = 0, ctx_ipv6_flow_label = 0,
      ctx_ipv6_next_header = 0, ctx_ipv6_hop_limit = 0, ctx_ipv6_extension_len = 0,
      ctx_ipv6_saddr = replicate 16 0, ctx_ipv6_daddr = replicate 16 0,
      ctx_ipv6_extensions = replicate 128 0, ctx_udp_sport = 0, ctx_udp_dport = 0,
      ctx_udp_length_or_coverage = 0, ctx_udp_check = 0, ctx_udp_checksum_used = False,
      ctx_esp_spi = 0, ctx_esp_sequence = 0, ctx_legacy_esp_payload_includes_header = False,
      ctx_rtp = rtp_context_zero\<rparr>"

definition rtp_context_wf :: "rtp_context \<Rightarrow> bool" where
  "rtp_context_wf r \<longleftrightarrow> length (rtp_csrc_list r) = 60 \<and> unat (rtp_csrc_list_len r) \<le> 60 \<and>
     length (rtp_extension_bytes r) = 256 \<and> unat (rtp_extension_len r) \<le> 256 \<and>
     length (rtp_padding_bytes r) = 255"

definition context_wf :: "rohc_context \<Rightarrow> bool" where
  "context_wf c \<longleftrightarrow> length (ctx_transmitted_msn_history c) = 64 \<and>
     length (ctx_transmitted_context_revision_history c) = 64 \<and>
     ctx_transmitted_msn_head c < 64 \<and> ctx_transmitted_msn_count c \<le> 64 \<and>
     length (ctx_ipv4_options c) = 40 \<and> unat (ctx_ipv4_options_len c) \<le> 40 \<and>
     length (ctx_ipv6_saddr c) = 16 \<and> length (ctx_ipv6_daddr c) = 16 \<and>
     length (ctx_ipv6_extensions c) = 128 \<and> unat (ctx_ipv6_extension_len c) \<le> 128 \<and>
     rtp_context_wf (ctx_rtp c)"

lemma context_zero_wf [simp]: "context_wf context_zero"
  by (simp add: context_wf_def context_zero_def rtp_context_wf_def rtp_context_zero_def)

definition select_profile :: "bool \<Rightarrow> bool \<Rightarrow> bool \<Rightarrow> profile" where
  \<comment> \<open>the arguments say which header views are non-null\<close>
  "select_profile ip udp rtp =
     (if ip \<and> udp \<and> rtp then RTP else if ip \<and> udp then UDP else Uncompressed)"

section \<open>Context table\<close>

record context_table =
  ct_table :: "rohc_context list option"
  ct_max_cid :: u32

definition context_table_new :: context_table where
  "context_table_new = \<lparr>ct_table = None, ct_max_cid = 0\<rparr>"

definition context_table_init :: "u32 \<Rightarrow> context_table" where
  "context_table_init max_id =
     \<lparr>ct_table = Some (replicate (unat (max_id + 1)) context_zero), ct_max_cid = max_id\<rparr>"

definition context_table_destroy :: "context_table \<Rightarrow> context_table" where
  "context_table_destroy t = t\<lparr>ct_table := None, ct_max_cid := 0\<rparr>"

definition context_table_get :: "context_table \<Rightarrow> u32 \<Rightarrow> nat option res" where
  \<comment> \<open>\<open>nullptr\<close> is \<open>None\<close>; a pointer to an entry is its index; an address outside the array is \<open>Fault\<close>\<close>
  "context_table_get t cid =
     (if cid > ct_max_cid t then Done None
      else case ct_table t of None \<Rightarrow> Fault
        | Some entries \<Rightarrow> if unat cid < length entries then Done (Some (unat cid)) else Fault)"

definition context_table_entry :: "context_table \<Rightarrow> nat \<Rightarrow> rohc_context" where
  "context_table_entry t i = the (ct_table t) ! i"

definition context_table_set :: "context_table \<Rightarrow> nat \<Rightarrow> rohc_context \<Rightarrow> context_table" where
  \<comment> \<open>assignments through the pointer that \<open>context_table_get\<close> returned\<close>
  "context_table_set t i c = t\<lparr>ct_table := map_option (\<lambda>es. es[i := c]) (ct_table t)\<rparr>"

definition init_rtp_entry :: "rohc_context \<Rightarrow> u32 \<Rightarrow> rtp_header option \<Rightarrow> rohc_context" where
  "init_rtp_entry ctx cid rtp =
     (let ctx = ctx\<lparr>ctx_cid := cid, ctx_profile := RTP, ctx_mode := Optimistic, ctx_tx_count := 0,
                    ctx_nack_count := 0\<rparr> in
      case rtp of None \<Rightarrow> ctx
      | Some h \<Rightarrow> ctx\<lparr>ctx_rtp := (ctx_rtp ctx)\<lparr>rtp_ssrc := rh_ssrc h, rtp_last_seq := rh_sequence h,
            rtp_last_ts := rh_timestamp h, rtp_seq_window := lsb_init (rh_sequence h),
            rtp_ts_window := lsb_init (rh_timestamp h), rtp_initialized := 1\<rparr>\<rparr>)"

definition init_rtp_context :: "context_table \<Rightarrow> u32 \<Rightarrow> rtp_header option \<Rightarrow> (nat option \<times> context_table) res" where
  "init_rtp_context tbl cid rtp =
     seq_res (context_table_get tbl cid) (\<lambda>p. case p of
       None \<Rightarrow> Done (None, tbl)
     | Some i \<Rightarrow> Done (Some i, context_table_set tbl i (init_rtp_entry (context_table_entry tbl i) cid rtp)))"

section \<open>Context checksum\<close>

definition write_context_u16 :: "bytes \<Rightarrow> u16 \<Rightarrow> (bytes \<Rightarrow> 'a res) \<Rightarrow> 'a res" where
  "write_context_u16 data value k = put_all 64 data (be16 value) k"

definition write_context_u32 :: "bytes \<Rightarrow> u32 \<Rightarrow> (bytes \<Rightarrow> 'a res) \<Rightarrow> 'a res" where
  "write_context_u32 data value k = put_all 64 data (be32 value) k"

definition context_crc7 :: "rohc_context \<Rightarrow> byte res" where
  "context_crc7 ctx =
     write_context_u16 [] (profile_code (ctx_profile ctx)) (\<lambda>d.
     write_context_u32 d (ctx_cid ctx) (\<lambda>d.
     put 64 d (ctx_ip_version ctx) (\<lambda>d.
     put 64 d (ctx_ipv4_tos ctx) (\<lambda>d.
     put 64 d (ctx_ipv4_ttl ctx) (\<lambda>d.
     write_context_u16 d (ctx_ipv4_id ctx) (\<lambda>d.
     put 64 d (ctx_ipv4_flags ctx) (\<lambda>d.
     put 64 d (if ctx_ipv4_id_sequential ctx then 1 else 0) (\<lambda>d.
     write_context_u32 d (ctx_ipv4_saddr ctx) (\<lambda>d.
     write_context_u32 d (ctx_ipv4_daddr ctx) (\<lambda>d.
     write_context_u16 d (ctx_udp_sport ctx) (\<lambda>d.
     write_context_u16 d (ctx_udp_dport ctx) (\<lambda>d.
     write_context_u16 d (ctx_udp_check ctx) (\<lambda>d.
     put 64 d (rtp_vpxcc (ctx_rtp ctx)) (\<lambda>d.
     put 64 d (rtp_mpt (ctx_rtp ctx)) (\<lambda>d.
     write_context_u16 d (rtp_last_seq (ctx_rtp ctx)) (\<lambda>d.
     write_context_u32 d (rtp_last_ts (ctx_rtp ctx)) (\<lambda>d.
     write_context_u32 d (rtp_ssrc (ctx_rtp ctx)) (\<lambda>d.
     write_context_u32 d (rtp_ts_stride (ctx_rtp ctx)) (\<lambda>d.
     Done (crc7 d AND 0x7F))))))))))))))))))))"

definition context_crc_octets :: "rohc_context \<Rightarrow> bytes" where
  "context_crc_octets ctx =
     be16 (profile_code (ctx_profile ctx)) @ be32 (ctx_cid ctx) @
     [ctx_ip_version ctx, ctx_ipv4_tos ctx, ctx_ipv4_ttl ctx] @ be16 (ctx_ipv4_id ctx) @
     [ctx_ipv4_flags ctx, if ctx_ipv4_id_sequential ctx then 1 else 0] @ be32 (ctx_ipv4_saddr ctx) @
     be32 (ctx_ipv4_daddr ctx) @ be16 (ctx_udp_sport ctx) @ be16 (ctx_udp_dport ctx) @
     be16 (ctx_udp_check ctx) @ [rtp_vpxcc (ctx_rtp ctx), rtp_mpt (ctx_rtp ctx)] @
     be16 (rtp_last_seq (ctx_rtp ctx)) @ be32 (rtp_last_ts (ctx_rtp ctx)) @ be32 (rtp_ssrc (ctx_rtp ctx)) @
     be32 (rtp_ts_stride (ctx_rtp ctx))"

lemma context_crc7_eq: "context_crc7 ctx = Done (crc7 (context_crc_octets ctx))"
  by (simp add: context_crc7_def write_context_u16_def write_context_u32_def context_crc_octets_def)

section \<open>The table as a store of contexts\<close>

text \<open>
  What the clients of \<open>ContextTable\<close> rely on: a CID in range has an entry of its own, and
  assigning through it changes no other entry.
\<close>

definition table_ok :: "context_table \<Rightarrow> bool" where
  "table_ok t \<longleftrightarrow> (\<exists>es. ct_table t = Some es \<and> length es = Suc (unat (ct_max_cid t)) \<and> list_all context_wf es)"

locale entry_store =
  fixes ok :: "'t \<Rightarrow> bool" and get :: "'t \<Rightarrow> 'k \<Rightarrow> nat option res" and entry :: "'t \<Rightarrow> nat \<Rightarrow> 'c"
    and upd :: "'t \<Rightarrow> nat \<Rightarrow> 'c \<Rightarrow> 't" and good :: "'c \<Rightarrow> bool"
  assumes get_total: "ok t \<Longrightarrow> get t k \<noteq> Fault \<and> get t k \<noteq> Reject"
    and get_distinct: "ok t \<Longrightarrow> get t k = Done (Some i) \<Longrightarrow> get t l = Done (Some i) \<Longrightarrow> k = l"
    and get_good: "ok t \<Longrightarrow> get t k = Done (Some i) \<Longrightarrow> good (entry t i)"
    and get_upd: "get (upd t i c) k = get t k"
    and entry_upd: "ok t \<Longrightarrow> get t k = Done (Some i) \<Longrightarrow> get t l = Done (Some j) \<Longrightarrow>
                    entry (upd t i c) j = (if k = l then c else entry t j)"
    and ok_upd: "ok t \<Longrightarrow> get t k = Done (Some i) \<Longrightarrow> good c \<Longrightarrow> ok (upd t i c)"
begin

lemma upd_frame:
  assumes "ok t" and "get t k = Done (Some i)" and "good c"
  shows "ok (upd t i c) \<and> get (upd t i c) k = Done (Some i) \<and> entry (upd t i c) i = c \<and>
         (\<forall>l j. l \<noteq> k \<longrightarrow> get t l = Done (Some j) \<longrightarrow>
            get (upd t i c) l = Done (Some j) \<and> entry (upd t i c) j = entry t j)"
  using assms by (auto simp: get_upd entry_upd ok_upd)

end

interpretation contexts: entry_store table_ok context_table_get context_table_entry context_table_set context_wf
proof
  show "table_ok t \<Longrightarrow> context_table_get t k \<noteq> Fault \<and> context_table_get t k \<noteq> Reject" for t k
    by (auto simp: table_ok_def context_table_get_def word_le_nat_alt not_less)
  show "table_ok t \<Longrightarrow> context_table_get t k = Done (Some i) \<Longrightarrow> context_table_get t l = Done (Some i) \<Longrightarrow> k = l"
    for t k l i
    by (auto simp: context_table_get_def word_unat_eq_iff split: if_splits option.splits)
  show "table_ok t \<Longrightarrow> context_table_get t k = Done (Some i) \<Longrightarrow> context_wf (context_table_entry t i)" for t k i
    by (auto simp: table_ok_def context_table_get_def context_table_entry_def list_all_length
        split: if_splits option.splits)
  show "context_table_get (context_table_set t i c) k = context_table_get t k" for t i c k
    by (simp add: context_table_get_def context_table_set_def split: option.splits)
  show "table_ok t \<Longrightarrow> context_table_get t k = Done (Some i) \<Longrightarrow> context_table_get t l = Done (Some j) \<Longrightarrow>
      context_table_entry (context_table_set t i c) j = (if k = l then c else context_table_entry t j)"
    for t k l i j c
    by (auto simp: table_ok_def context_table_get_def context_table_entry_def context_table_set_def
        word_unat_eq_iff split: if_splits option.splits)
  show "table_ok t \<Longrightarrow> context_table_get t k = Done (Some i) \<Longrightarrow> context_wf c \<Longrightarrow> table_ok (context_table_set t i c)"
    for t k i c
    by (auto simp: table_ok_def context_table_set_def list_all_iff)
      (metis in_set_conv_nth length_list_update nth_list_update_eq nth_list_update_neq)
qed

lemma context_table_init_ok: "max_id \<noteq> - 1 \<Longrightarrow> table_ok (context_table_init max_id)"
proof -
  assume "max_id \<noteq> - 1"
  then have "max_id + 1 \<noteq> 0" by (metis add.right_inverse add_left_cancel add.commute)
  then have "unat (max_id + 1) = Suc (unat max_id)" by (metis add.commute unatSuc)
  then show ?thesis by (simp add: table_ok_def context_table_init_def list_all_iff)
qed

lemma init_rtp_entry_wf: "context_wf c \<Longrightarrow> context_wf (init_rtp_entry c cid rtp)"
  by (auto simp: init_rtp_entry_def Let_def context_wf_def rtp_context_wf_def split: option.splits)

section \<open>Properties\<close>

text \<open>
  The context table keeps contexts apart. In a table initialised for a largest CID below
  \<open>2^32 - 1\<close>, and in every table whose invariant holds, \<open>init_rtp_context\<close> never leaves the array;
  it rejects exactly the CIDs above the maximum, establishes the RTP context of an accepted CID from
  the header, keeps the invariant, and leaves the entry of every other CID unchanged.
\<close>

theorem init_rtp_context_isolated:
  assumes "table_ok t"
  shows "(max_id \<noteq> - 1 \<longrightarrow> table_ok (context_table_init max_id)) \<and>
         (cid > ct_max_cid t \<longrightarrow> init_rtp_context t cid rtp = Done (None, t)) \<and>
         (cid \<le> ct_max_cid t \<longrightarrow> (\<exists>t'. init_rtp_context t cid rtp = Done (Some (unat cid), t') \<and> table_ok t' \<and>
            context_table_entry t' (unat cid) = init_rtp_entry (context_table_entry t (unat cid)) cid rtp \<and>
            (\<forall>l j. l \<noteq> cid \<longrightarrow> context_table_get t l = Done (Some j) \<longrightarrow>
               context_table_entry t' j = context_table_entry t j)))"
proof (cases "cid > ct_max_cid t")
  case True
  then show ?thesis
    by (auto simp: init_rtp_context_def context_table_get_def intro: context_table_init_ok)
next
  case False
  then have g: "context_table_get t cid = Done (Some (unat cid))"
    using assms by (auto simp: table_ok_def context_table_get_def word_le_nat_alt not_less)
  define c where "c = init_rtp_entry (context_table_entry t (unat cid)) cid rtp"
  have "context_wf c" using contexts.get_good [OF assms g] by (simp add: c_def init_rtp_entry_wf)
  note frame = contexts.upd_frame [OF assms g this]
  have "init_rtp_context t cid rtp = Done (Some (unat cid), context_table_set t (unat cid) c)"
    by (simp add: init_rtp_context_def g c_def)
  then show ?thesis
    using frame False by (auto simp: c_def [symmetric] intro: context_table_init_ok)
qed

theorem init_rtp_context_isolated_witness:
  "init_rtp_context (context_table_init 3) 4 None = Done (None, context_table_init 3) \<and>
   (\<exists>t'. init_rtp_context (context_table_init 3) 2 None = Done (Some 2, t') \<and> table_ok t')"
  using init_rtp_context_isolated [OF context_table_init_ok [of 3], of 3 4 None]
    init_rtp_context_isolated [OF context_table_init_ok [of 3], of 3 2 None]
  by (auto simp: context_table_init_def)

end
