(* ===== verification/FormalCo.thy ===== *)
theory FormalCo
  imports Context
begin

text \<open>
  The compressed (CO) packet formats of RFC 5225, \<open>core/formal_co.hpp\<close>: the eleven variants, their
  per-profile layouts, and the emitters and decoders of the base formats, \<open>co_common\<close> and
  \<open>co_repair\<close>; the specialised PT-0 path is in \<open>FormalCoPt0\<close>. The CRC input of a call is the list of octets it
  points to. A decoder returns the packet it filled in and the number of octets consumed;
  \<open>want_consumed\<close> says whether the caller passed a non-null \<open>consumed\<close>, which decides whether
  trailing octets are allowed. The packet argument after a failed call is not described.
\<close>

section \<open>Variants and their field widths\<close>

datatype formal_co_variant =
  Pt0Crc3 | Pt0Crc7 | Pt1Rnd | Pt1SeqId | Pt1SeqTs | Pt2Rnd | Pt2SeqId | Pt2SeqBoth | Pt2SeqTs
  | CoCommon | CoRepair

record formal_co_fields =
  cf_msn :: u16
  cf_ip_id :: u16
  cf_ts_scaled :: u16
  cf_marker :: bool

record formal_co_common_fields =
  cc_marker :: bool
  cc_flags1_indicator :: bool
  cc_flags2_indicator :: bool
  cc_tsc_indicator :: bool
  cc_tss_indicator :: bool
  cc_ip_id_indicator :: bool
  cc_flags_indicator :: bool
  cc_ttl_hopl_indicator :: bool
  cc_tos_tc_indicator :: bool
  cc_reorder_ratio :: byte
  cc_variable :: bytes

record formal_co_repair_fields =
  cr_dynamic_chain :: bytes

record formal_co_packet =
  cp_profile :: profile
  cp_variant :: formal_co_variant
  cp_cid :: u32
  cp_large_cid :: bool
  cp_cid_len :: nat
  cp_msn :: u16
  cp_ip_id :: u16
  cp_ts_scaled :: u16
  cp_marker :: bool
  cp_header_crc :: byte
  cp_control_crc3 :: byte
  cp_flags1_indicator :: bool
  cp_flags2_indicator :: bool
  cp_tsc_indicator :: bool
  cp_tss_indicator :: bool
  cp_ip_id_indicator :: bool
  cp_flags_indicator :: bool
  cp_ttl_hopl_indicator :: bool
  cp_tos_tc_indicator :: bool
  cp_reorder_ratio :: byte
  cp_variable_offset :: nat
  cp_variable_len :: nat

definition formal_co_packet_init :: formal_co_packet where
  "formal_co_packet_init =
     \<lparr>cp_profile = Uncompressed, cp_variant = Pt0Crc3, cp_cid = 0, cp_large_cid = False, cp_cid_len = 0,
      cp_msn = 0, cp_ip_id = 0, cp_ts_scaled = 0, cp_marker = False, cp_header_crc = 0,
      cp_control_crc3 = 0, cp_flags1_indicator = False, cp_flags2_indicator = False,
      cp_tsc_indicator = False, cp_tss_indicator = False, cp_ip_id_indicator = False,
      cp_flags_indicator = False, cp_ttl_hopl_indicator = False, cp_tos_tc_indicator = False,
      cp_reorder_ratio = 0, cp_variable_offset = 0, cp_variable_len = 0\<rparr>"

definition is_rtp_formal_co_profile :: "profile \<Rightarrow> bool" where
  "is_rtp_formal_co_profile p \<longleftrightarrow> p = RTP \<or> p = RTP_UDP_Lite"

definition is_supported_formal_co_profile :: "profile \<Rightarrow> bool" where
  "is_supported_formal_co_profile p = (case p of
     RTP \<Rightarrow> True | UDP \<Rightarrow> True | ESP \<Rightarrow> True | IP \<Rightarrow> True | RTP_UDP_Lite \<Rightarrow> True | UDP_Lite \<Rightarrow> True
   | Uncompressed \<Rightarrow> False | LLA_RTP \<Rightarrow> False)"

definition live_pt0_context_supported :: "rohc_context \<Rightarrow> bool \<Rightarrow> u32 \<Rightarrow> bool \<Rightarrow> bool" where
  "live_pt0_context_supported ctx large_cid_space cid_value has_add_cid =
     (if ctx_rohc_state ctx \<noteq> DynamicEstablished \<or> ctx_ip_version ctx \<noteq> 4 \<or> large_cid_space \<or>
         ctx_large_cid ctx then False
      else if ctx_profile ctx = RTP then
        cid_value \<le> 0x0F \<and> has_add_cid = (cid_value \<noteq> 0) \<and>
        (ctx_ipv4_id_behavior ctx = 0 \<or> ctx_ipv4_id_behavior ctx = 2 \<or> ctx_ipv4_id_behavior ctx = 3)
      else if ctx_profile ctx = UDP then
        ctx_ipv4_id_behavior ctx = 0 \<and> cid_value \<le> 0x0F \<and> has_add_cid = (cid_value \<noteq> 0)
      else if ctx_profile ctx = ESP then
        ctx_ipv4_id_behavior ctx = 0 \<and> cid_value \<le> 0x0F \<and> has_add_cid = (cid_value \<noteq> 0)
      else if ctx_profile ctx = IP then
        ctx_ipv4_id_behavior ctx = 0 \<and> cid_value \<le> 0x0F \<and> has_add_cid = (cid_value \<noteq> 0)
      else False)"

definition formal_co_variant_valid_for_profile :: "profile \<Rightarrow> formal_co_variant \<Rightarrow> bool" where
  "formal_co_variant_valid_for_profile p variant =
     (if \<not> is_supported_formal_co_profile p then False
      else case variant of
        Pt0Crc3 \<Rightarrow> True | Pt0Crc7 \<Rightarrow> True | Pt1SeqId \<Rightarrow> True | Pt2SeqId \<Rightarrow> True
      | Pt1Rnd \<Rightarrow> is_rtp_formal_co_profile p | Pt1SeqTs \<Rightarrow> is_rtp_formal_co_profile p
      | Pt2Rnd \<Rightarrow> is_rtp_formal_co_profile p | Pt2SeqBoth \<Rightarrow> is_rtp_formal_co_profile p
      | Pt2SeqTs \<Rightarrow> is_rtp_formal_co_profile p
      | CoCommon \<Rightarrow> True | CoRepair \<Rightarrow> True)"

definition formal_co_variant_uses_crc3 :: "formal_co_variant \<Rightarrow> bool" where
  "formal_co_variant_uses_crc3 variant = (case variant of
     Pt0Crc3 \<Rightarrow> True | Pt1Rnd \<Rightarrow> True | Pt1SeqId \<Rightarrow> True | Pt1SeqTs \<Rightarrow> True
   | Pt0Crc7 \<Rightarrow> False | Pt2Rnd \<Rightarrow> False | Pt2SeqId \<Rightarrow> False | Pt2SeqBoth \<Rightarrow> False | Pt2SeqTs \<Rightarrow> False
   | CoCommon \<Rightarrow> False | CoRepair \<Rightarrow> False)"

definition formal_co_msn_lsb_bits :: "profile \<Rightarrow> formal_co_variant \<Rightarrow> nat" where
  "formal_co_msn_lsb_bits p variant =
     (if \<not> formal_co_variant_valid_for_profile p variant then 0
      else case variant of
        Pt0Crc3 \<Rightarrow> 4 | Pt1Rnd \<Rightarrow> 4 | Pt1SeqTs \<Rightarrow> 4
      | Pt0Crc7 \<Rightarrow> if is_rtp_formal_co_profile p then 5 else 6
      | Pt1SeqId \<Rightarrow> if is_rtp_formal_co_profile p then 5 else 6
      | Pt2Rnd \<Rightarrow> 7 | Pt2SeqBoth \<Rightarrow> 7 | Pt2SeqTs \<Rightarrow> 7
      | Pt2SeqId \<Rightarrow> if is_rtp_formal_co_profile p then 7 else 8
      | CoCommon \<Rightarrow> 0 | CoRepair \<Rightarrow> 0)"

definition formal_co_ip_id_lsb_bits :: "profile \<Rightarrow> formal_co_variant \<Rightarrow> nat" where
  "formal_co_ip_id_lsb_bits p variant =
     (if \<not> formal_co_variant_valid_for_profile p variant then 0
      else case variant of
        Pt1SeqId \<Rightarrow> 4
      | Pt2SeqId \<Rightarrow> if is_rtp_formal_co_profile p then 5 else 6
      | Pt2SeqBoth \<Rightarrow> 5
      | Pt0Crc3 \<Rightarrow> 0 | Pt0Crc7 \<Rightarrow> 0 | Pt1Rnd \<Rightarrow> 0 | Pt1SeqTs \<Rightarrow> 0 | Pt2Rnd \<Rightarrow> 0 | Pt2SeqTs \<Rightarrow> 0
      | CoCommon \<Rightarrow> 0 | CoRepair \<Rightarrow> 0)"

definition formal_co_ts_scaled_lsb_bits :: "profile \<Rightarrow> formal_co_variant \<Rightarrow> nat" where
  "formal_co_ts_scaled_lsb_bits p variant =
     (if \<not> formal_co_variant_valid_for_profile p variant then 0
      else case variant of
        Pt1Rnd \<Rightarrow> 5 | Pt1SeqTs \<Rightarrow> 5 | Pt2SeqTs \<Rightarrow> 5
      | Pt2Rnd \<Rightarrow> 6
      | Pt2SeqBoth \<Rightarrow> 7
      | Pt0Crc3 \<Rightarrow> 0 | Pt0Crc7 \<Rightarrow> 0 | Pt1SeqId \<Rightarrow> 0 | Pt2SeqId \<Rightarrow> 0 | CoCommon \<Rightarrow> 0 | CoRepair \<Rightarrow> 0)"

definition formal_co_variant_has_marker :: "formal_co_variant \<Rightarrow> bool" where
  "formal_co_variant_has_marker variant = (case variant of
     Pt1Rnd \<Rightarrow> True | Pt1SeqTs \<Rightarrow> True | Pt2Rnd \<Rightarrow> True | Pt2SeqBoth \<Rightarrow> True | Pt2SeqTs \<Rightarrow> True
   | Pt0Crc3 \<Rightarrow> False | Pt0Crc7 \<Rightarrow> False | Pt1SeqId \<Rightarrow> False | Pt2SeqId \<Rightarrow> False
   | CoCommon \<Rightarrow> False | CoRepair \<Rightarrow> False)"

definition formal_co_base_len :: "profile \<Rightarrow> formal_co_variant \<Rightarrow> nat" where
  "formal_co_base_len p variant =
     (if \<not> formal_co_variant_valid_for_profile p variant then 0
      else case variant of
        Pt0Crc3 \<Rightarrow> 1
      | Pt0Crc7 \<Rightarrow> 2 | Pt1Rnd \<Rightarrow> 2 | Pt1SeqId \<Rightarrow> 2 | Pt1SeqTs \<Rightarrow> 2
      | Pt2Rnd \<Rightarrow> 3 | Pt2SeqId \<Rightarrow> 3 | Pt2SeqTs \<Rightarrow> 3
      | Pt2SeqBoth \<Rightarrow> 4
      | CoCommon \<Rightarrow> 0 | CoRepair \<Rightarrow> 0)"

definition formal_co_header_crc :: "formal_co_variant \<Rightarrow> bytes \<Rightarrow> byte" where
  "formal_co_header_crc variant crc_input =
     (if formal_co_variant_uses_crc3 variant then crc3 crc_input else crc7 crc_input AND 0x7F)"

definition formal_co_control_crc :: "bytes \<Rightarrow> byte" where
  "formal_co_control_crc control_crc_input = crc3 control_crc_input AND 0x07"

section \<open>Base formats\<close>

definition write_base_fields :: "nat \<Rightarrow> (u32 \<times> nat) list \<Rightarrow> bytes res" where
  \<comment> \<open>zero the base, write the fields in order, check that they fill it\<close>
  "write_base_fields base_len fs =
     seq_res (write_fields (fresh_writer base_len) fs) (\<lambda>writer.
       if bytes_written writer = base_len then Done (bw_buf writer) else Reject)"

definition read_base_fields :: "bytes \<Rightarrow> nat \<Rightarrow> nat \<Rightarrow> u32 \<Rightarrow> nat list \<Rightarrow> (u32 list \<Rightarrow> 'a) \<Rightarrow> 'a res" where
  \<comment> \<open>check the discriminator, read the fields in order, check that they exhaust the base\<close>
  "read_base_fields base base_len n tag ns fill =
     seq_res (read_bits (bit_reader_unbounded base) n) (\<lambda>(d, reader).
       if d \<noteq> tag then Reject
       else seq_res (read_fields reader ns) (\<lambda>(vs, reader).
         if (br_bitpos reader + 7) div 8 = base_len then Done (fill vs) else Reject))"

definition base_field_list :: "bool \<Rightarrow> formal_co_variant \<Rightarrow> formal_co_fields \<Rightarrow> byte \<Rightarrow> (u32 \<times> nat) list option" where
  \<comment> \<open>the \<open>write_bits\<close> calls of each branch; \<open>None\<close> where the branch returns \<open>false\<close>\<close>
  "base_field_list rtp variant flds crc =
     (let
        msn = ucast (cf_msn flds) :: u32; ip_id = ucast (cf_ip_id flds) :: u32;
        ts_scaled = ucast (cf_ts_scaled flds) :: u32;
        marker = (if cf_marker flds then 1 else 0) :: u32; crc = ucast crc :: u32
      in case variant of
        Pt0Crc3 \<Rightarrow> Some [(0, 1), (msn AND 0x0F, 4), (crc AND 0x07, 3)]
      | Pt0Crc7 \<Rightarrow>
          if rtp then Some [(0x08, 4), (msn AND 0x1F, 5), (crc AND 0x7F, 7)]
          else Some [(0x04, 3), (msn AND 0x3F, 6), (crc AND 0x7F, 7)]
      | Pt1Rnd \<Rightarrow>
          if \<not> rtp then None
          else Some [(0x05, 3), (marker, 1), (msn AND 0x0F, 4), (ts_scaled AND 0x1F, 5), (crc AND 0x07, 3)]
      | Pt1SeqTs \<Rightarrow>
          if \<not> rtp then None
          else Some [(0x05, 3), (marker, 1), (msn AND 0x0F, 4), (ts_scaled AND 0x1F, 5), (crc AND 0x07, 3)]
      | Pt1SeqId \<Rightarrow>
          if rtp then Some [(0x09, 4), (ip_id AND 0x0F, 4), (msn AND 0x1F, 5), (crc AND 0x07, 3)]
          else Some [(0x05, 3), (crc AND 0x07, 3), (msn AND 0x3F, 6), (ip_id AND 0x0F, 4)]
      | Pt2Rnd \<Rightarrow>
          if \<not> rtp then None
          else Some [(0x06, 3), (msn AND 0x7F, 7), (ts_scaled AND 0x3F, 6), (marker, 1), (crc AND 0x7F, 7)]
      | Pt2SeqId \<Rightarrow>
          if rtp then Some [(0x18, 5), (msn AND 0x7F, 7), (ip_id AND 0x1F, 5), (crc AND 0x7F, 7)]
          else Some [(0x06, 3), (ip_id AND 0x3F, 6), (crc AND 0x7F, 7), (msn AND 0xFF, 8)]
      | Pt2SeqBoth \<Rightarrow>
          if \<not> rtp then None
          else Some [(0x19, 5), (msn AND 0x7F, 7), (ip_id AND 0x1F, 5), (crc AND 0x7F, 7),
                       (ts_scaled AND 0x7F, 7), (marker, 1)]
      | Pt2SeqTs \<Rightarrow>
          if \<not> rtp then None
          else Some [(0x0D, 4), (msn AND 0x7F, 7), (ts_scaled AND 0x1F, 5), (marker, 1), (crc AND 0x7F, 7)]
      | CoCommon \<Rightarrow> None
      | CoRepair \<Rightarrow> None)"

definition write_formal_co_base ::
    "nat \<Rightarrow> profile \<Rightarrow> formal_co_variant \<Rightarrow> formal_co_fields \<Rightarrow> byte \<Rightarrow> bytes res" where
  "write_formal_co_base base_len p variant flds crc =
     (if base_len = 0 \<or> base_len > 4 \<or> \<not> formal_co_variant_valid_for_profile p variant then Reject
      else case base_field_list (is_rtp_formal_co_profile p) variant flds crc of
        None \<Rightarrow> Reject
      | Some fs \<Rightarrow> write_base_fields base_len fs)"

definition base_read_list ::
    "bool \<Rightarrow> formal_co_variant \<Rightarrow> formal_co_packet \<Rightarrow> (nat \<times> u32 \<times> nat list \<times> (u32 list \<Rightarrow> formal_co_packet)) option" where
  \<comment> \<open>the discriminator's width and value, the \<open>read_bits\<close> calls after it and where their results go\<close>
  "base_read_list rtp variant packet =
     (case variant of
        Pt0Crc3 \<Rightarrow> Some (1, 0, [4, 3], \<lambda>vs.
          packet\<lparr>cp_msn := ucast (vs ! 0), cp_header_crc := ucast (vs ! 1)\<rparr>)
      | Pt0Crc7 \<Rightarrow>
          if rtp then Some (4, 0x08, [5, 7], \<lambda>vs.
            packet\<lparr>cp_msn := ucast (vs ! 0), cp_header_crc := ucast (vs ! 1)\<rparr>)
          else Some (3, 0x04, [6, 7], \<lambda>vs.
            packet\<lparr>cp_msn := ucast (vs ! 0), cp_header_crc := ucast (vs ! 1)\<rparr>)
      | Pt1Rnd \<Rightarrow>
          if \<not> rtp then None
          else Some (3, 0x05, [1, 4, 5, 3], \<lambda>vs.
            packet\<lparr>cp_marker := vs ! 0 \<noteq> 0, cp_msn := ucast (vs ! 1), cp_ts_scaled := ucast (vs ! 2),
                   cp_header_crc := ucast (vs ! 3)\<rparr>)
      | Pt1SeqTs \<Rightarrow>
          if \<not> rtp then None
          else Some (3, 0x05, [1, 4, 5, 3], \<lambda>vs.
            packet\<lparr>cp_marker := vs ! 0 \<noteq> 0, cp_msn := ucast (vs ! 1), cp_ts_scaled := ucast (vs ! 2),
                   cp_header_crc := ucast (vs ! 3)\<rparr>)
      | Pt1SeqId \<Rightarrow>
          if rtp then Some (4, 0x09, [4, 5, 3], \<lambda>vs.
            packet\<lparr>cp_ip_id := ucast (vs ! 0), cp_msn := ucast (vs ! 1), cp_header_crc := ucast (vs ! 2)\<rparr>)
          else Some (3, 0x05, [3, 6, 4], \<lambda>vs.
            packet\<lparr>cp_header_crc := ucast (vs ! 0), cp_msn := ucast (vs ! 1), cp_ip_id := ucast (vs ! 2)\<rparr>)
      | Pt2Rnd \<Rightarrow>
          if \<not> rtp then None
          else Some (3, 0x06, [7, 6, 1, 7], \<lambda>vs.
            packet\<lparr>cp_msn := ucast (vs ! 0), cp_ts_scaled := ucast (vs ! 1), cp_marker := vs ! 2 \<noteq> 0,
                   cp_header_crc := ucast (vs ! 3)\<rparr>)
      | Pt2SeqId \<Rightarrow>
          if rtp then Some (5, 0x18, [7, 5, 7], \<lambda>vs.
            packet\<lparr>cp_msn := ucast (vs ! 0), cp_ip_id := ucast (vs ! 1), cp_header_crc := ucast (vs ! 2)\<rparr>)
          else Some (3, 0x06, [6, 7, 8], \<lambda>vs.
            packet\<lparr>cp_ip_id := ucast (vs ! 0), cp_header_crc := ucast (vs ! 1), cp_msn := ucast (vs ! 2)\<rparr>)
      | Pt2SeqBoth \<Rightarrow>
          if \<not> rtp then None
          else Some (5, 0x19, [7, 5, 7, 7, 1], \<lambda>vs.
            packet\<lparr>cp_msn := ucast (vs ! 0), cp_ip_id := ucast (vs ! 1), cp_header_crc := ucast (vs ! 2),
                   cp_ts_scaled := ucast (vs ! 3), cp_marker := vs ! 4 \<noteq> 0\<rparr>)
      | Pt2SeqTs \<Rightarrow>
          if \<not> rtp then None
          else Some (4, 0x0D, [7, 5, 1, 7], \<lambda>vs.
            packet\<lparr>cp_msn := ucast (vs ! 0), cp_ts_scaled := ucast (vs ! 1), cp_marker := vs ! 2 \<noteq> 0,
                   cp_header_crc := ucast (vs ! 3)\<rparr>)
      | CoCommon \<Rightarrow> None
      | CoRepair \<Rightarrow> None)"

definition read_formal_co_base ::
    "bytes \<Rightarrow> nat \<Rightarrow> profile \<Rightarrow> formal_co_variant \<Rightarrow> formal_co_packet \<Rightarrow> formal_co_packet res" where
  "read_formal_co_base base base_len p variant packet =
     (if base_len = 0 \<or> \<not> formal_co_variant_valid_for_profile p variant then Reject
      else let packet = packet\<lparr>cp_variant := variant, cp_msn := 0, cp_ip_id := 0, cp_ts_scaled := 0,
                               cp_marker := False\<rparr>
      in case base_read_list (is_rtp_formal_co_profile p) variant packet of
        None \<Rightarrow> Reject
      | Some (n, tag, ns, fill) \<Rightarrow> read_base_fields base base_len n tag ns fill)"

section \<open>Framing: Add-CID octet, first octet, large CID\<close>

definition emit_co_frame :: "nat \<Rightarrow> u32 \<Rightarrow> bool \<Rightarrow> byte \<Rightarrow> (bytes \<Rightarrow> 'a res) \<Rightarrow> 'a res" where
  \<comment> \<open>the statements every emitter starts with, up to the octets after the CID\<close>
  "emit_co_frame capacity cid_value large_cid_space first k =
     (let add_cid = (\<not> large_cid_space \<and> cid_value > 0);
          rest = (\<lambda>out. put capacity out first (\<lambda>out.
            if large_cid_space then seq_res (write_large capacity out cid_value) k else k out))
      in if add_cid then put capacity [] (ucast (0xE0 OR (cid_value AND 0x0F))) rest else rest [])"

definition co_required_len :: "u32 \<Rightarrow> bool \<Rightarrow> nat \<Rightarrow> nat" where
  "co_required_len cid_value large_cid_space tail_len =
     (let add_cid = (\<not> large_cid_space \<and> cid_value > 0);
          cid_len = (if large_cid_space then encoded_len cid_value else 0)
      in (if add_cid then 1 else 0) + 1 + cid_len + tail_len)"

definition decode_co_frame ::
    "bytes \<Rightarrow> bool \<Rightarrow> (byte \<Rightarrow> bool) \<Rightarrow> (nat \<Rightarrow> byte \<Rightarrow> u32 \<Rightarrow> nat \<Rightarrow> 'a res) \<Rightarrow> 'a res" where
  \<comment> \<open>the statements the decoders start with; \<open>ok\<close> is the test of the first octet, \<open>k\<close> gets the
      position after the CID, the first octet, the CID and its encoded length\<close>
  "decode_co_frame inp large_cid_space ok k =
     (let body = (\<lambda>pos decoded_cid.
        if pos \<ge> length inp then Reject
        else rd inp pos (\<lambda>first.
          if \<not> ok first then Reject
          else if large_cid_space
            then view inp (pos + 1) (\<lambda>p. seq_res (read_large p) (\<lambda>(cid, n). k (pos + 1 + n) first cid n))
            else k (pos + 1) first decoded_cid 0))
      in if large_cid_space then body 0 0
         else rd inp 0 (\<lambda>b.
           if (b AND 0xF0) = 0xE0 then
             let decoded_cid = ucast (b AND 0x0F) in
             if decoded_cid = 0 \<or> length inp < 2 then Reject else body 1 decoded_cid
           else body 0 0))"

definition emit_formal_co ::
    "nat \<Rightarrow> profile \<Rightarrow> formal_co_variant \<Rightarrow> u32 \<Rightarrow> bool \<Rightarrow> formal_co_fields \<Rightarrow> bytes \<Rightarrow> bytes res" where
  "emit_formal_co capacity p variant cid_value large_cid_space flds crc_input =
     (if \<not> formal_co_variant_valid_for_profile p variant \<or> \<not> is_valid_for_space cid_value large_cid_space
      then Reject
      else let base_len = formal_co_base_len p variant in
        if base_len = 0 \<or> base_len > 4 then Reject
        else let crc = formal_co_header_crc variant crc_input in
          seq_res (write_formal_co_base base_len p variant flds crc) (\<lambda>base.
            if capacity < co_required_len cid_value large_cid_space (base_len - 1) then Reject
            else rd base 0 (\<lambda>first. emit_co_frame capacity cid_value large_cid_space first (\<lambda>out.
              if base_len > 1 then copy_in base 1 (base_len - 1) (\<lambda>bs. put_all capacity out bs Done)
              else Done out))))"

definition decode_formal_co ::
    "bytes \<Rightarrow> profile \<Rightarrow> formal_co_variant \<Rightarrow> bool \<Rightarrow> bytes \<Rightarrow> bool \<Rightarrow> (formal_co_packet \<times> nat) res" where
  "decode_formal_co inp p variant large_cid_space crc_input want_consumed =
     (if inp = [] \<or> \<not> formal_co_variant_valid_for_profile p variant then Reject
      else let base_len = formal_co_base_len p variant in
        if base_len = 0 \<or> base_len > 4 then Reject
        else decode_co_frame inp large_cid_space (\<lambda>_. True) (\<lambda>pos first decoded_cid decoded_cid_len.
          if szsub (length inp) pos < base_len - 1 then Reject
          else copy_in inp pos (base_len - 1) (\<lambda>tail.
            let pos = pos + (base_len - 1);
                packet = formal_co_packet_init\<lparr>cp_profile := p, cp_cid := decoded_cid,
                  cp_large_cid := large_cid_space, cp_cid_len := decoded_cid_len\<rparr> in
            seq_res (read_formal_co_base (first # tail) base_len p variant packet) (\<lambda>packet.
              if cp_header_crc packet \<noteq> formal_co_header_crc (cp_variant packet) crc_input then Reject
              else if want_consumed \<or> pos = length inp then Done (packet, pos) else Reject))))"

section \<open>co_common and co_repair\<close>

definition emit_formal_co_common ::
    "nat \<Rightarrow> profile \<Rightarrow> u32 \<Rightarrow> bool \<Rightarrow> formal_co_common_fields \<Rightarrow> bytes \<Rightarrow> bytes \<Rightarrow> bytes res" where
  "emit_formal_co_common capacity p cid_value large_cid_space flds header_crc_input control_crc_input =
     (if \<not> formal_co_variant_valid_for_profile p CoCommon \<or> \<not> is_valid_for_space cid_value large_cid_space \<or>
         cc_reorder_ratio flds > 3 then Reject
      else if capacity < co_required_len cid_value large_cid_space (2 + length (cc_variable flds)) then Reject
      else emit_co_frame capacity cid_value large_cid_space 0xFA (\<lambda>out.
        let header_crc = formal_co_header_crc CoCommon header_crc_input;
            control_crc = formal_co_control_crc control_crc_input;
            flag = (\<lambda>b v. if b then v else 0) :: bool \<Rightarrow> byte \<Rightarrow> byte;
            finish = (\<lambda>out. if length (cc_variable flds) > 0 then put_all capacity out (cc_variable flds) Done
                             else Done out)
        in if is_rtp_formal_co_profile p then
             put capacity out (flag (cc_marker flds) 0x80 OR (header_crc AND 0x7F)) (\<lambda>out.
             put capacity out (flag (cc_flags1_indicator flds) 0x80 OR flag (cc_flags2_indicator flds) 0x40 OR
                 flag (cc_tsc_indicator flds) 0x20 OR flag (cc_tss_indicator flds) 0x10 OR
                 flag (cc_ip_id_indicator flds) 0x08 OR (control_crc AND 0x07)) finish)
           else
             put capacity out (flag (cc_ip_id_indicator flds) 0x80 OR (header_crc AND 0x7F)) (\<lambda>out.
             put capacity out (flag (cc_flags_indicator flds) 0x80 OR flag (cc_ttl_hopl_indicator flds) 0x40 OR
                 flag (cc_tos_tc_indicator flds) 0x20 OR push_bit 3 (cc_reorder_ratio flds AND 0x03) OR
                 (control_crc AND 0x07)) finish)))"

definition common_packet :: "profile \<Rightarrow> bool \<Rightarrow> u32 \<Rightarrow> nat \<Rightarrow> byte \<Rightarrow> byte \<Rightarrow> formal_co_packet" where
  "common_packet p large_cid_space decoded_cid decoded_cid_len crc_octet control_octet =
     (let packet = formal_co_packet_init\<lparr>cp_profile := p, cp_variant := CoCommon, cp_cid := decoded_cid,
            cp_large_cid := large_cid_space, cp_cid_len := decoded_cid_len,
            cp_header_crc := crc_octet AND 0x7F, cp_control_crc3 := control_octet AND 0x07\<rparr>
      in if is_rtp_formal_co_profile p
         then packet\<lparr>cp_marker := (crc_octet AND 0x80) \<noteq> 0,
                cp_flags1_indicator := (control_octet AND 0x80) \<noteq> 0,
                cp_flags2_indicator := (control_octet AND 0x40) \<noteq> 0,
                cp_tsc_indicator := (control_octet AND 0x20) \<noteq> 0,
                cp_tss_indicator := (control_octet AND 0x10) \<noteq> 0,
                cp_ip_id_indicator := (control_octet AND 0x08) \<noteq> 0\<rparr>
         else packet\<lparr>cp_ip_id_indicator := (crc_octet AND 0x80) \<noteq> 0,
                cp_flags_indicator := (control_octet AND 0x80) \<noteq> 0,
                cp_ttl_hopl_indicator := (control_octet AND 0x40) \<noteq> 0,
                cp_tos_tc_indicator := (control_octet AND 0x20) \<noteq> 0,
                cp_reorder_ratio := drop_bit 3 control_octet AND 0x03\<rparr>)"

definition repair_packet :: "profile \<Rightarrow> bool \<Rightarrow> u32 \<Rightarrow> nat \<Rightarrow> byte \<Rightarrow> byte \<Rightarrow> formal_co_packet" where
  "repair_packet p large_cid_space decoded_cid decoded_cid_len crc_octet control_octet =
     formal_co_packet_init\<lparr>cp_profile := p, cp_variant := CoRepair, cp_cid := decoded_cid,
       cp_large_cid := large_cid_space, cp_cid_len := decoded_cid_len,
       cp_header_crc := crc_octet AND 0x7F, cp_control_crc3 := control_octet AND 0x07\<rparr>"

definition accept_co_packet ::
    "formal_co_packet \<Rightarrow> bytes \<Rightarrow> bytes \<Rightarrow> nat \<Rightarrow> nat \<Rightarrow> (formal_co_packet \<times> nat) res" where
  \<comment> \<open>the CRC checks and the variable part, with which both decoders end\<close>
  "accept_co_packet packet header_crc_input control_crc_input pos len =
     (if cp_header_crc packet \<noteq> formal_co_header_crc (cp_variant packet) header_crc_input then Reject
      else if cp_control_crc3 packet \<noteq> formal_co_control_crc control_crc_input then Reject
      else Done (packet\<lparr>cp_variable_offset := pos, cp_variable_len := szsub len pos\<rparr>, len))"

definition decode_formal_co_common ::
    "bytes \<Rightarrow> profile \<Rightarrow> bool \<Rightarrow> bytes \<Rightarrow> bytes \<Rightarrow> (formal_co_packet \<times> nat) res" where
  "decode_formal_co_common inp p large_cid_space header_crc_input control_crc_input =
     (if inp = [] \<or> \<not> formal_co_variant_valid_for_profile p CoCommon then Reject
      else decode_co_frame inp large_cid_space (\<lambda>first. first = 0xFA) (\<lambda>pos first decoded_cid decoded_cid_len.
        if szsub (length inp) pos < 2 then Reject
        else rd inp pos (\<lambda>crc_octet. rd inp (pos + 1) (\<lambda>control_octet.
          accept_co_packet
            (common_packet p large_cid_space decoded_cid decoded_cid_len crc_octet control_octet)
            header_crc_input control_crc_input (pos + 2) (length inp)))))"

definition emit_formal_co_repair ::
    "nat \<Rightarrow> profile \<Rightarrow> u32 \<Rightarrow> bool \<Rightarrow> formal_co_repair_fields \<Rightarrow> bytes \<Rightarrow> bytes \<Rightarrow> bytes res" where
  "emit_formal_co_repair capacity p cid_value large_cid_space flds header_crc_input control_crc_input =
     (if \<not> formal_co_variant_valid_for_profile p CoRepair \<or> \<not> is_valid_for_space cid_value large_cid_space
      then Reject
      else if capacity < co_required_len cid_value large_cid_space (2 + length (cr_dynamic_chain flds)) then Reject
      else emit_co_frame capacity cid_value large_cid_space 0xFB (\<lambda>out.
        put capacity out (formal_co_header_crc CoRepair header_crc_input) (\<lambda>out.
        put capacity out (formal_co_control_crc control_crc_input) (\<lambda>out.
        if length (cr_dynamic_chain flds) > 0 then put_all capacity out (cr_dynamic_chain flds) Done
        else Done out))))"

definition decode_formal_co_repair ::
    "bytes \<Rightarrow> profile \<Rightarrow> bool \<Rightarrow> bytes \<Rightarrow> bytes \<Rightarrow> (formal_co_packet \<times> nat) res" where
  "decode_formal_co_repair inp p large_cid_space header_crc_input control_crc_input =
     (if inp = [] \<or> \<not> formal_co_variant_valid_for_profile p CoRepair then Reject
      else decode_co_frame inp large_cid_space (\<lambda>first. first = 0xFB) (\<lambda>pos first decoded_cid decoded_cid_len.
        if szsub (length inp) pos < 2 then Reject
        else rd inp pos (\<lambda>crc_octet. rd inp (pos + 1) (\<lambda>control_octet.
          if (crc_octet AND 0x80) \<noteq> 0 \<or> (control_octet AND 0xF8) \<noteq> 0 then Reject
          else accept_co_packet
            (repair_packet p large_cid_space decoded_cid decoded_cid_len crc_octet control_octet)
            header_crc_input control_crc_input (pos + 2) (length inp)))))"

section \<open>The frame of a CO packet\<close>

definition co_frame :: "bool \<Rightarrow> u32 \<Rightarrow> byte \<Rightarrow> bytes" where
  "co_frame large_cid_space cid_value first =
     (if large_cid_space then first # sdvl cid_value
      else if cid_value > 0 then [ucast (0xE0 OR (cid_value AND 0x0F)), first] else [first])"

lemma length_co_frame: "length (co_frame large cid first) + n = co_required_len cid large n"
  by (simp add: co_frame_def co_required_len_def Let_def)

lemma emit_co_frame_eq:
  assumes "is_valid_for_space cid large" and "co_required_len cid large n \<le> cap"
  shows "emit_co_frame cap cid large first k = k (co_frame large cid first)"
  using assms
  by (auto simp: emit_co_frame_def co_required_len_def Let_def co_frame_def write_large_eq
      is_valid_for_space_def split: if_splits)

lemma small_cid_octet:
  assumes "cid \<le> small_cid_max"
  shows "(ucast (0xE0 OR (cid AND 0x0F)) AND 0xF0 :: byte) = 0xE0 \<and>
         ucast (ucast (0xE0 OR (cid AND 0x0F)) AND 0x0F :: byte) = cid"
proof -
  have "take_bit 4 cid = cid"
    using assms by (intro take_bit_small) (simp_all add: small_cid_max_def word_less_nat_alt word_le_nat_alt)
  then have "cid AND 0xF = cid" by (simp add: take_bit_eq_mask mask_numeral)
  moreover have "(ucast (0xE0 OR (cid AND 0x0F)) AND 0xF0 :: byte) = 0xE0" by (simp add: byte_bits)
  moreover have "ucast (ucast (0xE0 OR (cid AND 0x0F)) AND 0x0F :: byte) = cid AND 0xF"
    by (simp add: u32_bits)
  ultimately show ?thesis by simp
qed

lemma add_cid_octet:
  assumes "(b AND 0xF0 :: byte) = 0xE0"
  shows "ucast (0xE0 OR ((ucast (b AND 0x0F) :: u32) AND 0x0F)) = b \<and> (ucast (b AND 0x0F) :: u32) \<le> small_cid_max"
proof -
  have "ucast (0xE0 OR ((ucast (b AND 0x0F) :: u32) AND 0x0F)) = b"
    using assms by (simp add: byte_bits)
  moreover have "(ucast (b AND 0x0F) :: u32) = ucast (b AND 0x0F) AND 0xF" by (simp add: u32_bits)
  then have "(ucast (b AND 0x0F) :: u32) \<le> 0xF" by (metis word_and_le1)
  ultimately show ?thesis by (simp add: small_cid_max_def)
qed

lemma decode_co_frame_emitted:
  assumes "is_valid_for_space cid large" and "(first AND 0xF0) \<noteq> 0xE0"
  shows "decode_co_frame (co_frame large cid first @ rest) large ok k =
         (if ok first then k (length (co_frame large cid first)) first cid (if large then encoded_len cid else 0)
          else Reject)"
proof (cases large)
  case True
  then show ?thesis
    using assms by (simp add: decode_co_frame_def co_frame_def Let_def is_valid_for_space_def read_sdvl)
next
  case False
  then have "cid \<le> small_cid_max" using assms(1) by (simp add: is_valid_for_space_def is_small_def)
  note o = small_cid_octet [OF this]
  show ?thesis
  proof (cases "cid > 0")
    case True
    then have "cid \<noteq> 0" by auto
    then show ?thesis using True False o by (simp add: decode_co_frame_def co_frame_def Let_def)
  next
    case zero: False
    then have "cid = 0" by (simp add: word_gt_0)
    then show ?thesis using False assms(2) by (simp add: decode_co_frame_def co_frame_def Let_def)
  qed
qed

lemma decode_co_frame_split:
  assumes "inp \<noteq> []"
  shows "(\<forall>ok (k :: nat \<Rightarrow> byte \<Rightarrow> u32 \<Rightarrow> nat \<Rightarrow> 'a res). decode_co_frame inp large ok k = Reject) \<or>
    (\<exists>cid first rest. inp = co_frame large cid first @ rest \<and> is_valid_for_space cid large \<and>
      (large \<or> cid > 0 \<or> (first AND 0xF0) \<noteq> 0xE0) \<and>
      (\<forall>ok (k :: nat \<Rightarrow> byte \<Rightarrow> u32 \<Rightarrow> nat \<Rightarrow> 'a res). decode_co_frame inp large ok k = (if ok first
         then k (length (co_frame large cid first)) first cid (if large then encoded_len cid else 0)
         else Reject)))"
proof (cases large)
  case True
  obtain first tl where inp: "inp = first # tl" using assms by (cases inp) auto
  show ?thesis
  proof (cases "read_large tl")
    case (Done r)
    obtain cid n where r: "r = (cid, n)" by (cases r)
    have inv: "cid \<le> large_cid_max" "n \<le> length tl" "take n tl = sdvl cid"
      using read_large_inv Done r by auto
    then have n: "n = encoded_len cid" by (metis length_sdvl length_take min.absorb2)
    have "inp = co_frame large cid first @ drop n tl"
      using inp inv(3) True by (simp add: co_frame_def) (metis append_take_drop_id)
    moreover have "is_valid_for_space cid large" using inv(1) True by (simp add: is_valid_for_space_def)
    moreover have "decode_co_frame inp large ok k = (if ok first
         then k (length (co_frame large cid first)) first cid (if large then encoded_len cid else 0)
         else Reject)" for ok :: "byte \<Rightarrow> bool" and k :: "nat \<Rightarrow> byte \<Rightarrow> u32 \<Rightarrow> nat \<Rightarrow> 'a res"
      using True inp Done r n by (simp add: decode_co_frame_def Let_def co_frame_def)
    ultimately show ?thesis
      using True by (intro disjI2 exI [of _ cid] exI [of _ first] exI [of _ "drop n tl"]) simp
  qed (use True inp read_large_safe [of tl] in \<open>simp_all add: decode_co_frame_def Let_def\<close>)
next
  case small: False
  obtain b tl where inp: "inp = b # tl" using assms by (cases inp) auto
  define cid :: u32 where "cid = ucast (b AND 0x0F)"
  consider (none) "(b AND 0xF0) \<noteq> 0xE0" | (bad) "(b AND 0xF0) = 0xE0" "cid = 0 \<or> tl = []"
    | (add) first rest where "(b AND 0xF0) = 0xE0" "cid \<noteq> 0" "tl = first # rest"
    by (cases tl) auto
  then show ?thesis
  proof cases
    case none
    then show ?thesis
      using small inp
      by (intro disjI2 exI [of _ 0] exI [of _ b] exI [of _ tl])
        (simp add: decode_co_frame_def Let_def co_frame_def is_valid_for_space_def is_small_def)
  next
    case bad
    then show ?thesis using small inp by (auto simp: decode_co_frame_def Let_def cid_def)
  next
    case add
    have "cid > 0" using add(2) by (simp add: word_gt_0)
    then show ?thesis
      using small inp add add_cid_octet [OF add(1), folded cid_def]
      by (intro disjI2 exI [of _ cid] exI [of _ first] exI [of _ rest])
        (simp add: decode_co_frame_def Let_def co_frame_def is_valid_for_space_def is_small_def cid_def [symmetric])
  qed
qed

lemma decode_co_frame_any:
  assumes "inp \<noteq> []"
  shows "(\<forall>ok (k :: nat \<Rightarrow> byte \<Rightarrow> u32 \<Rightarrow> nat \<Rightarrow> 'a res). decode_co_frame inp large ok k = Reject) \<or>
    (\<exists>cid first rest. inp = co_frame large cid first @ rest \<and> is_valid_for_space cid large \<and>
      (\<forall>k :: nat \<Rightarrow> byte \<Rightarrow> u32 \<Rightarrow> nat \<Rightarrow> 'a res. decode_co_frame inp large (\<lambda>_. True) k
         = k (length (co_frame large cid first)) first cid (if large then encoded_len cid else 0)))"
  using decode_co_frame_split [OF assms, of large] by (elim disjE exE conjE) (blast, metis+)

section \<open>The layouts\<close>

lemma base_field_list_valid:
  assumes "0 < formal_co_base_len p variant"
  obtains fs where "base_field_list (is_rtp_formal_co_profile p) variant flds crc = Some fs"
    "field_width fs = 8 * formal_co_base_len p variant" "formal_co_variant_valid_for_profile p variant"
    "formal_co_base_len p variant \<le> 4"
  using assms
  by (cases variant; cases "is_rtp_formal_co_profile p")
    (auto simp: base_field_list_def Let_def formal_co_variant_valid_for_profile_def
      formal_co_base_len_def split: if_splits)

lemma write_formal_co_base_layout:
  assumes "0 < formal_co_base_len p variant"
  obtains base fs where "write_formal_co_base (formal_co_base_len p variant) p variant flds crc = Done base"
    "length base = formal_co_base_len p variant"
    "base_field_list (is_rtp_formal_co_profile p) variant flds crc = Some fs"
    "buf_bits base = field_bits fs"
proof -
  obtain fs where fs: "base_field_list (is_rtp_formal_co_profile p) variant flds crc = Some fs"
    "field_width fs = 8 * formal_co_base_len p variant" "formal_co_variant_valid_for_profile p variant"
    "formal_co_base_len p variant \<le> 4"
    using base_field_list_valid [OF assms] by metis
  obtain bw where bw: "write_fields (fresh_writer (formal_co_base_len p variant)) fs = Done bw"
    "length (bw_buf bw) = formal_co_base_len p variant" "bw_bitpos bw = 8 * formal_co_base_len p variant"
    "buf_bits (bw_buf bw) = field_bits fs"
    using write_fields_fresh [of fs "formal_co_base_len p variant"] fs(2) by auto
  show ?thesis
    by (rule that [OF _ bw(2) fs(1) bw(4)])
      (use fs bw assms in \<open>simp add: write_formal_co_base_def write_base_fields_def bytes_written_def\<close>)
qed

definition co_decoded ::
    "profile \<Rightarrow> formal_co_variant \<Rightarrow> formal_co_fields \<Rightarrow> byte \<Rightarrow> formal_co_packet \<Rightarrow> formal_co_packet" where
  \<comment> \<open>what a decoder learns: of each field the bits that the width tables promise\<close>
  "co_decoded p variant flds crc packet =
     packet\<lparr>cp_variant := variant,
       cp_msn := take_bit (formal_co_msn_lsb_bits p variant) (cf_msn flds),
       cp_ip_id := take_bit (formal_co_ip_id_lsb_bits p variant) (cf_ip_id flds),
       cp_ts_scaled := take_bit (formal_co_ts_scaled_lsb_bits p variant) (cf_ts_scaled flds),
       cp_marker := formal_co_variant_has_marker variant \<and> cf_marker flds,
       cp_header_crc := take_bit (if formal_co_variant_uses_crc3 variant then 3 else 7) crc\<rparr>"

lemma field_u16:
  "ucast (take_bit 4 (ucast x) AND 15 :: u32) = take_bit 4 (x :: u16)"
  "ucast (take_bit 5 (ucast x) AND 31 :: u32) = take_bit 5 (x :: u16)"
  "ucast (take_bit 6 (ucast x) AND 63 :: u32) = take_bit 6 (x :: u16)"
  "ucast (take_bit 7 (ucast x) AND 127 :: u32) = take_bit 7 (x :: u16)"
  "ucast (take_bit 8 (ucast x) AND 255 :: u32) = take_bit 8 (x :: u16)"
  by (simp_all add: u16_bits)

lemma field_byte:
  "ucast (take_bit 3 (ucast x) AND 7 :: u32) = take_bit 3 (x :: byte)"
  "ucast (take_bit 7 (ucast x) AND 127 :: u32) = take_bit 7 (x :: byte)"
  by (simp_all add: byte_bits)

lemma base_lists_agree:
  assumes "formal_co_variant_valid_for_profile p variant"
    and "base_field_list (is_rtp_formal_co_profile p) variant flds crc = Some fs"
  shows "fs \<noteq> [] \<and> snd (hd fs) \<le> 32 \<and> take_bit (snd (hd fs)) (fst (hd fs)) = fst (hd fs) \<and>
     list_all (\<lambda>(v, k). k \<le> 32) (tl fs) \<and>
     (case base_read_list (is_rtp_formal_co_profile p) variant
        (packet\<lparr>cp_variant := variant, cp_msn := 0, cp_ip_id := 0, cp_ts_scaled := 0, cp_marker := False\<rparr>) of
        None \<Rightarrow> False
      | Some (n, tag, ns, fill) \<Rightarrow> n = snd (hd fs) \<and> tag = fst (hd fs) \<and> ns = map snd (tl fs) \<and>
          fill (map (\<lambda>(v, k). take_bit k v) (tl fs)) = co_decoded p variant flds crc packet)"
proof -
  note defs = base_field_list_def base_read_list_def Let_def co_decoded_def field_u16 field_byte
      formal_co_msn_lsb_bits_def formal_co_ip_id_lsb_bits_def formal_co_ts_scaled_lsb_bits_def
      formal_co_variant_has_marker_def formal_co_variant_uses_crc3_def
  show ?thesis
  proof (cases "is_rtp_formal_co_profile p")
    case True
    with assms show ?thesis by (cases packet; cases variant) (auto simp: defs split: if_splits)
  next
    case False
    with assms show ?thesis by (cases packet; cases variant) (auto simp: defs split: if_splits)
  qed
qed

lemma length_field_bits: "length (field_bits fs) = field_width fs"
  by (induction fs) auto

lemma read_base_fields_eq:
  assumes "buf_bits base = field_bits ((c, n) # fs)" and "n \<le> 32" and "list_all (\<lambda>(v, k). k \<le> 32) fs"
    and "length base \<le> 4"
  shows "read_base_fields base base_len n tag (map snd fs) fill =
     (if take_bit n c \<noteq> tag then Reject
      else if base_len = length base then Done (fill (map (\<lambda>(v, k). take_bit k v) fs)) else Reject)"
proof -
  let ?br = "bit_reader_unbounded base"
  let ?br1 = "?br\<lparr>br_bitpos := br_bitpos ?br + n\<rparr>"
  have u: "usable ?br" using assms(4) by (intro usable_unbounded) (simp add: size_max_def)
  have z: "br_bitpos ?br = 0" by (simp add: bit_reader_unbounded_def bit_reader_bounded_def)
  have w: "n + field_width fs = 8 * length base"
    using arg_cong [OF assms(1), of length] length_field_bits [of "(c, n) # fs"] by simp
  have r1: "read_bits ?br n = Done (take_bit n c, ?br1)" "pending ?br1 = field_bits fs" "usable ?br1"
    using read_bits_law [OF u, of n c "field_bits fs"] assms(1,2) by (simp_all add: pending_unbounded)
  have "read_fields ?br1 (map snd fs) = Done (map (\<lambda>(v, k). take_bit k v) fs,
      ?br1\<lparr>br_bitpos := br_bitpos ?br1 + field_width fs\<rparr>)"
    using read_fields_law [OF r1(3), of fs "[]"] r1(2) assms(3) by simp
  then show ?thesis
    using r1(1) z w by (simp add: read_base_fields_def)
qed

lemma read_formal_co_base_layout:
  assumes "base_field_list (is_rtp_formal_co_profile p) variant flds crc = Some fs"
    and "buf_bits base = field_bits fs" and "length base = formal_co_base_len p variant" and "base \<noteq> []"
  shows "read_formal_co_base base (formal_co_base_len p variant) p variant packet
           = Done (co_decoded p variant flds crc packet)"
proof -
  have pos: "0 < formal_co_base_len p variant" using assms(3,4) by (metis length_greater_0_conv)
  then have v: "formal_co_variant_valid_for_profile p variant" and n4: "length base \<le> 4"
    using base_field_list_valid [OF pos, of flds crc] assms(3) by auto
  obtain n tag gs fill where a: "fs = (tag, n) # gs" "n \<le> 32" "take_bit n tag = tag"
    "list_all (\<lambda>(v, k). k \<le> 32) gs"
    "base_read_list (is_rtp_formal_co_profile p) variant
       (packet\<lparr>cp_variant := variant, cp_msn := 0, cp_ip_id := 0, cp_ts_scaled := 0, cp_marker := False\<rparr>)
       = Some (n, tag, map snd gs, fill)"
    "fill (map (\<lambda>(v, k). take_bit k v) gs) = co_decoded p variant flds crc packet"
    using base_lists_agree [OF v assms(1), of packet]
    by (cases fs) (auto split: option.splits)
  have "read_base_fields base (formal_co_base_len p variant) n tag (map snd gs) fill
      = Done (co_decoded p variant flds crc packet)"
    using read_base_fields_eq [of base tag n gs _ _ fill] assms(2,3) a n4 by simp
  then show ?thesis using v pos a(5) by (simp add: read_formal_co_base_def Let_def)
qed

lemma base_first_octet:
  assumes "base_field_list rtp variant flds crc = Some fs" and "buf_bits base = field_bits fs" and "base \<noteq> []"
  shows "(hd base AND 0xF0) \<noteq> 0xE0"
proof
  assume "(hd base AND 0xF0) = 0xE0"
  then have "bit (hd base) 7 \<and> bit (hd base) 6 \<and> bit (hd base) 5" by (simp add: byte_bits)
  moreover have "buf_bits base = octet_bits (hd base) @ buf_bits (tl base)"
    using assms(3) by (cases base) (simp_all add: buf_bits_def)
  ultimately have "take 3 (field_bits fs) = [True, True, True]"
    using assms(2) by (simp add: octet_bits_def upt_rec numeral_3_eq_3)
  then show False
    using assms(1)
    by (cases variant) (auto simp: base_field_list_def Let_def msb_bits_def upt_rec numeral_3_eq_3 split: if_splits)
qed

definition packet_fields :: "formal_co_packet \<Rightarrow> formal_co_fields" where
  "packet_fields q = \<lparr>cf_msn = cp_msn q, cf_ip_id = cp_ip_id q, cf_ts_scaled = cp_ts_scaled q, cf_marker = cp_marker q\<rparr>"

lemma msb_field_u16:
  "msb_bits 4 (ucast (ucast (take_bit 4 v :: u32) :: u16) AND 15 :: u32) = msb_bits 4 v"
  "msb_bits 5 (ucast (ucast (take_bit 5 v :: u32) :: u16) AND 31 :: u32) = msb_bits 5 v"
  "msb_bits 6 (ucast (ucast (take_bit 6 v :: u32) :: u16) AND 63 :: u32) = msb_bits 6 v"
  "msb_bits 7 (ucast (ucast (take_bit 7 v :: u32) :: u16) AND 127 :: u32) = msb_bits 7 v"
  "msb_bits 8 (ucast (ucast (take_bit 8 v :: u32) :: u16) AND 255 :: u32) = msb_bits 8 v"
  by (rule msb_bits_cong; auto simp: bit_simps less_Suc_eq numeral_eq_Suc)+

lemma msb_field_byte:
  "msb_bits 3 (ucast (ucast (take_bit 3 v :: u32) :: byte) AND 7 :: u32) = msb_bits 3 v"
  "msb_bits 7 (ucast (ucast (take_bit 7 v :: u32) :: byte) AND 127 :: u32) = msb_bits 7 v"
  by (rule msb_bits_cong; auto simp: bit_simps less_Suc_eq numeral_eq_Suc)+

lemma msb_field_marker: "msb_bits (Suc 0) (v :: u32) = [odd v]"
  by (simp add: msb_bits_def bit_0)

lemma read_formal_co_base_inverse:
  assumes "length base = formal_co_base_len p variant" and "base \<noteq> []"
  shows "read_formal_co_base base (formal_co_base_len p variant) p variant packet \<noteq> Fault \<and>
    (\<forall>q. read_formal_co_base base (formal_co_base_len p variant) p variant packet = Done q \<longrightarrow>
      (\<exists>fs. base_field_list (is_rtp_formal_co_profile p) variant (packet_fields q) (cp_header_crc q) = Some fs \<and>
            buf_bits base = field_bits fs))"
proof -
  define rtp where "rtp = is_rtp_formal_co_profile p"
  define packet0 where "packet0 = packet\<lparr>cp_variant := variant, cp_msn := 0, cp_ip_id := 0,
    cp_ts_scaled := 0, cp_marker := False\<rparr>"
  have pos: "0 < formal_co_base_len p variant" using assms by (metis length_greater_0_conv)
  obtain fs where fs: "base_field_list rtp variant undefined undefined = Some fs"
    "field_width fs = 8 * formal_co_base_len p variant" "formal_co_variant_valid_for_profile p variant"
    "formal_co_base_len p variant \<le> 4"
    using base_field_list_valid [OF pos, of undefined undefined] unfolding rtp_def by metis
  note agree = base_lists_agree [OF fs(3) fs(1) [unfolded rtp_def], of packet, folded rtp_def packet0_def]
  then obtain n tag ns fill where r: "base_read_list rtp variant packet0 = Some (n, tag, ns, fill)"
    and n: "n = snd (hd fs)" "ns = map snd (tl fs)" "n \<le> 32" "fs \<noteq> []"
    by (auto split: option.splits)
  have le: "list_all (\<lambda>n. n \<le> 32) ns"
    using agree n(2) by (auto simp: list_all_iff split: option.splits)
  have "length (buf_bits base) = sum_list (n # ns)"
    using assms(1) fs(2) n(1,2,4) by (cases fs) auto
  then obtain vs' where "length vs' = length (n # ns)" "buf_bits base = field_bits (zip vs' (n # ns))"
    using fields_of_bits [of "buf_bits base" "n # ns"] n(3) le by auto
  then obtain v vs where v: "length vs = length ns" "buf_bits base = field_bits ((v, n) # zip vs ns)"
    by (cases vs') auto
  have map: "map snd (zip vs ns) = ns" using v(1) by simp
  have zle: "list_all (\<lambda>(v, k). k \<le> 32) (zip vs ns)"
    using le by (auto simp: list_all_iff dest: set_zip_rightD)
  define q where "q = fill (map (\<lambda>(v, k). take_bit k v) (zip vs ns))"
  have "read_base_fields base (formal_co_base_len p variant) n tag (map snd (zip vs ns)) fill
      = (if take_bit n v \<noteq> tag then Reject else Done q)"
    using read_base_fields_eq [of base v n "zip vs ns" _ _ fill] v(2) n(3) zle assms(1) fs(4) by (simp add: q_def)
  then have read: "read_formal_co_base base (formal_co_base_len p variant) p variant packet
      = (if take_bit n v \<noteq> tag then Reject else Done q)"
    using pos fs(3) r map by (simp add: read_formal_co_base_def Let_def packet0_def rtp_def)
  have "\<exists>fs'. base_field_list rtp variant (packet_fields q) (cp_header_crc q) = Some fs' \<and>
      buf_bits base = field_bits fs'" if t: "take_bit n v = tag"
  proof -
    have "msb_bits n v = msb_bits n tag"
      unfolding t [symmetric] by (rule msb_bits_cong) (simp add: bit_simps)
    then have b: "buf_bits base = field_bits ((tag, n) # zip vs ns)" using v(2) by simp
    show ?thesis
      unfolding b q_def using r v(1) fs(3) unfolding rtp_def
      by (cases variant; cases "is_rtp_formal_co_profile p")
        (auto simp: base_read_list_def base_field_list_def Let_def packet_fields_def packet0_def
          length_Suc_conv msb_field_u16 msb_field_byte msb_field_marker odd_iff_mod_2_eq_one)
  qed
  then show ?thesis using read by (auto simp: rtp_def)
qed

section \<open>Base packets on the wire\<close>

abbreviation co_start :: "profile \<Rightarrow> u32 \<Rightarrow> bool \<Rightarrow> formal_co_packet" where
  "co_start p cid large \<equiv> formal_co_packet_init\<lparr>cp_profile := p, cp_cid := cid, cp_large_cid := large,
     cp_cid_len := (if large then encoded_len cid else 0)\<rparr>"

lemma header_crc_width:
  "take_bit (if formal_co_variant_uses_crc3 variant then 3 else 7) (formal_co_header_crc variant x)
     = formal_co_header_crc variant x"
  using crc3_and_7 [of x] crc7_and_7F [of x]
  by (simp add: formal_co_header_crc_def take_bit_eq_mask mask_numeral)

lemma emit_formal_co_base:
  assumes "0 < formal_co_base_len p variant" and "is_valid_for_space cid large"
    and "co_required_len cid large (formal_co_base_len p variant - 1) \<le> cap"
    and "base_field_list (is_rtp_formal_co_profile p) variant flds (formal_co_header_crc variant crc_input) = Some fs"
    and "buf_bits base = field_bits fs" and "length base = formal_co_base_len p variant"
  shows "emit_formal_co cap p variant cid large flds crc_input = Done (co_frame large cid (hd base) @ tl base)"
proof -
  have v: "formal_co_variant_valid_for_profile p variant" "formal_co_base_len p variant \<le> 4"
    using base_field_list_valid [OF assms(1)] by metis+
  obtain b where b: "write_formal_co_base (formal_co_base_len p variant) p variant flds
      (formal_co_header_crc variant crc_input) = Done b"
    "length b = formal_co_base_len p variant" "buf_bits b = field_bits fs"
    using write_formal_co_base_layout [OF assms(1), of flds "formal_co_header_crc variant crc_input"] assms(4)
    by (metis option.inject)
  then have eq: "b = base" using buf_bits_inj assms(5,6) by metis
  obtain x xs where base: "base = x # xs" using assms(1,6) by (cases base) auto
  have frame: "emit_co_frame cap cid large x k = k (co_frame large cid x)" for k :: "bytes \<Rightarrow> bytes res"
    using emit_co_frame_eq [OF assms(2,3)] .
  have "length (co_frame large cid x) + length xs \<le> cap"
    using length_co_frame [of large cid x "length xs"] assms(3) assms(6) [symmetric] base by simp
  then show ?thesis
    using v assms(1,2,3,6) b(1) eq base frame
    by (cases xs) (simp_all add: emit_formal_co_def Let_def)
qed

lemma decode_formal_co_frame:
  assumes len: "formal_co_base_len p variant = Suc (length xs)"
    and frame: "decode_co_frame (co_frame large cid x @ xs @ rest) large (\<lambda>_. True) =
         (\<lambda>k. k (length (co_frame large cid x)) x cid c :: (formal_co_packet \<times> nat) res)"
    and c: "c = (if large then encoded_len cid else 0)"
  shows "decode_formal_co (co_frame large cid x @ xs @ rest) p variant large crc_input want =
    seq_res (read_formal_co_base (x # xs) (Suc (length xs)) p variant (co_start p cid large)) (\<lambda>q.
      if cp_header_crc q \<noteq> formal_co_header_crc (cp_variant q) crc_input then Reject
      else if want \<or> rest = [] then Done (q, length (co_frame large cid x) + length xs)
      else Reject)"
proof -
  obtain "formal_co_variant_valid_for_profile p variant" "formal_co_base_len p variant \<le> 4"
    using base_field_list_valid [of p variant] len by (metis zero_less_Suc)
  then have v: "formal_co_variant_valid_for_profile p variant" "length xs \<le> 3" using len by simp_all
  have ne: "co_frame large cid x \<noteq> []" by (simp add: co_frame_def)
  show ?thesis
    unfolding decode_formal_co_def Let_def frame len c [symmetric]
    using v ne by (simp cong: if_cong)
qed

lemma read_keeps:
  "read_formal_co_base base n p variant packet = Done q \<Longrightarrow> cp_cid q = cp_cid packet \<and> cp_variant q = variant"
  by (cases variant; cases "is_rtp_formal_co_profile p")
    (auto simp: read_formal_co_base_def base_read_list_def Let_def read_base_fields_def seq_res_eq_Done split: if_splits)

lemma accepted_base_canonical:
  assumes len: "formal_co_base_len p variant = Suc (length xs)" and cid: "is_valid_for_space cid large"
    and r_def: "r = seq_res (read_formal_co_base (x # xs) (Suc (length xs)) p variant (co_start p cid large)) (\<lambda>q.
      if cp_header_crc q \<noteq> formal_co_header_crc (cp_variant q) crc_input then Reject
      else if want \<or> rest = [] then Done (q, length (co_frame large cid x) + length xs) else Reject)"
  shows "r \<noteq> Fault \<and> (\<forall>q n cap. r = Done (q, n) \<longrightarrow> n \<le> cap \<longrightarrow>
      emit_formal_co cap p variant (cp_cid q) large (packet_fields q) crc_input
        = Done (take n (co_frame large cid x @ xs @ rest)) \<and>
      (want \<or> n = length (co_frame large cid x @ xs @ rest)))"
proof (intro conjI allI impI)
  have inv: "read_formal_co_base (x # xs) (Suc (length xs)) p variant (co_start p cid large) \<noteq> Fault"
    "\<And>q. read_formal_co_base (x # xs) (Suc (length xs)) p variant (co_start p cid large) = Done q \<Longrightarrow>
      \<exists>fs. base_field_list (is_rtp_formal_co_profile p) variant (packet_fields q) (cp_header_crc q) = Some fs \<and>
           buf_bits (x # xs) = field_bits fs"
    using read_formal_co_base_inverse [of "x # xs" p variant "co_start p cid large"] len by simp_all
  show "r \<noteq> Fault" using inv(1) by (auto simp: r_def seq_res_eq_Fault)
  fix q n cap
  assume r: "r = Done (q, n)" and cap: "n \<le> cap"
  then have read: "read_formal_co_base (x # xs) (Suc (length xs)) p variant (co_start p cid large) = Done q"
    and crc: "cp_header_crc q = formal_co_header_crc (cp_variant q) crc_input"
    and n: "n = length (co_frame large cid x) + length xs" and w: "want \<or> rest = []"
    by (auto simp: r_def seq_res_eq_Done split: if_splits)
  obtain fs where fs: "base_field_list (is_rtp_formal_co_profile p) variant (packet_fields q) (cp_header_crc q) = Some fs"
    "buf_bits (x # xs) = field_bits fs"
    using inv(2) [OF read] by blast
  have keep: "cp_cid q = cid" "cp_variant q = variant" using read_keeps [OF read] by simp_all
  have "co_required_len cid large (formal_co_base_len p variant - 1) \<le> cap"
    using length_co_frame [of large cid x "length xs"] len n cap by simp
  then show "emit_formal_co cap p variant (cp_cid q) large (packet_fields q) crc_input
        = Done (take n (co_frame large cid x @ xs @ rest))"
    using emit_formal_co_base [of p variant cid large cap "packet_fields q" crc_input fs "x # xs"]
      len cid fs crc keep n by simp
  show "want \<or> n = length (co_frame large cid x @ xs @ rest)" using w n by auto
qed

section \<open>Properties\<close>

text \<open>
  C27. Compressed base packets round-trip. For every profile and base variant valid for it, CID of
  the chosen CID space, field values and CRC input, and a buffer large enough for the computed
  length, \<open>emit_formal_co\<close> succeeds and fills exactly that length; \<open>decode_formal_co\<close>, given the
  same CRC input, recovers from it the CID, the variant, exactly the number of low-order bits of
  the master sequence number, IP-ID and scaled timestamp that the width tables announce, the marker
  where the variant has one, and the header CRC, whatever octets follow the packet.
\<close>

theorem formal_co_roundtrip:
  assumes "0 < formal_co_base_len p variant" and "is_valid_for_space cid large"
    and "co_required_len cid large (formal_co_base_len p variant - 1) \<le> cap"
  shows "\<exists>out. emit_formal_co cap p variant cid large flds crc_input = Done out \<and>
           length out = co_required_len cid large (formal_co_base_len p variant - 1) \<and>
           (\<forall>rest. decode_formal_co (out @ rest) p variant large crc_input True =
              Done (co_decoded p variant flds (formal_co_header_crc variant crc_input) (co_start p cid large), length out))"
proof -
  define crc where "crc = formal_co_header_crc variant crc_input"
  obtain base fs where b: "length base = formal_co_base_len p variant"
    "base_field_list (is_rtp_formal_co_profile p) variant flds crc = Some fs" "buf_bits base = field_bits fs"
    using write_formal_co_base_layout [OF assms(1), of flds crc] by metis
  obtain x xs where base: "base = x # xs" using assms(1) b(1) by (cases base) auto
  have len: "formal_co_base_len p variant = Suc (length xs)" using b(1) base by simp
  have emit: "emit_formal_co cap p variant cid large flds crc_input = Done (co_frame large cid x @ xs)"
    using emit_formal_co_base [OF assms _ b(3,1)] b(2) base by (simp add: crc_def)
  have first: "(x AND 0xF0) \<noteq> 0xE0" using base_first_octet [OF b(2,3)] base by simp
  have frame: "decode_co_frame (co_frame large cid x @ xs @ rest) large (\<lambda>_. True) =
      (\<lambda>k. k (length (co_frame large cid x)) x cid (if large then encoded_len cid else 0)
         :: (formal_co_packet \<times> nat) res)" for rest
    by (rule ext) (simp only: decode_co_frame_emitted [OF assms(2) first] if_True)
  have read: "read_formal_co_base (x # xs) (Suc (length xs)) p variant (co_start p cid large)
      = Done (co_decoded p variant flds crc (co_start p cid large))"
    using read_formal_co_base_layout [OF b(2,3,1)] base len by simp
  have crc_ok: "cp_header_crc (co_decoded p variant flds crc q) = formal_co_header_crc
      (cp_variant (co_decoded p variant flds crc q)) crc_input" for q
    using header_crc_width [of variant crc_input] by (simp add: co_decoded_def crc_def)
  have "decode_formal_co ((co_frame large cid x @ xs) @ rest) p variant large crc_input True =
      Done (co_decoded p variant flds crc (co_start p cid large), length (co_frame large cid x @ xs))" for rest
    using decode_formal_co_frame [OF len frame refl, of rest crc_input True] read crc_ok by simp
  moreover have "length (co_frame large cid x @ xs) = co_required_len cid large (formal_co_base_len p variant - 1)"
    using length_co_frame [of large cid x "length xs"] len by simp
  ultimately show ?thesis using emit by (simp add: crc_def)
qed

theorem formal_co_roundtrip_witness:
  "\<exists>out. emit_formal_co 8 RTP Pt2SeqBoth 300 True
       \<lparr>cf_msn = 0x1234, cf_ip_id = 0xFFFF, cf_ts_scaled = 0x81, cf_marker = True\<rparr> [1, 2, 3] = Done out \<and>
     length out = 6 \<and>
     (\<forall>rest. \<exists>q. decode_formal_co (out @ rest) RTP Pt2SeqBoth True [1, 2, 3] True = Done (q, 6) \<and>
        cp_cid q = 300 \<and> cp_msn q = 0x34 \<and> cp_ip_id q = 0x1F \<and> cp_ts_scaled q = 1 \<and> cp_marker q)"
proof -
  have "co_required_len 300 True (formal_co_base_len RTP Pt2SeqBoth - 1) = 6"
    "0 < formal_co_base_len RTP Pt2SeqBoth" "is_valid_for_space 300 True"
    by (simp_all add: co_required_len_def formal_co_base_len_def encoded_len_def is_valid_for_space_def
        large_cid_max_def formal_co_variant_valid_for_profile_def is_supported_formal_co_profile_def
        is_rtp_formal_co_profile_def)
  with formal_co_roundtrip [of RTP Pt2SeqBoth 300 True 8
    "\<lparr>cf_msn = 0x1234, cf_ip_id = 0xFFFF, cf_ts_scaled = 0x81, cf_marker = True\<rparr>" "[1, 2, 3]"]
  show ?thesis
    by (auto simp: co_decoded_def formal_co_variant_has_marker_def formal_co_msn_lsb_bits_def
        formal_co_ip_id_lsb_bits_def formal_co_ts_scaled_lsb_bits_def formal_co_variant_valid_for_profile_def
        is_supported_formal_co_profile_def is_rtp_formal_co_profile_def formal_co_packet_init_def)
qed

text \<open>
  The base decoder is memory-safe and canonical. On every input, of any content and length,
  \<open>decode_formal_co\<close> reads only inside the buffer; when it accepts, the octets it consumed are
  exactly what \<open>emit_formal_co\<close> produces from the decoded CID and fields with the same CRC input, so
  no two octet strings decode to the same packet; and without a \<open>consumed\<close> argument it accepts
  only when nothing follows.
\<close>

theorem decode_formal_co_canonical:
  "decode_formal_co inp p variant large crc_input want \<noteq> Fault \<and>
   (\<forall>q n cap. decode_formal_co inp p variant large crc_input want = Done (q, n) \<longrightarrow> n \<le> cap \<longrightarrow>
      emit_formal_co cap p variant (cp_cid q) large (packet_fields q) crc_input = Done (take n inp) \<and>
      (want \<or> n = length inp))"
proof (cases "inp = [] \<or> formal_co_base_len p variant = 0")
  case True
  then show ?thesis by (auto simp: decode_formal_co_def Let_def)
next
  case False
  then have pos: "0 < formal_co_base_len p variant" and ne: "inp \<noteq> []" by auto
  from decode_co_frame_any [OF ne, of large, where 'a = "formal_co_packet \<times> nat"] show ?thesis
  proof (elim disjE exE conjE)
    assume "\<forall>ok (k :: nat \<Rightarrow> byte \<Rightarrow> u32 \<Rightarrow> nat \<Rightarrow> (formal_co_packet \<times> nat) res). decode_co_frame inp large ok k = Reject"
    then show ?thesis by (simp add: decode_formal_co_def Let_def)
  next
    fix cid x rest0
    assume frm: "inp = co_frame large cid x @ rest0" "is_valid_for_space cid large"
      "\<forall>k :: nat \<Rightarrow> byte \<Rightarrow> u32 \<Rightarrow> nat \<Rightarrow> (formal_co_packet \<times> nat) res. decode_co_frame inp large (\<lambda>_. True) k
         = k (length (co_frame large cid x)) x cid (if large then encoded_len cid else 0)"
    show ?thesis
    proof (cases "length rest0 < formal_co_base_len p variant - 1")
      case True
      then show ?thesis using frm by (simp add: decode_formal_co_def Let_def)
    next
      case False
      define xs rest where "xs = take (formal_co_base_len p variant - 1) rest0"
        and "rest = drop (formal_co_base_len p variant - 1) rest0"
      have len: "formal_co_base_len p variant = Suc (length xs)" using pos False by (simp add: xs_def)
      have inp: "inp = co_frame large cid x @ xs @ rest" using frm(1) by (simp add: xs_def rest_def)
      have d: "decode_formal_co inp p variant large crc_input want =
        seq_res (read_formal_co_base (x # xs) (Suc (length xs)) p variant (co_start p cid large)) (\<lambda>q.
          if cp_header_crc q \<noteq> formal_co_header_crc (cp_variant q) crc_input then Reject
          else if want \<or> rest = [] then Done (q, length (co_frame large cid x) + length xs)
          else Reject)"
        using decode_formal_co_frame [OF len _ refl, of large cid x rest crc_input want] frm(3)
        unfolding inp by (simp add: fun_eq_iff)
      show ?thesis
        using accepted_base_canonical [OF len frm(2) d] unfolding inp by blast
    qed
  qed
qed

theorem decode_formal_co_canonical_witness:
  "\<exists>q. decode_formal_co [0x2F] UDP Pt0Crc3 False [] False = Done (q, 1) \<and> cp_msn q = 5 \<and>
     emit_formal_co 1 UDP Pt0Crc3 (cp_cid q) False (packet_fields q) [] = Done [0x2F]"
proof -
  let ?flds = "\<lparr>cf_msn = 5, cf_ip_id = 0, cf_ts_scaled = 0, cf_marker = False\<rparr>"
  have "buf_bits [0x2F] = field_bits [(0, 1), (5, 4), (7, 3)]"
    by (simp add: buf_bits_def octet_bits_def msb_bits_def upt_rec)
  then have "read_formal_co_base [0x2F] (formal_co_base_len UDP Pt0Crc3) UDP Pt0Crc3 packet
      = Done (co_decoded UDP Pt0Crc3 ?flds 7 packet)" for packet
    by (intro read_formal_co_base_layout [where fs = "[(0, 1), (5, 4), (7, 3)]"])
      (simp_all add: base_field_list_def formal_co_base_len_def formal_co_variant_valid_for_profile_def
        is_supported_formal_co_profile_def)
  then have "decode_formal_co [0x2F] UDP Pt0Crc3 False [] False
      = Done (co_decoded UDP Pt0Crc3 ?flds 7 (co_start UDP 0 False), 1)"
    by (simp add: decode_formal_co_def decode_co_frame_def Let_def formal_co_base_len_def
        formal_co_variant_valid_for_profile_def is_supported_formal_co_profile_def formal_co_header_crc_def
        co_decoded_def formal_co_variant_uses_crc3_def crc3_def formal_co_packet_init_def)
  with decode_formal_co_canonical [of "[0x2F]" UDP Pt0Crc3 False "[]" False] show ?thesis
    by (auto simp: co_decoded_def formal_co_msn_lsb_bits_def formal_co_variant_valid_for_profile_def
        is_supported_formal_co_profile_def)
qed

definition common_decoded :: "profile \<Rightarrow> formal_co_common_fields \<Rightarrow> formal_co_packet \<Rightarrow> formal_co_packet" where
  "common_decoded p flds packet =
     (if is_rtp_formal_co_profile p
      then packet\<lparr>cp_marker := cc_marker flds, cp_flags1_indicator := cc_flags1_indicator flds,
             cp_flags2_indicator := cc_flags2_indicator flds, cp_tsc_indicator := cc_tsc_indicator flds,
             cp_tss_indicator := cc_tss_indicator flds, cp_ip_id_indicator := cc_ip_id_indicator flds\<rparr>
      else packet\<lparr>cp_ip_id_indicator := cc_ip_id_indicator flds, cp_flags_indicator := cc_flags_indicator flds,
             cp_ttl_hopl_indicator := cc_ttl_hopl_indicator flds, cp_tos_tc_indicator := cc_tos_tc_indicator flds,
             cp_reorder_ratio := cc_reorder_ratio flds\<rparr>)"

lemma accept_not_Fault [simp]: "accept_co_packet q h c pos len \<noteq> Fault"
  by (simp add: accept_co_packet_def)

lemma after_frame:
  "szsub (length (F @ a # b # v)) (length F) = Suc (Suc (length v))"
  "rd (F @ a # b # v) (length F) k1 = k1 a" "rd (F @ a # b # v) (length F + 1) k2 = k2 b"
  by (simp_all add: nth_append)

lemma two_reads_safe:
  assumes "pos \<le> length inp" and "\<And>a b. g a b \<noteq> Fault"
  shows "(if szsub (length inp) pos < 2 then Reject else rd inp pos (\<lambda>a. rd inp (pos + 1) (g a))) \<noteq> Fault"
  using assms by (auto simp: rd_def)

lemma decode_co_frame_safe:
  fixes k :: "nat \<Rightarrow> byte \<Rightarrow> u32 \<Rightarrow> nat \<Rightarrow> 'a res"
  assumes "inp \<noteq> []" and "\<And>pos first cid n. pos \<le> length inp \<Longrightarrow> k pos first cid n \<noteq> Fault"
  shows "decode_co_frame inp large ok k \<noteq> Fault"
proof (cases "\<forall>ok (k :: nat \<Rightarrow> byte \<Rightarrow> u32 \<Rightarrow> nat \<Rightarrow> 'a res). decode_co_frame inp large ok k = Reject")
  case False
  then obtain cid first rest where inp: "inp = co_frame large cid first @ rest"
    and frame: "decode_co_frame inp large ok k = (if ok first
      then k (length (co_frame large cid first)) first cid (if large then encoded_len cid else 0) else Reject)"
    using decode_co_frame_split [OF assms(1), of large] by metis
  have "length (co_frame large cid first) \<le> length inp" by (simp add: inp)
  from assms(2) [OF this] show ?thesis using frame by simp
qed simp

lemma decode_common_not_Fault [simp]: "decode_formal_co_common inp p large h c \<noteq> Fault"
proof (cases "inp = [] \<or> \<not> formal_co_variant_valid_for_profile p CoCommon")
  case False
  then show ?thesis
    unfolding decode_formal_co_common_def if_not_P [OF False]
    by (intro decode_co_frame_safe two_reads_safe) simp_all
qed (simp add: decode_formal_co_common_def)

lemma decode_repair_not_Fault [simp]: "decode_formal_co_repair inp p large h c \<noteq> Fault"
proof (cases "inp = [] \<or> \<not> formal_co_variant_valid_for_profile p CoRepair")
  case False
  then show ?thesis
    unfolding decode_formal_co_repair_def if_not_P [OF False]
    by (intro decode_co_frame_safe two_reads_safe) simp_all
qed (simp add: decode_formal_co_repair_def)

lemma rtp_octets:
  fixes h c :: byte and m a b d e f :: bool
  defines "o1 \<equiv> (if m then 0x80 else 0) OR (h AND 0x7F)"
    and "o2 \<equiv> (if a then 0x80 else 0) OR (if b then 0x40 else 0) OR (if d then 0x20 else 0) OR
       (if e then 0x10 else 0) OR (if f then 0x08 else 0) OR (c AND 0x07)"
  shows "o1 AND 0x7F = h AND 0x7F" "((o1 AND 0x80) \<noteq> 0) = m" "o2 AND 0x07 = c AND 0x07"
    "((o2 AND 0x80) \<noteq> 0) = a" "((o2 AND 0x40) \<noteq> 0) = b" "((o2 AND 0x20) \<noteq> 0) = d"
    "((o2 AND 0x10) \<noteq> 0) = e" "((o2 AND 0x08) \<noteq> 0) = f"
  unfolding o1_def o2_def by (auto simp: byte_bits)

lemma other_octets:
  fixes h c r :: byte and m a b d :: bool
  assumes "r \<le> 3"
  defines "o1 \<equiv> (if m then 0x80 else 0) OR (h AND 0x7F)"
    and "o2 \<equiv> (if a then 0x80 else 0) OR (if b then 0x40 else 0) OR (if d then 0x20 else 0) OR
       push_bit 3 (r AND 0x03) OR (c AND 0x07)"
  shows "o1 AND 0x7F = h AND 0x7F" "((o1 AND 0x80) \<noteq> 0) = m" "o2 AND 0x07 = c AND 0x07"
    "((o2 AND 0x80) \<noteq> 0) = a" "((o2 AND 0x40) \<noteq> 0) = b" "((o2 AND 0x20) \<noteq> 0) = d"
    "drop_bit 3 o2 AND 0x03 = r"
proof -
  have "take_bit 2 r = r"
    using assms(1) by (intro take_bit_small) (simp_all add: word_less_nat_alt word_le_nat_alt)
  then have r: "r AND 3 = r" by (simp add: take_bit_eq_mask mask_numeral)
  have "drop_bit 3 o2 AND 0x03 = r AND 3" unfolding o2_def by (simp add: byte_bits)
  then show "drop_bit 3 o2 AND 0x03 = r" by (simp only: r)
qed (unfold o1_def o2_def, auto simp: byte_bits)

abbreviation flag_octet :: "bool \<Rightarrow> byte \<Rightarrow> byte" where
  "flag_octet b v \<equiv> if b then v else 0"

definition common_octets :: "profile \<Rightarrow> formal_co_common_fields \<Rightarrow> byte \<Rightarrow> byte \<Rightarrow> byte \<times> byte" where
  "common_octets p flds h c =
     (if is_rtp_formal_co_profile p
      then (flag_octet (cc_marker flds) 0x80 OR (h AND 0x7F),
            flag_octet (cc_flags1_indicator flds) 0x80 OR flag_octet (cc_flags2_indicator flds) 0x40 OR
            flag_octet (cc_tsc_indicator flds) 0x20 OR flag_octet (cc_tss_indicator flds) 0x10 OR
            flag_octet (cc_ip_id_indicator flds) 0x08 OR (c AND 0x07))
      else (flag_octet (cc_ip_id_indicator flds) 0x80 OR (h AND 0x7F),
            flag_octet (cc_flags_indicator flds) 0x80 OR flag_octet (cc_ttl_hopl_indicator flds) 0x40 OR
            flag_octet (cc_tos_tc_indicator flds) 0x20 OR push_bit 3 (cc_reorder_ratio flds AND 0x03) OR
            (c AND 0x07)))"

lemma common_packet_octets:
  assumes "cc_reorder_ratio flds \<le> 3" and "common_octets p flds h c = (a, b)"
    and "h AND 0x7F = h" and "c AND 0x07 = c"
  shows "common_packet p large cid n a b = common_decoded p flds (formal_co_packet_init\<lparr>cp_profile := p,
     cp_variant := CoCommon, cp_cid := cid, cp_large_cid := large, cp_cid_len := n,
     cp_header_crc := h, cp_control_crc3 := c\<rparr>)"
proof (cases "is_rtp_formal_co_profile p")
  case True
  then have a: "a = flag_octet (cc_marker flds) 0x80 OR (h AND 0x7F)"
    and b: "b = flag_octet (cc_flags1_indicator flds) 0x80 OR flag_octet (cc_flags2_indicator flds) 0x40 OR
            flag_octet (cc_tsc_indicator flds) 0x20 OR flag_octet (cc_tss_indicator flds) 0x10 OR
            flag_octet (cc_ip_id_indicator flds) 0x08 OR (c AND 0x07)"
    using assms(2) unfolding common_octets_def by (simp_all only: if_True prod.inject)
  show ?thesis
    unfolding common_packet_def common_decoded_def Let_def if_P [OF True] a b rtp_octets
    unfolding assms(3,4) by (rule refl)
next
  case False
  then have a: "a = flag_octet (cc_ip_id_indicator flds) 0x80 OR (h AND 0x7F)"
    and b: "b = flag_octet (cc_flags_indicator flds) 0x80 OR flag_octet (cc_ttl_hopl_indicator flds) 0x40 OR
            flag_octet (cc_tos_tc_indicator flds) 0x20 OR push_bit 3 (cc_reorder_ratio flds AND 0x03) OR
            (c AND 0x07)"
    using assms(2) unfolding common_octets_def by (simp_all only: if_False prod.inject)
  show ?thesis
    unfolding common_packet_def common_decoded_def Let_def if_not_P [OF False] a b other_octets [OF assms(1)]
    unfolding assms(3,4) by (rule refl)
qed

lemma decode_common_frame:
  assumes "is_supported_formal_co_profile p" and "is_valid_for_space cid large"
  shows "decode_formal_co_common (co_frame large cid 0xFA @ a # b # v) p large h c =
    accept_co_packet (common_packet p large cid (if large then encoded_len cid else 0) a b) h c
      (length (co_frame large cid 0xFA) + 2) (length (co_frame large cid 0xFA @ a # b # v))"
  using assms(1)
  by (simp add: decode_formal_co_common_def formal_co_variant_valid_for_profile_def
      decode_co_frame_emitted [OF assms(2)] after_frame nth_append)

lemma decode_repair_frame:
  assumes "is_supported_formal_co_profile p" and "is_valid_for_space cid large"
    and "(a AND 0x80) = 0" and "(b AND 0xF8) = 0"
  shows "decode_formal_co_repair (co_frame large cid 0xFB @ a # b # v) p large h c =
    accept_co_packet (repair_packet p large cid (if large then encoded_len cid else 0) a b) h c
      (length (co_frame large cid 0xFB) + 2) (length (co_frame large cid 0xFB @ a # b # v))"
  using assms(1,3,4)
  by (simp add: decode_formal_co_repair_def formal_co_variant_valid_for_profile_def
      decode_co_frame_emitted [OF assms(2)] after_frame nth_append)

lemma emit_common_eq:
  assumes "is_supported_formal_co_profile p" and "is_valid_for_space cid large"
    and "cc_reorder_ratio flds \<le> 3" and "co_required_len cid large (2 + length (cc_variable flds)) \<le> cap"
    and "common_octets p flds (formal_co_header_crc CoCommon h) (formal_co_control_crc c) = (a, b)"
  shows "emit_formal_co_common cap p cid large flds h c = Done (co_frame large cid 0xFA @ a # b # cc_variable flds)"
proof -
  have "length (co_frame large cid 0xFA) + (2 + length (cc_variable flds)) \<le> cap"
    using assms(4) by (simp only: length_co_frame)
  moreover have "\<not> cc_reorder_ratio flds > 3" using assms(3) by simp
  ultimately show ?thesis
    using assms(1,2,4,5)
    by (auto simp: emit_formal_co_common_def formal_co_variant_valid_for_profile_def common_octets_def Let_def
        emit_co_frame_eq [OF assms(2,4)] split: if_splits)
qed

lemma emit_repair_eq:
  assumes "is_supported_formal_co_profile p" and "is_valid_for_space cid large"
    and "co_required_len cid large (2 + length (cr_dynamic_chain rep)) \<le> cap"
  shows "emit_formal_co_repair cap p cid large rep h c = Done (co_frame large cid 0xFB @
    formal_co_header_crc CoRepair h # formal_co_control_crc c # cr_dynamic_chain rep)"
proof -
  have "length (co_frame large cid 0xFB) + (2 + length (cr_dynamic_chain rep)) \<le> cap"
    using assms(3) by (simp only: length_co_frame)
  then show ?thesis
    using assms(1,2,3)
    by (auto simp: emit_formal_co_repair_def formal_co_variant_valid_for_profile_def
        emit_co_frame_eq [OF assms(2,3)])
qed

lemma co_crc_octets:
  "\<not> formal_co_variant_uses_crc3 v \<Longrightarrow> formal_co_header_crc v h AND 0x7F = formal_co_header_crc v h"
  "\<not> formal_co_variant_uses_crc3 v \<Longrightarrow> formal_co_header_crc v h AND 0x80 = 0"
  "formal_co_control_crc c AND 0x07 = formal_co_control_crc c"
  "formal_co_control_crc c AND 0xF8 = 0"
proof -
  show "formal_co_control_crc c AND 0xF8 = 0"
    unfolding formal_co_control_crc_def by (simp add: byte_bits del: crc3_and_7)
  show "\<not> formal_co_variant_uses_crc3 v \<Longrightarrow> formal_co_header_crc v h AND 0x80 = 0"
    unfolding formal_co_header_crc_def by (simp add: byte_bits del: crc7_and_7F)
qed (simp_all add: formal_co_header_crc_def formal_co_control_crc_def)

text \<open>
  \<open>co_common\<close> packets round-trip. With room for the packet, a reorder ratio of at most 3 and
  matching CRC inputs, the decoder recovers the CID, every indicator bit that the profile's format
  carries, both CRCs, and an offset and length that delimit exactly the variable part.
\<close>

theorem co_common_roundtrip:
  assumes "is_supported_formal_co_profile p" and "is_valid_for_space cid large"
    and "cc_reorder_ratio flds \<le> 3"
    and "co_required_len cid large (2 + length (cc_variable flds)) \<le> cap"
  shows "\<exists>out off. emit_formal_co_common cap p cid large flds h c = Done out \<and>
           decode_formal_co_common out p large h c =
             Done (common_decoded p flds ((co_start p cid large)\<lparr>cp_variant := CoCommon,
                     cp_header_crc := formal_co_header_crc CoCommon h, cp_control_crc3 := formal_co_control_crc c\<rparr>)
                   \<lparr>cp_variable_offset := off, cp_variable_len := length (cc_variable flds)\<rparr>, length out) \<and>
           drop off out = cc_variable flds"
proof -
  define F where "F = co_frame large cid 0xFA"
  obtain a b where ab: "common_octets p flds (formal_co_header_crc CoCommon h) (formal_co_control_crc c) = (a, b)"
    by force
  let ?out = "F @ a # b # cc_variable flds"
  have "formal_co_header_crc CoCommon h AND 0x7F = formal_co_header_crc CoCommon h"
    by (simp add: co_crc_octets formal_co_variant_uses_crc3_def)
  note q = common_packet_octets [OF assms(3) ab this co_crc_octets(3), of large cid "if large then encoded_len cid else 0"]
  have "emit_formal_co_common cap p cid large flds h c = Done ?out"
    using emit_common_eq [OF assms ab] by (simp add: F_def)
  moreover have "decode_formal_co_common ?out p large h c =
      Done (common_decoded p flds ((co_start p cid large)\<lparr>cp_variant := CoCommon,
              cp_header_crc := formal_co_header_crc CoCommon h, cp_control_crc3 := formal_co_control_crc c\<rparr>)
            \<lparr>cp_variable_offset := length F + 2, cp_variable_len := length (cc_variable flds)\<rparr>, length ?out)"
    unfolding F_def decode_common_frame [OF assms(1,2)] q
    by (simp add: accept_co_packet_def common_decoded_def)
  ultimately show ?thesis by (intro exI [of _ ?out] exI [of _ "length F + 2"]) simp
qed

theorem co_common_roundtrip_witness:
  "\<exists>out off q. emit_formal_co_common 16 UDP 5 False
      \<lparr>cc_marker = False, cc_flags1_indicator = False, cc_flags2_indicator = False, cc_tsc_indicator = False,
       cc_tss_indicator = False, cc_ip_id_indicator = True, cc_flags_indicator = True,
       cc_ttl_hopl_indicator = False, cc_tos_tc_indicator = True, cc_reorder_ratio = 2,
       cc_variable = [7, 8, 9]\<rparr> [1] [2] = Done out \<and>
     decode_formal_co_common out UDP False [1] [2] = Done (q, length out) \<and> drop off out = [7, 8, 9] \<and>
     cp_cid q = 5 \<and> cp_reorder_ratio q = 2 \<and> cp_variable_offset q = off"
  using co_common_roundtrip [of UDP 5 False "\<lparr>cc_marker = False, cc_flags1_indicator = False,
    cc_flags2_indicator = False, cc_tsc_indicator = False, cc_tss_indicator = False, cc_ip_id_indicator = True,
    cc_flags_indicator = True, cc_ttl_hopl_indicator = False, cc_tos_tc_indicator = True, cc_reorder_ratio = 2,
    cc_variable = [7, 8, 9]\<rparr>" 16 "[1]" "[2]"]
  by (auto simp: is_supported_formal_co_profile_def is_valid_for_space_def is_small_def small_cid_max_def
      co_required_len_def common_decoded_def is_rtp_formal_co_profile_def)

text \<open>
  \<open>co_repair\<close> packets round-trip, and the decoders of both formats are memory-safe. The dynamic
  chain comes back octet for octet with the CID and both CRCs; on arbitrary input of any length
  neither decoder reads outside the buffer.
\<close>

theorem co_repair_roundtrip:
  "(is_supported_formal_co_profile p \<and> is_valid_for_space cid large \<and>
    co_required_len cid large (2 + length (cr_dynamic_chain rep)) \<le> cap \<longrightarrow>
    (\<exists>out off. emit_formal_co_repair cap p cid large rep h c = Done out \<and>
       decode_formal_co_repair out p large h c =
         Done ((co_start p cid large)\<lparr>cp_variant := CoRepair, cp_header_crc := formal_co_header_crc CoRepair h,
                 cp_control_crc3 := formal_co_control_crc c, cp_variable_offset := off,
                 cp_variable_len := length (cr_dynamic_chain rep)\<rparr>, length out) \<and>
       drop off out = cr_dynamic_chain rep)) \<and>
   decode_formal_co_common inp p large h c \<noteq> Fault \<and> decode_formal_co_repair inp p large h c \<noteq> Fault"
proof (intro conjI impI decode_common_not_Fault decode_repair_not_Fault; elim conjE)
  assume a: "is_supported_formal_co_profile p" "is_valid_for_space cid large"
    "co_required_len cid large (2 + length (cr_dynamic_chain rep)) \<le> cap"
  define F where "F = co_frame large cid 0xFB"
  define x y where "x = formal_co_header_crc CoRepair h" and "y = formal_co_control_crc c"
  let ?out = "F @ x # y # cr_dynamic_chain rep"
  have o: "x AND 0x7F = x" "x AND 0x80 = 0" "y AND 0x07 = y" "y AND 0xF8 = 0"
    by (simp_all add: x_def y_def co_crc_octets formal_co_variant_uses_crc3_def)
  have "emit_formal_co_repair cap p cid large rep h c = Done ?out"
    using emit_repair_eq [OF a] by (simp add: F_def x_def y_def)
  moreover have "decode_formal_co_repair ?out p large h c =
      Done ((co_start p cid large)\<lparr>cp_variant := CoRepair, cp_header_crc := x, cp_control_crc3 := y,
        cp_variable_offset := length F + 2, cp_variable_len := length (cr_dynamic_chain rep)\<rparr>, length ?out)"
    unfolding F_def decode_repair_frame [OF a(1,2) o(2,4)]
    by (simp add: accept_co_packet_def repair_packet_def o x_def [symmetric] y_def [symmetric])
  ultimately show "\<exists>out off. emit_formal_co_repair cap p cid large rep h c = Done out \<and>
       decode_formal_co_repair out p large h c =
         Done ((co_start p cid large)\<lparr>cp_variant := CoRepair, cp_header_crc := formal_co_header_crc CoRepair h,
                 cp_control_crc3 := formal_co_control_crc c, cp_variable_offset := off,
                 cp_variable_len := length (cr_dynamic_chain rep)\<rparr>, length out) \<and>
       drop off out = cr_dynamic_chain rep"
    by (intro exI [of _ ?out] exI [of _ "length F + 2"]) (simp add: x_def y_def)
qed

theorem co_repair_roundtrip_witness:
  "\<exists>out off. emit_formal_co_repair 16 RTP 9000 True \<lparr>cr_dynamic_chain = [1, 2, 3, 4]\<rparr> [5] [6] = Done out \<and>
     (\<exists>q. decode_formal_co_repair out RTP True [5] [6] = Done (q, length out) \<and> cp_cid q = 9000) \<and>
     drop off out = [1, 2, 3, 4]"
  using co_repair_roundtrip [of RTP 9000 True "\<lparr>cr_dynamic_chain = [1, 2, 3, 4]\<rparr>" 16 "[5]" "[6]" "[]"]
  by (auto simp: is_supported_formal_co_profile_def is_valid_for_space_def large_cid_max_def
      co_required_len_def encoded_len_def)

end
