(* ===== verification/FormalCoPt0.thy ===== *)
theory FormalCoPt0
  imports FormalCo
begin

text \<open>
  The specialised PT-0 emitter and decoder of \<open>core/formal_co.hpp\<close> (lines 305--308 and 920--1113),
  which compute the one or two octets of a PT-0 packet directly instead of through the bit writer
  and reader. They are proved equivalent to the generic path, except for the input that
  \<open>pt0_add_cid_zero\<close> singles out.
\<close>

section \<open>Model\<close>

definition formal_co_pt0_base_len :: "formal_co_variant \<Rightarrow> nat" where
  "formal_co_pt0_base_len variant = (if variant = Pt0Crc3 then 1 else 2)"

definition emit_formal_co_pt0 ::
    "nat \<Rightarrow> profile \<Rightarrow> formal_co_variant \<Rightarrow> u32 \<Rightarrow> bool \<Rightarrow> u16 \<Rightarrow> bytes \<Rightarrow> bytes res" where
  "emit_formal_co_pt0 capacity p variant cid_value large_cid_space msn crc_input =
     (if \<not> is_supported_formal_co_profile p \<or> \<not> is_valid_for_space cid_value large_cid_space then Reject
      else if capacity < co_required_len cid_value large_cid_space (formal_co_pt0_base_len variant - 1) then Reject
      else let crc = formal_co_header_crc variant crc_input in
        if variant = Pt0Crc3 then
          emit_co_frame capacity cid_value large_cid_space
            (push_bit 3 (ucast (msn AND 0x0F)) OR (crc AND 0x07)) Done
        else if is_rtp_formal_co_profile p then
          let msn_lsb = ucast (msn AND 0x1F) in
          emit_co_frame capacity cid_value large_cid_space (0x80 OR (drop_bit 1 msn_lsb AND 0x0F)) (\<lambda>out.
            put capacity out (push_bit 7 (msn_lsb AND 0x01) OR (crc AND 0x7F)) Done)
        else
          let msn_lsb = ucast (msn AND 0x3F) in
          emit_co_frame capacity cid_value large_cid_space (0x80 OR (drop_bit 1 msn_lsb AND 0x1F)) (\<lambda>out.
            put capacity out (push_bit 7 (msn_lsb AND 0x01) OR (crc AND 0x7F)) Done))"

definition finish_pt0 ::
    "bytes \<Rightarrow> bytes \<Rightarrow> bool \<Rightarrow> bool \<Rightarrow> formal_co_packet \<Rightarrow> nat \<Rightarrow> (formal_co_packet \<times> nat) res" where
  \<comment> \<open>the checks with which both branches end; only the CRC-7 branch rejects an Add-CID of zero\<close>
  "finish_pt0 inp crc_input want_consumed has_add_cid packet pos =
     (if cp_header_crc packet \<noteq> formal_co_header_crc (cp_variant packet) crc_input then Reject
      else if cp_variant packet = Pt0Crc7 \<and> has_add_cid \<and> cp_cid packet = 0 then Reject
      else if want_consumed \<or> pos = length inp then Done (packet, pos) else Reject)"

definition decode_pt0_body ::
    "bytes \<Rightarrow> profile \<Rightarrow> bytes \<Rightarrow> bool \<Rightarrow> bool \<Rightarrow> formal_co_packet \<Rightarrow> nat \<Rightarrow> byte \<Rightarrow> (formal_co_packet \<times> nat) res" where
  \<comment> \<open>the statements after the CID, with \<open>pos\<close> behind the first octet and the CID\<close>
  "decode_pt0_body inp p crc_input want_consumed has_add_cid packet pos first =
     (if (first AND 0x80) = 0 then
        finish_pt0 inp crc_input want_consumed has_add_cid
          (packet\<lparr>cp_variant := Pt0Crc3, cp_msn := ucast (drop_bit 3 first AND 0x0F),
                  cp_header_crc := first AND 0x07\<rparr>) pos
      else if pos \<ge> length inp then Reject
      else rd inp pos (\<lambda>tail.
        if is_rtp_formal_co_profile p then
          if (first AND 0xF0) \<noteq> 0x80 then Reject
          else finish_pt0 inp crc_input want_consumed has_add_cid
                 (packet\<lparr>cp_variant := Pt0Crc7,
                    cp_msn := push_bit 1 (ucast (first AND 0x0F)) OR ucast (drop_bit 7 tail AND 0x01),
                    cp_header_crc := tail AND 0x7F\<rparr>) (pos + 1)
        else
          if (first AND 0xE0) \<noteq> 0x80 then Reject
          else finish_pt0 inp crc_input want_consumed has_add_cid
                 (packet\<lparr>cp_variant := Pt0Crc7,
                    cp_msn := push_bit 1 (ucast (first AND 0x1F)) OR ucast (drop_bit 7 tail AND 0x01),
                    cp_header_crc := tail AND 0x7F\<rparr>) (pos + 1)))"

definition decode_formal_co_pt0 ::
    "bytes \<Rightarrow> profile \<Rightarrow> bool \<Rightarrow> bytes \<Rightarrow> bool \<Rightarrow> (formal_co_packet \<times> nat) res" where
  "decode_formal_co_pt0 inp p large_cid_space crc_input want_consumed =
     (if inp = [] \<or> \<not> is_supported_formal_co_profile p then Reject
      else let
        body = (\<lambda>pos has_add_cid first decoded_cid decoded_cid_len.
          decode_pt0_body inp p crc_input want_consumed has_add_cid
            (formal_co_packet_init\<lparr>cp_profile := p, cp_cid := decoded_cid,
               cp_large_cid := large_cid_space, cp_cid_len := decoded_cid_len\<rparr>) pos first);
        start = (\<lambda>pos has_add_cid decoded_cid. rd inp pos (\<lambda>first.
          if large_cid_space
          then view inp (pos + 1) (\<lambda>p. seq_res (read_large p) (\<lambda>(cid, n). body (pos + 1 + n) has_add_cid first cid n))
          else body (pos + 1) has_add_cid first decoded_cid 0))
      in if large_cid_space then start 0 False 0
         else rd inp 0 (\<lambda>b.
           if (b AND 0xF0) = 0xE0
           then (if length inp < 2 then Reject else start 1 True (ucast (b AND 0x0F)))
           else start 0 False 0))"

section \<open>The octets of a PT-0 packet\<close>

lemmas octet_layout = buf_bits_def octet_bits_def msb_bits_def upt_rec

lemma pt0_crc3_octet:
  "buf_bits [push_bit 3 (ucast (msn AND 0x0F :: u16)) OR (crc AND 0x07 :: byte)]
     = field_bits [(0, 1), (ucast msn AND 0x0F, 4), (ucast crc AND 0x07, 3)]"
  by (simp add: octet_layout bit_simps numeral_eq_Suc del: push_bit_Suc)

lemma pt0_crc7_octets_rtp:
  "buf_bits [0x80 OR (drop_bit 1 (ucast (msn AND 0x1F :: u16)) AND 0x0F),
             push_bit 7 (ucast (msn AND 0x1F) AND 0x01) OR (crc AND 0x7F :: byte)]
     = field_bits [(0x08, 4), (ucast msn AND 0x1F, 5), (ucast crc AND 0x7F, 7)]"
  by (simp add: octet_layout bit_simps numeral_eq_Suc del: push_bit_Suc)

lemma pt0_crc7_octets:
  "buf_bits [0x80 OR (drop_bit 1 (ucast (msn AND 0x3F :: u16)) AND 0x1F),
             push_bit 7 (ucast (msn AND 0x3F) AND 0x01) OR (crc AND 0x7F :: byte)]
     = field_bits [(0x04, 3), (ucast msn AND 0x3F, 6), (ucast crc AND 0x7F, 7)]"
  by (simp add: octet_layout bit_simps numeral_eq_Suc del: push_bit_Suc)

lemma split_crc3_octet:
  "buf_bits [x] = field_bits [(ucast (drop_bit 7 x), 1), (ucast (drop_bit 3 x), 4), (ucast x, 3)]"
  by (simp add: octet_layout bit_simps numeral_eq_Suc del: push_bit_Suc)

lemma split_crc7_octets_rtp:
  "buf_bits [x, y] = field_bits [(ucast (drop_bit 4 x), 4),
     (push_bit 1 (ucast x) OR ucast (drop_bit 7 y), 5), (ucast y, 7)]"
  by (simp add: octet_layout bit_simps numeral_eq_Suc del: push_bit_Suc)

lemma split_crc7_octets:
  "buf_bits [x, y] = field_bits [(ucast (drop_bit 5 x), 3),
     (push_bit 1 (ucast x) OR ucast (drop_bit 7 y), 6), (ucast y, 7)]"
  by (simp add: octet_layout bit_simps numeral_eq_Suc del: push_bit_Suc)

lemma pt0_variant_facts:
  assumes "is_supported_formal_co_profile p"
  shows "formal_co_variant_valid_for_profile p Pt0Crc3" "formal_co_base_len p Pt0Crc3 = 1"
    "formal_co_variant_valid_for_profile p Pt0Crc7" "formal_co_base_len p Pt0Crc7 = 2"
  using assms by (simp_all add: formal_co_variant_valid_for_profile_def formal_co_base_len_def)

section \<open>Emitter\<close>

lemma emit_pt0_eq:
  assumes "is_supported_formal_co_profile p" and "is_valid_for_space cid large" and "v = Pt0Crc3 \<or> v = Pt0Crc7"
    and "co_required_len cid large (formal_co_base_len p v - 1) \<le> cap"
  shows "emit_formal_co_pt0 cap p v cid large msn crc_input =
         emit_formal_co cap p v cid large \<lparr>cf_msn = msn, cf_ip_id = i, cf_ts_scaled = t, cf_marker = m\<rparr> crc_input"
proof -
  note pt0 = pt0_variant_facts [OF assms(1)]
  define crc where "crc = formal_co_header_crc v crc_input"
  define flds where "flds = \<lparr>cf_msn = msn, cf_ip_id = i, cf_ts_scaled = t, cf_marker = m\<rparr>"
  have frame: "emit_co_frame cap cid large x k = k (co_frame large cid x)"
    and room: "length (co_frame large cid x) + (formal_co_base_len p v - 1) \<le> cap"
    for x and k :: "bytes \<Rightarrow> bytes res"
    using emit_co_frame_eq [OF assms(2,4)] assms(4) by (simp_all only: length_co_frame)
  have gen: "emit_formal_co cap p v cid large flds crc_input = Done (co_frame large cid (hd base) @ tl base)"
    if "base_field_list (is_rtp_formal_co_profile p) v flds crc = Some fs" "buf_bits base = field_bits fs"
      "length base = formal_co_base_len p v" for base fs
    by (rule emit_formal_co_base) (use assms that pt0 in \<open>auto simp: crc_def\<close>)
  from assms(3) consider (c3) "v = Pt0Crc3" | (c7r) "v = Pt0Crc7" "is_rtp_formal_co_profile p"
    | (c7) "v = Pt0Crc7" "\<not> is_rtp_formal_co_profile p" by blast
  then show ?thesis
  proof cases
    case c3
    have "emit_formal_co cap p v cid large flds crc_input
        = Done (co_frame large cid (push_bit 3 (ucast (msn AND 0x0F)) OR (crc AND 0x07)))"
      using gen [OF _ pt0_crc3_octet [of msn crc]] pt0 c3 by (simp add: base_field_list_def flds_def)
    then show ?thesis
      using c3 assms(1,2,4) frame pt0
      by (simp add: emit_formal_co_pt0_def formal_co_pt0_base_len_def flds_def crc_def Let_def)
  next
    case c7r
    have "emit_formal_co cap p v cid large flds crc_input
        = Done (co_frame large cid (0x80 OR (drop_bit 1 (ucast (msn AND 0x1F)) AND 0x0F)) @
            [push_bit 7 (ucast (msn AND 0x1F) AND 0x01) OR (crc AND 0x7F)])"
      using gen [OF _ pt0_crc7_octets_rtp [of msn crc]] pt0 c7r by (simp add: base_field_list_def flds_def)
    then show ?thesis
      using c7r assms(1,2,4) frame room pt0
      by (simp add: emit_formal_co_pt0_def formal_co_pt0_base_len_def flds_def crc_def Let_def Suc_le_eq)
  next
    case c7
    have "emit_formal_co cap p v cid large flds crc_input
        = Done (co_frame large cid (0x80 OR (drop_bit 1 (ucast (msn AND 0x3F)) AND 0x1F)) @
            [push_bit 7 (ucast (msn AND 0x3F) AND 0x01) OR (crc AND 0x7F)])"
      using gen [OF _ pt0_crc7_octets [of msn crc]] pt0 c7 by (simp add: base_field_list_def flds_def)
    then show ?thesis
      using c7 assms(1,2,4) frame room pt0
      by (simp add: emit_formal_co_pt0_def formal_co_pt0_base_len_def flds_def crc_def Let_def Suc_le_eq)
  qed
qed

lemma emit_formal_co_short:
  assumes "0 < formal_co_base_len p v" and "cap < co_required_len cid large (formal_co_base_len p v - 1)"
  shows "emit_formal_co cap p v cid large flds crc_input = Reject"
proof -
  obtain base where "write_formal_co_base (formal_co_base_len p v) p v flds (formal_co_header_crc v crc_input) = Done base"
    using write_formal_co_base_layout [OF assms(1)] by metis
  then show ?thesis using assms by (simp add: emit_formal_co_def Let_def)
qed

section \<open>Decoder\<close>

lemma pt0_values:
  "ucast (take_bit 4 (ucast (drop_bit 3 (x :: byte)) :: u32)) = (ucast (drop_bit 3 x AND 0x0F) :: u16)"
  "ucast (take_bit 3 (ucast (x :: byte) :: u32)) = x AND 0x07"
  "ucast (take_bit 7 (ucast (x :: byte) :: u32)) = x AND 0x7F"
  "ucast (take_bit 5 (push_bit (Suc 0) (ucast x)) OR take_bit 5 (ucast (drop_bit 7 y)) :: u32)
     = (push_bit (Suc 0) (ucast (x AND 0x0F)) OR ucast (drop_bit 7 (y :: byte) AND 0x01) :: u16)"
  "ucast (take_bit 6 (push_bit (Suc 0) (ucast x)) OR take_bit 6 (ucast (drop_bit 7 y)) :: u32)
     = (push_bit (Suc 0) (ucast (x AND 0x1F)) OR ucast (drop_bit 7 (y :: byte) AND 0x01) :: u16)"
  by (simp_all add: byte_bits u16_bits del: push_bit_Suc)

lemma pt0_tags:
  "take_bit 1 (ucast (drop_bit 7 (x :: byte)) :: u32) = 0 \<longleftrightarrow> (x AND 0x80) = 0"
  "take_bit 4 (ucast (drop_bit 4 (x :: byte)) :: u32) = 0x08 \<longleftrightarrow> (x AND 0xF0) = 0x80"
  "take_bit 3 (ucast (drop_bit 5 (x :: byte)) :: u32) = 0x04 \<longleftrightarrow> (x AND 0xE0) = 0x80"
  by (simp_all only: byte_bits u32_bits) simp_all

lemma read_crc3_fields:
  "read_base_fields [x] 1 1 0 [4, 3] fill =
     (if (x AND 0x80) = 0 then Done (fill [take_bit 4 (ucast (drop_bit 3 x)), take_bit 3 (ucast x)]) else Reject)"
  using read_base_fields_eq [OF split_crc3_octet, of x 1 0 fill, unfolded pt0_tags(1)] by simp

lemma read_crc7_fields_rtp:
  "read_base_fields [x, y] 2 4 0x08 [5, 7] fill =
     (if (x AND 0xF0) = 0x80
      then Done (fill [take_bit 5 (push_bit 1 (ucast x) OR ucast (drop_bit 7 y)), take_bit 7 (ucast y)]) else Reject)"
  using read_base_fields_eq [OF split_crc7_octets_rtp, of x y 2 8 fill] pt0_tags(2) [of x] by simp

lemma read_crc7_fields:
  "read_base_fields [x, y] 2 3 0x04 [6, 7] fill =
     (if (x AND 0xE0) = 0x80
      then Done (fill [take_bit 6 (push_bit 1 (ucast x) OR ucast (drop_bit 7 y)), take_bit 7 (ucast y)]) else Reject)"
  using read_base_fields_eq [OF split_crc7_octets, of x y 2 4 fill] pt0_tags(3) [of x] by simp

lemma read_pt0_crc3:
  assumes "is_supported_formal_co_profile p"
  shows "read_formal_co_base [x] 1 p Pt0Crc3 packet =
    (if (x AND 0x80) = 0
     then Done (packet\<lparr>cp_variant := Pt0Crc3, cp_msn := ucast (drop_bit 3 x AND 0x0F), cp_ip_id := 0,
                 cp_ts_scaled := 0, cp_marker := False, cp_header_crc := x AND 0x07\<rparr>)
     else Reject)"
  using pt0_variant_facts [OF assms]
  unfolding read_formal_co_base_def base_read_list_def Let_def
  by (cases packet) (simp add: read_crc3_fields [simplified] pt0_values)

lemma read_pt0_crc7:
  assumes "is_supported_formal_co_profile p"
  shows "read_formal_co_base [x, y] 2 p Pt0Crc7 packet =
    (if (if is_rtp_formal_co_profile p then (x AND 0xF0) = 0x80 else (x AND 0xE0) = 0x80)
     then Done (packet\<lparr>cp_variant := Pt0Crc7,
        cp_msn := push_bit 1 (ucast (if is_rtp_formal_co_profile p then x AND 0x0F else x AND 0x1F))
                    OR ucast (drop_bit 7 y AND 0x01),
        cp_ip_id := 0, cp_ts_scaled := 0, cp_marker := False, cp_header_crc := y AND 0x7F\<rparr>)
     else Reject)"
  using pt0_variant_facts [OF assms]
  unfolding read_formal_co_base_def base_read_list_def Let_def
  by (cases packet; cases "is_rtp_formal_co_profile p")
    (simp_all add: read_crc7_fields_rtp read_crc7_fields pt0_values del: push_bit_Suc)

definition is_add_cid_zero :: "bytes \<Rightarrow> bool \<Rightarrow> bool" where
  "is_add_cid_zero inp large \<longleftrightarrow> \<not> large \<and> inp \<noteq> [] \<and> hd inp = 0xE0"

lemma decode_pt0_body_add_cid:
  "cp_cid packet \<noteq> 0 \<Longrightarrow>
   decode_pt0_body inp p crc_input want True packet pos first = decode_pt0_body inp p crc_input want False packet pos first"
  by (simp add: decode_pt0_body_def finish_pt0_def)

lemma decode_pt0_frame:
  assumes "inp \<noteq> []" and "is_supported_formal_co_profile p" and "\<not> is_add_cid_zero inp large"
  shows "decode_formal_co_pt0 inp p large crc_input want =
    decode_co_frame inp large (\<lambda>_. True) (\<lambda>pos first cid n.
      decode_pt0_body inp p crc_input want False (formal_co_packet_init\<lparr>cp_profile := p, cp_cid := cid,
        cp_large_cid := large, cp_cid_len := n\<rparr>) pos first)"
proof (cases large)
  case True
  then show ?thesis using assms by (simp add: decode_formal_co_pt0_def decode_co_frame_def Let_def)
next
  case False
  obtain b tl where inp: "inp = b # tl" using assms(1) by (cases inp) auto
  have z: "(ucast (b AND 0x0F) :: u32) \<noteq> 0" if "(b AND 0xF0) = 0xE0"
  proof
    assume "(ucast (b AND 0x0F) :: u32) = 0"
    then have "b = 0xE0" using that by (simp add: byte_bits u32_bits)
    then show False using assms(3) False inp by (simp add: is_add_cid_zero_def)
  qed
  show ?thesis
  proof (cases "(b AND 0xF0) = 0xE0")
    case True
    then show ?thesis
      using assms(2) False inp z [OF True]
      by (cases tl) (simp_all add: decode_formal_co_pt0_def decode_co_frame_def Let_def decode_pt0_body_add_cid)
  next
    case no: False
    then show ?thesis
      using assms(2) False inp by (simp add: decode_formal_co_pt0_def decode_co_frame_def Let_def)
  qed
qed

lemma generic_pt0_crc3:
  assumes "is_supported_formal_co_profile p" and "pos \<le> length inp"
  shows "(if szsub (length inp) pos < 1 - 1 then Reject
      else copy_in inp pos (1 - 1) (\<lambda>tail.
        seq_res (read_formal_co_base (first # tail) 1 p Pt0Crc3 packet) (\<lambda>packet.
          if cp_header_crc packet \<noteq> formal_co_header_crc (cp_variant packet) crc_input then Reject
          else if want \<or> pos + (1 - 1) = length inp then Done (packet, pos + (1 - 1)) else Reject)))
    = (if (first AND 0x80) = 0
       then finish_pt0 inp crc_input want False
              (packet\<lparr>cp_variant := Pt0Crc3, cp_msn := ucast (drop_bit 3 first AND 0x0F), cp_ip_id := 0,
                 cp_ts_scaled := 0, cp_marker := False, cp_header_crc := first AND 0x07\<rparr>) pos
       else Reject)"
  using assms(2) by (simp add: read_pt0_crc3 [OF assms(1), simplified] finish_pt0_def)

lemma generic_pt0_crc7:
  assumes "is_supported_formal_co_profile p" and "pos \<le> length inp"
  shows "(if szsub (length inp) pos < 2 - 1 then Reject
      else copy_in inp pos (2 - 1) (\<lambda>tail.
        seq_res (read_formal_co_base (first # tail) 2 p Pt0Crc7 packet) (\<lambda>packet.
          if cp_header_crc packet \<noteq> formal_co_header_crc (cp_variant packet) crc_input then Reject
          else if want \<or> pos + (2 - 1) = length inp then Done (packet, pos + (2 - 1)) else Reject)))
    = (if pos \<ge> length inp then Reject
       else if (if is_rtp_formal_co_profile p then (first AND 0xF0) = 0x80 else (first AND 0xE0) = 0x80)
       then finish_pt0 inp crc_input want False
              (packet\<lparr>cp_variant := Pt0Crc7,
                 cp_msn := push_bit 1 (ucast (if is_rtp_formal_co_profile p then first AND 0x0F else first AND 0x1F))
                    OR ucast (drop_bit 7 (inp ! pos) AND 0x01),
                 cp_ip_id := 0, cp_ts_scaled := 0, cp_marker := False, cp_header_crc := inp ! pos AND 0x7F\<rparr>) (pos + 1)
       else Reject)"
proof (cases "pos \<ge> length inp")
  case False
  then have "take 1 (drop pos inp) = [inp ! pos]"
    by (simp add: take_Suc_conv_app_nth hd_drop_conv_nth take_Suc)
  then show ?thesis
    using False by (simp add: read_pt0_crc7 [OF assms(1)] finish_pt0_def del: push_bit_Suc)
qed (use assms(2) in simp)

lemma tag_bit7: "(x AND 0xF0 :: byte) = 0x80 \<Longrightarrow> (x AND 0x80) \<noteq> 0" "(x AND 0xE0 :: byte) = 0x80 \<Longrightarrow> (x AND 0x80) \<noteq> 0"
  by (auto simp: byte_bits)

lemma pt0_decoders_agree:
  assumes ne: "inp \<noteq> []" and sup: "is_supported_formal_co_profile p" and z: "\<not> is_add_cid_zero inp large"
    and pos: "pos \<le> length inp"
    and frame: "\<forall>k :: nat \<Rightarrow> byte \<Rightarrow> u32 \<Rightarrow> nat \<Rightarrow> (formal_co_packet \<times> nat) res.
      decode_co_frame inp large (\<lambda>_. True) k = k pos first cid n"
  shows "decode_formal_co_pt0 inp p large crc_input want =
     (if decode_formal_co inp p Pt0Crc3 large crc_input want = Reject
      then decode_formal_co inp p Pt0Crc7 large crc_input want
      else decode_formal_co inp p Pt0Crc3 large crc_input want)"
proof -
  note pt0 = pt0_variant_facts [OF sup]
  define packet where "packet = formal_co_packet_init\<lparr>cp_profile := p, cp_cid := cid, cp_large_cid := large,
    cp_cid_len := n\<rparr>"
  have zero: "packet\<lparr>cp_ip_id := 0, cp_ts_scaled := 0, cp_marker := False\<rparr> = packet"
    by (simp add: packet_def formal_co_packet_init_def)
  have d3: "decode_formal_co inp p Pt0Crc3 large crc_input want =
      (if (first AND 0x80) = 0
       then finish_pt0 inp crc_input want False
              (packet\<lparr>cp_variant := Pt0Crc3, cp_msn := ucast (drop_bit 3 first AND 0x0F), cp_ip_id := 0,
                 cp_ts_scaled := 0, cp_marker := False, cp_header_crc := first AND 0x07\<rparr>) pos
       else Reject)"
    unfolding generic_pt0_crc3 [OF sup pos, symmetric] decode_formal_co_def Let_def frame [rule_format] pt0 packet_def
    using ne pt0 by simp
  have d7: "decode_formal_co inp p Pt0Crc7 large crc_input want =
      (if pos \<ge> length inp then Reject
       else if (if is_rtp_formal_co_profile p then (first AND 0xF0) = 0x80 else (first AND 0xE0) = 0x80)
       then finish_pt0 inp crc_input want False
              (packet\<lparr>cp_variant := Pt0Crc7,
                 cp_msn := push_bit 1 (ucast (if is_rtp_formal_co_profile p then first AND 0x0F else first AND 0x1F))
                    OR ucast (drop_bit 7 (inp ! pos) AND 0x01),
                 cp_ip_id := 0, cp_ts_scaled := 0, cp_marker := False, cp_header_crc := inp ! pos AND 0x7F\<rparr>) (pos + 1)
       else Reject)"
    unfolding generic_pt0_crc7 [OF sup pos, symmetric] decode_formal_co_def Let_def frame [rule_format] pt0 packet_def
    using ne pt0 by simp
  have dp: "decode_formal_co_pt0 inp p large crc_input want =
      decode_pt0_body inp p crc_input want False packet pos first"
    by (simp only: decode_pt0_frame [OF ne sup z] frame [rule_format] packet_def)
  have upd: "packet\<lparr>cp_variant := v, cp_msn := m, cp_ip_id := 0, cp_ts_scaled := 0, cp_marker := False,
      cp_header_crc := c\<rparr> = packet\<lparr>cp_variant := v, cp_msn := m, cp_header_crc := c\<rparr>" for v m c
    by (simp add: packet_def formal_co_packet_init_def)
  show ?thesis
    unfolding dp d3 d7 upd decode_pt0_body_def using tag_bit7 [of first]
    by (cases "is_rtp_formal_co_profile p") (auto simp: rd_def)
qed

text \<open>
  C28. The specialised PT-0 path is equivalent to the generic one. \<open>emit_formal_co_pt0\<close> returns, on
  every argument, what \<open>emit_formal_co\<close> returns for the PT-0 variant, failures included; and
  \<open>decode_formal_co_pt0\<close> returns what trying the generic decoder for the CRC-3 and then for the CRC-7
  variant returns, on every input except those that begin with the Add-CID octet of CID zero.
\<close>

theorem pt0_equivalent:
  assumes "\<not> is_add_cid_zero inp large" and "v = Pt0Crc3 \<or> v = Pt0Crc7"
  shows "emit_formal_co_pt0 cap p v cid large msn crc_input =
           emit_formal_co cap p v cid large \<lparr>cf_msn = msn, cf_ip_id = i, cf_ts_scaled = t, cf_marker = m\<rparr> crc_input \<and>
         decode_formal_co_pt0 inp p large crc_input want =
           (if decode_formal_co inp p Pt0Crc3 large crc_input want = Reject
            then decode_formal_co inp p Pt0Crc7 large crc_input want
            else decode_formal_co inp p Pt0Crc3 large crc_input want)"
proof (cases "is_supported_formal_co_profile p")
  case False
  then show ?thesis
    by (simp add: emit_formal_co_pt0_def emit_formal_co_def decode_formal_co_pt0_def decode_formal_co_def
        formal_co_variant_valid_for_profile_def)
next
  case sup: True
  note pt0 = pt0_variant_facts [OF sup]
  have pos: "0 < formal_co_base_len p v" "formal_co_pt0_base_len v = formal_co_base_len p v"
    using assms(2) pt0 by (auto simp: formal_co_pt0_base_len_def)
  have "emit_formal_co_pt0 cap p v cid large msn crc_input =
      emit_formal_co cap p v cid large \<lparr>cf_msn = msn, cf_ip_id = i, cf_ts_scaled = t, cf_marker = m\<rparr> crc_input"
  proof (cases "is_valid_for_space cid large")
    case False
    then show ?thesis by (simp add: emit_formal_co_pt0_def emit_formal_co_def)
  next
    case True
    then show ?thesis
      using emit_pt0_eq [OF sup True assms(2)] emit_formal_co_short [OF pos(1)] pos(2) sup
      by (cases "cap < co_required_len cid large (formal_co_base_len p v - 1)")
        (simp_all add: emit_formal_co_pt0_def not_less)
  qed
  moreover have "decode_formal_co_pt0 inp p large crc_input want =
     (if decode_formal_co inp p Pt0Crc3 large crc_input want = Reject
      then decode_formal_co inp p Pt0Crc7 large crc_input want
      else decode_formal_co inp p Pt0Crc3 large crc_input want)"
  proof (cases "inp = []")
    case True
    then show ?thesis by (simp add: decode_formal_co_pt0_def decode_formal_co_def)
  next
    case ne: False
    from decode_co_frame_any [OF ne, of large, where 'a = "formal_co_packet \<times> nat"] show ?thesis
    proof (elim disjE exE conjE)
      assume "\<forall>ok (k :: nat \<Rightarrow> byte \<Rightarrow> u32 \<Rightarrow> nat \<Rightarrow> (formal_co_packet \<times> nat) res). decode_co_frame inp large ok k = Reject"
      then show ?thesis by (simp add: decode_pt0_frame [OF ne sup assms(1)] decode_formal_co_def Let_def)
    next
      fix cid first rest
      assume inp: "inp = co_frame large cid first @ rest" and frame: "\<forall>k :: nat \<Rightarrow> byte \<Rightarrow> u32 \<Rightarrow> nat \<Rightarrow>
        (formal_co_packet \<times> nat) res. decode_co_frame inp large (\<lambda>_. True) k
          = k (length (co_frame large cid first)) first cid (if large then encoded_len cid else 0)"
      have "length (co_frame large cid first) \<le> length inp" by (simp add: inp)
      from pt0_decoders_agree [OF ne sup assms(1) this frame] show ?thesis .
    qed
  qed
  ultimately show ?thesis by blast
qed

theorem pt0_equivalent_witness:
  "emit_formal_co_pt0 4 UDP Pt0Crc7 2 False 0x55 [9] =
     emit_formal_co 4 UDP Pt0Crc7 2 False \<lparr>cf_msn = 0x55, cf_ip_id = 0, cf_ts_scaled = 0, cf_marker = False\<rparr> [9]"
  using pt0_equivalent [of "[0xE2, 0x8A, 0x80]" False Pt0Crc7 4 UDP 2 "0x55" "[9]" 0 0 False False]
  by (simp add: is_add_cid_zero_def)

text \<open>
  The excepted input does make the decoders disagree. On a two-octet packet that starts with
  the Add-CID octet \<open>0xE0\<close> of CID zero and continues with a CRC-3 PT-0 octet whose CRC matches,
  \<open>decode_formal_co_pt0\<close> accepts with CID zero, although it rejects that octet on its CRC-7 path and
  \<open>decode_formal_co\<close> rejects it for every variant.
\<close>

theorem pt0_add_cid_zero:
  assumes "is_supported_formal_co_profile p" and "(x AND 0x80) = 0" and "x AND 0x07 = crc3 crc_input"
  shows "(\<exists>q. decode_formal_co_pt0 [0xE0, x] p False crc_input want = Done (q, 2) \<and> cp_cid q = 0) \<and>
         (\<forall>v. decode_formal_co [0xE0, x] p v False crc_input want = Reject)"
proof -
  have "decode_formal_co_pt0 [0xE0, x] p False crc_input want =
      Done (formal_co_packet_init\<lparr>cp_profile := p, cp_cid := 0, cp_large_cid := False, cp_cid_len := 0,
        cp_variant := Pt0Crc3, cp_msn := ucast (drop_bit 3 x AND 0x0F), cp_header_crc := x AND 0x07\<rparr>, 2)"
    using assms by (simp add: decode_formal_co_pt0_def decode_pt0_body_def finish_pt0_def
        formal_co_header_crc_def formal_co_variant_uses_crc3_def)
  moreover have "decode_formal_co [0xE0, x] p v False crc_input want = Reject" for v
    by (simp add: decode_formal_co_def decode_co_frame_def Let_def)
  ultimately show ?thesis by simp
qed

theorem pt0_add_cid_zero_witness:
  "\<exists>q. decode_formal_co_pt0 [0xE0, 0x28 OR crc3 [1]] UDP False [1] False = Done (q, 2) \<and> cp_cid q = 0"
proof -
  have "(0x28 OR (c AND 0x07)) AND 0x07 = c AND 0x07" "(0x28 OR (c AND 0x07)) AND 0x80 = 0" for c :: byte
    by (simp_all add: byte_bits)
  from this [of "crc3 [1]"] show ?thesis
    using pt0_add_cid_zero [of UDP "0x28 OR crc3 [1]" "[1]" False] by (simp add: is_supported_formal_co_profile_def)
qed

end
