(* ===== verification/Feedback.thy ===== *)
theory Feedback
  imports Context
begin

text \<open>
  Feedback, \<open>core/feedback.hpp\<close>: the ring of transmitted sequence numbers, the FEEDBACK-2 format of
  version 1, the library's own feedback packet with options, piggybacking, and the effect of feedback
  on the compressor's context. The abstraction of the ring is the list of the last 64
  transmissions, newest first.
\<close>

section \<open>Data\<close>

datatype feedback_type = NACK | STATIC_NACK | ACK

datatype feedback_status = Accepted | Stale | Malformed | Uncorrelated | Unsupported

record feedback_option =
  fo_type :: byte  \<comment> \<open>an enum over \<open>uint8_t\<close> that the reader fills with any octet\<close>
  fo_len :: byte
  fo_value :: bytes

record feedback =
  fb_cid :: u32
  fb_type :: feedback_type
  fb_has_mode :: bool
  fb_mode :: mode
  fb_option_count :: byte
  fb_options :: "feedback_option list"
  fb_acknowledgment_number :: u16
  fb_acknowledgment_bits :: byte
  fb_acknowledgment_valid :: bool
  fb_acknowledged_context_revision :: u64
  fb_context_revision_valid :: bool
  fb_acknowledged_context_distance :: u16
  fb_context_distance_valid :: bool
  fb_crc_present :: bool
  fb_crc_valid :: bool

definition feedback_option_init :: feedback_option where
  "feedback_option_init = \<lparr>fo_type = 1, fo_len = 0, fo_value = replicate 4 0\<rparr>"

definition feedback_init :: feedback where
  "feedback_init = \<lparr>fb_cid = 0, fb_type = NACK, fb_has_mode = False, fb_mode = Optimistic,
     fb_option_count = 0, fb_options = replicate 4 feedback_option_init, fb_acknowledgment_number = 0,
     fb_acknowledgment_bits = 0, fb_acknowledgment_valid = False, fb_acknowledged_context_revision = 0,
     fb_context_revision_valid = False, fb_acknowledged_context_distance = 0,
     fb_context_distance_valid = False, fb_crc_present = False, fb_crc_valid = False\<rparr>"

definition mode_code :: "mode \<Rightarrow> byte" where
  "mode_code m = (case m of ModeUncompressed \<Rightarrow> 0 | Optimistic \<Rightarrow> 1 | Reliable \<Rightarrow> 2)"

definition mode_of_code :: "byte \<Rightarrow> mode" where
  \<comment> \<open>the cast, used only on known codes\<close>
  "mode_of_code b = (if b = 0 then ModeUncompressed else if b = 1 then Optimistic else Reliable)"

definition is_known_mode :: "byte \<Rightarrow> bool" where
  "is_known_mode value \<longleftrightarrow> value \<le> mode_code Reliable"

definition is_known_feedback_type :: "byte \<Rightarrow> bool" where
  "is_known_feedback_type value \<longleftrightarrow> value \<le> 2"

definition feedback_has_options :: "byte \<Rightarrow> bool" where
  "feedback_has_options flags \<longleftrightarrow> (flags AND 0x10) \<noteq> 0"

definition feedback_has_mode :: "byte \<Rightarrow> bool" where
  "feedback_has_mode flags \<longleftrightarrow> (flags AND 0x20) \<noteq> 0"

definition is_feedback_packet_start :: "byte \<Rightarrow> bool" where
  "is_feedback_packet_start value \<longleftrightarrow> (value AND 0xF8) = 0xF0"

definition feedback_ack_type :: "feedback_type \<Rightarrow> byte" where
  "feedback_ack_type t = (case t of ACK \<Rightarrow> 0 | NACK \<Rightarrow> 1 | STATIC_NACK \<Rightarrow> 2)"

definition feedback_type_from_ack_type :: "byte \<Rightarrow> feedback_type option" where
  "feedback_type_from_ack_type ack_type =
     (if ack_type = 0 then Some ACK else if ack_type = 1 then Some NACK
      else if ack_type = 2 then Some STATIC_NACK else None)"

section \<open>Transmitted sequence numbers\<close>

definition record_transmitted_msn :: "rohc_context \<Rightarrow> u16 \<Rightarrow> rohc_context res" where
  "record_transmitted_msn ctx msn =
     (let head = unat (ctx_transmitted_msn_head ctx) in
      if head < length (ctx_transmitted_msn_history ctx) \<and>
         head < length (ctx_transmitted_context_revision_history ctx) then
        Done (ctx\<lparr>ctx_transmitted_msn_history := (ctx_transmitted_msn_history ctx)[head := msn],
          ctx_transmitted_context_revision_history :=
            (ctx_transmitted_context_revision_history ctx)[head := ctx_context_revision ctx],
          ctx_transmitted_msn_head := of_nat ((head + 1) mod 64),
          ctx_transmitted_msn_count := (if ctx_transmitted_msn_count ctx < 64
             then ctx_transmitted_msn_count ctx + 1 else ctx_transmitted_msn_count ctx)\<rparr>)
      else Fault)"

function msn_search :: "rohc_context \<Rightarrow> u16 \<Rightarrow> u16 \<Rightarrow> nat \<Rightarrow> (u64 \<times> u16) option res" where
  "msn_search ctx msk acknowledgment offset =
     (if offset < unat (ctx_transmitted_msn_count ctx) then
        let index = (unat (ctx_transmitted_msn_head ctx) + 64 - 1 - offset) mod 64 in
        if index < length (ctx_transmitted_msn_history ctx) \<and>
           index < length (ctx_transmitted_context_revision_history ctx) then
          if (ctx_transmitted_msn_history ctx ! index AND msk) = (acknowledgment AND msk)
          then Done (Some (ctx_transmitted_context_revision_history ctx ! index,
                           ctx_transmitted_msn_history ctx ! index))
          else msn_search ctx msk acknowledgment (offset + 1)
        else Fault
      else Done None)"
  by pat_completeness auto
termination by (relation "measure (\<lambda>(c, m, a, off). unat (ctx_transmitted_msn_count c) - off)") auto

declare msn_search.simps [simp del]

definition transmitted_msn_revision :: "rohc_context \<Rightarrow> u16 \<Rightarrow> byte \<Rightarrow> (u64 \<times> u16) option res" where
  \<comment> \<open>\<open>None\<close> is the result \<open>false\<close>; the pair is the revision and the transmitted MSN\<close>
  "transmitted_msn_revision ctx acknowledgment bits =
     (if bits = 0 \<or> bits > 16 \<or> ctx_transmitted_msn_count ctx = 0 then Done None
      else let msk = (if bits = 16 then 0xFFFF else push_bit (unat bits) 1 - 1)
           in msn_search ctx msk acknowledgment 0)"

definition transmitted_msn_matches :: "rohc_context \<Rightarrow> u16 \<Rightarrow> byte \<Rightarrow> bool res" where
  "transmitted_msn_matches ctx acknowledgment bits =
     seq_res (transmitted_msn_revision ctx acknowledgment bits) (\<lambda>r. Done (r \<noteq> None))"

section \<open>FEEDBACK-2, version 1\<close>

definition write_feedback2_v1 :: "nat \<Rightarrow> feedback \<Rightarrow> bytes res" where
  "write_feedback2_v1 capacity fb =
     (if fb_cid fb > 0x0F \<or> (fb_acknowledgment_valid fb \<and> fb_acknowledgment_bits fb \<noteq> 14) then Reject
      else let
        add_cid = (fb_cid fb \<noteq> 0);
        not_valid = (\<not> fb_acknowledgment_valid fb);
        body_len = (if add_cid then 1 else 0) + 3 + (if not_valid then 1 else 0);
        required = 1 + body_len
      in if body_len > 7 \<or> capacity < required then Reject
      else
        put capacity [] (0xF0 OR of_nat body_len) (\<lambda>out.
        (\<lambda>k. if add_cid then put capacity out (0xE0 OR ucast (fb_cid fb)) k else k out) (\<lambda>out.
        let ack = (if fb_acknowledgment_valid fb then fb_acknowledgment_number fb else 0) in
        put capacity out (push_bit 6 (feedback_ack_type (fb_type fb)) OR ucast (drop_bit 8 ack AND 0x3F)) (\<lambda>out.
        put capacity out (ucast (ack AND 0xFF)) (\<lambda>out.
        let crc_pos = length out in
        put capacity out 0 (\<lambda>out.
        (\<lambda>k. if not_valid then put capacity out 0x30 k else k out) (\<lambda>out.
        Done (out[crc_pos := crc8 (drop 1 out)]))))))))"

function feedback2_options :: "bytes \<Rightarrow> nat \<Rightarrow> nat \<Rightarrow> bool \<Rightarrow> (feedback_status + bool) res" where
  \<comment> \<open>the option loop: \<open>Inl\<close> is the status it returns early with, \<open>Inr\<close> the flag \<open>not_valid\<close>\<close>
  "feedback2_options inp fin pos not_valid =
     (if pos < fin then
        if pos < length inp then
          let option = inp ! pos; pos = pos + 1; type = drop_bit 4 option; option_len = unat (option AND 0x0F) in
          if option_len > fin - pos then Done (Inl Malformed)
          else if type = 3 then
            if option_len \<noteq> 0 then Done (Inl Malformed)
            else feedback2_options inp fin (pos + option_len) True
          else Done (Inl Unsupported)
        else Fault
      else Done (Inr not_valid))"
  by pat_completeness auto
termination by (relation "measure (\<lambda>(inp, fin, pos, n). fin - pos)") auto

declare feedback2_options.simps [simp del]

definition read_feedback2_body ::
    "bytes \<Rightarrow> bool \<Rightarrow> nat \<Rightarrow> feedback \<Rightarrow> nat \<Rightarrow> (feedback_status \<times> feedback \<times> nat) res" where
  \<comment> \<open>\<open>read_feedback2_v1\<close> from the position after the Add-CID octet\<close>
  "read_feedback2_body inp want_consumed fin fb pos =
     (if fin - pos < 3 then Done (Malformed, fb, 0)
      else rd inp pos (\<lambda>b.
        case feedback_type_from_ack_type (drop_bit 6 b) of
          None \<Rightarrow> Done (Unsupported, fb, 0)
        | Some ty \<Rightarrow>
          rd inp (pos + 1) (\<lambda>b1. rd inp (pos + 2) (\<lambda>received_crc.
          let fb = fb\<lparr>fb_type := ty,
                fb_acknowledgment_number := push_bit 8 (ucast (b AND 0x3F)) OR ucast b1,
                fb_acknowledgment_bits := 14\<rparr> in
          if fin - 1 > 260 then Done (Malformed, fb, 0)
          else copy_in inp 1 (fin - 1) (\<lambda>copy.
          let fb = fb\<lparr>fb_crc_present := True,
                fb_crc_valid := (crc8 (copy[pos + 2 - 1 := 0]) = received_crc)\<rparr> in
          seq_res (feedback2_options inp fin (pos + 3) False) (\<lambda>r. case r of
            Inl status \<Rightarrow> Done (status, fb, 0)
          | Inr not_valid \<Rightarrow>
              let fb = fb\<lparr>fb_acknowledgment_valid := (\<not> not_valid)\<rparr> in
              if \<not> want_consumed \<and> fin \<noteq> length inp then Done (Malformed, fb, 0)
              else Done (if fb_crc_valid fb then Accepted else Malformed, fb,
                         if want_consumed then fin else 0)))))))"

definition read_feedback2_v1 :: "bytes \<Rightarrow> bool \<Rightarrow> (feedback_status \<times> feedback \<times> nat) res" where
  \<comment> \<open>status, the feedback as far as it was filled in, and \<open>*consumed\<close> (zero when not assigned)\<close>
  "read_feedback2_v1 inp want_consumed =
     (let fb = feedback_init in
      if length inp < 4 then Done (Malformed, fb, 0)
      else rd inp 0 (\<lambda>b0.
        if \<not> is_feedback_packet_start b0 then Done (Malformed, fb, 0)
        else let body_len = unat (b0 AND 0x07) in
        if body_len = 0 \<or> length inp < 1 + body_len then Done (Malformed, fb, 0)
        else let fin = 1 + body_len in
        rd inp 1 (\<lambda>b.
          if (b AND 0xF0) = 0xE0 then
            let fb = fb\<lparr>fb_cid := ucast (b AND 0x0F)\<rparr> in
            if fb_cid fb = 0 then Done (Malformed, fb, 0)
            else read_feedback2_body inp want_consumed fin fb 2
          else read_feedback2_body inp want_consumed fin fb 1)))"

section \<open>Feedback packets with options\<close>

definition add_feedback_option :: "feedback \<Rightarrow> byte \<Rightarrow> bytes \<Rightarrow> feedback res" where
  "add_feedback_option fb type value =
     (if fb_option_count fb \<ge> 4 \<or> length value > 4 then Reject
      else let i = unat (fb_option_count fb) in
        if i < length (fb_options fb) then
          Done (fb\<lparr>fb_option_count := fb_option_count fb + 1,
                   fb_options := (fb_options fb)[i := \<lparr>fo_type = type, fo_len = of_nat (length value),
                     fo_value = value @ replicate (4 - length value) 0\<rparr>]\<rparr>)
        else Fault)"

definition active_options :: "feedback \<Rightarrow> feedback_option list" where
  "active_options fb = take (unat (fb_option_count fb)) (fb_options fb)"

definition feedback_options_wire_len :: "feedback \<Rightarrow> nat" where
  "feedback_options_wire_len fb = sum_list (map (\<lambda>opt. 2 + unat (fo_len opt)) (active_options fb))"

fun put_options :: "nat \<Rightarrow> bytes \<Rightarrow> feedback_option list \<Rightarrow> bytes res" where
  "put_options capacity out [] = Done out"
| "put_options capacity out (opt # opts) =
     put capacity out (fo_type opt) (\<lambda>out.
     put capacity out (fo_len opt) (\<lambda>out.
     copy_in (fo_value opt) 0 (unat (fo_len opt)) (\<lambda>v.
     put_all capacity out v (\<lambda>out. put_options capacity out opts))))"

definition write_feedback_packet :: "nat \<Rightarrow> feedback \<Rightarrow> bytes res" where
  "write_feedback_packet capacity fb =
     (if fb_cid fb > 0x0F then Reject
      else if length (fb_options fb) < unat (fb_option_count fb) then Fault
      else let
        options_len = feedback_options_wire_len fb;
        has_options = (options_len > 0);
        has_add_cid = (fb_cid fb > 0);
        feedback_data_len = 2 + (if has_options then 1 + options_len else 0);
        body_len = (if has_add_cid then 1 else 0) + feedback_data_len;
        extended_size = (body_len > 7);
        required_len = 1 + (if extended_size then 1 else 0) + body_len
      in if options_len > 0xFF \<or> body_len > 0xFF \<or> capacity < required_len then Reject
      else
        put capacity [] (0xF0 OR (if extended_size then 0 else of_nat body_len)) (\<lambda>out.
        (\<lambda>k. if extended_size then put capacity out (of_nat body_len) k else k out) (\<lambda>out.
        (\<lambda>k. if has_add_cid then put capacity out (0xE0 OR ucast (fb_cid fb AND 0x0F)) k else k out) (\<lambda>out.
        put capacity out (push_bit 6 (feedback_ack_type (fb_type fb) AND 0x03) OR
            (if fb_has_mode fb then 0x20 else 0) OR (if has_options then 0x10 else 0) OR
            (if fb_has_mode fb then mode_code (fb_mode fb) AND 0x03 else 0)) (\<lambda>out.
        put capacity out 0 (\<lambda>out.
        if has_options then
          put capacity out (of_nat options_len) (\<lambda>out. put_options capacity out (active_options fb))
        else Done out))))))"

function read_options :: "bytes \<Rightarrow> nat \<Rightarrow> nat \<Rightarrow> feedback \<Rightarrow> (feedback \<times> nat) res" where
  "read_options inp body_end pos fb =
     (if pos < body_end then
        if body_end - pos < 2 \<or> fb_option_count fb \<ge> 4 then Reject
        else rd inp pos (\<lambda>type. rd inp (pos + 1) (\<lambda>len.
          let option_len = unat len; pos = pos + 2 in
          if option_len > 4 \<or> szsub body_end pos < option_len then Reject
          else copy_in inp pos option_len (\<lambda>v.
            seq_res (add_feedback_option fb type v) (\<lambda>fb. read_options inp body_end (pos + option_len) fb))))
      else Done (fb, pos))"
  by pat_completeness auto
termination by (relation "measure (\<lambda>(inp, body_end, pos, fb). body_end - pos)") auto

declare read_options.simps [simp del]

definition read_feedback_data :: "bytes \<Rightarrow> bool \<Rightarrow> nat \<Rightarrow> feedback \<Rightarrow> nat \<Rightarrow> (feedback \<times> nat) res" where
  \<comment> \<open>\<open>read_feedback_packet\<close> from the position after the Add-CID octet\<close>
  "read_feedback_data inp want_consumed body_end fb pos =
     (if szsub body_end pos < 2 then Reject
      else rd inp pos (\<lambda>feedback_code.
        let pos = pos + 2 in
        case feedback_type_from_ack_type (drop_bit 6 feedback_code AND 0x03) of
          None \<Rightarrow> Reject
        | Some ty \<Rightarrow>
          let fb = fb\<lparr>fb_type := ty\<rparr>;
              mode = feedback_code AND 0x03 in
          if feedback_has_mode feedback_code \<and> \<not> is_known_mode mode then Reject
          else let fb = (if feedback_has_mode feedback_code
                         then fb\<lparr>fb_has_mode := True, fb_mode := mode_of_code mode\<rparr> else fb);
                   finish = (\<lambda>(fb, pos). if want_consumed \<or> pos = length inp then Done (fb, pos) else Reject) in
            if feedback_has_options feedback_code then
              if pos \<ge> body_end then Reject
              else rd inp pos (\<lambda>options_len.
                let pos = pos + 1 in
                if szsub body_end pos \<noteq> unat options_len then Reject
                else seq_res (read_options inp body_end pos fb) finish)
            else if pos \<noteq> body_end then Reject
            else finish (fb, pos)))"

definition read_feedback_sized :: "bytes \<Rightarrow> bool \<Rightarrow> nat \<Rightarrow> nat \<Rightarrow> (feedback \<times> nat) res" where
  \<comment> \<open>\<open>read_feedback_packet\<close> from the position after the size\<close>
  "read_feedback_sized inp want_consumed pos body_len =
     (let fb = feedback_init in
      if body_len = 0 \<or> szsub (length inp) pos < body_len then Reject
      else let body_end = pos + body_len in
        if pos < body_end then
          rd inp pos (\<lambda>b.
            if (b AND 0xF0) = 0xE0 then
              let fb = fb\<lparr>fb_cid := ucast (b AND 0x0F)\<rparr> in
              if fb_cid fb = 0 then Reject
              else read_feedback_data inp want_consumed body_end fb (pos + 1)
            else read_feedback_data inp want_consumed body_end fb pos)
        else read_feedback_data inp want_consumed body_end fb pos)"

definition read_feedback_packet :: "bytes \<Rightarrow> bool \<Rightarrow> (feedback \<times> nat) res" where
  "read_feedback_packet inp want_consumed =
     (if length inp < 2 then Reject
      else rd inp 0 (\<lambda>b0.
        if \<not> is_feedback_packet_start b0 then Reject
        else let code = unat (b0 AND 0x07) in
          if code = 0 then
            if 1 \<ge> length inp then Reject
            else rd inp 1 (\<lambda>b. read_feedback_sized inp want_consumed 2 (unat b))
          else read_feedback_sized inp want_consumed 1 code))"

definition write_piggybacked_feedback :: "nat \<Rightarrow> feedback \<Rightarrow> bytes \<Rightarrow> bytes res" where
  "write_piggybacked_feedback capacity fb packet =
     seq_res (write_feedback_packet capacity fb) (\<lambda>out.
       if capacity < length out + length packet then Reject
       else if length packet > 0 then put_all capacity out packet Done
       else Done out)"

definition read_feedback_prefix :: "bytes \<Rightarrow> (feedback \<times> nat) res" where
  "read_feedback_prefix inp = read_feedback_packet inp True"

section \<open>Effect on the context\<close>

definition current_revision_ack :: "rohc_context \<Rightarrow> feedback \<Rightarrow> bool" where
  "current_revision_ack ctx fb \<longleftrightarrow> fb_acknowledgment_valid fb \<and> fb_context_revision_valid fb \<and>
     fb_acknowledged_context_revision fb = ctx_context_revision ctx"

definition confirm_revision :: "rohc_context \<Rightarrow> feedback \<Rightarrow> rohc_context" where
  "confirm_revision ctx fb =
     (if current_revision_ack ctx fb
      then ctx\<lparr>ctx_profile_replacement_pending := False,
        ctx_formal_pt0_since_confirmation :=
          (if fb_context_distance_valid fb then ucast (fb_acknowledged_context_distance fb) else 0)\<rparr>
      else ctx)"

definition ack_state :: "bool \<Rightarrow> rohc_context \<Rightarrow> rohc_context" where
  "ack_state may_ack_current_state ctx =
     (let ctx = (if may_ack_current_state \<and>
                    (ctx_rohc_state ctx = StaticEstablished \<or> ctx_rohc_state ctx = DynamicEstablished)
                 then ctx\<lparr>ctx_static_acked := True\<rparr> else ctx)
      in if may_ack_current_state \<and> ctx_rohc_state ctx = DynamicEstablished
         then ctx\<lparr>ctx_dynamic_acked := True\<rparr> else ctx)"

definition apply_ack :: "rohc_context \<Rightarrow> feedback \<Rightarrow> rohc_context" where
  "apply_ack ctx fb =
     (let ctx = ctx\<lparr>ctx_nack_count := 0\<rparr>;
          current = current_revision_ack ctx fb;
          ctx = confirm_revision ctx fb
      in ack_state (\<not> ctx_profile_replacement_pending ctx \<or> current) ctx)"

definition apply_static_nack :: "rohc_context \<Rightarrow> rohc_context" where
  "apply_static_nack ctx =
     ctx\<lparr>ctx_nack_count := 0, ctx_static_acked := False, ctx_dynamic_acked := False,
         ctx_rohc_state := NoContext, ctx_tx_count := 0\<rparr>"

definition apply_nack :: "rohc_context \<Rightarrow> rohc_context" where
  "apply_nack ctx =
     (let ctx = ctx\<lparr>ctx_nack_count := ctx_nack_count ctx + 1, ctx_dynamic_acked := False\<rparr> in
      if ctx_nack_count ctx > 1
      then ctx\<lparr>ctx_static_acked := False, ctx_rohc_state := NoContext, ctx_tx_count := 0\<rparr>
      else ctx\<lparr>ctx_rohc_state := StaticEstablished, ctx_tx_count := 1\<rparr>)"

definition apply_feedback_to_context :: "rohc_context \<Rightarrow> feedback \<Rightarrow> rohc_context" where
  "apply_feedback_to_context ctx fb =
     (let ctx = (if fb_has_mode fb then ctx\<lparr>ctx_mode := fb_mode fb\<rparr> else ctx) in
      case fb_type fb of
        ACK \<Rightarrow> apply_ack ctx fb
      | STATIC_NACK \<Rightarrow> apply_static_nack ctx
      | NACK \<Rightarrow> apply_nack ctx)"

section \<open>The ring as a bounded log\<close>

text \<open>
  A component that remembers its most recent \<open>cap\<close> events, newest first: what the correlation of
  feedback relies on.
\<close>

fun push_all :: "('s \<Rightarrow> 'x \<Rightarrow> 's res) \<Rightarrow> 's \<Rightarrow> 'x list \<Rightarrow> 's res" where
  "push_all push s [] = Done s"
| "push_all push s (x # xs) = seq_res (push s x) (\<lambda>s. push_all push s xs)"

locale bounded_log =
  fixes ok :: "'s \<Rightarrow> bool" and push :: "'s \<Rightarrow> 'x \<Rightarrow> 's res" and entries :: "'s \<Rightarrow> 'e list"
    and entry_of :: "'s \<Rightarrow> 'x \<Rightarrow> 'e" and cap :: nat
  assumes push_entry: "ok s \<Longrightarrow> \<exists>s'. push s x = Done s' \<and> ok s' \<and> entries s' = take cap (entry_of s x # entries s)"
    and entry_stable: "push s x = Done s' \<Longrightarrow> entry_of s' y = entry_of s y"
    and entries_bound: "ok s \<Longrightarrow> length (entries s) \<le> cap"
begin

lemma push_all_entries:
  "ok s \<Longrightarrow> \<exists>s'. push_all push s xs = Done s' \<and> ok s' \<and>
     entries s' = take cap (rev (map (entry_of s) xs) @ entries s)"
proof (induction xs arbitrary: s)
  case Nil
  then show ?case using entries_bound by simp
next
  case (Cons x xs)
  obtain t where t: "push s x = Done t" "ok t" "entries t = take cap (entry_of s x # entries s)"
    using push_entry [OF Cons.prems] by blast
  obtain u where u: "push_all push t xs = Done u" "ok u"
    "entries u = take cap (rev (map (entry_of t) xs) @ entries t)"
    using Cons.IH [OF t(2)] by blast
  have "entry_of t = entry_of s" using entry_stable [OF t(1)] by blast
  then have "entries u = take cap (rev (map (entry_of s) (x # xs)) @ entries s)"
    using u(3) t(3) by simp
  then show ?case using t(1) u(1,2) by auto
qed

end

definition msn_log :: "rohc_context \<Rightarrow> (u16 \<times> u64) list" where
  "msn_log ctx = map (\<lambda>offset. let index = (unat (ctx_transmitted_msn_head ctx) + 63 - offset) mod 64 in
       (ctx_transmitted_msn_history ctx ! index, ctx_transmitted_context_revision_history ctx ! index))
     [0..<unat (ctx_transmitted_msn_count ctx)]"

lemma unat_byte_of_nat: "n < 256 \<Longrightarrow> unat (of_nat n :: byte) = n"
  by (simp add: unsigned_of_nat take_bit_nat_eq_self)

lemma ring_index:
  fixes h off :: nat
  assumes "h < 64" and "off < 64"
  shows "((h + 1) mod 64 + 63 - off) mod 64 = (if off = 0 then h else (h + 63 - (off - 1)) mod 64)"
    and "0 < off \<Longrightarrow> (h + 63 - (off - 1)) mod 64 \<noteq> h"
proof -
  show "((h + 1) mod 64 + 63 - off) mod 64 = (if off = 0 then h else (h + 63 - (off - 1)) mod 64)"
    using assms by (cases "h = 63") (auto simp: mod_if)
  show "0 < off \<Longrightarrow> (h + 63 - (off - 1)) mod 64 \<noteq> h"
    using assms by (auto simp: mod_if split: if_splits)
qed

lemma context_wf_ring:
  assumes "context_wf ctx"
  shows "unat (ctx_transmitted_msn_head ctx) < 64" "unat (ctx_transmitted_msn_count ctx) \<le> 64"
    "length (ctx_transmitted_msn_history ctx) = 64" "length (ctx_transmitted_context_revision_history ctx) = 64"
  using assms by (auto simp: context_wf_def word_less_nat_alt word_le_nat_alt)

lemma record_transmitted_msn_log:
  assumes "context_wf ctx"
  shows "\<exists>ctx'. record_transmitted_msn ctx msn = Done ctx' \<and> context_wf ctx' \<and>
           msn_log ctx' = take 64 ((msn, ctx_context_revision ctx) # msn_log ctx) \<and>
           ctx_context_revision ctx' = ctx_context_revision ctx"
proof -
  note ring = context_wf_ring [OF assms]
  define h n where "h = unat (ctx_transmitted_msn_head ctx)" and "n = unat (ctx_transmitted_msn_count ctx)"
  have hn: "h < 64" "n \<le> 64" using ring by (simp_all add: h_def n_def)
  obtain ctx' where c: "record_transmitted_msn ctx msn = Done ctx'"
    and c': "ctx' = ctx\<lparr>ctx_transmitted_msn_history := (ctx_transmitted_msn_history ctx)[h := msn],
          ctx_transmitted_context_revision_history :=
            (ctx_transmitted_context_revision_history ctx)[h := ctx_context_revision ctx],
          ctx_transmitted_msn_head := of_nat ((h + 1) mod 64),
          ctx_transmitted_msn_count := (if ctx_transmitted_msn_count ctx < 64
             then ctx_transmitted_msn_count ctx + 1 else ctx_transmitted_msn_count ctx)\<rparr>"
    using ring by (simp add: record_transmitted_msn_def Let_def h_def)
  have head: "unat (ctx_transmitted_msn_head ctx') = (h + 1) mod 64"
    by (simp add: c' unat_byte_of_nat)
  have count: "unat (ctx_transmitted_msn_count ctx') = min 64 (n + 1)"
    using hn unat_add_nowrap [of "ctx_transmitted_msn_count ctx" 1]
    by (auto simp: c' n_def word_less_nat_alt)
  have wf: "context_wf ctx'"
    using assms head count by (auto simp: c' context_wf_def word_less_nat_alt word_le_nat_alt unat_byte_of_nat)
  have "msn_log ctx' = take 64 ((msn, ctx_context_revision ctx) # msn_log ctx)"
  proof (rule nth_equalityI)
    show "length (msn_log ctx') = length (take 64 ((msn, ctx_context_revision ctx) # msn_log ctx))"
      using count by (simp add: msn_log_def n_def)
  next
    fix i assume "i < length (msn_log ctx')"
    then have i: "i < min 64 (n + 1)" by (simp add: msn_log_def count)
    let ?j = "(h + 63 - (i - 1)) mod 64"
    have j: "?j < 64" by simp
    have "msn_log ctx' ! i = (ctx_transmitted_msn_history ctx' ! (((h + 1) mod 64 + 63 - i) mod 64),
        ctx_transmitted_context_revision_history ctx' ! (((h + 1) mod 64 + 63 - i) mod 64))"
      using i by (simp add: msn_log_def count head Let_def del: upt_Suc)
    also have "\<dots> = ((msn, ctx_context_revision ctx) # msn_log ctx) ! i"
    proof (cases "i = 0")
      case True
      then show ?thesis using ring hn ring_index(1) [OF hn(1), of i] i by (simp add: c')
    next
      case False
      then have n: "i - 1 < n" and i64: "i < 64" using i by auto
      note idx = ring_index [OF hn(1) i64]
      have "?j \<noteq> h" using idx(2) False by simp
      then show ?thesis
        using False idx(1) n j ring nth_list_update_neq [of h ?j]
        by (simp add: c' msn_log_def Let_def h_def [symmetric] n_def [symmetric] nth_Cons')
    qed
    finally show "msn_log ctx' ! i = take 64 ((msn, ctx_context_revision ctx) # msn_log ctx) ! i"
      using i by (subst nth_take) auto
  qed
  then show ?thesis using c wf by (intro exI [of _ ctx']) (simp add: c')
qed

interpretation transmissions: bounded_log context_wf record_transmitted_msn msn_log
  "\<lambda>ctx msn. (msn, ctx_context_revision ctx)" 64
proof
  show "context_wf s \<Longrightarrow> \<exists>s'. record_transmitted_msn s x = Done s' \<and> context_wf s' \<and>
      msn_log s' = take 64 ((x, ctx_context_revision s) # msn_log s)" for s x
    using record_transmitted_msn_log by blast
  show "record_transmitted_msn s x = Done s' \<Longrightarrow> (y, ctx_context_revision s') = (y, ctx_context_revision s)" for s x s' and y :: u16
    by (auto simp: record_transmitted_msn_def Let_def split: if_splits)
  show "context_wf s \<Longrightarrow> length (msn_log s) \<le> 64" for s
    using context_wf_ring(2) by (simp add: msn_log_def)
qed

definition same_lsb :: "nat \<Rightarrow> u16 \<Rightarrow> u16 \<Rightarrow> bool" where
  "same_lsb b x y \<longleftrightarrow> take_bit b x = take_bit b y"

lemma msn_search_find:
  assumes "context_wf ctx" and "offset \<le> unat (ctx_transmitted_msn_count ctx)"
  shows "msn_search ctx (mask b) ack offset =
         Done (map_option (\<lambda>(m, r). (r, m)) (find (\<lambda>(m, r). same_lsb b m ack) (drop offset (msn_log ctx))))"
  using assms
proof (induction ctx "mask b :: u16" ack offset rule: msn_search.induct)
  case (1 ctx ack offset)
  note ring = context_wf_ring [OF "1.prems"(1)]
  show ?case
  proof (cases "offset < unat (ctx_transmitted_msn_count ctx)")
    case False
    then show ?thesis by (subst msn_search.simps) (simp add: msn_log_def)
  next
    case True
    let ?i = "(unat (ctx_transmitted_msn_head ctx) + 64 - 1 - offset) mod 64"
    have "drop offset (msn_log ctx) = msn_log ctx ! offset # drop (Suc offset) (msn_log ctx)"
      using True by (intro Cons_nth_drop_Suc [symmetric]) (simp add: msn_log_def)
    moreover have "msn_log ctx ! offset =
        (ctx_transmitted_msn_history ctx ! ?i, ctx_transmitted_context_revision_history ctx ! ?i)"
      using True by (simp add: msn_log_def Let_def add.commute del: upt_Suc)
    ultimately show ?thesis
      using 1(1) [OF True refl] True ring "1.prems"
      by (subst msn_search.simps) (simp add: Let_def same_lsb_def take_bit_eq_mask)
  qed
qed

lemma transmitted_msn_revision_find:
  assumes "context_wf ctx" and "0 < bits" and "bits \<le> 16"
  shows "transmitted_msn_revision ctx ack bits =
         Done (map_option (\<lambda>(m, r). (r, m)) (find (\<lambda>(m, r). same_lsb (unat bits) m ack) (msn_log ctx)))"
proof (cases "ctx_transmitted_msn_count ctx = 0")
  case True
  then show ?thesis by (simp add: transmitted_msn_revision_def msn_log_def)
next
  case False
  have "(if bits = 16 then 0xFFFF else push_bit (unat bits) 1 - 1) = (mask (unat bits) :: u16)"
    by (auto simp: mask_eq_exp_minus_1)
  then show ?thesis
    using False assms msn_search_find [OF assms(1), of 0 "unat bits" ack]
    by (auto simp: transmitted_msn_revision_def Let_def)
qed

text \<open>
  C30. Feedback is correlated with the newest matching transmission. After any sequence of
  transmissions from a well-formed context, the ring buffer holds exactly the last 64 of them, and
  looking up an acknowledgment of 1 to 16 bits returns the revision and sequence number of the most
  recent remembered transmission whose low-order bits agree, or nothing when none agrees; no access
  leaves the ring.
\<close>

theorem feedback_correlation:
  assumes "context_wf ctx" and "0 < bits" and "bits \<le> 16"
  shows "\<exists>ctx'. push_all record_transmitted_msn ctx msns = Done ctx' \<and> context_wf ctx' \<and>
           transmitted_msn_revision ctx' ack bits = Done (map_option (\<lambda>(m, r). (r, m))
             (find (\<lambda>(m, r). take_bit (unat bits) m = take_bit (unat bits) ack)
               (take 64 (rev (map (\<lambda>m. (m, ctx_context_revision ctx)) msns) @ msn_log ctx))))"
proof -
  obtain ctx' where "push_all record_transmitted_msn ctx msns = Done ctx'" "context_wf ctx'"
    "msn_log ctx' = take 64 (rev (map (\<lambda>m. (m, ctx_context_revision ctx)) msns) @ msn_log ctx)"
    using transmissions.push_all_entries [OF assms(1)] by blast
  then show ?thesis
    using transmitted_msn_revision_find [OF _ assms(2,3)] by (simp add: same_lsb_def [abs_def])
qed

theorem feedback_correlation_witness:
  "\<exists>ctx'. push_all record_transmitted_msn context_zero [0x105, 0x205, 0x306] = Done ctx' \<and>
     transmitted_msn_revision ctx' 5 8 = Done (Some (0, 0x205))"
proof -
  have "msn_log context_zero = []" "ctx_context_revision context_zero = 0"
    by (simp_all add: msn_log_def context_zero_def)
  then show ?thesis
    using feedback_correlation [OF context_zero_wf, of 8 "[0x105, 0x205, 0x306]" 5]
    by (auto simp del: push_all.simps)
qed

section \<open>The state machine of feedback\<close>

text \<open>
  A context under feedback alone moves along \<open>feedback_step\<close>. What the acknowledgment flags claim is
  kept below what the state has established.
\<close>

inductive feedback_step :: "rohc_context \<Rightarrow> rohc_context \<Rightarrow> bool" where
  step: "feedback_step ctx (apply_feedback_to_context ctx fb)"

inductive feedback_reachable :: "rohc_context \<Rightarrow> rohc_context \<Rightarrow> bool" where
  start: "feedback_reachable ctx ctx"
| more: "feedback_reachable ctx c1 \<Longrightarrow> feedback_step c1 c2 \<Longrightarrow> feedback_reachable ctx c2"

inductive_cases feedback_stepE: "feedback_step c1 c2"

definition acks_sound :: "rohc_context \<Rightarrow> bool" where
  "acks_sound ctx \<longleftrightarrow> (ctx_static_acked ctx \<longrightarrow> ctx_rohc_state ctx \<noteq> NoContext) \<and>
     (ctx_dynamic_acked ctx \<longrightarrow> ctx_static_acked ctx \<and> ctx_rohc_state ctx = DynamicEstablished)"

lemma with_mode:
  fixes ctx :: rohc_context and b :: bool and m :: mode
  defines "c \<equiv> if b then ctx\<lparr>ctx_mode := m\<rparr> else ctx"
  shows "ctx_rohc_state c = ctx_rohc_state ctx" "ctx_static_acked c = ctx_static_acked ctx"
    "ctx_dynamic_acked c = ctx_dynamic_acked ctx" "ctx_nack_count c = ctx_nack_count ctx"
    "ctx_context_revision c = ctx_context_revision ctx"
    "ctx_profile_replacement_pending c = ctx_profile_replacement_pending ctx"
    "context_wf c = context_wf ctx"
  by (simp_all add: c_def context_wf_def)

lemma confirm_revision_sel:
  "ctx_rohc_state (confirm_revision ctx fb) = ctx_rohc_state ctx"
  "ctx_static_acked (confirm_revision ctx fb) = ctx_static_acked ctx"
  "ctx_dynamic_acked (confirm_revision ctx fb) = ctx_dynamic_acked ctx"
  "ctx_context_revision (confirm_revision ctx fb) = ctx_context_revision ctx"
  "ctx_profile_replacement_pending (confirm_revision ctx fb) \<longleftrightarrow>
     ctx_profile_replacement_pending ctx \<and> \<not> current_revision_ack ctx fb"
  "context_wf (confirm_revision ctx fb) = context_wf ctx"
  by (simp_all add: confirm_revision_def context_wf_def)

lemma ack_state_sel:
  "ctx_rohc_state (ack_state may ctx) = ctx_rohc_state ctx"
  "ctx_context_revision (ack_state may ctx) = ctx_context_revision ctx"
  "ctx_profile_replacement_pending (ack_state may ctx) = ctx_profile_replacement_pending ctx"
  "ctx_static_acked (ack_state may ctx) \<longleftrightarrow>
     ctx_static_acked ctx \<or> may \<and> ctx_rohc_state ctx \<in> {StaticEstablished, DynamicEstablished}"
  "ctx_dynamic_acked (ack_state may ctx) \<longleftrightarrow>
     ctx_dynamic_acked ctx \<or> may \<and> ctx_rohc_state ctx = DynamicEstablished"
  "context_wf (ack_state may ctx) = context_wf ctx"
  by (cases may; cases "ctx_rohc_state ctx"; simp add: ack_state_def context_wf_def)+

lemma apply_ack_sel:
  "ctx_rohc_state (apply_ack ctx fb) = ctx_rohc_state ctx"
  "ctx_context_revision (apply_ack ctx fb) = ctx_context_revision ctx"
  "ctx_profile_replacement_pending (apply_ack ctx fb) \<longleftrightarrow>
     ctx_profile_replacement_pending ctx \<and> \<not> current_revision_ack ctx fb"
  "ctx_static_acked (apply_ack ctx fb) \<longleftrightarrow> ctx_static_acked ctx \<or>
     (\<not> ctx_profile_replacement_pending ctx \<or> current_revision_ack ctx fb) \<and>
     ctx_rohc_state ctx \<in> {StaticEstablished, DynamicEstablished}"
  "ctx_dynamic_acked (apply_ack ctx fb) \<longleftrightarrow> ctx_dynamic_acked ctx \<or>
     (\<not> ctx_profile_replacement_pending ctx \<or> current_revision_ack ctx fb) \<and>
     ctx_rohc_state ctx = DynamicEstablished"
  "context_wf (apply_ack ctx fb) = context_wf ctx"
proof -
  have "current_revision_ack (ctx\<lparr>ctx_nack_count := 0\<rparr>) fb = current_revision_ack ctx fb"
    "context_wf (ctx\<lparr>ctx_nack_count := 0\<rparr>) = context_wf ctx"
    by (simp_all add: current_revision_ack_def context_wf_def)
  note this [simp]
  show "ctx_rohc_state (apply_ack ctx fb) = ctx_rohc_state ctx"
    and "ctx_context_revision (apply_ack ctx fb) = ctx_context_revision ctx"
    and "ctx_profile_replacement_pending (apply_ack ctx fb) \<longleftrightarrow>
     ctx_profile_replacement_pending ctx \<and> \<not> current_revision_ack ctx fb"
    and "context_wf (apply_ack ctx fb) = context_wf ctx"
    by (simp_all add: apply_ack_def Let_def ack_state_sel confirm_revision_sel)
  show "ctx_static_acked (apply_ack ctx fb) \<longleftrightarrow> ctx_static_acked ctx \<or>
     (\<not> ctx_profile_replacement_pending ctx \<or> current_revision_ack ctx fb) \<and>
     ctx_rohc_state ctx \<in> {StaticEstablished, DynamicEstablished}"
    and "ctx_dynamic_acked (apply_ack ctx fb) \<longleftrightarrow> ctx_dynamic_acked ctx \<or>
     (\<not> ctx_profile_replacement_pending ctx \<or> current_revision_ack ctx fb) \<and>
     ctx_rohc_state ctx = DynamicEstablished"
    by (auto simp add: apply_ack_def Let_def ack_state_sel confirm_revision_sel)
qed

lemma apply_static_nack_sel:
  "ctx_rohc_state (apply_static_nack ctx) = NoContext" "\<not> ctx_static_acked (apply_static_nack ctx)"
  "\<not> ctx_dynamic_acked (apply_static_nack ctx)" "ctx_tx_count (apply_static_nack ctx) = 0"
  "ctx_context_revision (apply_static_nack ctx) = ctx_context_revision ctx"
  "context_wf (apply_static_nack ctx) = context_wf ctx"
  by (simp_all add: apply_static_nack_def context_wf_def)

lemma apply_nack_sel:
  "ctx_nack_count (apply_nack ctx) = ctx_nack_count ctx + 1"
  "ctx_rohc_state (apply_nack ctx) = (if ctx_nack_count ctx + 1 > 1 then NoContext else StaticEstablished)"
  "ctx_static_acked (apply_nack ctx) \<longleftrightarrow> ctx_static_acked ctx \<and> \<not> ctx_nack_count ctx + 1 > 1"
  "\<not> ctx_dynamic_acked (apply_nack ctx)"
  "ctx_context_revision (apply_nack ctx) = ctx_context_revision ctx"
  "context_wf (apply_nack ctx) = context_wf ctx"
  by (cases "ctx_nack_count ctx + 1 > 1"; simp add: apply_nack_def context_wf_def)+

lemmas feedback_sel = apply_ack_sel apply_static_nack_sel apply_nack_sel with_mode

lemma apply_feedback_acks_sound: "acks_sound ctx \<Longrightarrow> acks_sound (apply_feedback_to_context ctx fb)"
  by (cases "fb_type fb") (auto simp: acks_sound_def apply_feedback_to_context_def Let_def feedback_sel)

lemma apply_feedback_keeps:
  "context_wf (apply_feedback_to_context ctx fb) = context_wf ctx"
  "ctx_context_revision (apply_feedback_to_context ctx fb) = ctx_context_revision ctx"
  by (cases "fb_type fb"; simp add: apply_feedback_to_context_def Let_def feedback_sel)+

text \<open>
  C31. Feedback never makes the context claim more than is established. From a context whose
  acknowledgment flags are sound, every sequence of feedback leaves them sound: a statically
  acknowledged context is not in state \<open>NoContext\<close>, and a dynamically acknowledged one is statically
  acknowledged and dynamically established; the well-formedness of the context is kept, and its
  revision never changes.
\<close>

theorem feedback_reachable_sound:
  assumes "feedback_reachable ctx c" and "acks_sound ctx" and "context_wf ctx"
  shows "acks_sound c \<and> context_wf c \<and> ctx_context_revision c = ctx_context_revision ctx"
  using assms
proof (induction rule: feedback_reachable.induct)
  case (more ctx c1 c2)
  then show ?case
    by (auto elim!: feedback_stepE simp: apply_feedback_acks_sound apply_feedback_keeps)
qed simp

theorem feedback_reachable_sound_witness:
  "acks_sound (apply_feedback_to_context (context_zero\<lparr>ctx_rohc_state := DynamicEstablished\<rparr>)
     (feedback_init\<lparr>fb_type := ACK\<rparr>))"
proof -
  have "acks_sound (context_zero\<lparr>ctx_rohc_state := DynamicEstablished\<rparr>)"
    "context_wf (context_zero\<lparr>ctx_rohc_state := DynamicEstablished\<rparr>)"
    using context_zero_wf by (simp_all add: acks_sound_def context_zero_def context_wf_def)
  from feedback_reachable_sound [OF feedback_reachable.more [OF feedback_reachable.start feedback_step.step] this]
  show ?thesis by blast
qed

text \<open>
  What each kind of feedback does. A STATIC-NACK always takes the context back to \<open>NoContext\<close>
  and clears both acknowledgments. An ACK never changes the state, and while a profile replacement
  is pending it neither releases the replacement gate nor acknowledges anything unless it is
  correlated with the current context revision.
\<close>

theorem feedback_effect:
  "(fb_type fb = STATIC_NACK \<longrightarrow>
     ctx_rohc_state (apply_feedback_to_context ctx fb) = NoContext \<and>
     \<not> ctx_static_acked (apply_feedback_to_context ctx fb) \<and>
     \<not> ctx_dynamic_acked (apply_feedback_to_context ctx fb) \<and> ctx_tx_count (apply_feedback_to_context ctx fb) = 0) \<and>
   (fb_type fb = ACK \<longrightarrow> ctx_rohc_state (apply_feedback_to_context ctx fb) = ctx_rohc_state ctx) \<and>
   (fb_type fb = ACK \<and> ctx_profile_replacement_pending ctx \<and>
    \<not> (fb_acknowledgment_valid fb \<and> fb_context_revision_valid fb \<and>
       fb_acknowledged_context_revision fb = ctx_context_revision ctx) \<longrightarrow>
     ctx_profile_replacement_pending (apply_feedback_to_context ctx fb) \<and>
     ctx_static_acked (apply_feedback_to_context ctx fb) = ctx_static_acked ctx \<and>
     ctx_dynamic_acked (apply_feedback_to_context ctx fb) = ctx_dynamic_acked ctx)"
  by (auto simp: apply_feedback_to_context_def Let_def feedback_sel current_revision_ack_def)

theorem feedback_effect_witness:
  "ctx_profile_replacement_pending (apply_feedback_to_context
     (context_zero\<lparr>ctx_profile_replacement_pending := True\<rparr>) (feedback_init\<lparr>fb_type := ACK\<rparr>))"
  using feedback_effect [of "feedback_init\<lparr>fb_type := ACK\<rparr>" "context_zero\<lparr>ctx_profile_replacement_pending := True\<rparr>"]
  by (simp add: feedback_init_def)

lemma nacks_count:
  assumes "fb_type fb = NACK"
  shows "ctx_nack_count (((\<lambda>c. apply_feedback_to_context c fb) ^^ n) ctx) = ctx_nack_count ctx + of_nat n"
  using assms
  by (induction n) (simp_all add: apply_feedback_to_context_def Let_def feedback_sel algebra_simps)

text \<open>
  C32. The NACK counter wraps. Starting from a counter of zero, the state after \<open>n > 0\<close> consecutive
  NACKs is \<open>NoContext\<close>, except that the first NACK and every NACK whose number is 0 or 1 modulo 256
  puts the context into \<open>StaticEstablished\<close>, whatever its state was: the 8-bit counter overflows at the
  256th NACK, which takes a context from \<open>NoContext\<close> up to \<open>StaticEstablished\<close>.
\<close>

theorem nack_counter_wraps:
  assumes "fb_type fb = NACK" and "ctx_nack_count ctx = 0" and "0 < n"
  shows "ctx_rohc_state (((\<lambda>c. apply_feedback_to_context c fb) ^^ n) ctx)
           = (if n mod 256 \<le> 1 then StaticEstablished else NoContext)"
proof -
  obtain m where n: "n = Suc m" using assms(3) by (cases n) auto
  let ?c = "((\<lambda>c. apply_feedback_to_context c fb) ^^ m) ctx"
  have "ctx_nack_count ?c + 1 = of_nat n"
    using nacks_count [OF assms(1), of m ctx] assms(2) n by simp
  moreover have "unat (of_nat n :: byte) = n mod 256"
    by (simp add: unsigned_of_nat take_bit_eq_mod)
  ultimately have "1 < ctx_nack_count ?c + 1 \<longleftrightarrow> \<not> n mod 256 \<le> 1"
    by (simp add: word_less_nat_alt not_le)
  then show ?thesis
    using assms(1) unfolding n by (simp add: apply_feedback_to_context_def Let_def feedback_sel)
qed

theorem nack_counter_wraps_witness:
  "ctx_rohc_state (((\<lambda>c. apply_feedback_to_context c feedback_init) ^^ 255) context_zero) = NoContext \<and>
   ctx_rohc_state (((\<lambda>c. apply_feedback_to_context c feedback_init) ^^ 256) context_zero) = StaticEstablished"
proof -
  have "fb_type feedback_init = NACK" "ctx_nack_count context_zero = 0"
    by (simp_all add: feedback_init_def context_zero_def)
  with nack_counter_wraps [of feedback_init context_zero 255] nack_counter_wraps [of feedback_init context_zero 256]
  show ?thesis by simp
qed

end
