(* ===== verification/FeedbackWire.thy ===== *)
theory FeedbackWire
  imports Feedback
begin

text \<open>
  The wire formats of feedback, \<open>core/feedback.hpp\<close>: FEEDBACK-2 of version 1 and the feedback packet
  with options are written by the model of the writers and read back by the model of the readers,
  and the readers are memory-safe on every input.
\<close>

section \<open>FEEDBACK-2, version 1\<close>

definition fb2_ack :: "feedback \<Rightarrow> u16" where
  "fb2_ack fb = (if fb_acknowledgment_valid fb then fb_acknowledgment_number fb else 0)"

definition fb2_head :: "feedback \<Rightarrow> bytes" where
  "fb2_head fb = (if fb_cid fb \<noteq> 0 then [0xE0 OR ucast (fb_cid fb)] else []) @
     [push_bit 6 (feedback_ack_type (fb_type fb)) OR ucast (drop_bit 8 (fb2_ack fb) AND 0x3F),
      ucast (fb2_ack fb AND 0xFF)]"

definition fb2_tail :: "feedback \<Rightarrow> bytes" where
  "fb2_tail fb = (if fb_acknowledgment_valid fb then [] else [0x30])"

definition fb2_body :: "feedback \<Rightarrow> byte \<Rightarrow> bytes" where
  "fb2_body fb crc = fb2_head fb @ [crc] @ fb2_tail fb"

definition fb2_packet :: "feedback \<Rightarrow> bytes" where
  "fb2_packet fb = (0xF0 OR of_nat (length (fb2_body fb 0))) # fb2_body fb (crc8 (fb2_body fb 0))"

definition fb2_valid :: "feedback \<Rightarrow> bool" where
  "fb2_valid fb \<longleftrightarrow> fb_cid fb \<le> 0x0F \<and> (fb_acknowledgment_valid fb \<longrightarrow> fb_acknowledgment_bits fb = 14)"

lemma length_fb2_body: "length (fb2_body fb c) =
    (if fb_cid fb \<noteq> 0 then 1 else 0) + 3 + (if \<not> fb_acknowledgment_valid fb then 1 else 0)"
  by (simp add: fb2_body_def fb2_head_def fb2_tail_def)

lemma length_fb2_packet: "length (fb2_packet fb) = 1 + length (fb2_body fb 0)"
  by (simp add: fb2_packet_def length_fb2_body)

lemma write_feedback2_v1_eq:
  "write_feedback2_v1 capacity fb =
     (if fb2_valid fb \<and> length (fb2_packet fb) \<le> capacity then Done (fb2_packet fb) else Reject)"
proof (cases "fb2_valid fb \<and> length (fb2_packet fb) \<le> capacity")
  case False
  then show ?thesis
    by (auto simp: write_feedback2_v1_def fb2_valid_def length_fb2_packet length_fb2_body Let_def)
next
  case True
  then show ?thesis
    by (cases "fb_cid fb = 0"; cases "fb_acknowledgment_valid fb")
      (simp_all add: write_feedback2_v1_def fb2_valid_def length_fb2_packet length_fb2_body Let_def
        fb2_packet_def fb2_body_def fb2_head_def fb2_tail_def fb2_ack_def not_less)
qed

definition fb2_decoded :: "feedback \<Rightarrow> feedback" where
  "fb2_decoded fb = feedback_init\<lparr>fb_cid := fb_cid fb, fb_type := fb_type fb,
     fb_acknowledgment_number := fb2_ack fb AND 0x3FFF, fb_acknowledgment_bits := 14,
     fb_acknowledgment_valid := fb_acknowledgment_valid fb, fb_crc_present := True, fb_crc_valid := True\<rparr>"

lemma ack_type_octet:
  "feedback_type_from_ack_type (drop_bit 6 (push_bit 6 (feedback_ack_type t) OR (b AND 0x3F))) = Some t"
  "(push_bit 6 (feedback_ack_type t) OR (b AND 0x3F)) AND 0xF0 \<noteq> (0xE0 :: byte)"
proof -
  have "drop_bit 6 (push_bit 6 (feedback_ack_type t) OR (b AND 0x3F)) = feedback_ack_type t"
    by (cases t) (simp_all add: feedback_ack_type_def byte_bits)
  then show "feedback_type_from_ack_type (drop_bit 6 (push_bit 6 (feedback_ack_type t) OR (b AND 0x3F))) = Some t"
    by (cases t) (simp_all add: feedback_ack_type_def feedback_type_from_ack_type_def)
  show "(push_bit 6 (feedback_ack_type t) OR (b AND 0x3F)) AND 0xF0 \<noteq> (0xE0 :: byte)"
    by (cases t) (simp_all add: feedback_ack_type_def byte_bits)
qed

lemma fb_cid_octet:
  assumes "cid \<le> (0x0F :: u32)"
  shows "(0xE0 OR ucast cid) AND 0xF0 = (0xE0 :: byte)"
    and "ucast ((0xE0 OR ucast cid :: byte) AND 0x0F) = cid"
proof -
  have "cid < 2 ^ 4" using assms by (simp add: word_le_nat_alt word_less_nat_alt)
  then have b: "\<not> bit cid m" if "4 \<le> m" for m using word_less_exp_bit that by blast
  show "(0xE0 OR ucast cid) AND 0xF0 = (0xE0 :: byte)" by (simp add: byte_bits b)
  show "ucast ((0xE0 OR ucast cid :: byte) AND 0x0F) = cid" by (simp add: u32_bits b)
qed

lemma fb2_start:
  fixes n :: nat
  assumes "n < 8"
  shows "is_feedback_packet_start (0xF0 OR of_nat n)" "unat ((0xF0 OR of_nat n :: byte) AND 0x07) = n"
proof -
  have "\<forall>n\<in>{..<8::nat}. is_feedback_packet_start (0xF0 OR of_nat n) \<and> unat ((0xF0 OR of_nat n :: byte) AND 0x07) = n"
    by (simp add: is_feedback_packet_start_def lessThan_nat_numeral lessThan_Suc)
  then show "is_feedback_packet_start (0xF0 OR of_nat n)" "unat ((0xF0 OR of_nat n :: byte) AND 0x07) = n"
    using assms by auto
qed

lemma ack_octets:
  "push_bit 8 (ucast ((push_bit 6 (t :: byte) OR ucast (drop_bit 8 (a :: u16) AND 0x3F)) AND 0x3F))
     OR ucast (ucast (a AND 0xFF) :: byte) = a AND 0x3FFF"
  by (simp add: u16_bits)

lemma ucast_ack_high: "(ucast (drop_bit 8 (a :: u16) AND 0x3F) :: byte) = ucast (drop_bit 8 a) AND 0x3F"
  by (simp add: byte_bits)

lemma feedback2_options_tail:
  "feedback2_options (pre @ fb2_tail fb @ rest) (length pre + length (fb2_tail fb)) (length pre) False
     = Done (Inr (\<not> fb_acknowledgment_valid fb))"
  by (cases "fb_acknowledgment_valid fb")
    (simp_all add: fb2_tail_def feedback2_options.simps [of _ _ "length pre"]
      feedback2_options.simps [of _ _ "Suc (length pre)"] nth_append Let_def)

lemma read_feedback2_body_packet:
  assumes inp: "inp = pre @ [o1, o2, crc] @ fb2_tail g @ rest"
    and o1: "feedback_type_from_ack_type (drop_bit 6 o1) = Some ty"
    and ack: "push_bit 8 (ucast (o1 AND 0x3F)) OR ucast o2 = ack"
    and pre: "0 < length pre" "length pre \<le> 2"
    and crc: "crc = crc8 (drop 1 pre @ [o1, o2, 0] @ fb2_tail g)"
  shows "read_feedback2_body inp True (length pre + 3 + length (fb2_tail g)) fb (length pre) =
     Done (Accepted, fb\<lparr>fb_type := ty, fb_acknowledgment_number := ack, fb_acknowledgment_bits := 14,
       fb_crc_present := True, fb_crc_valid := True, fb_acknowledgment_valid := fb_acknowledgment_valid g\<rparr>,
       length pre + 3 + length (fb2_tail g))"
proof -
  let ?fin = "length pre + 3 + length (fb2_tail g)"
  have opts: "feedback2_options inp ?fin (length pre + 3) False = Done (Inr (\<not> fb_acknowledgment_valid g))"
  proof -
    have "length (pre @ [o1, o2, crc]) = length pre + 3" by simp
    then show ?thesis
      using feedback2_options_tail [of "pre @ [o1, o2, crc]" g rest] by (simp only: inp append_assoc append.simps)
  qed
  have nths: "inp ! length pre = o1" "inp ! (length pre + 1) = o2" "inp ! (length pre + 2) = crc"
    by (simp_all add: inp nth_append)
  have len: "length pre < length inp" "length pre + 1 < length inp" "length pre + 2 < length inp"
    "1 + (?fin - 1) \<le> length inp" by (simp_all add: inp)
  have "take (?fin - 1) (drop 1 inp) = drop 1 pre @ [o1, o2, crc] @ fb2_tail g"
    using pre(1) by (cases pre) (simp_all add: inp numeral_3_eq_3)
  moreover have "(drop 1 pre @ [o1, o2, crc] @ fb2_tail g)[length pre + 2 - 1 := 0] =
      drop 1 pre @ [o1, o2, 0] @ fb2_tail g"
    using pre(1) by (cases pre) (simp_all add: list_update_append eval_nat_numeral)
  ultimately have c: "crc8 ((take (?fin - 1) (drop 1 inp))[length pre + 2 - 1 := 0]) = crc"
    using crc by simp
  have small: "\<not> ?fin - 1 > 260" using pre(2) by (simp add: fb2_tail_def)
  show ?thesis
    unfolding read_feedback2_body_def
    by (simp only: small if_False rd_in [OF len(1)] rd_in [OF len(2)] rd_in [OF len(3)] copy_in_in [OF len(4)] nths o1 ack c opts
        option.case seq_res.simps Let_def sum.case) simp
qed

lemma read_feedback2_v1_packet:
  assumes "fb2_valid fb"
  shows "read_feedback2_v1 (fb2_packet fb @ rest) True = Done (Accepted, fb2_decoded fb, length (fb2_packet fb))"
proof -
  let ?n = "length (fb2_body fb 0)" and ?crc = "crc8 (fb2_body fb 0)"
  define o1 o2 :: byte where "o1 = push_bit 6 (feedback_ack_type (fb_type fb)) OR ucast (drop_bit 8 (fb2_ack fb) AND 0x3F)"
    and "o2 = ucast (fb2_ack fb AND 0xFF)"
  define pre :: bytes where "pre = (0xF0 OR of_nat ?n) # (if fb_cid fb \<noteq> 0 then [0xE0 OR ucast (fb_cid fb)] else [])"
  have n: "?n < 8" "length (fb2_body fb ?crc) = ?n" by (auto simp: length_fb2_body)
  note start = fb2_start [OF n(1)]
  have pkt: "fb2_packet fb @ rest = pre @ [o1, o2, ?crc] @ fb2_tail fb @ rest"
    and crc: "?crc = crc8 (drop 1 pre @ [o1, o2, 0] @ fb2_tail fb)"
    and fin: "length pre + 3 + length (fb2_tail fb) = Suc ?n"
    by (simp_all add: fb2_packet_def fb2_body_def fb2_head_def pre_def o1_def o2_def)
  have o: "feedback_type_from_ack_type (drop_bit 6 o1) = Some (fb_type fb)" "o1 AND 0xF0 \<noteq> 0xE0"
    "push_bit 8 (ucast (o1 AND 0x3F)) OR ucast o2 = fb2_ack fb AND 0x3FFF"
    unfolding o1_def o2_def ucast_ack_high by (rule ack_type_octet ack_octets [unfolded ucast_ack_high])+
  have b: "read_feedback2_body (fb2_packet fb @ rest) True (Suc ?n) f (length pre) = Done (Accepted,
      f\<lparr>fb_type := fb_type fb, fb_acknowledgment_number := fb2_ack fb AND 0x3FFF, fb_acknowledgment_bits := 14,
       fb_crc_present := True, fb_crc_valid := True, fb_acknowledgment_valid := fb_acknowledgment_valid fb\<rparr>, Suc ?n)" for f
    by (rule read_feedback2_body_packet [OF pkt o(1,3) _ _ crc, of f, unfolded fin]) (simp_all add: pre_def)
  have l: "4 \<le> length (fb2_packet fb @ rest)" "Suc ?n \<le> length (fb2_packet fb @ rest)" "?n \<noteq> 0"
    by (simp_all add: length_fb2_packet length_fb2_body)
  have nths: "(fb2_packet fb @ rest) ! 0 = 0xF0 OR of_nat ?n"
    "(fb2_packet fb @ rest) ! 1 = (if fb_cid fb \<noteq> 0 then 0xE0 OR ucast (fb_cid fb) else o1)"
    unfolding pkt by (simp_all add: pre_def)
  have i: "0 < length (fb2_packet fb @ rest)" "1 < length (fb2_packet fb @ rest)" using l(1) by linarith+
  note unf = read_feedback2_v1_def Let_def rd_in [OF i(1)] rd_in [OF i(2)] nths start
  show ?thesis
  proof (cases "fb_cid fb = 0")
    case True
    then have "length pre = 1" by (simp add: pre_def)
    then show ?thesis
      using l o(2) b [of feedback_init] True start(1) unfolding unf
      by (simp add: length_fb2_packet fb2_decoded_def feedback_init_def not_less)
  next
    case False
    then have "length pre = 2" by (simp add: pre_def)
    moreover have "fb_cid fb \<le> 0x0F" using assms by (simp add: fb2_valid_def)
    ultimately show ?thesis
      using l b [of "feedback_init\<lparr>fb_cid := fb_cid fb\<rparr>"] False start(1) fb_cid_octet [of "fb_cid fb"] unfolding unf
      by (simp add: length_fb2_packet fb2_decoded_def feedback_init_def not_less)
  qed
qed

lemma feedback2_options_safe:
  "fin \<le> length inp \<Longrightarrow> \<exists>r. feedback2_options inp fin pos nv = Done r"
proof (induction inp fin pos nv rule: feedback2_options.induct)
  case (1 inp fin pos nv)
  then show ?case
    by (subst feedback2_options.simps) (auto simp: Let_def)
qed

lemma read_feedback2_body_safe:
  assumes "fin \<le> length inp" and "0 < fin"
  shows "\<exists>r. read_feedback2_body inp want fin fb pos = Done r"
proof (cases "fin - pos < 3")
  case True
  then show ?thesis by (simp add: read_feedback2_body_def)
next
  case False
  then have "pos + 2 < length inp" using assms by linarith
  moreover obtain r where "feedback2_options inp fin (pos + 3) False = Done r"
    using feedback2_options_safe [OF assms(1)] by blast
  ultimately show ?thesis
    using False assms by (auto simp: read_feedback2_body_def Let_def split: option.split sum.split)
qed

lemma read_feedback2_v1_safe: "\<exists>r. read_feedback2_v1 inp want = Done r"
  using read_feedback2_body_safe [of _ inp want] by (auto simp: read_feedback2_v1_def Let_def rd_def)

text \<open>
  FEEDBACK-2 of version 1 round-trips. The writer produces a packet exactly when the CID is
  small, an acknowledgment that is marked valid has 14 bits, and the buffer has room. Whatever
  follows it, the reader accepts it with a valid CRC and returns the CID, the type, the validity and
  the 14 low-order bits of the acknowledged sequence number (zero when it is not valid), consuming
  exactly the packet. On every input whatsoever the reader stays inside its buffer and returns one of
  its statuses.
\<close>

theorem feedback2_v1_roundtrip:
  "(write_feedback2_v1 capacity fb \<noteq> Reject \<longleftrightarrow>
      fb2_valid fb \<and> 4 + (if fb_cid fb \<noteq> 0 then 1 else 0) + (if fb_acknowledgment_valid fb then 0 else 1) \<le> capacity) \<and>
   (write_feedback2_v1 capacity fb = Done out \<longrightarrow>
      read_feedback2_v1 (out @ rest) True = Done (Accepted, fb2_decoded fb, length out)) \<and>
   write_feedback2_v1 capacity fb \<noteq> Fault \<and>
   read_feedback2_v1 inp want_consumed \<noteq> Fault \<and> read_feedback2_v1 inp want_consumed \<noteq> Reject"
proof -
  obtain r where "read_feedback2_v1 inp want_consumed = Done r" using read_feedback2_v1_safe by blast
  then show ?thesis
    by (auto simp: write_feedback2_v1_eq read_feedback2_v1_packet length_fb2_packet length_fb2_body)
qed

theorem feedback2_v1_roundtrip_witness:
  "\<exists>out. write_feedback2_v1 16 (feedback_init\<lparr>fb_cid := 3, fb_type := ACK, fb_acknowledgment_number := 0x1234,
       fb_acknowledgment_bits := 14, fb_acknowledgment_valid := True\<rparr>) = Done out \<and>
     read_feedback2_v1 (out @ [0xAA]) True = Done (Accepted,
       feedback_init\<lparr>fb_cid := 3, fb_type := ACK, fb_acknowledgment_number := 0x1234, fb_acknowledgment_bits := 14,
         fb_acknowledgment_valid := True, fb_crc_present := True, fb_crc_valid := True\<rparr>, length out)"
proof -
  let ?fb = "feedback_init\<lparr>fb_cid := 3, fb_type := ACK, fb_acknowledgment_number := 0x1234,
       fb_acknowledgment_bits := 14, fb_acknowledgment_valid := True\<rparr>"
  have "fb2_valid ?fb" "fb_cid ?fb \<noteq> 0" "fb_acknowledgment_valid ?fb" by (simp_all add: fb2_valid_def)
  then obtain out where "write_feedback2_v1 16 ?fb = Done out"
    using feedback2_v1_roundtrip [of 16 ?fb] by (cases "write_feedback2_v1 16 ?fb") simp_all
  moreover have "fb2_decoded ?fb = feedback_init\<lparr>fb_cid := 3, fb_type := ACK, fb_acknowledgment_number := 0x1234,
       fb_acknowledgment_bits := 14, fb_acknowledgment_valid := True, fb_crc_present := True, fb_crc_valid := True\<rparr>"
    by (simp add: fb2_decoded_def fb2_ack_def feedback_init_def)
  ultimately show ?thesis
    using feedback2_v1_roundtrip [of 16 ?fb out "[0xAA]"] by (intro exI [of _ out]) metis
qed

section \<open>Feedback packets with options\<close>

definition opt_wire :: "feedback_option \<Rightarrow> bytes" where
  "opt_wire opt = [fo_type opt, fo_len opt] @ take (unat (fo_len opt)) (fo_value opt)"

definition opt_ok :: "feedback_option \<Rightarrow> bool" where
  \<comment> \<open>what \<open>add_feedback_option\<close> stores: at most four octets, padded with zeros\<close>
  "opt_ok opt \<longleftrightarrow> unat (fo_len opt) \<le> 4 \<and> length (fo_value opt) = 4 \<and>
     fo_value opt = take (unat (fo_len opt)) (fo_value opt) @ replicate (4 - unat (fo_len opt)) 0"

lemma length_opt_wire: "opt_ok opt \<Longrightarrow> length (opt_wire opt) = 2 + unat (fo_len opt)"
  by (simp add: opt_wire_def opt_ok_def)

lemma length_opts_wire:
  "\<forall>opt\<in>set opts. opt_ok opt \<Longrightarrow>
   length (concat (map opt_wire opts)) = sum_list (map (\<lambda>opt. 2 + unat (fo_len opt)) opts)"
  by (induction opts) (simp_all add: length_opt_wire)

lemma put_options_eq:
  "\<forall>opt\<in>set opts. opt_ok opt \<Longrightarrow> length out + length (concat (map opt_wire opts)) \<le> capacity \<Longrightarrow>
   put_options capacity out opts = Done (out @ concat (map opt_wire opts))"
proof (induction opts arbitrary: out)
  case (Cons opt opts)
  then have "unat (fo_len opt) \<le> 4" "length (fo_value opt) = 4" by (simp_all add: opt_ok_def)
  then show ?case
    using Cons.prems Cons.IH [of "out @ opt_wire opt"] by (simp add: opt_wire_def)
qed simp

lemma add_feedback_option_next:
  assumes "fb_options fb = opts @ replicate (4 - length opts) feedback_option_init"
    and "fb_option_count fb = of_nat (length opts)" and "length opts < 4" and "opt_ok opt"
  shows "add_feedback_option fb (fo_type opt) (take (unat (fo_len opt)) (fo_value opt)) =
    Done (fb\<lparr>fb_option_count := of_nat (length (opts @ [opt])),
      fb_options := (opts @ [opt]) @ replicate (4 - length (opts @ [opt])) feedback_option_init\<rparr>)"
proof -
  have n: "unat (fb_option_count fb) = length opts" using assms(2,3) by (simp add: unat_byte_of_nat)
  have l: "length (take (unat (fo_len opt)) (fo_value opt)) = unat (fo_len opt)" "unat (fo_len opt) \<le> 4"
    using assms(4) by (simp_all add: opt_ok_def)
  have o: "\<lparr>fo_type = fo_type opt, fo_len = of_nat (length (take (unat (fo_len opt)) (fo_value opt))),
      fo_value = take (unat (fo_len opt)) (fo_value opt) @ replicate (4 - unat (fo_len opt)) 0\<rparr> = opt"
    using assms(4) l by (simp add: opt_ok_def)
  have "4 - length opts = Suc (4 - Suc (length opts))" using assms(3) by simp
  then have u: "(opts @ replicate (4 - length opts) feedback_option_init)[length opts := opt] =
      (opts @ [opt]) @ replicate (4 - length (opts @ [opt])) feedback_option_init" by simp
  have c: "\<not> fb_option_count fb \<ge> 4" using n assms(3) by (simp add: word_le_nat_alt)
  show ?thesis
    using assms(1,2,3) n l o u c by (simp add: add_feedback_option_def Let_def add.commute)
qed

lemma read_options_wire:
  assumes "\<forall>opt\<in>set opts. opt_ok opt" and "length dn + length opts \<le> 4"
    and "fb_options fb = dn @ replicate (4 - length dn) feedback_option_init"
    and "fb_option_count fb = of_nat (length dn)"
  shows "read_options (pre @ concat (map opt_wire opts) @ rest) (length pre + length (concat (map opt_wire opts))) (length pre) fb
    = Done (fb\<lparr>fb_option_count := of_nat (length (dn @ opts)),
        fb_options := (dn @ opts) @ replicate (4 - length (dn @ opts)) feedback_option_init\<rparr>,
        length pre + length (concat (map opt_wire opts)))"
  using assms
proof (induction opts arbitrary: pre dn fb)
  case Nil
  have "fb\<lparr>fb_option_count := fb_option_count fb, fb_options := fb_options fb\<rparr> = fb" by simp
  with Nil show ?case by (subst read_options.simps) simp
next
  case (Cons opt opts)
  let ?w = "concat (map opt_wire opts)" and ?v = "take (unat (fo_len opt)) (fo_value opt)"
  let ?inp = "pre @ concat (map opt_wire (opt # opts)) @ rest"
  have ok: "opt_ok opt" and lt: "length dn < 4" using Cons.prems by simp_all
  then have v: "length ?v = unat (fo_len opt)" "unat (fo_len opt) \<le> 4" by (simp_all add: opt_ok_def)
  have inp: "?inp = pre @ [fo_type opt, fo_len opt] @ ?v @ ?w @ rest" by (simp add: opt_wire_def)
  have nths: "?inp ! length pre = fo_type opt" "?inp ! (length pre + 1) = fo_len opt"
    "take (unat (fo_len opt)) (drop (length pre + 2) ?inp) = ?v"
    unfolding inp using v by (simp_all add: nth_append)
  have len: "length pre < length ?inp" "length pre + 1 < length ?inp"
    "length pre + 2 + unat (fo_len opt) \<le> length ?inp"
    unfolding inp using v by simp_all
  have fin: "length pre + length (concat (map opt_wire (opt # opts))) = length pre + 2 + unat (fo_len opt) + length ?w"
    using length_opt_wire [OF ok] by simp
  note add = add_feedback_option_next [OF Cons.prems(3,4) lt ok]
  let ?fb = "fb\<lparr>fb_option_count := of_nat (length (dn @ [opt])),
      fb_options := (dn @ [opt]) @ replicate (4 - length (dn @ [opt])) feedback_option_init\<rparr>"
  have IH: "read_options ?inp (length pre + 2 + unat (fo_len opt) + length ?w) (length pre + 2 + unat (fo_len opt)) ?fb =
      Done (?fb\<lparr>fb_option_count := of_nat (length ((dn @ [opt]) @ opts)),
        fb_options := ((dn @ [opt]) @ opts) @ replicate (4 - length ((dn @ [opt]) @ opts)) feedback_option_init\<rparr>,
        length pre + 2 + unat (fo_len opt) + length ?w)"
    using Cons.IH [of "dn @ [opt]" ?fb "pre @ opt_wire opt"] Cons.prems length_opt_wire [OF ok] by simp
  have c: "\<not> fb_option_count fb \<ge> 4" using Cons.prems(4) lt by (simp add: word_le_nat_alt unat_byte_of_nat)
  define inp where "inp = ?inp"
  have "read_options inp (length pre + 2 + unat (fo_len opt) + length ?w) (length pre) fb =
      Done (?fb\<lparr>fb_option_count := of_nat (length ((dn @ [opt]) @ opts)),
        fb_options := ((dn @ [opt]) @ opts) @ replicate (4 - length ((dn @ [opt]) @ opts)) feedback_option_init\<rparr>,
        length pre + 2 + unat (fo_len opt) + length ?w)"
    using nths len IH add c v unfolding inp_def [symmetric]
    by (subst read_options.simps) (simp add: Let_def)
  then show ?case unfolding fin inp_def by simp
qed

definition feedback_canonical :: "feedback \<Rightarrow> bool" where
  \<comment> \<open>a feedback that the packet format can carry: what the default value and \<open>add_feedback_option\<close> build\<close>
  "feedback_canonical fb \<longleftrightarrow> fb_cid fb \<le> 0x0F \<and> (\<not> fb_has_mode fb \<longrightarrow> fb_mode fb = Optimistic) \<and>
     fb_option_count fb \<le> 4 \<and> length (fb_options fb) = 4 \<and> (\<forall>opt\<in>set (active_options fb). opt_ok opt) \<and>
     fb_options fb = active_options fb @ replicate (4 - length (active_options fb)) feedback_option_init \<and>
     fb = feedback_init\<lparr>fb_cid := fb_cid fb, fb_type := fb_type fb, fb_has_mode := fb_has_mode fb,
       fb_mode := fb_mode fb, fb_option_count := fb_option_count fb, fb_options := fb_options fb\<rparr>"

definition code_octet :: "feedback_type \<Rightarrow> bool \<Rightarrow> mode \<Rightarrow> bool \<Rightarrow> byte" where
  "code_octet t has_mode m has_options =
     push_bit 6 (feedback_ack_type t AND 0x03) OR (if has_mode then 0x20 else 0) OR
     (if has_options then 0x10 else 0) OR (if has_mode then mode_code m AND 0x03 else 0)"

lemma code_octet_fields:
  "feedback_type_from_ack_type (drop_bit 6 (code_octet t hm m ho) AND 0x03) = Some t"
  "feedback_has_mode (code_octet t hm m ho) = hm" "feedback_has_options (code_octet t hm m ho) = ho"
  "code_octet t hm m ho AND 0xF0 \<noteq> 0xE0"
  "hm \<Longrightarrow> is_known_mode (code_octet t hm m ho AND 0x03)" "hm \<Longrightarrow> mode_of_code (code_octet t hm m ho AND 0x03) = m"
  by (cases t; cases hm; cases ho; cases m;
      simp add: code_octet_def feedback_ack_type_def feedback_type_from_ack_type_def feedback_has_mode_def
        feedback_has_options_def mode_code_def is_known_mode_def mode_of_code_def)+

definition fb_opts_wire :: "feedback \<Rightarrow> bytes" where
  "fb_opts_wire fb = concat (map opt_wire (active_options fb))"

definition fb_data :: "feedback \<Rightarrow> bytes" where
  "fb_data fb = [code_octet (fb_type fb) (fb_has_mode fb) (fb_mode fb) (active_options fb \<noteq> []), 0] @
     (if active_options fb \<noteq> [] then of_nat (length (fb_opts_wire fb)) # fb_opts_wire fb else [])"

definition fb_body :: "feedback \<Rightarrow> bytes" where
  "fb_body fb = (if fb_cid fb > 0 then [0xE0 OR ucast (fb_cid fb AND 0x0F)] else []) @ fb_data fb"

definition fb_packet :: "feedback \<Rightarrow> bytes" where
  "fb_packet fb = (if length (fb_body fb) > 7 then [0xF0, of_nat (length (fb_body fb))]
     else [0xF0 OR of_nat (length (fb_body fb))]) @ fb_body fb"

lemma canonical_options:
  assumes "feedback_canonical fb"
  shows "length (active_options fb) = unat (fb_option_count fb)" "length (active_options fb) \<le> 4"
    "\<forall>opt\<in>set (active_options fb). opt_ok opt"
    "length (fb_opts_wire fb) = feedback_options_wire_len fb" "length (fb_opts_wire fb) \<le> 24"
    "0 < length (fb_opts_wire fb) \<longleftrightarrow> active_options fb \<noteq> []"
proof -
  show l: "length (active_options fb) = unat (fb_option_count fb)" "length (active_options fb) \<le> 4"
    and ok: "\<forall>opt\<in>set (active_options fb). opt_ok opt"
    using assms by (auto simp: feedback_canonical_def active_options_def word_le_nat_alt)
  show w: "length (fb_opts_wire fb) = feedback_options_wire_len fb"
    using length_opts_wire [OF ok] by (simp add: fb_opts_wire_def feedback_options_wire_len_def)
  have "sum_list (map (\<lambda>opt. 2 + unat (fo_len opt)) opts) \<le> 6 * length opts" if "\<forall>opt\<in>set opts. opt_ok opt" for opts
    using that by (induction opts) (auto simp: opt_ok_def)
  then show "length (fb_opts_wire fb) \<le> 24"
    using w ok l(2) by (fastforce simp: feedback_options_wire_len_def)
  show "0 < length (fb_opts_wire fb) \<longleftrightarrow> active_options fb \<noteq> []"
    unfolding w feedback_options_wire_len_def by (cases "active_options fb") simp_all
qed

lemma length_fb_body:
  assumes "feedback_canonical fb"
  shows "length (fb_body fb) = (if fb_cid fb > 0 then 1 else 0) + 2 +
      (if feedback_options_wire_len fb > 0 then 1 + feedback_options_wire_len fb else 0)"
    and "length (fb_body fb) \<le> 28"
  using canonical_options(4-6) [OF assms] by (auto simp: fb_body_def fb_data_def)

lemma write_feedback_packet_eq:
  assumes "feedback_canonical fb"
  shows "write_feedback_packet capacity fb = (if length (fb_packet fb) \<le> capacity then Done (fb_packet fb) else Reject)"
proof -
  note opts = canonical_options [OF assms] and body = length_fb_body [OF assms]
  have cid: "\<not> fb_cid fb > 0x0F" and len: "\<not> length (fb_options fb) < unat (fb_option_count fb)"
    using assms opts(1,2) unfolding feedback_canonical_def not_less by simp_all
  have ol: "feedback_options_wire_len fb \<le> 24" using opts(4,5) by simp
  have ne: "feedback_options_wire_len fb > 0 \<longleftrightarrow> active_options fb \<noteq> []" using opts(4,6) by simp
  have pk: "length (fb_packet fb) = 1 + (if length (fb_body fb) > 7 then 1 else 0) + length (fb_body fb)"
    by (simp add: fb_packet_def)
  show ?thesis
  proof (cases "length (fb_packet fb) \<le> capacity")
    case False
    then show ?thesis using cid len pk body ol by (simp add: write_feedback_packet_def Let_def)
  next
    case True
    have puts: "put_options capacity out (active_options fb) = Done (out @ fb_opts_wire fb)"
      if "length out + length (fb_opts_wire fb) \<le> capacity" for out
      using put_options_eq [OF opts(3)] that by (simp add: fb_opts_wire_def)
    show ?thesis
      using True cid len pk body ol ne puts opts(4)
      by (cases "active_options fb = []"; cases "fb_cid fb > 0"; cases "length (fb_body fb) > 7")
        (simp_all add: write_feedback_packet_def Let_def fb_packet_def fb_body_def fb_data_def code_octet_def)
  qed
qed

lemma read_feedback_data_wire:
  assumes can: "feedback_canonical fb" and f: "f = feedback_init\<lparr>fb_cid := fb_cid fb\<rparr>"
  shows "read_feedback_data (pre @ fb_data fb @ rest) True (length pre + length (fb_data fb)) f (length pre)
    = Done (fb, length pre + length (fb_data fb))"
proof -
  let ?c = "code_octet (fb_type fb) (fb_has_mode fb) (fb_mode fb) (active_options fb \<noteq> [])"
  let ?inp = "pre @ fb_data fb @ rest" and ?stop = "length pre + length (fb_data fb)"
  let ?opts = "active_options fb"
  let ?g = "f\<lparr>fb_type := fb_type fb, fb_has_mode := fb_has_mode fb, fb_mode := fb_mode fb\<rparr>"
  note opts = canonical_options [OF can]
  have mode: "\<not> fb_has_mode fb \<Longrightarrow> fb_mode fb = Optimistic"
    using can by (simp add: feedback_canonical_def)
  have g: "?g = (if fb_has_mode fb then f\<lparr>fb_type := fb_type fb, fb_has_mode := True, fb_mode := fb_mode fb\<rparr>
      else f\<lparr>fb_type := fb_type fb\<rparr>)"
    using mode by (simp add: f feedback_init_def)
  have all: "fb = ?g\<lparr>fb_option_count := of_nat (length ?opts),
      fb_options := ?opts @ replicate (4 - length ?opts) feedback_option_init\<rparr>"
  proof -
    have "fb = feedback_init\<lparr>fb_cid := fb_cid fb, fb_type := fb_type fb, fb_has_mode := fb_has_mode fb,
       fb_mode := fb_mode fb, fb_option_count := fb_option_count fb, fb_options := fb_options fb\<rparr>"
      "fb_options fb = ?opts @ replicate (4 - length ?opts) feedback_option_init"
      using can unfolding feedback_canonical_def by blast+
    then show ?thesis using opts(1) by (simp add: f)
  qed
  have len: "length pre < length ?inp" "\<not> szsub ?stop (length pre) < 2" by (simp_all add: fb_data_def)
  have c: "?inp ! length pre = ?c" by (simp add: fb_data_def)
  note unf = read_feedback_data_def rd_in [OF len(1)] c code_octet_fields(1-3) Let_def option.case
  show ?thesis
  proof (cases "?opts = []")
    case True
    then have "?stop = length pre + 2" "?g = fb" using all by (simp_all add: fb_data_def f feedback_init_def)
    then show ?thesis
      using len(2) True g unfolding unf by (cases "fb_has_mode fb") (simp_all add: code_octet_fields(5,6))
  next
    case False
    have i: "length pre + 2 < length ?inp" and fin: "?stop = length pre + 3 + length (fb_opts_wire fb)"
      and n: "?inp ! (length pre + 2) = of_nat (length (fb_opts_wire fb))"
      and inp: "?inp = (pre @ [?c, 0, of_nat (length (fb_opts_wire fb))]) @ fb_opts_wire fb @ rest"
      using False by (simp_all add: fb_data_def nth_append)
    have u: "unat (of_nat (length (fb_opts_wire fb)) :: byte) = length (fb_opts_wire fb)"
      using opts(5) by (simp add: unat_byte_of_nat)
    have sz: "szsub ?stop (length pre + 2 + 1) = length (fb_opts_wire fb)" "\<not> ?stop \<le> length pre + 2"
      by (simp_all add: fin)
    have ro: "read_options ?inp ?stop (length pre + 2 + 1) ?g = Done (fb, ?stop)"
      using read_options_wire [of ?opts "[]" ?g "pre @ [?c, 0, of_nat (length (fb_opts_wire fb))]" rest] opts(2,3) fin inp all
      by (simp add: fb_opts_wire_def [symmetric] f feedback_init_def eval_nat_numeral)
    have sel: "(if fb_has_mode fb then f\<lparr>fb_type := fb_type fb, fb_has_mode := True, fb_mode := fb_mode fb\<rparr>
      else f\<lparr>fb_type := fb_type fb\<rparr>) = ?g" "fb_has_mode fb \<longrightarrow> is_known_mode (?c AND 0x03)"
      using g by (simp_all add: code_octet_fields(5))
    show ?thesis
    proof (cases "fb_has_mode fb")
      case True
      then show ?thesis
        using len(2) False ro sz sel unfolding unf rd_in [OF i] n u by (simp add: code_octet_fields(6) del: szsub_le)
    next
      case False
      then show ?thesis
        using len(2) \<open>?opts \<noteq> []\<close> ro sz sel unfolding unf rd_in [OF i] n u by (simp del: szsub_le)
    qed
  qed
qed

lemma read_feedback_sized_wire:
  assumes can: "feedback_canonical fb"
  shows "read_feedback_sized (pre @ fb_body fb @ rest) True (length pre) (length (fb_body fb))
    = Done (fb, length pre + length (fb_body fb))"
proof -
  let ?inp = "pre @ fb_body fb @ rest"
  have cid: "fb_cid fb \<le> 0x0F" using can by (simp add: feedback_canonical_def)
  then have and15: "fb_cid fb AND 0x0F = fb_cid fb"
    using fb_cid_octet(2) [of "fb_cid fb"] by (simp add: u32_bits)
  have ne: "length (fb_body fb) \<noteq> 0" "length pre < length pre + length (fb_body fb)"
    "length pre < length ?inp" "\<not> szsub (length ?inp) (length pre) < length (fb_body fb)"
    by (simp_all add: fb_body_def fb_data_def)
  note unf = read_feedback_sized_def Let_def rd_in [OF ne(3)]
  show ?thesis
  proof (cases "fb_cid fb > 0")
    case True
    then have b: "fb_body fb = (0xE0 OR ucast (fb_cid fb)) # fb_data fb" by (simp add: fb_body_def and15)
    have "read_feedback_data ?inp True (length pre + length (fb_body fb)) (feedback_init\<lparr>fb_cid := fb_cid fb\<rparr>) (length pre + 1)
      = Done (fb, length pre + length (fb_body fb))"
      using read_feedback_data_wire [OF can refl, of "pre @ [0xE0 OR ucast (fb_cid fb)]" rest] by (simp add: b)
    moreover have "?inp ! length pre = 0xE0 OR ucast (fb_cid fb)" by (simp add: b)
    ultimately show ?thesis
      using True ne fb_cid_octet [OF cid] unfolding unf by simp
  next
    case False
    then have z: "fb_cid fb = 0" and b: "fb_body fb = fb_data fb"
      by (simp_all add: fb_body_def word_gt_0)
    have c: "?inp ! length pre AND 0xF0 \<noteq> 0xE0" by (simp add: b fb_data_def code_octet_fields(4))
    have "feedback_init\<lparr>fb_cid := fb_cid fb\<rparr> = feedback_init" by (simp add: z feedback_init_def)
    then show ?thesis
      using ne c read_feedback_data_wire [OF can refl, of pre rest] unfolding unf b by simp
  qed
qed

lemma read_feedback_packet_wire:
  assumes can: "feedback_canonical fb"
  shows "read_feedback_packet (fb_packet fb @ rest) True = Done (fb, length (fb_packet fb))"
proof -
  note body = length_fb_body(2) [OF can]
  have two: "2 \<le> length (fb_body fb)" by (simp add: fb_body_def fb_data_def)
  show ?thesis
  proof (cases "length (fb_body fb) > 7")
    case True
    then have p: "fb_packet fb @ rest = [0xF0, of_nat (length (fb_body fb))] @ fb_body fb @ rest"
      by (simp add: fb_packet_def)
    show ?thesis
      using read_feedback_sized_wire [OF can, of "[0xF0, of_nat (length (fb_body fb))]" rest] body True
      unfolding p read_feedback_packet_def
      by (simp add: is_feedback_packet_start_def unat_byte_of_nat fb_packet_def Let_def numeral_2_eq_2)
  next
    case False
    then have p: "fb_packet fb @ rest = [0xF0 OR of_nat (length (fb_body fb))] @ fb_body fb @ rest"
      by (simp add: fb_packet_def)
    show ?thesis
      using read_feedback_sized_wire [OF can, of "[0xF0 OR of_nat (length (fb_body fb))]" rest] two False
        fb2_start [of "length (fb_body fb)"]
      unfolding p read_feedback_packet_def by (cases "fb_body fb") (simp_all add: fb_packet_def Let_def)
  qed
qed

lemma add_feedback_option_cases:
  assumes "length (fb_options fb) = 4"
  shows "add_feedback_option fb t v = Reject \<or>
    (\<exists>fb'. add_feedback_option fb t v = Done fb' \<and> length (fb_options fb') = 4)"
  using assms by (auto simp: add_feedback_option_def Let_def word_le_nat_alt)

definition ends_at :: "nat \<Rightarrow> ('a \<times> nat) res \<Rightarrow> bool" where
  "ends_at e r \<longleftrightarrow> (case r of Done (x, n) \<Rightarrow> n = e | Reject \<Rightarrow> True | Fault \<Rightarrow> False)"

lemma ends_at_simps [simp]:
  "ends_at e Reject" "ends_at e (Done (x, n)) \<longleftrightarrow> n = e" "\<not> ends_at e Fault"
  by (simp_all add: ends_at_def)

lemma ends_at_cases: "ends_at e r \<longleftrightarrow> r = Reject \<or> (\<exists>x. r = Done (x, e))"
  by (auto simp: ends_at_def split: res.splits)

lemma read_options_safe:
  "body_end \<le> length inp \<Longrightarrow> pos \<le> body_end \<Longrightarrow> length (fb_options fb) = 4 \<Longrightarrow>
   ends_at body_end (read_options inp body_end pos fb)"
proof (induction "body_end - pos" arbitrary: pos fb rule: less_induct)
  case (less pos fb)
  show ?case
  proof (cases "pos < body_end \<and> \<not> (body_end - pos < 2 \<or> fb_option_count fb \<ge> 4)")
    case False
    then show ?thesis using less.prems by (subst read_options.simps) auto
  next
    case True
    let ?n = "unat (inp ! (pos + 1))" and ?v = "\<lambda>n. take n (drop (pos + 2) inp)"
    have i: "pos < length inp" "pos + 1 < length inp" using True less.prems by linarith+
    show ?thesis
    proof (cases "?n > 4 \<or> szsub body_end (pos + 2) < ?n")
      case True
      then show ?thesis using i \<open>pos < body_end \<and> _\<close> by (subst read_options.simps) (simp add: Let_def)
    next
      case ok: False
      then have n: "pos + 2 + ?n \<le> body_end" using True by auto
      then have c: "pos + 2 + ?n \<le> length inp" using less.prems by linarith
      have eq: "read_options inp body_end pos fb = seq_res (add_feedback_option fb (inp ! pos) (?v ?n))
          (read_options inp body_end (pos + 2 + ?n))"
        using True i ok c by (subst read_options.simps) (simp add: Let_def)
      consider "add_feedback_option fb (inp ! pos) (?v ?n) = Reject"
        | fb' where "add_feedback_option fb (inp ! pos) (?v ?n) = Done fb'" "length (fb_options fb') = 4"
        using add_feedback_option_cases [OF less.prems(3)] by blast
      then show ?thesis
      proof cases
        case (2 fb')
        then show ?thesis
          using less.hyps [of "pos + 2 + ?n" fb'] True n less.prems eq by simp
      qed (simp add: eq)
    qed
  qed
qed

lemma read_feedback_data_safe:
  assumes "body_end \<le> length inp" and "pos \<le> body_end" and "length (fb_options fb) = 4"
  shows "ends_at body_end (read_feedback_data inp want body_end fb pos)"
proof (cases "szsub body_end pos < 2")
  case True
  then show ?thesis by (simp add: read_feedback_data_def)
next
  case False
  then have p: "pos + 2 \<le> body_end" "pos < length inp" using assms by auto
  define finish where
    "finish = (\<lambda>(fb :: feedback, pos). if want \<or> pos = length inp then Done (fb, pos) else Reject)"
  define q where "q = pos + 2 + 1"
  have fin: "ends_at body_end (finish (g, body_end))" for g by (simp add: finish_def)
  have ro: "ends_at body_end (seq_res (read_options inp body_end q g) finish)"
    if "pos + 2 < body_end" "length (fb_options g) = 4" for g
  proof -
    have "ends_at body_end (read_options inp body_end q g)"
      using read_options_safe [OF assms(1), of q g] that by (simp add: q_def)
    then show ?thesis by (cases "read_options inp body_end q g") (auto simp: fin)
  qed
  have i: "pos + 2 < body_end \<Longrightarrow> pos + 2 < length inp" using assms(1) by simp
  show ?thesis
    unfolding read_feedback_data_def Let_def rd_in [OF p(2)] finish_def [symmetric] q_def [symmetric]
    using False assms(3) i fin by (auto intro!: ro split: option.split)
qed

definition ends_within :: "nat \<Rightarrow> ('a \<times> nat) res \<Rightarrow> bool" where
  "ends_within e r \<longleftrightarrow> (case r of Done (x, n) \<Rightarrow> n \<le> e | Reject \<Rightarrow> True | Fault \<Rightarrow> False)"

lemma ends_within_simps [simp]:
  "ends_within e Reject" "ends_within e (Done (x, n)) \<longleftrightarrow> n \<le> e" "\<not> ends_within e Fault"
  by (simp_all add: ends_within_def)

lemma ends_at_within: "ends_at n r \<Longrightarrow> n \<le> e \<Longrightarrow> ends_within e r"
  by (auto simp: ends_at_def ends_within_def split: res.splits)

lemma read_feedback_sized_safe:
  assumes "pos \<le> length inp"
  shows "ends_within (length inp) (read_feedback_sized inp want pos n)"
proof (cases "n = 0 \<or> szsub (length inp) pos < n")
  case True
  then show ?thesis by (simp add: read_feedback_sized_def)
next
  case False
  then have n: "pos + n \<le> length inp" "pos < pos + n" "pos < length inp" using assms by auto
  have "length (fb_options (feedback_init\<lparr>fb_cid := c\<rparr>)) = 4" "length (fb_options feedback_init) = 4" for c
    by (simp_all add: feedback_init_def)
  note d = this [THEN read_feedback_data_safe [OF n(1), THEN ends_at_within [OF _ n(1)], rotated]]
  show ?thesis
    using False n d unfolding read_feedback_sized_def Let_def rd_in [OF n(3)] by simp
qed

lemma read_feedback_packet_safe: "ends_within (length inp) (read_feedback_packet inp want)"
proof (cases "length inp < 2")
  case True
  then show ?thesis by (simp add: read_feedback_packet_def)
next
  case False
  then have i: "0 < length inp" "1 < length inp" by linarith+
  show ?thesis
    using False read_feedback_sized_safe [of 1 inp want] read_feedback_sized_safe [of 2 inp want]
    unfolding read_feedback_packet_def Let_def rd_in [OF i(1)] rd_in [OF i(2)] by simp
qed

section \<open>Piggybacking\<close>

text \<open>
  C33. Feedback travels in front of a packet. For every feedback that the format can carry (a small
  CID, at most four options of at most four octets each), \<open>write_piggybacked_feedback\<close> succeeds exactly
  when the buffer has room for the feedback and the packet; \<open>read_feedback_prefix\<close> on the result, whatever follows it,
  returns the same feedback, and the octets after the ones it consumed are the packet, unchanged. On
  every input the reader stays inside the buffer and never claims to have consumed more than it.
\<close>

theorem piggyback_roundtrip:
  "(feedback_canonical fb \<longrightarrow>
     (if length (fb_packet fb) + length packet \<le> capacity
      then \<exists>out n. write_piggybacked_feedback capacity fb packet = Done out \<and>
             read_feedback_prefix (out @ rest) = Done (fb, n) \<and> drop n out = packet
      else write_piggybacked_feedback capacity fb packet = Reject)) \<and>
   read_feedback_packet inp want_consumed \<noteq> Fault \<and>
   (read_feedback_packet inp want_consumed = Done (fb', n') \<longrightarrow> n' \<le> length inp)"
proof (intro conjI impI)
  assume can: "feedback_canonical fb"
  note w = write_feedback_packet_eq [OF can, of capacity] and r = read_feedback_packet_wire [OF can, of "packet @ rest"]
  show "if length (fb_packet fb) + length packet \<le> capacity
      then \<exists>out n. write_piggybacked_feedback capacity fb packet = Done out \<and>
             read_feedback_prefix (out @ rest) = Done (fb, n) \<and> drop n out = packet
      else write_piggybacked_feedback capacity fb packet = Reject"
  proof (cases "length (fb_packet fb) + length packet \<le> capacity")
    case True
    then have "write_piggybacked_feedback capacity fb packet = Done (fb_packet fb @ packet)"
      using w by (auto simp: write_piggybacked_feedback_def)
    with r True show ?thesis by (auto simp: read_feedback_prefix_def)
  qed (use w in \<open>auto simp: write_piggybacked_feedback_def\<close>)
next
  show "read_feedback_packet inp want_consumed \<noteq> Fault"
    using read_feedback_packet_safe [of inp want_consumed] by auto
  show "n' \<le> length inp" if "read_feedback_packet inp want_consumed = Done (fb', n')"
    using read_feedback_packet_safe [of inp want_consumed] that by simp
qed

lemma piggyback_example:
  "feedback_canonical (feedback_init\<lparr>fb_cid := 5, fb_has_mode := True, fb_mode := Reliable\<rparr>)"
  by (simp add: feedback_canonical_def feedback_init_def active_options_def)

theorem piggyback_roundtrip_witness:
  "\<exists>out n. write_piggybacked_feedback 100
       (feedback_init\<lparr>fb_cid := 5, fb_has_mode := True, fb_mode := Reliable\<rparr>) [1, 2, 3] = Done out \<and>
     read_feedback_prefix (out @ []) =
       Done (feedback_init\<lparr>fb_cid := 5, fb_has_mode := True, fb_mode := Reliable\<rparr>, n) \<and> drop n out = [1, 2, 3]"
proof -
  let ?fb = "feedback_init\<lparr>fb_cid := 5, fb_has_mode := True, fb_mode := Reliable\<rparr>"
  have "length (fb_packet ?fb) + length [1 :: byte, 2, 3] \<le> 100"
    using length_fb_body(2) [OF piggyback_example] by (simp add: fb_packet_def)
  then show ?thesis
    using piggyback_roundtrip [of ?fb "[1, 2, 3]" 100 "[]"] piggyback_example by (simp only: if_True)
qed

end
