(* ===== verification/Lla.thy ===== *)
theory Lla
  imports Prelude
begin

text \<open>
  The link-layer assisted profile, \<open>core/lla.hpp\<close>: the contract of the assisting layer and its
  validation, and the context-synchronisation (CSP) and context-check (CCP) packets.
\<close>

section \<open>Model\<close>

definition profile_rfc3242 :: u16 where "profile_rfc3242 = 0x0005"
definition profile_rfc4362 :: u16 where "profile_rfc4362 = 0x0005"
definition packet_type_lower_layer_reserved :: byte where "packet_type_lower_layer_reserved = 0xF9"
definition packet_type_csp :: byte where "packet_type_csp = 0xFA"
definition packet_type_ccp :: byte where "packet_type_ccp = 0xFB"

datatype assisting_layer_packet = Normal | NoHeaderPacket | ContextSynchronization | ContextCheck

record assisting_layer_contract =
  lc_identifies_packet_types :: bool
  lc_preserves_order :: bool
  lc_reports_loss :: bool
  lc_reports_residual_errors :: bool
  lc_delivers_feedback :: bool
  lc_protects_context_packets :: bool
  lc_supports_context_synchronization :: bool
  lc_supports_context_check :: bool
  lc_supports_reliable_mode :: bool
  lc_delivers_ack :: bool
  lc_delivers_static_nack :: bool

datatype contract_missing =
    MissingPacketTypeIdentification | MissingInOrderDelivery | MissingLossIndication
  | MissingResidualErrorIndication | MissingFeedbackDelivery | MissingContextPacketProtection
  | MissingContextSynchronization | MissingContextCheck | MissingReliableMode | MissingAckDelivery
  | MissingStaticNackDelivery | MissingIpv4UdpRtpFlow | MissingDisabledUdpChecksum
  | MissingRtpSequenceProgression | MissingCompressorSideOrdering | MissingSynchronizedTiming

fun missing_bit :: "contract_missing \<Rightarrow> nat" where
  "missing_bit MissingPacketTypeIdentification = 0"
| "missing_bit MissingInOrderDelivery = 1"
| "missing_bit MissingLossIndication = 2"
| "missing_bit MissingResidualErrorIndication = 3"
| "missing_bit MissingFeedbackDelivery = 4"
| "missing_bit MissingContextPacketProtection = 5"
| "missing_bit MissingContextSynchronization = 6"
| "missing_bit MissingContextCheck = 7"
| "missing_bit MissingReliableMode = 8"
| "missing_bit MissingAckDelivery = 9"
| "missing_bit MissingStaticNackDelivery = 10"
| "missing_bit MissingIpv4UdpRtpFlow = 11"
| "missing_bit MissingDisabledUdpChecksum = 12"
| "missing_bit MissingRtpSequenceProgression = 13"
| "missing_bit MissingCompressorSideOrdering = 14"
| "missing_bit MissingSynchronizedTiming = 15"

record contract_validation =
  cv_valid :: bool
  cv_missing :: u32

record zero_byte_flow =
  zf_ipv4_udp_rtp :: bool
  zf_udp_checksum_disabled :: bool
  zf_rtp_sequence_increments_by_one :: bool
  zf_compressor_observed_in_order :: bool
  zf_synchronized_timing :: bool

definition is_legacy_rfc3242_profile :: "u16 \<Rightarrow> bool" where
  "is_legacy_rfc3242_profile profile \<longleftrightarrow> profile = profile_rfc3242"

definition maps_to_rfc4362_profile :: "u16 \<Rightarrow> bool" where
  "maps_to_rfc4362_profile profile \<longleftrightarrow> is_legacy_rfc3242_profile profile"

definition note_missing :: "u32 \<Rightarrow> bool \<Rightarrow> contract_missing \<Rightarrow> u32" where
  \<comment> \<open>\<open>if(!capability) result.missing |= bit;\<close>\<close>
  "note_missing missing capability m = (if capability then missing else missing OR push_bit (missing_bit m) 1)"

definition validated :: "u32 \<Rightarrow> contract_validation" where
  "validated missing = \<lparr>cv_valid = (missing = 0), cv_missing = missing\<rparr>"

definition validate_rfc3243_zero_byte_assumptions :: "assisting_layer_contract \<Rightarrow> contract_validation" where
  "validate_rfc3243_zero_byte_assumptions c =
     (let missing = 0;
          missing = note_missing missing (lc_identifies_packet_types c) MissingPacketTypeIdentification;
          missing = note_missing missing (lc_preserves_order c) MissingInOrderDelivery;
          missing = note_missing missing (lc_reports_loss c) MissingLossIndication;
          missing = note_missing missing (lc_reports_residual_errors c) MissingResidualErrorIndication;
          missing = note_missing missing (lc_delivers_feedback c) MissingFeedbackDelivery
      in validated missing)"

definition validate_rfc3409_lower_layer_guidelines :: "assisting_layer_contract \<Rightarrow> contract_validation" where
  "validate_rfc3409_lower_layer_guidelines c =
     (let missing = cv_missing (validate_rfc3243_zero_byte_assumptions c);
          missing = note_missing missing (lc_protects_context_packets c) MissingContextPacketProtection;
          missing = note_missing missing (lc_supports_context_synchronization c) MissingContextSynchronization;
          missing = note_missing missing (lc_supports_context_check c) MissingContextCheck
      in validated missing)"

definition validate_rfc3408_r_mode_zero_byte_support :: "assisting_layer_contract \<Rightarrow> contract_validation" where
  "validate_rfc3408_r_mode_zero_byte_support c =
     (let missing = cv_missing (validate_rfc3243_zero_byte_assumptions c);
          missing = note_missing missing (lc_supports_reliable_mode c) MissingReliableMode;
          missing = note_missing missing (lc_delivers_ack c) MissingAckDelivery;
          missing = note_missing missing (lc_delivers_static_nack c) MissingStaticNackDelivery
      in validated missing)"

definition validate_rfc3243_zero_byte_flow ::
    "assisting_layer_contract \<Rightarrow> zero_byte_flow \<Rightarrow> contract_validation" where
  "validate_rfc3243_zero_byte_flow c flow =
     (let missing = cv_missing (validate_rfc3243_zero_byte_assumptions c);
          missing = note_missing missing (zf_ipv4_udp_rtp flow) MissingIpv4UdpRtpFlow;
          missing = note_missing missing (zf_udp_checksum_disabled flow) MissingDisabledUdpChecksum;
          missing = note_missing missing (zf_rtp_sequence_increments_by_one flow) MissingRtpSequenceProgression;
          missing = note_missing missing (zf_compressor_observed_in_order flow) MissingCompressorSideOrdering;
          missing = note_missing missing (zf_synchronized_timing flow) MissingSynchronizedTiming
      in validated missing)"

definition validate_rfc3242_legacy_lla_applicability ::
    "assisting_layer_contract \<Rightarrow> zero_byte_flow \<Rightarrow> contract_validation" where
  "validate_rfc3242_legacy_lla_applicability c flow = validate_rfc3243_zero_byte_flow c flow"

definition can_emit_no_header_packet :: "assisting_layer_contract \<Rightarrow> bool" where
  "can_emit_no_header_packet c \<longleftrightarrow> cv_valid (validate_rfc3243_zero_byte_assumptions c)"

definition can_emit_no_header_packet_for_flow :: "assisting_layer_contract \<Rightarrow> zero_byte_flow \<Rightarrow> bool" where
  "can_emit_no_header_packet_for_flow c flow \<longleftrightarrow> cv_valid (validate_rfc3243_zero_byte_flow c flow)"

definition can_emit_reliable_mode_no_header_packet :: "assisting_layer_contract \<Rightarrow> bool" where
  "can_emit_reliable_mode_no_header_packet c \<longleftrightarrow> cv_valid (validate_rfc3408_r_mode_zero_byte_support c)"

definition can_emit_context_synchronization_packet :: "assisting_layer_contract \<Rightarrow> bool" where
  "can_emit_context_synchronization_packet c \<longleftrightarrow>
     cv_valid (validate_rfc3409_lower_layer_guidelines c) \<and> lc_supports_context_synchronization c"

definition can_emit_context_check_packet :: "assisting_layer_contract \<Rightarrow> bool" where
  "can_emit_context_check_packet c \<longleftrightarrow>
     cv_valid (validate_rfc3409_lower_layer_guidelines c) \<and> lc_supports_context_check c"

record context_synchronization_packet =
  csp_rtp_payload_len :: u16
  csp_rohc_header :: bytes  \<comment> \<open>pointer and length\<close>

record context_check_packet =
  ccp_has_crc :: bool
  ccp_crc7 :: byte

definition write_context_synchronization_packet :: "nat \<Rightarrow> u16 \<Rightarrow> bytes \<Rightarrow> bytes res" where
  "write_context_synchronization_packet capacity rtp_payload_len rohc_header =
     (if capacity < 3 + length rohc_header then Reject
      else put capacity [] packet_type_csp (\<lambda>out.
           put capacity out (ucast (drop_bit 8 rtp_payload_len)) (\<lambda>out.
           put capacity out (ucast (rtp_payload_len AND 0xFF)) (\<lambda>out.
           put_all capacity out rohc_header Done))))"

definition read_context_synchronization_packet :: "bytes \<Rightarrow> context_synchronization_packet res" where
  "read_context_synchronization_packet inp =
     (if length inp < 3 then Reject
      else rd inp 0 (\<lambda>b0. if b0 \<noteq> packet_type_csp then Reject
        else rd inp 1 (\<lambda>b1. rd inp 2 (\<lambda>b2. view inp 3 (\<lambda>header.
          Done \<lparr>csp_rtp_payload_len = push_bit 8 (ucast b1) OR ucast b2, csp_rohc_header = header\<rparr>)))))"

definition write_context_check_packet :: "nat \<Rightarrow> context_check_packet \<Rightarrow> bytes res" where
  "write_context_check_packet capacity packet =
     (if capacity < 2 then Reject
      else put capacity [] packet_type_ccp (\<lambda>out.
           put capacity out ((if ccp_has_crc packet then 0x80 else 0x00) OR (ccp_crc7 packet AND 0x7F)) Done))"

definition read_context_check_packet :: "bytes \<Rightarrow> context_check_packet res" where
  "read_context_check_packet inp =
     (if length inp < 2 then Reject
      else rd inp 0 (\<lambda>b0. if b0 \<noteq> packet_type_ccp then Reject
        else rd inp 1 (\<lambda>b1. Done \<lparr>ccp_has_crc = ((b1 AND 0x80) \<noteq> 0), ccp_crc7 = b1 AND 0x7F\<rparr>)))"

definition packet_type_requires_assisting_layer :: "byte \<Rightarrow> bool" where
  "packet_type_requires_assisting_layer packet_type \<longleftrightarrow> packet_type = packet_type_lower_layer_reserved \<or>
     packet_type = packet_type_csp \<or> packet_type = packet_type_ccp"

section \<open>What a validation reports\<close>

definition lacks :: "assisting_layer_contract \<Rightarrow> zero_byte_flow \<Rightarrow> contract_missing \<Rightarrow> bool" where
  "lacks c f m \<longleftrightarrow> (case m of
     MissingPacketTypeIdentification \<Rightarrow> \<not> lc_identifies_packet_types c
   | MissingInOrderDelivery \<Rightarrow> \<not> lc_preserves_order c
   | MissingLossIndication \<Rightarrow> \<not> lc_reports_loss c
   | MissingResidualErrorIndication \<Rightarrow> \<not> lc_reports_residual_errors c
   | MissingFeedbackDelivery \<Rightarrow> \<not> lc_delivers_feedback c
   | MissingContextPacketProtection \<Rightarrow> \<not> lc_protects_context_packets c
   | MissingContextSynchronization \<Rightarrow> \<not> lc_supports_context_synchronization c
   | MissingContextCheck \<Rightarrow> \<not> lc_supports_context_check c
   | MissingReliableMode \<Rightarrow> \<not> lc_supports_reliable_mode c
   | MissingAckDelivery \<Rightarrow> \<not> lc_delivers_ack c
   | MissingStaticNackDelivery \<Rightarrow> \<not> lc_delivers_static_nack c
   | MissingIpv4UdpRtpFlow \<Rightarrow> \<not> zf_ipv4_udp_rtp f
   | MissingDisabledUdpChecksum \<Rightarrow> \<not> zf_udp_checksum_disabled f
   | MissingRtpSequenceProgression \<Rightarrow> \<not> zf_rtp_sequence_increments_by_one f
   | MissingCompressorSideOrdering \<Rightarrow> \<not> zf_compressor_observed_in_order f
   | MissingSynchronizedTiming \<Rightarrow> \<not> zf_synchronized_timing f)"

definition base_needs :: "contract_missing set" where
  "base_needs = {MissingPacketTypeIdentification, MissingInOrderDelivery, MissingLossIndication,
     MissingResidualErrorIndication, MissingFeedbackDelivery}"

definition reports :: "u32 \<Rightarrow> contract_missing set \<Rightarrow> bool" where
  \<comment> \<open>the bits of the word are exactly the bits of the set\<close>
  "reports missing S \<longleftrightarrow> (\<forall>n. bit missing n \<longleftrightarrow> (\<exists>m\<in>S. missing_bit m = n))"

lemma missing_bit_less: "missing_bit m < 16"
  by (cases m) simp_all

lemma missing_bit_inj: "missing_bit a = missing_bit b \<Longrightarrow> a = b"
  by (cases a; cases b) simp_all

lemma reports_0 [simp]: "reports 0 {}"
  by (simp add: reports_def)

lemma reports_note_missing:
  "reports w S \<Longrightarrow> reports (note_missing w cap m) (if cap then S else insert m S)"
  using missing_bit_less [of m] by (auto simp: reports_def note_missing_def bit_simps)

lemma reports_eq_0: "reports w S \<Longrightarrow> w = 0 \<longleftrightarrow> S = {}"
proof
  assume r: "reports w S" and "w = 0"
  then show "S = {}" by (auto simp: reports_def)
next
  assume r: "reports w S" and "S = {}"
  then show "w = 0" by (intro bit_eqI) (simp add: reports_def)
qed

lemma reports_bit: "reports w S \<Longrightarrow> bit w (missing_bit m) \<longleftrightarrow> m \<in> S"
  using missing_bit_inj by (auto simp: reports_def)

lemma reports_if_set: "(if b then S else insert m S) = S \<union> {x. x = m \<and> \<not> b}"
  by auto

lemma zero_byte_assumptions_reports:
  "reports (cv_missing (validate_rfc3243_zero_byte_assumptions c)) {m \<in> base_needs. lacks c f m}"
proof -
  have "{m \<in> base_needs. lacks c f m} = (let S = {};
      S = (if lc_identifies_packet_types c then S else insert MissingPacketTypeIdentification S);
      S = (if lc_preserves_order c then S else insert MissingInOrderDelivery S);
      S = (if lc_reports_loss c then S else insert MissingLossIndication S);
      S = (if lc_reports_residual_errors c then S else insert MissingResidualErrorIndication S)
    in if lc_delivers_feedback c then S else insert MissingFeedbackDelivery S)"
    unfolding Let_def reports_if_set by (auto simp: base_needs_def lacks_def)
  then show ?thesis
    by (simp only: validate_rfc3243_zero_byte_assumptions_def Let_def validated_def contract_validation.simps)
      (intro reports_note_missing reports_0)
qed

lemma guidelines_reports:
  "reports (cv_missing (validate_rfc3409_lower_layer_guidelines c)) {m \<in> base_needs \<union>
     {MissingContextPacketProtection, MissingContextSynchronization, MissingContextCheck}. lacks c f m}"
proof -
  have "{m \<in> base_needs \<union> {MissingContextPacketProtection, MissingContextSynchronization, MissingContextCheck}.
      lacks c f m} = (let S = {m \<in> base_needs. lacks c f m};
      S = (if lc_protects_context_packets c then S else insert MissingContextPacketProtection S);
      S = (if lc_supports_context_synchronization c then S else insert MissingContextSynchronization S)
    in if lc_supports_context_check c then S else insert MissingContextCheck S)"
    unfolding Let_def reports_if_set by (auto simp: base_needs_def lacks_def)
  then show ?thesis
    by (simp only: validate_rfc3409_lower_layer_guidelines_def Let_def validated_def contract_validation.simps)
      (intro reports_note_missing zero_byte_assumptions_reports)
qed

lemma r_mode_reports:
  "reports (cv_missing (validate_rfc3408_r_mode_zero_byte_support c)) {m \<in> base_needs \<union>
     {MissingReliableMode, MissingAckDelivery, MissingStaticNackDelivery}. lacks c f m}"
proof -
  have "{m \<in> base_needs \<union> {MissingReliableMode, MissingAckDelivery, MissingStaticNackDelivery}.
      lacks c f m} = (let S = {m \<in> base_needs. lacks c f m};
      S = (if lc_supports_reliable_mode c then S else insert MissingReliableMode S);
      S = (if lc_delivers_ack c then S else insert MissingAckDelivery S)
    in if lc_delivers_static_nack c then S else insert MissingStaticNackDelivery S)"
    unfolding Let_def reports_if_set by (auto simp: base_needs_def lacks_def)
  then show ?thesis
    by (simp only: validate_rfc3408_r_mode_zero_byte_support_def Let_def validated_def contract_validation.simps)
      (intro reports_note_missing zero_byte_assumptions_reports)
qed

lemma flow_reports:
  "reports (cv_missing (validate_rfc3243_zero_byte_flow c f)) {m \<in> base_needs \<union>
     {MissingIpv4UdpRtpFlow, MissingDisabledUdpChecksum, MissingRtpSequenceProgression,
      MissingCompressorSideOrdering, MissingSynchronizedTiming}. lacks c f m}"
proof -
  have "{m \<in> base_needs \<union> {MissingIpv4UdpRtpFlow, MissingDisabledUdpChecksum, MissingRtpSequenceProgression,
      MissingCompressorSideOrdering, MissingSynchronizedTiming}.
      lacks c f m} = (let S = {m \<in> base_needs. lacks c f m};
      S = (if zf_ipv4_udp_rtp f then S else insert MissingIpv4UdpRtpFlow S);
      S = (if zf_udp_checksum_disabled f then S else insert MissingDisabledUdpChecksum S);
      S = (if zf_rtp_sequence_increments_by_one f then S else insert MissingRtpSequenceProgression S);
      S = (if zf_compressor_observed_in_order f then S else insert MissingCompressorSideOrdering S)
    in if zf_synchronized_timing f then S else insert MissingSynchronizedTiming S)"
    unfolding Let_def reports_if_set by (auto simp: base_needs_def lacks_def)
  then show ?thesis
    by (simp only: validate_rfc3243_zero_byte_flow_def Let_def validated_def contract_validation.simps)
      (intro reports_note_missing zero_byte_assumptions_reports)
qed

lemma no_lack_simps:
  "{m \<in> insert x S. lacks c f m} = {} \<longleftrightarrow> \<not> lacks c f x \<and> {m \<in> S. lacks c f m} = {}"
  "{m \<in> {}. lacks c f m} = {}"
  by auto

lemmas no_lacks = base_needs_def Un_insert_left Un_empty_left no_lack_simps

lemma cv_valid_iff:
  "cv_valid (validate_rfc3243_zero_byte_assumptions c) \<longleftrightarrow> cv_missing (validate_rfc3243_zero_byte_assumptions c) = 0"
  "cv_valid (validate_rfc3409_lower_layer_guidelines c) \<longleftrightarrow> cv_missing (validate_rfc3409_lower_layer_guidelines c) = 0"
  "cv_valid (validate_rfc3408_r_mode_zero_byte_support c) \<longleftrightarrow> cv_missing (validate_rfc3408_r_mode_zero_byte_support c) = 0"
  "cv_valid (validate_rfc3243_zero_byte_flow c f) \<longleftrightarrow> cv_missing (validate_rfc3243_zero_byte_flow c f) = 0"
  by (simp_all add: validate_rfc3243_zero_byte_assumptions_def validate_rfc3409_lower_layer_guidelines_def
      validate_rfc3408_r_mode_zero_byte_support_def validate_rfc3243_zero_byte_flow_def Let_def validated_def)

section \<open>Properties\<close>

text \<open>
  The gate of the link-layer assisted profile is exact. A no-header packet for a flow may be
  emitted exactly when the assisting layer identifies packet types, keeps order, reports loss and
  residual errors and delivers feedback, and the flow has all five zero-byte properties; reliable
  mode and context packets need their own three capabilities on top of the same five. In each report of a validation,
  the bit of a requirement is set exactly when the validation asks for it and it is not met.
\<close>

theorem lla_contract_exact:
  "(can_emit_no_header_packet_for_flow c f \<longleftrightarrow>
      lc_identifies_packet_types c \<and> lc_preserves_order c \<and> lc_reports_loss c \<and> lc_reports_residual_errors c \<and>
      lc_delivers_feedback c \<and> zf_ipv4_udp_rtp f \<and> zf_udp_checksum_disabled f \<and>
      zf_rtp_sequence_increments_by_one f \<and> zf_compressor_observed_in_order f \<and> zf_synchronized_timing f) \<and>
   (can_emit_reliable_mode_no_header_packet c \<longleftrightarrow> can_emit_no_header_packet c \<and>
      lc_supports_reliable_mode c \<and> lc_delivers_ack c \<and> lc_delivers_static_nack c) \<and>
   (can_emit_context_synchronization_packet c \<longleftrightarrow> can_emit_no_header_packet c \<and>
      lc_protects_context_packets c \<and> lc_supports_context_synchronization c \<and> lc_supports_context_check c) \<and>
   (can_emit_context_check_packet c \<longleftrightarrow> can_emit_context_synchronization_packet c) \<and>
   (bit (cv_missing (validate_rfc3409_lower_layer_guidelines c)) (missing_bit m) \<longleftrightarrow>
      m \<in> base_needs \<union> {MissingContextPacketProtection, MissingContextSynchronization, MissingContextCheck} \<and>
      lacks c f m) \<and>
   (bit (cv_missing (validate_rfc3408_r_mode_zero_byte_support c)) (missing_bit m) \<longleftrightarrow>
      m \<in> base_needs \<union> {MissingReliableMode, MissingAckDelivery, MissingStaticNackDelivery} \<and> lacks c f m) \<and>
   (bit (cv_missing (validate_rfc3243_zero_byte_flow c f)) (missing_bit m) \<longleftrightarrow>
      m \<in> base_needs \<union> {MissingIpv4UdpRtpFlow, MissingDisabledUdpChecksum, MissingRtpSequenceProgression,
        MissingCompressorSideOrdering, MissingSynchronizedTiming} \<and> lacks c f m)"
proof -
  note rep = zero_byte_assumptions_reports [of c f] guidelines_reports [of c f] r_mode_reports [of c f] flow_reports [of c f]
  note valid = cv_valid_iff(1) [of c, unfolded rep(1) [THEN reports_eq_0]]
    cv_valid_iff(2) [of c, unfolded rep(2) [THEN reports_eq_0]]
    cv_valid_iff(3) [of c, unfolded rep(3) [THEN reports_eq_0]]
    cv_valid_iff(4) [of c f, unfolded rep(4) [THEN reports_eq_0]]
  have "can_emit_no_header_packet c \<longleftrightarrow> lc_identifies_packet_types c \<and> lc_preserves_order c \<and>
      lc_reports_loss c \<and> lc_reports_residual_errors c \<and> lc_delivers_feedback c"
    unfolding can_emit_no_header_packet_def valid
    by (simp only: no_lacks) (simp add: lacks_def)
  moreover have "cv_valid (validate_rfc3409_lower_layer_guidelines c) \<longleftrightarrow> lc_identifies_packet_types c \<and>
      lc_preserves_order c \<and> lc_reports_loss c \<and> lc_reports_residual_errors c \<and> lc_delivers_feedback c \<and>
      lc_protects_context_packets c \<and> lc_supports_context_synchronization c \<and> lc_supports_context_check c"
    unfolding valid by (simp only: no_lacks) (simp add: lacks_def)
  moreover have "can_emit_reliable_mode_no_header_packet c \<longleftrightarrow> lc_identifies_packet_types c \<and>
      lc_preserves_order c \<and> lc_reports_loss c \<and> lc_reports_residual_errors c \<and> lc_delivers_feedback c \<and>
      lc_supports_reliable_mode c \<and> lc_delivers_ack c \<and> lc_delivers_static_nack c"
    unfolding can_emit_reliable_mode_no_header_packet_def valid by (simp only: no_lacks) (simp add: lacks_def)
  moreover have "can_emit_no_header_packet_for_flow c f \<longleftrightarrow>
      lc_identifies_packet_types c \<and> lc_preserves_order c \<and> lc_reports_loss c \<and> lc_reports_residual_errors c \<and>
      lc_delivers_feedback c \<and> zf_ipv4_udp_rtp f \<and> zf_udp_checksum_disabled f \<and>
      zf_rtp_sequence_increments_by_one f \<and> zf_compressor_observed_in_order f \<and> zf_synchronized_timing f"
    unfolding can_emit_no_header_packet_for_flow_def valid by (simp only: no_lacks) (simp add: lacks_def)
  ultimately show ?thesis
    unfolding can_emit_context_synchronization_packet_def can_emit_context_check_packet_def
      rep(2-4) [THEN reports_bit] by auto
qed

text \<open>
  Context packets of the assisted profile round-trip. A CSP is read back to the payload length and
  the compressed header it was written from, a CCP to its flag and the seven low bits of its CRC, each
  exactly when the buffer had room; both readers are memory-safe on every input, and a CCP is never
  read as a CSP.
\<close>

theorem lla_packets_roundtrip:
  "seq_res (write_context_synchronization_packet capacity n header) read_context_synchronization_packet =
     (if 3 + length header \<le> capacity then Done \<lparr>csp_rtp_payload_len = n, csp_rohc_header = header\<rparr> else Reject) \<and>
   seq_res (write_context_check_packet capacity \<lparr>ccp_has_crc = h, ccp_crc7 = crc\<rparr>) read_context_check_packet =
     (if 2 \<le> capacity then Done \<lparr>ccp_has_crc = h, ccp_crc7 = crc AND 0x7F\<rparr> else Reject) \<and>
   seq_res (write_context_check_packet capacity \<lparr>ccp_has_crc = h, ccp_crc7 = crc\<rparr>) read_context_synchronization_packet
     = Reject \<and>
   read_context_synchronization_packet inp \<noteq> Fault \<and> read_context_check_packet inp \<noteq> Fault"
proof -
  let ?ccp = "\<lparr>ccp_has_crc = h, ccp_crc7 = crc\<rparr>" and ?o = "(if h then 0x80 else 0x00) OR (crc AND 0x7F)"
  have n: "push_bit 8 (ucast (ucast (drop_bit 8 n) :: byte)) OR ucast (ucast (n AND 0xFF) :: byte) = n"
    by (simp add: u16_bits)
  have o: "?o AND 0x80 \<noteq> 0 \<longleftrightarrow> h" "?o AND 0x7F = crc AND 0x7F"
    by (auto simp: byte_bits)
  have "seq_res (write_context_synchronization_packet capacity n header) read_context_synchronization_packet =
     (if 3 + length header \<le> capacity then
        Done \<lparr>csp_rtp_payload_len = push_bit 8 (ucast (ucast (drop_bit 8 n) :: byte)) OR ucast (ucast (n AND 0xFF) :: byte),
              csp_rohc_header = header\<rparr> else Reject)"
    by (auto simp: write_context_synchronization_packet_def read_context_synchronization_packet_def view_def)
  moreover have "seq_res (write_context_check_packet capacity ?ccp) read_context_check_packet =
     (if 2 \<le> capacity then Done \<lparr>ccp_has_crc = (?o AND 0x80 \<noteq> 0), ccp_crc7 = ?o AND 0x7F\<rparr> else Reject)"
    by (simp add: write_context_check_packet_def read_context_check_packet_def)
  moreover have "seq_res (write_context_check_packet capacity ?ccp) read_context_synchronization_packet = Reject"
    by (simp add: write_context_check_packet_def read_context_synchronization_packet_def)
  moreover have "read_context_synchronization_packet inp \<noteq> Fault" "read_context_check_packet inp \<noteq> Fault"
    by (auto simp: read_context_synchronization_packet_def read_context_check_packet_def rd_def view_def)
  ultimately show ?thesis unfolding n o by blast
qed

end
