(* ===== verification/PacketType.thy ===== *)
theory PacketType
  imports Context Cid Crc Lla Feedback
begin

text \<open>
  Packet dispatch: the classification of an IP packet into a profile (\<open>core/classify.hpp\<close>), the
  type and the CID of a received ROHC packet (\<open>core/packet_type.hpp\<close>), segments
  (\<open>core/segment.hpp\<close>) and the IR packet of the uncompressed profile
  (\<open>core/emit_uncompressed.hpp\<close>).
\<close>

section \<open>Classification of IP packets\<close>

definition classify_transport :: "bytes \<Rightarrow> nat \<Rightarrow> byte \<Rightarrow> profile res" where
  \<comment> \<open>\<open>classify_packet\<close> once the transport offset and the protocol are known\<close>
  "classify_transport pkt transport protocol =
     (if protocol = 17 then
        case udp_parse pkt transport of
          Done _ \<Rightarrow> (case rtp_parse pkt (transport + 8) of Done _ \<Rightarrow> Done RTP | Reject \<Rightarrow> Done UDP | Fault \<Rightarrow> Fault)
        | Reject \<Rightarrow> Done Uncompressed
        | Fault \<Rightarrow> Fault
      else if protocol = 50 then Done ESP
      else if protocol = 136 then
        case udp_parse pkt transport of
          Done _ \<Rightarrow> (case rtp_parse pkt (transport + 8) of
              Done _ \<Rightarrow> Done RTP_UDP_Lite | Reject \<Rightarrow> Done UDP_Lite | Fault \<Rightarrow> Fault)
        | Reject \<Rightarrow> Done Uncompressed
        | Fault \<Rightarrow> Fault
      else Done IP)"

definition classify_packet :: "bytes \<Rightarrow> profile res" where
  "classify_packet pkt =
     (case ipv4_parse pkt of
        Done (ip4, ip_hlen) \<Rightarrow>
          if is_fragmented (ip4_flags_fragment ip4) then Done Uncompressed
          else classify_transport pkt ip_hlen (ip4_protocol ip4)
      | Reject \<Rightarrow>
          (case ipv6_parse pkt of
             Done (ip6, header_len, protocol, extension_len) \<Rightarrow> classify_transport pkt header_len protocol
           | Reject \<Rightarrow> Done Uncompressed
           | Fault \<Rightarrow> Fault)
      | Fault \<Rightarrow> Fault)"

section \<open>Types of ROHC packets\<close>

datatype rohc_packet_type =
    PT_Unknown | PT_Uncompressed | PT_IR | PT_IR_DYN | PT_FormalCO | PT_FO_RTP | PT_FO_UDP | PT_FO_IP | PT_FO_ESP
  | PT_FO_UDP_Lite | PT_LLA_ContextSync | PT_LLA_ContextCheck | PT_Feedback | PT_Segment

record parsed_rohc_packet =
  pr_wire :: bytes  \<comment> \<open>pointer and length\<close>
  pr_packet :: bytes
  pr_cid :: u32
  pr_has_add_cid :: bool
  pr_has_large_cid :: bool
  pr_cid_len :: nat
  pr_type :: rohc_packet_type
  pr_profile_id :: byte

definition is_uncompressed_ip_payload :: "bytes \<Rightarrow> bool res" where
  "is_uncompressed_ip_payload ip =
     (if length ip = 0 then Done False
      else rd ip 0 (\<lambda>b0.
        let version = drop_bit 4 b0 in
        if version = 4 then
          if length ip < 20 then Done False
          else rd ip 2 (\<lambda>b2. rd ip 3 (\<lambda>b3.
            let ihl = unat (b0 AND 0x0F) * 4; total_len = unat b2 * 256 + unat b3 in
            Done (ihl \<ge> 20 \<and> ihl \<le> length ip \<and> total_len = length ip)))
        else if version = 6 then
          if length ip < 40 then Done False
          else rd ip 4 (\<lambda>b4. rd ip 5 (\<lambda>b5.
            let payload_len = unat b4 * 256 + unat b5 in Done (payload_len + 40 = length ip)))
        else Done False))"

definition detect_packet_type :: "byte \<Rightarrow> rohc_packet_type" where
  "detect_packet_type b =
     (if b AND 0xFE = 0xFE then PT_Segment
      else if b = packet_type_csp then PT_LLA_ContextSync
      else if b = packet_type_ccp then PT_LLA_ContextCheck
      else if b AND 0xF8 = 0xF0 then PT_Feedback
      else if b AND 0xFE = 0xFC then PT_IR
      else if b = 0xF8 then PT_IR_DYN
      else if b = 0x7A then PT_FO_UDP
      else if b = 0x79 then PT_FO_IP
      else if b = 0x78 then PT_FO_ESP
      else if b = 0x77 then PT_FO_UDP_Lite
      else if b AND 0xE0 = 0x80 \<or> b AND 0xE0 = 0xA0 then PT_FormalCO
      else if b AND 0x80 = 0 then PT_FO_RTP
      else PT_Unknown)"

definition parse_body :: "bool \<Rightarrow> parsed_rohc_packet \<Rightarrow> parsed_rohc_packet res" where
  \<comment> \<open>\<open>parse_rohc_packet\<close> after the type is known and the large CID is read\<close>
  "parse_body large_cid_space parsed =
     (if pr_type parsed = PT_IR \<or> pr_type parsed = PT_IR_DYN then
        let profile_pos = (if large_cid_space then 1 + pr_cid_len parsed else 1) in
        if length (pr_packet parsed) \<le> profile_pos then Reject
        else rd (pr_packet parsed) profile_pos (\<lambda>b. Done (parsed\<lparr>pr_profile_id := b\<rparr>))
      else if pr_type parsed = PT_FO_RTP \<and> \<not> large_cid_space \<and> \<not> pr_has_add_cid parsed then
        rd (pr_packet parsed) 0 (\<lambda>b. Done (parsed\<lparr>pr_cid := ucast (drop_bit 2 b AND 0x0F)\<rparr>))
      else if pr_type parsed \<noteq> PT_Unknown then Done parsed else Reject)"

definition parse_typed :: "bool \<Rightarrow> parsed_rohc_packet \<Rightarrow> parsed_rohc_packet res" where
  \<comment> \<open>\<open>parse_rohc_packet\<close> from the test of \<open>packet_len\<close> on\<close>
  "parse_typed large_cid_space parsed =
     (if length (pr_packet parsed) = 0 then Reject
      else rd (pr_packet parsed) 0 (\<lambda>b.
        seq_res (is_uncompressed_ip_payload (pr_packet parsed)) (\<lambda>u.
        let parsed = parsed\<lparr>pr_type := (if u then PT_Uncompressed else detect_packet_type b)\<rparr> in
        if large_cid_space \<and> pr_type parsed \<noteq> PT_Uncompressed then
          if length (pr_packet parsed) < 2 then Reject
          else view (pr_packet parsed) 1 (\<lambda>p.
            seq_res (read_large p) (\<lambda>(large_cid, cid_len).
              parse_body large_cid_space
                (parsed\<lparr>pr_has_large_cid := True, pr_cid := large_cid, pr_cid_len := cid_len\<rparr>)))
        else parse_body large_cid_space parsed)))"

definition parse_rohc_packet :: "bytes \<Rightarrow> bool \<Rightarrow> parsed_rohc_packet res" where
  "parse_rohc_packet inp large_cid_space =
     (if length inp = 0 then Reject
      else let parsed = \<lparr>pr_wire = inp, pr_packet = inp, pr_cid = 0, pr_has_add_cid = False,
             pr_has_large_cid = False, pr_cid_len = 0, pr_type = PT_Unknown, pr_profile_id = 0\<rparr> in
        rd inp 0 (\<lambda>b0.
          if \<not> large_cid_space \<and> b0 AND 0xF0 = 0xE0 then
            if length inp < 2 then Reject
            else view inp 1 (\<lambda>p. parse_typed large_cid_space
              (parsed\<lparr>pr_has_add_cid := True, pr_cid := ucast (b0 AND 0x0F), pr_packet := p\<rparr>))
          else parse_typed large_cid_space parsed))"

definition decoder_packet :: "parsed_rohc_packet \<Rightarrow> bytes" where
  \<comment> \<open>\<open>decoder_packet_start\<close> and \<open>decoder_packet_len\<close>\<close>
  "decoder_packet parsed =
     (if pr_has_add_cid parsed \<and> (pr_type parsed = PT_IR \<or> pr_type parsed = PT_IR_DYN)
      then pr_wire parsed else pr_packet parsed)"

section \<open>Segments\<close>

record segment_header =
  seg_final :: bool
  seg_sequence :: u16

definition read_segment_header :: "bytes \<Rightarrow> segment_header res" where
  "read_segment_header inp =
     (if length inp < 2 then Reject
      else rd inp 0 (\<lambda>b0. if b0 AND 0xFE \<noteq> 0xFE then Reject
        else rd inp 1 (\<lambda>b1. Done \<lparr>seg_final = (b0 AND 0x01 \<noteq> 0), seg_sequence = ucast b1\<rparr>)))"

definition write_segment_header :: "nat \<Rightarrow> segment_header \<Rightarrow> bytes res" where
  "write_segment_header capacity segment =
     (if capacity < 2 then Reject
      else put capacity [] (0xFE OR (if seg_final segment then 0x01 else 0x00)) (\<lambda>out.
           put capacity out (ucast (seg_sequence segment AND 0xFF)) Done))"

definition write_segment_packet :: "nat \<Rightarrow> segment_header \<Rightarrow> bytes \<Rightarrow> bytes res" where
  "write_segment_packet capacity segment payload =
     (if capacity < 2 + length payload then Reject
      else seq_res (write_segment_header capacity segment) (\<lambda>out.
        if length payload > 0 then put_all capacity out payload Done else Done out))"

section \<open>IR of the uncompressed profile\<close>

definition emit_uncompressed_ir :: "nat \<Rightarrow> rohc_context \<Rightarrow> bytes \<Rightarrow> bytes res" where
  "emit_uncompressed_ir capacity ctx inp =
     (let cid_len = (if ctx_large_cid ctx then encoded_len (ctx_cid ctx) else if ctx_cid ctx > 0 then 1 else 0);
          header_len = cid_len + 3 in
      if ctx_large_cid ctx \<and> ctx_cid ctx > large_cid_max \<or> \<not> ctx_large_cid ctx \<and> \<not> is_small (ctx_cid ctx) \<or>
         capacity < header_len \<or> length inp > capacity - header_len then Reject
      else
        (\<lambda>k. if \<not> ctx_large_cid ctx \<and> ctx_cid ctx > 0 then put capacity [] (ucast (0xE0 OR ctx_cid ctx)) k else k [])
          (\<lambda>out. put capacity out 0xFD (\<lambda>out.
          seq_res (if ctx_large_cid ctx then write_large capacity out (ctx_cid ctx) else Done out) (\<lambda>out.
          put capacity out 0x00 (\<lambda>out.
          put capacity out 0 (\<lambda>out.
          let out = out[length out - 1 := crc8 out] in
          put_all capacity out inp Done))))))"

section \<open>What the classification says\<close>

definition transport_at :: "bytes \<Rightarrow> nat \<Rightarrow> byte \<Rightarrow> bool" where
  \<comment> \<open>the packet is an unfragmented IPv4 or an IPv6 datagram whose transport of that protocol starts there\<close>
  "transport_at pkt off protocol \<longleftrightarrow>
     (\<exists>ip. ipv4_parse pkt = Done (ip, off) \<and> \<not> is_fragmented (ip4_flags_fragment ip) \<and> protocol = ip4_protocol ip) \<or>
     (ipv4_parse pkt = Reject \<and> (\<exists>ip ext. ipv6_parse pkt = Done (ip, off, protocol, ext)))"

definition carries_rtp :: "bytes \<Rightarrow> nat \<Rightarrow> bool" where
  \<comment> \<open>room for a UDP and an RTP header, and RTP version 2\<close>
  "carries_rtp pkt off \<longleftrightarrow> off + 20 \<le> length pkt \<and> drop_bit 6 (pkt ! (off + 8)) = 2"

lemma transport_at_unique: "transport_at pkt a p \<Longrightarrow> transport_at pkt b q \<Longrightarrow> a = b \<and> p = q"
  by (auto simp: transport_at_def)

lemma udp_parse_cases: "udp_parse pkt off = Reject \<longleftrightarrow> \<not> off + 8 \<le> length pkt"
  by (simp add: udp_parse_def bounds_check_def)

lemma rtp_parse_cases:
  "rtp_parse pkt (off + 8) = Reject \<longleftrightarrow> \<not> carries_rtp pkt off"
proof (cases "off + 20 \<le> length pkt")
  case True
  then have "rtp_version (rtp_header_of (take 12 (drop (off + 8) pkt))) = drop_bit 6 (pkt ! (off + 8))"
    by (simp add: rtp_version_def rtp_header_of_def)
  with True show ?thesis by (simp add: rtp_parse_def bounds_check_def carries_rtp_def Let_def)
next
  case False
  then show ?thesis by (simp add: rtp_parse_def bounds_check_def carries_rtp_def)
qed

lemma carries_rtp_room: "carries_rtp pkt off \<Longrightarrow> off + 8 \<le> length pkt"
  by (simp add: carries_rtp_def)

lemma res_case_Reject:
  "(\<forall>x. r \<noteq> Fault) \<Longrightarrow> (case r of Done _ \<Rightarrow> a | Reject \<Rightarrow> b | Fault \<Rightarrow> c) = (if r = Reject then b else a)"
  by (cases r) auto

lemma classify_transport_eq:
  "classify_transport pkt off protocol = Done
     (if protocol = 17 then
        if carries_rtp pkt off then RTP else if off + 8 \<le> length pkt then UDP else Uncompressed
      else if protocol = 50 then ESP
      else if protocol = 136 then
        if carries_rtp pkt off then RTP_UDP_Lite else if off + 8 \<le> length pkt then UDP_Lite else Uncompressed
      else IP)"
  using carries_rtp_room [of pkt off]
  by (simp add: classify_transport_def res_case_Reject udp_parse_cases rtp_parse_cases)

lemma classify_packet_cases:
  obtains (transport) off protocol where "transport_at pkt off protocol"
      "classify_packet pkt = classify_transport pkt off protocol"
  | (none) "\<not> (\<exists>off protocol. transport_at pkt off protocol)" "classify_packet pkt = Done Uncompressed"
proof (cases "ipv4_parse pkt")
  case (Done r)
  obtain ip h where r: "r = (ip, h)" by (cases r)
  show ?thesis
  proof (cases "is_fragmented (ip4_flags_fragment ip)")
    case True
    then show ?thesis using Done r by (intro none) (simp_all add: transport_at_def classify_packet_def)
  next
    case False
    then show ?thesis
      using Done r by (intro transport [of h "ip4_protocol ip"]) (simp_all add: transport_at_def classify_packet_def)
  qed
next
  case Reject
  show ?thesis
  proof (cases "ipv6_parse pkt")
    case (Done r)
    obtain ip h n e where "r = (ip, h, n, e)" by (cases r)
    then show ?thesis
      using Done Reject by (intro transport [of h n]) (simp_all add: transport_at_def classify_packet_def)
  next
    case R: Reject
    then show ?thesis using Reject by (intro none) (simp_all add: transport_at_def classify_packet_def)
  next
    case Fault
    then show ?thesis using ipv6_parse_result [of pkt] by simp
  qed
next
  case Fault
  then show ?thesis using ipv4_parse_result [of pkt] by simp
qed

text \<open>
  C34. Classification is total and exact. For every octet string, \<open>classify_packet\<close> stays inside the
  packet and returns a profile. It is RTP exactly for an unfragmented IPv4 or an IPv6 datagram that
  carries protocol 17, has room for a UDP and an RTP header behind the IP headers and RTP version 2;
  RTP over UDP-Lite is the same with protocol 136; UDP and UDP-Lite are those without the RTP part;
  ESP and IP are decided by the protocol alone. It is the uncompressed profile exactly for what is neither an
  unfragmented IPv4 nor an IPv6 datagram, and for UDP and UDP-Lite without room for a UDP header; no other profile
  is ever returned.
\<close>

theorem classify_packet_exact:
  "(\<exists>p. classify_packet pkt = Done p) \<and>
   (classify_packet pkt = Done RTP \<longleftrightarrow> (\<exists>off. transport_at pkt off 17 \<and> carries_rtp pkt off)) \<and>
   (classify_packet pkt = Done RTP_UDP_Lite \<longleftrightarrow> (\<exists>off. transport_at pkt off 136 \<and> carries_rtp pkt off)) \<and>
   (classify_packet pkt = Done UDP \<longleftrightarrow>
      (\<exists>off. transport_at pkt off 17 \<and> off + 8 \<le> length pkt \<and> \<not> carries_rtp pkt off)) \<and>
   (classify_packet pkt = Done UDP_Lite \<longleftrightarrow>
      (\<exists>off. transport_at pkt off 136 \<and> off + 8 \<le> length pkt \<and> \<not> carries_rtp pkt off)) \<and>
   (classify_packet pkt = Done ESP \<longleftrightarrow> (\<exists>off. transport_at pkt off 50)) \<and>
   (classify_packet pkt = Done IP \<longleftrightarrow> (\<exists>off p. transport_at pkt off p \<and> p \<notin> {17, 50, 136})) \<and>
   (classify_packet pkt = Done Uncompressed \<longleftrightarrow>
      (\<forall>off p. \<not> transport_at pkt off p) \<or> (\<exists>off p. transport_at pkt off p \<and> p \<in> {17, 136} \<and> length pkt < off + 8))"
proof (cases pkt rule: classify_packet_cases)
  case (transport off protocol)
  have "transport_at pkt o' p' \<longleftrightarrow> o' = off \<and> p' = protocol" for o' p'
    using transport(1) transport_at_unique by blast
  then show ?thesis unfolding transport(2) classify_transport_eq using carries_rtp_room [of pkt off] by auto
next
  case none
  then show ?thesis by auto
qed

section \<open>Parsing of ROHC packets\<close>

lemma is_uncompressed_total: "\<exists>u. is_uncompressed_ip_payload ip = Done u"
  by (auto simp: is_uncompressed_ip_payload_def Let_def rd_def)

definition type_of_packet :: "bytes \<Rightarrow> rohc_packet_type" where
  "type_of_packet packet =
     (if is_uncompressed_ip_payload packet = Done True then PT_Uncompressed else detect_packet_type (packet ! 0))"

definition parsed_ok :: "bool \<Rightarrow> bytes \<Rightarrow> parsed_rohc_packet \<Rightarrow> bool" where
  "parsed_ok large inp p \<longleftrightarrow> pr_wire p = inp \<and> pr_packet p \<noteq> [] \<and>
     (pr_has_add_cid p \<longleftrightarrow> \<not> large \<and> inp ! 0 AND 0xF0 = 0xE0) \<and>
     pr_packet p = (if pr_has_add_cid p then drop 1 inp else inp) \<and>
     pr_type p = type_of_packet (pr_packet p) \<and> pr_type p \<noteq> PT_Unknown \<and>
     pr_cid p \<le> (if large then large_cid_max else small_cid_max) \<and>
     (pr_type p = PT_IR \<or> pr_type p = PT_IR_DYN \<longrightarrow>
        1 + pr_cid_len p < length (pr_packet p) \<and> pr_profile_id p = pr_packet p ! (1 + pr_cid_len p)) \<and>
     (pr_has_large_cid p \<longrightarrow> read_large (drop 1 (pr_packet p)) = Done (pr_cid p, pr_cid_len p))"

lemma nibble_small: "(ucast (b AND 0x0F :: byte) :: u32) \<le> 0x0F"
proof -
  have "unat (b AND 0x0F) \<le> 15" using word_and_le1 [of b "0x0F"] by (simp add: word_le_nat_alt)
  then show ?thesis by (simp add: word_le_nat_alt unsigned_ucast_eq take_bit_nat_eq_self)
qed

definition parse_ready :: "bool \<Rightarrow> bytes \<Rightarrow> parsed_rohc_packet \<Rightarrow> bool" where
  \<comment> \<open>what holds when \<open>parse_body\<close> is entered\<close>
  "parse_ready large inp p \<longleftrightarrow> pr_wire p = inp \<and> pr_packet p \<noteq> [] \<and>
     (pr_has_add_cid p \<longleftrightarrow> \<not> large \<and> inp ! 0 AND 0xF0 = 0xE0) \<and>
     pr_packet p = (if pr_has_add_cid p then drop 1 inp else inp) \<and>
     pr_type p = type_of_packet (pr_packet p) \<and> pr_cid p \<le> (if large then large_cid_max else small_cid_max) \<and>
     (\<not> large \<longrightarrow> pr_cid_len p = 0 \<and> \<not> pr_has_large_cid p) \<and>
     (pr_has_large_cid p \<longrightarrow> read_large (drop 1 (pr_packet p)) = Done (pr_cid p, pr_cid_len p))"

lemma parse_body_ok:
  assumes "parse_ready large inp p"
  shows "parse_body large p = Reject \<or> (\<exists>q. parse_body large p = Done q \<and> parsed_ok large inp q)"
proof -
  have l: "0 < length (pr_packet p)"
    using assms unfolding parse_ready_def length_greater_0_conv by blast
  consider (ir) "pr_type p = PT_IR \<or> pr_type p = PT_IR_DYN"
    | (fo) "pr_type p = PT_FO_RTP \<and> \<not> large \<and> \<not> pr_has_add_cid p"
    | (other) "\<not> (pr_type p = PT_IR \<or> pr_type p = PT_IR_DYN)" "\<not> (pr_type p = PT_FO_RTP \<and> \<not> large \<and> \<not> pr_has_add_cid p)"
    by blast
  then show ?thesis
  proof cases
    case ir
    then show ?thesis
      using assms by (auto simp: parse_body_def parse_ready_def parsed_ok_def Let_def)
  next
    case fo
    have q: "parse_body large p = Done (p\<lparr>pr_cid := ucast (drop_bit 2 (pr_packet p ! 0) AND 0x0F)\<rparr>)"
      using fo by (simp add: parse_body_def rd_in [OF l])
    have "parsed_ok large inp (p\<lparr>pr_cid := ucast (drop_bit 2 (pr_packet p ! 0) AND 0x0F)\<rparr>)"
      using assms fo nibble_small [of "drop_bit 2 (pr_packet p ! 0)"]
      by (auto simp: parse_ready_def parsed_ok_def small_cid_max_def)
    with q show ?thesis by blast
  next
    case other
    then have "parse_body large p = (if pr_type p \<noteq> PT_Unknown then Done p else Reject)"
      by (auto simp: parse_body_def)
    moreover have "parsed_ok large inp p" if "pr_type p \<noteq> PT_Unknown"
      using assms other(1) that unfolding parse_ready_def parsed_ok_def by blast
    ultimately show ?thesis by (cases "pr_type p = PT_Unknown") simp_all
  qed
qed

lemma parse_typed_ok:
  assumes "pr_wire p = inp" "pr_has_add_cid p \<longleftrightarrow> \<not> large \<and> inp ! 0 AND 0xF0 = 0xE0"
    "pr_packet p = (if pr_has_add_cid p then drop 1 inp else inp)" "pr_cid p \<le> small_cid_max" "pr_cid_len p = 0"
    "\<not> pr_has_large_cid p"
  shows "parse_typed large p = Reject \<or> (\<exists>q. parse_typed large p = Done q \<and> parsed_ok large inp q)"
proof (cases "pr_packet p = []")
  case True
  then show ?thesis by (simp add: parse_typed_def)
next
  case False
  obtain u where u: "is_uncompressed_ip_payload (pr_packet p) = Done u" using is_uncompressed_total by blast
  define t where "t = (if u then PT_Uncompressed else detect_packet_type (pr_packet p ! 0))"
  have t: "t = type_of_packet (pr_packet p)" by (simp add: t_def type_of_packet_def u)
  have small: "pr_cid p \<le> large_cid_max"
    using assms(4) by (simp add: small_cid_max_def large_cid_max_def word_le_nat_alt)
  have eq: "parse_typed large p =
     (if large \<and> t \<noteq> PT_Uncompressed then
        if length (pr_packet p) < 2 then Reject
        else view (pr_packet p) 1 (\<lambda>w. seq_res (read_large w) (\<lambda>(c, n).
          parse_body large (p\<lparr>pr_type := t, pr_has_large_cid := True, pr_cid := c, pr_cid_len := n\<rparr>)))
      else parse_body large (p\<lparr>pr_type := t\<rparr>))"
    using False by (simp add: parse_typed_def u t_def Let_def cong: if_cong)
  show ?thesis
  proof (cases "large \<and> t \<noteq> PT_Uncompressed")
    case False
    have "parse_ready large inp (p\<lparr>pr_type := t\<rparr>)"
      using assms small False \<open>pr_packet p \<noteq> []\<close> t by (simp add: parse_ready_def)
    with parse_body_ok show ?thesis unfolding eq if_not_P [OF False] by blast
  next
    case True
    show ?thesis
    proof (cases "read_large (drop 1 (pr_packet p))")
      case (Done r)
      obtain c n where r: "r = (c, n)" by (cases r)
      have "parse_ready large inp (p\<lparr>pr_type := t, pr_has_large_cid := True, pr_cid := c, pr_cid_len := n\<rparr>)"
        using assms True \<open>pr_packet p \<noteq> []\<close> t Done r read_large_inv [of "drop 1 (pr_packet p)" c n]
        by (simp add: parse_ready_def)
      from parse_body_ok [OF this] show ?thesis
        using True Done r unfolding eq by (auto simp: view_def)
    next
      case Reject
      then show ?thesis using True unfolding eq by (simp add: view_def)
    next
      case Fault
      then show ?thesis using read_large_safe by blast
    qed
  qed
qed

lemma parse_rohc_packet_result:
  "parse_rohc_packet inp large \<noteq> Fault \<and>
   (parse_rohc_packet inp large = Done p \<longrightarrow> parsed_ok large inp p)"
proof (cases "inp = []")
  case True
  then show ?thesis by (simp add: parse_rohc_packet_def)
next
  case False
  let ?p = "\<lparr>pr_wire = inp, pr_packet = inp, pr_cid = 0, pr_has_add_cid = False,
             pr_has_large_cid = False, pr_cid_len = 0, pr_type = PT_Unknown, pr_profile_id = 0\<rparr>"
  let ?add = "\<not> large \<and> inp ! 0 AND 0xF0 = 0xE0"
  let ?q = "?p\<lparr>pr_has_add_cid := True, pr_cid := ucast (inp ! 0 AND 0x0F), pr_packet := drop 1 inp\<rparr>"
  have eq: "parse_rohc_packet inp large =
      (if ?add then if length inp < 2 then Reject else parse_typed large ?q else parse_typed large ?p)"
    using False by (simp add: parse_rohc_packet_def Let_def view_def cong: if_cong)
  show ?thesis
  proof (cases ?add)
    case True
    then have "parse_typed large ?q = Reject \<or> (\<exists>r. parse_typed large ?q = Done r \<and> parsed_ok large inp r)"
      using nibble_small by (intro parse_typed_ok) (simp_all add: small_cid_max_def)
    then show ?thesis unfolding eq using True by auto
  next
    case False
    then have "parse_typed large ?p = Reject \<or> (\<exists>r. parse_typed large ?p = Done r \<and> parsed_ok large inp r)"
      by (intro parse_typed_ok) (simp_all add: small_cid_max_def)
    then show ?thesis unfolding eq using False by auto
  qed
qed

text \<open>
  Parsing of a received packet is safe and consistent. On every input \<open>parse_rohc_packet\<close> stays
  inside the buffer. When it accepts, the packet is the input without its Add-CID octet exactly if there is
  one, the type is known and is that of its first octet (or uncompressed for a well-formed IP datagram),
  the CID belongs to the CID space in use, a large CID is the one read behind the first octet, and
  the profile of an IR or IR-DYN packet is the octet behind the CID.
\<close>

theorem parse_rohc_packet_ok:
  "parse_rohc_packet inp large \<noteq> Fault \<and>
   (parse_rohc_packet inp large = Done p \<longrightarrow> parsed_ok large inp p)"
  by (rule parse_rohc_packet_result)

theorem parse_rohc_packet_ok_witness:
  "parsed_ok False [0xE5, 0xFD, 0x00] \<lparr>pr_wire = [0xE5, 0xFD, 0x00], pr_packet = [0xFD, 0x00], pr_cid = 5,
     pr_has_add_cid = True, pr_has_large_cid = False, pr_cid_len = 0, pr_type = PT_IR, pr_profile_id = 0\<rparr>"
  by (rule parse_rohc_packet_ok [THEN conjunct2, rule_format])
    (simp add: parse_rohc_packet_def parse_typed_def parse_body_def view_def is_uncompressed_ip_payload_def
      detect_packet_type_def packet_type_csp_def packet_type_ccp_def)

section \<open>Segments\<close>

text \<open>
  Segments round-trip up to the width of the sequence field. A segment is written exactly when the
  buffer has room; its header is read back with the final flag and the eight low-order bits of the
  16-bit sequence number, the payload is what follows, its first octet is recognised as a segment,
  and the reader is memory-safe on every input.
\<close>

theorem segment_roundtrip:
  "(2 + length payload \<le> capacity \<longrightarrow>
     (\<exists>h. write_segment_packet capacity seg payload = Done (h @ payload) \<and> length h = 2 \<and>
        read_segment_header (h @ rest) = Done \<lparr>seg_final = seg_final seg, seg_sequence = seg_sequence seg AND 0xFF\<rparr> \<and>
        detect_packet_type (hd h) = PT_Segment)) \<and>
   (capacity < 2 + length payload \<longrightarrow> write_segment_packet capacity seg payload = Reject) \<and>
   read_segment_header inp \<noteq> Fault"
proof (intro conjI impI)
  assume room: "2 + length payload \<le> capacity"
  define f :: byte where "f = 0xFE OR (if seg_final seg then 0x01 else 0x00)"
  define s :: byte where "s = ucast (seg_sequence seg AND 0xFF)"
  have w: "write_segment_packet capacity seg payload = Done ([f, s] @ payload)"
    using room by (simp add: write_segment_packet_def write_segment_header_def f_def s_def)
  have f: "f AND 0xFE = 0xFE" "f AND 0x01 \<noteq> 0 \<longleftrightarrow> seg_final seg" by (simp_all add: f_def)
  have s: "(ucast s :: u16) = seg_sequence seg AND 0xFF" by (simp add: s_def u16_bits)
  have "read_segment_header ([f, s] @ rest) = Done \<lparr>seg_final = seg_final seg, seg_sequence = seg_sequence seg AND 0xFF\<rparr>"
    using f s by (simp add: read_segment_header_def)
  moreover have "detect_packet_type f = PT_Segment" using f by (simp add: detect_packet_type_def)
  ultimately show "\<exists>h. write_segment_packet capacity seg payload = Done (h @ payload) \<and> length h = 2 \<and>
        read_segment_header (h @ rest) = Done \<lparr>seg_final = seg_final seg, seg_sequence = seg_sequence seg AND 0xFF\<rparr> \<and>
        detect_packet_type (hd h) = PT_Segment"
    using w by (intro exI [of _ "[f, s]"]) simp
next
  show "write_segment_packet capacity seg payload = Reject" if "capacity < 2 + length payload"
    using that by (simp add: write_segment_packet_def)
  show "read_segment_header inp \<noteq> Fault"
    by (auto simp: read_segment_header_def rd_def)
qed

theorem segment_roundtrip_witness:
  "\<exists>h. write_segment_packet 5 \<lparr>seg_final = True, seg_sequence = 0x107\<rparr> [1, 2, 3] = Done (h @ [1, 2, 3]) \<and>
     read_segment_header (h @ []) = Done \<lparr>seg_final = True, seg_sequence = 7\<rparr>"
  using segment_roundtrip [of "[1, 2, 3]" 5 "\<lparr>seg_final = True, seg_sequence = 0x107\<rparr>" "[]"] by auto

section \<open>IR of the uncompressed profile\<close>

definition uncompressed_ir_header :: "rohc_context \<Rightarrow> byte \<Rightarrow> bytes" where
  "uncompressed_ir_header ctx crc =
     (if ctx_large_cid ctx then 0xFD # sdvl (ctx_cid ctx)
      else if ctx_cid ctx > 0 then [0xE0 OR ucast (ctx_cid ctx), 0xFD] else [0xFD]) @ [0x00, crc]"

definition cid_in_space :: "rohc_context \<Rightarrow> bool" where
  "cid_in_space ctx \<longleftrightarrow> ctx_cid ctx \<le> (if ctx_large_cid ctx then large_cid_max else small_cid_max)"

lemma ucast_or_cid: "(ucast (0xE0 OR c :: u32) :: byte) = 0xE0 OR ucast c"
  by (simp add: byte_bits)

lemma emit_uncompressed_ir_eq:
  "emit_uncompressed_ir capacity ctx inp =
     (if cid_in_space ctx \<and> length (uncompressed_ir_header ctx 0) + length inp \<le> capacity
      then Done (uncompressed_ir_header ctx (crc8 (uncompressed_ir_header ctx 0)) @ inp) else Reject)"
proof (cases "ctx_large_cid ctx")
  case True
  then show ?thesis
    using encoded_len_bounds [of "ctx_cid ctx"]
    by (auto simp: emit_uncompressed_ir_def Let_def cid_in_space_def uncompressed_ir_header_def write_large_eq
        list_update_append not_less)
next
  case False
  then show ?thesis
    by (auto simp: emit_uncompressed_ir_def Let_def cid_in_space_def uncompressed_ir_header_def is_small_def
        ucast_or_cid not_less)
qed

lemma parse_uncompressed_ir:
  assumes "cid_in_space ctx"
  shows "parse_rohc_packet (uncompressed_ir_header ctx crc @ inp) (ctx_large_cid ctx) =
    Done \<lparr>pr_wire = uncompressed_ir_header ctx crc @ inp,
      pr_packet = drop (if \<not> ctx_large_cid ctx \<and> ctx_cid ctx > 0 then 1 else 0) (uncompressed_ir_header ctx crc @ inp),
      pr_cid = ctx_cid ctx, pr_has_add_cid = (\<not> ctx_large_cid ctx \<and> ctx_cid ctx > 0),
      pr_has_large_cid = ctx_large_cid ctx, pr_cid_len = (if ctx_large_cid ctx then encoded_len (ctx_cid ctx) else 0),
      pr_type = PT_IR, pr_profile_id = 0\<rparr>"
proof -
  have t: "detect_packet_type 0xFD = PT_IR"
    by (simp add: detect_packet_type_def packet_type_csp_def packet_type_ccp_def)
  have u: "is_uncompressed_ip_payload (0xFD # xs) = Done False" for xs
    by (simp add: is_uncompressed_ip_payload_def)
  consider (large) "ctx_large_cid ctx" | (small) "\<not> ctx_large_cid ctx" "ctx_cid ctx > 0"
    | (zero) "\<not> ctx_large_cid ctx" "ctx_cid ctx = 0" by (auto simp: word_gt_0)
  then show ?thesis
  proof cases
    case large
    then have "read_large (sdvl (ctx_cid ctx) @ [0, crc] @ inp) = Done (ctx_cid ctx, encoded_len (ctx_cid ctx))"
      using assms by (intro read_sdvl) (simp add: cid_in_space_def)
    moreover have "(sdvl (ctx_cid ctx) @ [0, crc] @ inp) ! encoded_len (ctx_cid ctx) = 0"
      by (simp add: nth_append)
    ultimately show ?thesis
      using large t u encoded_len_bounds(1) [of "ctx_cid ctx"]
      by (simp add: parse_rohc_packet_def parse_typed_def parse_body_def uncompressed_ir_header_def view_def Let_def)
  next
    case small
    have c: "ctx_cid ctx < 2 ^ 4"
      using assms small by (simp add: cid_in_space_def small_cid_max_def word_le_nat_alt word_less_nat_alt)
    then have b: "\<not> bit (ctx_cid ctx) m" if "4 \<le> m" for m using word_less_exp_bit that by blast
    have "(0xE0 OR ucast (ctx_cid ctx) :: byte) AND 0xF0 = 0xE0" by (simp add: byte_bits b)
    moreover have "(ucast ((0xE0 OR ucast (ctx_cid ctx) :: byte) AND 0x0F) :: u32) = ctx_cid ctx"
      by (simp add: u32_bits b)
    ultimately show ?thesis
      using small t u
      by (simp add: parse_rohc_packet_def parse_typed_def parse_body_def uncompressed_ir_header_def view_def Let_def)
  next
    case zero
    then show ?thesis
      using t u
      by (simp add: parse_rohc_packet_def parse_typed_def parse_body_def uncompressed_ir_header_def view_def Let_def)
  qed
qed

text \<open>
  The IR packet of the uncompressed profile. It is produced exactly when the CID belongs to the
  context's CID space and the buffer has room; it consists of a header whose CRC-8, taken over the
  header with the CRC octet zero, is its last octet, followed by the unchanged IP packet; and the receiver's parser
  recognises it as an IR packet of that CID and of profile 0.
\<close>

theorem uncompressed_ir_parsed:
  "emit_uncompressed_ir capacity ctx inp =
     (if cid_in_space ctx \<and> length (uncompressed_ir_header ctx 0) + length inp \<le> capacity
      then Done (uncompressed_ir_header ctx (crc8 (uncompressed_ir_header ctx 0)) @ inp) else Reject) \<and>
   (emit_uncompressed_ir capacity ctx inp = Done out \<longrightarrow>
      (\<exists>p. parse_rohc_packet out (ctx_large_cid ctx) = Done p \<and> pr_type p = PT_IR \<and>
         pr_cid p = ctx_cid ctx \<and> pr_profile_id p = 0))"
  using parse_uncompressed_ir [of ctx "crc8 (uncompressed_ir_header ctx 0)" inp]
  by (auto simp: emit_uncompressed_ir_eq split: if_splits)

theorem uncompressed_ir_parsed_witness:
  "\<exists>out p. emit_uncompressed_ir 64 (context_zero\<lparr>ctx_cid := 9\<rparr>) [0x45, 0] = Done out \<and>
     parse_rohc_packet out False = Done p \<and> pr_type p = PT_IR \<and> pr_cid p = 9"
proof -
  have f: "ctx_cid (context_zero\<lparr>ctx_cid := 9\<rparr>) = 9" "ctx_large_cid (context_zero\<lparr>ctx_cid := 9\<rparr>) = False"
    by (simp_all add: context_zero_def)
  have "cid_in_space (context_zero\<lparr>ctx_cid := 9\<rparr>)" by (simp add: cid_in_space_def f small_cid_max_def)
  moreover have "length (uncompressed_ir_header (context_zero\<lparr>ctx_cid := 9\<rparr>) 0) = 4"
    by (simp add: uncompressed_ir_header_def f)
  ultimately obtain out where "emit_uncompressed_ir 64 (context_zero\<lparr>ctx_cid := 9\<rparr>) [0x45, 0] = Done out"
    using uncompressed_ir_parsed [of 64 "context_zero\<lparr>ctx_cid := 9\<rparr>" "[0x45, 0]"] by simp
  then show ?thesis
    using uncompressed_ir_parsed [of 64 "context_zero\<lparr>ctx_cid := 9\<rparr>" "[0x45, 0]" out] f by auto
qed

end
