(* ===== verification/Chains.thy ===== *)
theory Chains
  imports Context Cid Lists
begin

text \<open>
  The static and dynamic header chains of \<open>core/rfc5225_chains.hpp\<close>. A writer takes the capacity of
  the buffer and the octets written so far and returns them extended; the pointer \<open>end\<close> that some
  writers get is the position \<open>lim\<close>. A reader takes the buffer, the position and the context and
  returns the updated context and the new position. The chains of the standard format are unchecked
  in part: a write past the capacity is a \<open>Fault\<close>, which the emitters must exclude.
\<close>

section \<open>Scalars\<close>

definition rd16 :: "bytes \<Rightarrow> nat \<Rightarrow> (u16 \<Rightarrow> 'a res) \<Rightarrow> 'a res" where
  "rd16 buf i k = rd buf i (\<lambda>a. rd buf (i + 1) (\<lambda>b. k (of_be16 a b)))"

definition rd32 :: "bytes \<Rightarrow> nat \<Rightarrow> (u32 \<Rightarrow> 'a res) \<Rightarrow> 'a res" where
  "rd32 buf i k = rd buf i (\<lambda>a. rd buf (i + 1) (\<lambda>b. rd buf (i + 2) (\<lambda>c. rd buf (i + 3) (\<lambda>d. k (of_be32 a b c d)))))"

definition write_u16 :: "nat \<Rightarrow> bytes \<Rightarrow> u16 \<Rightarrow> bytes res" where
  "write_u16 cap out v = put_all cap out (be16 v) Done"

definition write_u32 :: "nat \<Rightarrow> bytes \<Rightarrow> u32 \<Rightarrow> bytes res" where
  "write_u32 cap out v = put_all cap out (be32 v) Done"

section \<open>Static chains\<close>

definition write_ipv4_static_with_protocol :: "nat \<Rightarrow> bytes \<Rightarrow> rohc_context \<Rightarrow> byte \<Rightarrow> bytes res" where
  "write_ipv4_static_with_protocol cap out ctx protocol =
     put cap out 0x40 (\<lambda>out. put cap out protocol (\<lambda>out.
     seq_res (write_u32 cap out (ctx_ipv4_saddr ctx)) (\<lambda>out.
     write_u32 cap out (ctx_ipv4_daddr ctx))))"

definition write_ipv4_static :: "nat \<Rightarrow> bytes \<Rightarrow> rohc_context \<Rightarrow> bytes res" where
  "write_ipv4_static cap out ctx = write_ipv4_static_with_protocol cap out ctx 17"

definition write_ipv6_static :: "nat \<Rightarrow> bytes \<Rightarrow> rohc_context \<Rightarrow> bytes res" where
  "write_ipv6_static cap out ctx =
     put cap out 0x60 (\<lambda>out. put cap out (ctx_ipv6_next_header ctx) (\<lambda>out.
     put_all cap out (ctx_ipv6_saddr ctx) (\<lambda>out.
     put_all cap out (ctx_ipv6_daddr ctx) Done)))"

definition write_ip_static_with_protocol :: "nat \<Rightarrow> bytes \<Rightarrow> rohc_context \<Rightarrow> byte \<Rightarrow> bytes res" where
  "write_ip_static_with_protocol cap out ctx protocol =
     (if ctx_ip_version ctx = 6 then write_ipv6_static cap out ctx
      else write_ipv4_static_with_protocol cap out ctx protocol)"

definition write_ip_static :: "nat \<Rightarrow> bytes \<Rightarrow> rohc_context \<Rightarrow> bytes res" where
  "write_ip_static cap out ctx =
     (if ctx_ip_version ctx = 6 then write_ipv6_static cap out ctx else write_ipv4_static cap out ctx)"

definition write_udp_static :: "nat \<Rightarrow> bytes \<Rightarrow> rohc_context \<Rightarrow> bytes res" where
  "write_udp_static cap out ctx =
     seq_res (write_u16 cap out (ctx_udp_sport ctx)) (\<lambda>out. write_u16 cap out (ctx_udp_dport ctx))"

definition write_rtp_static :: "nat \<Rightarrow> bytes \<Rightarrow> rohc_context \<Rightarrow> bytes res" where
  "write_rtp_static cap out ctx = write_u32 cap out (rtp_ssrc (ctx_rtp ctx))"

section \<open>Chains of the standard format\<close>

definition write_standard_ip_static :: "nat \<Rightarrow> bytes \<Rightarrow> rohc_context \<Rightarrow> bytes res" where
  "write_standard_ip_static cap out ctx =
     (if ctx_ip_version ctx = 4 then
        if ctx_ipv4_options_len ctx \<noteq> 0 \<or> szsub cap (length out) < 10 then Reject
        else write_ipv4_static_with_protocol cap out ctx (ctx_ipv4_protocol ctx)
      else if ctx_ip_version ctx \<noteq> 6 \<or> ctx_ipv6_extension_len ctx \<noteq> 0 \<or> ctx_ipv6_flow_label ctx \<noteq> 0 \<or>
              szsub cap (length out) < 34 then Reject
      else put cap out 0xC0 (\<lambda>out. put cap out (ctx_ipv6_next_header ctx) (\<lambda>out.
           put_all cap out (ctx_ipv6_saddr ctx) (\<lambda>out.
           put_all cap out (ctx_ipv6_daddr ctx) Done))))"

definition write_standard_ip_dynamic :: "nat \<Rightarrow> bytes \<Rightarrow> rohc_context \<Rightarrow> bool \<Rightarrow> bytes res" where
  "write_standard_ip_dynamic cap out ctx endpoint =
     (if ctx_ip_version ctx = 6 then
        let required = (if endpoint then 5 else 2) in
        if ctx_ipv6_extension_len ctx \<noteq> 0 \<or> szsub cap (length out) < required then Reject
        else put cap out (ctx_ipv6_traffic_class ctx) (\<lambda>out. put cap out (ctx_ipv6_hop_limit ctx) (\<lambda>out.
          if endpoint then put cap out (ctx_reorder_ratio ctx AND 0x03) (\<lambda>out. write_u16 cap out (ctx_msn ctx))
          else Done out))
      else if ctx_ip_version ctx \<noteq> 4 \<or> ctx_ipv4_options_len ctx \<noteq> 0 then Reject
      else let
        behavior = ctx_ipv4_id_behavior ctx AND 0x03;
        id_present = (behavior \<noteq> 3);
        required = 3 + (if id_present then 2 else 0) + (if endpoint then 2 else 0)
      in if szsub cap (length out) < required then Reject
      else let df = drop_bit 1 (ctx_ipv4_flags ctx) AND 0x01 in
        put cap out (if endpoint then push_bit 3 (ctx_reorder_ratio ctx AND 0x03) OR push_bit 2 df OR behavior
                     else push_bit 2 df OR behavior) (\<lambda>out.
        put cap out (ctx_ipv4_tos ctx) (\<lambda>out. put cap out (ctx_ipv4_ttl ctx) (\<lambda>out.
        seq_res (if id_present then write_u16 cap out (ctx_ipv4_id ctx) else Done out) (\<lambda>out.
        if endpoint then write_u16 cap out (ctx_msn ctx) else Done out)))))"

definition write_standard_udp_endpoint_dynamic :: "nat \<Rightarrow> bytes \<Rightarrow> rohc_context \<Rightarrow> bytes res" where
  "write_standard_udp_endpoint_dynamic cap out ctx =
     (if szsub cap (length out) < 5 then Reject
      else seq_res (write_u16 cap out (ctx_udp_check ctx)) (\<lambda>out.
        seq_res (write_u16 cap out (ctx_msn ctx)) (\<lambda>out.
        put cap out (ctx_reorder_ratio ctx AND 0x03) Done)))"

definition write_standard_esp_static :: "nat \<Rightarrow> bytes \<Rightarrow> rohc_context \<Rightarrow> bytes res" where
  "write_standard_esp_static cap out ctx =
     (if szsub cap (length out) < 4 then Reject else write_u32 cap out (ctx_esp_spi ctx))"

definition write_standard_esp_dynamic :: "nat \<Rightarrow> bytes \<Rightarrow> rohc_context \<Rightarrow> bytes res" where
  "write_standard_esp_dynamic cap out ctx =
     (if szsub cap (length out) < 5 then Reject
      else seq_res (write_u32 cap out (ctx_esp_sequence ctx)) (\<lambda>out.
        put cap out (ctx_reorder_ratio ctx AND 0x03) Done))"

definition write_standard_rtp_dynamic :: "nat \<Rightarrow> bytes \<Rightarrow> rohc_context \<Rightarrow> bytes res" where
  "write_standard_rtp_dynamic cap out ctx =
     (let r = ctx_rtp ctx; cc = rtp_vpxcc r AND 0x0F;
          padding = ((rtp_vpxcc r AND 0x20) \<noteq> 0); extension = ((rtp_vpxcc r AND 0x10) \<noteq> 0) in
      if cc \<noteq> 0 \<or> padding \<or> extension \<or> rtp_csrc_list_len r \<noteq> 0 \<or> rtp_extension_len r \<noteq> 0 \<or>
         rtp_padding_len r \<noteq> 0 \<or> szsub cap (length out) < 8 then Reject
      else put cap out (push_bit 5 (ctx_reorder_ratio ctx AND 0x03)) (\<lambda>out.
        put cap out (rtp_mpt r) (\<lambda>out.
        seq_res (write_u16 cap out (rtp_last_seq r)) (\<lambda>out. write_u32 cap out (rtp_last_ts r)))))"

section \<open>Chains of the legacy format\<close>

definition write_empty_list_to :: "nat \<Rightarrow> nat \<Rightarrow> bytes \<Rightarrow> bytes res" where
  \<comment> \<open>\<open>encoding::write_empty_list(p, end)\<close> with \<open>end\<close> at position \<open>lim\<close>\<close>
  "write_empty_list_to cap lim out = (if length out \<ge> lim then Reject else put cap out empty_list_marker Done)"

definition write_ipv4_options :: "nat \<Rightarrow> nat \<Rightarrow> bytes \<Rightarrow> rohc_context \<Rightarrow> bytes res" where
  "write_ipv4_options cap lim out ctx =
     (let n = unat (ctx_ipv4_options_len ctx) in
      if n = 0 then write_empty_list_to cap lim out
      else if n > 40 \<or> szsub lim (length out) < 1 + n then Reject
      else put cap out (0x40 OR ctx_ipv4_options_len ctx) (\<lambda>out.
        copy_in (ctx_ipv4_options ctx) 0 n (\<lambda>v. put_all cap out v Done)))"

definition write_ipv6_extensions :: "nat \<Rightarrow> nat \<Rightarrow> bytes \<Rightarrow> rohc_context \<Rightarrow> bytes res" where
  "write_ipv6_extensions cap lim out ctx =
     (let n = unat (ctx_ipv6_extension_len ctx) in
      if n = 0 then write_empty_list_to cap lim out
      else if n > 127 \<or> n > 128 \<or> szsub lim (length out) < 1 + n then Reject
      else put cap out (0x80 OR ctx_ipv6_extension_len ctx) (\<lambda>out.
        copy_in (ctx_ipv6_extensions ctx) 0 n (\<lambda>v. put_all cap out v Done)))"

definition ignore_reject :: "bytes \<Rightarrow> bytes res \<Rightarrow> bytes res" where
  \<comment> \<open>a call whose boolean result is dropped; a rejected list writes nothing\<close>
  "ignore_reject out r = (case r of Reject \<Rightarrow> Done out | Done x \<Rightarrow> Done x | Fault \<Rightarrow> Fault)"

definition write_ipv4_dynamic :: "nat \<Rightarrow> bytes \<Rightarrow> rohc_context \<Rightarrow> bytes res" where
  "write_ipv4_dynamic cap out ctx =
     put cap out (ctx_ipv4_tos ctx) (\<lambda>out. put cap out (ctx_ipv4_ttl ctx) (\<lambda>out.
     seq_res (write_u16 cap out (ctx_ipv4_id ctx)) (\<lambda>out.
     put cap out (ctx_ipv4_flags ctx) (\<lambda>out.
     ignore_reject out
       (write_ipv4_options cap (length out + 1 + unat (ctx_ipv4_options_len ctx)) out ctx)))))"

definition write_ipv6_dynamic :: "nat \<Rightarrow> bytes \<Rightarrow> rohc_context \<Rightarrow> bytes res" where
  "write_ipv6_dynamic cap out ctx =
     put cap out (ctx_ipv6_traffic_class ctx) (\<lambda>out.
     put cap out (ucast (drop_bit 16 (ctx_ipv6_flow_label ctx) AND 0x0F)) (\<lambda>out.
     put cap out (ucast (drop_bit 8 (ctx_ipv6_flow_label ctx) AND 0xFF)) (\<lambda>out.
     put cap out (ucast (ctx_ipv6_flow_label ctx AND 0xFF)) (\<lambda>out.
     put cap out (ctx_ipv6_hop_limit ctx) (\<lambda>out.
     put cap out (ctx_ipv4_protocol ctx) (\<lambda>out.
     ignore_reject out
       (write_ipv6_extensions cap (length out + 1 + unat (ctx_ipv6_extension_len ctx)) out ctx)))))))"

definition write_ip_dynamic :: "nat \<Rightarrow> bytes \<Rightarrow> rohc_context \<Rightarrow> bytes res" where
  "write_ip_dynamic cap out ctx =
     (if ctx_ip_version ctx = 6 then write_ipv6_dynamic cap out ctx else write_ipv4_dynamic cap out ctx)"

definition read_ipv4_options :: "bytes \<Rightarrow> nat \<Rightarrow> rohc_context \<Rightarrow> (rohc_context \<times> nat) res" where
  "read_ipv4_options inp pos ctx =
     (if pos \<ge> length inp then Reject
      else rd inp pos (\<lambda>marker.
        let pos = pos + 1; ctx = ctx\<lparr>ctx_ipv4_options_len := 0, ctx_ipv4_options := replicate 40 0\<rparr> in
        if is_empty_list marker then Done (ctx, pos)
        else if marker AND 0xC0 \<noteq> 0x40 then Reject
        else let options_len = marker AND 0x3F; n = unat options_len in
          if n = 0 \<or> n > 40 \<or> szsub (length inp) pos < n then Reject
          else copy_in inp pos n (\<lambda>v.
            Done (ctx\<lparr>ctx_ipv4_options_len := options_len, ctx_ipv4_options := v @ replicate (40 - n) 0\<rparr>, pos + n))))"

definition read_ipv6_extensions :: "bytes \<Rightarrow> nat \<Rightarrow> rohc_context \<Rightarrow> (rohc_context \<times> nat) res" where
  "read_ipv6_extensions inp pos ctx =
     (if pos \<ge> length inp then Reject
      else rd inp pos (\<lambda>marker.
        let pos = pos + 1; ctx = ctx\<lparr>ctx_ipv6_extension_len := 0, ctx_ipv6_extensions := replicate 128 0\<rparr> in
        if is_empty_list marker then Done (ctx, pos)
        else if marker AND 0x80 \<noteq> 0x80 then Reject
        else let ext_len = marker AND 0x7F; n = unat ext_len in
          if n = 0 \<or> n > 128 \<or> szsub (length inp) pos < n then Reject
          else copy_in inp pos n (\<lambda>v.
            Done (ctx\<lparr>ctx_ipv6_extension_len := ext_len, ctx_ipv6_extensions := v @ replicate (128 - n) 0\<rparr>, pos + n))))"

definition read_ip_extension_list :: "bytes \<Rightarrow> nat \<Rightarrow> rohc_context \<Rightarrow> (rohc_context \<times> nat) res" where
  "read_ip_extension_list inp pos ctx =
     (if ctx_ip_version ctx = 6 then read_ipv6_extensions inp pos ctx else read_ipv4_options inp pos ctx)"

definition write_udp_dynamic :: "nat \<Rightarrow> bytes \<Rightarrow> rohc_context \<Rightarrow> bytes res" where
  "write_udp_dynamic cap out ctx = write_u16 cap out (ctx_udp_check ctx)"

definition write_udp_lite_dynamic :: "nat \<Rightarrow> bytes \<Rightarrow> rohc_context \<Rightarrow> bytes res" where
  "write_udp_lite_dynamic cap out ctx =
     seq_res (write_u16 cap out (ctx_udp_length_or_coverage ctx)) (\<lambda>out. write_u16 cap out (ctx_udp_check ctx))"

section \<open>CSRC list, header extension and padding of RTP\<close>

definition rtp_extension_bytes_valid :: "rtp_context \<Rightarrow> bool res" where
  "rtp_extension_bytes_valid r =
     (let n = unat (rtp_extension_len r) in
      if n = 0 then Done True
      else if n < 4 \<or> n > 256 \<or> n mod 4 \<noteq> 0 then Done False
      else rd16 (rtp_extension_bytes r) 2 (\<lambda>extension_words. Done (4 + unat extension_words * 4 = n)))"

definition rtp_padding_valid :: "rtp_context \<Rightarrow> bool res" where
  \<comment> \<open>the padding part of \<open>rtp_extras_body_len\<close>\<close>
  "rtp_padding_valid r =
     (let n = unat (rtp_padding_len r) in
      if (rtp_vpxcc r AND 0x20) \<noteq> 0 then
        if n = 0 \<or> n > 255 then Done False
        else rd (rtp_padding_bytes r) (n - 1) (\<lambda>b. Done (b = rtp_padding_len r))
      else Done (n = 0))"

definition rtp_extras_body_len :: "rtp_context \<Rightarrow> u32 res" where
  "rtp_extras_body_len r =
     (let csrc_len = unat (rtp_vpxcc r AND 0x0F) * 4 in
      if unat (rtp_csrc_list_len r) \<noteq> csrc_len \<or> csrc_len > 60 then Reject
      else seq_res (if (rtp_vpxcc r AND 0x10) \<noteq> 0 then
                      if rtp_extension_len r = 0 then Done False else rtp_extension_bytes_valid r
                    else Done (rtp_extension_len r = 0)) (\<lambda>ext_ok.
        if \<not> ext_ok then Reject
        else seq_res (rtp_padding_valid r) (\<lambda>pad_ok.
          if \<not> pad_ok then Reject
          else if csrc_len = 0 \<and> rtp_extension_len r = 0 \<and> rtp_padding_len r = 0 then Done 0
          else let body_len = of_nat (5 + csrc_len + unat (rtp_extension_len r) + unat (rtp_padding_len r)) in
            if body_len \<le> large_cid_max then Done body_len else Reject)))"

definition rtp_extra_flags :: "rtp_context \<Rightarrow> byte" where
  "rtp_extra_flags r =
     (if rtp_csrc_list_len r > 0 then 0x01 else 0) OR (if rtp_extension_len r > 0 then 0x02 else 0) OR
     (if rtp_padding_len r > 0 then 0x04 else 0)"

definition write_rtp_extras_list :: "nat \<Rightarrow> bytes \<Rightarrow> rohc_context \<Rightarrow> bytes res" where
  "write_rtp_extras_list cap out ctx =
     (let r = ctx_rtp ctx in
      seq_res (rtp_extras_body_len r) (\<lambda>body_len.
        if body_len = 0 then write_empty_list cap out
        else if length out \<ge> cap then Reject
        else put cap out 0x80 (\<lambda>out.
          seq_res (write_large cap out body_len) (\<lambda>out.
          if szsub cap (length out) < unat body_len then Reject
          else put cap out (rtp_extra_flags r) (\<lambda>out. put cap out (rtp_vpxcc r AND 0x0F) (\<lambda>out.
            seq_res (write_u16 cap out (rtp_extension_len r)) (\<lambda>out.
            put cap out (rtp_padding_len r) (\<lambda>out.
            copy_in (rtp_csrc_list r) 0 (unat (rtp_csrc_list_len r)) (\<lambda>v. put_all cap out v (\<lambda>out.
            copy_in (rtp_extension_bytes r) 0 (unat (rtp_extension_len r)) (\<lambda>v. put_all cap out v (\<lambda>out.
            copy_in (rtp_padding_bytes r) 0 (unat (rtp_padding_len r)) (\<lambda>v. put_all cap out v Done)))))))))))))"

definition read_rtp_extras_body :: "bytes \<Rightarrow> nat \<Rightarrow> nat \<Rightarrow> rohc_context \<Rightarrow> (rohc_context \<times> nat) res" where
  \<comment> \<open>\<open>read_rtp_extras_list\<close> from the body on; \<open>ctx\<close> has the three lists cleared\<close>
  "read_rtp_extras_body inp pos body_len ctx =
     (let body_end = pos + body_len; r = ctx_rtp ctx in
      rd inp pos (\<lambda>flags.
      if (flags AND NOT 0x07) \<noteq> 0 then Reject
      else rd inp (pos + 1) (\<lambda>csrc_count. rd16 inp (pos + 2) (\<lambda>extension_len. rd inp (pos + 4) (\<lambda>padding_len.
        let pos = pos + 5; csrc_len = unat csrc_count * 4; e = unat extension_len; q = unat padding_len in
        if csrc_count \<noteq> (rtp_vpxcc r AND 0x0F) \<or> csrc_len > 60 then Reject
        else if ((flags AND 0x01) \<noteq> 0) \<noteq> (csrc_len > 0) then Reject
        else if ((flags AND 0x02) \<noteq> 0) \<noteq> ((rtp_vpxcc r AND 0x10) \<noteq> 0) then Reject
        else if ((flags AND 0x04) \<noteq> 0) \<noteq> ((rtp_vpxcc r AND 0x20) \<noteq> 0) then Reject
        else if ((flags AND 0x02) = 0) \<noteq> (e = 0) then Reject
        else if ((flags AND 0x04) = 0) \<noteq> (q = 0) then Reject
        else if e > 256 \<or> q > 255 then Reject
        else if szsub body_end pos \<noteq> csrc_len + e + q then Reject
        else copy_in inp pos csrc_len (\<lambda>csrc. copy_in inp (pos + csrc_len) e (\<lambda>ext.
          copy_in inp (pos + csrc_len + e) q (\<lambda>pad.
          let r = r\<lparr>rtp_csrc_list_len := of_nat csrc_len, rtp_csrc_list := csrc @ replicate (60 - csrc_len) 0,
                rtp_extension_len := extension_len, rtp_extension_bytes := ext @ replicate (256 - e) 0,
                rtp_padding_len := padding_len, rtp_padding_bytes := pad @ replicate (255 - q) 0\<rparr>;
              pos = pos + csrc_len + e + q in
          if pos \<noteq> body_end then Reject
          else seq_res (rtp_extras_body_len r) (\<lambda>validated.
            if unat validated \<noteq> body_len then Reject else Done (ctx\<lparr>ctx_rtp := r\<rparr>, pos))))))))))"

definition clear_rtp_extras :: "rtp_context \<Rightarrow> rtp_context" where
  "clear_rtp_extras r = r\<lparr>rtp_csrc_list_len := 0, rtp_csrc_list := replicate 60 0, rtp_extension_len := 0,
     rtp_extension_bytes := replicate 256 0, rtp_padding_len := 0, rtp_padding_bytes := replicate 255 0\<rparr>"

definition read_rtp_extras_list :: "bytes \<Rightarrow> nat \<Rightarrow> rohc_context \<Rightarrow> (rohc_context \<times> nat) res" where
  "read_rtp_extras_list inp pos ctx =
     (let r = clear_rtp_extras (ctx_rtp ctx) in
      if pos \<ge> length inp then Reject
      else rd inp pos (\<lambda>marker.
        let pos = pos + 1 in
        if is_empty_list marker then Done (ctx\<lparr>ctx_rtp := r\<lparr>rtp_vpxcc := rtp_vpxcc r AND 0xC0\<rparr>\<rparr>, pos)
        else if marker \<noteq> 0x80 then Reject
        else view inp pos (\<lambda>p. seq_res (read_large p) (\<lambda>(body_len, consumed).
          if body_len < 5 \<or> szsub (szsub (length inp) pos) consumed < unat body_len then Reject
          else read_rtp_extras_body inp (pos + consumed) (unat body_len) (ctx\<lparr>ctx_rtp := r\<rparr>)))))"

definition write_rtp_dynamic :: "nat \<Rightarrow> bytes \<Rightarrow> rohc_context \<Rightarrow> bytes res" where
  "write_rtp_dynamic cap out ctx =
     (let r = ctx_rtp ctx in
      if szsub cap (length out) < 8 then Reject
      else let
        version = drop_bit 6 (rtp_vpxcc r) AND 0x03; padding = drop_bit 5 (rtp_vpxcc r) AND 0x01;
        extension = drop_bit 4 (rtp_vpxcc r) AND 0x01; csrc_count = rtp_vpxcc r AND 0x0F;
        marker = drop_bit 7 (rtp_mpt r) AND 0x01; payload_type = rtp_mpt r AND 0x7F in
      put cap out (push_bit 6 version OR push_bit 5 padding OR push_bit 4 extension OR csrc_count) (\<lambda>out.
      put cap out (push_bit 7 marker OR payload_type) (\<lambda>out.
      seq_res (write_u16 cap out (rtp_last_seq r)) (\<lambda>out.
      seq_res (write_u32 cap out (rtp_last_ts r)) (\<lambda>out.
      write_rtp_extras_list cap out ctx)))))"

section \<open>Readers stay in bounds\<close>

text \<open>
  The contract of a reader: from a well-formed context and a position inside the buffer it does not
  fault, and what it returns is a well-formed context and a later position inside the buffer.
\<close>

definition advanced :: "bytes \<Rightarrow> nat \<Rightarrow> rohc_context \<times> nat \<Rightarrow> bool" where
  "advanced inp pos r \<longleftrightarrow> context_wf (fst r) \<and> pos \<le> snd r \<and> snd r \<le> length inp"

lemma safe_rd16 [safe_intros]: "i + 1 < length buf \<Longrightarrow> (\<And>v. safe P (k v)) \<Longrightarrow> safe P (rd16 buf i k)"
  by (simp add: rd16_def)

lemma safe_rd32 [safe_intros]: "i + 3 < length buf \<Longrightarrow> (\<And>v. safe P (k v)) \<Longrightarrow> safe P (rd32 buf i k)"
  by (simp add: rd32_def)

lemma read_ipv4_options_safe:
  "context_wf c \<Longrightarrow> pos \<le> length inp \<Longrightarrow> safe (advanced inp pos) (read_ipv4_options inp pos c)"
  by (auto simp: read_ipv4_options_def Let_def advanced_def context_wf_def)

lemma read_ipv6_extensions_safe:
  "context_wf c \<Longrightarrow> pos \<le> length inp \<Longrightarrow> safe (advanced inp pos) (read_ipv6_extensions inp pos c)"
  by (auto simp: read_ipv6_extensions_def Let_def advanced_def context_wf_def)

lemma rtp_extension_bytes_valid_ok:
  "length (rtp_extension_bytes r) = 256 \<Longrightarrow> \<exists>b. rtp_extension_bytes_valid r = Done b"
  by (auto simp: rtp_extension_bytes_valid_def rd16_def Let_def)

lemma rtp_padding_valid_ok: "length (rtp_padding_bytes r) = 255 \<Longrightarrow> \<exists>b. rtp_padding_valid r = Done b"
  by (auto simp: rtp_padding_valid_def Let_def)

lemma rtp_extras_body_len_safe:
  assumes "length (rtp_extension_bytes r) = 256" and "length (rtp_padding_bytes r) = 255"
  shows "rtp_extras_body_len r \<noteq> Fault"
proof -
  obtain b where b: "rtp_extension_bytes_valid r = Done b" using rtp_extension_bytes_valid_ok assms by blast
  obtain d where d: "rtp_padding_valid r = Done d" using rtp_padding_valid_ok assms by blast
  show ?thesis by (simp add: rtp_extras_body_len_def Let_def b d)
qed

lemma safe_True_iff: "safe (\<lambda>_. True) r \<longleftrightarrow> r \<noteq> Fault"
  by (cases r) auto

lemma unat_times_4: "unat w * 4 \<le> 60 \<Longrightarrow> unat ((w :: byte) * 4) = unat w * 4"
  by (subst unat_mult_lem [THEN iffD1]) auto

lemma read_rtp_extras_body_safe:
  assumes wf: "context_wf c" and len: "pos + body_len \<le> length inp" "5 \<le> body_len"
  shows "safe (advanced inp pos) (read_rtp_extras_body inp pos body_len c)"
  unfolding read_rtp_extras_body_def
  apply (rule safe_Let safe_rd safe_if safe_RejectI safe_rd16 safe_copy_in | (use len in simp; fail) |
      rule safe_seq [where Q = "\<lambda>_. True"])+
  subgoal unfolding safe_True_iff by (rule rtp_extras_body_len_safe) (use wf len in auto)
  subgoal using wf len by (auto simp: advanced_def context_wf_def rtp_context_wf_def unat_times_4)
  done

lemma safe_read_large [safe_intros]:
  assumes "\<And>v n. v \<le> large_cid_max \<Longrightarrow> n = encoded_len v \<Longrightarrow> n \<le> length p \<Longrightarrow> safe P (k (v, n))"
  shows "safe P (seq_res (read_large p) k)"
proof (cases "read_large p")
  case (Done x)
  then obtain v n where x: "read_large p = Done (v, n)" "x = (v, n)" by (cases x) auto
  have "n = encoded_len v" using sdvl.dec_length [OF x(1)] by simp
  with read_large_inv [OF x(1)] show ?thesis by (simp add: x assms)
qed (simp_all add: read_large_safe)

lemma read_rtp_extras_list_safe:
  assumes wf: "context_wf c" and pos: "pos \<le> length inp"
  shows "safe (advanced inp pos) (read_rtp_extras_list inp pos c)"
proof -
  have wf': "context_wf (c\<lparr>ctx_rtp := clear_rtp_extras (ctx_rtp c)\<rparr>)"
       "context_wf (c\<lparr>ctx_rtp := (clear_rtp_extras (ctx_rtp c))\<lparr>rtp_vpxcc := v\<rparr>\<rparr>)" for v
    using wf by (simp_all add: clear_rtp_extras_def context_wf_def rtp_context_wf_def)
  have body: "safe (advanced inp pos) (read_rtp_extras_body inp (Suc (pos + n)) (unat b)
      (c\<lparr>ctx_rtp := clear_rtp_extras (ctx_rtp c)\<rparr>))"
    if "pos < length inp" "n \<le> length inp - Suc pos" "\<not> b < 5" "\<not> szsub (length inp - Suc pos) n < unat b"
    for b :: u32 and n
  proof -
    have "5 \<le> unat b" using that(3) by (simp add: word_less_nat_alt)
    then show ?thesis
      using that by (intro safe_mono [OF read_rtp_extras_body_safe [OF wf'(1)]]) (auto simp: advanced_def)
  qed
  show ?thesis
    using pos wf' unfolding read_rtp_extras_list_def Let_def
    by (auto simp: advanced_def intro!: safe_intros body)
qed

end
