(* ===== verification/IrEmit.thy ===== *)
theory IrEmit
  imports Chains Crc
begin

text \<open>
  The emitters of IR and IR-DYN packets, \<open>core/emit_ir.hpp\<close> and \<open>core/emit_ir_dyn.hpp\<close>. Each packet is
  assembled in a scratch buffer of 2048 octets and copied out whole by \<open>emit_ir_atomically\<close>. The CRC
  octet is written as zero with the prefix and patched at the end.
\<close>

section \<open>Prefix\<close>

definition emit_add_cid_if_needed :: "nat \<Rightarrow> bytes \<Rightarrow> rohc_context \<Rightarrow> bytes res" where
  "emit_add_cid_if_needed cap out ctx =
     (if \<not> ctx_large_cid ctx \<and> \<not> is_small (ctx_cid ctx) then Reject
      else if \<not> ctx_large_cid ctx \<and> ctx_cid ctx > 0 then
        if length out \<ge> cap then Reject
        else put cap out (ucast (0xE0 OR (ctx_cid ctx AND 0x0F))) Done
      else Done out)"

definition emit_large_cid :: "nat \<Rightarrow> bytes \<Rightarrow> rohc_context \<Rightarrow> bytes res" where
  \<comment> \<open>\<open>if(ctx.large_cid && !cid::write_large(p, end, ctx.cid)) return false;\<close>\<close>
  "emit_large_cid cap out ctx = (if ctx_large_cid ctx then write_large cap out (ctx_cid ctx) else Done out)"

definition emit_ir_prefix :: "nat \<Rightarrow> bytes \<Rightarrow> rohc_context \<Rightarrow> byte \<Rightarrow> (bytes \<times> nat) res" where
  \<comment> \<open>the octets and \<open>crc_pos\<close>\<close>
  "emit_ir_prefix cap out ctx profile =
     seq_res (emit_add_cid_if_needed cap out ctx) (\<lambda>out.
       if length out \<ge> cap then Reject
       else put cap out 0xFD (\<lambda>out.
         seq_res (emit_large_cid cap out ctx) (\<lambda>out.
         if szsub cap (length out) < 2 then Reject
         else put cap out profile (\<lambda>out. put cap out 0 (\<lambda>out. Done (out, length out - 1))))))"

definition patch_crc :: "bytes \<Rightarrow> nat \<Rightarrow> bytes" where
  \<comment> \<open>\<open>*crc_pos = utils::crc8(out, p - out)\<close>\<close>
  "patch_crc out crc_pos = out[crc_pos := crc8 out]"

definition legacy_ir_lengths :: "rohc_context \<Rightarrow> bool \<Rightarrow> nat \<Rightarrow> nat \<Rightarrow> (nat \<times> nat) res" where
  \<comment> \<open>\<open>(static_len, dynamic_len)\<close>\<close>
  "legacy_ir_lengths ctx with_rtp transport_static_len transport_dynamic_len =
     seq_res
       (if ctx_ip_version ctx = 4 then
          if unat (ctx_ipv4_options_len ctx) > 40 then Reject
          else Done (10 + transport_static_len, 6 + unat (ctx_ipv4_options_len ctx) + transport_dynamic_len)
        else if ctx_ip_version ctx = 6 then
          if unat (ctx_ipv6_extension_len ctx) > 127 \<or> unat (ctx_ipv6_extension_len ctx) > 128 then Reject
          else Done (34 + transport_static_len, 7 + unat (ctx_ipv6_extension_len ctx) + transport_dynamic_len)
        else Reject)
       (\<lambda>(static_len, dynamic_len).
          if with_rtp then
            seq_res (rtp_extras_body_len (ctx_rtp ctx)) (\<lambda>body_len.
              let extras_len = (if body_len = 0 then 1 else 1 + encoded_len body_len + unat body_len) in
              Done (static_len, dynamic_len + (8 + extras_len)))
          else Done (static_len, dynamic_len))"

definition legacy_ir_capacity_ok :: "nat \<Rightarrow> rohc_context \<Rightarrow> bool \<Rightarrow> bool \<Rightarrow> nat \<Rightarrow> nat \<Rightarrow> bool \<Rightarrow> unit res" where
  \<comment> \<open>\<open>Done ()\<close> is \<open>true\<close>\<close>
  "legacy_ir_capacity_ok cap ctx dynamic_only with_rtp transport_static_len transport_dynamic_len trailing_mode =
     (if ctx_large_cid ctx \<and> ctx_cid ctx > large_cid_max \<or> \<not> ctx_large_cid ctx \<and> \<not> is_small (ctx_cid ctx) then Reject
      else seq_res (legacy_ir_lengths ctx with_rtp transport_static_len transport_dynamic_len)
        (\<lambda>(static_len, dynamic_len).
          let cid_len = (if ctx_large_cid ctx then encoded_len (ctx_cid ctx)
                         else if \<not> ctx_large_cid ctx \<and> ctx_cid ctx > 0 then 1 else 0);
              required = cid_len + 3 + (if dynamic_only then 0 else static_len) + dynamic_len +
                         (if trailing_mode then 1 else 0)
          in if cap \<ge> required then Done () else Reject))"

section \<open>IR packets of the standard format\<close>

definition emit_ir_esp_into :: "nat \<Rightarrow> rohc_context \<Rightarrow> bytes res" where
  "emit_ir_esp_into cap ctx =
     seq_res (emit_ir_prefix cap [] ctx 0x03) (\<lambda>(out, crc_pos).
     seq_res (write_standard_ip_static cap out ctx) (\<lambda>out.
     seq_res (write_standard_esp_static cap out ctx) (\<lambda>out.
     seq_res (write_standard_ip_dynamic cap out ctx False) (\<lambda>out.
     seq_res (write_standard_esp_dynamic cap out ctx) (\<lambda>out. Done (patch_crc out crc_pos))))))"

definition emit_ir_ip_into :: "nat \<Rightarrow> rohc_context \<Rightarrow> bytes res" where
  "emit_ir_ip_into cap ctx =
     seq_res (emit_ir_prefix cap [] ctx 0x04) (\<lambda>(out, crc_pos).
     seq_res (write_standard_ip_static cap out ctx) (\<lambda>out.
     seq_res (write_standard_ip_dynamic cap out ctx True) (\<lambda>out. Done (patch_crc out crc_pos))))"

definition emit_ir_udp_into :: "nat \<Rightarrow> rohc_context \<Rightarrow> bytes res" where
  "emit_ir_udp_into cap ctx =
     seq_res (emit_ir_prefix cap [] ctx 0x02) (\<lambda>(out, crc_pos).
     seq_res (write_standard_ip_static cap out ctx) (\<lambda>out.
     if szsub cap (length out) < 4 then Reject
     else seq_res (write_udp_static cap out ctx) (\<lambda>out.
     seq_res (write_standard_ip_dynamic cap out ctx False) (\<lambda>out.
     seq_res (write_standard_udp_endpoint_dynamic cap out ctx) (\<lambda>out. Done (patch_crc out crc_pos))))))"

definition emit_ir_rtp_into :: "nat \<Rightarrow> rohc_context \<Rightarrow> bytes res" where
  "emit_ir_rtp_into cap ctx =
     seq_res (emit_ir_prefix cap [] ctx 0x01) (\<lambda>(out, crc_pos).
     seq_res (write_standard_ip_static cap out ctx) (\<lambda>out.
     if szsub cap (length out) < 8 then Reject
     else seq_res (write_udp_static cap out ctx) (\<lambda>out.
     seq_res (write_rtp_static cap out ctx) (\<lambda>out.
     seq_res (write_standard_ip_dynamic cap out ctx False) (\<lambda>out.
     seq_res (write_udp_dynamic cap out ctx) (\<lambda>out.
     seq_res (write_standard_rtp_dynamic cap out ctx) (\<lambda>out. Done (patch_crc out crc_pos))))))))"

section \<open>Packets of the legacy format\<close>

definition mode_octet :: "rohc_context \<Rightarrow> byte" where
  "mode_octet ctx = push_bit 2 ((case ctx_mode ctx of ModeUncompressed \<Rightarrow> 0 | Optimistic \<Rightarrow> 1 | Reliable \<Rightarrow> 2) AND 0x03)"

definition emit_legacy_prefix :: "nat \<Rightarrow> rohc_context \<Rightarrow> byte \<Rightarrow> byte \<Rightarrow> (bytes \<times> nat) res" where
  \<comment> \<open>the common start of the UDP-Lite emitters: CID, packet type, profile and room for the CRC\<close>
  "emit_legacy_prefix cap ctx packet_type profile =
     seq_res (emit_add_cid_if_needed cap [] ctx) (\<lambda>out.
     put cap out packet_type (\<lambda>out.
     seq_res (emit_large_cid cap out ctx) (\<lambda>out.
     put cap out profile (\<lambda>out. put cap out 0 (\<lambda>out. Done (out, length out - 1))))))"

definition emit_ir_udp_lite_into :: "nat \<Rightarrow> rohc_context \<Rightarrow> bytes res" where
  "emit_ir_udp_lite_into cap ctx =
     seq_res (legacy_ir_capacity_ok cap ctx False False 4 4 True) (\<lambda>_.
     seq_res (emit_legacy_prefix cap ctx 0xFD 0x08) (\<lambda>(out, crc_pos).
     seq_res (write_ip_static_with_protocol cap out ctx (ctx_ipv4_protocol ctx)) (\<lambda>out.
     seq_res (write_udp_static cap out ctx) (\<lambda>out.
     seq_res (write_ip_dynamic cap out ctx) (\<lambda>out.
     seq_res (write_udp_lite_dynamic cap out ctx) (\<lambda>out.
     put cap (patch_crc out crc_pos) (mode_octet ctx) Done))))))"

definition emit_ir_rtp_udp_lite_into :: "nat \<Rightarrow> rohc_context \<Rightarrow> bytes res" where
  "emit_ir_rtp_udp_lite_into cap ctx =
     seq_res (legacy_ir_capacity_ok cap ctx False True 8 4 True) (\<lambda>_.
     seq_res (emit_legacy_prefix cap ctx 0xFD 0x07) (\<lambda>(out, crc_pos).
     seq_res (write_ip_static_with_protocol cap out ctx (ctx_ipv4_protocol ctx)) (\<lambda>out.
     seq_res (write_udp_static cap out ctx) (\<lambda>out.
     seq_res (write_rtp_static cap out ctx) (\<lambda>out.
     seq_res (write_ip_dynamic cap out ctx) (\<lambda>out.
     seq_res (write_udp_lite_dynamic cap out ctx) (\<lambda>out.
     seq_res (write_rtp_dynamic cap out ctx) (\<lambda>out.
     put cap (patch_crc out crc_pos) (mode_octet ctx) Done))))))))"

definition emit_ir_dyn_udp_lite_into :: "nat \<Rightarrow> rohc_context \<Rightarrow> bytes res" where
  "emit_ir_dyn_udp_lite_into cap ctx =
     seq_res (legacy_ir_capacity_ok cap ctx True False 0 4 False) (\<lambda>_.
     seq_res (emit_legacy_prefix cap ctx 0xF8 0x08) (\<lambda>(out, crc_pos).
     seq_res (write_ip_dynamic cap out ctx) (\<lambda>out.
     seq_res (write_udp_lite_dynamic cap out ctx) (\<lambda>out. Done (patch_crc out crc_pos)))))"

definition emit_ir_dyn_rtp_udp_lite_into :: "nat \<Rightarrow> rohc_context \<Rightarrow> bytes res" where
  "emit_ir_dyn_rtp_udp_lite_into cap ctx =
     seq_res (legacy_ir_capacity_ok cap ctx True True 0 4 False) (\<lambda>_.
     seq_res (emit_legacy_prefix cap ctx 0xF8 0x07) (\<lambda>(out, crc_pos).
     seq_res (write_ip_dynamic cap out ctx) (\<lambda>out.
     seq_res (write_udp_lite_dynamic cap out ctx) (\<lambda>out.
     seq_res (write_rtp_dynamic cap out ctx) (\<lambda>out. Done (patch_crc out crc_pos))))))"

section \<open>Atomic emission\<close>

definition emit_ir_atomically :: "nat \<Rightarrow> rohc_context \<Rightarrow> (nat \<Rightarrow> rohc_context \<Rightarrow> bytes res) \<Rightarrow> bytes res" where
  "emit_ir_atomically cap ctx emitter =
     seq_res (emitter 2048 ctx) (\<lambda>scratch.
       if length scratch > cap then Reject else put_all cap [] scratch Done)"

definition emit_ir_esp :: "nat \<Rightarrow> rohc_context \<Rightarrow> bytes res" where
  "emit_ir_esp cap ctx = emit_ir_atomically cap ctx emit_ir_esp_into"

definition emit_ir_ip :: "nat \<Rightarrow> rohc_context \<Rightarrow> bytes res" where
  "emit_ir_ip cap ctx = emit_ir_atomically cap ctx emit_ir_ip_into"

definition emit_ir_udp_lite :: "nat \<Rightarrow> rohc_context \<Rightarrow> bytes res" where
  "emit_ir_udp_lite cap ctx = emit_ir_atomically cap ctx emit_ir_udp_lite_into"

definition emit_ir_udp :: "nat \<Rightarrow> rohc_context \<Rightarrow> bytes res" where
  "emit_ir_udp cap ctx = emit_ir_atomically cap ctx emit_ir_udp_into"

definition emit_ir_rtp_udp_lite :: "nat \<Rightarrow> rohc_context \<Rightarrow> bytes res" where
  "emit_ir_rtp_udp_lite cap ctx = emit_ir_atomically cap ctx emit_ir_rtp_udp_lite_into"

definition emit_ir_rtp :: "nat \<Rightarrow> rohc_context \<Rightarrow> bytes res" where
  "emit_ir_rtp cap ctx = emit_ir_atomically cap ctx emit_ir_rtp_into"

definition emit_ir_dyn_esp :: "nat \<Rightarrow> rohc_context \<Rightarrow> bytes res" where
  "emit_ir_dyn_esp cap ctx = emit_ir_esp cap ctx"

definition emit_ir_dyn_ip :: "nat \<Rightarrow> rohc_context \<Rightarrow> bytes res" where
  "emit_ir_dyn_ip cap ctx = emit_ir_ip cap ctx"

definition emit_ir_dyn_udp :: "nat \<Rightarrow> rohc_context \<Rightarrow> bytes res" where
  "emit_ir_dyn_udp cap ctx = emit_ir_udp cap ctx"

definition emit_ir_dyn_udp_lite :: "nat \<Rightarrow> rohc_context \<Rightarrow> bytes res" where
  "emit_ir_dyn_udp_lite cap ctx = emit_ir_atomically cap ctx emit_ir_dyn_udp_lite_into"

definition emit_ir_dyn_rtp_udp_lite :: "nat \<Rightarrow> rohc_context \<Rightarrow> bytes res" where
  "emit_ir_dyn_rtp_udp_lite cap ctx = emit_ir_atomically cap ctx emit_ir_dyn_rtp_udp_lite_into"

definition emit_ir_dyn_rtp :: "nat \<Rightarrow> rohc_context \<Rightarrow> bytes res" where
  "emit_ir_dyn_rtp cap ctx = emit_ir_rtp cap ctx"

section \<open>What the standard emitters produce\<close>

text \<open>
  The frame of an IR packet: Add-CID octet, packet type, large CID, profile octet, CRC, static chain and
  dynamic chain. The emitters are shown to return exactly this frame, or to reject.
\<close>

definition cid_prefix :: "rohc_context \<Rightarrow> bytes" where
  "cid_prefix ctx = (if \<not> ctx_large_cid ctx \<and> ctx_cid ctx > 0 then [ucast (0xE0 OR (ctx_cid ctx AND 0x0F))] else [])"

definition large_cid_field :: "rohc_context \<Rightarrow> bytes" where
  "large_cid_field ctx = (if ctx_large_cid ctx then sdvl (ctx_cid ctx) else [])"

definition ir_head :: "rohc_context \<Rightarrow> byte \<Rightarrow> bytes" where
  "ir_head ctx pid = cid_prefix ctx @ [0xFD] @ large_cid_field ctx @ [pid]"

definition std_ip_static :: "rohc_context \<Rightarrow> bytes" where
  "std_ip_static ctx = (if ctx_ip_version ctx = 4
     then [0x40, ctx_ipv4_protocol ctx] @ be32 (ctx_ipv4_saddr ctx) @ be32 (ctx_ipv4_daddr ctx)
     else [0xC0, ctx_ipv6_next_header ctx] @ ctx_ipv6_saddr ctx @ ctx_ipv6_daddr ctx)"

definition ipv4_control :: "rohc_context \<Rightarrow> bool \<Rightarrow> byte" where
  "ipv4_control ctx endpoint =
     (let df = drop_bit 1 (ctx_ipv4_flags ctx) AND 0x01; behavior = ctx_ipv4_id_behavior ctx AND 0x03 in
      if endpoint then push_bit 3 (ctx_reorder_ratio ctx AND 0x03) OR push_bit 2 df OR behavior
      else push_bit 2 df OR behavior)"

definition std_ip_dynamic :: "rohc_context \<Rightarrow> bool \<Rightarrow> bytes" where
  "std_ip_dynamic ctx endpoint = (if ctx_ip_version ctx = 6
     then [ctx_ipv6_traffic_class ctx, ctx_ipv6_hop_limit ctx] @
       (if endpoint then [ctx_reorder_ratio ctx AND 0x03] @ be16 (ctx_msn ctx) else [])
     else [ipv4_control ctx endpoint, ctx_ipv4_tos ctx, ctx_ipv4_ttl ctx] @
       (if ctx_ipv4_id_behavior ctx AND 0x03 \<noteq> 3 then be16 (ctx_ipv4_id ctx) else []) @
       (if endpoint then be16 (ctx_msn ctx) else []))"

definition std_transport_static :: "profile \<Rightarrow> rohc_context \<Rightarrow> bytes" where
  "std_transport_static pr ctx = (case pr of
      UDP \<Rightarrow> be16 (ctx_udp_sport ctx) @ be16 (ctx_udp_dport ctx)
    | RTP \<Rightarrow> be16 (ctx_udp_sport ctx) @ be16 (ctx_udp_dport ctx) @ be32 (rtp_ssrc (ctx_rtp ctx))
    | ESP \<Rightarrow> be32 (ctx_esp_spi ctx) | _ \<Rightarrow> [])"

definition std_transport_dynamic :: "profile \<Rightarrow> rohc_context \<Rightarrow> bytes" where
  "std_transport_dynamic pr ctx = (case pr of
      UDP \<Rightarrow> be16 (ctx_udp_check ctx) @ be16 (ctx_msn ctx) @ [ctx_reorder_ratio ctx AND 0x03]
    | RTP \<Rightarrow> be16 (ctx_udp_check ctx) @ [push_bit 5 (ctx_reorder_ratio ctx AND 0x03), rtp_mpt (ctx_rtp ctx)] @
        be16 (rtp_last_seq (ctx_rtp ctx)) @ be32 (rtp_last_ts (ctx_rtp ctx))
    | ESP \<Rightarrow> be32 (ctx_esp_sequence ctx) @ [ctx_reorder_ratio ctx AND 0x03] | _ \<Rightarrow> [])"

definition ir_chains :: "profile \<Rightarrow> rohc_context \<Rightarrow> bytes" where
  "ir_chains pr ctx = std_ip_static ctx @ std_transport_static pr ctx @ std_ip_dynamic ctx (pr = IP) @
     std_transport_dynamic pr ctx"

definition ir_frame :: "profile \<Rightarrow> byte \<Rightarrow> rohc_context \<Rightarrow> bytes" where
  "ir_frame pr pid ctx = ir_head ctx pid @ [crc8 (ir_head ctx pid @ [0] @ ir_chains pr ctx)] @ ir_chains pr ctx"

definition rtp_plain :: "rtp_context \<Rightarrow> bool" where
  \<comment> \<open>no CSRC list, header extension or padding\<close>
  "rtp_plain r \<longleftrightarrow> rtp_vpxcc r AND 0x0F = 0 \<and> rtp_vpxcc r AND 0x20 = 0 \<and> rtp_vpxcc r AND 0x10 = 0 \<and>
     rtp_csrc_list_len r = 0 \<and> rtp_extension_len r = 0 \<and> rtp_padding_len r = 0"

definition std_ip_ok :: "rohc_context \<Rightarrow> bool" where
  "std_ip_ok ctx \<longleftrightarrow> ctx_ip_version ctx = 4 \<and> ctx_ipv4_options_len ctx = 0 \<or>
     ctx_ip_version ctx = 6 \<and> ctx_ipv6_extension_len ctx = 0 \<and> ctx_ipv6_flow_label ctx = 0"

definition ir_emittable :: "profile \<Rightarrow> rohc_context \<Rightarrow> bool" where
  "ir_emittable pr ctx \<longleftrightarrow> is_valid_for_space (ctx_cid ctx) (ctx_large_cid ctx) \<and> std_ip_ok ctx \<and>
     (pr = RTP \<longrightarrow> rtp_plain (ctx_rtp ctx))"

lemma length_large_cid_field: "length (large_cid_field ctx) = (if ctx_large_cid ctx then encoded_len (ctx_cid ctx) else 0)"
  by (simp add: large_cid_field_def)

lemma length_ir_head: "length (ir_head ctx pid) \<le> 5"
  using encoded_len_bounds [of "ctx_cid ctx"] by (simp add: ir_head_def cid_prefix_def large_cid_field_def)

lemma emit_ir_prefix_eq:
  "16 \<le> cap \<Longrightarrow> emit_ir_prefix cap [] ctx pid =
     (if is_valid_for_space (ctx_cid ctx) (ctx_large_cid ctx) then Done (ir_head ctx pid @ [0], length (ir_head ctx pid))
      else Reject)"
  using encoded_len_bounds [of "ctx_cid ctx"]
  by (auto simp: emit_ir_prefix_def emit_add_cid_if_needed_def emit_large_cid_def write_large_eq ir_head_def
      cid_prefix_def large_cid_field_def is_valid_for_space_def)

lemma write_standard_ip_static_eq:
  assumes "context_wf ctx" and "length out + 34 \<le> cap"
  shows "write_standard_ip_static cap out ctx = (if std_ip_ok ctx then Done (out @ std_ip_static ctx) else Reject)"
  using assms
  by (auto simp: write_standard_ip_static_def std_ip_ok_def std_ip_static_def write_ipv4_static_with_protocol_def
      write_u32_def context_wf_def)

lemma write_standard_ip_dynamic_eq:
  assumes "std_ip_ok ctx" and "length out + 7 \<le> cap"
  shows "write_standard_ip_dynamic cap out ctx e = Done (out @ std_ip_dynamic ctx e)"
  using assms
  by (auto simp: write_standard_ip_dynamic_def std_ip_ok_def std_ip_dynamic_def ipv4_control_def write_u16_def Let_def)

lemma length_std:
  assumes "context_wf ctx"
  shows "length (std_ip_static ctx) \<le> 34" "length (std_ip_dynamic ctx e) \<le> 7"
    "length (std_transport_static pr ctx) \<le> 8" "length (std_transport_dynamic pr ctx) \<le> 10"
  using assms
  by (auto simp: std_ip_static_def std_ip_dynamic_def std_transport_static_def std_transport_dynamic_def context_wf_def
      split: profile.splits)

lemma length_ir_frame: "context_wf ctx \<Longrightarrow> length (ir_frame pr pid ctx) \<le> 65"
  using length_std(1) [of ctx] length_std(2) [of ctx "pr = IP"] length_std(3,4) [of ctx pr] length_ir_head [of ctx pid]
  by (simp add: ir_frame_def ir_chains_def)

lemma patch_crc_frame:
  "patch_crc (ir_head ctx pid @ 0 # ir_chains pr ctx) (length (ir_head ctx pid)) = ir_frame pr pid ctx"
  by (simp add: patch_crc_def ir_frame_def)

lemmas std_writer_defs = write_udp_static_def write_rtp_static_def write_udp_dynamic_def write_u16_def write_u32_def
  write_standard_esp_static_def write_standard_esp_dynamic_def write_standard_udp_endpoint_dynamic_def
  write_standard_rtp_dynamic_def std_transport_static_def std_transport_dynamic_def

lemma emit_ir_into_eq:
  assumes "context_wf ctx" and "128 \<le> cap"
  shows "emit_ir_esp_into cap ctx = (if ir_emittable ESP ctx then Done (ir_frame ESP 0x03 ctx) else Reject)"
    and "emit_ir_ip_into cap ctx = (if ir_emittable IP ctx then Done (ir_frame IP 0x04 ctx) else Reject)"
    and "emit_ir_udp_into cap ctx = (if ir_emittable UDP ctx then Done (ir_frame UDP 0x02 ctx) else Reject)"
    and "emit_ir_rtp_into cap ctx = (if ir_emittable RTP ctx then Done (ir_frame RTP 0x01 ctx) else Reject)"
proof -
  note defs = emit_ir_prefix_eq write_standard_ip_static_eq [OF assms(1)] write_standard_ip_dynamic_eq ir_emittable_def
    ir_chains_def std_writer_defs patch_crc_frame [unfolded ir_chains_def std_transport_static_def std_transport_dynamic_def]
  have h: "length (ir_head ctx pid) \<le> 5" for pid by (rule length_ir_head)
  note facts = assms(2) length_std(1) [OF assms(1)] length_std(2) [OF assms(1), of False]
    length_std(2) [OF assms(1), of True]
  show "emit_ir_esp_into cap ctx = (if ir_emittable ESP ctx then Done (ir_frame ESP 0x03 ctx) else Reject)"
    using facts h [of 3] patch_crc_frame [of ctx 3 ESP] by (auto simp: emit_ir_esp_into_def defs)
  show "emit_ir_ip_into cap ctx = (if ir_emittable IP ctx then Done (ir_frame IP 0x04 ctx) else Reject)"
    using facts h [of 4] patch_crc_frame [of ctx 4 IP] by (auto simp: emit_ir_ip_into_def defs)
  show "emit_ir_udp_into cap ctx = (if ir_emittable UDP ctx then Done (ir_frame UDP 0x02 ctx) else Reject)"
    using facts h [of 2] patch_crc_frame [of ctx 2 UDP] by (auto simp: emit_ir_udp_into_def defs)
  show "emit_ir_rtp_into cap ctx = (if ir_emittable RTP ctx then Done (ir_frame RTP 0x01 ctx) else Reject)"
    using facts h [of 1] patch_crc_frame [of ctx 1 RTP]
    by (auto simp: emit_ir_rtp_into_def defs rtp_plain_def Let_def)
qed

lemma emit_ir_eq:
  assumes "context_wf ctx"
  shows "emit_ir_esp cap ctx =
      (if ir_emittable ESP ctx \<and> length (ir_frame ESP 0x03 ctx) \<le> cap then Done (ir_frame ESP 0x03 ctx) else Reject)"
    and "emit_ir_ip cap ctx =
      (if ir_emittable IP ctx \<and> length (ir_frame IP 0x04 ctx) \<le> cap then Done (ir_frame IP 0x04 ctx) else Reject)"
    and "emit_ir_udp cap ctx =
      (if ir_emittable UDP ctx \<and> length (ir_frame UDP 0x02 ctx) \<le> cap then Done (ir_frame UDP 0x02 ctx) else Reject)"
    and "emit_ir_rtp cap ctx =
      (if ir_emittable RTP ctx \<and> length (ir_frame RTP 0x01 ctx) \<le> cap then Done (ir_frame RTP 0x01 ctx) else Reject)"
  by (simp_all add: emit_ir_esp_def emit_ir_ip_def emit_ir_udp_def emit_ir_rtp_def emit_ir_atomically_def
      emit_ir_into_eq [OF assms])

end
