(* ===== verification/IrDecode.thy ===== *)
theory IrDecode
  imports Chains Crc
begin

text \<open>
  The decoders of IR packets, \<open>core/decode_ir.hpp\<close>: the decode-only legacy format, the standard format
  of RFC 5225, and the combination that accepts a packet when at least one of the two formats does and
  both agree. A decoder returns the updated context and the length of the header. The context a
  rejecting decoder leaves behind is not described: the callers modelled here discard it.
\<close>

section \<open>Helpers\<close>

definition available :: "nat \<Rightarrow> nat \<Rightarrow> nat \<Rightarrow> bool" where
  "available len pos required \<longleftrightarrow> pos \<le> len \<and> required \<le> szsub len pos"

definition read_large_cid_if_present :: "bytes \<Rightarrow> nat \<Rightarrow> rohc_context \<Rightarrow> nat res" where
  \<comment> \<open>the new position\<close>
  "read_large_cid_if_present inp pos ctx =
     (if \<not> ctx_large_cid ctx then Done pos
      else if pos \<ge> length inp then Reject
      else view inp pos (\<lambda>p. seq_res (read_large p) (\<lambda>(wire_cid, consumed).
        if wire_cid \<noteq> ctx_cid ctx then Reject else Done (pos + consumed))))"

definition read_legacy_mode :: "bytes \<Rightarrow> nat \<Rightarrow> mode res" where
  "read_legacy_mode inp pos =
     (if pos \<ge> length inp then Reject
      else rd inp pos (\<lambda>value.
        if value AND 0xF3 \<noteq> 0 then Reject
        else let wire_mode = drop_bit 2 value AND 0x03 in
          if wire_mode < 1 \<or> wire_mode > 2 then Reject
          else Done (if wire_mode = 1 then Optimistic else Reliable)))"

definition payload_after_header :: "bytes \<Rightarrow> nat \<Rightarrow> bytes res" where
  "payload_after_header base header_len =
     (if header_len > length base then Reject else view base header_len Done)"

definition ipv4_options_extra_len :: "bytes \<Rightarrow> nat \<Rightarrow> nat res" where
  "ipv4_options_extra_len inp marker_pos =
     (if marker_pos \<ge> length inp then Reject
      else rd inp marker_pos (\<lambda>marker.
        if is_empty_list marker then Done 0
        else if marker AND 0xC0 \<noteq> 0x40 then Reject
        else let extra_len = unat (marker AND 0x3F) in
          if extra_len > 0 \<and> extra_len \<le> 40 \<and> szsub (szsub (length inp) marker_pos) 1 \<ge> extra_len
          then Done extra_len else Reject))"

definition crc8_exact_matches :: "bytes \<Rightarrow> nat \<Rightarrow> nat \<Rightarrow> byte \<Rightarrow> bool res" where
  "crc8_exact_matches inp crc_len crc_index received_crc =
     (if crc_len > 1024 \<or> length inp < crc_len \<or> crc_index \<ge> crc_len then Done False
      else copy_in inp 0 crc_len (\<lambda>crc_buf. Done (crc8 (crc_buf[crc_index := 0]) = received_crc)))"

definition read_ip_static_chain :: "bytes \<Rightarrow> nat \<Rightarrow> rohc_context \<Rightarrow> (rohc_context \<times> nat) res" where
  "read_ip_static_chain inp pos ctx =
     (if pos \<ge> length inp then Reject
      else rd inp pos (\<lambda>b.
        let version = drop_bit 4 b in
        if version = 4 then
          let ctx = ctx\<lparr>ctx_ip_version := 4\<rparr>; pos = pos + 1 in
          guard (\<not> pos \<ge> length inp) (rd inp pos (\<lambda>protocol.
            let ctx = ctx\<lparr>ctx_ipv4_protocol := protocol\<rparr>; pos = pos + 1 in
            guard (\<not> szsub (length inp) pos < 8) (rd32 inp pos (\<lambda>s. rd32 inp (pos + 4) (\<lambda>d.
              Done (ctx\<lparr>ctx_ipv4_saddr := s, ctx_ipv4_daddr := d\<rparr>, pos + 8))))))
        else if version = 6 then
          let ctx = ctx\<lparr>ctx_ip_version := 6\<rparr>; pos = pos + 1 in
          guard (\<not> szsub (length inp) pos < 33) (rd inp pos (\<lambda>nxt.
            copy_in inp (pos + 1) 16 (\<lambda>s. copy_in inp (pos + 17) 16 (\<lambda>d.
              Done (ctx\<lparr>ctx_ipv6_next_header := nxt, ctx_ipv6_saddr := s, ctx_ipv6_daddr := d,
                        ctx_ipv4_protocol := nxt\<rparr>, pos + 33)))))
        else Reject))"

definition read_ip_dynamic_chain :: "bytes \<Rightarrow> nat \<Rightarrow> rohc_context \<Rightarrow> (rohc_context \<times> nat) res" where
  "read_ip_dynamic_chain inp pos ctx =
     (if ctx_ip_version ctx = 6 then
        guard (\<not> szsub (length inp) pos < 7)
          (rd inp pos (\<lambda>tc. rd inp (pos + 1) (\<lambda>f0. rd inp (pos + 2) (\<lambda>f1. rd inp (pos + 3) (\<lambda>f2.
           rd inp (pos + 4) (\<lambda>hl. rd inp (pos + 5) (\<lambda>nh.
             read_ipv6_extensions inp (pos + 6) (ctx\<lparr>ctx_ipv6_traffic_class := tc,
               ctx_ipv6_flow_label := push_bit 16 (ucast (f0 AND 0x0F)) OR push_bit 8 (ucast f1) OR ucast f2,
               ctx_ipv6_hop_limit := hl, ctx_ipv4_protocol := nh\<rparr>))))))))
      else guard (\<not> szsub (length inp) pos < 6)
          (rd inp pos (\<lambda>tos. rd inp (pos + 1) (\<lambda>ttl. rd16 inp (pos + 2) (\<lambda>ipid. rd inp (pos + 4) (\<lambda>flags.
             read_ipv4_options inp (pos + 5) (ctx\<lparr>ctx_ipv4_tos := tos, ctx_ipv4_ttl := ttl,
               ctx_ipv4_id := ipid, ctx_ipv4_flags := flags\<rparr>)))))))"

definition read_legacy_ip_dynamic_consistent :: "bytes \<Rightarrow> nat \<Rightarrow> rohc_context \<Rightarrow> (rohc_context \<times> nat) res" where
  "read_legacy_ip_dynamic_consistent inp pos ctx =
     (let static_terminal = (if ctx_ip_version ctx = 6 then ctx_ipv6_next_header ctx else ctx_ipv4_protocol ctx) in
      seq_res (read_ip_dynamic_chain inp pos ctx) (\<lambda>(ctx, pos).
        guard (ctx_ip_version ctx \<noteq> 6 \<or> ctx_ipv4_protocol ctx = static_terminal) (Done (ctx, pos))))"

definition ip_dynamic_extra_len :: "bytes \<Rightarrow> nat \<Rightarrow> rohc_context \<Rightarrow> nat res" where
  "ip_dynamic_extra_len inp dynamic_pos ctx =
     (if ctx_ip_version ctx = 6 then
        let marker_pos = dynamic_pos + 6 in
        guard (\<not> marker_pos \<ge> length inp) (rd inp marker_pos (\<lambda>marker.
          if is_empty_list marker then Done 0
          else if marker AND 0x80 \<noteq> 0x80 then Reject
          else let extra_len = unat (marker AND 0x7F) in
            guard (extra_len > 0 \<and> extra_len \<le> 127 \<and> szsub (szsub (length inp) marker_pos) 1 \<ge> extra_len)
              (Done extra_len)))
      else ipv4_options_extra_len inp (dynamic_pos + 5))"

definition rtp_dynamic_extra_len :: "bytes \<Rightarrow> nat \<Rightarrow> nat res" where
  "rtp_dynamic_extra_len inp marker_pos =
     (if marker_pos \<ge> length inp then Reject
      else rd inp marker_pos (\<lambda>marker.
        if is_empty_list marker then Done 0
        else if marker \<noteq> 0x80 then Reject
        else view inp (marker_pos + 1) (\<lambda>p. seq_res (read_large p) (\<lambda>(body_len, consumed).
          if body_len < 5 \<or> body_len > large_cid_max \<or>
             szsub (szsub (szsub (length inp) marker_pos) 1) consumed < unat body_len then Reject
          else Done (consumed + unat body_len)))))"

section \<open>The legacy format\<close>

definition has_small_cid :: "rohc_context \<Rightarrow> bool" where
  "has_small_cid ctx \<longleftrightarrow> \<not> ctx_large_cid ctx \<and> ctx_cid ctx > 0"

definition add_cid_matches :: "byte \<Rightarrow> rohc_context \<Rightarrow> bool" where
  "add_cid_matches b ctx \<longleftrightarrow> b AND 0xF0 = 0xE0 \<and> ucast (b AND 0x0F) = ctx_cid ctx AND 0x0F"

definition crc_index_of :: "rohc_context \<Rightarrow> nat" where
  "crc_index_of ctx =
     (if has_small_cid ctx then 3 else if ctx_large_cid ctx then 2 + encoded_len (ctx_cid ctx) else 2)"

definition read_legacy_ir_prefix :: "bytes \<Rightarrow> rohc_context \<Rightarrow> nat \<Rightarrow> byte \<Rightarrow> (nat \<times> byte) res" where
  \<comment> \<open>the start that the legacy decoders share: position behind the CRC, and the received CRC\<close>
  "read_legacy_ir_prefix inp ctx header_len_no_cid profile_id =
     (if length inp < header_len_no_cid then Reject
      else seq_res
        (if has_small_cid ctx then
           guard (\<not> length inp < header_len_no_cid + 1)
             (rd inp 0 (\<lambda>b. guard (add_cid_matches b ctx) (Done 1)))
         else Done 0)
        (\<lambda>pos. guard (available (length inp) pos 1) (rd inp pos (\<lambda>b. guard (b AND 0xFE = 0xFC)
          (seq_res (read_large_cid_if_present inp (pos + 1) ctx) (\<lambda>pos.
          guard (available (length inp) pos 2) (rd inp pos (\<lambda>b. guard (b = profile_id)
            (rd inp (pos + 1) (\<lambda>received_crc. Done (pos + 2, received_crc)))))))))))"

definition finish_legacy_ir ::
    "bytes \<Rightarrow> nat \<Rightarrow> rohc_context \<Rightarrow> byte \<Rightarrow> (rohc_context \<times> nat) res" where
  \<comment> \<open>the end that the legacy decoders share: the CRC, the mode octet and the header length\<close>
  "finish_legacy_ir inp pos ctx received_crc =
     seq_res (crc8_exact_matches inp pos (crc_index_of ctx) received_crc) (\<lambda>ok.
     guard ok (seq_res (read_legacy_mode inp pos) (\<lambda>m. Done (ctx\<lparr>ctx_mode := m\<rparr>, pos + 1))))"

definition decode_ir_esp_legacy :: "bytes \<Rightarrow> rohc_context \<Rightarrow> (rohc_context \<times> nat) res" where
  "decode_ir_esp_legacy inp ctx =
     seq_res (read_legacy_ir_prefix inp ctx 20 0x03) (\<lambda>(pos, received_crc).
     seq_res (read_ip_static_chain inp pos ctx) (\<lambda>(ctx, pos).
     seq_res (read_legacy_ip_dynamic_consistent inp pos ctx) (\<lambda>(ctx, pos).
     guard (ctx_ipv4_protocol ctx = 50)
     (seq_res (finish_legacy_ir inp pos ctx received_crc) (\<lambda>(ctx, consumed).
     Done (ctx\<lparr>ctx_profile := ESP, ctx_rohc_state := StaticEstablished,
               ctx_legacy_esp_payload_includes_header := True\<rparr>, consumed))))))"

definition decode_ir_ip_legacy :: "bytes \<Rightarrow> rohc_context \<Rightarrow> (rohc_context \<times> nat) res" where
  "decode_ir_ip_legacy inp ctx =
     seq_res (read_legacy_ir_prefix inp ctx 20 0x04) (\<lambda>(pos, received_crc).
     seq_res (read_ip_static_chain inp pos ctx) (\<lambda>(ctx, pos).
     seq_res (read_legacy_ip_dynamic_consistent inp pos ctx) (\<lambda>(ctx, pos).
     guard (\<not> pos \<ge> length inp)
     (seq_res (finish_legacy_ir inp pos ctx received_crc) (\<lambda>(ctx, consumed).
     Done (ctx\<lparr>ctx_profile := IP, ctx_rohc_state := StaticEstablished\<rparr>, consumed))))))"

definition read_udp_ports :: "bytes \<Rightarrow> nat \<Rightarrow> rohc_context \<Rightarrow> (rohc_context \<times> nat) res" where
  "read_udp_ports inp pos ctx =
     rd16 inp pos (\<lambda>s. rd16 inp (pos + 2) (\<lambda>d. Done (ctx\<lparr>ctx_udp_sport := s, ctx_udp_dport := d\<rparr>, pos + 4)))"

definition decode_ir_udp_lite_legacy :: "bytes \<Rightarrow> rohc_context \<Rightarrow> (rohc_context \<times> nat) res" where
  "decode_ir_udp_lite_legacy inp ctx =
     seq_res (read_legacy_ir_prefix inp ctx 28 0x08) (\<lambda>(pos, received_crc).
     seq_res (read_ip_static_chain inp pos ctx) (\<lambda>(ctx, pos).
     guard (available (length inp) pos 4)
     (seq_res (read_udp_ports inp pos ctx) (\<lambda>(ctx, pos).
     seq_res (read_legacy_ip_dynamic_consistent inp pos ctx) (\<lambda>(ctx, pos).
     guard (ctx_ipv4_protocol ctx = 136) (guard (available (length inp) pos 4)
     (rd16 inp pos (\<lambda>cov. rd16 inp (pos + 2) (\<lambda>chk.
      let ctx = ctx\<lparr>ctx_udp_length_or_coverage := cov, ctx_udp_check := chk\<rparr>; pos = pos + 4 in
     guard (\<not> pos \<ge> length inp)
     (seq_res (finish_legacy_ir inp pos ctx received_crc) (\<lambda>(ctx, consumed).
     Done (ctx\<lparr>ctx_profile := UDP_Lite, ctx_rohc_state := StaticEstablished\<rparr>, consumed))))))))))))"

definition decode_ir_udp_legacy :: "bytes \<Rightarrow> rohc_context \<Rightarrow> (rohc_context \<times> nat) res" where
  "decode_ir_udp_legacy inp ctx =
     seq_res (read_legacy_ir_prefix inp ctx 26 0x02) (\<lambda>(pos, received_crc).
     seq_res (read_ip_static_chain inp pos ctx) (\<lambda>(ctx, pos).
     guard (available (length inp) pos 4)
     (seq_res (read_udp_ports inp pos ctx) (\<lambda>(ctx, pos).
     seq_res (read_legacy_ip_dynamic_consistent inp pos ctx) (\<lambda>(ctx, pos).
     guard (ctx_ipv4_protocol ctx = 17) (guard (available (length inp) pos 2)
     (rd16 inp pos (\<lambda>chk.
      let ctx = ctx\<lparr>ctx_udp_check := chk\<rparr>; pos = pos + 2 in
     guard (\<not> pos \<ge> length inp)
     (seq_res (finish_legacy_ir inp pos ctx received_crc) (\<lambda>(ctx, consumed).
     Done (ctx\<lparr>ctx_profile := UDP, ctx_rohc_state := StaticEstablished\<rparr>, consumed)))))))))))"

definition read_rtp_fixed :: "bytes \<Rightarrow> nat \<Rightarrow> rohc_context \<Rightarrow> (rohc_context \<times> nat) res" where
  \<comment> \<open>the eight octets of the legacy RTP dynamic chain in front of the extras; the source joins the
    two nibbles of the first octet again\<close>
  "read_rtp_fixed inp pos ctx =
     rd inp pos (\<lambda>first. rd inp (pos + 1) (\<lambda>second. rd16 inp (pos + 2) (\<lambda>seq. rd32 inp (pos + 4) (\<lambda>ts.
       Done (ctx\<lparr>ctx_rtp := (ctx_rtp ctx)\<lparr>rtp_vpxcc := first, rtp_mpt := second, rtp_last_seq := seq,
         rtp_last_ts := ts\<rparr>\<rparr>, pos + 8)))))"

definition establish_rtp :: "rohc_context \<Rightarrow> rohc_context" where
  \<comment> \<open>the assignments that close the legacy RTP decoders\<close>
  "establish_rtp ctx =
     (let r = ctx_rtp ctx in
      ctx\<lparr>ctx_rtp := r\<lparr>rtp_seq_window := lsb_init (rtp_last_seq r), rtp_ts_window := lsb_init (rtp_last_ts r),
            rtp_ts_residue := (if rtp_ts_stride r = 0 then 0 else rtp_last_ts r mod rtp_ts_stride r),
            rtp_initialized := 1\<rparr>,
          ctx_rohc_state := DynamicEstablished\<rparr>)"

definition decode_ir_rtp_udp_lite_legacy :: "bytes \<Rightarrow> rohc_context \<Rightarrow> (rohc_context \<times> nat) res" where
  "decode_ir_rtp_udp_lite_legacy inp ctx =
     seq_res (read_legacy_ir_prefix inp ctx 41 0x07) (\<lambda>(pos, received_crc).
     seq_res (read_ip_static_chain inp pos ctx) (\<lambda>(ctx, pos).
     guard (available (length inp) pos 8)
     (seq_res (read_udp_ports inp pos ctx) (\<lambda>(ctx, pos). rd32 inp pos (\<lambda>ssrc.
      let ctx = ctx\<lparr>ctx_rtp := (ctx_rtp ctx)\<lparr>rtp_ssrc := ssrc\<rparr>\<rparr>; pos = pos + 4 in
     seq_res (read_legacy_ip_dynamic_consistent inp pos ctx) (\<lambda>(ctx, pos).
     guard (ctx_ipv4_protocol ctx = 136) (guard (available (length inp) pos 12)
     (rd16 inp pos (\<lambda>cov. rd16 inp (pos + 2) (\<lambda>chk.
      let ctx = ctx\<lparr>ctx_udp_length_or_coverage := cov, ctx_udp_check := chk\<rparr>; pos = pos + 4 in
     seq_res (read_rtp_fixed inp pos ctx) (\<lambda>(ctx, pos).
     seq_res (read_rtp_extras_list inp pos ctx) (\<lambda>(ctx, pos).
     guard (\<not> pos \<ge> length inp)
     (seq_res (finish_legacy_ir inp pos ctx received_crc) (\<lambda>(ctx, consumed).
     Done (establish_rtp (ctx\<lparr>ctx_ipv4_id_sequential := False, ctx_profile := RTP_UDP_Lite\<rparr>), consumed)))))))))))))))"

definition decode_ir_rtp_legacy :: "bytes \<Rightarrow> rohc_context \<Rightarrow> (rohc_context \<times> nat) res" where
  "decode_ir_rtp_legacy inp ctx =
     seq_res (read_legacy_ir_prefix inp ctx 4 0x01) (\<lambda>(pos, received_crc).
     seq_res (read_ip_static_chain inp pos ctx) (\<lambda>(ctx, pos).
     guard (available (length inp) pos 8)
     (seq_res (read_udp_ports inp pos ctx) (\<lambda>(ctx, pos). rd32 inp pos (\<lambda>ssrc.
      let ctx = ctx\<lparr>ctx_rtp := (ctx_rtp ctx)\<lparr>rtp_ssrc := ssrc\<rparr>\<rparr>; pos = pos + 4 in
     seq_res (read_legacy_ip_dynamic_consistent inp pos ctx) (\<lambda>(ctx, pos).
     guard (ctx_ipv4_protocol ctx = 17) (guard (available (length inp) pos 12)
     (rd16 inp pos (\<lambda>chk.
      let ctx = ctx\<lparr>ctx_udp_check := chk\<rparr>; pos = pos + 2 in
     seq_res (read_rtp_fixed inp pos ctx) (\<lambda>(ctx, pos).
     seq_res (read_rtp_extras_list inp pos ctx) (\<lambda>(ctx, pos).
     guard (\<not> pos \<ge> length inp)
     (seq_res (finish_legacy_ir inp pos ctx received_crc) (\<lambda>(ctx, consumed).
     Done (establish_rtp (ctx\<lparr>ctx_ipv4_id_sequential := False, ctx_profile := RTP\<rparr>), consumed))))))))))))))"

section \<open>The standard format\<close>

definition read_standard_ip_static :: "bytes \<Rightarrow> nat \<Rightarrow> rohc_context \<Rightarrow> (rohc_context \<times> nat) res" where
  "read_standard_ip_static inp pos ctx =
     (if pos \<ge> length inp then Reject
      else rd inp pos (\<lambda>first.
        let pos = pos + 1; ipv6 = ((first AND 0x80) \<noteq> 0) in
        guard ((first AND 0x40) \<noteq> 0)
        (if \<not> ipv6 then
           if (first AND 0x3F) \<noteq> 0 \<or> szsub (length inp) pos < 9 then Reject
           else rd inp pos (\<lambda>protocol. rd32 inp (pos + 1) (\<lambda>s. rd32 inp (pos + 5) (\<lambda>d.
             Done (ctx\<lparr>ctx_ip_version := 4, ctx_ipv4_protocol := protocol, ctx_ipv4_saddr := s, ctx_ipv4_daddr := d,
                       ctx_ipv4_options_len := 0, ctx_ipv4_options := replicate 40 0\<rparr>, pos + 9))))
         else if first \<noteq> 0xC0 \<or> szsub (length inp) pos < 33 then Reject
         else rd inp pos (\<lambda>nxt. copy_in inp (pos + 1) 16 (\<lambda>s. copy_in inp (pos + 17) 16 (\<lambda>d.
           Done (ctx\<lparr>ctx_ip_version := 6, ctx_ipv6_flow_label := 0, ctx_ipv6_next_header := nxt,
                     ctx_ipv4_protocol := nxt, ctx_ipv6_saddr := s, ctx_ipv6_daddr := d,
                     ctx_ipv6_extension_len := 0, ctx_ipv6_extensions := replicate 128 0\<rparr>, pos + 33)))))))"

definition read_standard_ipv6_dynamic :: "bytes \<Rightarrow> nat \<Rightarrow> rohc_context \<Rightarrow> bool \<Rightarrow> (rohc_context \<times> nat) res" where
  "read_standard_ipv6_dynamic inp pos ctx endpoint =
     guard (\<not> szsub (length inp) pos < (if endpoint then 5 else 2))
       (rd inp pos (\<lambda>tc. rd inp (pos + 1) (\<lambda>hl.
         let ctx = ctx\<lparr>ctx_ipv6_traffic_class := tc, ctx_ipv6_hop_limit := hl\<rparr>; pos = pos + 2 in
         if endpoint then
           rd inp pos (\<lambda>control. guard ((control AND 0xFC) = 0)
             (rd16 inp (pos + 1) (\<lambda>msn. Done (ctx\<lparr>ctx_reorder_ratio := control AND 0x03, ctx_msn := msn\<rparr>, pos + 3))))
         else Done (ctx, pos))))"

definition read_standard_ipv4_id :: "bytes \<Rightarrow> nat \<Rightarrow> rohc_context \<Rightarrow> (rohc_context \<times> nat) res" where
  "read_standard_ipv4_id inp pos ctx =
     (if ctx_ipv4_id_behavior ctx \<noteq> 3 then
        guard (\<not> szsub (length inp) pos < 2) (rd16 inp pos (\<lambda>i. Done (ctx\<lparr>ctx_ipv4_id := i\<rparr>, pos + 2)))
      else Done (ctx\<lparr>ctx_ipv4_id := 0\<rparr>, pos))"

definition read_standard_ipv4_dynamic :: "bytes \<Rightarrow> nat \<Rightarrow> rohc_context \<Rightarrow> bool \<Rightarrow> (rohc_context \<times> nat) res" where
  "read_standard_ipv4_dynamic inp pos ctx endpoint =
     guard (\<not> szsub (length inp) pos < 3)
       (rd inp pos (\<lambda>control.
         guard (if endpoint then (control AND 0xE0) = 0 else (control AND 0xF8) = 0)
         (let ctx = (if endpoint then ctx\<lparr>ctx_reorder_ratio := drop_bit 3 control AND 0x03\<rparr> else ctx) in
          rd inp (pos + 1) (\<lambda>tos. rd inp (pos + 2) (\<lambda>ttl.
          seq_res (read_standard_ipv4_id inp (pos + 3)
            (ctx\<lparr>ctx_ipv4_flags := push_bit 1 (drop_bit 2 control AND 0x01),
                 ctx_ipv4_id_behavior := control AND 0x03, ctx_ipv4_id_sequential := (control AND 0x03 \<le> 1),
                 ctx_ipv4_tos := tos, ctx_ipv4_ttl := ttl\<rparr>)) (\<lambda>(ctx, pos).
          if endpoint then
            guard (\<not> szsub (length inp) pos < 2) (rd16 inp pos (\<lambda>msn. Done (ctx\<lparr>ctx_msn := msn\<rparr>, pos + 2)))
          else Done (ctx, pos)))))))"

definition read_standard_ip_dynamic :: "bytes \<Rightarrow> nat \<Rightarrow> rohc_context \<Rightarrow> bool \<Rightarrow> (rohc_context \<times> nat) res" where
  "read_standard_ip_dynamic inp pos ctx endpoint =
     (if ctx_ip_version ctx = 6 then read_standard_ipv6_dynamic inp pos ctx endpoint
      else read_standard_ipv4_dynamic inp pos ctx endpoint)"

definition read_standard_ir_prefix :: "bytes \<Rightarrow> rohc_context \<Rightarrow> byte \<Rightarrow> (nat \<times> nat \<times> byte) res" where
  \<comment> \<open>\<open>(pos, crc_index, received_crc)\<close>\<close>
  "read_standard_ir_prefix inp expected profile_id =
     seq_res
       (if has_small_cid expected then
          if length inp = 0 then Reject
          else rd inp 0 (\<lambda>b. guard (b = ucast (0xE0 OR ctx_cid expected)) (Done 1))
        else Done 0)
       (\<lambda>pos. if pos \<ge> length inp then Reject
         else rd inp pos (\<lambda>b. guard (b = 0xFD)
           (seq_res
             (if ctx_large_cid expected then
                view inp (pos + 1) (\<lambda>p. seq_res (read_large p) (\<lambda>(wire_cid, cid_len).
                  guard (wire_cid = ctx_cid expected) (Done (pos + 1 + cid_len))))
              else Done (pos + 1))
             (\<lambda>pos. guard (\<not> szsub (length inp) pos < 2) (rd inp pos (\<lambda>b. guard (b = profile_id)
               (rd inp (pos + 1) (\<lambda>received_crc. Done (pos + 2, pos + 1, received_crc)))))))))"

definition standard_context_equal :: "rohc_context \<Rightarrow> rohc_context \<Rightarrow> bool" where
  \<comment> \<open>every field but the four of the transmission ring\<close>
  "standard_context_equal a b \<longleftrightarrow>
     a\<lparr>ctx_transmitted_msn_history := [], ctx_transmitted_context_revision_history := [],
       ctx_transmitted_msn_head := 0, ctx_transmitted_msn_count := 0\<rparr> =
     b\<lparr>ctx_transmitted_msn_history := [], ctx_transmitted_context_revision_history := [],
       ctx_transmitted_msn_head := 0, ctx_transmitted_msn_count := 0\<rparr>"

definition standard_transport_static :: "bytes \<Rightarrow> nat \<Rightarrow> rohc_context \<Rightarrow> profile \<Rightarrow> (rohc_context \<times> nat) res" where
  "standard_transport_static inp pos ctx profile =
     seq_res
       (if profile = UDP \<or> profile = RTP then
          guard (\<not> szsub (length inp) pos < 4)
            (seq_res (read_udp_ports inp pos ctx) (\<lambda>(ctx, pos). Done (ctx\<lparr>ctx_udp_checksum_used := False\<rparr>, pos)))
        else Done (ctx, pos)) (\<lambda>(ctx, pos).
     seq_res
       (if profile = ESP then
          guard (\<not> szsub (length inp) pos < 4) (rd32 inp pos (\<lambda>spi. Done (ctx\<lparr>ctx_esp_spi := spi\<rparr>, pos + 4)))
        else Done (ctx, pos)) (\<lambda>(ctx, pos).
       if profile = RTP then
         guard (\<not> szsub (length inp) pos < 4) (rd32 inp pos (\<lambda>ssrc.
           Done (ctx\<lparr>ctx_rtp := (ctx_rtp ctx)\<lparr>rtp_ssrc := ssrc\<rparr>\<rparr>, pos + 4)))
       else Done (ctx, pos)))"

definition standard_udp_dynamic :: "bytes \<Rightarrow> nat \<Rightarrow> rohc_context \<Rightarrow> (rohc_context \<times> nat) res" where
  "standard_udp_dynamic inp pos ctx =
     guard (\<not> szsub (length inp) pos < 5)
       (rd16 inp pos (\<lambda>chk. rd16 inp (pos + 2) (\<lambda>msn. rd inp (pos + 4) (\<lambda>control.
         guard ((control AND 0xFC) = 0)
           (Done (ctx\<lparr>ctx_udp_check := chk, ctx_udp_checksum_used := (chk \<noteq> 0), ctx_msn := msn,
                      ctx_reorder_ratio := control AND 0x03\<rparr>, pos + 5))))))"

definition standard_esp_dynamic :: "bytes \<Rightarrow> nat \<Rightarrow> rohc_context \<Rightarrow> (rohc_context \<times> nat) res" where
  "standard_esp_dynamic inp pos ctx =
     guard (\<not> szsub (length inp) pos < 5)
       (rd32 inp pos (\<lambda>sn. rd inp (pos + 4) (\<lambda>control.
         guard ((control AND 0xFC) = 0)
           (Done (ctx\<lparr>ctx_esp_sequence := sn, ctx_reorder_ratio := control AND 0x03, ctx_msn := ucast sn\<rparr>, pos + 5)))))"

definition rtp_update :: "rohc_context \<Rightarrow> rohc_context \<Rightarrow> byte \<Rightarrow> byte \<Rightarrow> u16 \<Rightarrow> u32 \<Rightarrow> rohc_context" where
  \<comment> \<open>the RTP part of \<open>decode_ir_standard\<close> once its octets are read; \<open>previous\<close> is the context on entry\<close>
  "rtp_update previous ctx vpxcc mpt seq ts =
     (let r = (ctx_rtp ctx)\<lparr>rtp_vpxcc := vpxcc, rtp_mpt := mpt, rtp_last_seq := seq, rtp_last_ts := ts\<rparr>;
          r = (if rtp_initialized (ctx_rtp previous) \<noteq> 0 then
                 (case infer_timestamp_stride (rtp_last_seq (ctx_rtp previous)) (rtp_last_ts (ctx_rtp previous)) seq ts of
                    None \<Rightarrow> r
                  | Some (stride, residue) \<Rightarrow> r\<lparr>rtp_ts_stride := stride, rtp_ts_residue := residue\<rparr>)
               else r);
          ctx = (if ctx_ip_version ctx = 4 \<and> ctx_ip_version previous = 4 \<and> ctx_rohc_state previous \<noteq> NoContext then
                   let id_delta = ctx_ipv4_id ctx - ctx_ipv4_id previous;
                       seq_delta = seq - rtp_last_seq (ctx_rtp previous) in
                   ctx\<lparr>ctx_ipv4_id_sequential := (id_delta = seq_delta)\<rparr>
                 else ctx)
      in ctx\<lparr>ctx_msn := seq,
             ctx_rtp := r\<lparr>rtp_initialized := 1, rtp_seq_window := lsb_init seq, rtp_ts_window := lsb_init ts\<rparr>\<rparr>)"

definition standard_rtp_dynamic ::
    "bytes \<Rightarrow> nat \<Rightarrow> rohc_context \<Rightarrow> rohc_context \<Rightarrow> (rohc_context \<times> nat) res" where
  "standard_rtp_dynamic inp pos previous ctx =
     guard (\<not> szsub (length inp) pos < 10)
       (rd16 inp pos (\<lambda>chk. rd inp (pos + 2) (\<lambda>indicators.
         if (indicators AND 0x80) \<noteq> 0 \<or> (indicators AND 0x1C) \<noteq> 0 then Reject
         else let pad_extension = indicators AND 0x03 in
           rd inp (pos + 3) (\<lambda>mpt. rd16 inp (pos + 4) (\<lambda>seq. rd32 inp (pos + 6) (\<lambda>ts.
             Done (rtp_update previous
               (ctx\<lparr>ctx_udp_check := chk, ctx_udp_checksum_used := (chk \<noteq> 0),
                    ctx_reorder_ratio := drop_bit 5 indicators AND 0x03\<rparr>)
               (0x80 OR push_bit 4 (pad_extension AND 0x02) OR push_bit 4 (pad_extension AND 0x01)) mpt seq ts,
               pos + 10)))))))"

definition required_protocol :: "rohc_context \<Rightarrow> profile \<Rightarrow> byte \<Rightarrow> byte" where
  "required_protocol ctx profile terminal =
     (if profile = ESP then 50 else if profile = UDP \<or> profile = RTP then 17 else terminal)"

definition decode_ir_standard :: "bytes \<Rightarrow> rohc_context \<Rightarrow> profile \<Rightarrow> byte \<Rightarrow> (rohc_context \<times> nat) res" where
  "decode_ir_standard inp previous profile profile_id =
     seq_res (read_standard_ir_prefix inp previous profile_id) (\<lambda>(pos, crc_index, received_crc).
     seq_res (read_standard_ip_static inp pos previous) (\<lambda>(ctx, pos).
     let terminal = (if ctx_ip_version ctx = 6 then ctx_ipv6_next_header ctx else ctx_ipv4_protocol ctx) in
     guard (terminal = required_protocol ctx profile terminal)
     (seq_res (standard_transport_static inp pos (ctx\<lparr>ctx_legacy_esp_payload_includes_header := False\<rparr>) profile) (\<lambda>(ctx, pos).
     seq_res (read_standard_ip_dynamic inp pos ctx (profile = IP)) (\<lambda>(ctx, pos).
     seq_res
       (if profile = UDP then standard_udp_dynamic inp pos ctx
        else if profile = ESP then standard_esp_dynamic inp pos ctx
        else if profile = RTP then standard_rtp_dynamic inp pos previous ctx
        else Done (ctx, pos)) (\<lambda>(ctx, pos).
     seq_res (crc8_exact_matches inp pos crc_index received_crc) (\<lambda>ok.
     guard ok (Done (ctx\<lparr>ctx_profile := profile, ctx_rohc_state := DynamicEstablished\<rparr>, pos)))))))))"

section \<open>Both formats\<close>

definition decode_ir_compatible ::
    "bytes \<Rightarrow> rohc_context \<Rightarrow> profile \<Rightarrow> byte \<Rightarrow> (bytes \<Rightarrow> rohc_context \<Rightarrow> (rohc_context \<times> nat) res) \<Rightarrow>
     (rohc_context \<times> nat) res" where
  "decode_ir_compatible inp ctx profile profile_id legacy =
     (case (decode_ir_standard inp ctx profile profile_id, legacy inp ctx) of
        (Fault, _) \<Rightarrow> Fault
      | (_, Fault) \<Rightarrow> Fault
      | (Done (standard_ctx, standard_len), Done (legacy_ctx, legacy_len)) \<Rightarrow>
          if standard_len \<noteq> legacy_len \<or> \<not> standard_context_equal standard_ctx legacy_ctx then Reject
          else Done (standard_ctx, standard_len)
      | (Done r, Reject) \<Rightarrow> Done r
      | (Reject, Done r) \<Rightarrow> Done r
      | (Reject, Reject) \<Rightarrow> Reject)"

definition decode_ir_esp :: "bytes \<Rightarrow> rohc_context \<Rightarrow> (rohc_context \<times> nat) res" where
  "decode_ir_esp inp ctx = decode_ir_compatible inp ctx ESP 0x03 decode_ir_esp_legacy"

definition decode_ir_ip :: "bytes \<Rightarrow> rohc_context \<Rightarrow> (rohc_context \<times> nat) res" where
  "decode_ir_ip inp ctx = decode_ir_compatible inp ctx IP 0x04 decode_ir_ip_legacy"

definition decode_ir_udp :: "bytes \<Rightarrow> rohc_context \<Rightarrow> (rohc_context \<times> nat) res" where
  "decode_ir_udp inp ctx = decode_ir_compatible inp ctx UDP 0x02 decode_ir_udp_legacy"

definition decode_ir_rtp :: "bytes \<Rightarrow> rohc_context \<Rightarrow> (rohc_context \<times> nat) res" where
  "decode_ir_rtp inp ctx = decode_ir_compatible inp ctx RTP 0x01 decode_ir_rtp_legacy"

definition decode_ir_udp_lite :: "bytes \<Rightarrow> rohc_context \<Rightarrow> (rohc_context \<times> nat) res" where
  "decode_ir_udp_lite inp ctx = decode_ir_udp_lite_legacy inp ctx"

definition decode_ir_rtp_udp_lite :: "bytes \<Rightarrow> rohc_context \<Rightarrow> (rohc_context \<times> nat) res" where
  "decode_ir_rtp_udp_lite inp ctx = decode_ir_rtp_udp_lite_legacy inp ctx"

section \<open>The decoders stay in bounds\<close>

lemma advanced_iff: "advanced inp pos (c, p) \<longleftrightarrow> context_wf c \<and> pos \<le> p \<and> p \<le> length inp"
  by (simp add: advanced_def)

lemma safe_advanced_trans:
  "safe (advanced inp p) r \<Longrightarrow> q \<le> p \<Longrightarrow> safe (advanced inp q) r"
  by (erule safe_mono) (auto simp: advanced_def)

lemma safe_then:
  assumes "safe (advanced inp pos) r"
    and "\<And>c p. context_wf c \<Longrightarrow> pos \<le> p \<Longrightarrow> p \<le> length inp \<Longrightarrow> safe Q (k (c, p))"
  shows "safe Q (seq_res r k)"
  using assms by (cases r) (auto simp: advanced_def)

lemma context_wf_update_simps [simp]:
  "context_wf (c\<lparr>ctx_profile := x1\<rparr>) = context_wf c" "context_wf (c\<lparr>ctx_mode := x2\<rparr>) = context_wf c"
  "context_wf (c\<lparr>ctx_rohc_state := x3\<rparr>) = context_wf c" "context_wf (c\<lparr>ctx_msn := x4\<rparr>) = context_wf c"
  "context_wf (c\<lparr>ctx_reorder_ratio := x5\<rparr>) = context_wf c" "context_wf (c\<lparr>ctx_ip_version := x5\<rparr>) = context_wf c"
  "context_wf (c\<lparr>ctx_ipv4_tos := x5\<rparr>) = context_wf c" "context_wf (c\<lparr>ctx_ipv4_ttl := x5\<rparr>) = context_wf c"
  "context_wf (c\<lparr>ctx_ipv4_id := x4\<rparr>) = context_wf c" "context_wf (c\<lparr>ctx_ipv4_flags := x5\<rparr>) = context_wf c"
  "context_wf (c\<lparr>ctx_ipv4_id_sequential := x6\<rparr>) = context_wf c"
  "context_wf (c\<lparr>ctx_ipv4_id_behavior := x5\<rparr>) = context_wf c"
  "context_wf (c\<lparr>ctx_ipv4_protocol := x5\<rparr>) = context_wf c"
  "context_wf (c\<lparr>ctx_ipv4_saddr := x7\<rparr>) = context_wf c" "context_wf (c\<lparr>ctx_ipv4_daddr := x7\<rparr>) = context_wf c"
  "context_wf (c\<lparr>ctx_ipv6_traffic_class := x5\<rparr>) = context_wf c"
  "context_wf (c\<lparr>ctx_ipv6_flow_label := x7\<rparr>) = context_wf c"
  "context_wf (c\<lparr>ctx_ipv6_next_header := x5\<rparr>) = context_wf c"
  "context_wf (c\<lparr>ctx_ipv6_hop_limit := x5\<rparr>) = context_wf c"
  "context_wf (c\<lparr>ctx_udp_sport := x4\<rparr>) = context_wf c" "context_wf (c\<lparr>ctx_udp_dport := x4\<rparr>) = context_wf c"
  "context_wf (c\<lparr>ctx_udp_length_or_coverage := x4\<rparr>) = context_wf c"
  "context_wf (c\<lparr>ctx_udp_check := x4\<rparr>) = context_wf c"
  "context_wf (c\<lparr>ctx_udp_checksum_used := x6\<rparr>) = context_wf c"
  "context_wf (c\<lparr>ctx_esp_spi := x7\<rparr>) = context_wf c" "context_wf (c\<lparr>ctx_esp_sequence := x7\<rparr>) = context_wf c"
  "context_wf (c\<lparr>ctx_legacy_esp_payload_includes_header := x6\<rparr>) = context_wf c"
  by (simp_all add: context_wf_def)

lemma context_wf_arrays:
  "context_wf c \<Longrightarrow> length s = 16 \<Longrightarrow> context_wf (c\<lparr>ctx_ipv6_saddr := s\<rparr>)"
  "context_wf c \<Longrightarrow> length s = 16 \<Longrightarrow> context_wf (c\<lparr>ctx_ipv6_daddr := s\<rparr>)"
  "context_wf c \<Longrightarrow> context_wf (c\<lparr>ctx_ipv4_options_len := 0, ctx_ipv4_options := replicate 40 0\<rparr>)"
  "context_wf c \<Longrightarrow> context_wf (c\<lparr>ctx_ipv6_extension_len := 0, ctx_ipv6_extensions := replicate 128 0\<rparr>)"
  "context_wf c \<Longrightarrow> rtp_context_wf r \<Longrightarrow> context_wf (c\<lparr>ctx_rtp := r\<rparr>)"
  by (simp_all add: context_wf_def)

lemma context_wf_rtp: "context_wf c \<Longrightarrow> rtp_context_wf (ctx_rtp c)"
  by (simp add: context_wf_def)

lemma rtp_wf_update_simps [simp]:
  "rtp_context_wf (r\<lparr>rtp_ssrc := x1\<rparr>) = rtp_context_wf r" "rtp_context_wf (r\<lparr>rtp_vpxcc := x2\<rparr>) = rtp_context_wf r"
  "rtp_context_wf (r\<lparr>rtp_mpt := x2\<rparr>) = rtp_context_wf r" "rtp_context_wf (r\<lparr>rtp_last_seq := x3\<rparr>) = rtp_context_wf r"
  "rtp_context_wf (r\<lparr>rtp_last_ts := x1\<rparr>) = rtp_context_wf r" "rtp_context_wf (r\<lparr>rtp_initialized := x2\<rparr>) = rtp_context_wf r"
  "rtp_context_wf (r\<lparr>rtp_ts_stride := x1\<rparr>) = rtp_context_wf r" "rtp_context_wf (r\<lparr>rtp_ts_residue := x1\<rparr>) = rtp_context_wf r"
  "rtp_context_wf (r\<lparr>rtp_seq_window := x4\<rparr>) = rtp_context_wf r" "rtp_context_wf (r\<lparr>rtp_ts_window := x5\<rparr>) = rtp_context_wf r"
  by (simp_all add: rtp_context_wf_def)

lemmas wf_rules = context_wf_arrays context_wf_rtp

lemma read_large_cid_if_present_safe:
  "pos \<le> length inp \<Longrightarrow> safe (\<lambda>p. p \<le> length inp \<and> p = pos + (if ctx_large_cid c then encoded_len (ctx_cid c) else 0))
     (read_large_cid_if_present inp pos c)"
  unfolding read_large_cid_if_present_def by (auto intro!: safe_intros)

lemma crc8_exact_matches_safe:
  "safe (\<lambda>ok. ok \<longrightarrow> n \<le> length inp) (crc8_exact_matches inp n i crc)"
  by (simp add: crc8_exact_matches_def)

lemma read_ip_static_chain_safe:
  "context_wf c \<Longrightarrow> pos \<le> length inp \<Longrightarrow> safe (advanced inp pos) (read_ip_static_chain inp pos c)"
  unfolding read_ip_static_chain_def Let_def
  by (auto simp: advanced_iff intro!: safe_intros wf_rules)

lemma read_ip_dynamic_chain_safe:
  "context_wf c \<Longrightarrow> pos \<le> length inp \<Longrightarrow> safe (advanced inp pos) (read_ip_dynamic_chain inp pos c)"
  unfolding read_ip_dynamic_chain_def
  by (auto intro!: safe_intros safe_advanced_trans [OF read_ipv4_options_safe, where q = pos]
      safe_advanced_trans [OF read_ipv6_extensions_safe, where q = pos])

lemma read_legacy_ip_dynamic_consistent_safe:
  "context_wf c \<Longrightarrow> pos \<le> length inp \<Longrightarrow> safe (advanced inp pos) (read_legacy_ip_dynamic_consistent inp pos c)"
  unfolding read_legacy_ip_dynamic_consistent_def Let_def
  by (rule safe_then [OF read_ip_dynamic_chain_safe]) (auto simp: advanced_iff intro!: safe_intros)

lemma read_legacy_ir_prefix_safe: "safe (\<lambda>(p, crc). p \<le> length inp) (read_legacy_ir_prefix inp c n pid)"
  unfolding read_legacy_ir_prefix_def
  by (intro safe_if safe_RejectI safe_seq [where Q = "\<lambda>p. p \<le> 1 \<and> p \<le> length inp"] safe_guard safe_rd
      safe_seq [OF read_large_cid_if_present_safe] safe_DoneI)
    (auto simp: available_def)

lemma finish_legacy_ir_safe:
  "context_wf c \<Longrightarrow> pos \<le> length inp \<Longrightarrow> safe (advanced inp pos) (finish_legacy_ir inp pos c crc)"
  unfolding finish_legacy_ir_def
  by (intro safe_seq [OF crc8_exact_matches_safe] safe_guard safe_seq [where Q = "\<lambda>_. pos < length inp"])
    (auto simp: read_legacy_mode_def advanced_iff Let_def intro!: safe_intros)

lemma safe_udp_ports:
  assumes "context_wf c" and "available (length inp) pos 4" and "\<And>c'. context_wf c' \<Longrightarrow> safe Q (k (c', pos + 4))"
  shows "safe Q (seq_res (read_udp_ports inp pos c) k)"
proof -
  have "pos + 4 \<le> length inp" using assms(2) by (auto simp: available_def)
  then show ?thesis using assms(1,3) by (simp add: read_udp_ports_def rd16_def)
qed

lemma read_rtp_fixed_safe:
  "context_wf c \<Longrightarrow> available (length inp) pos 8 \<Longrightarrow> safe (advanced inp pos) (read_rtp_fixed inp pos c)"
  unfolding read_rtp_fixed_def available_def by (auto simp: advanced_iff intro!: safe_intros wf_rules)

lemma establish_rtp_wf: "context_wf c \<Longrightarrow> context_wf (establish_rtp c)"
  by (auto simp: establish_rtp_def Let_def intro!: wf_rules)

lemmas legacy_steps = safe_then [OF read_ip_static_chain_safe] safe_then [OF read_legacy_ip_dynamic_consistent_safe]
  safe_then [OF finish_legacy_ir_safe]

text \<open>The post-condition of a whole decoder.\<close>

abbreviation decoded :: "bytes \<Rightarrow> (rohc_context \<times> nat) res \<Rightarrow> bool" where
  "decoded inp r \<equiv> safe (advanced inp 0) r"

lemma decoded_prefix:
  assumes "\<And>pos crc. pos \<le> length inp \<Longrightarrow> decoded inp (k (pos, crc))"
  shows "decoded inp (seq_res (read_legacy_ir_prefix inp c n pid) k)"
  by (rule safe_seq [OF read_legacy_ir_prefix_safe]) (auto intro: assms)

lemma decode_ir_esp_legacy_safe: "context_wf c \<Longrightarrow> decoded inp (decode_ir_esp_legacy inp c)"
  unfolding decode_ir_esp_legacy_def
  by (rule decoded_prefix) (auto simp: advanced_iff intro!: legacy_steps safe_guard)

lemma decode_ir_ip_legacy_safe: "context_wf c \<Longrightarrow> decoded inp (decode_ir_ip_legacy inp c)"
  unfolding decode_ir_ip_legacy_def
  by (rule decoded_prefix) (auto simp: advanced_iff intro!: legacy_steps safe_guard)

lemma decode_ir_udp_lite_legacy_safe: "context_wf c \<Longrightarrow> decoded inp (decode_ir_udp_lite_legacy inp c)"
  unfolding decode_ir_udp_lite_legacy_def Let_def
  by (rule decoded_prefix)
    (auto simp: advanced_iff available_def intro!: legacy_steps safe_udp_ports safe_guard
      safe_rd16)

lemma decode_ir_udp_legacy_safe: "context_wf c \<Longrightarrow> decoded inp (decode_ir_udp_legacy inp c)"
  unfolding decode_ir_udp_legacy_def Let_def
  by (rule decoded_prefix)
    (auto simp: advanced_iff available_def intro!: legacy_steps safe_udp_ports safe_guard
      safe_rd16)

lemma legacy_rtp_tail_safe:
  assumes "context_wf c" and "pos + 8 \<le> length inp"
  shows "decoded inp (seq_res (read_rtp_fixed inp pos c) (\<lambda>(c, pos).
     seq_res (read_rtp_extras_list inp pos c) (\<lambda>(c, pos).
     guard (\<not> pos \<ge> length inp)
     (seq_res (finish_legacy_ir inp pos c crc) (\<lambda>(c, consumed).
     Done (establish_rtp (c\<lparr>ctx_ipv4_id_sequential := False, ctx_profile := pr\<rparr>), consumed))))))"
  using assms
  by (auto simp: advanced_iff available_def establish_rtp_wf
      intro!: safe_then [OF read_rtp_fixed_safe] safe_then [OF read_rtp_extras_list_safe] safe_guard
        safe_then [OF finish_legacy_ir_safe])

lemma decode_ir_rtp_udp_lite_legacy_safe: "context_wf c \<Longrightarrow> decoded inp (decode_ir_rtp_udp_lite_legacy inp c)"
  unfolding decode_ir_rtp_udp_lite_legacy_def Let_def
  by (rule decoded_prefix)
    (auto simp: available_def intro!: safe_then [OF read_ip_static_chain_safe]
      safe_then [OF read_legacy_ip_dynamic_consistent_safe]
      safe_udp_ports safe_guard safe_rd16 safe_rd32 legacy_rtp_tail_safe wf_rules)

lemma decode_ir_rtp_legacy_safe: "context_wf c \<Longrightarrow> decoded inp (decode_ir_rtp_legacy inp c)"
  unfolding decode_ir_rtp_legacy_def Let_def
  by (rule decoded_prefix)
    (auto simp: available_def intro!: safe_then [OF read_ip_static_chain_safe]
      safe_then [OF read_legacy_ip_dynamic_consistent_safe]
      safe_udp_ports safe_guard safe_rd16 safe_rd32 legacy_rtp_tail_safe wf_rules)

lemma read_standard_ip_static_safe:
  "context_wf c \<Longrightarrow> pos \<le> length inp \<Longrightarrow> safe (advanced inp pos) (read_standard_ip_static inp pos c)"
  unfolding read_standard_ip_static_def Let_def
  by (auto simp: advanced_iff intro!: safe_intros wf_rules)

lemma read_standard_ipv4_id_safe:
  "context_wf c \<Longrightarrow> pos \<le> length inp \<Longrightarrow> safe (advanced inp pos) (read_standard_ipv4_id inp pos c)"
  unfolding read_standard_ipv4_id_def by (auto simp: advanced_iff intro!: safe_intros)

lemma read_standard_ipv4_dynamic_safe:
  assumes "context_wf c" and "pos \<le> length inp"
  shows "safe (advanced inp pos) (read_standard_ipv4_dynamic inp pos c e)"
proof -
  have "safe (advanced inp pos) (seq_res (read_standard_ipv4_id inp (pos + 3) c') (\<lambda>(ctx, pos).
      if e then guard (\<not> szsub (length inp) pos < 2) (rd16 inp pos (\<lambda>msn. Done (ctx\<lparr>ctx_msn := msn\<rparr>, pos + 2)))
      else Done (ctx, pos)))" if "context_wf c'" "pos + 3 \<le> length inp" for c'
    using that by (auto simp: advanced_iff intro!: safe_then [OF read_standard_ipv4_id_safe] safe_intros)
  then show ?thesis using assms
    unfolding read_standard_ipv4_dynamic_def Let_def by (auto intro!: safe_guard safe_rd)
qed

lemma read_standard_ip_dynamic_safe:
  "context_wf c \<Longrightarrow> pos \<le> length inp \<Longrightarrow> safe (advanced inp pos) (read_standard_ip_dynamic inp pos c e)"
  unfolding read_standard_ip_dynamic_def read_standard_ipv6_dynamic_def Let_def
  by (auto simp: advanced_iff intro!: safe_intros read_standard_ipv4_dynamic_safe)

lemma read_standard_ir_prefix_safe:
  "safe (\<lambda>(p, i, crc). p \<le> length inp) (read_standard_ir_prefix inp c pid)"
  unfolding read_standard_ir_prefix_def
  by (intro safe_if safe_RejectI safe_seq [where Q = "\<lambda>p. p \<le> length inp"] safe_guard safe_rd
      safe_read_large safe_view safe_DoneI)
    (auto intro!: safe_intros simp: Suc_le_eq)

lemma read_udp_ports_safe:
  "context_wf c \<Longrightarrow> pos + 4 \<le> length inp \<Longrightarrow> safe (advanced inp pos) (read_udp_ports inp pos c)"
  by (simp add: read_udp_ports_def rd16_def advanced_iff)

lemma standard_transport_static_safe:
  "context_wf c \<Longrightarrow> pos \<le> length inp \<Longrightarrow> safe (advanced inp pos) (standard_transport_static inp pos c pr)"
  unfolding standard_transport_static_def
  by (auto simp: advanced_iff
      intro!: safe_then [where pos = pos and inp = inp] read_udp_ports_safe safe_intros wf_rules)

lemma rtp_update_wf: "context_wf c \<Longrightarrow> context_wf (rtp_update pc c a b d e)"
  by (auto simp: rtp_update_def Let_def intro!: wf_rules split: option.splits)

lemma standard_dynamic_safe:
  assumes "context_wf c" and "pos \<le> length inp"
  shows "safe (advanced inp pos) (standard_udp_dynamic inp pos c)"
    and "safe (advanced inp pos) (standard_esp_dynamic inp pos c)"
    and "safe (advanced inp pos) (standard_rtp_dynamic inp pos pc c)"
  using assms
  unfolding standard_udp_dynamic_def standard_esp_dynamic_def standard_rtp_dynamic_def Let_def
  by (auto simp: advanced_iff intro!: safe_intros rtp_update_wf)

lemma standard_dynamic_choice_safe:
  "context_wf c \<Longrightarrow> pos \<le> length inp \<Longrightarrow> safe (advanced inp pos)
     (if pr = UDP then standard_udp_dynamic inp pos c
      else if pr = ESP then standard_esp_dynamic inp pos c
      else if pr = RTP then standard_rtp_dynamic inp pos pc c else Done (c, pos))"
  by (simp add: standard_dynamic_safe advanced_iff)

lemma decode_ir_standard_safe: "context_wf c \<Longrightarrow> decoded inp (decode_ir_standard inp c pr pid)"
  unfolding decode_ir_standard_def
  apply (rule safe_seq [OF read_standard_ir_prefix_safe], clarsimp simp del: Let_def)
  apply (rule safe_then [OF read_standard_ip_static_safe], assumption, assumption, clarify)
  apply (rule safe_Let, rule safe_guard)
  apply (rule safe_then [OF standard_transport_static_safe], simp, assumption, clarify)
  apply (rule safe_then [OF read_standard_ip_dynamic_safe], assumption, assumption, clarify)
  apply (rule safe_then, rule standard_dynamic_choice_safe, assumption, assumption)
  apply (auto simp: advanced_iff intro!: safe_seq [OF crc8_exact_matches_safe] safe_intros)
  done

lemma decode_ir_compatible_safe:
  assumes "context_wf c" and "decoded inp (legacy inp c)"
  shows "decoded inp (decode_ir_compatible inp c pr pid legacy)"
  using decode_ir_standard_safe [OF assms(1), of inp pr pid] assms(2)
  by (auto simp: decode_ir_compatible_def split: res.splits)

lemma decode_ir_decoded:
  assumes "context_wf c"
  shows "decoded inp (decode_ir_rtp inp c)" "decoded inp (decode_ir_udp inp c)" "decoded inp (decode_ir_esp inp c)"
    "decoded inp (decode_ir_ip inp c)" "decoded inp (decode_ir_udp_lite inp c)" "decoded inp (decode_ir_rtp_udp_lite inp c)"
  using assms
  by (simp_all add: decode_ir_rtp_def decode_ir_udp_def decode_ir_esp_def decode_ir_ip_def decode_ir_udp_lite_def
      decode_ir_rtp_udp_lite_def decode_ir_compatible_safe decode_ir_rtp_legacy_safe decode_ir_udp_legacy_safe
      decode_ir_esp_legacy_safe decode_ir_ip_legacy_safe decode_ir_udp_lite_legacy_safe decode_ir_rtp_udp_lite_legacy_safe)

end
