(* ===== verification/IrDynDecode.thy ===== *)
theory IrDynDecode
  imports IrDecode
begin

text \<open>
  The decoders of IR-DYN packets, \<open>core/decode_ir_dyn.hpp\<close>. All of them check the CRC over a header whose
  length they compute from the option markers before they read the chains. The reads behind the
  prefix are unchecked in the source, so that they are \<open>Fault\<close> in the model when they leave the buffer.
\<close>

section \<open>Model\<close>

definition cid_octets :: "rohc_context \<Rightarrow> nat" where
  \<comment> \<open>\<open>cid_len + small_cid_len\<close>\<close>
  "cid_octets ctx = (if ctx_large_cid ctx then encoded_len (ctx_cid ctx) else 0) + (if has_small_cid ctx then 1 else 0)"

definition read_ir_dyn_prefix :: "bytes \<Rightarrow> rohc_context \<Rightarrow> byte \<Rightarrow> (nat \<times> byte) res" where
  \<comment> \<open>the start that the decoders share behind their length checks: position behind the CRC, and the CRC\<close>
  "read_ir_dyn_prefix inp ctx profile_id =
     seq_res
       (if has_small_cid ctx then rd inp 0 (\<lambda>b. guard (add_cid_matches b ctx) (Done 1)) else Done 0)
       (\<lambda>pos. rd inp pos (\<lambda>b. guard (b = 0xF8)
         (seq_res (read_large_cid_if_present inp (pos + 1) ctx) (\<lambda>pos.
          rd inp pos (\<lambda>b. guard (b = profile_id)
            (rd inp (pos + 1) (\<lambda>received_crc. Done (pos + 2, received_crc))))))))"

definition ir_dyn_room :: "bytes \<Rightarrow> rohc_context \<Rightarrow> nat \<Rightarrow> bool" where
  \<comment> \<open>the length checks of the decoders without RTP\<close>
  "ir_dyn_room inp ctx header_len_no_cid \<longleftrightarrow> \<not> length inp < header_len_no_cid \<and>
     (has_small_cid ctx \<longrightarrow> \<not> length inp < header_len_no_cid + 1)"

definition ir_dyn_checked_chain ::
    "bytes \<Rightarrow> rohc_context \<Rightarrow> nat \<Rightarrow> nat \<Rightarrow> byte \<Rightarrow> (rohc_context \<times> nat \<times> nat) res" where
  \<comment> \<open>header length, CRC check and IP dynamic chain: context, position, header length\<close>
  "ir_dyn_checked_chain inp ctx header_len_no_cid pos received_crc =
     (let min_header_len = header_len_no_cid + (if ctx_ip_version ctx = 6 then 1 else 0) + cid_octets ctx in
      seq_res (ip_dynamic_extra_len inp pos ctx) (\<lambda>options_extra_len.
      let header_len = min_header_len + options_extra_len in
      seq_res (crc8_exact_matches inp header_len (crc_index_of ctx) received_crc) (\<lambda>ok.
      guard ok (seq_res (read_legacy_ip_dynamic_consistent inp pos ctx) (\<lambda>(ctx, pos). Done (ctx, pos, header_len))))))"

definition decode_ir_dyn_esp :: "bytes \<Rightarrow> rohc_context \<Rightarrow> (rohc_context \<times> nat) res" where
  "decode_ir_dyn_esp inp ctx =
     guard (ir_dyn_room inp ctx 9)
     (seq_res (read_ir_dyn_prefix inp ctx 0x03) (\<lambda>(pos, received_crc).
      seq_res (ir_dyn_checked_chain inp ctx 9 pos received_crc) (\<lambda>(ctx, pos, header_len).
      Done (ctx\<lparr>ctx_profile := ESP, ctx_rohc_state := DynamicEstablished\<rparr>, header_len))))"

definition decode_ir_dyn_ip :: "bytes \<Rightarrow> rohc_context \<Rightarrow> (rohc_context \<times> nat) res" where
  "decode_ir_dyn_ip inp ctx =
     guard (ir_dyn_room inp ctx 9)
     (seq_res (read_ir_dyn_prefix inp ctx 0x04) (\<lambda>(pos, received_crc).
      seq_res (ir_dyn_checked_chain inp ctx 9 pos received_crc) (\<lambda>(ctx, pos, header_len).
      Done (ctx\<lparr>ctx_profile := IP, ctx_rohc_state := DynamicEstablished\<rparr>, header_len))))"

definition decode_ir_dyn_udp_lite :: "bytes \<Rightarrow> rohc_context \<Rightarrow> (rohc_context \<times> nat) res" where
  "decode_ir_dyn_udp_lite inp ctx =
     guard (ir_dyn_room inp ctx 13)
     (seq_res (read_ir_dyn_prefix inp ctx 0x08) (\<lambda>(pos, received_crc).
      seq_res (ir_dyn_checked_chain inp ctx 13 pos received_crc) (\<lambda>(ctx, pos, header_len).
      rd16 inp pos (\<lambda>cov. rd16 inp (pos + 2) (\<lambda>chk.
      Done (ctx\<lparr>ctx_udp_length_or_coverage := cov, ctx_udp_check := chk,
                ctx_profile := UDP_Lite, ctx_rohc_state := DynamicEstablished\<rparr>, header_len))))))"

definition decode_ir_dyn_udp :: "bytes \<Rightarrow> rohc_context \<Rightarrow> (rohc_context \<times> nat) res" where
  "decode_ir_dyn_udp inp ctx =
     guard (ir_dyn_room inp ctx 11)
     (seq_res (read_ir_dyn_prefix inp ctx 0x02) (\<lambda>(pos, received_crc).
      seq_res (ir_dyn_checked_chain inp ctx 11 pos received_crc) (\<lambda>(ctx, pos, header_len).
      rd16 inp pos (\<lambda>chk.
      Done (ctx\<lparr>ctx_udp_check := chk, ctx_profile := UDP, ctx_rohc_state := DynamicEstablished\<rparr>, header_len)))))"

definition ir_dyn_rtp_update :: "rohc_context \<Rightarrow> rohc_context \<Rightarrow> u16 \<Rightarrow> u32 \<Rightarrow> rohc_context" where
  \<comment> \<open>stride inference, IP-ID behaviour, sequence number and timestamp; \<open>previous\<close> is the context on entry\<close>
  "ir_dyn_rtp_update previous ctx seq ts =
     (let r = ctx_rtp ctx;
          r = (if rtp_initialized r \<noteq> 0 then
                 (case infer_timestamp_stride (rtp_last_seq r) (rtp_last_ts r) seq ts of
                    None \<Rightarrow> r
                  | Some (stride, residue) \<Rightarrow> r\<lparr>rtp_ts_stride := stride, rtp_ts_residue := residue\<rparr>)
               else r);
          sequential = (ctx_ip_version ctx = 4 \<and>
            (ctx_ip_version previous = 4 \<and> rtp_initialized (ctx_rtp previous) \<noteq> 0) \<and>
            (let id_delta = ctx_ipv4_id ctx - ctx_ipv4_id previous;
                 seq_delta = seq - rtp_last_seq (ctx_rtp previous)
             in id_delta \<noteq> 0 \<and> id_delta = seq_delta))
      in ctx\<lparr>ctx_ipv4_id_sequential := sequential, ctx_rtp := r\<lparr>rtp_last_seq := seq, rtp_last_ts := ts\<rparr>\<rparr>)"

definition ir_dyn_rtp_tail ::
    "bytes \<Rightarrow> rohc_context \<Rightarrow> rohc_context \<Rightarrow> nat \<Rightarrow> nat \<Rightarrow> (rohc_context \<times> nat) res" where
  \<comment> \<open>the RTP dynamic chain, its extras, and the assignments that close the decoder\<close>
  "ir_dyn_rtp_tail inp previous ctx pos candidate_len =
     rd inp pos (\<lambda>first. rd inp (pos + 1) (\<lambda>second. rd16 inp (pos + 2) (\<lambda>seq. rd32 inp (pos + 4) (\<lambda>ts.
       let ctx = ir_dyn_rtp_update previous
             (ctx\<lparr>ctx_rtp := (ctx_rtp ctx)\<lparr>rtp_vpxcc := first, rtp_mpt := second\<rparr>\<rparr>) seq ts in
       copy_in inp 0 candidate_len (\<lambda>header.
       seq_res (read_rtp_extras_list header (pos + 8) ctx) (\<lambda>(ctx, pos).
       guard (pos = candidate_len) (Done (establish_rtp ctx, candidate_len))))))))"

definition decode_ir_dyn_rtp_transport ::
    "bytes \<Rightarrow> rohc_context \<Rightarrow> nat \<Rightarrow> nat \<Rightarrow> byte \<Rightarrow> (nat \<Rightarrow> rohc_context \<Rightarrow> nat \<Rightarrow> (rohc_context \<times> nat) res) \<Rightarrow>
     (rohc_context \<times> nat) res" where
  \<comment> \<open>the part that the two RTP decoders share; \<open>transport_len\<close> is 2 for UDP and 4 for UDP-Lite, and \<open>k\<close>
    gets the candidate length, the context and the position behind the IP chain\<close>
  "decode_ir_dyn_rtp_transport inp ctx min_wire_len transport_len profile_id k =
     guard (\<not> length inp < min_wire_len + cid_octets ctx)
     (seq_res (read_ir_dyn_prefix inp ctx profile_id) (\<lambda>(pos, received_crc).
      let min_header_len = min_wire_len + cid_octets ctx + (if ctx_ip_version ctx = 6 then 1 else 0) in
      seq_res (ip_dynamic_extra_len inp pos ctx) (\<lambda>options_extra_len.
      let ip_dynamic_len = (if ctx_ip_version ctx = 6 then 7 else 6) + options_extra_len in
      seq_res (rtp_dynamic_extra_len inp (pos + ip_dynamic_len + transport_len + 8)) (\<lambda>rtp_extra_len.
      let candidate_len = min_header_len + options_extra_len + rtp_extra_len in
      seq_res (crc8_exact_matches inp candidate_len (crc_index_of ctx) received_crc) (\<lambda>ok.
      guard ok (seq_res (read_legacy_ip_dynamic_consistent inp pos ctx) (\<lambda>(ctx, pos). k candidate_len ctx pos)))))))"

definition decode_ir_dyn_rtp_udp_lite :: "bytes \<Rightarrow> rohc_context \<Rightarrow> (rohc_context \<times> nat) res" where
  "decode_ir_dyn_rtp_udp_lite inp previous =
     decode_ir_dyn_rtp_transport inp previous 22 4 0x07 (\<lambda>candidate_len ctx pos.
       rd16 inp pos (\<lambda>cov. rd16 inp (pos + 2) (\<lambda>chk.
       seq_res (ir_dyn_rtp_tail inp previous (ctx\<lparr>ctx_udp_length_or_coverage := cov, ctx_udp_check := chk\<rparr>)
         (pos + 4) candidate_len) (\<lambda>(ctx, consumed). Done (ctx\<lparr>ctx_profile := RTP_UDP_Lite\<rparr>, consumed)))))"

definition decode_ir_dyn_rtp :: "bytes \<Rightarrow> rohc_context \<Rightarrow> (rohc_context \<times> nat) res" where
  "decode_ir_dyn_rtp inp previous =
     decode_ir_dyn_rtp_transport inp previous 20 2 0x01 (\<lambda>candidate_len ctx pos.
       rd16 inp pos (\<lambda>chk.
       ir_dyn_rtp_tail inp previous (ctx\<lparr>ctx_udp_check := chk\<rparr>) (pos + 2) candidate_len))"

section \<open>The unchecked reads stay in bounds\<close>

lemma ip_dynamic_extra_len_safe: "safe (\<lambda>_. True) (ip_dynamic_extra_len inp pos c)"
  unfolding ip_dynamic_extra_len_def ipv4_options_extra_len_def Let_def by (auto intro!: safe_intros)

lemma rtp_dynamic_extra_len_safe: "safe (\<lambda>_. True) (rtp_dynamic_extra_len inp pos)"
  unfolding rtp_dynamic_extra_len_def by (auto intro!: safe_intros)

text \<open>The length computed in advance is the length that the IP dynamic chain takes.\<close>

lemma read_ip_dynamic_chain_consumes:
  assumes "ip_dynamic_extra_len inp pos c = Done e" and "pos \<le> length inp"
    and "read_ip_dynamic_chain inp pos c = Done (c', p)"
  shows "p = pos + (if ctx_ip_version c = 6 then 7 else 6) + e"
  using assms
  by (auto simp: ip_dynamic_extra_len_def ipv4_options_extra_len_def read_ip_dynamic_chain_def read_ipv4_options_def
      read_ipv6_extensions_def guard_def rd16_def Let_def rd_eq_Done copy_in_def split: if_splits)

lemma legacy_ip_dynamic_consumes:
  assumes "context_wf c" and "ip_dynamic_extra_len inp pos c = Done e" and "pos \<le> length inp"
  shows "safe (\<lambda>(c', p). context_wf c' \<and> p = pos + (if ctx_ip_version c = 6 then 7 else 6) + e \<and> p \<le> length inp)
     (read_legacy_ip_dynamic_consistent inp pos c)"
proof -
  have "safe (\<lambda>(c', p). context_wf c' \<and> p = pos + (if ctx_ip_version c = 6 then 7 else 6) + e \<and> p \<le> length inp)
     (read_ip_dynamic_chain inp pos c)"
    using read_ip_dynamic_chain_safe [OF assms(1,3)] read_ip_dynamic_chain_consumes [OF assms(2,3)]
    by (cases "read_ip_dynamic_chain inp pos c") (auto simp: advanced_iff simp del: if_split)
  then show ?thesis
    unfolding read_legacy_ip_dynamic_consistent_def Let_def
    by (rule safe_seq) (auto intro!: safe_intros)
qed

lemma read_ir_dyn_prefix_safe:
  assumes "5 \<le> length inp"
  shows "safe (\<lambda>(p, crc). p = 3 + cid_octets c \<and> p \<le> length inp) (read_ir_dyn_prefix inp c pid)"
  unfolding read_ir_dyn_prefix_def
  by (rule safe_seq [where Q = "\<lambda>p. p = (if has_small_cid c then 1 else 0)"])
    (use assms encoded_len_bounds [of "ctx_cid c"] in
      \<open>auto simp: cid_octets_def has_small_cid_def intro!: safe_intros safe_seq [OF read_large_cid_if_present_safe]\<close>)

lemma ir_dyn_checked_chain_safe:
  assumes "context_wf c" and "pos = 3 + cid_octets c" and "pos \<le> length inp" and "9 \<le> n"
  shows "safe (\<lambda>(c', p, h). context_wf c' \<and> p + (n - 9) = h \<and> h \<le> length inp) (ir_dyn_checked_chain inp c n pos crc)"
  unfolding ir_dyn_checked_chain_def Let_def
proof (rule safe_seq [where Q = "\<lambda>e. ip_dynamic_extra_len inp pos c = Done e"])
  show "safe (\<lambda>e. ip_dynamic_extra_len inp pos c = Done e) (ip_dynamic_extra_len inp pos c)"
    using ip_dynamic_extra_len_safe [of inp pos c] by (cases "ip_dynamic_extra_len inp pos c") auto
  fix e assume e: "ip_dynamic_extra_len inp pos c = Done e"
  note chain = legacy_ip_dynamic_consumes [OF assms(1) e assms(3)]
  show "safe (\<lambda>(c', p, h). context_wf c' \<and> p + (n - 9) = h \<and> h \<le> length inp)
     (seq_res (crc8_exact_matches inp (n + (if ctx_ip_version c = 6 then 1 else 0) + cid_octets c + e) (crc_index_of c) crc)
       (\<lambda>ok. guard ok (seq_res (read_legacy_ip_dynamic_consistent inp pos c)
          (\<lambda>(ctx, pos). Done (ctx, pos, n + (if ctx_ip_version c = 6 then 1 else 0) + cid_octets c + e)))))"
    by (rule safe_seq [OF crc8_exact_matches_safe], rule safe_guard, rule safe_seq [OF chain])
      (use assms(2,4) in auto)
qed

lemma ir_dyn_frame_safe:
  assumes "context_wf c" and "9 \<le> n"
    and k: "\<And>c' p. context_wf c' \<Longrightarrow> p + (n - 9) \<le> length inp \<Longrightarrow> decoded inp (k (c', p, p + (n - 9)))"
  shows "decoded inp (guard (ir_dyn_room inp c n) (seq_res (read_ir_dyn_prefix inp c pid)
    (\<lambda>(pos, crc). seq_res (ir_dyn_checked_chain inp c n pos crc) k)))"
proof (rule safe_guard, rule safe_seq [OF read_ir_dyn_prefix_safe])
  assume "ir_dyn_room inp c n"
  with assms(2) show "5 \<le> length inp" by (simp add: ir_dyn_room_def)
next
  fix x :: "nat \<times> byte" assume "case x of (p, crc) \<Rightarrow> p = 3 + cid_octets c \<and> p \<le> length inp"
  then show "decoded inp (case x of (pos, crc) \<Rightarrow> seq_res (ir_dyn_checked_chain inp c n pos crc) k)"
    using safe_seq [OF ir_dyn_checked_chain_safe [OF assms(1) _ _ assms(2)], of "fst x" inp "advanced inp 0" k "snd x"] k
    by (auto simp: case_prod_beta)
qed

lemma ir_dyn_decoders_safe:
  assumes "context_wf c"
  shows "decoded inp (decode_ir_dyn_esp inp c)" "decoded inp (decode_ir_dyn_ip inp c)"
    "decoded inp (decode_ir_dyn_udp_lite inp c)" "decoded inp (decode_ir_dyn_udp inp c)"
  unfolding decode_ir_dyn_esp_def decode_ir_dyn_ip_def decode_ir_dyn_udp_lite_def decode_ir_dyn_udp_def
  by (rule ir_dyn_frame_safe [OF assms]; auto simp: advanced_iff intro!: safe_intros)+

lemma ir_dyn_rtp_update_wf: "context_wf c \<Longrightarrow> context_wf (ir_dyn_rtp_update pc c s t)"
  by (auto simp: ir_dyn_rtp_update_def Let_def intro!: wf_rules split: option.splits)

lemma ir_dyn_rtp_tail_safe:
  assumes "context_wf c" and "pos + 9 \<le> h" and "h \<le> length inp"
  shows "decoded inp (ir_dyn_rtp_tail inp pc c pos h)"
  unfolding ir_dyn_rtp_tail_def Let_def
  by (intro safe_rd safe_rd16 safe_rd32 safe_copy_in safe_then [OF read_rtp_extras_list_safe] ir_dyn_rtp_update_wf
      wf_rules)
    (use assms in \<open>auto simp: advanced_iff establish_rtp_wf intro!: safe_intros wf_rules\<close>)

lemma decode_ir_dyn_rtp_transport_safe:
  assumes "context_wf c" and "t + 18 \<le> n"
    and k: "\<And>h c' p. context_wf c' \<Longrightarrow> p + t + 9 \<le> h \<Longrightarrow> h \<le> length inp \<Longrightarrow> decoded inp (k h c' p)"
  shows "decoded inp (decode_ir_dyn_rtp_transport inp c n t pid k)"
  unfolding decode_ir_dyn_rtp_transport_def
proof (rule safe_guard, rule safe_seq [OF read_ir_dyn_prefix_safe], use assms(2) in simp, clarify, rule safe_Let)
  fix pos crc assume pos: "3 + cid_octets c \<le> length inp"
  let ?pos = "3 + cid_octets c"
  let ?v = "if ctx_ip_version c = 6 then 1 else 0 :: nat"
  show "decoded inp (seq_res (ip_dynamic_extra_len inp ?pos c) (\<lambda>options_extra_len.
      let ip_dynamic_len = (if ctx_ip_version c = 6 then 7 else 6) + options_extra_len in
      seq_res (rtp_dynamic_extra_len inp (?pos + ip_dynamic_len + t + 8)) (\<lambda>rtp_extra_len.
      let candidate_len = n + cid_octets c + ?v + options_extra_len + rtp_extra_len in
      seq_res (crc8_exact_matches inp candidate_len (crc_index_of c) crc) (\<lambda>ok.
      guard ok (seq_res (read_legacy_ip_dynamic_consistent inp ?pos c) (\<lambda>(ctx, pos). k candidate_len ctx pos))))))"
    unfolding Let_def
  proof (rule safe_seq [where Q = "\<lambda>e. ip_dynamic_extra_len inp ?pos c = Done e"])
    show "safe (\<lambda>e. ip_dynamic_extra_len inp ?pos c = Done e) (ip_dynamic_extra_len inp ?pos c)"
      using ip_dynamic_extra_len_safe [of inp ?pos c] by (cases "ip_dynamic_extra_len inp ?pos c") auto
    fix e assume e: "ip_dynamic_extra_len inp ?pos c = Done e"
    note chain = legacy_ip_dynamic_consumes [OF assms(1) e pos]
    show "decoded inp (seq_res (rtp_dynamic_extra_len inp (?pos + ((if ctx_ip_version c = 6 then 7 else 6) + e) + t + 8))
      (\<lambda>x. seq_res (crc8_exact_matches inp (n + cid_octets c + ?v + e + x) (crc_index_of c) crc)
        (\<lambda>ok. guard ok (seq_res (read_legacy_ip_dynamic_consistent inp ?pos c)
          (\<lambda>(ctx, pos). k (n + cid_octets c + ?v + e + x) ctx pos)))))"
      by (rule safe_seq [OF rtp_dynamic_extra_len_safe], rule safe_seq [OF crc8_exact_matches_safe], rule safe_guard,
          rule safe_seq [OF chain], clarify, rule k) (use assms(2) in auto)
  qed
qed

lemma ir_dyn_rtp_decoders_safe:
  assumes "context_wf c"
  shows "decoded inp (decode_ir_dyn_rtp inp c)" "decoded inp (decode_ir_dyn_rtp_udp_lite inp c)"
  unfolding decode_ir_dyn_rtp_def decode_ir_dyn_rtp_udp_lite_def
  by (rule decode_ir_dyn_rtp_transport_safe [OF assms],
      auto simp: advanced_iff intro!: safe_intros safe_then [where pos = 0 and inp = inp] ir_dyn_rtp_tail_safe)+

section \<open>Properties\<close>

text \<open>
  C20. Memory safety of the header decoders. On every octet string, well formed or hostile, and from every
  context whose arrays have the sizes the code gives them, none of the twelve decoders of IR and IR-DYN
  packets reads outside its input or outside an array of the context; when one accepts, the context it
  leaves is well formed again and the header length it reports is at most the length of the input.
\<close>

theorem ir_decoders_memory_safe:
  assumes "context_wf c"
    and "d \<in> {decode_ir_rtp, decode_ir_udp, decode_ir_esp, decode_ir_ip, decode_ir_udp_lite, decode_ir_rtp_udp_lite,
      decode_ir_dyn_rtp, decode_ir_dyn_udp, decode_ir_dyn_esp, decode_ir_dyn_ip, decode_ir_dyn_udp_lite,
      decode_ir_dyn_rtp_udp_lite}"
  shows "d inp c \<noteq> Fault \<and> (\<forall>c' n. d inp c = Done (c', n) \<longrightarrow> context_wf c' \<and> n \<le> length inp)"
proof -
  have "decoded inp (d inp c)"
    using assms(2) decode_ir_decoded [OF assms(1), of inp] ir_dyn_decoders_safe [OF assms(1), of inp]
      ir_dyn_rtp_decoders_safe [OF assms(1), of inp] by auto
  then show ?thesis by (cases "d inp c") (auto simp: advanced_iff)
qed

theorem ir_decoders_memory_safe_witness:
  "decode_ir_dyn_rtp (0xF8 # 0x01 # replicate 30 0x80) context_zero \<noteq> Fault \<and>
   decode_ir_rtp (0xFD # 0x01 # replicate 30 0x40) context_zero \<noteq> Fault"
  using ir_decoders_memory_safe [of context_zero decode_ir_dyn_rtp "0xF8 # 0x01 # replicate 30 0x80"]
    ir_decoders_memory_safe [of context_zero decode_ir_rtp "0xFD # 0x01 # replicate 30 0x40"] by simp

end
