(* ===== verification/IrRoundtrip.thy ===== *)
theory IrRoundtrip
  imports IrEmit IrDynDecode
begin

text \<open>
  Sender and receiver of IR packets together: what \<open>emit_ir_*\<close> sends, \<open>decode_ir_*\<close> receives. The
  position-based decoders are run against the frame by \<open>holds_at\<close>, which says that given octets
  stand at a position of the buffer.
\<close>

section \<open>Octets at a position\<close>

definition holds_at :: "bytes \<Rightarrow> nat \<Rightarrow> bytes \<Rightarrow> bool" where
  "holds_at buf i w \<longleftrightarrow> i + length w \<le> length buf \<and> take (length w) (drop i buf) = w"

lemma holds_at_append: "holds_at buf i (a @ b) \<longleftrightarrow> holds_at buf i a \<and> holds_at buf (i + length a) b"
  by (auto simp: holds_at_def take_add add.commute add.left_commute append_eq_append_conv)

lemma holds_at_le: "holds_at buf i w \<Longrightarrow> i + length w \<le> length buf"
  by (simp add: holds_at_def)

lemma holds_at_here: "holds_at (w @ rest) 0 w" "holds_at (pre @ w @ rest) (length pre) w"
  by (simp_all add: holds_at_def)

lemma holds_at_nth: "holds_at buf i w \<Longrightarrow> j < length w \<Longrightarrow> buf ! (i + j) = w ! j"
  by (metis holds_at_def le_add1 nth_drop nth_take add_leD1)

lemma rd16_at: "holds_at buf i (be16 v) \<Longrightarrow> rd16 buf i k = k v"
  using holds_at_nth [of buf i "be16 v" 0] holds_at_nth [of buf i "be16 v" 1] holds_at_le [of buf i "be16 v"]
  by (simp add: rd16_def)

lemma rd32_at: "holds_at buf i (be32 v) \<Longrightarrow> rd32 buf i k = k v"
  using holds_at_nth [of buf i "be32 v" 0] holds_at_nth [of buf i "be32 v" 1] holds_at_nth [of buf i "be32 v" 2]
    holds_at_nth [of buf i "be32 v" 3] holds_at_le [of buf i "be32 v"]
  by (simp add: rd32_def)

lemma copy_in_at: "holds_at buf i v \<Longrightarrow> n = length v \<Longrightarrow> copy_in buf i n k = k v"
  by (simp add: holds_at_def)

lemma holds_at_Nil: "holds_at buf i [] \<longleftrightarrow> i \<le> length buf"
  by (simp add: holds_at_def)

lemma holds_at_Cons: "holds_at buf i (a # w) \<longleftrightarrow> i < length buf \<and> buf ! i = a \<and> holds_at buf (Suc i) w"
  by (cases "i < length buf") (auto simp: holds_at_def Cons_nth_drop_Suc [symmetric])

lemmas at_simps = holds_at_append holds_at_Nil holds_at_Cons
lemmas read_at = rd16_at rd32_at copy_in_at

section \<open>What a receiver takes from an IR packet\<close>

definition terminal_protocol :: "rohc_context \<Rightarrow> byte" where
  "terminal_protocol ctx = (if ctx_ip_version ctx = 6 then ctx_ipv6_next_header ctx else ctx_ipv4_protocol ctx)"

definition receive_ip_static :: "rohc_context \<Rightarrow> rohc_context \<Rightarrow> rohc_context" where
  "receive_ip_static ctx c = (if ctx_ip_version ctx = 4
     then c\<lparr>ctx_ip_version := 4, ctx_ipv4_protocol := ctx_ipv4_protocol ctx, ctx_ipv4_saddr := ctx_ipv4_saddr ctx,
        ctx_ipv4_daddr := ctx_ipv4_daddr ctx, ctx_ipv4_options_len := 0, ctx_ipv4_options := replicate 40 0\<rparr>
     else c\<lparr>ctx_ip_version := 6, ctx_ipv6_flow_label := 0, ctx_ipv6_next_header := ctx_ipv6_next_header ctx,
        ctx_ipv4_protocol := ctx_ipv6_next_header ctx, ctx_ipv6_saddr := ctx_ipv6_saddr ctx,
        ctx_ipv6_daddr := ctx_ipv6_daddr ctx, ctx_ipv6_extension_len := 0, ctx_ipv6_extensions := replicate 128 0\<rparr>)"

definition receive_transport_static :: "profile \<Rightarrow> rohc_context \<Rightarrow> rohc_context \<Rightarrow> rohc_context" where
  "receive_transport_static pr ctx c = (case pr of
      UDP \<Rightarrow> c\<lparr>ctx_udp_sport := ctx_udp_sport ctx, ctx_udp_dport := ctx_udp_dport ctx, ctx_udp_checksum_used := False\<rparr>
    | RTP \<Rightarrow> c\<lparr>ctx_udp_sport := ctx_udp_sport ctx, ctx_udp_dport := ctx_udp_dport ctx, ctx_udp_checksum_used := False,
        ctx_rtp := (ctx_rtp c)\<lparr>rtp_ssrc := rtp_ssrc (ctx_rtp ctx)\<rparr>\<rparr>
    | ESP \<Rightarrow> c\<lparr>ctx_esp_spi := ctx_esp_spi ctx\<rparr> | _ \<Rightarrow> c)"

definition receive_ip_dynamic :: "rohc_context \<Rightarrow> bool \<Rightarrow> rohc_context \<Rightarrow> rohc_context" where
  "receive_ip_dynamic ctx endpoint c =
     (let c = (if ctx_ip_version ctx = 6
         then c\<lparr>ctx_ipv6_traffic_class := ctx_ipv6_traffic_class ctx, ctx_ipv6_hop_limit := ctx_ipv6_hop_limit ctx\<rparr>
         else c\<lparr>ctx_ipv4_flags := ctx_ipv4_flags ctx AND 0x02, ctx_ipv4_id_behavior := ctx_ipv4_id_behavior ctx AND 0x03,
           ctx_ipv4_id_sequential := (ctx_ipv4_id_behavior ctx AND 0x03 \<le> 1), ctx_ipv4_tos := ctx_ipv4_tos ctx,
           ctx_ipv4_ttl := ctx_ipv4_ttl ctx,
           ctx_ipv4_id := (if ctx_ipv4_id_behavior ctx AND 0x03 \<noteq> 3 then ctx_ipv4_id ctx else 0)\<rparr>)
      in if endpoint then c\<lparr>ctx_reorder_ratio := ctx_reorder_ratio ctx AND 0x03, ctx_msn := ctx_msn ctx\<rparr> else c)"

definition receive_transport_dynamic :: "profile \<Rightarrow> rohc_context \<Rightarrow> rohc_context \<Rightarrow> rohc_context \<Rightarrow> rohc_context" where
  "receive_transport_dynamic pr ctx previous c = (case pr of
      UDP \<Rightarrow> c\<lparr>ctx_udp_check := ctx_udp_check ctx, ctx_udp_checksum_used := (ctx_udp_check ctx \<noteq> 0), ctx_msn := ctx_msn ctx,
        ctx_reorder_ratio := ctx_reorder_ratio ctx AND 0x03\<rparr>
    | ESP \<Rightarrow> c\<lparr>ctx_esp_sequence := ctx_esp_sequence ctx, ctx_reorder_ratio := ctx_reorder_ratio ctx AND 0x03,
        ctx_msn := ucast (ctx_esp_sequence ctx)\<rparr>
    | RTP \<Rightarrow> rtp_update previous (c\<lparr>ctx_udp_check := ctx_udp_check ctx, ctx_udp_checksum_used := (ctx_udp_check ctx \<noteq> 0),
        ctx_reorder_ratio := ctx_reorder_ratio ctx AND 0x03\<rparr>) 0x80 (rtp_mpt (ctx_rtp ctx)) (rtp_last_seq (ctx_rtp ctx))
        (rtp_last_ts (ctx_rtp ctx))
    | _ \<Rightarrow> c)"

definition receive_ir :: "profile \<Rightarrow> rohc_context \<Rightarrow> rohc_context \<Rightarrow> rohc_context" where
  "receive_ir pr ctx previous =
     (receive_transport_dynamic pr ctx previous (receive_ip_dynamic ctx (pr = IP) (receive_transport_static pr ctx
       ((receive_ip_static ctx previous)\<lparr>ctx_legacy_esp_payload_includes_header := False\<rparr>))))
       \<lparr>ctx_profile := pr, ctx_rohc_state := DynamicEstablished\<rparr>"

lemma read_standard_ip_static_at:
  assumes "holds_at buf i (std_ip_static ctx)" and "std_ip_ok ctx" and "context_wf ctx"
  shows "read_standard_ip_static buf i c = Done (receive_ip_static ctx c, i + length (std_ip_static ctx))"
proof (cases "ctx_ip_version ctx = 4")
  case True
  from assms(1) True holds_at_le [OF assms(1)] show ?thesis
    by (auto simp: std_ip_static_def at_simps guard_def read_standard_ip_static_def read_at receive_ip_static_def
        simp del: copy_in_in)
next
  case False
  then have "length (ctx_ipv6_saddr ctx) = 16" "length (ctx_ipv6_daddr ctx) = 16" using assms(3) by (auto simp: context_wf_def)
  with assms(1) False holds_at_le [OF assms(1)] show ?thesis
    by (auto simp: std_ip_static_def at_simps guard_def read_standard_ip_static_def read_at receive_ip_static_def
        simp del: copy_in_in)
qed

lemma ipv4_control_octet:
  fixes r f b :: byte
  defines "x \<equiv> push_bit 3 (r AND 0x03) OR push_bit 2 (drop_bit 1 f AND 0x01) OR (b AND 0x03)"
    and "y \<equiv> push_bit 2 (drop_bit 1 f AND 0x01) OR (b AND 0x03)"
  shows "x AND 0xE0 = 0" "drop_bit 3 x AND 0x03 = r AND 0x03" "push_bit 1 (drop_bit 2 x AND 0x01) = f AND 0x02"
    "x AND 0x03 = b AND 0x03" "y AND 0xF8 = 0" "push_bit 1 (drop_bit 2 y AND 0x01) = f AND 0x02" "y AND 0x03 = b AND 0x03"
  unfolding x_def y_def by (simp_all add: byte_bits del: push_bit_Suc)

lemma ipv4_control_fields:
  "ipv4_control ctx True AND 0xE0 = 0" "ipv4_control ctx False AND 0xF8 = 0"
  "drop_bit 3 (ipv4_control ctx True) AND 0x03 = ctx_reorder_ratio ctx AND 0x03"
  "push_bit 1 (drop_bit 2 (ipv4_control ctx e) AND 0x01) = ctx_ipv4_flags ctx AND 0x02"
  "ipv4_control ctx e AND 0x03 = ctx_ipv4_id_behavior ctx AND 0x03"
  unfolding ipv4_control_def Let_def if_True if_False by (simp_all only: ipv4_control_octet split: if_split) simp_all

lemma read_standard_ipv4_id_at:
  assumes "holds_at buf i (if ctx_ipv4_id_behavior c \<noteq> 3 then be16 v else [])"
  shows "read_standard_ipv4_id buf i c =
     Done (c\<lparr>ctx_ipv4_id := (if ctx_ipv4_id_behavior c \<noteq> 3 then v else 0)\<rparr>, i + (if ctx_ipv4_id_behavior c \<noteq> 3 then 2 else 0))"
  using assms holds_at_le [OF assms] by (cases "ctx_ipv4_id_behavior c = 3") (auto simp: read_standard_ipv4_id_def guard_def read_at)

lemma read_standard_ip_dynamic_at:
  assumes at: "holds_at buf i (std_ip_dynamic ctx e)" and v: "ctx_ip_version c = ctx_ip_version ctx"
  shows "read_standard_ip_dynamic buf i c e = Done (receive_ip_dynamic ctx e c, i + length (std_ip_dynamic ctx e))"
proof (cases "ctx_ip_version ctx = 6")
  case True
  have "(ctx_reorder_ratio ctx AND 0x03) AND 0xFC = 0" by (simp add: byte_bits)
  with at True v holds_at_le [OF at] show ?thesis
    by (cases e) (auto simp: std_ip_dynamic_def at_simps guard_def read_standard_ip_dynamic_def read_standard_ipv6_dynamic_def read_at
        receive_ip_dynamic_def)
next
  case False
  let ?b = "ctx_ipv4_id_behavior ctx AND 0x03"
  let ?n = "if ?b \<noteq> 3 then 2 else 0 :: nat"
  from at False have octets: "buf ! i = ipv4_control ctx e" "buf ! Suc i = ctx_ipv4_tos ctx" "buf ! Suc (Suc i) = ctx_ipv4_ttl ctx"
    and id_at: "holds_at buf (i + 3) (if ?b \<noteq> 3 then be16 (ctx_ipv4_id ctx) else [])"
    and msn_at: "e \<Longrightarrow> holds_at buf (i + 3 + ?n) (be16 (ctx_msn ctx))"
    by (auto simp: std_ip_dynamic_def at_simps eval_nat_numeral split: if_splits)
  have len: "i + 3 + ?n + (if e then 2 else 0) \<le> length buf"
    using False holds_at_le [OF at] by (auto simp: std_ip_dynamic_def split: if_splits)
  have msn: "e \<Longrightarrow> rd16 buf (i + 3 + ?n) k = k (ctx_msn ctx)" for k :: "_ \<Rightarrow> (rohc_context \<times> nat) res"
    using msn_at by (rule rd16_at)
  have idr: "read_standard_ipv4_id buf (i + 3)
        (c'\<lparr>ctx_ipv4_id_behavior := ?b, ctx_ipv4_id_sequential := x, ctx_ipv4_tos := y, ctx_ipv4_ttl := z\<rparr>) =
      Done (c'\<lparr>ctx_ipv4_id_behavior := ?b, ctx_ipv4_id_sequential := x, ctx_ipv4_tos := y, ctx_ipv4_ttl := z,
        ctx_ipv4_id := (if ?b \<noteq> 3 then ctx_ipv4_id ctx else 0)\<rparr>, i + 3 + ?n)" for c' x y z
    using read_standard_ipv4_id_at [of buf "i + 3" "c'\<lparr>ctx_ipv4_id_behavior := ?b, ctx_ipv4_id_sequential := x,
      ctx_ipv4_tos := y, ctx_ipv4_ttl := z\<rparr>" "ctx_ipv4_id ctx"] id_at by simp
  have room: "\<not> szsub (length buf) i < 3" "e \<Longrightarrow> \<not> szsub (length buf) (i + 3 + ?n) < 2" "i < length buf"
    "i + 1 < length buf" "i + 2 < length buf"
    using len by (auto split: if_splits)
  have octets': "buf ! (i + 1) = ctx_ipv4_tos ctx" "buf ! (i + 2) = ctx_ipv4_ttl ctx" using octets by simp_all
  have len': "length (std_ip_dynamic ctx e) = 3 + ?n + (if e then 2 else 0)" using False by (simp add: std_ip_dynamic_def)
  show ?thesis
    unfolding read_standard_ip_dynamic_def read_standard_ipv4_dynamic_def len' if_not_P [OF False [folded v]] if_not_P [OF False]
      receive_ip_dynamic_def Let_def
    by (cases e; (simp only: room octets octets' rd_in ipv4_control_fields guard_simps if_True if_False idr
        rohc_context.simps seq_res.simps msn prod.case not_False_eq_True simp_thms add.assoc [symmetric] add_0_right
        if_not_P [OF False [folded v]] if_not_P [OF False])?; simp)
qed

lemma pos_simps:
  "i + 3 = Suc (Suc (Suc i))" "i + 4 = Suc (Suc (Suc (Suc i)))" "i + 5 = Suc (Suc (Suc (Suc (Suc i))))"
  "i + 6 = Suc (Suc (Suc (Suc (Suc (Suc i)))))"
  by simp_all

lemma standard_transport_static_at:
  assumes at: "holds_at buf i (std_transport_static pr ctx)" and pr: "pr \<in> {RTP, UDP, ESP, IP}"
  shows "standard_transport_static buf i c pr =
     Done (receive_transport_static pr ctx c, i + length (std_transport_static pr ctx))"
  using pr at holds_at_le [OF at]
  by (auto simp: std_transport_static_def standard_transport_static_def read_udp_ports_def receive_transport_static_def
      at_simps guard_def read_at pos_simps)

lemma rtp_indicator_octet:
  "push_bit 5 (r AND 0x03) AND 0x80 = (0 :: byte)" "push_bit 5 (r AND 0x03) AND 0x1C = (0 :: byte)"
  "push_bit 5 (r AND 0x03) AND 0x03 = (0 :: byte)" "drop_bit 5 (push_bit 5 (r AND 0x03)) AND 0x03 = (r AND 0x03 :: byte)"
  "(r AND 0x03) AND 0xFC = (0 :: byte)"
  by (simp_all add: byte_bits)

lemma standard_udp_dynamic_at:
  assumes at: "holds_at buf i (be16 chk @ be16 msn @ [r])" and r: "r AND 0xFC = 0"
  shows "standard_udp_dynamic buf i c = Done (c\<lparr>ctx_udp_check := chk, ctx_udp_checksum_used := (chk \<noteq> 0), ctx_msn := msn,
     ctx_reorder_ratio := r AND 0x03\<rparr>, i + 5)"
  using at r holds_at_le [OF at] by (auto simp: standard_udp_dynamic_def at_simps guard_def read_at pos_simps(2))

lemma standard_esp_dynamic_at:
  assumes at: "holds_at buf i (be32 sn @ [r])" and r: "r AND 0xFC = 0"
  shows "standard_esp_dynamic buf i c = Done (c\<lparr>ctx_esp_sequence := sn, ctx_reorder_ratio := r AND 0x03,
     ctx_msn := ucast sn\<rparr>, i + 5)"
  using at r holds_at_le [OF at] by (auto simp: standard_esp_dynamic_def at_simps guard_def read_at)

lemma standard_rtp_dynamic_at:
  assumes at: "holds_at buf i (be16 chk @ [ind, mpt] @ be16 seq @ be32 ts)"
    and ind: "ind AND 0x80 = 0" "ind AND 0x1C = 0" "ind AND 0x03 = 0" "drop_bit 5 ind AND 0x03 = r"
  shows "standard_rtp_dynamic buf i previous c = Done (rtp_update previous (c\<lparr>ctx_udp_check := chk,
     ctx_udp_checksum_used := (chk \<noteq> 0), ctx_reorder_ratio := r\<rparr>) 0x80 mpt seq ts, i + 10)"
proof -
  have len: "i + 10 \<le> length buf" using holds_at_le [OF at] by simp
  have a: "rd16 buf i k = k chk" for k :: "_ \<Rightarrow> (rohc_context \<times> nat) res" using at by (intro rd16_at) (simp add: at_simps)
  have b: "rd16 buf (i + 4) k = k seq" for k :: "_ \<Rightarrow> (rohc_context \<times> nat) res"
    using at by (intro rd16_at) (simp add: at_simps pos_simps)
  have d: "rd32 buf (i + 6) k = k ts" for k :: "_ \<Rightarrow> (rohc_context \<times> nat) res"
    using at by (intro rd32_at) (simp add: at_simps pos_simps)
  have e: "buf ! (i + 2) = ind" "buf ! (i + 3) = mpt" using at by (simp_all add: at_simps pos_simps)
  show ?thesis using len ind unfolding standard_rtp_dynamic_def by (auto simp: guard_def a b d e Let_def simp del: One_nat_def add_2_eq_Suc')
qed

lemma standard_transport_dynamic_at:
  assumes at: "holds_at buf i (std_transport_dynamic pr ctx)" and pr: "pr \<in> {RTP, UDP, ESP, IP}"
  shows "(if pr = UDP then standard_udp_dynamic buf i c
        else if pr = ESP then standard_esp_dynamic buf i c
        else if pr = RTP then standard_rtp_dynamic buf i previous c
        else Done (c, i)) =
     Done (receive_transport_dynamic pr ctx previous c, i + length (std_transport_dynamic pr ctx))"
proof -
  note octet = rtp_indicator_octet [of "ctx_reorder_ratio ctx"]
  note defs = std_transport_dynamic_def receive_transport_dynamic_def profile.case
  from pr consider "pr = RTP" | "pr = UDP" | "pr = ESP" | "pr = IP" by blast
  then show ?thesis
  proof cases
    case 1
    show ?thesis
      using standard_rtp_dynamic_at [OF at [unfolded 1 defs] octet(1-4), of previous c] by (simp add: 1 defs)
  next
    case 2
    show ?thesis using standard_udp_dynamic_at [OF at [unfolded 2 defs] octet(5), of c] by (simp add: 2 defs)
  next
    case 3
    show ?thesis using standard_esp_dynamic_at [OF at [unfolded 3 defs] octet(5), of c] by (simp add: 3 defs)
  qed (simp add: defs)
qed

lemma add_cid_octet_eq:
  assumes "is_small v"
  shows "(ucast (0xE0 OR v) :: byte) = ucast (0xE0 OR (v AND 0x0F))"
proof -
  have "v < 2 ^ 4" using assms by (simp add: is_small_def small_cid_max_def word_le_nat_alt word_less_nat_alt)
  then have "take_bit 4 v = v" by (rule take_bit_small) simp
  then have "v AND 0x0F = v" by (simp add: take_bit_eq_mask mask_numeral)
  then show ?thesis by simp
qed

lemma read_large_at:
  assumes "holds_at buf i (sdvl v)" and "v \<le> large_cid_max"
  shows "read_large (drop i buf) = Done (v, encoded_len v)"
proof -
  have "drop i buf = sdvl v @ drop (length (sdvl v)) (drop i buf)"
    using assms(1) by (metis append_take_drop_id holds_at_def)
  then show ?thesis using read_sdvl [OF assms(2)] by metis
qed

lemma read_standard_ir_prefix_at:
  assumes at: "holds_at buf 0 (ir_head ctx pid @ [crc])"
    and valid: "is_valid_for_space (ctx_cid ctx) (ctx_large_cid ctx)"
    and same: "ctx_cid previous = ctx_cid ctx" "ctx_large_cid previous = ctx_large_cid ctx"
  shows "read_standard_ir_prefix buf previous pid = Done (length (ir_head ctx pid) + 1, length (ir_head ctx pid), crc)"
proof (cases "ctx_large_cid ctx")
  case True
  with valid have v: "ctx_cid ctx \<le> large_cid_max" by (simp add: is_valid_for_space_def)
  from at True have sd: "holds_at buf (Suc 0) (sdvl (ctx_cid ctx))"
    by (simp add: ir_head_def cid_prefix_def large_cid_field_def at_simps)
  from at True same show ?thesis
    by (auto simp: ir_head_def cid_prefix_def large_cid_field_def at_simps read_standard_ir_prefix_def has_small_cid_def guard_def
        read_large_at [OF sd v])
next
  case False
  with valid have "is_small (ctx_cid ctx)" by (simp add: is_valid_for_space_def)
  from at False same add_cid_octet_eq [OF this] show ?thesis
    by (cases "ctx_cid ctx = 0") (auto simp: ir_head_def cid_prefix_def large_cid_field_def at_simps read_standard_ir_prefix_def
        has_small_cid_def guard_def word_gt_0)
qed

lemma frame_crc_matches:
  assumes "length (ir_frame pr pid ctx) \<le> 1024"
  shows "crc8_exact_matches (ir_frame pr pid ctx @ rest) (length (ir_frame pr pid ctx)) (length (ir_head ctx pid))
     (crc8 (ir_head ctx pid @ [0] @ ir_chains pr ctx)) = Done True"
proof -
  have "(ir_frame pr pid ctx)[length (ir_head ctx pid) := 0] = ir_head ctx pid @ [0] @ ir_chains pr ctx"
    by (simp add: ir_frame_def)
  then show ?thesis using assms by (simp add: crc8_exact_matches_def) (simp add: ir_frame_def)
qed

lemma decode_ir_standard_frame:
  assumes wf: "context_wf ctx" and pr: "pr \<in> {RTP, UDP, ESP, IP}" and em: "ir_emittable pr ctx"
    and same: "ctx_cid previous = ctx_cid ctx" "ctx_large_cid previous = ctx_large_cid ctx"
    and proto: "pr = ESP \<Longrightarrow> terminal_protocol ctx = 50" "pr \<in> {UDP, RTP} \<Longrightarrow> terminal_protocol ctx = 17"
  shows "decode_ir_standard (ir_frame pr pid ctx @ rest) previous pr pid =
     Done (receive_ir pr ctx previous, length (ir_frame pr pid ctx))"
proof -
  define buf where "buf = ir_frame pr pid ctx @ rest"
  define h where "h = length (ir_head ctx pid)"
  define crc where "crc = crc8 (ir_head ctx pid @ [0] @ ir_chains pr ctx)"
  define a where "a = h + 1"
  define b where "b = a + length (std_ip_static ctx)"
  define d where "d = b + length (std_transport_static pr ctx)"
  define e where "e = d + length (std_ip_dynamic ctx (pr = IP))"
  have "holds_at buf 0 (ir_frame pr pid ctx)" unfolding buf_def by (rule holds_at_here)
  then have at: "holds_at buf 0 (ir_head ctx pid @ [crc])" "holds_at buf a (std_ip_static ctx)"
    "holds_at buf b (std_transport_static pr ctx)" "holds_at buf d (std_ip_dynamic ctx (pr = IP))"
    "holds_at buf e (std_transport_dynamic pr ctx)"
    using holds_at_append [of buf 0 "ir_head ctx pid @ [crc]" "ir_chains pr ctx"]
    by (simp_all add: ir_frame_def ir_chains_def holds_at_append crc_def a_def b_def d_def e_def h_def)
  have len: "e + length (std_transport_dynamic pr ctx) = length (ir_frame pr pid ctx)"
    by (simp add: e_def d_def b_def a_def h_def ir_frame_def ir_chains_def)
  have ok: "std_ip_ok ctx" "is_valid_for_space (ctx_cid ctx) (ctx_large_cid ctx)" using em by (simp_all add: ir_emittable_def)
  define c1 where "c1 = receive_ip_static ctx previous"
  define c2 where "c2 = receive_transport_static pr ctx (c1\<lparr>ctx_legacy_esp_payload_includes_header := False\<rparr>)"
  have tp: "(if ctx_ip_version c1 = 6 then ctx_ipv6_next_header c1 else ctx_ipv4_protocol c1) = terminal_protocol ctx"
    "ctx_ip_version c2 = ctx_ip_version ctx"
    using ok(1) by (auto simp: c1_def c2_def receive_ip_static_def terminal_protocol_def std_ip_ok_def
        receive_transport_static_def split: profile.splits)
  have "terminal_protocol ctx = required_protocol c1 pr (terminal_protocol ctx)"
    using proto by (simp add: required_protocol_def)
  moreover have "crc8_exact_matches buf (e + length (std_transport_dynamic pr ctx)) h crc = Done True"
    unfolding buf_def h_def crc_def len by (rule frame_crc_matches) (use length_ir_frame [OF wf, of pr pid] in simp)
  ultimately show ?thesis
    unfolding decode_ir_standard_def buf_def [symmetric]
      read_standard_ir_prefix_at [OF at(1) ok(2) same] seq_res.simps prod.case
    using read_standard_ip_static_at [OF at(2) ok(1) wf, of previous] standard_transport_static_at [OF at(3) pr]
      read_standard_ip_dynamic_at [OF at(4) tp(2)] standard_transport_dynamic_at [OF at(5) pr]
    by (simp only: a_def [symmetric] h_def [symmetric] b_def [symmetric] d_def [symmetric] e_def [symmetric] c1_def [symmetric]
        c2_def [symmetric] tp seq_res.simps prod.case guard_simps simp_thms Let_def len receive_ir_def)
qed

section \<open>Agreement of sender and receiver\<close>

definition ip_fields_agree :: "rohc_context \<Rightarrow> rohc_context \<Rightarrow> bool" where
  "ip_fields_agree a b \<longleftrightarrow> ctx_ip_version b = ctx_ip_version a \<and>
     (if ctx_ip_version a = 4
      then ctx_ipv4_protocol b = ctx_ipv4_protocol a \<and> ctx_ipv4_saddr b = ctx_ipv4_saddr a \<and>
        ctx_ipv4_daddr b = ctx_ipv4_daddr a \<and> ctx_ipv4_tos b = ctx_ipv4_tos a \<and> ctx_ipv4_ttl b = ctx_ipv4_ttl a \<and>
        ctx_ipv4_flags b = ctx_ipv4_flags a AND 0x02 \<and> ctx_ipv4_id_behavior b = ctx_ipv4_id_behavior a AND 0x03 \<and>
        ctx_ipv4_id b = (if ctx_ipv4_id_behavior a AND 0x03 \<noteq> 3 then ctx_ipv4_id a else 0)
      else ctx_ipv6_next_header b = ctx_ipv6_next_header a \<and> ctx_ipv6_saddr b = ctx_ipv6_saddr a \<and>
        ctx_ipv6_daddr b = ctx_ipv6_daddr a \<and> ctx_ipv6_traffic_class b = ctx_ipv6_traffic_class a \<and>
        ctx_ipv6_hop_limit b = ctx_ipv6_hop_limit a \<and> ctx_ipv6_flow_label b = ctx_ipv6_flow_label a)"

definition transport_fields_agree :: "profile \<Rightarrow> rohc_context \<Rightarrow> rohc_context \<Rightarrow> bool" where
  "transport_fields_agree pr a b \<longleftrightarrow> ctx_reorder_ratio b = ctx_reorder_ratio a AND 0x03 \<and>
     (pr \<in> {UDP, RTP} \<longrightarrow> ctx_udp_sport b = ctx_udp_sport a \<and> ctx_udp_dport b = ctx_udp_dport a \<and>
        ctx_udp_check b = ctx_udp_check a \<and> ctx_udp_checksum_used b = (ctx_udp_check a \<noteq> 0)) \<and>
     (pr \<in> {UDP, IP} \<longrightarrow> ctx_msn b = ctx_msn a) \<and>
     (pr = ESP \<longrightarrow> ctx_esp_spi b = ctx_esp_spi a \<and> ctx_esp_sequence b = ctx_esp_sequence a) \<and>
     (pr = RTP \<longrightarrow> rtp_ssrc (ctx_rtp b) = rtp_ssrc (ctx_rtp a) \<and> rtp_mpt (ctx_rtp b) = rtp_mpt (ctx_rtp a) \<and>
        rtp_last_seq (ctx_rtp b) = rtp_last_seq (ctx_rtp a) \<and> rtp_last_ts (ctx_rtp b) = rtp_last_ts (ctx_rtp a) \<and>
        rtp_vpxcc (ctx_rtp b) = 0x80)"

lemma rtp_update_selectors:
  "ctx_ip_version (rtp_update p c v m s t) = ctx_ip_version c" "ctx_cid (rtp_update p c v m s t) = ctx_cid c"
  "ctx_large_cid (rtp_update p c v m s t) = ctx_large_cid c"
  "ctx_ipv4_protocol (rtp_update p c v m s t) = ctx_ipv4_protocol c" "ctx_ipv4_saddr (rtp_update p c v m s t) = ctx_ipv4_saddr c"
  "ctx_ipv4_daddr (rtp_update p c v m s t) = ctx_ipv4_daddr c" "ctx_ipv4_tos (rtp_update p c v m s t) = ctx_ipv4_tos c"
  "ctx_ipv4_ttl (rtp_update p c v m s t) = ctx_ipv4_ttl c" "ctx_ipv4_flags (rtp_update p c v m s t) = ctx_ipv4_flags c"
  "ctx_ipv4_id_behavior (rtp_update p c v m s t) = ctx_ipv4_id_behavior c" "ctx_ipv4_id (rtp_update p c v m s t) = ctx_ipv4_id c"
  "ctx_ipv6_next_header (rtp_update p c v m s t) = ctx_ipv6_next_header c" "ctx_ipv6_saddr (rtp_update p c v m s t) = ctx_ipv6_saddr c"
  "ctx_ipv6_daddr (rtp_update p c v m s t) = ctx_ipv6_daddr c"
  "ctx_ipv6_traffic_class (rtp_update p c v m s t) = ctx_ipv6_traffic_class c"
  "ctx_ipv6_hop_limit (rtp_update p c v m s t) = ctx_ipv6_hop_limit c" "ctx_ipv6_flow_label (rtp_update p c v m s t) = ctx_ipv6_flow_label c"
  "ctx_reorder_ratio (rtp_update p c v m s t) = ctx_reorder_ratio c" "ctx_udp_sport (rtp_update p c v m s t) = ctx_udp_sport c"
  "ctx_udp_dport (rtp_update p c v m s t) = ctx_udp_dport c" "ctx_udp_check (rtp_update p c v m s t) = ctx_udp_check c"
  "ctx_udp_checksum_used (rtp_update p c v m s t) = ctx_udp_checksum_used c"
  "rtp_ssrc (ctx_rtp (rtp_update p c v m s t)) = rtp_ssrc (ctx_rtp c)" "rtp_mpt (ctx_rtp (rtp_update p c v m s t)) = m"
  "rtp_last_seq (ctx_rtp (rtp_update p c v m s t)) = s" "rtp_last_ts (ctx_rtp (rtp_update p c v m s t)) = t"
  "rtp_vpxcc (ctx_rtp (rtp_update p c v m s t)) = v"
  by (simp_all add: rtp_update_def Let_def split: option.splits)

lemma receive_ir_agrees:
  assumes "pr \<in> {RTP, UDP, ESP, IP}" and "std_ip_ok ctx"
  shows "ip_fields_agree ctx (receive_ir pr ctx previous) \<and> transport_fields_agree pr ctx (receive_ir pr ctx previous) \<and>
     ctx_rohc_state (receive_ir pr ctx previous) = DynamicEstablished \<and> ctx_profile (receive_ir pr ctx previous) = pr \<and>
     ctx_cid (receive_ir pr ctx previous) = ctx_cid previous"
proof -
  note defs = receive_ir_def receive_transport_dynamic_def receive_transport_static_def receive_ip_dynamic_def
    receive_ip_static_def ip_fields_agree_def transport_fields_agree_def Let_def
  from assms(2) consider "ctx_ip_version ctx = 4" | "ctx_ip_version ctx = 6" "ctx_ipv6_flow_label ctx = 0"
    by (auto simp: std_ip_ok_def)
  then show ?thesis using assms(1) by cases (auto simp: defs rtp_update_selectors)
qed

definition ir_profile_of :: "profile \<Rightarrow> byte" where
  "ir_profile_of pr = (case pr of RTP \<Rightarrow> 0x01 | UDP \<Rightarrow> 0x02 | ESP \<Rightarrow> 0x03 | _ \<Rightarrow> 0x04)"

definition emit_ir_of :: "profile \<Rightarrow> nat \<Rightarrow> rohc_context \<Rightarrow> bytes res" where
  "emit_ir_of pr = (case pr of RTP \<Rightarrow> emit_ir_rtp | UDP \<Rightarrow> emit_ir_udp | ESP \<Rightarrow> emit_ir_esp | _ \<Rightarrow> emit_ir_ip)"

definition legacy_ir_of :: "profile \<Rightarrow> bytes \<Rightarrow> rohc_context \<Rightarrow> (rohc_context \<times> nat) res" where
  "legacy_ir_of pr = (case pr of RTP \<Rightarrow> decode_ir_rtp_legacy | UDP \<Rightarrow> decode_ir_udp_legacy | ESP \<Rightarrow> decode_ir_esp_legacy
     | _ \<Rightarrow> decode_ir_ip_legacy)"

definition decode_ir_of :: "profile \<Rightarrow> bytes \<Rightarrow> rohc_context \<Rightarrow> (rohc_context \<times> nat) res" where
  "decode_ir_of pr = (case pr of RTP \<Rightarrow> decode_ir_rtp | UDP \<Rightarrow> decode_ir_udp | ESP \<Rightarrow> decode_ir_esp | _ \<Rightarrow> decode_ir_ip)"

lemma emit_ir_of_eq:
  assumes "context_wf ctx" and "pr \<in> {RTP, UDP, ESP, IP}"
  shows "emit_ir_of pr cap ctx = (if ir_emittable pr ctx \<and> length (ir_frame pr (ir_profile_of pr) ctx) \<le> cap
     then Done (ir_frame pr (ir_profile_of pr) ctx) else Reject)"
  using assms(2) by (auto simp: emit_ir_of_def ir_profile_of_def emit_ir_eq [OF assms(1)])

lemma decode_ir_of_eq:
  assumes "pr \<in> {RTP, UDP, ESP, IP}"
  shows "decode_ir_of pr inp c = decode_ir_compatible inp c pr (ir_profile_of pr) (legacy_ir_of pr)"
  using assms by (auto simp: decode_ir_of_def ir_profile_of_def legacy_ir_of_def decode_ir_rtp_def decode_ir_udp_def
      decode_ir_esp_def decode_ir_ip_def)

section \<open>A valid packet that the receiver drops\<close>

lemma read_legacy_ir_prefix_at:
  assumes at: "holds_at buf 0 (ir_head ctx pid @ [crc])" and n: "n + length (cid_prefix ctx) \<le> length buf"
    and valid: "is_valid_for_space (ctx_cid ctx) (ctx_large_cid ctx)"
    and same: "ctx_cid previous = ctx_cid ctx" "ctx_large_cid previous = ctx_large_cid ctx"
  shows "read_legacy_ir_prefix buf previous n pid = Done (length (ir_head ctx pid) + 1, crc)"
proof (cases "ctx_large_cid ctx")
  case True
  with valid have v: "ctx_cid ctx \<le> large_cid_max" by (simp add: is_valid_for_space_def)
  from at True have sd: "holds_at buf (Suc 0) (sdvl (ctx_cid ctx))"
    by (simp add: ir_head_def cid_prefix_def large_cid_field_def at_simps)
  from at n True same show ?thesis
    by (auto simp: ir_head_def cid_prefix_def large_cid_field_def at_simps read_legacy_ir_prefix_def has_small_cid_def guard_def
        available_def read_large_cid_if_present_def read_large_at [OF sd v])
next
  case False
  have "(ucast (0xE0 OR (ctx_cid ctx AND 0x0F)) :: byte) AND 0xF0 = 0xE0"
    "(ucast ((ucast (0xE0 OR (ctx_cid ctx AND 0x0F)) :: byte) AND 0x0F) :: u32) = ctx_cid ctx AND 0x0F"
    by (simp_all add: byte_bits u32_bits)
  with at n False same show ?thesis
    by (cases "ctx_cid ctx = 0") (auto simp: ir_head_def cid_prefix_def large_cid_field_def at_simps read_legacy_ir_prefix_def
        has_small_cid_def guard_def word_gt_0 available_def read_large_cid_if_present_def add_cid_matches_def)
qed

lemma read_ip_static_chain_at_v4:
  assumes "holds_at buf i (std_ip_static ctx)" and "ctx_ip_version ctx = 4"
  shows "read_ip_static_chain buf i c = Done (c\<lparr>ctx_ip_version := 4, ctx_ipv4_protocol := ctx_ipv4_protocol ctx,
     ctx_ipv4_saddr := ctx_ipv4_saddr ctx, ctx_ipv4_daddr := ctx_ipv4_daddr ctx\<rparr>, i + 10)"
  using assms holds_at_le [OF assms(1)]
  by (auto simp: std_ip_static_def at_simps read_ip_static_chain_def guard_def read_at Let_def)

lemma crc_index_of_head:
  assumes "ctx_cid previous = ctx_cid ctx" "ctx_large_cid previous = ctx_large_cid ctx"
  shows "crc_index_of previous = length (ir_head ctx pid)"
  using assms by (simp add: crc_index_of_def has_small_cid_def ir_head_def cid_prefix_def large_cid_field_def)

lemma empty_marker [simp]: "is_empty_list 0"
  by (simp add: is_empty_list_def empty_list_marker_def)

lemma legacy_udp_chain_at:
  assumes at: "holds_at buf i ([o0, o1, o2, o3, o4, 0] @ be16 chk)" and c: "ctx_ip_version c = 4" "ctx_ipv4_protocol c = 17"
  shows "\<exists>c'. read_legacy_ip_dynamic_consistent buf i c = Done (c', i + 6) \<and> ctx_ipv4_protocol c' = 17 \<and>
     ctx_cid c' = ctx_cid c \<and> ctx_large_cid c' = ctx_large_cid c"
proof -
  have len: "i + 8 \<le> length buf" using holds_at_le [OF at] by simp
  have o: "buf ! (i + 5) = 0" using at by (simp add: at_simps pos_simps)
  show ?thesis
    using c len o
    by (simp add: read_legacy_ip_dynamic_consistent_def read_ip_dynamic_chain_def read_ipv4_options_def guard_def rd16_def Let_def)
qed

lemma zero_id_udp_chains:
  assumes "ctx_ip_version ctx = 4" and "ctx_ipv4_id_behavior ctx AND 0x03 = 3" and "drop_bit 8 (ctx_msn ctx) = 0"
  shows "ir_chains UDP ctx = std_ip_static ctx @ (be16 (ctx_udp_sport ctx) @ be16 (ctx_udp_dport ctx)) @
     ([ipv4_control ctx False, ctx_ipv4_tos ctx, ctx_ipv4_ttl ctx, be16 (ctx_udp_check ctx) ! 0, be16 (ctx_udp_check ctx) ! 1, 0] @
      be16 (of_be16 (ucast (ctx_msn ctx AND 0xFF)) (ctx_reorder_ratio ctx AND 0x03)))"
proof -
  have "be16 (ctx_udp_check ctx) = [be16 (ctx_udp_check ctx) ! 0, be16 (ctx_udp_check ctx) ! 1]" by (simp add: be16_def)
  moreover have "be16 (ctx_msn ctx) = [0, ucast (ctx_msn ctx AND 0xFF)]" using assms(3) by (simp add: be16_def)
  ultimately show ?thesis
    using assms(1,2) by (simp add: ir_chains_def std_transport_static_def std_ip_dynamic_def std_transport_dynamic_def be16_of_be16)
qed

lemma mode_octets: "b = 0x04 \<or> b = 0x08 \<Longrightarrow> i < length buf \<Longrightarrow> buf ! i = b \<Longrightarrow> \<exists>m. read_legacy_mode buf i = Done m"
  by (auto simp: read_legacy_mode_def Let_def)

lemma decode_ir_udp_legacy_frame:
  assumes wf: "context_wf ctx" and em: "ir_emittable UDP ctx"
    and v4: "ctx_ip_version ctx = 4" "ctx_ipv4_protocol ctx = 17" "ctx_ipv4_id_behavior ctx AND 0x03 = 3"
    and msn: "drop_bit 8 (ctx_msn ctx) = 0" and b: "b = 0x04 \<or> b = 0x08"
    and same: "ctx_cid previous = ctx_cid ctx" "ctx_large_cid previous = ctx_large_cid ctx"
  shows "\<exists>c'. decode_ir_udp_legacy (ir_frame UDP 0x02 ctx @ b # rest) previous = Done (c', length (ir_frame UDP 0x02 ctx) + 1)"
proof -
  define buf where "buf = ir_frame UDP 0x02 ctx @ b # rest"
  define crc where "crc = crc8 (ir_head ctx 0x02 @ [0] @ ir_chains UDP ctx)"
  define a where "a = length (ir_head ctx 0x02) + 1"
  note chains = zero_id_udp_chains [OF v4(1,3) msn]
  have l10: "length (std_ip_static ctx) = 10" using v4(1) by (simp add: std_ip_static_def)
  have len: "length (ir_frame UDP 0x02 ctx) = a + 22" by (simp add: ir_frame_def chains l10 a_def)
  have buflen: "length buf = a + 23 + length rest" by (simp add: buf_def len)
  have "holds_at buf 0 (ir_frame UDP 0x02 ctx)" unfolding buf_def by (rule holds_at_here)
  moreover have "ir_frame UDP 0x02 ctx = (ir_head ctx 0x02 @ [crc]) @ ir_chains UDP ctx" by (simp add: ir_frame_def crc_def)
  ultimately have "holds_at buf 0 (ir_head ctx 0x02 @ [crc]) \<and> holds_at buf (0 + length (ir_head ctx 0x02 @ [crc])) (ir_chains UDP ctx)"
    by (metis holds_at_append)
  then have at: "holds_at buf 0 (ir_head ctx 0x02 @ [crc])" and "holds_at buf a (ir_chains UDP ctx)" by (simp_all add: a_def)
  then have at': "holds_at buf a (std_ip_static ctx)"
    "holds_at buf (a + 10) (be16 (ctx_udp_sport ctx) @ be16 (ctx_udp_dport ctx))"
    "holds_at buf (a + 14) ([ipv4_control ctx False, ctx_ipv4_tos ctx, ctx_ipv4_ttl ctx, be16 (ctx_udp_check ctx) ! 0,
       be16 (ctx_udp_check ctx) ! 1, 0] @ be16 (of_be16 (ucast (ctx_msn ctx AND 0xFF)) (ctx_reorder_ratio ctx AND 0x03)))"
    unfolding chains holds_at_append [of _ _ "std_ip_static ctx"] holds_at_append [of _ _ "be16 _ @ be16 _"]
    by (simp_all add: l10 add.commute)
  have prefix: "read_legacy_ir_prefix buf previous 26 0x02 = Done (a, crc)"
    unfolding a_def
    by (rule read_legacy_ir_prefix_at [OF at _ _ same])
      (use em buflen in \<open>auto simp: ir_emittable_def a_def ir_head_def\<close>)
  define c1 where "c1 = previous\<lparr>ctx_ip_version := 4, ctx_ipv4_protocol := 17, ctx_ipv4_saddr := ctx_ipv4_saddr ctx,
    ctx_ipv4_daddr := ctx_ipv4_daddr ctx\<rparr>"
  have static: "read_ip_static_chain buf a previous = Done (c1, a + 10)"
    using read_ip_static_chain_at_v4 [OF at'(1) v4(1), of previous] by (simp add: c1_def v4(2))
  define c2 where "c2 = c1\<lparr>ctx_udp_sport := ctx_udp_sport ctx, ctx_udp_dport := ctx_udp_dport ctx\<rparr>"
  have ports: "read_udp_ports buf (a + 10) c1 = Done (c2, a + 14)"
    using at'(2) by (auto simp: read_udp_ports_def c2_def at_simps read_at)
  obtain c3 where dyn: "read_legacy_ip_dynamic_consistent buf (a + 14) c2 = Done (c3, a + 20)"
    and c3: "ctx_ipv4_protocol c3 = 17" "ctx_cid c3 = ctx_cid previous" "ctx_large_cid c3 = ctx_large_cid previous"
    using legacy_udp_chain_at [OF at'(3), of c2] by (auto simp: c2_def c1_def)
  have "buf ! (a + 22) = b" unfolding buf_def using len by (metis nth_append_length)
  then obtain m where mode: "read_legacy_mode buf (a + 22) = Done m" using mode_octets [OF b, of "a + 22" buf] buflen by auto
  have crc: "crc8_exact_matches buf (a + 22) (crc_index_of c') crc = Done True"
    if "ctx_cid c' = ctx_cid previous" "ctx_large_cid c' = ctx_large_cid previous" for c'
    using crc_index_of_head [of c' ctx 2] frame_crc_matches [of UDP 2 ctx "b # rest"] length_ir_frame [OF wf, of UDP 2] that same
    by (simp add: buf_def len crc_def)
  have avail: "available (length buf) (a + 10) 4" "available (length buf) (a + 20) 2" "\<not> a + 22 \<ge> length buf"
    using buflen by (auto simp: available_def)
  show ?thesis
    unfolding decode_ir_udp_legacy_def buf_def [symmetric]
    using avail buflen
    by (simp add: prefix static ports dyn c3 Let_def rd16_def finish_legacy_ir_def len
        crc [unfolded add.commute [of a]] mode [unfolded add.commute [of a]])
qed

section \<open>Properties\<close>

text \<open>
  C21. The IR emitters are exact and atomic. For every well-formed context, \<open>emit_ir_rtp\<close>, \<open>emit_ir_udp\<close>,
  \<open>emit_ir_esp\<close> and \<open>emit_ir_ip\<close> never write outside the output; they return the frame made of the
  Add-CID octet, the packet type, the large CID, the profile octet, the CRC-8 over the header with a zero
  CRC octet, the static chain and the dynamic chain exactly when the CID fits its CID space, the header
  chain is one the standard format can carry and the frame fits the output, and otherwise nothing. A frame
  has at most 65 octets, so 2048 octets of scratch memory are always enough.
\<close>

theorem ir_emitters_exact:
  assumes "context_wf ctx" and "pr \<in> {RTP, UDP, ESP, IP}"
  shows "emit_ir_of pr cap ctx = (if ir_emittable pr ctx \<and> length (ir_frame pr (ir_profile_of pr) ctx) \<le> cap
       then Done (ir_frame pr (ir_profile_of pr) ctx) else Reject) \<and>
     length (ir_frame pr (ir_profile_of pr) ctx) \<le> 65"
  using emit_ir_of_eq [OF assms] length_ir_frame [OF assms(1)] by simp

theorem ir_emitters_exact_witness:
  "\<exists>out. emit_ir_of UDP 65 (context_zero\<lparr>ctx_cid := 5\<rparr>) = Done out \<and>
     emit_ir_of UDP 65 (context_zero\<lparr>ctx_cid := 16\<rparr>) = Reject"
  using ir_emitters_exact [of "context_zero\<lparr>ctx_cid := 5\<rparr>" UDP 65] ir_emitters_exact [of "context_zero\<lparr>ctx_cid := 16\<rparr>" UDP 65]
  by (simp add: context_wf_def context_zero_def rtp_context_wf_def rtp_context_zero_def ir_emittable_def is_valid_for_space_def
      is_small_def small_cid_max_def std_ip_ok_def)

text \<open>
  C19. IR packets round-trip. Whatever an IR emitter returns for a context, the standard decoder of a
  receiver whose context has the same CID accepts, with any payload behind it; it reports exactly the length
  of the header, and its context then agrees with the sender's on every transmitted field of the IP header
  and of the transport header, is in state \<open>DynamicEstablished\<close> and keeps its CID. The public decoder
  \<open>decode_ir_*\<close> returns the same whenever the legacy decoder rejects the packet. The sender must have
  the transport protocol that the profile stands for in its IP header: the emitters do not check it.
\<close>

theorem ir_roundtrip:
  assumes wf: "context_wf ctx" and pr: "pr \<in> {RTP, UDP, ESP, IP}" and emit: "emit_ir_of pr cap ctx = Done out"
    and same: "ctx_cid previous = ctx_cid ctx" "ctx_large_cid previous = ctx_large_cid ctx"
    and proto: "pr = ESP \<Longrightarrow> terminal_protocol ctx = 50" "pr \<in> {UDP, RTP} \<Longrightarrow> terminal_protocol ctx = 17"
  shows "\<exists>c'. decode_ir_standard (out @ payload) previous pr (ir_profile_of pr) = Done (c', length out) \<and>
     ip_fields_agree ctx c' \<and> transport_fields_agree pr ctx c' \<and>
     ctx_rohc_state c' = DynamicEstablished \<and> ctx_profile c' = pr \<and> ctx_cid c' = ctx_cid previous \<and>
     (legacy_ir_of pr (out @ payload) previous = Reject \<longrightarrow>
        decode_ir_of pr (out @ payload) previous = Done (c', length out))"
proof -
  have em: "ir_emittable pr ctx" and out: "out = ir_frame pr (ir_profile_of pr) ctx"
    using emit emit_ir_of_eq [OF wf pr, of cap] by (auto split: if_splits)
  have dec: "decode_ir_standard (out @ payload) previous pr (ir_profile_of pr) = Done (receive_ir pr ctx previous, length out)"
    unfolding out by (rule decode_ir_standard_frame [OF wf pr em same]) (use proto in auto)
  have "std_ip_ok ctx" using em by (simp add: ir_emittable_def)
  note agree = receive_ir_agrees [OF pr this, of previous]
  have "legacy_ir_of pr (out @ payload) previous = Reject \<longrightarrow>
      decode_ir_of pr (out @ payload) previous = Done (receive_ir pr ctx previous, length out)"
    by (simp add: decode_ir_of_eq [OF pr] decode_ir_compatible_def dec)
  with dec agree show ?thesis by blast
qed

theorem ir_roundtrip_witness:
  "\<exists>c' out. emit_ir_of RTP 65 (context_zero\<lparr>ctx_cid := 7, ctx_ipv4_protocol := 17\<rparr>) = Done out \<and>
     decode_ir_standard (out @ [1, 2, 3]) (context_zero\<lparr>ctx_cid := 7\<rparr>) RTP 1 = Done (c', length out) \<and> ctx_ipv4_protocol c' = 17"
proof -
  let ?c = "context_zero\<lparr>ctx_cid := 7, ctx_ipv4_protocol := 17\<rparr>"
  have wf: "context_wf ?c" by (simp add: context_wf_def context_zero_def rtp_context_wf_def rtp_context_zero_def)
  have em: "emit_ir_of RTP 65 ?c = Done (ir_frame RTP 1 ?c)"
    using emit_ir_of_eq [OF wf, of RTP 65] length_ir_frame [OF wf, of RTP 1]
    by (simp add: ir_profile_of_def context_zero_def rtp_context_zero_def ir_emittable_def is_valid_for_space_def
      is_small_def small_cid_max_def std_ip_ok_def rtp_plain_def)
  show ?thesis
    using ir_roundtrip [OF wf _ em, of "context_zero\<lparr>ctx_cid := 7\<rparr>" "[1, 2, 3]"] em
    by (auto simp: terminal_protocol_def context_zero_def ir_profile_of_def ip_fields_agree_def)
qed

text \<open>
  A valid IR packet that the receiver drops. When a UDP flow over IPv4 has a zero IP-ID and its
  master sequence number is below 256, a payload that starts with the octet 4 or 8 makes the legacy decoder
  accept the same header one octet longer, since the CRC covers the same octets in both formats;
  \<open>decode_ir_udp\<close> then rejects the packet as ambiguous, although the standard decoder accepts it.
\<close>

theorem ir_udp_valid_packet_dropped:
  assumes wf: "context_wf ctx" and emit: "emit_ir_udp cap ctx = Done out"
    and v4: "ctx_ip_version ctx = 4" "ctx_ipv4_protocol ctx = 17" "ctx_ipv4_id_behavior ctx AND 0x03 = 3"
    and msn: "drop_bit 8 (ctx_msn ctx) = 0" and b: "b = 0x04 \<or> b = 0x08"
    and same: "ctx_cid previous = ctx_cid ctx" "ctx_large_cid previous = ctx_large_cid ctx"
  shows "(\<exists>c'. decode_ir_standard (out @ b # rest) previous UDP 0x02 = Done (c', length out)) \<and>
     decode_ir_udp (out @ b # rest) previous = Reject"
proof -
  have em: "ir_emittable UDP ctx" and out: "out = ir_frame UDP 0x02 ctx"
    using emit emit_ir_eq(3) [OF wf, of cap] by (auto split: if_splits)
  have std: "decode_ir_standard (out @ b # rest) previous UDP 0x02 = Done (receive_ir UDP ctx previous, length out)"
    using decode_ir_standard_frame [OF wf _ em same, of 2 "b # rest"] v4 by (simp add: out terminal_protocol_def)
  obtain c' where "decode_ir_udp_legacy (out @ b # rest) previous = Done (c', length out + 1)"
    using decode_ir_udp_legacy_frame [OF wf em v4 msn b same, of rest] out by auto
  with std show ?thesis by (simp add: decode_ir_udp_def decode_ir_compatible_def)
qed

theorem ir_udp_valid_packet_dropped_witness:
  "\<exists>out. emit_ir_udp 65 (context_zero\<lparr>ctx_ipv4_protocol := 17, ctx_ipv4_id_behavior := 3\<rparr>) = Done out \<and>
     decode_ir_udp (out @ [4, 0, 0]) context_zero = Reject"
proof -
  let ?c = "context_zero\<lparr>ctx_ipv4_protocol := 17, ctx_ipv4_id_behavior := 3\<rparr>"
  have wf: "context_wf ?c" by (simp add: context_wf_def context_zero_def rtp_context_wf_def rtp_context_zero_def)
  have em: "emit_ir_udp 65 ?c = Done (ir_frame UDP 2 ?c)"
    using emit_ir_eq(3) [OF wf, of 65] length_ir_frame [OF wf, of UDP 2]
    by (simp add: context_zero_def ir_emittable_def is_valid_for_space_def is_small_def small_cid_max_def std_ip_ok_def)
  show ?thesis
    using ir_udp_valid_packet_dropped [OF wf em, of 4 context_zero "[0, 0]"] em by (simp add: context_zero_def)
qed

end
