(* ===== verification/Endpoint.thy ===== *)
theory Endpoint
  imports IrRoundtrip Lla
begin

text \<open>
  The two end points of the core library, \<open>src/core/compressor.cpp\<close> and \<open>src/core/decompressor.cpp\<close>, with
  their link-layer assisted operations. An operation takes the object's state and returns the output,
  \<open>None\<close> for the result \<open>-1\<close>, together with the new state; \<open>Fault\<close> is undefined behaviour. A context
  that the code saves and restores is written back into the table as in the code. The locks are not
  modelled: every public operation runs as one step.
\<close>

section \<open>Compressor\<close>

record compressor =
  cp_cid :: u32
  cp_packet_count :: u32
  cp_context_table :: context_table
  cp_lla_contract :: assisting_layer_contract
  cp_lla_flow :: zero_byte_flow
  cp_lla_enabled :: bool

definition no_contract :: assisting_layer_contract where
  "no_contract = \<lparr>lc_identifies_packet_types = False, lc_preserves_order = False, lc_reports_loss = False,
     lc_reports_residual_errors = False, lc_delivers_feedback = False, lc_protects_context_packets = False,
     lc_supports_context_synchronization = False, lc_supports_context_check = False, lc_supports_reliable_mode = False,
     lc_delivers_ack = False, lc_delivers_static_nack = False\<rparr>"

definition no_flow :: zero_byte_flow where
  "no_flow = \<lparr>zf_ipv4_udp_rtp = False, zf_udp_checksum_disabled = False, zf_rtp_sequence_increments_by_one = False,
     zf_compressor_observed_in_order = False, zf_synchronized_timing = False\<rparr>"

definition lla_runtime_contract_valid :: "assisting_layer_contract \<Rightarrow> zero_byte_flow \<Rightarrow> bool" where
  "lla_runtime_contract_valid contract flow \<longleftrightarrow>
     cv_valid (validate_rfc3409_lower_layer_guidelines contract) \<and> cv_valid (validate_rfc3243_zero_byte_flow contract flow)"

definition lla_context_established :: "rohc_context \<Rightarrow> bool" where
  "lla_context_established ctx \<longleftrightarrow> (ctx_profile ctx = RTP \<or> ctx_profile ctx = LLA_RTP) \<and> ctx_rohc_state ctx \<noteq> NoContext"

definition lla_context_ready :: "rohc_context \<Rightarrow> bool" where
  "lla_context_ready ctx \<longleftrightarrow> lla_context_established ctx \<and> ctx_rohc_state ctx = DynamicEstablished"

definition swap_u16 :: "u16 \<Rightarrow> u16" where
  "swap_u16 v = push_bit 8 v OR drop_bit 8 v"

definition capture_id_behavior :: "rohc_context \<Rightarrow> u16 \<Rightarrow> u16 \<Rightarrow> byte \<times> bool" where
  \<comment> \<open>the new \<open>ipv4_id_behavior\<close> and \<open>ipv4_id_sequential\<close>; \<open>ctx\<close> is the context on entry\<close>
  "capture_id_behavior ctx ipid seq =
     (if rtp_initialized (ctx_rtp ctx) \<noteq> 0 then
        let id_delta = ipid - ctx_ipv4_id ctx; seq_delta = seq - rtp_last_seq (ctx_rtp ctx);
            behavior = (if ipid = 0 \<and> ctx_ipv4_id ctx = 0 then 3
                        else if id_delta \<noteq> 0 \<and> id_delta = seq_delta then 0
                        else let swapped_delta = swap_u16 ipid - swap_u16 (ctx_ipv4_id ctx) in
                          if swapped_delta \<noteq> 0 \<and> swapped_delta = seq_delta then 1 else 2)
        in (behavior, behavior \<le> 1)
      else (if ipid = 0 then 3 else 2, False))"

definition capture_rtp_fields :: "rtp_context \<Rightarrow> byte \<Rightarrow> byte \<Rightarrow> u16 \<Rightarrow> u32 \<Rightarrow> u32 \<Rightarrow> rtp_context" where
  "capture_rtp_fields r vpxcc mpt seq ts ssrc =
     (let r1 = (if rtp_initialized r \<noteq> 0 \<and> rtp_ts_stride r = 0 then
                  case infer_timestamp_stride (rtp_last_seq r) (rtp_last_ts r) seq ts of
                    None \<Rightarrow> r | Some (stride, residue) \<Rightarrow> r\<lparr>rtp_ts_stride := stride, rtp_ts_residue := residue\<rparr>
                else r);
          r2 = r1\<lparr>rtp_vpxcc := vpxcc, rtp_mpt := mpt, rtp_last_seq := seq, rtp_last_ts := ts, rtp_ssrc := ssrc\<rparr>
      in if rtp_initialized r = 0
         then r2\<lparr>rtp_seq_window := lsb_init seq, rtp_ts_window := lsb_init ts, rtp_initialized := 1\<rparr> else r2)"

definition capture_rtp_packet :: "rohc_context \<Rightarrow> bytes \<Rightarrow> rohc_context res" where
  "capture_rtp_packet ctx ip_packet =
     (if length ip_packet < 40 then Reject
      else rd16 ip_packet 6 (\<lambda>flags_fragment. if is_fragmented flags_fragment then Reject
      else rd ip_packet 0 (\<lambda>version_ihl. rd ip_packet 9 (\<lambda>protocol.
        if drop_bit 4 version_ihl \<noteq> 4 \<or> version_ihl AND 0x0F \<noteq> 5 \<or> protocol \<noteq> 17 then Reject
        else rd ip_packet 1 (\<lambda>tos. rd ip_packet 8 (\<lambda>ttl. rd16 ip_packet 4 (\<lambda>ipid.
          rd32 ip_packet 12 (\<lambda>saddr. rd32 ip_packet 16 (\<lambda>daddr. rd16 ip_packet 20 (\<lambda>sport. rd16 ip_packet 22 (\<lambda>dport.
          rd16 ip_packet 26 (\<lambda>check. rd16 ip_packet 30 (\<lambda>seq. rd32 ip_packet 32 (\<lambda>ts. rd ip_packet 28 (\<lambda>vpxcc.
          rd ip_packet 29 (\<lambda>mpt. rd32 ip_packet 36 (\<lambda>ssrc.
          Done (ctx\<lparr>ctx_ip_version := 4, ctx_ipv4_tos := tos, ctx_ipv4_ttl := ttl, ctx_ipv4_id := ipid,
            ctx_ipv4_flags := ucast (drop_bit 13 flags_fragment AND 0x07), ctx_ipv4_saddr := saddr,
            ctx_ipv4_daddr := daddr, ctx_ipv4_protocol := protocol, ctx_udp_sport := sport, ctx_udp_dport := dport,
            ctx_udp_check := check, ctx_udp_checksum_used := (check \<noteq> 0), ctx_msn := seq,
            ctx_ipv4_id_behavior := fst (capture_id_behavior ctx ipid seq),
            ctx_ipv4_id_sequential := snd (capture_id_behavior ctx ipid seq),
            ctx_rtp := capture_rtp_fields (ctx_rtp ctx) vpxcc mpt seq ts ssrc\<rparr>))))))))))))))))))"

definition compressor_new :: "u32 \<Rightarrow> u32 \<Rightarrow> compressor res" where
  \<comment> \<open>the constructor\<close>
  "compressor_new cid max_cid =
     (let max_cid = (if max_cid = 0 then cid else max_cid) in
      seq_res (init_rtp_context (context_table_init max_cid) cid None) (\<lambda>(_, table).
      Done \<lparr>cp_cid = cid, cp_packet_count = 0, cp_context_table = table, cp_lla_contract = no_contract,
            cp_lla_flow = no_flow, cp_lla_enabled = False\<rparr>))"

definition compressor_set :: "compressor \<Rightarrow> nat \<Rightarrow> rohc_context \<Rightarrow> compressor" where
  \<comment> \<open>assignment through the context pointer\<close>
  "compressor_set s i ctx = s\<lparr>cp_context_table := context_table_set (cp_context_table s) i ctx\<rparr>"

definition emit_for_state :: "nat \<Rightarrow> rohc_context \<Rightarrow> (bytes \<times> rohc_context) res" where
  "emit_for_state cap ctx = (case ctx_rohc_state ctx of
      NoContext \<Rightarrow> seq_res (emit_ir_rtp cap ctx) (\<lambda>out. Done (out, ctx\<lparr>ctx_rohc_state := StaticEstablished\<rparr>))
    | StaticEstablished \<Rightarrow> seq_res (emit_ir_dyn_rtp cap ctx) (\<lambda>out. Done (out, ctx\<lparr>ctx_rohc_state := DynamicEstablished\<rparr>))
    | DynamicEstablished \<Rightarrow> seq_res (emit_ir_dyn_rtp cap ctx) (\<lambda>out. Done (out, ctx\<lparr>ctx_rohc_state := DynamicEstablished\<rparr>)))"

definition compress :: "compressor \<Rightarrow> bytes \<Rightarrow> nat \<Rightarrow> (bytes option \<times> compressor) res" where
  "compress s ip_packet cap =
     (if cap = 0 then Done (None, s)
      else seq_res (context_table_get (cp_context_table s) (cp_cid s)) (\<lambda>p. case p of
        None \<Rightarrow> Done (None, s)
      | Some i \<Rightarrow>
          let before = context_table_entry (cp_context_table s) i;
              failed = Done (None, compressor_set s i before) in
          case capture_rtp_packet (before\<lparr>ctx_profile := RTP, ctx_mode := Optimistic\<rparr>) ip_packet of
            Fault \<Rightarrow> Fault | Reject \<Rightarrow> failed
          | Done ctx \<Rightarrow> (case emit_for_state cap ctx of
              Fault \<Rightarrow> Fault | Reject \<Rightarrow> failed
            | Done (header, ctx) \<Rightarrow>
                let payload_len = szsub (length ip_packet) 40 in
                if length header > cap \<or> payload_len > szsub cap (length header) then failed
                else copy_in ip_packet 40 payload_len (\<lambda>payload. put_all cap header payload (\<lambda>out.
                  Done (Some out, (compressor_set s i ctx)\<lparr>cp_packet_count := cp_packet_count s + 1\<rparr>))))))"

definition compressor_enable_rfc4362_lla ::
    "compressor \<Rightarrow> assisting_layer_contract \<Rightarrow> zero_byte_flow \<Rightarrow> bool \<times> compressor" where
  "compressor_enable_rfc4362_lla s contract flow =
     (if \<not> lla_runtime_contract_valid contract flow then (False, s)
      else (True, s\<lparr>cp_lla_contract := contract, cp_lla_flow := flow, cp_lla_enabled := True\<rparr>))"

definition rfc4362_emit_nhp :: "compressor \<Rightarrow> bytes \<Rightarrow> (bytes option \<times> compressor) res" where
  "rfc4362_emit_nhp s ip_packet =
     (if \<not> cp_lla_enabled s \<or> \<not> can_emit_no_header_packet_for_flow (cp_lla_contract s) (cp_lla_flow s) then Done (None, s)
      else seq_res (context_table_get (cp_context_table s) (cp_cid s)) (\<lambda>p. case p of
        None \<Rightarrow> Done (None, s)
      | Some i \<Rightarrow>
          if \<not> lla_context_ready (context_table_entry (cp_context_table s) i) then Done (None, s)
          else seq_res (compress s ip_packet 512) (\<lambda>(out, s'). Done (map_option (\<lambda>_. []) out, s'))))"

definition rfc4362_emit_csp :: "compressor \<Rightarrow> bytes \<Rightarrow> nat \<Rightarrow> (bytes option \<times> compressor) res" where
  "rfc4362_emit_csp s ip_packet cap =
     (if \<not> cp_lla_enabled s \<or> \<not> can_emit_context_synchronization_packet (cp_lla_contract s) then Done (None, s)
      else seq_res (compress s ip_packet 512) (\<lambda>(out, s'). case out of
        None \<Rightarrow> Done (None, s')
      | Some rohc_header \<Rightarrow>
          let rtp_payload_len = (if length ip_packet > 40 then length ip_packet - 40 else 0) in
          if rtp_payload_len > 0xFFFF then Done (None, s')
          else (case write_context_synchronization_packet cap (of_nat rtp_payload_len) rohc_header of
            Fault \<Rightarrow> Fault | Reject \<Rightarrow> Done (None, s') | Done csp \<Rightarrow> Done (Some csp, s'))))"

definition rfc4362_emit_ccp :: "compressor \<Rightarrow> nat \<Rightarrow> bytes option res" where
  \<comment> \<open>the state does not change\<close>
  "rfc4362_emit_ccp s cap =
     (if \<not> cp_lla_enabled s \<or> \<not> can_emit_context_check_packet (cp_lla_contract s) then Done None
      else seq_res (context_table_get (cp_context_table s) (cp_cid s)) (\<lambda>p. case p of
        None \<Rightarrow> Done None
      | Some i \<Rightarrow>
          let ctx = context_table_entry (cp_context_table s) i in
          if \<not> lla_context_established ctx then Done None
          else seq_res (context_crc7 ctx) (\<lambda>crc.
            case write_context_check_packet cap \<lparr>ccp_has_crc = True, ccp_crc7 = crc\<rparr> of
              Fault \<Rightarrow> Fault | Reject \<Rightarrow> Done None | Done ccp \<Rightarrow> Done (Some ccp))))"

section \<open>Decompressor\<close>

record decompressor =
  dp_cid :: u32
  dp_context_table :: context_table
  dp_lla_contract :: assisting_layer_contract
  dp_lla_flow :: zero_byte_flow
  dp_lla_enabled :: bool

fun checksum_words :: "bytes \<Rightarrow> u32 \<Rightarrow> u32" where
  "checksum_words (a # b # rest) acc = checksum_words rest (acc + ucast (of_be16 a b))"
| "checksum_words [a] acc = acc + ucast (push_bit 8 (ucast a) :: u16)"
| "checksum_words [] acc = acc"

lemma unat_u32_bound: "unat (x :: u32) < 2 ^ 32"
  using unsigned_less [of x] by simp

lemma unat_drop_bit_16: "unat (drop_bit 16 (s :: u32)) = unat s div 2 ^ 16"
  by (subst unat_drop_bit_eq) (rule drop_bit_eq_div)

lemma carry_unat:
  "unat ((s AND 0xFFFF) + drop_bit 16 s :: u32) = unat s mod 2 ^ 16 + unat s div 2 ^ 16"
proof -
  have a: "unat (s AND 0xFFFF) = unat s mod 2 ^ 16" using unat_and_mask [of s 16] by (simp add: mask_numeral)
  have b: "unat (drop_bit 16 s) = unat s div 2 ^ 16" by (rule unat_drop_bit_16)
  have "unat s div 2 ^ 16 < 2 ^ 16" using unat_u32_bound [of s] by (simp add: less_mult_imp_div_less)
  then show ?thesis by (subst unat_add_nowrap) (simp_all add: a b)
qed

lemma drop_bit_16_zero: "drop_bit 16 (s :: u32) = 0 \<longleftrightarrow> unat s < 2 ^ 16"
  by (simp only: word_unat_eq_iff unat_drop_bit_16 unat_0 div_eq_0_iff) simp

function fold_carry :: "u32 \<Rightarrow> u32" where
  \<comment> \<open>\<open>while(sum >> 16) sum = (sum & 0xFFFF) + (sum >> 16);\<close>\<close>
  "fold_carry acc = (if drop_bit 16 acc \<noteq> 0 then fold_carry ((acc AND 0xFFFF) + drop_bit 16 acc) else acc)"
  by pat_completeness auto

termination
proof (relation "measure unat", simp, simp only: in_measure carry_unat)
  fix s :: u32
  assume "drop_bit 16 s \<noteq> 0"
  then have "0 < unat s div 2 ^ 16" by (simp add: drop_bit_16_zero div_greater_zero_iff)
  then have "unat s div 2 ^ 16 < unat s div 2 ^ 16 * 2 ^ 16" by simp
  then show "unat s mod 2 ^ 16 + unat s div 2 ^ 16 < unat s"
    using div_mult_mod_eq [of "unat s" "2 ^ 16"] by linarith
qed

declare fold_carry.simps [simp del]

definition ipv4_checksum :: "bytes \<Rightarrow> u16" where
  "ipv4_checksum hdr = ucast (NOT (fold_carry (checksum_words hdr 0)))"

definition ipv4_header_octets :: "rohc_context \<Rightarrow> u16 \<Rightarrow> u16 \<Rightarrow> bytes" where
  \<comment> \<open>octets 0 to 19 with the checksum \<open>csum\<close>\<close>
  "ipv4_header_octets ctx total_len csum =
     [0x45, ctx_ipv4_tos ctx] @ be16 total_len @ be16 (ctx_ipv4_id ctx) @
     [push_bit 5 (ctx_ipv4_flags ctx AND 0x07), 0, ctx_ipv4_ttl ctx, 17] @ be16 csum @
     be32 (ctx_ipv4_saddr ctx) @ be32 (ctx_ipv4_daddr ctx)"

definition udp_rtp_octets :: "rohc_context \<Rightarrow> u16 \<Rightarrow> bytes" where
  \<comment> \<open>octets 20 to 39\<close>
  "udp_rtp_octets ctx udp_len =
     be16 (ctx_udp_sport ctx) @ be16 (ctx_udp_dport ctx) @ be16 udp_len @ be16 (ctx_udp_check ctx) @
     [rtp_vpxcc (ctx_rtp ctx), rtp_mpt (ctx_rtp ctx)] @ be16 (rtp_last_seq (ctx_rtp ctx)) @
     be32 (rtp_last_ts (ctx_rtp ctx)) @ be32 (rtp_ssrc (ctx_rtp ctx))"

definition build_rtp_packet_from_context :: "nat \<Rightarrow> rohc_context \<Rightarrow> bytes \<Rightarrow> bytes res" where
  "build_rtp_packet_from_context cap ctx payload =
     (if length payload > 2 ^ 64 - 1 - 40 \<or> 40 + length payload > 0xFFFF then Reject
      else let total_len = 40 + length payload in
        if cap < total_len then Reject
        else let csum = ipv4_checksum (ipv4_header_octets ctx (of_nat total_len) 0) in
          put_all cap [] (ipv4_header_octets ctx (of_nat total_len) csum) (\<lambda>out.
          put_all cap out (udp_rtp_octets ctx (of_nat (20 + length payload))) (\<lambda>out.
          put_all cap out payload Done)))"

definition decompressor_new :: "u32 \<Rightarrow> u32 \<Rightarrow> decompressor" where
  \<comment> \<open>the constructor\<close>
  "decompressor_new cid max_cid =
     \<lparr>dp_cid = cid, dp_context_table = context_table_init (if max_cid = 0 then cid else max_cid),
      dp_lla_contract = no_contract, dp_lla_flow = no_flow, dp_lla_enabled = False\<rparr>"

definition decompressor_set :: "decompressor \<Rightarrow> nat \<Rightarrow> rohc_context \<Rightarrow> decompressor" where
  "decompressor_set s i ctx = s\<lparr>dp_context_table := context_table_set (dp_context_table s) i ctx\<rparr>"

definition decompress :: "decompressor \<Rightarrow> bytes \<Rightarrow> nat \<Rightarrow> (bytes option \<times> decompressor) res" where
  "decompress s rohc_packet cap =
     (if length rohc_packet = 0 then Done (None, s)
      else seq_res (context_table_get (dp_context_table s) (dp_cid s)) (\<lambda>p. case p of
        None \<Rightarrow> Done (None, s)
      | Some i \<Rightarrow>
          let decoded = (context_table_entry (dp_context_table s) i)\<lparr>ctx_profile := RTP, ctx_mode := Optimistic\<rparr> in
          rd rohc_packet 0 (\<lambda>b.
          case (if b AND 0xFE = 0xFC then decode_ir_rtp rohc_packet decoded else decode_ir_dyn_rtp rohc_packet decoded) of
            Fault \<Rightarrow> Fault | Reject \<Rightarrow> Done (None, s)
          | Done (decoded, header_len) \<Rightarrow>
              if header_len > length rohc_packet \<or> ctx_ip_version decoded \<noteq> 4 then Done (None, s)
              else view rohc_packet header_len (\<lambda>payload.
                case build_rtp_packet_from_context cap decoded payload of
                  Fault \<Rightarrow> Fault | Reject \<Rightarrow> Done (None, s)
                | Done ip_packet \<Rightarrow> Done (Some ip_packet, decompressor_set s i decoded)))))"

definition decompressor_enable_rfc4362_lla ::
    "decompressor \<Rightarrow> assisting_layer_contract \<Rightarrow> zero_byte_flow \<Rightarrow> bool \<times> decompressor" where
  "decompressor_enable_rfc4362_lla s contract flow =
     (if \<not> lla_runtime_contract_valid contract flow then (False, s)
      else (True, s\<lparr>dp_lla_contract := contract, dp_lla_flow := flow, dp_lla_enabled := True\<rparr>))"

definition nhp_advance :: "rohc_context \<Rightarrow> rohc_context" where
  "nhp_advance ctx =
     (let r = ctx_rtp ctx; r1 = r\<lparr>rtp_last_seq := rtp_last_seq r + 1\<rparr>;
          c1 = (if ctx_ip_version ctx = 4 \<and> ctx_ipv4_id_sequential ctx then ctx\<lparr>ctx_ipv4_id := ctx_ipv4_id ctx + 1\<rparr> else ctx);
          r2 = (if rtp_ts_stride r > 0 then r1\<lparr>rtp_last_ts := rtp_last_ts r + rtp_ts_stride r\<rparr> else r1)
      in c1\<lparr>ctx_rtp := r2\<rparr>)"

definition rfc4362_receive_nhp :: "decompressor \<Rightarrow> bytes \<Rightarrow> nat \<Rightarrow> (bytes option \<times> decompressor) res" where
  "rfc4362_receive_nhp s payload cap =
     (if \<not> dp_lla_enabled s \<or> \<not> can_emit_no_header_packet_for_flow (dp_lla_contract s) (dp_lla_flow s) then Done (None, s)
      else seq_res (context_table_get (dp_context_table s) (dp_cid s)) (\<lambda>p. case p of
        None \<Rightarrow> Done (None, s)
      | Some i \<Rightarrow>
          let ctx = context_table_entry (dp_context_table s) i in
          if \<not> lla_context_ready ctx then Done (None, s)
          else let ctx = nhp_advance ctx; s' = decompressor_set s i ctx in
            case build_rtp_packet_from_context cap ctx payload of
              Fault \<Rightarrow> Fault | Reject \<Rightarrow> Done (None, s') | Done ip_packet \<Rightarrow> Done (Some ip_packet, s')))"

definition rfc4362_receive_csp :: "decompressor \<Rightarrow> bytes \<Rightarrow> nat \<Rightarrow> (bytes option \<times> decompressor) res" where
  "rfc4362_receive_csp s csp_packet cap =
     (if \<not> dp_lla_enabled s \<or> \<not> can_emit_context_synchronization_packet (dp_lla_contract s) then Done (None, s)
      else case read_context_synchronization_packet csp_packet of
        Fault \<Rightarrow> Fault | Reject \<Rightarrow> Done (None, s)
      | Done csp \<Rightarrow> decompress s (csp_rohc_header csp) cap)"

definition rfc4362_receive_ccp :: "decompressor \<Rightarrow> bytes \<Rightarrow> bool res" where
  \<comment> \<open>\<open>Done True\<close> is the result 0; the state does not change\<close>
  "rfc4362_receive_ccp s ccp_packet =
     (if \<not> dp_lla_enabled s \<or> \<not> can_emit_context_check_packet (dp_lla_contract s) then Done False
      else case read_context_check_packet ccp_packet of
        Fault \<Rightarrow> Fault | Reject \<Rightarrow> Done False
      | Done ccp \<Rightarrow>
          if \<not> ccp_has_crc ccp then Done False
          else seq_res (context_table_get (dp_context_table s) (dp_cid s)) (\<lambda>p. case p of
            None \<Rightarrow> Done False
          | Some i \<Rightarrow>
              let ctx = context_table_entry (dp_context_table s) i in
              if \<not> lla_context_established ctx then Done False
              else seq_res (context_crc7 ctx) (\<lambda>crc. Done (ccp_crc7 ccp = crc))))"

end
