(* ===== verification/EndToEnd.thy ===== *)
theory EndToEnd
  imports Endpoint
begin

text \<open>
  Compressor and decompressor together: the checksum of the rebuilt IP header, what the end points keep
  of their contexts, and a channel that may lose, repeat and reorder packets.
\<close>

section \<open>The Internet checksum\<close>

fun words_sum :: "bytes \<Rightarrow> nat" where
  "words_sum (a # b # rest) = unat (of_be16 a b) + words_sum rest"
| "words_sum [a] = unat (push_bit 8 (ucast a) :: u16)"
| "words_sum [] = 0"

lemma words_sum_bound: "words_sum bs \<le> length bs * 65535"
proof (induction bs rule: words_sum.induct)
  case (1 a b rest)
  then show ?case using unat_u16_bound [of "of_be16 a b"] by simp
next
  case (2 a)
  then show ?case using unat_u16_bound [of "push_bit 8 (ucast a)"] by simp
qed simp

lemma checksum_words_unat:
  "unat acc + length bs * 65535 < 2 ^ 32 \<Longrightarrow> unat (checksum_words bs acc) = unat acc + words_sum bs"
proof (induction bs acc rule: checksum_words.induct)
  case (1 a b rest acc)
  have s: "unat (acc + ucast (of_be16 a b)) = unat acc + unat (of_be16 a b)"
    using 1(2) unat_u16_bound [of "of_be16 a b"] by (subst unat_add_nowrap) simp_all
  show ?case using 1(1) 1(2) unat_u16_bound [of "of_be16 a b"] by (simp add: s)
next
  case (2 a acc)
  then show ?case using unat_u16_bound [of "push_bit 8 (ucast a)"] by (simp add: unat_add_nowrap)
qed simp

lemma fold_carry_spec:
  "unat (fold_carry s) < 2 ^ 16 \<and> unat (fold_carry s) mod 65535 = unat s mod 65535 \<and> (fold_carry s = 0 \<longleftrightarrow> s = 0)"
proof (induction s rule: fold_carry.induct)
  case (1 s)
  show ?case
  proof (cases "drop_bit 16 s = 0")
    case True
    then show ?thesis by (simp add: fold_carry.simps [of s] drop_bit_16_zero)
  next
    case False
    let ?t = "(s AND 0xFFFF) + drop_bit 16 s"
    have u: "unat ?t = unat s mod 2 ^ 16 + unat s div 2 ^ 16" by (rule carry_unat)
    have "unat s = unat s mod 2 ^ 16 + unat s div 2 ^ 16 * 65536" using div_mult_mod_eq [of "unat s" "2 ^ 16"] by simp
    then have "unat s = unat ?t + unat s div 2 ^ 16 * 65535" using u by simp
    then have m: "unat ?t mod 65535 = unat s mod 65535" by (metis mod_mult_self1 mult.commute)
    have "0 < unat s div 2 ^ 16" using False by (simp add: drop_bit_16_zero div_greater_zero_iff)
    then have "?t \<noteq> 0" "s \<noteq> 0" using u by (auto simp: word_unat_eq_iff)
    with 1 [OF False] m False show ?thesis by (simp add: fold_carry.simps [of s])
  qed
qed

lemma unat_not_u16: "unat (NOT (v :: u16)) = 65535 - unat v"
proof -
  have m: "unat (0xFFFF :: u16) = 65535" by simp
  have "NOT v = 0xFFFF - v" by (simp add: not_eq_complement)
  moreover have "unat (0xFFFF - v) = unat (0xFFFF :: u16) - unat v"
    by (rule unat_sub_le) (use m unat_u16_bound [of v] in linarith)
  ultimately show ?thesis using m by simp
qed

lemma unat_checksum:
  assumes "length bs \<le> 60000"
  shows "unat (ipv4_checksum bs) = 65535 - unat (fold_carry (checksum_words bs 0))"
proof -
  let ?f = "fold_carry (checksum_words bs 0)"
  have "unat ?f < 2 ^ 16" using fold_carry_spec by blast
  have "(ucast (NOT ?f) :: u16) = NOT (ucast ?f)" by (rule bit_word_eqI) (simp add: bit_simps)
  moreover have "unat (ucast ?f :: u16) = unat ?f" using \<open>unat ?f < 2 ^ 16\<close> by (simp add: unsigned_ucast_eq take_bit_nat_eq_self)
  ultimately show ?thesis by (simp add: ipv4_checksum_def unat_not_u16)
qed

lemma words_sum_append: "even (length xs) \<Longrightarrow> words_sum (xs @ ys) = words_sum xs + words_sum ys"
  by (induction xs rule: words_sum.induct) auto

lemma words_sum_be16 [simp]: "words_sum (be16 v) = unat v"
  using of_be16_be16 [of v] by (simp add: be16_def)

text \<open>Filling the checksum field of a header with the checksum of the header makes the header verify.\<close>

lemma checksum_verifies:
  assumes "even (length xs)" and "length xs + 2 + length ys \<le> 60000" and "0 < words_sum xs"
    and "c = ipv4_checksum (xs @ be16 0 @ ys)"
  shows "ipv4_checksum (xs @ be16 c @ ys) = 0"
proof -
  let ?z = "xs @ be16 0 @ ys" and ?h = "xs @ be16 c @ ys"
  let ?S = "words_sum ?z" and ?T = "words_sum ?h"
  have T: "?T = ?S + unat c" using assms(1) by (simp add: words_sum_append)
  have S0: "0 < ?S" using assms(1,3) by (simp add: words_sum_append)
  have len: "length ?z * 65535 < 2 ^ 32" "length ?h * 65535 < 2 ^ 32" using assms(2) by simp_all
  have uz: "unat (checksum_words ?z 0) = ?S" using checksum_words_unat [of 0 ?z] len by simp
  have uh: "unat (checksum_words ?h 0) = ?T" using checksum_words_unat [of 0 ?h] len by simp
  let ?f = "unat (fold_carry (checksum_words ?z 0))" and ?g = "unat (fold_carry (checksum_words ?h 0))"
  have f: "?f < 65536" "?f mod 65535 = ?S mod 65535" using fold_carry_spec [of "checksum_words ?z 0"] uz by simp_all
  have g: "?g < 65536" "?g mod 65535 = ?T mod 65535" "?g \<noteq> 0"
    using fold_carry_spec [of "checksum_words ?h 0"] uh T S0 by (auto simp: unat_eq_0)
  have "unat c = 65535 - ?f" using unat_checksum [of ?z] assms(2,4) by simp
  then have "?f + unat c = 65535" using f(1) by linarith
  then have "?T mod 65535 = 0" using T f(2) by (metis mod_add_left_eq mod_self)
  then have "65535 dvd ?g" using g(2) by (simp add: mod_eq_0_iff_dvd)
  then obtain k where "?g = 65535 * k" by (rule dvdE)
  with g have "?g = 65535" by (cases k) auto
  then have "unat (ipv4_checksum ?h) = 0" using unat_checksum [of ?h] assms(2) by simp
  then show ?thesis by (simp add: unat_eq_0)
qed

section \<open>What the decoders leave alone\<close>

definition same_cid :: "rohc_context \<Rightarrow> rohc_context \<times> nat \<Rightarrow> bool" where
  "same_cid c r \<longleftrightarrow> ctx_cid (fst r) = ctx_cid c \<and> ctx_large_cid (fst r) = ctx_large_cid c"

lemma same_cid_iff [simp]: "same_cid c (c', n) \<longleftrightarrow> ctx_cid c' = ctx_cid c \<and> ctx_large_cid c' = ctx_large_cid c"
  by (simp add: same_cid_def)

lemma same_cid_trans: "returns (same_cid c') r \<Longrightarrow> same_cid c (c', n) \<Longrightarrow> returns (same_cid c) r"
  by (cases r) (auto simp: same_cid_def)

lemma returns_same_seq:
  "returns (same_cid c) r \<Longrightarrow> (\<And>c' n. same_cid c (c', n) \<Longrightarrow> returns (same_cid c) (k (c', n))) \<Longrightarrow>
   returns (same_cid c) (seq_res r k)"
  by (cases r) (auto simp: same_cid_def)

lemma returns_rd16_32 [returns_intros]:
  "(\<And>v. returns P (k16 v)) \<Longrightarrow> returns P (rd16 buf i k16)" "(\<And>v. returns P (k32 v)) \<Longrightarrow> returns P (rd32 buf i k32)"
  by (auto simp: rd16_def rd32_def intro!: returns_intros)

lemma returns_any_seq: "(\<And>x. returns P (k x)) \<Longrightarrow> returns P (seq_res r k)"
  by (cases r) auto

lemma keeps_options:
  "returns (same_cid c) (read_ipv4_options inp pos c)" "returns (same_cid c) (read_ipv6_extensions inp pos c)"
  unfolding read_ipv4_options_def read_ipv6_extensions_def Let_def by (auto intro!: returns_intros)

lemma keeps_extras: "returns (same_cid c) (read_rtp_extras_list inp pos c)"
  unfolding read_rtp_extras_list_def read_rtp_extras_body_def Let_def
  by (auto intro!: returns_intros returns_any_seq)

lemma keeps_ip_chains:
  "returns (same_cid c) (read_ip_static_chain inp pos c)" "returns (same_cid c) (read_legacy_ip_dynamic_consistent inp pos c)"
  unfolding read_ip_static_chain_def read_legacy_ip_dynamic_consistent_def read_ip_dynamic_chain_def Let_def
  by (auto intro!: returns_intros returns_same_seq same_cid_trans [OF keeps_options(1)] same_cid_trans [OF keeps_options(2)])

lemma establish_rtp_cid [simp]: "ctx_cid (establish_rtp c) = ctx_cid c" "ctx_large_cid (establish_rtp c) = ctx_large_cid c"
  by (simp_all add: establish_rtp_def Let_def)

lemma ir_dyn_rtp_update_cid [simp]:
  "ctx_cid (ir_dyn_rtp_update p c s t) = ctx_cid c" "ctx_large_cid (ir_dyn_rtp_update p c s t) = ctx_large_cid c"
  by (simp_all add: ir_dyn_rtp_update_def Let_def)

lemma keeps_legacy_parts:
  "returns (same_cid c) (finish_legacy_ir inp pos c crc)" "returns (same_cid c) (read_udp_ports inp pos c)"
  "returns (same_cid c) (read_rtp_fixed inp pos c)"
  unfolding finish_legacy_ir_def read_udp_ports_def read_rtp_fixed_def
  by (auto intro!: returns_intros returns_any_seq)

lemmas keeps_at = keeps_ip_chains [THEN same_cid_trans] keeps_extras [THEN same_cid_trans] keeps_legacy_parts [THEN same_cid_trans]

lemma keeps_rtp_legacy: "returns (same_cid c) (decode_ir_rtp_legacy inp c)"
  unfolding decode_ir_rtp_legacy_def Let_def
  apply (rule returns_any_seq, clarsimp)
  apply (rule returns_same_seq, rule keeps_at, simp, clarsimp)
  apply (rule returns_intros, rule returns_same_seq, rule keeps_at, simp, clarsimp)
  apply (rule returns_intros, rule returns_same_seq, rule keeps_at, simp, clarsimp)
  apply (rule returns_intros, rule returns_intros, rule returns_intros, rule returns_same_seq, rule keeps_at, simp, clarsimp)
  apply (rule returns_same_seq, rule keeps_at, simp, clarsimp)
  apply (rule returns_intros, rule returns_same_seq, rule keeps_at, simp, clarsimp)
  done

lemma keeps_standard_parts:
  "returns (same_cid c) (read_standard_ip_static inp pos c)" "returns (same_cid c) (read_standard_ip_dynamic inp pos c e)"
  "returns (same_cid c) (standard_transport_static inp pos c pr)" "returns (same_cid c) (standard_rtp_dynamic inp pos pc c)"
  "returns (same_cid c) (standard_udp_dynamic inp pos c)" "returns (same_cid c) (standard_esp_dynamic inp pos c)"
  unfolding read_standard_ip_static_def read_standard_ip_dynamic_def read_standard_ipv6_dynamic_def
    read_standard_ipv4_dynamic_def read_standard_ipv4_id_def standard_transport_static_def read_udp_ports_def
    standard_rtp_dynamic_def standard_udp_dynamic_def standard_esp_dynamic_def Let_def
  by (auto simp: rtp_update_selectors intro!: returns_intros returns_same_seq)

lemmas keeps_std_at = keeps_standard_parts [THEN same_cid_trans]

lemma keeps_standard_choice:
  "returns (same_cid c) (if pr = UDP then standard_udp_dynamic inp pos c else if pr = ESP then standard_esp_dynamic inp pos c
     else if pr = RTP then standard_rtp_dynamic inp pos pc c else Done (c, pos))"
  by (simp add: keeps_standard_parts)

lemma keeps_standard: "returns (same_cid c) (decode_ir_standard inp c pr pid)"
  unfolding decode_ir_standard_def
  apply (rule returns_any_seq, simp only: split_beta)
  apply (rule returns_same_seq, rule keeps_std_at, simp, simp only: prod.case)
  apply (rule returns_rules(6), rule returns_rules(1), rule returns_same_seq, rule keeps_std_at, simp, simp only: prod.case)
  apply (rule returns_same_seq, rule keeps_std_at, simp, simp only: prod.case)
  apply (rule returns_same_seq, rule keeps_standard_choice [THEN same_cid_trans], simp, simp only: prod.case)
  apply (rule returns_any_seq, rule returns_rules(1), simp)
  done

lemma decode_ir_rtp_keeps: "returns (same_cid c) (decode_ir_rtp inp c)"
  using keeps_standard [of c inp RTP 1] keeps_rtp_legacy [of c inp]
  by (auto simp: decode_ir_rtp_def decode_ir_compatible_def split: res.splits)

lemma decode_ir_dyn_rtp_keeps: "returns (same_cid c) (decode_ir_dyn_rtp inp c)"
  unfolding decode_ir_dyn_rtp_def decode_ir_dyn_rtp_transport_def ir_dyn_rtp_tail_def
  apply (rule returns_rules(1), rule returns_any_seq, simp only: split_beta Let_def)
  apply (rule returns_any_seq, rule returns_any_seq, rule returns_any_seq, rule returns_rules(1))
  apply (rule returns_same_seq, rule keeps_ip_chains, simp only: prod.case)
  apply (intro returns_rd16_32 returns_rules, rule returns_same_seq, rule keeps_extras [THEN same_cid_trans])
   apply (auto intro!: returns_intros)
  done

section \<open>Invariants of the end points\<close>

definition compressor_ok :: "compressor \<Rightarrow> bool" where
  "compressor_ok s \<longleftrightarrow> table_ok (cp_context_table s) \<and>
     (\<forall>i. context_table_get (cp_context_table s) (cp_cid s) = Done (Some i) \<longrightarrow>
        ctx_cid (context_table_entry (cp_context_table s) i) = cp_cid s \<and>
        \<not> ctx_large_cid (context_table_entry (cp_context_table s) i))"

definition decompressor_ok :: "decompressor \<Rightarrow> bool" where
  "decompressor_ok s \<longleftrightarrow> table_ok (dp_context_table s) \<and>
     (\<forall>i. context_table_get (dp_context_table s) (dp_cid s) = Done (Some i) \<longrightarrow>
        ctx_cid (context_table_entry (dp_context_table s) i) = 0 \<and>
        \<not> ctx_large_cid (context_table_entry (dp_context_table s) i))"

lemma get_cases:
  assumes "table_ok t"
  obtains "context_table_get t cid = Done None" | i where "context_table_get t cid = Done (Some i)"
  using contexts.get_total [OF assms, of cid] by (cases "context_table_get t cid") auto

lemma table_set_same:
  assumes "table_ok t" and "context_table_get t cid = Done (Some i)"
  shows "context_table_set t i (context_table_entry t i) = t"
  using assms by (cases t) (auto simp: table_ok_def context_table_get_def context_table_set_def context_table_entry_def)

lemma compressor_set_same:
  "compressor_ok s \<Longrightarrow> context_table_get (cp_context_table s) (cp_cid s) = Done (Some i) \<Longrightarrow>
   compressor_set s i (context_table_entry (cp_context_table s) i) = s"
  by (simp add: compressor_set_def compressor_ok_def table_set_same)

section \<open>What the compressor sends\<close>

definition capturable :: "bytes \<Rightarrow> bool" where
  "capturable ip \<longleftrightarrow> 40 \<le> length ip \<and> \<not> is_fragmented (load_be16 ip 6) \<and> drop_bit 4 (ip ! 0) = 4 \<and>
     ip ! 0 AND 0x0F = 5 \<and> ip ! 9 = 17"

definition captured :: "rohc_context \<Rightarrow> bytes \<Rightarrow> rohc_context" where
  "captured c ip = c\<lparr>ctx_ip_version := 4, ctx_ipv4_tos := ip ! 1, ctx_ipv4_ttl := ip ! 8, ctx_ipv4_id := load_be16 ip 4,
     ctx_ipv4_flags := ucast (drop_bit 13 (load_be16 ip 6) AND 0x07), ctx_ipv4_saddr := load_be32 ip 12,
     ctx_ipv4_daddr := load_be32 ip 16, ctx_ipv4_protocol := 17, ctx_udp_sport := load_be16 ip 20,
     ctx_udp_dport := load_be16 ip 22, ctx_udp_check := load_be16 ip 26,
     ctx_udp_checksum_used := (load_be16 ip 26 \<noteq> 0), ctx_msn := load_be16 ip 30,
     ctx_ipv4_id_behavior := fst (capture_id_behavior c (load_be16 ip 4) (load_be16 ip 30)),
     ctx_ipv4_id_sequential := snd (capture_id_behavior c (load_be16 ip 4) (load_be16 ip 30)),
     ctx_rtp := capture_rtp_fields (ctx_rtp c) (ip ! 28) (ip ! 29) (load_be16 ip 30) (load_be32 ip 32) (load_be32 ip 36)\<rparr>"

lemma rd16_load: "i + 1 < length ip \<Longrightarrow> rd16 ip i k = k (load_be16 ip i)"
  by (simp add: rd16_def load_be16_def)

lemma rd32_load: "i + 3 < length ip \<Longrightarrow> rd32 ip i k = k (load_be32 ip i)"
  by (simp add: rd32_def load_be32_def)

lemma capture_rtp_packet_eq: "capture_rtp_packet c ip = (if capturable ip then Done (captured c ip) else Reject)"
proof (cases "40 \<le> length ip")
  case True
  then have "ip \<noteq> []" by auto
  with True show ?thesis
    unfolding capture_rtp_packet_def capturable_def captured_def by (simp add: rd16_load rd32_load)
qed (simp add: capture_rtp_packet_def capturable_def)

lemma capture_rtp_fields_wf: "rtp_context_wf r \<Longrightarrow> rtp_context_wf (capture_rtp_fields r a b d e f)"
  by (auto simp: capture_rtp_fields_def Let_def split: option.splits)

lemma captured_wf: "context_wf c \<Longrightarrow> context_wf (captured c ip)"
  by (auto simp: captured_def intro!: wf_rules capture_rtp_fields_wf)

lemma captured_selectors [simp]:
  "ctx_cid (captured c ip) = ctx_cid c" "ctx_large_cid (captured c ip) = ctx_large_cid c" "ctx_ip_version (captured c ip) = 4"
  "ctx_ipv4_protocol (captured c ip) = 17" "ctx_rohc_state (captured c ip) = ctx_rohc_state c"
  by (simp_all add: captured_def)

definition next_state :: "rohc_state \<Rightarrow> rohc_state" where
  "next_state st = (if st = NoContext then StaticEstablished else DynamicEstablished)"

lemma emit_for_state_eq:
  assumes "context_wf c"
  shows "emit_for_state cap c = (if ir_emittable RTP c \<and> length (ir_frame RTP 1 c) \<le> cap
     then Done (ir_frame RTP 1 c, c\<lparr>ctx_rohc_state := next_state (ctx_rohc_state c)\<rparr>) else Reject)"
  by (cases "ctx_rohc_state c")
    (simp_all add: emit_for_state_def emit_ir_dyn_rtp_def emit_ir_eq(4) [OF assms] next_state_def)

definition sent_context :: "compressor \<Rightarrow> nat \<Rightarrow> bytes \<Rightarrow> rohc_context" where
  \<comment> \<open>the context from which a packet is emitted\<close>
  "sent_context s i ip =
     captured ((context_table_entry (cp_context_table s) i)\<lparr>ctx_profile := RTP, ctx_mode := Optimistic\<rparr>) ip"

definition after_send :: "compressor \<Rightarrow> nat \<Rightarrow> bytes \<Rightarrow> compressor" where
  "after_send s i ip = (compressor_set s i ((sent_context s i ip)\<lparr>ctx_rohc_state :=
     next_state (ctx_rohc_state (sent_context s i ip))\<rparr>))\<lparr>cp_packet_count := cp_packet_count s + 1\<rparr>"

lemma sent_context_facts:
  assumes "compressor_ok s" and "context_table_get (cp_context_table s) (cp_cid s) = Done (Some i)"
  shows "context_wf (sent_context s i ip)" "ctx_cid (sent_context s i ip) = cp_cid s" "\<not> ctx_large_cid (sent_context s i ip)"
proof -
  have "context_wf (context_table_entry (cp_context_table s) i)"
    using assms contexts.get_good by (auto simp: compressor_ok_def)
  then show "context_wf (sent_context s i ip)" by (simp add: sent_context_def captured_wf)
  show "ctx_cid (sent_context s i ip) = cp_cid s" "\<not> ctx_large_cid (sent_context s i ip)"
    using assms by (auto simp: compressor_ok_def sent_context_def)
qed

lemma compress_eq:
  assumes ok: "compressor_ok s" and g: "context_table_get (cp_context_table s) (cp_cid s) = Done (Some i)"
  shows "compress s ip cap =
     (let c = sent_context s i ip in
      if capturable ip \<and> ir_emittable RTP c \<and> length (ir_frame RTP 1 c) + (length ip - 40) \<le> cap
      then Done (Some (ir_frame RTP 1 c @ drop 40 ip), after_send s i ip) else Done (None, s))"
proof -
  let ?c = "sent_context s i ip"
  have pos: "3 \<le> length (ir_frame RTP 1 c)" for c by (simp add: ir_frame_def ir_head_def)
  note wf = sent_context_facts(1) [OF ok g, of ip]
  note emit = emit_for_state_eq [OF wf]
  show ?thesis
  proof (cases "capturable ip")
    case True
    then have l: "40 \<le> length ip" by (simp add: capturable_def)
    show ?thesis
      using True l pos [of ?c]
      by (auto simp: compress_def g capture_rtp_packet_eq sent_context_def [symmetric] emit compressor_set_same [OF ok g]
          after_send_def Let_def szsub_def)
  qed (simp add: compress_def g capture_rtp_packet_eq compressor_set_same [OF ok g] Let_def)
qed

lemma after_send_ok:
  assumes "compressor_ok s" and g: "context_table_get (cp_context_table s) (cp_cid s) = Done (Some i)"
  shows "compressor_ok (after_send s i ip)"
proof -
  let ?c = "(sent_context s i ip)\<lparr>ctx_rohc_state := next_state (ctx_rohc_state (sent_context s i ip))\<rparr>"
  have t: "table_ok (cp_context_table s)" using assms(1) by (simp add: compressor_ok_def)
  note facts = sent_context_facts [OF assms, of ip]
  have "context_wf ?c" using facts by simp
  note frame = contexts.upd_frame [OF t g this]
  have "context_table_get (context_table_set (cp_context_table s) i ?c) (cp_cid s) = Done (Some i)"
    using g by (simp add: contexts.get_upd)
  then show ?thesis using frame facts
    by (auto simp: compressor_ok_def after_send_def compressor_set_def contexts.get_upd)
qed

section \<open>What the decompressor rebuilds\<close>

definition plain_rtp_packet :: "bytes \<Rightarrow> bool" where
  \<comment> \<open>an unfragmented IPv4/UDP/RTP packet without IP options, CSRC list, header extension or padding, and
    with consistent lengths and header checksum\<close>
  "plain_rtp_packet ip \<longleftrightarrow> 40 \<le> length ip \<and> length ip \<le> 0xFFFF \<and> ip ! 0 = 0x45 \<and>
     load_be16 ip 2 = of_nat (length ip) \<and> (ip ! 6 = 0 \<or> ip ! 6 = 0x40) \<and> ip ! 7 = 0 \<and> ip ! 9 = 17 \<and>
     load_be16 ip 10 = ipv4_checksum (take 10 ip @ [0, 0] @ take 8 (drop 12 ip)) \<and>
     load_be16 ip 24 = of_nat (length ip - 20) \<and> ip ! 28 = 0x80"

lemma be16_load: "i + 1 < length ip \<Longrightarrow> be16 (load_be16 ip i) = [ip ! i, ip ! (i + 1)]"
  by (simp add: load_be16_def be16_of_be16)

lemma be32_load: "i + 3 < length ip \<Longrightarrow> be32 (load_be32 ip i) = [ip ! i, ip ! (i + 1), ip ! (i + 2), ip ! (i + 3)]"
  by (simp add: load_be32_def be32_of_be32)

lemma take_nths:
  assumes "n \<le> length ip"
  shows "take n ip = map (\<lambda>i. ip ! i) [0..<n]"
  using assms by (simp add: list_eq_iff_nth_eq)

lemma split_40:
  assumes "40 \<le> length ip"
  shows "ip = map (\<lambda>i. ip ! i) [0..<40] @ drop 40 ip"
  using take_nths [OF assms] append_take_drop_id [of 40 ip] by simp

definition describes :: "rohc_context \<Rightarrow> bytes \<Rightarrow> bool" where
  \<comment> \<open>the context holds the header fields of the packet\<close>
  "describes c ip \<longleftrightarrow> ctx_ipv4_tos c = ip ! 1 \<and> ctx_ipv4_id c = load_be16 ip 4 \<and>
     push_bit 5 (ctx_ipv4_flags c AND 0x07) = ip ! 6 \<and> ctx_ipv4_ttl c = ip ! 8 \<and> ctx_ipv4_saddr c = load_be32 ip 12 \<and>
     ctx_ipv4_daddr c = load_be32 ip 16 \<and> ctx_udp_sport c = load_be16 ip 20 \<and> ctx_udp_dport c = load_be16 ip 22 \<and>
     ctx_udp_check c = load_be16 ip 26 \<and> rtp_vpxcc (ctx_rtp c) = ip ! 28 \<and> rtp_mpt (ctx_rtp c) = ip ! 29 \<and>
     rtp_last_seq (ctx_rtp c) = load_be16 ip 30 \<and> rtp_last_ts (ctx_rtp c) = load_be32 ip 32 \<and>
     rtp_ssrc (ctx_rtp c) = load_be32 ip 36"

lemma header_octets_describe:
  assumes p: "plain_rtp_packet ip" and d: "describes c ip"
  shows "ipv4_header_octets c (of_nat (length ip)) csum = take 10 ip @ be16 csum @ take 8 (drop 12 ip)"
    and "udp_rtp_octets c (of_nat (length ip - 20)) = take 20 (drop 20 ip)"
proof -
  have l: "40 \<le> length ip" using p by (simp add: plain_rtp_packet_def)
  have t: "take n (drop k ip) = map (\<lambda>i. ip ! i) [k..<k + n]" if "k + n \<le> 40" for k n
    using l that by (simp add: list_eq_iff_nth_eq)
  have l16: "be16 (load_be16 ip i) = [ip ! i, ip ! (i + 1)]" if "i < 39" for i using that l by (simp add: be16_load)
  have l32: "be32 (load_be32 ip j) = [ip ! j, ip ! (j + 1), ip ! (j + 2), ip ! (j + 3)]" if "j < 37" for j
    using that l by (simp add: be32_load)
  note loads = l16 l32
  have u: "[0..<10] = [0, 1, 2, 3, 4, 5, 6, 7, 8, 9 :: nat]" by code_simp
  have f: "of_nat (length ip) = load_be16 ip 2" "of_nat (length ip - 20) = load_be16 ip 24" "ip ! 0 = 0x45" "ip ! 7 = 0" "ip ! 9 = 17"
    using p by (simp_all add: plain_rtp_packet_def)
  show "ipv4_header_octets c (of_nat (length ip)) csum = take 10 ip @ be16 csum @ take 8 (drop 12 ip)"
    using d t [of 0 10, unfolded add_0 u] t [of 12 8] unfolding describes_def
    by (simp add: ipv4_header_octets_def f loads upt_rec)
  show "udp_rtp_octets c (of_nat (length ip - 20)) = take 20 (drop 20 ip)"
    using d t [of 20 20] unfolding describes_def by (simp add: udp_rtp_octets_def f loads upt_rec)
qed

lemma build_rtp_packet_describes:
  assumes p: "plain_rtp_packet ip" and d: "describes c ip" and cap: "length ip \<le> cap"
  shows "build_rtp_packet_from_context cap c (drop 40 ip) = Done ip"
proof -
  note h = header_octets_describe [OF p d]
  have l: "40 \<le> length ip" "length ip \<le> 0xFFFF" using p by (simp_all add: plain_rtp_packet_def)
  have csum: "ipv4_checksum (ipv4_header_octets c (of_nat (length ip)) 0) = load_be16 ip 10"
    using p unfolding h(1) by (simp add: plain_rtp_packet_def be16_def)
  have "be16 (load_be16 ip 10) = take 2 (drop 10 ip)"
    using l by (simp add: be16_load list_eq_iff_nth_eq nth_Cons' less_Suc_eq)
  then have hdr: "ipv4_header_octets c (of_nat (length ip)) (load_be16 ip 10) = take 20 ip"
    unfolding h(1) using take_add [of 10 2 ip] take_add [of 12 8 ip] by simp
  have all: "take 20 ip @ take 20 (drop 20 ip) @ drop 40 ip = ip"
    using append_take_drop_id [of 20 ip] append_take_drop_id [of 20 "drop 20 ip"] by simp
  have lens: "40 + length (drop 40 ip) = length ip" "20 + length (drop 40 ip) = length ip - 20" using l by simp_all
  have "\<not> length (drop 40 ip) > 2 ^ 64 - 1 - 40" using l by simp
  then show ?thesis
    using l cap unfolding build_rtp_packet_from_context_def Let_def lens csum hdr h(2) by (simp add: put_all_def all)
qed

lemma behavior_choice:
  fixes x y :: bool
  shows "fst (if p then (if q then 3 else if r then 0 else if t then 1 else 2, x) else (if u then 3 else 2, y)) \<in> {0, 1, 2, 3 :: byte}"
    and "(q \<Longrightarrow> X) \<Longrightarrow> (u \<Longrightarrow> X) \<Longrightarrow>
      fst (if p then (if q then 3 else if r then 0 else if t then 1 else (2 :: byte), x) else (if u then 3 else 2, y)) = 3 \<longrightarrow> X"
  by auto

lemma capture_id_behavior_cases:
  "fst (capture_id_behavior c ipid seq) \<in> {0, 1, 2, 3}" "fst (capture_id_behavior c ipid seq) = 3 \<longrightarrow> ipid = 0"
  unfolding capture_id_behavior_def Let_def by (rule behavior_choice(1), rule behavior_choice(2), blast, blast)

lemma capture_rtp_fields_selectors [simp]:
  "rtp_vpxcc (capture_rtp_fields r a b d e f) = a" "rtp_mpt (capture_rtp_fields r a b d e f) = b"
  "rtp_last_seq (capture_rtp_fields r a b d e f) = d" "rtp_last_ts (capture_rtp_fields r a b d e f) = e"
  "rtp_ssrc (capture_rtp_fields r a b d e f) = f"
  by (simp_all add: capture_rtp_fields_def Let_def)

lemma flags_octet:
  assumes "b = 0 \<or> b = 0x40"
  shows "push_bit 5 ((ucast (drop_bit 13 (of_be16 b 0) AND 0x07) AND 0x02) AND 0x07) = (b :: byte)"
  using assms by (auto simp: of_be16_def)

lemma receive_describes:
  assumes p: "plain_rtp_packet ip" and c: "c = captured c0 ip" and ok: "std_ip_ok c"
  shows "describes (receive_ir RTP c previous) ip"
proof -
  have agree: "ip_fields_agree c (receive_ir RTP c previous)" "transport_fields_agree RTP c (receive_ir RTP c previous)"
    using receive_ir_agrees [of RTP c previous] ok by auto
  let ?b = "fst (capture_id_behavior c0 (load_be16 ip 4) (load_be16 ip 30))"
  have b: "?b AND 0x03 = ?b" "?b = 3 \<longrightarrow> load_be16 ip 4 = 0"
    using capture_id_behavior_cases [of c0 "load_be16 ip 4" "load_be16 ip 30"] by auto
  have fl: "push_bit 5 ((ctx_ipv4_flags c AND 0x02) AND 0x07) = ip ! 6"
    using p flags_octet [of "ip ! 6"] by (simp add: c captured_def load_be16_def plain_rtp_packet_def)
  define r where "r = receive_ir RTP c previous"
  note agree' = agree [folded r_def, unfolded ip_fields_agree_def transport_fields_agree_def]
  have sel: "ctx_ipv4_tos c = ip ! 1" "ctx_ipv4_ttl c = ip ! 8" "ctx_ipv4_saddr c = load_be32 ip 12"
    "ctx_ipv4_daddr c = load_be32 ip 16" "ctx_udp_sport c = load_be16 ip 20" "ctx_udp_dport c = load_be16 ip 22"
    "ctx_udp_check c = load_be16 ip 26" "rtp_mpt (ctx_rtp c) = ip ! 29" "rtp_last_seq (ctx_rtp c) = load_be16 ip 30"
    "rtp_last_ts (ctx_rtp c) = load_be32 ip 32" "rtp_ssrc (ctx_rtp c) = load_be32 ip 36" "ctx_ipv4_id c = load_be16 ip 4"
    "ctx_ipv4_id_behavior c = ?b" "ctx_ip_version c = 4"
    by (simp_all add: c captured_def)
  have i: "ctx_ipv4_id r = load_be16 ip 4" using agree'(1) b sel by auto
  have f: "push_bit 5 (ctx_ipv4_flags r AND 0x07) = ip ! 6" using agree'(1) fl sel(14) by metis
  have v: "rtp_vpxcc (ctx_rtp r) = ip ! 28" using agree'(2) p by (simp add: plain_rtp_packet_def)
  show ?thesis
    using agree' i f v sel unfolding describes_def r_def [symmetric] by simp
qed

lemma length_header_octets [simp]: "length (ipv4_header_octets c t v) = 20" "length (udp_rtp_octets c u) = 20"
  by (simp_all add: ipv4_header_octets_def udp_rtp_octets_def)

lemma build_not_Fault: "build_rtp_packet_from_context cap c payload \<noteq> Fault"
  by (simp add: build_rtp_packet_from_context_def Let_def put_all_def)

abbreviation entry_of :: "decompressor \<Rightarrow> nat \<Rightarrow> rohc_context" where
  "entry_of d i \<equiv> (context_table_entry (dp_context_table d) i)\<lparr>ctx_profile := RTP, ctx_mode := Optimistic\<rparr>"

lemma entry_of_facts:
  assumes "decompressor_ok d" and "context_table_get (dp_context_table d) (dp_cid d) = Done (Some i)"
  shows "context_wf (entry_of d i)" "ctx_cid (entry_of d i) = 0" "\<not> ctx_large_cid (entry_of d i)"
  using assms contexts.get_good by (auto simp: decompressor_ok_def)

lemma decompressor_set_ok:
  assumes ok: "decompressor_ok d" and g: "context_table_get (dp_context_table d) (dp_cid d) = Done (Some i)"
    and c: "context_wf c" "ctx_cid c = 0" "\<not> ctx_large_cid c"
  shows "decompressor_ok (decompressor_set d i c)"
proof -
  have t: "table_ok (dp_context_table d)" using ok by (simp add: decompressor_ok_def)
  note frame = contexts.upd_frame [OF t g c(1)]
  show ?thesis using frame g c by (auto simp: decompressor_ok_def decompressor_set_def contexts.get_upd)
qed

definition decode_header :: "bytes \<Rightarrow> rohc_context \<Rightarrow> (rohc_context \<times> nat) res" where
  "decode_header pkt c = (if pkt ! 0 AND 0xFE = 0xFC then decode_ir_rtp pkt c else decode_ir_dyn_rtp pkt c)"

lemma decode_header_ok:
  assumes "context_wf c" and "decode_header pkt c = Done (c', n)"
  shows "context_wf c' \<and> n \<le> length pkt \<and> ctx_cid c' = ctx_cid c \<and> ctx_large_cid c' = ctx_large_cid c"
  using assms(2) safe_Done [OF decode_ir_decoded(1) [OF assms(1)]] safe_Done [OF ir_dyn_rtp_decoders_safe(1) [OF assms(1)]]
    returns_Done [OF decode_ir_rtp_keeps] returns_Done [OF decode_ir_dyn_rtp_keeps]
  by (fastforce simp: decode_header_def advanced_iff split: if_splits)

lemma decode_header_not_Fault: "context_wf c \<Longrightarrow> decode_header pkt c \<noteq> Fault"
  using safe_not_Fault [OF decode_ir_decoded(1)] safe_not_Fault [OF ir_dyn_rtp_decoders_safe(1)] by (auto simp: decode_header_def)

lemma decompress_eq:
  assumes "context_table_get (dp_context_table d) (dp_cid d) = Done (Some i)" and "pkt \<noteq> []"
  shows "decompress d pkt cap = (case decode_header pkt (entry_of d i) of
       Fault \<Rightarrow> Fault | Reject \<Rightarrow> Done (None, d)
     | Done (c, n) \<Rightarrow>
         if n > length pkt \<or> ctx_ip_version c \<noteq> 4 then Done (None, d)
         else case build_rtp_packet_from_context cap c (drop n pkt) of
           Fault \<Rightarrow> Fault | Reject \<Rightarrow> Done (None, d) | Done ip \<Rightarrow> Done (Some ip, decompressor_set d i c))"
  using assms by (simp add: decompress_def decode_header_def Let_def view_def split: res.splits prod.splits)

lemma decompress_total:
  assumes ok: "decompressor_ok d"
  shows "\<exists>r d'. decompress d pkt cap = Done (r, d') \<and> decompressor_ok d' \<and> (r = None \<longrightarrow> d' = d)"
proof (cases "pkt = []")
  case True
  then show ?thesis using ok by (simp add: decompress_def)
next
  case False
  have "table_ok (dp_context_table d)" using ok by (simp add: decompressor_ok_def)
  then show ?thesis
  proof (cases rule: get_cases [of _ "dp_cid d"])
    case 1
    then show ?thesis using ok False by (simp add: decompress_def)
  next
    case (2 i)
    note facts = entry_of_facts [OF ok 2]
    show ?thesis
    proof (cases "decode_header pkt (entry_of d i)")
      case (Done r)
      obtain c n where r: "r = (c, n)" by (cases r)
      note dec = decode_header_ok [OF facts(1) Done [unfolded r]]
      then have "decompressor_ok (decompressor_set d i c)" using decompressor_set_ok [OF ok 2, of c] facts by auto
      then show ?thesis
        using build_not_Fault [of cap c "drop n pkt"] ok
        by (auto simp: decompress_eq [OF 2 False] Done r split: res.splits)
    next
      case Fault
      then show ?thesis using decode_header_not_Fault [OF facts(1)] by simp
    qed (use ok in \<open>simp add: decompress_eq [OF 2 False]\<close>)
  qed
qed

lemma compress_total:
  assumes ok: "compressor_ok s"
  shows "\<exists>r s'. compress s ip cap = Done (r, s') \<and> compressor_ok s' \<and> (r = None \<longrightarrow> s' = s)"
proof -
  have "table_ok (cp_context_table s)" using ok by (simp add: compressor_ok_def)
  then show ?thesis
  proof (cases rule: get_cases [of _ "cp_cid s"])
    case 1
    then show ?thesis using ok by (simp add: compress_def)
  next
    case (2 i)
    then show ?thesis using ok after_send_ok [OF ok 2, of ip] by (simp add: compress_eq [OF ok 2] Let_def)
  qed
qed

section \<open>A link that loses, repeats, reorders and injects packets\<close>

text \<open>
  One compressor, one decompressor, and the packets sent so far, each with the IP packet it was made from.
  A packet may be delivered any number of times and at any later moment, so loss, duplication and
  reordering are all possible; any other octets may be delivered as well.
\<close>

inductive link :: "u32 \<Rightarrow> compressor \<Rightarrow> decompressor \<Rightarrow> (bytes \<times> bytes) list \<Rightarrow> bool" for cid :: u32 where
  start: "compressor_new cid maxc = Done s \<Longrightarrow> (if maxc = 0 then cid else maxc) \<noteq> - 1 \<Longrightarrow>
    (if maxd = 0 then cid else maxd) \<noteq> - 1 \<Longrightarrow> link cid s (decompressor_new cid maxd) []"
| send: "link cid s d sent \<Longrightarrow> compress s ip cap = Done (Some out, s') \<Longrightarrow> link cid s' d ((ip, out) # sent)"
| send_failed: "link cid s d sent \<Longrightarrow> compress s ip cap = Done (None, s') \<Longrightarrow> link cid s' d sent"
| deliver: "link cid s d sent \<Longrightarrow> decompress d pkt cap = Done (r, d') \<Longrightarrow> link cid s d' sent"

inductive_simps link_Cons: "link cid s d ((ip, out) # sent)"

definition sent_frame :: "u32 \<Rightarrow> bytes \<Rightarrow> bytes \<Rightarrow> bool" where
  \<comment> \<open>\<open>out\<close> is the IR frame of a context captured from \<open>ip\<close>, followed by the payload\<close>
  "sent_frame cid ip out \<longleftrightarrow> (\<exists>c0. context_wf (captured c0 ip) \<and> ir_emittable RTP (captured c0 ip) \<and> ctx_cid (captured c0 ip) = cid \<and>
     \<not> ctx_large_cid (captured c0 ip) \<and> out = ir_frame RTP 1 (captured c0 ip) @ drop 40 ip)"

lemma compressor_new_ok:
  assumes "compressor_new cid maxc = Done s" and "(if maxc = 0 then cid else maxc) \<noteq> - 1"
  shows "compressor_ok s \<and> cp_cid s = cid"
proof -
  define t where "t = context_table_init (if maxc = 0 then cid else maxc)"
  have ok: "table_ok t" unfolding t_def by (rule context_table_init_ok) (rule assms(2))
  then show ?thesis
  proof (cases rule: get_cases [of _ cid])
    case 1
    with assms(1) ok show ?thesis
      by (auto simp: compressor_new_def init_rtp_context_def t_def [symmetric] compressor_ok_def Let_def)
  next
    case (2 i)
    let ?e = "init_rtp_entry (context_table_entry t i) cid None"
    have i: "i < length (replicate (unat ((if maxc = 0 then cid else maxc) + 1)) context_zero)"
      using 2 by (auto simp: t_def context_table_get_def context_table_init_def split: if_splits)
    then have z: "context_table_entry t i = context_zero"
      by (simp add: t_def context_table_entry_def context_table_init_def)
    have e: "context_wf ?e" unfolding z by (rule init_rtp_entry_wf) simp
    have e': "ctx_cid ?e = cid" "\<not> ctx_large_cid ?e" by (simp_all add: z init_rtp_entry_def context_zero_def)
    note frame = contexts.upd_frame [OF ok 2 e]
    have "s = \<lparr>cp_cid = cid, cp_packet_count = 0, cp_context_table = context_table_set t i ?e, cp_lla_contract = no_contract,
        cp_lla_flow = no_flow, cp_lla_enabled = False\<rparr>"
      using assms(1) 2 by (simp add: compressor_new_def init_rtp_context_def t_def [symmetric] Let_def)
    then show ?thesis using frame 2 e' by (auto simp: compressor_ok_def contexts.get_upd)
  qed
qed

lemma decompressor_new_ok:
  assumes "(if maxd = 0 then cid else maxd) \<noteq> - 1"
  shows "decompressor_ok (decompressor_new cid maxd)"
proof -
  let ?t = "context_table_init (if maxd = 0 then cid else maxd)"
  have ok: "table_ok ?t" by (rule context_table_init_ok) (rule assms)
  have "context_table_entry ?t i = context_zero" if "context_table_get ?t cid = Done (Some i)" for i
    using that by (auto simp: context_table_get_def context_table_init_def context_table_entry_def split: if_splits)
  then show ?thesis using ok by (auto simp: decompressor_ok_def decompressor_new_def context_zero_def)
qed

lemma sent_is_frame:
  assumes ok: "compressor_ok s" and c: "compress s ip cap = Done (Some out, s')"
  shows "sent_frame (cp_cid s) ip out \<and> compressor_ok s' \<and> cp_cid s' = cp_cid s"
proof -
  have "table_ok (cp_context_table s)" using ok by (simp add: compressor_ok_def)
  then show ?thesis
  proof (cases rule: get_cases [of _ "cp_cid s"])
    case 1
    then show ?thesis using c by (simp add: compress_def split: if_splits)
  next
    case (2 i)
    note facts = sent_context_facts [OF ok 2, of ip]
    from c have "ir_emittable RTP (sent_context s i ip)" "out = ir_frame RTP 1 (sent_context s i ip) @ drop 40 ip" "s' = after_send s i ip"
      by (auto simp: compress_eq [OF ok 2] Let_def split: if_splits)
    then show ?thesis using facts after_send_ok [OF ok 2, of ip] unfolding sent_frame_def sent_context_def
      by (auto simp: after_send_def compressor_set_def)
  qed
qed

lemma link_inv:
  assumes "link cid s d sent"
  shows "compressor_ok s \<and> cp_cid s = cid \<and> decompressor_ok d \<and> (\<forall>(ip, out) \<in> set sent. sent_frame cid ip out)"
  using assms
proof induction
  case (start maxc s maxd)
  then show ?case using compressor_new_ok decompressor_new_ok by simp
next
  case (send s d sent ip cap out s')
  then show ?case using sent_is_frame by auto
next
  case (send_failed s d sent ip cap s')
  then show ?case using compress_total [of s ip cap] by auto
next
  case (deliver s d sent pkt cap r d')
  then show ?case using decompress_total [of d pkt cap] by auto
qed

section \<open>When the legacy decoder stays out of the way\<close>

definition legacy_rejects :: "bytes \<Rightarrow> bool" where
  "legacy_rejects out \<longleftrightarrow> (\<forall>c. ctx_cid c = 0 \<and> \<not> ctx_large_cid c \<longrightarrow> decode_ir_rtp_legacy out c = Reject)"

lemma legacy_chain_rejects:
  assumes "i + 6 \<le> length buf" and "buf ! (i + 5) \<noteq> 0" and "buf ! (i + 5) AND 0xC0 \<noteq> 0x40" and "ctx_ip_version c = 4"
  shows "read_legacy_ip_dynamic_consistent buf i c = Reject"
  using assms
  by (simp add: read_legacy_ip_dynamic_consistent_def read_ip_dynamic_chain_def read_ipv4_options_def guard_def rd16_def Let_def
      is_empty_list_def empty_list_marker_def)

lemma frame_legacy_rejects:
  assumes p: "capturable ip" and em: "ir_emittable RTP c" and c: "c = captured c0 ip" "ctx_cid c = 0" "\<not> ctx_large_cid c"
    and i: "load_be16 ip 4 \<noteq> 0" and b: "ip ! 26 \<noteq> 0" "ip ! 26 AND 0xC0 \<noteq> 0x40"
  shows "legacy_rejects (ir_frame RTP 1 c @ payload)"
  unfolding legacy_rejects_def
proof (intro allI impI)
  fix previous :: rohc_context assume prev: "ctx_cid previous = 0 \<and> \<not> ctx_large_cid previous"
  define buf where "buf = ir_frame RTP 1 c @ payload"
  have head: "ir_head c 1 = [0xFD, 1]" using c by (simp add: ir_head_def cid_prefix_def large_cid_field_def)
  have v4: "ctx_ip_version c = 4" by (simp add: c)
  have nb: "ctx_ipv4_id_behavior c AND 0x03 \<noteq> 3"
    using capture_id_behavior_cases [of c0 "load_be16 ip 4" "load_be16 ip 30"] i by (auto simp: c captured_def)
  have l40: "40 \<le> length ip" using p by (simp add: capturable_def)
  have chk: "be16 (ctx_udp_check c) = [ip ! 26, ip ! 27]" using l40 by (simp add: c captured_def be16_load)
  have l10: "length (std_ip_static c) = 10" using v4 by (simp add: std_ip_static_def)
  obtain crc rest where frame: "buf = [0xFD, 1, crc] @ std_ip_static c @ (be16 (ctx_udp_sport c) @ be16 (ctx_udp_dport c) @
      be32 (rtp_ssrc (ctx_rtp c))) @ [ipv4_control c False, ctx_ipv4_tos c, ctx_ipv4_ttl c] @ be16 (ctx_ipv4_id c) @ (ip ! 26) # rest"
    using v4 nb chk by (simp add: buf_def ir_frame_def ir_chains_def head std_transport_static_def std_ip_dynamic_def std_transport_dynamic_def)
  have len: "27 \<le> length buf" by (simp add: frame l10)
  have o: "buf ! 26 = ip ! 26" "buf ! 0 = 0xFD" "buf ! 1 = 1" using l10 by (simp_all add: frame nth_append nth_Cons')
  have "holds_at buf 3 (std_ip_static c)" unfolding frame by (simp add: holds_at_def)
  note static = read_ip_static_chain_at_v4 [OF this v4]
  have ne: "buf \<noteq> []" using len by auto
  have prefix: "read_legacy_ir_prefix buf previous 4 1 = Done (3, buf ! 2)"
    using prev len o ne
    by (simp add: read_legacy_ir_prefix_def has_small_cid_def available_def guard_def read_large_cid_if_present_def numeral_2_eq_2)
  have "read_legacy_ip_dynamic_consistent buf 21 c' = Reject" if "ctx_ip_version c' = 4" for c'
    using legacy_chain_rejects [of 21 buf c'] that len o b by simp
  then show "decode_ir_rtp_legacy (ir_frame RTP 1 c @ payload) previous = Reject"
    using len unfolding buf_def [symmetric] decode_ir_rtp_legacy_def
    by (simp add: prefix static available_def guard_def read_udp_ports_def rd16_def rd32_def Let_def)
qed

section \<open>Steps of a link\<close>

lemma decompress_cases:
  assumes "decompress d pkt cap = Done (r, d')"
  obtains "r = None" "d' = d"
  | i c n ip where "r = Some ip" "d' = decompressor_set d i c" "build_rtp_packet_from_context cap c (drop n pkt) = Done ip"
proof (cases "pkt = [] \<or> context_table_get (dp_context_table d) (dp_cid d) = Done None")
  case True
  then show ?thesis using assms that(1) by (auto simp: decompress_def split: if_splits)
next
  case False
  then obtain i where g: "context_table_get (dp_context_table d) (dp_cid d) = Done (Some i)"
    using assms by (cases "context_table_get (dp_context_table d) (dp_cid d)") (auto simp: decompress_def split: option.splits)
  show ?thesis
  proof (cases "decode_header pkt (entry_of d i)")
    case (Done x)
    then obtain c n where "decode_header pkt (entry_of d i) = Done (c, n)" by (cases x) auto
    then show ?thesis
      using assms that False by (auto simp: decompress_eq [OF g] split: if_splits res.splits)
  qed (use assms that False in \<open>simp_all add: decompress_eq [OF g]\<close>)
qed

lemma decompress_keeps_cid: "decompress d pkt cap = Done (r, d') \<Longrightarrow> dp_cid d' = dp_cid d"
  by (erule decompress_cases) (simp_all add: decompressor_set_def)

lemma link_cid: "link cid s d sent \<Longrightarrow> dp_cid d = cid"
proof (induction rule: link.induct)
  case (start maxc s maxd)
  then show ?case by (simp add: decompressor_new_def)
qed (auto dest: decompress_keeps_cid)

lemma get_zero: "table_ok t \<Longrightarrow> context_table_get t 0 = Done (Some 0)"
  by (auto simp: table_ok_def context_table_get_def)

lemma plain_capturable:
  assumes "plain_rtp_packet ip"
  shows "capturable ip"
proof -
  have "ip ! 6 = 0 \<or> ip ! 6 = 0x40" "ip ! 7 = 0" using assms by (auto simp: plain_rtp_packet_def)
  then have "\<not> is_fragmented (load_be16 ip 6)" by (auto simp: load_be16_def of_be16_def is_fragmented_def)
  then show ?thesis using assms by (simp add: plain_rtp_packet_def capturable_def)
qed

lemma decompress_frame:
  assumes ok: "decompressor_ok d" "dp_cid d = 0" and p: "plain_rtp_packet ip" and cap: "length ip \<le> cap"
    and sf: "sent_frame 0 ip out" and leg: "legacy_rejects out"
  shows "\<exists>d'. decompress d out cap = Done (Some ip, d')"
proof -
  obtain c0 where c: "context_wf (captured c0 ip)" "ir_emittable RTP (captured c0 ip)" "ctx_cid (captured c0 ip) = 0"
      "\<not> ctx_large_cid (captured c0 ip)" and out: "out = ir_frame RTP 1 (captured c0 ip) @ drop 40 ip"
    using sf by (auto simp: sent_frame_def)
  define c where "c = captured c0 ip"
  note cs = c [folded c_def] and out = out [folded c_def]
  have g: "context_table_get (dp_context_table d) (dp_cid d) = Done (Some 0)" using ok get_zero by (simp add: decompressor_ok_def)
  note facts = entry_of_facts [OF ok(1) g]
  have std: "decode_ir_standard out (entry_of d 0) RTP 1 = Done (receive_ir RTP c (entry_of d 0), length (ir_frame RTP 1 c))"
    unfolding out by (rule decode_ir_standard_frame) (use cs facts in \<open>auto simp: c_def terminal_protocol_def\<close>)
  have "decode_ir_rtp_legacy out (entry_of d 0) = Reject" using leg facts by (simp add: legacy_rejects_def)
  then have dec: "decode_ir_rtp out (entry_of d 0) = Done (receive_ir RTP c (entry_of d 0), length (ir_frame RTP 1 c))"
    using std by (simp add: decode_ir_rtp_def decode_ir_compatible_def)
  have first: "out \<noteq> []" "out ! 0 AND 0xFE = 0xFC" using cs by (simp_all add: out ir_frame_def ir_head_def cid_prefix_def)
  have ipok: "std_ip_ok c" using cs by (simp add: ir_emittable_def)
  have v4: "ctx_ip_version (receive_ir RTP c (entry_of d 0)) = 4"
    using receive_ir_agrees [of RTP c "entry_of d 0"] ipok by (simp add: ip_fields_agree_def c_def)
  have "build_rtp_packet_from_context cap (receive_ir RTP c (entry_of d 0)) (drop 40 ip) = Done ip"
    by (rule build_rtp_packet_describes [OF p receive_describes [OF p c_def ipok] cap])
  then show ?thesis
    using dec v4 by (simp add: decompress_eq [OF g first(1)] decode_header_def first(2)) (simp add: out)
qed

lemma frame_not_legacy:
  assumes "sent_frame 0 ip out" and "capturable ip" and "load_be16 ip 4 \<noteq> 0" "ip ! 26 \<noteq> 0" "ip ! 26 AND 0xC0 \<noteq> 0x40"
  shows "legacy_rejects out"
  using assms(1) frame_legacy_rejects [OF assms(2) _ refl _ _ assms(3-5)] by (auto simp: sent_frame_def)


lemma build_done:
  assumes "build_rtp_packet_from_context cap c payload = Done ip"
  shows "\<exists>csum. csum = ipv4_checksum (ipv4_header_octets c (of_nat (length ip)) 0) \<and> length ip = 40 + length payload \<and>
     length ip \<le> cap \<and> length ip \<le> 0xFFFF \<and>
     ip = ipv4_header_octets c (of_nat (length ip)) csum @ udp_rtp_octets c (of_nat (20 + length payload)) @ payload"
  using assms by (auto simp: build_rtp_packet_from_context_def Let_def put_all_def split: if_splits)


lemma header_verifies:
  assumes "c = ipv4_checksum (ipv4_header_octets ctx n 0)"
  shows "ipv4_checksum (ipv4_header_octets ctx n c) = 0"
proof -
  define xs where "xs = 0x45 # ctx_ipv4_tos ctx # be16 n @ be16 (ctx_ipv4_id ctx) @
    [push_bit 5 (ctx_ipv4_flags ctx AND 0x07), 0, ctx_ipv4_ttl ctx, 17]"
  define ys where "ys = be32 (ctx_ipv4_saddr ctx) @ be32 (ctx_ipv4_daddr ctx)"
  have h: "ipv4_header_octets ctx n v = xs @ be16 v @ ys" for v by (simp add: ipv4_header_octets_def xs_def ys_def)
  have "bit (of_be16 0x45 (ctx_ipv4_tos ctx)) 8" by (simp add: of_be16_def bit_simps)
  then have "of_be16 0x45 (ctx_ipv4_tos ctx) \<noteq> 0" by auto
  then have "0 < words_sum xs" by (simp add: xs_def word_neq_0_conv unat_gt_0)
  moreover have "even (length xs)" "length xs + 2 + length ys \<le> 60000" by (simp_all add: xs_def ys_def)
  ultimately show ?thesis using checksum_verifies [of xs ys c] assms unfolding h by blast
qed

section \<open>An example of a link\<close>

definition example_ip :: bytes where
  \<comment> \<open>an RTP packet with one octet of payload\<close>
  "example_ip = [69, 0, 0, 41, 0, 1, 64, 0, 64, 17, 38, 193, 10, 0, 0, 1, 10, 0, 0, 2, 19, 136, 19, 138, 0, 21, 128, 1, 128, 0, 0, 1, 0, 0, 0, 100, 1, 2, 3, 4, 85]"

lemma example_checksum: "ipv4_checksum (take 10 example_ip @ [0, 0] @ take 8 (drop 12 example_ip)) = 0x26C1"
  by code_simp

lemma example_plain: "plain_rtp_packet example_ip"
  unfolding plain_rtp_packet_def example_checksum by (simp add: example_ip_def load_be16_def of_be16_def)

lemma fresh_compressor:
  "\<exists>s. compressor_new cid 0 = Done s \<and> compressor_ok s \<and> cp_cid s = cid \<and>
     context_table_get (cp_context_table s) cid = Done (Some (unat cid)) \<and>
     context_table_entry (cp_context_table s) (unat cid) = init_rtp_entry context_zero cid None" if "cid \<noteq> - 1"
proof -
  let ?t = "context_table_init cid"
  have ok: "table_ok ?t" by (rule context_table_init_ok) (rule that)
  have g: "context_table_get ?t cid = Done (Some (unat cid))"
    using ok by (auto simp: table_ok_def context_table_get_def context_table_init_def)
  have z: "context_table_entry ?t (unat cid) = context_zero"
    using g by (auto simp: context_table_get_def context_table_init_def context_table_entry_def split: if_splits)
  have wf: "context_wf (init_rtp_entry context_zero cid None)" by (rule init_rtp_entry_wf) simp
  note frame = contexts.upd_frame [OF ok g wf]
  show ?thesis
    using compressor_new_ok [of cid 0] that frame g
    by (auto simp: compressor_new_def init_rtp_context_def Let_def z)
qed

lemma example_emittable:
  assumes "is_small cid"
  shows "ir_emittable RTP (captured ((init_rtp_entry context_zero cid None)\<lparr>ctx_profile := RTP, ctx_mode := Optimistic\<rparr>) example_ip)"
proof -
  have r: "rtp_plain (capture_rtp_fields rtp_context_zero 0x80 b d e f)" for b d e f
    by (simp add: rtp_plain_def capture_rtp_fields_def rtp_context_zero_def)
  show ?thesis
    using r assms by (simp add: ir_emittable_def is_valid_for_space_def std_ip_ok_def captured_def init_rtp_entry_def
        context_zero_def example_ip_def)
qed

lemma example_compress:
  assumes ok: "compressor_ok s" and small: "is_small (cp_cid s)"
    and g: "context_table_get (cp_context_table s) (cp_cid s) = Done (Some i)"
    and e: "context_table_entry (cp_context_table s) i = init_rtp_entry context_zero (cp_cid s) None" and cap: "100 \<le> cap"
  shows "\<exists>out. compress s example_ip cap = Done (Some out, after_send s i example_ip)"
proof -
  let ?c = "sent_context s i example_ip"
  have em: "ir_emittable RTP ?c" using example_emittable [OF small] by (simp add: sent_context_def e)
  have wf: "context_wf ?c" by (rule sent_context_facts(1) [OF ok g])
  show ?thesis
    using em cap plain_capturable [OF example_plain] length_ir_frame [OF wf, of RTP 1]
    by (simp add: compress_eq [OF ok g] Let_def example_ip_def)
qed

lemma example_link:
  assumes "is_small cid"
  shows "\<exists>s d out. link cid s d [(example_ip, out)]"
proof -
  have "\<not> is_small (- 1)" by code_simp
  then have cid: "cid \<noteq> - 1" using assms by auto
  obtain s where s: "compressor_new cid 0 = Done s" "compressor_ok s" "cp_cid s = cid"
      "context_table_get (cp_context_table s) cid = Done (Some (unat cid))"
      "context_table_entry (cp_context_table s) (unat cid) = init_rtp_entry context_zero cid None"
    using fresh_compressor [OF cid] by blast
  then obtain out s' where sent: "compress s example_ip 100 = Done (Some out, s')"
    using example_compress [OF s(2), of "unat cid" 100] assms by auto
  have "link cid s (decompressor_new cid 0) []" by (rule link.start [OF s(1)]) (use cid in auto)
  then show ?thesis using link.send [OF _ sent] by blast
qed

section \<open>Properties\<close>

text \<open>
  C1. Every packet gets through whenever it arrives. Take a compressor and a decompressor with CID 0 and any
  history of a link between them that loses, repeats and reorders packets and injects arbitrary octets.
  Every packet the compressor ever sent for a plain IPv4/UDP/RTP packet is decompressed, in the state the
  decompressor is then in, to exactly the octets of that IP packet, if the output has room for it and the
  legacy decoder does not accept the packet as well; the latter holds whenever the IP-ID is not zero
  and the high octet of the UDP checksum is neither zero nor between 0x40 and 0x7F.
\<close>

theorem link_delivers:
  assumes "link 0 s d sent" and "(ip, out) \<in> set sent" and "plain_rtp_packet ip" and "length ip \<le> cap"
    and "legacy_rejects out \<or> load_be16 ip 4 \<noteq> 0 \<and> ip ! 26 \<noteq> 0 \<and> ip ! 26 AND 0xC0 \<noteq> 0x40"
  shows "\<exists>d'. decompress d out cap = Done (Some ip, d') \<and> link 0 s d' sent"
proof -
  have inv: "decompressor_ok d" "sent_frame 0 ip out" using link_inv [OF assms(1)] assms(2) by auto
  have "legacy_rejects out" using assms(5) frame_not_legacy [OF inv(2) plain_capturable [OF assms(3)]] by blast
  then obtain d' where "decompress d out cap = Done (Some ip, d')"
    using decompress_frame [OF inv(1) link_cid [OF assms(1)] assms(3,4) inv(2)] by blast
  with link.deliver [OF assms(1)] show ?thesis by blast
qed

theorem link_delivers_witness:
  "\<exists>s d out d'. link 0 s d [(example_ip, out)] \<and> decompress d out 100 = Done (Some example_ip, d')"
proof -
  obtain s d out where l: "link 0 s d [(example_ip, out)]" using example_link [of 0] by (auto simp: is_small_def)
  then show ?thesis
    using link_delivers [OF l, of example_ip out 100] example_plain by (auto simp: example_ip_def load_be16_def of_be16_def)
qed



text \<open>
  C5. Only CID 0 works end to end. With a CID other than 0, a decompressor constructed with the same CID
  never decompresses a packet of the compressor, whatever happened before; with a CID above 15 the
  compressor never sends one. The decompressor looks for the packet type in front of the Add-CID octet, and its
  context never learns the CID.
\<close>

theorem nonzero_cid_undeliverable:
  assumes "link cid s d sent" and "cid \<noteq> 0" and "(ip, out) \<in> set sent"
  shows "decompress d out cap = Done (None, d) \<and> is_small cid"
proof -
  have inv: "decompressor_ok d" "sent_frame cid ip out" using link_inv [OF assms(1)] assms(3) by auto
  then obtain c where c: "ir_emittable RTP c" "ctx_cid c = cid" "\<not> ctx_large_cid c" and out: "out = ir_frame RTP 1 c @ drop 40 ip"
    by (auto simp: sent_frame_def)
  have small: "is_small cid" using c by (simp add: ir_emittable_def is_valid_for_space_def)
  define b where "b = (ucast (0xE0 OR (cid AND 0x0F)) :: byte)"
  have b: "out ! 0 = b" "out \<noteq> []"
    using c assms(2) by (simp_all add: out b_def ir_frame_def ir_head_def cid_prefix_def word_gt_0)
  have "b AND 0xFE \<noteq> 0xFC" "b \<noteq> 0xF8" by (simp_all add: b_def byte_bits)
  then have dec: "decode_header out c' = decode_ir_dyn_rtp out c'" "out ! 0 \<noteq> 0xF8" for c' using b by (simp_all add: decode_header_def)
  have "decode_ir_dyn_rtp out c' = Reject" if "ctx_cid c' = 0" "\<not> ctx_large_cid c'" for c'
    using that b(2) dec(2) by (simp add: decode_ir_dyn_rtp_def decode_ir_dyn_rtp_transport_def read_ir_dyn_prefix_def has_small_cid_def guard_def)
  then have reject: "decode_header out (entry_of d i) = Reject"
    if "context_table_get (dp_context_table d) (dp_cid d) = Done (Some i)" for i
    using entry_of_facts [OF inv(1) that] dec(1) by simp
  have "table_ok (dp_context_table d)" using inv by (simp add: decompressor_ok_def)
  then have "decompress d out cap = Done (None, d)"
  proof (cases rule: get_cases [of _ "dp_cid d"])
    case 1
    then show ?thesis by (simp add: decompress_def b)
  next
    case (2 i)
    then show ?thesis by (simp add: decompress_eq [OF 2 b(2)] reject)
  qed
  with small show ?thesis by simp
qed

theorem nonzero_cid_undeliverable_witness:
  "\<exists>s d out. link 3 s d [(example_ip, out)] \<and> decompress d out 100 = Done (None, d)"
proof -
  obtain s d out where l: "link 3 s d [(example_ip, out)]" using example_link [of 3] by (auto simp: is_small_def small_cid_max_def)
  then show ?thesis using nonzero_cid_undeliverable [OF l, of example_ip out 100] by auto
qed

text \<open>
  C4. What the decompressor hands up is a consistent IP packet. Whatever octets it accepts, the packet it
  returns has between 40 and 65535 octets, its IPv4 header verifies under the Internet checksum, and its
  total length and UDP length fields are the length of the packet and of its UDP part.
\<close>

theorem decompressed_packet_consistent:
  assumes "decompress d pkt cap = Done (Some ip, d')"
  shows "40 \<le> length ip \<and> length ip \<le> 0xFFFF \<and> ipv4_checksum (take 20 ip) = 0 \<and>
     load_be16 ip 2 = of_nat (length ip) \<and> load_be16 ip 24 = of_nat (length ip - 20)"
proof -
  obtain c payload where b: "build_rtp_packet_from_context cap c payload = Done ip"
    using assms by (rule decompress_cases) auto
  define n where "n = (of_nat (length ip) :: u16)"
  define u where "u = (of_nat (20 + length payload) :: u16)"
  define csum where "csum = ipv4_checksum (ipv4_header_octets c n 0)"
  have len: "length ip = 40 + length payload" "length ip \<le> 0xFFFF"
    and ip: "ip = ipv4_header_octets c n csum @ udp_rtp_octets c u @ payload"
    using build_done [OF b] unfolding csum_def n_def u_def by blast+
  have "take 20 ip = ipv4_header_octets c n csum" by (simp add: ip)
  moreover have "load_be16 ip 2 = n" using of_be16_be16 [of n]
    by (simp add: ip ipv4_header_octets_def load_be16_def nth_append nth_Cons' be16_def)
  moreover have "load_be16 ip 24 = u" using of_be16_be16 [of u]
    by (simp add: ip udp_rtp_octets_def load_be16_def nth_append nth_Cons' be16_def)
  moreover have "u = of_nat (length ip - 20)" unfolding u_def by (rule arg_cong [where f = of_nat]) (simp add: len(1))
  ultimately show ?thesis using header_verifies [OF csum_def] len by (simp add: n_def)
qed

theorem decompressed_packet_consistent_witness:
  "\<exists>s d out d'. link 0 s d [(example_ip, out)] \<and> decompress d out 100 = Done (Some example_ip, d') \<and>
     ipv4_checksum (take 20 example_ip) = 0"
proof -
  obtain s d out where l: "link 0 s d [(example_ip, out)]" using example_link [of 0] by (auto simp: is_small_def)
  have inv: "decompressor_ok d" "sent_frame 0 example_ip out" using link_inv [OF l] by auto
  have "legacy_rejects out"
    by (rule frame_not_legacy [OF inv(2) plain_capturable [OF example_plain]]) (simp_all add: example_ip_def load_be16_def of_be16_def)
  then obtain d' where dec: "decompress d out 100 = Done (Some example_ip, d')"
    using decompress_frame [OF inv(1) link_cid [OF l] example_plain _ inv(2), of 100] by (auto simp: example_ip_def)
  then show ?thesis using l decompressed_packet_consistent [OF dec] by blast
qed

end
