(* ===== verification/AssistedLink.thy ===== *)
theory AssistedLink
  imports EndToEnd
begin

text \<open>
  The link-layer assisted operations of the end points (\<open>rfc4362_*\<close> of \<open>src/core/compressor.cpp\<close> and
  \<open>src/core/decompressor.cpp\<close>): streams of packets without a header, context checks, and what a failing
  operation leaves behind.
\<close>

section \<open>The context after a decompressed packet\<close>

definition established :: "rohc_context \<times> nat \<Rightarrow> bool" where
  "established r \<longleftrightarrow> ctx_profile (fst r) = RTP \<and> ctx_rohc_state (fst r) = DynamicEstablished"

lemma establish_rtp_established [simp]: "established (establish_rtp c, n) \<longleftrightarrow> ctx_profile c = RTP"
  by (simp add: established_def establish_rtp_def Let_def)

lemma standard_established: "returns established (decode_ir_standard inp c RTP pid)"
  unfolding decode_ir_standard_def
  by (auto simp: established_def intro!: returns_intros returns_any_seq)

lemma legacy_established: "returns established (decode_ir_rtp_legacy inp c)"
  unfolding decode_ir_rtp_legacy_def Let_def by (auto intro!: returns_intros returns_any_seq)

lemma decode_ir_rtp_established: "returns established (decode_ir_rtp inp c)"
  using standard_established [of inp c 1] legacy_established [of inp c]
  by (auto simp: decode_ir_rtp_def decode_ir_compatible_def split: res.splits)

abbreviation keeps_rtp :: "rohc_context \<times> nat \<Rightarrow> bool" where
  "keeps_rtp r \<equiv> ctx_profile (fst r) = RTP"

lemma returns_keeps_seq:
  "returns keeps_rtp r \<Longrightarrow> (\<And>c n. ctx_profile c = RTP \<Longrightarrow> returns P (k (c, n))) \<Longrightarrow> returns P (seq_res r k)"
  by (cases r) auto

lemma options_keep_rtp:
  assumes "ctx_profile c = RTP"
  shows "returns keeps_rtp (read_ipv4_options inp pos c)" "returns keeps_rtp (read_ipv6_extensions inp pos c)"
  using assms unfolding read_ipv4_options_def read_ipv6_extensions_def Let_def by (auto intro!: returns_intros)

lemma chains_keep_rtp:
  assumes "ctx_profile c = RTP"
  shows "returns keeps_rtp (read_legacy_ip_dynamic_consistent inp pos c)" "returns keeps_rtp (read_rtp_extras_list inp pos c)"
proof -
  show "returns keeps_rtp (read_legacy_ip_dynamic_consistent inp pos c)"
    using assms unfolding read_legacy_ip_dynamic_consistent_def read_ip_dynamic_chain_def Let_def
    by (auto intro!: returns_intros returns_keeps_seq options_keep_rtp)
  show "returns keeps_rtp (read_rtp_extras_list inp pos c)"
    using assms unfolding read_rtp_extras_list_def read_rtp_extras_body_def Let_def
    by (auto intro!: returns_intros returns_any_seq)
qed

lemma dyn_update_profile [simp]: "ctx_profile (ir_dyn_rtp_update p c s t) = ctx_profile c"
  by (simp add: ir_dyn_rtp_update_def Let_def)

lemma decode_ir_dyn_rtp_established:
  assumes "ctx_profile c = RTP"
  shows "returns established (decode_ir_dyn_rtp inp c)"
  unfolding decode_ir_dyn_rtp_def decode_ir_dyn_rtp_transport_def ir_dyn_rtp_tail_def
  apply (rule returns_rules(1), rule returns_any_seq, simp only: split_beta Let_def)
  apply (rule returns_any_seq, rule returns_any_seq, rule returns_any_seq, rule returns_rules(1))
  apply (rule returns_keeps_seq, rule chains_keep_rtp, rule assms, simp only: prod.case)
  apply (intro returns_rd16_32 returns_rules, rule returns_keeps_seq, rule chains_keep_rtp)
   apply (auto intro!: returns_intros)
  done

lemma decode_header_established:
  assumes "decode_header pkt (entry_of d i) = Done (c, n)"
  shows "lla_context_ready c"
proof -
  have "established (c, n)"
    using assms returns_Done [OF decode_ir_rtp_established] returns_Done [OF decode_ir_dyn_rtp_established, of "entry_of d i"]
    by (auto simp: decode_header_def split: if_splits)
  then show ?thesis by (simp add: established_def lla_context_ready_def lla_context_established_def)
qed

text \<open>The context from which a packet was built describes the packet.\<close>

lemma of_be_octets:
  "of_be16 (ucast (drop_bit 8 v)) (ucast (v AND 255)) = v"
  "of_be32 (ucast (drop_bit 24 w)) (ucast (drop_bit 16 w)) (ucast (drop_bit 8 w)) (ucast (w AND 255)) = w"
  using of_be16_be16 [of v] of_be32_be32 [of w] by (simp_all add: be16_def be32_def)

lemma build_describes:
  assumes b: "build_rtp_packet_from_context cap c payload = Done ip"
  shows "describes c ip"
proof -
  obtain n csum u where ip: "ip = ipv4_header_octets c n csum @ udp_rtp_octets c u @ payload"
    using build_done [OF b] by blast
  show ?thesis
    by (simp add: ip describes_def ipv4_header_octets_def udp_rtp_octets_def load_be16_def load_be32_def nth_append nth_Cons'
        be16_def be32_def of_be_octets)
qed

section \<open>Streams without headers\<close>

text \<open>
  The packet \<open>ip'\<close> continues \<open>ip\<close>: the same flow, the next sequence number, the timestamp advanced by the
  stride and the IP-ID by the step.
\<close>

definition continues :: "u32 \<Rightarrow> u16 \<Rightarrow> bytes \<Rightarrow> bytes \<Rightarrow> bool" where
  "continues stride step ip ip' \<longleftrightarrow> plain_rtp_packet ip' \<and> ip' ! 1 = ip ! 1 \<and> load_be16 ip' 4 = load_be16 ip 4 + step \<and>
     ip' ! 6 = ip ! 6 \<and> ip' ! 8 = ip ! 8 \<and> load_be32 ip' 12 = load_be32 ip 12 \<and> load_be32 ip' 16 = load_be32 ip 16 \<and>
     load_be16 ip' 20 = load_be16 ip 20 \<and> load_be16 ip' 22 = load_be16 ip 22 \<and> load_be16 ip' 26 = load_be16 ip 26 \<and>
     ip' ! 28 = ip ! 28 \<and> ip' ! 29 = ip ! 29 \<and> load_be16 ip' 30 = load_be16 ip 30 + 1 \<and>
     load_be32 ip' 32 = load_be32 ip 32 + stride \<and> load_be32 ip' 36 = load_be32 ip 36"

fun continues_all :: "u32 \<Rightarrow> u16 \<Rightarrow> bytes \<Rightarrow> bytes list \<Rightarrow> bool" where
  "continues_all stride step ip [] \<longleftrightarrow> True"
| "continues_all stride step ip (ip' # ips) \<longleftrightarrow> continues stride step ip ip' \<and> continues_all stride step ip' ips"

text \<open>The decompressor receives one headerless packet after the other.\<close>

fun receive_stream :: "decompressor \<Rightarrow> bytes list \<Rightarrow> nat \<Rightarrow> (bytes option list \<times> decompressor) res" where
  "receive_stream d [] cap = Done ([], d)"
| "receive_stream d (payload # payloads) cap =
     seq_res (rfc4362_receive_nhp d payload cap) (\<lambda>(r, d).
     seq_res (receive_stream d payloads cap) (\<lambda>(rs, d). Done (r # rs, d)))"

definition ip_id_step :: "rohc_context \<Rightarrow> u16" where
  "ip_id_step c = (if ctx_ipv4_id_sequential c then 1 else 0)"

lemma nhp_advance_selectors [simp]:
  "ctx_ip_version (nhp_advance c) = ctx_ip_version c" "lla_context_ready (nhp_advance c) \<longleftrightarrow> lla_context_ready c"
  "rtp_ts_stride (ctx_rtp (nhp_advance c)) = rtp_ts_stride (ctx_rtp c)" "ip_id_step (nhp_advance c) = ip_id_step c"
  "rtp_last_seq (ctx_rtp (nhp_advance c)) = rtp_last_seq (ctx_rtp c) + 1" "ctx_cid (nhp_advance c) = ctx_cid c" "ctx_large_cid (nhp_advance c) = ctx_large_cid c"
  by (simp_all add: nhp_advance_def Let_def lla_context_ready_def lla_context_established_def ip_id_step_def)

lemma nhp_advance_keeps [simp]:
  "ctx_ipv4_tos (nhp_advance c) = ctx_ipv4_tos c" "ctx_ipv4_flags (nhp_advance c) = ctx_ipv4_flags c"
  "ctx_ipv4_ttl (nhp_advance c) = ctx_ipv4_ttl c" "ctx_ipv4_saddr (nhp_advance c) = ctx_ipv4_saddr c"
  "ctx_ipv4_daddr (nhp_advance c) = ctx_ipv4_daddr c" "ctx_udp_sport (nhp_advance c) = ctx_udp_sport c"
  "ctx_udp_dport (nhp_advance c) = ctx_udp_dport c" "ctx_udp_check (nhp_advance c) = ctx_udp_check c"
  "rtp_vpxcc (ctx_rtp (nhp_advance c)) = rtp_vpxcc (ctx_rtp c)" "rtp_mpt (ctx_rtp (nhp_advance c)) = rtp_mpt (ctx_rtp c)"
  "rtp_ssrc (ctx_rtp (nhp_advance c)) = rtp_ssrc (ctx_rtp c)"
  "rtp_last_ts (ctx_rtp (nhp_advance c)) = rtp_last_ts (ctx_rtp c) + rtp_ts_stride (ctx_rtp c)"
  "ctx_ip_version c = 4 \<Longrightarrow> ctx_ipv4_id (nhp_advance c) = ctx_ipv4_id c + ip_id_step c"
  by (simp_all add: nhp_advance_def Let_def ip_id_step_def word_gt_0)

lemma nhp_advance_wf: "context_wf c \<Longrightarrow> context_wf (nhp_advance c)"
  by (auto simp: nhp_advance_def Let_def intro!: wf_rules)

lemma nhp_advance_describes:
  assumes "describes c ip" and "ctx_ip_version c = 4" and "continues (rtp_ts_stride (ctx_rtp c)) (ip_id_step c) ip ip'"
  shows "describes (nhp_advance c) ip'"
  using assms unfolding describes_def continues_def by simp

text \<open>A decompressor that holds the context of \<open>ip\<close> and may receive packets without a header.\<close>

definition holds_packet :: "decompressor \<Rightarrow> nat \<Rightarrow> rohc_context \<Rightarrow> bytes \<Rightarrow> bool" where
  "holds_packet d i c ip \<longleftrightarrow> decompressor_ok d \<and> dp_lla_enabled d \<and>
     can_emit_no_header_packet_for_flow (dp_lla_contract d) (dp_lla_flow d) \<and>
     context_table_get (dp_context_table d) (dp_cid d) = Done (Some i) \<and> context_table_entry (dp_context_table d) i = c \<and>
     lla_context_ready c \<and> ctx_ip_version c = 4 \<and> describes c ip"

lemma decompressor_set_entry:
  assumes "decompressor_ok d" and "context_table_get (dp_context_table d) (dp_cid d) = Done (Some i)" and "context_wf c"
  shows "context_table_get (dp_context_table (decompressor_set d i c)) (dp_cid (decompressor_set d i c)) = Done (Some i) \<and>
    context_table_entry (dp_context_table (decompressor_set d i c)) i = c"
  using assms contexts.upd_frame [of "dp_context_table d" "dp_cid d" i c] by (simp add: decompressor_ok_def decompressor_set_def)

lemma receive_nhp_next:
  assumes h: "holds_packet d i c ip" and n: "continues (rtp_ts_stride (ctx_rtp c)) (ip_id_step c) ip ip'"
    and cap: "length ip' \<le> cap"
  shows "\<exists>d'. rfc4362_receive_nhp d (drop 40 ip') cap = Done (Some ip', d') \<and> holds_packet d' i (nhp_advance c) ip'"
proof -
  have d: "describes (nhp_advance c) ip'" using nhp_advance_describes [of c ip ip'] n h by (simp add: holds_packet_def)
  have p: "plain_rtp_packet ip'" using n by (simp add: continues_def)
  have g: "decompressor_ok d" "context_table_get (dp_context_table d) (dp_cid d) = Done (Some i)"
    "context_table_entry (dp_context_table d) i = c" using h by (simp_all add: holds_packet_def)
  have c: "context_wf c" "ctx_cid c = 0" "\<not> ctx_large_cid c"
    using g contexts.get_good by (auto simp: decompressor_ok_def)
  note ok = decompressor_set_ok [OF g(1,2) nhp_advance_wf [OF c(1)]] decompressor_set_entry [OF g(1,2) nhp_advance_wf [OF c(1)]]
  have "holds_packet (decompressor_set d i (nhp_advance c)) i (nhp_advance c) ip'"
    using h ok c d by (simp add: holds_packet_def decompressor_set_def)
  moreover have "rfc4362_receive_nhp d (drop 40 ip') cap = Done (Some ip', decompressor_set d i (nhp_advance c))"
    using h build_rtp_packet_describes [OF p d cap] by (simp add: rfc4362_receive_nhp_def holds_packet_def Let_def)
  ultimately show ?thesis by blast
qed

lemma receive_stream_all:
  assumes "holds_packet d i c ip" and "continues_all (rtp_ts_stride (ctx_rtp c)) (ip_id_step c) ip ips"
    and "\<forall>p \<in> set ips. length p \<le> cap"
  shows "\<exists>d'. receive_stream d (map (drop 40) ips) cap = Done (map Some ips, d')"
  using assms
proof (induction ips arbitrary: d c ip)
  case (Cons ip' ips)
  then obtain d' where d': "rfc4362_receive_nhp d (drop 40 ip') cap = Done (Some ip', d')" "holds_packet d' i (nhp_advance c) ip'"
    using receive_nhp_next [OF Cons.prems(1), of ip' cap] by auto
  have "continues_all (rtp_ts_stride (ctx_rtp (nhp_advance c))) (ip_id_step (nhp_advance c)) ip' ips"
    using Cons.prems(2) by simp
  from Cons.IH [OF d'(2) this] Cons.prems(3) d'(1) show ?case by auto
qed simp

lemma decompress_holds:
  assumes ok: "decompressor_ok d" and dec: "decompress d pkt cap = Done (Some ip, d')" and lla: "dp_lla_enabled d"
    "can_emit_no_header_packet_for_flow (dp_lla_contract d) (dp_lla_flow d)"
  shows "\<exists>i c. holds_packet d' i c ip"
proof -
  have "pkt \<noteq> []" using dec by (auto simp: decompress_def)
  have "table_ok (dp_context_table d)" using ok by (simp add: decompressor_ok_def)
  then obtain i where g: "context_table_get (dp_context_table d) (dp_cid d) = Done (Some i)"
    using dec \<open>pkt \<noteq> []\<close> by (cases rule: get_cases [of _ "dp_cid d"]) (auto simp: decompress_def)
  note facts = entry_of_facts [OF ok g]
  obtain c n where c: "decode_header pkt (entry_of d i) = Done (c, n)" "ctx_ip_version c = 4"
      "build_rtp_packet_from_context cap c (drop n pkt) = Done ip" "d' = decompressor_set d i c"
    using dec by (auto simp: decompress_eq [OF g \<open>pkt \<noteq> []\<close>] split: res.splits if_splits)
  have wf: "context_wf c" "ctx_cid c = 0" "\<not> ctx_large_cid c" using decode_header_ok [OF facts(1) c(1)] facts by auto
  have "holds_packet d' i c ip"
    using decompressor_set_ok [OF ok g wf] decompressor_set_entry [OF ok g wf(1)] decode_header_established [OF c(1)]
      build_describes [OF c(3)] c(2,4) lla by (simp add: holds_packet_def decompressor_set_def)
  then show ?thesis by blast
qed

section \<open>Context checks\<close>

lemma emit_ccp_eq:
  assumes "cp_lla_enabled s" "can_emit_context_check_packet (cp_lla_contract s)"
    and "context_table_get (cp_context_table s) (cp_cid s) = Done (Some i)"
    and "lla_context_established (context_table_entry (cp_context_table s) i)" and "2 \<le> cap"
  shows "rfc4362_emit_ccp s cap =
    Done (Some [packet_type_ccp, 0x80 OR crc7 (context_crc_octets (context_table_entry (cp_context_table s) i))])"
  using assms by (simp add: rfc4362_emit_ccp_def context_crc7_eq write_context_check_packet_def Let_def)

lemma receive_ccp_eq:
  assumes "dp_lla_enabled d" "can_emit_context_check_packet (dp_lla_contract d)"
    and "context_table_get (dp_context_table d) (dp_cid d) = Done (Some j)"
    and "lla_context_established (context_table_entry (dp_context_table d) j)" and "crc AND 0x7F = crc"
  shows "rfc4362_receive_ccp d [packet_type_ccp, 0x80 OR crc] =
    Done (crc = crc7 (context_crc_octets (context_table_entry (dp_context_table d) j)))"
proof -
  have "(0x80 OR crc) AND 0x80 \<noteq> 0" "(0x80 OR crc) AND 0x7F = crc AND 0x7F" by (auto simp: byte_bits)
  then show ?thesis
    using assms by (simp add: rfc4362_receive_ccp_def read_context_check_packet_def context_crc7_eq Let_def packet_type_ccp_def)
qed

section \<open>An example\<close>

lemma compress_counts:
  assumes ok: "compressor_ok s" and c: "compress s ip cap = Done (Some out, s')"
  shows "cp_packet_count s' = cp_packet_count s + 1"
proof -
  have "table_ok (cp_context_table s)" using ok by (simp add: compressor_ok_def)
  then show ?thesis
  proof (cases rule: get_cases [of _ "cp_cid s"])
    case 1
    then show ?thesis using c by (simp add: compress_def split: if_splits)
  next
    case (2 i)
    then show ?thesis using c by (auto simp: compress_eq [OF ok 2] after_send_def Let_def split: if_splits)
  qed
qed

lemma build_plain:
  assumes b: "build_rtp_packet_from_context cap c payload = Done ip" and v: "rtp_vpxcc (ctx_rtp c) = 0x80"
    and f: "push_bit 5 (ctx_ipv4_flags c AND 0x07) \<in> {0, 0x40}"
  shows "plain_rtp_packet ip"
proof -
  define n where "n = (of_nat (length ip) :: u16)"
  define u where "u = (of_nat (20 + length payload) :: u16)"
  define csum where "csum = ipv4_checksum (ipv4_header_octets c n 0)"
  have len: "length ip = 40 + length payload" "length ip \<le> 0xFFFF"
    and ip: "ip = ipv4_header_octets c n csum @ udp_rtp_octets c u @ payload"
    using build_done [OF b] unfolding csum_def n_def u_def by blast+
  have u: "u = of_nat (length ip - 20)" unfolding u_def by (rule arg_cong [where f = of_nat]) (simp add: len(1))
  have "take 10 ip @ [0, 0] @ take 8 (drop 12 ip) = ipv4_header_octets c n 0"
    by (simp add: ip ipv4_header_octets_def be16_def be32_def)
  then have "csum = ipv4_checksum (take 10 ip @ [0, 0] @ take 8 (drop 12 ip))" by (simp only: csum_def)
  moreover have "load_be16 ip 10 = csum"
    by (simp add: ip ipv4_header_octets_def load_be16_def nth_append nth_Cons' be16_def of_be_octets)
  moreover have "load_be16 ip 2 = n" "load_be16 ip 24 = u"
    by (simp_all add: ip ipv4_header_octets_def udp_rtp_octets_def load_be16_def nth_append nth_Cons' be16_def of_be_octets)
  moreover have "ip ! 0 = 0x45" "ip ! 6 = push_bit 5 (ctx_ipv4_flags c AND 0x07)" "ip ! 7 = 0" "ip ! 9 = 17" "ip ! 28 = 0x80"
    using v by (simp_all add: ip ipv4_header_octets_def udp_rtp_octets_def nth_append nth_Cons' be16_def)
  ultimately show ?thesis using len f u unfolding plain_rtp_packet_def n_def by auto
qed

lemma next_packet_exists:
  fixes payload :: bytes
  assumes h: "holds_packet d i c ip" and p: "plain_rtp_packet ip" and l: "length payload \<le> 1000"
  shows "\<exists>ip'. continues (rtp_ts_stride (ctx_rtp c)) (ip_id_step c) ip ip' \<and> length ip' = 40 + length payload"
proof -
  let ?c = "nhp_advance c"
  obtain ip' where b: "build_rtp_packet_from_context 2000 ?c payload = Done ip'"
    using l by (simp add: build_rtp_packet_from_context_def Let_def put_all_def)
  have d: "describes c ip" "ctx_ip_version c = 4" using h by (simp_all add: holds_packet_def)
  have d': "describes ?c ip'" by (rule build_describes [OF b])
  have "plain_rtp_packet ip'" using build_plain [OF b] d p by (auto simp: plain_rtp_packet_def describes_def)
  moreover have "length ip' = 40 + length payload" using build_done [OF b] by blast
  ultimately have "continues (rtp_ts_stride (ctx_rtp c)) (ip_id_step c) ip ip'"
    using d d' unfolding describes_def continues_def by auto
  then show ?thesis using \<open>length ip' = 40 + length payload\<close> by blast
qed

text \<open>An assisting layer that offers everything, and a flow that qualifies.\<close>

definition full_contract :: assisting_layer_contract where
  "full_contract = \<lparr>lc_identifies_packet_types = True, lc_preserves_order = True, lc_reports_loss = True,
     lc_reports_residual_errors = True, lc_delivers_feedback = True, lc_protects_context_packets = True,
     lc_supports_context_synchronization = True, lc_supports_context_check = True, lc_supports_reliable_mode = True,
     lc_delivers_ack = True, lc_delivers_static_nack = True\<rparr>"

definition full_flow :: zero_byte_flow where
  "full_flow = \<lparr>zf_ipv4_udp_rtp = True, zf_udp_checksum_disabled = True, zf_rtp_sequence_increments_by_one = True,
     zf_compressor_observed_in_order = True, zf_synchronized_timing = True\<rparr>"

lemma full_gates:
  "can_emit_no_header_packet_for_flow full_contract full_flow" "can_emit_context_synchronization_packet full_contract"
  "can_emit_context_check_packet full_contract" "lla_runtime_contract_valid full_contract full_flow"
  by code_simp+

definition assisted_compressor :: "compressor \<Rightarrow> compressor" where
  "assisted_compressor s = snd (compressor_enable_rfc4362_lla s full_contract full_flow)"

definition assisted_decompressor :: "decompressor \<Rightarrow> decompressor" where
  "assisted_decompressor d = snd (decompressor_enable_rfc4362_lla d full_contract full_flow)"

lemma assisted_simps [simp]:
  "compressor_ok (assisted_compressor s) \<longleftrightarrow> compressor_ok s" "cp_lla_enabled (assisted_compressor s)"
  "cp_lla_contract (assisted_compressor s) = full_contract" "cp_context_table (assisted_compressor s) = cp_context_table s"
  "cp_cid (assisted_compressor s) = cp_cid s" "decompressor_ok (assisted_decompressor d) \<longleftrightarrow> decompressor_ok d"
  "dp_lla_enabled (assisted_decompressor d)" "dp_lla_contract (assisted_decompressor d) = full_contract"
  "dp_lla_flow (assisted_decompressor d) = full_flow" "dp_context_table (assisted_decompressor d) = dp_context_table d"
  "dp_cid (assisted_decompressor d) = dp_cid d"
  by (simp_all add: assisted_compressor_def assisted_decompressor_def compressor_enable_rfc4362_lla_def
      decompressor_enable_rfc4362_lla_def full_gates compressor_ok_def decompressor_ok_def)

lemma example_assisted:
  "\<exists>s d out d'. link 0 s d [(example_ip, out)] \<and> decompress (assisted_decompressor d) out 100 = Done (Some example_ip, d')"
proof -
  obtain s d out where l: "link 0 s d [(example_ip, out)]" using example_link [of 0] by (auto simp: is_small_def)
  have inv: "decompressor_ok d" "sent_frame 0 example_ip out" using link_inv [OF l] by auto
  have "legacy_rejects out"
    by (rule frame_not_legacy [OF inv(2) plain_capturable [OF example_plain]]) (simp_all add: example_ip_def load_be16_def of_be16_def)
  then show ?thesis
    using decompress_frame [of "assisted_decompressor d", OF _ _ example_plain _ inv(2), of 100] inv(1) link_cid [OF l] l
    by (auto simp: example_ip_def)
qed

lemma compress_long:
  assumes ok: "compressor_ok s" and c: "compress s ip cap = Done (Some out, s')"
  shows "3 \<le> length out"
  using sent_is_frame [OF ok c] by (auto simp: sent_frame_def ir_frame_def ir_head_def)

lemma example_established:
  "\<exists>s i. compressor_ok s \<and> cp_cid s = 0 \<and> context_table_get (cp_context_table s) (cp_cid s) = Done (Some i) \<and>
     lla_context_established (context_table_entry (cp_context_table s) i)"
proof -
  obtain s where s: "compressor_ok s" "cp_cid s = 0" "context_table_get (cp_context_table s) (cp_cid s) = Done (Some 0)"
      "context_table_entry (cp_context_table s) 0 = init_rtp_entry context_zero (cp_cid s) None"
    using fresh_compressor [of 0] by auto
  let ?s = "after_send s 0 example_ip"
  let ?c = "(sent_context s 0 example_ip)\<lparr>ctx_rohc_state := next_state (ctx_rohc_state (sent_context s 0 example_ip))\<rparr>"
  have "table_ok (cp_context_table s)" using s by (simp add: compressor_ok_def)
  from contexts.upd_frame [OF this s(3), of ?c]
  have e: "context_table_get (cp_context_table ?s) (cp_cid ?s) = Done (Some 0)" "context_table_entry (cp_context_table ?s) 0 = ?c"
    using sent_context_facts(1) [OF s(1,3)] by (simp_all add: after_send_def compressor_set_def)
  have "ctx_profile ?c = RTP" by (simp add: sent_context_def captured_def)
  moreover have "next_state st \<noteq> NoContext" for st by (simp add: next_state_def)
  ultimately have "lla_context_established ?c" by (simp add: lla_context_established_def)
  moreover have "compressor_ok ?s" "cp_cid ?s = 0"
    using after_send_ok [OF s(1,3)] s(2) by (simp_all add: after_send_def compressor_set_def)
  ultimately show ?thesis using e by metis
qed

section \<open>Properties\<close>

text \<open>
  C3. Headerless streams are reconstructed. Once an assisted decompressor has decompressed a packet \<open>ip\<close>, it
  rebuilds every stream of headerless packets that continues \<open>ip\<close>, octet by octet and of any length:
  the flow is the same, the sequence number grows by one, the timestamp by the stride and the IP-ID by one or
  zero as the context says, all modulo their width.
\<close>

theorem headerless_stream_reconstructed:
  assumes "decompressor_ok d" and "dp_lla_enabled d" and "can_emit_no_header_packet_for_flow (dp_lla_contract d) (dp_lla_flow d)"
    and "decompress d pkt cap = Done (Some ip, d')" and "context_table_get (dp_context_table d') (dp_cid d') = Done (Some i)"
    and "continues_all (rtp_ts_stride (ctx_rtp (context_table_entry (dp_context_table d') i)))
           (ip_id_step (context_table_entry (dp_context_table d') i)) ip ips" and "\<forall>p \<in> set ips. length p \<le> cap'"
  shows "\<exists>d''. receive_stream d' (map (drop 40) ips) cap' = Done (map Some ips, d'')"
proof -
  obtain c where h: "holds_packet d' i c ip" using decompress_holds [OF assms(1,4,2,3)] assms(5) by (auto simp: holds_packet_def)
  then have "context_table_entry (dp_context_table d') i = c" by (simp add: holds_packet_def)
  then show ?thesis using receive_stream_all [OF h] assms(6,7) by blast
qed

theorem headerless_stream_reconstructed_witness:
  "\<exists>d pkt d' ips d''. decompress d pkt 100 = Done (Some example_ip, d') \<and> length (hd ips) = 60 \<and>
     receive_stream d' (map (drop 40) ips) 100 = Done (map Some ips, d'')"
proof -
  obtain s d out d' where l: "link 0 s d [(example_ip, out)]"
      and dec: "decompress (assisted_decompressor d) out 100 = Done (Some example_ip, d')" using example_assisted by blast
  let ?d = "assisted_decompressor d"
  have ok: "decompressor_ok ?d" using link_inv [OF l] by simp
  have lla: "dp_lla_enabled ?d" "can_emit_no_header_packet_for_flow (dp_lla_contract ?d) (dp_lla_flow ?d)" by (simp_all add: full_gates)
  obtain i c where h: "holds_packet d' i c example_ip" using decompress_holds [OF ok dec lla] by blast
  then obtain ip' where n: "continues (rtp_ts_stride (ctx_rtp c)) (ip_id_step c) example_ip ip'" "length ip' = 60"
    using next_packet_exists [OF h example_plain, of "replicate 20 0"] by auto
  have e: "context_table_get (dp_context_table d') (dp_cid d') = Done (Some i)" "context_table_entry (dp_context_table d') i = c"
    using h by (simp_all add: holds_packet_def)
  have "\<exists>d''. receive_stream d' (map (drop 40) [ip']) 100 = Done (map Some [ip'], d'')"
    by (rule headerless_stream_reconstructed [OF ok lla dec e(1)]) (use e(2) n in auto)
  then show ?thesis using dec n(2) by (metis list.sel(1))
qed

text \<open>
  A context check compares the contexts. The CCP of a compressor is accepted by a decompressor
  exactly when the CRC-7 of both contexts agrees; in particular equal contexts pass, and contexts
  whose encodings differ in one octet pass only if the two octets differ by the pattern \<open>0xF3\<close>.
\<close>

theorem context_check_exact:
  assumes "cp_lla_enabled s" "can_emit_context_check_packet (cp_lla_contract s)"
    and "context_table_get (cp_context_table s) (cp_cid s) = Done (Some i)"
    and "lla_context_established (context_table_entry (cp_context_table s) i)" and "2 \<le> cap"
    and "dp_lla_enabled d" "can_emit_context_check_packet (dp_lla_contract d)"
    and "context_table_get (dp_context_table d) (dp_cid d) = Done (Some j)"
    and "lla_context_established (context_table_entry (dp_context_table d) j)"
    and "context_crc_octets (context_table_entry (cp_context_table s) i) = xs @ a # ys"
    and "context_crc_octets (context_table_entry (dp_context_table d) j) = xs @ b # ys"
  shows "\<exists>ccp. rfc4362_emit_ccp s cap = Done (Some ccp) \<and>
    rfc4362_receive_ccp d ccp = Done (a = b \<or> a XOR b = 0xF3)"
proof -
  show ?thesis
    using crc7_octet [of xs a ys b] emit_ccp_eq [OF assms(1-5)] receive_ccp_eq [OF assms(6-9), of "crc7 (xs @ a # ys)"] assms(10,11) by simp
qed

theorem context_check_exact_witness:
  "\<exists>s d ccp. rfc4362_emit_ccp s 2 = Done (Some ccp) \<and> rfc4362_receive_ccp d ccp = Done True"
proof -
  obtain s i where s: "compressor_ok s" "cp_cid s = 0" "context_table_get (cp_context_table s) (cp_cid s) = Done (Some i)"
      "lla_context_established (context_table_entry (cp_context_table s) i)" using example_established by blast
  let ?s = "assisted_compressor s"
  let ?d = "assisted_decompressor \<lparr>dp_cid = 0, dp_context_table = cp_context_table s, dp_lla_contract = no_contract,
    dp_lla_flow = no_flow, dp_lla_enabled = False\<rparr>"
  let ?o = "context_crc_octets (context_table_entry (cp_context_table s) i)"
  have "?o = [] @ hd ?o # tl ?o" by (simp add: context_crc_octets_def be16_def)
  then show ?thesis
    using context_check_exact [of ?s i 2 ?d i "[]" "hd ?o" "tl ?o" "hd ?o"] s by (auto simp: full_gates)
qed

text \<open>
  Assisted operations that fail leave their trace. When the output is too short for the CSP, \<open>rfc4362_emit_csp\<close>
  fails but the compressor has counted and captured the packet; when it is too short for the rebuilt packet,
  \<open>rfc4362_receive_nhp\<close> fails but the decompressor has advanced its context, so that no
  repetition of the call returns the packet.
\<close>

theorem assisted_failures_not_atomic:
  assumes "compressor_ok s" "cp_lla_enabled s" "can_emit_context_synchronization_packet (cp_lla_contract s)"
    and "compress s ip 512 = Done (Some out, s')" and "cap < 3 + length out"
    and "holds_packet d i c ip0" and "continues (rtp_ts_stride (ctx_rtp c)) (ip_id_step c) ip0 ip'" and "cap' < length ip'"
  shows "rfc4362_emit_csp s ip cap = Done (None, s') \<and> cp_packet_count s' = cp_packet_count s + 1 \<and>
    (\<exists>d'. rfc4362_receive_nhp d (drop 40 ip') cap' = Done (None, d') \<and>
      (\<forall>cap'' d''. rfc4362_receive_nhp d' (drop 40 ip') cap'' \<noteq> Done (Some ip', d'')))"
proof (intro conjI)
  show "rfc4362_emit_csp s ip cap = Done (None, s')"
    using assms(2-5) by (simp add: rfc4362_emit_csp_def write_context_synchronization_packet_def Let_def)
  show "cp_packet_count s' = cp_packet_count s + 1" by (rule compress_counts [OF assms(1,4)])
  let ?c = "nhp_advance c" and ?d = "decompressor_set d i (nhp_advance c)"
  have g: "decompressor_ok d" "context_table_get (dp_context_table d) (dp_cid d) = Done (Some i)"
    "context_table_entry (dp_context_table d) i = c" using assms(6) by (simp_all add: holds_packet_def)
  then have wf: "context_wf ?c" using contexts.get_good by (auto simp: decompressor_ok_def intro!: nhp_advance_wf)
  note e = decompressor_set_entry [OF g(1,2) wf]
  have len: "40 + length (drop 40 ip') = length ip'" using assms(7) by (simp add: continues_def plain_rtp_packet_def)
  have "build_rtp_packet_from_context cap' ?c (drop 40 ip') = Reject"
    using assms(8) unfolding build_rtp_packet_from_context_def Let_def len by simp
  then have r: "rfc4362_receive_nhp d (drop 40 ip') cap' = Done (None, ?d)"
    using assms(6) by (simp add: rfc4362_receive_nhp_def holds_packet_def Let_def)
  have no: "rfc4362_receive_nhp ?d (drop 40 ip') cap'' \<noteq> Done (Some ip', d'')" for cap'' d''
  proof
    assume "rfc4362_receive_nhp ?d (drop 40 ip') cap'' = Done (Some ip', d'')"
    then have "build_rtp_packet_from_context cap'' (nhp_advance ?c) (drop 40 ip') = Done ip'"
      using e by (auto simp: rfc4362_receive_nhp_def Let_def split: if_splits res.splits)
    then have "rtp_last_seq (ctx_rtp (nhp_advance ?c)) = load_be16 ip' 30"
      using build_describes [of cap'' "nhp_advance ?c"] by (simp add: describes_def)
    moreover have "load_be16 ip' 30 = rtp_last_seq (ctx_rtp c) + 1"
      using assms(6,7) by (simp add: holds_packet_def describes_def continues_def)
    ultimately show False by simp
  qed
  from r no show "\<exists>d'. rfc4362_receive_nhp d (drop 40 ip') cap' = Done (None, d') \<and>
      (\<forall>cap'' d''. rfc4362_receive_nhp d' (drop 40 ip') cap'' \<noteq> Done (Some ip', d''))" by blast
qed

theorem assisted_failures_not_atomic_witness:
  "\<exists>s s' d d' ip'. rfc4362_emit_csp s example_ip 5 = Done (None, s') \<and> cp_packet_count s' = cp_packet_count s + 1 \<and>
     rfc4362_receive_nhp d (drop 40 ip') 59 = Done (None, d') \<and>
     rfc4362_receive_nhp d' (drop 40 ip') 100 \<noteq> Done (Some ip', d')"
proof -
  obtain s where s: "compressor_ok s" "cp_cid s = 0" "context_table_get (cp_context_table s) (cp_cid s) = Done (Some 0)"
      "context_table_entry (cp_context_table s) 0 = init_rtp_entry context_zero (cp_cid s) None"
    using fresh_compressor [of 0] by auto
  let ?s = "assisted_compressor s"
  obtain sent s' where c: "compress ?s example_ip 512 = Done (Some sent, s')"
    using example_compress [of ?s 0 512] s by (auto simp: is_small_def)
  obtain s0 d out d' where l: "link 0 s0 d [(example_ip, out)]"
      and dec: "decompress (assisted_decompressor d) out 100 = Done (Some example_ip, d')" using example_assisted by blast
  have "decompressor_ok (assisted_decompressor d)" using link_inv [OF l] by simp
  then obtain i c where h: "holds_packet d' i c example_ip" using decompress_holds [OF _ dec] by (auto simp: full_gates)
  then obtain ip' where n: "continues (rtp_ts_stride (ctx_rtp c)) (ip_id_step c) example_ip ip'" "length ip' = 60"
    using next_packet_exists [OF h example_plain, of "replicate 20 0"] by auto
  have "5 < 3 + length sent" using compress_long [OF _ c] s by simp
  from assisted_failures_not_atomic [OF _ _ _ c this h n(1), of 59] n(2) s show ?thesis by (auto simp: full_gates) blast
qed

end
