(* ===== verification/FoPrivate.thy ===== *)
theory FoPrivate
  imports IrDecode IrEmit
begin

text \<open>
  The private first-order packets of the UDP, IP, ESP and UDP-Lite profiles: the emitters
  \<open>core/emit_udp_fo.hpp\<close>, \<open>emit_ip_fo.hpp\<close>, \<open>emit_esp_fo.hpp\<close>, \<open>emit_udplite_fo.hpp\<close>, the decoders of
  the same names, and \<open>core/private_udp_fo_crc.hpp\<close>, which binds their CRC-8 to the part of the context
  that the packets do not carry. The four emitters and the four decoders differ in the tag, the length, the
  fields and the checksum, which are the arguments of \<open>emit_fo\<close> and \<open>decode_fo\<close>.
\<close>

section \<open>The checksum over header and context\<close>

definition append_private_fo_u16 :: "bytes \<Rightarrow> u16 \<Rightarrow> (bytes \<Rightarrow> 'a res) \<Rightarrow> 'a res" where
  "append_private_fo_u16 data v k = put_all 256 data (be16 v) k"

definition append_private_fo_u32 :: "bytes \<Rightarrow> u32 \<Rightarrow> (bytes \<Rightarrow> 'a res) \<Rightarrow> 'a res" where
  "append_private_fo_u32 data v k = put_all 256 data (be32 v) k"

definition private_options_len :: "rohc_context \<Rightarrow> nat" where
  "private_options_len ctx = (if unat (ctx_ipv4_options_len ctx) \<le> 40 then unat (ctx_ipv4_options_len ctx) else 40)"

definition private_extension_len :: "rohc_context \<Rightarrow> nat" where
  "private_extension_len ctx = (if unat (ctx_ipv6_extension_len ctx) \<le> 128 then unat (ctx_ipv6_extension_len ctx) else 128)"

definition append_private_fo_ip_context :: "bytes \<Rightarrow> rohc_context \<Rightarrow> nat \<Rightarrow> bytes res" where
  \<comment> \<open>\<open>data[0 .. pos)\<close>\<close>
  "append_private_fo_ip_context header ctx profile_bytes =
     (let options_len = private_options_len ctx; extension_len = private_extension_len ctx;
          ip_context_len = (if ctx_ip_version ctx = 4 then 21 + options_len
                            else if ctx_ip_version ctx = 6 then 48 + extension_len else 8) in
      if profile_bytes > 256 \<or> ip_context_len > szsub 256 profile_bytes \<or>
         length header > szsub (szsub 256 profile_bytes) ip_context_len then Reject
      else put_all 256 [] header (\<lambda>d.
        append_private_fo_u16 d (profile_code (ctx_profile ctx)) (\<lambda>d.
        append_private_fo_u32 d (ctx_cid ctx) (\<lambda>d.
        put 256 d (if ctx_large_cid ctx then 1 else 0) (\<lambda>d.
        put 256 d (ctx_ip_version ctx) (\<lambda>d.
        if ctx_ip_version ctx = 4 then
          put 256 d (ctx_ipv4_tos ctx) (\<lambda>d. put 256 d (ctx_ipv4_ttl ctx) (\<lambda>d.
          put 256 d (ctx_ipv4_flags ctx) (\<lambda>d. put 256 d (ctx_ipv4_protocol ctx) (\<lambda>d.
          append_private_fo_u32 d (ctx_ipv4_saddr ctx) (\<lambda>d. append_private_fo_u32 d (ctx_ipv4_daddr ctx) (\<lambda>d.
          put 256 d (of_nat options_len) (\<lambda>d.
          copy_in (ctx_ipv4_options ctx) 0 options_len (\<lambda>v. put_all 256 d v Done))))))))
        else if ctx_ip_version ctx = 6 then
          put 256 d (ctx_ipv6_traffic_class ctx) (\<lambda>d. append_private_fo_u32 d (ctx_ipv6_flow_label ctx) (\<lambda>d.
          put 256 d (ctx_ipv6_next_header ctx) (\<lambda>d. put 256 d (ctx_ipv6_hop_limit ctx) (\<lambda>d.
          copy_in (ctx_ipv6_saddr ctx) 0 16 (\<lambda>v. put_all 256 d v (\<lambda>d.
          copy_in (ctx_ipv6_daddr ctx) 0 16 (\<lambda>v. put_all 256 d v (\<lambda>d.
          put 256 d (of_nat extension_len) (\<lambda>d.
          copy_in (ctx_ipv6_extensions ctx) 0 extension_len (\<lambda>v. put_all 256 d v Done))))))))))
        else Done d))))))"

definition private_crc8 :: "bytes res \<Rightarrow> (bytes \<Rightarrow> bytes res) \<Rightarrow> byte res" where
  \<comment> \<open>\<open>if(!append_private_fo_ip_context(...)) return 0U;\<close>, then the rest of the data and its CRC\<close>
  "private_crc8 data tail = (case data of Fault \<Rightarrow> Fault | Reject \<Rightarrow> Done 0
     | Done d \<Rightarrow> seq_res (tail d) (\<lambda>d. Done (crc8 d)))"

definition private_ip_fo_crc8 :: "bytes \<Rightarrow> rohc_context \<Rightarrow> byte res" where
  "private_ip_fo_crc8 header ctx = private_crc8 (append_private_fo_ip_context header ctx 0) Done"

definition private_udp_fo_crc8 :: "bytes \<Rightarrow> rohc_context \<Rightarrow> byte res" where
  "private_udp_fo_crc8 header ctx = private_crc8 (append_private_fo_ip_context header ctx 4) (\<lambda>d.
     append_private_fo_u16 d (ctx_udp_sport ctx) (\<lambda>d. append_private_fo_u16 d (ctx_udp_dport ctx) Done))"

definition private_udp_lite_fo_crc8 :: "bytes \<Rightarrow> rohc_context \<Rightarrow> byte res" where
  "private_udp_lite_fo_crc8 header ctx = private_udp_fo_crc8 header ctx"

definition private_esp_fo_crc8 :: "bytes \<Rightarrow> rohc_context \<Rightarrow> byte res" where
  "private_esp_fo_crc8 header ctx = private_crc8 (append_private_fo_ip_context header ctx 9) (\<lambda>d.
     append_private_fo_u32 d (ctx_esp_spi ctx) (\<lambda>d. append_private_fo_u32 d (ctx_esp_sequence ctx) (\<lambda>d.
     put 256 d (if ctx_legacy_esp_payload_includes_header ctx then 1 else 0) Done)))"

section \<open>Emitters\<close>

definition fo_header_len :: "nat \<Rightarrow> rohc_context \<Rightarrow> nat" where
  "fo_header_len base_len ctx = base_len + (if ctx_large_cid ctx then encoded_len (ctx_cid ctx) else 0)"

definition emit_fo :: "byte \<Rightarrow> nat \<Rightarrow> (rohc_context \<Rightarrow> bytes) \<Rightarrow> (bytes \<Rightarrow> rohc_context \<Rightarrow> byte res) \<Rightarrow>
    nat \<Rightarrow> rohc_context \<Rightarrow> bytes res" where
  \<comment> \<open>what the emitters share; the output starts zeroed, so the checksum sees zeros where nothing is written\<close>
  "emit_fo tag base_len flds crc cap ctx =
     (if \<not> is_valid_for_space (ctx_cid ctx) (ctx_large_cid ctx) then Reject
      else let header_len = fo_header_len base_len ctx in
        if cap < header_len then Reject
        else put cap [] tag (\<lambda>out.
          seq_res (emit_large_cid cap out ctx) (\<lambda>out.
          let crc_pos = length out in
          put cap out 0 (\<lambda>out. put_all cap out (flds ctx) (\<lambda>out.
          let out = take header_len (out @ replicate (cap - length out) 0) in
          seq_res (crc out ctx) (\<lambda>c. Done (out[crc_pos := c])))))))"

definition emit_udp_fo :: "nat \<Rightarrow> rohc_context \<Rightarrow> bytes res" where
  "emit_udp_fo = emit_fo 0x7A 6 (\<lambda>ctx. be16 (ctx_ipv4_id ctx) @ be16 (ctx_udp_check ctx)) private_udp_fo_crc8"

definition emit_ip_fo :: "nat \<Rightarrow> rohc_context \<Rightarrow> bytes res" where
  "emit_ip_fo = emit_fo 0x79 4 (\<lambda>ctx. be16 (ctx_ipv4_id ctx)) private_ip_fo_crc8"

definition emit_esp_fo :: "nat \<Rightarrow> rohc_context \<Rightarrow> bytes res" where
  "emit_esp_fo = emit_fo 0x78 4 (\<lambda>ctx. be16 (ctx_ipv4_id ctx)) private_esp_fo_crc8"

definition emit_udp_lite_fo :: "nat \<Rightarrow> rohc_context \<Rightarrow> bytes res" where
  "emit_udp_lite_fo = emit_fo 0x77 8
     (\<lambda>ctx. be16 (ctx_ipv4_id ctx) @ be16 (ctx_udp_length_or_coverage ctx) @ be16 (ctx_udp_check ctx)) private_udp_lite_fo_crc8"

section \<open>Decoders\<close>

definition decode_fo :: "byte \<Rightarrow> nat \<Rightarrow> (bytes \<Rightarrow> rohc_context \<Rightarrow> byte res) \<Rightarrow> bytes \<Rightarrow> rohc_context \<Rightarrow>
    (nat \<Rightarrow> rohc_context res) \<Rightarrow> (rohc_context \<times> nat) res" where
  \<comment> \<open>what the decoders share; \<open>k\<close> gets the position behind the checksum and stores the fields\<close>
  "decode_fo tag base_len crc inp ctx k =
     (let header_len = fo_header_len base_len ctx in
      if length inp < header_len then Reject
      else rd inp 0 (\<lambda>b. if b \<noteq> tag then Reject
      else seq_res (read_large_cid_if_present inp 1 ctx) (\<lambda>pos.
        if header_len > 16 then Reject
        else copy_in inp 0 header_len (\<lambda>crc_buf.
          rd crc_buf pos (\<lambda>received_crc.
          seq_res (crc (crc_buf[pos := 0]) ctx) (\<lambda>c.
          if c \<noteq> received_crc then Reject
          else seq_res (k (pos + 1)) (\<lambda>ctx. Done (ctx, header_len))))))))"

definition decode_udp_fo :: "bytes \<Rightarrow> rohc_context \<Rightarrow> (rohc_context \<times> nat) res" where
  "decode_udp_fo inp ctx = decode_fo 0x7A 6 private_udp_fo_crc8 inp ctx (\<lambda>pos.
     rd16 inp pos (\<lambda>ipid. rd16 inp (pos + 2) (\<lambda>check.
     Done (ctx\<lparr>ctx_ipv4_id := ipid, ctx_udp_check := check, ctx_profile := UDP, ctx_rohc_state := DynamicEstablished\<rparr>))))"

definition decode_ip_fo :: "bytes \<Rightarrow> rohc_context \<Rightarrow> (rohc_context \<times> nat) res" where
  "decode_ip_fo inp ctx = decode_fo 0x79 4 private_ip_fo_crc8 inp ctx (\<lambda>pos.
     rd16 inp pos (\<lambda>ipid.
     Done (ctx\<lparr>ctx_ipv4_id := ipid, ctx_profile := IP, ctx_rohc_state := DynamicEstablished\<rparr>)))"

definition decode_esp_fo :: "bytes \<Rightarrow> rohc_context \<Rightarrow> (rohc_context \<times> nat) res" where
  "decode_esp_fo inp ctx = decode_fo 0x78 4 private_esp_fo_crc8 inp ctx (\<lambda>pos.
     rd16 inp pos (\<lambda>ipid.
     Done (ctx\<lparr>ctx_ipv4_id := ipid, ctx_profile := ESP, ctx_rohc_state := DynamicEstablished\<rparr>)))"

definition decode_udp_lite_fo :: "bytes \<Rightarrow> rohc_context \<Rightarrow> (rohc_context \<times> nat) res" where
  "decode_udp_lite_fo inp ctx = decode_fo 0x77 8 private_udp_lite_fo_crc8 inp ctx (\<lambda>pos.
     rd16 inp pos (\<lambda>ipid. rd16 inp (pos + 2) (\<lambda>cov. rd16 inp (pos + 4) (\<lambda>check.
     Done (ctx\<lparr>ctx_ipv4_id := ipid, ctx_udp_length_or_coverage := cov, ctx_udp_check := check,
       ctx_profile := UDP_Lite, ctx_rohc_state := DynamicEstablished\<rparr>)))))"

section \<open>The context that the checksum covers\<close>

definition bound_ip :: "rohc_context \<Rightarrow> bytes" where
  "bound_ip c = be16 (profile_code (ctx_profile c)) @ be32 (ctx_cid c) @ [if ctx_large_cid c then 1 else 0, ctx_ip_version c] @
     (if ctx_ip_version c = 4 then
        [ctx_ipv4_tos c, ctx_ipv4_ttl c, ctx_ipv4_flags c, ctx_ipv4_protocol c] @ be32 (ctx_ipv4_saddr c) @ be32 (ctx_ipv4_daddr c) @
        [of_nat (private_options_len c)] @ take (private_options_len c) (ctx_ipv4_options c)
      else if ctx_ip_version c = 6 then
        [ctx_ipv6_traffic_class c] @ be32 (ctx_ipv6_flow_label c) @ [ctx_ipv6_next_header c, ctx_ipv6_hop_limit c] @
        ctx_ipv6_saddr c @ ctx_ipv6_daddr c @ [of_nat (private_extension_len c)] @ take (private_extension_len c) (ctx_ipv6_extensions c)
      else [])"

definition bound_udp :: "rohc_context \<Rightarrow> bytes" where
  "bound_udp c = bound_ip c @ be16 (ctx_udp_sport c) @ be16 (ctx_udp_dport c)"

definition bound_esp :: "rohc_context \<Rightarrow> bytes" where
  "bound_esp c = bound_ip c @ be32 (ctx_esp_spi c) @ be32 (ctx_esp_sequence c) @
     [if ctx_legacy_esp_payload_includes_header c then 1 else 0]"

lemma private_lens: "private_options_len c \<le> 40" "private_extension_len c \<le> 128"
  by (simp_all add: private_options_len_def private_extension_len_def)

lemma length_bound_ip: "context_wf c \<Longrightarrow> length (bound_ip c) \<le> 176"
  using private_lens [of c] by (simp add: bound_ip_def context_wf_def)

lemma append_private_fo_ip_context_eq:
  assumes "context_wf c" and "length h \<le> 16" and "n \<le> 9"
  shows "append_private_fo_ip_context h c n = Done (h @ bound_ip c)"
  using assms private_lens [of c]
  by (simp add: append_private_fo_ip_context_def bound_ip_def Let_def append_private_fo_u16_def append_private_fo_u32_def
      context_wf_def) (intro conjI impI; linarith)

lemma private_crcs:
  assumes "context_wf c" and "length h \<le> 16"
  shows "private_ip_fo_crc8 h c = Done (crc8 (h @ bound_ip c))" "private_udp_fo_crc8 h c = Done (crc8 (h @ bound_udp c))"
    "private_esp_fo_crc8 h c = Done (crc8 (h @ bound_esp c))"
  using append_private_fo_ip_context_eq [OF assms] length_bound_ip [OF assms(1)] assms(2)
  by (simp_all add: private_ip_fo_crc8_def private_udp_fo_crc8_def private_esp_fo_crc8_def private_crc8_def bound_udp_def
      bound_esp_def append_private_fo_u16_def append_private_fo_u32_def)

section \<open>The interface of a private form\<close>

definition fo_frame :: "byte \<Rightarrow> (rohc_context \<Rightarrow> bytes) \<Rightarrow> (rohc_context \<Rightarrow> bytes) \<Rightarrow> rohc_context \<Rightarrow> bytes" where
  "fo_frame tag flds bound c =
     [tag] @ large_cid_field c @ [crc8 ([tag] @ large_cid_field c @ [0] @ flds c @ bound c)] @ flds c"

text \<open>
  What the shared emitter and decoder rely on: a checksum that covers the header and an encoding of the bound
  context, and a reader that takes the fields back.
\<close>

locale private_form =
  fixes tag :: byte and base_len :: nat and flds bound :: "rohc_context \<Rightarrow> bytes" and crc :: "bytes \<Rightarrow> rohc_context \<Rightarrow> byte res"
    and reads :: "bytes \<Rightarrow> nat \<Rightarrow> rohc_context \<Rightarrow> rohc_context res" and store :: "rohc_context \<Rightarrow> rohc_context \<Rightarrow> rohc_context"
  assumes base: "4 \<le> base_len" "base_len \<le> 14"
    and length_flds: "length (flds c) = base_len - 2"
    and crc_covers: "context_wf c \<Longrightarrow> length h \<le> 16 \<Longrightarrow> crc h c = Done (crc8 (h @ bound c))"
    and reads_flds: "reads (pre @ flds c @ post) (length pre) d = Done (store d c)"
    and reads_safe: "context_wf d \<Longrightarrow> pos + (base_len - 2) \<le> length inp \<Longrightarrow> safe context_wf (reads inp pos d)"
begin

lemma length_frame: "length (fo_frame tag flds bound c) = fo_header_len base_len c"
  using base by (simp add: fo_frame_def fo_header_len_def length_large_cid_field length_flds)

lemma header_len_le: "fo_header_len base_len c \<le> 16"
  using base encoded_len_bounds [of "ctx_cid c"] by (simp add: fo_header_len_def)

lemma emit_frame:
  assumes "context_wf c"
  shows "emit_fo tag base_len flds crc cap c =
    (if is_valid_for_space (ctx_cid c) (ctx_large_cid c) \<and> fo_header_len base_len c \<le> cap
     then Done (fo_frame tag flds bound c) else Reject)"
proof (cases "is_valid_for_space (ctx_cid c) (ctx_large_cid c) \<and> fo_header_len base_len c \<le> cap")
  case True
  let ?h = "[tag] @ large_cid_field c @ [0] @ flds c"
  have hl: "length ?h = fo_header_len base_len c"
    using base by (simp add: fo_header_len_def length_large_cid_field length_flds)
  have cid: "emit_large_cid cap [tag] c = Done ([tag] @ large_cid_field c)"
    using True base by (auto simp: emit_large_cid_def large_cid_field_def write_large_eq is_valid_for_space_def fo_header_len_def)
  have "crc ?h c = Done (crc8 (?h @ bound c))" by (rule crc_covers [OF assms]) (use hl header_len_le [of c] in simp)
  moreover have "(?h)[Suc (length (large_cid_field c)) := x] = [tag] @ large_cid_field c @ [x] @ flds c" for x
    by (simp add: list_update_append)
  ultimately show ?thesis
    using True hl base cid by (simp add: emit_fo_def Let_def fo_frame_def)
qed (auto simp: emit_fo_def Let_def)

lemma cid_read:
  assumes "is_valid_for_space (ctx_cid c) (ctx_large_cid c)" "ctx_cid d = ctx_cid c" "ctx_large_cid d = ctx_large_cid c"
  shows "read_large_cid_if_present (fo_frame tag flds bound c @ payload) 1 d = Done (length ([tag] @ large_cid_field c))"
proof (cases "ctx_large_cid c")
  case True
  then have "read_large (sdvl (ctx_cid c) @ x) = Done (ctx_cid c, encoded_len (ctx_cid c))" for x
    using assms(1) by (intro read_sdvl) (simp add: is_valid_for_space_def)
  then show ?thesis using True assms by (simp add: read_large_cid_if_present_def fo_frame_def large_cid_field_def)
qed (use assms in \<open>simp add: read_large_cid_if_present_def large_cid_field_def\<close>)

lemma decode_frame:
  assumes wf: "context_wf d" and v: "is_valid_for_space (ctx_cid c) (ctx_large_cid c)"
    and same: "ctx_cid d = ctx_cid c" "ctx_large_cid d = ctx_large_cid c"
  shows "decode_fo tag base_len crc (fo_frame tag flds bound c @ payload) d (\<lambda>pos. reads (fo_frame tag flds bound c @ payload) pos d) =
    (if crc8 ([tag] @ large_cid_field c @ [0] @ flds c @ bound d) = crc8 ([tag] @ large_cid_field c @ [0] @ flds c @ bound c)
     then Done (store d c, length (fo_frame tag flds bound c)) else Reject)"
proof -
  define pre where "pre = [tag] @ large_cid_field c"
  let ?f = "fo_frame tag flds bound c"
  have hl: "fo_header_len base_len d = length ?f" using length_frame [of c] same by (simp add: fo_header_len_def)
  have split: "?f @ payload = (pre @ [crc8 (pre @ [0] @ flds c @ bound c)]) @ flds c @ payload"
    by (simp add: fo_frame_def pre_def)
  have l: "length ?f = length pre + 1 + (base_len - 2)" by (simp add: fo_frame_def pre_def length_flds)
  have r: "reads (?f @ payload) (length pre + 1) d = Done (store d c)"
    unfolding split using reads_flds [of "pre @ [crc8 (pre @ [0] @ flds c @ bound c)]"] by simp
  have p: "?f ! length pre = crc8 (pre @ [0] @ flds c @ bound c)" "?f[length pre := 0] = pre @ [0] @ flds c"
    by (simp_all add: fo_frame_def pre_def list_update_append nth_append)
  have k: "crc (pre @ [0] @ flds c) d = Done (crc8 ((pre @ [0] @ flds c) @ bound d))"
    by (rule crc_covers [OF wf]) (use header_len_le [of d] hl l base in \<open>simp add: length_flds\<close>)
  have h0: "(?f @ payload) ! 0 = tag" "?f \<noteq> []" by (simp_all add: fo_frame_def)
  have "\<not> length ?f > 16" using header_len_le [of d] hl by simp
  then have "decode_fo tag base_len crc (?f @ payload) d (\<lambda>pos. reads (?f @ payload) pos d) =
      (if crc8 (pre @ [0] @ flds c @ bound d) = crc8 (pre @ [0] @ flds c @ bound c) then Done (store d c, length ?f) else Reject)"
    using h0 l k p r cid_read [OF v same, of payload, folded pre_def] by (auto simp: decode_fo_def Let_def hl nth_append)
  then show ?thesis by (simp add: pre_def)
qed

lemma roundtrip:
  assumes "context_wf d" "is_valid_for_space (ctx_cid c) (ctx_large_cid c)" "ctx_cid d = ctx_cid c" "ctx_large_cid d = ctx_large_cid c"
    and "bound d = bound c"
  shows "decode_fo tag base_len crc (fo_frame tag flds bound c @ payload) d (\<lambda>pos. reads (fo_frame tag flds bound c @ payload) pos d) =
    Done (store d c, length (fo_frame tag flds bound c))"
  using decode_frame [OF assms(1-4)] assms(5) by simp

lemma stale_rejected:
  assumes "context_wf d" "is_valid_for_space (ctx_cid c) (ctx_large_cid c)" "ctx_cid d = ctx_cid c" "ctx_large_cid d = ctx_large_cid c"
    and "bound c = xs @ a # ys" "bound d = xs @ b # ys" "a \<noteq> b"
  shows "decode_fo tag base_len crc (fo_frame tag flds bound c @ payload) d (\<lambda>pos. reads (fo_frame tag flds bound c @ payload) pos d) = Reject"
proof -
  let ?h = "[tag] @ large_cid_field c @ [0] @ flds c"
  have "crc8 ((?h @ xs) @ b # ys) \<noteq> crc8 ((?h @ xs) @ a # ys)" using assms(7) crc8_octet by metis
  then show ?thesis using decode_frame [OF assms(1-4)] assms(5,6) by simp
qed

lemma decode_safe:
  assumes wf: "context_wf d"
  shows "safe (\<lambda>(c, n). context_wf c \<and> n \<le> length inp) (decode_fo tag base_len crc inp d (\<lambda>pos. reads inp pos d))"
proof (cases "fo_header_len base_len d \<le> length inp \<and> inp ! 0 = tag")
  case True
  let ?n = "fo_header_len base_len d"
  have n: "0 < ?n" "?n \<le> 16" using base header_len_le [of d] by (simp_all add: fo_header_len_def)
  then have ne: "0 < length inp" using True by linarith
  show ?thesis
  proof (cases "read_large_cid_if_present inp 1 d")
    case (Done pos)
    have pos: "pos + 1 + (base_len - 2) = ?n"
      using Done base read_large_inv
      by (auto simp: read_large_cid_if_present_def fo_header_len_def view_def seq_res_eq_Done split: if_splits)
        (metis append_eq_conv_conj length_sdvl length_take min.absorb2)
    then have r: "safe context_wf (reads inp (pos + 1) d)" by (intro reads_safe [OF wf]) (use True in simp)
    have "safe (\<lambda>_. True) (crc x d)" if "length x \<le> 16" for x using crc_covers [OF wf that] by simp
    moreover have "pos < ?n" using pos base by linarith
    ultimately show ?thesis
      using True n ne Done r crc_covers [OF wf, of "(take ?n inp)[pos := 0]"]
      by (cases "reads inp (pos + 1) d") (auto simp: decode_fo_def Let_def)
  next
    case Fault
    then show ?thesis using ne read_large_safe by (auto simp: read_large_cid_if_present_def seq_res_eq_Fault split: if_splits)
  qed (use True ne in \<open>simp add: decode_fo_def Let_def\<close>)
qed (use base in \<open>auto simp: decode_fo_def Let_def rd_def fo_header_len_def\<close>)

end

section \<open>The four forms\<close>

lemma rd16_be16:
  "rd16 (pre @ be16 v @ post) (length pre) k = k v"
  "rd16 (pre @ be16 v @ be16 w @ post) (Suc (Suc (length pre))) k = k w"
  "rd16 (pre @ be16 v @ be16 w @ be16 x @ post) (length pre + 4) k = k x"
  by (simp_all add: rd16_def be16_def nth_append of_be16_be16 [unfolded be16_def, simplified])

abbreviation stored_ip :: "profile \<Rightarrow> rohc_context \<Rightarrow> rohc_context \<Rightarrow> rohc_context" where
  "stored_ip pr d c \<equiv> d\<lparr>ctx_ipv4_id := ctx_ipv4_id c, ctx_profile := pr, ctx_rohc_state := DynamicEstablished\<rparr>"

abbreviation stored_udp :: "rohc_context \<Rightarrow> rohc_context \<Rightarrow> rohc_context" where
  "stored_udp d c \<equiv> (stored_ip UDP d c)\<lparr>ctx_udp_check := ctx_udp_check c\<rparr>"

abbreviation stored_udp_lite :: "rohc_context \<Rightarrow> rohc_context \<Rightarrow> rohc_context" where
  "stored_udp_lite d c \<equiv> (stored_ip UDP_Lite d c)\<lparr>ctx_udp_length_or_coverage := ctx_udp_length_or_coverage c,
     ctx_udp_check := ctx_udp_check c\<rparr>"

lemma safe_rd16_fo: "i + 1 < length inp \<Longrightarrow> (\<And>v. safe P (k v)) \<Longrightarrow> safe P (rd16 inp i k)"
  by (simp add: rd16_def)

interpretation udp_fo: private_form "0x7A" 6 "\<lambda>c. be16 (ctx_ipv4_id c) @ be16 (ctx_udp_check c)" bound_udp private_udp_fo_crc8
  "\<lambda>inp pos ctx. rd16 inp pos (\<lambda>ipid. rd16 inp (pos + 2) (\<lambda>check.
     Done (ctx\<lparr>ctx_ipv4_id := ipid, ctx_udp_check := check, ctx_profile := UDP, ctx_rohc_state := DynamicEstablished\<rparr>)))" stored_udp
  by unfold_locales (simp_all add: private_crcs rd16_be16 safe_rd16_fo)

interpretation ip_fo: private_form "0x79" 4 "\<lambda>c. be16 (ctx_ipv4_id c)" bound_ip private_ip_fo_crc8
  "\<lambda>inp pos ctx. rd16 inp pos (\<lambda>ipid. Done (ctx\<lparr>ctx_ipv4_id := ipid, ctx_profile := IP, ctx_rohc_state := DynamicEstablished\<rparr>))"
  "stored_ip IP"
  by unfold_locales (simp_all add: private_crcs rd16_be16 safe_rd16_fo)

interpretation esp_fo: private_form "0x78" 4 "\<lambda>c. be16 (ctx_ipv4_id c)" bound_esp private_esp_fo_crc8
  "\<lambda>inp pos ctx. rd16 inp pos (\<lambda>ipid. Done (ctx\<lparr>ctx_ipv4_id := ipid, ctx_profile := ESP, ctx_rohc_state := DynamicEstablished\<rparr>))"
  "stored_ip ESP"
  by unfold_locales (simp_all add: private_crcs rd16_be16 safe_rd16_fo)

interpretation udp_lite_fo: private_form "0x77" 8
  "\<lambda>c. be16 (ctx_ipv4_id c) @ be16 (ctx_udp_length_or_coverage c) @ be16 (ctx_udp_check c)" bound_udp private_udp_lite_fo_crc8
  "\<lambda>inp pos ctx. rd16 inp pos (\<lambda>ipid. rd16 inp (pos + 2) (\<lambda>cov. rd16 inp (pos + 4) (\<lambda>check.
     Done (ctx\<lparr>ctx_ipv4_id := ipid, ctx_udp_length_or_coverage := cov, ctx_udp_check := check,
       ctx_profile := UDP_Lite, ctx_rohc_state := DynamicEstablished\<rparr>))))" stored_udp_lite
  by unfold_locales (simp_all add: private_crcs private_udp_lite_fo_crc8_def rd16_be16 safe_rd16_fo)

lemmas fo_emitters = udp_fo.emit_frame [folded emit_udp_fo_def] ip_fo.emit_frame [folded emit_ip_fo_def]
  esp_fo.emit_frame [folded emit_esp_fo_def] udp_lite_fo.emit_frame [folded emit_udp_lite_fo_def]

lemmas fo_roundtrips = udp_fo.roundtrip [folded decode_udp_fo_def] ip_fo.roundtrip [folded decode_ip_fo_def]
  esp_fo.roundtrip [folded decode_esp_fo_def] udp_lite_fo.roundtrip [folded decode_udp_lite_fo_def]

lemmas fo_stale = udp_fo.stale_rejected [folded decode_udp_fo_def] ip_fo.stale_rejected [folded decode_ip_fo_def]
  esp_fo.stale_rejected [folded decode_esp_fo_def] udp_lite_fo.stale_rejected [folded decode_udp_lite_fo_def]

lemmas fo_safe = udp_fo.decode_safe [folded decode_udp_fo_def] ip_fo.decode_safe [folded decode_ip_fo_def]
  esp_fo.decode_safe [folded decode_esp_fo_def] udp_lite_fo.decode_safe [folded decode_udp_lite_fo_def]

section \<open>Properties\<close>

definition cid_ok :: "rohc_context \<Rightarrow> bool" where
  "cid_ok c \<longleftrightarrow> ctx_cid c \<le> (if ctx_large_cid c then 0x3FFF else 15)"

lemma cid_ok_valid: "cid_ok c = is_valid_for_space (ctx_cid c) (ctx_large_cid c)"
  by (simp add: cid_ok_def is_valid_for_space_def is_small_def large_cid_max_def small_cid_max_def)

text \<open>
  C23. The private first-order packets are delivered to their own context. Whatever payload follows, the packet that an
  emitter of the UDP, IP, ESP or UDP-Lite profile emits for a context restores the fields it carries in every
  decoder context with the same CID and the same bound part: profile, CID, IP header fields, options or
  extensions, ports or security association. Each emitter succeeds exactly when the CID is at most 15, or 16383 in the large CID space, and
  the output has room, and rejects otherwise.
\<close>

theorem private_fo_roundtrip:
  assumes "context_wf c" "context_wf d" "ctx_cid d = ctx_cid c" "ctx_large_cid d = ctx_large_cid c"
  shows "(bound_udp d = bound_udp c \<longrightarrow> seq_res (emit_udp_fo cap c) (\<lambda>out. decode_udp_fo (out @ payload) d) =
      (if cid_ok c \<and> fo_header_len 6 c \<le> cap then Done (stored_udp d c, fo_header_len 6 c) else Reject)) \<and>
    (bound_ip d = bound_ip c \<longrightarrow> seq_res (emit_ip_fo cap c) (\<lambda>out. decode_ip_fo (out @ payload) d) =
      (if cid_ok c \<and> fo_header_len 4 c \<le> cap then Done (stored_ip IP d c, fo_header_len 4 c) else Reject)) \<and>
    (bound_esp d = bound_esp c \<longrightarrow> seq_res (emit_esp_fo cap c) (\<lambda>out. decode_esp_fo (out @ payload) d) =
      (if cid_ok c \<and> fo_header_len 4 c \<le> cap then Done (stored_ip ESP d c, fo_header_len 4 c) else Reject)) \<and>
    (bound_udp d = bound_udp c \<longrightarrow> seq_res (emit_udp_lite_fo cap c) (\<lambda>out. decode_udp_lite_fo (out @ payload) d) =
      (if cid_ok c \<and> fo_header_len 8 c \<le> cap then Done (stored_udp_lite d c, fo_header_len 8 c) else Reject)) \<and>
    ((\<exists>out. emit_udp_fo cap c = Done out) \<longleftrightarrow> cid_ok c \<and> fo_header_len 6 c \<le> cap) \<and>
    ((\<exists>out. emit_ip_fo cap c = Done out) \<longleftrightarrow> cid_ok c \<and> fo_header_len 4 c \<le> cap) \<and>
    ((\<exists>out. emit_esp_fo cap c = Done out) \<longleftrightarrow> cid_ok c \<and> fo_header_len 4 c \<le> cap) \<and>
    ((\<exists>out. emit_udp_lite_fo cap c = Done out) \<longleftrightarrow> cid_ok c \<and> fo_header_len 8 c \<le> cap)"
  using assms
  by (simp add: cid_ok_valid fo_emitters fo_roundtrips udp_fo.length_frame ip_fo.length_frame esp_fo.length_frame udp_lite_fo.length_frame)

theorem private_fo_roundtrip_witness:
  "seq_res (emit_udp_fo 20 (context_zero\<lparr>ctx_profile := UDP, ctx_ipv4_id := 7, ctx_udp_check := 0x1234\<rparr>))
     (\<lambda>out. decode_udp_fo (out @ [1, 2, 3]) (context_zero\<lparr>ctx_profile := UDP\<rparr>)) =
   Done (context_zero\<lparr>ctx_profile := UDP, ctx_ipv4_id := 7, ctx_udp_check := 0x1234, ctx_rohc_state := DynamicEstablished\<rparr>, 6)"
proof -
  let ?d = "context_zero\<lparr>ctx_profile := UDP\<rparr>"
  let ?c = "?d\<lparr>ctx_ipv4_id := 7, ctx_udp_check := 0x1234\<rparr>"
  have "context_wf ?d" "context_wf ?c" by simp_all
  moreover have "bound_udp ?d = bound_udp ?c" by (simp add: bound_udp_def bound_ip_def private_options_len_def private_extension_len_def)
  moreover have "cid_ok ?c" "\<not> ctx_large_cid ?c" by (simp_all add: context_zero_def cid_ok_def)
  ultimately show ?thesis using private_fo_roundtrip [of ?c ?d 20 "[1, 2, 3]"] by (simp add: fo_header_len_def)
qed

text \<open>
  C24. A private first-order packet does not authenticate against a stale context. If the bound parts of the emitting and the
  decoding context differ in a single octet, for instance in the TTL, in the protocol or in one octet of an address or a port,
  the packet is rejected; this is what the binding of the CRC-8 to the context is for. The decoders
  read nothing outside their input, whatever octets it holds, and keep the context well formed.
\<close>

theorem private_fo_stale_context_rejected:
  assumes "context_wf c" "context_wf d" "a \<noteq> b"
    and "ctx_cid d = ctx_cid c" "ctx_large_cid d = ctx_large_cid c"
  shows "(emit_udp_fo cap c = Done out \<and> bound_udp c = xs @ a # ys \<and> bound_udp d = xs @ b # ys \<longrightarrow>
       decode_udp_fo (out @ payload) d = Reject) \<and>
    (emit_ip_fo cap c = Done out \<and> bound_ip c = xs @ a # ys \<and> bound_ip d = xs @ b # ys \<longrightarrow>
       decode_ip_fo (out @ payload) d = Reject) \<and>
    (emit_esp_fo cap c = Done out \<and> bound_esp c = xs @ a # ys \<and> bound_esp d = xs @ b # ys \<longrightarrow>
       decode_esp_fo (out @ payload) d = Reject) \<and>
    (emit_udp_lite_fo cap c = Done out \<and> bound_udp c = xs @ a # ys \<and> bound_udp d = xs @ b # ys \<longrightarrow>
       decode_udp_lite_fo (out @ payload) d = Reject) \<and>
    (\<forall>inp. decode_udp_fo inp d \<noteq> Fault \<and> decode_ip_fo inp d \<noteq> Fault \<and> decode_esp_fo inp d \<noteq> Fault \<and> decode_udp_lite_fo inp d \<noteq> Fault)"
proof -
  note safe = fo_safe [OF assms(2), THEN safe_not_Fault]
  show ?thesis
    using assms fo_stale [OF assms(2) _ assms(4,5) _ _ assms(3)] safe by (auto simp: fo_emitters split: if_splits)
qed

theorem private_fo_stale_context_rejected_witness:
  "\<exists>out. emit_ip_fo 20 (context_zero\<lparr>ctx_profile := IP, ctx_ipv4_ttl := 64\<rparr>) = Done out \<and>
     decode_ip_fo (out @ [9]) (context_zero\<lparr>ctx_profile := IP, ctx_ipv4_ttl := 63\<rparr>) = Reject"
proof -
  let ?c = "context_zero\<lparr>ctx_profile := IP, ctx_ipv4_ttl := 64\<rparr>" and ?d = "context_zero\<lparr>ctx_profile := IP, ctx_ipv4_ttl := 63\<rparr>"
  have "is_valid_for_space (ctx_cid ?c) (ctx_large_cid ?c)" "fo_header_len 4 ?c \<le> 20"
    by (simp_all add: context_zero_def is_valid_for_space_def is_small_def fo_header_len_def)
  moreover have "context_wf ?c" "context_wf ?d" by simp_all
  ultimately obtain out where out: "emit_ip_fo 20 ?c = Done out" by (simp add: fo_emitters)
  have b: "bound_ip ?c = take 9 (bound_ip ?c) @ 64 # drop 10 (bound_ip ?c)" "bound_ip ?d = take 9 (bound_ip ?c) @ 63 # drop 10 (bound_ip ?c)"
    by (simp_all add: bound_ip_def context_zero_def profile_code_def be16_def be32_def private_options_len_def)
  have "context_wf ?c" "context_wf ?d" "(64 :: byte) \<noteq> 63" by simp_all
  from private_fo_stale_context_rejected [OF this, of 20 out "take 9 (bound_ip ?c)" "drop 10 (bound_ip ?c)" "[9]"] b out
  show ?thesis by auto
qed

end
