(* ===== verification/FoRtp.thy ===== *)
theory FoRtp
  imports IrDecode IrEmit Bits
begin

text \<open>
  The private first-order packet of the RTP profile: \<open>core/emit_rtp_fo.hpp\<close> and \<open>core/decode_fo.hpp\<close>. Unlike
  the other emitters, \<open>emit_rtp_fo\<close> writes bits into the caller's memory, and with \<open>*out_len == 0\<close> it neither checks
  nor clears it, so the model takes the octets of that memory and the value of \<open>*out_len\<close> apart.
\<close>

section \<open>Model\<close>

definition rtp_fo_cid :: "nat \<Rightarrow> bit_writer \<Rightarrow> rohc_context \<Rightarrow> bit_writer res" where
  \<comment> \<open>the large CID from octet 1 on; \<open>lim\<close> is the end of the output\<close>
  "rtp_fo_cid lim bw ctx =
     (if ctx_large_cid ctx then
        seq_res (write_large lim (take 1 (bw_buf bw)) (ctx_cid ctx)) (\<lambda>front.
          if length front \<le> length (bw_buf bw)
          then Done (bw\<lparr>bw_buf := front @ drop (length front) (bw_buf bw), bw_bitpos := (1 + encoded_len (ctx_cid ctx)) * 8\<rparr>)
          else Fault)
      else Done bw)"

definition emit_rtp_fo :: "bytes \<Rightarrow> nat \<Rightarrow> rohc_context \<Rightarrow> bytes res" where
  \<comment> \<open>\<open>buf\<close> is the memory that \<open>out\<close> points to, \<open>capacity\<close> the value of \<open>*out_len\<close>\<close>
  "emit_rtp_fo buf capacity ctx =
     (if \<not> is_valid_for_space (ctx_cid ctx) (ctx_large_cid ctx) then Reject
      else let cid_len = (if ctx_large_cid ctx then encoded_len (ctx_cid ctx) else 0); required_len = 5 + cid_len in
        if capacity \<noteq> 0 \<and> capacity < required_len then Reject
        else if capacity > length buf then Fault
        else let buf = replicate capacity 0 @ drop capacity buf in
          seq_res (write_fields \<lparr>bw_buf = buf, bw_bitpos = 0\<rparr>
            [(0, 1), (0, 1), (if ctx_large_cid ctx then 0 else ctx_cid ctx AND 0xF, 4)]) (\<lambda>bw.
          seq_res (rtp_fo_cid (if capacity = 0 then required_len else capacity) bw ctx) (\<lambda>bw.
          seq_res (write_fields bw
            [(6, 6), (encode_field_lsb RtpSequence (ucast (rtp_last_seq (ctx_rtp ctx))) 6, 6),
             (encode_field_lsb RtpTimestamp
                (ts_scaled_value (scale_timestamp (rtp_last_ts (ctx_rtp ctx)) (rtp_ts_stride (ctx_rtp ctx)))) 8, 8)]) (\<lambda>bw.
          let payload_bytes = (bw_bitpos bw + 7) div 8 in
          crc_over crc7 (bw_buf bw) payload_bytes (\<lambda>crc.
          seq_res (write_bits (bw\<lparr>bw_bitpos := payload_bytes * 8\<rparr>) (ucast crc) 7) (\<lambda>bw.
          Done (take ((bw_bitpos bw + 7) div 8) (bw_buf bw))))))))"

definition fo_timestamp :: "rtp_context \<Rightarrow> u16 \<Rightarrow> u32 \<Rightarrow> u32 res" where
  "fo_timestamp r seq ts_lsb =
     (if rtp_timer_based_ts r then
        seq_res (decode_timer_scaled_lsb ts_lsb 8 (rtp_last_ts r) (rtp_ts_stride r) (rtp_timer_elapsed_ticks r) (rtp_ts_residue r))
          (\<lambda>decoded. case decoded of None \<Rightarrow> Reject | Some ts \<Rightarrow> Done ts)
      else
        let seq_delta = seq - rtp_last_seq r; predicted_timestamp = rtp_last_ts r + rtp_ts_stride r * ucast seq_delta in
        decode_scaled_lsb_with_timestamp_prediction ts_lsb 8 predicted_timestamp (rtp_last_ts r) (rtp_ts_stride r) (rtp_ts_residue r))"

definition fo_reconstruct :: "rohc_context \<Rightarrow> nat \<Rightarrow> u16 \<Rightarrow> u32 \<Rightarrow> rohc_context res" where
  "fo_reconstruct ctx k seq_lsb ts_lsb =
     (let r = ctx_rtp ctx; previous_seq = rtp_last_seq r;
          seq = ucast (decode_field_lsb RtpSequence (ucast seq_lsb) (ucast previous_seq) k) :: u16 in
      seq_res (fo_timestamp r seq ts_lsb) (\<lambda>ts.
        let r = r\<lparr>rtp_seq_window := lsb_update (rtp_seq_window r) seq, rtp_ts_window := lsb_update (rtp_ts_window r) ts\<rparr>;
            ctx = (if ctx_ip_version ctx = 4 \<and> ctx_ipv4_id_sequential ctx
                   then ctx\<lparr>ctx_ipv4_id := ctx_ipv4_id ctx + (seq - previous_seq)\<rparr> else ctx)
        in Done (ctx\<lparr>ctx_rtp := r\<lparr>rtp_last_seq := seq, rtp_last_ts := ts\<rparr>\<rparr>)))"

definition decode_fo_rtp_body :: "bytes \<Rightarrow> rohc_context \<Rightarrow> bit_reader \<Rightarrow> (rohc_context \<times> nat) res" where
  \<comment> \<open>the statements behind the CID\<close>
  "decode_fo_rtp_body inp ctx br =
     seq_res (read_bits br 6) (\<lambda>(k, br).
     if \<not> br_valid br \<or> k > 16 then Reject
     else seq_res (read_bits br (unat k)) (\<lambda>(seq_lsb, br).
     seq_res (read_bits br 8) (\<lambda>(ts_lsb, br).
     if \<not> br_valid br then Reject
     else let payload_bytes = (br_bitpos br + 7) div 8 in
       if payload_bytes > length inp then Reject
       else seq_res (read_bits (br\<lparr>br_bitpos := payload_bytes * 8\<rparr>) 7) (\<lambda>(_, br).
         if \<not> br_valid br then Reject
         else let total_bits = br_bitpos br; total_bytes = (total_bits + 7) div 8 in
           if total_bytes > length inp then Reject
           else seq_res (validate_crc7_bits inp total_bits) (\<lambda>ok.
             guard ok (seq_res (fo_reconstruct ctx (unat k) (ucast seq_lsb) ts_lsb) (\<lambda>ctx. Done (ctx, total_bytes))))))))"

definition decode_fo_rtp :: "bytes \<Rightarrow> rohc_context \<Rightarrow> (rohc_context \<times> nat) res" where
  \<comment> \<open>\<open>seq_out\<close> and \<open>ts_out\<close> are \<open>rtp_last_seq\<close> and \<open>rtp_last_ts\<close> of the result\<close>
  "decode_fo_rtp inp ctx =
     (if length inp = 0 then Reject
      else seq_res (read_bits (bit_reader_bounded inp (length inp)) 1) (\<lambda>(indicator, br).
      if indicator \<noteq> 0 \<or> \<not> br_valid br then Reject
      else seq_res (read_bits br 1) (\<lambda>(_, br).
      seq_res (read_bits br 4) (\<lambda>(embedded_cid, br).
      if \<not> br_valid br then Reject
      else if ctx_large_cid ctx then
        if embedded_cid \<noteq> 0 then Reject
        else view inp 1 (\<lambda>p. seq_res (read_large p) (\<lambda>(wire_cid, cid_len).
          if wire_cid \<noteq> ctx_cid ctx then Reject
          else if cid_len > szsub (length inp) 1 then Reject
          else decode_fo_rtp_body inp ctx (br\<lparr>br_bitpos := (1 + cid_len) * 8\<rparr>)))
      else if embedded_cid \<noteq> ctx_cid ctx then Reject
      else decode_fo_rtp_body inp ctx br))))"

section \<open>The decoder stays in bounds\<close>

definition within :: "bytes \<Rightarrow> bit_reader \<Rightarrow> bool" where
  "within inp br \<longleftrightarrow> br_buf br = inp \<and> bit_len br \<le> 8 * length inp"

lemma within_bounded: "within inp (bit_reader_bounded inp (length inp))"
  by (auto simp: within_def bit_reader_bounded_def)

lemma within_moved [simp]: "within inp (br\<lparr>br_bitpos := p\<rparr>) = within inp br"
  by (simp add: within_def)

lemma read_bits_safe:
  assumes "within inp br"
  shows "safe (\<lambda>(v, br'). within inp br' \<and> (br_valid br' \<longrightarrow> br_bitpos br' \<le> 8 * length inp)) (read_bits br n)"
proof (cases "n > 32 \<or> \<not> can_read br n")
  case False
  then have "br_bitpos br + n \<le> 8 * length inp" using assms by (auto simp: can_read_def within_def)
  moreover have "br_buf br = inp" using assms by (simp add: within_def)
  ultimately show ?thesis using False assms by (simp add: read_bits_def read_loop_bits within_def)
qed (use assms in \<open>auto simp: read_bits_def within_def\<close>)

lemma received_bits_safe:
  "p + n \<le> 8 * length buf \<Longrightarrow> safe (\<lambda>_. True) (received_bits buf p n v)"
proof (induction n arbitrary: p v)
  case (Suc n)
  then have "p div 8 < length buf" by (intro div8_in) simp
  then show ?case using Suc by simp
qed simp

lemma validate_crc7_bits_safe:
  assumes "n \<le> 8 * length buf"
  shows "safe (\<lambda>_. True) (validate_crc7_bits buf n)"
proof (cases "n < 7")
  case False
  then have "(n - 7 + 7) div 8 \<le> length buf" using assms by simp
  then show ?thesis
    using False assms by (auto simp: validate_crc7_bits_def Let_def crc_over_def intro!: safe_seq [OF received_bits_safe])
qed (simp add: validate_crc7_bits_def)

lemma lsb_decode_8: "\<exists>v. lsb_decode w lsb 8 = Done v"
  by (simp add: lsb_decode_def Let_def split: prod.split)

lemma scaled_8: "\<exists>v. decode_scaled_lsb lsb 8 ref stride res = Done v"
  using lsb_decode_8 [of "lsb_init ref" lsb] lsb_decode_8 [of "lsb_init (ref div stride)" lsb]
  by (auto simp: decode_scaled_lsb_def Let_def)

lemma predicted_8: "\<exists>v. decode_scaled_lsb_with_timestamp_prediction lsb 8 pts ref stride res = Done v"
  using scaled_8 [of lsb ref stride res] by (simp add: decode_scaled_lsb_with_timestamp_prediction_def Let_def)

lemma fo_timestamp_not_Fault: "fo_timestamp r seq lsb \<noteq> Fault"
proof -
  have "decode_timer_scaled_lsb lsb 8 ref stride ticks res \<noteq> Fault" for ref stride ticks res
    using predicted_8 by (auto simp: decode_timer_scaled_lsb_def seq_res_eq_Fault split: option.splits) (metis res.distinct(3))
  then show ?thesis
    using predicted_8 by (auto simp: fo_timestamp_def Let_def seq_res_eq_Fault split: option.splits) (metis res.distinct(3))
qed

lemma fo_reconstruct_safe: "context_wf c \<Longrightarrow> safe context_wf (fo_reconstruct c k s t)"
  using fo_timestamp_not_Fault [of "ctx_rtp c"]
  by (cases "fo_timestamp (ctx_rtp c) (ucast (decode_field_lsb RtpSequence (ucast s) (ucast (rtp_last_seq (ctx_rtp c))) k)) t")
    (auto simp: fo_reconstruct_def Let_def context_wf_def rtp_context_wf_def)

lemma safe_read:
  assumes "within inp br"
    and "\<And>v br'. within inp br' \<Longrightarrow> (br_valid br' \<Longrightarrow> br_bitpos br' \<le> 8 * length inp) \<Longrightarrow> safe P (k v br')"
  shows "safe P (seq_res (read_bits br n) (\<lambda>(v, br'). k v br'))"
  by (rule safe_seq [OF read_bits_safe [OF assms(1)]]) (auto intro: assms(2))

lemma safe_unless: "(\<not> b \<Longrightarrow> safe P r) \<Longrightarrow> safe P (if b then Reject else r)"
  by simp

lemma decode_fo_rtp_body_safe:
  assumes wf: "context_wf c" and br: "within inp br"
  shows "safe (\<lambda>(c, n). context_wf c \<and> n \<le> length inp) (decode_fo_rtp_body inp c br)"
  unfolding decode_fo_rtp_body_def Let_def
  apply (rule safe_read [OF br], rule safe_unless, rule safe_read, assumption, rule safe_read, assumption)
  apply (rule safe_unless, rule safe_unless, rule safe_read [where inp = inp], simp, rule safe_unless, rule safe_unless)
  apply (rule safe_seq, rule validate_crc7_bits_safe, simp, rule safe_guard)
  apply (rule safe_seq, rule fo_reconstruct_safe [OF wf], simp)
  done

lemma decode_fo_rtp_safe:
  assumes wf: "context_wf c"
  shows "safe (\<lambda>(c, n). context_wf c \<and> n \<le> length inp) (decode_fo_rtp inp c)"
  unfolding decode_fo_rtp_def
  apply (rule safe_unless, rule safe_read, rule within_bounded, rule safe_unless, rule safe_read, assumption)
  apply (rule safe_read, assumption, rule safe_unless, rule safe_if)
   apply (rule safe_unless, rule safe_view, simp add: Suc_leI, rule safe_seq [of "\<lambda>_. True"])
    apply (use read_large_safe in \<open>auto simp: safe_def split: res.split\<close>)[1]
   apply (simp only: split_beta)
   apply (rule safe_unless, rule safe_unless, rule decode_fo_rtp_body_safe [OF wf], simp)
  apply (rule safe_unless, rule decode_fo_rtp_body_safe [OF wf], assumption)
  done

section \<open>The bits of the packet\<close>

lemma buf_bits_append [simp]: "buf_bits (a @ b) = buf_bits a @ buf_bits b"
  by (simp add: buf_bits_def)

lemma buf_bits_single [simp]: "buf_bits [x] = octet_bits x"
  by (simp add: buf_bits_def)

lemma buf_bits_Cons: "buf_bits (x # b) = octet_bits x @ buf_bits b"
  by (simp add: buf_bits_def)

lemma buf_bits_take: "buf_bits (take m b) = take (8 * m) (buf_bits b)"
proof (cases "m \<le> length b")
  case True
  have "buf_bits b = buf_bits (take m b) @ buf_bits (drop m b)" by (simp flip: buf_bits_append)
  moreover have "length (buf_bits (take m b)) = 8 * m" using True by simp
  ultimately show ?thesis by (metis append_eq_conv_conj)
qed simp

lemma write_zero: "write_bits bw 0 n = Done (bw\<lparr>bw_bitpos := bw_bitpos bw + n\<rparr>)"
proof -
  have "write_loop b p 0 n = Done (b, p + n)" for b p by (induction n arbitrary: p) simp_all
  then show ?thesis by (simp add: write_bits_def)
qed

lemma skip_clean:
  assumes "clean bw" and "bw_bitpos bw + k \<le> 8 * length (bw_buf bw)"
  shows "clean (bw\<lparr>bw_bitpos := bw_bitpos bw + k\<rparr>) \<and>
    written (bw\<lparr>bw_bitpos := bw_bitpos bw + k\<rparr>) = written bw @ replicate k False"
proof -
  have "take (bw_bitpos bw + k) (buf_bits (bw_buf bw)) = take (bw_bitpos bw) (buf_bits (bw_buf bw)) @ replicate k False"
    using assms by (auto simp: list_eq_iff_nth_eq nth_append clean_def)
  then show ?thesis using assms by (auto simp: clean_def written_def)
qed

text \<open>A writer that stops inside an octet, fills it up and appends the seven bits of the checksum.\<close>

lemma append_crc7:
  assumes c: "clean bw" and len: "m + 1 \<le> length (bw_buf bw)" and m: "m = (bw_bitpos bw + 7) div 8"
    and crc: "crc = crc7 (take m (bw_buf bw))"
  shows "\<exists>body x bw'. write_bits (bw\<lparr>bw_bitpos := m * 8\<rparr>) (ucast crc) 7 = Done bw' \<and> bw_bitpos bw' = 8 * m + 7 \<and>
    take (m + 1) (bw_buf bw') = body @ [x] \<and> length body = m \<and> crc = crc7 body \<and>
    buf_bits body = written bw @ replicate (8 * m - bw_bitpos bw) False \<and> octet_bits x = msb_bits 7 (ucast crc :: u32) @ [False]"
proof -
  let ?k = "8 * m - bw_bitpos bw" and ?body = "take m (bw_buf bw)"
  have k: "bw_bitpos bw + ?k = 8 * m" using m by simp
  then have "bw_bitpos bw + ?k \<le> 8 * length (bw_buf bw)" using len by linarith
  from skip_clean [OF c this] have s: "clean (bw\<lparr>bw_bitpos := m * 8\<rparr>)"
      "written (bw\<lparr>bw_bitpos := m * 8\<rparr>) = written bw @ replicate ?k False" unfolding k by (simp_all add: mult.commute)
  have "7 \<le> room (bw\<lparr>bw_bitpos := m * 8\<rparr>)" using len by (simp add: room_def)
  then obtain bw' where w: "write_bits (bw\<lparr>bw_bitpos := m * 8\<rparr>) (ucast crc) 7 = Done bw'" "clean bw'"
      "length (bw_buf bw') = length (bw_buf bw)" "bw_bitpos bw' = m * 8 + 7"
      "written bw' = written bw @ replicate ?k False @ msb_bits 7 (ucast crc :: u32)"
    using write_bits_law [OF s(1), of 7 "ucast crc"] len s(2) by (auto simp: mult.commute)
  have body: "buf_bits ?body = written bw @ replicate ?k False"
    using s(2) by (simp add: written_def buf_bits_take mult.commute)
  have "bw_bitpos bw' + 1 \<le> 8 * length (bw_buf bw')" using w(3,4) len by simp
  from skip_clean [OF w(2) this] have "take (8 + m * 8) (buf_bits (bw_buf bw')) = written bw' @ [False]"
    by (simp add: written_def w(4))
  then have "buf_bits (take (m + 1) (bw_buf bw')) = (written bw @ replicate ?k False) @ msb_bits 7 (ucast crc :: u32) @ [False]"
    using w(5) by (simp add: buf_bits_take mult.commute add.commute)
  moreover have "take (m + 1) (bw_buf bw') = take m (bw_buf bw') @ [bw_buf bw' ! m]"
    using len w(3) by (simp add: take_Suc_conv_app_nth)
  ultimately have "buf_bits (take m (bw_buf bw')) @ octet_bits (bw_buf bw' ! m) = buf_bits ?body @ msb_bits 7 (ucast crc :: u32) @ [False]"
    using body by simp
  moreover have "length (buf_bits (take m (bw_buf bw'))) = length (buf_bits ?body)" using w(3) by simp
  ultimately have bits: "buf_bits (take m (bw_buf bw')) = buf_bits ?body" "octet_bits (bw_buf bw' ! m) = msb_bits 7 (ucast crc :: u32) @ [False]"
    using append_eq_append_conv by blast+
  have "take m (bw_buf bw') = ?body" by (rule buf_bits_inj [OF _ bits(1)]) (simp add: w(3))
  then have "take (m + 1) (bw_buf bw') = ?body @ [bw_buf bw' ! m]"
    using \<open>take (m + 1) (bw_buf bw') = take m (bw_buf bw') @ [bw_buf bw' ! m]\<close> by simp
  then show ?thesis using w(1,4) bits(2) body len crc by (intro exI [of _ ?body] exI [of _ "bw_buf bw' ! m"] exI [of _ bw']) simp
qed

abbreviation fo_seq :: "rohc_context \<Rightarrow> u32" where
  "fo_seq c \<equiv> encode_field_lsb RtpSequence (ucast (rtp_last_seq (ctx_rtp c))) 6"

abbreviation fo_ts :: "rohc_context \<Rightarrow> u32" where
  "fo_ts c \<equiv> encode_field_lsb RtpTimestamp (ts_scaled_value (scale_timestamp (rtp_last_ts (ctx_rtp c)) (rtp_ts_stride (ctx_rtp c)))) 8"

abbreviation fo_fields :: "rohc_context \<Rightarrow> (u32 \<times> nat) list" where
  "fo_fields c \<equiv> [(6, 6), (fo_seq c, 6), (fo_ts c, 8)]"

definition fo_prefix_bits :: "rohc_context \<Rightarrow> bool list" where
  "fo_prefix_bits c = (if ctx_large_cid c then buf_bits (0 # sdvl (ctx_cid c))
     else field_bits [(0, 1), (0, 1), (ctx_cid c AND 0xF, 4)])"

definition rtp_fo_len :: "rohc_context \<Rightarrow> nat" where
  "rtp_fo_len c = 5 + (if ctx_large_cid c then encoded_len (ctx_cid c) else 0)"

lemma fo_prefix:
  assumes v: "is_valid_for_space (ctx_cid c) (ctx_large_cid c)" and n: "rtp_fo_len c \<le> n"
  shows "\<exists>bw0 bw. write_fields \<lparr>bw_buf = replicate n 0, bw_bitpos = 0\<rparr>
      [(0, 1), (0, 1), (if ctx_large_cid c then 0 else ctx_cid c AND 0xF, 4)] = Done bw0 \<and> rtp_fo_cid n bw0 c = Done bw \<and>
    clean bw \<and> length (bw_buf bw) = n \<and> bw_bitpos bw = length (fo_prefix_bits c) \<and> written bw = fo_prefix_bits c"
proof (cases "ctx_large_cid c")
  case True
  let ?e = "encoded_len (ctx_cid c)"
  let ?bw = "\<lparr>bw_buf = (0 # sdvl (ctx_cid c)) @ replicate (n - (1 + ?e)) 0, bw_bitpos = (1 + ?e) * 8\<rparr>"
  have le: "1 + ?e \<le> n" "ctx_cid c \<le> large_cid_max" using n v True by (simp_all add: rtp_fo_len_def is_valid_for_space_def)
  have "write_fields \<lparr>bw_buf = replicate n 0, bw_bitpos = 0\<rparr> [(0, 1), (0, 1), (if ctx_large_cid c then 0 else ctx_cid c AND 0xF, 4)]
      = Done \<lparr>bw_buf = replicate n 0, bw_bitpos = 6\<rparr>"
    using True by (simp add: write_zero)
  moreover have "rtp_fo_cid n \<lparr>bw_buf = replicate n 0, bw_bitpos = 6\<rparr> c = Done ?bw"
    using True le by (simp add: rtp_fo_cid_def write_large_eq take_Suc)
  moreover have b: "buf_bits (bw_buf ?bw) = buf_bits (0 # sdvl (ctx_cid c)) @ replicate (8 * (n - (1 + ?e))) False"
    by (simp only: bit_writer.simps buf_bits_append buf_bits_zero)
  moreover have "clean ?bw" unfolding clean_def b by (auto simp: nth_append)
  moreover have "written ?bw = buf_bits (0 # sdvl (ctx_cid c))" unfolding written_def b by simp
  ultimately show ?thesis using True le by (simp add: fo_prefix_bits_def)
next
  case False
  let ?fs = "[(0, 1), (0, 1), (ctx_cid c AND 0xF, 4)] :: (u32 \<times> nat) list"
  have "5 \<le> n" using n by (simp add: rtp_fo_len_def)
  then show ?thesis
    using write_fields_law [of "fresh_writer n" ?fs] False
    by (auto simp: fresh_writer_def clean_def room_def written_def buf_bits_zero rtp_fo_cid_def fo_prefix_bits_def)
qed

lemma length_fo_prefix: "length (fo_prefix_bits c) = (if ctx_large_cid c then 8 * (1 + encoded_len (ctx_cid c)) else 6)"
  by (simp add: fo_prefix_bits_def)

lemma emit_rtp_fo_bits:
  assumes v: "is_valid_for_space (ctx_cid c) (ctx_large_cid c)" and n: "rtp_fo_len c \<le> n" and buf: "length buf = n"
  shows "\<exists>body x. emit_rtp_fo buf n c = Done (body @ [x]) \<and> length body + 1 = rtp_fo_len c \<and>
    buf_bits body = fo_prefix_bits c @ field_bits (fo_fields c) @ replicate (if ctx_large_cid c then 4 else 6) False \<and>
    octet_bits x = msb_bits 7 (ucast (crc7 body) :: u32) @ [False]"
proof -
  obtain bw0 bw where w0: "write_fields \<lparr>bw_buf = replicate n 0, bw_bitpos = 0\<rparr>
        [(0, 1), (0, 1), (if ctx_large_cid c then 0 else ctx_cid c AND 0xF, 4)] = Done bw0" "rtp_fo_cid n bw0 c = Done bw"
      and bw: "clean bw" "length (bw_buf bw) = n" "bw_bitpos bw = length (fo_prefix_bits c)" "written bw = fo_prefix_bits c"
    using fo_prefix [OF v n] by blast
  have "field_width (fo_fields c) \<le> room bw" "bw_bitpos bw \<le> 8 * length (bw_buf bw)"
    using n bw(2,3) by (auto simp: room_def length_fo_prefix rtp_fo_len_def)
  then obtain bw2 where w2: "write_fields bw (fo_fields c) = Done bw2" "clean bw2" "length (bw_buf bw2) = n"
      "bw_bitpos bw2 = length (fo_prefix_bits c) + 20" "written bw2 = fo_prefix_bits c @ field_bits (fo_fields c)"
    using write_fields_law [OF bw(1), of "fo_fields c"] bw(2-4) by auto
  define m where "m = (bw_bitpos bw2 + 7) div 8"
  have m: "m + 1 = rtp_fo_len c" "8 * m - bw_bitpos bw2 = (if ctx_large_cid c then 4 else 6)"
    by (auto simp: m_def w2(4) length_fo_prefix rtp_fo_len_def)
  have len: "m + 1 \<le> length (bw_buf bw2)" using m n w2(3) by simp
  obtain body x bw3 where f: "write_bits (bw2\<lparr>bw_bitpos := m * 8\<rparr>) (ucast (crc7 (take m (bw_buf bw2)))) 7 = Done bw3"
      "bw_bitpos bw3 = 8 * m + 7" "take (m + 1) (bw_buf bw3) = body @ [x]" "length body = m"
      "crc7 (take m (bw_buf bw2)) = crc7 body" "buf_bits body = written bw2 @ replicate (8 * m - bw_bitpos bw2) False"
      "octet_bits x = msb_bits 7 (ucast (crc7 (take m (bw_buf bw2))) :: u32) @ [False]"
    using append_crc7 [OF w2(2) len m_def refl] by blast
  have "(8 * m + 7 + 7) div 8 = m + 1" by simp
  then have "emit_rtp_fo buf n c = Done (body @ [x])"
    using v n buf w0 w2(1) f(1-3) len unfolding emit_rtp_fo_def Let_def rtp_fo_len_def
    by (simp add: m_def [symmetric] crc_over_def)
  then show ?thesis using f(4-7) m w2(5) by auto
qed

section \<open>Reading the packet back\<close>

lemma received_bits_law:
  "drop p (buf_bits buf) = msb_bits n c @ rest \<Longrightarrow> n \<le> 8 \<Longrightarrow> received_bits buf p n v = Done (push_bit n v OR take_bit n (c :: byte))"
proof (induction n arbitrary: p v)
  case (Suc n)
  let ?b = "drop_bit (7 - p mod 8) (buf ! (p div 8)) AND 1"
  have d: "drop p (buf_bits buf) = bit c n # msb_bits n c @ rest" using Suc.prems by (simp add: msb_bits_Suc)
  then have p: "p < 8 * length buf" by (metis drop_all length_buf_bits list.distinct(1) not_less)
  have next_bits: "drop (p + 1) (buf_bits buf) = msb_bits n c @ rest" using d by (metis Suc_eq_plus1 drop_Suc list.sel(3) tl_drop)
  have "bit (buf ! (p div 8)) (7 - p mod 8) = bit c n"
    using d p nth_buf_bits [OF p] by (metis Cons_nth_drop_Suc length_buf_bits list.inject)
  then have b: "?b = of_bool (bit c n)" by (simp add: and_one_eq mod_2_eq_odd bit_iff_odd_drop_bit)
  have "received_bits buf p (Suc n) v = received_bits buf (p + 1) n (push_bit 1 v OR of_bool (bit c n))"
    using div8_in [OF p] by (simp only: received_bits.simps rd_in b)
  also have "\<dots> = Done (push_bit n (push_bit 1 v OR of_bool (bit c n)) OR take_bit n c)"
    using Suc.IH [of "p + 1"] Suc.prems(2) next_bits by (simp only: Suc_eq_plus1)
  also have "push_bit n (push_bit 1 v OR of_bool (bit c n)) OR take_bit n c = push_bit (Suc n) v OR take_bit (Suc n) c"
    using Suc.prems(2)
    by (intro bit_word_eqI) (auto simp: bit_simps less_Suc_eq bit_1_iff split: if_splits)
  finally show ?case .
qed simp

lemma validate_crc7_law:
  assumes "m + 1 \<le> length inp" and "drop (8 * m) (buf_bits inp) = msb_bits 7 (crc7 (take m inp)) @ rest"
  shows "validate_crc7_bits inp (8 * m + 7) = Done True"
proof -
  have "(8 * m + 7) div 8 = m" by simp
  moreover have "take_bit 7 (crc7 (take m inp)) = crc7 (take m inp)" using crc7.run_range by blast
  ultimately show ?thesis using assms(1) received_bits_law [OF assms(2), of 0] by (simp add: validate_crc7_bits_def Let_def crc_over_def)
qed

lemma msb_bits_octet: "n \<le> 8 \<Longrightarrow> msb_bits n (ucast (c :: byte) :: u32) = msb_bits n c"
  by (auto simp: msb_bits_def bit_simps)

lemma decode_fo_rtp_body_law:
  assumes u: "usable br" "br_buf br = inp" and pend: "pending br = field_bits [(6, 6), (s, 6), (t, 8)] @ rest"
    and m: "m = (br_bitpos br + 27) div 8" "m + 1 \<le> length inp"
    and crc: "drop (8 * m) (buf_bits inp) = msb_bits 7 (crc7 (take m inp)) @ rest2"
  shows "decode_fo_rtp_body inp d br = seq_res (fo_reconstruct d 6 (ucast (take_bit 6 s)) (take_bit 8 t)) (\<lambda>c. Done (c, m + 1))"
proof -
  let ?at = "\<lambda>p. br\<lparr>br_bitpos := p\<rparr>" and ?p = "br_bitpos br"
  have r1: "read_bits br 6 = Done (6, ?at (?p + 6)) \<and> pending (?at (?p + 6)) = msb_bits 6 s @ msb_bits 8 t @ rest \<and> usable (?at (?p + 6))"
    using read_bits_law [OF u(1), of 6 6 "msb_bits 6 s @ msb_bits 8 t @ rest"] pend by (simp add: take_bit_eq_mask mask_numeral)
  then have r2: "read_bits (?at (?p + 6)) 6 = Done (take_bit 6 s, ?at (12 + ?p)) \<and> pending (?at (12 + ?p)) = msb_bits 8 t @ rest \<and> usable (?at (12 + ?p))"
    using read_bits_law [of "?at (?p + 6)" 6 s "msb_bits 8 t @ rest"] by simp
  then have r3: "read_bits (?at (12 + ?p)) 8 = Done (take_bit 8 t, ?at (20 + ?p))"
    using read_bits_law [of "?at (12 + ?p)" 8 t rest] by simp
  have um: "usable (?at (8 * m))" using u m(2) by (auto simp: usable_def)
  have "pending (?at (8 * m)) = msb_bits 7 (ucast (crc7 (take m inp)) :: u32) @ rest2"
    using crc u(2) by (simp add: pending_def msb_bits_octet)
  then have r4: "\<exists>v. read_bits (?at (8 * m)) 7 = Done (v, ?at (8 * m + 7))" using read_bits_law [OF um] by simp
  have valid: "br_valid br" using u by (simp add: usable_def)
  have mp: "(27 + ?p) div 8 = m" by (simp add: m(1) add.commute)
  then show ?thesis
    using r1 r2 r3 r4 valid m(2) validate_crc7_law [OF m(2) crc]
    by (auto simp: decode_fo_rtp_body_def mult.commute Let_def mp)
qed

lemma add_cid_small: "is_small v \<Longrightarrow> v AND 0xF = v"
proof -
  assume "is_small v"
  then have "v < 2 ^ 4" by (simp add: is_small_def small_cid_max_def word_le_nat_alt word_less_nat_alt)
  then have "take_bit 4 v = v" by (rule take_bit_small) simp
  then show ?thesis by (simp add: take_bit_eq_mask mask_numeral)
qed

lemma bounded_reader:
  assumes "length inp \<le> size_max div 8"
  shows "usable (bit_reader_bounded inp (length inp))" "pending (bit_reader_bounded inp (length inp)) = buf_bits inp"
    "br_buf (bit_reader_bounded inp (length inp)) = inp" "br_bitpos (bit_reader_bounded inp (length inp)) = 0"
    "br_valid (bit_reader_bounded inp (length inp))"
  using assms by (simp_all add: usable_def pending_def bit_reader_bounded_def)

text \<open>The first octet: indicator, extension bit and four bits of CID.\<close>

lemma read_first:
  assumes len: "length inp \<le> size_max div 8" and b: "buf_bits inp = field_bits [(0, 1), (0, 1), (cid, 4)] @ rest"
  shows "\<exists>br. (\<forall>k. seq_res (read_bits (bit_reader_bounded inp (length inp)) 1) (\<lambda>(indicator, br).
      if indicator \<noteq> 0 \<or> \<not> br_valid br then Reject
      else seq_res (read_bits br 1) (\<lambda>(_, br). seq_res (read_bits br 4) (\<lambda>(c, br). k c br))) = k (take_bit 4 cid) br) \<and>
    usable br \<and> br_valid br \<and> br_buf br = inp \<and> br_bitpos br = 6 \<and> pending br = rest"
proof -
  let ?br = "bit_reader_bounded inp (length inp)"
  let ?at = "\<lambda>p. ?br\<lparr>br_bitpos := p\<rparr>"
  note start = bounded_reader [OF len]
  have r1: "read_bits ?br 1 = Done (0, ?at 1) \<and> pending (?at 1) = msb_bits 1 (0 :: u32) @ msb_bits 4 cid @ rest \<and> usable (?at 1)"
    using read_bits_law [OF start(1), of 1 0 "msb_bits 1 (0 :: u32) @ msb_bits 4 cid @ rest"] b start by simp
  then have r2: "read_bits (?at 1) 1 = Done (0, ?at 2) \<and> pending (?at 2) = msb_bits 4 cid @ rest \<and> usable (?at 2)"
    using read_bits_law [of "?at 1" 1 0 "msb_bits 4 cid @ rest"] by (simp add: numeral_2_eq_2)
  then have r3: "read_bits (?at 2) 4 = Done (take_bit 4 cid, ?at 6) \<and> pending (?at 6) = rest \<and> usable (?at 6)"
    using read_bits_law [of "?at 2" 4 cid rest] by simp
  show ?thesis by (rule exI [of _ "?at 6"]) (use r1 r2 r3 start in simp)
qed

lemma decode_fo_rtp_frame:
  assumes v: "is_valid_for_space (ctx_cid c) (ctx_large_cid c)"
    and same: "ctx_cid d = ctx_cid c" "ctx_large_cid d = ctx_large_cid c"
    and len: "length (body @ [x] @ payload) \<le> size_max div 8" "length body + 1 = rtp_fo_len c"
    and body: "buf_bits body = fo_prefix_bits c @ field_bits (fo_fields c) @ replicate (if ctx_large_cid c then 4 else 6) False"
    and x: "octet_bits x = msb_bits 7 (ucast (crc7 body) :: u32) @ [False]"
  shows "decode_fo_rtp (body @ [x] @ payload) d =
    seq_res (fo_reconstruct d 6 (ucast (fo_seq c)) (fo_ts c)) (\<lambda>c'. Done (c', rtp_fo_len c))"
proof -
  define inp where "inp = body @ [x] @ payload"
  define m where "m = length body"
  have crc: "drop (8 * m) (buf_bits inp) = msb_bits 7 (crc7 (take m inp)) @ [False] @ buf_bits payload"
    using x by (simp add: inp_def m_def msb_bits_octet buf_bits_Cons)
  have m1: "m + 1 \<le> length inp" "inp \<noteq> []" by (simp_all add: inp_def m_def)
  have t: "take_bit 6 (fo_seq c) = fo_seq c" "take_bit 8 (fo_ts c) = fo_ts c"
    by (simp_all add: encode_field_lsb_def least_significant_bits_take_bit)
  note len' = len(1) [folded inp_def]
  define rest where "rest = replicate (if ctx_large_cid c then 4 else 6) False @ octet_bits x @ buf_bits payload"
  have bits: "buf_bits inp = fo_prefix_bits c @ field_bits (fo_fields c) @ rest" by (simp add: inp_def rest_def body buf_bits_Cons)
  have "decode_fo_rtp inp d = seq_res (fo_reconstruct d 6 (ucast (fo_seq c)) (fo_ts c)) (\<lambda>c'. Done (c', m + 1))"
  proof (cases "ctx_large_cid c")
    case False
    then have small: "ctx_cid c AND 0xF = ctx_cid c"
      using v add_cid_small by (simp add: is_valid_for_space_def)
    have "buf_bits inp = field_bits [(0, 1), (0, 1), (ctx_cid c, 4)] @ field_bits (fo_fields c) @ rest"
      using False bits small by (simp add: fo_prefix_bits_def)
    from read_first [OF len' this] obtain br where br: "\<forall>k :: u32 \<Rightarrow> bit_reader \<Rightarrow> (rohc_context \<times> nat) res. seq_res (read_bits (bit_reader_bounded inp (length inp)) 1) (\<lambda>(indicator, br).
        if indicator \<noteq> 0 \<or> \<not> br_valid br then Reject
        else seq_res (read_bits br 1) (\<lambda>(_, br). seq_res (read_bits br 4) (\<lambda>(c, br). k c br))) = k (take_bit 4 (ctx_cid c)) br"
        "usable br" "br_valid br" "br_buf br = inp" "br_bitpos br = 6" "pending br = field_bits (fo_fields c) @ rest" by blast
    have "take_bit 4 (ctx_cid c) = ctx_cid c" using small by (simp add: take_bit_eq_mask mask_numeral)
    moreover have "m = (br_bitpos br + 27) div 8" using len(2) False br(5) by (simp add: m_def rtp_fo_len_def)
    ultimately show ?thesis
      unfolding decode_fo_rtp_def br(1) [rule_format]
      using br(2-) m1 False same decode_fo_rtp_body_law [OF br(2,4,6) _ m1(1) crc, of d] t by simp
  next
    case True
    let ?e = "encoded_len (ctx_cid c)"
    have "buf_bits (take (1 + ?e) inp) = buf_bits (0 # sdvl (ctx_cid c))"
      using True bits by (simp add: buf_bits_take fo_prefix_bits_def)
    moreover have "1 + ?e \<le> length inp" using len(2) True m1 by (simp add: rtp_fo_len_def m_def)
    ultimately have "take (1 + ?e) inp = 0 # sdvl (ctx_cid c)" by (intro buf_bits_inj) simp_all
    then have inp: "inp = 0 # sdvl (ctx_cid c) @ drop (1 + ?e) inp" by (metis append_Cons append_take_drop_id)
    have rl: "read_large (drop 1 inp) = Done (ctx_cid c, ?e)"
      using v True read_sdvl [of "ctx_cid c" "drop (1 + ?e) inp"] inp by (metis drop0 drop_Suc_Cons is_valid_for_space_def One_nat_def)
    have "octet_bits 0 = field_bits [(0, 1), (0, 1), (0, 4)] @ [False, False]" by code_simp
    then have "buf_bits inp = field_bits [(0, 1), (0, 1), (0, 4)] @ [False, False] @ buf_bits (tl inp)"
      using inp by (cases inp) (simp_all add: buf_bits_def)
    from read_first [OF len' this] obtain br where br: "\<forall>k :: u32 \<Rightarrow> bit_reader \<Rightarrow> (rohc_context \<times> nat) res. seq_res (read_bits (bit_reader_bounded inp (length inp)) 1) (\<lambda>(indicator, br).
        if indicator \<noteq> 0 \<or> \<not> br_valid br then Reject
        else seq_res (read_bits br 1) (\<lambda>(_, br). seq_res (read_bits br 4) (\<lambda>(c, br). k c br))) = k (take_bit 4 0) br"
        "usable br" "br_valid br" "br_buf br = inp" by blast
    let ?br = "br\<lparr>br_bitpos := (1 + ?e) * 8\<rparr>"
    have u: "usable ?br" "br_buf ?br = inp" using br \<open>1 + ?e \<le> length inp\<close> by (auto simp: usable_def)
    have p: "pending ?br = field_bits (fo_fields c) @ rest"
      using True bits br(4) by (simp add: pending_def fo_prefix_bits_def mult.commute)
    have "m = (br_bitpos ?br + 27) div 8" using len(2) True by (simp add: m_def rtp_fo_len_def)
    then show ?thesis
      unfolding decode_fo_rtp_def br(1) [rule_format]
      using br(2-) m1 True same rl \<open>1 + ?e \<le> length inp\<close> decode_fo_rtp_body_law [OF u p _ m1(1) crc, of d] t by auto
  qed
  then show ?thesis using len(2) by (simp add: inp_def m_def)
qed

section \<open>Reconstruction\<close>

lemma unat_minus_mod: "unat ((a :: u16) - b) = (unat a + 2 ^ 16 - unat b) mod 2 ^ 16"
proof -
  have le: "unat b \<le> unat a + 2 ^ 16" using unat_u16_bound [of b] by simp
  have "of_nat (unat a + 2 ^ 16 - unat b) = a - b" unfolding of_nat_diff [OF le] by simp
  then have "unat (a - b) = unat (of_nat (unat a + 2 ^ 16 - unat b) :: u16)" by simp
  also have "\<dots> = (unat a + 2 ^ 16 - unat b) mod 2 ^ 16" by (simp only: unsigned_of_nat take_bit_eq_mod of_nat_id) simp
  finally show ?thesis .
qed

lemma wlsb_offset_word: "unat p < 2 ^ 16 \<Longrightarrow> wlsb_offset (2 ^ 16) (unat (r :: u16)) (unat (p :: u16)) (unat v) = unat (v - (r - p))"
  by (simp add: wlsb_offset_def unat_minus_mod)

text \<open>A sequence number from 32 below to 31 above the last one is recovered.\<close>

lemma fo_sequence:
  assumes "seq - (previous - 32) < (64 :: u16)"
  shows "(ucast (decode_field_lsb RtpSequence (ucast (ucast (encode_field_lsb RtpSequence (ucast seq) 6) :: u16)) (ucast previous) 6) :: u16) = seq"
proof -
  let ?v = "ucast seq :: u32"
  have l: "encode_field_lsb RtpSequence ?v 6 = least_significant_bits ?v 6" by (simp add: encode_field_lsb_def)
  have "least_significant_bits ?v 6 = take_bit 6 ?v" by (simp add: least_significant_bits_take_bit)
  then have narrow: "(ucast (ucast (least_significant_bits ?v 6) :: u16) :: u32) = least_significant_bits ?v 6"
    by (simp add: bit_eq_iff bit_simps) auto
  have "wlsb_offset (2 ^ 16) (unat previous) 32 (unat seq) < 64"
    using assms wlsb_offset_word [of 32 previous seq] by (simp add: word_less_nat_alt)
  then have "decode_lsb_with_p (least_significant_bits ?v 6) 6 (ucast previous) 32 16 = Done ?v"
    using unat_u16_bound [of seq] unat_u16_bound [of previous] by (intro wlsb_decode) simp_all
  moreover have "(ucast ?v :: u16) = seq" by (simp add: u16_bits)
  ultimately show ?thesis
    by (simp add: decode_field_lsb_def decode_field_lsb_with_p_def natural_field_width_def l narrow)
qed

definition ts_recoverable :: "rtp_context \<Rightarrow> u16 \<Rightarrow> u32 \<Rightarrow> bool" where
  \<comment> \<open>the timestamp \<open>ts\<close> is the predicted one, or its low bits differ from those of the predicted one and it
    is within half the window of the last one\<close>
  "ts_recoverable r seq ts \<longleftrightarrow>
     (let stride = rtp_ts_stride r; predicted = rtp_last_ts r + stride * ucast (seq - rtp_last_seq r) in
      if stride = 0 then dist_mod ts (rtp_last_ts r) < 128
      else ts = predicted \<or> take_bit 8 (predicted div stride) \<noteq> take_bit 8 (ts div stride) \<and>
        rtp_ts_residue r = ts mod stride \<and> dist_mod (ts div stride) (rtp_last_ts r div stride) < 128)"

lemma uint_dist: "(dist_mod a b :: u32) < 128 \<Longrightarrow> uint (dist_mod a b) < 2 ^ (8 - 1)"
  by (simp add: word_less_def)

lemma fo_timestamp_law:
  assumes "\<not> rtp_timer_based_ts r" and "ts_recoverable r seq ts"
  shows "fo_timestamp r seq (encode_field_lsb RtpTimestamp (ts_scaled_value (scale_timestamp ts (rtp_ts_stride r))) 8) = Done ts"
proof -
  let ?s = "rtp_ts_stride r"
  have e: "encode_field_lsb RtpTimestamp v 8 = take_bit 8 v" for v
    by (simp add: encode_field_lsb_def least_significant_bits_take_bit)
  show ?thesis
  proof (cases "?s = 0")
    case True
    then have "uint (dist_mod ts (win_ref (lsb_init (rtp_last_ts r)))) < 2 ^ (8 - 1)"
      using assms(2) uint_dist by (simp add: ts_recoverable_def lsb_init_def)
    from lsb_decode_window [OF _ _ this] have "lsb_decode (lsb_init (rtp_last_ts r)) (take_bit 8 ts) 8 = Done ts" by simp
    then show ?thesis
      using True assms(1)
      by (simp add: fo_timestamp_def decode_scaled_lsb_with_timestamp_prediction_def decode_scaled_lsb_def scale_timestamp_def e Let_def)
  next
    case False
    let ?p = "rtp_last_ts r + ?s * ucast (seq - rtp_last_seq r)"
    consider "ts = ?p" | "take_bit 8 (?p div ?s) \<noteq> take_bit 8 (ts div ?s)" "rtp_ts_residue r = ts mod ?s"
        "uint (dist_mod (ts div ?s) (rtp_last_ts r div ?s)) < 2 ^ (8 - 1)"
      using assms(2) False uint_dist by (auto simp: ts_recoverable_def Let_def)
    then show ?thesis
    proof cases
      case 1
      then show ?thesis
        using False assms(1) by (simp add: fo_timestamp_def decode_scaled_lsb_with_timestamp_prediction_def scale_timestamp_def Let_def)
    next
      case 2
      from decode_scaled_lsb_window [OF _ _ False 2(2,3)] show ?thesis
        using False assms(1) 2(1)
        by (simp add: fo_timestamp_def decode_scaled_lsb_with_timestamp_prediction_def scale_timestamp_def Let_def e)
    qed
  qed
qed

section \<open>Properties\<close>

text \<open>
  C22. First-order RTP packets round-trip. The packet that \<open>emit_rtp_fo\<close> writes for a context into a buffer of
  sufficient and declared length is decoded, whatever payload follows and without reading outside it, by every context with
  the same CID and stride that does not use timer-based timestamps: to the sequence number, when that is from 32 below to 31
  above the last one, and to the timestamp, when that is the predicted one, or when it is within half the window of the
  last one, has the residue of the context and its scaled low eight bits are not those of the predicted one; a sequential IP-ID
  advances with the sequence number. All this wraps around at the width of the fields.
\<close>

theorem rtp_fo_roundtrip:
  assumes "is_valid_for_space (ctx_cid c) (ctx_large_cid c)" "rtp_fo_len c \<le> length buf"
    and "ctx_cid d = ctx_cid c" "ctx_large_cid d = ctx_large_cid c" "rtp_ts_stride (ctx_rtp d) = rtp_ts_stride (ctx_rtp c)"
    and "rtp_last_seq (ctx_rtp c) - (rtp_last_seq (ctx_rtp d) - 32) < 64" and "\<not> rtp_timer_based_ts (ctx_rtp d)"
    and "ts_recoverable (ctx_rtp d) (rtp_last_seq (ctx_rtp c)) (rtp_last_ts (ctx_rtp c))"
    and "rtp_fo_len c + length payload \<le> size_max div 8"
  shows "\<exists>out c'. emit_rtp_fo buf (length buf) c = Done out \<and> length out = rtp_fo_len c \<and>
    decode_fo_rtp (out @ payload) d = Done (c', rtp_fo_len c) \<and>
    rtp_last_seq (ctx_rtp c') = rtp_last_seq (ctx_rtp c) \<and> rtp_last_ts (ctx_rtp c') = rtp_last_ts (ctx_rtp c) \<and>
    ctx_ipv4_id c' = ctx_ipv4_id d + (if ctx_ip_version d = 4 \<and> ctx_ipv4_id_sequential d
      then rtp_last_seq (ctx_rtp c) - rtp_last_seq (ctx_rtp d) else 0)"
proof -
  obtain body x where e: "emit_rtp_fo buf (length buf) c = Done (body @ [x])" "length body + 1 = rtp_fo_len c"
      "buf_bits body = fo_prefix_bits c @ field_bits (fo_fields c) @ replicate (if ctx_large_cid c then 4 else 6) False"
      "octet_bits x = msb_bits 7 (ucast (crc7 body) :: u32) @ [False]"
    using emit_rtp_fo_bits [OF assms(1,2) refl] by blast
  have "length (body @ [x] @ payload) \<le> size_max div 8" using assms(9) e(2) by simp
  from decode_fo_rtp_frame [OF assms(1,3,4) this e(2-4)]
  have "decode_fo_rtp ((body @ [x]) @ payload) d =
      seq_res (fo_reconstruct d 6 (ucast (fo_seq c)) (fo_ts c)) (\<lambda>c'. Done (c', rtp_fo_len c))" by simp
  moreover have "fo_timestamp (ctx_rtp d) (rtp_last_seq (ctx_rtp c)) (fo_ts c) = Done (rtp_last_ts (ctx_rtp c))"
    using fo_timestamp_law [OF assms(7,8)] assms(5) by simp
  ultimately show ?thesis using e(1,2) fo_sequence [OF assms(6)] by (simp add: fo_reconstruct_def Let_def)
qed

theorem rtp_fo_roundtrip_witness:
  "\<exists>out c'. emit_rtp_fo (replicate 9 0xFF) 9 (context_zero\<lparr>ctx_cid := 3, ctx_rtp := rtp_context_zero\<lparr>rtp_last_seq := 5, rtp_last_ts := 100\<rparr>\<rparr>) = Done out \<and>
     length out = 5 \<and> decode_fo_rtp (out @ [1, 2]) (context_zero\<lparr>ctx_cid := 3, ctx_rtp := rtp_context_zero\<lparr>rtp_last_seq := 0xFFFE, rtp_last_ts := 20\<rparr>\<rparr>)
       = Done (c', 5) \<and> rtp_last_seq (ctx_rtp c') = 5 \<and> rtp_last_ts (ctx_rtp c') = 100"
proof -
  let ?c = "context_zero\<lparr>ctx_cid := 3, ctx_rtp := rtp_context_zero\<lparr>rtp_last_seq := 5, rtp_last_ts := 100\<rparr>\<rparr>"
  let ?d = "context_zero\<lparr>ctx_cid := 3, ctx_rtp := rtp_context_zero\<lparr>rtp_last_seq := 0xFFFE, rtp_last_ts := 20\<rparr>\<rparr>"
  have f: "is_valid_for_space (ctx_cid ?c) (ctx_large_cid ?c)" "rtp_fo_len ?c = 5" "rtp_ts_stride (ctx_rtp ?d) = rtp_ts_stride (ctx_rtp ?c)"
    "\<not> rtp_timer_based_ts (ctx_rtp ?d)" "ctx_large_cid ?d = ctx_large_cid ?c"
    by (simp_all add: context_zero_def rtp_context_zero_def is_valid_for_space_def is_small_def small_cid_max_def rtp_fo_len_def)
  have "ts_recoverable (ctx_rtp ?d) (rtp_last_seq (ctx_rtp ?c)) (rtp_last_ts (ctx_rtp ?c))"
    by (simp add: ts_recoverable_def rtp_context_zero_def dist_mod_def Let_def)
  then show ?thesis
    using rtp_fo_roundtrip [of ?c "replicate 9 0xFF" ?d "[1, 2]"] f by (auto simp: size_max_def)
qed

section \<open>Reordered packets\<close>

text \<open>
  The prediction takes the distance of the sequence numbers as a number without sign. A packet overtaken by its successor, with the
  timestamp one stride below, has the low bits of the prediction 65535 strides ahead, and is given that timestamp; the CRC of the packet does
  not cover the decoded values.
\<close>

lemma reordered_timestamp_mistaken:
  "fo_timestamp (rtp_context_zero\<lparr>rtp_ts_stride := 160, rtp_last_seq := 100, rtp_last_ts := 16000\<rparr>) 99
     (fo_ts (context_zero\<lparr>ctx_rtp := rtp_context_zero\<lparr>rtp_ts_stride := 160, rtp_last_seq := 99, rtp_last_ts := 15840\<rparr>\<rparr>)) =
   Done 10501600"
  by code_simp

section \<open>Output without a declared length\<close>

text \<open>
  With \<open>*out_len == 0\<close> the emitter writes all the same: for every context with a valid CID it runs past the end of an
  empty output.
\<close>

lemma rtp_fo_unchecked_output:
  assumes "is_valid_for_space (ctx_cid c) (ctx_large_cid c)"
  shows "emit_rtp_fo [] 0 c = Fault"
proof (cases "ctx_large_cid c")
  case True
  moreover have "sdvl (ctx_cid c) \<noteq> []" by (simp add: sdvl_def)
  ultimately show ?thesis
    using assms by (auto simp: emit_rtp_fo_def Let_def write_zero rtp_fo_cid_def write_large_eq is_valid_for_space_def)
next
  case False
  have first: "write_bits bw v n \<in> {Fault, Done (bw\<lparr>bw_bitpos := bw_bitpos bw + n\<rparr>)}" if "bw_buf bw = []" for bw v n
  proof -
    have loop: "write_loop [] p v n \<in> {Fault, Done ([], p + n)}" for p
    proof (induction n arbitrary: p)
      case (Suc n)
      then show ?case using Suc [of "Suc p"] by (auto simp: rd_def)
    qed simp
    show ?thesis using loop [of "bw_bitpos bw"] that by (cases bw) (auto simp: write_bits_def)
  qed
  have bits: "\<not> bit (6 :: u32) 5" "\<not> bit (6 :: u32) 4" "\<not> bit (6 :: u32) 3" "bit (6 :: u32) 2" by code_simp+
  have step: "write_loop [] p v (Suc i) = (if bit v i then Fault else write_loop [] (p + 1) v i)" for p v i
    by (simp add: rd_def)
  have "write_loop [] p 6 6 = Fault" for p
    using bits step [of p 6 5] step [of "p + 1" 6 4] step [of "p + 1 + 1" 6 3] step [of "p + 1 + 1 + 1" 6 2] by simp
  then have six: "write_bits bw 6 6 = Fault" if "bw_buf bw = []" for bw
    using that by (simp add: write_bits_def)
  let ?bw = "\<lparr>bw_buf = [], bw_bitpos = 2\<rparr>"
  show ?thesis
    using assms False first [of ?bw "ctx_cid c AND 15" 4] six [of "?bw\<lparr>bw_bitpos := 6\<rparr>"]
    by (auto simp: emit_rtp_fo_def Let_def write_zero rtp_fo_cid_def numeral_2_eq_2)
qed

end
