(* ===== verification/Ppp.thy ===== *)
theory Ppp
  imports Protocols
begin

text \<open>
  The ROHC option of PPP (\<open>core/ppp.hpp\<close>): parsing and writing the IP-Compression-Protocol option, and merging the
  options of two network protocols that share a channel. The array of profiles is a list of sixteen
  elements of which \<open>profile_count\<close> are in use; \<open>profile_list\<close> is the list in use.
\<close>

section \<open>Model\<close>

definition ip_compression_option_type :: byte where
  "ip_compression_option_type = 2"

definition ip_compression_protocol_rohc :: u16 where
  "ip_compression_protocol_rohc = 0x0003"

definition protocol_rohc_small_cid :: u16 where
  "protocol_rohc_small_cid = 0x0003"

definition protocol_rohc_large_cid :: u16 where
  "protocol_rohc_large_cid = 0x0005"

definition suboption_profiles :: byte where
  "suboption_profiles = 1"

definition max_cid_limit :: u16 where
  "max_cid_limit = 16383"

definition max_profiles :: nat where
  "max_profiles = 16"

record rohc_option =
  ro_max_cid :: u16
  ro_mrru :: u16
  ro_max_header :: u16
  ro_profiles :: "u16 list"
  ro_profile_count :: nat

definition rohc_option_default :: rohc_option where
  "rohc_option_default = \<lparr>ro_max_cid = 15, ro_mrru = 0, ro_max_header = 168, ro_profiles = replicate 16 0, ro_profile_count = 0\<rparr>"

definition is_rohc_protocol_field :: "u16 \<Rightarrow> bool" where
  "is_rohc_protocol_field protocol \<longleftrightarrow> protocol = protocol_rohc_small_cid \<or> protocol = protocol_rohc_large_cid"

definition uses_large_cid_protocol :: "u16 \<Rightarrow> bool" where
  "uses_large_cid_protocol protocol \<longleftrightarrow> protocol = protocol_rohc_large_cid"

definition elem :: "'a list \<Rightarrow> nat \<Rightarrow> ('a \<Rightarrow> 'b res) \<Rightarrow> 'b res" where
  \<comment> \<open>reading an element of an array\<close>
  "elem xs i k = (if i < length xs then k (xs ! i) else Fault)"

definition ppp_append_profile :: "rohc_option \<Rightarrow> u16 \<Rightarrow> rohc_option res" where
  "ppp_append_profile opt profile =
     (let n = ro_profile_count opt;
          store = (if n < length (ro_profiles opt)
                   then Done (opt\<lparr>ro_profiles := (ro_profiles opt)[n := profile], ro_profile_count := n + 1\<rparr>) else Fault) in
      if n \<ge> max_profiles then Reject
      else if n > 0 then elem (ro_profiles opt) (n - 1) (\<lambda>last. if last \<ge> profile then Reject else store)
      else store)"

definition ppp_valid :: "rohc_option \<Rightarrow> bool" where
  "ppp_valid opt \<longleftrightarrow> ro_max_cid opt \<le> max_cid_limit \<and> ro_profile_count opt > 0 \<and> ro_profile_count opt \<le> max_profiles"

definition ppp_read_u16 :: "bytes \<Rightarrow> nat \<Rightarrow> (u16 \<Rightarrow> 'a res) \<Rightarrow> 'a res" where
  "ppp_read_u16 data pos k = (if pos + 2 > length data then Reject else rd data pos (\<lambda>a. rd data (pos + 1) (\<lambda>b. k (of_be16 a b))))"

definition ppp_write_u16 :: "nat \<Rightarrow> bytes \<Rightarrow> u16 \<Rightarrow> (bytes \<Rightarrow> 'a res) \<Rightarrow> 'a res" where
  "ppp_write_u16 capacity out v k = (if length out + 2 > capacity then Reject else put_all capacity out (be16 v) k)"

lemma ppp_read_u16_cong [fundef_cong]:
  "data = data' \<Longrightarrow> pos = pos' \<Longrightarrow> (\<And>v. k v = k' v) \<Longrightarrow> ppp_read_u16 data pos k = ppp_read_u16 data' pos' k'"
  by (simp add: ppp_read_u16_def)

function profile_loop :: "bytes \<Rightarrow> nat \<Rightarrow> nat \<Rightarrow> rohc_option \<Rightarrow> rohc_option res" where
  \<comment> \<open>the inner loop of \<open>parse_rohc_option\<close> up to \<open>stop\<close>\<close>
  "profile_loop data profile_pos stop opt =
     (if profile_pos < stop then
        ppp_read_u16 data profile_pos (\<lambda>profile.
          seq_res (ppp_append_profile opt profile) (\<lambda>opt. profile_loop data (profile_pos + 2) stop opt))
      else Done opt)"
  by pat_completeness auto
termination by (relation "measure (\<lambda>(data, pos, stop, opt). stop - pos)") auto

declare profile_loop.simps [simp del]

function suboption_loop :: "bytes \<Rightarrow> nat \<Rightarrow> rohc_option \<Rightarrow> rohc_option res" where
  \<comment> \<open>the outer loop of \<open>parse_rohc_option\<close>\<close>
  "suboption_loop data pos opt =
     (if pos < length data then
        if pos + 2 > length data then Reject
        else rd data pos (\<lambda>type. rd data (pos + 1) (\<lambda>sub_len.
          if sub_len < 2 \<or> pos + unat sub_len > length data then Reject
          else if type = suboption_profiles then
            if sub_len < 4 \<or> (unat sub_len - 2) mod 2 \<noteq> 0 then Reject
            else seq_res (profile_loop data (pos + 2) (pos + unat sub_len) opt) (\<lambda>opt.
              suboption_loop data (pos + unat sub_len) opt)
          else suboption_loop data (pos + unat sub_len) opt))
      else Done opt)"
  by pat_completeness auto
termination by (relation "measure (\<lambda>(data, pos, opt). length data - pos)") (auto simp: word_less_nat_alt not_less)

declare suboption_loop.simps [simp del]

definition parse_rohc_option :: "bytes \<Rightarrow> rohc_option res" where
  "parse_rohc_option data =
     (if length data < 10 then Reject
      else rd data 0 (\<lambda>type. rd data 1 (\<lambda>len_octet.
        if type \<noteq> ip_compression_option_type \<or> unat len_octet \<noteq> length data then Reject
        else ppp_read_u16 data 2 (\<lambda>protocol. if protocol \<noteq> ip_compression_protocol_rohc then Reject
        else ppp_read_u16 data 4 (\<lambda>max_cid. if max_cid > max_cid_limit then Reject
        else ppp_read_u16 data 6 (\<lambda>mrru. ppp_read_u16 data 8 (\<lambda>max_header.
          seq_res (suboption_loop data 10 (rohc_option_default\<lparr>ro_max_cid := max_cid, ro_mrru := mrru, ro_max_header := max_header\<rparr>))
            (\<lambda>opt. if ppp_valid opt then Done opt else Reject))))))))"

fun write_profiles :: "nat \<Rightarrow> bytes \<Rightarrow> u16 list \<Rightarrow> nat \<Rightarrow> nat \<Rightarrow> bytes res" where
  \<comment> \<open>the loop of \<open>write_rohc_option\<close> from index \<open>i\<close>, with \<open>n\<close> elements left\<close>
  "write_profiles capacity out profiles i 0 = Done out"
| "write_profiles capacity out profiles i (Suc n) =
     elem profiles i (\<lambda>p. ppp_write_u16 capacity out p (\<lambda>out. write_profiles capacity out profiles (i + 1) n))"

definition write_rohc_option :: "nat \<Rightarrow> rohc_option \<Rightarrow> bytes res" where
  "write_rohc_option cap opt =
     (if \<not> ppp_valid opt then Reject
      else let needed = 10 + 2 + ro_profile_count opt * 2 in
        if needed > 255 \<or> cap < needed then Reject
        else put cap [] ip_compression_option_type (\<lambda>out. put cap out (of_nat needed) (\<lambda>out.
          ppp_write_u16 cap out ip_compression_protocol_rohc (\<lambda>out. ppp_write_u16 cap out (ro_max_cid opt) (\<lambda>out.
          ppp_write_u16 cap out (ro_mrru opt) (\<lambda>out. ppp_write_u16 cap out (ro_max_header opt) (\<lambda>out.
          put cap out suboption_profiles (\<lambda>out. put cap out (of_nat (2 + ro_profile_count opt * 2)) (\<lambda>out.
          write_profiles cap out (ro_profiles opt) 0 (ro_profile_count opt))))))))))"

function merge_loop :: "rohc_option \<Rightarrow> rohc_option \<Rightarrow> nat \<Rightarrow> nat \<Rightarrow> rohc_option \<Rightarrow> rohc_option res" where
  "merge_loop a b ai bi merged =
     (if ai < ro_profile_count a \<or> bi < ro_profile_count b then
        if bi \<ge> ro_profile_count b then
          elem (ro_profiles a) ai (\<lambda>p. seq_res (ppp_append_profile merged p) (merge_loop a b (ai + 1) bi))
        else if ai \<ge> ro_profile_count a then
          elem (ro_profiles b) bi (\<lambda>q. seq_res (ppp_append_profile merged q) (merge_loop a b ai (bi + 1)))
        else elem (ro_profiles a) ai (\<lambda>p. elem (ro_profiles b) bi (\<lambda>q.
          if p < q then seq_res (ppp_append_profile merged p) (merge_loop a b (ai + 1) bi)
          else if q < p then seq_res (ppp_append_profile merged q) (merge_loop a b ai (bi + 1))
          else seq_res (ppp_append_profile merged p) (merge_loop a b (ai + 1) (bi + 1))))
      else Done merged)"
  by pat_completeness auto
termination by (relation "measure (\<lambda>(a, b, ai, bi, m). ro_profile_count a - ai + (ro_profile_count b - bi))") auto

declare merge_loop.simps [simp del]

definition merge_channel_options :: "rohc_option \<Rightarrow> rohc_option \<Rightarrow> rohc_option res" where
  "merge_channel_options a b =
     (if \<not> ppp_valid a \<or> \<not> ppp_valid b then Reject
      else seq_res (merge_loop a b 0 0 (rohc_option_default\<lparr>
          ro_max_cid := (if ro_max_cid a > ro_max_cid b then ro_max_cid a else ro_max_cid b),
          ro_mrru := (if ro_mrru a > ro_mrru b then ro_mrru a else ro_mrru b),
          ro_max_header := (if ro_max_header a > ro_max_header b then ro_max_header a else ro_max_header b)\<rparr>))
        (\<lambda>merged. if ppp_valid merged then Done merged else Reject))"

section \<open>The profiles in use\<close>

definition profile_list :: "rohc_option \<Rightarrow> u16 list" where
  "profile_list opt = take (ro_profile_count opt) (ro_profiles opt)"

definition option_wf :: "rohc_option \<Rightarrow> bool" where
  "option_wf opt \<longleftrightarrow> length (ro_profiles opt) = 16 \<and> ro_profile_count opt \<le> 16"

abbreviation ascending :: "u16 list \<Rightarrow> bool" where
  "ascending ps \<equiv> sorted_wrt (<) ps"

definition same_header :: "rohc_option \<Rightarrow> rohc_option \<Rightarrow> bool" where
  "same_header o1 o2 \<longleftrightarrow> ro_max_cid o1 = ro_max_cid o2 \<and> ro_mrru o1 = ro_mrru o2 \<and> ro_max_header o1 = ro_max_header o2"

lemma length_profile_list: "option_wf opt \<Longrightarrow> length (profile_list opt) = ro_profile_count opt"
  by (simp add: option_wf_def profile_list_def)

fun append_all :: "rohc_option \<Rightarrow> u16 list \<Rightarrow> rohc_option res" where
  "append_all opt [] = Done opt"
| "append_all opt (p # ps) = seq_res (ppp_append_profile opt p) (\<lambda>opt. append_all opt ps)"

lemma append_profile_law:
  assumes wf: "option_wf opt" and asc: "ascending (profile_list opt)"
  shows "if ro_profile_count opt < 16 \<and> ascending (profile_list opt @ [p])
    then \<exists>o'. ppp_append_profile opt p = Done o' \<and> option_wf o' \<and> same_header opt o' \<and> profile_list o' = profile_list opt @ [p]
    else ppp_append_profile opt p = Reject"
proof -
  let ?n = "ro_profile_count opt"
  have last: "ascending (profile_list opt @ [p]) \<longleftrightarrow> (?n = 0 \<or> ro_profiles opt ! (?n - 1) < p)"
  proof (cases "?n = 0")
    case False
    then obtain m where m: "?n = Suc m" by (cases ?n) auto
    then have "profile_list opt = take m (ro_profiles opt) @ [ro_profiles opt ! m]"
      using wf take_Suc_conv_app_nth [of m "ro_profiles opt"] by (simp add: profile_list_def option_wf_def)
    then show ?thesis using asc m by (auto simp: sorted_wrt_append intro: order_less_trans)
  qed (simp add: profile_list_def)
  show ?thesis
  proof (cases "?n < 16 \<and> ascending (profile_list opt @ [p])")
    case True
    let ?o = "opt\<lparr>ro_profiles := (ro_profiles opt)[?n := p], ro_profile_count := ?n + 1\<rparr>"
    have "ppp_append_profile opt p = Done ?o"
      using True last wf by (auto simp: ppp_append_profile_def Let_def elem_def max_profiles_def option_wf_def)
    moreover have "profile_list ?o = profile_list opt @ [p]"
      using True wf take_Suc_conv_app_nth [of ?n "(ro_profiles opt)[?n := p]"] by (simp add: profile_list_def option_wf_def)
    moreover have "option_wf ?o" "same_header opt ?o" using True wf by (simp_all add: option_wf_def same_header_def)
    ultimately show ?thesis using True by auto
  next
    case False
    then have "ppp_append_profile opt p = Reject"
      using last wf by (auto simp: ppp_append_profile_def Let_def elem_def max_profiles_def option_wf_def not_less)
    then show ?thesis using False by presburger
  qed
qed

lemma append_all_law:
  "option_wf opt \<Longrightarrow> ascending (profile_list opt) \<Longrightarrow>
   (if ro_profile_count opt + length ps \<le> 16 \<and> ascending (profile_list opt @ ps)
    then \<exists>o'. append_all opt ps = Done o' \<and> option_wf o' \<and> same_header opt o' \<and> profile_list o' = profile_list opt @ ps
    else append_all opt ps = Reject)"
proof (induction ps arbitrary: opt)
  case Nil
  then show ?case by (simp add: same_header_def option_wf_def)
next
  case (Cons p ps)
  have split: "ascending (profile_list opt @ p # ps) \<longleftrightarrow>
      ascending (profile_list opt @ [p]) \<and> ascending ((profile_list opt @ [p]) @ ps)"
    by (auto simp: sorted_wrt_append)
  show ?case
  proof (cases "ro_profile_count opt < 16 \<and> ascending (profile_list opt @ [p])")
    case True
    then obtain o' where o': "ppp_append_profile opt p = Done o'" "option_wf o'" "same_header opt o'" "profile_list o' = profile_list opt @ [p]"
      using append_profile_law [OF Cons.prems, of p] by auto
    have n: "ro_profile_count o' = Suc (ro_profile_count opt)"
      using length_profile_list [OF o'(2)] length_profile_list [OF Cons.prems(1)] o'(4) by simp
    have all: "append_all opt (p # ps) = append_all o' ps" using o'(1) by simp
    have fits: "(ro_profile_count opt + length (p # ps) \<le> 16 \<and> ascending (profile_list opt @ p # ps)) \<longleftrightarrow>
        (ro_profile_count o' + length ps \<le> 16 \<and> ascending (profile_list o' @ ps))"
      using n True split o'(4) by auto
    have "same_header o' x \<Longrightarrow> same_header opt x" for x using o'(3) by (simp add: same_header_def)
    moreover have "ascending (profile_list o')" using o'(4) True by simp
    ultimately show ?thesis
      unfolding all fits using Cons.IH [OF o'(2)] o'(4) by (metis append.assoc append_Cons append_Nil)
  next
    case False
    then have "ppp_append_profile opt p = Reject" using append_profile_law [OF Cons.prems, of p] by presburger
    then show ?thesis using False split by auto
  qed
qed

section \<open>Parsing what was written\<close>

lemma ppp_read_be16: "ppp_read_u16 (pre @ be16 v @ post) (length pre) k = k v"
  using of_be16_be16 [of v] by (simp add: ppp_read_u16_def be16_def nth_append)

lemma profile_loop_law:
  "profile_loop (pre @ concat (map be16 ps) @ post) (length pre) (length pre + 2 * length ps) opt = append_all opt ps"
proof (induction ps arbitrary: pre opt)
  case Nil
  then show ?case by (simp add: profile_loop.simps)
next
  case (Cons p ps)
  have "profile_loop (pre @ concat (map be16 (p # ps)) @ post) (length pre) (length pre + 2 * length (p # ps)) opt =
      seq_res (ppp_append_profile opt p) (\<lambda>opt. profile_loop ((pre @ be16 p) @ concat (map be16 ps) @ post)
        (length (pre @ be16 p)) (length (pre @ be16 p) + 2 * length ps) opt)"
    using ppp_read_be16 [of pre p "concat (map be16 ps) @ post"] by (subst profile_loop.simps) (simp add: be16_def)
  then show ?case unfolding Cons.IH by simp
qed

lemma length_concat_be16 [simp]: "length (concat (map be16 ps)) = 2 * length ps"
  by (induction ps) (simp_all add: be16_def)

lemma write_profiles_law:
  "i + n \<le> length ps \<Longrightarrow> length out + 2 * n \<le> cap \<Longrightarrow> write_profiles cap out ps i n = Done (out @ concat (map be16 (take n (drop i ps))))"
proof (induction n arbitrary: i out)
  case (Suc n)
  then have "take (Suc n) (drop i ps) = ps ! i # take n (drop (Suc i) ps)" by (simp add: Cons_nth_drop_Suc [symmetric])
  with Suc show ?case by (simp add: elem_def ppp_write_u16_def be16_def)
qed simp

definition option_octets :: "rohc_option \<Rightarrow> bytes" where
  "option_octets opt = [2, of_nat (12 + 2 * ro_profile_count opt)] @ be16 3 @ be16 (ro_max_cid opt) @ be16 (ro_mrru opt) @
     be16 (ro_max_header opt) @ [1, of_nat (2 + 2 * ro_profile_count opt)] @ concat (map be16 (profile_list opt))"

lemma write_rohc_option_eq:
  assumes "option_wf opt"
  shows "write_rohc_option cap opt = (if ppp_valid opt \<and> 12 + 2 * ro_profile_count opt \<le> cap then Done (option_octets opt) else Reject)"
proof -
  have "ro_profile_count opt \<le> length (ro_profiles opt)" "ro_profile_count opt \<le> 16" using assms by (simp_all add: option_wf_def)
  then show ?thesis
    using write_profiles_law [of 0 "ro_profile_count opt" "ro_profiles opt" _ cap]
    by (auto simp: write_rohc_option_def option_octets_def Let_def ppp_write_u16_def be16_def profile_list_def
        ip_compression_option_type_def ip_compression_protocol_rohc_def suboption_profiles_def mult.commute)
qed

lemma of_be16_octets: "of_be16 (ucast (drop_bit 8 v)) (ucast (v AND 255)) = v"
  using of_be16_be16 [of v] by (simp add: be16_def)

lemma of_nat_octet: "n < 256 \<Longrightarrow> unat (of_nat n :: byte) = n"
  by (simp add: unsigned_of_nat take_bit_nat_eq_self)

lemma parse_option_octets:
  assumes wf: "option_wf opt" and v: "ppp_valid opt"
  shows "parse_rohc_option (option_octets opt) =
    seq_res (append_all (rohc_option_default\<lparr>ro_max_cid := ro_max_cid opt, ro_mrru := ro_mrru opt, ro_max_header := ro_max_header opt\<rparr>)
      (profile_list opt)) (\<lambda>o'. if ppp_valid o' then Done o' else Reject)"
proof -
  let ?n = "ro_profile_count opt" and ?d = "option_octets opt"
  let ?o = "rohc_option_default\<lparr>ro_max_cid := ro_max_cid opt, ro_mrru := ro_mrru opt, ro_max_header := ro_max_header opt\<rparr>"
  have n: "0 < ?n" "?n \<le> 16" "ro_max_cid opt \<le> max_cid_limit" using v wf by (simp_all add: ppp_valid_def option_wf_def)
  have len: "length ?d = 12 + 2 * ?n" using length_profile_list [OF wf] by (simp add: option_octets_def be16_def)
  define pre where "pre = [2, of_nat (12 + 2 * ?n)] @ be16 3 @ be16 (ro_max_cid opt) @ be16 (ro_mrru opt) @ be16 (ro_max_header opt) @
    [1, of_nat (2 + 2 * ?n) :: byte]"
  have d: "?d = pre @ concat (map be16 (profile_list opt)) @ []" "length pre = 12" by (simp_all add: option_octets_def pre_def be16_def)
  have inner: "profile_loop ?d 12 (12 + 2 * ?n) o' = append_all o' (profile_list opt)" for o'
    using profile_loop_law [of pre "profile_list opt" "[]" o'] length_profile_list [OF wf] d by simp
  have at: "?d ! 0 = 2" "?d ! 1 = of_nat (12 + 2 * ?n)" "?d ! 10 = 1" "?d ! 11 = of_nat (2 + 2 * ?n)"
    by (simp_all add: option_octets_def be16_def)
  have end_loop: "suboption_loop ?d (12 + 2 * ?n) o' = Done o'" for o' by (simp add: suboption_loop.simps len)
  have sub: "suboption_loop ?d 10 o' = append_all o' (profile_list opt)" for o'
  proof -
    have "unat (?d ! 11) = 2 + 2 * ?n" using n at(4) by (simp only: of_nat_octet)
    then show ?thesis
      using n len at(3) inner [of o'] end_loop
      by (subst suboption_loop.simps) (simp add: suboption_profiles_def word_less_nat_alt, cases "append_all o' (profile_list opt)", simp_all)
  qed
  have reads: "ppp_read_u16 ?d 2 k = k 3" "ppp_read_u16 ?d 4 k = k (ro_max_cid opt)" "ppp_read_u16 ?d 6 k = k (ro_mrru opt)"
    "ppp_read_u16 ?d 8 k = k (ro_max_header opt)" for k
    using len by (simp_all add: ppp_read_u16_def) (simp_all add: option_octets_def be16_def of_be16_octets, simp add: of_be16_def)
  have "unat (?d ! 1) = length ?d" using n len at(2) by (simp only: of_nat_octet)
  then show ?thesis
    using len at(1) leD [OF n(3)]
    by (simp add: parse_rohc_option_def reads sub ip_compression_option_type_def ip_compression_protocol_rohc_def)
qed


abbreviation start_option :: "rohc_option \<Rightarrow> rohc_option" where
  "start_option opt \<equiv> rohc_option_default\<lparr>ro_max_cid := ro_max_cid opt, ro_mrru := ro_mrru opt, ro_max_header := ro_max_header opt\<rparr>"

lemma start_option_simps [simp]:
  "option_wf (start_option opt)" "profile_list (start_option opt) = []" "ro_profile_count (start_option opt) = 0"
  "same_header (start_option opt) o' \<longleftrightarrow> same_header opt o'"
  by (simp_all add: option_wf_def profile_list_def rohc_option_default_def same_header_def)

lemma appended_valid:
  assumes "option_wf o'" and "same_header opt o'" and "ppp_valid opt" and "profile_list o' \<noteq> []"
  shows "ppp_valid o'"
proof -
  have "0 < ro_profile_count o'" using assms(4) length_profile_list [OF assms(1)] by (metis length_greater_0_conv)
  then show ?thesis using assms by (auto simp: ppp_valid_def same_header_def option_wf_def max_profiles_def)
qed

text \<open>
  C39. A valid option whose profiles fit the array is written when the output holds twelve octets and two per
  profile, and has that length; the parser accepts the written octets with every field and the
  profiles in their order if the profiles are strictly ascending, and rejects them otherwise.
\<close>

theorem ppp_option_roundtrip:
  assumes wf: "option_wf opt" and valid: "ppp_valid opt" and cap: "12 + 2 * ro_profile_count opt \<le> cap"
  shows "\<exists>out. write_rohc_option cap opt = Done out \<and> length out = 12 + 2 * ro_profile_count opt \<and>
    (if ascending (profile_list opt)
     then \<exists>o'. parse_rohc_option out = Done o' \<and> same_header opt o' \<and> profile_list o' = profile_list opt
     else parse_rohc_option out = Reject)"
proof -
  let ?out = "option_octets opt"
  have fits: "ro_profile_count opt \<le> 16" using wf by (simp add: option_wf_def)
  have law: "if ascending (profile_list opt)
      then \<exists>o'. append_all (start_option opt) (profile_list opt) = Done o' \<and> option_wf o' \<and> same_header opt o' \<and> profile_list o' = profile_list opt
      else append_all (start_option opt) (profile_list opt) = Reject"
    using append_all_law [of "start_option opt" "profile_list opt"] length_profile_list [OF wf] fits
    by (cases "ascending (profile_list opt)") auto
  have ne: "profile_list opt \<noteq> []" using valid length_profile_list [OF wf] by (auto simp: ppp_valid_def)
  have "write_rohc_option cap opt = Done ?out" using valid cap by (simp add: write_rohc_option_eq [OF wf])
  moreover have "length ?out = 12 + 2 * ro_profile_count opt" using length_profile_list [OF wf] by (simp add: option_octets_def)
  moreover have "if ascending (profile_list opt)
     then \<exists>o'. parse_rohc_option ?out = Done o' \<and> same_header opt o' \<and> profile_list o' = profile_list opt
     else parse_rohc_option ?out = Reject"
  proof (cases "ascending (profile_list opt)")
    case True
    then obtain o' where o': "append_all (start_option opt) (profile_list opt) = Done o'" "option_wf o'" "same_header opt o'"
      "profile_list o' = profile_list opt" using law by auto
    have "ppp_valid o'" using appended_valid [OF o'(2,3) valid] o'(4) ne by simp
    then show ?thesis using True o' by (simp add: parse_option_octets [OF wf valid])
  qed (use law in \<open>simp add: parse_option_octets [OF wf valid]\<close>)
  ultimately show ?thesis by blast
qed

definition example_option :: rohc_option where
  "example_option = \<lparr>ro_max_cid = 15, ro_mrru = 0, ro_max_header = 168, ro_profiles = [0x101, 0x102] @ replicate 14 0, ro_profile_count = 2\<rparr>"

theorem ppp_option_roundtrip_witness:
  "\<exists>out. write_rohc_option 16 example_option = Done out \<and> length out = 16 \<and>
    (\<exists>o'. parse_rohc_option out = Done o' \<and> same_header example_option o' \<and> profile_list o' = [0x101, 0x102])"
proof -
  have "option_wf example_option" "ppp_valid example_option" "profile_list example_option = [0x101, 0x102]"
    "ro_profile_count example_option = 2"
    by (simp_all add: example_option_def option_wf_def ppp_valid_def max_cid_limit_def max_profiles_def profile_list_def)
  then show ?thesis using ppp_option_roundtrip [of example_option 16] by simp
qed

section \<open>Parsing any octets\<close>

abbreviation parsed_ok :: "rohc_option \<Rightarrow> bool" where
  "parsed_ok opt \<equiv> option_wf opt \<and> ascending (profile_list opt)"

lemma append_profile_safe: "parsed_ok opt \<Longrightarrow> safe parsed_ok (ppp_append_profile opt p)"
  using append_profile_law [of opt p] by (auto split: if_splits)

lemma ppp_read_u16_safe [safe_intros]: "(\<And>v. safe P (k v)) \<Longrightarrow> safe P (ppp_read_u16 data pos k)"
  by (simp add: ppp_read_u16_def)

lemma profile_loop_safe: "parsed_ok opt \<Longrightarrow> safe parsed_ok (profile_loop data pos stop opt)"
proof (induction data pos stop opt rule: profile_loop.induct)
  case (1 data pos stop opt)
  have "safe parsed_ok (seq_res (ppp_append_profile opt v) (\<lambda>o'. profile_loop data (pos + 2) stop o'))" if "pos < stop" for v
  proof (cases "ppp_append_profile opt v")
    case (Done o')
    then have "parsed_ok o'" using append_profile_safe [OF 1(2), of v] by simp
    then show ?thesis using 1(1) [OF that] Done by simp
  qed (use append_profile_safe [OF 1(2), of v] in simp_all)
  then show ?case using 1(2) by (subst profile_loop.simps) (auto intro!: safe_intros)
qed

lemma suboption_loop_safe: "parsed_ok opt \<Longrightarrow> safe parsed_ok (suboption_loop data pos opt)"
proof (induction data pos opt rule: suboption_loop.induct)
  case (1 data pos opt)
  let ?l = "unat (data ! (pos + 1))"
  have step: "safe parsed_ok (seq_res (profile_loop data (pos + 2) (pos + ?l) opt) (suboption_loop data (pos + ?l)))"
    if c: "pos < length data" "\<not> length data < pos + 2" "pos + 1 < length data" "\<not> (data ! (pos + 1) < 2 \<or> length data < pos + ?l)"
      "data ! pos = suboption_profiles" "\<not> (data ! (pos + 1) < 4 \<or> (?l - 2) mod 2 \<noteq> 0)"
  proof (cases "profile_loop data (pos + 2) (pos + ?l) opt")
    case (Done o')
    then have "parsed_ok o'" using profile_loop_safe [OF 1(3)] by (metis safe_simps(1))
    then show ?thesis using 1(1) [OF c(1,2,1,3-6) Done] Done by simp
  qed (use profile_loop_safe [OF 1(3), of data "pos + 2" "pos + ?l"] in simp_all)
  show ?case
    by (subst suboption_loop.simps) (use 1(2,3) step in \<open>simp add: rd_def\<close>)
qed

theorem parse_rohc_option_safe:
  "safe (\<lambda>opt. ppp_valid opt \<and> option_wf opt \<and> ascending (profile_list opt)) (parse_rohc_option data)"
proof -
  have "parsed_ok (rohc_option_default\<lparr>ro_max_cid := c, ro_mrru := m, ro_max_header := h\<rparr>)" for c m h
    by (simp add: option_wf_def profile_list_def rohc_option_default_def)
  then have "safe (\<lambda>opt. ppp_valid opt \<and> option_wf opt \<and> ascending (profile_list opt))
      (seq_res (suboption_loop data 10 (rohc_option_default\<lparr>ro_max_cid := c, ro_mrru := m, ro_max_header := h\<rparr>))
        (\<lambda>opt. if ppp_valid opt then Done opt else Reject))" for c m h
    by (rule safe_seq [OF suboption_loop_safe]) simp
  then show ?thesis by (auto simp: parse_rohc_option_def intro!: safe_intros)
qed

section \<open>Merging two options\<close>

fun merge_lists :: "u16 list \<Rightarrow> u16 list \<Rightarrow> u16 list" where
  "merge_lists xs [] = xs"
| "merge_lists [] ys = ys"
| "merge_lists (x # xs) (y # ys) =
     (if x < y then x # merge_lists xs (y # ys) else if y < x then y # merge_lists (x # xs) ys else x # merge_lists xs ys)"

lemma merge_lists_Nil [simp]: "merge_lists [] ys = ys"
  by (cases ys) simp_all

lemma set_merge_lists: "set (merge_lists xs ys) = set xs \<union> set ys"
  by (induction xs ys rule: merge_lists.induct) auto

lemma merge_lists_ascending: "ascending xs \<Longrightarrow> ascending ys \<Longrightarrow> ascending (merge_lists xs ys)"
proof (induction xs ys rule: merge_lists.induct)
  case (3 x xs y ys)
  then show ?case by (auto simp: set_merge_lists intro: order_less_trans)
qed simp_all

lemma merge_lists_eq: "ascending xs \<Longrightarrow> ascending ys \<Longrightarrow> merge_lists xs ys = sorted_list_of_set (set xs \<union> set ys)"
  by (rule strict_sorted_equal) (simp_all add: merge_lists_ascending set_merge_lists)

lemma drop_profile_list:
  "option_wf opt \<Longrightarrow> i < ro_profile_count opt \<Longrightarrow> drop i (profile_list opt) = ro_profiles opt ! i # drop (Suc i) (profile_list opt)"
  using length_profile_list [of opt] Cons_nth_drop_Suc [of i "profile_list opt"] by (simp add: profile_list_def)

lemma merge_loop_law:
  assumes "option_wf a" and "option_wf b"
  shows "merge_loop a b ai bi m = append_all m (merge_lists (drop ai (profile_list a)) (drop bi (profile_list b)))"
  using assms
proof (induction a b ai bi m rule: merge_loop.induct)
  case (1 a b ai bi m)
  note wf = 1(6,7)
  have arr: "i < ro_profile_count a \<Longrightarrow> elem (ro_profiles a) i k = k (ro_profiles a ! i)"
    "i < ro_profile_count b \<Longrightarrow> elem (ro_profiles b) i k = k (ro_profiles b ! i)" for i and k :: "u16 \<Rightarrow> rohc_option res"
    using wf by (simp_all add: elem_def option_wf_def)
  have done_lists: "ro_profile_count a \<le> i \<Longrightarrow> drop i (profile_list a) = []" "ro_profile_count b \<le> i \<Longrightarrow> drop i (profile_list b) = []" for i
    using length_profile_list wf by simp_all
  have cong: "(\<And>x. r = Done x \<Longrightarrow> k x = k' x) \<Longrightarrow> seq_res r k = seq_res r k'" for r :: "rohc_option res" and k k' :: "rohc_option \<Rightarrow> rohc_option res"
    by (cases r) auto
  consider (stop) "\<not> (ai < ro_profile_count a \<or> bi < ro_profile_count b)"
    | (left) "ai < ro_profile_count a" "ro_profile_count b \<le> bi"
    | (right) "bi < ro_profile_count b" "ro_profile_count a \<le> ai"
    | (both) "ai < ro_profile_count a" "bi < ro_profile_count b" by linarith
  then show ?case
  proof cases
    case stop
    then show ?thesis by (subst merge_loop.simps) (simp add: done_lists)
  next
    case left
    note dl = drop_profile_list [OF wf(1) left(1)] done_lists(2) [OF left(2)]
    have "seq_res (ppp_append_profile m (ro_profiles a ! ai)) (merge_loop a b (ai + 1) bi) =
        seq_res (ppp_append_profile m (ro_profiles a ! ai)) (\<lambda>m. append_all m (drop (Suc ai) (profile_list a)))"
      by (rule cong) (use 1(1) left wf dl in simp)
    then show ?thesis using left by (subst merge_loop.simps) (simp add: arr dl)
  next
    case right
    note dl = drop_profile_list [OF wf(2) right(1)] done_lists(1) [OF right(2)]
    have "seq_res (ppp_append_profile m (ro_profiles b ! bi)) (merge_loop a b ai (bi + 1)) =
        seq_res (ppp_append_profile m (ro_profiles b ! bi)) (\<lambda>m. append_all m (drop (Suc bi) (profile_list b)))"
      by (rule cong) (use 1(2) right wf dl in simp)
    then show ?thesis using right by (subst merge_loop.simps) (simp add: arr dl)
  next
    case both
    note dl = drop_profile_list [OF wf(1) both(1)] drop_profile_list [OF wf(2) both(2)]
    let ?p = "ro_profiles a ! ai" and ?q = "ro_profiles b ! bi"
    have lt: "?p < ?q \<Longrightarrow> seq_res (ppp_append_profile m ?p) (merge_loop a b (ai + 1) bi) =
        seq_res (ppp_append_profile m ?p) (\<lambda>m. append_all m (merge_lists (drop (Suc ai) (profile_list a)) (drop bi (profile_list b))))"
      by (rule cong) (use 1(3) both wf in simp)
    have gt: "\<not> ?p < ?q \<Longrightarrow> ?q < ?p \<Longrightarrow> seq_res (ppp_append_profile m ?q) (merge_loop a b ai (bi + 1)) =
        seq_res (ppp_append_profile m ?q) (\<lambda>m. append_all m (merge_lists (drop ai (profile_list a)) (drop (Suc bi) (profile_list b))))"
      by (rule cong) (use 1(4) both wf in simp)
    have eq: "\<not> ?p < ?q \<Longrightarrow> \<not> ?q < ?p \<Longrightarrow> seq_res (ppp_append_profile m ?p) (merge_loop a b (ai + 1) (bi + 1)) =
        seq_res (ppp_append_profile m ?p) (\<lambda>m. append_all m (merge_lists (drop (Suc ai) (profile_list a)) (drop (Suc bi) (profile_list b))))"
      by (rule cong) (use 1(5) both wf in simp)
    show ?thesis
      by (subst merge_loop.simps) (use both lt gt eq in \<open>auto simp: arr dl simp del: seq_res.simps\<close>)
  qed
qed

text \<open>
  Merging two options with ascending profiles gives the strictly ascending union of their profiles and the larger
  of their limits, exactly when the union has at most sixteen profiles; otherwise it fails.
\<close>

theorem ppp_merge_union:
  assumes wf: "option_wf a" "option_wf b" and valid: "ppp_valid a" "ppp_valid b"
    and asc: "ascending (profile_list a)" "ascending (profile_list b)"
  defines "u \<equiv> set (profile_list a) \<union> set (profile_list b)"
  shows "if card u \<le> 16
    then \<exists>m. merge_channel_options a b = Done m \<and> profile_list m = sorted_list_of_set u \<and> ppp_valid m \<and> option_wf m \<and>
      ro_max_cid m = max (ro_max_cid a) (ro_max_cid b) \<and> ro_mrru m = max (ro_mrru a) (ro_mrru b) \<and>
      ro_max_header m = max (ro_max_header a) (ro_max_header b)
    else merge_channel_options a b = Reject"
proof -
  define top where "top = rohc_option_default\<lparr>ro_max_cid := max (ro_max_cid a) (ro_max_cid b),
    ro_mrru := max (ro_mrru a) (ro_mrru b), ro_max_header := max (ro_max_header a) (ro_max_header b)\<rparr>"
  let ?l = "sorted_list_of_set u"
  have top: "option_wf top" "profile_list top = []" "ro_profile_count top = 0"
    by (simp_all add: top_def option_wf_def profile_list_def rohc_option_default_def)
  have u: "finite u" "length ?l = card u" "ascending ?l" by (simp_all add: u_def)
  have merge: "merge_channel_options a b = seq_res (append_all top ?l) (\<lambda>m. if ppp_valid m then Done m else Reject)"
    using valid merge_loop_law [OF wf, of 0 0] merge_lists_eq [OF asc]
    by (simp add: merge_channel_options_def top_def u_def max_def not_less [symmetric] if_distrib cong: if_cong)
  have law: "if card u \<le> 16
    then \<exists>m. append_all top ?l = Done m \<and> option_wf m \<and> same_header top m \<and> profile_list m = ?l else append_all top ?l = Reject"
    using append_all_law [OF top(1), of ?l] top u(2,3) by (cases "card u \<le> 16") auto
  show ?thesis
  proof (cases "card u \<le> 16")
    case True
    then obtain m where m: "append_all top ?l = Done m" "option_wf m" "same_header top m" "profile_list m = ?l" using law by auto
    have "profile_list a \<noteq> []" using valid(1) length_profile_list [OF wf(1)] by (auto simp: ppp_valid_def)
    then have "?l \<noteq> []" using u(1) by (simp add: u_def)
    then have pos: "0 < ro_profile_count m" using length_profile_list [OF m(2)] m(4) by (metis length_greater_0_conv)
    have h: "ro_max_cid m = max (ro_max_cid a) (ro_max_cid b)" "ro_mrru m = max (ro_mrru a) (ro_mrru b)"
      "ro_max_header m = max (ro_max_header a) (ro_max_header b)"
      using m(3) by (simp_all add: same_header_def top_def)
    then have "ppp_valid m" using pos m(2) valid by (auto simp: ppp_valid_def option_wf_def max_profiles_def max_def)
    then show ?thesis using True merge m h by simp
  qed (use law merge in simp)
qed

theorem ppp_merge_union_witness:
  "\<exists>m. merge_channel_options example_option (example_option\<lparr>ro_profiles := [0x102, 0x104] @ replicate 14 0, ro_mrru := 1500\<rparr>) = Done m \<and>
    profile_list m = [0x101, 0x102, 0x104] \<and> ro_mrru m = 1500"
proof -
  let ?b = "example_option\<lparr>ro_profiles := [0x102, 0x104] @ replicate 14 0, ro_mrru := 1500\<rparr>"
  have ex: "option_wf example_option" "ppp_valid example_option" "profile_list example_option = [0x101, 0x102]"
    "option_wf ?b" "ppp_valid ?b" "profile_list ?b = [0x102, 0x104]" "ro_mrru example_option = 0" "ro_mrru ?b = 1500"
    by (simp_all add: example_option_def option_wf_def ppp_valid_def max_cid_limit_def max_profiles_def profile_list_def)
  have "sorted_list_of_set ({0x101, 0x102} \<union> {0x102, 0x104 :: u16}) = [0x101, 0x102, 0x104]" by code_simp
  then show ?thesis using ppp_merge_union [of example_option ?b] ex by (auto simp: insert_commute)
qed

end
