(* ===== verification/Sha256.thy ===== *)
theory Sha256
  imports Protocols
begin

text \<open>
  SHA-256 and the keyed digest of ROHCoIPsec (\<open>core/rohcoipsec.hpp\<close>, namespace \<open>detail\<close> and \<open>compute_icv\<close>). The model
  follows the arrays of the source: the message schedule is filled in place, the last one or two blocks
  are patched in a buffer of 128 octets. The reference of the second half is the standard's own description and shares
  no function or table with the model: the constants are the first 32 bits of the fractional parts of square and cube roots of
  primes, rotations are those of the word library, the schedule is a recurrence, the round acts on eight variables, the
  padded message is one list cut into blocks, and HMAC is two nested digests.
\<close>

section \<open>Model\<close>

definition sha256_digest_len :: nat where
  "sha256_digest_len = 32"

definition rotr :: "u32 \<Rightarrow> nat \<Rightarrow> u32" where
  "rotr value bits = drop_bit bits value OR push_bit (32 - bits) value"

definition store_be32 :: "u32 \<Rightarrow> bytes" where
  "store_be32 value = [ucast (drop_bit 24 value), ucast (drop_bit 16 value), ucast (drop_bit 8 value), ucast value]"

definition sha256_k :: "u32 list" where
  "sha256_k =
    [0x428A2F98, 0x71374491, 0xB5C0FBCF, 0xE9B5DBA5, 0x3956C25B, 0x59F111F1, 0x923F82A4, 0xAB1C5ED5,
     0xD807AA98, 0x12835B01, 0x243185BE, 0x550C7DC3, 0x72BE5D74, 0x80DEB1FE, 0x9BDC06A7, 0xC19BF174,
     0xE49B69C1, 0xEFBE4786, 0x0FC19DC6, 0x240CA1CC, 0x2DE92C6F, 0x4A7484AA, 0x5CB0A9DC, 0x76F988DA,
     0x983E5152, 0xA831C66D, 0xB00327C8, 0xBF597FC7, 0xC6E00BF3, 0xD5A79147, 0x06CA6351, 0x14292967,
     0x27B70A85, 0x2E1B2138, 0x4D2C6DFC, 0x53380D13, 0x650A7354, 0x766A0ABB, 0x81C2C92E, 0x92722C85,
     0xA2BFE8A1, 0xA81A664B, 0xC24B8B70, 0xC76C51A3, 0xD192E819, 0xD6990624, 0xF40E3585, 0x106AA070,
     0x19A4C116, 0x1E376C08, 0x2748774C, 0x34B0BCB5, 0x391C0CB3, 0x4ED8AA4A, 0x5B9CCA4F, 0x682E6FF3,
     0x748F82EE, 0x78A5636F, 0x84C87814, 0x8CC70208, 0x90BEFFFA, 0xA4506CEB, 0xBEF9A3F7, 0xC67178F2]"

definition schedule_step :: "u32 list \<Rightarrow> nat \<Rightarrow> u32 list" where
  "schedule_step w i =
     (let s0 = rotr (w ! (i - 15)) 7 XOR rotr (w ! (i - 15)) 18 XOR drop_bit 3 (w ! (i - 15));
          s1 = rotr (w ! (i - 2)) 17 XOR rotr (w ! (i - 2)) 19 XOR drop_bit 10 (w ! (i - 2)) in
      w[i := w ! (i - 16) + s0 + w ! (i - 7) + s1])"

definition message_schedule :: "bytes \<Rightarrow> u32 list" where
  "message_schedule block =
     foldl schedule_step (foldl (\<lambda>w i. w[i := load_be32 block (i * 4)]) (replicate 64 0) [0..<16]) [16..<64]"

record working =
  wa :: u32
  wb :: u32
  wc :: u32
  wd :: u32
  we :: u32
  wf :: u32
  wg :: u32
  wh :: u32

definition sha256_round :: "u32 list \<Rightarrow> working \<Rightarrow> nat \<Rightarrow> working" where
  "sha256_round w v i =
     (let s1 = rotr (we v) 6 XOR rotr (we v) 11 XOR rotr (we v) 25;
          ch = (we v AND wf v) XOR (NOT (we v) AND wg v);
          temp1 = wh v + s1 + ch + sha256_k ! i + w ! i;
          s0 = rotr (wa v) 2 XOR rotr (wa v) 13 XOR rotr (wa v) 22;
          maj = (wa v AND wb v) XOR (wa v AND wc v) XOR (wb v AND wc v);
          temp2 = s0 + maj in
      \<lparr>wa = temp1 + temp2, wb = wa v, wc = wb v, wd = wc v, we = wd v + temp1, wf = we v, wg = wf v, wh = wg v\<rparr>)"

definition sha256_transform :: "u32 list \<Rightarrow> bytes \<Rightarrow> u32 list" where
  "sha256_transform state block =
     (let w = message_schedule block;
          v = foldl (sha256_round w)
            \<lparr>wa = state ! 0, wb = state ! 1, wc = state ! 2, wd = state ! 3,
             we = state ! 4, wf = state ! 5, wg = state ! 6, wh = state ! 7\<rparr> [0..<64] in
      [state ! 0 + wa v, state ! 1 + wb v, state ! 2 + wc v, state ! 3 + wd v,
       state ! 4 + we v, state ! 5 + wf v, state ! 6 + wg v, state ! 7 + wh v])"

definition sha256_initial :: "u32 list" where
  "sha256_initial = [0x6A09E667, 0xBB67AE85, 0x3C6EF372, 0xA54FF53A, 0x510E527F, 0x9B05688C, 0x1F83D9AB, 0x5BE0CD19]"

function sha256_blocks :: "bytes \<Rightarrow> u32 list \<Rightarrow> nat \<Rightarrow> (u32 list \<times> nat) res" where
  \<comment> \<open>the loop over the whole blocks of the message\<close>
  "sha256_blocks data state pos =
     (if pos + 64 \<le> length data
      then copy_in data pos 64 (\<lambda>block. sha256_blocks data (sha256_transform state block) (pos + 64))
      else Done (state, pos))"
  by pat_completeness auto
termination by (relation "measure (\<lambda>(data, state, pos). length data - pos)") auto

declare sha256_blocks.simps [simp del]

definition store_length :: "nat \<Rightarrow> u64 \<Rightarrow> bytes \<Rightarrow> bytes" where
  "store_length total_pad_len bit_len block = foldl (\<lambda>b i. b[total_pad_len - 1 - i := ucast (drop_bit (8 * i) bit_len)]) block [0..<8]"

definition sha256 :: "bytes \<Rightarrow> bytes res" where
  "sha256 data =
     seq_res (sha256_blocks data sha256_initial 0) (\<lambda>(state, pos).
       let rem = length data - pos in
       copy_in data pos rem (\<lambda>tail.
         let block = tail @ replicate (128 - rem) 0;
             block = block[rem := 0x80];
             bit_len = of_nat (length data) * 8;
             total_pad_len = (if rem < 56 then 64 else 128);
             block = store_length total_pad_len bit_len block;
             state = sha256_transform state (take 64 block);
             state = (if total_pad_len = 128 then sha256_transform state (take 64 (drop 64 block)) else state) in
         Done (concat (map (\<lambda>i. store_be32 (state ! i)) [0..<8]))))"

definition integrity_none :: u16 where
  "integrity_none = 0"

definition integrity_hmac_sha256 :: u16 where
  "integrity_hmac_sha256 = 12"

definition compute_icv :: "u16 \<Rightarrow> bytes \<Rightarrow> bytes \<Rightarrow> nat \<Rightarrow> bytes res" where
  \<comment> \<open>the last argument is \<open>*out_len\<close> on entry; the result is \<open>out[0 .. *out_len)\<close>\<close>
  "compute_icv algorithm key data out_len =
     (if algorithm = integrity_none then Done []
      else if algorithm \<noteq> integrity_hmac_sha256 \<or> out_len > sha256_digest_len then Reject
      else seq_res (if length key > 64 then seq_res (sha256 key) (\<lambda>d. Done (d @ replicate (64 - length d) 0))
                    else Done (key @ replicate (64 - length key) 0)) (\<lambda>key_block.
        if length data > 4096 then Reject
        else put_all (64 + 4096) (map (\<lambda>b. b XOR 0x36) key_block) data (\<lambda>inner.
          seq_res (sha256 inner) (\<lambda>inner_digest.
          put_all (64 + sha256_digest_len) (map (\<lambda>b. b XOR 0x5C) key_block) inner_digest (\<lambda>outer.
          seq_res (sha256 outer) (\<lambda>digest. copy_in digest 0 out_len Done))))))"

section \<open>The standard\<close>

fun floor_root :: "nat \<Rightarrow> nat \<Rightarrow> nat \<Rightarrow> nat" where
  \<comment> \<open>the integer part of the \<open>k\<close>-th root, with \<open>b\<close> binary digits\<close>
  "floor_root k 0 n = 0"
| "floor_root k (Suc b) n = (let r = 2 * floor_root k b (n div 2 ^ k) in if (r + 1) ^ k \<le> n then r + 1 else r)"

definition fraction_bits :: "nat \<Rightarrow> nat \<Rightarrow> u32" where
  \<comment> \<open>the first 32 bits of the fractional part of the \<open>k\<close>-th root of \<open>p\<close>\<close>
  "fraction_bits k p = of_nat (floor_root k 36 (p * 2 ^ (32 * k)))"

definition first_primes :: "nat list" where
  "first_primes =
    [2, 3, 5, 7, 11, 13, 17, 19, 23, 29, 31, 37, 41, 43, 47, 53, 59, 61, 67, 71, 73,
     79, 83, 89, 97, 101, 103, 107, 109, 113, 127, 131, 137, 139, 149, 151, 157, 163, 167, 173, 179, 181,
     191, 193, 197, 199, 211, 223, 227, 229, 233, 239, 241, 251, 257, 263, 269, 271, 277, 281, 283, 293, 307,
     311]"

definition standard_k :: "nat \<Rightarrow> u32" where
  "standard_k t = fraction_bits 3 (first_primes ! t)"

definition standard_h0 :: "u32 list" where
  "standard_h0 = map (fraction_bits 2) (take 8 first_primes)"

definition Ch :: "u32 \<Rightarrow> u32 \<Rightarrow> u32 \<Rightarrow> u32" where
  \<comment> \<open>every bit of \<open>x\<close> chooses between \<open>y\<close> and \<open>z\<close>\<close>
  "Ch x y z = (x AND y) XOR (NOT x AND z)"

definition Maj :: "u32 \<Rightarrow> u32 \<Rightarrow> u32 \<Rightarrow> u32" where
  "Maj x y z = (x AND y) XOR (x AND z) XOR (y AND z)"

definition Sigma0 :: "u32 \<Rightarrow> u32" where
  "Sigma0 x = word_rotr 2 x XOR word_rotr 13 x XOR word_rotr 22 x"

definition Sigma1 :: "u32 \<Rightarrow> u32" where
  "Sigma1 x = word_rotr 6 x XOR word_rotr 11 x XOR word_rotr 25 x"

definition sigma0 :: "u32 \<Rightarrow> u32" where
  "sigma0 x = word_rotr 7 x XOR word_rotr 18 x XOR drop_bit 3 x"

definition sigma1 :: "u32 \<Rightarrow> u32" where
  "sigma1 x = word_rotr 17 x XOR word_rotr 19 x XOR drop_bit 10 x"

fun schedule_word :: "bytes \<Rightarrow> nat \<Rightarrow> u32" where
  "schedule_word block t =
     (if t < 16 then of_be32 (block ! (4 * t)) (block ! (4 * t + 1)) (block ! (4 * t + 2)) (block ! (4 * t + 3))
      else sigma1 (schedule_word block (t - 2)) + schedule_word block (t - 7) +
        sigma0 (schedule_word block (t - 15)) + schedule_word block (t - 16))"

declare schedule_word.simps [simp del]

type_synonym hash_state = "u32 \<times> u32 \<times> u32 \<times> u32 \<times> u32 \<times> u32 \<times> u32 \<times> u32"

fun standard_round :: "(nat \<Rightarrow> u32) \<Rightarrow> hash_state \<Rightarrow> nat \<Rightarrow> hash_state" where
  "standard_round W (a, b, c, d, e, f, g, h) t =
     (let T1 = h + Sigma1 e + Ch e f g + standard_k t + W t; T2 = Sigma0 a + Maj a b c in
      (T1 + T2, a, b, c, d + T1, e, f, g))"

definition compress_block :: "u32 list \<Rightarrow> bytes \<Rightarrow> u32 list" where
  "compress_block H block =
     (case foldl (standard_round (schedule_word block)) (H ! 0, H ! 1, H ! 2, H ! 3, H ! 4, H ! 5, H ! 6, H ! 7) [0..<64] of
        (a, b, c, d, e, f, g, h) \<Rightarrow> map2 (+) H [a, b, c, d, e, f, g, h])"

function blocks64 :: "bytes \<Rightarrow> bytes list" where
  "blocks64 bs = (if length bs < 64 then [] else take 64 bs # blocks64 (drop 64 bs))"
  by pat_completeness auto
termination by (relation "measure length") auto

declare blocks64.simps [simp del]

definition be64 :: "u64 \<Rightarrow> bytes" where
  "be64 v = map (\<lambda>i. ucast (drop_bit (8 * (7 - i)) v)) [0..<8]"

definition zero_padding :: "nat \<Rightarrow> nat" where
  \<comment> \<open>the least number of zero octets that completes a block\<close>
  "zero_padding n = (119 - n mod 64) mod 64"

definition padded :: "bytes \<Rightarrow> bytes" where
  "padded m = m @ [0x80] @ replicate (zero_padding (length m)) 0 @ be64 (of_nat (8 * length m))"

definition sha256_reference :: "bytes \<Rightarrow> bytes" where
  "sha256_reference m = concat (map be32 (foldl compress_block standard_h0 (blocks64 (padded m))))"

definition hmac_reference :: "bytes \<Rightarrow> bytes \<Rightarrow> bytes" where
  "hmac_reference key m =
     (let k0 = (if length key > 64 then sha256_reference key else key);
          k = k0 @ replicate (64 - length k0) 0 in
      sha256_reference (map (\<lambda>b. b XOR 0x5C) k @ sha256_reference (map (\<lambda>b. b XOR 0x36) k @ m)))"

lemma zero_padding_cases:
  "n mod 64 < 56 \<Longrightarrow> zero_padding n = 55 - n mod 64"
  "56 \<le> n mod 64 \<Longrightarrow> zero_padding n = 119 - n mod 64"
proof -
  assume "n mod 64 < 56"
  then have "119 - n mod 64 = (55 - n mod 64) + 64" by simp
  then show "zero_padding n = 55 - n mod 64" by (simp only: zero_padding_def mod_add_self2) simp
next
  assume "56 \<le> n mod 64"
  moreover have "n mod 64 < 64" by simp
  ultimately show "zero_padding n = 119 - n mod 64" unfolding zero_padding_def by (intro mod_less) linarith
qed

section \<open>The constants\<close>

lemma floor_root_bounds:
  assumes "0 < k" and "n < 2 ^ (k * b)"
  shows "floor_root k b n ^ k \<le> n \<and> n < (floor_root k b n + 1) ^ k"
  using assms(2)
proof (induction b arbitrary: n)
  case 0
  then show ?case using assms(1) by simp
next
  case (Suc b)
  define q where "q = floor_root k b (n div 2 ^ k)"
  have "n div 2 ^ k < 2 ^ (k * b)" using Suc.prems by (simp add: less_mult_imp_div_less power_add mult.commute)
  then have q: "q ^ k \<le> n div 2 ^ k" "n div 2 ^ k < (q + 1) ^ k" using Suc.IH by (simp_all add: q_def)
  have "(2 * q) ^ k \<le> n"
    using mult_le_mono2 [OF q(1), of "2 ^ k"] times_div_less_eq_dividend [of "2 ^ k" n] le_trans unfolding power_mult_distrib by blast
  moreover have "n < 2 ^ k * (n div 2 ^ k + 1)" using dividend_less_times_div [of "2 ^ k" n] by simp
  then have "n < 2 ^ k * (q + 1) ^ k" using q(2) mult_le_mono2 [of "n div 2 ^ k + 1" "(q + 1) ^ k" "2 ^ k"] by simp
  then have "n < (2 * q + 2) ^ k" by (simp flip: power_mult_distrib)
  ultimately show ?case by (simp add: q_def [symmetric] Let_def not_le add.commute)
qed

lemma fraction_bitsI:
  assumes "0 < k" and "p * 2 ^ (32 * k) < 2 ^ (k * 36)" and "r ^ k \<le> p * 2 ^ (32 * k)" and "p * 2 ^ (32 * k) < (r + 1) ^ k"
  shows "fraction_bits k p = of_nat r"
proof -
  define x where "x = floor_root k 36 (p * 2 ^ (32 * k))"
  have x: "x ^ k \<le> p * 2 ^ (32 * k)" "p * 2 ^ (32 * k) < (x + 1) ^ k" using floor_root_bounds [OF assms(1,2)] by (simp_all add: x_def)
  have "x ^ k < (r + 1) ^ k" "r ^ k < (x + 1) ^ k" using x assms(3,4) by linarith+
  then have "x < r + 1" "r < x + 1" using power_less_imp_less_base [of _ k] by blast+
  then have "x = r" by simp
  then show ?thesis by (simp add: fraction_bits_def x_def [symmetric])
qed

definition root_of :: "nat \<Rightarrow> nat \<Rightarrow> nat \<Rightarrow> bool" where
  \<comment> \<open>\<open>r\<close> is the integer part of the root with 32 binary places\<close>
  "root_of k p r \<longleftrightarrow> p * 2 ^ (32 * k) < 2 ^ (k * 36) \<and> r ^ k \<le> p * 2 ^ (32 * k) \<and> p * 2 ^ (32 * k) < (r + 1) ^ k"

lemma fraction_bits_list:
  assumes "0 < k" and "list_all2 (root_of k) ps rs"
  shows "map (fraction_bits k) ps = map of_nat rs"
  using assms(2) by (induction rule: list_all2_induct) (auto simp: root_of_def intro: fraction_bitsI [OF assms(1)])

lemma first_primes_k: "map (fraction_bits 3) first_primes = sha256_k"
proof -
  have "list_all2 (root_of 3) first_primes
   [0x1428A2F98, 0x171374491, 0x1B5C0FBCF, 0x1E9B5DBA5, 0x23956C25B, 0x259F111F1, 0x2923F82A4, 0x2AB1C5ED5,
    0x2D807AA98, 0x312835B01, 0x3243185BE, 0x3550C7DC3, 0x372BE5D74, 0x380DEB1FE, 0x39BDC06A7, 0x3C19BF174,
    0x3E49B69C1, 0x3EFBE4786, 0x40FC19DC6, 0x4240CA1CC, 0x42DE92C6F, 0x44A7484AA, 0x45CB0A9DC, 0x476F988DA,
    0x4983E5152, 0x4A831C66D, 0x4B00327C8, 0x4BF597FC7, 0x4C6E00BF3, 0x4D5A79147, 0x506CA6351, 0x514292967,
    0x527B70A85, 0x52E1B2138, 0x54D2C6DFC, 0x553380D13, 0x5650A7354, 0x5766A0ABB, 0x581C2C92E, 0x592722C85,
    0x5A2BFE8A1, 0x5A81A664B, 0x5C24B8B70, 0x5C76C51A3, 0x5D192E819, 0x5D6990624, 0x5F40E3585, 0x6106AA070,
    0x619A4C116, 0x61E376C08, 0x62748774C, 0x634B0BCB5, 0x6391C0CB3, 0x64ED8AA4A, 0x65B9CCA4F, 0x6682E6FF3,
    0x6748F82EE, 0x678A5636F, 0x684C87814, 0x68CC70208, 0x690BEFFFA, 0x6A4506CEB, 0x6BEF9A3F7, 0x6C67178F2]"
    by (simp add: first_primes_def root_of_def)
  from fraction_bits_list [OF _ this] show ?thesis by (simp add: sha256_k_def)
qed

lemma standard_h0_eq: "standard_h0 = sha256_initial"
proof -
  have "list_all2 (root_of 2) (take 8 first_primes)
   [0x16A09E667, 0x1BB67AE85, 0x23C6EF372, 0x2A54FF53A, 0x3510E527F, 0x39B05688C, 0x41F83D9AB, 0x45BE0CD19]"
    by (simp add: first_primes_def root_of_def)
  from fraction_bits_list [OF _ this] show ?thesis by (simp add: standard_h0_def sha256_initial_def)
qed

lemma standard_k_eq: "t < 64 \<Longrightarrow> standard_k t = sha256_k ! t"
  unfolding first_primes_k [symmetric] standard_k_def by (subst nth_map) (simp_all add: first_primes_def)

lemma rotr_eq: "0 < n \<Longrightarrow> n < 32 \<Longrightarrow> rotr x n = word_rotr n x"
proof (rule bit_word_eqI)
  fix m
  assume "0 < n" "n < 32" "m < LENGTH(32)"
  then have "(n + m) mod 32 = (if n + m < 32 then n + m else m - (32 - n))" "m < 32" by (auto simp: mod_if)
  then show "bit (rotr x n) m = bit (word_rotr n x) m"
    using \<open>0 < n\<close> \<open>n < 32\<close> bit_imp_le_length [of x "n + m"] by (auto simp: rotr_def bit_simps add.commute)
qed

section \<open>The schedule\<close>

lemma length_schedule_step [simp]: "length (schedule_step w i) = length w"
  by (simp add: schedule_step_def Let_def)

lemma schedule_load:
  "n \<le> 64 \<Longrightarrow> foldl (\<lambda>w i. w[i := f i]) (replicate 64 0) [0..<n] = map f [0..<n] @ replicate (64 - n) 0"
proof (induction n)
  case (Suc n)
  then show ?case by (simp add: list_update_append Suc_diff_Suc [symmetric])
qed simp

lemma schedule_prefix:
  assumes "16 \<le> n" and "n \<le> 64"
  shows "foldl schedule_step (map (schedule_word block) [0..<16] @ replicate 48 0) [16..<n] =
    map (schedule_word block) [0..<n] @ replicate (64 - n) 0"
  using assms
proof (induction n rule: dec_induct)
  case base
  then show ?case by simp
next
  case (step n)
  let ?w = "map (schedule_word block) [0..<n] @ replicate (64 - n) (0 :: u32)"
  have at: "i < n \<Longrightarrow> ?w ! i = schedule_word block i" for i by (simp add: nth_append)
  have "schedule_step ?w n = ?w[n := schedule_word block n]"
    using step at [of "n - 15"] at [of "n - 2"] at [of "n - 7"] at [of "n - 16"]
    by (subst schedule_word.simps) (simp add: schedule_step_def sigma0_def sigma1_def rotr_eq Let_def ac_simps)
  also have "\<dots> = map (schedule_word block) [0..<Suc n] @ replicate (64 - Suc n) 0"
    using step by (simp add: list_update_append Suc_diff_Suc [symmetric])
  finally show ?case using step by simp
qed

lemma message_schedule_eq: "message_schedule block = map (schedule_word block) [0..<64]"
proof -
  have "map (\<lambda>i. load_be32 block (i * 4)) [0..<16] = map (schedule_word block) [0..<16]"
    by (rule map_cong) (simp_all add: schedule_word.simps load_be32_def ac_simps)
  then have "message_schedule block = foldl schedule_step (map (schedule_word block) [0..<16] @ replicate 48 0) [16..<64]"
    using schedule_load [of 16 "\<lambda>i. load_be32 block (i * 4)"] by (simp add: message_schedule_def del: map_eq_conv upt.simps)
  then show ?thesis using schedule_prefix [of 64 block] by simp
qed

definition hash_state_of :: "working \<Rightarrow> hash_state" where
  "hash_state_of v = (wa v, wb v, wc v, wd v, we v, wf v, wg v, wh v)"

lemma sha256_round_eq:
  "t < 64 \<Longrightarrow> hash_state_of (sha256_round (map W [0..<64]) v t) = standard_round W (hash_state_of v) t"
  by (simp add: sha256_round_def hash_state_of_def Sigma0_def Sigma1_def Ch_def Maj_def rotr_eq standard_k_eq Let_def)

lemma sha256_rounds_eq:
  "\<forall>t\<in>set ts. t < 64 \<Longrightarrow> hash_state_of (foldl (sha256_round (map W [0..<64])) v ts) = foldl (standard_round W) (hash_state_of v) ts"
  by (induction ts arbitrary: v) (simp_all add: sha256_round_eq del: upt.simps)

lemma sha256_transform_eq: "length state = 8 \<Longrightarrow> sha256_transform state block = compress_block state block"
proof -
  assume "length state = 8"
  then obtain a b c d e f g h where state: "state = [a, b, c, d, e, f, g, h]"
    by (auto simp: numeral_eq_Suc length_Suc_conv)
  let ?v = "\<lparr>wa = a, wb = b, wc = c, wd = d, we = e, wf = f, wg = g, wh = h\<rparr>" and ?W = "schedule_word block"
  define u where "u = foldl (sha256_round (map ?W [0..<64])) ?v [0..<64]"
  have "foldl (standard_round ?W) (hash_state_of ?v) [0..<64] = hash_state_of u"
    unfolding u_def by (rule sha256_rounds_eq [symmetric]) simp
  then show ?thesis
    unfolding sha256_transform_def compress_block_def message_schedule_eq Let_def state
    by (simp add: hash_state_of_def u_def [symmetric])
qed

lemma length_compress_block [simp]: "length h = 8 \<Longrightarrow> length (compress_block h block) = 8"
  by (simp add: compress_block_def split: prod.splits)

lemma length_compress_blocks [simp]: "length h = 8 \<Longrightarrow> length (foldl compress_block h bs) = 8"
  by (induction bs arbitrary: h) simp_all

section \<open>The blocks\<close>

lemma blocks64_append: "length b = 64 \<Longrightarrow> blocks64 (b @ rest) = b # blocks64 rest"
  by (subst blocks64.simps) simp

lemma blocks64_short: "length bs < 64 \<Longrightarrow> blocks64 bs = []"
  by (subst blocks64.simps) simp

lemma blocks64_exact: "length b = 64 \<Longrightarrow> blocks64 b = [b]"
  using blocks64_append [of b "[]"] by (simp add: blocks64_short)

lemma blocks64_exact2: "length b = 128 \<Longrightarrow> blocks64 b = [take 64 b, drop 64 b]"
  using blocks64_append [of "take 64 b" "drop 64 b"] blocks64_exact [of "drop 64 b"] by simp

lemma sha256_blocks_law:
  "length h = 8 \<Longrightarrow> pos \<le> length data \<Longrightarrow>
   sha256_blocks data h pos = Done (foldl compress_block h (blocks64 (drop pos data)), pos + (length data - pos) div 64 * 64)"
proof (induction data h pos rule: sha256_blocks.induct)
  case (1 data h pos)
  show ?case
  proof (cases "pos + 64 \<le> length data")
    case True
    let ?b = "take 64 (drop pos data)"
    have b: "blocks64 (drop pos data) = ?b # blocks64 (drop (pos + 64) data)"
      using True by (subst blocks64.simps) (simp add: ac_simps)
    have n: "(length data - pos) div 64 * 64 = 64 + (length data - (pos + 64)) div 64 * 64"
      using True div_add_self2 [of 64 "length data - (pos + 64)"] by simp
    show ?thesis
      using 1 True n by (subst sha256_blocks.simps) (simp add: b sha256_transform_eq)
  qed (use 1 in \<open>subst sha256_blocks.simps, simp add: blocks64_short\<close>)
qed

lemma blocks64_split:
  "blocks64 (bs @ rest) = blocks64 bs @ blocks64 (drop (length bs div 64 * 64) bs @ rest)"
proof (induction bs rule: blocks64.induct)
  case (1 bs)
  show ?case
  proof (cases "length bs < 64")
    case False
    let ?d = "drop 64 bs"
    have "length bs div 64 * 64 = 64 + length ?d div 64 * 64"
      using False div_add_self2 [of 64 "length bs - 64"] by simp
    then have dr: "drop (length bs div 64 * 64) bs = drop (length ?d div 64 * 64) ?d" by (simp only: drop_drop add.commute)
    have "blocks64 (bs @ rest) = take 64 bs # blocks64 (?d @ rest)"
      using False blocks64_append [of "take 64 bs" "?d @ rest"] by (simp flip: append_assoc)
    moreover have "blocks64 bs = take 64 bs # blocks64 ?d" using False by (subst blocks64.simps) simp
    ultimately show ?thesis using 1 [OF False] dr by simp
  qed (simp add: blocks64_short)
qed

lemma store_backwards:
  "m \<le> n \<Longrightarrow> n \<le> length b \<Longrightarrow> length (foldl (\<lambda>b i. b[n - 1 - i := f i]) b [0..<m]) = length b \<and>
   (k < length b \<longrightarrow> foldl (\<lambda>b i. b[n - 1 - i := f i]) b [0..<m] ! k = (if n - m \<le> k \<and> k < n then f (n - 1 - k) else b ! k))"
proof (induction m)
  case (Suc m)
  have "n - 1 - m = k \<longleftrightarrow> k = n - Suc m" by auto
  with Suc show ?case by (auto simp: nth_list_update)
qed auto

lemma length_be64 [simp]: "length (be64 v) = 8"
  by (simp add: be64_def)

lemma store_length_eq:
  assumes "8 \<le> n" and "n \<le> length b"
  shows "store_length n v b = take (n - 8) b @ be64 v @ drop n b"
proof (rule nth_equalityI)
  note at = store_backwards [OF assms, of "\<lambda>i. ucast (drop_bit (8 * i) v)", folded store_length_def]
  show "length (store_length n v b) = length (take (n - 8) b @ be64 v @ drop n b)" using at assms by simp
  fix k
  assume "k < length (store_length n v b)"
  then have k: "k < length b" using at by simp
  consider "k < n - 8" | "n - 8 \<le> k" "k < n" | "n \<le> k" by linarith
  then show "store_length n v b ! k = (take (n - 8) b @ be64 v @ drop n b) ! k"
  proof cases
    case 2
    then have "7 - (k - (n - 8)) = n - 1 - k" "k - (n - 8) < 8" using assms by simp_all
    then show ?thesis using at k 2 assms by (simp add: nth_append be64_def)
  next
    case 3
    then have "\<not> k - (n - 8) < 8" "k - (n - 8) - 8 = k - n" "\<not> k < n - 8" using assms by linarith+
    then show ?thesis using at k 3 assms by (simp add: nth_append)
  qed (use at k assms in \<open>simp add: nth_append\<close>)
qed

lemma store_be32_eq: "store_be32 v = be32 v"
  by (simp add: store_be32_def be32_def byte_bits)

section \<open>SHA-256 is the standard's digest\<close>

lemma last_blocks:
  assumes "length tail < 64"
  defines "b \<equiv> (tail @ replicate (128 - length tail) 0)[length tail := 0x80 :: byte]"
  shows "length tail < 56 \<Longrightarrow> take 64 (store_length 64 v b) = tail @ [0x80] @ replicate (55 - length tail) 0 @ be64 v"
    and "56 \<le> length tail \<Longrightarrow> store_length 128 v b = tail @ [0x80] @ replicate (119 - length tail) 0 @ be64 v"
proof -
  obtain k where k: "128 - length tail = Suc k" "k = 127 - length tail" using assms(1) by (cases "128 - length tail") auto
  have b: "b = tail @ [0x80] @ replicate k 0" unfolding b_def k(1) by (simp add: list_update_append)
  have len: "length b = 128" using assms(1) by (simp add: b k(2))
  have take_zeros: "0 < m \<Longrightarrow> m - 1 \<le> k \<Longrightarrow> take m ((0x80 :: byte) # replicate k 0) = 0x80 # replicate (m - 1) 0" for m
    by (cases m) simp_all
  show "take 64 (store_length 64 v b) = tail @ [0x80] @ replicate (55 - length tail) 0 @ be64 v" if "length tail < 56"
    using that k(2) len take_zeros [of "56 - length tail"] by (simp add: store_length_eq) (simp add: b)
  show "store_length 128 v b = tail @ [0x80] @ replicate (119 - length tail) 0 @ be64 v" if "56 \<le> length tail"
    using that assms(1) k(2) len take_zeros [of "120 - length tail"] by (simp add: store_length_eq) (simp add: b)
qed

lemma sha256_eq: "sha256 data = Done (sha256_reference data)"
proof -
  define q where "q = length data div 64 * 64"
  define tail where "tail = drop q data"
  have q: "q \<le> length data" by (simp add: q_def)
  have rem: "length data - q = length data mod 64" "length tail = length data mod 64"
    by (simp_all add: q_def tail_def minus_div_mult_eq_mod)
  define h where "h = foldl compress_block standard_h0 (blocks64 data)"
  have h8: "length h = 8" by (simp add: h_def standard_h0_eq sha256_initial_def)
  let ?v = "of_nat (length data) * 8 :: u64"
  have v: "?v = of_nat (8 * length data)" by simp
  have blocks: "foldl compress_block standard_h0 (blocks64 (padded data)) =
      foldl compress_block h (blocks64 (tail @ [0x80] @ replicate (zero_padding (length data)) 0 @ be64 ?v))"
    unfolding padded_def v by (subst blocks64_split) (simp add: h_def tail_def q_def)
  have start: "sha256_blocks data sha256_initial 0 = Done (h, q)"
    using sha256_blocks_law [of sha256_initial 0 data] by (simp add: h_def q_def standard_h0_eq sha256_initial_def)
  have out: "concat (map (\<lambda>i. store_be32 (s ! i)) [0..<8]) = concat (map be32 s)" if "length s = 8" for s
    using that by (metis (no_types, lifting) map_nth map_map comp_apply store_be32_eq map_eq_conv)
  let ?b = "(tail @ replicate (128 - length tail) 0)[length tail := 0x80 :: byte]"
  have tl: "length tail < 64" by (simp add: rem)
  have cp: "copy_in data q (length tail) k = k tail" "length data - q = length tail" for k :: "bytes \<Rightarrow> bytes res"
    using q by (simp_all add: tail_def)
  show ?thesis
  proof (cases "length tail < 56")
    case True
    have one: "take 64 (store_length 64 ?v ?b) = tail @ [0x80] @ replicate (zero_padding (length data)) 0 @ be64 ?v"
      using last_blocks(1) [OF tl True] zero_padding_cases(1) [of "length data"] True by (simp add: rem)
    have "sha256_reference data = concat (map be32 (compress_block h (take 64 (store_length 64 ?v ?b))))"
      unfolding sha256_reference_def blocks one [symmetric] using True
      by (subst blocks64_exact) (simp_all add: store_length_eq)
    then show ?thesis using True h8
      by (simp add: sha256_def start cp Let_def out sha256_transform_eq)
  next
    case False
    have two: "store_length 128 ?v ?b = tail @ [0x80] @ replicate (zero_padding (length data)) 0 @ be64 ?v"
      using last_blocks(2) [OF tl] zero_padding_cases(2) [of "length data"] False by (simp add: rem)
    have "sha256_reference data = concat (map be32 (compress_block (compress_block h (take 64 (store_length 128 ?v ?b)))
        (drop 64 (store_length 128 ?v ?b))))"
      unfolding sha256_reference_def blocks two [symmetric] using False tl
      by (subst blocks64_exact2) (simp_all add: store_length_eq)
    moreover have "take 64 (drop 64 (store_length 128 ?v ?b)) = drop 64 (store_length 128 ?v ?b)"
      using tl by (simp add: store_length_eq)
    ultimately show ?thesis using False h8
      by (simp add: sha256_def start cp Let_def out sha256_transform_eq)
  qed
qed

lemma length_sha256_reference [simp]: "length (sha256_reference m) = 32"
proof -
  have "length (concat (map be32 s)) = 4 * length s" for s by (induction s) simp_all
  then show ?thesis by (simp add: sha256_reference_def standard_h0_eq sha256_initial_def)
qed

text \<open>
  C37. The digest function returns on every message, and its result is the SHA-256 digest of the standard, which is stated
  without the tables and functions of the code: initial hash and round constants are the leading fractional bits of the
  square roots of the first eight and of the cube roots of the first sixty-four primes; the rounds are written with the
  functions Ch, Maj and the four sigmas over the rotations of the word library; the message schedule is a recurrence; the message
  is padded with a one bit, the least number of zero bits and the 64-bit length. The digest has 32 octets.
\<close>

theorem sha256_is_standard: "sha256 data = Done (sha256_reference data) \<and> length (sha256_reference data) = sha256_digest_len"
  by (simp add: sha256_eq sha256_digest_len_def)

lemma compute_icv_eq:
  "compute_icv algorithm key data n =
    (if algorithm = integrity_none then Done []
     else if algorithm = integrity_hmac_sha256 \<and> n \<le> 32 \<and> length data \<le> 4096 then Done (take n (hmac_reference key data))
     else Reject)"
  by (simp add: compute_icv_def sha256_eq hmac_reference_def sha256_digest_len_def put_all_def Let_def)

end
