(* ===== verification/RohcOIpsec.thy ===== *)
theory RohcOIpsec
  imports Sha256 Context
begin

text \<open>
  ROHC over IPsec (\<open>core/rohcoipsec.hpp\<close>): the channel parameters and their validity, the notify payload that carries
  them, the negotiation of two parameter sets, and the integrity check value that protects a ROHC packet. The
  arrays of profiles and of integrity algorithms are lists of sixteen and of eight elements; \<open>profiles_of\<close> and
  \<open>algorithms_of\<close> are the elements in use.
\<close>

section \<open>Model: channel parameters\<close>

definition rohc_protocol_number :: byte where
  "rohc_protocol_number = 142"

definition ch_max_cid_limit :: u16 where
  "ch_max_cid_limit = 16383"

definition ch_max_profiles :: nat where
  "ch_max_profiles = 16"

definition max_integrity_algorithms :: nat where
  "max_integrity_algorithms = 8"

definition is_supported_rohcv2_profile :: "u16 \<Rightarrow> bool" where
  "is_supported_rohcv2_profile p \<longleftrightarrow>
     p = profile_code Uncompressed \<or> p = profile_code RTP \<or> p = profile_code UDP \<or> p = profile_code ESP \<or>
     p = profile_code IP \<or> p = profile_code RTP_UDP_Lite \<or> p = profile_code UDP_Lite"

definition is_supported_integrity_algorithm :: "u16 \<Rightarrow> bool" where
  "is_supported_integrity_algorithm a \<longleftrightarrow> a = integrity_none \<or> a = integrity_hmac_sha256"

definition icv_length_is_valid_for_algorithm :: "u16 \<Rightarrow> u16 \<Rightarrow> bool" where
  "icv_length_is_valid_for_algorithm a icv_len =
     (if a = integrity_none then icv_len = 0 else a = integrity_hmac_sha256 \<and> icv_len > 0 \<and> unat icv_len \<le> sha256_digest_len)"

record channel_parameters =
  ch_max_cid :: u16
  ch_profiles :: "u16 list"
  ch_profile_count :: nat
  ch_integrity_algorithms :: "u16 list"
  ch_integrity_algorithm_count :: nat
  ch_icv_len :: u16
  ch_has_icv_len :: bool
  ch_mrru :: u16
  ch_has_mrru :: bool

definition channel_parameters_default :: channel_parameters where
  "channel_parameters_default =
     \<lparr>ch_max_cid = 0, ch_profiles = replicate 16 0, ch_profile_count = 0, ch_integrity_algorithms = replicate 8 0,
      ch_integrity_algorithm_count = 0, ch_icv_len = 0, ch_has_icv_len = False, ch_mrru = 0, ch_has_mrru = False\<rparr>"

definition differs_from_later :: "u16 list \<Rightarrow> nat \<Rightarrow> nat \<Rightarrow> bool" where
  \<comment> \<open>the inner loops of \<open>valid\<close>: element \<open>i\<close> differs from those at \<open>i + 1 .. n - 1\<close>\<close>
  "differs_from_later xs n i \<longleftrightarrow> (\<forall>j\<in>set [i + 1..<n]. xs ! i \<noteq> xs ! j)"

definition channel_valid :: "channel_parameters \<Rightarrow> bool" where
  "channel_valid p \<longleftrightarrow>
     \<not> (ch_max_cid p > ch_max_cid_limit \<or> ch_profile_count p = 0 \<or> ch_profile_count p > ch_max_profiles \<or>
        ch_integrity_algorithm_count p = 0 \<or> ch_integrity_algorithm_count p > max_integrity_algorithms) \<and>
     (\<forall>i\<in>set [0..<ch_profile_count p]. is_supported_rohcv2_profile (ch_profiles p ! i) \<and> differs_from_later (ch_profiles p) (ch_profile_count p) i) \<and>
     (\<forall>i\<in>set [0..<ch_integrity_algorithm_count p]. is_supported_integrity_algorithm (ch_integrity_algorithms p ! i) \<and>
        differs_from_later (ch_integrity_algorithms p) (ch_integrity_algorithm_count p) i) \<and>
     (let has_keyed_integrity = (\<exists>i\<in>set [0..<ch_integrity_algorithm_count p]. ch_integrity_algorithms p ! i \<noteq> integrity_none) in
      if \<not> ch_has_icv_len p then True
      else if \<not> has_keyed_integrity then ch_icv_len p = 0
      else ch_icv_len p > 0 \<and> unat (ch_icv_len p) \<le> sha256_digest_len)"

definition channel_large_cids :: "channel_parameters \<Rightarrow> bool" where
  "channel_large_cids p \<longleftrightarrow> ch_max_cid p > 15"

definition is_rohc_next_header :: "byte \<Rightarrow> bool" where
  "is_rohc_next_header next_header \<longleftrightarrow> next_header = rohc_protocol_number"

definition supports_profile :: "channel_parameters \<Rightarrow> u16 \<Rightarrow> bool" where
  "supports_profile p profile \<longleftrightarrow> (\<exists>i\<in>set [0..<ch_profile_count p]. ch_profiles p ! i = profile)"

definition supports_integrity :: "channel_parameters \<Rightarrow> u16 \<Rightarrow> bool" where
  "supports_integrity p algorithm \<longleftrightarrow> (\<exists>i\<in>set [0..<ch_integrity_algorithm_count p]. ch_integrity_algorithms p ! i = algorithm)"

definition channel_append_profile :: "channel_parameters \<Rightarrow> u16 \<Rightarrow> channel_parameters res" where
  "channel_append_profile p profile =
     (if ch_profile_count p \<ge> ch_max_profiles \<or> \<not> is_supported_rohcv2_profile profile \<or> supports_profile p profile then Reject
      else Done (p\<lparr>ch_profiles := (ch_profiles p)[ch_profile_count p := profile], ch_profile_count := ch_profile_count p + 1\<rparr>))"

definition append_integrity :: "channel_parameters \<Rightarrow> u16 \<Rightarrow> channel_parameters res" where
  "append_integrity p algorithm =
     (if ch_integrity_algorithm_count p \<ge> max_integrity_algorithms \<or> \<not> is_supported_integrity_algorithm algorithm \<or> supports_integrity p algorithm then Reject
      else Done (p\<lparr>ch_integrity_algorithms := (ch_integrity_algorithms p)[ch_integrity_algorithm_count p := algorithm],
        ch_integrity_algorithm_count := ch_integrity_algorithm_count p + 1\<rparr>))"

section \<open>Model: the notify payload\<close>

datatype attribute_type = MaxCid | AttrProfile | Integrity | IcvLength | Mrru

definition attribute_code :: "attribute_type \<Rightarrow> u16" where
  "attribute_code t = (case t of MaxCid \<Rightarrow> 1 | AttrProfile \<Rightarrow> 2 | Integrity \<Rightarrow> 3 | IcvLength \<Rightarrow> 4 | Mrru \<Rightarrow> 5)"

definition tv_attribute_flag :: u16 where
  "tv_attribute_flag = 0x8000"

definition attribute_type_mask :: u16 where
  "attribute_type_mask = 0x7FFF"

definition oipsec_write_u16 :: "nat \<Rightarrow> bytes \<Rightarrow> u16 \<Rightarrow> bytes res" where
  "oipsec_write_u16 capacity out v = (if length out + 2 > capacity then Reject else put_all capacity out (be16 v) Done)"

definition oipsec_read_u16 :: "bytes \<Rightarrow> nat \<Rightarrow> (u16 \<Rightarrow> 'a res) \<Rightarrow> 'a res" where
  "oipsec_read_u16 data pos k = (if pos + 2 > length data then Reject else rd data pos (\<lambda>a. rd data (pos + 1) (\<lambda>b. k (of_be16 a b))))"

definition write_tv_attribute :: "nat \<Rightarrow> attribute_type \<Rightarrow> u16 \<Rightarrow> bytes \<Rightarrow> bytes res" where
  "write_tv_attribute capacity type value out =
     seq_res (oipsec_write_u16 capacity out (tv_attribute_flag OR attribute_code type)) (\<lambda>out. oipsec_write_u16 capacity out value)"

fun write_each :: "nat \<Rightarrow> attribute_type \<Rightarrow> u16 list \<Rightarrow> nat list \<Rightarrow> bytes \<Rightarrow> bytes res" where
  \<comment> \<open>the loops of \<open>write_supported_notify_payload\<close> over an array\<close>
  "write_each capacity type xs [] out = Done out"
| "write_each capacity type xs (i # is) out = seq_res (write_tv_attribute capacity type (xs ! i) out) (write_each capacity type xs is)"

definition write_supported_notify_payload :: "nat \<Rightarrow> channel_parameters \<Rightarrow> bytes res" where
  "write_supported_notify_payload capacity p =
     (if \<not> channel_valid p then Reject
      else seq_res (write_tv_attribute capacity MaxCid (ch_max_cid p) []) (\<lambda>out.
        seq_res (write_each capacity AttrProfile (ch_profiles p) [0..<ch_profile_count p] out) (\<lambda>out.
        seq_res (write_each capacity Integrity (ch_integrity_algorithms p) [0..<ch_integrity_algorithm_count p] out) (\<lambda>out.
        seq_res (if ch_has_icv_len p then write_tv_attribute capacity IcvLength (ch_icv_len p) out else Done out) (\<lambda>out.
        if ch_has_mrru p then write_tv_attribute capacity Mrru (ch_mrru p) out else Done out)))))"

definition apply_attribute :: "u16 \<Rightarrow> u16 \<Rightarrow> channel_parameters \<times> bool \<Rightarrow> (channel_parameters \<times> bool) res" where
  \<comment> \<open>the \<open>switch\<close> of \<open>parse_supported_notify_payload\<close>; the flag is \<open>saw_max_cid\<close>\<close>
  "apply_attribute type value = (\<lambda>(p, saw_max_cid).
     if type = attribute_code MaxCid then
       if saw_max_cid \<or> value > ch_max_cid_limit then Reject else Done (p\<lparr>ch_max_cid := value\<rparr>, True)
     else if type = attribute_code AttrProfile then
       seq_res (channel_append_profile p value) (\<lambda>p. Done (p, saw_max_cid))
     else if type = attribute_code Integrity then
       seq_res (append_integrity p value) (\<lambda>p. Done (p, saw_max_cid))
     else if type = attribute_code IcvLength then
       if ch_has_icv_len p then Reject else Done (p\<lparr>ch_icv_len := value, ch_has_icv_len := True\<rparr>, saw_max_cid)
     else if type = attribute_code Mrru then
       if ch_has_mrru p then Reject else Done (p\<lparr>ch_mrru := value, ch_has_mrru := True\<rparr>, saw_max_cid)
     else Done (p, saw_max_cid))"

lemma oipsec_read_u16_cong [fundef_cong]:
  "data = data' \<Longrightarrow> pos = pos' \<Longrightarrow> (\<And>v. k v = k' v) \<Longrightarrow> oipsec_read_u16 data pos k = oipsec_read_u16 data' pos' k'"
  by (simp add: oipsec_read_u16_def)

function notify_loop :: "bytes \<Rightarrow> nat \<Rightarrow> channel_parameters \<times> bool \<Rightarrow> (nat \<times> channel_parameters \<times> bool) res" where
  "notify_loop data pos st =
     (if pos + 4 \<le> length data then
        oipsec_read_u16 data pos (\<lambda>type_field. oipsec_read_u16 data (pos + 2) (\<lambda>value.
          if type_field AND tv_attribute_flag = 0 then
            if pos + 4 + unat value > length data then Reject else notify_loop data (pos + 4 + unat value) st
          else seq_res (apply_attribute (type_field AND attribute_type_mask) value st) (notify_loop data (pos + 4))))
      else Done (pos, st))"
  by pat_completeness auto
termination by (relation "measure (\<lambda>(data, pos, st). length data - pos)") auto

declare notify_loop.simps [simp del]

definition parse_supported_notify_payload :: "bytes \<Rightarrow> channel_parameters res" where
  "parse_supported_notify_payload data =
     seq_res (notify_loop data 0 (channel_parameters_default, False)) (\<lambda>(pos, p, saw_max_cid).
       if pos = length data \<and> saw_max_cid \<and> channel_valid p then Done p else Reject)"

section \<open>Model: negotiation\<close>

fun negotiate_profiles :: "channel_parameters \<Rightarrow> channel_parameters \<Rightarrow> nat list \<Rightarrow> channel_parameters \<Rightarrow> channel_parameters res" where
  "negotiate_profiles local peer [] n = Done n"
| "negotiate_profiles local peer (i # is) n =
     (if supports_profile peer (ch_profiles local ! i)
      then seq_res (channel_append_profile n (ch_profiles local ! i)) (negotiate_profiles local peer is)
      else negotiate_profiles local peer is n)"

fun negotiate_integrity :: "channel_parameters \<Rightarrow> channel_parameters \<Rightarrow> nat list \<Rightarrow> channel_parameters \<Rightarrow> channel_parameters res" where
  "negotiate_integrity local peer [] n = Done n"
| "negotiate_integrity local peer (i # is) n =
     (if supports_integrity peer (ch_integrity_algorithms local ! i)
      then append_integrity n (ch_integrity_algorithms local ! i)
      else negotiate_integrity local peer is n)"

definition negotiate :: "channel_parameters \<Rightarrow> channel_parameters \<Rightarrow> channel_parameters res" where
  "negotiate local peer =
     (if \<not> channel_valid local \<or> \<not> channel_valid peer then Reject
      else let n = channel_parameters_default\<lparr>ch_max_cid := ch_max_cid peer, ch_mrru := ch_mrru peer, ch_has_mrru := ch_has_mrru peer,
          ch_icv_len := (if ch_has_icv_len peer then ch_icv_len peer else 0), ch_has_icv_len := ch_has_icv_len peer\<rparr> in
        seq_res (negotiate_profiles local peer [0..<ch_profile_count local] n) (\<lambda>n.
        seq_res (negotiate_integrity local peer [0..<ch_integrity_algorithm_count local] n) (\<lambda>n.
        if \<not> channel_valid n then Reject
        else Done (if supports_integrity n integrity_none then n\<lparr>ch_icv_len := 0\<rparr> else n))))"

section \<open>Model: the integrity check value\<close>

fun ct_diff :: "bytes \<Rightarrow> bytes \<Rightarrow> nat list \<Rightarrow> byte \<Rightarrow> byte res" where
  "ct_diff a b [] diff = Done diff"
| "ct_diff a b (i # is) diff = rd a i (\<lambda>x. rd b i (\<lambda>y. ct_diff a b is (diff OR (x XOR y))))"

definition constant_time_equal :: "bytes \<Rightarrow> bytes \<Rightarrow> nat \<Rightarrow> bool res" where
  "constant_time_equal a b len = seq_res (ct_diff a b [0..<len] 0) (\<lambda>diff. Done (diff = 0))"

definition digest_len :: "u16 \<Rightarrow> nat" where
  "digest_len algorithm = (if algorithm = integrity_none then 0 else if algorithm = integrity_hmac_sha256 then sha256_digest_len else 0)"

definition append_icv :: "u16 \<Rightarrow> bytes \<Rightarrow> bytes \<Rightarrow> bytes \<Rightarrow> nat \<Rightarrow> nat \<Rightarrow> bytes res" where
  "append_icv algorithm key auth rohc_packet cap icv_len =
     (if algorithm \<noteq> integrity_none \<and> (icv_len = 0 \<or> icv_len > digest_len algorithm) then Reject
      else let icv_len = (if algorithm = integrity_none then 0 else icv_len) in
        if cap < length rohc_packet + icv_len then Reject
        else put_all cap [] rohc_packet (\<lambda>out.
          seq_res (compute_icv algorithm key auth icv_len) (\<lambda>d.
            let digest = d @ replicate (sha256_digest_len - length d) 0 in
            if icv_len > 0 then copy_in digest 0 icv_len (\<lambda>d. put_all cap out d Done) else Done out)))"

definition strip_and_verify_icv :: "u16 \<Rightarrow> bytes \<Rightarrow> bytes \<Rightarrow> bytes \<Rightarrow> nat \<Rightarrow> bytes res" where
  \<comment> \<open>the result is the packet \<open>(*rohc_packet, *rohc_packet_len)\<close>\<close>
  "strip_and_verify_icv algorithm key auth packet icv_len =
     (if algorithm \<noteq> integrity_none \<and> (icv_len = 0 \<or> icv_len > digest_len algorithm) then Reject
      else let icv_len = (if algorithm = integrity_none then 0 else icv_len) in
        if length packet < icv_len then Reject
        else let packet_len = length packet - icv_len in
          if icv_len > 0 then
            seq_res (compute_icv algorithm key auth icv_len) (\<lambda>d.
              let digest = d @ replicate (sha256_digest_len - length d) 0 in
              view packet packet_len (\<lambda>tail. seq_res (constant_time_equal digest tail icv_len) (\<lambda>same.
                if same then Done (take packet_len packet) else Reject)))
          else Done (take packet_len packet))"

definition append_none_icv :: "bytes \<Rightarrow> nat \<Rightarrow> bytes res" where
  "append_none_icv rohc_packet cap = append_icv integrity_none [] rohc_packet rohc_packet cap 0"

definition strip_none_icv :: "bytes \<Rightarrow> bytes res" where
  "strip_none_icv packet = strip_and_verify_icv integrity_none [] packet packet 0"

section \<open>Bounded lists without repetition\<close>

text \<open>
  Both arrays of the parameters are filled by an operation that appends an element if there is room, the
  element is supported and not yet present, and that leaves everything else alone.
\<close>

fun app_all :: "('s \<Rightarrow> u16 \<Rightarrow> 's res) \<Rightarrow> 's \<Rightarrow> u16 list \<Rightarrow> 's res" where
  "app_all app s [] = Done s"
| "app_all app s (x # xs) = seq_res (app s x) (\<lambda>s. app_all app s xs)"

locale bounded_list =
  fixes lst :: "'s \<Rightarrow> u16 list" and app :: "'s \<Rightarrow> u16 \<Rightarrow> 's res" and snoc :: "'s \<Rightarrow> u16 \<Rightarrow> 's"
    and inv :: "'s \<Rightarrow> bool" and ok :: "u16 \<Rightarrow> bool" and cap :: nat and rest :: "'s \<Rightarrow> 'r"
  assumes app_eq: "inv s \<Longrightarrow> app s x = (if length (lst s) < cap \<and> ok x \<and> x \<notin> set (lst s) then Done (snoc s x) else Reject)"
    and lst_snoc: "inv s \<Longrightarrow> length (lst s) < cap \<Longrightarrow> lst (snoc s x) = lst s @ [x]"
    and inv_snoc: "inv s \<Longrightarrow> length (lst s) < cap \<Longrightarrow> inv (snoc s x)"
    and rest_snoc: "rest (snoc s x) = rest s"
begin

lemma app_all_eq:
  "inv s \<Longrightarrow> distinct (lst s) \<Longrightarrow> length (lst s) \<le> cap \<Longrightarrow>
   app_all app s xs = (if length (lst s @ xs) \<le> cap \<and> (\<forall>x\<in>set xs. ok x) \<and> distinct (lst s @ xs) then Done (foldl snoc s xs) else Reject)"
proof (induction xs arbitrary: s)
  case (Cons x xs)
  show ?case
  proof (cases "length (lst s) < cap \<and> ok x \<and> x \<notin> set (lst s)")
    case True
    then have "app_all app (snoc s x) xs = (if length (lst (snoc s x) @ xs) \<le> cap \<and> (\<forall>x\<in>set xs. ok x) \<and> distinct (lst (snoc s x) @ xs)
        then Done (foldl snoc (snoc s x) xs) else Reject)"
      using Cons by (intro Cons.IH) (simp_all add: lst_snoc inv_snoc)
    then show ?thesis using True Cons.prems by (auto simp: app_eq lst_snoc)
  next
    case False
    then show ?thesis using Cons.prems by (auto simp: app_eq)
  qed
qed simp

lemma foldl_snoc:
  "inv s \<Longrightarrow> length (lst s @ xs) \<le> cap \<Longrightarrow>
   lst (foldl snoc s xs) = lst s @ xs \<and> inv (foldl snoc s xs) \<and> rest (foldl snoc s xs) = rest s"
proof (induction xs arbitrary: s)
  case (Cons x xs)
  then have "lst (snoc s x) = lst s @ [x]" "inv (snoc s x)" by (simp_all add: lst_snoc inv_snoc)
  then show ?case using Cons by (simp add: rest_snoc)
qed simp

end

definition profiles_of :: "channel_parameters \<Rightarrow> u16 list" where
  "profiles_of p = take (ch_profile_count p) (ch_profiles p)"

definition algorithms_of :: "channel_parameters \<Rightarrow> u16 list" where
  "algorithms_of p = take (ch_integrity_algorithm_count p) (ch_integrity_algorithms p)"

definition params_wf :: "channel_parameters \<Rightarrow> bool" where
  "params_wf p \<longleftrightarrow> length (ch_profiles p) = 16 \<and> ch_profile_count p \<le> 16 \<and>
     length (ch_integrity_algorithms p) = 8 \<and> ch_integrity_algorithm_count p \<le> 8"

definition snoc_profile :: "channel_parameters \<Rightarrow> u16 \<Rightarrow> channel_parameters" where
  "snoc_profile p x = p\<lparr>ch_profiles := (ch_profiles p)[ch_profile_count p := x], ch_profile_count := ch_profile_count p + 1\<rparr>"

definition snoc_algorithm :: "channel_parameters \<Rightarrow> u16 \<Rightarrow> channel_parameters" where
  "snoc_algorithm p x = p\<lparr>ch_integrity_algorithms := (ch_integrity_algorithms p)[ch_integrity_algorithm_count p := x],
     ch_integrity_algorithm_count := ch_integrity_algorithm_count p + 1\<rparr>"

abbreviation other_fields :: "channel_parameters \<Rightarrow> u16 \<times> u16 \<times> bool \<times> u16 \<times> bool" where
  "other_fields p \<equiv> (ch_max_cid p, ch_icv_len p, ch_has_icv_len p, ch_mrru p, ch_has_mrru p)"

lemma length_in_use: "params_wf p \<Longrightarrow> length (profiles_of p) = ch_profile_count p" "params_wf p \<Longrightarrow> length (algorithms_of p) = ch_integrity_algorithm_count p"
  by (simp_all add: params_wf_def profiles_of_def algorithms_of_def)

lemma ex_in_use: "n \<le> length xs \<Longrightarrow> (\<exists>i\<in>set [0..<n]. P (xs ! i)) \<longleftrightarrow> (\<exists>x\<in>set (take n xs). P x)"
  by (fastforce simp: in_set_conv_nth)

lemma all_in_use: "n \<le> length xs \<Longrightarrow> (\<forall>i\<in>set [0..<n]. P (xs ! i)) \<longleftrightarrow> (\<forall>x\<in>set (take n xs). P x)"
  by (fastforce simp: in_set_conv_nth)

lemma differs_in_use: "n \<le> length xs \<Longrightarrow> (\<forall>i\<in>set [0..<n]. differs_from_later xs n i) \<longleftrightarrow> distinct (take n xs)"
proof -
  assume n: "n \<le> length xs"
  have "(\<forall>i\<in>set [0..<n]. differs_from_later xs n i) \<longleftrightarrow> (\<forall>i j. i < j \<and> j < n \<longrightarrow> xs ! i \<noteq> xs ! j)"
    by (auto simp: differs_from_later_def Suc_le_eq)
  also have "\<dots> \<longleftrightarrow> (\<forall>i<n. \<forall>j<n. i \<noteq> j \<longrightarrow> xs ! i \<noteq> xs ! j)" by (metis linorder_neqE_nat order_less_trans less_irrefl)
  also have "\<dots> \<longleftrightarrow> distinct (take n xs)" using n by (simp add: distinct_conv_nth)
  finally show ?thesis .
qed

lemma supports_in_use:
  "params_wf p \<Longrightarrow> supports_profile p x \<longleftrightarrow> x \<in> set (profiles_of p)"
  "params_wf p \<Longrightarrow> supports_integrity p x \<longleftrightarrow> x \<in> set (algorithms_of p)"
  using ex_in_use [of "ch_profile_count p" "ch_profiles p" "\<lambda>y. y = x"] ex_in_use [of "ch_integrity_algorithm_count p" "ch_integrity_algorithms p" "\<lambda>y. y = x"]
  by (auto simp: params_wf_def supports_profile_def supports_integrity_def profiles_of_def algorithms_of_def)

lemma channel_valid_iff:
  assumes "params_wf p"
  shows "channel_valid p \<longleftrightarrow> ch_max_cid p \<le> ch_max_cid_limit \<and> profiles_of p \<noteq> [] \<and> algorithms_of p \<noteq> [] \<and>
    list_all is_supported_rohcv2_profile (profiles_of p) \<and> distinct (profiles_of p) \<and>
    list_all is_supported_integrity_algorithm (algorithms_of p) \<and> distinct (algorithms_of p) \<and>
    (ch_has_icv_len p \<longrightarrow> (if set (algorithms_of p) \<subseteq> {integrity_none} then ch_icv_len p = 0
       else 0 < ch_icv_len p \<and> unat (ch_icv_len p) \<le> 32))"
proof -
  have n: "ch_profile_count p \<le> length (ch_profiles p)" "ch_integrity_algorithm_count p \<le> length (ch_integrity_algorithms p)"
    "ch_profile_count p \<le> 16" "ch_integrity_algorithm_count p \<le> 8"
    using assms by (simp_all add: params_wf_def)
  have e: "profiles_of p \<noteq> [] \<longleftrightarrow> 0 < ch_profile_count p" "algorithms_of p \<noteq> [] \<longleftrightarrow> 0 < ch_integrity_algorithm_count p"
    using length_in_use [OF assms] by (metis length_greater_0_conv)+
  show ?thesis
    unfolding channel_valid_def Let_def ball_conj_distrib all_in_use [OF n(1)] all_in_use [OF n(2)] ex_in_use [OF n(2), of "\<lambda>a. a \<noteq> integrity_none"]
      differs_in_use [OF n(1)] differs_in_use [OF n(2)] profiles_of_def [symmetric] algorithms_of_def [symmetric]
    using n(3,4) e by (auto simp: ch_max_profiles_def max_integrity_algorithms_def list_all_iff sha256_digest_len_def not_less)
qed

lemma take_snoc: "n < length xs \<Longrightarrow> take (Suc n) (xs[n := x]) = take n xs @ [x]"
  by (simp add: take_Suc_conv_app_nth)

interpretation chp: bounded_list profiles_of channel_append_profile snoc_profile params_wf is_supported_rohcv2_profile 16
    "\<lambda>p. (algorithms_of p, other_fields p)"
  by unfold_locales
    (auto simp: channel_append_profile_def supports_in_use length_in_use snoc_profile_def ch_max_profiles_def params_wf_def
      profiles_of_def algorithms_of_def take_snoc)

interpretation cha: bounded_list algorithms_of append_integrity snoc_algorithm params_wf is_supported_integrity_algorithm 8
    "\<lambda>p. (profiles_of p, other_fields p)"
  by unfold_locales
    (auto simp: append_integrity_def supports_in_use length_in_use snoc_algorithm_def max_integrity_algorithms_def params_wf_def
      profiles_of_def algorithms_of_def take_snoc)

section \<open>The notify payload\<close>

definition tv :: "attribute_type \<times> u16 \<Rightarrow> bytes" where
  "tv a = be16 (tv_attribute_flag OR attribute_code (fst a)) @ be16 (snd a)"

definition attributes :: "channel_parameters \<Rightarrow> (attribute_type \<times> u16) list" where
  "attributes p = (MaxCid, ch_max_cid p) # map (Pair AttrProfile) (profiles_of p) @ map (Pair Integrity) (algorithms_of p) @
     (if ch_has_icv_len p then [(IcvLength, ch_icv_len p)] else []) @ (if ch_has_mrru p then [(Mrru, ch_mrru p)] else [])"

lemma length_tv [simp]: "length (tv a) = 4"
  by (simp add: tv_def)

lemma length_concat_tv [simp]: "length (concat (map tv as)) = 4 * length as"
  by (induction as) simp_all

lemma write_tv_eq: "write_tv_attribute cap t v out = (if length out + 4 \<le> cap then Done (out @ tv (t, v)) else Reject)"
  by (simp add: write_tv_attribute_def oipsec_write_u16_def tv_def)

lemma write_each_eq:
  "length out \<le> cap \<Longrightarrow> write_each cap t xs is out =
    (if length out + 4 * length is \<le> cap then Done (out @ concat (map tv (map (Pair t) (map ((!) xs) is)))) else Reject)"
  by (induction "is" arbitrary: out) (auto simp: write_tv_eq)

lemma map_nth_in_use: "n \<le> length xs \<Longrightarrow> map ((!) xs) [0..<n] = take n xs"
  by (rule nth_equalityI) simp_all

lemma write_notify_eq:
  assumes "params_wf p"
  shows "write_supported_notify_payload cap p =
    (if channel_valid p \<and> 4 * length (attributes p) \<le> cap then Done (concat (map tv (attributes p))) else Reject)"
proof -
  have use: "map ((!) (ch_profiles p)) [0..<ch_profile_count p] = profiles_of p"
    "map ((!) (ch_integrity_algorithms p)) [0..<ch_integrity_algorithm_count p] = algorithms_of p"
    using assms by (simp_all add: params_wf_def map_nth_in_use profiles_of_def algorithms_of_def)
  have len: "length (profiles_of p) = ch_profile_count p" "length (algorithms_of p) = ch_integrity_algorithm_count p"
    using length_in_use [OF assms] by simp_all
  show ?thesis
    by (auto simp: write_supported_notify_payload_def write_tv_eq write_each_eq use attributes_def len simp del: map_map)
qed

fun apply_all :: "(attribute_type \<times> u16) list \<Rightarrow> channel_parameters \<times> bool \<Rightarrow> (channel_parameters \<times> bool) res" where
  "apply_all [] st = Done st"
| "apply_all ((t, v) # as) st = seq_res (apply_attribute (attribute_code t) v st) (apply_all as)"

lemma apply_all_append: "apply_all (as @ bs) st = seq_res (apply_all as st) (apply_all bs)"
proof (induction as arbitrary: st)
  case (Cons a as)
  obtain t v where "a = (t, v)" by (cases a) auto
  then show ?case using Cons by (cases "apply_attribute (attribute_code t) v st") auto
qed simp

lemma oipsec_read_be16: "oipsec_read_u16 (pre @ be16 v @ post) (length pre) k = k v"
  using of_be16_be16 [of v] by (simp add: oipsec_read_u16_def be16_def nth_append)

lemma attribute_field:
  "(tv_attribute_flag OR attribute_code t) AND tv_attribute_flag \<noteq> 0"
  "(tv_attribute_flag OR attribute_code t) AND attribute_type_mask = attribute_code t"
  by (cases t; simp add: tv_attribute_flag_def attribute_code_def attribute_type_mask_def)+

lemma notify_loop_law:
  "notify_loop (pre @ concat (map tv as)) (length pre) st =
     seq_res (apply_all as st) (\<lambda>st. Done (length pre + 4 * length as, st))"
proof (induction as arbitrary: pre st)
  case Nil
  then show ?case by (simp add: notify_loop.simps)
next
  case (Cons a as)
  obtain t v where a: "a = (t, v)" by (cases a) auto
  let ?f = "tv_attribute_flag OR attribute_code t" and ?rest = "concat (map tv as)"
  let ?data = "pre @ be16 ?f @ be16 v @ ?rest"
  have tva: "tv a = be16 ?f @ be16 v" by (simp add: a tv_def)
  have r2: "oipsec_read_u16 ?data (length pre + 2) k = k v" for k :: "u16 \<Rightarrow> (nat \<times> channel_parameters \<times> bool) res"
    using oipsec_read_be16 [of "pre @ be16 ?f" v ?rest k] by simp
  have "notify_loop ?data (length pre) st = seq_res (apply_attribute (attribute_code t) v st) (notify_loop ?data (length pre + 4))"
    using attribute_field [of t] r2 by (subst notify_loop.simps) (simp only: oipsec_read_be16 if_False, simp)
  also have "notify_loop ?data (length pre + 4) = (\<lambda>st. seq_res (apply_all as st) (\<lambda>st. Done (length pre + 4 + 4 * length as, st)))"
    by (rule ext) (use Cons [of "pre @ tv a"] tva in simp)
  finally show ?case using tva by (cases "apply_attribute (attribute_code t) v st") (simp_all add: a ac_simps)
qed

lemma apply_max_cid:
  "v \<le> ch_max_cid_limit \<Longrightarrow> apply_attribute (attribute_code MaxCid) v (p, False) = Done (p\<lparr>ch_max_cid := v\<rparr>, True)"
  by (simp add: apply_attribute_def leD)

lemma apply_profiles:
  "apply_all (map (Pair AttrProfile) xs) (p, saw) = seq_res (app_all channel_append_profile p xs) (\<lambda>p. Done (p, saw))"
proof (induction xs arbitrary: p)
  case (Cons x xs)
  then show ?case by (cases "channel_append_profile p x") (simp_all add: apply_attribute_def attribute_code_def)
qed simp

lemma apply_algorithms:
  "apply_all (map (Pair Integrity) xs) (p, saw) = seq_res (app_all append_integrity p xs) (\<lambda>p. Done (p, saw))"
proof (induction xs arbitrary: p)
  case (Cons x xs)
  then show ?case by (cases "append_integrity p x") (simp_all add: apply_attribute_def attribute_code_def)
qed simp

definition same_channel :: "channel_parameters \<Rightarrow> channel_parameters \<Rightarrow> bool" where
  \<comment> \<open>agreement on everything the payload carries\<close>
  "same_channel p q \<longleftrightarrow> ch_max_cid q = ch_max_cid p \<and> profiles_of q = profiles_of p \<and> algorithms_of q = algorithms_of p \<and>
     ch_has_icv_len q = ch_has_icv_len p \<and> ch_icv_len q = (if ch_has_icv_len p then ch_icv_len p else 0) \<and>
     ch_has_mrru q = ch_has_mrru p \<and> ch_mrru q = (if ch_has_mrru p then ch_mrru p else 0)"

lemma same_channel_valid:
  assumes "params_wf p" and "params_wf q" and "same_channel p q" and "channel_valid p"
  shows "channel_valid q"
  using assms by (auto simp: channel_valid_iff same_channel_def split: if_splits)

lemma apply_attributes:
  assumes wf: "params_wf p" and v: "channel_valid p"
  shows "\<exists>q. apply_all (attributes p) (channel_parameters_default, False) = Done (q, True) \<and> params_wf q \<and> same_channel p q"
proof -
  let ?d = "channel_parameters_default\<lparr>ch_max_cid := ch_max_cid p\<rparr>"
  let ?p1 = "foldl snoc_profile ?d (profiles_of p)" and ?q = "\<lambda>s. foldl snoc_algorithm s (algorithms_of p)"
  have d: "params_wf ?d" "profiles_of ?d = []" "algorithms_of ?d = []"
    by (simp_all add: params_wf_def profiles_of_def algorithms_of_def channel_parameters_default_def)
  have valid: "ch_max_cid p \<le> ch_max_cid_limit" "\<forall>x\<in>set (profiles_of p). is_supported_rohcv2_profile x" "distinct (profiles_of p)"
    "\<forall>x\<in>set (algorithms_of p). is_supported_integrity_algorithm x" "distinct (algorithms_of p)"
    using v by (simp_all add: channel_valid_iff [OF wf] list_all_iff)
  have room: "length (profiles_of p) \<le> 16" "length (algorithms_of p) \<le> 8" using wf length_in_use [OF wf] by (simp_all add: params_wf_def)
  have p1: "profiles_of ?p1 = profiles_of p" "params_wf ?p1" "algorithms_of ?p1 = []" "other_fields ?p1 = other_fields ?d"
    using chp.foldl_snoc [of ?d "profiles_of p"] d room by simp_all
  have q: "algorithms_of (?q ?p1) = algorithms_of p" "params_wf (?q ?p1)" "profiles_of (?q ?p1) = profiles_of p" "other_fields (?q ?p1) = other_fields ?d"
    using cha.foldl_snoc [of ?p1 "algorithms_of p"] p1 room by simp_all
  have "app_all channel_append_profile ?d (profiles_of p) = Done ?p1"
    using chp.app_all_eq [of ?d "profiles_of p"] d valid room by simp
  moreover have "app_all append_integrity ?p1 (algorithms_of p) = Done (?q ?p1)"
    using cha.app_all_eq [of ?p1 "algorithms_of p"] p1 valid room by simp
  ultimately have "apply_all (attributes p) (channel_parameters_default, False) =
      apply_all ((if ch_has_icv_len p then [(IcvLength, ch_icv_len p)] else []) @ (if ch_has_mrru p then [(Mrru, ch_mrru p)] else []))
        (?q ?p1, True)"
    using valid(1) leD [OF valid(1)]
    by (simp add: attributes_def apply_all_append apply_profiles apply_algorithms apply_max_cid)
  also have "\<dots> = Done ((?q ?p1)\<lparr>ch_icv_len := (if ch_has_icv_len p then ch_icv_len p else 0), ch_has_icv_len := ch_has_icv_len p,
      ch_mrru := (if ch_has_mrru p then ch_mrru p else 0), ch_has_mrru := ch_has_mrru p\<rparr>, True)"
    using q(4) by (auto simp: apply_attribute_def attribute_code_def channel_parameters_default_def)
  finally show ?thesis
    using q by (auto simp: same_channel_def params_wf_def profiles_of_def algorithms_of_def)
qed

text \<open>
  Valid channel parameters are written as a notify payload whenever it fits, and parsing the payload gives
  parameters that agree on everything transmitted.
\<close>

theorem notify_payload_roundtrip:
  assumes wf: "params_wf p" and v: "channel_valid p" and cap: "4 * length (attributes p) \<le> cap"
  shows "\<exists>out q. write_supported_notify_payload cap p = Done out \<and> parse_supported_notify_payload out = Done q \<and> same_channel p q \<and> channel_valid q"
proof -
  obtain q where q: "apply_all (attributes p) (channel_parameters_default, False) = Done (q, True)" "params_wf q" "same_channel p q"
    using apply_attributes [OF wf v] by blast
  have "channel_valid q" using same_channel_valid [OF wf q(2,3) v] .
  moreover have "notify_loop (concat (map tv (attributes p))) 0 (channel_parameters_default, False) = Done (4 * length (attributes p), q, True)"
    using notify_loop_law [of "[]" "attributes p"] q(1) by simp
  ultimately show ?thesis using q v cap by (simp add: write_notify_eq [OF wf] parse_supported_notify_payload_def)
qed

definition example_channel :: channel_parameters where
  "example_channel = channel_parameters_default\<lparr>ch_max_cid := 100, ch_profiles := [0x101, 0x102] @ replicate 14 0, ch_profile_count := 2,
     ch_integrity_algorithms := [12, 0] @ replicate 6 0, ch_integrity_algorithm_count := 2, ch_icv_len := 16, ch_has_icv_len := True\<rparr>"

lemma example_channel_in_use [simp]:
  "params_wf example_channel" "profiles_of example_channel = [0x101, 0x102]" "algorithms_of example_channel = [12, 0]"
  "ch_max_cid example_channel = 100" "ch_icv_len example_channel = 16" "ch_has_icv_len example_channel"
  "ch_has_mrru example_channel = False"
  by (simp_all add: example_channel_def channel_parameters_default_def params_wf_def profiles_of_def algorithms_of_def)

lemma example_channel_valid: "channel_valid example_channel"
  by (simp add: channel_valid_iff ch_max_cid_limit_def is_supported_rohcv2_profile_def profile_code_def
      is_supported_integrity_algorithm_def integrity_none_def integrity_hmac_sha256_def)

theorem notify_payload_roundtrip_witness:
  "\<exists>out q. write_supported_notify_payload 24 example_channel = Done out \<and> parse_supported_notify_payload out = Done q \<and>
    same_channel example_channel q \<and> channel_valid q"
  using notify_payload_roundtrip [of example_channel 24] example_channel_valid by (simp add: attributes_def)

section \<open>Parsing any payload\<close>

lemma oipsec_read_u16_safe [safe_intros]: "(\<And>v. safe P (k v)) \<Longrightarrow> safe P (oipsec_read_u16 data pos k)"
  by (simp add: oipsec_read_u16_def)

lemma appends_safe:
  assumes "params_wf p"
  shows "safe params_wf (channel_append_profile p x)" "safe params_wf (append_integrity p x)"
  using chp.app_eq [OF assms] chp.inv_snoc [OF assms] cha.app_eq [OF assms] cha.inv_snoc [OF assms] by simp_all

lemma apply_attribute_safe: "params_wf (fst st) \<Longrightarrow> safe (\<lambda>st. params_wf (fst st)) (apply_attribute type value st)"
  using appends_safe
  by (cases st) (auto simp: apply_attribute_def params_wf_def intro!: safe_intros safe_seq [where Q = params_wf])

lemma notify_loop_safe: "params_wf (fst st) \<Longrightarrow> safe (\<lambda>r. params_wf (fst (snd r))) (notify_loop data pos st)"
proof (induction data pos st rule: notify_loop.induct)
  case (1 data pos st)
  have step: "safe (\<lambda>r. params_wf (fst (snd r))) (seq_res (apply_attribute (t AND attribute_type_mask) v st) (notify_loop data (pos + 4)))"
    if "pos + 4 \<le> length data" "t AND tv_attribute_flag \<noteq> 0" for t v
  proof (cases "apply_attribute (t AND attribute_type_mask) v st")
    case (Done st')
    then have "params_wf (fst st')" using apply_attribute_safe [OF 1(3), of "t AND attribute_type_mask" v] by simp
    then show ?thesis using 1(2) [OF that Done] Done by simp
  qed (use apply_attribute_safe [OF 1(3), of "t AND attribute_type_mask" v] in simp_all)
  show ?case
    by (subst notify_loop.simps) (use 1(1,3) step in \<open>auto intro!: safe_intros\<close>)
qed

theorem parse_notify_safe: "safe (\<lambda>p. params_wf p \<and> channel_valid p) (parse_supported_notify_payload data)"
proof -
  have "params_wf channel_parameters_default" by (simp add: params_wf_def channel_parameters_default_def)
  then show ?thesis
    unfolding parse_supported_notify_payload_def
    by (intro safe_seq [OF notify_loop_safe]) auto
qed

section \<open>Negotiation\<close>

lemma negotiate_profiles_eq:
  "params_wf peer \<Longrightarrow> negotiate_profiles local peer is n =
    app_all channel_append_profile n (filter (\<lambda>x. x \<in> set (profiles_of peer)) (map ((!) (ch_profiles local)) is))"
  by (induction "is" arbitrary: n) (simp_all add: supports_in_use cong: seq_res_cong)

lemma negotiate_integrity_eq:
  "params_wf peer \<Longrightarrow> negotiate_integrity local peer is n =
    (case filter (\<lambda>x. x \<in> set (algorithms_of peer)) (map ((!) (ch_integrity_algorithms local)) is) of [] \<Rightarrow> Done n | a # _ \<Rightarrow> append_integrity n a)"
  by (induction "is" arbitrary: n) (simp_all add: supports_in_use)

abbreviation common_profiles :: "channel_parameters \<Rightarrow> channel_parameters \<Rightarrow> u16 list" where
  "common_profiles local peer \<equiv> filter (\<lambda>x. x \<in> set (profiles_of peer)) (profiles_of local)"

abbreviation common_algorithms :: "channel_parameters \<Rightarrow> channel_parameters \<Rightarrow> u16 list" where
  "common_algorithms local peer \<equiv> filter (\<lambda>x. x \<in> set (algorithms_of peer)) (algorithms_of local)"

text \<open>
  C38. Negotiation of two valid parameter sets succeeds exactly when they have a profile and an integrity algorithm in
  common, unless the first common algorithm is NULL and the peer announces a non-zero ICV length. The result has
  the common profiles and the first common algorithm in the local order of preference, and the limits of the peer.
\<close>

theorem negotiate_exact:
  assumes wf: "params_wf local" "params_wf peer" and v: "channel_valid local" "channel_valid peer"
  shows "if common_profiles local peer = [] \<or> common_algorithms local peer = [] \<or>
       hd (common_algorithms local peer) = integrity_none \<and> ch_has_icv_len peer \<and> ch_icv_len peer \<noteq> 0
    then negotiate local peer = Reject
    else \<exists>n. negotiate local peer = Done n \<and> channel_valid n \<and> profiles_of n = common_profiles local peer \<and>
      algorithms_of n = [hd (common_algorithms local peer)] \<and> ch_max_cid n = ch_max_cid peer \<and>
      ch_mrru n = ch_mrru peer \<and> ch_has_mrru n = ch_has_mrru peer \<and> ch_has_icv_len n = ch_has_icv_len peer \<and>
      ch_icv_len n = (if ch_has_icv_len peer then ch_icv_len peer else 0)"
proof -
  let ?icv = "if ch_has_icv_len peer then ch_icv_len peer else 0"
  define d where "d = channel_parameters_default\<lparr>ch_max_cid := ch_max_cid peer, ch_mrru := ch_mrru peer, ch_has_mrru := ch_has_mrru peer,
    ch_icv_len := ?icv, ch_has_icv_len := ch_has_icv_len peer\<rparr>"
  let ?ps = "common_profiles local peer" and ?as = "common_algorithms local peer"
  define p1 where "p1 = foldl snoc_profile d ?ps"
  have d: "params_wf d" "profiles_of d = []" "algorithms_of d = []"
    "other_fields d = (ch_max_cid peer, ?icv, ch_has_icv_len peer, ch_mrru peer, ch_has_mrru peer)"
    by (simp_all add: d_def params_wf_def profiles_of_def algorithms_of_def channel_parameters_default_def)
  have use: "map ((!) (ch_profiles local)) [0..<ch_profile_count local] = profiles_of local"
    "map ((!) (ch_integrity_algorithms local)) [0..<ch_integrity_algorithm_count local] = algorithms_of local"
    using wf(1) by (simp_all add: params_wf_def map_nth_in_use profiles_of_def algorithms_of_def)
  note vl = v(1) [unfolded channel_valid_iff [OF wf(1)] list_all_iff] and vp = v(2) [unfolded channel_valid_iff [OF wf(2)] list_all_iff]
  have room: "length ?ps \<le> 16"
    using length_filter_le [of "\<lambda>x. x \<in> set (profiles_of peer)" "profiles_of local"] length_in_use(1) [OF wf(1)] wf(1)
    by (simp add: params_wf_def)
  have p1: "profiles_of p1 = ?ps" "params_wf p1" "algorithms_of p1 = []" "other_fields p1 = other_fields d"
    using chp.foldl_snoc [of d ?ps] d room by (simp_all add: p1_def)
  have s1: "negotiate_profiles local peer [0..<ch_profile_count local] d = Done p1"
    using chp.app_all_eq [of d ?ps] d room vl by (simp add: negotiate_profiles_eq [OF wf(2)] use p1_def)
  have neg: "negotiate local peer = seq_res (case ?as of [] \<Rightarrow> Done p1 | a # _ \<Rightarrow> append_integrity p1 a) (\<lambda>n.
      if \<not> channel_valid n then Reject else Done (if supports_integrity n integrity_none then n\<lparr>ch_icv_len := 0\<rparr> else n))"
    using v s1 by (simp add: negotiate_def d_def [symmetric] negotiate_integrity_eq [OF wf(2)] use)
  show ?thesis
  proof (cases ?as)
    case Nil
    have "\<not> channel_valid p1" using p1(3) by (simp add: channel_valid_iff [OF p1(2)])
    then show ?thesis using Nil neg by simp
  next
    case (Cons a as)
    have "a \<in> set ?as" unfolding Cons by simp
    then have a: "a \<in> set (algorithms_of local)" "a \<in> set (algorithms_of peer)" "is_supported_integrity_algorithm a" using vl by auto
    define n where "n = snoc_algorithm p1 a"
    have app: "append_integrity p1 a = Done n" using cha.app_eq [OF p1(2)] p1(3) a(3) by (simp add: n_def)
    have n: "algorithms_of n = [a]" "params_wf n" "profiles_of n = ?ps" "other_fields n = other_fields d"
      using cha.foldl_snoc [of p1 "[a]"] p1 by (simp_all add: n_def)
    have "a \<noteq> integrity_none \<Longrightarrow> \<not> set (algorithms_of peer) \<subseteq> {integrity_none}" using a(2) by blast
    then have peer_icv: "ch_has_icv_len peer \<Longrightarrow> a \<noteq> integrity_none \<Longrightarrow> 0 < ch_icv_len peer \<and> unat (ch_icv_len peer) \<le> 32"
      using vp by presburger
    have valid: "channel_valid n \<longleftrightarrow> ?ps \<noteq> [] \<and> \<not> (a = integrity_none \<and> ch_has_icv_len peer \<and> ch_icv_len peer \<noteq> 0)"
      using n d(4) vl a conjunct1 [OF vp] peer_icv by (auto simp: channel_valid_iff [OF n(2)] list_all_iff)
    have none: "channel_valid n \<Longrightarrow> supports_integrity n integrity_none \<Longrightarrow> n\<lparr>ch_icv_len := 0\<rparr> = n"
      using n d(4) valid by (auto simp: supports_in_use [OF n(2)])
    show ?thesis
      using Cons neg app n d(4) valid none by auto
  qed
qed

theorem negotiate_exact_witness:
  "\<exists>n. negotiate example_channel (example_channel\<lparr>ch_max_cid := 15\<rparr>) = Done n \<and> algorithms_of n = [12] \<and> ch_max_cid n = 15 \<and> ch_icv_len n = 16"
proof -
  let ?peer = "example_channel\<lparr>ch_max_cid := 15\<rparr>"
  have "params_wf ?peer" "profiles_of ?peer = [0x101, 0x102]" "algorithms_of ?peer = [12, 0]"
    using example_channel_in_use by (simp_all add: params_wf_def profiles_of_def algorithms_of_def)
  moreover from this have "channel_valid ?peer"
    using example_channel_valid by (simp add: channel_valid_iff ch_max_cid_limit_def integrity_none_def)
  ultimately show ?thesis
    using negotiate_exact [of example_channel ?peer] example_channel_valid by (auto simp: integrity_none_def)
qed

section \<open>Integrity check values\<close>

lemma ct_diff_eq:
  "(\<forall>i\<in>set is. i < length a \<and> i < length b) \<Longrightarrow> \<exists>r. ct_diff a b is d = Done r \<and> (r = 0 \<longleftrightarrow> d = 0 \<and> (\<forall>i\<in>set is. a ! i = b ! i))"
proof (induction "is" arbitrary: d)
  case (Cons i "is")
  have "\<exists>r. ct_diff a b is (d OR (a ! i XOR b ! i)) = Done r \<and> (r = 0 \<longleftrightarrow> d OR (a ! i XOR b ! i) = 0 \<and> (\<forall>i\<in>set is. a ! i = b ! i))"
    using Cons.prems by (intro Cons.IH) simp
  moreover have "d OR (a ! i XOR b ! i) = 0 \<longleftrightarrow> d = 0 \<and> a ! i = b ! i"
    by (auto simp: bit_eq_iff bit_or_iff bit_xor_iff)
  ultimately show ?case using Cons.prems by simp
qed simp

lemma constant_time_equal_eq:
  assumes "n \<le> length a" and "n \<le> length b"
  shows "constant_time_equal a b n = Done (take n a = take n b)"
proof -
  obtain r where "ct_diff a b [0..<n] 0 = Done r" "r = 0 \<longleftrightarrow> (\<forall>i\<in>set [0..<n]. a ! i = b ! i)"
    using ct_diff_eq [of "[0..<n]" a b 0] assms by auto
  moreover have "(\<forall>i\<in>set [0..<n]. a ! i = b ! i) \<longleftrightarrow> take n a = take n b"
    using assms by (auto simp: list_eq_iff_nth_eq)
  ultimately show ?thesis by (simp add: constant_time_equal_def)
qed

abbreviation icv_usable :: "u16 \<Rightarrow> bytes \<Rightarrow> nat \<Rightarrow> bool" where
  "icv_usable algorithm auth n \<equiv> algorithm = integrity_hmac_sha256 \<and> 0 < n \<and> n \<le> 32 \<and> length auth \<le> 4096"

definition icv :: "u16 \<Rightarrow> bytes \<Rightarrow> bytes \<Rightarrow> nat \<Rightarrow> bytes" where
  "icv algorithm key auth n = (if algorithm = integrity_none then [] else take n (hmac_reference key auth))"

lemma length_hmac [simp]: "length (hmac_reference key m) = 32"
  by (simp add: hmac_reference_def Let_def)

lemma append_icv_eq:
  "append_icv algorithm key auth packet cap n =
    (if (algorithm = integrity_none \<or> icv_usable algorithm auth n) \<and> length packet + length (icv algorithm key auth n) \<le> cap
     then Done (packet @ icv algorithm key auth n) else Reject)"
  by (auto simp: append_icv_def digest_len_def sha256_digest_len_def Let_def compute_icv_eq icv_def integrity_none_def integrity_hmac_sha256_def)

lemma strip_icv_eq:
  "strip_and_verify_icv algorithm key auth packet n =
    (if algorithm = integrity_none then Done packet
     else if icv_usable algorithm auth n \<and> n \<le> length packet \<and> drop (length packet - n) packet = icv algorithm key auth n
     then Done (take (length packet - n) packet) else Reject)"
proof (cases "icv_usable algorithm auth n \<and> n \<le> length packet")
  case True
  let ?d = "take n (hmac_reference key auth) @ replicate (32 - n) 0"
  have "constant_time_equal ?d (drop (length packet - n) packet) n = Done (take n (hmac_reference key auth) = drop (length packet - n) packet)"
    using True by (subst constant_time_equal_eq) simp_all
  then show ?thesis using True
    by (auto simp: strip_and_verify_icv_def digest_len_def sha256_digest_len_def Let_def compute_icv_eq icv_def integrity_none_def integrity_hmac_sha256_def)
next
  case False
  then show ?thesis
    by (auto simp: strip_and_verify_icv_def digest_len_def sha256_digest_len_def Let_def compute_icv_eq icv_def integrity_none_def
        integrity_hmac_sha256_def constant_time_equal_eq)
qed

text \<open>
  C36. A packet is protected with exactly the truncated HMAC-SHA-256 of the authenticated octets, for an ICV length of 1 to 32
  octets, at most 4096 authenticated octets and sufficient room; the receiver accepts a protected packet exactly when its last octets are this value, and
  then returns what precedes them. So a protected packet is always restored, and no other octets are accepted.
\<close>

theorem icv_protects:
  assumes "icv_usable integrity_hmac_sha256 auth n"
  shows "append_icv integrity_hmac_sha256 key auth packet cap n =
      (if length packet + n \<le> cap then Done (packet @ take n (hmac_reference key auth)) else Reject) \<and>
    strip_and_verify_icv integrity_hmac_sha256 key auth received n =
      (if \<exists>p. received = p @ take n (hmac_reference key auth) then Done (take (length received - n) received) else Reject)"
proof -
  let ?t = "take n (hmac_reference key auth)"
  have t: "length ?t = n" using assms by simp
  have "(n \<le> length received \<and> drop (length received - n) received = ?t) \<longleftrightarrow> (\<exists>p. received = p @ ?t)"
  proof
    assume "n \<le> length received \<and> drop (length received - n) received = ?t"
    then have "received = take (length received - n) received @ ?t" by (metis append_take_drop_id)
    then show "\<exists>p. received = p @ ?t" by blast
  next
    assume "\<exists>p. received = p @ ?t"
    then obtain p where p: "received = p @ ?t" ..
    then have "length received = length p + n" using t by simp
    then show "n \<le> length received \<and> drop (length received - n) received = ?t" using p by simp
  qed
  then show ?thesis using assms t
    by (auto simp: append_icv_eq strip_icv_eq icv_def integrity_none_def integrity_hmac_sha256_def)
qed

theorem icv_protects_witness:
  "append_icv integrity_hmac_sha256 [1, 2, 3] [4, 5] [6] 17 16 = Done ([6] @ take 16 (hmac_reference [1, 2, 3] [4, 5])) \<and>
   strip_and_verify_icv integrity_hmac_sha256 [1, 2, 3] [4, 5] ([6] @ take 16 (hmac_reference [1, 2, 3] [4, 5])) 16 = Done [6]"
  using icv_protects [of 16 "[4, 5]" "[1, 2, 3]" "[6]" 17 "[6] @ take 16 (hmac_reference [1, 2, 3] [4, 5])"] by auto

end
