(* ===== verification/CApiPackets.thy ===== *)
theory CApiPackets
  imports Endpoint FoPrivate
begin

text \<open>
  The packet images behind the C interface (first part of \<open>c_api/rohc_c_api.cpp\<close>): reading an IP packet into a context
  (\<open>parse_ip_view\<close>, the \<open>capture_\<close> operations), writing a packet from a context (the \<open>build_\<close> operations for IPv4 and
  IPv6), the one's complement checksums, and the predicates by which the compressor decides whether a
  compact packet can be reconstructed. An output \<open>std::array\<close> that a builder fills from zero is the list it
  returns; the \<open>memset\<close> before the fields are written leaves no octet unwritten.
\<close>

section \<open>Model: checksums\<close>

definition capi_ipv4_checksum :: "bytes \<Rightarrow> u16" where
  "capi_ipv4_checksum hdr = ucast (NOT (fold_carry (checksum_words hdr 0)))"

record internet_checksum =
  ic_sum :: u32
  ic_high :: byte
  ic_has_high :: bool

definition internet_checksum_new :: internet_checksum where
  "internet_checksum_new = \<lparr>ic_sum = 0, ic_high = 0, ic_has_high = False\<rparr>"

fun ic_add_words :: "internet_checksum \<Rightarrow> bytes \<Rightarrow> internet_checksum" where
  "ic_add_words c (a # b # rest) = ic_add_words (c\<lparr>ic_sum := ic_sum c + ucast (of_be16 a b)\<rparr>) rest"
| "ic_add_words c [a] = c\<lparr>ic_high := a, ic_has_high := True\<rparr>"
| "ic_add_words c [] = c"

definition ic_add :: "internet_checksum \<Rightarrow> bytes \<Rightarrow> internet_checksum" where
  "ic_add c data =
     (if ic_has_high c \<and> length data > 0
      then ic_add_words (c\<lparr>ic_sum := ic_sum c + ucast (of_be16 (ic_high c) (hd data)), ic_has_high := False\<rparr>) (tl data)
      else ic_add_words c data)"

definition ic_valid :: "internet_checksum \<Rightarrow> bool" where
  "ic_valid c \<longleftrightarrow>
     (let s = (if ic_has_high c then ic_sum c + ucast (push_bit 8 (ucast (ic_high c)) :: u16) else ic_sum c) in
      (ucast (fold_carry s) :: u16) = 0xFFFF)"

definition udp_checksum_valid :: "bytes \<Rightarrow> bytes \<Rightarrow> bytes \<Rightarrow> bool res" where
  "udp_checksum_valid header prefix payload =
     rd header 26 (\<lambda>c0. rd header 27 (\<lambda>c1.
       if c0 = 0 \<and> c1 = 0 then Done False
       else rd header 24 (\<lambda>l0. rd header 25 (\<lambda>l1. copy_in header 12 8 (\<lambda>addresses. copy_in header 20 8 (\<lambda>udp.
         let c = ic_add internet_checksum_new addresses;
             c = ic_add c [0, 17, l0, l1];
             c = ic_add c udp;
             c = ic_add c prefix;
             c = ic_add c payload in
         Done (ic_valid c)))))))"

section \<open>Model: capturing a packet\<close>

definition capture_ipv4_options :: "rohc_context \<Rightarrow> bytes \<Rightarrow> nat \<Rightarrow> rohc_context res" where
  "capture_ipv4_options ctx packet ip_hlen =
     (if ip_hlen < 20 then Reject
      else let options_len = ip_hlen - 20 in
        if options_len > 40 \<or> options_len mod 4 \<noteq> 0 then Reject
        else copy_in packet 20 options_len (\<lambda>opts.
          Done (ctx\<lparr>ctx_ipv4_options_len := of_nat options_len, ctx_ipv4_options := opts @ replicate (40 - options_len) 0\<rparr>)))"

record parsed_ip_view =
  pv_ip4 :: "ipv4_header option"
  pv_ip6 :: "ipv6_header option"
  pv_header_len :: nat
  pv_extension_len :: nat
  pv_terminal_protocol :: byte
  pv_is_ipv6 :: bool

definition parse_ip_view :: "bytes \<Rightarrow> parsed_ip_view res" where
  "parse_ip_view packet =
     (case ipv4_parse packet of
        Fault \<Rightarrow> Fault
      | Done (ip, hlen) \<Rightarrow> Done \<lparr>pv_ip4 = Some ip, pv_ip6 = None, pv_header_len = hlen, pv_extension_len = 0,
          pv_terminal_protocol = ip4_protocol ip, pv_is_ipv6 = False\<rparr>
      | Reject \<Rightarrow> seq_res (ipv6_parse packet) (\<lambda>(ip, hlen, nxt, ext).
          Done \<lparr>pv_ip4 = None, pv_ip6 = Some ip, pv_header_len = hlen, pv_extension_len = ext,
            pv_terminal_protocol = nxt, pv_is_ipv6 = True\<rparr>))"

definition capture_ipv4_fields :: "rohc_context \<Rightarrow> ipv4_header \<Rightarrow> rohc_context" where
  "capture_ipv4_fields ctx ip =
     ctx\<lparr>ctx_ipv4_tos := ip4_tos ip, ctx_ipv4_ttl := ip4_ttl ip, ctx_ipv4_id := ip4_identification ip,
         ctx_ipv4_flags := ucast (drop_bit 13 (ip4_flags_fragment ip) AND 0x07),
         ctx_ipv4_saddr := ip4_src ip, ctx_ipv4_daddr := ip4_dst ip,
         ctx_ipv4_id_behavior := (if ip4_identification ip = 0 then 3 else 2), ctx_ipv4_id_sequential := False\<rparr>"

definition capture_ipv6_fields :: "rohc_context \<Rightarrow> ipv6_header \<Rightarrow> rohc_context" where
  "capture_ipv6_fields ctx ip =
     ctx\<lparr>ctx_ipv6_traffic_class := ucast (drop_bit 20 (ip6_version_tc_flow ip) AND 0xFF),
         ctx_ipv6_flow_label := ip6_version_tc_flow ip AND 0x000FFFFF, ctx_ipv6_next_header := ip6_next_header ip,
         ctx_ipv6_hop_limit := ip6_hop_limit ip, ctx_ipv6_saddr := ip6_src ip, ctx_ipv6_daddr := ip6_dst ip\<rparr>"

definition capture_ip_context :: "rohc_context \<Rightarrow> bytes \<Rightarrow> parsed_ip_view \<Rightarrow> rohc_context res" where
  "capture_ip_context ctx packet v =
     (let ctx = ctx\<lparr>ctx_ip_version := (if pv_is_ipv6 v then 6 else 4), ctx_ipv4_protocol := pv_terminal_protocol v,
          ctx_ipv4_options_len := 0, ctx_ipv4_options := replicate 40 0, ctx_ipv6_extension_len := 0,
          ctx_ipv6_extensions := replicate 128 0\<rparr> in
      if \<not> pv_is_ipv6 v then
        case pv_ip4 v of None \<Rightarrow> Fault | Some ip \<Rightarrow> capture_ipv4_options (capture_ipv4_fields ctx ip) packet (pv_header_len v)
      else case pv_ip6 v of None \<Rightarrow> Fault | Some ip \<Rightarrow>
        if pv_extension_len v > 128 then Reject
        else copy_in packet 40 (pv_extension_len v) (\<lambda>ext.
          Done ((capture_ipv6_fields ctx ip)\<lparr>ctx_ipv6_extension_len := of_nat (pv_extension_len v),
            ctx_ipv6_extensions := ext @ replicate (128 - pv_extension_len v) 0\<rparr>)))"

definition capture_csrc :: "rtp_context \<Rightarrow> bytes \<Rightarrow> nat \<Rightarrow> (rtp_context \<times> nat) res" where
  "capture_csrc r packet csrc_len =
     (if length packet < 12 + csrc_len \<or> csrc_len > 60 then Reject
      else copy_in packet 12 csrc_len (\<lambda>csrc.
        Done (r\<lparr>rtp_csrc_list_len := of_nat csrc_len, rtp_csrc_list := csrc @ replicate (60 - csrc_len) 0\<rparr>, 12 + csrc_len)))"

definition capture_rtp_extension :: "rtp_context \<Rightarrow> bytes \<Rightarrow> nat \<Rightarrow> (rtp_context \<times> nat) res" where
  "capture_rtp_extension r packet pos =
     rd packet 0 (\<lambda>b0. if b0 AND 0x10 = 0 then Done (r, pos)
       else if length packet < pos + 4 then Reject
       else rd16 packet (pos + 2) (\<lambda>extension_words.
         let extension_len = 4 + unat extension_words * 4 in
         if extension_len > 256 \<or> length packet < pos + extension_len then Reject
         else copy_in packet pos extension_len (\<lambda>ext.
           Done (r\<lparr>rtp_extension_len := of_nat extension_len, rtp_extension_bytes := ext @ replicate (256 - extension_len) 0\<rparr>,
                 pos + extension_len))))"

definition capture_rtp_padding :: "rtp_context \<Rightarrow> bytes \<Rightarrow> nat \<Rightarrow> (rtp_context \<times> nat) res" where
  "capture_rtp_padding r packet pos =
     rd packet 0 (\<lambda>b0. if b0 AND 0x20 = 0 then Done (r, 0)
       else rd packet (szsub (length packet) 1) (\<lambda>last.
         let padding_len = unat last in
         if padding_len = 0 \<or> padding_len > 255 \<or> padding_len > szsub (length packet) pos then Reject
         else copy_in packet (length packet - padding_len) padding_len (\<lambda>pad.
           Done (r\<lparr>rtp_padding_len := of_nat padding_len, rtp_padding_bytes := pad @ replicate (255 - padding_len) 0\<rparr>, padding_len))))"

definition capture_rtp_context :: "rohc_context \<Rightarrow> bytes \<Rightarrow> (rohc_context \<times> nat \<times> nat) res" where
  \<comment> \<open>the context, \<open>payload_offset\<close> and \<open>payload_len\<close>\<close>
  "capture_rtp_context ctx rtp_packet =
     (if length rtp_packet < 12 then Reject
      else let r = (ctx_rtp ctx)\<lparr>rtp_csrc_list_len := 0, rtp_csrc_list := replicate 60 0, rtp_extension_len := 0,
          rtp_extension_bytes := replicate 256 0, rtp_padding_len := 0, rtp_padding_bytes := replicate 255 0\<rparr> in
        rd rtp_packet 0 (\<lambda>b0. seq_res (capture_csrc r rtp_packet (unat (b0 AND 0x0F) * 4)) (\<lambda>(r, pos).
        seq_res (capture_rtp_extension r rtp_packet pos) (\<lambda>(r, pos).
        seq_res (capture_rtp_padding r rtp_packet pos) (\<lambda>(r, padding_len).
        seq_res (rtp_extras_body_len r) (\<lambda>_.
          Done (ctx\<lparr>ctx_rtp := r\<rparr>, pos, length rtp_packet - pos - padding_len)))))))"

definition rtp_context_payload_layout :: "rohc_context \<Rightarrow> (nat \<times> nat \<times> nat) res" where
  "rtp_context_payload_layout ctx =
     seq_res (rtp_extras_body_len (ctx_rtp ctx)) (\<lambda>_.
       Done (unat (rtp_csrc_list_len (ctx_rtp ctx)), unat (rtp_extension_len (ctx_rtp ctx)), unat (rtp_padding_len (ctx_rtp ctx))))"

section \<open>Model: small CIDs\<close>

definition prepend_small_cid :: "nat \<Rightarrow> u32 \<Rightarrow> bytes \<Rightarrow> bytes res" where
  \<comment> \<open>the packet in place, in a buffer of \<open>capacity\<close> octets\<close>
  "prepend_small_cid capacity cid packet =
     (if cid = 0 then Done packet
      else if cid > 0x0F \<or> length packet + 1 > capacity then Reject
      else Done ((0xE0 OR ucast (cid AND 0x0F)) # packet))"

definition prepend_private_rtp_small_cid :: "nat \<Rightarrow> u32 \<Rightarrow> bytes \<Rightarrow> bytes res" where
  "prepend_private_rtp_small_cid capacity cid packet =
     (if cid > 0x0F \<or> length packet + 1 > capacity then Reject else Done ((0xE0 OR ucast cid) # packet))"

section \<open>Model: writing a packet\<close>

definition checked_packet_size :: "nat \<Rightarrow> nat \<Rightarrow> nat res" where
  "checked_packet_size base payload = (if payload > szsub (2 ^ 64 - 1) base then Reject else Done (base + payload))"

definition ipv4_octets :: "rohc_context \<Rightarrow> nat \<Rightarrow> nat \<Rightarrow> byte \<Rightarrow> bytes \<Rightarrow> u16 \<Rightarrow> bytes" where
  \<comment> \<open>an IPv4 header of \<open>ip_len\<close> octets with the given total length, protocol, options and checksum\<close>
  "ipv4_octets ctx ip_len tot protocol opts csum =
     [0x40 OR of_nat (ip_len div 4), ctx_ipv4_tos ctx] @ be16 (of_nat tot) @ be16 (ctx_ipv4_id ctx) @
     [push_bit 5 (ctx_ipv4_flags ctx), 0, ctx_ipv4_ttl ctx, protocol] @ be16 csum @
     be32 (ctx_ipv4_saddr ctx) @ be32 (ctx_ipv4_daddr ctx) @ opts"

definition ipv4_image :: "rohc_context \<Rightarrow> nat \<Rightarrow> nat \<Rightarrow> byte \<Rightarrow> bytes \<Rightarrow> bytes" where
  "ipv4_image ctx ip_len tot protocol opts =
     ipv4_octets ctx ip_len tot protocol opts (capi_ipv4_checksum (ipv4_octets ctx ip_len tot protocol opts 0))"

definition udp_octets :: "rohc_context \<Rightarrow> u16 \<Rightarrow> bytes" where
  "udp_octets ctx length_or_coverage =
     be16 (ctx_udp_sport ctx) @ be16 (ctx_udp_dport ctx) @ be16 length_or_coverage @ be16 (ctx_udp_check ctx)"

definition rtp_octets :: "rohc_context \<Rightarrow> bytes" where
  "rtp_octets ctx =
     [rtp_vpxcc (ctx_rtp ctx), rtp_mpt (ctx_rtp ctx)] @ be16 (rtp_last_seq (ctx_rtp ctx)) @
     be32 (rtp_last_ts (ctx_rtp ctx)) @ be32 (rtp_ssrc (ctx_rtp ctx))"

definition build_ip_packet :: "nat \<Rightarrow> rohc_context \<Rightarrow> bytes \<Rightarrow> bytes res" where
  "build_ip_packet cap ctx payload =
     (let ip_len = 20 + unat (ctx_ipv4_options_len ctx) in
      seq_res (checked_packet_size ip_len (length payload)) (\<lambda>tot.
        if tot > 0xFFFF \<or> cap < tot then Reject
        else copy_in (ctx_ipv4_options ctx) 0 (unat (ctx_ipv4_options_len ctx)) (\<lambda>opts.
          put_all cap [] (ipv4_image ctx ip_len tot (ctx_ipv4_protocol ctx) opts) (\<lambda>out. put_all cap out payload Done))))"

definition build_udp_packet :: "nat \<Rightarrow> rohc_context \<Rightarrow> bytes \<Rightarrow> bytes res" where
  "build_udp_packet cap ctx payload =
     (let ip_len = 20 + unat (ctx_ipv4_options_len ctx); lite = (ctx_profile ctx = UDP_Lite) in
      seq_res (checked_packet_size (ip_len + 8) (length payload)) (\<lambda>tot.
        if tot > 0xFFFF \<or> cap < tot then Reject
        else copy_in (ctx_ipv4_options ctx) 0 (unat (ctx_ipv4_options_len ctx)) (\<lambda>opts.
          put_all cap [] (ipv4_image ctx ip_len tot (if lite then 136 else 17) opts) (\<lambda>out.
          put_all cap out (udp_octets ctx (if lite then ctx_udp_length_or_coverage ctx else of_nat (8 + length payload))) (\<lambda>out.
          put_all cap out payload Done)))))"

definition put_rtp :: "nat \<Rightarrow> bytes \<Rightarrow> rohc_context \<Rightarrow> nat \<Rightarrow> nat \<Rightarrow> nat \<Rightarrow> bytes \<Rightarrow> bytes res" where
  \<comment> \<open>the RTP header, CSRC list, extension, payload and padding\<close>
  "put_rtp cap out ctx csrc_len extension_len padding_len payload =
     put_all cap out (rtp_octets ctx) (\<lambda>out.
     copy_in (rtp_csrc_list (ctx_rtp ctx)) 0 csrc_len (\<lambda>csrc. put_all cap out csrc (\<lambda>out.
     copy_in (rtp_extension_bytes (ctx_rtp ctx)) 0 extension_len (\<lambda>ext. put_all cap out ext (\<lambda>out.
     put_all cap out payload (\<lambda>out.
     copy_in (rtp_padding_bytes (ctx_rtp ctx)) 0 padding_len (\<lambda>pad. put_all cap out pad Done)))))))"

definition build_rtp_packet :: "nat \<Rightarrow> rohc_context \<Rightarrow> bytes \<Rightarrow> bytes res" where
  "build_rtp_packet cap ctx payload =
     seq_res (rtp_context_payload_layout ctx) (\<lambda>(csrc_len, extension_len, padding_len).
       let ip_len = 20 + unat (ctx_ipv4_options_len ctx); lite = (ctx_profile ctx = RTP_UDP_Lite);
           rtp_header_len = 12 + csrc_len + extension_len in
       if length payload > szsub (szsub (2 ^ 64 - 1) rtp_header_len) padding_len then Reject
       else let rtp_wire_len = rtp_header_len + length payload + padding_len in
         seq_res (checked_packet_size (ip_len + 8) rtp_wire_len) (\<lambda>tot.
         if tot > 0xFFFF \<or> cap < tot then Reject
         else copy_in (ctx_ipv4_options ctx) 0 (unat (ctx_ipv4_options_len ctx)) (\<lambda>opts.
           put_all cap [] (ipv4_image ctx ip_len tot (if lite then 136 else 17) opts) (\<lambda>out.
           put_all cap out (udp_octets ctx (if lite then ctx_udp_length_or_coverage ctx else of_nat (8 + rtp_wire_len))) (\<lambda>out.
           put_rtp cap out ctx csrc_len extension_len padding_len payload)))))"

definition ipv6_octets :: "rohc_context \<Rightarrow> nat \<Rightarrow> bytes \<Rightarrow> bytes" where
  "ipv6_octets ctx upper_len ext =
     (let first_word = 0x60000000 OR push_bit 20 (ucast (ctx_ipv6_traffic_class ctx)) OR (ctx_ipv6_flow_label ctx AND 0x000FFFFF) :: u32 in
      [ucast (drop_bit 24 first_word), ucast (drop_bit 16 first_word), ucast (drop_bit 8 first_word), ucast first_word] @
      be16 (of_nat upper_len) @ [ctx_ipv6_next_header ctx, ctx_ipv6_hop_limit ctx] @
      ctx_ipv6_saddr ctx @ ctx_ipv6_daddr ctx @ ext)"

definition build_ipv6_header :: "nat \<Rightarrow> nat \<Rightarrow> rohc_context \<Rightarrow> nat \<Rightarrow> bytes res" where
  "build_ipv6_header cap tot ctx upper_len =
     (if tot < 40 \<or> upper_len > 0xFFFF then Reject
      else copy_in (ctx_ipv6_extensions ctx) 0 (unat (ctx_ipv6_extension_len ctx)) (\<lambda>ext.
        put_all cap [] (ipv6_octets ctx upper_len ext) Done))"

definition build_ipv6_ip_packet :: "nat \<Rightarrow> rohc_context \<Rightarrow> bytes \<Rightarrow> bytes res" where
  "build_ipv6_ip_packet cap ctx payload =
     (let ext_len = unat (ctx_ipv6_extension_len ctx); ip_len = 40 + ext_len in
      seq_res (checked_packet_size ext_len (length payload)) (\<lambda>upper_len.
        if upper_len > 0xFFFF then Reject
        else seq_res (checked_packet_size ip_len (length payload)) (\<lambda>tot.
          if cap < tot then Reject
          else seq_res (build_ipv6_header cap tot ctx upper_len) (\<lambda>out. put_all cap out payload Done))))"

definition build_ipv6_udp_packet :: "nat \<Rightarrow> rohc_context \<Rightarrow> bytes \<Rightarrow> bytes res" where
  "build_ipv6_udp_packet cap ctx payload =
     (let ext_len = unat (ctx_ipv6_extension_len ctx); ip_len = 40 + ext_len; lite = (ctx_profile ctx = UDP_Lite) in
      seq_res (checked_packet_size (ext_len + 8) (length payload)) (\<lambda>upper_len.
        if upper_len > 0xFFFF then Reject
        else seq_res (checked_packet_size (ip_len + 8) (length payload)) (\<lambda>tot.
          if cap < tot then Reject
          else seq_res (build_ipv6_header cap tot ctx upper_len) (\<lambda>out.
            put_all cap out (udp_octets ctx (if lite then ctx_udp_length_or_coverage ctx else of_nat (8 + length payload))) (\<lambda>out.
            put_all cap out payload Done)))))"

definition build_ipv6_rtp_packet :: "nat \<Rightarrow> rohc_context \<Rightarrow> bytes \<Rightarrow> bytes res" where
  "build_ipv6_rtp_packet cap ctx payload =
     seq_res (rtp_context_payload_layout ctx) (\<lambda>(csrc_len, extension_len, padding_len).
       let rtp_header_len = 12 + csrc_len + extension_len; ext_len = unat (ctx_ipv6_extension_len ctx);
           ip_len = 40 + ext_len; lite = (ctx_profile ctx = RTP_UDP_Lite) in
       if length payload > szsub (szsub (2 ^ 64 - 1) rtp_header_len) padding_len then Reject
       else let rtp_wire_len = rtp_header_len + length payload + padding_len in
         seq_res (checked_packet_size (ext_len + 8) rtp_wire_len) (\<lambda>upper_len.
           if upper_len > 0xFFFF then Reject
           else seq_res (checked_packet_size (ip_len + 8) rtp_wire_len) (\<lambda>tot.
             if cap < tot then Reject
             else seq_res (build_ipv6_header cap tot ctx upper_len) (\<lambda>out.
               put_all cap out (udp_octets ctx (if lite then ctx_udp_length_or_coverage ctx else of_nat (8 + rtp_wire_len))) (\<lambda>out.
               put_rtp cap out ctx csrc_len extension_len padding_len payload)))))"

definition build_esp_packet :: "nat \<Rightarrow> rohc_context \<Rightarrow> bytes \<Rightarrow> bytes res" where
  \<comment> \<open>the allocation of the intermediate buffer succeeds\<close>
  "build_esp_packet cap ctx payload =
     (let v6 = (ctx_ip_version ctx = 6); ip_len = (if v6 then 40 else 20) in
      if length payload > 2 ^ 64 - 1 - 8 \<or> 8 + length payload > 2 ^ 64 - 1 - ip_len then Reject
      else let esp_payload_len = 8 + length payload;
               protocol_payload_limit = (if v6 then szsub 0xFFFF (unat (ctx_ipv6_extension_len ctx)) else 0xFFFF - ip_len) in
        if esp_payload_len > protocol_payload_limit \<or> cap < ip_len + esp_payload_len then Reject
        else let esp_payload = be32 (ctx_esp_spi ctx) @ be32 (ctx_esp_sequence ctx) @ payload in
          if v6 then build_ipv6_ip_packet cap ctx esp_payload else build_ip_packet cap ctx esp_payload)"

section \<open>Model: fixed headers\<close>

definition build_fixed_rtp_ipv4_header :: "rohc_context \<Rightarrow> nat \<Rightarrow> bytes res" where
  "build_fixed_rtp_ipv4_header ctx payload_len =
     (if ctx_ip_version ctx \<noteq> 4 \<or> ctx_ipv4_options_len ctx \<noteq> 0 \<or> rtp_vpxcc (ctx_rtp ctx) AND 0x3F \<noteq> 0 \<or>
         rtp_csrc_list_len (ctx_rtp ctx) \<noteq> 0 \<or> rtp_extension_len (ctx_rtp ctx) \<noteq> 0 \<or> rtp_padding_len (ctx_rtp ctx) \<noteq> 0 \<or>
         payload_len > 0xFFFF - 40 then Reject
      else Done (ipv4_image ctx 20 (40 + payload_len) 17 [] @ udp_octets ctx (of_nat (20 + payload_len)) @ rtp_octets ctx))"

definition build_fixed_udp_ipv4_header :: "rohc_context \<Rightarrow> nat \<Rightarrow> bytes res" where
  "build_fixed_udp_ipv4_header ctx payload_len =
     (if ctx_profile ctx \<noteq> UDP \<or> ctx_ip_version ctx \<noteq> 4 \<or> ctx_ipv4_options_len ctx \<noteq> 0 \<or> payload_len > 0xFFFF - 28 then Reject
      else Done (ipv4_image ctx 20 (28 + payload_len) 17 [] @ udp_octets ctx (of_nat (8 + payload_len))))"

definition build_fixed_esp_ipv4_header :: "rohc_context \<Rightarrow> nat \<Rightarrow> bytes res" where
  "build_fixed_esp_ipv4_header ctx payload_len =
     (if ctx_profile ctx \<noteq> ESP \<or> ctx_ip_version ctx \<noteq> 4 \<or> ctx_ipv4_options_len ctx \<noteq> 0 \<or> payload_len > 0xFFFF - 28 then Reject
      else Done (ipv4_image ctx 20 (28 + payload_len) 50 [] @ be32 (ctx_esp_spi ctx) @ be32 (ctx_esp_sequence ctx)))"

definition build_fixed_ip_ipv4_header :: "rohc_context \<Rightarrow> nat \<Rightarrow> bytes res" where
  "build_fixed_ip_ipv4_header ctx payload_len =
     (if ctx_profile ctx \<noteq> IP \<or> ctx_ip_version ctx \<noteq> 4 \<or> ctx_ipv4_options_len ctx \<noteq> 0 \<or> payload_len > 0xFFFF - 20 then Reject
      else Done (ipv4_image ctx 20 (20 + payload_len) (ctx_ipv4_protocol ctx) []))"

end
