(* ===== verification/CApiRebuild.thy ===== *)
theory CApiRebuild
  imports CApiPackets EndToEnd
begin

text \<open>
  Capturing a packet and writing it again. A packet that the C interface captured into a context, with consistent
  lengths and header checksum, is what the builders produce from that context: for bare IP, UDP, UDP-Lite,
  RTP and ESP, over IPv4 with options and over IPv6 with extension headers, with RTP lists, extensions and padding.
\<close>

section \<open>Capturing the transport header\<close>

definition capture_udp_header :: "rohc_context \<Rightarrow> udp_header \<Rightarrow> rohc_context" where
  "capture_udp_header ctx udp =
     ctx\<lparr>ctx_udp_sport := udp_src_port udp, ctx_udp_dport := udp_dst_port udp,
         ctx_udp_length_or_coverage := udp_length udp, ctx_udp_check := udp_checksum udp\<rparr>"

definition capture_rtp_header :: "rohc_context \<Rightarrow> rtp_header \<Rightarrow> rohc_context" where
  "capture_rtp_header ctx rtp =
     ctx\<lparr>ctx_msn := rh_sequence rtp, ctx_udp_checksum_used := (ctx_udp_check ctx \<noteq> 0),
         ctx_rtp := (ctx_rtp ctx)\<lparr>rtp_vpxcc := rh_vpxcc rtp, rtp_mpt := rh_mpt rtp, rtp_last_seq := rh_sequence rtp,
           rtp_last_ts := rh_timestamp rtp, rtp_ssrc := rh_ssrc rtp\<rparr>\<rparr>"

definition capture_esp_header :: "rohc_context \<Rightarrow> bytes \<Rightarrow> nat \<Rightarrow> rohc_context res" where
  "capture_esp_header ctx packet pos =
     (if length packet < pos + 8 then Reject
      else rd32 packet pos (\<lambda>spi. rd32 packet (pos + 4) (\<lambda>sequence.
        Done (ctx\<lparr>ctx_esp_spi := spi, ctx_esp_sequence := sequence, ctx_msn := ucast sequence\<rparr>))))"

section \<open>Octets of the headers\<close>

lemma version_octet: "drop_bit 4 (b :: byte) = 4 \<Longrightarrow> 0x40 OR (b AND 0x0F) = b"
  by (simp add: byte_bits)

lemma unfragmented_octets:
  assumes "\<not> is_fragmented (of_be16 a b)"
  shows "b = 0" and "push_bit 5 (ucast (drop_bit 13 (of_be16 a b) AND 0x07)) = a"
  using assms by (simp_all add: is_fragmented_def of_be16_def u16_bits byte_bits)

lemma ipv6_word:
  assumes "drop_bit 28 (w :: u32) = 6"
  shows "0x60000000 OR push_bit 20 (ucast (ucast (drop_bit 20 w AND 0xFF) :: byte)) OR ((w AND 0x000FFFFF) AND 0x000FFFFF) = w"
  using assms by (simp add: u32_bits)

lemma slice: "k + n \<le> length ip \<Longrightarrow> take n (drop k ip) = map (\<lambda>i. ip ! i) [k..<k + n]"
  by (simp add: list_eq_iff_nth_eq)

lemma upt_numeral_8: "[0..<8] = [0, 1, 2, 3, 4, 5, 6, 7 :: nat]"
  by code_simp

lemma upt_numeral_10: "[0..<10] = [0, 1, 2, 3, 4, 5, 6, 7, 8, 9 :: nat]"
  by code_simp

section \<open>The IPv4 header\<close>

lemma ipv4_parse_Done:
  assumes "ipv4_parse packet = Done (ip, hl)"
  shows "20 \<le> hl" "hl \<le> length packet" "hl \<le> 60" "hl mod 4 = 0" "drop_bit 4 (packet ! 0) = 4" "of_nat (hl div 4) = packet ! 0 AND 0x0F"
    "ip = ipv4_header_of (take 20 packet)"
proof -
  have len: "20 \<le> length packet" using assms by (auto simp: ipv4_parse_def split: if_splits)
  then have r: "drop_bit 4 (packet ! 0) = 4 \<and> hl = unat (packet ! 0 AND 0x0F) * 4 \<and> 20 \<le> hl \<and> hl \<le> length packet \<and> ip = ipv4_header_of (take 20 packet)"
    using assms by (auto simp: ipv4_parse_def Let_def ipv4_header_of_def split: if_splits)
  have "unat (packet ! 0 AND 0x0F) \<le> 15"
    using word_and_le1 [of "packet ! 0" "0x0F"] by (simp add: word_le_nat_alt)
  with r show "20 \<le> hl" "hl \<le> length packet" "hl \<le> 60" "hl mod 4 = 0" "drop_bit 4 (packet ! 0) = 4"
    "of_nat (hl div 4) = packet ! 0 AND 0x0F" "ip = ipv4_header_of (take 20 packet)" by simp_all
qed

definition ipv4_consistent :: "bytes \<Rightarrow> nat \<Rightarrow> bool" where
  \<comment> \<open>an unfragmented packet with matching total length and header checksum\<close>
  "ipv4_consistent packet hl \<longleftrightarrow> \<not> is_fragmented (load_be16 packet 6) \<and> unat (load_be16 packet 2) = length packet \<and>
     load_be16 packet 10 = capi_ipv4_checksum (take 10 packet @ [0, 0] @ take (hl - 12) (drop 12 packet))"

definition holds_ipv4 :: "rohc_context \<Rightarrow> bytes \<Rightarrow> nat \<Rightarrow> bool" where
  "holds_ipv4 c packet hl \<longleftrightarrow> ctx_ipv4_tos c = packet ! 1 \<and> ctx_ipv4_id c = load_be16 packet 4 \<and>
     push_bit 5 (ctx_ipv4_flags c) = packet ! 6 \<and> ctx_ipv4_ttl c = packet ! 8 \<and> ctx_ipv4_saddr c = load_be32 packet 12 \<and>
     ctx_ipv4_daddr c = load_be32 packet 16 \<and> ctx_ipv4_protocol c = packet ! 9 \<and>
     unat (ctx_ipv4_options_len c) = hl - 20 \<and> take (hl - 20) (ctx_ipv4_options c) = take (hl - 20) (drop 20 packet) \<and>
     length (ctx_ipv4_options c) = 40"

lemma ipv4_octets_eq:
  assumes parse: "ipv4_parse packet = Done (ip, hl)" and ok: "ipv4_consistent packet hl" and c: "holds_ipv4 c packet hl"
  shows "ipv4_octets c hl (length packet) (packet ! 9) (take (hl - 20) (drop 20 packet)) csum =
    take 10 packet @ be16 csum @ take (hl - 12) (drop 12 packet)"
proof -
  note h = ipv4_parse_Done [OF parse]
  have l: "20 \<le> length packet" using h(1,2) by simp
  have len: "of_nat (length packet) = load_be16 packet 2" using ok by (metis ipv4_consistent_def of_nat_unat ucast_id)
  have frag: "packet ! 7 = 0" using unfragmented_octets(1) [of "packet ! 6" "packet ! 7"] ok by (simp add: ipv4_consistent_def load_be16_def)
  have b0: "0x40 OR of_nat (hl div 4) = packet ! 0" using h(5,6) by (simp add: version_octet)
  have l16: "be16 (load_be16 packet i) = [packet ! i, packet ! (i + 1)]" if "i < 19" for i using that l by (simp add: be16_load)
  have l32: "be32 (load_be32 packet j) = [packet ! j, packet ! (j + 1), packet ! (j + 2), packet ! (j + 3)]" if "j < 17" for j
    using that l by (simp add: be32_load)
  have first: "take 10 packet = map (\<lambda>i. packet ! i) [0, 1, 2, 3, 4, 5, 6, 7, 8, 9]"
    using slice [of 0 10 packet] l upt_numeral_10 by simp
  have "take (hl - 12) (drop 12 packet) = take 8 (drop 12 packet) @ take (hl - 20) (drop 20 packet)"
    using take_add [of 8 "hl - 20" "drop 12 packet"] h(1) by simp
  moreover have "take 8 (drop 12 packet) = be32 (load_be32 packet 12) @ be32 (load_be32 packet 16)"
    using l slice [of 12 8 packet] by (simp add: l32 upt_rec)
  ultimately show ?thesis
    using c first by (simp add: ipv4_octets_def holds_ipv4_def b0 len l16 frag)
qed

lemma ipv4_image_eq:
  assumes parse: "ipv4_parse packet = Done (ip, hl)" and ok: "ipv4_consistent packet hl" and c: "holds_ipv4 c packet hl"
  shows "ipv4_image c hl (length packet) (packet ! 9) (take (hl - 20) (drop 20 packet)) = take hl packet"
proof -
  note h = ipv4_parse_Done [OF parse] and o = ipv4_octets_eq [OF parse ok c]
  have "be16 (0 :: u16) = [0, 0]" by (simp add: be16_def)
  then have csum: "capi_ipv4_checksum (ipv4_octets c hl (length packet) (packet ! 9) (take (hl - 20) (drop 20 packet)) 0) = load_be16 packet 10"
    using ok unfolding o by (simp add: ipv4_consistent_def)
  have "be16 (load_be16 packet 10) = take 2 (drop 10 packet)"
    using h(1,2) by (simp add: be16_load list_eq_iff_nth_eq nth_Cons' less_Suc_eq)
  moreover have "take hl packet = take 10 packet @ take 2 (drop 10 packet) @ take (hl - 12) (drop 12 packet)"
    using take_add [of 10 2 packet] take_add [of 12 "hl - 12" packet] h(1) by simp
  ultimately show ?thesis unfolding ipv4_image_def csum unfolding o by simp
qed

lemma capture_ipv4:
  assumes parse: "ipv4_parse packet = Done (ip, hl)" and ok: "ipv4_consistent packet hl"
    and v: "v = \<lparr>pv_ip4 = Some ip, pv_ip6 = None, pv_header_len = hl, pv_extension_len = 0, pv_terminal_protocol = ip4_protocol ip, pv_is_ipv6 = False\<rparr>"
  shows "\<exists>c. capture_ip_context c0 packet v = Done c \<and> holds_ipv4 c packet hl \<and> ctx_ip_version c = 4 \<and> ctx_rtp c = ctx_rtp c0 \<and>
    ctx_profile c = ctx_profile c0"
proof -
  note h = ipv4_parse_Done [OF parse]
  have l: "20 \<le> length packet" using h(1,2) by simp
  have f: "ip4_tos ip = packet ! 1" "ip4_identification ip = load_be16 packet 4" "ip4_flags_fragment ip = load_be16 packet 6"
    "ip4_ttl ip = packet ! 8" "ip4_protocol ip = packet ! 9" "ip4_src ip = load_be32 packet 12" "ip4_dst ip = load_be32 packet 16"
    using l by (simp_all add: h(7) ipv4_header_of_def load_be16_def load_be32_def)
  have n: "(hl - 20) mod 4 = 0" "hl - 20 \<le> 40" using h(1,3,4) by presburger+
  have "unat (of_nat (hl - 20) :: byte) = hl - 20" using n(2) by (simp add: unsigned_of_nat take_bit_nat_eq_self)
  moreover have "push_bit 5 (ucast (drop_bit 13 (load_be16 packet 6) AND 0x07)) = packet ! 6"
    using unfragmented_octets(2) [of "packet ! 6" "packet ! 7"] ok by (simp add: ipv4_consistent_def load_be16_def)
  ultimately show ?thesis
    using h(1,2) n by (simp add: v capture_ip_context_def capture_ipv4_options_def capture_ipv4_fields_def Let_def holds_ipv4_def f)
qed

section \<open>The IPv6 header\<close>

definition ipv6_consistent :: "bytes \<Rightarrow> bool" where
  "ipv6_consistent packet \<longleftrightarrow> 40 + unat (load_be16 packet 4) = length packet"

definition holds_ipv6 :: "rohc_context \<Rightarrow> bytes \<Rightarrow> nat \<Rightarrow> bool" where
  "holds_ipv6 c packet ext_len \<longleftrightarrow> ipv6_octets c (length packet - 40) (take ext_len (drop 40 packet)) = take (40 + ext_len) packet \<and>
     unat (ctx_ipv6_extension_len c) = ext_len \<and> take ext_len (ctx_ipv6_extensions c) = take ext_len (drop 40 packet) \<and>
     length (ctx_ipv6_extensions c) = 128"

lemma ipv6_parse_Done:
  assumes "ipv6_parse packet = Done (ip, hl, nxt, ext)"
  shows "40 \<le> length packet" "hl = 40 + ext" "hl \<le> length packet" "drop_bit 28 (load_be32 packet 0) = 6" "ip = ipv6_header_of (take 40 packet)"
proof -
  have l: "40 \<le> length packet" using assms by (auto simp: ipv6_parse_def split: if_splits)
  then have w: "ip6_version_tc_flow (ipv6_header_of (take 40 packet)) = load_be32 packet 0"
    by (simp add: ipv6_header_of_def load_be32_def)
  let ?t = "40 + unat (ip6_payload_length (ipv6_header_of (take 40 packet)))" and ?n = "ip6_next_header (ipv6_header_of (take 40 packet))"
  have r: "drop_bit 28 (load_be32 packet 0) = 6 \<and> ?t \<le> length packet \<and>
      ipv6_extension_loop packet ?t ?n 40 0 = Done (nxt, hl, ext) \<and> ip = ipv6_header_of (take 40 packet)"
    using assms l by (auto simp: ipv6_parse_def Let_def w seq_res_eq_Done split: if_splits)
  then have "hl \<le> ?t \<and> hl + 0 = 40 + ext" using ipv6_extension_loop_result [of 40 ?t packet ?n 0] by auto
  with r l show "40 \<le> length packet" "hl = 40 + ext" "hl \<le> length packet" "drop_bit 28 (load_be32 packet 0) = 6"
    "ip = ipv6_header_of (take 40 packet)" by auto
qed

lemma be32_explicit: "[ucast (drop_bit 24 w), ucast (drop_bit 16 w), ucast (drop_bit 8 w), ucast w] = be32 (w :: u32)"
  by (simp add: be32_def byte_bits)

lemma capture_ipv6:
  assumes parse: "ipv6_parse packet = Done (ip, hl, nxt, ext)" and ok: "ipv6_consistent packet" and room: "ext \<le> 128"
    and v: "v = \<lparr>pv_ip4 = None, pv_ip6 = Some ip, pv_header_len = hl, pv_extension_len = ext, pv_terminal_protocol = nxt, pv_is_ipv6 = True\<rparr>"
  shows "\<exists>c. capture_ip_context c0 packet v = Done c \<and> holds_ipv6 c packet ext \<and> ctx_ip_version c = 6 \<and> ctx_rtp c = ctx_rtp c0 \<and>
    ctx_profile c = ctx_profile c0"
proof -
  note h = ipv6_parse_Done [OF parse]
  let ?c = "(capture_ipv6_fields (c0\<lparr>ctx_ip_version := 6, ctx_ipv4_protocol := nxt, ctx_ipv4_options_len := 0,
      ctx_ipv4_options := replicate 40 0, ctx_ipv6_extension_len := 0, ctx_ipv6_extensions := replicate 128 0\<rparr>) ip)
    \<lparr>ctx_ipv6_extension_len := of_nat ext, ctx_ipv6_extensions := take ext (drop 40 packet) @ replicate (128 - ext) 0\<rparr>"
  have cap: "capture_ip_context c0 packet v = Done ?c" using h room by (simp add: v capture_ip_context_def Let_def)
  have f: "ip6_version_tc_flow ip = load_be32 packet 0" "ip6_next_header ip = packet ! 6" "ip6_hop_limit ip = packet ! 7"
    "ip6_src ip = take 16 (drop 8 packet)" "ip6_dst ip = take 16 (drop 24 packet)"
    using h(1) by (simp_all add: h(5) ipv6_header_of_def load_be32_def take_drop)
  have len: "of_nat (length packet - 40) = load_be16 packet 4" using ok by (metis ipv6_consistent_def add_diff_cancel_left' of_nat_unat ucast_id)
  have first: "take 8 packet = be32 (load_be32 packet 0) @ be16 (load_be16 packet 4) @ [packet ! 6, packet ! 7]"
    using h(1) slice [of 0 8 packet] upt_numeral_8 by (simp add: be32_load be16_load flip: numeral_2_eq_2)
  have "take (40 + ext) packet = take 8 packet @ take 16 (drop 8 packet) @ take 16 (drop 24 packet) @ take ext (drop 40 packet)"
    using take_add [of 8 16 packet] take_add [of 24 16 packet] take_add [of 40 ext packet] by simp
  then have "ipv6_octets ?c (length packet - 40) (take ext (drop 40 packet)) = take (40 + ext) packet"
    by (simp add: ipv6_octets_def Let_def capture_ipv6_fields_def f ipv6_word [OF h(4), simplified] be32_explicit len first)
  then have "holds_ipv6 ?c packet ext"
    using h(2,3) room by (simp add: holds_ipv6_def unsigned_of_nat take_bit_nat_eq_self)
  with cap show ?thesis by (auto simp: capture_ipv6_fields_def)
qed

section \<open>UDP and RTP\<close>

lemma upt_numeral_12: "[0..<12] = [0, 1, 2, 3, 4, 5, 6, 7, 8, 9, 10, 11 :: nat]"
  by code_simp

lemma udp_parse_octets:
  assumes "udp_parse packet pos = Done u" and "len = udp_length u"
  shows "udp_octets (capture_udp_header c u) len = take 8 (drop pos packet)" and "pos + 8 \<le> length packet"
proof -
  have l: "pos + 8 \<le> length packet" using assms by (auto simp: udp_parse_def bounds_check_def split: if_splits)
  define q where "q = drop pos packet"
  have q: "8 \<le> length q" using l by (simp add: q_def)
  have u: "u = udp_header_of (take 8 q)" using assms(1) l by (simp add: udp_parse_def bounds_check_def q_def)
  have "take 8 q = map ((!) q) [0, 1, 2, 3, 4, 5, 6, 7]" using slice [of 0 8 q] q upt_numeral_8 by simp
  then show "udp_octets (capture_udp_header c u) len = take 8 (drop pos packet)"
    using q unfolding q_def [symmetric] by (simp add: udp_octets_def capture_udp_header_def assms(2) u udp_header_of_def be16_load load_be16_def be16_of_be16)
  show "pos + 8 \<le> length packet" by (rule l)
qed

lemma rtp_parse_octets:
  assumes "rtp_parse packet pos = Done rt"
  shows "rtp_octets (capture_rtp_header c rt) = take 12 (drop pos packet)" and "pos + 12 \<le> length packet" and "rh_vpxcc rt = packet ! pos"
proof -
  have l: "pos + 12 \<le> length packet" using assms by (auto simp: rtp_parse_def bounds_check_def split: if_splits)
  define q where "q = drop pos packet"
  have q: "12 \<le> length q" using l by (simp add: q_def)
  have r: "rt = rtp_header_of (take 12 q)" using assms(1) l by (auto simp: rtp_parse_def bounds_check_def q_def Let_def split: if_splits)
  have "take 12 q = map ((!) q) [0, 1, 2, 3, 4, 5, 6, 7, 8, 9, 10, 11]" using slice [of 0 12 q] q upt_numeral_12 by simp
  then show "rtp_octets (capture_rtp_header c rt) = take 12 (drop pos packet)"
    using q unfolding q_def [symmetric]
    by (simp add: rtp_octets_def capture_rtp_header_def r rtp_header_of_def load_be16_def load_be32_def be16_of_be16 be32_of_be32)
  show "pos + 12 \<le> length packet" by (rule l)
  show "rh_vpxcc rt = packet ! pos" using q l by (simp add: r rtp_header_of_def q_def)
qed

definition rtp_tail :: "rtp_context \<Rightarrow> bytes \<Rightarrow> bytes" where
  \<comment> \<open>what follows the fixed RTP header\<close>
  "rtp_tail r payload = take (unat (rtp_csrc_list_len r)) (rtp_csrc_list r) @ take (unat (rtp_extension_len r)) (rtp_extension_bytes r) @
     payload @ take (unat (rtp_padding_len r)) (rtp_padding_bytes r)"

definition rtp_lists_fit :: "rtp_context \<Rightarrow> bool" where
  "rtp_lists_fit r \<longleftrightarrow> unat (rtp_csrc_list_len r) \<le> length (rtp_csrc_list r) \<and> unat (rtp_extension_len r) \<le> length (rtp_extension_bytes r) \<and>
     unat (rtp_padding_len r) \<le> length (rtp_padding_bytes r)"

lemma unat_of_nat_byte: "n < 256 \<Longrightarrow> unat (of_nat n :: byte) = n"
  by (simp add: unsigned_of_nat take_bit_nat_eq_self)

lemma unat_of_nat_u16: "n < 65536 \<Longrightarrow> unat (of_nat n :: u16) = n"
  by (simp add: unsigned_of_nat take_bit_nat_eq_self)

lemma take_drop_next: "a + n \<le> length q \<Longrightarrow> take n (drop a q) @ drop (a + n) q = drop a q"
  by (metis append_take_drop_id drop_drop add.commute)

lemma capture_rtp_tail:
  assumes cap: "capture_rtp_context c q = Done (c', po, pl)"
  shows "\<exists>r b. c' = c\<lparr>ctx_rtp := r\<rparr> \<and> rtp_octets c' = rtp_octets c \<and> rtp_extras_body_len r = Done b \<and> rtp_lists_fit r \<and>
    rtp_tail r (take pl (drop po q)) = drop 12 q \<and> po \<le> length q \<and>
    length q = 12 + unat (rtp_csrc_list_len r) + unat (rtp_extension_len r) + pl + unat (rtp_padding_len r)"
proof -
  have l: "12 \<le> length q" using cap by (auto simp: capture_rtp_context_def split: if_splits)
  let ?r0 = "(ctx_rtp c)\<lparr>rtp_csrc_list_len := 0, rtp_csrc_list := replicate 60 0, rtp_extension_len := 0,
    rtp_extension_bytes := replicate 256 0, rtp_padding_len := 0, rtp_padding_bytes := replicate 255 0\<rparr>"
  define m where "m = unat (q ! 0 AND 0x0F) * 4"
  obtain r1 p1 r2 p2 r3 pad b where
    s1: "capture_csrc ?r0 q m = Done (r1, p1)" and s2: "capture_rtp_extension r1 q p1 = Done (r2, p2)" and
    s3: "capture_rtp_padding r2 q p2 = Done (r3, pad)" and s4: "rtp_extras_body_len r3 = Done b" and
    res: "c' = c\<lparr>ctx_rtp := r3\<rparr>" "po = p2" "pl = length q - p2 - pad"
    using cap l by (auto simp: capture_rtp_context_def Let_def seq_res_eq_Done rd_eq_Done m_def)
  have r1: "r1 = ?r0\<lparr>rtp_csrc_list_len := of_nat m, rtp_csrc_list := take m (drop 12 q) @ replicate (60 - m) 0\<rparr>" "p1 = 12 + m"
    "p1 \<le> length q" "m \<le> 60"
    using s1 by (auto simp: capture_csrc_def split: if_splits)
  have n: "unat (of_nat m :: byte) = m" using r1(4) by (intro unat_of_nat_byte) linarith
  obtain e where r2: "r2 = r1\<lparr>rtp_extension_len := of_nat e, rtp_extension_bytes := take e (drop p1 q) @ replicate (256 - e) 0\<rparr>" "p2 = p1 + e"
    "p2 \<le> length q" "e \<le> 256"
  proof (cases "q ! 0 AND 0x10 = 0")
    case True
    then have "r2 = r1" "p2 = p1" using s2 l by (auto simp: capture_rtp_extension_def rd_eq_Done)
    then show ?thesis using that [of 0] r1 by simp
  next
    case False
    let ?e = "4 + unat (of_be16 (q ! (p1 + 2)) (q ! (p1 + 3))) * 4"
    have "r2 = r1\<lparr>rtp_extension_len := of_nat ?e, rtp_extension_bytes := take ?e (drop p1 q) @ replicate (256 - ?e) 0\<rparr> \<and> p2 = p1 + ?e \<and>
        p2 \<le> length q \<and> ?e \<le> 256"
      using s2 l False by (auto simp: capture_rtp_extension_def rd16_def rd_eq_Done Let_def numeral_3_eq_3 split: if_splits)
    then show ?thesis using that [of ?e] by blast
  qed
  have e: "unat (of_nat e :: u16) = e" using r2(4) by (intro unat_of_nat_u16) linarith
  have r3: "r3 = r2\<lparr>rtp_padding_len := of_nat pad, rtp_padding_bytes := take pad (drop (length q - pad) q) @ replicate (255 - pad) 0\<rparr>"
    "p2 + pad \<le> length q" "pad \<le> 255"
  proof -
    have "r3 = r2\<lparr>rtp_padding_len := of_nat pad, rtp_padding_bytes := take pad (drop (length q - pad) q) @ replicate (255 - pad) 0\<rparr> \<and>
      p2 + pad \<le> length q \<and> pad \<le> 255"
    proof (cases "q ! 0 AND 0x20 = 0")
      case True
      then have "r3 = r2" "pad = 0" using s3 l by (auto simp: capture_rtp_padding_def rd_eq_Done)
      then show ?thesis using r1 r2 by simp
    next
      case False
      then show ?thesis using s3 l r2(3)
        by (auto simp: capture_rtp_padding_def rd_eq_Done Let_def split: if_splits)
    qed
    then show "r3 = r2\<lparr>rtp_padding_len := of_nat pad, rtp_padding_bytes := take pad (drop (length q - pad) q) @ replicate (255 - pad) 0\<rparr>"
      "p2 + pad \<le> length q" "pad \<le> 255" by simp_all
  qed
  have pd: "unat (of_nat pad :: byte) = pad" using r3(3) by (intro unat_of_nat_byte) linarith
  have lens: "unat (rtp_csrc_list_len r3) = m" "unat (rtp_extension_len r3) = e" "unat (rtp_padding_len r3) = pad"
    by (simp_all add: r3(1) r2(1) r1(1) n e pd)
  have lists: "take m (rtp_csrc_list r3) = take m (drop 12 q)" "take e (rtp_extension_bytes r3) = take e (drop p1 q)"
    "take pad (rtp_padding_bytes r3) = drop (length q - pad) q" "rtp_lists_fit r3"
    using r1 r2 r3 n e pd by (simp_all add: rtp_lists_fit_def)
  have q4: "drop (p2 + pl) q = drop (length q - pad) q" using r3(2) res(3) by simp
  have "take pl (drop p2 q) @ drop (p2 + pl) q = drop p2 q" using r3(2) res(3) by (intro take_drop_next) simp
  moreover have "take e (drop p1 q) @ drop p2 q = drop p1 q" using r2 by (simp add: take_drop_next)
  moreover have "take m (drop 12 q) @ drop p1 q = drop 12 q" using r1 by (simp add: take_drop_next)
  ultimately have "rtp_tail r3 (take pl (drop po q)) = drop 12 q" by (simp add: rtp_tail_def lens lists res(2) q4)
  moreover have "rtp_octets c' = rtp_octets c" by (simp add: rtp_octets_def res r3(1) r2(1) r1(1))
  moreover have "po \<le> length q" "length q = 12 + unat (rtp_csrc_list_len r3) + unat (rtp_extension_len r3) + pl + unat (rtp_padding_len r3)"
    unfolding lens using res(2,3) r1(2) r2(2,3) r3(2) by simp_all
  ultimately show ?thesis using s4 lists(4) res(1) by blast
qed

section \<open>Rebuilding\<close>

definition rebuild_ip :: "nat \<Rightarrow> rohc_context \<Rightarrow> bytes \<Rightarrow> bytes res" where
  "rebuild_ip cap c payload = (if ctx_ip_version c = 6 then build_ipv6_ip_packet cap c payload else build_ip_packet cap c payload)"

definition rebuild_udp :: "nat \<Rightarrow> rohc_context \<Rightarrow> bytes \<Rightarrow> bytes res" where
  "rebuild_udp cap c payload = (if ctx_ip_version c = 6 then build_ipv6_udp_packet cap c payload else build_udp_packet cap c payload)"

definition rebuild_rtp :: "nat \<Rightarrow> rohc_context \<Rightarrow> bytes \<Rightarrow> bytes res" where
  "rebuild_rtp cap c payload = (if ctx_ip_version c = 6 then build_ipv6_rtp_packet cap c payload else build_rtp_packet cap c payload)"

definition network_ok :: "bytes \<Rightarrow> parsed_ip_view \<Rightarrow> bool" where
  \<comment> \<open>an unfragmented packet with consistent length fields and header checksum, and extension headers that fit the context\<close>
  "network_ok packet v \<longleftrightarrow>
     (if pv_is_ipv6 v then ipv6_consistent packet \<and> pv_extension_len v \<le> 128 else ipv4_consistent packet (pv_header_len v))"

definition holds_network :: "rohc_context \<Rightarrow> bytes \<Rightarrow> parsed_ip_view \<Rightarrow> bool" where
  "holds_network c packet v \<longleftrightarrow>
     (if pv_is_ipv6 v then holds_ipv6 c packet (pv_extension_len v) \<and> ctx_ip_version c = 6
      else holds_ipv4 c packet (pv_header_len v) \<and> ctx_ip_version c = 4)"

lemma parse_ip_view_cases:
  assumes "parse_ip_view packet = Done v"
  obtains (v4) ip hl where "ipv4_parse packet = Done (ip, hl)"
      "v = \<lparr>pv_ip4 = Some ip, pv_ip6 = None, pv_header_len = hl, pv_extension_len = 0, pv_terminal_protocol = ip4_protocol ip, pv_is_ipv6 = False\<rparr>"
    | (v6) ip hl nxt ext where "ipv6_parse packet = Done (ip, hl, nxt, ext)"
      "v = \<lparr>pv_ip4 = None, pv_ip6 = Some ip, pv_header_len = hl, pv_extension_len = ext, pv_terminal_protocol = nxt, pv_is_ipv6 = True\<rparr>"
  using assms by (auto simp: parse_ip_view_def seq_res_eq_Done split: res.splits)

lemma capture_holds:
  assumes parse: "parse_ip_view packet = Done v" and ok: "network_ok packet v"
  shows "\<exists>c. capture_ip_context c0 packet v = Done c \<and> holds_network c packet v \<and> ctx_rtp c = ctx_rtp c0 \<and> ctx_profile c = ctx_profile c0"
  using parse
proof (cases rule: parse_ip_view_cases)
  case (v4 ip hl)
  then show ?thesis using capture_ipv4 [OF v4(1) _ v4(2), of c0] ok by (auto simp: network_ok_def holds_network_def)
next
  case (v6 ip hl nxt ext)
  then show ?thesis using capture_ipv6 [OF v6(1) _ _ v6(2), of c0] ok by (auto simp: network_ok_def holds_network_def)
qed

lemma length_ipv4_image [simp]: "length (ipv4_image c n t pr opts) = 20 + length opts"
  by (simp add: ipv4_image_def ipv4_octets_def)

lemma length_udp_octets [simp]: "length (udp_octets c n) = 8"
  by (simp add: udp_octets_def)

lemma length_rtp_octets [simp]: "length (rtp_octets c) = 12"
  by (simp add: rtp_octets_def)

lemma checked_small: "base + n \<le> 0x20000 \<Longrightarrow> checked_packet_size base n = Done (base + n)"
  by (simp add: checked_packet_size_def)

lemma network_facts:
  assumes parse: "parse_ip_view packet = Done v" and ok: "network_ok packet v"
  shows "pv_header_len v \<le> length packet \<and>
    (if pv_is_ipv6 v then length packet - 40 \<le> 0xFFFF \<and> pv_header_len v = 40 + pv_extension_len v
     else length packet \<le> 0xFFFF \<and> 20 \<le> pv_header_len v \<and> pv_terminal_protocol v = packet ! 9)"
  using parse
proof (cases rule: parse_ip_view_cases)
  case (v4 ip hl)
  note h = ipv4_parse_Done [OF v4(1)]
  have "length packet \<le> 0xFFFF" using ok unat_u16_bound [of "load_be16 packet 2"] v4(2) by (simp add: network_ok_def ipv4_consistent_def)
  moreover have "ip4_protocol ip = packet ! 9" using h by (simp add: ipv4_header_of_def)
  ultimately show ?thesis using h v4(2) by simp
next
  case (v6 ip hl nxt ext)
  note h = ipv6_parse_Done [OF v6(1)]
  have "length packet - 40 \<le> 0xFFFF" using ok unat_u16_bound [of "load_be16 packet 4"] v6(2) by (auto simp: network_ok_def ipv6_consistent_def)
  then show ?thesis using h v6(2) by simp
qed

definition upper_header :: "rohc_context \<Rightarrow> parsed_ip_view \<Rightarrow> bytes \<Rightarrow> byte \<Rightarrow> bool" where
  \<comment> \<open>the context holds the network header, and over IPv4 the builder's protocol number is the packet's\<close>
  "upper_header c v packet protocol \<longleftrightarrow> holds_network c packet v \<and> (pv_is_ipv6 v \<or> protocol = pv_terminal_protocol v)"

lemma ipv4_part:
  assumes "parse_ip_view packet = Done v" and "network_ok packet v" and "upper_header c v packet pr" and "\<not> pv_is_ipv6 v"
  shows "20 + unat (ctx_ipv4_options_len c) = pv_header_len v" "ctx_ip_version c = 4"
    "copy_in (ctx_ipv4_options c) 0 (unat (ctx_ipv4_options_len c)) k = k (take (pv_header_len v - 20) (drop 20 packet))"
    "ipv4_image c (pv_header_len v) (length packet) pr (take (pv_header_len v - 20) (drop 20 packet)) = take (pv_header_len v) packet"
proof -
  obtain ip hl where v4: "ipv4_parse packet = Done (ip, hl)"
      "v = \<lparr>pv_ip4 = Some ip, pv_ip6 = None, pv_header_len = hl, pv_extension_len = 0, pv_terminal_protocol = ip4_protocol ip, pv_is_ipv6 = False\<rparr>"
    using assms(1,4) by (cases rule: parse_ip_view_cases) auto
  note h = ipv4_parse_Done [OF v4(1)] and f = network_facts [OF assms(1,2)]
  have c: "holds_ipv4 c packet hl" "ctx_ip_version c = 4" "pr = packet ! 9"
    using assms(3,4) v4(2) f by (auto simp: upper_header_def holds_network_def)
  have ok: "ipv4_consistent packet hl" using assms(2) v4(2) by (simp add: network_ok_def)
  show "20 + unat (ctx_ipv4_options_len c) = pv_header_len v" using c(1) h(1) v4(2) by (simp add: holds_ipv4_def)
  show "ctx_ip_version c = 4" by (rule c(2))
  show "copy_in (ctx_ipv4_options c) 0 (unat (ctx_ipv4_options_len c)) k = k (take (pv_header_len v - 20) (drop 20 packet))"
    using c(1) h(1,3) v4(2) by (simp add: holds_ipv4_def)
  show "ipv4_image c (pv_header_len v) (length packet) pr (take (pv_header_len v - 20) (drop 20 packet)) = take (pv_header_len v) packet"
    using ipv4_image_eq [OF v4(1) ok c(1)] c(3) v4(2) by simp
qed

lemma ipv6_part:
  assumes "parse_ip_view packet = Done v" and "network_ok packet v" and "upper_header c v packet pr" and "pv_is_ipv6 v"
    and cap: "length packet \<le> cap" and n: "pv_header_len v \<le> length packet"
  shows "40 + unat (ctx_ipv6_extension_len c) = pv_header_len v" "ctx_ip_version c = 6"
    "build_ipv6_header cap (length packet) c (length packet - 40) = Done (take (pv_header_len v) packet)"
proof -
  note f = network_facts [OF assms(1,2)]
  have c: "holds_ipv6 c packet (pv_extension_len v)" "ctx_ip_version c = 6" using assms(3,4) by (simp_all add: upper_header_def holds_network_def)
  have e: "pv_extension_len v \<le> 128" using assms(2,4) by (simp add: network_ok_def)
  show "40 + unat (ctx_ipv6_extension_len c) = pv_header_len v" using c(1) f assms(4) by (simp add: holds_ipv6_def)
  show "ctx_ip_version c = 6" by (rule c(2))
  show "build_ipv6_header cap (length packet) c (length packet - 40) = Done (take (pv_header_len v) packet)"
    using c(1) f assms(4) e cap n by (simp add: build_ipv6_header_def holds_ipv6_def)
qed

lemma holds_network_update [simp]:
  "holds_network (capture_udp_header c u) packet v = holds_network c packet v"
  "holds_network (capture_rtp_header c rt) packet v = holds_network c packet v"
  "holds_network (c\<lparr>ctx_rtp := r\<rparr>) packet v = holds_network c packet v"
  "holds_network (c\<lparr>ctx_esp_spi := spi, ctx_esp_sequence := sq, ctx_msn := m\<rparr>) packet v = holds_network c packet v"
proof -
  have six: "ipv6_octets (capture_udp_header c u) n x = ipv6_octets c n x" "ipv6_octets (capture_rtp_header c rt) n x = ipv6_octets c n x"
    "ipv6_octets (c\<lparr>ctx_rtp := r\<rparr>) n x = ipv6_octets c n x"
    "ipv6_octets (c\<lparr>ctx_esp_spi := spi, ctx_esp_sequence := sq, ctx_msn := m\<rparr>) n x = ipv6_octets c n x" for n x
    by (simp_all add: ipv6_octets_def capture_udp_header_def capture_rtp_header_def)
  show "holds_network (capture_udp_header c u) packet v = holds_network c packet v"
    "holds_network (capture_rtp_header c rt) packet v = holds_network c packet v"
    "holds_network (c\<lparr>ctx_rtp := r\<rparr>) packet v = holds_network c packet v"
    "holds_network (c\<lparr>ctx_esp_spi := spi, ctx_esp_sequence := sq, ctx_msn := m\<rparr>) packet v = holds_network c packet v"
    unfolding holds_network_def holds_ipv4_def holds_ipv6_def six by (simp_all add: capture_udp_header_def capture_rtp_header_def)
qed

lemma split_at: "n \<le> m \<Longrightarrow> m \<le> length xs \<Longrightarrow> take n xs @ take (m - n) (drop n xs) @ drop m xs = xs"
  using take_drop_next [of n "m - n" xs] append_take_drop_id [of n xs] by simp

lemma rebuild_ip_exact:
  assumes parse: "parse_ip_view packet = Done v" and ok: "network_ok packet v" and c: "holds_network c packet v"
    and protocol: "pv_is_ipv6 v \<or> ctx_ipv4_protocol c = pv_terminal_protocol v" and cap: "length packet \<le> cap"
  shows "rebuild_ip cap c (drop (pv_header_len v) packet) = Done packet"
proof -
  note f = network_facts [OF parse ok]
  have u: "upper_header c v packet (ctx_ipv4_protocol c)" using c protocol by (simp add: upper_header_def)
  show ?thesis
  proof (cases "pv_is_ipv6 v")
    case True
    note p = ipv6_part [OF parse ok u True cap conjunct1 [OF f]]
    have "unat (ctx_ipv6_extension_len c) + length (drop (pv_header_len v) packet) = length packet - 40" using p(1) f by simp
    moreover have "length packet - 40 \<le> 0xFFFF" using f True by simp
    ultimately show ?thesis
      using p f cap checked_small [of "unat (ctx_ipv6_extension_len c)" "length packet - pv_header_len v"]
        checked_small [of "pv_header_len v" "length packet - pv_header_len v"]
      by (simp add: rebuild_ip_def build_ipv6_ip_packet_def Let_def put_all_def)
  next
    case False
    note p = ipv4_part [OF parse ok u False]
    have l: "length packet \<le> 0xFFFF" "20 \<le> pv_header_len v" "pv_header_len v \<le> length packet" using f False by simp_all
    show ?thesis
      using l cap checked_small [of "pv_header_len v" "length packet - pv_header_len v"]
      by (simp add: rebuild_ip_def build_ip_packet_def Let_def put_all_def p)
  qed
qed

lemma rebuild_udp_exact:
  assumes parse: "parse_ip_view packet = Done v" and ok: "network_ok packet v" and c: "holds_network c packet v"
    and protocol: "pv_is_ipv6 v \<or> pv_terminal_protocol v = (if ctx_profile c = UDP_Lite then 136 else 17)"
    and udp: "udp_parse packet (pv_header_len v) = Done u" and len: "ctx_profile c = UDP_Lite \<or> udp_length u = of_nat (length packet - pv_header_len v)"
    and cap: "length packet \<le> cap"
  shows "rebuild_udp cap (capture_udp_header c u) (drop (pv_header_len v + 8) packet) = Done packet"
proof -
  let ?c = "capture_udp_header c u" and ?n = "pv_header_len v" and ?payload = "drop (pv_header_len v + 8) packet"
  note f = network_facts [OF parse ok] and q = udp_parse_octets(1) [OF udp refl, of c] udp_parse_octets(2) [OF udp refl]
  have sel: "ctx_profile ?c = ctx_profile c" "ctx_udp_length_or_coverage ?c = udp_length u" "ctx_ip_version ?c = ctx_ip_version c"
    by (simp_all add: capture_udp_header_def)
  have l8: "8 + length ?payload = length packet - ?n" using q(2) by simp
  have octets: "udp_octets ?c (if ctx_profile c = UDP_Lite then udp_length u else of_nat (8 + length ?payload)) = take 8 (drop ?n packet)"
    using len q(1) unfolding l8 by auto
  have all: "take ?n packet @ take 8 (drop ?n packet) @ ?payload = packet" using split_at [of ?n "?n + 8" packet] q(2) by simp
  have u: "upper_header ?c v packet (if ctx_profile c = UDP_Lite then 136 else 17)"
    using c protocol by (auto simp: upper_header_def)
  show ?thesis
  proof (cases "pv_is_ipv6 v")
    case True
    note p = ipv6_part [OF parse ok u True cap conjunct1 [OF f]]
    have up: "unat (ctx_ipv6_extension_len ?c) + 8 + length ?payload = length packet - 40" using p(1) l8 f q(2) by simp
    have "length packet - 40 \<le> 0xFFFF" using f True by simp
    then have sz: "checked_packet_size (unat (ctx_ipv6_extension_len ?c) + 8) (length ?payload) = Done (length packet - 40)"
      "checked_packet_size (?n + 8) (length ?payload) = Done (length packet)" "40 \<le> length packet"
      using up p(1) l8 q(2) by (simp_all add: checked_packet_size_def)
    show ?thesis
      using p sz cap all q(2) octets \<open>length packet - 40 \<le> 0xFFFF\<close>
      by (cases "ctx_profile c = UDP_Lite") (simp_all add: rebuild_udp_def build_ipv6_udp_packet_def Let_def put_all_def sel)
  next
    case False
    note p = ipv4_part [OF parse ok u False]
    have l: "length packet \<le> 0xFFFF" "20 \<le> ?n" using f False by simp_all
    have sz: "checked_packet_size (?n + 8) (length ?payload) = Done (length packet)" using l q(2) by (simp add: checked_packet_size_def)
    show ?thesis
      using sz l cap all q(2) octets p(2,4)
      by (cases "ctx_profile c = UDP_Lite") (simp_all add: rebuild_udp_def build_udp_packet_def Let_def put_all_def sel p(1,3))
  qed
qed

lemma put_rtp_eq:
  assumes "rtp_lists_fit (ctx_rtp c)"
    and "length out + 12 + length (rtp_tail (ctx_rtp c) payload) \<le> cap"
  shows "put_rtp cap out c (unat (rtp_csrc_list_len (ctx_rtp c))) (unat (rtp_extension_len (ctx_rtp c))) (unat (rtp_padding_len (ctx_rtp c))) payload =
    Done (out @ rtp_octets c @ rtp_tail (ctx_rtp c) payload)"
  using assms by (simp add: put_rtp_def rtp_lists_fit_def rtp_tail_def put_all_def)

lemma rebuild_rtp_exact:
  assumes parse: "parse_ip_view packet = Done v" and ok: "network_ok packet v" and c: "holds_network c packet v"
    and protocol: "pv_is_ipv6 v \<or> pv_terminal_protocol v = (if ctx_profile c = RTP_UDP_Lite then 136 else 17)"
    and udp: "udp_parse packet (pv_header_len v) = Done u" and len: "ctx_profile c = RTP_UDP_Lite \<or> udp_length u = of_nat (length packet - pv_header_len v)"
    and rtp: "rtp_parse packet (pv_header_len v + 8) = Done rt"
    and capt: "capture_rtp_context (capture_rtp_header (capture_udp_header c u) rt) (drop (pv_header_len v + 8) packet) = Done (c', po, pl)"
    and cap: "length packet \<le> cap"
  shows "rebuild_rtp cap c' (take pl (drop (pv_header_len v + 8 + po) packet)) = Done packet"
proof -
  let ?c = "capture_rtp_header (capture_udp_header c u) rt" and ?n = "pv_header_len v" and ?q = "drop (pv_header_len v + 8) packet"
  note f = network_facts [OF parse ok] and q = udp_parse_octets(1) [OF udp refl, of c] udp_parse_octets(2) [OF udp refl]
    and rq = rtp_parse_octets(1) [OF rtp, of "capture_udp_header c u"] rtp_parse_octets(2) [OF rtp]
  obtain r b where c': "c' = ?c\<lparr>ctx_rtp := r\<rparr>" "rtp_octets c' = rtp_octets ?c" "rtp_extras_body_len r = Done b" "rtp_lists_fit r"
      "rtp_tail r (take pl (drop po ?q)) = drop 12 ?q" "po \<le> length ?q"
      "length ?q = 12 + unat (rtp_csrc_list_len r) + unat (rtp_extension_len r) + pl + unat (rtp_padding_len r)"
    using capture_rtp_tail [OF capt] by blast
  define payload where "payload = take pl (drop po ?q)"
  have pay: "payload = take pl (drop (?n + 8 + po) packet)" by (simp add: payload_def ac_simps)
  have tail: "rtp_tail r payload = drop 12 ?q" using c'(5) by (simp add: payload_def)
  have "length (rtp_tail r payload) = unat (rtp_csrc_list_len r) + unat (rtp_extension_len r) + length payload + unat (rtp_padding_len r)"
    using c'(4) by (simp add: rtp_tail_def rtp_lists_fit_def)
  then have wire: "12 + unat (rtp_csrc_list_len r) + unat (rtp_extension_len r) + length payload + unat (rtp_padding_len r) = length ?q"
    unfolding tail using rq(2) by simp
  have sel: "ctx_profile c' = ctx_profile c" "ctx_udp_length_or_coverage c' = udp_length u" "ctx_ip_version c' = ctx_ip_version c" "ctx_rtp c' = r"
    "udp_octets c' x = udp_octets (capture_udp_header c u) x" for x
    by (simp_all add: c'(1) capture_udp_header_def capture_rtp_header_def udp_octets_def)
  have l8: "8 + length ?q = length packet - ?n" using q(2) by simp
  have octets: "udp_octets (capture_udp_header c u) (if ctx_profile c = RTP_UDP_Lite then udp_length u else of_nat (8 + length ?q)) = take 8 (drop ?n packet)"
    using len q(1) unfolding l8 by auto
  have all: "take ?n packet @ take 8 (drop ?n packet) @ rtp_octets c' @ rtp_tail r payload = packet"
    using split_at [of ?n "?n + 8" packet] q(2) append_take_drop_id [of 12 ?q] unfolding c'(2) rq(1) tail by simp
  have layout: "rtp_context_payload_layout c' = Done (unat (rtp_csrc_list_len r), unat (rtp_extension_len r), unat (rtp_padding_len r))"
    using c'(3) by (simp add: rtp_context_payload_layout_def sel)
  have put: "put_rtp cap (take ?n packet @ take 8 (drop ?n packet)) c' (unat (rtp_csrc_list_len r)) (unat (rtp_extension_len r)) (unat (rtp_padding_len r)) payload =
      Done packet"
    using put_rtp_eq [of c' "take ?n packet @ take 8 (drop ?n packet)" payload cap] c'(4) cap all wire tail q(2) rq(2) by (simp add: sel)
  have u: "upper_header c' v packet (if ctx_profile c = RTP_UDP_Lite then 136 else 17)" using c protocol by (auto simp: upper_header_def c'(1))
  have big: "length ?q \<le> 0x20000" "length payload \<le> szsub (szsub (2 ^ 64 - 1) (12 + unat (rtp_csrc_list_len r) + unat (rtp_extension_len r))) (unat (rtp_padding_len r))"
  proof -
    have "length packet \<le> 0x20000" using f by (auto split: if_splits)
    then show "length ?q \<le> 0x20000" by simp
    then show "length payload \<le> szsub (szsub (2 ^ 64 - 1) (12 + unat (rtp_csrc_list_len r) + unat (rtp_extension_len r))) (unat (rtp_padding_len r))"
      using wire by simp
  qed
  show ?thesis
  proof (cases "pv_is_ipv6 v")
    case True
    note p = ipv6_part [OF parse ok u True cap conjunct1 [OF f]]
    have small: "length packet - 40 \<le> 0xFFFF" using f True by simp
    have up: "unat (ctx_ipv6_extension_len c') + 8 + length ?q = length packet - 40" using p(1) l8 q(2) by simp
    have sz: "checked_packet_size (unat (ctx_ipv6_extension_len c') + 8) (length ?q) = Done (length packet - 40)"
      "checked_packet_size (?n + 8) (length ?q) = Done (length packet)"
      using up checked_small [of "unat (ctx_ipv6_extension_len c') + 8" "length ?q"] checked_small [of "?n + 8" "length ?q"] small q(2) by simp_all
    show ?thesis
      using octets put cap small big q(2) sz p(2)
      by (cases "ctx_profile c = RTP_UDP_Lite")
        (simp_all add: pay [symmetric] rebuild_rtp_def build_ipv6_rtp_packet_def layout Let_def wire sel p put_all_def)
  next
    case False
    note p = ipv4_part [OF parse ok u False]
    have l: "length packet \<le> 0xFFFF" "20 \<le> ?n" using f False by simp_all
    have sz: "checked_packet_size (?n + 8) (length ?q) = Done (length packet)" using l q(2) big(1) by (simp add: checked_packet_size_def)
    show ?thesis
      using octets put cap l big q(2) sz p(2,4)
      by (cases "ctx_profile c = RTP_UDP_Lite")
        (simp_all add: pay [symmetric] rebuild_rtp_def build_rtp_packet_def layout Let_def wire sel p(1,3) put_all_def)
  qed
qed

lemma rebuild_esp_exact:
  assumes parse: "parse_ip_view packet = Done v" and ok: "network_ok packet v" and c: "holds_network c packet v"
    and esp: "capture_esp_header c packet (pv_header_len v) = Done e" and cap: "length packet \<le> cap"
    and protocol: "pv_is_ipv6 v \<or> ctx_ipv4_protocol c = pv_terminal_protocol v"
  shows "build_esp_packet cap e (drop (pv_header_len v + 8) packet) = Done packet"
proof -
  let ?n = "pv_header_len v"
  note f = network_facts [OF parse ok]
  have l: "?n + 8 \<le> length packet" using esp by (auto simp: capture_esp_header_def split: if_splits)
  then have e: "e = c\<lparr>ctx_esp_spi := load_be32 packet ?n, ctx_esp_sequence := load_be32 packet (?n + 4), ctx_msn := ucast (load_be32 packet (?n + 4))\<rparr>"
    using esp by (simp add: capture_esp_header_def rd32_load)
  define q where "q = drop ?n packet"
  have q: "8 \<le> length q" "load_be32 packet ?n = load_be32 q 0" "load_be32 packet (?n + 4) = load_be32 q 4"
    using l by (simp_all add: q_def load_be32_def ac_simps)
  have "take 8 q = map ((!) q) [0, 1, 2, 3, 4, 5, 6, 7]" using slice [of 0 8 q] q(1) upt_numeral_8 by simp
  then have "be32 (load_be32 q 0) @ be32 (load_be32 q 4) = take 8 q"
    using q(1) by (simp add: be32_load flip: numeral_2_eq_2)
  then have octets: "be32 (ctx_esp_spi e) @ be32 (ctx_esp_sequence e) @ drop (?n + 8) packet = drop ?n packet"
    using take_drop_next [of ?n 8 packet] l by (simp add: e q(2,3) flip: append_assoc) (simp add: q_def)
  have net: "holds_network e packet v" "ctx_ipv4_protocol e = ctx_ipv4_protocol c" "ctx_ip_version e = ctx_ip_version c"
    using c by (simp_all add: e)
  have version: "ctx_ip_version e = (if pv_is_ipv6 v then 6 else 4)" "pv_is_ipv6 v \<Longrightarrow> unat (ctx_ipv6_extension_len e) = pv_extension_len v"
    using net(1) by (auto simp: holds_network_def holds_ipv6_def)
  have "build_esp_packet cap e (drop (?n + 8) packet) = rebuild_ip cap e (drop ?n packet)"
    using l f cap version ok unfolding build_esp_packet_def octets
    by (auto simp: rebuild_ip_def Let_def network_ok_def split: if_splits)
  also have "\<dots> = Done packet" using rebuild_ip_exact [OF parse ok net(1) _ cap] protocol net(2) by simp
  finally show ?thesis .
qed

definition udp_fields_ok :: "profile \<Rightarrow> profile \<Rightarrow> parsed_ip_view \<Rightarrow> bytes \<Rightarrow> udp_header \<Rightarrow> bool" where
  \<comment> \<open>the protocol number belongs to the profile, and without partial coverage the length field is right\<close>
  "udp_fields_ok profile lite v packet u \<longleftrightarrow>
     (pv_is_ipv6 v \<or> pv_terminal_protocol v = (if profile = lite then 136 else 17)) \<and>
     (profile = lite \<or> udp_length u = of_nat (length packet - pv_header_len v))"

text \<open>
  C6. An IPv4 or IPv6 packet with consistent lengths and header checksum, whose extension headers fit the context, is
  captured, and the context rebuilds exactly that packet from its payload: as a bare IP packet, as ESP, as UDP or UDP-Lite,
  and as RTP with its CSRC list, header extension and padding.
\<close>

theorem capture_rebuild_exact:
  assumes parse: "parse_ip_view packet = Done v" and ok: "network_ok packet v" and cap: "length packet \<le> cap"
  shows "\<exists>c. capture_ip_context c0 packet v = Done c \<and> rebuild_ip cap c (drop (pv_header_len v) packet) = Done packet \<and>
    (\<forall>e. capture_esp_header c packet (pv_header_len v) = Done e \<longrightarrow>
       build_esp_packet cap e (drop (pv_header_len v + 8) packet) = Done packet) \<and>
    (\<forall>u. udp_parse packet (pv_header_len v) = Done u \<and> udp_fields_ok (ctx_profile c0) UDP_Lite v packet u \<longrightarrow>
       rebuild_udp cap (capture_udp_header c u) (drop (pv_header_len v + 8) packet) = Done packet) \<and>
    (\<forall>u rt c' po pl. udp_parse packet (pv_header_len v) = Done u \<and> udp_fields_ok (ctx_profile c0) RTP_UDP_Lite v packet u \<and>
       rtp_parse packet (pv_header_len v + 8) = Done rt \<and>
       capture_rtp_context (capture_rtp_header (capture_udp_header c u) rt) (drop (pv_header_len v + 8) packet) = Done (c', po, pl) \<longrightarrow>
       rebuild_rtp cap c' (take pl (drop (pv_header_len v + 8 + po) packet)) = Done packet)"
proof -
  obtain c where c: "capture_ip_context c0 packet v = Done c" "holds_network c packet v" "ctx_profile c = ctx_profile c0"
    using capture_holds [OF parse ok] by blast
  have protocol: "pv_is_ipv6 v \<or> ctx_ipv4_protocol c = pv_terminal_protocol v"
    using c(2) network_facts [OF parse ok] by (cases "pv_is_ipv6 v") (simp_all add: holds_network_def holds_ipv4_def)
  show ?thesis
    using c rebuild_ip_exact [OF parse ok c(2) protocol cap] rebuild_esp_exact [OF parse ok c(2) _ cap protocol]
      rebuild_udp_exact [OF parse ok c(2) _ _ _ cap] rebuild_rtp_exact [OF parse ok c(2) _ _ _ _ _ cap]
    by (auto simp: udp_fields_ok_def)
qed

theorem capture_rebuild_exact_witness:
  "\<exists>v c u. parse_ip_view example_ip = Done v \<and> capture_ip_context (context_zero\<lparr>ctx_profile := UDP\<rparr>) example_ip v = Done c \<and>
    udp_parse example_ip 20 = Done u \<and> rebuild_ip 100 c (drop 20 example_ip) = Done example_ip \<and>
    rebuild_udp 100 (capture_udp_header c u) (drop 28 example_ip) = Done example_ip"
proof -
  define ip where "ip = ipv4_header_of (take 20 example_ip)"
  define v where "v = \<lparr>pv_ip4 = Some ip, pv_ip6 = None, pv_header_len = 20, pv_extension_len = 0, pv_terminal_protocol = 17, pv_is_ipv6 = False\<rparr>"
  have parse: "parse_ip_view example_ip = Done v"
    by (simp add: parse_ip_view_def ipv4_parse_def v_def ip_def example_ip_def ipv4_header_of_def)
  have "capi_ipv4_checksum (take 10 example_ip @ [0, 0] @ take 8 (drop 12 example_ip)) = 0x26C1"
    using example_checksum by (simp add: capi_ipv4_checksum_def ipv4_checksum_def)
  then have ok: "network_ok example_ip v"
    by (simp add: network_ok_def v_def ipv4_consistent_def) (simp add: example_ip_def load_be16_def of_be16_def is_fragmented_def)
  obtain u where u: "udp_parse example_ip 20 = Done u" "udp_length u = 21"
    by (auto simp: udp_parse_def bounds_check_def example_ip_def udp_header_of_def load_be16_def of_be16_def)
  have "udp_fields_ok UDP UDP_Lite v example_ip u" using u(2) by (simp add: udp_fields_ok_def v_def example_ip_def)
  then show ?thesis
    using capture_rebuild_exact [OF parse ok, of 100 "context_zero\<lparr>ctx_profile := UDP\<rparr>"] parse u(1)
    by (auto simp: v_def example_ip_def)
qed

end
