(* ===== verification/CApiConfig.thy ===== *)
theory CApiConfig
  imports Lla Ppp RohcOIpsec
begin

text \<open>
  The stateless functions of the C interface (\<open>c_api/rohc_c_api.cpp\<close>, structures of \<open>rohccxx.h\<close>): the conversions between the
  C structures and the core types, and the exported wrappers for PPP options, link-layer assistance and ROHC over IPsec.
  A result of type \<open>int\<close> is the C result; an operation with output returns the output, and \<open>Reject\<close> is the result -1.
\<close>

section \<open>Model: C structures\<close>

record rohccxx_lla_contract =
  lla_identifies_packet_types :: int
  lla_preserves_order :: int
  lla_reports_loss :: int
  lla_reports_residual_errors :: int
  lla_delivers_feedback :: int
  lla_protects_context_packets :: int
  lla_supports_context_synchronization :: int
  lla_supports_context_check :: int
  lla_supports_reliable_mode :: int
  lla_delivers_ack :: int
  lla_delivers_static_nack :: int

record rohccxx_lla_flow =
  lla_ipv4_udp_rtp :: int
  lla_udp_checksum_disabled :: int
  lla_rtp_sequence_increments_by_one :: int
  lla_compressor_observed_in_order :: int
  lla_synchronized_timing :: int

record rohccxx_rohcoipsec_channel =
  rc_max_cid :: u16
  rc_profiles :: "u16 list"  \<comment> \<open>16 entries\<close>
  rc_profile_count :: nat
  rc_integrity_algorithms :: "u16 list"  \<comment> \<open>8 entries\<close>
  rc_integrity_algorithm_count :: nat
  rc_icv_len :: u16
  rc_has_icv_len :: int
  rc_mrru :: u16
  rc_has_mrru :: int

record rohccxx_ppp_rohc_option =
  pp_max_cid :: u16
  pp_mrru :: u16
  pp_max_header :: u16
  pp_profiles :: "u16 list"  \<comment> \<open>16 entries\<close>
  pp_profile_count :: nat

record rohccxx_rohcoipsec_sa =
  sa_max_cid :: u16
  sa_large_cids :: int
  sa_integrity_algorithm :: u16
  sa_icv_len :: u16
  sa_mrru :: u16
  sa_has_mrru :: int
  sa_key :: bytes  \<comment> \<open>128 octets\<close>
  sa_key_len :: nat
  sa_feedback_for :: u32
  sa_has_feedback_for :: int

section \<open>Model: conversions\<close>

definition c_lla_contract_to_core :: "rohccxx_lla_contract \<Rightarrow> assisting_layer_contract" where
  "c_lla_contract_to_core inp =
     \<lparr>lc_identifies_packet_types = (lla_identifies_packet_types inp \<noteq> 0), lc_preserves_order = (lla_preserves_order inp \<noteq> 0),
      lc_reports_loss = (lla_reports_loss inp \<noteq> 0), lc_reports_residual_errors = (lla_reports_residual_errors inp \<noteq> 0),
      lc_delivers_feedback = (lla_delivers_feedback inp \<noteq> 0),
      lc_protects_context_packets = (lla_protects_context_packets inp \<noteq> 0),
      lc_supports_context_synchronization = (lla_supports_context_synchronization inp \<noteq> 0),
      lc_supports_context_check = (lla_supports_context_check inp \<noteq> 0),
      lc_supports_reliable_mode = (lla_supports_reliable_mode inp \<noteq> 0), lc_delivers_ack = (lla_delivers_ack inp \<noteq> 0),
      lc_delivers_static_nack = (lla_delivers_static_nack inp \<noteq> 0)\<rparr>"

definition c_lla_flow_to_core :: "rohccxx_lla_flow \<Rightarrow> zero_byte_flow" where
  "c_lla_flow_to_core inp =
     \<lparr>zf_ipv4_udp_rtp = (lla_ipv4_udp_rtp inp \<noteq> 0), zf_udp_checksum_disabled = (lla_udp_checksum_disabled inp \<noteq> 0),
      zf_rtp_sequence_increments_by_one = (lla_rtp_sequence_increments_by_one inp \<noteq> 0),
      zf_compressor_observed_in_order = (lla_compressor_observed_in_order inp \<noteq> 0),
      zf_synchronized_timing = (lla_synchronized_timing inp \<noteq> 0)\<rparr>"

fun ppp_append_each :: "rohc_option \<Rightarrow> u16 list \<Rightarrow> nat list \<Rightarrow> rohc_option res" where
  "ppp_append_each out profiles [] = Done out"
| "ppp_append_each out profiles (i # is) =
     elem profiles i (\<lambda>p. seq_res (ppp_append_profile out p) (\<lambda>out. ppp_append_each out profiles is))"

definition c_ppp_option_to_core :: "rohccxx_ppp_rohc_option \<Rightarrow> rohc_option res" where
  "c_ppp_option_to_core inp =
     (if pp_profile_count inp > max_profiles then Reject
      else ppp_append_each (rohc_option_default\<lparr>ro_max_cid := pp_max_cid inp, ro_mrru := pp_mrru inp,
             ro_max_header := pp_max_header inp\<rparr>) (pp_profiles inp) [0..<pp_profile_count inp])"

fun copy_each :: "u16 list \<Rightarrow> nat list \<Rightarrow> u16 list \<Rightarrow> u16 list res" where
  \<comment> \<open>\<open>out[i] = in[i]\<close> in a loop\<close>
  "copy_each src [] out = Done out"
| "copy_each src (i # is) out = elem src i (\<lambda>v. if i < length out then copy_each src is (out[i := v]) else Fault)"

definition core_ppp_option_to_c :: "rohc_option \<Rightarrow> rohccxx_ppp_rohc_option res" where
  "core_ppp_option_to_c inp =
     (if ro_profile_count inp > 16 then Reject
      else seq_res (copy_each (ro_profiles inp) [0..<ro_profile_count inp] (replicate 16 0)) (\<lambda>profiles.
        Done \<lparr>pp_max_cid = ro_max_cid inp, pp_mrru = ro_mrru inp, pp_max_header = ro_max_header inp,
              pp_profiles = profiles, pp_profile_count = ro_profile_count inp\<rparr>))"

definition validation_to_c_result :: "contract_validation \<Rightarrow> int \<times> u32" where
  \<comment> \<open>the result and \<open>*missing\<close>\<close>
  "validation_to_c_result v = (if cv_valid v then 1 else 0, cv_missing v)"

definition capi_lla_runtime_contract_valid :: "assisting_layer_contract \<Rightarrow> zero_byte_flow \<Rightarrow> bool" where
  "capi_lla_runtime_contract_valid contract flow \<longleftrightarrow>
     cv_valid (validate_rfc3409_lower_layer_guidelines contract) \<and> cv_valid (validate_rfc3243_zero_byte_flow contract flow)"

fun channel_append_each :: "(channel_parameters \<Rightarrow> u16 \<Rightarrow> channel_parameters res) \<Rightarrow> channel_parameters \<Rightarrow> u16 list \<Rightarrow> nat list \<Rightarrow>
    channel_parameters res" where
  "channel_append_each app out values [] = Done out"
| "channel_append_each app out values (i # is) =
     elem values i (\<lambda>v. seq_res (app out v) (\<lambda>out. channel_append_each app out values is))"

definition c_rohcoipsec_to_core :: "rohccxx_rohcoipsec_channel \<Rightarrow> channel_parameters res" where
  "c_rohcoipsec_to_core inp =
     (if rc_profile_count inp > ch_max_profiles \<or> rc_integrity_algorithm_count inp > max_integrity_algorithms then Reject
      else seq_res (channel_append_each channel_append_profile (channel_parameters_default\<lparr>ch_max_cid := rc_max_cid inp\<rparr>)
                     (rc_profiles inp) [0..<rc_profile_count inp]) (\<lambda>out.
        seq_res (channel_append_each append_integrity out (rc_integrity_algorithms inp) [0..<rc_integrity_algorithm_count inp]) (\<lambda>out.
        Done (out\<lparr>ch_icv_len := rc_icv_len inp, ch_has_icv_len := (rc_has_icv_len inp \<noteq> 0),
                  ch_mrru := rc_mrru inp, ch_has_mrru := (rc_has_mrru inp \<noteq> 0)\<rparr>))))"

definition core_rohcoipsec_to_c :: "channel_parameters \<Rightarrow> rohccxx_rohcoipsec_channel res" where
  "core_rohcoipsec_to_c inp =
     (if ch_profile_count inp > 16 \<or> ch_integrity_algorithm_count inp > 8 then Reject
      else seq_res (copy_each (ch_profiles inp) [0..<ch_profile_count inp] (replicate 16 0)) (\<lambda>profiles.
        seq_res (copy_each (ch_integrity_algorithms inp) [0..<ch_integrity_algorithm_count inp] (replicate 8 0)) (\<lambda>algorithms.
        Done \<lparr>rc_max_cid = ch_max_cid inp, rc_profiles = profiles, rc_profile_count = ch_profile_count inp,
              rc_integrity_algorithms = algorithms, rc_integrity_algorithm_count = ch_integrity_algorithm_count inp,
              rc_icv_len = ch_icv_len inp, rc_has_icv_len = (if ch_has_icv_len inp then 1 else 0),
              rc_mrru = ch_mrru inp, rc_has_mrru = (if ch_has_mrru inp then 1 else 0)\<rparr>)))"

section \<open>Model: exported wrappers\<close>

definition rohc_profile_is_supported :: "u16 \<Rightarrow> int" where
  "rohc_profile_is_supported profile =
     (if profile \<in> {0x0000, 0x0005, 0x0101, 0x0102, 0x0103, 0x0104, 0x0107, 0x0108} then 1 else 0)"

definition rohc_profile_is_rohcv2 :: "u16 \<Rightarrow> int" where
  "rohc_profile_is_rohcv2 profile =
     (if profile \<in> {0x0000, 0x0101, 0x0102, 0x0103, 0x0104, 0x0107, 0x0108} then 1 else 0)"

definition rohc_ppp_is_rohc_protocol :: "u16 \<Rightarrow> int" where
  "rohc_ppp_is_rohc_protocol protocol = (if is_rohc_protocol_field protocol then 1 else 0)"

definition rohc_ppp_uses_large_cid_protocol :: "u16 \<Rightarrow> int" where
  "rohc_ppp_uses_large_cid_protocol protocol = (if uses_large_cid_protocol protocol then 1 else 0)"

definition rohc_ppp_validate_rohc_option :: "rohccxx_ppp_rohc_option \<Rightarrow> int res" where
  "rohc_ppp_validate_rohc_option opt =
     (case c_ppp_option_to_core opt of
        Reject \<Rightarrow> Done 0 | Fault \<Rightarrow> Fault | Done core \<Rightarrow> Done (if ppp_valid core then 1 else 0))"

definition rohc_ppp_write_rohc_option :: "nat \<Rightarrow> rohccxx_ppp_rohc_option \<Rightarrow> bytes res" where
  "rohc_ppp_write_rohc_option cap opt = seq_res (c_ppp_option_to_core opt) (\<lambda>core. write_rohc_option cap core)"

definition rohc_ppp_parse_rohc_option :: "bytes \<Rightarrow> rohccxx_ppp_rohc_option res" where
  "rohc_ppp_parse_rohc_option data = seq_res (parse_rohc_option data) core_ppp_option_to_c"

definition rohc_ppp_merge_rohc_options :: "rohccxx_ppp_rohc_option \<Rightarrow> rohccxx_ppp_rohc_option \<Rightarrow> rohccxx_ppp_rohc_option res" where
  "rohc_ppp_merge_rohc_options a b =
     seq_res (c_ppp_option_to_core a) (\<lambda>core_a. seq_res (c_ppp_option_to_core b) (\<lambda>core_b.
     seq_res (merge_channel_options core_a core_b) core_ppp_option_to_c))"

definition rohc_lla_validate_rfc3243_zero_byte_assumptions :: "rohccxx_lla_contract \<Rightarrow> int \<times> u32" where
  "rohc_lla_validate_rfc3243_zero_byte_assumptions contract =
     validation_to_c_result (validate_rfc3243_zero_byte_assumptions (c_lla_contract_to_core contract))"

definition rohc_lla_validate_rfc3243_zero_byte_flow :: "rohccxx_lla_contract \<Rightarrow> rohccxx_lla_flow \<Rightarrow> int \<times> u32" where
  "rohc_lla_validate_rfc3243_zero_byte_flow contract flow =
     validation_to_c_result (validate_rfc3243_zero_byte_flow (c_lla_contract_to_core contract) (c_lla_flow_to_core flow))"

definition rohc_lla_validate_rfc3408_r_mode_zero_byte_support :: "rohccxx_lla_contract \<Rightarrow> int \<times> u32" where
  "rohc_lla_validate_rfc3408_r_mode_zero_byte_support contract =
     validation_to_c_result (validate_rfc3408_r_mode_zero_byte_support (c_lla_contract_to_core contract))"

definition rohc_lla_validate_rfc3409_lower_layer_guidelines :: "rohccxx_lla_contract \<Rightarrow> int \<times> u32" where
  "rohc_lla_validate_rfc3409_lower_layer_guidelines contract =
     validation_to_c_result (validate_rfc3409_lower_layer_guidelines (c_lla_contract_to_core contract))"

definition rohc_lla_can_emit_no_header_packet :: "rohccxx_lla_contract \<Rightarrow> int" where
  "rohc_lla_can_emit_no_header_packet contract =
     (if can_emit_no_header_packet (c_lla_contract_to_core contract) then 1 else 0)"

definition rohc_lla_can_emit_no_header_packet_for_flow :: "rohccxx_lla_contract \<Rightarrow> rohccxx_lla_flow \<Rightarrow> int" where
  "rohc_lla_can_emit_no_header_packet_for_flow contract flow =
     (if can_emit_no_header_packet_for_flow (c_lla_contract_to_core contract) (c_lla_flow_to_core flow) then 1 else 0)"

definition rohc_lla_can_emit_reliable_mode_no_header_packet :: "rohccxx_lla_contract \<Rightarrow> int" where
  "rohc_lla_can_emit_reliable_mode_no_header_packet contract =
     (if can_emit_reliable_mode_no_header_packet (c_lla_contract_to_core contract) then 1 else 0)"

definition rohc_lla_can_emit_context_synchronization_packet :: "rohccxx_lla_contract \<Rightarrow> int" where
  "rohc_lla_can_emit_context_synchronization_packet contract =
     (if can_emit_context_synchronization_packet (c_lla_contract_to_core contract) then 1 else 0)"

definition rohc_lla_can_emit_context_check_packet :: "rohccxx_lla_contract \<Rightarrow> int" where
  "rohc_lla_can_emit_context_check_packet contract =
     (if can_emit_context_check_packet (c_lla_contract_to_core contract) then 1 else 0)"

definition rohc_rohcoipsec_append_icv :: "u16 \<Rightarrow> bytes \<Rightarrow> bytes \<Rightarrow> bytes \<Rightarrow> nat \<Rightarrow> nat \<Rightarrow> bytes res" where
  "rohc_rohcoipsec_append_icv algorithm key authenticated_packet rohc_packet cap icv_len =
     append_icv algorithm key authenticated_packet rohc_packet cap icv_len"

definition rohc_rohcoipsec_strip_verify_icv :: "u16 \<Rightarrow> bytes \<Rightarrow> bytes \<Rightarrow> bytes \<Rightarrow> nat \<Rightarrow> nat \<Rightarrow> bytes res" where
  "rohc_rohcoipsec_strip_verify_icv algorithm key authenticated_packet rohcoipsec_packet cap icv_len =
     seq_res (strip_and_verify_icv algorithm key authenticated_packet rohcoipsec_packet icv_len) (\<lambda>stripped.
       if cap < length stripped then Reject else put_all cap [] stripped Done)"

definition rohc_rohcoipsec_derive_directional_keys :: "bytes \<Rightarrow> nat \<Rightarrow> nat \<Rightarrow> nat \<Rightarrow> (bytes \<times> bytes) res" where
  \<comment> \<open>the outbound and the inbound key; \<open>size_t\<close> multiplication wraps\<close>
  "rohc_rohcoipsec_derive_directional_keys keymat key_len outbound_cap inbound_cap =
     (if key_len = 0 \<or> key_len > 128 \<or> length keymat < (key_len * 2) mod 2 ^ 64 \<or> outbound_cap < key_len \<or> inbound_cap < key_len
      then Reject
      else copy_in keymat 0 key_len (\<lambda>outbound. copy_in keymat key_len key_len (\<lambda>inbound. Done (outbound, inbound))))"

definition rohc_rohcoipsec_build_sa :: "rohccxx_rohcoipsec_channel \<Rightarrow> u16 \<Rightarrow> bytes \<Rightarrow> u32 \<Rightarrow> int \<Rightarrow> rohccxx_rohcoipsec_sa res" where
  "rohc_rohcoipsec_build_sa negotiated integrity_algorithm key feedback_for has_feedback_for =
     (if length key > 128 then Reject
      else seq_res (c_rohcoipsec_to_core negotiated) (\<lambda>core.
        if \<not> channel_valid core \<or> \<not> supports_integrity core integrity_algorithm then Reject
        else let none = (integrity_algorithm = 0); full_len = digest_len integrity_algorithm;
                 icv_len = (if none then 0 else if ch_has_icv_len core then unat (ch_icv_len core) else full_len) in
          if \<not> none \<and> (full_len = 0 \<or> icv_len = 0 \<or> icv_len > full_len \<or> length key = 0) then Reject
          else Done \<lparr>sa_max_cid = ch_max_cid core, sa_large_cids = (if channel_large_cids core then 1 else 0),
                 sa_integrity_algorithm = integrity_algorithm, sa_icv_len = of_nat icv_len,
                 sa_mrru = (if ch_has_mrru core then ch_mrru core else 0), sa_has_mrru = (if ch_has_mrru core then 1 else 0),
                 sa_key = key @ replicate (128 - length key) 0, sa_key_len = length key, sa_feedback_for = feedback_for,
                 sa_has_feedback_for = (if has_feedback_for \<noteq> 0 then 1 else 0)\<rparr>))"

definition rohc_rohcoipsec_security_next_header :: "byte \<Rightarrow> int \<Rightarrow> byte" where
  "rohc_rohcoipsec_security_next_header original_next_header compressed =
     (if compressed \<noteq> 0 then rohc_protocol_number else original_next_header)"

definition rohc_rohcoipsec_outbound_next_header :: "int \<Rightarrow> byte" where
  "rohc_rohcoipsec_outbound_next_header compressed = (if compressed \<noteq> 0 then rohc_protocol_number else 0)"

definition rohc_rohcoipsec_inbound_requires_decompression :: "byte \<Rightarrow> int" where
  "rohc_rohcoipsec_inbound_requires_decompression next_header = (if is_rohc_next_header next_header then 1 else 0)"

definition rohc_rohcoipsec_write_supported :: "nat \<Rightarrow> rohccxx_rohcoipsec_channel \<Rightarrow> bytes res" where
  "rohc_rohcoipsec_write_supported cap params =
     seq_res (c_rohcoipsec_to_core params) (\<lambda>core. write_supported_notify_payload cap core)"

definition rohc_rohcoipsec_parse_supported :: "bytes \<Rightarrow> rohccxx_rohcoipsec_channel res" where
  "rohc_rohcoipsec_parse_supported data = seq_res (parse_supported_notify_payload data) core_rohcoipsec_to_c"

definition rohc_rohcoipsec_negotiate :: "rohccxx_rohcoipsec_channel \<Rightarrow> rohccxx_rohcoipsec_channel \<Rightarrow> rohccxx_rohcoipsec_channel res" where
  "rohc_rohcoipsec_negotiate local peer =
     seq_res (c_rohcoipsec_to_core local) (\<lambda>core_local. seq_res (c_rohcoipsec_to_core peer) (\<lambda>core_peer.
     seq_res (negotiate core_local core_peer) core_rohcoipsec_to_c))"

end
