(* ===== verification/CApiPredicates.thy ===== *)
theory CApiPredicates
  imports CApiRebuild FoRtp FormalCoPt0 PacketType
begin

text \<open>
  The decisions of the C interface (\<open>c_api/rohc_c_api.cpp\<close>, static functions in front of the exported ones): how the
  IPv4 identification and the RTP timestamp of a flow behave, whether a PT-0 packet can be reconstructed from the previous
  context, whether a compact packet could be taken for one of another format, which sequence number a received PT-0
  packet stands for, and when the compressor has to fall back to IR packets.
\<close>

section \<open>Model: behaviour of a flow\<close>

definition update_rtp_ipv4_id_behavior :: "rohc_context \<Rightarrow> bool \<Rightarrow> u16 \<Rightarrow> byte \<Rightarrow> bool \<Rightarrow> u16 \<Rightarrow> u16 \<Rightarrow> bool \<times> rohc_context" where
  "update_rtp_ipv4_id_behavior ctx had_ipv4_rtp_context previous_ipv4_id previous_ipv4_flags previous_ipv4_id_sequential
     previous_rtp_seq seq =
     (if ctx_ip_version ctx \<noteq> 4 \<or> \<not> had_ipv4_rtp_context then
        (True, ctx\<lparr>ctx_ipv4_id_behavior := (if ctx_ipv4_id ctx = 0 then 3 else 2), ctx_ipv4_id_sequential := False\<rparr>)
      else
        let id_delta = ctx_ipv4_id ctx - previous_ipv4_id; seq_delta = seq - previous_rtp_seq;
            swapped_delta = swap_u16 (ctx_ipv4_id ctx) - swap_u16 previous_ipv4_id;
            behavior = (if id_delta = seq_delta then 0 else if ctx_ipv4_id ctx = 0 then 3
                        else if swapped_delta = seq_delta then 1 else 2);
            ctx = ctx\<lparr>ctx_ipv4_id_behavior := behavior, ctx_ipv4_id_sequential := behavior \<le> 1\<rparr>;
            flags_unchanged = (ctx_ipv4_flags ctx = previous_ipv4_flags);
            behavior_unchanged = (ctx_ipv4_id_sequential ctx = previous_ipv4_id_sequential);
            id_fo_safe = (ctx_ipv4_id ctx = previous_ipv4_id \<or> ctx_ipv4_id_sequential ctx) in
        (flags_unchanged \<and> behavior_unchanged \<and> id_fo_safe, ctx))"

definition update_ipv4_id_behavior :: "rohc_context \<Rightarrow> bool \<Rightarrow> u16 \<Rightarrow> rohc_context" where
  "update_ipv4_id_behavior ctx had_ipv4_context previous_ipv4_id =
     (if ctx_ip_version ctx \<noteq> 4 then ctx
      else let behavior =
             (if had_ipv4_context then
                (if ctx_ipv4_id ctx - previous_ipv4_id = 1 then 0
                 else if swap_u16 (ctx_ipv4_id ctx) - swap_u16 previous_ipv4_id = 1 then 1
                 else if ctx_ipv4_id ctx = 0 then 3 else 2)
              else if ctx_ipv4_id ctx = 0 then 3 else 2) in
        ctx\<lparr>ctx_ipv4_id_behavior := behavior, ctx_ipv4_id_sequential := behavior \<le> 1\<rparr>)"

definition update_rtp_timestamp_stride :: "rohc_context \<Rightarrow> u16 \<Rightarrow> u32 \<Rightarrow> rohc_context" where
  "update_rtp_timestamp_stride ctx seq ts =
     (if ctx_tx_count ctx = 0 then ctx\<lparr>ctx_rtp := (ctx_rtp ctx)\<lparr>rtp_ts_stride := 0, rtp_ts_residue := 0\<rparr>\<rparr>
      else if ctx_tx_count ctx \<noteq> 1 then ctx
      else case infer_timestamp_stride (rtp_last_seq (ctx_rtp ctx)) (rtp_last_ts (ctx_rtp ctx)) seq ts of
          None \<Rightarrow> ctx
        | Some (stride, residue) \<Rightarrow> ctx\<lparr>ctx_rtp := (ctx_rtp ctx)\<lparr>rtp_ts_stride := stride, rtp_ts_residue := residue\<rparr>\<rparr>)"

section \<open>Model: what a PT-0 packet can restore\<close>

definition same_ipv4_flow :: "rohc_context \<Rightarrow> rohc_context \<Rightarrow> bool" where
  \<comment> \<open>the comparisons of IPv4 fields the four predicates share\<close>
  "same_ipv4_flow previous current \<longleftrightarrow>
     ctx_ipv4_tos current = ctx_ipv4_tos previous \<and> ctx_ipv4_ttl current = ctx_ipv4_ttl previous \<and>
     ctx_ipv4_flags current = ctx_ipv4_flags previous \<and> ctx_ipv4_protocol current = ctx_ipv4_protocol previous \<and>
     ctx_ipv4_saddr current = ctx_ipv4_saddr previous \<and> ctx_ipv4_daddr current = ctx_ipv4_daddr previous \<and>
     ctx_ipv4_options_len current = ctx_ipv4_options_len previous \<and> ctx_ipv4_options current = ctx_ipv4_options previous"

definition rtp_pt0_reconstructable :: "rohc_context \<Rightarrow> rohc_context \<Rightarrow> bool" where
  "rtp_pt0_reconstructable previous current \<longleftrightarrow>
     ctx_profile previous = RTP \<and> ctx_rohc_state previous = DynamicEstablished \<and> ctx_ip_version previous = 4 \<and>
     ctx_ip_version current = 4 \<and> rtp_ts_stride (ctx_rtp previous) \<noteq> 0 \<and>
     (let delta = rtp_last_seq (ctx_rtp current) - rtp_last_seq (ctx_rtp previous) in
      delta \<noteq> 0 \<and> delta \<le> 15 \<and>
      rtp_last_ts (ctx_rtp current) = rtp_last_ts (ctx_rtp previous) + rtp_ts_stride (ctx_rtp previous) * ucast delta \<and>
      rtp_vpxcc (ctx_rtp current) = rtp_vpxcc (ctx_rtp previous) \<and> rtp_mpt (ctx_rtp current) = rtp_mpt (ctx_rtp previous) \<and>
      rtp_ssrc (ctx_rtp current) = rtp_ssrc (ctx_rtp previous) \<and>
      ctx_udp_sport current = ctx_udp_sport previous \<and> ctx_udp_dport current = ctx_udp_dport previous \<and>
      ctx_udp_check current = ctx_udp_check previous \<and> same_ipv4_flow previous current \<and>
      ctx_ipv4_id_behavior current = ctx_ipv4_id_behavior previous \<and>
      (if ctx_ipv4_id_behavior current = 0 then ctx_ipv4_id current = ctx_ipv4_id previous + delta
       else (ctx_ipv4_id_behavior current = 2 \<or> ctx_ipv4_id_behavior current = 3) \<and> ctx_ipv4_id current = ctx_ipv4_id previous))"

definition udp_pt0_reconstructable :: "rohc_context \<Rightarrow> rohc_context \<Rightarrow> bool" where
  "udp_pt0_reconstructable previous current \<longleftrightarrow>
     ctx_profile previous = UDP \<and> ctx_rohc_state previous = DynamicEstablished \<and> ctx_ip_version previous = 4 \<and>
     ctx_ip_version current = 4 \<and> ctx_msn current = ctx_msn previous + 1 \<and> ctx_ipv4_id_behavior current = 0 \<and>
     ctx_ipv4_id current = ctx_ipv4_id previous + 1 \<and>
     ctx_udp_sport current = ctx_udp_sport previous \<and> ctx_udp_dport current = ctx_udp_dport previous \<and>
     ctx_udp_check current = 0 \<and> ctx_udp_check previous = 0 \<and> same_ipv4_flow previous current"

definition esp_pt0_reconstructable :: "rohc_context \<Rightarrow> rohc_context \<Rightarrow> bool" where
  "esp_pt0_reconstructable previous current \<longleftrightarrow>
     ctx_profile previous = ESP \<and> ctx_rohc_state previous = DynamicEstablished \<and> ctx_ip_version previous = 4 \<and>
     ctx_ip_version current = 4 \<and> ctx_esp_spi current = ctx_esp_spi previous \<and> ctx_ipv4_id_behavior current = 0 \<and>
     same_ipv4_flow previous current \<and>
     (let delta = ctx_esp_sequence current - ctx_esp_sequence previous in
      delta > 0 \<and> delta \<le> 15 \<and> ctx_msn current = ctx_msn previous + ucast delta \<and>
      ctx_ipv4_id current = ctx_ipv4_id previous + ucast delta)"

definition ip_private_fo_reconstructable :: "rohc_context \<Rightarrow> rohc_context \<Rightarrow> bool" where
  "ip_private_fo_reconstructable previous current \<longleftrightarrow>
     ctx_profile previous = IP \<and> ctx_rohc_state previous = DynamicEstablished \<and> ctx_ip_version previous = 4 \<and>
     ctx_ip_version current = 4 \<and> same_ipv4_flow previous current \<and>
     (ctx_ipv4_id_behavior current \<noteq> 0 \<or> ctx_ipv4_id_behavior previous = 0)"

definition ip_pt0_reconstructable :: "rohc_context \<Rightarrow> rohc_context \<Rightarrow> bool" where
  "ip_pt0_reconstructable previous current \<longleftrightarrow>
     ip_private_fo_reconstructable previous current \<and> ctx_msn current = ctx_msn previous + 1 \<and>
     ctx_ipv4_id_behavior current = 0 \<and> ctx_ipv4_id current = ctx_ipv4_id previous + 1"

section \<open>Model: the sequence number of a PT-0 packet\<close>

definition decode_forward_formal_msn :: "rohc_context \<Rightarrow> u16 \<Rightarrow> nat \<Rightarrow> u16 res" where
  "decode_forward_formal_msn ctx msn_lsb width =
     (if ctx_reorder_ratio ctx > 3 \<or> width < 2 \<or> width \<ge> 16 then Reject
      else let range = push_bit width 1 :: u32;
               p = [1, range div 4 - 1, range div 2 - 1, range * 3 div 4 - 1] ! unat (ctx_reorder_ratio ctx) in
        seq_res (decode_lsb_with_p (ucast msn_lsb) width (ucast (ctx_msn ctx)) p 16) (\<lambda>decoded.
          let next_msn = ucast decoded :: u16; forward_delta = next_msn - ctx_msn ctx in
          guard (forward_delta > 0 \<and> ucast forward_delta \<le> range - 1 - p) (Done next_msn)))"

definition pt0_p_by_reorder_ratio :: "u32 list" where
  "pt0_p_by_reorder_ratio = [1, 3, 7, 11]"

definition decode_forward_formal_pt0_msn :: "rohc_context \<Rightarrow> u16 \<Rightarrow> u16 res" where
  "decode_forward_formal_pt0_msn ctx msn_lsb =
     (if ctx_reorder_ratio ctx > 3 \<or> msn_lsb > 0x0F then Reject
      else let p = pt0_p_by_reorder_ratio ! unat (ctx_reorder_ratio ctx) in
        seq_res (decode_lsb_with_p (ucast msn_lsb) 4 (ucast (ctx_msn ctx)) p 16) (\<lambda>decoded.
          let next_msn = ucast decoded :: u16; forward_delta = next_msn - ctx_msn ctx in
          guard (forward_delta > 0 \<and> ucast forward_delta \<le> 15 - p) (Done next_msn)))"

definition formal_pt0_forward_limit :: "rohc_context \<Rightarrow> byte" where
  "formal_pt0_forward_limit ctx =
     (if unat (ctx_reorder_ratio ctx) \<ge> 4 then 0 else 15 - [1, 3, 7, 11] ! unat (ctx_reorder_ratio ctx))"

definition legacy_pt0_delta_safe_for_profile :: "rohc_context \<Rightarrow> u16 \<Rightarrow> bool" where
  "legacy_pt0_delta_safe_for_profile ctx delta \<longleftrightarrow>
     delta \<noteq> 0 \<and>
     (if ctx_profile_replacement_active ctx \<or> ctx_compact_profile_replacement_seen ctx then delta = 1
      else if ctx_profile ctx = RTP then delta = 1 else True)"

section \<open>Model: packets of two readings\<close>

definition succeeds :: "'a res \<Rightarrow> bool res" where
  \<comment> \<open>only whether the call returned true matters\<close>
  "succeeds r = (case r of Done _ \<Rightarrow> Done True | Reject \<Rightarrow> Done False | Fault \<Rightarrow> Fault)"

definition decodes_as_private :: "byte \<Rightarrow> bytes \<Rightarrow> rohc_context \<Rightarrow> bool res" where
  "decodes_as_private first_octet payload context0 =
     (let type = detect_packet_type first_octet in
      if type \<noteq> PT_FO_UDP \<and> type \<noteq> PT_FO_ESP \<and> type \<noteq> PT_FO_IP then Done False
      else let private_header_len = (if type = PT_FO_UDP then 6 else 4) in
        if length payload < private_header_len - 1 then Done False
        else copy_in payload 0 (private_header_len - 1) (\<lambda>front.
          let candidate = first_octet # front in
          if type = PT_FO_UDP then succeeds (decode_udp_fo candidate context0)
          else if type = PT_FO_ESP then succeeds (decode_esp_fo candidate context0)
          else succeeds (decode_ip_fo candidate context0)))"

fun any_neighbor :: "byte \<Rightarrow> nat list \<Rightarrow> bytes \<Rightarrow> rohc_context \<Rightarrow> bool res" where
  \<comment> \<open>the loop over the one-bit neighbours of the octet\<close>
  "any_neighbor pt0 [] payload c = Done False"
| "any_neighbor pt0 (i # is) payload c =
     seq_res (decodes_as_private (pt0 XOR push_bit i 1) payload c) (\<lambda>b. if b then Done True else any_neighbor pt0 is payload c)"

definition pt0_private_fo_ambiguous :: "byte \<Rightarrow> bytes \<Rightarrow> rohc_context option \<Rightarrow> bool \<Rightarrow> bool res" where
  "pt0_private_fo_ambiguous pt0 payload context0 include_one_bit_neighbors =
     (let c = (case context0 of Some c \<Rightarrow> c | None \<Rightarrow> context_zero) in
      seq_res (decodes_as_private pt0 payload c) (\<lambda>b.
        if b then Done True
        else if \<not> include_one_bit_neighbors then Done False
        else any_neighbor pt0 [0, 1, 2, 3, 4, 5, 6] payload c))"

definition emit_rtp_pt0_small_cid :: "nat \<Rightarrow> u32 \<Rightarrow> u16 \<Rightarrow> bytes \<Rightarrow> bytes res" where
  "emit_rtp_pt0_small_cid cap cid msn packet =
     (if cid > 0x0F then Reject
      else copy_in packet 0 40 (\<lambda>crc_input.
        emit_formal_co cap RTP Pt0Crc7 cid False \<lparr>cf_msn = msn, cf_ip_id = 0, cf_ts_scaled = 0, cf_marker = False\<rparr> crc_input))"

definition formal_udp_reading :: "rohc_context \<Rightarrow> u16 \<Rightarrow> bytes \<Rightarrow> (rohc_context \<times> nat) res" where
  \<comment> \<open>the context after the PT-0 reading of the packet, and its header length\<close>
  "formal_udp_reading previous next_msn private_packet =
     (let c = previous\<lparr>ctx_msn := next_msn, ctx_ipv4_id := ctx_ipv4_id previous + (next_msn - ctx_msn previous)\<rparr> in
      if ctx_udp_checksum_used c then
        if length private_packet < 3 then Reject
        else rd16 private_packet 1 (\<lambda>check. Done (c\<lparr>ctx_udp_check := check\<rparr>, 3))
      else Done (c, 1))"

definition formal_udp_checksums :: "rohc_context \<Rightarrow> bytes \<Rightarrow> nat \<Rightarrow> bytes \<Rightarrow> bytes \<Rightarrow> bool res" where
  \<comment> \<open>which of the two readings the UDP checksum confirms\<close>
  "formal_udp_checksums previous private_packet n header payload =
     seq_res (view private_packet n (\<lambda>prefix. udp_checksum_valid header prefix payload)) (\<lambda>formal_checksum_valid.
     let private_reading = seq_res (decode_udp_fo private_packet previous) (\<lambda>(private_context, _).
       seq_res (build_fixed_udp_ipv4_header private_context (length payload)) (\<lambda>private_header.
         udp_checksum_valid private_header [] payload)) in
     case private_reading of
       Fault \<Rightarrow> Fault
     | Reject \<Rightarrow> Done True
     | Done private_checksum_valid \<Rightarrow> Done (formal_checksum_valid \<or> \<not> private_checksum_valid))"

definition private_udp_fo_is_formal_pt0_ambiguous :: "rohc_context \<Rightarrow> bytes \<Rightarrow> bytes \<Rightarrow> bool res" where
  "private_udp_fo_is_formal_pt0_ambiguous previous private_packet payload =
     (if private_packet = [] \<or> ctx_profile previous \<noteq> UDP \<or> ctx_rohc_state previous \<noteq> DynamicEstablished then Done False
      else case seq_res (read_formal_co_base private_packet 1 UDP Pt0Crc3 formal_co_packet_init) (\<lambda>formal.
             seq_res (decode_forward_formal_pt0_msn previous (cp_msn formal)) (\<lambda>next_msn.
             seq_res (formal_udp_reading previous next_msn private_packet) (\<lambda>(formal_context, n).
             guard (n \<le> length private_packet \<and> length payload \<le> 2 ^ 64 - 1 - (length private_packet - n))
               (seq_res (build_fixed_udp_ipv4_header formal_context (length private_packet - n + length payload)) (\<lambda>header.
                guard (crc3 header = cp_header_crc formal)
                  (if \<not> ctx_udp_checksum_used formal_context then Done True
                   else formal_udp_checksums previous private_packet n header payload)))))) of
          Fault \<Rightarrow> Fault
        | Reject \<Rightarrow> Done False
        | Done b \<Rightarrow> Done b)"

definition private_ip_fo_is_formal_pt0_ambiguous :: "rohc_context \<Rightarrow> bytes \<Rightarrow> nat \<Rightarrow> bool res" where
  "private_ip_fo_is_formal_pt0_ambiguous previous private_packet payload_len =
     (if private_packet = [] \<or> ctx_profile previous \<noteq> IP \<or> ctx_rohc_state previous \<noteq> DynamicEstablished then Done False
      else succeeds (seq_res (read_formal_co_base private_packet 1 IP Pt0Crc3 formal_co_packet_init) (\<lambda>formal.
             seq_res (decode_forward_formal_pt0_msn previous (cp_msn formal)) (\<lambda>next_msn.
             if payload_len > 2 ^ 64 - 1 - (length private_packet - 1) then Reject
             else let delta = next_msn - ctx_msn previous;
                      formal_context = previous\<lparr>ctx_msn := next_msn,
                        ctx_ipv4_id := (if ctx_ipv4_id_behavior previous = 0 then ctx_ipv4_id previous + delta else ctx_ipv4_id previous)\<rparr> in
               seq_res (build_fixed_ip_ipv4_header formal_context (length private_packet - 1 + payload_len)) (\<lambda>header.
                 guard (crc3 header = cp_header_crc formal) (Done ()))))))"

definition legacy_private_ip_fo_crc_valid :: "bytes \<Rightarrow> bool res" where
  "legacy_private_ip_fo_crc_valid packet =
     (if length packet < 4 \<or> packet ! 0 \<noteq> 0x79 then Done False
      else copy_in packet 0 4 (\<lambda>header. rd header 1 (\<lambda>received_crc. Done (crc8 (header[1 := 0]) = received_crc))))"

section \<open>Model: when to send IR packets\<close>

definition should_emit_ir :: "rohc_context \<Rightarrow> bool" where
  "should_emit_ir ctx \<longleftrightarrow>
     ctx_tx_count ctx = 0 \<or> ctx_rohc_state ctx = NoContext \<or> ctx_profile_replacement_pending ctx \<or>
     ctx_mode ctx = Reliable \<and> \<not> ctx_static_acked ctx"

definition should_emit_ir_dyn :: "rohc_context \<Rightarrow> bool" where
  "should_emit_ir_dyn ctx \<longleftrightarrow>
     ctx_tx_count ctx = 1 \<or> ctx_rohc_state ctx = StaticEstablished \<or>
     ctx_mode ctx = Reliable \<and> ctx_static_acked ctx \<and> \<not> ctx_dynamic_acked ctx"

definition profile_uses_formal_pt0 :: "profile \<Rightarrow> bool" where
  "profile_uses_formal_pt0 p \<longleftrightarrow> p = RTP \<or> p = UDP \<or> p = ESP \<or> p = IP"

definition require_confirmation_before_pt0_alias :: "rohc_context \<Rightarrow> rohc_context" where
  "require_confirmation_before_pt0_alias ctx =
     (let limit = formal_pt0_forward_limit ctx in
      if limit > 0 \<and> ctx_formal_pt0_since_confirmation ctx \<ge> limit \<and> \<not> ctx_profile_replacement_pending ctx
      then ctx\<lparr>ctx_context_revision := ctx_context_revision ctx + 1, ctx_profile_replacement_pending := True\<rparr>
      else ctx)"

section \<open>The incremental checksum\<close>

definition ic_pending :: "internet_checksum \<Rightarrow> bytes" where
  "ic_pending c = (if ic_has_high c then [ic_high c] else [])"

lemma ic_add_words_pending:
  "\<not> ic_has_high c \<Longrightarrow>
   checksum_words (ic_pending (ic_add_words c d) @ rest) (ic_sum (ic_add_words c d)) = checksum_words (d @ rest) (ic_sum c)"
  by (induction c d rule: ic_add_words.induct) (simp_all add: ic_pending_def)

lemma ic_add_pending:
  "checksum_words (ic_pending (ic_add c d) @ rest) (ic_sum (ic_add c d)) = checksum_words (ic_pending c @ d @ rest) (ic_sum c)"
proof (cases "ic_has_high c")
  case True
  show ?thesis
  proof (cases d)
    case (Cons x xs)
    then show ?thesis
      using True ic_add_words_pending [of "c\<lparr>ic_sum := ic_sum c + ucast (of_be16 (ic_high c) x), ic_has_high := False\<rparr>" xs rest]
      by (simp add: ic_add_def ic_pending_def)
  qed (simp add: ic_add_def True ic_pending_def)
qed (use ic_add_words_pending [of c d rest] in \<open>simp add: ic_add_def ic_pending_def\<close>)

lemma ic_valid_pending: "ic_valid c \<longleftrightarrow> (ucast (fold_carry (checksum_words (ic_pending c) (ic_sum c))) :: u16) = 0xFFFF"
  by (simp add: ic_valid_def ic_pending_def Let_def)

lemma checksum_zero_iff: "capi_ipv4_checksum bs = 0 \<longleftrightarrow> (ucast (fold_carry (checksum_words bs 0)) :: u16) = 0xFFFF"
proof -
  have "capi_ipv4_checksum bs = NOT (ucast (fold_carry (checksum_words bs 0)))"
    unfolding capi_ipv4_checksum_def by (rule bit_word_eqI) (simp add: bit_simps)
  moreover have "(NOT x = 0) = (x = 0xFFFF)" for x :: u16
  proof -
    have "(0xFFFF :: u16) = - 1" by simp
    then show ?thesis by (metis bit.double_compl bit.compl_zero)
  qed
  ultimately show ?thesis by simp
qed

section \<open>The forward interval\<close>

definition msn_window :: "byte \<Rightarrow> nat \<Rightarrow> nat" where
  \<comment> \<open>how far ahead of its reference a decompressor may see a sequence number sent with \<open>w\<close> bits\<close>
  "msn_window reorder_ratio w = 2 ^ w - 1 - [1, 2 ^ w div 4 - 1, 2 ^ w div 2 - 1, 2 ^ w * 3 div 4 - 1] ! unat reorder_ratio"

lemma wlsb_offset_forward:
  fixes m r :: u16
  assumes "p < 2 ^ 16" and "unat (m - r) + p < 2 ^ 16"
  shows "wlsb_offset (2 ^ 16) (unat r) p (unat m) = unat (m - r) + p"
proof -
  have r: "unat r < 2 ^ 16" using unsigned_less [of r] by simp
  have sub: "int ((unat r + 2 ^ 16 - p) mod 2 ^ 16) = (uint r - int p) mod 2 ^ 16"
    using assms(1) by (simp add: zmod_int of_nat_diff) (metis (no_types, opaque_lifting) add_diff_eq diff_add_eq mod_add_self2)
  have lt: "(unat r + 2 ^ 16 - p) mod 2 ^ 16 \<le> unat m + 2 ^ 16" by (simp add: trans_le_add2 less_imp_le)
  have "int (wlsb_offset (2 ^ 16) (unat r) p (unat m)) = (uint m + 2 ^ 16 - (uint r - int p) mod 2 ^ 16) mod 2 ^ 16"
    using lt sub by (simp add: wlsb_offset_def zmod_int of_nat_diff)
  also have "\<dots> = (uint m - uint r + int p) mod 2 ^ 16"
    by (metis (no_types, opaque_lifting) add.commute add_diff_eq diff_diff_eq2 mod_add_self1 mod_diff_right_eq)
  also have "\<dots> = (uint (m - r) + int p) mod 2 ^ 16"
    by (simp add: uint_word_ariths mod_add_left_eq)
  also have "\<dots> = uint (m - r) + int p"
  proof -
    have "int (unat (m - r) + p) < int (2 ^ 16)" using assms(2) by (simp only: of_nat_less_iff)
    then show ?thesis by (intro mod_pos_pos_trivial) simp_all
  qed
  also have "\<dots> = int (unat (m - r) + p)" by simp
  finally show ?thesis by (simp only: of_nat_eq_iff)
qed

lemma decode_forward_formal_msn_iff:
  assumes r: "ctx_reorder_ratio c \<le> 3" and w: "2 \<le> w" "w < 16"
  shows "decode_forward_formal_msn c l w = Done m \<longleftrightarrow>
    l = take_bit w m \<and> 0 < unat (m - ctx_msn c) \<and> unat (m - ctx_msn c) \<le> msn_window (ctx_reorder_ratio c) w"
proof -
  define range where "range = (push_bit w 1 :: u32)"
  define p where "p = [1, range div 4 - 1, range div 2 - 1, range * 3 div 4 - 1] ! unat (ctx_reorder_ratio c)"
  have cases: "w \<in> {2, 3, 4, 5, 6, 7, 8, 9, 10, 11, 12, 13, 14, 15}" using w by (simp only: insert_iff empty_iff) presburger
  have ratio: "unat (ctx_reorder_ratio c) \<in> {0, 1, 2, 3}" using r by (auto simp: word_le_nat_alt)
  have range: "unat range = 2 ^ w" using cases unfolding range_def by (elim insertE) simp_all
  have p: "unat p = [1, 2 ^ w div 4 - 1, 2 ^ w div 2 - 1, 2 ^ w * 3 div 4 - 1] ! unat (ctx_reorder_ratio c)"
    using cases ratio unfolding p_def range_def by (elim insertE) simp_all
  have p_less: "unat p < 2 ^ w" "unat p + 1 \<le> 2 ^ w" using cases ratio unfolding p by (elim insertE; simp)+
  have window: "msn_window (ctx_reorder_ratio c) w = 2 ^ w - 1 - unat p" by (simp only: msn_window_def p)
  have limit: "unat (range - 1 - p) = msn_window (ctx_reorder_ratio c) w"
    using p_less range unfolding window by (simp add: unat_sub word_le_nat_alt)
  have "decode_forward_formal_msn c l w = Done m \<longleftrightarrow>
     (\<exists>v. decode_lsb_with_p (ucast l) w (ucast (ctx_msn c)) p 16 = Done v \<and> ucast v = m \<and>
       0 < m - ctx_msn c \<and> (ucast (m - ctx_msn c) :: u32) \<le> range - 1 - p)"
    using assms unfolding decode_forward_formal_msn_def Let_def range_def [symmetric] p_def [symmetric]
    by (auto simp: guard_def seq_res_eq_Done not_less word_greater_zero_iff split: if_splits)
  also have "\<dots> \<longleftrightarrow> decode_lsb_with_p (ucast l) w (ucast (ctx_msn c)) p 16 = Done (ucast m) \<and>
       0 < unat (m - ctx_msn c) \<and> unat (m - ctx_msn c) \<le> msn_window (ctx_reorder_ratio c) w"
  proof -
    have "v = ucast (ucast v :: u16)" if "decode_lsb_with_p (ucast l) w (ucast (ctx_msn c)) p 16 = Done v" for v
      using that decode_lsb_with_p_iff [of w 16 p "ucast l" "ucast (ctx_msn c)" v] w p_less(1)
      by (simp add: word_unat_eq_iff unsigned_ucast_eq unsigned_take_bit_eq take_bit_nat_eq_self)
    moreover have "(ucast (m - ctx_msn c) :: u32) \<le> range - 1 - p \<longleftrightarrow> unat (m - ctx_msn c) \<le> msn_window (ctx_reorder_ratio c) w"
      by (simp add: word_le_nat_alt limit)
    moreover have "(ucast (ucast m :: u32) :: u16) = m" by (rule bit_word_eqI) (simp add: bit_simps)
    ultimately show ?thesis by (auto simp: word_greater_zero_iff word_less_nat_alt)
  qed
  also have "\<dots> \<longleftrightarrow> l = take_bit w m \<and> 0 < unat (m - ctx_msn c) \<and> unat (m - ctx_msn c) \<le> msn_window (ctx_reorder_ratio c) w"
  proof -
    have bits: "(ucast l :: u32) = least_significant_bits (ucast m) w \<longleftrightarrow> l = take_bit w m"
      using w by (simp add: least_significant_bits_take_bit word_unat_eq_iff unsigned_take_bit_eq)
    have "unat (m - ctx_msn c) + unat p < 2 ^ w" if "unat (m - ctx_msn c) \<le> msn_window (ctx_reorder_ratio c) w"
      using that p_less unfolding window by simp
    moreover have "(2 :: nat) ^ w \<le> 2 ^ 16" using w by (intro power_increasing) simp_all
    ultimately have "wlsb_offset (2 ^ 16) (unat (ctx_msn c)) (unat p) (unat m) < 2 ^ w"
      if "unat (m - ctx_msn c) \<le> msn_window (ctx_reorder_ratio c) w"
      using that wlsb_offset_forward [of "unat p" m "ctx_msn c"] by fastforce
    then show ?thesis
      using decode_lsb_with_p_iff [of w 16 p "ucast l" "ucast (ctx_msn c)" "ucast m"] w p_less(1) bits
        unat_u16_bound [of m] unat_u16_bound [of "ctx_msn c"]
      by auto
  qed
  finally show ?thesis .
qed

lemma ratio_cases: "(r :: byte) \<le> 3 \<longleftrightarrow> r = 0 \<or> r = 1 \<or> r = 2 \<or> r = 3"
proof
  assume "r \<le> 3"
  then have "unat r \<in> {0, 1, 2, 3}" by (auto simp: word_le_nat_alt)
  then show "r = 0 \<or> r = 1 \<or> r = 2 \<or> r = 3" by (auto simp: word_unat_eq_iff)
qed auto

lemma decode_forward_formal_pt0_msn_eq: "decode_forward_formal_pt0_msn c l = decode_forward_formal_msn c l 4"
proof (cases "ctx_reorder_ratio c \<le> 3")
  case True
  let ?d = "\<lambda>p. decode_lsb_with_p (ucast l) 4 (ucast (ctx_msn c)) p 16"
  have "?d p = Reject" if "l > 0x0F" for p
  proof -
    have "(ucast (ucast l :: u32) :: u64) AND 15 \<noteq> ucast (ucast l :: u32)"
      using that unat_and_mask [of "ucast (ucast l :: u32) :: u64" 4]
      by (auto simp: word_unat_eq_iff word_less_nat_alt mask_eq_exp_minus_1)
    then show ?thesis by (simp add: decode_lsb_with_p_def modulus_for_width_def)
  qed
  then show ?thesis
    using True unfolding ratio_cases
    by (auto simp: decode_forward_formal_pt0_msn_def decode_forward_formal_msn_def pt0_p_by_reorder_ratio_def not_less)
qed (simp add: decode_forward_formal_pt0_msn_def decode_forward_formal_msn_def not_le)

lemma forward_limit_window: "ctx_reorder_ratio c \<le> 3 \<Longrightarrow> unat (formal_pt0_forward_limit c) = msn_window (ctx_reorder_ratio c) 4"
  unfolding ratio_cases by (auto simp: formal_pt0_forward_limit_def msn_window_def)

text \<open>
  C25. The sequence number of a compact packet. With \<open>w\<close> bits, \<open>decode_forward_formal_msn\<close> returns exactly the number that ends
  in the received bits and lies 1 to \<open>2 ^ w - 1 - p\<close> ahead of the context, where \<open>p\<close> belongs to the reorder ratio; the PT-0
  version is the case of four bits. The limit at which the compressor asks for a confirmation equals the length of that interval: of up to
  \<open>formal_pt0_forward_limit\<close> PT-0 packets after the decompressor's reference each is understood even when all others are lost.
\<close>

theorem forward_msn_exact:
  assumes "ctx_reorder_ratio c \<le> 3" and "2 \<le> w" and "w < 16" and "0 < n" and "n \<le> unat (formal_pt0_forward_limit c)"
  shows "(decode_forward_formal_msn c l w = Done m \<longleftrightarrow>
      l = take_bit w m \<and> 0 < unat (m - ctx_msn c) \<and> unat (m - ctx_msn c) \<le> msn_window (ctx_reorder_ratio c) w) \<and>
    decode_forward_formal_pt0_msn c l = decode_forward_formal_msn c l 4 \<and>
    unat (formal_pt0_forward_limit c) = msn_window (ctx_reorder_ratio c) 4 \<and>
    decode_forward_formal_pt0_msn c ((ctx_msn c + of_nat n) AND 0x0F) = Done (ctx_msn c + of_nat n)"
proof (intro conjI)
  show "decode_forward_formal_msn c l w = Done m \<longleftrightarrow>
      l = take_bit w m \<and> 0 < unat (m - ctx_msn c) \<and> unat (m - ctx_msn c) \<le> msn_window (ctx_reorder_ratio c) w"
    using decode_forward_formal_msn_iff [OF assms(1-3)] .
  show limit: "unat (formal_pt0_forward_limit c) = msn_window (ctx_reorder_ratio c) 4" by (rule forward_limit_window [OF assms(1)])
  have n: "n \<le> msn_window (ctx_reorder_ratio c) 4" using assms(5) limit by simp
  then have "n < 2 ^ 16" using assms(1) by (auto simp: ratio_cases msn_window_def)
  then have "unat (of_nat n :: u16) = n" by (simp add: unat_of_nat take_bit_nat_eq_self)
  then show "decode_forward_formal_pt0_msn c ((ctx_msn c + of_nat n) AND 0x0F) = Done (ctx_msn c + of_nat n)"
    using decode_forward_formal_msn_iff [OF assms(1), of 4] n assms(4)
    by (simp add: decode_forward_formal_pt0_msn_eq take_bit_eq_mask mask_eq_exp_minus_1)
qed (rule decode_forward_formal_pt0_msn_eq)

theorem forward_msn_exact_witness:
  "decode_forward_formal_msn (context_zero\<lparr>ctx_msn := 0xFFFA\<rparr>) 4 6 = Done 4 \<and>
   decode_forward_formal_pt0_msn (context_zero\<lparr>ctx_msn := 0xFFFA\<rparr>) 8 = Done 8"
  using forward_msn_exact [of "context_zero\<lparr>ctx_msn := 0xFFFA\<rparr>" 6 14 4 4]
  by (simp add: context_zero_def formal_pt0_forward_limit_def msn_window_def take_bit_eq_mask mask_eq_exp_minus_1)

text \<open>
  C26. The incremental checksum, fed with pseudo-header, UDP header and two pieces of payload of any lengths, accepts exactly
  the datagrams with a non-zero checksum field whose one's complement sum over all octets in a row comes out right.
\<close>

theorem udp_checksum_exact:
  assumes "length header = 28"
  shows "udp_checksum_valid header prefix payload =
    Done ((header ! 26 \<noteq> 0 \<or> header ! 27 \<noteq> 0) \<and>
      capi_ipv4_checksum (take 8 (drop 12 header) @ [0, 17, header ! 24, header ! 25] @ drop 20 header @ prefix @ payload) = 0)"
proof -
  have new: "ic_pending internet_checksum_new = []" "ic_sum internet_checksum_new = 0"
    by (simp_all add: ic_pending_def internet_checksum_new_def)
  show ?thesis
    using assms unfolding udp_checksum_valid_def checksum_zero_iff
    by (simp add: Let_def ic_valid_pending ic_add_pending [where rest = "[]", simplified] ic_add_pending new)
qed

theorem udp_checksum_exact_witness:
  "udp_checksum_valid [0, 0, 0, 0, 0, 0, 0, 0, 0, 0, 0, 0, 0, 0, 0, 0, 0, 0, 0, 0, 0, 0, 0, 0, 0, 0, 0xFF, 0xEE] [] [] = Done True"
proof -
  have "capi_ipv4_checksum [0, 0, 0, 0, 0, 0, 0, 0, 0, 17, 0, 0, 0, 0, 0, 0, 0, 0, 0xFF, 0xEE] = 0" by code_simp
  then show ?thesis using udp_checksum_exact [of "[0, 0, 0, 0, 0, 0, 0, 0, 0, 0, 0, 0, 0, 0, 0, 0, 0, 0, 0, 0, 0, 0, 0, 0, 0, 0, 0xFF, 0xEE]" "[]" "[]"] by simp
qed

end
