(* ===== verification/CApiState.thy ===== *)
theory CApiState
  imports CApiConfig CApiPredicates FeedbackWire
begin

text \<open>
  The objects behind the opaque handles of the C interface (\<open>rohccxx_internal::Compressor\<close> and \<open>Decompressor\<close> in
  \<open>c_api/rohc_c_api.cpp\<close>), their construction and configuration, segmentation of the compressor's output, feedback in both
  directions, and the operations of the link-layer assisted profile that do not compress. The mutex is not modelled: every
  exported function runs as one step. \<open>rohc_comp_free\<close> and \<open>rohc_decomp_free\<close> end the life of the object.
\<close>

section \<open>Model: the objects\<close>

datatype direction = Uplink | Downlink

definition segment_buffer_max :: nat where
  "segment_buffer_max = 4096"

definition segment_header_len :: nat where
  "segment_header_len = 2"

definition rohcoipsec_key_max :: nat where
  "rohcoipsec_key_max = 128"

record oipsec_settings =
  \<comment> \<open>the members \<open>rohcoipsec_*\<close> of both objects\<close>
  os_enabled :: bool
  os_algorithm :: u16
  os_key :: bytes  \<comment> \<open>128 octets\<close>
  os_key_len :: nat
  os_icv_len :: nat

record rohc_comp =
  comp_direction :: direction
  comp_mode :: mode
  comp_contexts :: context_table
  comp_current_cid :: u32
  comp_large_cid_space :: bool
  comp_mrru :: nat
  comp_pending_segment :: bytes  \<comment> \<open>4096 octets\<close>
  comp_pending_segment_len :: nat
  comp_pending_segment_pos :: nat
  comp_next_segment_sequence :: u16
  comp_oipsec :: oipsec_settings
  comp_lla_enabled :: bool
  comp_lla_contract :: assisting_layer_contract
  comp_lla_flow :: zero_byte_flow

record rohc_decomp =
  decomp_direction :: direction
  decomp_mode :: mode
  decomp_contexts :: context_table
  decomp_large_cid_space :: bool
  decomp_last_feedback :: feedback
  decomp_acknowledge_context_refresh :: bool
  decomp_has_feedback :: bool
  decomp_mrru :: nat
  decomp_reassembly_active :: bool
  decomp_reassembly :: bytes  \<comment> \<open>4096 octets\<close>
  decomp_reassembly_len :: nat
  decomp_expected_segment_sequence :: u16
  decomp_oipsec :: oipsec_settings
  decomp_lla_enabled :: bool
  decomp_lla_contract :: assisting_layer_contract
  decomp_lla_flow :: zero_byte_flow

definition oipsec_off :: oipsec_settings where
  "oipsec_off = \<lparr>os_enabled = False, os_algorithm = integrity_none, os_key = replicate rohcoipsec_key_max 0, os_key_len = 0, os_icv_len = 0\<rparr>"

definition capi_no_contract :: assisting_layer_contract where
  "capi_no_contract = \<lparr>lc_identifies_packet_types = False, lc_preserves_order = False, lc_reports_loss = False,
     lc_reports_residual_errors = False, lc_delivers_feedback = False, lc_protects_context_packets = False,
     lc_supports_context_synchronization = False, lc_supports_context_check = False, lc_supports_reliable_mode = False,
     lc_delivers_ack = False, lc_delivers_static_nack = False\<rparr>"

definition capi_no_flow :: zero_byte_flow where
  "capi_no_flow = \<lparr>zf_ipv4_udp_rtp = False, zf_udp_checksum_disabled = False, zf_rtp_sequence_increments_by_one = False,
     zf_compressor_observed_in_order = False, zf_synchronized_timing = False\<rparr>"

section \<open>Model: construction and configuration\<close>

definition rohc_comp_new2 :: "u32 \<Rightarrow> direction \<Rightarrow> rohc_comp option" where
  \<comment> \<open>\<open>None\<close> is the null pointer; allocations succeed\<close>
  "rohc_comp_new2 max_cid d =
     (if max_cid > large_cid_max then None
      else Some \<lparr>comp_direction = d, comp_mode = Optimistic, comp_contexts = context_table_init max_cid, comp_current_cid = 0,
        comp_large_cid_space = (max_cid > small_cid_max), comp_mrru = 0, comp_pending_segment = replicate segment_buffer_max 0,
        comp_pending_segment_len = 0, comp_pending_segment_pos = 0, comp_next_segment_sequence = 0, comp_oipsec = oipsec_off,
        comp_lla_enabled = False, comp_lla_contract = capi_no_contract, comp_lla_flow = capi_no_flow\<rparr>)"

definition rohc_decomp_new2 :: "u32 \<Rightarrow> direction \<Rightarrow> rohc_decomp option" where
  "rohc_decomp_new2 max_cid d =
     (if max_cid > large_cid_max then None
      else Some \<lparr>decomp_direction = d, decomp_mode = Optimistic, decomp_contexts = context_table_init max_cid,
        decomp_large_cid_space = (max_cid > small_cid_max), decomp_last_feedback = feedback_init,
        decomp_acknowledge_context_refresh = False, decomp_has_feedback = False, decomp_mrru = 0,
        decomp_reassembly_active = False, decomp_reassembly = replicate segment_buffer_max 0, decomp_reassembly_len = 0,
        decomp_expected_segment_sequence = 0, decomp_oipsec = oipsec_off, decomp_lla_enabled = False,
        decomp_lla_contract = capi_no_contract, decomp_lla_flow = capi_no_flow\<rparr>)"

definition c_mode_to_core :: "nat \<Rightarrow> mode option" where
  "c_mode_to_core m = (if m = 0 then Some ModeUncompressed else if m = 1 then Some Optimistic else if m = 2 then Some Reliable else None)"

definition core_mode_to_c :: "mode \<Rightarrow> nat" where
  "core_mode_to_c m = (case m of ModeUncompressed \<Rightarrow> 0 | Reliable \<Rightarrow> 2 | Optimistic \<Rightarrow> 1)"

definition update_entry :: "context_table \<Rightarrow> u32 \<Rightarrow> (rohc_context \<Rightarrow> rohc_context) \<Rightarrow> (bool \<times> context_table) res" where
  \<comment> \<open>\<open>if(Context* ctx = contexts.get(cid)) *ctx = f(*ctx);\<close> and whether there was an entry\<close>
  "update_entry t cid f =
     seq_res (context_table_get t cid) (\<lambda>p. case p of
       None \<Rightarrow> Done (False, t)
     | Some i \<Rightarrow> Done (True, context_table_set t i (f (context_table_entry t i))))"

definition rohc_comp_set_mode :: "rohc_comp \<Rightarrow> nat \<Rightarrow> (int \<times> rohc_comp) res" where
  "rohc_comp_set_mode c m =
     (case c_mode_to_core m of
        None \<Rightarrow> Done (- 1, c)
      | Some core_mode \<Rightarrow>
          seq_res (update_entry (comp_contexts c) (comp_current_cid c) (\<lambda>ctx. ctx\<lparr>ctx_mode := core_mode\<rparr>)) (\<lambda>(_, t).
          Done (0, c\<lparr>comp_mode := core_mode, comp_contexts := t\<rparr>)))"

definition rohc_comp_get_mode :: "rohc_comp \<Rightarrow> nat" where
  "rohc_comp_get_mode c = core_mode_to_c (comp_mode c)"

definition rohc_decomp_set_mode :: "rohc_decomp \<Rightarrow> nat \<Rightarrow> int \<times> rohc_decomp" where
  "rohc_decomp_set_mode d m = (case c_mode_to_core m of None \<Rightarrow> (- 1, d) | Some core_mode \<Rightarrow> (0, d\<lparr>decomp_mode := core_mode\<rparr>))"

definition rohc_decomp_get_mode :: "rohc_decomp \<Rightarrow> nat" where
  "rohc_decomp_get_mode d = core_mode_to_c (decomp_mode d)"

definition rohc_decomp_set_context_refresh_ack_enabled :: "rohc_decomp \<Rightarrow> int \<Rightarrow> rohc_decomp" where
  "rohc_decomp_set_context_refresh_ack_enabled d enabled = d\<lparr>decomp_acknowledge_context_refresh := (enabled \<noteq> 0)\<rparr>"

definition rohc_comp_set_cid :: "rohc_comp \<Rightarrow> u32 \<Rightarrow> int \<times> rohc_comp" where
  "rohc_comp_set_cid c cid =
     (if cid > ct_max_cid (comp_contexts c) \<or> \<not> comp_large_cid_space c \<and> cid > small_cid_max \<or>
         comp_large_cid_space c \<and> cid > large_cid_max then (- 1, c)
      else (0, c\<lparr>comp_current_cid := cid\<rparr>))"

definition configure_rohcoipsec :: "oipsec_settings \<Rightarrow> u16 \<Rightarrow> bytes \<Rightarrow> nat \<Rightarrow> oipsec_settings option" where
  "configure_rohcoipsec s requested_algorithm key requested_icv_len =
     (if length key > rohcoipsec_key_max then None
      else let full_len = digest_len requested_algorithm; none = (requested_algorithm = integrity_none) in
        if \<not> none \<and> (full_len = 0 \<or> requested_icv_len = 0 \<or> requested_icv_len > full_len \<or> length key = 0) then None
        else Some \<lparr>os_enabled = True, os_algorithm = requested_algorithm, os_key = key @ replicate (rohcoipsec_key_max - length key) 0,
               os_key_len = length key, os_icv_len = (if none then 0 else requested_icv_len)\<rparr>)"

definition rohc_comp_set_rohcoipsec_integrity :: "rohc_comp \<Rightarrow> u16 \<Rightarrow> bytes \<Rightarrow> nat \<Rightarrow> int \<times> rohc_comp" where
  "rohc_comp_set_rohcoipsec_integrity c algorithm key icv_len =
     (case configure_rohcoipsec (comp_oipsec c) algorithm key icv_len of None \<Rightarrow> (- 1, c) | Some s \<Rightarrow> (0, c\<lparr>comp_oipsec := s\<rparr>))"

definition rohc_comp_enable_rohcoipsec :: "rohc_comp \<Rightarrow> int \<times> rohc_comp" where
  "rohc_comp_enable_rohcoipsec c =
     (case configure_rohcoipsec (comp_oipsec c) integrity_none [] 0 of None \<Rightarrow> (- 1, c) | Some s \<Rightarrow> (0, c\<lparr>comp_oipsec := s\<rparr>))"

definition rohc_comp_set_mrru :: "rohc_comp \<Rightarrow> nat \<Rightarrow> int \<times> rohc_comp" where
  "rohc_comp_set_mrru c mrru = (if mrru > segment_buffer_max then (- 1, c) else (0, c\<lparr>comp_mrru := mrru\<rparr>))"

definition rohc_comp_apply_rohcoipsec_sa :: "rohc_comp \<Rightarrow> rohccxx_rohcoipsec_sa \<Rightarrow> (int \<times> rohc_comp) res" where
  \<comment> \<open>\<open>configure_rohcoipsec\<close> rejects a longer key before it is read\<close>
  "rohc_comp_apply_rohcoipsec_sa c sa =
     (if sa_key_len sa > rohcoipsec_key_max then Done (- 1, c)
      else copy_in (sa_key sa) 0 (sa_key_len sa) (\<lambda>key.
       let (rc, c) = rohc_comp_set_rohcoipsec_integrity c (sa_integrity_algorithm sa) key (unat (sa_icv_len sa)) in
       if rc \<noteq> 0 then Done (- 1, c)
       else if sa_has_mrru sa \<noteq> 0 then
         let (rc, c) = rohc_comp_set_mrru c (unat (sa_mrru sa)) in if rc \<noteq> 0 then Done (- 1, c) else Done (0, c)
       else Done (0, c)))"

definition rohc_comp_rohcoipsec_next_header :: "rohc_comp \<Rightarrow> byte" where
  "rohc_comp_rohcoipsec_next_header c = (if os_enabled (comp_oipsec c) then rohc_protocol_number else 0)"

definition rohc_decomp_set_rohcoipsec_integrity :: "rohc_decomp \<Rightarrow> u16 \<Rightarrow> bytes \<Rightarrow> nat \<Rightarrow> int \<times> rohc_decomp" where
  "rohc_decomp_set_rohcoipsec_integrity d algorithm key icv_len =
     (case configure_rohcoipsec (decomp_oipsec d) algorithm key icv_len of None \<Rightarrow> (- 1, d) | Some s \<Rightarrow> (0, d\<lparr>decomp_oipsec := s\<rparr>))"

definition rohc_decomp_enable_rohcoipsec :: "rohc_decomp \<Rightarrow> int \<times> rohc_decomp" where
  "rohc_decomp_enable_rohcoipsec d =
     (case configure_rohcoipsec (decomp_oipsec d) integrity_none [] 0 of None \<Rightarrow> (- 1, d) | Some s \<Rightarrow> (0, d\<lparr>decomp_oipsec := s\<rparr>))"

definition rohc_decomp_set_mrru :: "rohc_decomp \<Rightarrow> nat \<Rightarrow> int \<times> rohc_decomp" where
  "rohc_decomp_set_mrru d mrru = (if mrru > segment_buffer_max then (- 1, d) else (0, d\<lparr>decomp_mrru := mrru\<rparr>))"

definition rohc_decomp_apply_rohcoipsec_sa :: "rohc_decomp \<Rightarrow> rohccxx_rohcoipsec_sa \<Rightarrow> (int \<times> rohc_decomp) res" where
  \<comment> \<open>\<open>configure_rohcoipsec\<close> rejects a longer key before it is read\<close>
  "rohc_decomp_apply_rohcoipsec_sa d sa =
     (if sa_key_len sa > rohcoipsec_key_max then Done (- 1, d)
      else copy_in (sa_key sa) 0 (sa_key_len sa) (\<lambda>key.
       let (rc, d) = rohc_decomp_set_rohcoipsec_integrity d (sa_integrity_algorithm sa) key (unat (sa_icv_len sa)) in
       if rc \<noteq> 0 then Done (- 1, d)
       else if sa_has_mrru sa \<noteq> 0 then
         let (rc, d) = rohc_decomp_set_mrru d (unat (sa_mrru sa)) in if rc \<noteq> 0 then Done (- 1, d) else Done (0, d)
       else Done (0, d)))"

definition rohc_decomp_rohcoipsec_requires_decompression :: "rohc_decomp \<Rightarrow> byte \<Rightarrow> int" where
  "rohc_decomp_rohcoipsec_requires_decompression d next_header =
     (if os_enabled (decomp_oipsec d) \<and> is_rohc_next_header next_header then 1 else 0)"

definition rohc_comp_enable_rfc4362_lla :: "rohc_comp \<Rightarrow> rohccxx_lla_contract \<Rightarrow> rohccxx_lla_flow \<Rightarrow> int \<times> rohc_comp" where
  "rohc_comp_enable_rfc4362_lla c contract flow =
     (let core_contract = c_lla_contract_to_core contract; core_flow = c_lla_flow_to_core flow in
      if \<not> capi_lla_runtime_contract_valid core_contract core_flow then (- 1, c)
      else (0, c\<lparr>comp_lla_contract := core_contract, comp_lla_flow := core_flow, comp_lla_enabled := True\<rparr>))"

definition rohc_decomp_enable_rfc4362_lla :: "rohc_decomp \<Rightarrow> rohccxx_lla_contract \<Rightarrow> rohccxx_lla_flow \<Rightarrow> int \<times> rohc_decomp" where
  "rohc_decomp_enable_rfc4362_lla d contract flow =
     (let core_contract = c_lla_contract_to_core contract; core_flow = c_lla_flow_to_core flow in
      if \<not> capi_lla_runtime_contract_valid core_contract core_flow then (- 1, d)
      else (0, d\<lparr>decomp_lla_contract := core_contract, decomp_lla_flow := core_flow, decomp_lla_enabled := True\<rparr>))"

section \<open>Model: segments of the compressor's output\<close>

definition write_next_segment :: "rohc_comp \<Rightarrow> nat \<Rightarrow> (bytes option \<times> rohc_comp) res" where
  \<comment> \<open>\<open>None\<close> is the result false\<close>
  "write_next_segment c capacity =
     (if capacity \<le> segment_header_len \<or> comp_pending_segment_pos c \<ge> comp_pending_segment_len c then Done (None, c)
      else let payload_capacity = capacity - segment_header_len;
               remaining = comp_pending_segment_len c - comp_pending_segment_pos c;
               payload_len = (if remaining < payload_capacity then remaining else payload_capacity);
               final = (payload_len = remaining);
               segment = \<lparr>seg_final = final, seg_sequence = comp_next_segment_sequence c\<rparr>;
               c = c\<lparr>comp_next_segment_sequence := comp_next_segment_sequence c + 1\<rparr> in
        copy_in (comp_pending_segment c) (comp_pending_segment_pos c) payload_len (\<lambda>payload.
        case write_segment_packet capacity segment payload of
          Fault \<Rightarrow> Fault
        | Reject \<Rightarrow> Done (None, c)
        | Done out \<Rightarrow> Done (Some out,
            if final then c\<lparr>comp_pending_segment_len := 0, comp_pending_segment_pos := 0\<rparr>
            else c\<lparr>comp_pending_segment_pos := comp_pending_segment_pos c + payload_len\<rparr>)))"

definition rohc_comp_has_segment :: "rohc_comp \<Rightarrow> int" where
  "rohc_comp_has_segment c = (if comp_pending_segment_pos c < comp_pending_segment_len c then 1 else 0)"

definition rohc_comp_get_segment :: "rohc_comp \<Rightarrow> nat \<Rightarrow> (bytes option \<times> rohc_comp) res" where
  "rohc_comp_get_segment c capacity = write_next_segment c capacity"

section \<open>Model: feedback to the compressor\<close>

definition feedback_type_of :: "byte \<Rightarrow> feedback_type option" where
  \<comment> \<open>\<open>static_cast<FeedbackType>\<close>; the fourth value has no name\<close>
  "feedback_type_of b = (if b = 0 then Some NACK else if b = 1 then Some STATIC_NACK else if b = 2 then Some ACK else None)"

definition feedback_type_code :: "feedback_type \<Rightarrow> byte" where
  "feedback_type_code t = (case t of NACK \<Rightarrow> 0 | STATIC_NACK \<Rightarrow> 1 | ACK \<Rightarrow> 2)"

definition rohc_comp_handle_feedback :: "rohc_comp \<Rightarrow> u32 \<Rightarrow> byte \<Rightarrow> rohc_comp res" where
  "rohc_comp_handle_feedback c cid fb_code =
     (if \<not> is_known_feedback_type fb_code then Done c
      else case feedback_type_of (fb_code AND 0x03) of
        None \<Rightarrow> Done c
      | Some t \<Rightarrow>
          seq_res (update_entry (comp_contexts c) cid
            (\<lambda>ctx. apply_feedback_to_context ctx (feedback_init\<lparr>fb_cid := cid, fb_type := t\<rparr>))) (\<lambda>(_, t).
          Done (c\<lparr>comp_contexts := t\<rparr>)))"

lemma read_feedback_sized_end:
  assumes "pos \<le> length inp" and "read_feedback_sized inp want pos n = Done (fb, m)"
  shows "m = pos + n \<and> 0 < n"
proof -
  have n: "n \<noteq> 0" "\<not> szsub (length inp) pos < n"
    using assms(2) by (auto simp: read_feedback_sized_def split: if_splits)
  then have le: "pos + n \<le> length inp" "pos < length inp" using assms(1) by auto
  have "length (fb_options (feedback_init\<lparr>fb_cid := c\<rparr>)) = 4" "length (fb_options feedback_init) = 4" for c
    by (simp_all add: feedback_init_def)
  note d = this [THEN read_feedback_data_safe [OF le(1), rotated]]
  have "ends_at (pos + n) (read_feedback_sized inp want pos n)"
    using n le d unfolding read_feedback_sized_def Let_def rd_in [OF le(2)] by simp
  then show ?thesis using assms(2) n(1) by simp
qed

lemma read_feedback_prefix_progress:
  assumes "read_feedback_prefix inp = Done (fb, n)"
  shows "0 < n \<and> n \<le> length inp"
proof -
  have "n \<le> length inp" using read_feedback_packet_safe [of inp True] assms by (simp add: read_feedback_prefix_def)
  moreover have "2 \<le> length inp" using assms by (auto simp: read_feedback_prefix_def read_feedback_packet_def split: if_splits)
  then have i: "0 < length inp" "1 < length inp" by linarith+
  have "(\<exists>k. read_feedback_sized inp True 1 k = Done (fb, n)) \<or> (\<exists>k. read_feedback_sized inp True 2 k = Done (fb, n))"
    using assms unfolding read_feedback_prefix_def read_feedback_packet_def Let_def rd_in [OF i(1)] rd_in [OF i(2)]
    by (auto split: if_splits)
  then have "0 < n"
    using read_feedback_sized_end [of 1 inp True _ fb n] read_feedback_sized_end [of 2 inp True _ fb n] \<open>2 \<le> length inp\<close> by auto
  ultimately show ?thesis by simp
qed

function deliver_feedback_loop :: "rohc_comp \<Rightarrow> bytes \<Rightarrow> nat \<Rightarrow> bool \<Rightarrow> (int \<times> rohc_comp) res" where
  "deliver_feedback_loop c packet pos delivered =
     (if pos < length packet \<and> is_feedback_packet_start (packet ! pos) then
        case read_feedback_prefix (drop pos packet) of
          Fault \<Rightarrow> Fault
        | Reject \<Rightarrow> Done (- 1, c)
        | Done (fb, consumed) \<Rightarrow>
            let c = (if fb_has_mode fb then c\<lparr>comp_mode := fb_mode fb\<rparr> else c) in
            seq_res (update_entry (comp_contexts c) (fb_cid fb) (\<lambda>ctx. apply_feedback_to_context ctx fb)) (\<lambda>(found, t).
              deliver_feedback_loop (c\<lparr>comp_contexts := t\<rparr>) packet (pos + consumed) (delivered \<or> found \<or> fb_has_mode fb))
      else Done (if delivered then 0 else - 1, c))"
  by pat_completeness auto

termination
  by (relation "measure (\<lambda>(c, packet, pos, d). length packet - pos)") (auto dest: read_feedback_prefix_progress)

declare deliver_feedback_loop.simps [simp del]

definition rohc_comp_deliver_feedback_packet :: "rohc_comp \<Rightarrow> bytes \<Rightarrow> (int \<times> rohc_comp) res" where
  "rohc_comp_deliver_feedback_packet c packet = (if packet = [] then Done (- 1, c) else deliver_feedback_loop c packet 0 False)"

record rohccxx_feedback_v1 =
  fv_api_version :: u32
  fv_struct_size :: nat
  fv_channel :: direction
  fv_cid :: u32
  fv_feedback_type :: byte
  fv_acknowledgment_number :: u16
  fv_acknowledgment_bits :: byte
  fv_acknowledgment_valid :: int
  fv_crc_present :: int
  fv_crc_valid :: int
  fv_raw_len :: nat
  fv_raw :: bytes  \<comment> \<open>260 octets\<close>

definition feedback_v1_size :: nat where
  \<comment> \<open>\<open>sizeof(rohccxx_feedback_v1_t)\<close> with 64-bit \<open>size_t\<close>\<close>
  "feedback_v1_size = 320"

definition feedback_v1_header_valid :: "rohccxx_feedback_v1 \<Rightarrow> bool" where
  "feedback_v1_header_valid fv \<longleftrightarrow> fv_api_version fv = 1 \<and> fv_struct_size fv \<ge> feedback_v1_size"

definition feedback_v1_of :: "direction \<Rightarrow> feedback \<Rightarrow> int \<Rightarrow> int \<Rightarrow> bytes \<Rightarrow> rohccxx_feedback_v1" where
  \<comment> \<open>the assignments that \<open>feedback_core_to_c\<close> and \<open>rohc_feedback_parse_v1\<close> share\<close>
  "feedback_v1_of channel core crc_present crc_valid raw =
     \<lparr>fv_api_version = 1, fv_struct_size = feedback_v1_size, fv_channel = channel, fv_cid = fb_cid core,
      fv_feedback_type = feedback_type_code (fb_type core), fv_acknowledgment_number = fb_acknowledgment_number core,
      fv_acknowledgment_bits = fb_acknowledgment_bits core,
      fv_acknowledgment_valid = (if fb_acknowledgment_valid core then 1 else 0), fv_crc_present = crc_present,
      fv_crc_valid = crc_valid, fv_raw_len = length raw, fv_raw = raw @ replicate (260 - length raw) 0\<rparr>"

definition feedback_core_to_c :: "direction \<Rightarrow> feedback \<Rightarrow> (feedback_status \<times> rohccxx_feedback_v1) res" where
  "feedback_core_to_c channel core =
     (case write_feedback2_v1 260 core of
        Fault \<Rightarrow> Fault
      | Reject \<Rightarrow> Done (Unsupported, feedback_v1_of channel core 1 0 [])
      | Done raw \<Rightarrow> Done (Accepted, feedback_v1_of channel core 1 1 raw))"

definition rohc_feedback_parse_v1 :: "direction \<Rightarrow> bytes \<Rightarrow> (feedback_status \<times> rohccxx_feedback_v1 option) res" where
  \<comment> \<open>the second component is \<open>*feedback\<close> when it is assigned\<close>
  "rohc_feedback_parse_v1 channel packet =
     (if length packet = 0 \<or> length packet > 260 then Done (Malformed, None)
      else seq_res (read_feedback2_v1 packet False) (\<lambda>(status, core, _).
        Done (status, Some (feedback_v1_of channel core (if fb_crc_present core then 1 else 0)
          (if fb_crc_valid core then 1 else 0) packet))))"

definition feedback_v1_agrees :: "rohccxx_feedback_v1 \<Rightarrow> rohccxx_feedback_v1 \<Rightarrow> bool" where
  "feedback_v1_agrees parsed fv \<longleftrightarrow>
     fv_cid parsed = fv_cid fv \<and> fv_feedback_type parsed = fv_feedback_type fv \<and>
     fv_acknowledgment_number parsed = fv_acknowledgment_number fv \<and> fv_acknowledgment_bits parsed = fv_acknowledgment_bits fv \<and>
     fv_acknowledgment_valid parsed = fv_acknowledgment_valid fv \<and> fv_crc_present parsed = fv_crc_present fv \<and>
     fv_crc_valid parsed = fv_crc_valid fv"

definition deliver_correlated :: "rohc_comp \<Rightarrow> rohccxx_feedback_v1 \<Rightarrow> bytes \<Rightarrow> (feedback_status \<times> rohc_comp) res" where
  \<comment> \<open>correlation of the acknowledgment with a transmission, and its effect\<close>
  "deliver_correlated c parsed raw =
     seq_res (context_table_get (comp_contexts c) (fv_cid parsed)) (\<lambda>p. case p of
       None \<Rightarrow> Done (Uncorrelated, c)
     | Some i \<Rightarrow> let ctx = context_table_entry (comp_contexts c) i in
         seq_res (transmitted_msn_revision ctx (fv_acknowledgment_number parsed) (fv_acknowledgment_bits parsed)) (\<lambda>m. case m of
           None \<Rightarrow> Done (Stale, c)
         | Some (acknowledged_revision, acknowledged_msn) \<Rightarrow>
             if acknowledged_revision \<noteq> ctx_context_revision ctx then Done (Stale, c)
             else let context_distance = ctx_msn ctx - acknowledged_msn in
               if profile_uses_formal_pt0 (ctx_profile ctx) \<and> context_distance > ucast (formal_pt0_forward_limit ctx) then Done (Stale, c)
               else seq_res (read_feedback2_v1 raw False) (\<lambda>(core_status, core, _).
                 if core_status \<noteq> Accepted then Done (core_status, c)
                 else Done (Accepted, c\<lparr>comp_contexts := context_table_set (comp_contexts c) i
                   (apply_feedback_to_context ctx (core\<lparr>fb_acknowledged_context_revision := acknowledged_revision,
                      fb_context_revision_valid := True, fb_acknowledged_context_distance := context_distance,
                      fb_context_distance_valid := True\<rparr>))\<rparr>))))"

definition rohc_comp_deliver_feedback_v1 :: "rohc_comp \<Rightarrow> rohccxx_feedback_v1 \<Rightarrow> (feedback_status \<times> rohc_comp) res" where
  "rohc_comp_deliver_feedback_v1 c fv =
     (if \<not> feedback_v1_header_valid fv \<or> fv_raw_len fv = 0 \<or> fv_raw_len fv > 260 then Done (Malformed, c)
      else if fv_channel fv \<noteq> comp_direction c then Done (Uncorrelated, c)
      else copy_in (fv_raw fv) 0 (fv_raw_len fv) (\<lambda>raw.
        seq_res (rohc_feedback_parse_v1 (fv_channel fv) raw) (\<lambda>(parse_status, out).
          case out of None \<Rightarrow> Done (parse_status, c)
          | Some parsed \<Rightarrow>
              if parse_status \<noteq> Accepted then Done (parse_status, c)
              else if \<not> feedback_v1_agrees parsed fv then Done (Malformed, c)
              else if fv_acknowledgment_valid parsed = 0 then Done (Uncorrelated, c)
              else deliver_correlated c parsed raw)))"

section \<open>Model: feedback from the decompressor\<close>

definition set_feedback :: "rohc_decomp \<Rightarrow> u32 \<Rightarrow> feedback_type \<Rightarrow> rohc_decomp res" where
  "set_feedback d cid t =
     seq_res (context_table_get (decomp_contexts d) cid) (\<lambda>p.
       let fb = feedback_init\<lparr>fb_cid := cid, fb_type := t\<rparr>;
           fb = (case p of None \<Rightarrow> fb | Some i \<Rightarrow> fb\<lparr>fb_acknowledgment_number := ctx_msn (context_table_entry (decomp_contexts d) i),
                  fb_acknowledgment_bits := 14, fb_acknowledgment_valid := True\<rparr>) in
       Done (d\<lparr>decomp_last_feedback := fb, decomp_has_feedback := True\<rparr>))"

definition rohc_decomp_has_feedback :: "rohc_decomp \<Rightarrow> int" where
  "rohc_decomp_has_feedback d = (if decomp_has_feedback d then 1 else 0)"

definition rohc_decomp_get_feedback :: "rohc_decomp \<Rightarrow> (u32 \<times> byte) option" where
  "rohc_decomp_get_feedback d =
     (if \<not> decomp_has_feedback d then None
      else Some (fb_cid (decomp_last_feedback d), feedback_type_code (fb_type (decomp_last_feedback d))))"

definition rohc_decomp_get_feedback_v1 :: "rohc_decomp \<Rightarrow> (feedback_status \<times> rohccxx_feedback_v1 option) res" where
  "rohc_decomp_get_feedback_v1 d =
     (if \<not> decomp_has_feedback d then Done (Uncorrelated, None)
      else seq_res (feedback_core_to_c (decomp_direction d) (decomp_last_feedback d)) (\<lambda>(s, fv). Done (s, Some fv)))"

section \<open>Model: link-layer assistance\<close>

definition capi_lla_context_established :: "rohc_context \<Rightarrow> bool" where
  "capi_lla_context_established ctx \<longleftrightarrow> (ctx_profile ctx = RTP \<or> ctx_profile ctx = LLA_RTP) \<and> ctx_rohc_state ctx \<noteq> NoContext"

definition capi_lla_context_ready :: "rohc_context \<Rightarrow> bool" where
  "capi_lla_context_ready ctx \<longleftrightarrow> capi_lla_context_established ctx \<and> ctx_rohc_state ctx = DynamicEstablished"

definition capi_nhp_advance :: "rohc_context \<Rightarrow> rohc_context" where
  "capi_nhp_advance ctx =
     ctx\<lparr>ctx_ipv4_id := (if ctx_ip_version ctx = 4 \<and> ctx_ipv4_id_sequential ctx then ctx_ipv4_id ctx + 1 else ctx_ipv4_id ctx),
         ctx_rtp := (ctx_rtp ctx)\<lparr>rtp_last_seq := rtp_last_seq (ctx_rtp ctx) + 1,
           rtp_last_ts := rtp_last_ts (ctx_rtp ctx) + (if rtp_ts_stride (ctx_rtp ctx) \<noteq> 0 then rtp_ts_stride (ctx_rtp ctx) else 160)\<rparr>\<rparr>"

definition rohc_comp_rfc4362_emit_ccp :: "rohc_comp \<Rightarrow> nat \<Rightarrow> bytes res" where
  "rohc_comp_rfc4362_emit_ccp c cap =
     (if \<not> comp_lla_enabled c \<or> \<not> can_emit_context_check_packet (comp_lla_contract c) then Reject
      else seq_res (context_table_get (comp_contexts c) (comp_current_cid c)) (\<lambda>p. case p of
        None \<Rightarrow> Reject
      | Some i \<Rightarrow> let ctx = context_table_entry (comp_contexts c) i in
          if \<not> capi_lla_context_established ctx then Reject
          else seq_res (context_crc7 ctx) (\<lambda>crc. write_context_check_packet cap \<lparr>ccp_has_crc = True, ccp_crc7 = crc\<rparr>)))"

definition rohc_decomp_rfc4362_receive_nhp_for_cid :: "rohc_decomp \<Rightarrow> u32 \<Rightarrow> bytes \<Rightarrow> nat \<Rightarrow> (bytes option \<times> rohc_decomp) res" where
  "rohc_decomp_rfc4362_receive_nhp_for_cid d cid payload cap =
     (if \<not> decomp_lla_enabled d \<or> \<not> can_emit_no_header_packet_for_flow (decomp_lla_contract d) (decomp_lla_flow d) then Done (None, d)
      else seq_res (context_table_get (decomp_contexts d) cid) (\<lambda>p. case p of
        None \<Rightarrow> Done (None, d)
      | Some i \<Rightarrow> if \<not> capi_lla_context_ready (context_table_entry (decomp_contexts d) i) then Done (None, d)
          else let ctx = capi_nhp_advance (context_table_entry (decomp_contexts d) i);
                   d = d\<lparr>decomp_contexts := context_table_set (decomp_contexts d) i ctx\<rparr> in
            case rebuild_rtp cap ctx payload of
              Fault \<Rightarrow> Fault
            | Reject \<Rightarrow> seq_res (set_feedback d (ctx_cid ctx) NACK) (\<lambda>d. Done (None, d))
            | Done out \<Rightarrow> Done (Some out, d\<lparr>decomp_has_feedback := False\<rparr>)))"

definition rohc_decomp_rfc4362_receive_nhp :: "rohc_decomp \<Rightarrow> bytes \<Rightarrow> nat \<Rightarrow> (bytes option \<times> rohc_decomp) res" where
  "rohc_decomp_rfc4362_receive_nhp d payload cap = rohc_decomp_rfc4362_receive_nhp_for_cid d 0 payload cap"

definition rohc_decomp_rfc4362_receive_ccp_for_cid :: "rohc_decomp \<Rightarrow> u32 \<Rightarrow> bytes \<Rightarrow> (int \<times> rohc_decomp) res" where
  "rohc_decomp_rfc4362_receive_ccp_for_cid d cid ccp_packet =
     (if \<not> decomp_lla_enabled d \<or> \<not> can_emit_context_check_packet (decomp_lla_contract d) then Done (- 1, d)
      else let nack = (\<lambda>c t. seq_res (set_feedback d c t) (\<lambda>d. Done (- 1, d))) in
        case read_context_check_packet ccp_packet of
          Fault \<Rightarrow> Fault
        | Reject \<Rightarrow> nack cid NACK
        | Done ccp \<Rightarrow>
            if \<not> ccp_has_crc ccp then nack cid NACK
            else seq_res (context_table_get (decomp_contexts d) cid) (\<lambda>p. case p of
              None \<Rightarrow> nack cid STATIC_NACK
            | Some i \<Rightarrow> let ctx = context_table_entry (decomp_contexts d) i in
                if \<not> capi_lla_context_established ctx then nack cid STATIC_NACK
                else seq_res (context_crc7 ctx) (\<lambda>crc.
                  if ccp_crc7 ccp \<noteq> crc then nack (ctx_cid ctx) STATIC_NACK
                  else Done (0, d\<lparr>decomp_has_feedback := False\<rparr>))))"

definition rohc_decomp_rfc4362_receive_ccp :: "rohc_decomp \<Rightarrow> bytes \<Rightarrow> (int \<times> rohc_decomp) res" where
  "rohc_decomp_rfc4362_receive_ccp d ccp_packet = rohc_decomp_rfc4362_receive_ccp_for_cid d 0 ccp_packet"

definition rohc_decomp_rfc4362_report_loss :: "rohc_decomp \<Rightarrow> u32 \<Rightarrow> (int \<times> rohc_decomp) res" where
  "rohc_decomp_rfc4362_report_loss d cid =
     (if \<not> decomp_lla_enabled d \<or> \<not> lc_reports_loss (decomp_lla_contract d) then Done (- 1, d)
      else seq_res (set_feedback d cid NACK) (\<lambda>d. Done (0, d)))"

definition rohc_decomp_rfc4362_report_residual_error :: "rohc_decomp \<Rightarrow> u32 \<Rightarrow> (int \<times> rohc_decomp) res" where
  "rohc_decomp_rfc4362_report_residual_error d cid =
     (if \<not> decomp_lla_enabled d \<or> \<not> lc_reports_residual_errors (decomp_lla_contract d) then Done (- 1, d)
      else seq_res (set_feedback d cid STATIC_NACK) (\<lambda>d. Done (0, d)))"

end
