(* ===== verification/CApiCompress.thy ===== *)
theory CApiCompress
  imports CApiState IrEmit
begin

text \<open>
  \<open>rohc_compress4\<close> and the operations of the C interface that call it (\<open>c_api/rohc_c_api.cpp\<close>). The inner part, which the
  source runs with \<open>suppress_segmentation\<close> set, works on the context of the current CID: it returns the packet, or \<open>None\<close>
  for -1, together with the context as the call leaves it. A failing call does not undo its changes of the context, so
  the context after a failure is part of the model. The debugging output is left out.
\<close>

section \<open>Model: capturing the headers\<close>

definition or_none :: "'a res \<Rightarrow> 'a option res" where
  \<comment> \<open>a parser whose result is only stored\<close>
  "or_none r = (case r of Done x \<Rightarrow> Done (Some x) | Reject \<Rightarrow> Done None | Fault \<Rightarrow> Fault)"

type_synonym compressed = "(bytes option \<times> rohc_context) res"

definition or_fail :: "'a res \<Rightarrow> rohc_context \<Rightarrow> ('a \<Rightarrow> compressed) \<Rightarrow> compressed" where
  \<comment> \<open>\<open>if(!r) return -1;\<close> with the context \<open>ctx\<close>\<close>
  "or_fail r ctx k = (case r of Done x \<Rightarrow> k x | Reject \<Rightarrow> Done (None, ctx) | Fault \<Rightarrow> Fault)"

definition capture_ip_partial :: "rohc_context \<Rightarrow> parsed_ip_view \<Rightarrow> rohc_context" where
  \<comment> \<open>what \<open>capture_ip_context\<close> has assigned when it returns false\<close>
  "capture_ip_partial ctx v =
     (let ctx = ctx\<lparr>ctx_ip_version := (if pv_is_ipv6 v then 6 else 4), ctx_ipv4_protocol := pv_terminal_protocol v,
          ctx_ipv4_options_len := 0, ctx_ipv4_options := replicate 40 0, ctx_ipv6_extension_len := 0,
          ctx_ipv6_extensions := replicate 128 0\<rparr> in
      if \<not> pv_is_ipv6 v then case pv_ip4 v of None \<Rightarrow> ctx | Some ip \<Rightarrow> capture_ipv4_fields ctx ip
      else case pv_ip6 v of None \<Rightarrow> ctx | Some ip \<Rightarrow> capture_ipv6_fields ctx ip)"

definition capture_rtp_partial :: "rohc_context \<Rightarrow> bytes \<Rightarrow> rohc_context" where
  \<comment> \<open>what \<open>capture_rtp_context\<close> has assigned when it returns false\<close>
  "capture_rtp_partial ctx q =
     (if length q < 12 then ctx
      else let r = (ctx_rtp ctx)\<lparr>rtp_csrc_list_len := 0, rtp_csrc_list := replicate 60 0, rtp_extension_len := 0,
          rtp_extension_bytes := replicate 256 0, rtp_padding_len := 0, rtp_padding_bytes := replicate 255 0\<rparr> in
        ctx\<lparr>ctx_rtp := (case capture_csrc r q (unat (q ! 0 AND 0x0F) * 4) of
            Done (r1, pos) \<Rightarrow> (case capture_rtp_extension r1 q pos of
                Done (r2, pos) \<Rightarrow> (case capture_rtp_padding r2 q pos of Done (r3, _) \<Rightarrow> r3 | _ \<Rightarrow> r2)
              | _ \<Rightarrow> r1)
          | _ \<Rightarrow> r)\<rparr>)"

definition note_behavior_change :: "bool \<Rightarrow> rohc_context \<Rightarrow> rohc_context" where
  \<comment> \<open>a change that compact packets cannot carry starts a new revision of a replaced profile\<close>
  "note_behavior_change changed ctx =
     (if ctx_profile_replacement_active ctx \<and> changed \<and> \<not> ctx_profile_replacement_pending ctx
      then ctx\<lparr>ctx_context_revision := ctx_context_revision ctx + 1, ctx_profile_replacement_pending := True\<rparr> else ctx)"

definition capture_rtp_flow :: "profile \<Rightarrow> mode \<Rightarrow> rohc_context \<Rightarrow> bytes \<Rightarrow> parsed_ip_view \<Rightarrow> udp_header \<Rightarrow> rtp_header \<Rightarrow>
    (rohc_context \<Rightarrow> bool \<Rightarrow> nat \<Rightarrow> nat \<Rightarrow> compressed) \<Rightarrow> compressed" where
  \<comment> \<open>the statements the branches of RTP and RTP over UDP-Lite share, up to the choice of the packet format\<close>
  "capture_rtp_flow profile md ctx packet v udp rtp k =
     (let ctx = ctx\<lparr>ctx_profile := profile, ctx_mode := md\<rparr>;
          had_ipv4_rtp_context = (ctx_ip_version ctx = 4 \<and> ctx_tx_count ctx > 0);
          previous_ipv4_id = ctx_ipv4_id ctx; previous_ipv4_flags = ctx_ipv4_flags ctx;
          previous_ipv4_id_sequential = ctx_ipv4_id_sequential ctx; previous_rtp_seq = rtp_last_seq (ctx_rtp ctx) in
      or_fail (capture_ip_context ctx packet v) (capture_ip_partial ctx v) (\<lambda>ctx.
      let ctx = capture_udp_header ctx udp;
          (rtp_fo_ipv4_safe, ctx) = update_rtp_ipv4_id_behavior ctx had_ipv4_rtp_context previous_ipv4_id previous_ipv4_flags
             previous_ipv4_id_sequential previous_rtp_seq (rh_sequence rtp);
          ctx = note_behavior_change (\<not> rtp_fo_ipv4_safe) ctx;
          ctx = update_rtp_timestamp_stride ctx (rh_sequence rtp) (rh_timestamp rtp);
          ctx = capture_rtp_header ctx rtp;
          rtp_offset = pv_header_len v + 8 in
      if length packet < rtp_offset then Done (None, ctx)
      else or_fail (capture_rtp_context ctx (drop rtp_offset packet)) (capture_rtp_partial ctx (drop rtp_offset packet))
        (\<lambda>(ctx, payload_offset, payload_len). k ctx rtp_fo_ipv4_safe payload_offset payload_len)))"

definition capture_ip_flow :: "profile \<Rightarrow> mode \<Rightarrow> rohc_context \<Rightarrow> bytes \<Rightarrow> parsed_ip_view \<Rightarrow> (rohc_context \<Rightarrow> compressed) \<Rightarrow> compressed" where
  \<comment> \<open>the statements the branches of UDP, IP and ESP share\<close>
  "capture_ip_flow profile md previous packet v k =
     (let ctx = previous\<lparr>ctx_profile := profile, ctx_mode := md\<rparr>;
          had_ipv4_context = (ctx_ip_version ctx = 4 \<and> ctx_tx_count ctx > 0); previous_ipv4_id = ctx_ipv4_id ctx in
      or_fail (capture_ip_context ctx packet v) (capture_ip_partial ctx v) (\<lambda>ctx.
      let ctx = update_ipv4_id_behavior ctx had_ipv4_context previous_ipv4_id in
      k (note_behavior_change (had_ipv4_context \<and> ctx_ipv4_id_behavior previous \<noteq> ctx_ipv4_id_behavior ctx) ctx)))"

section \<open>Model: completing a packet\<close>

definition note_transmission :: "rohc_context \<Rightarrow> rohc_context res" where
  "note_transmission ctx =
     (let ctx = ctx\<lparr>ctx_tx_count := ctx_tx_count ctx + 1, ctx_profile_has_been_used := True\<rparr> in
      seq_res (record_transmitted_msn ctx (ctx_msn ctx)) (\<lambda>ctx.
      let ctx = (if ctx_mode ctx \<noteq> Reliable \<and> \<not> ctx_profile_replacement_pending ctx
                 then ctx\<lparr>ctx_static_acked := (ctx_tx_count ctx > 0 \<or> ctx_static_acked ctx),
                          ctx_dynamic_acked := (ctx_tx_count ctx > 1 \<or> ctx_dynamic_acked ctx)\<rparr> else ctx) in
      Done (ctx\<lparr>ctx_nack_count := 0\<rparr>)))"

definition append_payload_range :: "bytes \<Rightarrow> nat \<Rightarrow> bytes \<Rightarrow> nat \<Rightarrow> nat \<Rightarrow> rohc_context \<Rightarrow> compressed" where
  "append_payload_range packet out_capacity hdr payload_offset payload_len ctx =
     (if payload_offset > length packet \<or> payload_len > length packet - payload_offset then Done (None, ctx)
      else if length hdr + payload_len > out_capacity then Done (None, ctx)
      else copy_in packet payload_offset payload_len (\<lambda>payload. put_all out_capacity hdr payload (\<lambda>out.
        seq_res (note_transmission ctx) (\<lambda>ctx. Done (Some out, ctx)))))"

definition append_payload :: "bytes \<Rightarrow> nat \<Rightarrow> bytes \<Rightarrow> nat \<Rightarrow> rohc_context \<Rightarrow> compressed" where
  "append_payload packet out_capacity hdr payload_offset ctx =
     append_payload_range packet out_capacity hdr payload_offset
       (if length packet > payload_offset then length packet - payload_offset else 0) ctx"

section \<open>Model: one branch per profile\<close>

definition emit_rtp_flow :: "rohc_context \<Rightarrow> bool \<Rightarrow> u32 \<Rightarrow> nat \<Rightarrow> bytes \<Rightarrow> bytes \<Rightarrow> rohc_context \<Rightarrow> (bytes \<Rightarrow> rohc_context \<Rightarrow> compressed) \<Rightarrow> compressed" where
  \<comment> \<open>the choice of the packet format in the RTP branch; \<open>before\<close> is \<open>context_before_compress\<close>\<close>
  "emit_rtp_flow before rtp_fo_ipv4_safe cid cap packet payload ctx k =
     (if should_emit_ir ctx then
        let ctx = ctx\<lparr>ctx_rohc_state := StaticEstablished\<rparr> in or_fail (emit_ir_rtp cap ctx) ctx (\<lambda>out. k out ctx)
      else let ctx' = ctx\<lparr>ctx_rohc_state := DynamicEstablished\<rparr> in
        if should_emit_ir_dyn ctx \<or> \<not> rtp_fo_ipv4_safe then or_fail (emit_ir_dyn_rtp cap ctx') ctx' (\<lambda>out. k out ctx')
        else if ctx_large_cid ctx' then or_fail (emit_ir_rtp cap ctx') ctx' (\<lambda>out. k out ctx')
        else if rtp_pt0_reconstructable before ctx' then
          or_fail (emit_rtp_pt0_small_cid cap cid (ctx_msn ctx') packet) ctx' (\<lambda>out.
          rd out (if cid = 0 then 0 else 1) (\<lambda>base.
          seq_res (if cid \<noteq> 0 then succeeds (decode_fo_rtp (base # take 31 payload) (before\<lparr>ctx_cid := cid, ctx_large_cid := False\<rparr>))
                   else Done False) (\<lambda>ambiguous_private_rtp.
          if ambiguous_private_rtp \<or> base \<ge> 0x77 \<and> base \<le> 0x7A then or_fail (emit_ir_dyn_rtp cap ctx') ctx' (\<lambda>out. k out ctx')
          else k out (ctx'\<lparr>ctx_formal_pt0_since_confirmation := ctx_formal_pt0_since_confirmation ctx' + 1\<rparr>))))
        else if ctx_udp_check ctx' \<noteq> ctx_udp_check before then or_fail (emit_ir_dyn_rtp cap ctx') ctx' (\<lambda>out. k out ctx')
        else or_fail (seq_res (emit_rtp_fo (replicate cap 0) cap ctx') (prepend_private_rtp_small_cid cap cid)) ctx'
          (\<lambda>out. k out ctx'))"

definition compress_rtp :: "mode \<Rightarrow> u32 \<Rightarrow> nat \<Rightarrow> rohc_context \<Rightarrow> bytes \<Rightarrow> parsed_ip_view \<Rightarrow> udp_header \<Rightarrow> rtp_header \<Rightarrow> rohc_context \<Rightarrow> compressed" where
  "compress_rtp md cid cap before packet v udp rtp ctx =
     capture_rtp_flow RTP md ctx packet v udp rtp (\<lambda>ctx rtp_fo_ipv4_safe payload_offset payload_len.
       let offset = pv_header_len v + 8 + payload_offset in
       copy_in packet offset payload_len (\<lambda>payload.
       emit_rtp_flow before rtp_fo_ipv4_safe cid cap packet payload ctx (\<lambda>out ctx.
         append_payload_range packet cap out offset payload_len ctx)))"

definition emit_rtp_udp_lite_flow :: "bool \<Rightarrow> u32 \<Rightarrow> nat \<Rightarrow> rohc_context \<Rightarrow> (bytes \<Rightarrow> rohc_context \<Rightarrow> compressed) \<Rightarrow> compressed" where
  "emit_rtp_udp_lite_flow rtp_fo_ipv4_safe cid cap ctx k =
     (if should_emit_ir ctx then
        let ctx = ctx\<lparr>ctx_rohc_state := StaticEstablished\<rparr> in or_fail (emit_ir_rtp_udp_lite cap ctx) ctx (\<lambda>out. k out ctx)
      else let ctx' = ctx\<lparr>ctx_rohc_state := DynamicEstablished\<rparr> in
        if should_emit_ir_dyn ctx \<or> \<not> rtp_fo_ipv4_safe then or_fail (emit_ir_dyn_rtp_udp_lite cap ctx') ctx' (\<lambda>out. k out ctx')
        else if ctx_large_cid ctx' then or_fail (emit_ir_rtp_udp_lite cap ctx') ctx' (\<lambda>out. k out ctx')
        else or_fail (seq_res (emit_rtp_fo (replicate cap 0) cap ctx') (prepend_private_rtp_small_cid cap cid)) ctx'
          (\<lambda>out. k out ctx'))"

definition compress_rtp_udp_lite :: "mode \<Rightarrow> u32 \<Rightarrow> nat \<Rightarrow> bytes \<Rightarrow> parsed_ip_view \<Rightarrow> udp_header \<Rightarrow> rtp_header \<Rightarrow> rohc_context \<Rightarrow> compressed" where
  "compress_rtp_udp_lite md cid cap packet v udp rtp ctx =
     capture_rtp_flow RTP_UDP_Lite md ctx packet v udp rtp (\<lambda>ctx rtp_fo_ipv4_safe payload_offset payload_len.
       emit_rtp_udp_lite_flow rtp_fo_ipv4_safe cid cap ctx (\<lambda>out ctx.
         append_payload_range packet cap out (pv_header_len v + 8 + payload_offset) payload_len ctx))"

definition formal_fields :: "u16 \<Rightarrow> formal_co_fields" where
  "formal_fields msn = \<lparr>cf_msn = msn, cf_ip_id = 0, cf_ts_scaled = 0, cf_marker = False\<rparr>"

definition send_formal :: "nat \<Rightarrow> bytes \<Rightarrow> rohc_context \<Rightarrow> (bytes \<Rightarrow> rohc_context \<Rightarrow> compressed) \<Rightarrow> compressed" where
  \<comment> \<open>copying the PT-0 packet to the output\<close>
  "send_formal cap formal ctx k =
     (if cap < length formal then Done (None, ctx)
      else k formal (ctx\<lparr>ctx_formal_pt0_since_confirmation := ctx_formal_pt0_since_confirmation ctx + 1\<rparr>))"

definition try_formal :: "nat \<Rightarrow> profile \<Rightarrow> formal_co_variant \<Rightarrow> u32 \<Rightarrow> nat \<Rightarrow> bytes \<Rightarrow> bytes \<Rightarrow> rohc_context option \<Rightarrow> bool \<Rightarrow> rohc_context \<Rightarrow>
    bytes option res" where
  \<comment> \<open>the PT-0 packet in a buffer of \<open>size\<close> octets, unless it could be taken for a private packet\<close>
  "try_formal buf_size p variant cid header_len packet payload context0 neighbors ctx =
     copy_in packet 0 header_len (\<lambda>crc_input.
     seq_res (or_none (emit_formal_co buf_size p variant cid False (formal_fields (ctx_msn ctx)) crc_input)) (\<lambda>formal.
       case formal of None \<Rightarrow> Done None
       | Some f \<Rightarrow> rd f (if cid = 0 then 0 else 1) (\<lambda>pt0.
           seq_res (pt0_private_fo_ambiguous pt0 payload context0 neighbors) (\<lambda>b. Done (if b then None else Some f)))))"

definition emit_private_udp :: "rohc_context \<Rightarrow> u32 \<Rightarrow> nat \<Rightarrow> bytes \<Rightarrow> rohc_context \<Rightarrow> (bytes \<Rightarrow> rohc_context \<Rightarrow> compressed) \<Rightarrow> compressed" where
  "emit_private_udp previous cid cap payload ctx k =
     or_fail (emit_udp_fo cap ctx) ctx (\<lambda>out.
     seq_res (private_udp_fo_is_formal_pt0_ambiguous previous out payload) (\<lambda>ambiguous.
     if ambiguous then or_fail (emit_ir_dyn_udp cap ctx) ctx (\<lambda>out. k out (ctx\<lparr>ctx_rohc_state := StaticEstablished\<rparr>))
     else if ctx_large_cid ctx then k out ctx
     else or_fail (prepend_small_cid cap cid out) ctx (\<lambda>out. k out ctx)))"

definition compress_udp :: "mode \<Rightarrow> u32 \<Rightarrow> nat \<Rightarrow> bytes \<Rightarrow> parsed_ip_view \<Rightarrow> udp_header \<Rightarrow> rohc_context \<Rightarrow> compressed" where
  "compress_udp md cid cap packet v udp previous =
     capture_ip_flow UDP md previous packet v (\<lambda>ctx.
       let ctx = capture_udp_header ctx udp;
           ctx = ctx\<lparr>ctx_udp_checksum_used := (ctx_udp_check ctx \<noteq> 0), ctx_msn := ucast (ctx_tx_count ctx + 1)\<rparr>;
           header_len = pv_header_len v + 8;
           done = (\<lambda>out ctx. append_payload packet cap out header_len ctx) in
       if should_emit_ir ctx then
         let ctx = ctx\<lparr>ctx_rohc_state := StaticEstablished\<rparr> in or_fail (emit_ir_udp cap ctx) ctx (\<lambda>out. done out ctx)
       else let ctx' = ctx\<lparr>ctx_rohc_state := DynamicEstablished\<rparr> in
         if should_emit_ir_dyn ctx then or_fail (emit_ir_dyn_udp cap ctx') ctx' (\<lambda>out. done out ctx')
         else view packet header_len (\<lambda>payload.
           if \<not> ctx_large_cid ctx' \<and> cid \<le> 0x0F \<and> udp_pt0_reconstructable previous ctx' then
             seq_res (try_formal 2 (ctx_profile ctx') Pt0Crc3 cid header_len packet payload None False ctx') (\<lambda>formal.
             case formal of None \<Rightarrow> emit_private_udp previous cid cap payload ctx' done
             | Some f \<Rightarrow> send_formal cap f ctx' done)
           else emit_private_udp previous cid cap payload ctx' done))"

definition emit_private_ip :: "rohc_context \<Rightarrow> u32 \<Rightarrow> nat \<Rightarrow> nat \<Rightarrow> rohc_context \<Rightarrow> (bytes \<Rightarrow> rohc_context \<Rightarrow> compressed) \<Rightarrow> compressed" where
  "emit_private_ip previous cid cap payload_len ctx k =
     or_fail (emit_ip_fo cap ctx) ctx (\<lambda>out.
     seq_res (if \<not> ctx_large_cid ctx then private_ip_fo_is_formal_pt0_ambiguous previous out payload_len else Done False) (\<lambda>ambiguous.
     if ambiguous then or_fail (emit_ir_ip cap ctx) ctx (\<lambda>out. k out (ctx\<lparr>ctx_rohc_state := StaticEstablished\<rparr>))
     else if ctx_large_cid ctx then k out ctx
     else or_fail (prepend_small_cid cap cid out) ctx (\<lambda>out. k out ctx)))"

definition compress_ip :: "mode \<Rightarrow> u32 \<Rightarrow> nat \<Rightarrow> bytes \<Rightarrow> parsed_ip_view \<Rightarrow> rohc_context \<Rightarrow> compressed" where
  "compress_ip md cid cap packet v previous =
     capture_ip_flow IP md previous packet v (\<lambda>ctx.
       let ctx = ctx\<lparr>ctx_msn := ucast (ctx_tx_count ctx + 1)\<rparr>;
           header_len = pv_header_len v;
           done = (\<lambda>out ctx. append_payload packet cap out header_len ctx) in
       if should_emit_ir ctx then
         let ctx = ctx\<lparr>ctx_rohc_state := StaticEstablished\<rparr> in or_fail (emit_ir_ip cap ctx) ctx (\<lambda>out. done out ctx)
       else let ctx' = ctx\<lparr>ctx_rohc_state := DynamicEstablished\<rparr> in
         if should_emit_ir_dyn ctx then or_fail (emit_ir_dyn_ip cap ctx') ctx' (\<lambda>out. done out ctx')
         else view packet header_len (\<lambda>payload.
           if \<not> ctx_large_cid ctx' \<and> cid \<le> 0x0F \<and> ip_pt0_reconstructable previous ctx' then
             seq_res (try_formal 2 (ctx_profile ctx') Pt0Crc3 cid header_len packet payload None False ctx') (\<lambda>formal.
             case formal of None \<Rightarrow> emit_private_ip previous cid cap (length payload) ctx' done
             | Some f \<Rightarrow> send_formal cap f ctx' done)
           else if ctx_ip_version ctx' \<noteq> 4 \<or> ip_private_fo_reconstructable previous ctx' then
             emit_private_ip previous cid cap (length payload) ctx' done
           else or_fail (emit_ir_ip cap ctx') ctx' (\<lambda>out. done out ctx')))"

definition compress_esp :: "mode \<Rightarrow> u32 \<Rightarrow> nat \<Rightarrow> bytes \<Rightarrow> parsed_ip_view \<Rightarrow> rohc_context \<Rightarrow> compressed" where
  "compress_esp md cid cap packet v previous =
     capture_ip_flow ESP md previous packet v (\<lambda>ctx.
       or_fail (capture_esp_header ctx packet (pv_header_len v)) ctx (\<lambda>ctx.
       let header_len = pv_header_len v + 8;
           done = (\<lambda>out ctx. append_payload packet cap out header_len ctx) in
       if should_emit_ir ctx then
         let ctx = ctx\<lparr>ctx_rohc_state := StaticEstablished\<rparr> in or_fail (emit_ir_esp cap ctx) ctx (\<lambda>out. done out ctx)
       else let ctx' = ctx\<lparr>ctx_rohc_state := DynamicEstablished\<rparr> in
         if should_emit_ir_dyn ctx then or_fail (emit_ir_dyn_esp cap ctx') ctx' (\<lambda>out. done out ctx')
         else if \<not> ctx_large_cid ctx' \<and> cid \<le> 0x0F \<and> esp_pt0_reconstructable previous ctx' then
           view packet header_len (\<lambda>payload.
           seq_res (try_formal 3 (ctx_profile ctx') Pt0Crc7 cid header_len packet payload (Some previous) True ctx') (\<lambda>formal.
           case formal of None \<Rightarrow> or_fail (emit_ir_esp cap ctx') ctx' (\<lambda>out. done out ctx')
           | Some f \<Rightarrow> send_formal cap f ctx' done))
         else or_fail (emit_ir_esp cap ctx') ctx' (\<lambda>out. done out ctx')))"

definition compress_udp_lite :: "mode \<Rightarrow> u32 \<Rightarrow> nat \<Rightarrow> bytes \<Rightarrow> parsed_ip_view \<Rightarrow> udp_header \<Rightarrow> rohc_context \<Rightarrow> compressed" where
  "compress_udp_lite md cid cap packet v udp ctx =
     (let ctx = ctx\<lparr>ctx_profile := UDP_Lite, ctx_mode := md\<rparr> in
      or_fail (capture_ip_context ctx packet v) (capture_ip_partial ctx v) (\<lambda>ctx.
      let ctx = capture_udp_header ctx udp;
          done = (\<lambda>out ctx. append_payload packet cap out (pv_header_len v + 8) ctx) in
      if should_emit_ir ctx then
        let ctx = ctx\<lparr>ctx_rohc_state := StaticEstablished\<rparr> in or_fail (emit_ir_udp_lite cap ctx) ctx (\<lambda>out. done out ctx)
      else let ctx' = ctx\<lparr>ctx_rohc_state := DynamicEstablished\<rparr> in
        if should_emit_ir_dyn ctx then or_fail (emit_ir_dyn_udp_lite cap ctx') ctx' (\<lambda>out. done out ctx')
        else or_fail (emit_udp_lite_fo cap ctx') ctx' (\<lambda>out.
          if ctx_large_cid ctx' then done out ctx'
          else or_fail (prepend_small_cid cap cid out) ctx' (\<lambda>out. done out ctx'))))"

definition compress_uncompressed :: "nat \<Rightarrow> bytes \<Rightarrow> rohc_context \<Rightarrow> compressed" where
  "compress_uncompressed cap packet ctx =
     seq_res (is_uncompressed_ip_payload packet) (\<lambda>ok.
       if \<not> ok then Done (None, ctx)
       else let ctx = ctx\<lparr>ctx_profile := Uncompressed, ctx_mode := ModeUncompressed, ctx_rohc_state := DynamicEstablished,
              ctx_tx_count := ctx_tx_count ctx + 1, ctx_profile_has_been_used := True, ctx_nack_count := 0,
              ctx_static_acked := True, ctx_dynamic_acked := True\<rparr> in
         or_fail (emit_uncompressed_ir cap ctx packet) ctx (\<lambda>out. Done (Some out, ctx)))"

section \<open>Model: rohc_compress4\<close>

definition choose_profile :: "bytes \<Rightarrow> parsed_ip_view \<Rightarrow> bool \<Rightarrow> rtp_header option \<Rightarrow> profile res" where
  "choose_profile packet v ipv4_fragmented rtp =
     seq_res (if ipv4_fragmented then Done Uncompressed else classify_packet packet) (\<lambda>p.
       let unsupported_standard_chain =
             (\<not> pv_is_ipv6 v \<and> pv_header_len v \<noteq> 20) \<or>
             (pv_is_ipv6 v \<and> (pv_extension_len v \<noteq> 0 \<or>
               (case pv_ip6 v of Some ip \<Rightarrow> ip6_version_tc_flow ip AND 0x000FFFFF \<noteq> 0 | None \<Rightarrow> False))) \<or>
             (case rtp of Some r \<Rightarrow> rh_vpxcc r AND 0x3F \<noteq> 0 | None \<Rightarrow> False) in
       Done (if unsupported_standard_chain \<and> (p = RTP \<or> p = UDP \<or> p = ESP \<or> p = IP) then Uncompressed else p))"

definition begin_profile :: "mode \<Rightarrow> bool \<Rightarrow> u32 \<Rightarrow> profile \<Rightarrow> rohc_context \<Rightarrow> rohc_context" where
  \<comment> \<open>replacing the context when the profile of the CID changes, and the confirmation that ends a run of PT-0 packets\<close>
  "begin_profile md large_cid_space cid profile before =
     (let ctx = before\<lparr>ctx_cid := cid, ctx_large_cid := large_cid_space\<rparr>;
          ctx = (if ctx_profile_has_been_used ctx \<and> ctx_profile ctx \<noteq> profile \<and> profile \<noteq> Uncompressed then
                   context_zero\<lparr>ctx_cid := cid, ctx_large_cid := large_cid_space, ctx_mode := md,
                     ctx_profile_has_been_used := True, ctx_profile_replacement_active := True,
                     ctx_profile_replacement_pending := True, ctx_compact_profile_replacement_seen := True,
                     ctx_context_revision := ctx_context_revision before + 1\<rparr>
                 else ctx) in
      if profile_uses_formal_pt0 profile then require_confirmation_before_pt0_alias ctx else ctx)"

definition compress_context :: "mode \<Rightarrow> bool \<Rightarrow> u32 \<Rightarrow> nat \<Rightarrow> bytes \<Rightarrow> parsed_ip_view \<Rightarrow> rohc_context \<Rightarrow> compressed" where
  "compress_context md large_cid_space cid cap packet v before =
     (let ipv4_fragmented = (case pv_ip4 v of Some ip \<Rightarrow> is_fragmented (ip4_flags_fragment ip) | None \<Rightarrow> False) in
      seq_res (if \<not> ipv4_fragmented \<and> (pv_terminal_protocol v = 17 \<or> pv_terminal_protocol v = 136)
               then or_none (udp_parse packet (pv_header_len v)) else Done None) (\<lambda>udp.
      seq_res (case udp of Some _ \<Rightarrow> or_none (rtp_parse packet (pv_header_len v + 8)) | None \<Rightarrow> Done None) (\<lambda>rtp.
      seq_res (choose_profile packet v ipv4_fragmented rtp) (\<lambda>profile.
      let ctx = begin_profile md large_cid_space cid profile before in
      case (profile, udp, rtp) of
        (RTP_UDP_Lite, Some u, Some r) \<Rightarrow> compress_rtp_udp_lite md cid cap packet v u r ctx
      | (RTP, Some u, Some r) \<Rightarrow> compress_rtp md cid cap before packet v u r ctx
      | (UDP, Some u, _) \<Rightarrow> compress_udp md cid cap packet v u ctx
      | (IP, _, _) \<Rightarrow> compress_ip md cid cap packet v ctx
      | (ESP, _, _) \<Rightarrow> compress_esp md cid cap packet v ctx
      | (UDP_Lite, Some u, _) \<Rightarrow> compress_udp_lite md cid cap packet v u ctx
      | _ \<Rightarrow> compress_uncompressed cap packet ctx))))"

definition compress4_full :: "rohc_comp \<Rightarrow> bytes \<Rightarrow> nat \<Rightarrow> (bytes option \<times> rohc_comp) res" where
  \<comment> \<open>\<open>rohc_compress4\<close> with \<open>suppress_segmentation\<close> set\<close>
  "compress4_full c packet cap =
     (case parse_ip_view packet of
        Fault \<Rightarrow> Fault
      | Reject \<Rightarrow> Done (None, c)
      | Done v \<Rightarrow> seq_res (context_table_get (comp_contexts c) (comp_current_cid c)) (\<lambda>p. case p of
          None \<Rightarrow> Done (None, c)
        | Some i \<Rightarrow>
            seq_res (compress_context (comp_mode c) (comp_large_cid_space c) (comp_current_cid c) cap packet v
                       (context_table_entry (comp_contexts c) i)) (\<lambda>(out, ctx).
            Done (out, c\<lparr>comp_contexts := context_table_set (comp_contexts c) i ctx\<rparr>))))"

definition protect_output :: "oipsec_settings \<Rightarrow> bytes \<Rightarrow> bytes \<Rightarrow> bytes res" where
  "protect_output s packet full =
     (if os_enabled s then copy_in (os_key s) 0 (os_key_len s) (\<lambda>key.
        append_icv (os_algorithm s) key packet full segment_buffer_max (os_icv_len s))
      else Done full)"

definition rohc_compress4 :: "rohc_comp \<Rightarrow> bytes \<Rightarrow> nat \<Rightarrow> (bytes option \<times> rohc_comp) res" where
  "rohc_compress4 c packet requested_capacity =
     (if requested_capacity \<le> segment_header_len then Done (None, c)
      else seq_res (compress4_full c packet segment_buffer_max) (\<lambda>(out, c). case out of
        None \<Rightarrow> Done (None, c)
      | Some full \<Rightarrow>
          (case protect_output (comp_oipsec c) packet full of
             Fault \<Rightarrow> Fault
           | Reject \<Rightarrow> Done (None, c)
           | Done full \<Rightarrow>
               if length full \<le> requested_capacity then Done (Some full, c)
               else if comp_mrru c = 0 \<or> length full > comp_mrru c \<or> length full > segment_buffer_max then Done (None, c)
               else write_next_segment (c\<lparr>comp_pending_segment := full @ drop (length full) (comp_pending_segment c),
                      comp_pending_segment_len := length full, comp_pending_segment_pos := 0,
                      comp_next_segment_sequence := 0\<rparr>) requested_capacity)))"

section \<open>Model: link-layer assisted packets\<close>

definition rohc_comp_rfc4362_emit_nhp :: "rohc_comp \<Rightarrow> bytes \<Rightarrow> (int \<times> rohc_comp) res" where
  \<comment> \<open>the packet written is empty\<close>
  "rohc_comp_rfc4362_emit_nhp c packet =
     (if \<not> comp_lla_enabled c \<or> \<not> can_emit_no_header_packet_for_flow (comp_lla_contract c) (comp_lla_flow c) then Done (- 1, c)
      else seq_res (context_table_get (comp_contexts c) (comp_current_cid c)) (\<lambda>p. case p of
        None \<Rightarrow> Done (- 1, c)
      | Some i \<Rightarrow> let ctx = context_table_entry (comp_contexts c) i in
          if \<not> capi_lla_context_ready ctx \<or> ctx_mode ctx = Reliable \<and> \<not> ctx_dynamic_acked ctx \<or> length packet < 40 then Done (- 1, c)
          else case build_fixed_rtp_ipv4_header (capi_nhp_advance ctx) (length packet - 40) of
              Fault \<Rightarrow> Fault
            | Reject \<Rightarrow> Done (- 1, c)
            | Done expected_header \<Rightarrow>
                if expected_header \<noteq> take 40 packet then Done (- 1, c)
                else seq_res (compress4_full c packet segment_buffer_max) (\<lambda>(out, c).
                  Done (if out = None then - 1 else 0, c))))"

definition csp_payload_len :: "bytes \<Rightarrow> nat res" where
  "csp_payload_len packet =
     (case seq_res (parse_ip_view packet) (\<lambda>v. seq_res (udp_parse packet (pv_header_len v)) (\<lambda>_.
             seq_res (rtp_parse packet (pv_header_len v + 8)) (\<lambda>_. Done (pv_header_len v + 20)))) of
        Fault \<Rightarrow> Fault
      | Reject \<Rightarrow> Done 0
      | Done payload_offset \<Rightarrow> Done (if length packet > payload_offset then length packet - payload_offset else 0))"

definition rohc_comp_rfc4362_emit_csp :: "rohc_comp \<Rightarrow> bytes \<Rightarrow> nat \<Rightarrow> (bytes option \<times> rohc_comp) res" where
  "rohc_comp_rfc4362_emit_csp c packet cap =
     (if \<not> comp_lla_enabled c \<or> \<not> can_emit_context_synchronization_packet (comp_lla_contract c) then Done (None, c)
      else seq_res (compress4_full c packet segment_buffer_max) (\<lambda>(out, c). case out of
        None \<Rightarrow> Done (None, c)
      | Some rohc_header \<Rightarrow> seq_res (csp_payload_len packet) (\<lambda>rtp_payload_len.
          if rtp_payload_len > 0xFFFF then Done (None, c)
          else case write_context_synchronization_packet cap (of_nat rtp_payload_len) rohc_header of
              Fault \<Rightarrow> Fault
            | Reject \<Rightarrow> Done (None, c)
            | Done out \<Rightarrow> Done (Some out, c))))"

end
