(* ===== verification/CApiDecompress.thy ===== *)
theory CApiDecompress
  imports CApiCompress IrDynDecode
begin

text \<open>
  \<open>rohc_decompress4\<close> (\<open>c_api/rohc_c_api.cpp\<close>): the feedback in front of a packet, the integrity check value, the choice of
  the context, the compact packets of the formal profiles with their rebuilt and checked headers, the packets that could be
  read in two ways, segments, IR and IR-DYN, the private first-order packets, and what a failure leaves behind. A call
  returns its code, the packet (empty unless the code is 0), and the object. The octets that a failing call may have written
  to the caller's buffer are not described: it reports a length of 0. The debugging output is left out, allocations succeed.
\<close>

section \<open>Model: one call in progress\<close>

datatype call_end =
    Returned int bytes rohc_decomp
  | Reassembled rohc_decomp bytes  \<comment> \<open>the last segment arrived: the function calls itself with the reassembled packet\<close>

type_synonym received = "call_end res"

record decoding =
  \<comment> \<open>what the lambdas of \<open>rohc_decompress4\<close> capture; \<open>dg_before\<close> is \<open>context_before_decode\<close>, \<open>dg_decomp\<close> the object with its
    feedback cleared and all contexts as before the call\<close>
  dg_decomp :: rohc_decomp
  dg_pending :: "feedback option"  \<comment> \<open>\<open>feedback_before_decode\<close> if \<open>feedback_pending_before_decode\<close>\<close>
  dg_parsed :: parsed_rohc_packet
  dg_icv :: bytes  \<comment> \<open>\<open>received_icv\<close>\<close>
  dg_capacity :: nat  \<comment> \<open>\<open>*ip_packet_len\<close>\<close>
  dg_cid :: u32
  dg_index :: nat  \<comment> \<open>the entry of the table that \<open>ctx\<close> points to\<close>
  dg_before :: rohc_context

definition max_reconstructed_ip_packet :: nat where
  "max_reconstructed_ip_packet = 40 + 0xFFFF"

definition stage_authenticated_output :: "decoding \<Rightarrow> bool" where
  "stage_authenticated_output e \<longleftrightarrow> os_enabled (decomp_oipsec (dg_decomp e)) \<and> length (dg_icv e) > 0"

definition reconstruction_room :: "decoding \<Rightarrow> nat" where
  \<comment> \<open>the first value of \<open>reconstruction_len\<close>\<close>
  "reconstruction_room e = (if stage_authenticated_output e then min (dg_capacity e) max_reconstructed_ip_packet else dg_capacity e)"

definition with_context :: "decoding \<Rightarrow> rohc_context \<Rightarrow> rohc_decomp" where
  \<comment> \<open>\<open>*ctx = c;\<close>\<close>
  "with_context e c = (dg_decomp e)\<lparr>decomp_contexts := context_table_set (decomp_contexts (dg_decomp e)) (dg_index e) c\<rparr>"

definition fail_with_feedback :: "rohc_decomp \<Rightarrow> u32 \<Rightarrow> received" where
  "fail_with_feedback d cid = seq_res (set_feedback d cid NACK) (\<lambda>d. Done (Returned (- 1) [] d))"

definition restored :: "decoding \<Rightarrow> rohc_decomp \<Rightarrow> rohc_decomp" where
  \<comment> \<open>the branch \<open>rc != 0\<close> of \<open>finish_decoding\<close>\<close>
  "restored e d = d\<lparr>decomp_contexts := context_table_set (decomp_contexts d) (dg_index e) (dg_before e),
     decomp_mode := decomp_mode (dg_decomp e)\<rparr>"

definition fail_decoding :: "decoding \<Rightarrow> rohc_context \<Rightarrow> received" where
  \<comment> \<open>\<open>return finish_decoding(fail_with_feedback(cid));\<close> with \<open>*ctx = c\<close>\<close>
  "fail_decoding e c = seq_res (set_feedback (with_context e c) (dg_cid e) NACK) (\<lambda>d. Done (Returned (- 1) [] (restored e d)))"

definition reject_decoding :: "decoding \<Rightarrow> received" where
  \<comment> \<open>\<open>*ctx = context_before_decode; return fail_with_feedback(cid);\<close>\<close>
  "reject_decoding e = fail_with_feedback (with_context e (dg_before e)) (dg_cid e)"

definition succeed_decoding :: "decoding \<Rightarrow> rohc_context \<Rightarrow> rohc_decomp \<Rightarrow> bytes \<Rightarrow> received" where
  \<comment> \<open>\<open>return finish_decoding(0);\<close>\<close>
  "succeed_decoding e c d out =
     (if (pr_type (dg_parsed e) = PT_IR \<or> pr_type (dg_parsed e) = PT_IR_DYN) \<and> profile_uses_formal_pt0 (ctx_profile c) \<and>
         decomp_acknowledge_context_refresh d then
        case dg_pending e of
          Some fb \<Rightarrow> Done (Returned 0 out (d\<lparr>decomp_last_feedback := fb, decomp_has_feedback := True\<rparr>))
        | None \<Rightarrow> seq_res (set_feedback d (dg_cid e) ACK) (\<lambda>d. Done (Returned 0 out d))
      else Done (Returned 0 out d))"

definition verify_rohcoipsec_icv :: "decoding \<Rightarrow> bytes \<Rightarrow> bool res" where
  "verify_rohcoipsec_icv e packet =
     (if \<not> stage_authenticated_output e then Done True
      else let s = decomp_oipsec (dg_decomp e) in
        copy_in (os_key s) 0 (os_key_len s) (\<lambda>key.
        seq_res (or_none (compute_icv (os_algorithm s) key packet (length (dg_icv e)))) (\<lambda>computed. case computed of
          None \<Rightarrow> Done False
        | Some c \<Rightarrow> constant_time_equal (c @ replicate (sha256_digest_len - length c) 0)
            (dg_icv e @ replicate (sha256_digest_len - length (dg_icv e)) 0) (length (dg_icv e)))))"

definition accept_decoding :: "decoding \<Rightarrow> rohc_context \<Rightarrow> mode \<Rightarrow> bytes \<Rightarrow> received" where
  \<comment> \<open>\<open>*ctx = c; mode = m; return finish_decoding(verify_rohcoipsec_icv(0));\<close> with \<open>out\<close> rebuilt\<close>
  "accept_decoding e c m out =
     (let d = (with_context e c)\<lparr>decomp_mode := m\<rparr> in
      seq_res (verify_rohcoipsec_icv e out) (\<lambda>ok.
        if ok then succeed_decoding e c d out
        else seq_res (set_feedback d (pr_cid (dg_parsed e)) NACK) (\<lambda>d. Done (Returned (- 1) [] (restored e d)))))"

section \<open>Model: packets of the uncompressed profile\<close>

definition receive_uncompressed :: "decoding \<Rightarrow> rohc_context \<Rightarrow> received" where
  "receive_uncompressed e ctx =
     (let packet = pr_packet (dg_parsed e) in
      if reconstruction_room e < length packet then fail_decoding e ctx
      else accept_decoding e (ctx\<lparr>ctx_tx_count := ctx_tx_count ctx + 1, ctx_nack_count := 0\<rparr>) (decomp_mode (dg_decomp e)) packet)"

definition uncompressed_ir_payload :: "parsed_rohc_packet \<Rightarrow> nat \<Rightarrow> bytes res" where
  "uncompressed_ir_payload parsed limit =
     (let header_len = (if pr_has_add_cid parsed then 1 else 0) + 3 + (if pr_has_large_cid parsed then pr_cid_len parsed else 0);
          wire = pr_wire parsed in
      if length wire \<le> header_len \<or> header_len > 5 then Reject
      else copy_in wire 0 header_len (\<lambda>crc_header.
        rd crc_header (header_len - 1) (\<lambda>received_crc.
        view wire header_len (\<lambda>original.
        if crc8 (crc_header[header_len - 1 := 0]) \<noteq> received_crc then Reject
        else seq_res (is_uncompressed_ip_payload original) (\<lambda>ok.
          if \<not> ok \<or> limit < length original then Reject else Done original)))))"

definition receive_uncompressed_ir :: "decoding \<Rightarrow> rohc_context \<Rightarrow> received" where
  "receive_uncompressed_ir e ctx =
     (case uncompressed_ir_payload (dg_parsed e) (reconstruction_room e) of
        Fault \<Rightarrow> Fault
      | Reject \<Rightarrow> fail_decoding e ctx
      | Done original \<Rightarrow> accept_decoding e
          (context_zero\<lparr>ctx_cid := dg_cid e, ctx_large_cid := decomp_large_cid_space (dg_decomp e), ctx_profile := Uncompressed,
             ctx_mode := ModeUncompressed, ctx_rohc_state := DynamicEstablished, ctx_tx_count := 1, ctx_profile_has_been_used := True\<rparr>)
          ModeUncompressed original)"

section \<open>Model: compact packets with a rebuilt fixed header\<close>

text \<open>A reading of a compact packet: the advanced context, the rebuilt header and the payload.\<close>

type_synonym reading = "rohc_context \<times> bytes \<times> bytes"

definition live_pt0 :: "decoding \<Rightarrow> bool" where
  "live_pt0 e = live_pt0_context_supported (dg_before e) (decomp_large_cid_space (dg_decomp e)) (dg_cid e) (pr_has_add_cid (dg_parsed e))"

definition plain_rtp :: "rohc_context \<Rightarrow> bool" where
  \<comment> \<open>no options, CSRC entries, extension or padding\<close>
  "plain_rtp c \<longleftrightarrow> ctx_profile c = RTP \<and> ctx_ipv4_options_len c = 0 \<and> rtp_vpxcc (ctx_rtp c) AND 0x3F = 0 \<and>
     rtp_csrc_list_len (ctx_rtp c) = 0 \<and> rtp_extension_len (ctx_rtp c) = 0 \<and> rtp_padding_len (ctx_rtp c) = 0"

definition advance_rtp :: "rohc_context \<Rightarrow> u16 \<Rightarrow> rohc_context" where
  "advance_rtp c next_msn =
     (let delta = next_msn - ctx_msn c in
      c\<lparr>ctx_msn := next_msn,
        ctx_ipv4_id := (if ctx_ipv4_id_behavior c = 0 then ctx_ipv4_id c + delta else ctx_ipv4_id c),
        ctx_rtp := (ctx_rtp c)\<lparr>rtp_last_seq := next_msn,
          rtp_last_ts := rtp_last_ts (ctx_rtp c) + rtp_ts_stride (ctx_rtp c) * ucast delta\<rparr>\<rparr>)"

definition advance_esp :: "rohc_context \<Rightarrow> u16 \<Rightarrow> rohc_context" where
  "advance_esp c next_msn =
     (let delta = next_msn - ctx_msn c in
      c\<lparr>ctx_msn := next_msn, ctx_ipv4_id := ctx_ipv4_id c + delta, ctx_esp_sequence := ctx_esp_sequence c + ucast delta\<rparr>)"

definition advance_id :: "rohc_context \<Rightarrow> u16 \<Rightarrow> rohc_context" where
  "advance_id c next_msn = c\<lparr>ctx_msn := next_msn, ctx_ipv4_id := ctx_ipv4_id c + (next_msn - ctx_msn c)\<rparr>"

definition rebuild_header :: "(rohc_context \<Rightarrow> nat \<Rightarrow> bytes res) \<Rightarrow> (bytes \<Rightarrow> byte) \<Rightarrow> byte \<Rightarrow> bytes \<Rightarrow> nat \<Rightarrow> rohc_context \<Rightarrow> reading res" where
  \<comment> \<open>\<open>payload_after_header(...) && build_fixed_*_header(...) && crc(header) == header_crc\<close>\<close>
  "rebuild_header build crc header_crc packet header_len c =
     seq_res (payload_after_header packet header_len) (\<lambda>payload.
     seq_res (build c (length payload)) (\<lambda>header.
     guard (crc header = header_crc) (Done (c, header, payload))))"

definition deliver_reading :: "decoding \<Rightarrow> rohc_context \<Rightarrow> reading res \<Rightarrow> received" where
  "deliver_reading e ctx r =
     (case r of
        Fault \<Rightarrow> Fault
      | Reject \<Rightarrow> fail_decoding e ctx
      | Done (c, header, payload) \<Rightarrow>
          if reconstruction_room e < length header + length payload then fail_decoding e ctx
          else accept_decoding e c (ctx_mode c) (header @ payload))"

definition fixed_rtp_pt0_crc7_candidate :: "decoding \<Rightarrow> bool" where
  "fixed_rtp_pt0_crc7_candidate e \<longleftrightarrow>
     (let packet = pr_packet (dg_parsed e) in
      pr_type (dg_parsed e) = PT_FormalCO \<and> length packet \<ge> 2 \<and> packet ! 0 AND 0xF0 = 0x80 \<and> plain_rtp (dg_before e) \<and> live_pt0 e)"

definition read_rtp_pt0_crc7 :: "rohc_context \<Rightarrow> bytes \<Rightarrow> reading res" where
  "read_rtp_pt0_crc7 before packet =
     guard (rtp_ts_stride (ctx_rtp before) \<noteq> 0) (seq_res (read_formal_co_base packet 2 RTP Pt0Crc7 formal_co_packet_init) (\<lambda>formal.
       seq_res (decode_forward_formal_msn before (cp_msn formal) 5) (\<lambda>next_msn.
       rebuild_header build_fixed_rtp_ipv4_header crc7 (cp_header_crc formal) packet 2 (advance_rtp before next_msn))))"

definition fixed_esp_pt0_crc7_candidate :: "decoding \<Rightarrow> bool" where
  "fixed_esp_pt0_crc7_candidate e \<longleftrightarrow>
     (let packet = pr_packet (dg_parsed e) in
      pr_type (dg_parsed e) = PT_FormalCO \<and> length packet \<ge> 2 \<and> packet ! 0 AND 0xE0 = 0x80 \<and>
      ctx_profile (dg_before e) = ESP \<and> ctx_ipv4_options_len (dg_before e) = 0 \<and> live_pt0 e)"

definition read_esp_pt0_crc7 :: "rohc_context \<Rightarrow> bytes \<Rightarrow> reading res" where
  "read_esp_pt0_crc7 before packet =
     seq_res (read_formal_co_base packet 2 ESP Pt0Crc7 formal_co_packet_init) (\<lambda>formal.
     seq_res (decode_forward_formal_msn before (cp_msn formal) 6) (\<lambda>next_msn.
     seq_res (rebuild_header build_fixed_esp_ipv4_header crc7 (cp_header_crc formal) packet 2 (advance_esp before next_msn))
       (\<lambda>(c, header, payload). Done (c\<lparr>ctx_formal_pt0_crc7_seen := True\<rparr>, header, payload))))"

definition fixed_non_rtp_pt1_seq_id_candidate :: "decoding \<Rightarrow> bool" where
  "fixed_non_rtp_pt1_seq_id_candidate e \<longleftrightarrow>
     (let packet = pr_packet (dg_parsed e); p = ctx_profile (dg_before e) in
      pr_type (dg_parsed e) = PT_FormalCO \<and> length packet \<ge> 2 \<and> packet ! 0 AND 0xE0 = 0xA0 \<and>
      (p = UDP \<or> p = ESP \<or> p = IP) \<and> live_pt0 e)"

definition read_udp_checksum :: "bytes \<Rightarrow> nat \<Rightarrow> rohc_context \<Rightarrow> (rohc_context \<times> nat) res" where
  \<comment> \<open>the two octets of the UDP checksum behind a compact header, when the flow uses it\<close>
  "read_udp_checksum packet header_len c =
     (if ctx_profile c = UDP \<and> ctx_udp_checksum_used c then
        if length packet < header_len + 2 then Reject
        else rd packet header_len (\<lambda>a. rd packet (header_len + 1) (\<lambda>b. Done (c\<lparr>ctx_udp_check := of_be16 a b\<rparr>, header_len + 2)))
      else Done (c, header_len))"

definition build_fixed_header :: "rohc_context \<Rightarrow> nat \<Rightarrow> bytes res" where
  "build_fixed_header c payload_len =
     (if ctx_profile c = UDP then build_fixed_udp_ipv4_header c payload_len
      else if ctx_profile c = ESP then build_fixed_esp_ipv4_header c payload_len
      else build_fixed_ip_ipv4_header c payload_len)"

definition read_pt1_seq_id :: "rohc_context \<Rightarrow> bytes \<Rightarrow> reading res" where
  "read_pt1_seq_id before packet =
     (let p = ctx_profile before; ip_id_width = formal_co_ip_id_lsb_bits p Pt1SeqId in
      seq_res (read_formal_co_base packet 2 p Pt1SeqId formal_co_packet_init) (\<lambda>formal.
      seq_res (decode_forward_formal_msn before (cp_msn formal) (formal_co_msn_lsb_bits p Pt1SeqId)) (\<lambda>next_msn.
      seq_res (decode_ip_id_offset_lsb_with_p (cp_ip_id formal) next_msn (encode_offset_ip_id (ctx_ipv4_id before) (ctx_msn before))
          ip_id_width (push_bit ip_id_width 1 div 4 - 1)) (\<lambda>next_ipv4_id.
      let c = before\<lparr>ctx_msn := next_msn, ctx_ipv4_id := next_ipv4_id,
            ctx_esp_sequence := (if p = ESP then ctx_esp_sequence before + ucast (next_msn - ctx_msn before) else ctx_esp_sequence before)\<rparr> in
      seq_res (read_udp_checksum packet 2 c) (\<lambda>(c, header_len).
      rebuild_header build_fixed_header crc3 (cp_header_crc formal) packet header_len c)))))"

section \<open>Model: one-octet PT-0 packets with a rebuilt fixed header\<close>

definition first_bit_clear :: "bytes \<Rightarrow> bool" where
  "first_bit_clear packet \<longleftrightarrow> length packet > 0 \<and> packet ! 0 AND 0x80 = 0"

definition deliver_direct :: "decoding \<Rightarrow> rohc_context \<Rightarrow> reading \<Rightarrow> received" where
  \<comment> \<open>the fixed-header paths that are not staged: \<open>memcpy\<close> to the caller's buffer and \<open>finish_decoding(0)\<close>\<close>
  "deliver_direct e ctx r =
     (case r of (c, header, payload) \<Rightarrow>
        if dg_capacity e < length header + length payload then fail_decoding e ctx
        else succeed_decoding e c ((with_context e c)\<lparr>decomp_mode := ctx_mode c\<rparr>) (header @ payload))"

definition fixed_udp_pt0_candidate :: "decoding \<Rightarrow> bool" where
  "fixed_udp_pt0_candidate e \<longleftrightarrow> \<not> stage_authenticated_output e \<and> first_bit_clear (pr_packet (dg_parsed e)) \<and>
     ctx_profile (dg_before e) = UDP \<and> ctx_ipv4_options_len (dg_before e) = 0 \<and> live_pt0 e"

definition read_udp_pt0 :: "rohc_context \<Rightarrow> bytes \<Rightarrow> reading res" where
  "read_udp_pt0 before packet =
     seq_res (read_formal_co_base packet 1 UDP Pt0Crc3 formal_co_packet_init) (\<lambda>formal.
     guard (\<not> ctx_reject_legacy_udp_pt0_until_refresh before) (
     seq_res (decode_forward_formal_pt0_msn before (cp_msn formal)) (\<lambda>next_msn.
     let delta = next_msn - ctx_msn before in
     guard (legacy_pt0_delta_safe_for_profile before delta \<and> (ctx_limit_legacy_udp_pt0_to_sequential before \<longrightarrow> delta = 1)) (
     let c = (advance_id before next_msn)\<lparr>ctx_limit_legacy_udp_pt0_to_sequential := False\<rparr> in
     seq_res (read_udp_checksum packet 1 c) (\<lambda>(c, header_len).
     rebuild_header build_fixed_udp_ipv4_header crc3 (cp_header_crc formal) packet header_len c)))))"

definition decode_private_marker :: "decoding \<Rightarrow> (rohc_context \<times> nat) res" where
  "decode_private_marker e =
     (let packet = pr_packet (dg_parsed e) in
      case pr_type (dg_parsed e) of
        PT_FO_UDP \<Rightarrow> decode_udp_fo packet (dg_before e)
      | PT_FO_ESP \<Rightarrow> decode_esp_fo packet (dg_before e)
      | PT_FO_IP \<Rightarrow> decode_ip_fo packet (dg_before e)
      | _ \<Rightarrow> Reject)"

definition private_udp_reading :: "bytes \<Rightarrow> rohc_context \<times> nat \<Rightarrow> reading option res" where
  \<comment> \<open>\<open>private_checksum_valid\<close>, with the reading\<close>
  "private_udp_reading packet p =
     (case p of (c, header_len) \<Rightarrow>
        seq_res (or_none (seq_res (payload_after_header packet header_len) (\<lambda>payload.
            seq_res (build_fixed_udp_ipv4_header c (length payload)) (\<lambda>header. Done (c, header, payload))))) (\<lambda>r. case r of
          None \<Rightarrow> Done None
        | Some (c, header, payload) \<Rightarrow> seq_res (udp_checksum_valid header [] payload) (\<lambda>ok.
            Done (if ok then Some (c, header, payload) else None))))"

definition choose_udp_reading :: "decoding \<Rightarrow> rohc_context \<Rightarrow> reading option \<Rightarrow> (rohc_context \<times> nat) option \<Rightarrow> received \<Rightarrow> received" where
  "choose_udp_reading e ctx formal private k =
     (case (formal, private) of
        (None, None) \<Rightarrow> fail_decoding e ctx
      | (None, Some _) \<Rightarrow> k
      | (Some (c, header, payload), None) \<Rightarrow>
          if ctx_udp_checksum_used c then seq_res (udp_checksum_valid header [] payload) (\<lambda>ok.
            if ok then deliver_direct e ctx (c, header, payload) else fail_decoding e ctx)
          else deliver_direct e ctx (c, header, payload)
      | (Some (c, header, payload), Some p) \<Rightarrow>
          if ctx_udp_checksum_used c then
            seq_res (private_udp_reading (pr_packet (dg_parsed e)) p) (\<lambda>private_checksum.
            seq_res (udp_checksum_valid header [] payload) (\<lambda>formal_checksum_valid.
            case private_checksum of
              None \<Rightarrow> if formal_checksum_valid then deliver_direct e ctx (c, header, payload) else fail_decoding e ctx
            | Some (pc, pheader, ppayload) \<Rightarrow>
                if formal_checksum_valid then fail_decoding e ctx
                else deliver_direct e ctx (pc\<lparr>ctx_msn := ctx_msn (dg_before e) + 1\<rparr>, pheader, ppayload)))
          else fail_decoding e ctx)"

definition fixed_udp_pt0 :: "decoding \<Rightarrow> rohc_context \<Rightarrow> received \<Rightarrow> received" where
  "fixed_udp_pt0 e ctx k =
     (if fixed_udp_pt0_candidate e then
        seq_res (or_none (read_udp_pt0 (dg_before e) (pr_packet (dg_parsed e)))) (\<lambda>formal.
        seq_res (or_none (decode_private_marker e)) (\<lambda>private. choose_udp_reading e ctx formal private k))
      else k)"

definition fixed_esp_pt0_candidate :: "decoding \<Rightarrow> bool" where
  "fixed_esp_pt0_candidate e \<longleftrightarrow>
     (let before = dg_before e in
      \<not> stage_authenticated_output e \<and> first_bit_clear (pr_packet (dg_parsed e)) \<and> ctx_ipv4_options_len before = 0 \<and>
      ctx_rohc_state before = DynamicEstablished \<and> ctx_profile before = ESP \<and> ctx_ip_version before = 4 \<and>
      \<not> decomp_large_cid_space (dg_decomp e) \<and> \<not> ctx_large_cid before \<and> dg_cid e \<le> 0x0F \<and>
      pr_has_add_cid (dg_parsed e) = (dg_cid e \<noteq> 0))"

definition read_esp_pt0 :: "rohc_context \<Rightarrow> bytes \<Rightarrow> byte \<Rightarrow> reading res" where
  \<comment> \<open>\<open>decode_formal\<close> with \<open>first_octet\<close>\<close>
  "read_esp_pt0 before packet first_octet =
     guard (\<not> ctx_formal_pt0_crc3_retired before \<and> \<not> ctx_reject_legacy_udp_pt0_until_refresh before) (
     seq_res (read_formal_co_base [first_octet] 1 ESP Pt0Crc3 formal_co_packet_init) (\<lambda>candidate.
     seq_res (decode_forward_formal_pt0_msn before (cp_msn candidate)) (\<lambda>next_msn.
     guard (legacy_pt0_delta_safe_for_profile before (next_msn - ctx_msn before)) (
     rebuild_header build_fixed_esp_ipv4_header crc3 (cp_header_crc candidate) packet 1 (advance_esp before next_msn)))))"

fun any_adjacent :: "rohc_context \<Rightarrow> bytes \<Rightarrow> byte \<Rightarrow> byte list \<Rightarrow> bool res" where
  \<comment> \<open>the loop over the bits of the first octet\<close>
  "any_adjacent before packet b [] = Done False"
| "any_adjacent before packet b (m # ms) =
     seq_res (succeeds (read_esp_pt0 before packet (b XOR m))) (\<lambda>hit. if hit then Done True else any_adjacent before packet b ms)"

definition has_profile :: "profile \<Rightarrow> (rohc_context \<times> nat) res \<Rightarrow> (rohc_context \<times> nat) res" where
  \<comment> \<open>\<open>decode(...) && context.profile == p\<close>\<close>
  "has_profile p r = seq_res r (\<lambda>(c, n). guard (ctx_profile c = p) (Done (c, n)))"

definition fixed_esp_pt0 :: "decoding \<Rightarrow> rohc_context \<Rightarrow> received \<Rightarrow> received" where
  "fixed_esp_pt0 e ctx k =
     (if fixed_esp_pt0_candidate e then
        let packet = pr_packet (dg_parsed e); before = dg_before e in
        seq_res (or_none (read_esp_pt0 before packet (packet ! 0))) (\<lambda>formal.
        seq_res (or_none (has_profile ESP (decode_esp_fo packet before))) (\<lambda>private.
        if formal \<noteq> None \<and> (\<not> live_pt0 e \<or> private \<noteq> None) then fail_decoding e ctx
        else seq_res (if private \<noteq> None then any_adjacent before packet (packet ! 0) [0x01, 0x02, 0x04, 0x08, 0x10, 0x20, 0x40] else Done False)
          (\<lambda>adjacent.
          if adjacent then fail_decoding e ctx
          else case formal of Some r \<Rightarrow> deliver_direct e ctx r | None \<Rightarrow> if private = None then fail_decoding e ctx else k)))
      else k)"

definition fixed_ip_pt0_candidate :: "decoding \<Rightarrow> bool" where
  "fixed_ip_pt0_candidate e \<longleftrightarrow> \<not> stage_authenticated_output e \<and> first_bit_clear (pr_packet (dg_parsed e)) \<and>
     ctx_profile (dg_before e) = IP \<and> ctx_ipv4_options_len (dg_before e) = 0 \<and> live_pt0 e"

definition read_ip_pt0 :: "rohc_context \<Rightarrow> bytes \<Rightarrow> reading res" where
  "read_ip_pt0 before packet =
     seq_res (read_formal_co_base packet 1 IP Pt0Crc3 formal_co_packet_init) (\<lambda>formal.
     guard (\<not> ctx_reject_legacy_udp_pt0_until_refresh before) (
     seq_res (decode_forward_formal_pt0_msn before (cp_msn formal)) (\<lambda>next_msn.
     guard (legacy_pt0_delta_safe_for_profile before (next_msn - ctx_msn before)) (
     rebuild_header build_fixed_ip_ipv4_header crc3 (cp_header_crc formal) packet 1 (advance_id before next_msn)))))"

definition fixed_ip_pt0 :: "decoding \<Rightarrow> rohc_context \<Rightarrow> received \<Rightarrow> received" where
  "fixed_ip_pt0 e ctx k =
     (if fixed_ip_pt0_candidate e then
        let packet = pr_packet (dg_parsed e); before = dg_before e in
        seq_res (or_none (read_ip_pt0 before packet)) (\<lambda>formal.
        seq_res (or_none (has_profile IP (decode_ip_fo packet before))) (\<lambda>private.
        seq_res (legacy_private_ip_fo_crc_valid packet) (\<lambda>legacy_private_valid.
        case formal of
          Some r \<Rightarrow> if private \<noteq> None \<or> legacy_private_valid then fail_decoding e ctx else deliver_direct e ctx r
        | None \<Rightarrow> if private = None then fail_decoding e ctx else k)))
      else k)"

definition fixed_rtp_pt0_candidate :: "decoding \<Rightarrow> bool" where
  "fixed_rtp_pt0_candidate e \<longleftrightarrow> \<not> stage_authenticated_output e \<and> pr_type (dg_parsed e) = PT_FO_RTP \<and>
     first_bit_clear (pr_packet (dg_parsed e)) \<and> plain_rtp (dg_before e) \<and> live_pt0 e"

definition read_rtp_pt0 :: "rohc_context \<Rightarrow> bytes \<Rightarrow> reading res" where
  "read_rtp_pt0 c packet =
     guard (rtp_ts_stride (ctx_rtp c) \<noteq> 0) (
     seq_res (read_formal_co_base packet 1 RTP Pt0Crc3 formal_co_packet_init) (\<lambda>formal.
     guard (\<not> ctx_reject_legacy_udp_pt0_until_refresh c) (
     seq_res (decode_forward_formal_pt0_msn c (cp_msn formal)) (\<lambda>next_msn.
     guard (legacy_pt0_delta_safe_for_profile c (next_msn - ctx_msn c)) (
     rebuild_header build_fixed_rtp_ipv4_header crc3 (cp_header_crc formal) packet 1 (advance_rtp c next_msn))))))"

definition private_rtp_valid :: "parsed_rohc_packet \<Rightarrow> rohc_context \<Rightarrow> bool res" where
  "private_rtp_valid parsed ctx =
     (if pr_has_add_cid parsed then
        succeeds (seq_res (decode_fo_rtp (pr_packet parsed) ctx) (\<lambda>(c, header_len).
          seq_res (payload_after_header (pr_packet parsed) header_len) (\<lambda>payload. build_fixed_rtp_ipv4_header c (length payload))))
      else Done False)"

definition fixed_rtp_pt0 :: "decoding \<Rightarrow> rohc_context \<Rightarrow> (bool \<Rightarrow> received) \<Rightarrow> received" where
  \<comment> \<open>the argument of \<open>k\<close> is \<open>prefer_private_rtp_fo\<close>\<close>
  "fixed_rtp_pt0 e ctx k =
     (if fixed_rtp_pt0_candidate e then
        seq_res (or_none (read_rtp_pt0 ctx (pr_packet (dg_parsed e)))) (\<lambda>formal.
        seq_res (private_rtp_valid (dg_parsed e) ctx) (\<lambda>private_valid.
        case formal of
          Some r \<Rightarrow> if private_valid then fail_decoding e ctx else deliver_direct e ctx r
        | None \<Rightarrow> if private_valid then k True else fail_decoding e ctx))
      else k False)"

section \<open>Model: packets that are a formal and a private packet at once\<close>

datatype meaning_kind = FormalPt0 | PrivateFo

record tentative_meaning =
  \<comment> \<open>a meaning that is valid; an invalid one is \<open>None\<close> or \<open>Reject\<close>\<close>
  tm_interpretation :: meaning_kind
  tm_context :: rohc_context
  tm_output :: bytes
  tm_consumed_len :: nat
  tm_profile :: profile
  tm_cid :: u32

definition reconstruct_tentative :: "bytes \<Rightarrow> rohc_context \<Rightarrow> nat \<Rightarrow> bytes res" where
  "reconstruct_tentative packet c header_len =
     seq_res (payload_after_header packet header_len) (\<lambda>payload.
       case ctx_profile c of
         RTP \<Rightarrow> build_rtp_packet max_reconstructed_ip_packet c payload
       | UDP \<Rightarrow> build_udp_packet max_reconstructed_ip_packet c payload
       | ESP \<Rightarrow> if ctx_legacy_esp_payload_includes_header c then build_ip_packet max_reconstructed_ip_packet c payload
                else build_esp_packet max_reconstructed_ip_packet c payload
       | IP \<Rightarrow> build_ip_packet max_reconstructed_ip_packet c payload
       | _ \<Rightarrow> Reject)"

definition advance_formal :: "rohc_context \<Rightarrow> u16 \<Rightarrow> rohc_context" where
  "advance_formal c next_msn =
     (let msn_delta = next_msn - ctx_msn c in
      c\<lparr>ctx_msn := next_msn,
        ctx_ipv4_id := (if ctx_ipv4_id_behavior c = 0 then ctx_ipv4_id c + msn_delta else ctx_ipv4_id c),
        ctx_esp_sequence := (if ctx_profile c = ESP then ctx_esp_sequence c + ucast msn_delta else ctx_esp_sequence c),
        ctx_rtp := (if ctx_profile c = RTP then (ctx_rtp c)\<lparr>rtp_last_seq := next_msn,
            rtp_last_ts := rtp_last_ts (ctx_rtp c) + rtp_ts_stride (ctx_rtp c) * ucast msn_delta\<rparr> else ctx_rtp c)\<rparr>)"

definition try_formal_pt0 :: "decoding \<Rightarrow> tentative_meaning res" where
  "try_formal_pt0 e =
     (let packet = pr_packet (dg_parsed e); before = dg_before e in
      seq_res (read_formal_co_base packet 1 (ctx_profile before) Pt0Crc3 formal_co_packet_init) (\<lambda>formal.
      seq_res (decode_forward_formal_pt0_msn before (cp_msn formal)) (\<lambda>next_msn.
      guard (legacy_pt0_delta_safe_for_profile before (next_msn - ctx_msn before)) (
      seq_res (read_udp_checksum packet 1 (advance_formal before next_msn)) (\<lambda>(c, header_len).
      seq_res (reconstruct_tentative packet c header_len) (\<lambda>output.
      let crc_header_len = (if ctx_profile c = RTP then 40 else if ctx_profile c = IP then 20 else 28) in
      if length output < crc_header_len then Reject
      else copy_in output 0 crc_header_len (\<lambda>header.
        guard (crc3 header = cp_header_crc formal)
          (Done \<lparr>tm_interpretation = FormalPt0, tm_context = c, tm_output = output, tm_consumed_len = header_len,
                 tm_profile = ctx_profile before, tm_cid = dg_cid e\<rparr>))))))))"

definition try_private_fo :: "decoding \<Rightarrow> tentative_meaning res" where
  "try_private_fo e =
     (let packet = pr_packet (dg_parsed e); before = dg_before e in
      seq_res (case pr_type (dg_parsed e) of
          PT_FO_RTP \<Rightarrow> guard (pr_has_add_cid (dg_parsed e)) (has_profile RTP (decode_fo_rtp packet before))
        | PT_FO_UDP \<Rightarrow> has_profile UDP (decode_udp_fo packet before)
        | PT_FO_ESP \<Rightarrow> has_profile ESP (decode_esp_fo packet before)
        | PT_FO_IP \<Rightarrow> has_profile IP (decode_ip_fo packet before)
        | _ \<Rightarrow> Reject) (\<lambda>(c, header_len).
      seq_res (reconstruct_tentative packet c header_len) (\<lambda>output.
      Done \<lparr>tm_interpretation = PrivateFo, tm_context = c, tm_output = output, tm_consumed_len = header_len,
            tm_profile = ctx_profile c, tm_cid = ctx_cid c\<rparr>)))"

definition same_meaning :: "tentative_meaning \<Rightarrow> tentative_meaning \<Rightarrow> bool" where
  "same_meaning a b \<longleftrightarrow> tm_interpretation a = tm_interpretation b \<and> tm_consumed_len a = tm_consumed_len b \<and>
     tm_profile a = tm_profile b \<and> tm_cid a = tm_cid b \<and> tm_output a = tm_output b \<and>
     standard_context_equal (tm_context a) (tm_context b)"

definition private_fo_overlap :: "rohc_packet_type \<Rightarrow> bool" where
  "private_fo_overlap t \<longleftrightarrow> t = PT_FO_UDP_Lite \<or> t = PT_FO_ESP \<or> t = PT_FO_IP \<or> t = PT_FO_UDP"

definition resolve_overlap :: "decoding \<Rightarrow> bool \<Rightarrow> (rohc_packet_type \<Rightarrow> bool \<Rightarrow> received) \<Rightarrow> received" where
  \<comment> \<open>the continuation takes the new \<open>parsed.type\<close> and \<open>prefer_private_rtp_fo\<close>\<close>
  "resolve_overlap e prefer_private_rtp_fo k =
     (let t = pr_type (dg_parsed e) in
      if private_fo_overlap t \<and> first_bit_clear (pr_packet (dg_parsed e)) \<and> live_pt0 e then
        seq_res (or_none (try_formal_pt0 e)) (\<lambda>formal.
        seq_res (or_none (try_private_fo e)) (\<lambda>private_fo.
        case formal of
          Some f \<Rightarrow> (case private_fo of
              Some p \<Rightarrow> if same_meaning f p then k PT_FO_RTP prefer_private_rtp_fo else reject_decoding e
            | None \<Rightarrow> k PT_FO_RTP prefer_private_rtp_fo)
        | None \<Rightarrow> k t (if t = PT_FO_RTP \<and> private_fo \<noteq> None then True else prefer_private_rtp_fo)))
      else k t prefer_private_rtp_fo)"

section \<open>Model: segments\<close>

definition stop_reassembly :: "rohc_decomp \<Rightarrow> u32 \<Rightarrow> received" where
  "stop_reassembly d cid = fail_with_feedback (d\<lparr>decomp_reassembly_active := False, decomp_reassembly_len := 0\<rparr>) cid"

definition start_reassembly :: "rohc_decomp \<Rightarrow> rohc_decomp" where
  "start_reassembly d =
     (if \<not> decomp_reassembly_active d
      then d\<lparr>decomp_reassembly_active := True, decomp_reassembly_len := 0, decomp_expected_segment_sequence := 0\<rparr> else d)"

definition store_segment :: "rohc_decomp \<Rightarrow> bytes \<Rightarrow> (rohc_decomp \<Rightarrow> received) \<Rightarrow> received" where
  "store_segment d payload k =
     (let next_len = decomp_reassembly_len d + length payload in
      if next_len > length (decomp_reassembly d) then Fault
      else k (d\<lparr>decomp_reassembly := take (decomp_reassembly_len d) (decomp_reassembly d) @ payload @ drop next_len (decomp_reassembly d),
               decomp_reassembly_len := next_len, decomp_expected_segment_sequence := decomp_expected_segment_sequence d + 1\<rparr>))"

definition finish_segment :: "bool \<Rightarrow> rohc_decomp \<Rightarrow> received" where
  "finish_segment final d =
     (if \<not> final then Done (Returned 1 [] d)
      else copy_in (decomp_reassembly d) 0 (decomp_reassembly_len d) (\<lambda>reassembled.
        Done (Reassembled (d\<lparr>decomp_reassembly_active := False, decomp_reassembly_len := 0, decomp_expected_segment_sequence := 0\<rparr>) reassembled)))"

definition append_segment :: "rohc_decomp \<Rightarrow> u32 \<Rightarrow> segment_header \<Rightarrow> bytes \<Rightarrow> received" where
  "append_segment d cid segment payload =
     (let next_len = decomp_reassembly_len d + length payload in
      if seg_sequence segment \<noteq> decomp_expected_segment_sequence d AND 0xFF \<or> next_len > decomp_mrru d \<or> next_len > segment_buffer_max
      then stop_reassembly d cid
      else store_segment d payload (finish_segment (seg_final segment)))"

definition receive_segment :: "decoding \<Rightarrow> rohc_context \<Rightarrow> received" where
  "receive_segment e ctx =
     (let packet = pr_packet (dg_parsed e); d = with_context e ctx; cid = dg_cid e in
      seq_res (if decomp_mrru d = 0 then Done None else or_none (read_segment_header packet)) (\<lambda>header. case header of
        None \<Rightarrow> stop_reassembly d cid
      | Some segment \<Rightarrow>
          if length packet \<le> segment_header_len then stop_reassembly d cid
          else if \<not> decomp_reassembly_active d \<and> seg_sequence segment \<noteq> 0 then fail_with_feedback d cid
          else append_segment (start_reassembly d) cid segment (drop segment_header_len packet)))"

section \<open>Model: IR, IR-DYN and the private packets\<close>

definition incoming_profile :: "byte \<Rightarrow> profile option" where
  "incoming_profile profile_id = map_of [(0x01, RTP), (0x02, UDP), (0x03, ESP), (0x04, IP), (0x07, RTP_UDP_Lite), (0x08, UDP_Lite)] profile_id"

definition prepare_ir :: "decoding \<Rightarrow> profile \<Rightarrow> rohc_context \<Rightarrow> rohc_context" where
  \<comment> \<open>before an IR packet of a known profile is decoded\<close>
  "prepare_ir e p ctx =
     (let before = dg_before e in
      if ctx_rohc_state before \<noteq> NoContext \<and> ctx_profile before \<noteq> p then
        context_zero\<lparr>ctx_cid := dg_cid e, ctx_large_cid := decomp_large_cid_space (dg_decomp e), ctx_mode := ctx_mode before\<rparr>
      else if ctx_rohc_state before \<noteq> NoContext \<and> p = ESP \<and> ctx_formal_pt0_crc7_seen before then ctx\<lparr>ctx_formal_pt0_crc3_retired := True\<rparr>
      else ctx)"

definition decode_ir_by_profile :: "profile \<Rightarrow> bytes \<Rightarrow> rohc_context \<Rightarrow> (rohc_context \<times> nat) res" where
  "decode_ir_by_profile p packet c =
     (case p of UDP \<Rightarrow> decode_ir_udp packet c | UDP_Lite \<Rightarrow> decode_ir_udp_lite packet c | ESP \<Rightarrow> decode_ir_esp packet c
      | IP \<Rightarrow> decode_ir_ip packet c | RTP_UDP_Lite \<Rightarrow> decode_ir_rtp_udp_lite packet c | RTP \<Rightarrow> decode_ir_rtp packet c | _ \<Rightarrow> Reject)"

definition complete_ir :: "decoding \<Rightarrow> profile \<Rightarrow> rohc_context \<Rightarrow> rohc_context" where
  "complete_ir e p c =
     (let before = dg_before e; known = (ctx_rohc_state before \<noteq> NoContext); c = c\<lparr>ctx_formal_pt0_since_confirmation := 0\<rparr> in
      if known \<and> dg_cid e \<noteq> 0 \<and> ctx_profile before \<noteq> p \<and> profile_uses_formal_pt0 p then
        c\<lparr>ctx_compact_profile_replacement_seen := True, ctx_reject_legacy_udp_pt0_until_refresh := True,
          ctx_limit_legacy_udp_pt0_to_sequential := False\<rparr>
      else if known \<and> dg_cid e \<noteq> 0 \<and> p = UDP \<and> \<not> ctx_udp_checksum_used c then
        c\<lparr>ctx_reject_legacy_udp_pt0_until_refresh := False, ctx_limit_legacy_udp_pt0_to_sequential := True\<rparr>
      else if ctx_profile before = p then
        c\<lparr>ctx_reject_legacy_udp_pt0_until_refresh := False, ctx_limit_legacy_udp_pt0_to_sequential := False\<rparr>
      else c)"

definition decode_ir_dyn_by_profile :: "profile \<Rightarrow> bytes \<Rightarrow> rohc_context \<Rightarrow> (rohc_context \<times> nat) res" where
  "decode_ir_dyn_by_profile p packet c =
     (case p of UDP \<Rightarrow> decode_ir_dyn_udp packet c | RTP_UDP_Lite \<Rightarrow> decode_ir_dyn_rtp_udp_lite packet c
      | UDP_Lite \<Rightarrow> decode_ir_dyn_udp_lite packet c | ESP \<Rightarrow> decode_ir_dyn_esp packet c | IP \<Rightarrow> decode_ir_dyn_ip packet c
      | RTP \<Rightarrow> decode_ir_dyn_rtp packet c | _ \<Rightarrow> Reject)"

definition complete_ir_dyn :: "decoding \<Rightarrow> profile \<Rightarrow> rohc_context \<Rightarrow> rohc_context" where
  "complete_ir_dyn e p c =
     (if ctx_profile (dg_before e) = p
      then c\<lparr>ctx_formal_pt0_since_confirmation := 0, ctx_reject_legacy_udp_pt0_until_refresh := False,
             ctx_limit_legacy_udp_pt0_to_sequential := False\<rparr> else c)"

type_synonym decoded_header = "rohc_context \<times> nat \<times> (byte \<times> nat) option"

definition receive_legacy_pt0 :: "bytes \<Rightarrow> rohc_context \<Rightarrow> decoded_header res" where
  \<comment> \<open>the context, the header length, and the CRC-3 with the length of the header it covers\<close>
  "receive_legacy_pt0 packet ctx =
     guard (ctx_profile ctx \<noteq> RTP \<or> rtp_ts_stride (ctx_rtp ctx) \<noteq> 0) (
     seq_res (read_formal_co_base packet 1 (ctx_profile ctx) Pt0Crc3 formal_co_packet_init) (\<lambda>formal.
     guard (\<not> ctx_reject_legacy_udp_pt0_until_refresh ctx) (
     seq_res (decode_forward_formal_pt0_msn ctx (cp_msn formal)) (\<lambda>next_msn.
     let msn_delta = next_msn - ctx_msn ctx; p = ctx_profile ctx in
     guard (legacy_pt0_delta_safe_for_profile ctx msn_delta \<and>
            (p = UDP \<and> ctx_limit_legacy_udp_pt0_to_sequential ctx \<longrightarrow> msn_delta = 1)) (
     let c = advance_formal ctx next_msn;
         c = (if ctx_ip_version ctx = 4 then c else c\<lparr>ctx_ipv4_id := ctx_ipv4_id ctx\<rparr>) in
     seq_res (read_udp_checksum packet 1 c) (\<lambda>(c, header_len).
     Done ((if p = UDP then c\<lparr>ctx_limit_legacy_udp_pt0_to_sequential := False\<rparr> else c), header_len,
           Some (cp_header_crc formal, if p = RTP then 40 else if p = UDP \<or> p = ESP then 28 else 20))))))))"

definition private_fo_context_ready :: "decoding \<Rightarrow> profile \<Rightarrow> bool" where
  "private_fo_context_ready e p \<longleftrightarrow> ctx_rohc_state (dg_before e) \<noteq> NoContext \<and> ctx_profile (dg_before e) = p"

definition receive_private :: "decoding \<Rightarrow> rohc_packet_type \<Rightarrow> rohc_context \<Rightarrow> decoded_header res" where
  "receive_private e t ctx =
     (let packet = pr_packet (dg_parsed e) in
      case t of
        PT_FO_UDP \<Rightarrow> guard (private_fo_context_ready e UDP) (seq_res (decode_udp_fo packet ctx) (\<lambda>(c, n).
          Done (c\<lparr>ctx_msn := ctx_msn ctx + 1\<rparr>, n, None)))
      | PT_FO_IP \<Rightarrow> guard (private_fo_context_ready e IP) (seq_res (decode_ip_fo packet ctx) (\<lambda>(c, n).
          Done (update_ipv4_id_behavior (c\<lparr>ctx_msn := ctx_msn ctx + 1\<rparr>) (ctx_ip_version ctx = 4) (ctx_ipv4_id ctx), n, None)))
      | PT_FO_ESP \<Rightarrow> guard (private_fo_context_ready e ESP) (seq_res (decode_esp_fo packet ctx) (\<lambda>(c, n). Done (c, n, None)))
      | PT_FO_UDP_Lite \<Rightarrow> guard (private_fo_context_ready e UDP_Lite) (seq_res (decode_udp_lite_fo packet ctx) (\<lambda>(c, n). Done (c, n, None)))
      | PT_FO_RTP \<Rightarrow> guard (\<not> decomp_large_cid_space (dg_decomp e) \<and> pr_has_add_cid (dg_parsed e) \<and>
            (private_fo_context_ready e RTP \<or> private_fo_context_ready e RTP_UDP_Lite))
          (seq_res (decode_fo_rtp packet ctx) (\<lambda>(c, n).
            guard (ctx_rohc_state c = DynamicEstablished) (Done (c\<lparr>ctx_msn := rtp_last_seq (ctx_rtp c)\<rparr>, n, None))))
      | _ \<Rightarrow> Reject)"

definition decode_header_by_type :: "decoding \<Rightarrow> rohc_packet_type \<Rightarrow> bool \<Rightarrow> rohc_context \<Rightarrow> decoded_header res" where
  "decode_header_by_type e t prefer_private_rtp_fo ctx =
     (let parsed = dg_parsed e; packet = pr_packet parsed in
      if t = PT_IR then (case incoming_profile (pr_profile_id parsed) of
          None \<Rightarrow> Reject
        | Some p \<Rightarrow> seq_res (decode_ir_by_profile p (decoder_packet parsed) (prepare_ir e p ctx)) (\<lambda>(c, n). Done (complete_ir e p c, n, None)))
      else if t = PT_IR_DYN then (case incoming_profile (pr_profile_id parsed) of
          None \<Rightarrow> Reject
        | Some p \<Rightarrow> seq_res (decode_ir_dyn_by_profile p (decoder_packet parsed) ctx) (\<lambda>(c, n). Done (complete_ir_dyn e p c, n, None)))
      else if t = PT_FO_RTP \<and> \<not> prefer_private_rtp_fo \<and> ctx_profile ctx \<noteq> RTP_UDP_Lite \<and> ctx_profile ctx \<noteq> Uncompressed \<and>
          first_bit_clear packet \<and>
          live_pt0_context_supported ctx (decomp_large_cid_space (dg_decomp e)) (dg_cid e) (pr_has_add_cid parsed)
        then receive_legacy_pt0 packet ctx
      else receive_private e t ctx)"

definition build_packet :: "nat \<Rightarrow> rohc_context \<Rightarrow> bytes \<Rightarrow> bytes res" where
  "build_packet limit c payload =
     (let v6 = (ctx_ip_version c = 6) in
      if ctx_profile c = UDP \<or> ctx_profile c = UDP_Lite then
        if v6 then build_ipv6_udp_packet limit c payload else build_udp_packet limit c payload
      else if ctx_profile c = ESP then
        if ctx_legacy_esp_payload_includes_header c then
          if v6 then build_ipv6_ip_packet limit c payload else build_ip_packet limit c payload
        else build_esp_packet limit c payload
      else if ctx_profile c = IP then if v6 then build_ipv6_ip_packet limit c payload else build_ip_packet limit c payload
      else if v6 then build_ipv6_rtp_packet limit c payload else build_rtp_packet limit c payload)"

definition rebuild_packet :: "decoding \<Rightarrow> decoded_header \<Rightarrow> bytes res" where
  \<comment> \<open>from the payload to the test in \<open>finish_built_packet\<close>\<close>
  "rebuild_packet e h =
     (case h of (c, header_len, check) \<Rightarrow>
        seq_res (payload_after_header (decoder_packet (dg_parsed e)) header_len) (\<lambda>payload.
        let limit = (if check \<noteq> None \<and> \<not> stage_authenticated_output e then min (reconstruction_room e) max_reconstructed_ip_packet
                     else reconstruction_room e) in
        seq_res (build_packet limit c payload) (\<lambda>out. case check of
          None \<Rightarrow> Done out
        | Some (crc, n) \<Rightarrow> if length out < n then Reject else copy_in out 0 n (\<lambda>header. guard (crc3 header = crc) (Done out)))))"

definition receive_by_type :: "decoding \<Rightarrow> rohc_context \<Rightarrow> rohc_packet_type \<Rightarrow> bool \<Rightarrow> received" where
  "receive_by_type e ctx t prefer_private_rtp_fo =
     (if t = PT_Feedback then (case read_feedback_packet (pr_packet (dg_parsed e)) True of
          Fault \<Rightarrow> Fault
        | Reject \<Rightarrow> fail_with_feedback (with_context e ctx) (dg_cid e)
        | Done _ \<Rightarrow> Done (Returned (- 1) [] (with_context e ctx)))
      else if t = PT_Segment then receive_segment e ctx
      else case seq_res (decode_header_by_type e t prefer_private_rtp_fo ctx) (\<lambda>h. seq_res (rebuild_packet e h) (\<lambda>out. Done (fst h, out))) of
          Fault \<Rightarrow> Fault
        | Reject \<Rightarrow> reject_decoding e
        | Done (c, out) \<Rightarrow> accept_decoding e c (ctx_mode c) out)"

section \<open>Model: rohc_decompress4\<close>

definition decode_compact :: "decoding \<Rightarrow> rohc_context \<Rightarrow> received" where
  \<comment> \<open>from the candidates with a rebuilt fixed header on\<close>
  "decode_compact e ctx =
     (let before = dg_before e; packet = pr_packet (dg_parsed e) in
      if fixed_rtp_pt0_crc7_candidate e then deliver_reading e ctx (read_rtp_pt0_crc7 before packet)
      else if fixed_esp_pt0_crc7_candidate e then deliver_reading e ctx (read_esp_pt0_crc7 before packet)
      else if fixed_non_rtp_pt1_seq_id_candidate e then deliver_reading e ctx (read_pt1_seq_id before packet)
      else fixed_udp_pt0 e ctx (fixed_esp_pt0 e ctx (fixed_ip_pt0 e ctx (fixed_rtp_pt0 e ctx (\<lambda>prefer.
        resolve_overlap e prefer (receive_by_type e ctx))))))"

definition decode_in_context :: "decoding \<Rightarrow> rohc_context \<Rightarrow> received" where
  \<comment> \<open>the function once \<open>ctx\<close> is known\<close>
  "decode_in_context e ctx =
     (let parsed = dg_parsed e; before = dg_before e; packet = pr_packet parsed in
      if pr_type parsed = PT_Uncompressed \<and> ctx_rohc_state before \<noteq> NoContext \<and> ctx_profile before = Uncompressed then receive_uncompressed e ctx
      else if pr_type parsed = PT_IR \<and> pr_profile_id parsed = 0 then receive_uncompressed_ir e ctx
      else
        let established_rtp_context = (ctx_rohc_state ctx = DynamicEstablished \<and> (ctx_profile ctx = RTP \<or> ctx_profile ctx = RTP_UDP_Lite));
            reread = (\<not> decomp_large_cid_space (dg_decomp e) \<and> pr_cid parsed = 0 \<and> pr_type parsed = PT_Uncompressed \<and>
                      length packet > 0 \<and> packet ! 0 = 0 \<and> established_rtp_context) in
        decode_compact (if reread then e\<lparr>dg_parsed := parsed\<lparr>pr_type := PT_FO_RTP\<rparr>\<rparr> else e) ctx)"

definition entry_at :: "rohc_decomp \<Rightarrow> u32 \<Rightarrow> (nat \<times> rohc_context) option res" where
  \<comment> \<open>\<open>contexts.get(cid)\<close>\<close>
  "entry_at d cid = seq_res (context_table_get (decomp_contexts d) cid) (\<lambda>p.
     Done (map_option (\<lambda>i. (i, context_table_entry (decomp_contexts d) i)) p))"

definition choose_context :: "rohc_decomp \<Rightarrow> parsed_rohc_packet \<Rightarrow> (parsed_rohc_packet \<times> u32 \<times> (nat \<times> rohc_context) option) res" where
  \<comment> \<open>the CID of packets that carry none or carry it where a PT-0 packet has sequence number bits\<close>
  "choose_context d parsed =
     seq_res (entry_at d 0) (\<lambda>cid_zero.
     let parsed = (if \<not> decomp_large_cid_space d \<and> \<not> pr_has_add_cid parsed \<and> first_bit_clear (pr_packet parsed) \<and>
           (case cid_zero of Some (_, c) \<Rightarrow> live_pt0_context_supported c False 0 False | None \<Rightarrow> False)
         then parsed\<lparr>pr_cid := 0\<rparr> else parsed) in
     seq_res (entry_at d (pr_cid parsed)) (\<lambda>ctx.
     if pr_type parsed = PT_FO_RTP \<and> \<not> pr_has_add_cid parsed \<and>
        (case ctx of None \<Rightarrow> True | Some (_, c) \<Rightarrow> ctx_rohc_state c = NoContext) \<and>
        (case cid_zero of Some (_, c) \<Rightarrow> ctx_rohc_state c = DynamicEstablished | None \<Rightarrow> False)
     then Done (parsed, 0, cid_zero) else Done (parsed, pr_cid parsed, ctx)))"

definition enter_context :: "rohc_decomp \<Rightarrow> u32 \<Rightarrow> rohc_context \<Rightarrow> rohc_context" where
  "enter_context d cid before =
     (let ctx = before\<lparr>ctx_cid := cid, ctx_large_cid := decomp_large_cid_space d\<rparr> in
      if ctx_tx_count ctx = 0 \<and> ctx_rohc_state ctx = NoContext then ctx\<lparr>ctx_mode := decomp_mode d\<rparr> else ctx)"

definition decompress_parsed :: "rohc_decomp \<Rightarrow> feedback option \<Rightarrow> nat \<Rightarrow> parsed_rohc_packet \<Rightarrow> bytes \<Rightarrow> received" where
  "decompress_parsed d earlier capacity parsed mac =
     seq_res (choose_context d parsed) (\<lambda>(parsed, cid, entry). case entry of
       None \<Rightarrow> fail_with_feedback d cid
     | Some (i, before) \<Rightarrow>
         decode_in_context \<lparr>dg_decomp = d, dg_pending = earlier, dg_parsed = parsed, dg_icv = mac, dg_capacity = capacity,
           dg_cid = cid, dg_index = i, dg_before = before\<rparr> (enter_context d cid before))"

definition strip_icv :: "rohc_decomp \<Rightarrow> bytes \<Rightarrow> parsed_rohc_packet \<Rightarrow> (u32 + parsed_rohc_packet \<times> bytes) res" where
  \<comment> \<open>\<open>Inl\<close> is the CID of the NACK\<close>
  "strip_icv d packet parsed =
     (let icv_len = os_icv_len (decomp_oipsec d) in
      if os_enabled (decomp_oipsec d) \<and> pr_type parsed \<noteq> PT_Segment \<and> icv_len > 0 then
        if icv_len > sha256_digest_len \<or> length packet < icv_len then Done (Inl (pr_cid parsed))
        else copy_in packet (length packet - icv_len) icv_len (\<lambda>mac.
          case parse_rohc_packet (take (length packet - icv_len) packet) (decomp_large_cid_space d) of
            Fault \<Rightarrow> Fault
          | Reject \<Rightarrow> Done (Inl 0)
          | Done parsed \<Rightarrow> Done (Inr (parsed, mac)))
      else Done (Inr (parsed, [])))"

function skip_feedback :: "bytes \<Rightarrow> bytes res" where
  "skip_feedback packet =
     (if length packet > 0 \<and> is_feedback_packet_start (packet ! 0) then
        case read_feedback_prefix packet of
          Fault \<Rightarrow> Fault | Reject \<Rightarrow> Reject
        | Done (_, consumed) \<Rightarrow> skip_feedback (drop consumed packet)
      else Done packet)"
  by pat_completeness auto

termination
  by (relation "measure length") (auto dest: read_feedback_prefix_progress)

declare skip_feedback.simps [simp del]

definition decompress_once :: "rohc_decomp \<Rightarrow> bytes \<Rightarrow> nat \<Rightarrow> received" where
  \<comment> \<open>the body of \<open>rohc_decompress4\<close> up to the call of itself\<close>
  "decompress_once d rohc_packet capacity =
     (if length rohc_packet = 0 then Done (Returned (- 1) [] d)
      else let earlier = (if decomp_has_feedback d then Some (decomp_last_feedback d) else None); d = d\<lparr>decomp_has_feedback := False\<rparr> in
        case skip_feedback rohc_packet of
          Fault \<Rightarrow> Fault
        | Reject \<Rightarrow> fail_with_feedback d 0
        | Done packet \<Rightarrow>
            if packet = [] then Done (Returned (- 1) [] d)
            else (case parse_rohc_packet packet (decomp_large_cid_space d) of
                Fault \<Rightarrow> Fault
              | Reject \<Rightarrow> fail_with_feedback d 0
              | Done parsed \<Rightarrow> seq_res (strip_icv d packet parsed) (\<lambda>r. case r of
                    Inl cid \<Rightarrow> fail_with_feedback d cid
                  | Inr (parsed, mac) \<Rightarrow> decompress_parsed d earlier capacity parsed mac)))"

text \<open>
  The recursion ends: a reassembled packet is shorter than the segments it is made of, because every segment loses its
  header, and the reassembly buffer is empty when the function calls itself.
\<close>

definition shorter :: "nat \<Rightarrow> call_end \<Rightarrow> bool" where
  "shorter n r \<longleftrightarrow> (case r of Returned _ _ _ \<Rightarrow> True | Reassembled d p \<Rightarrow> length p + decomp_reassembly_len d + segment_header_len \<le> n)"

lemma shorter_Returned [simp]: "shorter n (Returned rc out d)"
  by (simp add: shorter_def)

lemma returns_cases:
  "(\<And>x. r = Done x \<Longrightarrow> returns P (f x)) \<Longrightarrow> returns P g \<Longrightarrow> returns P (case r of Done x \<Rightarrow> f x | Reject \<Rightarrow> g | Fault \<Rightarrow> Fault)"
  by (cases r) auto

lemma returns_any: "(\<And>x. returns P (k x)) \<Longrightarrow> returns P (seq_res r k)"
  by (cases r) auto

lemma ends_shorter [simp, intro]:
  "returns (shorter n) (fail_with_feedback d cid)" "returns (shorter n) (fail_decoding e c)" "returns (shorter n) (reject_decoding e)"
  "returns (shorter n) (succeed_decoding e c d out)" "returns (shorter n) (accept_decoding e c m out)"
  by (auto simp: fail_with_feedback_def fail_decoding_def reject_decoding_def succeed_decoding_def accept_decoding_def Let_def
      split: option.splits intro!: returns_any)

lemma deliveries_shorter [simp, intro]:
  "returns (shorter n) (deliver_direct e ctx r)" "returns (shorter n) (deliver_reading e ctx q)"
  "returns (shorter n) (receive_uncompressed e ctx)" "returns (shorter n) (receive_uncompressed_ir e ctx)"
  by (auto simp: deliver_direct_def deliver_reading_def receive_uncompressed_def receive_uncompressed_ir_def Let_def
      split: prod.splits res.splits)

lemma choose_udp_reading_shorter: "returns (shorter n) k \<Longrightarrow> returns (shorter n) (choose_udp_reading e ctx f p k)"
  unfolding choose_udp_reading_def by (auto split: option.splits prod.splits intro!: returns_any)

lemma fixed_pt0_shorter:
  "returns (shorter n) k \<Longrightarrow> returns (shorter n) (fixed_udp_pt0 e ctx k)"
  "returns (shorter n) k \<Longrightarrow> returns (shorter n) (fixed_esp_pt0 e ctx k)"
  "returns (shorter n) k \<Longrightarrow> returns (shorter n) (fixed_ip_pt0 e ctx k)"
  "(\<And>b. returns (shorter n) (kb b)) \<Longrightarrow> returns (shorter n) (fixed_rtp_pt0 e ctx kb)"
  "(\<And>t b. returns (shorter n) (kt t b)) \<Longrightarrow> returns (shorter n) (resolve_overlap e b kt)"
  by (auto simp: fixed_udp_pt0_def fixed_esp_pt0_def fixed_ip_pt0_def fixed_rtp_pt0_def resolve_overlap_def Let_def
      split: option.splits intro!: returns_any choose_udp_reading_shorter)

lemma append_segment_shorter:
  "decomp_reassembly_len d + length payload + segment_header_len \<le> n \<Longrightarrow> returns (shorter n) (append_segment d cid segment payload)"
  by (simp add: append_segment_def store_segment_def finish_segment_def stop_reassembly_def shorter_def copy_in_def Let_def)

lemma receive_segment_shorter:
  "returns (shorter (length (pr_packet (dg_parsed e)) + decomp_reassembly_len (dg_decomp e))) (receive_segment e ctx)"
proof -
  have start: "decomp_reassembly_len (start_reassembly (with_context e ctx)) \<le> decomp_reassembly_len (dg_decomp e)"
    by (simp add: start_reassembly_def with_context_def)
  show ?thesis
    unfolding receive_segment_def Let_def
    by (rule returns_any)
      (use start in \<open>auto simp: stop_reassembly_def segment_header_len_def split: option.split intro!: append_segment_shorter\<close>)
qed

lemma receive_by_type_shorter:
  "returns (shorter (length (pr_packet (dg_parsed e)) + decomp_reassembly_len (dg_decomp e))) (receive_by_type e ctx t b)"
  unfolding receive_by_type_def
  by (auto simp: receive_segment_shorter split: res.splits prod.splits)

lemma decode_compact_shorter:
  "returns (shorter (length (pr_packet (dg_parsed e)) + decomp_reassembly_len (dg_decomp e))) (decode_compact e ctx)"
proof -
  let ?n = "length (pr_packet (dg_parsed e)) + decomp_reassembly_len (dg_decomp e)"
  have "returns (shorter ?n) (fixed_udp_pt0 e ctx (fixed_esp_pt0 e ctx (fixed_ip_pt0 e ctx (fixed_rtp_pt0 e ctx (\<lambda>prefer.
      resolve_overlap e prefer (receive_by_type e ctx))))))"
    by (intro fixed_pt0_shorter receive_by_type_shorter)
  then show ?thesis by (simp add: decode_compact_def Let_def)
qed

lemma decode_in_context_shorter:
  "returns (shorter (length (pr_packet (dg_parsed e)) + decomp_reassembly_len (dg_decomp e))) (decode_in_context e ctx)"
  using decode_compact_shorter [of e ctx] decode_compact_shorter [of "e\<lparr>dg_parsed := (dg_parsed e)\<lparr>pr_type := PT_FO_RTP\<rparr>\<rparr>" ctx]
  by (simp add: decode_in_context_def Let_def)

lemma parse_packet_length: "parse_rohc_packet packet large = Done parsed \<Longrightarrow> length (pr_packet parsed) \<le> length packet"
  using parse_rohc_packet_result [of packet large parsed] by (auto simp: PacketType.parsed_ok_def)

lemma skip_feedback_length: "skip_feedback packet = Done q \<Longrightarrow> length q \<le> length packet"
proof (induction packet rule: skip_feedback.induct)
  case (1 packet)
  show ?case
  proof (cases "length packet > 0 \<and> is_feedback_packet_start (packet ! 0)")
    case True
    then obtain fb n where r: "read_feedback_prefix packet = Done (fb, n)"
      using "1.prems" by (subst (asm) skip_feedback.simps) (auto split: res.splits)
    then have "skip_feedback (drop n packet) = Done q"
      using "1.prems" True by (subst (asm) skip_feedback.simps) auto
    then have "length q \<le> length (drop n packet)" using "1.IH" [OF True r refl] by simp
    then show ?thesis by simp
  qed (use "1.prems" in \<open>auto simp: skip_feedback.simps [of packet]\<close>)
qed

lemma decompress_parsed_shorter:
  "returns (shorter (length (pr_packet parsed) + decomp_reassembly_len d)) (decompress_parsed d earlier capacity parsed mac)"
proof -
  have "returns (\<lambda>r. pr_packet (fst r) = pr_packet parsed) (choose_context d parsed)"
    unfolding choose_context_def Let_def by (intro returns_any) simp
  then show ?thesis
    unfolding decompress_parsed_def
  proof (rule returns_seq)
    fix r :: "parsed_rohc_packet \<times> u32 \<times> (nat \<times> rohc_context) option"
    assume r: "pr_packet (fst r) = pr_packet parsed"
    have "returns (shorter (length (pr_packet (fst r)) + decomp_reassembly_len d)) (decode_in_context
      \<lparr>dg_decomp = d, dg_pending = earlier, dg_parsed = fst r, dg_icv = mac, dg_capacity = capacity, dg_cid = cid, dg_index = i,
       dg_before = before\<rparr> ctx)" for cid i before ctx
      using decode_in_context_shorter [of "\<lparr>dg_decomp = d, dg_pending = earlier, dg_parsed = fst r, dg_icv = mac,
        dg_capacity = capacity, dg_cid = cid, dg_index = i, dg_before = before\<rparr>" ctx] by simp
    with r show "returns (shorter (length (pr_packet parsed) + decomp_reassembly_len d)) (case r of (parsed, cid, entry) \<Rightarrow>
        case entry of None \<Rightarrow> fail_with_feedback d cid
        | Some (i, before) \<Rightarrow> decode_in_context \<lparr>dg_decomp = d, dg_pending = earlier, dg_parsed = parsed, dg_icv = mac,
            dg_capacity = capacity, dg_cid = cid, dg_index = i, dg_before = before\<rparr> (enter_context d cid before))"
      by (auto split: prod.splits option.splits)
  qed
qed

lemma returns_shorter_mono: "returns (shorter m) r \<Longrightarrow> m \<le> n \<Longrightarrow> returns (shorter n) r"
  by (cases r) (auto simp: shorter_def split: call_end.splits)

lemma decompress_once_shorter:
  assumes "decompress_once d packet capacity = Done (Reassembled u q)"
  shows "length q + decomp_reassembly_len u + 2 \<le> length packet + decomp_reassembly_len d"
proof -
  let ?n = "length packet + decomp_reassembly_len d" and ?d = "d\<lparr>decomp_has_feedback := False\<rparr>"
  have parsed: "returns (shorter ?n) (decompress_parsed ?d earlier capacity parsed mac)"
    if "length (pr_packet parsed) \<le> length packet" for earlier parsed mac
    by (rule returns_shorter_mono [OF decompress_parsed_shorter]) (use that in simp)
  have strip: "returns (\<lambda>r. case r of Inl _ \<Rightarrow> True | Inr (p, _) \<Rightarrow> length (pr_packet p) \<le> length packet) (strip_icv ?d rest parsed)"
    if "length (pr_packet parsed) \<le> length packet" "length rest \<le> length packet" for rest parsed
    using that by (auto simp: strip_icv_def Let_def copy_in_def split: res.splits dest: parse_packet_length)
  have rest: "returns (shorter ?n) (case parse_rohc_packet rest (decomp_large_cid_space ?d) of
      Done parsed \<Rightarrow> seq_res (strip_icv ?d rest parsed) (\<lambda>r. case r of Inl cid \<Rightarrow> fail_with_feedback ?d cid
        | Inr (parsed, mac) \<Rightarrow> decompress_parsed ?d earlier capacity parsed mac)
    | Reject \<Rightarrow> fail_with_feedback ?d 0 | Fault \<Rightarrow> Fault)" if "length rest \<le> length packet" for rest earlier
  proof (rule returns_cases)
    fix x assume "parse_rohc_packet rest (decomp_large_cid_space ?d) = Done x"
    then have "length (pr_packet x) \<le> length packet" using parse_packet_length that by fastforce
    from strip [OF this that] show "returns (shorter ?n) (seq_res (strip_icv ?d rest x) (\<lambda>r. case r of Inl cid \<Rightarrow> fail_with_feedback ?d cid
        | Inr (parsed, mac) \<Rightarrow> decompress_parsed ?d earlier capacity parsed mac))"
      by (rule returns_seq) (auto split: sum.splits intro: parsed)
  qed simp
  have "returns (shorter ?n) (decompress_once d packet capacity)"
    unfolding decompress_once_def Let_def using rest skip_feedback_length
    by (auto split: res.split)
  with assms show ?thesis by (simp add: shorter_def segment_header_len_def)
qed

function rohc_decompress4 :: "rohc_decomp \<Rightarrow> bytes \<Rightarrow> nat \<Rightarrow> (int \<times> bytes \<times> rohc_decomp) res" where
  "rohc_decompress4 d rohc_packet capacity =
     (case decompress_once d rohc_packet capacity of
        Done (Returned rc out d) \<Rightarrow> Done (rc, out, d)
      | Done (Reassembled d reassembled) \<Rightarrow> rohc_decompress4 d reassembled capacity
      | Reject \<Rightarrow> Reject | Fault \<Rightarrow> Fault)"
  by pat_completeness auto

termination
  by (relation "measure (\<lambda>(d, packet, capacity). length packet + decomp_reassembly_len d)") (auto dest!: decompress_once_shorter)

declare rohc_decompress4.simps [simp del]

definition rohc_decomp_rfc4362_receive_csp :: "rohc_decomp \<Rightarrow> bytes \<Rightarrow> nat \<Rightarrow> (int \<times> bytes \<times> rohc_decomp) res" where
  "rohc_decomp_rfc4362_receive_csp d csp_packet capacity =
     (if \<not> decomp_lla_enabled d \<or> \<not> can_emit_context_synchronization_packet (decomp_lla_contract d) then Done (- 1, [], d)
      else case read_context_synchronization_packet csp_packet of
          Fault \<Rightarrow> Fault
        | Reject \<Rightarrow> seq_res (set_feedback d 0 NACK) (\<lambda>d. Done (- 1, [], d))
        | Done csp \<Rightarrow>
            if csp_rohc_header csp = [] then seq_res (set_feedback d 0 NACK) (\<lambda>d. Done (- 1, [], d))
            else rohc_decompress4 d (csp_rohc_header csp) capacity)"

section \<open>The recursion over reassembled packets\<close>

function nested_calls :: "rohc_decomp \<Rightarrow> bytes \<Rightarrow> nat \<Rightarrow> nat" where
  \<comment> \<open>how many calls of itself \<open>rohc_decompress4\<close> has on the stack before it returns\<close>
  "nested_calls d packet capacity =
     (case decompress_once d packet capacity of
        Done (Reassembled d reassembled) \<Rightarrow> Suc (nested_calls d reassembled capacity)
      | _ \<Rightarrow> 0)"
  by pat_completeness auto

termination
  by (relation "measure (\<lambda>(d, packet, capacity). length packet + decomp_reassembly_len d)") (auto dest!: decompress_once_shorter)

declare nested_calls.simps [simp del]

lemma nested_calls_bound: "2 * nested_calls d packet capacity \<le> length packet + decomp_reassembly_len d"
proof (induction d packet capacity rule: nested_calls.induct)
  case (1 d packet capacity)
  show ?case
  proof (cases "\<exists>u q. decompress_once d packet capacity = Done (Reassembled u q)")
    case True
    then obtain u q where r: "decompress_once d packet capacity = Done (Reassembled u q)" by blast
    then have "2 * nested_calls u q capacity \<le> length q + decomp_reassembly_len u" using 1 by blast
    then show ?thesis using decompress_once_shorter [OF r] r by (simp add: nested_calls.simps [of d packet])
  qed (auto simp: nested_calls.simps [of d packet] split: res.splits call_end.splits)
qed

text \<open>A decompressor that waits for the first segment, without integrity protection and with small CIDs.\<close>

definition waits_for_segment :: "rohc_decomp \<Rightarrow> bool" where
  "waits_for_segment d \<longleftrightarrow> table_ok (decomp_contexts d) \<and> \<not> decomp_large_cid_space d \<and> \<not> os_enabled (decomp_oipsec d) \<and>
     decomp_mrru d = segment_buffer_max \<and> \<not> decomp_reassembly_active d \<and> length (decomp_reassembly d) = segment_buffer_max"

lemma segment_packet_parsed:
  "parse_rohc_packet (0xFF # q) False =
     Done \<lparr>pr_wire = 0xFF # q, pr_packet = 0xFF # q, pr_cid = 0, pr_has_add_cid = False, pr_has_large_cid = False, pr_cid_len = 0,
           pr_type = PT_Segment, pr_profile_id = 0\<rparr>"
  by (simp add: parse_rohc_packet_def parse_typed_def parse_body_def detect_packet_type_def is_uncompressed_ip_payload_def)

lemma segment_reaches_reassembly:
  assumes "pr_type (dg_parsed e) = PT_Segment" and "\<not> first_bit_clear (pr_packet (dg_parsed e))"
  shows "decode_in_context e ctx = receive_segment e ctx"
  using assms
  by (simp add: decode_in_context_def decode_compact_def fixed_rtp_pt0_crc7_candidate_def fixed_esp_pt0_crc7_candidate_def
      fixed_non_rtp_pt1_seq_id_candidate_def fixed_udp_pt0_def fixed_udp_pt0_candidate_def fixed_esp_pt0_def fixed_esp_pt0_candidate_def
      fixed_ip_pt0_def fixed_ip_pt0_candidate_def fixed_rtp_pt0_def fixed_rtp_pt0_candidate_def resolve_overlap_def receive_by_type_def
      private_fo_overlap_def Let_def)

lemma only_segment_reassembled:
  assumes "pr_type (dg_parsed e) = PT_Segment" and "pr_packet (dg_parsed e) = 0xFF # 0 # q" and "q \<noteq> []" and "length q \<le> segment_buffer_max"
    and "waits_for_segment (dg_decomp e)"
  shows "receive_segment e ctx = Done (Reassembled ((with_context e ctx)
     \<lparr>decomp_reassembly := q @ drop (length q) (decomp_reassembly (dg_decomp e)), decomp_reassembly_active := False,
      decomp_reassembly_len := 0, decomp_expected_segment_sequence := 0\<rparr>) q)"
  using assms
  by (cases q) (simp_all add: receive_segment_def read_segment_header_def append_segment_def start_reassembly_def store_segment_def
      finish_segment_def copy_in_def waits_for_segment_def with_context_def segment_header_len_def or_none_def Let_def)

lemma enter_context_wf: "context_wf c \<Longrightarrow> context_wf (enter_context d cid c)"
  by (simp add: enter_context_def context_wf_def Let_def)

lemma nested_step:
  assumes w: "waits_for_segment d" and q: "q \<noteq> []" "length q \<le> segment_buffer_max"
  shows "\<exists>u. decompress_once d (0xFF # 0 # q) capacity = Done (Reassembled u q) \<and> waits_for_segment u"
proof -
  let ?d = "d\<lparr>decomp_has_feedback := False\<rparr>" and ?c = "context_table_entry (decomp_contexts d) 0"
  have ok: "table_ok (decomp_contexts d)" "\<not> decomp_large_cid_space d" "\<not> os_enabled (decomp_oipsec d)"
    using w by (simp_all add: waits_for_segment_def)
  have get: "context_table_get (decomp_contexts d) 0 = Done (Some 0)" using ok get_zero by blast
  have skip: "skip_feedback (0xFF # 0 # q) = Done (0xFF # 0 # q)"
    by (simp add: skip_feedback.simps is_feedback_packet_start_def)
  obtain e where e: "decompress_once d (0xFF # 0 # q) capacity = decode_in_context e (enter_context ?d 0 ?c)"
      and dg: "dg_decomp e = ?d" "dg_index e = 0" "pr_type (dg_parsed e) = PT_Segment" "pr_packet (dg_parsed e) = 0xFF # 0 # q"
    using ok get skip
    by (simp add: decompress_once_def segment_packet_parsed strip_icv_def decompress_parsed_def choose_context_def entry_at_def
        first_bit_clear_def Let_def)
  have "waits_for_segment (dg_decomp e)" "\<not> first_bit_clear (pr_packet (dg_parsed e))"
    using w dg by (simp_all add: waits_for_segment_def first_bit_clear_def)
  moreover have "table_ok (context_table_set (decomp_contexts d) 0 (enter_context ?d 0 ?c))"
    using contexts.ok_upd [OF ok(1) get enter_context_wf] contexts.get_good [OF ok(1) get] .
  ultimately show ?thesis
    using e dg q w by (simp add: segment_reaches_reassembly only_segment_reassembled with_context_def waits_for_segment_def)
qed

fun nested :: "nat \<Rightarrow> bytes \<Rightarrow> bytes" where
  \<comment> \<open>the packet as the only segment of a packet that is the only segment of a packet, and so on\<close>
  "nested 0 q = q"
| "nested (Suc n) q = 0xFF # 0 # nested n q"

lemma nested_length [simp]: "length (nested n q) = 2 * n + length q"
  by (induction n) auto

lemma nested_calls_nested:
  "waits_for_segment d \<Longrightarrow> q \<noteq> [] \<Longrightarrow> 2 * n + length q \<le> segment_buffer_max + 2 \<Longrightarrow> n \<le> nested_calls d (nested n q) capacity"
proof (induction n arbitrary: d)
  case (Suc n)
  then have "nested n q \<noteq> []" by (cases n) auto
  then obtain u where "decompress_once d (0xFF # 0 # nested n q) capacity = Done (Reassembled u (nested n q))" "waits_for_segment u"
    using nested_step [of d "nested n q" capacity] Suc.prems by auto
  then show ?case using Suc by (simp add: nested_calls.simps [of d "0xFF # 0 # nested n q"])
qed simp

primrec decompress_on_stack :: "nat \<Rightarrow> rohc_decomp \<Rightarrow> bytes \<Rightarrow> nat \<Rightarrow> (int \<times> bytes \<times> rohc_decomp) res option" where
  \<comment> \<open>\<open>rohc_decompress4\<close> with room for so many frames on the stack; \<open>None\<close> when it needs one more\<close>
  "decompress_on_stack 0 d packet capacity = None"
| "decompress_on_stack (Suc frames) d packet capacity =
     (case decompress_once d packet capacity of
        Done (Returned rc out d) \<Rightarrow> Some (Done (rc, out, d))
      | Done (Reassembled d reassembled) \<Rightarrow> decompress_on_stack frames d reassembled capacity
      | Reject \<Rightarrow> Some Reject | Fault \<Rightarrow> Some Fault)"

lemma decompress_on_stack_eq:
  "decompress_on_stack frames d packet capacity =
     (if nested_calls d packet capacity < frames then Some (rohc_decompress4 d packet capacity) else None)"
proof (induction frames arbitrary: d packet)
  case (Suc frames)
  then show ?case
    by (auto simp: nested_calls.simps [of d packet] rohc_decompress4.simps [of d packet] split: res.splits call_end.splits)
qed simp

text \<open>
  C15. \<open>rohc_decompress4\<close> returns on every packet. Each of its calls of itself takes at least the two octets of a segment
  header off the packet and the octets waiting for reassembly, so half their number and one more frames of stack are enough
  for its result. They are needed: a decompressor without integrity protection that waits for a segment uses 2048 nested calls
  for a packet of 4097 octets, \<open>nested 2048 [b]\<close>, which is nothing but segment headers inside segments.
\<close>

theorem decompress_recursion:
  "decompress_on_stack (Suc ((length packet + decomp_reassembly_len d) div 2)) d packet capacity = Some (rohc_decompress4 d packet capacity) \<and>
   (waits_for_segment d \<and> 2 * n \<le> segment_buffer_max \<longrightarrow> decompress_on_stack n d (nested n [b]) capacity = None)"
proof (intro conjI impI)
  show "decompress_on_stack (Suc ((length packet + decomp_reassembly_len d) div 2)) d packet capacity = Some (rohc_decompress4 d packet capacity)"
    using nested_calls_bound [of d packet capacity] by (auto simp: decompress_on_stack_eq)
  assume a: "waits_for_segment d \<and> 2 * n \<le> segment_buffer_max"
  then have "n \<le> nested_calls d (nested n [b]) capacity" using nested_calls_nested by simp
  then show "decompress_on_stack n d (nested n [b]) capacity = None" by (simp add: decompress_on_stack_eq)
qed

theorem decompress_recursion_witness:
  "waits_for_segment (snd (rohc_decomp_set_mrru (the (rohc_decomp_new2 0 Uplink)) 4096)) \<and>
   decompress_on_stack 2048 (snd (rohc_decomp_set_mrru (the (rohc_decomp_new2 0 Uplink)) 4096)) (nested 2048 [0]) 1500 = None"
proof -
  let ?d = "snd (rohc_decomp_set_mrru (the (rohc_decomp_new2 0 Uplink)) 4096)"
  have "waits_for_segment ?d"
    using context_table_init_ok [of 0]
    by (simp add: rohc_decomp_set_mrru_def rohc_decomp_new2_def waits_for_segment_def segment_buffer_max_def large_cid_max_def
        small_cid_max_def oipsec_off_def)
  then show ?thesis using decompress_recursion [of "[0]" ?d 1500 2048 0] by (simp add: segment_buffer_max_def)
qed

end
