(* ===== verification/CApiSafety.thy ===== *)
theory CApiSafety
  imports CApiDecompress
begin

text \<open>
  The invariants of the objects behind the handles of the C interface, and what a call of \<open>rohc_decompress4\<close> keeps: it stays
  inside every buffer and array on every packet, writes at most the given capacity, and touches one context only when it
  succeeds.
\<close>

section \<open>Packet images\<close>

lemma context_wf_more_updates [simp]:
  "context_wf (c\<lparr>ctx_cid := x1\<rparr>) = context_wf c" "context_wf (c\<lparr>ctx_large_cid := b\<rparr>) = context_wf c"
  "context_wf (c\<lparr>ctx_tx_count := x2\<rparr>) = context_wf c" "context_wf (c\<lparr>ctx_nack_count := x3\<rparr>) = context_wf c"
  "context_wf (c\<lparr>ctx_profile_has_been_used := b\<rparr>) = context_wf c" "context_wf (c\<lparr>ctx_formal_pt0_since_confirmation := x3\<rparr>) = context_wf c"
  "context_wf (c\<lparr>ctx_formal_pt0_crc7_seen := b\<rparr>) = context_wf c" "context_wf (c\<lparr>ctx_formal_pt0_crc3_retired := b\<rparr>) = context_wf c"
  "context_wf (c\<lparr>ctx_reject_legacy_udp_pt0_until_refresh := b\<rparr>) = context_wf c"
  "context_wf (c\<lparr>ctx_limit_legacy_udp_pt0_to_sequential := b\<rparr>) = context_wf c"
  "context_wf (c\<lparr>ctx_compact_profile_replacement_seen := b\<rparr>) = context_wf c"
  by (simp_all add: context_wf_def)

lemma unat_byte_le: "unat (b :: byte) \<le> 255"
proof -
  have "unat b < 256" using unsigned_less [of b] by simp
  then show ?thesis by linarith
qed

lemma safe_put_all [safe_intros]: "length out + length bs \<le> cap \<Longrightarrow> safe P (k (out @ bs)) \<Longrightarrow> safe P (put_all cap out bs k)"
  by simp

lemma extras_not_Fault: "context_wf c \<Longrightarrow> safe (\<lambda>(a, b, n). a \<le> 60 \<and> b \<le> 256 \<and> n \<le> 255) (rtp_context_payload_layout c)"
  using rtp_extras_body_len_safe [of "ctx_rtp c"] unat_byte_le [of "rtp_padding_len (ctx_rtp c)"]
  by (cases "rtp_extras_body_len (ctx_rtp c)") (auto simp: rtp_context_payload_layout_def context_wf_def rtp_context_wf_def)

lemma safe_checked [safe_intros]: "safe P (k (a + b)) \<Longrightarrow> safe P (seq_res (checked_packet_size a b) k)"
  by (simp add: checked_packet_size_def)

lemma build_ip_packet_safe: "context_wf c \<Longrightarrow> safe (\<lambda>out. length out \<le> cap) (build_ip_packet cap c payload)"
  unfolding build_ip_packet_def Let_def by (intro safe_checked) (auto simp: context_wf_def)

lemma build_udp_packet_safe: "context_wf c \<Longrightarrow> safe (\<lambda>out. length out \<le> cap) (build_udp_packet cap c payload)"
  unfolding build_udp_packet_def Let_def by (intro safe_checked) (auto simp: context_wf_def)

lemma put_rtp_safe:
  "context_wf c \<Longrightarrow> a \<le> 60 \<Longrightarrow> b \<le> 256 \<Longrightarrow> n \<le> 255 \<Longrightarrow> length out + 12 + a + b + length payload + n \<le> cap \<Longrightarrow>
     safe (\<lambda>out. length out \<le> cap) (put_rtp cap out c a b n payload)"
  by (simp add: put_rtp_def context_wf_def rtp_context_wf_def)

lemma build_ipv6_header_safe:
  "context_wf c \<Longrightarrow> 40 + unat (ctx_ipv6_extension_len c) \<le> cap \<Longrightarrow>
     safe (\<lambda>out. length out = 40 + unat (ctx_ipv6_extension_len c)) (build_ipv6_header cap tot c upper_len)"
  by (simp add: build_ipv6_header_def ipv6_octets_def context_wf_def Let_def)

lemma build_rtp_packet_safe:
  assumes "context_wf c"
  shows "safe (\<lambda>out. length out \<le> cap) (build_rtp_packet cap c payload)"
proof -
  have "unat (ctx_ipv4_options_len c) \<le> length (ctx_ipv4_options c)" using assms by (simp add: context_wf_def)
  then show ?thesis
    unfolding build_rtp_packet_def Let_def prod.case_eq_if
    by (intro safe_seq [OF extras_not_Fault] safe_checked safe_if safe_RejectI safe_copy_in safe_put_all put_rtp_safe)
      (use assms in auto)
qed

lemma build_ipv6_ip_packet_safe: "context_wf c \<Longrightarrow> safe (\<lambda>out. length out \<le> cap) (build_ipv6_ip_packet cap c payload)"
  unfolding build_ipv6_ip_packet_def Let_def
  by (intro safe_seq [OF build_ipv6_header_safe] safe_checked safe_if safe_RejectI safe_DoneI safe_put_all) auto

lemma build_ipv6_udp_packet_safe: "context_wf c \<Longrightarrow> safe (\<lambda>out. length out \<le> cap) (build_ipv6_udp_packet cap c payload)"
  unfolding build_ipv6_udp_packet_def Let_def
  by (intro safe_seq [OF build_ipv6_header_safe] safe_checked safe_if safe_RejectI safe_DoneI safe_put_all) auto

lemma build_ipv6_rtp_packet_safe: "context_wf c \<Longrightarrow> safe (\<lambda>out. length out \<le> cap) (build_ipv6_rtp_packet cap c payload)"
  unfolding build_ipv6_rtp_packet_def Let_def prod.case_eq_if
  by (intro safe_seq [OF extras_not_Fault] safe_seq [OF build_ipv6_header_safe] safe_checked safe_if safe_RejectI safe_put_all put_rtp_safe)
    auto

lemma build_esp_packet_safe: "context_wf c \<Longrightarrow> safe (\<lambda>out. length out \<le> cap) (build_esp_packet cap c payload)"
  unfolding build_esp_packet_def Let_def
  by (intro safe_if safe_RejectI build_ipv6_ip_packet_safe build_ip_packet_safe)

lemmas builders_safe = build_ip_packet_safe build_udp_packet_safe build_rtp_packet_safe build_ipv6_ip_packet_safe
  build_ipv6_udp_packet_safe build_ipv6_rtp_packet_safe build_esp_packet_safe

lemma build_packet_safe: "context_wf c \<Longrightarrow> safe (\<lambda>out. length out \<le> limit) (build_packet limit c payload)"
  unfolding build_packet_def Let_def by (intro safe_if builders_safe)

lemma fixed_headers_safe:
  "safe (\<lambda>h. length h = 40) (build_fixed_rtp_ipv4_header c n)" "safe (\<lambda>h. length h = 28) (build_fixed_udp_ipv4_header c n)"
  "safe (\<lambda>h. length h = 28) (build_fixed_esp_ipv4_header c n)" "safe (\<lambda>h. length h = 20) (build_fixed_ip_ipv4_header c n)"
  by (simp_all add: build_fixed_rtp_ipv4_header_def build_fixed_udp_ipv4_header_def build_fixed_esp_ipv4_header_def
      build_fixed_ip_ipv4_header_def)

lemma udp_checksum_total: "length header = 28 \<Longrightarrow> \<exists>ok. udp_checksum_valid header prefix payload = Done ok"
  by (auto simp: udp_checksum_valid_def Let_def)

section \<open>Reading compact packets\<close>

lemma read_bits_stays:
  "br_bitpos br + n \<le> 8 * length (br_buf br) \<Longrightarrow>
     safe (\<lambda>(v, br'). br_buf br' = br_buf br \<and> br_bitpos br' \<le> br_bitpos br + n) (read_bits br n)"
  by (simp add: read_bits_def read_loop_bits)

lemma read_fields_stays: "br_bitpos br + sum_list ns \<le> 8 * length (br_buf br) \<Longrightarrow> safe (\<lambda>_. True) (read_fields br ns)"
proof (induction ns arbitrary: br)
  case (Cons n ns)
  show ?case
    using Cons.prems by (auto intro!: safe_seq [OF read_bits_stays] safe_seq [OF Cons.IH])
qed simp

lemma read_base_fields_safe: "n + sum_list ns \<le> 8 * length base \<Longrightarrow> safe (\<lambda>_. True) (read_base_fields base m n tag ns fill)"
  unfolding read_base_fields_def
  by (auto simp: bit_reader_unbounded_def bit_reader_bounded_def intro!: safe_seq [OF read_bits_stays] safe_seq [OF read_fields_stays])

lemma read_formal_co_base_safe:
  "v = Pt0Crc3 \<and> length packet \<ge> 1 \<or> (v = Pt0Crc7 \<or> v = Pt1SeqId) \<and> length packet \<ge> 2 \<Longrightarrow>
     safe (\<lambda>_. True) (read_formal_co_base packet n p v q)"
  by (auto simp: read_formal_co_base_def base_read_list_def Let_def intro!: read_base_fields_safe)

lemma forward_msn_safe: "safe (\<lambda>_. True) (decode_forward_formal_msn c l w)" "safe (\<lambda>_. True) (decode_forward_formal_pt0_msn c l)"
proof -
  show "safe (\<lambda>_. True) (decode_forward_formal_msn c l w)" for w
    unfolding decode_forward_formal_msn_def Let_def
    by (intro safe_if safe_RejectI safe_seq [where Q = "\<lambda>_. True"] safe_guard safe_DoneI) (auto simp: decode_lsb_with_p_def Let_def)
  then show "safe (\<lambda>_. True) (decode_forward_formal_pt0_msn c l)" by (simp add: decode_forward_formal_pt0_msn_eq)
qed

lemma payload_after_header_safe: "safe (\<lambda>p. p = drop n packet \<and> n \<le> length packet) (payload_after_header packet n)"
  by (simp add: payload_after_header_def)

lemma ip_id_offset_safe: "safe (\<lambda>_. True) (decode_ip_id_offset_lsb_with_p l m r w p)"
  by (auto simp: decode_ip_id_offset_lsb_with_p_def decode_field_lsb_with_p_def decode_lsb_with_p_def Let_def)

lemma advances_wf [simp]:
  "context_wf (advance_rtp c m) = context_wf c" "context_wf (advance_esp c m) = context_wf c" "context_wf (advance_id c m) = context_wf c"
  "context_wf (advance_formal c m) = context_wf c"
  by (simp_all add: advance_rtp_def advance_esp_def advance_id_def advance_formal_def context_wf_def rtp_context_wf_def Let_def)

definition reading_ok :: "reading \<Rightarrow> bool" where
  "reading_ok r \<longleftrightarrow> (case r of (c, header, payload) \<Rightarrow> context_wf c)"

definition udp_reading_ok :: "reading \<Rightarrow> bool" where
  "udp_reading_ok r \<longleftrightarrow> (case r of (c, header, payload) \<Rightarrow> context_wf c \<and> length header = 28)"

lemma rebuild_header_safe:
  assumes "context_wf c" and "\<And>c n. safe (\<lambda>_. True) (build c n)"
  shows "safe reading_ok (rebuild_header build crc header_crc packet n c)"
  unfolding rebuild_header_def
  by (intro safe_seq [OF payload_after_header_safe] safe_seq [OF assms(2)] safe_guard safe_DoneI) (use assms(1) in \<open>simp add: reading_ok_def\<close>)

lemma rebuild_udp_header_safe:
  "context_wf c \<Longrightarrow> safe udp_reading_ok (rebuild_header build_fixed_udp_ipv4_header crc header_crc packet n c)"
  unfolding rebuild_header_def
  by (intro safe_seq [OF payload_after_header_safe] safe_seq [OF fixed_headers_safe(2)] safe_guard safe_DoneI) (simp add: udp_reading_ok_def)

lemma fixed_headers_return:
  "safe (\<lambda>_. True) (build_fixed_rtp_ipv4_header c n)" "safe (\<lambda>_. True) (build_fixed_udp_ipv4_header c n)"
  "safe (\<lambda>_. True) (build_fixed_esp_ipv4_header c n)" "safe (\<lambda>_. True) (build_fixed_ip_ipv4_header c n)"
  "safe (\<lambda>_. True) (build_fixed_header c n)"
  using fixed_headers_safe [of c n] by (auto simp: build_fixed_header_def elim: safe_mono)

lemma read_udp_checksum_safe: "context_wf c \<Longrightarrow> safe (\<lambda>(c, n). context_wf c) (read_udp_checksum packet n c)"
  by (auto simp: read_udp_checksum_def)

lemmas reading_steps = safe_seq [OF read_formal_co_base_safe] safe_seq [OF forward_msn_safe(1)] safe_seq [OF forward_msn_safe(2)]
  safe_guard safe_RejectI safe_seq [OF ip_id_offset_safe] rebuild_header_safe fixed_headers_return

lemma readings_safe:
  assumes wf: "context_wf c"
  shows "length packet \<ge> 2 \<Longrightarrow> safe reading_ok (read_rtp_pt0_crc7 c packet)"
    "length packet \<ge> 2 \<Longrightarrow> safe reading_ok (read_esp_pt0_crc7 c packet)"
    "length packet \<ge> 2 \<Longrightarrow> safe reading_ok (read_pt1_seq_id c packet)"
    "length packet \<ge> 1 \<Longrightarrow> safe udp_reading_ok (read_udp_pt0 c packet)"
    "safe reading_ok (read_esp_pt0 c packet b)"
    "length packet \<ge> 1 \<Longrightarrow> safe reading_ok (read_ip_pt0 c packet)"
    "length packet \<ge> 1 \<Longrightarrow> safe reading_ok (read_rtp_pt0 c packet)"
proof -
  show "length packet \<ge> 2 \<Longrightarrow> safe reading_ok (read_rtp_pt0_crc7 c packet)"
    unfolding read_rtp_pt0_crc7_def by (intro reading_steps) (use wf in auto)
  show "length packet \<ge> 2 \<Longrightarrow> safe reading_ok (read_esp_pt0_crc7 c packet)"
    unfolding read_esp_pt0_crc7_def
    by (intro reading_steps safe_seq [where Q = reading_ok]) (use wf in \<open>auto simp: reading_ok_def\<close>)
  show "length packet \<ge> 2 \<Longrightarrow> safe reading_ok (read_pt1_seq_id c packet)"
    unfolding read_pt1_seq_id_def Let_def
    by (intro reading_steps safe_seq [OF read_udp_checksum_safe]) (use wf in \<open>auto simp: intro!: reading_steps\<close>)
  show "length packet \<ge> 1 \<Longrightarrow> safe udp_reading_ok (read_udp_pt0 c packet)"
    unfolding read_udp_pt0_def Let_def
    by (intro reading_steps safe_seq [OF read_udp_checksum_safe]) (use wf in \<open>auto intro!: rebuild_udp_header_safe\<close>)
  show "safe reading_ok (read_esp_pt0 c packet b)"
    unfolding read_esp_pt0_def by (intro reading_steps) (use wf in auto)
  show "length packet \<ge> 1 \<Longrightarrow> safe reading_ok (read_ip_pt0 c packet)"
    unfolding read_ip_pt0_def by (intro reading_steps) (use wf in auto)
  show "length packet \<ge> 1 \<Longrightarrow> safe reading_ok (read_rtp_pt0 c packet)"
    unfolding read_rtp_pt0_def by (intro reading_steps) (use wf in auto)
qed

section \<open>The invariant of a decompressor\<close>

definition oipsec_ok :: "oipsec_settings \<Rightarrow> bool" where
  "oipsec_ok s \<longleftrightarrow> length (os_key s) = rohcoipsec_key_max \<and> os_key_len s \<le> rohcoipsec_key_max \<and>
     (os_algorithm s = integrity_none \<longrightarrow> os_icv_len s = 0)"

definition decomp_ok :: "rohc_decomp \<Rightarrow> bool" where
  "decomp_ok d \<longleftrightarrow> table_ok (decomp_contexts d) \<and> length (decomp_reassembly d) = segment_buffer_max \<and>
     decomp_reassembly_len d \<le> segment_buffer_max \<and> decomp_mrru d \<le> segment_buffer_max \<and> oipsec_ok (decomp_oipsec d)"

text \<open>What a call that does not deliver a packet may change in a context: the identification and the mode.\<close>

definition entry_like :: "rohc_context \<Rightarrow> rohc_context \<Rightarrow> bool" where
  "entry_like c c' \<longleftrightarrow> c'\<lparr>ctx_cid := ctx_cid c, ctx_large_cid := ctx_large_cid c, ctx_mode := ctx_mode c\<rparr> = c"

definition like_except :: "u32 set \<Rightarrow> context_table \<Rightarrow> context_table \<Rightarrow> bool" where
  "like_except K t t' \<longleftrightarrow> (\<forall>k. context_table_get t' k = context_table_get t k \<and>
     (\<forall>i. context_table_get t k = Done (Some i) \<and> k \<notin> K \<longrightarrow> entry_like (context_table_entry t i) (context_table_entry t' i)))"

definition good_end :: "rohc_decomp \<Rightarrow> nat \<Rightarrow> call_end \<Rightarrow> bool" where
  "good_end d capacity r \<longleftrightarrow> (case r of
     Returned rc out d' \<Rightarrow> decomp_ok d' \<and>
       (if rc = 0 then length out \<le> capacity \<and> (\<exists>k. like_except {k} (decomp_contexts d) (decomp_contexts d'))
        else out = [] \<and> like_except {} (decomp_contexts d) (decomp_contexts d'))
   | Reassembled d' packet \<Rightarrow> decomp_ok d' \<and> like_except {} (decomp_contexts d) (decomp_contexts d'))"

lemma entry_like_refl [simp]: "entry_like c c"
  by (simp add: entry_like_def)

lemma entry_like_trans: "entry_like a b \<Longrightarrow> entry_like b c \<Longrightarrow> entry_like a c"
  by (cases a; cases b; cases c) (auto simp: entry_like_def)

lemma like_except_refl [simp]: "like_except K t t"
  by (simp add: like_except_def)

lemma like_except_trans: "like_except {} t u \<Longrightarrow> like_except K u v \<Longrightarrow> like_except K t v"
  unfolding like_except_def using entry_like_trans by (metis empty_iff)

lemma like_except_set:
  assumes "table_ok t" and "context_table_get t k = Done (Some i)" and "k \<in> K \<or> entry_like (context_table_entry t i) c"
  shows "like_except K t (context_table_set t i c)"
  unfolding like_except_def contexts.get_upd
  using assms contexts.entry_upd [OF assms(1,2), where c = c] contexts.get_distinct [OF assms(1)] by auto

section \<open>How a call ends\<close>

definition ends :: "('a \<Rightarrow> bool) \<Rightarrow> 'a res \<Rightarrow> bool" where
  "ends P r \<longleftrightarrow> (\<exists>x. r = Done x \<and> P x)"

lemma ends_simps [simp]: "ends P (Done x) = P x" "\<not> ends P Reject" "\<not> ends P Fault"
  by (simp_all add: ends_def)

lemma ends_seq: "ends Q r \<Longrightarrow> (\<And>x. Q x \<Longrightarrow> ends P (k x)) \<Longrightarrow> ends P (seq_res r k)"
  by (auto simp: ends_def)

lemma ends_or_none:
  "safe Q r \<Longrightarrow> ends P (k None) \<Longrightarrow> (\<And>x. Q x \<Longrightarrow> ends P (k (Some x))) \<Longrightarrow> ends P (seq_res (or_none r) k)"
  by (cases r) (auto simp: or_none_def)

lemma ends_succeeds: "safe Q r \<Longrightarrow> (\<And>b. ends P (k b)) \<Longrightarrow> ends P (seq_res (succeeds r) k)"
  by (cases r) (auto simp: succeeds_def)

lemma ends_cases:
  "safe Q r \<Longrightarrow> ends P g \<Longrightarrow> (\<And>x. Q x \<Longrightarrow> ends P (f x)) \<Longrightarrow> ends P (case r of Done x \<Rightarrow> f x | Reject \<Rightarrow> g | Fault \<Rightarrow> Fault)"
  by (cases r) auto

lemma ends_mono: "ends P r \<Longrightarrow> (\<And>x. P x \<Longrightarrow> Q x) \<Longrightarrow> ends Q r"
  by (auto simp: ends_def)

definition in_progress :: "decoding \<Rightarrow> rohc_context \<Rightarrow> bool" where
  "in_progress e ctx \<longleftrightarrow> decomp_ok (dg_decomp e) \<and>
     (\<exists>k. context_table_get (decomp_contexts (dg_decomp e)) k = Done (Some (dg_index e))) \<and>
     dg_before e = context_table_entry (decomp_contexts (dg_decomp e)) (dg_index e) \<and> context_wf ctx \<and> entry_like (dg_before e) ctx \<and>
     length (dg_icv e) \<le> sha256_digest_len \<and> pr_packet (dg_parsed e) \<noteq> []"

abbreviation well_ended :: "decoding \<Rightarrow> received \<Rightarrow> bool" where
  "well_ended e \<equiv> ends (good_end (dg_decomp e) (dg_capacity e))"

lemma set_feedback_Done:
  "table_ok (decomp_contexts d) \<Longrightarrow> \<exists>fb. set_feedback d cid t = Done (d\<lparr>decomp_last_feedback := fb, decomp_has_feedback := True\<rparr>)"
  using contexts.get_total [of "decomp_contexts d" cid]
  by (cases "context_table_get (decomp_contexts d) cid") (auto simp: set_feedback_def Let_def)

lemma fail_with_feedback_ends:
  assumes "decomp_ok u" and "like_except {} (decomp_contexts d) (decomp_contexts u)"
  shows "ends (good_end d capacity) (fail_with_feedback u cid)"
  using assms set_feedback_Done [of u cid NACK] by (auto simp: fail_with_feedback_def good_end_def decomp_ok_def)

lemma with_context_ok:
  assumes "in_progress e ctx" and "context_wf c"
  shows "decomp_ok (with_context e c)"
    and "\<exists>k. like_except {k} (decomp_contexts (dg_decomp e)) (decomp_contexts (with_context e c))"
    and "entry_like (dg_before e) c \<Longrightarrow> like_except {} (decomp_contexts (dg_decomp e)) (decomp_contexts (with_context e c))"
proof -
  obtain k where k: "table_ok (decomp_contexts (dg_decomp e))"
      "context_table_get (decomp_contexts (dg_decomp e)) k = Done (Some (dg_index e))"
    using assms(1) by (auto simp: in_progress_def decomp_ok_def)
  show "decomp_ok (with_context e c)"
    using assms contexts.ok_upd [OF k assms(2)] by (simp add: in_progress_def decomp_ok_def with_context_def)
  show "\<exists>k. like_except {k} (decomp_contexts (dg_decomp e)) (decomp_contexts (with_context e c))"
    using like_except_set [OF k, of "{k}" c] by (auto simp: with_context_def)
  show "entry_like (dg_before e) c \<Longrightarrow> like_except {} (decomp_contexts (dg_decomp e)) (decomp_contexts (with_context e c))"
    using like_except_set [OF k, of "{}" c] assms(1) by (auto simp: with_context_def in_progress_def)
qed

lemma in_progress_wf: "in_progress e ctx \<Longrightarrow> context_wf ctx"
  by (simp add: in_progress_def)

lemma before_wf: "in_progress e ctx \<Longrightarrow> context_wf (dg_before e)"
  using contexts.get_good by (auto simp: in_progress_def decomp_ok_def)

lemma restored_ok:
  assumes "in_progress e ctx" and "context_wf c" and "decomp_contexts u = decomp_contexts (with_context e c)" and "decomp_ok u"
  shows "decomp_ok (restored e u) \<and> like_except {} (decomp_contexts (dg_decomp e)) (decomp_contexts (restored e u))"
proof -
  let ?t = "decomp_contexts (dg_decomp e)" and ?u = "decomp_contexts u"
  obtain k where k: "table_ok ?t" "context_table_get ?t k = Done (Some (dg_index e))"
    using assms(1) by (auto simp: in_progress_def decomp_ok_def)
  have u: "?u = context_table_set ?t (dg_index e) c" using assms(3) by (simp add: with_context_def)
  have uk: "table_ok ?u" "context_table_get ?u k = Done (Some (dg_index e))"
    using assms(4) k(2) by (simp_all add: decomp_ok_def u contexts.get_upd)
  have "table_ok (context_table_set ?u (dg_index e) (dg_before e))" using contexts.ok_upd [OF uk before_wf [OF assms(1)]] .
  moreover have "like_except {} ?t (context_table_set ?u (dg_index e) (dg_before e))"
    unfolding like_except_def
  proof (intro allI conjI impI)
    fix l j
    show "context_table_get (context_table_set ?u (dg_index e) (dg_before e)) l = context_table_get ?t l"
      by (simp add: contexts.get_upd u)
    assume l: "context_table_get ?t l = Done (Some j) \<and> l \<notin> {}"
    then have "context_table_get ?u l = Done (Some j)" by (simp add: u contexts.get_upd)
    then show "entry_like (context_table_entry ?t j) (context_table_entry (context_table_set ?u (dg_index e) (dg_before e)) j)"
      using contexts.entry_upd [OF uk, of l j] contexts.entry_upd [OF k, of l j c] l k(2) assms(1)
      by (auto simp: u in_progress_def)
  qed
  ultimately show ?thesis using assms(4) by (simp add: restored_def decomp_ok_def)
qed

lemma fail_after_feedback:
  assumes "in_progress e ctx" and "context_wf c" and "decomp_contexts u = decomp_contexts (with_context e c)" and "decomp_ok u"
  shows "well_ended e (seq_res (set_feedback u cid t) (\<lambda>d. Done (Returned (- 1) [] (restored e d))))"
proof -
  obtain fb where fb: "set_feedback u cid t = Done (u\<lparr>decomp_last_feedback := fb, decomp_has_feedback := True\<rparr>)"
    using set_feedback_Done assms(4) by (fastforce simp: decomp_ok_def)
  then show ?thesis
    using restored_ok [OF assms(1,2), of "u\<lparr>decomp_last_feedback := fb, decomp_has_feedback := True\<rparr>"] assms(3,4)
    by (simp add: good_end_def decomp_ok_def)
qed

lemma fail_decoding_ends [simp]: "in_progress e ctx \<Longrightarrow> well_ended e (fail_decoding e ctx)"
  unfolding fail_decoding_def by (rule fail_after_feedback) (auto intro: with_context_ok(1) in_progress_wf)

lemma reject_decoding_ends [simp]: "in_progress e ctx \<Longrightarrow> well_ended e (reject_decoding e)"
  unfolding reject_decoding_def
  by (rule fail_with_feedback_ends) (auto intro: with_context_ok(1) with_context_ok(3) before_wf)

lemma succeed_decoding_ends:
  assumes "in_progress e ctx" and "context_wf c" and "length out \<le> dg_capacity e"
  shows "well_ended e (succeed_decoding e c' ((with_context e c)\<lparr>decomp_mode := m\<rparr>) out)"
proof -
  have ok: "decomp_ok (with_context e c)" "\<exists>k. like_except {k} (decomp_contexts (dg_decomp e)) (decomp_contexts (with_context e c))"
    using with_context_ok [OF assms(1,2)] by blast+
  then have "table_ok (decomp_contexts ((with_context e c)\<lparr>decomp_mode := m\<rparr>))" by (simp add: decomp_ok_def)
  then show ?thesis
    using ok assms(3) set_feedback_Done [of "(with_context e c)\<lparr>decomp_mode := m\<rparr>" "dg_cid e" ACK]
    by (auto simp: succeed_decoding_def good_end_def decomp_ok_def split: option.splits)
qed

lemma verify_icv_ends: "in_progress e ctx \<Longrightarrow> ends (\<lambda>_. True) (verify_rohcoipsec_icv e packet)"
  unfolding verify_rohcoipsec_icv_def Let_def
  by (auto simp: in_progress_def decomp_ok_def oipsec_ok_def compute_icv_eq or_none_def constant_time_equal_eq sha256_digest_len_def)

lemma accept_decoding_ends:
  assumes "in_progress e ctx" and "context_wf c" and "length out \<le> dg_capacity e"
  shows "well_ended e (accept_decoding e c m out)"
  unfolding accept_decoding_def Let_def
proof (rule ends_seq [OF verify_icv_ends [OF assms(1)]])
  fix ok
  have "decomp_ok ((with_context e c)\<lparr>decomp_mode := m\<rparr>)" using with_context_ok(1) [OF assms(1,2)] by (simp add: decomp_ok_def)
  then have "well_ended e (seq_res (set_feedback ((with_context e c)\<lparr>decomp_mode := m\<rparr>) (pr_cid (dg_parsed e)) NACK)
      (\<lambda>d. Done (Returned (- 1) [] (restored e d))))"
    using fail_after_feedback [OF assms(1,2)] by simp
  then show "well_ended e (if ok then succeed_decoding e c ((with_context e c)\<lparr>decomp_mode := m\<rparr>) out
      else seq_res (set_feedback ((with_context e c)\<lparr>decomp_mode := m\<rparr>) (pr_cid (dg_parsed e)) NACK)
        (\<lambda>d. Done (Returned (- 1) [] (restored e d))))"
    using succeed_decoding_ends [OF assms] by simp
qed

lemma room_within: "reconstruction_room e \<le> dg_capacity e"
  by (simp add: reconstruction_room_def)

lemma deliver_reading_ends: "in_progress e ctx \<Longrightarrow> safe reading_ok r \<Longrightarrow> well_ended e (deliver_reading e ctx r)"
  unfolding deliver_reading_def
  using room_within [of e] by (cases r) (auto simp: reading_ok_def intro!: accept_decoding_ends)

lemma deliver_direct_ends: "in_progress e ctx \<Longrightarrow> reading_ok r \<Longrightarrow> well_ended e (deliver_direct e ctx r)"
  by (auto simp: deliver_direct_def reading_ok_def intro!: succeed_decoding_ends split: prod.splits)

lemma receive_uncompressed_ends: "in_progress e ctx \<Longrightarrow> well_ended e (receive_uncompressed e ctx)"
  unfolding receive_uncompressed_def Let_def
  using room_within [of e] by (auto intro!: accept_decoding_ends simp: in_progress_wf)

lemma is_uncompressed_safe: "safe (\<lambda>_. True) (is_uncompressed_ip_payload ip)"
  using is_uncompressed_total [of ip] by auto

lemma uncompressed_ir_payload_safe: "safe (\<lambda>p. length p \<le> limit) (uncompressed_ir_payload parsed limit)"
  unfolding uncompressed_ir_payload_def Let_def
  by (intro safe_if safe_RejectI safe_copy_in safe_rd safe_view safe_seq [OF is_uncompressed_safe] safe_DoneI) auto

lemma receive_uncompressed_ir_ends: "in_progress e ctx \<Longrightarrow> well_ended e (receive_uncompressed_ir e ctx)"
  unfolding receive_uncompressed_ir_def
  using room_within [of e] by (intro ends_cases [OF uncompressed_ir_payload_safe]) (auto intro!: accept_decoding_ends)

section \<open>The stages of a call\<close>

lemma udp_reading_ok_reading: "udp_reading_ok r \<Longrightarrow> reading_ok r"
  by (auto simp: udp_reading_ok_def reading_ok_def)

lemma has_packet: "in_progress e ctx \<Longrightarrow> length (pr_packet (dg_parsed e)) \<ge> 1"
  by (auto simp: in_progress_def Suc_le_eq)

lemma private_fo_safe:
  assumes "context_wf c"
  shows "safe (\<lambda>(c, n). context_wf c) (decode_udp_fo inp c)" "safe (\<lambda>(c, n). context_wf c) (decode_ip_fo inp c)"
    "safe (\<lambda>(c, n). context_wf c) (decode_esp_fo inp c)" "safe (\<lambda>(c, n). context_wf c) (decode_udp_lite_fo inp c)"
    "safe (\<lambda>(c, n). context_wf c) (decode_fo_rtp inp c)"
  using fo_safe [OF assms, of inp] decode_fo_rtp_safe [OF assms, of inp] by (auto elim!: safe_mono)

lemma has_profile_safe: "safe (\<lambda>(c, n). context_wf c) r \<Longrightarrow> safe (\<lambda>(c, n). context_wf c) (has_profile p r)"
  unfolding has_profile_def by (erule safe_seq) (auto simp: guard_def)

lemma decode_private_marker_safe: "in_progress e ctx \<Longrightarrow> safe (\<lambda>(c, n). context_wf c) (decode_private_marker e)"
  using private_fo_safe [OF before_wf, of e ctx "pr_packet (dg_parsed e)"]
  by (auto simp: decode_private_marker_def Let_def split: rohc_packet_type.splits)

lemma private_udp_reading_total:
  assumes "context_wf c"
  shows "ends (\<lambda>r. \<forall>x. r = Some x \<longrightarrow> reading_ok x) (private_udp_reading packet (c, n))"
proof -
  have "safe udp_reading_ok (seq_res (payload_after_header packet n) (\<lambda>payload.
      seq_res (build_fixed_udp_ipv4_header c (length payload)) (\<lambda>header. Done (c, header, payload))))"
    by (intro safe_seq [OF payload_after_header_safe] safe_seq [OF fixed_headers_safe(2)]) (simp add: udp_reading_ok_def assms)
  then show ?thesis
    unfolding private_udp_reading_def prod.case
  proof (rule ends_or_none)
    fix r assume "udp_reading_ok r"
    then show "ends (\<lambda>r. \<forall>x. r = Some x \<longrightarrow> reading_ok x) (case Some r of None \<Rightarrow> Done None
        | Some (c, header, payload) \<Rightarrow> seq_res (udp_checksum_valid header [] payload) (\<lambda>ok.
            Done (if ok then Some (c, header, payload) else None)))"
      using udp_checksum_total [of "fst (snd r)" "[]" "snd (snd r)"] by (auto simp: udp_reading_ok_def reading_ok_def split: prod.splits)
  qed simp
qed

lemma choose_udp_reading_ends:
  assumes p: "in_progress e ctx" and k: "well_ended e k"
    and f: "\<And>r. formal = Some r \<Longrightarrow> udp_reading_ok r" and g: "\<And>c n. other = Some (c, n) \<Longrightarrow> context_wf c"
  shows "well_ended e (choose_udp_reading e ctx formal other k)"
proof (cases formal)
  case None
  then show ?thesis using p k by (auto simp: choose_udp_reading_def split: option.splits)
next
  case (Some r)
  obtain c header payload where r: "r = (c, header, payload)" by (cases r)
  have ok: "length header = 28" "well_ended e (deliver_direct e ctx (c, header, payload))"
    using f [OF Some] deliver_direct_ends [OF p] udp_reading_ok_reading unfolding r by (auto simp: udp_reading_ok_def)
  obtain valid where valid: "udp_checksum_valid header [] payload = Done valid" using udp_checksum_total ok(1) by blast
  show ?thesis
  proof (cases other)
    case None
    then show ?thesis using p ok valid Some r by (simp add: choose_udp_reading_def)
  next
    case (Some q)
    obtain pc n where q: "q = (pc, n)" by (cases q)
    have wf: "context_wf pc" using g Some q by blast
    obtain s where s: "private_udp_reading (pr_packet (dg_parsed e)) (pc, n) = Done s" "\<And>x. s = Some x \<Longrightarrow> reading_ok x"
      using private_udp_reading_total [OF wf] unfolding ends_def by blast
    have "well_ended e (deliver_direct e ctx (c'\<lparr>ctx_msn := m\<rparr>, h', p'))" if "s = Some (c', h', p')" for c' h' p' m
      using s(2) [OF that] by (intro deliver_direct_ends [OF p]) (simp add: reading_ok_def)
    then show ?thesis
      using p ok valid Some \<open>formal = Some r\<close> r q s(1) by (auto simp: choose_udp_reading_def split: option.splits prod.splits)
  qed
qed

lemma fixed_udp_pt0_ends: "in_progress e ctx \<Longrightarrow> well_ended e k \<Longrightarrow> well_ended e (fixed_udp_pt0 e ctx k)"
  unfolding fixed_udp_pt0_def
  using readings_safe(4) [OF before_wf has_packet, of e ctx] decode_private_marker_safe [of e ctx]
  by (auto intro!: ends_or_none choose_udp_reading_ends)

lemma any_adjacent_ends: "context_wf before \<Longrightarrow> ends (\<lambda>_. True) (any_adjacent before packet b ms)"
proof (induction ms)
  case (Cons m ms)
  then show ?case by (auto intro!: ends_succeeds [OF readings_safe(5)])
qed simp

lemma fixed_esp_pt0_ends:
  assumes p: "in_progress e ctx" and k: "well_ended e k"
  shows "well_ended e (fixed_esp_pt0 e ctx k)"
proof -
  have wf: "context_wf (dg_before e)" using before_wf p by blast
  show ?thesis
    unfolding fixed_esp_pt0_def Let_def
    by (auto intro!: ends_or_none [OF readings_safe(5) [OF wf]] ends_or_none [OF has_profile_safe [OF private_fo_safe(3) [OF wf]]]
        ends_seq [OF any_adjacent_ends [OF wf]] deliver_direct_ends [OF p] simp: p k simp del: any_adjacent.simps split: option.splits)
qed

lemma legacy_ip_fo_total: "ends (\<lambda>_. True) (legacy_private_ip_fo_crc_valid packet)"
  by (auto simp: legacy_private_ip_fo_crc_valid_def)

lemma fixed_ip_pt0_ends:
  assumes p: "in_progress e ctx" and k: "well_ended e k"
  shows "well_ended e (fixed_ip_pt0 e ctx k)"
  unfolding fixed_ip_pt0_def Let_def
  by (auto intro!: ends_or_none [OF readings_safe(6) [OF before_wf [OF p] has_packet [OF p]]]
      ends_or_none [OF has_profile_safe [OF private_fo_safe(2) [OF before_wf [OF p]]]] ends_seq [OF legacy_ip_fo_total]
      deliver_direct_ends [OF p] simp: p k split: option.splits)

lemma private_rtp_total: "context_wf c \<Longrightarrow> ends (\<lambda>_. True) (private_rtp_valid parsed c)"
proof -
  assume wf: "context_wf c"
  have "safe (\<lambda>_. True) (seq_res (decode_fo_rtp (pr_packet parsed) c) (\<lambda>(c, header_len).
      seq_res (payload_after_header (pr_packet parsed) header_len) (\<lambda>payload. build_fixed_rtp_ipv4_header c (length payload))))"
    by (rule safe_seq [OF private_fo_safe(5) [OF wf]])
      (auto intro!: safe_seq [OF payload_after_header_safe] fixed_headers_return)
  then show ?thesis by (auto simp: private_rtp_valid_def succeeds_def split: res.splits)
qed

lemma fixed_rtp_pt0_ends:
  assumes p: "in_progress e ctx" and k: "\<And>b. well_ended e (k b)"
  shows "well_ended e (fixed_rtp_pt0 e ctx k)"
  unfolding fixed_rtp_pt0_def Let_def
  by (auto intro!: ends_or_none [OF readings_safe(7) [OF in_progress_wf [OF p] has_packet [OF p]]]
      ends_seq [OF private_rtp_total [OF in_progress_wf [OF p]]] deliver_direct_ends [OF p] simp: p k split: option.splits)

lemma reconstruct_tentative_safe: "context_wf c \<Longrightarrow> safe (\<lambda>_. True) (reconstruct_tentative packet c n)"
  unfolding reconstruct_tentative_def
  by (rule safe_seq [OF payload_after_header_safe])
    (auto split: profile.splits intro: safe_mono [OF build_ip_packet_safe] safe_mono [OF build_udp_packet_safe]
      safe_mono [OF build_rtp_packet_safe] safe_mono [OF build_esp_packet_safe])

lemma try_formal_pt0_safe: "in_progress e ctx \<Longrightarrow> safe (\<lambda>_. True) (try_formal_pt0 e)"
  unfolding try_formal_pt0_def Let_def
  using has_packet [of e ctx] before_wf [of e ctx]
  by (auto intro!: safe_seq [OF read_formal_co_base_safe] safe_seq [OF forward_msn_safe(2)] safe_guard safe_seq [OF read_udp_checksum_safe]
      safe_seq [OF reconstruct_tentative_safe] simp: guard_def)

lemma try_private_fo_safe:
  assumes "in_progress e ctx"
  shows "safe (\<lambda>_. True) (try_private_fo e)"
proof -
  have "safe (\<lambda>(c, n). context_wf c) (case pr_type (dg_parsed e) of
      PT_FO_RTP \<Rightarrow> guard (pr_has_add_cid (dg_parsed e)) (has_profile RTP (decode_fo_rtp (pr_packet (dg_parsed e)) (dg_before e)))
    | PT_FO_UDP \<Rightarrow> has_profile UDP (decode_udp_fo (pr_packet (dg_parsed e)) (dg_before e))
    | PT_FO_ESP \<Rightarrow> has_profile ESP (decode_esp_fo (pr_packet (dg_parsed e)) (dg_before e))
    | PT_FO_IP \<Rightarrow> has_profile IP (decode_ip_fo (pr_packet (dg_parsed e)) (dg_before e))
    | _ \<Rightarrow> Reject)"
    using private_fo_safe [OF before_wf [OF assms], THEN has_profile_safe] by (auto split: rohc_packet_type.splits intro!: safe_guard)
  then show ?thesis
    unfolding try_private_fo_def Let_def
    by (rule safe_seq) (auto intro!: safe_seq [OF reconstruct_tentative_safe])
qed

lemma resolve_overlap_ends:
  assumes p: "in_progress e ctx" and k: "\<And>t b. well_ended e (k t b)"
  shows "well_ended e (resolve_overlap e b k)"
  unfolding resolve_overlap_def Let_def
  by (auto intro!: ends_or_none [OF try_formal_pt0_safe [OF p]] ends_or_none [OF try_private_fo_safe [OF p]]
      reject_decoding_ends [OF p] simp: k split: option.splits)

lemma stop_reassembly_ends:
  "decomp_ok u \<Longrightarrow> like_except {} (decomp_contexts d) (decomp_contexts u) \<Longrightarrow> ends (good_end d capacity) (stop_reassembly u cid)"
  unfolding stop_reassembly_def by (rule fail_with_feedback_ends) (auto simp: decomp_ok_def)

lemma append_segment_ends:
  assumes "decomp_ok u" and "like_except {} (decomp_contexts d) (decomp_contexts u)"
  shows "ends (good_end d capacity) (append_segment u cid segment payload)"
  using assms stop_reassembly_ends [OF assms]
  by (auto simp: append_segment_def store_segment_def finish_segment_def good_end_def decomp_ok_def Let_def)

lemma read_segment_header_safe: "safe (\<lambda>_. True) (read_segment_header packet)"
  by (auto simp: read_segment_header_def rd_def)

lemma receive_segment_ends:
  assumes "in_progress e ctx"
  shows "well_ended e (receive_segment e ctx)"
proof -
  let ?d = "with_context e ctx"
  have ok: "decomp_ok ?d" "like_except {} (decomp_contexts (dg_decomp e)) (decomp_contexts ?d)"
    using with_context_ok [OF assms in_progress_wf [OF assms]] assms by (auto simp: in_progress_def)
  have start: "decomp_ok (start_reassembly ?d)" "decomp_contexts (start_reassembly ?d) = decomp_contexts ?d"
    using ok by (auto simp: start_reassembly_def decomp_ok_def)
  have "well_ended e (case header of None \<Rightarrow> stop_reassembly ?d (dg_cid e)
      | Some segment \<Rightarrow>
          if length (pr_packet (dg_parsed e)) \<le> segment_header_len then stop_reassembly ?d (dg_cid e)
          else if \<not> decomp_reassembly_active ?d \<and> seg_sequence segment \<noteq> 0 then fail_with_feedback ?d (dg_cid e)
          else append_segment (start_reassembly ?d) (dg_cid e) segment (drop segment_header_len (pr_packet (dg_parsed e))))" for header
    using ok start by (auto split: option.splits intro!: stop_reassembly_ends fail_with_feedback_ends append_segment_ends)
  moreover have "ends (\<lambda>_. True) (if n = 0 then Done None else or_none (read_segment_header (pr_packet (dg_parsed e))))" for n :: nat
    using read_segment_header_safe [of "pr_packet (dg_parsed e)"] by (auto simp: or_none_def split: res.splits)
  ultimately show ?thesis
    unfolding receive_segment_def Let_def by (blast intro: ends_seq)
qed

section \<open>Headers and packets by type\<close>

abbreviation decoded_well :: "decoded_header res \<Rightarrow> bool" where
  "decoded_well r \<equiv> safe (\<lambda>(c, n, check). context_wf c) r"

lemma ir_wf [simp]: "context_wf ctx \<Longrightarrow> context_wf (prepare_ir e p ctx)" "context_wf (complete_ir e p c) = context_wf c"
  "context_wf (complete_ir_dyn e p c) = context_wf c" "context_wf (update_ipv4_id_behavior c b i) = context_wf c"
  by (simp_all add: prepare_ir_def complete_ir_def complete_ir_dyn_def update_ipv4_id_behavior_def Let_def)

lemma decode_ir_by_profile_safe:
  assumes "context_wf c"
  shows "safe (\<lambda>(c, n). context_wf c) (decode_ir_by_profile p packet c)" "safe (\<lambda>(c, n). context_wf c) (decode_ir_dyn_by_profile p packet c)"
  using decode_ir_decoded [OF assms, of packet] ir_dyn_decoders_safe [OF assms, of packet] ir_dyn_rtp_decoders_safe [OF assms, of packet]
  by (auto simp: decode_ir_by_profile_def decode_ir_dyn_by_profile_def advanced_def split: profile.splits elim!: safe_mono)

lemma receive_legacy_pt0_safe: "context_wf ctx \<Longrightarrow> length packet \<ge> 1 \<Longrightarrow> decoded_well (receive_legacy_pt0 packet ctx)"
  unfolding receive_legacy_pt0_def Let_def
  by (intro safe_guard safe_seq [OF read_formal_co_base_safe] safe_seq [OF forward_msn_safe(2)] safe_seq [OF read_udp_checksum_safe]) auto

lemma receive_private_safe:
  assumes "context_wf ctx"
  shows "decoded_well (receive_private e t ctx)"
  unfolding receive_private_def Let_def
  by (auto split: rohc_packet_type.splits intro!: safe_guard private_fo_safe [OF assms, THEN safe_seq])

lemma decode_header_by_type_safe:
  assumes p: "in_progress e ctx"
  shows "decoded_well (decode_header_by_type e t b ctx)"
  unfolding decode_header_by_type_def Let_def
  using in_progress_wf [OF p] has_packet [OF p]
  by (auto intro!: safe_seq [OF decode_ir_by_profile_safe(1)] safe_seq [OF decode_ir_by_profile_safe(2)] receive_legacy_pt0_safe
      receive_private_safe split: option.splits)

lemma rebuild_packet_safe:
  assumes "context_wf (fst h)"
  shows "safe (\<lambda>out. length out \<le> reconstruction_room e) (rebuild_packet e h)"
proof -
  obtain c n check where h: "h = (c, n, check)" by (cases h)
  have built: "safe (\<lambda>out. length out \<le> reconstruction_room e) (build_packet limit c payload)" if "limit \<le> reconstruction_room e"
    for limit payload
    by (rule safe_mono [OF build_packet_safe]) (use assms h that in auto)
  show ?thesis
    unfolding rebuild_packet_def h prod.case Let_def
    by (intro safe_seq [OF payload_after_header_safe] safe_seq [OF built]) (auto split: option.splits simp: guard_def)
qed

lemma receive_by_type_ends:
  assumes p: "in_progress e ctx"
  shows "well_ended e (receive_by_type e ctx t b)"
proof -
  let ?d = "with_context e ctx"
  have ok: "decomp_ok ?d" "like_except {} (decomp_contexts (dg_decomp e)) (decomp_contexts ?d)"
    using with_context_ok [OF p in_progress_wf [OF p]] p by (auto simp: in_progress_def)
  have feedback: "safe (\<lambda>_. True) (read_feedback_packet q want)" for q want
    using read_feedback_packet_safe [of q want] by (auto simp: ends_within_def safe_def split: res.splits)
  have "safe (\<lambda>(c, out). context_wf c \<and> length out \<le> reconstruction_room e)
      (seq_res (decode_header_by_type e t b ctx) (\<lambda>h. seq_res (rebuild_packet e h) (\<lambda>out. Done (fst h, out))))"
    by (rule safe_seq [OF decode_header_by_type_safe [OF p]]) (auto intro!: safe_seq [OF rebuild_packet_safe])
  then have "well_ended e (case seq_res (decode_header_by_type e t b ctx) (\<lambda>h. seq_res (rebuild_packet e h) (\<lambda>out. Done (fst h, out))) of
      Fault \<Rightarrow> Fault | Reject \<Rightarrow> reject_decoding e | Done (c, out) \<Rightarrow> accept_decoding e c (ctx_mode c) out)"
    by (rule ends_cases) (use p room_within [of e] in \<open>auto intro!: accept_decoding_ends\<close>)
  then show ?thesis
    unfolding receive_by_type_def
    using ok p by (auto intro!: ends_cases [OF feedback] fail_with_feedback_ends receive_segment_ends simp: good_end_def)
qed

lemma decode_compact_ends:
  assumes p: "in_progress e ctx"
  shows "well_ended e (decode_compact e ctx)"
proof -
  have "well_ended e (fixed_udp_pt0 e ctx (fixed_esp_pt0 e ctx (fixed_ip_pt0 e ctx (fixed_rtp_pt0 e ctx (\<lambda>prefer.
      resolve_overlap e prefer (receive_by_type e ctx))))))"
    by (intro fixed_udp_pt0_ends [OF p] fixed_esp_pt0_ends [OF p] fixed_ip_pt0_ends [OF p] fixed_rtp_pt0_ends [OF p]
        resolve_overlap_ends [OF p] receive_by_type_ends [OF p])
  then show ?thesis
    unfolding decode_compact_def Let_def
    using readings_safe(1-3) [OF before_wf [OF p], of "pr_packet (dg_parsed e)"]
    by (auto simp: fixed_rtp_pt0_crc7_candidate_def fixed_esp_pt0_crc7_candidate_def fixed_non_rtp_pt1_seq_id_candidate_def Let_def
        intro!: deliver_reading_ends [OF p])
qed

lemma decode_in_context_ends:
  assumes p: "in_progress e ctx"
  shows "well_ended e (decode_in_context e ctx)"
proof -
  have "in_progress (e\<lparr>dg_parsed := (dg_parsed e)\<lparr>pr_type := PT_FO_RTP\<rparr>\<rparr>) ctx" using p by (auto simp: in_progress_def)
  then show ?thesis
    using decode_compact_ends [of "e\<lparr>dg_parsed := (dg_parsed e)\<lparr>pr_type := PT_FO_RTP\<rparr>\<rparr>" ctx] decode_compact_ends [OF p]
      receive_uncompressed_ends [OF p] receive_uncompressed_ir_ends [OF p]
    by (simp add: decode_in_context_def Let_def)
qed

section \<open>The whole call\<close>

lemma entry_at_ends:
  assumes "table_ok (decomp_contexts d)"
  shows "ends (\<lambda>r. \<forall>i c. r = Some (i, c) \<longrightarrow> context_table_get (decomp_contexts d) cid = Done (Some i) \<and>
           c = context_table_entry (decomp_contexts d) i) (entry_at d cid)"
  using contexts.get_total [OF assms, of cid] by (cases "context_table_get (decomp_contexts d) cid") (auto simp: entry_at_def)

lemma choose_context_ends:
  assumes "table_ok (decomp_contexts d)"
  shows "ends (\<lambda>(q, cid, r). pr_packet q = pr_packet parsed \<and> (\<forall>i c. r = Some (i, c) \<longrightarrow>
           context_table_get (decomp_contexts d) cid = Done (Some i) \<and> c = context_table_entry (decomp_contexts d) i)) (choose_context d parsed)"
  unfolding choose_context_def Let_def
  by (intro ends_seq [OF entry_at_ends [OF assms]]) auto

lemma enter_context_like: "entry_like c (enter_context d cid c)"
  by (cases c) (simp add: enter_context_def entry_like_def Let_def)

lemma decompress_parsed_ends:
  assumes d: "decomp_ok d" and packet: "pr_packet parsed \<noteq> []" and mac: "length mac \<le> sha256_digest_len"
  shows "ends (good_end d capacity) (decompress_parsed d earlier capacity parsed mac)"
  unfolding decompress_parsed_def
proof (rule ends_seq [OF choose_context_ends], goal_cases)
  case 1
  show ?case using d by (simp add: decomp_ok_def)
next
  case (2 x)
  obtain q cid r where x: "x = (q, cid, r)" by (cases x)
  show ?case
  proof (cases r)
    case None
    then show ?thesis using d x by (simp add: fail_with_feedback_ends)
  next
    case (Some ic)
    obtain i c where ic: "ic = (i, c)" by (cases ic)
    let ?e = "\<lparr>dg_decomp = d, dg_pending = earlier, dg_parsed = q, dg_icv = mac, dg_capacity = capacity,
      dg_cid = cid, dg_index = i, dg_before = c\<rparr>"
    have c: "context_table_get (decomp_contexts d) cid = Done (Some i)" "c = context_table_entry (decomp_contexts d) i"
      "pr_packet q = pr_packet parsed"
      using 2 x Some ic by auto
    then have "context_wf c" using contexts.get_good d by (auto simp: decomp_ok_def)
    then have "in_progress ?e (enter_context d cid c)"
      using c d packet mac enter_context_wf enter_context_like by (auto simp: in_progress_def)
    then show ?thesis using decode_in_context_ends x Some ic by fastforce
  qed
qed

lemma skip_feedback_safe: "safe (\<lambda>_. True) (skip_feedback packet)"
proof (induction packet rule: skip_feedback.induct)
  case (1 packet)
  have "read_feedback_prefix packet \<noteq> Fault"
    using read_feedback_packet_safe [of packet True] by (auto simp: read_feedback_prefix_def)
  then show ?case using 1 by (subst skip_feedback.simps) (auto split: res.splits)
qed

lemma parse_packet_safe: "safe (\<lambda>p. pr_packet p \<noteq> []) (parse_rohc_packet packet large)"
proof (cases "parse_rohc_packet packet large")
  case (Done p)
  then have "pr_packet p \<noteq> []" using parse_rohc_packet_result [of packet large p] unfolding PacketType.parsed_ok_def by blast
  with Done show ?thesis by simp
qed (use parse_rohc_packet_result [of packet large] in auto)

lemma strip_icv_ends:
  assumes "pr_packet parsed \<noteq> []"
  shows "ends (\<lambda>r. \<forall>q mac. r = Inr (q, mac) \<longrightarrow> pr_packet q \<noteq> [] \<and> length mac \<le> sha256_digest_len) (strip_icv d packet parsed)"
  using assms unfolding strip_icv_def Let_def
  by (auto intro!: ends_cases [OF parse_packet_safe])

lemma decompress_once_ends:
  assumes "decomp_ok d"
  shows "ends (good_end d capacity) (decompress_once d packet capacity)"
proof -
  let ?d = "d\<lparr>decomp_has_feedback := False\<rparr>"
  have d: "decomp_ok ?d" "like_except {} (decomp_contexts d) (decomp_contexts ?d)" using assms by (simp_all add: decomp_ok_def)
  have same: "good_end ?d = good_end d" by (simp add: good_end_def fun_eq_iff split: call_end.splits)
  have fail: "ends (good_end d capacity) (fail_with_feedback ?d cid)" for cid using fail_with_feedback_ends d by blast
  have "ends (good_end d capacity) (seq_res (strip_icv ?d q parsed) (\<lambda>r. case r of
      Inl cid \<Rightarrow> fail_with_feedback ?d cid | Inr (parsed, mac) \<Rightarrow> decompress_parsed ?d earlier capacity parsed mac))"
    if "pr_packet parsed \<noteq> []" for q parsed earlier
    by (rule ends_seq [OF strip_icv_ends [OF that]])
      (use decompress_parsed_ends [OF d(1), unfolded same] fail in \<open>auto split: sum.splits\<close>)
  then show ?thesis
    unfolding decompress_once_def Let_def
    using d fail by (auto intro!: ends_cases [OF skip_feedback_safe] ends_cases [OF parse_packet_safe] simp: assms good_end_def)
qed

definition good_call :: "rohc_decomp \<Rightarrow> nat \<Rightarrow> int \<times> bytes \<times> rohc_decomp \<Rightarrow> bool" where
  "good_call d capacity r \<longleftrightarrow> (case r of (rc, out, d') \<Rightarrow> good_end d capacity (Returned rc out d'))"

lemma decompress4_ends: "decomp_ok d \<Longrightarrow> ends (good_call d capacity) (rohc_decompress4 d packet capacity)"
proof (induction d packet capacity rule: rohc_decompress4.induct)
  case (1 d packet capacity)
  obtain r where r: "decompress_once d packet capacity = Done r" "good_end d capacity r"
    using decompress_once_ends [OF 1(2)] by (auto simp: ends_def)
  show ?case
  proof (cases r)
    case (Returned rc out u)
    then show ?thesis using r by (simp add: rohc_decompress4.simps [of d] good_call_def)
  next
    case (Reassembled u q)
    then have u: "decomp_ok u" "like_except {} (decomp_contexts d) (decomp_contexts u)" using r(2) by (simp_all add: good_end_def)
    have "ends (good_call u capacity) (rohc_decompress4 u q capacity)" using 1(1) r(1) u(1) Reassembled by blast
    then have "ends (good_call d capacity) (rohc_decompress4 u q capacity)"
      by (rule ends_mono) (use like_except_trans [OF u(2)] in \<open>auto simp: good_call_def good_end_def split: if_splits; blast\<close>)
    then show ?thesis using r(1) Reassembled by (simp add: rohc_decompress4.simps [of d])
  qed
qed

lemma receive_csp_ends: "decomp_ok d \<Longrightarrow> ends (good_call d capacity) (rohc_decomp_rfc4362_receive_csp d packet capacity)"
proof -
  assume d: "decomp_ok d"
  have "safe (\<lambda>_. True) (read_context_synchronization_packet packet)"
    by (auto simp: read_context_synchronization_packet_def rd_def)
  moreover have "ends (good_call d capacity) (seq_res (set_feedback d 0 NACK) (\<lambda>d. Done (- 1, [], d)))"
    using d set_feedback_Done [of d 0 NACK] by (auto simp: good_call_def good_end_def decomp_ok_def)
  ultimately show ?thesis
    unfolding rohc_decomp_rfc4362_receive_csp_def
    using d decompress4_ends [OF d] by (auto intro!: ends_cases simp: good_call_def good_end_def)
qed

section \<open>Every use of a decompressor\<close>

datatype decomp_request =
    SetMode nat | SetRefreshAck int | SetIntegrity u16 bytes nat | EnableRohcOIpsec | SetMrru nat | ApplySa rohccxx_rohcoipsec_sa
  | EnableLla rohccxx_lla_contract rohccxx_lla_flow | Decompress bytes nat | ReceiveCsp bytes nat | ReceiveNhp u32 bytes nat
  | ReceiveCcp u32 bytes | ReportLoss u32 | ReportResidualError u32

fun decomp_exec :: "decomp_request \<Rightarrow> rohc_decomp \<Rightarrow> rohc_decomp res" where
  \<comment> \<open>the object after a call of the interface\<close>
  "decomp_exec (SetMode m) d = Done (snd (rohc_decomp_set_mode d m))"
| "decomp_exec (SetRefreshAck b) d = Done (rohc_decomp_set_context_refresh_ack_enabled d b)"
| "decomp_exec (SetIntegrity a key n) d = Done (snd (rohc_decomp_set_rohcoipsec_integrity d a key n))"
| "decomp_exec EnableRohcOIpsec d = Done (snd (rohc_decomp_enable_rohcoipsec d))"
| "decomp_exec (SetMrru n) d = Done (snd (rohc_decomp_set_mrru d n))"
| "decomp_exec (ApplySa sa) d = seq_res (rohc_decomp_apply_rohcoipsec_sa d sa) (\<lambda>(rc, d). Done d)"
| "decomp_exec (EnableLla contract flow) d = Done (snd (rohc_decomp_enable_rfc4362_lla d contract flow))"
| "decomp_exec (Decompress packet capacity) d = seq_res (rohc_decompress4 d packet capacity) (\<lambda>(rc, out, d). Done d)"
| "decomp_exec (ReceiveCsp packet capacity) d = seq_res (rohc_decomp_rfc4362_receive_csp d packet capacity) (\<lambda>(rc, out, d). Done d)"
| "decomp_exec (ReceiveNhp cid payload capacity) d = seq_res (rohc_decomp_rfc4362_receive_nhp_for_cid d cid payload capacity) (\<lambda>(out, d). Done d)"
| "decomp_exec (ReceiveCcp cid packet) d = seq_res (rohc_decomp_rfc4362_receive_ccp_for_cid d cid packet) (\<lambda>(rc, d). Done d)"
| "decomp_exec (ReportLoss cid) d = seq_res (rohc_decomp_rfc4362_report_loss d cid) (\<lambda>(rc, d). Done d)"
| "decomp_exec (ReportResidualError cid) d = seq_res (rohc_decomp_rfc4362_report_residual_error d cid) (\<lambda>(rc, d). Done d)"

text \<open>The key of a security association is an array of 128 octets.\<close>

definition request_typed :: "decomp_request \<Rightarrow> bool" where
  "request_typed r \<longleftrightarrow> (case r of ApplySa sa \<Rightarrow> length (sa_key sa) = rohcoipsec_key_max | _ \<Rightarrow> True)"

inductive decomp_reachable :: "rohc_decomp \<Rightarrow> bool" where
  decomp_created: "rohc_decomp_new2 max_cid direction = Some d \<Longrightarrow> decomp_reachable d"
| decomp_called: "decomp_reachable d \<Longrightarrow> request_typed r \<Longrightarrow> decomp_exec r d = Done d' \<Longrightarrow> decomp_reachable d'"

lemma cid_limit: "max_cid \<le> large_cid_max \<Longrightarrow> table_ok (context_table_init max_cid)"
  by (rule context_table_init_ok) (auto simp: large_cid_max_def word_order.extremum_unique)

lemma decomp_new_ok: "rohc_decomp_new2 max_cid direction = Some d \<Longrightarrow> decomp_ok d"
  using cid_limit [of max_cid]
  by (auto simp: rohc_decomp_new2_def decomp_ok_def oipsec_ok_def oipsec_off_def rohcoipsec_key_max_def not_less split: if_splits)

lemma configured_ok: "configure_rohcoipsec s a key n = Some t \<Longrightarrow> oipsec_ok t"
  by (auto simp: configure_rohcoipsec_def oipsec_ok_def Let_def split: if_splits)

lemma settings_ok:
  assumes "decomp_ok d"
  shows "decomp_ok (snd (rohc_decomp_set_mode d m))" "decomp_ok (rohc_decomp_set_context_refresh_ack_enabled d b)"
    "decomp_ok (snd (rohc_decomp_set_rohcoipsec_integrity d a key n))" "decomp_ok (snd (rohc_decomp_enable_rohcoipsec d))"
    "decomp_ok (snd (rohc_decomp_set_mrru d mrru))" "decomp_ok (snd (rohc_decomp_enable_rfc4362_lla d contract flow))"
  using assms configured_ok
  by (auto simp: decomp_ok_def rohc_decomp_set_mode_def rohc_decomp_set_context_refresh_ack_enabled_def
      rohc_decomp_set_rohcoipsec_integrity_def rohc_decomp_enable_rohcoipsec_def rohc_decomp_set_mrru_def
      rohc_decomp_enable_rfc4362_lla_def Let_def split: option.splits)

lemma apply_sa_ok:
  assumes "decomp_ok d" and "length (sa_key sa) = rohcoipsec_key_max"
  shows "ends (\<lambda>(rc, u). decomp_ok u) (rohc_decomp_apply_rohcoipsec_sa d sa)"
proof -
  have set: "decomp_ok u" if "rohc_decomp_set_rohcoipsec_integrity d a key n = (rc, u)" for a key n rc u
    using settings_ok(3) [OF assms(1), of a key n] that by simp
  have "decomp_ok v" if "rohc_decomp_set_mrru u n = (rc, v)" "decomp_ok u" for u n rc v
    using settings_ok(5) [OF that(2), of n] that(1) by simp
  then show ?thesis
    using assms set by (auto simp: rohc_decomp_apply_rohcoipsec_sa_def Let_def split: prod.splits)
qed

lemma feedback_keeps: "decomp_ok d \<Longrightarrow> ends (\<lambda>u. decomp_ok u) (set_feedback d cid t)"
  using set_feedback_Done [of d cid t] by (auto simp: decomp_ok_def)

lemma capi_nhp_advance_wf: "context_wf c \<Longrightarrow> context_wf (capi_nhp_advance c)"
  by (simp add: capi_nhp_advance_def context_wf_def)

lemma rebuild_rtp_safe: "context_wf c \<Longrightarrow> safe (\<lambda>out. length out \<le> cap) (rebuild_rtp cap c payload)"
  by (simp add: rebuild_rtp_def build_ipv6_rtp_packet_safe build_rtp_packet_safe)

lemma get_context: "table_ok t \<Longrightarrow> ends (\<lambda>r. \<forall>i. r = Some i \<longrightarrow> context_table_get t cid = Done (Some i)) (context_table_get t cid)"
  using contexts.get_total [of t cid] by (cases "context_table_get t cid") auto

lemma receive_nhp_ok:
  assumes d: "decomp_ok d"
  shows "ends (\<lambda>(out, u). decomp_ok u) (rohc_decomp_rfc4362_receive_nhp_for_cid d cid payload capacity)"
proof -
  have t: "table_ok (decomp_contexts d)" using d by (simp add: decomp_ok_def)
  have advanced: "context_wf (capi_nhp_advance (context_table_entry (decomp_contexts d) i))"
      "decomp_ok (d\<lparr>decomp_contexts := context_table_set (decomp_contexts d) i (capi_nhp_advance (context_table_entry (decomp_contexts d) i))\<rparr>)"
    if "context_table_get (decomp_contexts d) cid = Done (Some i)" for i
    using capi_nhp_advance_wf contexts.get_good [OF t that] contexts.ok_upd [OF t that] d by (auto simp: decomp_ok_def)
  show ?thesis
    unfolding rohc_decomp_rfc4362_receive_nhp_for_cid_def Let_def
    by (auto intro!: ends_seq [OF get_context [OF t]] ends_cases [OF rebuild_rtp_safe] ends_seq [OF feedback_keeps] simp: d advanced split: option.splits)
      (use advanced(2) in \<open>simp add: decomp_ok_def\<close>)
qed

lemma receive_ccp_ok:
  assumes d: "decomp_ok d"
  shows "ends (\<lambda>(rc, u). decomp_ok u) (rohc_decomp_rfc4362_receive_ccp_for_cid d cid packet)"
proof -
  have t: "table_ok (decomp_contexts d)" using d by (simp add: decomp_ok_def)
  have "safe (\<lambda>_. True) (read_context_check_packet packet)" by (auto simp: read_context_check_packet_def rd_def)
  moreover have "decomp_ok (d\<lparr>decomp_has_feedback := False\<rparr>)" using d by (simp add: decomp_ok_def)
  ultimately show ?thesis
    unfolding rohc_decomp_rfc4362_receive_ccp_for_cid_def Let_def
    by (auto intro!: ends_seq [OF get_context [OF t]] ends_seq [OF feedback_keeps [OF d]] ends_cases simp: d context_crc7_eq split: option.splits)
qed

lemma decompression_keeps:
  "decomp_ok d \<Longrightarrow> ends (\<lambda>(rc, out, u). decomp_ok u) (rohc_decompress4 d packet capacity)"
  "decomp_ok d \<Longrightarrow> ends (\<lambda>(rc, out, u). decomp_ok u) (rohc_decomp_rfc4362_receive_csp d packet capacity)"
  by (auto intro!: ends_mono [OF decompress4_ends] ends_mono [OF receive_csp_ends] simp: good_call_def good_end_def)

lemma reports_keep:
  "decomp_ok d \<Longrightarrow> ends (\<lambda>(rc, u). decomp_ok u) (rohc_decomp_rfc4362_report_loss d cid)"
  "decomp_ok d \<Longrightarrow> ends (\<lambda>(rc, u). decomp_ok u) (rohc_decomp_rfc4362_report_residual_error d cid)"
  by (auto simp: rohc_decomp_rfc4362_report_loss_def rohc_decomp_rfc4362_report_residual_error_def intro!: ends_seq [OF feedback_keeps])

lemma decomp_exec_sound:
  assumes "decomp_ok d" and "request_typed r"
  shows "ends decomp_ok (decomp_exec r d)"
proof (cases r)
  case (ApplySa sa)
  then have "length (sa_key sa) = rohcoipsec_key_max" using assms(2) by (simp add: request_typed_def)
  then show ?thesis using ApplySa by (auto intro!: ends_seq [OF apply_sa_ok [OF assms(1)]])
qed (auto simp: settings_ok [OF assms(1)] intro!: decompression_keeps [OF assms(1), THEN ends_seq] receive_nhp_ok [OF assms(1), THEN ends_seq]
    receive_ccp_ok [OF assms(1), THEN ends_seq] reports_keep [OF assms(1), THEN ends_seq])

lemma reachable_ok: "decomp_reachable d \<Longrightarrow> decomp_ok d"
proof (induction rule: decomp_reachable.induct)
  case (decomp_called d r d')
  then show ?case using decomp_exec_sound [of d r] by simp
qed (rule decomp_new_ok)

section \<open>Properties\<close>

text \<open>
  C11. Decompression is memory safe and touches one context. In whatever way a client has used a decompressor before,
  \<open>rohc_decompress4\<close> returns on every packet without an access outside a buffer or an array. A call that returns 0 writes at
  most the given capacity, and at most one context differs afterwards from what it was; a call that fails, or waits for more
  segments, delivers nothing and leaves all contexts as they were. Two things are not taken back: the CID, the CID space and
  the mode noted in the context a segment or a feedback packet is addressed to, and the feedback of the call.
\<close>

theorem decompression_safe:
  assumes "decomp_reachable d"
  shows "\<exists>rc out d'. rohc_decompress4 d packet capacity = Done (rc, out, d') \<and>
     (if rc = 0 then length out \<le> capacity \<and> (\<exists>k. like_except {k} (decomp_contexts d) (decomp_contexts d'))
      else out = [] \<and> like_except {} (decomp_contexts d) (decomp_contexts d'))"
  using decompress4_ends [OF reachable_ok [OF assms], of capacity packet] by (auto simp: ends_def good_call_def good_end_def split: if_splits)

theorem decompression_safe_witness:
  "\<exists>rc out d'. rohc_decompress4 (the (rohc_decomp_new2 0 Uplink)) [0xFD, 0x01, 0x80] 1500 = Done (rc, out, d')"
proof -
  have "decomp_reachable (the (rohc_decomp_new2 0 Uplink))" by (rule decomp_created [of 0 Uplink]) (simp add: rohc_decomp_new2_def large_cid_max_def)
  then show ?thesis using decompression_safe [of "the (rohc_decomp_new2 0 Uplink)" "[0xFD, 0x01, 0x80]" 1500] by blast
qed

text \<open>
  C12. Type soundness of the decompressor's handle. A new decompressor is well formed: its table has an entry for every CID,
  every context has arrays of the sizes the code gives them and lengths within them, the reassembly buffer, the MRRU and the
  integrity key keep their bounds. Every call of the interface, with whatever arguments, returns and keeps this.
\<close>

theorem decompressor_sound:
  assumes "decomp_reachable d" and "request_typed r"
  shows "decomp_ok d \<and> (\<exists>d'. decomp_exec r d = Done d' \<and> decomp_reachable d')"
  using reachable_ok [OF assms(1)] decomp_exec_sound [OF _ assms(2)] decomp_called [OF assms] by (auto simp: ends_def)

theorem decompressor_sound_witness:
  "decomp_reachable (the (rohc_decomp_new2 7 Downlink)) \<and> request_typed (SetMrru 5000) \<and> decomp_ok (the (rohc_decomp_new2 7 Downlink))"
proof -
  have "decomp_reachable (the (rohc_decomp_new2 7 Downlink))" by (rule decomp_created [of 7 Downlink]) (simp add: rohc_decomp_new2_def large_cid_max_def)
  then show ?thesis using decompressor_sound [of "the (rohc_decomp_new2 7 Downlink)" "SetMrru 5000"] by (simp add: request_typed_def)
qed

end
