(* ===== verification/CApiCompressSafety.thy ===== *)
theory CApiCompressSafety
  imports CApiSafety
begin

text \<open>
  The invariant of a compressor behind the handle of the C interface: \<open>rohc_compress4\<close> stays inside every buffer and array on
  every packet, whatever a client did before, and every call keeps the object well formed.
\<close>

section \<open>Emitters stay within the output\<close>

lemma emit_cids_safe:
  "safe (\<lambda>q. length q \<le> length out + 1) (emit_add_cid_if_needed cap out c)"
  "safe (\<lambda>q. length q \<le> length out + 2) (emit_large_cid cap out c)"
  using encoded_len_bounds [of "ctx_cid c"] by (auto simp: emit_add_cid_if_needed_def emit_large_cid_def write_large_eq)

lemma emit_legacy_prefix_safe: "6 \<le> cap \<Longrightarrow> safe (\<lambda>(q, p). length q \<le> 6) (emit_legacy_prefix cap c t p)"
  unfolding emit_legacy_prefix_def
  apply (rule safe_seq [OF emit_cids_safe(1)])
  apply simp
  apply (rule safe_seq [OF emit_cids_safe(2)])
  apply simp
  done

lemma legacy_capacity_safe:
  assumes "context_wf c"
  shows "safe (\<lambda>_. True) (legacy_ir_capacity_ok cap c d r a b t)"
proof -
  have extras: "safe (\<lambda>_. True) (rtp_extras_body_len (ctx_rtp c))"
    using rtp_extras_body_len_safe [of "ctx_rtp c"] assms by (cases "rtp_extras_body_len (ctx_rtp c)") (auto simp: context_wf_def rtp_context_wf_def)
  have "safe (\<lambda>_. True) (legacy_ir_lengths c r a b)"
    unfolding legacy_ir_lengths_def Let_def by (rule safe_seq [where Q = "\<lambda>_. True"]) (auto intro!: safe_seq [OF extras])
  then show ?thesis
    unfolding legacy_ir_capacity_ok_def Let_def by (auto intro!: safe_if elim!: safe_seq)
qed

lemma static_writers_safe:
  assumes "context_wf c"
  shows "length out + 34 \<le> cap \<Longrightarrow> safe (\<lambda>q. length q \<le> length out + 34) (write_ip_static_with_protocol cap out c protocol)"
    "length out + 4 \<le> cap \<Longrightarrow> safe (\<lambda>q. length q \<le> length out + 4) (write_udp_static cap out c)"
    "length out + 4 \<le> cap \<Longrightarrow> safe (\<lambda>q. length q \<le> length out + 4) (write_rtp_static cap out c)"
    "length out + 4 \<le> cap \<Longrightarrow> safe (\<lambda>q. length q \<le> length out + 4) (write_udp_lite_dynamic cap out c)"
  using assms
  by (simp_all add: write_ip_static_with_protocol_def write_ipv6_static_def write_ipv4_static_with_protocol_def write_u32_def
      write_udp_static_def write_rtp_static_def write_udp_lite_dynamic_def write_u16_def context_wf_def)

lemma ignore_reject_safe: "safe P r \<Longrightarrow> P out \<Longrightarrow> safe P (ignore_reject out r)"
  by (cases r) (simp_all add: ignore_reject_def)

lemma list_writers_safe:
  assumes "context_wf c" and "length out + 129 \<le> cap"
  shows "safe (\<lambda>q. length q \<le> length out + 129) (write_ipv4_options cap lim out c)"
    "safe (\<lambda>q. length q \<le> length out + 129) (write_ipv6_extensions cap lim out c)"
  using assms by (auto simp: write_ipv4_options_def write_ipv6_extensions_def write_empty_list_to_def context_wf_def Let_def)

lemma write_ip_dynamic_safe:
  assumes "context_wf c" and "length out + 135 \<le> cap"
  shows "safe (\<lambda>q. length q \<le> length out + 135) (write_ip_dynamic cap out c)"
proof -
  have "safe (\<lambda>q. length q \<le> length out + 135) (ignore_reject q (write_ipv4_options cap lim q c))"
    "safe (\<lambda>q. length q \<le> length out + 135) (ignore_reject q (write_ipv6_extensions cap lim q c))"
    if "length q \<le> length out + 6" for q lim
    by (intro ignore_reject_safe safe_mono [OF list_writers_safe(1)] safe_mono [OF list_writers_safe(2)]; use assms that in simp)+
  then show ?thesis
    using assms(2) by (simp add: write_ip_dynamic_def write_ipv4_dynamic_def write_ipv6_dynamic_def write_u16_def)
qed

lemma extras_bounded:
  assumes "context_wf c"
  shows "safe (\<lambda>n. n = 0 \<or> unat n = 5 + unat (rtp_csrc_list_len (ctx_rtp c)) + unat (rtp_extension_len (ctx_rtp c)) + unat (rtp_padding_len (ctx_rtp c)))
    (rtp_extras_body_len (ctx_rtp c))"
proof -
  let ?r = "ctx_rtp c"
  have lens: "unat (rtp_csrc_list_len ?r) \<le> 60" "unat (rtp_extension_len ?r) \<le> 256" "unat (rtp_padding_len ?r) \<le> 255"
    using assms unat_byte_le [of "rtp_padding_len ?r"] by (auto simp: context_wf_def rtp_context_wf_def)
  obtain b where b: "rtp_extension_bytes_valid ?r = Done b" using rtp_extension_bytes_valid_ok assms by (fastforce simp: context_wf_def rtp_context_wf_def)
  obtain d where d: "rtp_padding_valid ?r = Done d" using rtp_padding_valid_ok assms by (fastforce simp: context_wf_def rtp_context_wf_def)
  have u: "unat (of_nat n :: u32) = n" if "n \<le> 600" for n
    unfolding unsigned_of_nat of_nat_id by (rule take_bit_nat_eq_self) (use that in simp)
  show ?thesis
  proof (cases "unat (rtp_csrc_list_len ?r) = unat (rtp_vpxcc ?r AND 0x0F) * 4 \<and> unat (rtp_vpxcc ?r AND 0x0F) * 4 \<le> 60")
    case True
    then show ?thesis using lens b d by (simp add: rtp_extras_body_len_def Let_def u del: of_nat_add of_nat_mult)
  qed (auto simp: rtp_extras_body_len_def Let_def)
qed

lemma write_rtp_extras_safe:
  assumes wf: "context_wf c" and room: "length out + 600 \<le> cap"
  shows "safe (\<lambda>q. length q \<le> length out + 600) (write_rtp_extras_list cap out c)"
proof -
  have lens: "unat (rtp_csrc_list_len (ctx_rtp c)) \<le> 60" "unat (rtp_extension_len (ctx_rtp c)) \<le> 256" "unat (rtp_padding_len (ctx_rtp c)) \<le> 255"
    "length (rtp_csrc_list (ctx_rtp c)) = 60" "length (rtp_extension_bytes (ctx_rtp c)) = 256" "length (rtp_padding_bytes (ctx_rtp c)) = 255"
    using wf unat_byte_le [of "rtp_padding_len (ctx_rtp c)"] by (auto simp: context_wf_def rtp_context_wf_def)
  have large: "safe (\<lambda>q. length q \<le> length p + 2) (write_large cap p n)" for p n
    using encoded_len_bounds [of n] by (auto simp: write_large_eq)
  show ?thesis
    unfolding write_rtp_extras_list_def Let_def
    by (rule safe_seq [OF extras_bounded [OF wf]])
      (use lens room in \<open>auto simp: write_empty_list_def write_u16_def intro!: safe_seq [OF large]\<close>)
qed

lemma write_rtp_dynamic_safe:
  "context_wf c \<Longrightarrow> length out + 608 \<le> cap \<Longrightarrow> safe (\<lambda>q. length q \<le> length out + 608) (write_rtp_dynamic cap out c)"
  using write_rtp_extras_safe [of c _ cap]
  by (auto simp: write_rtp_dynamic_def write_u16_def write_u32_def Let_def intro!: safe_mono [OF write_rtp_extras_safe])

lemma length_patch_crc [simp]: "length (patch_crc out i) = length out"
  by (simp add: patch_crc_def)

lemmas legacy_writers = emit_legacy_prefix_safe legacy_capacity_safe static_writers_safe write_ip_dynamic_safe write_rtp_dynamic_safe

lemma udp_lite_emitters_safe:
  assumes wf: "context_wf c"
  shows "safe (\<lambda>q. length q \<le> 2048) (emit_ir_udp_lite_into 2048 c)" "safe (\<lambda>q. length q \<le> 2048) (emit_ir_rtp_udp_lite_into 2048 c)"
    "safe (\<lambda>q. length q \<le> 2048) (emit_ir_dyn_udp_lite_into 2048 c)" "safe (\<lambda>q. length q \<le> 2048) (emit_ir_dyn_rtp_udp_lite_into 2048 c)"
  unfolding emit_ir_udp_lite_into_def emit_ir_rtp_udp_lite_into_def emit_ir_dyn_udp_lite_into_def emit_ir_dyn_rtp_udp_lite_into_def
  by (auto intro!: legacy_writers [THEN safe_seq] wf simp: emit_legacy_prefix_safe)

abbreviation within_cap :: "nat \<Rightarrow> bytes res \<Rightarrow> bool" where
  "within_cap cap r \<equiv> safe (\<lambda>q. length q \<le> cap) r"

lemma emit_ir_safe:
  assumes wf: "context_wf c"
  shows "within_cap cap (emit_ir_rtp cap c)" "within_cap cap (emit_ir_udp cap c)" "within_cap cap (emit_ir_esp cap c)" "within_cap cap (emit_ir_ip cap c)"
    "within_cap cap (emit_ir_udp_lite cap c)" "within_cap cap (emit_ir_rtp_udp_lite cap c)"
    "within_cap cap (emit_ir_dyn_rtp cap c)" "within_cap cap (emit_ir_dyn_udp cap c)" "within_cap cap (emit_ir_dyn_esp cap c)" "within_cap cap (emit_ir_dyn_ip cap c)"
    "within_cap cap (emit_ir_dyn_udp_lite cap c)" "within_cap cap (emit_ir_dyn_rtp_udp_lite cap c)"
  using emit_ir_eq [OF wf]
  by (simp_all add: emit_ir_dyn_rtp_def emit_ir_dyn_udp_def emit_ir_dyn_esp_def emit_ir_dyn_ip_def emit_ir_udp_lite_def emit_ir_rtp_udp_lite_def
      emit_ir_dyn_udp_lite_def emit_ir_dyn_rtp_udp_lite_def emit_ir_atomically_def udp_lite_emitters_safe [OF wf, THEN safe_seq])

lemma emit_fo_safe:
  assumes wf: "context_wf c"
  shows "within_cap cap (emit_udp_fo cap c)" "within_cap cap (emit_ip_fo cap c)" "within_cap cap (emit_udp_lite_fo cap c)"
  using fo_emitters [OF wf] udp_fo.length_frame ip_fo.length_frame udp_lite_fo.length_frame by simp_all

lemma emit_rtp_fo_safe: "0 < cap \<Longrightarrow> safe (\<lambda>q. length q \<le> cap) (emit_rtp_fo (replicate cap 0) cap c)"
proof (cases "is_valid_for_space (ctx_cid c) (ctx_large_cid c) \<and> rtp_fo_len c \<le> cap")
  case True
  then obtain body x where "emit_rtp_fo (replicate cap 0) cap c = Done (body @ [x])" "length body + 1 = rtp_fo_len c"
    using emit_rtp_fo_bits [of c cap "replicate cap 0"] by auto
  then show ?thesis using True by simp
next
  case False
  assume "0 < cap"
  then show ?thesis using False by (auto simp: emit_rtp_fo_def rtp_fo_len_def Let_def)
qed

lemma emit_formal_co_safe:
  "safe (\<lambda>q. length q \<le> cap \<and> (if cid = 0 then 0 else 1) < length q) (emit_formal_co cap p v cid False flds crc_input)"
proof (cases "0 < formal_co_base_len p v \<and> is_valid_for_space cid False \<and> co_required_len cid False (formal_co_base_len p v - 1) \<le> cap")
  case True
  obtain b fs where b: "length b = formal_co_base_len p v" "buf_bits b = field_bits fs"
      "base_field_list (is_rtp_formal_co_profile p) v flds (formal_co_header_crc v crc_input) = Some fs"
    using write_formal_co_base_layout [of p v flds "formal_co_header_crc v crc_input"] True by metis
  have "emit_formal_co cap p v cid False flds crc_input = Done (co_frame False cid (hd b) @ tl b)"
    using emit_formal_co_base [OF _ _ _ b(3,2,1)] True by blast
  then show ?thesis
    using length_co_frame [of False cid "hd b" "length (tl b)"] b(1) True by (auto simp: co_frame_def word_neq_0_conv)
next
  case False
  then show ?thesis
    using emit_formal_co_short [of p v cap cid False flds crc_input]
    by (cases "0 < formal_co_base_len p v") (auto simp: emit_formal_co_def Let_def not_le)
qed

lemma emit_uncompressed_safe: "within_cap cap (emit_uncompressed_ir cap c packet)"
  by (auto simp: emit_uncompressed_ir_eq uncompressed_ir_header_def split: if_splits)

lemma prepend_cids_safe:
  "length out \<le> cap \<Longrightarrow> within_cap cap (prepend_small_cid cap cid out)" "length out \<le> cap \<Longrightarrow> within_cap cap (prepend_private_rtp_small_cid cap cid out)"
  by (auto simp: prepend_small_cid_def prepend_private_rtp_small_cid_def)

section \<open>Capturing a packet keeps the context well formed\<close>

definition view_ok :: "bytes \<Rightarrow> parsed_ip_view \<Rightarrow> bool" where
  "view_ok packet v \<longleftrightarrow> pv_header_len v \<le> length packet \<and>
     (if pv_is_ipv6 v then (case pv_ip6 v of Some ip \<Rightarrow> length (ip6_src ip) = 16 \<and> length (ip6_dst ip) = 16 | None \<Rightarrow> False) \<and>
        pv_header_len v = 40 + pv_extension_len v
      else pv_ip4 v \<noteq> None \<and> 20 \<le> pv_header_len v \<and> pv_header_len v \<le> 60)"

lemma parse_ip_view_safe: "safe (view_ok packet) (parse_ip_view packet)"
proof (cases "parse_ip_view packet")
  case (Done v)
  then show ?thesis
  proof (cases rule: parse_ip_view_cases)
    case (v4 ip hl)
    then show ?thesis using Done ipv4_parse_Done [OF v4(1)] by (simp add: view_ok_def)
  next
    case (v6 ip hl nxt ext)
    then show ?thesis using Done ipv6_parse_Done [OF v6(1)] by (simp add: view_ok_def ipv6_header_of_def)
  qed
next
  case Fault
  have "ipv4_parse packet \<noteq> Fault" by (auto simp: ipv4_parse_def Let_def)
  then show ?thesis using Fault ipv6_parse_result [of packet] by (cases "ipv6_parse packet") (auto simp: parse_ip_view_def split: res.splits prod.splits)
qed simp

lemma capture_ip_context_safe:
  assumes "context_wf c" and "view_ok packet v"
  shows "safe context_wf (capture_ip_context c packet v)" "context_wf (capture_ip_partial c v)"
proof -
  have n: "unat (of_nat k :: byte) = k" if "k \<le> 128" for k by (rule unat_of_nat_byte) (use that in simp)
  show "safe context_wf (capture_ip_context c packet v)"
    using assms n
    by (auto simp: capture_ip_context_def capture_ipv4_options_def capture_ipv4_fields_def capture_ipv6_fields_def view_ok_def context_wf_def Let_def
        simp del: of_nat_diff split: option.splits if_splits)
  show "context_wf (capture_ip_partial c v)"
    using assms
    by (auto simp: capture_ip_partial_def capture_ipv4_fields_def capture_ipv6_fields_def view_ok_def context_wf_def Let_def
        split: option.splits if_splits)
qed

lemma captures_wf [simp]:
  "context_wf (capture_udp_header c u) = context_wf c" "context_wf (capture_rtp_header c r) = context_wf c"
  "context_wf (note_behavior_change b c) = context_wf c" "context_wf (update_rtp_timestamp_stride c s t) = context_wf c"
  "context_wf (snd (update_rtp_ipv4_id_behavior c h a f q ps sq)) = context_wf c"
  by (auto simp: capture_udp_header_def capture_rtp_header_def note_behavior_change_def update_rtp_timestamp_stride_def
      update_rtp_ipv4_id_behavior_def context_wf_def rtp_context_wf_def Let_def split: option.splits)

lemma behavior_wf: "update_rtp_ipv4_id_behavior c h a f q ps sq = (b, u) \<Longrightarrow> context_wf u = context_wf c"
  using captures_wf(5) [of c h a f q ps sq] by simp

lemma capture_esp_header_safe: "context_wf c \<Longrightarrow> safe context_wf (capture_esp_header c packet pos)"
  by (auto simp: capture_esp_header_def intro!: safe_rd32)

lemma capture_csrc_safe:
  "rtp_context_wf r \<Longrightarrow> safe (\<lambda>(r, pos). rtp_context_wf r \<and> pos \<le> length q) (capture_csrc r q n)"
  by (auto simp: capture_csrc_def rtp_context_wf_def unat_of_nat_byte)

lemma capture_rtp_extension_safe:
  "rtp_context_wf r \<Longrightarrow> pos \<le> length q \<Longrightarrow> q \<noteq> [] \<Longrightarrow> safe (\<lambda>(r, pos). rtp_context_wf r \<and> pos \<le> length q) (capture_rtp_extension r q pos)"
  by (auto simp: capture_rtp_extension_def rtp_context_wf_def unat_of_nat_u16 Let_def simp del: of_nat_add of_nat_mult intro!: safe_rd16)

lemma capture_rtp_padding_safe:
  assumes "rtp_context_wf r" and "pos \<le> length q" and "q \<noteq> []"
  shows "safe (\<lambda>(r, n). rtp_context_wf r \<and> n \<le> length q - pos) (capture_rtp_padding r q pos)"
proof -
  have "Suc 0 \<le> length q" using assms(3) by (cases q) auto
  then show ?thesis using assms by (auto simp: capture_rtp_padding_def rtp_context_wf_def Let_def)
qed

lemma cleared_extras_wf:
  "rtp_context_wf r \<Longrightarrow> rtp_context_wf (r\<lparr>rtp_csrc_list_len := 0, rtp_csrc_list := replicate 60 0, rtp_extension_len := 0,
     rtp_extension_bytes := replicate 256 0, rtp_padding_len := 0, rtp_padding_bytes := replicate 255 0\<rparr>)"
  by (simp add: rtp_context_wf_def)

lemma capture_rtp_context_safe:
  assumes "context_wf c"
  shows "safe (\<lambda>(c, off, n). context_wf c \<and> off + n \<le> length q) (capture_rtp_context c q)" "context_wf (capture_rtp_partial c q)"
proof -
  have wf: "rtp_context_wf (ctx_rtp c)" using assms by (simp add: context_wf_def)
  have keep: "context_wf (c\<lparr>ctx_rtp := r\<rparr>)" if "rtp_context_wf r" for r using assms that by (simp add: context_wf_def)
  have extras: "safe (\<lambda>_. True) (rtp_extras_body_len r)" if "rtp_context_wf r" for r
    using rtp_extras_body_len_safe [of r] that by (cases "rtp_extras_body_len r") (auto simp: rtp_context_wf_def)
  show "safe (\<lambda>(c, off, n). context_wf c \<and> off + n \<le> length q) (capture_rtp_context c q)"
  proof (cases "length q < 12")
    case False
    then have "q \<noteq> []" by auto
    then show ?thesis
      unfolding capture_rtp_context_def Let_def
      by (auto intro!: safe_seq [OF capture_csrc_safe] safe_seq [OF capture_rtp_extension_safe] safe_seq [OF capture_rtp_padding_safe]
          safe_seq [OF extras] cleared_extras_wf wf keep)
  qed (simp add: capture_rtp_context_def)
  show "context_wf (capture_rtp_partial c q)"
  proof (cases "length q < 12")
    case False
    then have "q \<noteq> []" by auto
    then have pad: "rtp_context_wf (case capture_rtp_padding r q pos of Done (r3, _) \<Rightarrow> r3 | _ \<Rightarrow> r)" if "rtp_context_wf r" "pos \<le> length q" for r pos
      using capture_rtp_padding_safe [OF that] that by (cases "capture_rtp_padding r q pos") auto
    have ext: "rtp_context_wf (case capture_rtp_extension r q pos of
        Done (r2, pos) \<Rightarrow> (case capture_rtp_padding r2 q pos of Done (r3, _) \<Rightarrow> r3 | _ \<Rightarrow> r2) | _ \<Rightarrow> r)"
      if "rtp_context_wf r" "pos \<le> length q" for r pos
      using capture_rtp_extension_safe [OF that \<open>q \<noteq> []\<close>] pad that by (cases "capture_rtp_extension r q pos") auto
    have "rtp_context_wf (case capture_csrc r q n of Done (r1, pos) \<Rightarrow> (case capture_rtp_extension r1 q pos of
        Done (r2, pos) \<Rightarrow> (case capture_rtp_padding r2 q pos of Done (r3, _) \<Rightarrow> r3 | _ \<Rightarrow> r2) | _ \<Rightarrow> r1) | _ \<Rightarrow> r)"
      if "rtp_context_wf r" for r n
      using capture_csrc_safe [OF that, of q n] ext that by (cases "capture_csrc r q n") auto
    then show ?thesis using False keep cleared_extras_wf [OF wf] by (simp add: capture_rtp_partial_def Let_def)
  qed (simp add: capture_rtp_partial_def assms)
qed

section \<open>Choosing and completing a packet\<close>

definition compressed_well :: "nat \<Rightarrow> bytes option \<times> rohc_context \<Rightarrow> bool" where
  "compressed_well cap r \<longleftrightarrow> context_wf (snd r) \<and> (\<forall>q. fst r = Some q \<longrightarrow> length q \<le> cap)"

abbreviation comp_ends :: "nat \<Rightarrow> compressed \<Rightarrow> bool" where
  "comp_ends cap \<equiv> ends (compressed_well cap)"

lemma compressed_well_simps [simp]:
  "compressed_well cap (None, c) \<longleftrightarrow> context_wf c" "compressed_well cap (Some q, c) \<longleftrightarrow> context_wf c \<and> length q \<le> cap"
  by (auto simp: compressed_well_def)

lemma or_fail_ends: "safe Q r \<Longrightarrow> context_wf c \<Longrightarrow> (\<And>x. Q x \<Longrightarrow> comp_ends cap (k x)) \<Longrightarrow> comp_ends cap (or_fail r c k)"
  by (cases r) (auto simp: or_fail_def)

lemma ends_True: "safe (\<lambda>_. True) r \<Longrightarrow> r \<noteq> Reject \<Longrightarrow> ends (\<lambda>_. True) r"
  by (cases r) auto

lemma succeeds_ends: "safe Q r \<Longrightarrow> ends (\<lambda>_. True) (succeeds r)"
  by (cases r) (auto simp: succeeds_def)

lemma more_wf [simp]:
  "context_wf (c\<lparr>ctx_static_acked := b\<rparr>) = context_wf c" "context_wf (c\<lparr>ctx_dynamic_acked := b\<rparr>) = context_wf c"
  "context_wf (c\<lparr>ctx_profile_replacement_pending := b\<rparr>) = context_wf c" "context_wf (c\<lparr>ctx_profile_replacement_active := b\<rparr>) = context_wf c"
  "context_wf (c\<lparr>ctx_context_revision := w\<rparr>) = context_wf c"
  by (simp_all add: context_wf_def)

lemma note_transmission_ends:
  assumes "context_wf c"
  shows "ends context_wf (note_transmission c)"
proof -
  have recorded: "ends context_wf (record_transmitted_msn u m)" if "context_wf u" for u m
    using record_transmitted_msn_log [OF that, of m] by auto
  show ?thesis
    unfolding note_transmission_def Let_def by (rule ends_seq [OF recorded]) (simp_all add: assms)
qed

lemma append_payload_range_ends:
  "context_wf c \<Longrightarrow> length hdr \<le> cap \<Longrightarrow> comp_ends cap (append_payload_range packet cap hdr off n c)"
  unfolding append_payload_range_def by (auto intro!: ends_seq [OF note_transmission_ends])

lemma append_payload_ends: "context_wf c \<Longrightarrow> length hdr \<le> cap \<Longrightarrow> comp_ends cap (append_payload packet cap hdr off c)"
  unfolding append_payload_def by (rule append_payload_range_ends)

lemma decodes_as_private_ends: "context_wf c \<Longrightarrow> ends (\<lambda>_. True) (decodes_as_private b payload c)"
  unfolding decodes_as_private_def Let_def
  using private_fo_safe [of c] by (auto intro!: succeeds_ends)

lemma any_neighbor_ends: "context_wf c \<Longrightarrow> ends (\<lambda>_. True) (any_neighbor b ns payload c)"
  by (induction ns) (auto intro!: ends_seq [OF decodes_as_private_ends])

lemma pt0_ambiguous_ends: "(\<And>c. context0 = Some c \<Longrightarrow> context_wf c) \<Longrightarrow> ends (\<lambda>_. True) (pt0_private_fo_ambiguous b payload context0 n)"
  unfolding pt0_private_fo_ambiguous_def Let_def
  by (cases context0) (auto intro!: ends_seq [OF decodes_as_private_ends] any_neighbor_ends)

lemma try_formal_ends:
  assumes "n \<le> length packet" and "\<And>c. context0 = Some c \<Longrightarrow> context_wf c"
  shows "ends (\<lambda>_. True) (try_formal buf_size p v cid n packet payload context0 b c)"
  unfolding try_formal_def
  using assms by (auto intro!: ends_or_none [OF emit_formal_co_safe] ends_seq [OF pt0_ambiguous_ends] split: if_splits)

lemma formal_udp_reading_safe: "context_wf c \<Longrightarrow> safe (\<lambda>(u, n). context_wf u \<and> n \<le> 3) (formal_udp_reading c m q)"
  by (auto simp: formal_udp_reading_def Let_def intro!: safe_rd16)

lemma private_udp_ambiguous_ends:
  assumes "context_wf previous"
  shows "ends (\<lambda>_. True) (private_udp_fo_is_formal_pt0_ambiguous previous q payload)"
proof -
  have checksums: "safe (\<lambda>_. True) (formal_udp_checksums previous q n header payload)" if "length header = 28" "n \<le> length q" for n header
  proof -
    have "safe (\<lambda>_. True) (seq_res (decode_udp_fo q previous) (\<lambda>(c, _).
        seq_res (build_fixed_udp_ipv4_header c (length payload)) (\<lambda>h. udp_checksum_valid h [] payload)))"
      by (rule safe_seq [OF private_fo_safe(1) [OF assms]])
        (auto intro!: safe_seq [OF fixed_headers_safe(2)] dest!: udp_checksum_total [where prefix = "[]" and payload = payload])
    then show ?thesis
      unfolding formal_udp_checksums_def Let_def
      using that udp_checksum_total [OF that(1), of "drop n q" payload] by (auto split: res.splits)
  qed
  have "safe (\<lambda>_. True) (seq_res (read_formal_co_base q 1 UDP Pt0Crc3 formal_co_packet_init) (\<lambda>formal.
      seq_res (decode_forward_formal_pt0_msn previous (cp_msn formal)) (\<lambda>next_msn.
      seq_res (formal_udp_reading previous next_msn q) (\<lambda>(formal_context, n).
      guard (n \<le> length q \<and> length payload \<le> 2 ^ 64 - 1 - (length q - n))
        (seq_res (build_fixed_udp_ipv4_header formal_context (length q - n + length payload)) (\<lambda>header.
         guard (crc3 header = cp_header_crc formal)
           (if \<not> ctx_udp_checksum_used formal_context then Done True else formal_udp_checksums previous q n header payload)))))))"
    if "q \<noteq> []"
    by (intro safe_seq [OF read_formal_co_base_safe] safe_seq [OF forward_msn_safe(2)] safe_seq [OF formal_udp_reading_safe])
      (use that assms in \<open>auto intro!: safe_guard safe_seq [OF fixed_headers_safe(2)] checksums simp: Suc_le_eq\<close>)
  then show ?thesis
    unfolding private_udp_fo_is_formal_pt0_ambiguous_def by (auto split: res.splits)
qed

lemma private_ip_ambiguous_ends: "ends (\<lambda>_. True) (private_ip_fo_is_formal_pt0_ambiguous previous q n)"
  unfolding private_ip_fo_is_formal_pt0_ambiguous_def Let_def
  by (auto intro!: succeeds_ends [where Q = "\<lambda>_. True"] safe_seq [OF read_formal_co_base_safe] safe_seq [OF forward_msn_safe(2)]
      safe_seq [OF fixed_headers_safe(4)] safe_guard simp: Suc_le_eq)

lemma rtp_pt0_emit_safe:
  "40 \<le> length packet \<Longrightarrow> safe (\<lambda>q. length q \<le> cap \<and> (if cid = 0 then 0 else 1) < length q) (emit_rtp_pt0_small_cid cap cid m packet)"
  using emit_formal_co_safe unfolding emit_rtp_pt0_small_cid_def by auto

lemma private_rtp_emit_safe:
  "0 < cap \<Longrightarrow> within_cap cap (seq_res (emit_rtp_fo (replicate cap 0) cap c) (prepend_private_rtp_small_cid cap cid))"
  by (rule safe_seq [OF emit_rtp_fo_safe]) (auto intro: prepend_cids_safe)

lemma emit_rtp_flow_ends:
  assumes before: "context_wf before" and packet: "40 \<le> length packet" and cap: "0 < cap" and wf: "context_wf ctx"
    and k: "\<And>out c. length out \<le> cap \<Longrightarrow> context_wf c \<Longrightarrow> comp_ends cap (k out c)"
  shows "comp_ends cap (emit_rtp_flow before fo_safe cid cap packet payload ctx k)"
proof -
  have ambiguous: "ends (\<lambda>_. True) (succeeds (decode_fo_rtp q (before\<lparr>ctx_cid := cid, ctx_large_cid := False\<rparr>)))" for q
    using private_fo_safe(5) [of "before\<lparr>ctx_cid := cid, ctx_large_cid := False\<rparr>" q] before by (auto intro: succeeds_ends)
  show ?thesis
    unfolding emit_rtp_flow_def Let_def
    by (auto intro!: or_fail_ends [OF emit_ir_safe(1)] or_fail_ends [OF emit_ir_safe(7)] or_fail_ends [OF rtp_pt0_emit_safe [OF packet]]
        or_fail_ends [OF private_rtp_emit_safe [OF cap]] ends_seq [OF ambiguous] k simp: wf split: if_splits simp del: ends_simps)
qed

lemma emit_rtp_udp_lite_flow_ends:
  assumes cap: "0 < cap" and wf: "context_wf ctx" and k: "\<And>out c. length out \<le> cap \<Longrightarrow> context_wf c \<Longrightarrow> comp_ends cap (k out c)"
  shows "comp_ends cap (emit_rtp_udp_lite_flow fo_safe cid cap ctx k)"
  unfolding emit_rtp_udp_lite_flow_def Let_def
  by (auto intro!: or_fail_ends [OF emit_ir_safe(6)] or_fail_ends [OF emit_ir_safe(12)] or_fail_ends [OF private_rtp_emit_safe [OF cap]] k simp: wf)

lemma capture_rtp_flow_ends:
  assumes wf: "context_wf c" and v: "view_ok packet v"
    and k: "\<And>c b off n. context_wf c \<Longrightarrow> pv_header_len v + 8 + off + n \<le> length packet \<Longrightarrow> pv_header_len v + 20 \<le> length packet \<Longrightarrow> comp_ends cap (k c b off n)"
  shows "comp_ends cap (capture_rtp_flow p m c packet v u r k)"
proof -
  let ?off = "pv_header_len v + 8"
  have captured: "safe (\<lambda>(c, off, n). context_wf c \<and> ?off + off + n \<le> length packet \<and> ?off + 12 \<le> length packet) (capture_rtp_context c (drop ?off packet))"
    if "context_wf c" "?off \<le> length packet" for c
  proof (cases "capture_rtp_context c (drop ?off packet)")
    case (Done x)
    have "12 \<le> length (drop ?off packet)" using Done by (auto simp: capture_rtp_context_def split: if_splits)
    then show ?thesis using capture_rtp_context_safe(1) [OF that(1), of "drop ?off packet"] Done that(2) by auto
  qed (use capture_rtp_context_safe(1) [OF that(1), of "drop ?off packet"] in auto)
  have tail: "comp_ends cap (if length packet < ?off then Done (None, c)
      else or_fail (capture_rtp_context c (drop ?off packet)) (capture_rtp_partial c (drop ?off packet)) (\<lambda>(c, off, n). k c b off n))"
    if "context_wf c" for c b
    using that k by (auto intro!: or_fail_ends [OF captured] capture_rtp_context_safe(2))
  have wf1: "context_wf (c\<lparr>ctx_profile := p, ctx_mode := m\<rparr>)" using wf by simp
  show ?thesis
    unfolding capture_rtp_flow_def Let_def
    by (rule or_fail_ends [OF capture_ip_context_safe(1) [OF wf1 v] capture_ip_context_safe(2) [OF wf1 v]])
      (split prod.split, intro allI impI, rule tail, drule behavior_wf, simp)
qed

lemma capture_ip_flow_ends:
  assumes wf: "context_wf c" and v: "view_ok packet v" and k: "\<And>c. context_wf c \<Longrightarrow> comp_ends cap (k c)"
  shows "comp_ends cap (capture_ip_flow p m c packet v k)"
proof -
  have wf1: "context_wf (c\<lparr>ctx_profile := p, ctx_mode := m\<rparr>)" using wf by simp
  show ?thesis
    unfolding capture_ip_flow_def Let_def
    by (rule or_fail_ends [OF capture_ip_context_safe(1) [OF wf1 v] capture_ip_context_safe(2) [OF wf1 v]]) (auto intro!: k)
qed

lemma compress_rtp_ends:
  assumes "context_wf before" and "context_wf c" and v: "view_ok packet v" and "0 < cap"
  shows "comp_ends cap (compress_rtp m cid cap before packet v u r c)" "comp_ends cap (compress_rtp_udp_lite m cid cap packet v u r c)"
proof -
  show "comp_ends cap (compress_rtp_udp_lite m cid cap packet v u r c)"
    unfolding compress_rtp_udp_lite_def
    by (intro capture_rtp_flow_ends emit_rtp_udp_lite_flow_ends append_payload_range_ends assms)
  show "comp_ends cap (compress_rtp m cid cap before packet v u r c)"
    unfolding compress_rtp_def Let_def
  proof (rule capture_rtp_flow_ends [OF assms(2) v], goal_cases)
    case (1 c b off n)
    have "20 \<le> pv_header_len v" using v by (auto simp: view_ok_def split: if_splits)
    then have "40 \<le> length packet" using 1(3) by simp
    then show ?case using 1 assms by (auto intro!: emit_rtp_flow_ends append_payload_range_ends)
  qed
qed

lemma send_formal_ends:
  "context_wf c \<Longrightarrow> (\<And>out c. length out \<le> cap \<Longrightarrow> context_wf c \<Longrightarrow> comp_ends cap (k out c)) \<Longrightarrow> comp_ends cap (send_formal cap f c k)"
  by (auto simp: send_formal_def)

lemma emit_private_udp_ends:
  assumes "context_wf previous" and "context_wf c" and k: "\<And>out c. length out \<le> cap \<Longrightarrow> context_wf c \<Longrightarrow> comp_ends cap (k out c)"
  shows "comp_ends cap (emit_private_udp previous cid cap payload c k)"
  unfolding emit_private_udp_def
  by (auto intro!: or_fail_ends [OF emit_fo_safe(1)] ends_seq [OF private_udp_ambiguous_ends] or_fail_ends [OF emit_ir_safe(8)]
      or_fail_ends [OF prepend_cids_safe(1)] assms)

lemma emit_private_ip_ends:
  assumes "context_wf c" and k: "\<And>out c. length out \<le> cap \<Longrightarrow> context_wf c \<Longrightarrow> comp_ends cap (k out c)"
  shows "comp_ends cap (emit_private_ip previous cid cap n c k)"
  unfolding emit_private_ip_def
  by (auto intro!: or_fail_ends [OF emit_fo_safe(2)] ends_seq [OF private_ip_ambiguous_ends] or_fail_ends [OF emit_ir_safe(4)]
      or_fail_ends [OF prepend_cids_safe(1)] assms)

lemma try_formal_then:
  assumes "n \<le> length packet" and "\<And>c. context0 = Some c \<Longrightarrow> context_wf c" and "\<And>f. comp_ends cap (k f)"
  shows "comp_ends cap (seq_res (try_formal buf_size p v cid n packet payload context0 b c) k)"
  by (rule ends_seq [OF try_formal_ends [OF assms(1,2)]]) (use assms(3) in auto)

lemma compress_udp_ends:
  assumes wf: "context_wf c" and v: "view_ok packet v" and room: "pv_header_len v + 8 \<le> length packet"
  shows "comp_ends cap (compress_udp m cid cap packet v u c)"
  unfolding compress_udp_def Let_def
  by (rule capture_ip_flow_ends [OF wf v])
    (use room wf in \<open>auto intro!: or_fail_ends [OF emit_ir_safe(2)] or_fail_ends [OF emit_ir_safe(8)] try_formal_then
        emit_private_udp_ends send_formal_ends append_payload_ends split: option.split\<close>)

lemma compress_ip_ends:
  assumes wf: "context_wf c" and v: "view_ok packet v"
  shows "comp_ends cap (compress_ip m cid cap packet v c)"
proof -
  have "pv_header_len v \<le> length packet" using v by (simp add: view_ok_def)
  then show ?thesis
    unfolding compress_ip_def Let_def
    by (intro capture_ip_flow_ends [OF wf v])
      (auto intro!: or_fail_ends [OF emit_ir_safe(4)] or_fail_ends [OF emit_ir_safe(10)] try_formal_then
        emit_private_ip_ends send_formal_ends append_payload_ends split: option.split)
qed

lemma capture_esp_room: "safe (\<lambda>u. context_wf u \<and> pos + 8 \<le> length packet) (capture_esp_header c packet pos)" if "context_wf c"
  using capture_esp_header_safe [OF that, of packet pos]
  by (cases "length packet < pos + 8") (auto simp: capture_esp_header_def elim!: safe_mono)

lemma compress_esp_ends:
  assumes wf: "context_wf c" and v: "view_ok packet v"
  shows "comp_ends cap (compress_esp m cid cap packet v c)"
  unfolding compress_esp_def Let_def
  by (intro capture_ip_flow_ends [OF wf v] or_fail_ends [OF capture_esp_room])
    (use wf in \<open>auto intro!: or_fail_ends [OF emit_ir_safe(3)] or_fail_ends [OF emit_ir_safe(9)] try_formal_then
      send_formal_ends append_payload_ends split: option.split\<close>)

lemma compress_udp_lite_ends:
  assumes wf: "context_wf c" and v: "view_ok packet v"
  shows "comp_ends cap (compress_udp_lite m cid cap packet v u c)"
proof -
  have wf1: "context_wf (c\<lparr>ctx_profile := UDP_Lite, ctx_mode := m\<rparr>)" using wf by simp
  show ?thesis
    unfolding compress_udp_lite_def Let_def
    by (rule or_fail_ends [OF capture_ip_context_safe(1) [OF wf1 v] capture_ip_context_safe(2) [OF wf1 v]])
      (auto intro!: or_fail_ends [OF emit_ir_safe(5)] or_fail_ends [OF emit_ir_safe(11)] or_fail_ends [OF emit_fo_safe(3)]
        or_fail_ends [OF prepend_cids_safe(1)] append_payload_ends)
qed

lemma compress_uncompressed_ends: "context_wf c \<Longrightarrow> comp_ends cap (compress_uncompressed cap packet c)"
  using is_uncompressed_total [of packet]
  by (auto simp: compress_uncompressed_def Let_def intro!: or_fail_ends [OF emit_uncompressed_safe])

end
