(* ===== verification/CApiCompressorUse.thy ===== *)
theory CApiCompressorUse
  imports CApiCompressSafety
begin

text \<open>
  Every use of a compressor through the C interface: the choice of the profile, \<open>rohc_compress4\<close> as a whole, segments,
  settings, feedback and the packets of the link-layer assisted profile. Each call returns, stays inside the buffers and
  arrays, and keeps the object well formed; compressing changes the context of the current CID only.
\<close>

section \<open>One packet\<close>

lemma replaced_wf: "context_wf before \<Longrightarrow> context_wf (begin_profile md large cid p before)"
  by (simp add: begin_profile_def require_confirmation_before_pt0_alias_def Let_def)

lemma classify_total: "ends (\<lambda>_. True) (classify_packet packet)"
  by (cases packet rule: classify_packet_cases) (simp_all add: classify_transport_eq)

lemma choose_profile_ends: "ends (\<lambda>_. True) (choose_profile packet v fragmented rtp)"
  unfolding choose_profile_def Let_def by (rule ends_seq [where Q = "\<lambda>_. True"]) (simp_all add: classify_total)

lemma udp_parse_room: "safe (\<lambda>_. off + 8 \<le> length packet) (udp_parse packet off)"
  by (simp add: udp_parse_def bounds_check_def)

lemma rtp_parse_returns: "safe (\<lambda>_. True) (rtp_parse packet off)"
  by (cases "rtp_parse packet off") (simp_all add: rtp_parse_not_Fault)

lemma profile_branches_end:
  assumes wf: "context_wf before" "context_wf c" and v: "view_ok packet v" and "0 < cap"
    and udp: "\<And>u. udp = Some u \<Longrightarrow> pv_header_len v + 8 \<le> length packet"
  shows "comp_ends cap (case (profile, udp, rtp) of
        (RTP_UDP_Lite, Some u, Some r) \<Rightarrow> compress_rtp_udp_lite md cid cap packet v u r c
      | (RTP, Some u, Some r) \<Rightarrow> compress_rtp md cid cap before packet v u r c
      | (UDP, Some u, _) \<Rightarrow> compress_udp md cid cap packet v u c
      | (IP, _, _) \<Rightarrow> compress_ip md cid cap packet v c
      | (ESP, _, _) \<Rightarrow> compress_esp md cid cap packet v c
      | (UDP_Lite, Some u, _) \<Rightarrow> compress_udp_lite md cid cap packet v u c
      | _ \<Rightarrow> compress_uncompressed cap packet c)"
proof -
  note branch = compress_rtp_ends [OF wf v \<open>0 < cap\<close>] compress_ip_ends [OF wf(2) v] compress_esp_ends [OF wf(2) v]
    compress_udp_lite_ends [OF wf(2) v] compress_uncompressed_ends [OF wf(2)]
  show ?thesis
  proof (cases udp)
    case None
    then show ?thesis by (cases profile) (simp_all add: branch)
  next
    case (Some u)
    have "comp_ends cap (compress_udp md cid cap packet v u c)" using compress_udp_ends [OF wf(2) v udp [OF Some]] .
    then show ?thesis using Some by (cases profile; cases rtp) (simp_all add: branch)
  qed
qed

lemma compress_context_ends:
  assumes wf: "context_wf before" and v: "view_ok packet v" and "0 < cap"
  shows "comp_ends cap (compress_context md large cid cap packet v before)"
proof -
  let ?udp_ok = "\<lambda>udp. udp \<noteq> None \<longrightarrow> pv_header_len v + 8 \<le> length packet"
  have udp: "ends ?udp_ok (if b then or_none (udp_parse packet (pv_header_len v)) else Done None)" for b
    using udp_parse_room [of "pv_header_len v" packet] by (cases "udp_parse packet (pv_header_len v)") (auto simp: or_none_def)
  have rtp: "ends (\<lambda>_. True) (case udp of Some _ \<Rightarrow> or_none (rtp_parse packet (pv_header_len v + 8)) | None \<Rightarrow> Done None)" for udp :: "udp_header option"
    using rtp_parse_returns [of packet "pv_header_len v + 8"]
    by (cases udp; cases "rtp_parse packet (pv_header_len v + 8)") (auto simp: or_none_def)
  show ?thesis
    unfolding compress_context_def Let_def
    by (rule ends_seq [OF udp], rule ends_seq [OF rtp], rule ends_seq [OF choose_profile_ends], rule profile_branches_end)
      (use assms in \<open>auto simp: replaced_wf\<close>)
qed

section \<open>The invariant of a compressor\<close>

definition comp_ok :: "rohc_comp \<Rightarrow> bool" where
  "comp_ok c \<longleftrightarrow> table_ok (comp_contexts c) \<and> length (comp_pending_segment c) = segment_buffer_max \<and>
     comp_pending_segment_pos c \<le> comp_pending_segment_len c \<and> comp_pending_segment_len c \<le> segment_buffer_max \<and>
     comp_mrru c \<le> segment_buffer_max \<and> oipsec_ok (comp_oipsec c)"

definition same_except :: "u32 set \<Rightarrow> context_table \<Rightarrow> context_table \<Rightarrow> bool" where
  \<comment> \<open>the entries of other CIDs are the same\<close>
  "same_except K t t' \<longleftrightarrow> (\<forall>k. context_table_get t' k = context_table_get t k \<and>
     (\<forall>i. context_table_get t k = Done (Some i) \<and> k \<notin> K \<longrightarrow> context_table_entry t' i = context_table_entry t i))"

definition good_output :: "rohc_comp \<Rightarrow> nat \<Rightarrow> bytes option \<times> rohc_comp \<Rightarrow> bool" where
  "good_output c capacity r \<longleftrightarrow> (case r of (out, c') \<Rightarrow> comp_ok c' \<and> same_except {comp_current_cid c} (comp_contexts c) (comp_contexts c') \<and>
     comp_current_cid c' = comp_current_cid c \<and> (\<forall>q. out = Some q \<longrightarrow> length q \<le> capacity))"

lemma same_except_refl [simp]: "same_except K t t"
  by (simp add: same_except_def)

lemma same_except_set:
  "table_ok t \<Longrightarrow> context_table_get t k = Done (Some i) \<Longrightarrow> same_except {k} t (context_table_set t i c)"
  unfolding same_except_def contexts.get_upd using contexts.entry_upd by (metis singletonI)

lemma same_except_trans: "same_except K t u \<Longrightarrow> same_except K u v \<Longrightarrow> same_except K t v"
  by (simp add: same_except_def)

lemma good_output_trans: "good_output c cap0 (out, u) \<Longrightarrow> good_output u cap r \<Longrightarrow> good_output c cap r"
  unfolding good_output_def by (auto intro: same_except_trans)

lemma compress4_full_ends:
  assumes c: "comp_ok c" and "0 < cap"
  shows "ends (good_output c cap) (compress4_full c packet cap)"
proof -
  have t: "table_ok (comp_contexts c)" using c by (simp add: comp_ok_def)
  have step: "ends (good_output c cap) (seq_res (compress_context (comp_mode c) (comp_large_cid_space c) (comp_current_cid c) cap packet v
      (context_table_entry (comp_contexts c) i)) (\<lambda>(out, ctx). Done (out, c\<lparr>comp_contexts := context_table_set (comp_contexts c) i ctx\<rparr>)))"
    if v: "view_ok packet v" and i: "context_table_get (comp_contexts c) (comp_current_cid c) = Done (Some i)" for v i
    by (rule ends_seq [OF compress_context_ends [OF contexts.get_good [OF t i] v \<open>0 < cap\<close>]])
      (use c contexts.ok_upd [OF t i] same_except_set [OF t i] in \<open>auto simp: good_output_def comp_ok_def compressed_well_def\<close>)
  show ?thesis
    unfolding compress4_full_def
    by (rule ends_cases [OF parse_ip_view_safe])
      (use step c in \<open>auto intro!: ends_seq [OF get_context [OF t]] simp: good_output_def split: option.splits\<close>)
qed

lemma protect_output_safe: "oipsec_ok s \<Longrightarrow> safe (\<lambda>_. True) (protect_output s packet full)"
  by (auto simp: protect_output_def oipsec_ok_def append_icv_eq)

lemma write_next_segment_ends:
  assumes c: "comp_ok c"
  shows "ends (good_output c capacity) (write_next_segment c capacity)"
proof -
  have packet: "write_segment_packet capacity seg payload =
      (if capacity < 2 + length payload then Reject else Done ((if seg_final seg then 0xFF else 0xFE) # ucast (seg_sequence seg AND 0xFF) # payload))"
    for seg payload
    by (simp add: write_segment_packet_def write_segment_header_def)
  show ?thesis
    unfolding write_next_segment_def Let_def
    using c by (auto simp: good_output_def comp_ok_def segment_header_len_def packet)
qed

lemma rohc_compress4_ends:
  assumes c: "comp_ok c"
  shows "ends (good_output c capacity) (rohc_compress4 c packet capacity)"
proof -
  have store: "comp_ok (u\<lparr>comp_pending_segment := full @ drop (length full) (comp_pending_segment u),
      comp_pending_segment_len := length full, comp_pending_segment_pos := 0, comp_next_segment_sequence := 0\<rparr>)"
    if "comp_ok u" "length full \<le> segment_buffer_max" for u full
    using that by (simp add: comp_ok_def)
  have step: "ends (good_output c capacity) (case protect_output (comp_oipsec u) packet full of
       Fault \<Rightarrow> Fault
     | Reject \<Rightarrow> Done (None, u)
     | Done full \<Rightarrow>
         if length full \<le> capacity then Done (Some full, u)
         else if comp_mrru u = 0 \<or> length full > comp_mrru u \<or> length full > segment_buffer_max then Done (None, u)
         else write_next_segment (u\<lparr>comp_pending_segment := full @ drop (length full) (comp_pending_segment u),
                comp_pending_segment_len := length full, comp_pending_segment_pos := 0, comp_next_segment_sequence := 0\<rparr>) capacity)"
    if u: "good_output c segment_buffer_max (Some full, u)" for u full
  proof -
    have ok: "comp_ok u" "oipsec_ok (comp_oipsec u)" using u by (simp_all add: good_output_def comp_ok_def)
    have split: "ends (good_output c capacity) (write_next_segment (u\<lparr>comp_pending_segment := full @ drop (length full) (comp_pending_segment u),
                comp_pending_segment_len := length full, comp_pending_segment_pos := 0, comp_next_segment_sequence := 0\<rparr>) capacity)"
      if "length full \<le> segment_buffer_max" for full
      by (rule ends_mono [OF write_next_segment_ends [OF store [OF ok(1) that]]])
        (use good_output_trans [OF u] in \<open>auto simp: good_output_def\<close>)
    show ?thesis
      by (rule ends_cases [OF protect_output_safe [OF ok(2)]]) (use u split in \<open>auto simp: good_output_def\<close>)
  qed
  have "0 < segment_buffer_max" by (simp add: segment_buffer_max_def)
  then show ?thesis
    unfolding rohc_compress4_def
    using c by (auto intro!: ends_seq [OF compress4_full_ends [OF c]] step simp: good_output_def split: option.split)
qed

section \<open>Every use of a compressor\<close>

lemma comp_new_ok: "rohc_comp_new2 max_cid direction = Some c \<Longrightarrow> comp_ok c"
  using cid_limit [of max_cid]
  by (auto simp: rohc_comp_new2_def comp_ok_def oipsec_ok_def oipsec_off_def rohcoipsec_key_max_def not_less split: if_splits)

lemma update_entry_ends:
  assumes t: "table_ok t" and f: "\<And>c. context_wf c \<Longrightarrow> context_wf (f c)"
  shows "ends (\<lambda>(found, u). table_ok u) (update_entry t cid f)"
  unfolding update_entry_def
  by (rule ends_seq [OF get_context [OF t]])
    (use t f contexts.ok_upd [OF t] contexts.get_good [OF t] in \<open>auto split: option.split\<close>)

lemma comp_settings_ok:
  assumes "comp_ok c"
  shows "comp_ok (snd (rohc_comp_set_cid c cid))" "comp_ok (snd (rohc_comp_set_rohcoipsec_integrity c a key n))"
    "comp_ok (snd (rohc_comp_enable_rohcoipsec c))" "comp_ok (snd (rohc_comp_set_mrru c mrru))"
    "comp_ok (snd (rohc_comp_enable_rfc4362_lla c contract flow))"
  using assms configured_ok
  by (auto simp: comp_ok_def rohc_comp_set_cid_def rohc_comp_set_rohcoipsec_integrity_def rohc_comp_enable_rohcoipsec_def
      rohc_comp_set_mrru_def rohc_comp_enable_rfc4362_lla_def Let_def split: option.splits)

lemma comp_contexts_ok: "comp_ok c \<Longrightarrow> table_ok t \<Longrightarrow> comp_ok (c\<lparr>comp_contexts := t\<rparr>)"
  by (simp add: comp_ok_def)

lemma comp_set_mode_ok:
  assumes "comp_ok c"
  shows "ends (\<lambda>(rc, u). comp_ok u) (rohc_comp_set_mode c m)"
  unfolding rohc_comp_set_mode_def
  by (rule option.exhaust [of "c_mode_to_core m"])
    (use assms in \<open>auto intro!: ends_seq [OF update_entry_ends] simp: comp_ok_def\<close>)

lemma comp_apply_sa_ok:
  assumes "comp_ok c" and "length (sa_key sa) = rohcoipsec_key_max"
  shows "ends (\<lambda>(rc, u). comp_ok u) (rohc_comp_apply_rohcoipsec_sa c sa)"
proof -
  have set: "comp_ok u" if "rohc_comp_set_rohcoipsec_integrity c a key n = (rc, u)" for a key n rc u
    using comp_settings_ok(2) [OF assms(1), of a key n] that by simp
  have "comp_ok v" if "rohc_comp_set_mrru u n = (rc, v)" "comp_ok u" for u n rc v
    using comp_settings_ok(4) [OF that(2), of n] that(1) by simp
  then show ?thesis
    using assms set by (auto simp: rohc_comp_apply_rohcoipsec_sa_def Let_def split: prod.splits)
qed

lemma handle_feedback_ok: "comp_ok c \<Longrightarrow> ends comp_ok (rohc_comp_handle_feedback c cid code)"
  unfolding rohc_comp_handle_feedback_def
  by (auto intro!: ends_seq [OF update_entry_ends] simp: apply_feedback_keeps comp_contexts_ok comp_ok_def split: option.split)

lemma read_feedback_prefix_safe: "safe (\<lambda>_. True) (read_feedback_prefix packet)"
  using read_feedback_packet_safe [of packet True] by (auto simp: read_feedback_prefix_def ends_within_def safe_def split: res.splits)

lemma deliver_feedback_loop_ok: "comp_ok c \<Longrightarrow> ends (\<lambda>(rc, u). comp_ok u) (deliver_feedback_loop c packet pos delivered)"
proof (induction c packet pos delivered rule: deliver_feedback_loop.induct)
  case (1 c packet pos delivered)
  have moded: "comp_ok (if b then c\<lparr>comp_mode := m\<rparr> else c)" for b m using 1(2) by (simp add: comp_ok_def)
  show ?case
  proof (cases "pos < length packet \<and> is_feedback_packet_start (packet ! pos)")
    case True
    show ?thesis
    proof (cases "read_feedback_prefix (drop pos packet)")
      case (Done r)
      obtain fb n where r: "r = (fb, n)" by (cases r)
      let ?c = "if fb_has_mode fb then c\<lparr>comp_mode := fb_mode fb\<rparr> else c"
      have "table_ok (comp_contexts ?c)" using moded by (simp add: comp_ok_def)
      then obtain found t where t: "update_entry (comp_contexts ?c) (fb_cid fb) (\<lambda>ctx. apply_feedback_to_context ctx fb) = Done (found, t)" "table_ok t"
        using update_entry_ends [of "comp_contexts ?c" "\<lambda>ctx. apply_feedback_to_context ctx fb" "fb_cid fb"]
        by (auto simp: ends_def apply_feedback_keeps)
      have "comp_ok (?c\<lparr>comp_contexts := t\<rparr>)" using comp_contexts_ok [OF moded t(2)] .
      then show ?thesis
        using 1(1) [OF True Done r [symmetric] refl t(1) refl] True Done r t(1) by (subst deliver_feedback_loop.simps) (simp add: Let_def)
    qed (use True 1(2) read_feedback_prefix_safe [of "drop pos packet"] in \<open>simp_all add: deliver_feedback_loop.simps [of c]\<close>)
  qed (auto simp: deliver_feedback_loop.simps [of c] 1(2))
qed

lemma revision_search_ends: "context_wf c \<Longrightarrow> ends (\<lambda>_. True) (transmitted_msn_revision c ack bits)"
  using transmitted_msn_revision_find [of c bits ack] word_gt_0 [of bits]
  by (cases "bits = 0 \<or> bits > 16") (auto simp: transmitted_msn_revision_def not_less)

lemma deliver_correlated_ok:
  assumes c: "comp_ok c"
  shows "ends (\<lambda>(status, u). comp_ok u) (deliver_correlated c parsed raw)"
proof -
  have t: "table_ok (comp_contexts c)" using c by (simp add: comp_ok_def)
  have updated: "comp_ok (c\<lparr>comp_contexts := context_table_set (comp_contexts c) i
      (apply_feedback_to_context (context_table_entry (comp_contexts c) i) fb)\<rparr>)"
    if "context_table_get (comp_contexts c) cid = Done (Some i)" for cid i fb
    by (rule comp_contexts_ok [OF c contexts.ok_upd [OF t that]]) (simp add: apply_feedback_keeps contexts.get_good [OF t that])
  have wire: "ends (\<lambda>_. True) (read_feedback2_v1 raw False)" using read_feedback2_v1_safe [of raw False] by auto
  show ?thesis
    unfolding deliver_correlated_def Let_def
    by (auto intro!: ends_seq [OF get_context [OF t]] ends_seq [OF revision_search_ends] ends_seq [OF wire] contexts.get_good [OF t]
        simp: c updated split: option.split)
qed

lemma deliver_feedback_v1_ok:
  assumes c: "comp_ok c" and "length (fv_raw fv) = 260"
  shows "ends (\<lambda>(status, u). comp_ok u) (rohc_comp_deliver_feedback_v1 c fv)"
proof -
  have wire: "ends (\<lambda>_. True) (read_feedback2_v1 raw False)" for raw using read_feedback2_v1_safe [of raw False] by auto
  have parsed: "ends (\<lambda>_. True) (rohc_feedback_parse_v1 channel raw)" for channel raw
    by (auto simp: rohc_feedback_parse_v1_def intro!: ends_seq [OF wire])
  show ?thesis
    unfolding rohc_comp_deliver_feedback_v1_def
    using assms by (auto intro!: ends_seq [OF parsed] deliver_correlated_ok split: option.split)
qed

lemma compress4_full_keeps: "comp_ok c \<Longrightarrow> ends (\<lambda>(out, u). comp_ok u) (compress4_full c packet segment_buffer_max)"
  by (rule ends_mono [OF compress4_full_ends]) (auto simp: good_output_def segment_buffer_max_def)

lemma emit_nhp_ok:
  assumes c: "comp_ok c"
  shows "ends (\<lambda>(rc, u). comp_ok u) (rohc_comp_rfc4362_emit_nhp c packet)"
proof -
  have t: "table_ok (comp_contexts c)" using c by (simp add: comp_ok_def)
  show ?thesis
    unfolding rohc_comp_rfc4362_emit_nhp_def Let_def
    by (auto intro!: ends_seq [OF get_context [OF t]] ends_cases [OF fixed_headers_safe(1)] ends_seq [OF compress4_full_keeps] simp: c split: option.split)
qed

lemma csp_payload_len_ends: "ends (\<lambda>_. True) (csp_payload_len packet)"
proof -
  have "safe (\<lambda>_. True) (seq_res (parse_ip_view packet) (\<lambda>v. seq_res (udp_parse packet (pv_header_len v)) (\<lambda>_.
      seq_res (rtp_parse packet (pv_header_len v + 8)) (\<lambda>_. Done (pv_header_len v + 20)))))"
    by (rule safe_seq [OF parse_ip_view_safe], rule safe_seq [OF udp_parse_room], rule safe_seq [OF rtp_parse_returns]) simp
  then show ?thesis unfolding csp_payload_len_def by (rule ends_cases) simp_all
qed

lemma emit_csp_ok:
  assumes c: "comp_ok c"
  shows "ends (\<lambda>(out, u). comp_ok u \<and> (\<forall>q. out = Some q \<longrightarrow> length q \<le> cap)) (rohc_comp_rfc4362_emit_csp c packet cap)"
proof -
  have "safe (\<lambda>q. length q \<le> cap) (write_context_synchronization_packet cap n header)" for n header
    by (simp add: write_context_synchronization_packet_def)
  then show ?thesis
    unfolding rohc_comp_rfc4362_emit_csp_def
    by (auto intro!: ends_seq [OF compress4_full_keeps] ends_seq [OF csp_payload_len_ends] ends_cases simp: c split: option.split)
qed

lemma emit_ccp_safe: "comp_ok c \<Longrightarrow> safe (\<lambda>q. length q \<le> cap) (rohc_comp_rfc4362_emit_ccp c cap)"
  using contexts.get_total [of "comp_contexts c" "comp_current_cid c"]
  by (cases "context_table_get (comp_contexts c) (comp_current_cid c)")
    (auto simp: rohc_comp_rfc4362_emit_ccp_def comp_ok_def context_crc7_eq write_context_check_packet_def Let_def split: option.split)

datatype comp_request =
    CompSetMode nat | CompSetCid u32 | CompSetIntegrity u16 bytes nat | CompEnableRohcOIpsec | CompSetMrru nat
  | CompApplySa rohccxx_rohcoipsec_sa | CompEnableLla rohccxx_lla_contract rohccxx_lla_flow | Compress bytes nat | GetSegment nat
  | HandleFeedback u32 byte | DeliverFeedbackPacket bytes | DeliverFeedback rohccxx_feedback_v1 | EmitNhp bytes | EmitCsp bytes nat

fun comp_exec :: "comp_request \<Rightarrow> rohc_comp \<Rightarrow> rohc_comp res" where
  \<comment> \<open>the object after a call of the interface\<close>
  "comp_exec (CompSetMode m) c = seq_res (rohc_comp_set_mode c m) (\<lambda>(rc, c). Done c)"
| "comp_exec (CompSetCid cid) c = Done (snd (rohc_comp_set_cid c cid))"
| "comp_exec (CompSetIntegrity a key n) c = Done (snd (rohc_comp_set_rohcoipsec_integrity c a key n))"
| "comp_exec CompEnableRohcOIpsec c = Done (snd (rohc_comp_enable_rohcoipsec c))"
| "comp_exec (CompSetMrru n) c = Done (snd (rohc_comp_set_mrru c n))"
| "comp_exec (CompApplySa sa) c = seq_res (rohc_comp_apply_rohcoipsec_sa c sa) (\<lambda>(rc, c). Done c)"
| "comp_exec (CompEnableLla contract flow) c = Done (snd (rohc_comp_enable_rfc4362_lla c contract flow))"
| "comp_exec (Compress packet capacity) c = seq_res (rohc_compress4 c packet capacity) (\<lambda>(out, c). Done c)"
| "comp_exec (GetSegment capacity) c = seq_res (rohc_comp_get_segment c capacity) (\<lambda>(out, c). Done c)"
| "comp_exec (HandleFeedback cid code) c = rohc_comp_handle_feedback c cid code"
| "comp_exec (DeliverFeedbackPacket packet) c = seq_res (rohc_comp_deliver_feedback_packet c packet) (\<lambda>(rc, c). Done c)"
| "comp_exec (DeliverFeedback fv) c = seq_res (rohc_comp_deliver_feedback_v1 c fv) (\<lambda>(status, c). Done c)"
| "comp_exec (EmitNhp packet) c = seq_res (rohc_comp_rfc4362_emit_nhp c packet) (\<lambda>(rc, c). Done c)"
| "comp_exec (EmitCsp packet capacity) c = seq_res (rohc_comp_rfc4362_emit_csp c packet capacity) (\<lambda>(out, c). Done c)"

text \<open>The key of a security association is an array of 128 octets, the raw feedback one of 260 octets.\<close>

definition comp_request_typed :: "comp_request \<Rightarrow> bool" where
  "comp_request_typed r \<longleftrightarrow> (case r of CompApplySa sa \<Rightarrow> length (sa_key sa) = rohcoipsec_key_max
     | DeliverFeedback fv \<Rightarrow> length (fv_raw fv) = 260 | _ \<Rightarrow> True)"

inductive comp_reachable :: "rohc_comp \<Rightarrow> bool" where
  comp_created: "rohc_comp_new2 max_cid direction = Some c \<Longrightarrow> comp_reachable c"
| comp_called: "comp_reachable c \<Longrightarrow> comp_request_typed r \<Longrightarrow> comp_exec r c = Done c' \<Longrightarrow> comp_reachable c'"

lemma outputs_keep:
  assumes "comp_ok c"
  shows "ends (\<lambda>(out, u). comp_ok u) (rohc_compress4 c packet capacity)" "ends (\<lambda>(out, u). comp_ok u) (rohc_comp_get_segment c capacity)"
    "ends (\<lambda>(out, u). comp_ok u) (rohc_comp_rfc4362_emit_csp c packet capacity)"
    "ends (\<lambda>(rc, u). comp_ok u) (rohc_comp_deliver_feedback_packet c packet)"
  using assms by (auto intro!: ends_mono [OF rohc_compress4_ends] ends_mono [OF write_next_segment_ends] ends_mono [OF emit_csp_ok]
      deliver_feedback_loop_ok simp: good_output_def rohc_comp_get_segment_def rohc_comp_deliver_feedback_packet_def)

lemma comp_exec_sound:
  assumes c: "comp_ok c" and "comp_request_typed r"
  shows "ends comp_ok (comp_exec r c)"
proof (cases r)
  case (CompApplySa sa)
  then have "length (sa_key sa) = rohcoipsec_key_max" using assms(2) by (simp add: comp_request_typed_def)
  then show ?thesis using CompApplySa by (auto intro!: ends_seq [OF comp_apply_sa_ok [OF c]])
next
  case (DeliverFeedback fv)
  then have "length (fv_raw fv) = 260" using assms(2) by (simp add: comp_request_typed_def)
  then show ?thesis using DeliverFeedback by (auto intro!: ends_seq [OF deliver_feedback_v1_ok [OF c]])
qed (auto simp: comp_settings_ok [OF c] intro!: comp_set_mode_ok [OF c, THEN ends_seq] outputs_keep [OF c, THEN ends_seq]
    handle_feedback_ok [OF c] emit_nhp_ok [OF c, THEN ends_seq])

lemma comp_reachable_ok: "comp_reachable c \<Longrightarrow> comp_ok c"
proof (induction rule: comp_reachable.induct)
  case (comp_called c r c')
  then show ?case using comp_exec_sound [of c r] by simp
qed (rule comp_new_ok)

section \<open>Properties\<close>

text \<open>
  C13. Compression is memory safe and touches one context. In whatever way a client has used a compressor before,
  \<open>rohc_compress4\<close> returns on every packet and for every capacity without an access outside a buffer or an array. What it
  writes fits the capacity, and the contexts of all CIDs but the current one are exactly what they were, whether it succeeds
  or not.
\<close>

theorem compression_safe:
  assumes "comp_reachable c"
  shows "\<exists>out c'. rohc_compress4 c packet capacity = Done (out, c') \<and> (\<forall>q. out = Some q \<longrightarrow> length q \<le> capacity) \<and>
     same_except {comp_current_cid c} (comp_contexts c) (comp_contexts c')"
  using rohc_compress4_ends [OF comp_reachable_ok [OF assms], of capacity packet] by (auto simp: ends_def good_output_def)

theorem compression_safe_witness:
  "\<exists>out c'. rohc_compress4 (the (rohc_comp_new2 15 Uplink)) [0x45, 0, 0, 20] 1500 = Done (out, c')"
proof -
  have "comp_reachable (the (rohc_comp_new2 15 Uplink))" by (rule comp_created [of 15 Uplink]) (simp add: rohc_comp_new2_def large_cid_max_def)
  then show ?thesis using compression_safe [of "the (rohc_comp_new2 15 Uplink)" "[0x45, 0, 0, 20]" 1500] by blast
qed

text \<open>
  C14. Type soundness of the compressor's handle. A new compressor is well formed: its table has an entry for every CID, every
  context has arrays of the sizes the code gives them and lengths within them, the segment waiting to be fetched lies within
  its buffer, the MRRU and the integrity key keep their bounds. Every call of the interface, with whatever arguments,
  feedback of the peer included, returns and keeps this.
\<close>

theorem compressor_sound:
  assumes "comp_reachable c" and "comp_request_typed r"
  shows "comp_ok c \<and> (\<exists>c'. comp_exec r c = Done c' \<and> comp_reachable c')"
  using comp_reachable_ok [OF assms(1)] comp_exec_sound [OF _ assms(2)] comp_called [OF assms] by (auto simp: ends_def)

theorem compressor_sound_witness:
  "comp_reachable (the (rohc_comp_new2 3 Downlink)) \<and> comp_request_typed (HandleFeedback 2 0x22) \<and> comp_ok (the (rohc_comp_new2 3 Downlink))"
proof -
  have "comp_reachable (the (rohc_comp_new2 3 Downlink))" by (rule comp_created [of 3 Downlink]) (simp add: rohc_comp_new2_def large_cid_max_def)
  then show ?thesis using compressor_sound [of "the (rohc_comp_new2 3 Downlink)" "HandleFeedback 2 0x22"] by (simp add: comp_request_typed_def)
qed

end
