(* ===== verification/CApiLink.thy ===== *)
theory CApiLink
  imports CApiCompressorUse
begin

text \<open>
  A compressor and a decompressor of the C interface joined by a lower layer: the loop in which a client fetches the segments
  of a packet, the calls that deliver them, and the packet that comes out.
\<close>

section \<open>The client's loops\<close>

text \<open>After \<open>rohc_compress4\<close> a client fetches the remaining segments while \<open>rohc_comp_has_segment\<close> says there are some.\<close>

lemma next_segment_progress:
  "write_next_segment c capacity = Done (Some q, u) \<Longrightarrow>
     comp_pending_segment_len u - comp_pending_segment_pos u < comp_pending_segment_len c - comp_pending_segment_pos c"
  by (auto simp: write_next_segment_def Let_def copy_in_def segment_header_len_def split: if_splits res.splits)

function fetch_segments :: "rohc_comp \<Rightarrow> nat \<Rightarrow> (bytes list \<times> rohc_comp) res" where
  "fetch_segments c capacity =
     (if rohc_comp_has_segment c = 0 then Done ([], c)
      else seq_res (rohc_comp_get_segment c capacity) (\<lambda>(out, c'). case out of
        None \<Rightarrow> Done ([], c')
      | Some q \<Rightarrow> seq_res (fetch_segments c' capacity) (\<lambda>(qs, c). Done (q # qs, c))))"
  by pat_completeness auto

termination
  by (relation "measure (\<lambda>(c, capacity). comp_pending_segment_len c - comp_pending_segment_pos c)")
    (auto simp: rohc_comp_get_segment_def dest: next_segment_progress)

declare fetch_segments.simps [simp del]

definition send_packet :: "rohc_comp \<Rightarrow> bytes \<Rightarrow> nat \<Rightarrow> (bytes list \<times> rohc_comp) res" where
  "send_packet c packet capacity =
     seq_res (rohc_compress4 c packet capacity) (\<lambda>(out, c). case out of
       None \<Rightarrow> Done ([], c)
     | Some q \<Rightarrow> seq_res (fetch_segments c capacity) (\<lambda>(qs, c). Done (q # qs, c)))"

fun receive_all :: "rohc_decomp \<Rightarrow> bytes list \<Rightarrow> nat \<Rightarrow> (bytes list \<times> rohc_decomp) res" where
  \<comment> \<open>the IP packets that the calls on these packets return\<close>
  "receive_all d [] capacity = Done ([], d)"
| "receive_all d (q # qs) capacity =
     seq_res (rohc_decompress4 d q capacity) (\<lambda>(rc, out, d).
     seq_res (receive_all d qs capacity) (\<lambda>(packets, d). Done (if rc = 0 then out # packets else packets, d)))"

section \<open>Receiving one segment\<close>

definition segment_octets :: "bool \<Rightarrow> u16 \<Rightarrow> bytes \<Rightarrow> bytes" where
  "segment_octets final sequence payload = (if final then 0xFF else 0xFE) # ucast (sequence AND 0xFF) # payload"

lemma first_octet:
  "b = 0xFE \<or> b = 0xFF \<Longrightarrow> parse_rohc_packet (b # q) False =
     Done \<lparr>pr_wire = b # q, pr_packet = b # q, pr_cid = 0, pr_has_add_cid = False, pr_has_large_cid = False, pr_cid_len = 0,
           pr_type = PT_Segment, pr_profile_id = 0\<rparr>"
  by (auto simp: parse_rohc_packet_def parse_typed_def parse_body_def detect_packet_type_def is_uncompressed_ip_payload_def)

lemma segment_entered:
  assumes t: "table_ok (decomp_contexts d)" and "\<not> decomp_large_cid_space d" and b: "b = 0xFE \<or> b = 0xFF"
  shows "\<exists>e ctx. decompress_once d (b # q) capacity = receive_segment e ctx \<and> dg_decomp e = d\<lparr>decomp_has_feedback := False\<rparr> \<and>
     pr_packet (dg_parsed e) = b # q \<and> decomp_ok d = decomp_ok (with_context e ctx) \<and>
     like_except {} (decomp_contexts d) (decomp_contexts (with_context e ctx))"
proof -
  let ?d = "d\<lparr>decomp_has_feedback := False\<rparr>" and ?c = "context_table_entry (decomp_contexts d) 0"
  have get: "context_table_get (decomp_contexts d) 0 = Done (Some 0)" using t get_zero by blast
  have skip: "skip_feedback (b # q) = Done (b # q)" using b by (auto simp: skip_feedback.simps is_feedback_packet_start_def)
  obtain e where e: "decompress_once d (b # q) capacity = decode_in_context e (enter_context ?d 0 ?c)"
      and dg: "dg_decomp e = ?d" "dg_index e = 0" "pr_type (dg_parsed e) = PT_Segment" "pr_packet (dg_parsed e) = b # q"
    using b assms(2) get skip
    by (auto simp: decompress_once_def first_octet strip_icv_def decompress_parsed_def choose_context_def entry_at_def
        first_bit_clear_def Let_def)
  have "\<not> first_bit_clear (pr_packet (dg_parsed e))" using b dg by (auto simp: first_bit_clear_def)
  moreover have "entry_like ?c (enter_context ?d 0 ?c)" by (simp add: entry_like_def enter_context_def Let_def)
  then have "like_except {} (decomp_contexts d) (context_table_set (decomp_contexts d) 0 (enter_context ?d 0 ?c))"
    using like_except_set [OF t get] by blast
  moreover have "table_ok (context_table_set (decomp_contexts d) 0 (enter_context ?d 0 ?c))"
    using contexts.ok_upd [OF t get enter_context_wf] contexts.get_good [OF t get] .
  ultimately show ?thesis
    using e dg t by (intro exI [of _ e] exI [of _ "enter_context ?d 0 ?c"])
      (simp add: segment_reaches_reassembly with_context_def decomp_ok_def)
qed

text \<open>A decompressor that has received \<open>n\<close> segments with the octets \<open>got\<close>.\<close>

definition reassembling :: "rohc_decomp \<Rightarrow> nat \<Rightarrow> bytes \<Rightarrow> bool" where
  "reassembling d n got \<longleftrightarrow> decomp_ok d \<and> \<not> decomp_large_cid_space d \<and> (decomp_reassembly_active d \<longleftrightarrow> 0 < n) \<and> (n = 0 \<longrightarrow> got = []) \<and>
     (0 < n \<longrightarrow> decomp_reassembly_len d = length got \<and> take (length got) (decomp_reassembly d) = got \<and>
        decomp_expected_segment_sequence d = of_nat n)"

definition same_setup :: "rohc_decomp \<Rightarrow> rohc_decomp \<Rightarrow> bool" where
  \<comment> \<open>the settings are the same, and the contexts up to what a segment notes in one\<close>
  "same_setup d u \<longleftrightarrow> decomp_direction u = decomp_direction d \<and> decomp_mode u = decomp_mode d \<and>
     decomp_large_cid_space u = decomp_large_cid_space d \<and> decomp_acknowledge_context_refresh u = decomp_acknowledge_context_refresh d \<and>
     decomp_mrru u = decomp_mrru d \<and> decomp_oipsec u = decomp_oipsec d \<and> decomp_lla_enabled u = decomp_lla_enabled d \<and>
     decomp_lla_contract u = decomp_lla_contract d \<and> decomp_lla_flow u = decomp_lla_flow d \<and> like_except {} (decomp_contexts d) (decomp_contexts u)"

lemma same_setup_refl [simp]: "same_setup d d"
  by (simp add: same_setup_def)

lemma same_setup_trans: "same_setup a b \<Longrightarrow> same_setup b c \<Longrightarrow> same_setup a c"
  using like_except_trans by (auto simp: same_setup_def)

lemma segment_octets_simps [simp]:
  "length (segment_octets final s payload) = 2 + length payload" "drop segment_header_len (segment_octets final s payload) = payload"
  by (simp_all add: segment_octets_def segment_header_len_def)

lemma header_read_back:
  "read_segment_header (segment_octets final s payload) = Done \<lparr>seg_final = final, seg_sequence = s AND 0xFF\<rparr>"
proof -
  have "(ucast (ucast (s AND 0xFF) :: byte) :: u16) = s AND 0xFF" by (simp add: u16_bits)
  then show ?thesis by (simp add: segment_octets_def read_segment_header_def)
qed

lemma segment_stored:
  assumes w: "reassembling d n got" and p: "payload \<noteq> []" "length got + length payload \<le> decomp_mrru d"
  shows "\<exists>u. same_setup d u \<and> (if final then decomp_ok u \<and> \<not> decomp_reassembly_active u \<and>
        decompress_once d (segment_octets final (of_nat n) payload) capacity = Done (Reassembled u (got @ payload))
     else reassembling u (Suc n) (got @ payload) \<and>
        decompress_once d (segment_octets final (of_nat n) payload) capacity = Done (Returned 1 [] u))"
proof -
  have d: "decomp_ok d" "table_ok (decomp_contexts d)" "\<not> decomp_large_cid_space d" using w by (simp_all add: reassembling_def decomp_ok_def)
  obtain e ctx where e: "decompress_once d (segment_octets final (of_nat n) payload) capacity = receive_segment e ctx"
      "dg_decomp e = d\<lparr>decomp_has_feedback := False\<rparr>" "pr_packet (dg_parsed e) = segment_octets final (of_nat n) payload"
      "decomp_ok (with_context e ctx)" "like_except {} (decomp_contexts d) (decomp_contexts (with_context e ctx))"
    using segment_entered [OF d(2,3), of "if final then 0xFF else 0xFE" "ucast ((of_nat n :: u16) AND 0xFF) # payload" capacity] d(1)
    by (cases final) (auto simp: segment_octets_def)
  define v where "v = with_context e ctx"
  have v: "decomp_ok v" "same_setup d v" "decomp_reassembly_active v = decomp_reassembly_active d" "decomp_reassembly v = decomp_reassembly d"
      "decomp_reassembly_len v = decomp_reassembly_len d" "decomp_expected_segment_sequence v = decomp_expected_segment_sequence d"
      "decomp_mrru v = decomp_mrru d" "decomp_large_cid_space v = decomp_large_cid_space d"
    using e(2,4,5) by (simp_all add: v_def with_context_def same_setup_def)
  define w0 where "w0 = start_reassembly v"
  have w0: "decomp_ok w0" "same_setup d w0" "decomp_reassembly_active w0" "decomp_reassembly_len w0 = length got"
      "take (length got) (decomp_reassembly w0) = got" "decomp_expected_segment_sequence w0 = of_nat n" "decomp_mrru w0 = decomp_mrru d"
      "decomp_large_cid_space w0 = decomp_large_cid_space d"
    using v w by (auto simp: w0_def start_reassembly_def reassembling_def decomp_ok_def same_setup_def)
  have room: "length got + length payload \<le> segment_buffer_max" "length (decomp_reassembly w0) = segment_buffer_max"
    using p(2) d(1) w0(1) by (simp_all add: decomp_ok_def)
  have "receive_segment e ctx = append_segment w0 (dg_cid e) \<lparr>seg_final = final, seg_sequence = of_nat n AND 0xFF\<rparr> payload"
  proof -
    have "decomp_mrru v \<noteq> 0" using p v(7) by (cases payload) auto
    moreover have "decomp_reassembly_active v \<or> n = 0" using w v(3) by (auto simp: reassembling_def)
    moreover have "\<not> length (segment_octets final (of_nat n) payload) \<le> segment_header_len"
      using p(1) by (simp add: segment_header_len_def)
    ultimately show ?thesis
      unfolding receive_segment_def Let_def e(3) v_def [symmetric] header_read_back w0_def
      by (auto simp: or_none_def)
  qed
  also have "\<dots> = finish_segment final (w0\<lparr>decomp_reassembly := got @ payload @ drop (length got + length payload) (decomp_reassembly w0),
      decomp_reassembly_len := length got + length payload, decomp_expected_segment_sequence := of_nat n + 1\<rparr>)"
    using w0 room p(2) by (simp add: append_segment_def store_segment_def Let_def)
  finally have r: "decompress_once d (segment_octets final (of_nat n) payload) capacity = finish_segment final
      (w0\<lparr>decomp_reassembly := got @ payload @ drop (length got + length payload) (decomp_reassembly w0),
       decomp_reassembly_len := length got + length payload, decomp_expected_segment_sequence := of_nat n + 1\<rparr>)"
    using e(1) by simp
  show ?thesis
    unfolding r using w0 room d by (cases final) (auto simp: finish_segment_def copy_in_def decomp_ok_def same_setup_def reassembling_def add.commute)
qed

section \<open>Fetching the segments and delivering them\<close>

definition pending_octets :: "rohc_comp \<Rightarrow> bytes" where
  "pending_octets c = take (comp_pending_segment_len c - comp_pending_segment_pos c) (drop (comp_pending_segment_pos c) (comp_pending_segment c))"

lemma pending_length: "comp_ok c \<Longrightarrow> length (pending_octets c) = comp_pending_segment_len c - comp_pending_segment_pos c"
  by (auto simp: pending_octets_def comp_ok_def)

lemma has_segment_iff: "comp_ok c \<Longrightarrow> rohc_comp_has_segment c = 0 \<longleftrightarrow> pending_octets c = []"
  using pending_length [of c] by (auto simp: rohc_comp_has_segment_def)

lemma segment_packet_eq:
  "write_segment_packet capacity \<lparr>seg_final = final, seg_sequence = s\<rparr> payload =
     (if capacity < 2 + length payload then Reject else Done (segment_octets final s payload))"
  by (simp add: write_segment_packet_def write_segment_header_def segment_octets_def)

lemma next_segment_eq:
  assumes c: "comp_ok c" and "pending_octets c \<noteq> []" and "2 < capacity"
  shows "\<exists>u payload. payload \<noteq> [] \<and> pending_octets c = payload @ pending_octets u \<and> comp_ok u \<and>
     comp_next_segment_sequence u = comp_next_segment_sequence c + 1 \<and>
     write_next_segment c capacity = Done (Some (segment_octets (pending_octets u = []) (comp_next_segment_sequence c) payload), u)"
proof -
  define m where "m = comp_pending_segment_len c - comp_pending_segment_pos c"
  define n where "n = min m (capacity - 2)"
  define u where "u = (let c = c\<lparr>comp_next_segment_sequence := comp_next_segment_sequence c + 1\<rparr> in
    if n = m then c\<lparr>comp_pending_segment_len := 0, comp_pending_segment_pos := 0\<rparr>
    else c\<lparr>comp_pending_segment_pos := comp_pending_segment_pos c + n\<rparr>)"
  have l: "length (pending_octets c) = m" using pending_length [OF c] by (simp add: m_def)
  have n: "0 < n" "n \<le> m" "n \<le> capacity - 2" using assms(2,3) l by (auto simp: n_def)
  have pos: "comp_pending_segment_pos c < comp_pending_segment_len c" using n by (simp add: m_def)
  have u: "comp_ok u" "comp_next_segment_sequence u = comp_next_segment_sequence c + 1"
    using c n by (auto simp: u_def m_def comp_ok_def Let_def)
  have rest: "pending_octets u = drop n (pending_octets c)"
    by (auto simp: u_def m_def pending_octets_def drop_take add.commute Let_def)
  have final: "pending_octets u = [] \<longleftrightarrow> n = m" using n by (auto simp: rest l)
  have payload: "take n (drop (comp_pending_segment_pos c) (comp_pending_segment c)) = take n (pending_octets c)"
    using n by (simp add: pending_octets_def m_def)
  have room: "comp_pending_segment_pos c + n \<le> length (comp_pending_segment c)" using c n by (auto simp: comp_ok_def m_def)
  have min: "(if m < capacity - segment_header_len then m else capacity - segment_header_len) = n"
    by (simp add: n_def segment_header_len_def min_def)
  have "\<not> (capacity \<le> segment_header_len \<or> comp_pending_segment_len c \<le> comp_pending_segment_pos c)"
    using pos assms(3) by (simp add: segment_header_len_def)
  then have "write_next_segment c capacity = Done (Some (segment_octets (n = m) (comp_next_segment_sequence c) (take n (pending_octets c))), u)"
    unfolding write_next_segment_def Let_def m_def [symmetric] min
    using room n l assms(3) by (simp add: copy_in_def payload segment_packet_eq u_def Let_def)
  then show ?thesis
    using u rest final n l by (intro exI [of _ u] exI [of _ "take n (pending_octets c)"]) auto
qed

lemma last_segment: "decompress_once d q capacity = Done (Reassembled u p) \<Longrightarrow> receive_all d [q] capacity = receive_all u [p] capacity"
  by (simp add: rohc_decompress4.simps [of d q])

lemma earlier_segment:
  "decompress_once d q capacity = Done (Returned 1 [] u) \<Longrightarrow> receive_all u qs capacity = receive_all v ps capacity \<Longrightarrow>
     receive_all d (q # qs) capacity = receive_all v ps capacity"
  by (cases "receive_all v ps capacity") (auto simp: rohc_decompress4.simps [of d q])

lemma segments_transparent:
  assumes "comp_ok c" and "pending_octets c \<noteq> []" and "2 < capacity" and "reassembling d n got" and "comp_next_segment_sequence c = of_nat n"
    and "length got + length (pending_octets c) \<le> decomp_mrru d"
  shows "\<exists>qs u v. fetch_segments c capacity = Done (qs, u) \<and> pending_octets u = [] \<and> comp_ok u \<and> same_setup d v \<and> decomp_ok v \<and>
     \<not> decomp_reassembly_active v \<and> receive_all d qs limit = receive_all v [got @ pending_octets c] limit"
  using assms
proof (induction "length (pending_octets c)" arbitrary: c d n got rule: less_induct)
  case less
  obtain c1 payload where c1: "payload \<noteq> []" "pending_octets c = payload @ pending_octets c1" "comp_ok c1"
      "comp_next_segment_sequence c1 = comp_next_segment_sequence c + 1"
      "write_next_segment c capacity = Done (Some (segment_octets (pending_octets c1 = []) (comp_next_segment_sequence c) payload), c1)"
    using next_segment_eq [OF less.prems(1-3)] by blast
  let ?final = "pending_octets c1 = []" and ?q = "segment_octets (pending_octets c1 = []) (of_nat n) payload"
  have fetch: "fetch_segments c capacity = seq_res (fetch_segments c1 capacity) (\<lambda>(qs, c). Done (?q # qs, c))"
    using c1(5) less.prems(2,5) has_segment_iff [OF less.prems(1)]
    by (simp add: fetch_segments.simps [of c] rohc_comp_get_segment_def)
  have "length got + length payload \<le> decomp_mrru d" using less.prems(6) c1(2) by simp
  from segment_stored [OF less.prems(4) c1(1) this, of ?final limit]
  obtain d1 where d1: "same_setup d d1" "if ?final then decomp_ok d1 \<and> \<not> decomp_reassembly_active d1 \<and>
        decompress_once d ?q limit = Done (Reassembled d1 (got @ payload))
      else reassembling d1 (Suc n) (got @ payload) \<and> decompress_once d ?q limit = Done (Returned 1 [] d1)"
    by blast
  show ?case
  proof (cases ?final)
    case True
    have "fetch_segments c1 capacity = Done ([], c1)" using True has_segment_iff [OF c1(3)] by (simp add: fetch_segments.simps [of c1])
    then show ?thesis
      using fetch d1 True c1(2,3) last_segment [of d ?q limit d1 "got @ payload"]
      by (intro exI [of _ "[?q]"] exI [of _ c1] exI [of _ d1]) simp
  next
    case False
    have "length (pending_octets c1) < length (pending_octets c)" "comp_next_segment_sequence c1 = of_nat (Suc n)"
        "length (got @ payload) + length (pending_octets c1) \<le> decomp_mrru d1"
      using c1 less.prems(5,6) d1(1) by (simp_all add: same_setup_def)
    then obtain qs u v where v: "fetch_segments c1 capacity = Done (qs, u)" "pending_octets u = []" "comp_ok u" "same_setup d1 v" "decomp_ok v"
        "\<not> decomp_reassembly_active v" "receive_all d1 qs limit = receive_all v [(got @ payload) @ pending_octets c1] limit"
      using less.hyps [of c1 d1 "Suc n" "got @ payload"] c1(3) False less.prems(3) d1(2) by auto
    then have "receive_all d (?q # qs) limit = receive_all v [got @ pending_octets c] limit"
      using earlier_segment [of d ?q limit d1 qs v "[got @ pending_octets c]"] d1(2) False c1(2) by simp
    then show ?thesis
      using v fetch same_setup_trans [OF d1(1) v(4)] by (intro exI [of _ "?q # qs"] exI [of _ u] exI [of _ v]) simp
  qed
qed

lemma compress4_full_contexts: "compress4_full c packet cap = Done (out, u) \<Longrightarrow> \<exists>t. u = c\<lparr>comp_contexts := t\<rparr>"
proof -
  have same: "\<exists>t. c = c\<lparr>comp_contexts := t\<rparr>" by (rule exI [of _ "comp_contexts c"]) simp
  assume "compress4_full c packet cap = Done (out, u)"
  then show ?thesis
    unfolding compress4_full_def
    using same by (cases "parse_ip_view packet"; cases "context_table_get (comp_contexts c) (comp_current_cid c)")
      (auto simp: seq_res_eq_Done split: option.splits)
qed

lemma protect_output_limit:
  "protect_output s packet q = Done full \<Longrightarrow> oipsec_ok s \<Longrightarrow> length q \<le> segment_buffer_max \<Longrightarrow> length full \<le> segment_buffer_max"
  by (auto simp: protect_output_def oipsec_ok_def append_icv_eq copy_in_def split: if_splits)

lemma compress_unsegmented:
  assumes c: "comp_ok c" and "2 < capacity"
  shows "\<exists>out u. rohc_compress4 c packet segment_buffer_max = Done (out, u) \<and> comp_ok u \<and> rohc_comp_has_segment u = rohc_comp_has_segment c \<and>
     rohc_compress4 c packet capacity = (case out of
       None \<Rightarrow> Done (None, u)
     | Some full \<Rightarrow>
         if length full \<le> capacity then Done (Some full, u)
         else if comp_mrru c = 0 \<or> length full > comp_mrru c \<or> length full > segment_buffer_max then Done (None, u)
         else write_next_segment (u\<lparr>comp_pending_segment := full @ drop (length full) (comp_pending_segment u),
                comp_pending_segment_len := length full, comp_pending_segment_pos := 0, comp_next_segment_sequence := 0\<rparr>) capacity)"
proof -
  have large: "0 < segment_buffer_max" "\<not> segment_buffer_max \<le> segment_header_len" "\<not> capacity \<le> segment_header_len"
    using assms(2) by (simp_all add: segment_buffer_max_def segment_header_len_def)
  obtain out0 u where u: "compress4_full c packet segment_buffer_max = Done (out0, u)" "good_output c segment_buffer_max (out0, u)"
    using compress4_full_ends [OF c large(1), of packet] by (auto simp: ends_def)
  have "\<exists>t. u = c\<lparr>comp_contexts := t\<rparr>" using compress4_full_contexts [OF u(1)] .
  then have keep: "comp_ok u" "rohc_comp_has_segment u = rohc_comp_has_segment c" "comp_mrru u = comp_mrru c"
    using u(2) by (auto simp: good_output_def rohc_comp_has_segment_def)
  show ?thesis
  proof (cases out0)
    case None
    then show ?thesis using u keep large by (simp add: rohc_compress4_def)
  next
    case (Some full0)
    have "safe (\<lambda>full. length full \<le> segment_buffer_max) (protect_output (comp_oipsec u) packet full0)"
      using u(2) Some keep(1) by (auto simp: protect_output_def good_output_def comp_ok_def oipsec_ok_def append_icv_eq)
    then show ?thesis
      using u(1) Some keep large
      by (cases "protect_output (comp_oipsec u) packet full0") (simp_all add: rohc_compress4_def)
  qed
qed

lemma send_transparent:
  assumes c: "comp_ok c" "rohc_comp_has_segment c = 0" and "2 < capacity"
    and d: "decomp_ok d" "\<not> decomp_reassembly_active d" "comp_mrru c \<le> decomp_mrru d"
    and space: "\<not> decomp_large_cid_space d \<or> segment_buffer_max \<le> capacity"
    and full: "rohc_compress4 c packet segment_buffer_max = Done (Some full, u)" "length full \<le> capacity \<or> length full \<le> comp_mrru c"
  shows "\<exists>qs c' v. send_packet c packet capacity = Done (qs, c') \<and> same_setup d v \<and> decomp_ok v \<and> \<not> decomp_reassembly_active v \<and>
     receive_all d qs limit = receive_all v [full] limit \<and> comp_ok c' \<and> rohc_comp_has_segment c' = 0"
proof -
  have u: "comp_ok u" "rohc_comp_has_segment u = 0"
      "rohc_compress4 c packet capacity = (if length full \<le> capacity then Done (Some full, u)
         else if comp_mrru c = 0 \<or> length full > comp_mrru c \<or> length full > segment_buffer_max then Done (None, u)
         else write_next_segment (u\<lparr>comp_pending_segment := full @ drop (length full) (comp_pending_segment u),
                comp_pending_segment_len := length full, comp_pending_segment_pos := 0, comp_next_segment_sequence := 0\<rparr>) capacity)"
    using compress_unsegmented [OF c(1) \<open>2 < capacity\<close>, of packet] c(2) full(1) by auto
  show ?thesis
  proof (cases "length full \<le> capacity")
    case True
    then have "send_packet c packet capacity = Done ([full], u)" using u by (simp add: send_packet_def fetch_segments.simps [of u])
    then show ?thesis using u d by (intro exI [of _ "[full]"] exI [of _ u] exI [of _ d]) simp
  next
    case False
    define w where "w = u\<lparr>comp_pending_segment := full @ drop (length full) (comp_pending_segment u),
                comp_pending_segment_len := length full, comp_pending_segment_pos := 0, comp_next_segment_sequence := 0\<rparr>"
    have fits: "length full \<le> comp_mrru c" "length full \<le> segment_buffer_max" "comp_mrru c \<noteq> 0" "full \<noteq> []"
      using full(2) False c(1) by (auto simp: comp_ok_def)
    then have compress: "rohc_compress4 c packet capacity = write_next_segment w capacity" using u(3) False by (simp add: w_def)
    have w: "comp_ok w" "pending_octets w = full" using u(1) fits by (simp_all add: w_def comp_ok_def pending_octets_def)
    have start: "reassembling d 0 []" "comp_next_segment_sequence w = of_nat 0" using d space fits(2) False by (auto simp: reassembling_def w_def)
    have "send_packet c packet capacity = fetch_segments w capacity"
      using next_segment_eq [OF w(1) _ \<open>2 < capacity\<close>] fits(4) compress has_segment_iff [OF w(1)] w(2)
      by (auto simp: send_packet_def fetch_segments.simps [of w] rohc_comp_get_segment_def)
    then show ?thesis
      using segments_transparent [OF w(1) _ \<open>2 < capacity\<close> start, of limit] fits(1,4) w(2) d(3) has_segment_iff by auto
  qed
qed

section \<open>Integrity protection\<close>

definition authentic :: "oipsec_settings \<Rightarrow> bytes \<Rightarrow> bytes \<Rightarrow> bool" where
  "authentic s packet mac \<longleftrightarrow> length mac \<le> sha256_digest_len \<and> (os_enabled s \<and> mac \<noteq> [] \<longrightarrow>
     os_algorithm s = integrity_hmac_sha256 \<and> length packet \<le> 4096 \<and>
     mac = take (length mac) (hmac_reference (take (os_key_len s) (os_key s)) packet))"

lemma protect_output_eq:
  assumes "oipsec_ok s" and "protect_output s packet q = Done full"
  shows "\<exists>mac. full = q @ mac \<and> authentic s packet mac \<and> (if os_enabled s then length mac = os_icv_len s else mac = [])"
proof (cases "os_enabled s")
  case True
  let ?mac = "icv (os_algorithm s) (take (os_key_len s) (os_key s)) packet (os_icv_len s)"
  have "full = q @ ?mac" "os_algorithm s = integrity_none \<or> icv_usable (os_algorithm s) packet (os_icv_len s)"
    using assms True by (auto simp: protect_output_def oipsec_ok_def copy_in_def append_icv_eq split: if_splits)
  then show ?thesis
    using assms(1) True by (intro exI [of _ ?mac]) (auto simp: authentic_def icv_def oipsec_ok_def sha256_digest_len_def)
qed (use assms in \<open>simp add: protect_output_def authentic_def\<close>)

lemma authentic_verified:
  assumes s: "oipsec_ok (decomp_oipsec (dg_decomp e))" and a: "authentic (decomp_oipsec (dg_decomp e)) packet (dg_icv e)"
  shows "verify_rohcoipsec_icv e packet = Done True"
proof (cases "stage_authenticated_output e")
  case True
  let ?s = "decomp_oipsec (dg_decomp e)"
  let ?key = "take (os_key_len ?s) (os_key ?s)"
  have m: "os_algorithm ?s = integrity_hmac_sha256" "length packet \<le> 4096" "dg_icv e = take (length (dg_icv e)) (hmac_reference ?key packet)"
      "0 < length (dg_icv e)" "length (dg_icv e) \<le> 32"
    using a True by (simp_all add: authentic_def stage_authenticated_output_def sha256_digest_len_def)
  have "compute_icv (os_algorithm ?s) ?key packet (length (dg_icv e)) = Done (dg_icv e)"
    using m by (simp add: compute_icv_eq integrity_none_def integrity_hmac_sha256_def)
  then show ?thesis
    using True s m(5) by (simp add: verify_rohcoipsec_icv_def oipsec_ok_def copy_in_def or_none_def constant_time_equal_eq sha256_digest_len_def Let_def)
qed (simp add: verify_rohcoipsec_icv_def)

lemma protected_received:
  assumes d: "decomp_ok d" and full: "protect_output (decomp_oipsec d) packet q = Done full"
    and first: "q \<noteq> []" "\<not> is_feedback_packet_start (q ! 0)"
    and parse: "parse_rohc_packet q (decomp_large_cid_space d) = Done parsed"
      "\<And>rest. \<exists>p. parse_rohc_packet (q @ rest) (decomp_large_cid_space d) = Done p \<and> pr_type p = PT_IR"
  shows "\<exists>mac earlier. authentic (decomp_oipsec d) packet mac \<and>
     decompress_once d full capacity = decompress_parsed (d\<lparr>decomp_has_feedback := False\<rparr>) earlier capacity parsed mac"
proof -
  have s: "oipsec_ok (decomp_oipsec d)" using d by (simp add: decomp_ok_def)
  obtain mac where mac: "full = q @ mac" "authentic (decomp_oipsec d) packet mac"
      "if os_enabled (decomp_oipsec d) then length mac = os_icv_len (decomp_oipsec d) else mac = []"
    using protect_output_eq [OF s full] by blast
  obtain p where p: "parse_rohc_packet full (decomp_large_cid_space d) = Done p" "pr_type p = PT_IR" using parse(2) mac(1) by blast
  have skip: "skip_feedback full = Done full" "full \<noteq> []"
    using first mac(1) by (simp_all add: skip_feedback.simps [of "q @ mac"] nth_append)
  have "strip_icv (d\<lparr>decomp_has_feedback := False\<rparr>) full p = Done (Inr (parsed, mac))"
  proof (cases "mac = []")
    case True
    then have "p = parsed" using mac(1) p(1) parse(1) by simp
    then show ?thesis using True mac(3) by (auto simp: strip_icv_def split: if_splits)
  next
    case False
    then have "os_enabled (decomp_oipsec d)" "os_icv_len (decomp_oipsec d) = length mac" "length mac \<le> sha256_digest_len"
      using mac by (auto simp: authentic_def split: if_splits)
    then show ?thesis using False mac(1) p(2) parse(1) by (simp add: strip_icv_def copy_in_def Let_def)
  qed
  then show ?thesis
    using skip p(1) mac(2) by (intro exI [of _ mac] exI) (auto simp: decompress_once_def Let_def)
qed

section \<open>IR packets of the uncompressed profile\<close>

lemma ir_entered:
  assumes t: "table_ok (decomp_contexts d)" and get: "context_table_get (decomp_contexts d) (pr_cid parsed) = Done (Some i)"
    and parsed: "pr_type parsed = PT_IR" "\<not> first_bit_clear (pr_packet parsed)"
  shows "decompress_parsed d earlier capacity parsed mac = decode_in_context
     \<lparr>dg_decomp = d, dg_pending = earlier, dg_parsed = parsed, dg_icv = mac, dg_capacity = capacity, dg_cid = pr_cid parsed, dg_index = i,
      dg_before = context_table_entry (decomp_contexts d) i\<rparr>
     (enter_context d (pr_cid parsed) (context_table_entry (decomp_contexts d) i))"
  using parsed get get_zero [OF t] by (simp add: decompress_parsed_def choose_context_def entry_at_def Let_def)

lemma accepted_delivered:
  assumes d: "decomp_ok (dg_decomp e)" and a: "authentic (decomp_oipsec (dg_decomp e)) packet (dg_icv e)"
    and get: "context_table_get (decomp_contexts (dg_decomp e)) k = Done (Some (dg_index e))" and c: "context_wf c"
  shows "\<exists>u. accept_decoding e c m packet = Done (Returned 0 packet u) \<and> decomp_ok u \<and> context_table_get (decomp_contexts u) k = Done (Some (dg_index e)) \<and>
    context_table_entry (decomp_contexts u) (dg_index e) = c"
proof -
  let ?u = "(with_context e c)\<lparr>decomp_mode := m\<rparr>"
  have s: "oipsec_ok (decomp_oipsec (dg_decomp e))" and t: "table_ok (decomp_contexts (dg_decomp e))" using d by (simp_all add: decomp_ok_def)
  have u: "decomp_ok ?u" "context_table_get (decomp_contexts ?u) k = Done (Some (dg_index e))"
      "context_table_entry (decomp_contexts ?u) (dg_index e) = c"
    using d contexts.ok_upd [OF t get c] get contexts.entry_upd [OF t get get, of c]
    by (simp_all add: decomp_ok_def with_context_def contexts.get_upd)
  have "accept_decoding e c m packet = succeed_decoding e c ?u packet"
    using authentic_verified [OF s a] by (simp add: accept_decoding_def)
  moreover have "\<exists>w. succeed_decoding e c ?u packet = Done (Returned 0 packet w) \<and> decomp_contexts w = decomp_contexts ?u \<and> decomp_ok w"
    using u(1) set_feedback_Done [of ?u "dg_cid e" ACK] by (auto simp: succeed_decoding_def decomp_ok_def split: option.split)
  ultimately show ?thesis using u by auto
qed

lemma uncompressed_ir_payload_eq:
  assumes parsed: "parse_rohc_packet q (ctx_large_cid c) = Done parsed" and space: "cid_in_space c"
    and q: "q = uncompressed_ir_header c (crc8 (uncompressed_ir_header c 0)) @ packet"
    and p: "is_uncompressed_ip_payload packet = Done True" "length packet \<le> limit"
  shows "uncompressed_ir_payload parsed limit = Done packet"
proof -
  define crc where "crc = crc8 (uncompressed_ir_header c 0)"
  define h where "h = uncompressed_ir_header c crc"
  have h: "length h \<le> 5" "h \<noteq> []" "h[length h - 1 := 0] = uncompressed_ir_header c 0" "h ! (length h - 1) = crc"
    using encoded_len_bounds [of "ctx_cid c"] by (auto simp: h_def uncompressed_ir_header_def list_update_append nth_append)
  have "packet \<noteq> []" using p(1) by (auto simp: is_uncompressed_ip_payload_def)
  moreover have "(if pr_has_add_cid parsed then 1 else 0) + 3 + (if pr_has_large_cid parsed then pr_cid_len parsed else 0) = length h"
      and "pr_wire parsed = h @ packet"
    using parsed parse_uncompressed_ir [OF space] unfolding q h_def crc_def by (auto simp: uncompressed_ir_header_def)
  ultimately show ?thesis
    using p h by (simp add: uncompressed_ir_payload_def Let_def copy_in_def view_def crc_def)
qed

definition outside_profiles :: "bytes \<Rightarrow> parsed_ip_view \<Rightarrow> bool" where
  \<comment> \<open>an IPv4 fragment, or a packet with IPv4 options, IPv6 extension headers or an IPv6 flow label\<close>
  "outside_profiles packet v \<longleftrightarrow>
     (case pv_ip4 v of Some ip \<Rightarrow> is_fragmented (ip4_flags_fragment ip) | None \<Rightarrow> False) \<or>
     classify_packet packet \<in> Done ` {RTP, UDP, ESP, IP} \<and>
     (\<not> pv_is_ipv6 v \<and> pv_header_len v \<noteq> 20 \<or>
      pv_is_ipv6 v \<and> (pv_extension_len v \<noteq> 0 \<or> (case pv_ip6 v of Some ip \<Rightarrow> ip6_version_tc_flow ip AND 0x000FFFFF \<noteq> 0 | None \<Rightarrow> False)))"

lemma outside_profiles_choice:
  "outside_profiles packet v \<Longrightarrow>
     choose_profile packet v (case pv_ip4 v of Some ip \<Rightarrow> is_fragmented (ip4_flags_fragment ip) | None \<Rightarrow> False) rtp = Done Uncompressed"
  by (auto simp: outside_profiles_def choose_profile_def Let_def)

lemma outside_profiles_sent:
  assumes "outside_profiles packet v" and "compress_context md large cid cap packet v before = Done (Some q, ctx)"
  shows "\<exists>c. ctx_cid c = cid \<and> ctx_large_cid c = large \<and> cid_in_space c \<and> is_uncompressed_ip_payload packet = Done True \<and>
     q = uncompressed_ir_header c (crc8 (uncompressed_ir_header c 0)) @ packet"
proof -
  have "\<exists>c. ctx_cid c = cid \<and> ctx_large_cid c = large \<and> compress_uncompressed cap packet c = Done (Some q, ctx)"
    using assms(2) unfolding compress_context_def Let_def outside_profiles_choice [OF assms(1)]
    by (auto simp: seq_res_eq_Done begin_profile_def profile_uses_formal_pt0_def Let_def intro!: exI [of _ "before\<lparr>ctx_cid := cid, ctx_large_cid := large\<rparr>"])
  then obtain c where c: "ctx_cid c = cid" "ctx_large_cid c = large" "compress_uncompressed cap packet c = Done (Some q, ctx)" by blast
  obtain ok where ok: "is_uncompressed_ip_payload packet = Done ok" using is_uncompressed_total by blast
  define u where "u = c\<lparr>ctx_profile := Uncompressed, ctx_mode := ModeUncompressed, ctx_rohc_state := DynamicEstablished,
    ctx_tx_count := ctx_tx_count c + 1, ctx_profile_has_been_used := True, ctx_nack_count := 0,
    ctx_static_acked := True, ctx_dynamic_acked := True\<rparr>"
  have "ok" "or_fail (emit_uncompressed_ir cap u packet) u (\<lambda>out. Done (Some out, u)) = Done (Some q, ctx)"
    using c(3) ok by (auto simp: compress_uncompressed_def u_def Let_def split: if_splits)
  then have "cid_in_space u" "q = uncompressed_ir_header u (crc8 (uncompressed_ir_header u 0)) @ packet"
    by (auto simp: or_fail_def emit_uncompressed_ir_eq split: if_splits)
  then show ?thesis using ok \<open>ok\<close> c(1,2) by (intro exI [of _ u]) (simp add: u_def)
qed

lemma room_for:
  assumes "authentic (decomp_oipsec (dg_decomp e)) packet (dg_icv e)" and "length packet \<le> dg_capacity e"
  shows "length packet \<le> reconstruction_room e"
  using assms by (auto simp: authentic_def reconstruction_room_def stage_authenticated_output_def max_reconstructed_ip_packet_def)

lemma add_cid_not_feedback:
  assumes "cid \<le> 0x0F"
  shows "(0xE0 OR ucast (cid :: u32) :: byte) AND 0xF8 \<noteq> 0xF0"
proof
  have "cid < 2 ^ 4" using assms by (simp add: word_le_nat_alt word_less_nat_alt)
  then have "\<not> bit cid 4" using word_less_exp_bit by blast
  moreover assume "(0xE0 OR ucast cid :: byte) AND 0xF8 = 0xF0"
  then have "bit ((0xE0 OR ucast cid :: byte) AND 0xF8) 4 = bit (0xF0 :: byte) 4" by simp
  ultimately show False by (simp add: bit_simps)
qed

lemma uncompressed_received:
  assumes d: "decomp_ok d" and c: "ctx_large_cid c = decomp_large_cid_space d" "cid_in_space c"
    and get: "context_table_get (decomp_contexts d) (ctx_cid c) = Done (Some i)"
    and p: "is_uncompressed_ip_payload packet = Done True" "length packet \<le> limit"
    and q: "q = uncompressed_ir_header c (crc8 (uncompressed_ir_header c 0)) @ packet"
    and full: "protect_output (decomp_oipsec d) packet q = Done full"
  shows "\<exists>u. rohc_decompress4 d full limit = Done (0, packet, u) \<and> decomp_ok u"
proof -
  define parsed where "parsed = \<lparr>pr_wire = q, pr_packet = drop (if \<not> ctx_large_cid c \<and> ctx_cid c > 0 then 1 else 0) q,
      pr_cid = ctx_cid c, pr_has_add_cid = (\<not> ctx_large_cid c \<and> ctx_cid c > 0),
      pr_has_large_cid = ctx_large_cid c, pr_cid_len = (if ctx_large_cid c then encoded_len (ctx_cid c) else 0), pr_type = PT_IR, pr_profile_id = 0\<rparr>"
  have fields: "pr_type parsed = PT_IR" "pr_profile_id parsed = 0" "pr_cid parsed = ctx_cid c" by (simp_all add: parsed_def)
  have parse: "parse_rohc_packet q (decomp_large_cid_space d) = Done parsed"
    using parse_uncompressed_ir [OF c(2), of "crc8 (uncompressed_ir_header c 0)" packet] by (simp add: q parsed_def c(1) [symmetric])
  have parse_more: "\<exists>p. parse_rohc_packet (q @ rest) (decomp_large_cid_space d) = Done p \<and> pr_type p = PT_IR" for rest
    using parse_uncompressed_ir [OF c(2), of "crc8 (uncompressed_ir_header c 0)" "packet @ rest"] by (simp add: q c(1) [symmetric])
  have small: "ctx_cid c \<le> 0x0F" if "\<not> ctx_large_cid c" using c(2) that by (simp add: cid_in_space_def small_cid_max_def)
  have first: "q \<noteq> []" "\<not> is_feedback_packet_start (q ! 0)" "\<not> first_bit_clear (pr_packet parsed)"
    using small by (auto simp: q parsed_def uncompressed_ir_header_def first_bit_clear_def is_feedback_packet_start_def add_cid_not_feedback)
  obtain mac earlier where m: "authentic (decomp_oipsec d) packet mac"
      "decompress_once d full limit = decompress_parsed (d\<lparr>decomp_has_feedback := False\<rparr>) earlier limit parsed mac"
    using protected_received [OF d full first(1,2) parse parse_more] by blast
  let ?d = "d\<lparr>decomp_has_feedback := False\<rparr>"
  define e where "e = \<lparr>dg_decomp = ?d, dg_pending = earlier, dg_parsed = parsed, dg_icv = mac, dg_capacity = limit, dg_cid = ctx_cid c,
      dg_index = i, dg_before = context_table_entry (decomp_contexts d) i\<rparr>"
  have d': "decomp_ok ?d" "table_ok (decomp_contexts ?d)" using d by (simp_all add: decomp_ok_def)
  have "decompress_once d full limit = receive_uncompressed_ir e (enter_context ?d (ctx_cid c) (context_table_entry (decomp_contexts d) i))"
    unfolding m(2) using ir_entered [OF d'(2), of parsed i earlier limit mac] get first(3) fields
    by (simp add: decode_in_context_def e_def Let_def)
  moreover have "length packet \<le> reconstruction_room e" by (rule room_for) (use m(1) p(2) in \<open>simp_all add: e_def\<close>)
  then have "uncompressed_ir_payload (dg_parsed e) (reconstruction_room e) = Done packet"
    using uncompressed_ir_payload_eq [OF _ c(2) q p(1)] parse c(1) by (simp add: e_def)
  moreover define fresh where "fresh = context_zero\<lparr>ctx_cid := ctx_cid c, ctx_large_cid := decomp_large_cid_space d, ctx_profile := Uncompressed,
      ctx_mode := ModeUncompressed, ctx_rohc_state := DynamicEstablished, ctx_tx_count := 1, ctx_profile_has_been_used := True\<rparr>"
  ultimately have "decompress_once d full limit = accept_decoding e fresh ModeUncompressed packet"
    by (simp add: receive_uncompressed_ir_def e_def)
  moreover have "context_wf fresh" by (simp add: fresh_def)
  then obtain u where "accept_decoding e fresh ModeUncompressed packet = Done (Returned 0 packet u)" "decomp_ok u"
    using accepted_delivered [of e packet "ctx_cid c" fresh] d'(1) m(1) get by (auto simp: e_def)
  ultimately show ?thesis by (simp add: rohc_decompress4.simps [of d])
qed

section \<open>Peers\<close>

definition peers :: "rohc_comp \<Rightarrow> rohc_decomp \<Rightarrow> bool" where
  \<comment> \<open>the same CID space, integrity algorithm and key, and a decompressor with at least the compressor's contexts and MRRU\<close>
  "peers c d \<longleftrightarrow> comp_large_cid_space c = decomp_large_cid_space d \<and> comp_oipsec c = decomp_oipsec d \<and> comp_mrru c \<le> decomp_mrru d \<and>
     ct_max_cid (comp_contexts c) \<le> ct_max_cid (decomp_contexts d)"

lemma get_peer:
  assumes "table_ok t" and "table_ok t'" and "ct_max_cid t \<le> ct_max_cid t'" and "context_table_get t k = Done (Some i)"
  shows "\<exists>j. context_table_get t' k = Done (Some j)"
proof -
  have "k \<le> ct_max_cid t" using assms(4) by (auto simp: context_table_get_def not_less split: if_splits)
  then have "k \<le> ct_max_cid t'" using assms(3) by simp
  then show ?thesis using assms(2) by (auto simp: context_table_get_def table_ok_def word_le_nat_alt not_less)
qed

lemma sent_in_context:
  assumes c: "comp_ok c" and "rohc_compress4 c packet segment_buffer_max = Done (Some full, u)" and "parse_ip_view packet = Done v"
  shows "\<exists>i q ctx. context_table_get (comp_contexts c) (comp_current_cid c) = Done (Some i) \<and>
     compress_context (comp_mode c) (comp_large_cid_space c) (comp_current_cid c) segment_buffer_max packet v
       (context_table_entry (comp_contexts c) i) = Done (Some q, ctx) \<and> protect_output (comp_oipsec c) packet q = Done full"
proof -
  have large: "0 < segment_buffer_max" "\<not> segment_buffer_max \<le> segment_header_len" by (simp_all add: segment_buffer_max_def segment_header_len_def)
  obtain out w where w: "compress4_full c packet segment_buffer_max = Done (out, w)" "good_output c segment_buffer_max (out, w)"
    using compress4_full_ends [OF c large(1), of packet] by (auto simp: ends_def)
  then have "comp_oipsec w = comp_oipsec c" using compress4_full_contexts by fastforce
  then obtain q where q: "out = Some q" "protect_output (comp_oipsec c) packet q = Done full"
    using assms(2) w large
    by (cases out; cases "protect_output (comp_oipsec w) packet (the out)")
      (auto simp: rohc_compress4_def good_output_def dest!: protect_output_limit split: if_splits)
  show ?thesis
    using w(1) q assms(3) by (auto simp: compress4_full_def seq_res_eq_Done split: option.splits)
qed

lemma delivered_if_received:
  \<comment> \<open>what is left to show for a packet of a certain kind: that it is received when it arrives in one piece\<close>
  assumes c: "comp_ok c" "rohc_comp_has_segment c = 0" and d: "decomp_ok d" "\<not> decomp_reassembly_active d" and "peers c d"
    and capacity: "2 < capacity" "\<not> comp_large_cid_space c \<or> segment_buffer_max \<le> capacity"
    and full: "rohc_compress4 c packet segment_buffer_max = Done (Some full, u)" "length full \<le> capacity \<or> length full \<le> comp_mrru c"
    and v: "parse_ip_view packet = Done v"
    and received: "\<And>i j q ctx w. context_table_get (comp_contexts c) (comp_current_cid c) = Done (Some i) \<Longrightarrow>
        compress_context (comp_mode c) (comp_large_cid_space c) (comp_current_cid c) segment_buffer_max packet v
          (context_table_entry (comp_contexts c) i) = Done (Some q, ctx) \<Longrightarrow>
        decomp_ok w \<Longrightarrow> same_setup d w \<Longrightarrow> context_table_get (decomp_contexts w) (comp_current_cid c) = Done (Some j) \<Longrightarrow>
        decomp_large_cid_space w = comp_large_cid_space c \<Longrightarrow> protect_output (decomp_oipsec w) packet q = Done full \<Longrightarrow>
        \<exists>d'. rohc_decompress4 w full limit = Done (0, packet, d') \<and> decomp_ok d'"
  shows "\<exists>qs c' d'. send_packet c packet capacity = Done (qs, c') \<and> receive_all d qs limit = Done ([packet], d') \<and> decomp_ok d' \<and> comp_ok c'"
proof -
  have peer: "comp_large_cid_space c = decomp_large_cid_space d" "comp_oipsec c = decomp_oipsec d" "comp_mrru c \<le> decomp_mrru d"
      "ct_max_cid (comp_contexts c) \<le> ct_max_cid (decomp_contexts d)"
    using \<open>peers c d\<close> by (simp_all add: peers_def)
  obtain qs c' w where w: "send_packet c packet capacity = Done (qs, c')" "same_setup d w" "decomp_ok w" "receive_all d qs limit = receive_all w [full] limit"
      "comp_ok c'"
    using send_transparent [OF c capacity(1) d peer(3) _ full] capacity(2) peer(1) by metis
  obtain i q ctx where i: "context_table_get (comp_contexts c) (comp_current_cid c) = Done (Some i)"
      "compress_context (comp_mode c) (comp_large_cid_space c) (comp_current_cid c) segment_buffer_max packet v
         (context_table_entry (comp_contexts c) i) = Done (Some q, ctx)"
      "protect_output (comp_oipsec c) packet q = Done full"
    using sent_in_context [OF c(1) full(1) v] by blast
  obtain j where "context_table_get (decomp_contexts d) (comp_current_cid c) = Done (Some j)"
    using get_peer [OF _ _ peer(4) i(1)] c(1) d(1) by (auto simp: comp_ok_def decomp_ok_def)
  then have "context_table_get (decomp_contexts w) (comp_current_cid c) = Done (Some j)" using w(2) by (simp add: same_setup_def like_except_def)
  then obtain d' where "rohc_decompress4 w full limit = Done (0, packet, d')" "decomp_ok d'"
    using received [OF i(1,2) w(3,2)] i(3) w(2) peer by (auto simp: same_setup_def)
  then show ?thesis using w by simp
qed

lemma uncompressed_arrives:
  assumes "comp_ok c" "rohc_comp_has_segment c = 0" "decomp_ok d" "\<not> decomp_reassembly_active d" "peers c d"
    and "2 < capacity" "\<not> comp_large_cid_space c \<or> segment_buffer_max \<le> capacity"
    and "rohc_compress4 c packet segment_buffer_max = Done (Some full, u)" "length full \<le> capacity \<or> length full \<le> comp_mrru c"
    and "parse_ip_view packet = Done v" "outside_profiles packet v" "length packet \<le> limit"
  shows "\<exists>qs c' d'. send_packet c packet capacity = Done (qs, c') \<and> receive_all d qs limit = Done ([packet], d') \<and> decomp_ok d' \<and> comp_ok c'"
proof (rule delivered_if_received [OF assms(1-10)])
  fix i j q ctx w
  assume a: "compress_context (comp_mode c) (comp_large_cid_space c) (comp_current_cid c) segment_buffer_max packet v
        (context_table_entry (comp_contexts c) i) = Done (Some q, ctx)"
    and w: "decomp_ok w" "context_table_get (decomp_contexts w) (comp_current_cid c) = Done (Some j)"
      "decomp_large_cid_space w = comp_large_cid_space c" "protect_output (decomp_oipsec w) packet q = Done full"
  from outside_profiles_sent [OF assms(11) a]
  show "\<exists>d'. rohc_decompress4 w full limit = Done (0, packet, d') \<and> decomp_ok d'"
    using uncompressed_received [OF w(1) _ _ _ _ assms(12) _ w(4)] w(2,3) by metis
qed

lemma large_cid_segment_fails:
  assumes t: "table_ok (decomp_contexts d)" and "decomp_large_cid_space d" and n: "n \<le> 127" "unat (ct_max_cid (decomp_contexts d)) < n"
  shows "rohc_decompress4 d (segment_octets final (of_nat n) payload) limit =
     Done (- 1, [], d\<lparr>decomp_last_feedback := feedback_init\<lparr>fb_cid := of_nat n, fb_type := NACK\<rparr>, decomp_has_feedback := True\<rparr>)"
proof -
  let ?q = "segment_octets final (of_nat n) payload" and ?d = "d\<lparr>decomp_has_feedback := False\<rparr>"
  have skip: "skip_feedback ?q = Done ?q"
    by (simp add: skip_feedback.simps [of ?q]) (simp add: segment_octets_def is_feedback_packet_start_def)
  have cid: "read_large (ucast ((of_nat n :: u16) AND 0xFF) # payload) = Done (of_nat n, 1)"
  proof -
    have mask: "(0xFF :: u16) = mask 8" by (simp add: mask_eq_exp_minus_1)
    have small: "(of_nat n :: u32) \<le> 0x7F" using n(1) by (simp add: word_le_nat_alt unat_of_nat)
    then have "(of_nat n :: u32) \<le> large_cid_max" by (simp add: large_cid_max_def word_le_nat_alt)
    moreover have "(ucast ((of_nat n :: u16) AND 0xFF) :: byte) = ucast (of_nat n :: u32)"
      unfolding mask by (rule bit_word_eqI) (auto simp: bit_simps bit_of_nat_iff)
    ultimately show ?thesis using read_sdvl [of "of_nat n" payload] small by (simp add: sdvl_def encoded_len_def)
  qed
  have get: "context_table_get (decomp_contexts d) (of_nat n) = Done None"
    using n by (simp add: context_table_get_def word_less_nat_alt unat_of_nat)
  define parsed where "parsed = \<lparr>pr_wire = ?q, pr_packet = ?q, pr_cid = of_nat n, pr_has_add_cid = False, pr_has_large_cid = True, pr_cid_len = 1,
           pr_type = PT_Segment, pr_profile_id = 0\<rparr>"
  have "parse_rohc_packet ?q True = Done parsed"
    using cid by (simp add: parsed_def segment_octets_def parse_rohc_packet_def parse_typed_def parse_body_def detect_packet_type_def
        is_uncompressed_ip_payload_def view_def Let_def)
  then have "decompress_once d ?q limit = fail_with_feedback ?d (of_nat n)"
    using skip assms(2) get get_zero [OF t]
    by (simp add: decompress_once_def strip_icv_def decompress_parsed_def choose_context_def entry_at_def parsed_def Let_def segment_octets_def)
  then show ?thesis using get by (simp add: fail_with_feedback_def set_feedback_def rohc_decompress4.simps [of d])
qed

section \<open>Main results\<close>

definition fresh_comp :: "nat \<Rightarrow> rohc_comp" where
  \<comment> \<open>a new compressor with one context and this MRRU\<close>
  "fresh_comp n = snd (rohc_comp_set_mrru (the (rohc_comp_new2 0 Uplink)) n)"

definition fresh_decomp :: "nat \<Rightarrow> rohc_decomp" where
  "fresh_decomp n = snd (rohc_decomp_set_mrru (the (rohc_decomp_new2 0 Uplink)) n)"

lemma fresh_reachable: "comp_reachable (fresh_comp n)" "decomp_reachable (fresh_decomp n)"
proof -
  have "comp_reachable (the (rohc_comp_new2 0 Uplink))" by (rule comp_created [of 0 Uplink]) (simp add: rohc_comp_new2_def large_cid_max_def)
  then show "comp_reachable (fresh_comp n)" by (rule comp_called [of _ "CompSetMrru n"]) (simp_all add: fresh_comp_def comp_request_typed_def)
  have "decomp_reachable (the (rohc_decomp_new2 0 Uplink))" by (rule decomp_created [of 0 Uplink]) (simp add: rohc_decomp_new2_def large_cid_max_def)
  then show "decomp_reachable (fresh_decomp n)" by (rule decomp_called [of _ "SetMrru n"]) (simp_all add: fresh_decomp_def request_typed_def)
qed

lemma fresh_fields:
  "rohc_comp_has_segment (fresh_comp n) = 0" "\<not> decomp_reassembly_active (fresh_decomp n)" "peers (fresh_comp n) (fresh_decomp n)"
  "\<not> comp_large_cid_space (fresh_comp n)" "\<not> decomp_large_cid_space (fresh_decomp n)" "n \<le> segment_buffer_max \<Longrightarrow> comp_mrru (fresh_comp n) = n"
  "comp_mrru (fresh_comp n) \<le> decomp_mrru (fresh_decomp n)" "comp_mode (fresh_comp n) = Optimistic" "comp_current_cid (fresh_comp n) = 0"
  "comp_oipsec (fresh_comp n) = oipsec_off" "comp_contexts (fresh_comp n) = context_table_init 0" "decomp_contexts (fresh_decomp n) = context_table_init 0"
  by (auto simp: fresh_comp_def fresh_decomp_def rohc_comp_set_mrru_def rohc_decomp_set_mrru_def rohc_comp_new2_def rohc_decomp_new2_def peers_def
      rohc_comp_has_segment_def large_cid_max_def small_cid_max_def)

lemma fresh_entry: "context_table_get (context_table_init 0) 0 = Done (Some 0)" "context_table_entry (context_table_init 0) 0 = context_zero"
  by (simp_all add: context_table_get_def context_table_init_def context_table_entry_def)

lemma fresh_sends:
  assumes "parse_ip_view packet = Done v" and "compress_context Optimistic False 0 segment_buffer_max packet v context_zero = Done (Some q, ctx)"
    and "length q \<le> segment_buffer_max"
  shows "\<exists>u. rohc_compress4 (fresh_comp n) packet segment_buffer_max = Done (Some q, u)"
  using assms fresh_fields(4,8-11) [of n] fresh_entry
  by (simp add: rohc_compress4_def compress4_full_def protect_output_def segment_buffer_max_def segment_header_len_def oipsec_off_def)

definition fragment :: bytes where
  \<comment> \<open>the first fragment of an ICMP message\<close>
  "fragment = [0x45, 0, 0, 21, 0, 1, 0x20, 0, 64, 1, 0, 0, 10, 0, 0, 1, 10, 0, 0, 2, 7]"

lemma fragment_view: "\<exists>v. parse_ip_view fragment = Done v \<and> outside_profiles fragment v"
proof -
  have "case parse_ip_view fragment of Done v \<Rightarrow> (case pv_ip4 v of Some ip \<Rightarrow> is_fragmented (ip4_flags_fragment ip) | None \<Rightarrow> False) | _ \<Rightarrow> False"
    by code_simp
  then show ?thesis by (auto simp: outside_profiles_def split: res.splits option.splits)
qed

lemma fragment_sent: "\<exists>full u. rohc_compress4 (fresh_comp n) fragment segment_buffer_max = Done (Some full, u) \<and> length full = 24"
proof -
  have "case parse_ip_view fragment of Done v \<Rightarrow>
      (case compress_context Optimistic False 0 segment_buffer_max fragment v context_zero of Done (Some q, ctx) \<Rightarrow> length q = 24 | _ \<Rightarrow> False) | _ \<Rightarrow> False"
    by code_simp
  then obtain v q ctx where "parse_ip_view fragment = Done v" "length q = 24"
      "compress_context Optimistic False 0 segment_buffer_max fragment v context_zero = Done (Some q, ctx)"
    by (auto split: res.splits option.splits prod.splits)
  then show ?thesis using fresh_sends [of fragment v q ctx n] by (auto simp: segment_buffer_max_def)
qed

text \<open>
  C8. Segmentation with small CIDs is transparent. A client sends a packet through any reachable compressor with a buffer that is too small for the
  result and fetches the segments that remain, then passes all of them to a reachable decompressor that is not in the middle of
  a reassembly and whose MRRU is not below the compressor's. Then the calls end, the compressor has no segment left, and
  the decompressor returns exactly what it would have returned for the packet in one piece, \<open>full\<close>, in a state with the same
  settings (direction, mode, CID space, MRRU, integrity protection, link-layer assistance, acknowledgment of refreshes) and the
  same contexts, up to the CID, CID space and mode noted in one, as before the first segment. The CID space of the receiver
  has to be the small one, or the buffer large enough for every packet, so that nothing is cut: segments of the large CID
  space can be refused.
\<close>

theorem segmentation_transparent:
  assumes "comp_reachable c" "rohc_comp_has_segment c = 0" and "decomp_reachable d" "\<not> decomp_reassembly_active d"
    and "comp_mrru c \<le> decomp_mrru d" and "2 < capacity" "\<not> decomp_large_cid_space d \<or> segment_buffer_max \<le> capacity"
    and "rohc_compress4 c packet segment_buffer_max = Done (Some full, u)" "length full \<le> capacity \<or> length full \<le> comp_mrru c"
  shows "\<exists>qs c' v. send_packet c packet capacity = Done (qs, c') \<and> rohc_comp_has_segment c' = 0 \<and> same_setup d v \<and>
     \<not> decomp_reassembly_active v \<and> receive_all d qs limit = receive_all v [full] limit"
  using send_transparent [OF comp_reachable_ok [OF assms(1)] assms(2,6) reachable_ok [OF assms(3)] assms(4,5,7-9)] by blast

theorem segmentation_transparent_witness:
  "\<exists>full qs c' v. length full = 24 \<and> send_packet (fresh_comp 100) fragment 10 = Done (qs, c') \<and> rohc_comp_has_segment c' = 0 \<and>
     receive_all (fresh_decomp 100) qs 1500 = receive_all v [full] 1500"
proof -
  obtain full u where full: "rohc_compress4 (fresh_comp 100) fragment segment_buffer_max = Done (Some full, u)" "length full = 24"
    using fragment_sent by blast
  have "length full \<le> 10 \<or> length full \<le> comp_mrru (fresh_comp 100)" using full(2) by (simp add: fresh_fields segment_buffer_max_def)
  then show ?thesis
    using segmentation_transparent [OF fresh_reachable(1) _ fresh_reachable(2) _ _ _ _ full(1), of 100 10 1500] full(2) by (auto simp: fresh_fields)
qed

text \<open>
  C9. Packets that no profile compresses arrive. Let a reachable compressor and a reachable decompressor use the same CID space and
  the same integrity settings, the decompressor having at least the compressor's contexts and MRRU, with no segment pending on either side. A
  packet that is an IPv4 fragment, or has IPv4 options, IPv6 extension headers or an IPv6 flow label, is then sent with the
  uncompressed profile; whatever was compressed or received before, and whether it is protected or not, the receiver returns
  exactly this packet and nothing else. With small CIDs this holds in one piece or in segments; with large CIDs the
  buffer has to be large enough for every packet, so that nothing is cut into segments.
\<close>

theorem uncompressed_delivered:
  assumes "comp_reachable c" "rohc_comp_has_segment c = 0" "decomp_reachable d" "\<not> decomp_reassembly_active d" "peers c d"
    and "2 < capacity" "\<not> comp_large_cid_space c \<or> segment_buffer_max \<le> capacity"
    and "rohc_compress4 c packet segment_buffer_max = Done (Some full, u)" "length full \<le> capacity \<or> length full \<le> comp_mrru c"
    and "parse_ip_view packet = Done v" "outside_profiles packet v" "length packet \<le> limit"
  shows "\<exists>qs c' d'. send_packet c packet capacity = Done (qs, c') \<and> receive_all d qs limit = Done ([packet], d')"
  using uncompressed_arrives [OF comp_reachable_ok [OF assms(1)] assms(2) reachable_ok [OF assms(3)] assms(4-12)] by blast

theorem uncompressed_delivered_witness:
  "\<exists>qs c' d'. send_packet (fresh_comp 100) fragment 10 = Done (qs, c') \<and> receive_all (fresh_decomp 100) qs 1500 = Done ([fragment], d')"
proof -
  obtain full u where full: "rohc_compress4 (fresh_comp 100) fragment segment_buffer_max = Done (Some full, u)" "length full = 24"
    using fragment_sent by blast
  obtain v where v: "parse_ip_view fragment = Done v" "outside_profiles fragment v" using fragment_view by blast
  have "length full \<le> 10 \<or> length full \<le> comp_mrru (fresh_comp 100)" using full(2) by (simp add: fresh_fields segment_buffer_max_def)
  then show ?thesis
    using uncompressed_delivered [OF fresh_reachable(1) _ fresh_reachable(2) _ fresh_fields(3) _ _ full(1) _ v, of 10 1500]
    by (simp add: fresh_fields) (simp add: fragment_def)
qed

text \<open>
  C10. Segments of the large CID space are refused. \<open>parse_rohc_packet\<close> reads a large CID behind the first octet of every packet, but
  a segment has its sequence number there. In the large CID space, a segment whose number is above the largest CID of the
  table, up to 127, is refused: \<open>rohc_decompress4\<close> returns \<open>-1\<close> and nothing changes but the feedback, which is a NACK for the CID
  that the sequence number was taken for; the segment is not appended. So
  a packet with more segments than there are contexts never arrives, although sender and receiver agreed on an MRRU.
\<close>

theorem large_cid_segments_refused:
  assumes "decomp_reachable d" and "decomp_large_cid_space d" and "n \<le> 127" "unat (ct_max_cid (decomp_contexts d)) < n"
  shows "rohc_decompress4 d (segment_octets final (of_nat n) payload) limit =
     Done (- 1, [], d\<lparr>decomp_last_feedback := feedback_init\<lparr>fb_cid := of_nat n, fb_type := NACK\<rparr>, decomp_has_feedback := True\<rparr>)"
  using large_cid_segment_fails [OF _ assms(2-4)] reachable_ok [OF assms(1)] by (simp add: decomp_ok_def)

theorem large_cid_segments_refused_witness:
  "rohc_decompress4 (the (rohc_decomp_new2 16 Uplink)) [0xFE, 17, 1, 2, 3] 1500 =
     Done (- 1, [], (the (rohc_decomp_new2 16 Uplink))\<lparr>decomp_last_feedback := feedback_init\<lparr>fb_cid := 17, fb_type := NACK\<rparr>, decomp_has_feedback := True\<rparr>)"
proof -
  let ?d = "the (rohc_decomp_new2 16 Uplink)"
  have "decomp_reachable ?d" by (rule decomp_created [of 16 Uplink]) (simp add: rohc_decomp_new2_def large_cid_max_def)
  moreover have "decomp_large_cid_space ?d" "unat (ct_max_cid (decomp_contexts ?d)) < 17"
    by (simp_all add: rohc_decomp_new2_def large_cid_max_def small_cid_max_def context_table_init_def)
  moreover have "segment_octets False (of_nat 17) [1, 2, 3] = [0xFE, 17, 1, 2, 3]" by (simp add: segment_octets_def)
  ultimately show ?thesis using large_cid_segments_refused [of ?d 17 False "[1, 2, 3]" 1500] by simp
qed

end
