(* ===== verification/CApiIrLink.thy ===== *)
theory CApiIrLink
  imports CApiLink
begin

text \<open>
  The first packet of a flow through the C interface: a compressor that has to send an IR packet, the same packet cut into
  segments and protected if so configured, and the decompressor that rebuilds exactly the packet that was compressed.
\<close>

section \<open>IR packets on the wire\<close>

definition parsed_ir :: "rohc_context \<Rightarrow> byte \<Rightarrow> bytes \<Rightarrow> parsed_rohc_packet" where
  "parsed_ir ctx pid rest =
     \<lparr>pr_wire = ir_head ctx pid @ rest, pr_packet = drop (length (cid_prefix ctx)) (ir_head ctx pid @ rest), pr_cid = ctx_cid ctx,
      pr_has_add_cid = (\<not> ctx_large_cid ctx \<and> ctx_cid ctx > 0), pr_has_large_cid = ctx_large_cid ctx,
      pr_cid_len = (if ctx_large_cid ctx then encoded_len (ctx_cid ctx) else 0), pr_type = PT_IR, pr_profile_id = pid\<rparr>"

lemma parse_ir:
  assumes "is_valid_for_space (ctx_cid ctx) (ctx_large_cid ctx)"
  shows "parse_rohc_packet (ir_head ctx pid @ rest) (ctx_large_cid ctx) = Done (parsed_ir ctx pid rest)"
proof -
  have t: "detect_packet_type 0xFD = PT_IR" by (simp add: detect_packet_type_def packet_type_csp_def packet_type_ccp_def)
  have u: "is_uncompressed_ip_payload (0xFD # xs) = Done False" for xs by (simp add: is_uncompressed_ip_payload_def)
  consider (large) "ctx_large_cid ctx" | (small) "\<not> ctx_large_cid ctx" "ctx_cid ctx > 0" | (zero) "\<not> ctx_large_cid ctx" "ctx_cid ctx = 0"
    by (auto simp: word_gt_0)
  then show ?thesis
  proof cases
    case large
    then have "read_large (sdvl (ctx_cid ctx) @ [pid] @ rest) = Done (ctx_cid ctx, encoded_len (ctx_cid ctx))"
      using assms by (intro read_sdvl) (simp add: is_valid_for_space_def)
    moreover have "(sdvl (ctx_cid ctx) @ [pid] @ rest) ! encoded_len (ctx_cid ctx) = pid" by (simp add: nth_append)
    ultimately show ?thesis
      using large t u encoded_len_bounds(1) [of "ctx_cid ctx"]
      by (simp add: parse_rohc_packet_def parse_typed_def parse_body_def ir_head_def cid_prefix_def large_cid_field_def parsed_ir_def view_def Let_def)
  next
    case small
    have "ctx_cid ctx < 2 ^ 4" using assms small by (simp add: is_valid_for_space_def is_small_def small_cid_max_def word_le_nat_alt word_less_nat_alt)
    then have b: "\<not> bit (ctx_cid ctx) m" if "4 \<le> m" for m using word_less_exp_bit that by blast
    have "(ucast (0xE0 OR (ctx_cid ctx AND 0x0F)) :: byte) AND 0xF0 = 0xE0" by (simp add: byte_bits b)
    moreover have "(ucast ((ucast (0xE0 OR (ctx_cid ctx AND 0x0F)) :: byte) AND 0x0F) :: u32) = ctx_cid ctx" by (simp add: u32_bits b)
    ultimately show ?thesis
      using small t u
      by (simp add: parse_rohc_packet_def parse_typed_def parse_body_def ir_head_def cid_prefix_def large_cid_field_def parsed_ir_def view_def Let_def)
  next
    case zero
    then show ?thesis
      using t u
      by (simp add: parse_rohc_packet_def parse_typed_def parse_body_def ir_head_def cid_prefix_def large_cid_field_def parsed_ir_def view_def Let_def)
  qed
qed

lemma parsed_ir_fields [simp]:
  "pr_type (parsed_ir ctx pid rest) = PT_IR" "pr_profile_id (parsed_ir ctx pid rest) = pid" "pr_cid (parsed_ir ctx pid rest) = ctx_cid ctx"
  "decoder_packet (parsed_ir ctx pid rest) = ir_head ctx pid @ rest" "\<not> first_bit_clear (pr_packet (parsed_ir ctx pid rest))"
  by (auto simp: parsed_ir_def decoder_packet_def cid_prefix_def ir_head_def first_bit_clear_def)

lemma ir_first_octet:
  assumes "is_valid_for_space (ctx_cid ctx) (ctx_large_cid ctx)"
  shows "\<not> is_feedback_packet_start ((ir_head ctx pid @ rest) ! 0)"
proof -
  have "(ucast (0xE0 OR (ctx_cid ctx AND 0x0F)) :: byte) = 0xE0 OR ucast (ctx_cid ctx AND 0x0F)" by (simp add: byte_bits)
  then show ?thesis
    using add_cid_not_feedback [of "ctx_cid ctx AND 0x0F"] word_and_le1 [of "ctx_cid ctx" "0x0F"]
    by (auto simp: ir_head_def cid_prefix_def is_feedback_packet_start_def)
qed

lemma ir_reaches_decoder:
  assumes "pr_type (dg_parsed e) = PT_IR" and "pr_profile_id (dg_parsed e) \<noteq> 0" and "\<not> first_bit_clear (pr_packet (dg_parsed e))"
  shows "decode_in_context e ctx =
    (case seq_res (decode_header_by_type e PT_IR False ctx) (\<lambda>h. seq_res (rebuild_packet e h) (\<lambda>out. Done (fst h, out))) of
       Fault \<Rightarrow> Fault | Reject \<Rightarrow> reject_decoding e | Done (c, out) \<Rightarrow> accept_decoding e c (ctx_mode c) out)"
  using assms
  by (simp add: decode_in_context_def decode_compact_def fixed_rtp_pt0_crc7_candidate_def fixed_esp_pt0_crc7_candidate_def
      fixed_non_rtp_pt1_seq_id_candidate_def fixed_udp_pt0_def fixed_udp_pt0_candidate_def fixed_esp_pt0_def fixed_esp_pt0_candidate_def
      fixed_ip_pt0_def fixed_ip_pt0_candidate_def fixed_rtp_pt0_def fixed_rtp_pt0_candidate_def resolve_overlap_def receive_by_type_def
      private_fo_overlap_def Let_def)

section \<open>What the packet builders read of a context\<close>

definition no_lists :: "rohc_context \<Rightarrow> bool" where
  \<comment> \<open>no CSRC list, header extension or padding in the RTP part\<close>
  "no_lists c \<longleftrightarrow> rtp_csrc_list_len (ctx_rtp c) = 0 \<and> rtp_extension_len (ctx_rtp c) = 0 \<and> rtp_padding_len (ctx_rtp c) = 0"

definition same_network :: "rohc_context \<Rightarrow> rohc_context \<Rightarrow> bool" where
  "same_network a b \<longleftrightarrow> ctx_ip_version a = ctx_ip_version b \<and>
     (ctx_ip_version a = 4 \<and> ctx_ipv4_options_len a = 0 \<and> ctx_ipv4_options_len b = 0 \<and> ctx_ipv4_tos a = ctx_ipv4_tos b \<and>
        ctx_ipv4_id a = ctx_ipv4_id b \<and> ctx_ipv4_flags a = ctx_ipv4_flags b \<and> ctx_ipv4_ttl a = ctx_ipv4_ttl b \<and>
        ctx_ipv4_protocol a = ctx_ipv4_protocol b \<and> ctx_ipv4_saddr a = ctx_ipv4_saddr b \<and> ctx_ipv4_daddr a = ctx_ipv4_daddr b \<or>
      ctx_ip_version a = 6 \<and> ctx_ipv6_extension_len a = 0 \<and> ctx_ipv6_extension_len b = 0 \<and>
        ctx_ipv6_traffic_class a = ctx_ipv6_traffic_class b \<and> ctx_ipv6_flow_label a = ctx_ipv6_flow_label b \<and>
        ctx_ipv6_next_header a = ctx_ipv6_next_header b \<and> ctx_ipv6_hop_limit a = ctx_ipv6_hop_limit b \<and>
        ctx_ipv6_saddr a = ctx_ipv6_saddr b \<and> ctx_ipv6_daddr a = ctx_ipv6_daddr b)"

definition same_transport :: "profile \<Rightarrow> rohc_context \<Rightarrow> rohc_context \<Rightarrow> bool" where
  "same_transport pr a b \<longleftrightarrow>
     (pr \<in> {UDP, RTP} \<longrightarrow> ctx_udp_sport a = ctx_udp_sport b \<and> ctx_udp_dport a = ctx_udp_dport b \<and> ctx_udp_check a = ctx_udp_check b) \<and>
     (pr = ESP \<longrightarrow> ctx_esp_spi a = ctx_esp_spi b \<and> ctx_esp_sequence a = ctx_esp_sequence b \<and>
        \<not> ctx_legacy_esp_payload_includes_header a \<and> \<not> ctx_legacy_esp_payload_includes_header b) \<and>
     (pr = RTP \<longrightarrow> rtp_octets a = rtp_octets b \<and> no_lists a \<and> no_lists b)"

lemma same_images:
  assumes "same_network a b"
  shows "ipv4_image a n t p [] = ipv4_image b n t p [] \<or> ctx_ip_version a = 6" "ipv6_octets a n [] = ipv6_octets b n [] \<or> ctx_ip_version a = 4"
  using assms by (auto simp: same_network_def ipv4_image_def ipv4_octets_def ipv6_octets_def)

lemma same_ip_builds:
  assumes "same_network a b"
  shows "ctx_ip_version a = 4 \<Longrightarrow> build_ip_packet cap a payload = build_ip_packet cap b payload"
    "ctx_ip_version a = 6 \<Longrightarrow> build_ipv6_header cap t a n = build_ipv6_header cap t b n"
    "ctx_ip_version a = 6 \<Longrightarrow> build_ipv6_ip_packet cap a payload = build_ipv6_ip_packet cap b payload"
proof -
  show header: "build_ipv6_header cap t a n = build_ipv6_header cap t b n" if "ctx_ip_version a = 6" for t n
    using same_images(2) [OF assms, of n] assms that by (auto simp: build_ipv6_header_def same_network_def copy_in_def)
  show "build_ip_packet cap a payload = build_ip_packet cap b payload" if "ctx_ip_version a = 4"
    using same_images(1) [OF assms] assms that by (auto simp: build_ip_packet_def same_network_def copy_in_def cong: if_cong)
  show "build_ipv6_ip_packet cap a payload = build_ipv6_ip_packet cap b payload" if "ctx_ip_version a = 6"
    unfolding build_ipv6_ip_packet_def using header [OF that] assms that by (auto simp: same_network_def cong: if_cong)
qed

lemma no_lists_layout:
  assumes "rtp_octets a = rtp_octets b" and "no_lists a" and "no_lists b"
  shows "rtp_context_payload_layout a = rtp_context_payload_layout b"
proof -
  have v: "rtp_vpxcc (ctx_rtp a) = rtp_vpxcc (ctx_rtp b)" using assms(1) by (simp add: rtp_octets_def)
  show ?thesis
    using assms(2,3) unfolding rtp_context_payload_layout_def rtp_extras_body_len_def Let_def v
    by (auto simp: no_lists_def rtp_padding_valid_def v)
qed

lemma same_builds:
  assumes net: "same_network a b" and tr: "same_transport pr a b" and pr: "pr \<in> {RTP, UDP, ESP, IP}" "ctx_profile a = pr" "ctx_profile b = pr"
  shows "build_packet cap a payload = build_packet cap b payload"
proof -
  have version: "ctx_ip_version b = ctx_ip_version a" "ctx_ip_version a = 4 \<or> ctx_ip_version a = 6" using net by (auto simp: same_network_def)
  note ip = same_ip_builds [OF net]
  consider (IP) "pr = IP" | (ESP) "pr = ESP" | (UDP) "pr = UDP" | (RTP) "pr = RTP" using pr(1) by blast
  then show ?thesis
  proof cases
    case IP
    then show ?thesis using version pr(2,3) ip by (auto simp: build_packet_def Let_def)
  next
    case ESP
    have len: "ctx_ip_version a = 6 \<Longrightarrow> ctx_ipv6_extension_len b = ctx_ipv6_extension_len a" using net by (auto simp: same_network_def)
    have "build_esp_packet cap a payload = build_esp_packet cap b payload"
      unfolding build_esp_packet_def using tr ESP version ip len by (auto simp: same_transport_def Let_def)
    then show ?thesis using version pr(2,3) tr ESP by (auto simp: build_packet_def same_transport_def Let_def)
  next
    case UDP
    have u: "udp_octets a n = udp_octets b n" for n using tr UDP by (simp add: same_transport_def udp_octets_def)
    have "ctx_ip_version a = 4 \<Longrightarrow> build_udp_packet cap a payload = build_udp_packet cap b payload"
      unfolding build_udp_packet_def using same_images(1) [OF net] u net pr(2,3) UDP by (auto simp: same_network_def copy_in_def cong: if_cong)
    moreover have "ctx_ip_version a = 6 \<Longrightarrow> build_ipv6_udp_packet cap a payload = build_ipv6_udp_packet cap b payload"
      unfolding build_ipv6_udp_packet_def using ip u net pr(2,3) UDP by (auto simp: same_network_def cong: if_cong)
    ultimately show ?thesis using version pr(2,3) UDP by (auto simp: build_packet_def Let_def)
  next
    case RTP
    have t: "rtp_octets a = rtp_octets b" "no_lists a" "no_lists b" using tr RTP by (simp_all add: same_transport_def)
    have u: "udp_octets a n = udp_octets b n" for n using tr RTP by (simp add: same_transport_def udp_octets_def)
    obtain r where l: "rtp_context_payload_layout b = r" "rtp_context_payload_layout a = r" "r = Done (0, 0, 0) \<or> r = Reject \<or> r = Fault"
      using no_lists_layout [OF t] t(3) by (cases "rtp_extras_body_len (ctx_rtp b)") (auto simp: rtp_context_payload_layout_def no_lists_def)
    have put: "put_rtp cap out a 0 0 0 payload = put_rtp cap out b 0 0 0 payload" for out by (simp add: put_rtp_def t(1) copy_in_def)
    have "ctx_ip_version a = 4 \<Longrightarrow> build_rtp_packet cap a payload = build_rtp_packet cap b payload"
      unfolding build_rtp_packet_def l using l(3) same_images(1) [OF net] u net pr(2,3) RTP put by (auto simp: same_network_def copy_in_def Let_def cong: if_cong)
    moreover have "ctx_ip_version a = 6 \<Longrightarrow> build_ipv6_rtp_packet cap a payload = build_ipv6_rtp_packet cap b payload"
      unfolding build_ipv6_rtp_packet_def l using l(3) ip u net pr(2,3) RTP put by (auto simp: same_network_def Let_def cong: if_cong)
    ultimately show ?thesis using version pr(2,3) RTP by (auto simp: build_packet_def Let_def)
  qed
qed

section \<open>Receiving an IR packet\<close>

lemma complete_ir_image:
  "same_network a (complete_ir e p c) = same_network a c" "same_transport pr a (complete_ir e p c) = same_transport pr a c"
  "ctx_profile (complete_ir e p c) = ctx_profile c"
  by (simp_all add: complete_ir_def same_network_def same_transport_def no_lists_def rtp_octets_def Let_def)

lemma incoming_profile_of: "pr \<in> {RTP, UDP, ESP, IP} \<Longrightarrow> incoming_profile (ir_profile_of pr) = Some pr"
  by (auto simp: incoming_profile_def ir_profile_of_def)

lemma decode_by_profile_of: "pr \<in> {RTP, UDP, ESP, IP} \<Longrightarrow> decode_ir_by_profile pr q c = decode_ir_of pr q c"
  by (auto simp: decode_ir_by_profile_def decode_ir_of_def)

lemma ir_received:
  assumes d: "decomp_ok d" and s: "context_wf s" "ir_emittable pr s" "ctx_large_cid s = decomp_large_cid_space d" and pr: "pr \<in> {RTP, UDP, ESP, IP}"
    and proto: "pr = ESP \<Longrightarrow> terminal_protocol s = 50" "pr \<in> {UDP, RTP} \<Longrightarrow> terminal_protocol s = 17"
    and get: "context_table_get (decomp_contexts d) (ctx_cid s) = Done (Some j)"
    and q: "q = ir_frame pr (ir_profile_of pr) s @ payload" and full: "protect_output (decomp_oipsec d) packet q = Done full"
    and legacy: "\<And>c. legacy_ir_of pr q c = Reject" and limit: "length packet \<le> limit"
    and a: "\<And>cap. length packet \<le> cap \<Longrightarrow> build_packet cap a payload = Done packet" "ctx_profile a = pr"
    and image: "\<And>c. (pr = RTP \<Longrightarrow> no_lists c) \<Longrightarrow> same_network a (receive_ir pr s c) \<and> same_transport pr a (receive_ir pr s c)"
      "pr = RTP \<Longrightarrow> no_lists (context_table_entry (decomp_contexts d) j)"
  shows "\<exists>u. rohc_decompress4 d full limit = Done (0, packet, u) \<and> decomp_ok u"
proof -
  let ?pid = "ir_profile_of pr" and ?d = "d\<lparr>decomp_has_feedback := False\<rparr>" and ?before = "context_table_entry (decomp_contexts d) j"
  define rest where "rest = [crc8 (ir_head s ?pid @ [0] @ ir_chains pr s)] @ ir_chains pr s @ payload"
  have valid: "is_valid_for_space (ctx_cid s) (ctx_large_cid s)" using s(2) by (simp add: ir_emittable_def)
  have q': "q = ir_head s ?pid @ rest" by (simp add: q rest_def ir_frame_def)
  have parse: "parse_rohc_packet q (decomp_large_cid_space d) = Done (parsed_ir s ?pid rest)" using parse_ir [OF valid] s(3) by (simp add: q')
  have more: "\<exists>p. parse_rohc_packet (q @ tail) (decomp_large_cid_space d) = Done p \<and> pr_type p = PT_IR" for tail
    using parse_ir [OF valid, of ?pid "rest @ tail"] s(3) by (simp add: q')
  have first: "q \<noteq> []" "\<not> is_feedback_packet_start (q ! 0)" using ir_first_octet [OF valid] by (simp_all add: q' ir_head_def)
  obtain mac earlier where m: "authentic (decomp_oipsec d) packet mac"
      "decompress_once d full limit = decompress_parsed ?d earlier limit (parsed_ir s ?pid rest) mac"
    using protected_received [OF d full first parse more] by blast
  define e where "e = \<lparr>dg_decomp = ?d, dg_pending = earlier, dg_parsed = parsed_ir s ?pid rest, dg_icv = mac, dg_capacity = limit,
      dg_cid = ctx_cid s, dg_index = j, dg_before = ?before\<rparr>"
  define ctx where "ctx = enter_context ?d (ctx_cid s) ?before"
  have d': "decomp_ok ?d" "table_ok (decomp_contexts ?d)" using d by (simp_all add: decomp_ok_def)
  have pid: "?pid \<noteq> 0" using pr by (auto simp: ir_profile_of_def)
  have once: "decompress_once d full limit =
    (case seq_res (decode_header_by_type e PT_IR False ctx) (\<lambda>h. seq_res (rebuild_packet e h) (\<lambda>out. Done (fst h, out))) of
       Fault \<Rightarrow> Fault | Reject \<Rightarrow> reject_decoding e | Done (c, out) \<Rightarrow> accept_decoding e c (ctx_mode c) out)"
    unfolding m(2) using ir_entered [OF d'(2), of "parsed_ir s ?pid rest" j earlier limit mac] get pid ir_reaches_decoder [of e ctx]
    by (simp add: e_def ctx_def)
  define prev where "prev = prepare_ir e pr ctx"
  have prev: "ctx_cid prev = ctx_cid s" "ctx_large_cid prev = ctx_large_cid s" "no_lists ?before \<Longrightarrow> no_lists prev"
    using s(3) by (auto simp: prev_def prepare_ir_def ctx_def enter_context_def e_def no_lists_def context_zero_def rtp_context_zero_def Let_def)
  define r where "r = complete_ir e pr (receive_ir pr s prev)"
  have decode: "decode_header_by_type e PT_IR False ctx = Done (r, length (ir_frame pr ?pid s), None)"
    using decode_ir_standard_frame [OF s(1) pr s(2) prev(1,2) proto, of ?pid payload] legacy [of prev] incoming_profile_of [OF pr]
    by (simp add: decode_header_by_type_def e_def q' [symmetric] decode_by_profile_of [OF pr] decode_ir_of_eq [OF pr] decode_ir_compatible_def
        q [symmetric] prev_def [unfolded e_def, symmetric] r_def [unfolded e_def] Let_def)
  have "same_network a r \<and> same_transport pr a r" using image(1) [OF prev(3) [OF image(2)]] by (simp add: r_def complete_ir_image)
  moreover have "ctx_profile r = pr" using receive_ir_agrees [OF pr, of s prev] s(2) by (simp add: r_def complete_ir_image ir_emittable_def)
  ultimately have build: "build_packet cap r payload = Done packet" if "length packet \<le> cap" for cap
    using same_builds [of a r pr cap payload] pr a that by simp
  have room: "length packet \<le> reconstruction_room e" by (rule room_for) (use m(1) limit in \<open>simp_all add: e_def\<close>)
  have "decoder_packet (dg_parsed e) = ir_frame pr ?pid s @ payload" by (simp add: e_def q' [symmetric] q)
  then have "rebuild_packet e (r, length (ir_frame pr ?pid s), None) = Done packet"
    using build [OF room] by (simp add: rebuild_packet_def payload_after_header_def view_def)
  then have accept: "decompress_once d full limit = accept_decoding e r (ctx_mode r) packet" using once decode by simp
  have "in_progress e ctx"
    using d'(1) get m(1) contexts.get_good [OF d'(2)] enter_context_wf
    by (auto simp: in_progress_def e_def ctx_def authentic_def entry_like_def enter_context_def Let_def parsed_ir_def ir_head_def)
  then have "context_wf r" using decode_header_by_type_safe [of e ctx PT_IR False] decode by simp
  then show ?thesis
    using accepted_delivered [of e packet "ctx_cid s" r "ctx_mode r"] accept d'(1) m(1) get by (auto simp: e_def rohc_decompress4.simps [of d])
qed

section \<open>Capturing a plain packet\<close>

definition plain_network :: "bytes \<Rightarrow> parsed_ip_view \<Rightarrow> bool" where
  \<comment> \<open>consistent lengths and checksum, no options, extension headers or flow label, and over IPv4 a clear reserved flag\<close>
  "plain_network packet v \<longleftrightarrow> network_ok packet v \<and>
     (if pv_is_ipv6 v then pv_extension_len v = 0 \<and> (\<forall>ip. pv_ip6 v = Some ip \<longrightarrow> ip6_version_tc_flow ip AND 0x000FFFFF = 0)
      else pv_header_len v = 20 \<and> packet ! 6 AND 0x80 = 0)"

lemma extension_loop_empty:
  "ipv6_extension_loop d t n p e = Done (n', p', e') \<Longrightarrow> e \<le> e' \<and> (e' = e \<longrightarrow> n' = n)"
proof (induction d t n p e rule: ipv6_extension_loop.induct)
  case (1 d t n p e)
  show ?case
  proof (cases "is_extension_header n")
    case True
    obtain l where l: "extension_header_len (drop p d) (szsub t p) n = Done l" "p \<le> length d" "p < length d"
        "ipv6_extension_loop d t (d ! p) (p + l) (e + l) = Done (n', p', e')"
      using "1.prems" True by (subst (asm) ipv6_extension_loop.simps) (auto split: if_splits res.splits)
    have "0 < l" using l(1) by (auto simp: extension_header_len_def Let_def rd_def split: if_splits)
    then show ?thesis using "1.IH" [OF True l(2,1,3,4)] by linarith
  next
    case False
    then show ?thesis using "1.prems" by (subst (asm) ipv6_extension_loop.simps) simp
  qed
qed

lemma no_extension_protocol:
  assumes "ipv6_parse packet = Done (ip, hl, nxt, 0)"
  shows "nxt = ip6_next_header ip"
  using assms extension_loop_empty [of packet _ "ip6_next_header ip" 40 0 nxt hl 0]
  by (auto simp: ipv6_parse_def copy_in_def seq_res_eq_Done Let_def split: if_splits)

definition network_sent :: "rohc_context \<Rightarrow> rohc_context \<Rightarrow> bool" where
  \<comment> \<open>an IR packet of \<open>s\<close> carries the network header that \<open>a\<close> holds\<close>
  "network_sent a s \<longleftrightarrow> same_network a s \<and> (ctx_ip_version s = 6 \<longrightarrow> ctx_ipv6_flow_label s = 0) \<and>
     (ctx_ip_version s = 4 \<longrightarrow> ctx_ipv4_flags s AND 0x02 = ctx_ipv4_flags s \<and> (ctx_ipv4_id_behavior s AND 0x03 = 3 \<longrightarrow> ctx_ipv4_id s = 0))"

lemma receive_ir_lens:
  assumes "pr \<in> {RTP, UDP, ESP, IP}"
  shows "ctx_ip_version s = 4 \<Longrightarrow> ctx_ipv4_options_len (receive_ir pr s c) = 0"
    "ctx_ip_version s = 6 \<Longrightarrow> ctx_ipv6_extension_len (receive_ir pr s c) = 0"
    "\<not> ctx_legacy_esp_payload_includes_header (receive_ir pr s c)"
    "no_lists (receive_ir pr s c) = no_lists c"
proof -
  have update: "ctx_ipv4_options_len (rtp_update p c v m q t) = ctx_ipv4_options_len c"
      "ctx_ipv6_extension_len (rtp_update p c v m q t) = ctx_ipv6_extension_len c"
      "ctx_legacy_esp_payload_includes_header (rtp_update p c v m q t) = ctx_legacy_esp_payload_includes_header c"
      "no_lists (rtp_update p c v m q t) = no_lists c" for p c v m q t
    by (simp_all add: rtp_update_def no_lists_def Let_def split: option.splits)
  have lists: "no_lists (x\<lparr>ctx_profile := pr, ctx_rohc_state := st\<rparr>) = no_lists x" for x st by (simp add: no_lists_def)
  note defs = receive_ir_def receive_transport_dynamic_def receive_transport_static_def receive_ip_dynamic_def receive_ip_static_def Let_def
  show "ctx_ip_version s = 4 \<Longrightarrow> ctx_ipv4_options_len (receive_ir pr s c) = 0"
    "ctx_ip_version s = 6 \<Longrightarrow> ctx_ipv6_extension_len (receive_ir pr s c) = 0"
    "\<not> ctx_legacy_esp_payload_includes_header (receive_ir pr s c)"
    using assms by (auto simp: defs update)
  show "no_lists (receive_ir pr s c) = no_lists c"
    using assms unfolding defs lists by (auto simp: update) (simp_all add: no_lists_def)
qed

lemma received_network:
  assumes "network_sent a s" and "pr \<in> {RTP, UDP, ESP, IP}"
  shows "same_network a (receive_ir pr s c)"
proof -
  have ok: "std_ip_ok s" using assms(1) by (auto simp: network_sent_def same_network_def std_ip_ok_def)
  define r where "r = receive_ir pr s c"
  have agree: "ip_fields_agree s r" using receive_ir_agrees [OF assms(2) ok] by (simp add: r_def)
  have lens: "ctx_ip_version s = 4 \<Longrightarrow> ctx_ipv4_options_len r = 0" "ctx_ip_version s = 6 \<Longrightarrow> ctx_ipv6_extension_len r = 0"
    using receive_ir_lens(1,2) [OF assms(2)] by (simp_all add: r_def)
  have net: "same_network a s" using assms(1) by (simp add: network_sent_def)
  have "same_network a r"
  proof (cases "ctx_ip_version s = 4")
    case True
    have "ctx_ipv4_flags r = ctx_ipv4_flags s" "ctx_ipv4_id r = ctx_ipv4_id s"
      using agree assms(1) True unfolding ip_fields_agree_def network_sent_def by metis+
    then show ?thesis using agree True net lens(1) unfolding ip_fields_agree_def same_network_def by auto
  next
    case False
    then have "ctx_ip_version s = 6" "ctx_ip_version s \<noteq> 4" using net by (auto simp: same_network_def)
    then show ?thesis using agree net lens(2) unfolding ip_fields_agree_def same_network_def by auto
  qed
  then show ?thesis by (simp add: r_def)
qed

definition transport_sent :: "profile \<Rightarrow> rohc_context \<Rightarrow> rohc_context \<Rightarrow> bool" where
  \<comment> \<open>an IR packet of \<open>s\<close> carries the transport header that \<open>a\<close> holds\<close>
  "transport_sent pr a s \<longleftrightarrow>
     (pr \<in> {UDP, RTP} \<longrightarrow> ctx_udp_sport a = ctx_udp_sport s \<and> ctx_udp_dport a = ctx_udp_dport s \<and> ctx_udp_check a = ctx_udp_check s) \<and>
     (pr = ESP \<longrightarrow> ctx_esp_spi a = ctx_esp_spi s \<and> ctx_esp_sequence a = ctx_esp_sequence s \<and> \<not> ctx_legacy_esp_payload_includes_header a) \<and>
     (pr = RTP \<longrightarrow> rtp_octets a = rtp_octets s \<and> no_lists a \<and> rtp_vpxcc (ctx_rtp s) = 0x80)"

lemma received_transport:
  assumes "transport_sent pr a s" and "pr \<in> {RTP, UDP, ESP, IP}" and "std_ip_ok s" and "pr = RTP \<Longrightarrow> no_lists c"
  shows "same_transport pr a (receive_ir pr s c)"
proof -
  have "transport_fields_agree pr s (receive_ir pr s c)" using receive_ir_agrees [OF assms(2,3)] by blast
  then show ?thesis
    using assms receive_ir_lens(3,4) [OF assms(2), of s c]
    unfolding transport_sent_def same_transport_def transport_fields_agree_def rtp_octets_def by auto
qed

lemma flags_df_only:
  assumes "\<not> is_fragmented f" and "f AND 0x8000 = 0"
  shows "(ucast (drop_bit 13 f AND 0x07) :: byte) AND 0x02 = ucast (drop_bit 13 (f :: u16) AND 0x07)"
proof (rule bit_word_eqI)
  fix n
  have "\<not> bit f 13" "\<not> bit f 15"
  proof -
    have "bit (f AND 0x3FFF) 13 = bit (0 :: u16) 13" "bit (f AND 0x8000) 15 = bit (0 :: u16) 15" using assms by (simp_all add: is_fragmented_def)
    then show "\<not> bit f 13" "\<not> bit f 15" by (simp_all add: bit_simps)
  qed
  then show "bit ((ucast (drop_bit 13 f AND 0x07) :: byte) AND 0x02) n = bit (ucast (drop_bit 13 f AND 0x07) :: byte) n"
    by (auto simp: bit_simps numeral_eq_Suc bit_Suc less_Suc_eq)
qed

lemma load_high_bit: "i + 1 < length packet \<Longrightarrow> packet ! i AND 0x80 = 0 \<Longrightarrow> load_be16 packet i AND 0x8000 = 0"
proof -
  assume "packet ! i AND 0x80 = 0"
  then have "bit (packet ! i AND 0x80) 7 = bit (0 :: byte) 7" by simp
  then have "\<not> bit (packet ! i) 7" by (simp add: bit_simps)
  then show ?thesis by (simp add: load_be16_def of_be16_def u16_bits)
qed

lemma captured_plain:
  assumes parse: "parse_ip_view packet = Done v" and plain: "plain_network packet v" and wf: "context_wf c0"
    and capture: "capture_ip_context c0 packet v = Done c"
  shows "network_sent c c" "terminal_protocol c = pv_terminal_protocol v" "ctx_ipv4_protocol c = pv_terminal_protocol v" "context_wf c"
    "ctx_cid c = ctx_cid c0" "ctx_large_cid c = ctx_large_cid c0" "ctx_tx_count c = ctx_tx_count c0"
    "ctx_legacy_esp_payload_includes_header c = ctx_legacy_esp_payload_includes_header c0"
proof -
  have net: "network_ok packet v" using plain by (simp add: plain_network_def)
  have view: "view_ok packet v" using parse_ip_view_safe [of packet] parse by simp
  show "context_wf c" using capture_ip_context_safe(1) [OF wf view] capture by simp
  have "network_sent c c \<and> terminal_protocol c = pv_terminal_protocol v \<and> ctx_ipv4_protocol c = pv_terminal_protocol v \<and> ctx_cid c = ctx_cid c0 \<and>
      ctx_large_cid c = ctx_large_cid c0 \<and> ctx_tx_count c = ctx_tx_count c0 \<and>
      ctx_legacy_esp_payload_includes_header c = ctx_legacy_esp_payload_includes_header c0"
    using parse
  proof (cases rule: parse_ip_view_cases)
    case (v4 ip hl)
    note h = ipv4_parse_Done [OF v4(1)]
    have f: "ip4_flags_fragment ip = load_be16 packet 6" "7 < length packet" using h by (auto simp: ipv4_header_of_def load_be16_def)
    have "\<not> is_fragmented (load_be16 packet 6)" "hl = 20" "packet ! 6 AND 0x80 = 0"
      using plain v4(2) by (simp_all add: plain_network_def network_ok_def ipv4_consistent_def)
    then show ?thesis
      using capture v4(2) flags_df_only [of "load_be16 packet 6"] load_high_bit [of 6 packet] f
      by (auto simp: capture_ip_context_def capture_ipv4_fields_def capture_ipv4_options_def copy_in_def network_sent_def same_network_def
          terminal_protocol_def Let_def split: if_splits)
  next
    case (v6 ip hl nxt ext)
    then show ?thesis
      using capture plain no_extension_protocol [of packet ip hl nxt]
      by (auto simp: plain_network_def capture_ip_context_def capture_ipv6_fields_def copy_in_def network_sent_def same_network_def
          terminal_protocol_def Let_def split: if_splits)
  qed
  then show "network_sent c c" "terminal_protocol c = pv_terminal_protocol v" "ctx_ipv4_protocol c = pv_terminal_protocol v"
    "ctx_cid c = ctx_cid c0" "ctx_large_cid c = ctx_large_cid c0" "ctx_tx_count c = ctx_tx_count c0"
    "ctx_legacy_esp_payload_includes_header c = ctx_legacy_esp_payload_includes_header c0"
    by blast+
qed

lemma behavior_change_sent:
  assumes "network_sent a c" and "x AND 0x03 = 3 \<Longrightarrow> ctx_ipv4_id c = 0"
  shows "network_sent a (c\<lparr>ctx_ipv4_id_behavior := x, ctx_ipv4_id_sequential := y\<rparr>)"
proof -
  have "same_network a (c\<lparr>ctx_ipv4_id_behavior := x, ctx_ipv4_id_sequential := y\<rparr>) = same_network a c" by (simp add: same_network_def)
  then show ?thesis using assms by (simp add: network_sent_def)
qed

lemma behavior_sent:
  assumes "network_sent a c"
  shows "network_sent a (update_ipv4_id_behavior c b p)" "network_sent a (snd (update_rtp_ipv4_id_behavior c b p f sq ps n))"
    "network_sent a (note_behavior_change d c)"
proof -
  show "network_sent a (update_ipv4_id_behavior c b p)"
    unfolding update_ipv4_id_behavior_def Let_def by (auto intro!: behavior_change_sent assms split: if_splits)
  show "network_sent a (snd (update_rtp_ipv4_id_behavior c b p f sq ps n))"
    unfolding update_rtp_ipv4_id_behavior_def Let_def by (auto intro!: behavior_change_sent assms split: if_splits)
  have "same_network a (note_behavior_change d c) = same_network a c" by (simp add: note_behavior_change_def same_network_def)
  then show "network_sent a (note_behavior_change d c)" using assms by (simp add: network_sent_def note_behavior_change_def)
qed

section \<open>Sending an IR packet\<close>

definition sent_as_ir :: "profile \<Rightarrow> u32 \<Rightarrow> bool \<Rightarrow> bytes \<Rightarrow> bytes \<Rightarrow> bool" where
  \<comment> \<open>\<open>q\<close> is an IR packet from which a receiver can rebuild \<open>packet\<close>\<close>
  "sent_as_ir pr cid large packet q \<longleftrightarrow> (\<exists>s a payload. context_wf s \<and> ir_emittable pr s \<and> ctx_cid s = cid \<and> ctx_large_cid s = large \<and>
     (pr = ESP \<longrightarrow> terminal_protocol s = 50) \<and> (pr \<in> {UDP, RTP} \<longrightarrow> terminal_protocol s = 17) \<and>
     q = ir_frame pr (ir_profile_of pr) s @ payload \<and> ctx_profile a = pr \<and>
     (\<forall>cap. length packet \<le> cap \<longrightarrow> build_packet cap a payload = Done packet) \<and> network_sent a s \<and> transport_sent pr a s)"

lemma sent_as_irI:
  assumes "context_wf s" and "ctx_cid s = cid" "ctx_large_cid s = large" "pr \<in> {RTP, UDP, ESP, IP}" "emit_ir_of pr cap s = Done hdr"
    and "pr = ESP \<Longrightarrow> terminal_protocol s = 50" "pr \<in> {UDP, RTP} \<Longrightarrow> terminal_protocol s = 17"
    and "q = hdr @ payload" "ctx_profile a = pr" "\<And>cap. length packet \<le> cap \<Longrightarrow> build_packet cap a payload = Done packet"
    and "network_sent a s" "transport_sent pr a s"
  shows "sent_as_ir pr cid large packet q"
proof -
  have "ir_emittable pr s" "hdr = ir_frame pr (ir_profile_of pr) s"
    using assms(5) by (auto simp: emit_ir_of_eq [OF assms(1,4)] split: if_splits)
  then show ?thesis unfolding sent_as_ir_def using assms by (intro exI [of _ s] exI [of _ a] exI [of _ payload]) auto
qed

lemma or_fail_out: "or_fail r c k = Done (Some q, c') \<Longrightarrow> \<exists>x. r = Done x \<and> k x = Done (Some q, c')"
  by (cases r) (auto simp: or_fail_def)

lemma append_payload_range_out:
  "append_payload_range packet cap hdr off n c = Done (Some q, c') \<Longrightarrow> q = hdr @ take n (drop off packet)"
  by (auto simp: append_payload_range_def copy_in_def put_all_def seq_res_eq_Done split: if_splits)

lemma append_payload_out: "append_payload packet cap hdr off c = Done (Some q, c') \<Longrightarrow> q = hdr @ drop off packet"
  unfolding append_payload_def by (drule append_payload_range_out) (auto split: if_splits)

lemma first_emits_ir: "ctx_tx_count c = 0 \<Longrightarrow> should_emit_ir c"
  by (simp add: should_emit_ir_def)

lemma behavior_fields [simp]:
  "ctx_cid (update_ipv4_id_behavior c b p) = ctx_cid c" "ctx_large_cid (update_ipv4_id_behavior c b p) = ctx_large_cid c"
  "ctx_tx_count (update_ipv4_id_behavior c b p) = ctx_tx_count c" "ctx_profile (update_ipv4_id_behavior c b p) = ctx_profile c"
  "terminal_protocol (update_ipv4_id_behavior c b p) = terminal_protocol c" "context_wf (update_ipv4_id_behavior c b p) = context_wf c"
  "ctx_cid (note_behavior_change d c) = ctx_cid c" "ctx_large_cid (note_behavior_change d c) = ctx_large_cid c"
  "ctx_tx_count (note_behavior_change d c) = ctx_tx_count c" "ctx_profile (note_behavior_change d c) = ctx_profile c"
  "terminal_protocol (note_behavior_change d c) = terminal_protocol c"
  by (simp_all add: update_ipv4_id_behavior_def note_behavior_change_def terminal_protocol_def context_wf_def Let_def)

lemma network_sent_updates [simp]:
  "network_sent a (capture_udp_header c u) = network_sent a c" "network_sent a (capture_rtp_header c r) = network_sent a c"
  "network_sent a (c\<lparr>ctx_rohc_state := st\<rparr>) = network_sent a c" "network_sent a (c\<lparr>ctx_msn := m\<rparr>) = network_sent a c"
  "network_sent a (c\<lparr>ctx_udp_checksum_used := x\<rparr>) = network_sent a c" "network_sent a (c\<lparr>ctx_rtp := rt\<rparr>) = network_sent a c"
  "network_sent a (c\<lparr>ctx_esp_spi := x1\<rparr>) = network_sent a c" "network_sent a (c\<lparr>ctx_esp_sequence := x2\<rparr>) = network_sent a c"
  by (simp_all add: network_sent_def same_network_def capture_udp_header_def capture_rtp_header_def)

lemma network_sent_image:
  "network_sent (capture_udp_header a u) c = network_sent a c" "network_sent (a\<lparr>ctx_legacy_esp_payload_includes_header := x\<rparr>) c = network_sent a c"
  "network_sent (a\<lparr>ctx_esp_spi := x1, ctx_esp_sequence := x2, ctx_msn := m\<rparr>) c = network_sent a c"
  "network_sent (a\<lparr>ctx_rtp := rt\<rparr>) c = network_sent a c" "network_sent (capture_rtp_header a r) c = network_sent a c"
  by (simp_all add: network_sent_def same_network_def capture_udp_header_def capture_rtp_header_def)

lemma capture_ip_flow_plain:
  assumes parse: "parse_ip_view packet = Done v" and plain: "plain_network packet v" and wf: "context_wf c0"
  shows "\<exists>c1 c2. (\<forall>k. capture_ip_flow pr md c0 packet v k = k c2) \<and> holds_network c1 packet v \<and> ctx_profile c1 = pr \<and> ctx_ipv4_protocol c1 = pv_terminal_protocol v \<and>
     network_sent c1 c2 \<and> context_wf c2 \<and> ctx_cid c2 = ctx_cid c0 \<and> ctx_large_cid c2 = ctx_large_cid c0 \<and> ctx_tx_count c2 = ctx_tx_count c0 \<and>
     terminal_protocol c2 = pv_terminal_protocol v"
proof -
  let ?c = "c0\<lparr>ctx_profile := pr, ctx_mode := md\<rparr>"
  have ok: "network_ok packet v" using plain by (simp add: plain_network_def)
  have wf': "context_wf ?c" using wf by simp
  obtain c1 where c1: "capture_ip_context ?c packet v = Done c1" "holds_network c1 packet v" "ctx_profile c1 = pr"
    using capture_holds [OF parse ok, of ?c] by auto
  note f = captured_plain [OF parse plain wf' c1(1)]
  show ?thesis
    unfolding capture_ip_flow_def Let_def
    using c1 f behavior_sent [OF f(1)]
    by (intro exI [of _ c1] exI) (auto simp: or_fail_def intro!: behavior_sent)
qed

lemma compress_ip_sends:
  assumes parse: "parse_ip_view packet = Done v" and plain: "plain_network packet v" and c0: "context_wf c0" "ctx_tx_count c0 = 0"
    and out: "compress_ip md cid cap packet v c0 = Done (Some q, ctx)"
  shows "sent_as_ir IP (ctx_cid c0) (ctx_large_cid c0) packet q"
proof -
  have ok: "network_ok packet v" using plain by (simp add: plain_network_def)
  obtain c1 c2 where flow: "\<And>k. capture_ip_flow IP md c0 packet v k = k c2"
      and c: "holds_network c1 packet v" "ctx_profile c1 = IP" "ctx_ipv4_protocol c1 = pv_terminal_protocol v" "network_sent c1 c2" "context_wf c2"
      "ctx_cid c2 = ctx_cid c0" "ctx_large_cid c2 = ctx_large_cid c0" "ctx_tx_count c2 = 0"
    using capture_ip_flow_plain [OF parse plain c0(1), of IP md] c0(2) by auto
  define s where "s = c2\<lparr>ctx_msn := ucast (ctx_tx_count c2 + 1), ctx_rohc_state := StaticEstablished\<rparr>"
  have "should_emit_ir (c2\<lparr>ctx_msn := m\<rparr>)" for m using c(8) by (simp add: should_emit_ir_def)
  then have "or_fail (emit_ir_ip cap s) s (\<lambda>out. append_payload packet cap out (pv_header_len v) s) = Done (Some q, ctx)"
    using out unfolding compress_ip_def flow Let_def s_def by simp
  then obtain hdr where hdr: "emit_ir_ip cap s = Done hdr" "q = hdr @ drop (pv_header_len v) packet"
    by (auto dest!: or_fail_out append_payload_out)
  have build: "build_packet x c1 (drop (pv_header_len v) packet) = Done packet" if "length packet \<le> x" for x
    using rebuild_ip_exact [OF parse ok c(1) _ that] c(2,3) by (simp add: build_packet_def rebuild_ip_def Let_def)
  show ?thesis
    by (rule sent_as_irI [of s _ _ _ cap hdr _ "drop (pv_header_len v) packet" c1])
      (use c hdr build in \<open>simp_all add: s_def emit_ir_of_def transport_sent_def\<close>)
qed

lemma compress_udp_sends:
  assumes parse: "parse_ip_view packet = Done v" and plain: "plain_network packet v" and c0: "context_wf c0" "ctx_tx_count c0 = 0"
    and u: "udp_parse packet (pv_header_len v) = Done u" "pv_terminal_protocol v = 17" "udp_length u = of_nat (length packet - pv_header_len v)"
    and out: "compress_udp md cid cap packet v u c0 = Done (Some q, ctx)"
  shows "sent_as_ir UDP (ctx_cid c0) (ctx_large_cid c0) packet q"
proof -
  have ok: "network_ok packet v" using plain by (simp add: plain_network_def)
  obtain c1 c2 where flow: "\<And>k. capture_ip_flow UDP md c0 packet v k = k c2"
      and c: "holds_network c1 packet v" "ctx_profile c1 = UDP" "network_sent c1 c2" "context_wf c2"
      "ctx_cid c2 = ctx_cid c0" "ctx_large_cid c2 = ctx_large_cid c0" "terminal_protocol c2 = 17" "ctx_tx_count c2 = 0"
    using capture_ip_flow_plain [OF parse plain c0(1), of UDP md] c0(2) u(2) by auto
  define s where "s = (capture_udp_header c2 u)\<lparr>ctx_udp_checksum_used := (ctx_udp_check (capture_udp_header c2 u) \<noteq> 0),
      ctx_msn := ucast (ctx_tx_count (capture_udp_header c2 u) + 1), ctx_rohc_state := StaticEstablished\<rparr>"
  have "should_emit_ir ((capture_udp_header c2 u)\<lparr>ctx_udp_checksum_used := x, ctx_msn := m\<rparr>)" for x m
    using c(8) by (simp add: should_emit_ir_def capture_udp_header_def)
  then have "or_fail (emit_ir_udp cap s) s (\<lambda>out. append_payload packet cap out (pv_header_len v + 8) s) = Done (Some q, ctx)"
    using out unfolding compress_udp_def flow Let_def s_def by simp
  then obtain hdr where hdr: "emit_ir_udp cap s = Done hdr" "q = hdr @ drop (pv_header_len v + 8) packet"
    by (auto dest!: or_fail_out append_payload_out)
  have build: "build_packet x (capture_udp_header c1 u) (drop (pv_header_len v + 8) packet) = Done packet" if "length packet \<le> x" for x
    using rebuild_udp_exact [OF parse ok c(1) _ u(1) _ that] u(2,3) c(2) by (simp add: build_packet_def rebuild_udp_def capture_udp_header_def Let_def)
  show ?thesis
  proof (rule sent_as_irI [of s _ _ _ cap hdr _ "drop (pv_header_len v + 8) packet" "capture_udp_header c1 u"])
    show "network_sent (capture_udp_header c1 u) s" using c(3) by (simp add: network_sent_image s_def)
    show "terminal_protocol s = 17" using c(7) by (simp add: s_def terminal_protocol_def capture_udp_header_def split: if_splits)
    show "transport_sent UDP (capture_udp_header c1 u) s" by (simp add: transport_sent_def s_def capture_udp_header_def)
  qed (use c hdr build in \<open>simp_all add: s_def emit_ir_of_def capture_udp_header_def\<close>)
qed

lemma compress_esp_sends:
  assumes parse: "parse_ip_view packet = Done v" and plain: "plain_network packet v" and c0: "context_wf c0" "ctx_tx_count c0 = 0"
    and protocol: "pv_terminal_protocol v = 50" and out: "compress_esp md cid cap packet v c0 = Done (Some q, ctx)"
  shows "sent_as_ir ESP (ctx_cid c0) (ctx_large_cid c0) packet q"
proof -
  let ?n = "pv_header_len v"
  have ok: "network_ok packet v" using plain by (simp add: plain_network_def)
  obtain c1 c2 where flow: "\<And>k. capture_ip_flow ESP md c0 packet v k = k c2"
      and c: "holds_network c1 packet v" "ctx_profile c1 = ESP" "ctx_ipv4_protocol c1 = 50" "network_sent c1 c2" "context_wf c2"
      "ctx_cid c2 = ctx_cid c0" "ctx_large_cid c2 = ctx_large_cid c0" "terminal_protocol c2 = 50" "ctx_tx_count c2 = 0"
    using capture_ip_flow_plain [OF parse plain c0(1), of ESP md] c0(2) protocol by auto
  obtain e where e: "capture_esp_header c2 packet ?n = Done e"
    using out unfolding compress_esp_def flow by (auto dest!: or_fail_out)
  define upd where "upd = (\<lambda>c :: rohc_context. c\<lparr>ctx_esp_spi := load_be32 packet ?n, ctx_esp_sequence := load_be32 packet (?n + 4), ctx_msn := ucast (load_be32 packet (?n + 4))\<rparr>)"
  have l: "?n + 8 \<le> length packet" using e by (auto simp: capture_esp_header_def split: if_splits)
  then have esp: "capture_esp_header c packet ?n = Done (upd c)" for c by (simp add: capture_esp_header_def rd32_load upd_def)
  define s where "s = (upd c2)\<lparr>ctx_rohc_state := StaticEstablished\<rparr>"
  define a0 where "a0 = c1\<lparr>ctx_legacy_esp_payload_includes_header := False\<rparr>"
  have "should_emit_ir (upd c2)" using c(9) by (simp add: should_emit_ir_def upd_def)
  then have "or_fail (emit_ir_esp cap s) s (\<lambda>out. append_payload packet cap out (?n + 8) s) = Done (Some q, ctx)"
    using out unfolding compress_esp_def flow Let_def s_def esp by (simp add: or_fail_def)
  then obtain hdr where hdr: "emit_ir_esp cap s = Done hdr" "q = hdr @ drop (?n + 8) packet"
    by (auto dest!: or_fail_out append_payload_out)
  have six: "ipv6_octets a0 n x = ipv6_octets c1 n x" for n x by (simp add: ipv6_octets_def a0_def)
  have a0: "holds_network a0 packet v" using c(1) unfolding holds_network_def holds_ipv4_def holds_ipv6_def six by (simp add: a0_def)
  have build: "build_packet x (upd a0) (drop (?n + 8) packet) = Done packet" if "length packet \<le> x" for x
    using rebuild_esp_exact [OF parse ok a0 esp that] c(2,3) protocol by (simp add: build_packet_def a0_def upd_def Let_def)
  show ?thesis
  proof (rule sent_as_irI [of s _ _ _ cap hdr _ "drop (?n + 8) packet" "upd a0"])
    show "network_sent (upd a0) s" using c(4) by (simp add: network_sent_image s_def upd_def a0_def)
    show "terminal_protocol s = 50" using c(8) by (simp add: s_def terminal_protocol_def upd_def split: if_splits)
    show "transport_sent ESP (upd a0) s" by (simp add: transport_sent_def s_def upd_def a0_def)
    show "context_wf s" using c(5) by (simp add: s_def upd_def context_wf_def)
  qed (use c hdr build in \<open>simp_all add: s_def emit_ir_of_def upd_def a0_def\<close>)
qed

definition without_lists :: "rtp_context \<Rightarrow> rtp_context" where
  "without_lists r = r\<lparr>rtp_extension_len := 0, rtp_extension_bytes := replicate 256 0, rtp_padding_len := 0,
     rtp_padding_bytes := replicate 255 0, rtp_csrc_list_len := 0, rtp_csrc_list := replicate 60 0\<rparr>"

lemma capture_rtp_plain:
  assumes "12 \<le> length q" and "q ! 0 = 0x80" and "rtp_vpxcc (ctx_rtp c) = 0x80"
  shows "capture_rtp_context c q = Done (c\<lparr>ctx_rtp := without_lists (ctx_rtp c)\<rparr>, 12, length q - 12)"
proof -
  have "rtp_extras_body_len (without_lists (ctx_rtp c)) = Done 0"
    using assms(3) by (simp add: rtp_extras_body_len_def rtp_padding_valid_def without_lists_def)
  moreover have "q \<noteq> []" using assms(1) by auto
  ultimately show ?thesis
    using assms(1,2) unfolding capture_rtp_context_def without_lists_def
    by (simp add: capture_csrc_def capture_rtp_extension_def capture_rtp_padding_def copy_in_def Let_def)
qed

lemma rtp_flow_fields:
  assumes "update_rtp_ipv4_id_behavior c b p f sq ps n = (ok, u)"
  shows "ctx_cid u = ctx_cid c" "ctx_large_cid u = ctx_large_cid c" "ctx_tx_count u = ctx_tx_count c" "terminal_protocol u = terminal_protocol c"
    "ctx_udp_sport u = ctx_udp_sport c" "ctx_udp_dport u = ctx_udp_dport c" "ctx_udp_check u = ctx_udp_check c"
  using assms by (auto simp: update_rtp_ipv4_id_behavior_def terminal_protocol_def Let_def split: if_splits)

lemma stride_fields [simp]:
  "ctx_cid (update_rtp_timestamp_stride c sq ts) = ctx_cid c" "ctx_large_cid (update_rtp_timestamp_stride c sq ts) = ctx_large_cid c"
  "ctx_tx_count (update_rtp_timestamp_stride c sq ts) = ctx_tx_count c" "terminal_protocol (update_rtp_timestamp_stride c sq ts) = terminal_protocol c"
  "ctx_udp_sport (update_rtp_timestamp_stride c sq ts) = ctx_udp_sport c" "ctx_udp_dport (update_rtp_timestamp_stride c sq ts) = ctx_udp_dport c"
  "ctx_udp_check (update_rtp_timestamp_stride c sq ts) = ctx_udp_check c"
  "network_sent a (update_rtp_timestamp_stride c sq ts) = network_sent a c"
  by (simp_all add: update_rtp_timestamp_stride_def terminal_protocol_def split: option.splits)

lemma rtp_flow_wf: "context_wf (snd (update_rtp_ipv4_id_behavior c b p f sq ps n)) = context_wf c"
  by (simp add: update_rtp_ipv4_id_behavior_def context_wf_def Let_def)

lemma rtp_capture_wf:
  "context_wf c \<Longrightarrow> context_wf (capture_rtp_header c rt)" "context_wf c \<Longrightarrow> context_wf (c\<lparr>ctx_rtp := without_lists (ctx_rtp c)\<rparr>)"
  "context_wf c \<Longrightarrow> context_wf (note_behavior_change x c)" "context_wf c \<Longrightarrow> context_wf (update_rtp_timestamp_stride c sq ts)"
  "context_wf c \<Longrightarrow> context_wf (capture_udp_header c u)"
  by (auto simp: capture_rtp_header_def without_lists_def note_behavior_change_def update_rtp_timestamp_stride_def capture_udp_header_def
      context_wf_def rtp_context_wf_def split: option.splits)

lemma capture_rtp_fields:
  "ctx_cid (capture_rtp_header c rt) = ctx_cid c" "ctx_large_cid (capture_rtp_header c rt) = ctx_large_cid c"
  "ctx_tx_count (capture_rtp_header c rt) = ctx_tx_count c" "terminal_protocol (capture_rtp_header c rt) = terminal_protocol c"
  "terminal_protocol (c\<lparr>ctx_rtp := r\<rparr>) = terminal_protocol c" "terminal_protocol (capture_udp_header c u) = terminal_protocol c"
  "ctx_udp_sport (capture_rtp_header c rt) = ctx_udp_sport c" "ctx_udp_dport (capture_rtp_header c rt) = ctx_udp_dport c"
  "ctx_udp_check (capture_rtp_header c rt) = ctx_udp_check c" "ctx_cid (capture_udp_header c u) = ctx_cid c"
  "ctx_large_cid (capture_udp_header c u) = ctx_large_cid c" "ctx_tx_count (capture_udp_header c u) = ctx_tx_count c"
  "ctx_udp_sport (capture_udp_header c u) = udp_src_port u" "ctx_udp_dport (capture_udp_header c u) = udp_dst_port u"
  "ctx_udp_check (capture_udp_header c u) = udp_checksum u" "ctx_udp_check (note_behavior_change x c) = ctx_udp_check c"
  "ctx_udp_sport (note_behavior_change x c) = ctx_udp_sport c" "ctx_udp_dport (note_behavior_change x c) = ctx_udp_dport c"
  by (simp_all add: capture_rtp_header_def capture_udp_header_def note_behavior_change_def terminal_protocol_def)

lemma plain_rtp_octet: "drop_bit 6 x = 2 \<Longrightarrow> x AND 0x3F = 0 \<Longrightarrow> (x :: byte) = 0x80"
proof -
  assume a: "drop_bit 6 x = 2" "x AND 0x3F = 0"
  have "x = push_bit 6 (drop_bit 6 x) OR (x AND 0x3F)" by (simp add: byte_bits)
  also have "\<dots> = 0x80" unfolding a by simp
  finally show ?thesis .
qed

lemma capture_rtp_flow_plain:
  assumes parse: "parse_ip_view packet = Done v" and plain: "plain_network packet v" and wf: "context_wf c0" "ctx_tx_count c0 = 0"
    and rt: "rtp_parse packet (pv_header_len v + 8) = Done rt" "rh_vpxcc rt = 0x80"
  shows "\<exists>c1 c2 ok. (\<forall>k. capture_rtp_flow RTP md c0 packet v u rt k = k c2 ok 12 (length packet - (pv_header_len v + 20))) \<and>
     holds_network c1 packet v \<and> ctx_profile c1 = RTP \<and> network_sent c1 c2 \<and> context_wf c2 \<and> ctx_cid c2 = ctx_cid c0 \<and>
     ctx_large_cid c2 = ctx_large_cid c0 \<and> ctx_tx_count c2 = 0 \<and> terminal_protocol c2 = pv_terminal_protocol v \<and>
     ctx_udp_sport c2 = udp_src_port u \<and> ctx_udp_dport c2 = udp_dst_port u \<and> ctx_udp_check c2 = udp_checksum u \<and>
     rtp_octets c2 = take 12 (drop (pv_header_len v + 8) packet) \<and> rtp_vpxcc (ctx_rtp c2) = 0x80"
proof -
  let ?c = "c0\<lparr>ctx_profile := RTP, ctx_mode := md\<rparr>" and ?q = "drop (pv_header_len v + 8) packet"
  have ok: "network_ok packet v" using plain by (simp add: plain_network_def)
  have wf': "context_wf ?c" using wf by simp
  obtain c1 where c1: "capture_ip_context ?c packet v = Done c1" "holds_network c1 packet v" "ctx_profile c1 = RTP"
    using capture_holds [OF parse ok, of ?c] by auto
  note f = captured_plain [OF parse plain wf' c1(1)] and o = rtp_parse_octets [OF rt(1)]
  have q: "12 \<le> length ?q" "?q ! 0 = 0x80" using o(2,3) rt(2) by simp_all
  obtain ok e where e: "update_rtp_ipv4_id_behavior (capture_udp_header c1 u) False (ctx_ipv4_id c0) (ctx_ipv4_flags c0) (ctx_ipv4_id_sequential c0)
      (rtp_last_seq (ctx_rtp c0)) (rh_sequence rt) = (ok, e)"
    by fastforce
  define e2 where "e2 = capture_rtp_header (update_rtp_timestamp_stride (note_behavior_change (\<not> ok) e) (rh_sequence rt) (rh_timestamp rt)) rt"
  define c2 where "c2 = e2\<lparr>ctx_rtp := without_lists (ctx_rtp e2)\<rparr>"
  have vp: "rtp_vpxcc (ctx_rtp e2) = 0x80" using rt(2) by (simp add: e2_def capture_rtp_header_def)
  have e_wf: "context_wf e" using rtp_flow_wf [of "capture_udp_header c1 u"] e f(4) rtp_capture_wf(5) by (metis snd_conv)
  have e_net: "network_sent c1 e" using behavior_sent(2) [of c1 "capture_udp_header c1 u"] e f(1) by (metis network_sent_updates(1) snd_conv)
  have flow: "capture_rtp_flow RTP md c0 packet v u rt k = k c2 ok 12 (length packet - (pv_header_len v + 20))" for k
    using wf(2) o(2) capture_rtp_plain [OF q vp] c1(1) e
    unfolding capture_rtp_flow_def Let_def by (simp add: or_fail_def e2_def c2_def add.commute)
  have fields: "context_wf c2" "network_sent c1 c2" "ctx_cid c2 = ctx_cid c0" "ctx_large_cid c2 = ctx_large_cid c0" "ctx_tx_count c2 = 0"
      "terminal_protocol c2 = pv_terminal_protocol v" "ctx_udp_sport c2 = udp_src_port u" "ctx_udp_dport c2 = udp_dst_port u"
      "ctx_udp_check c2 = udp_checksum u"
    using e_wf e_net f rtp_flow_fields [OF e] wf(2)
    by (simp_all add: c2_def e2_def rtp_capture_wf behavior_sent(3) capture_rtp_fields)
  moreover have "rtp_octets c2 = take 12 ?q" using o(1) by (simp add: c2_def e2_def rtp_octets_def without_lists_def capture_rtp_header_def)
  ultimately show ?thesis using flow c1 vp by (intro exI [of _ c1] exI [of _ c2] exI [of _ ok]) (simp add: c2_def without_lists_def)
qed

lemma compress_rtp_sends:
  assumes parse: "parse_ip_view packet = Done v" and plain: "plain_network packet v" and c0: "context_wf c0" "ctx_tx_count c0 = 0"
    and u: "udp_parse packet (pv_header_len v) = Done u" "pv_terminal_protocol v = 17" "udp_length u = of_nat (length packet - pv_header_len v)"
    and rt: "rtp_parse packet (pv_header_len v + 8) = Done rt" "rh_vpxcc rt AND 0x3F = 0"
    and out: "compress_rtp md cid cap before packet v u rt c0 = Done (Some q, ctx)"
  shows "sent_as_ir RTP (ctx_cid c0) (ctx_large_cid c0) packet q"
proof -
  let ?n = "pv_header_len v + 8" and ?m = "length packet - (pv_header_len v + 20)"
  have ok: "network_ok packet v" using plain by (simp add: plain_network_def)
  have "rtp_version rt = 2" using rt(1) by (auto simp: rtp_parse_def Let_def copy_in_def split: if_splits)
  then have vp: "rh_vpxcc rt = 0x80" using plain_rtp_octet rt(2) by (simp add: rtp_version_def)
  note o = rtp_parse_octets [OF rt(1)]
  obtain c1 c2 good where flow: "\<And>k. capture_rtp_flow RTP md c0 packet v u rt k = k c2 good 12 ?m"
      and c: "holds_network c1 packet v" "ctx_profile c1 = RTP" "network_sent c1 c2" "context_wf c2" "ctx_cid c2 = ctx_cid c0"
      "ctx_large_cid c2 = ctx_large_cid c0" "ctx_tx_count c2 = 0" "terminal_protocol c2 = 17" "ctx_udp_sport c2 = udp_src_port u"
      "ctx_udp_dport c2 = udp_dst_port u" "ctx_udp_check c2 = udp_checksum u" "rtp_octets c2 = take 12 (drop ?n packet)" "rtp_vpxcc (ctx_rtp c2) = 0x80"
    using capture_rtp_flow_plain [OF parse plain c0 rt(1) vp, of md u] u(2) by auto
  define s where "s = c2\<lparr>ctx_rohc_state := StaticEstablished\<rparr>"
  define a where "a = (let e = capture_rtp_header (capture_udp_header c1 u) rt in e\<lparr>ctx_rtp := without_lists (ctx_rtp e)\<rparr>)"
  have "should_emit_ir c2" using c(7) by (rule first_emits_ir)
  then have "or_fail (emit_ir_rtp cap s) s (\<lambda>out. append_payload_range packet cap out (?n + 12) ?m s) = Done (Some q, ctx)"
    using out o(2) unfolding compress_rtp_def flow emit_rtp_flow_def Let_def s_def by (simp add: copy_in_def)
  then obtain hdr where hdr: "emit_ir_rtp cap s = Done hdr" "q = hdr @ take ?m (drop (?n + 12) packet)"
    by (auto dest!: or_fail_out append_payload_range_out)
  have "rtp_vpxcc (ctx_rtp (capture_rtp_header (capture_udp_header c1 u) rt)) = 0x80" using vp by (simp add: capture_rtp_header_def)
  then have capt: "capture_rtp_context (capture_rtp_header (capture_udp_header c1 u) rt) (drop ?n packet) = Done (a, 12, ?m)"
    using capture_rtp_plain [of "drop ?n packet"] o(2,3) vp by (simp add: a_def Let_def add.commute)
  have fields: "ctx_profile a = RTP" "rtp_octets a = take 12 (drop ?n packet)" "no_lists a" "ctx_udp_sport a = udp_src_port u"
      "ctx_udp_dport a = udp_dst_port u" "ctx_udp_check a = udp_checksum u"
    using c(2) o(1) [of c1] by (simp_all add: a_def no_lists_def without_lists_def capture_rtp_header_def capture_udp_header_def rtp_octets_def Let_def)
  have build: "build_packet x a (take ?m (drop (?n + 12) packet)) = Done packet" if "length packet \<le> x" for x
    using rebuild_rtp_exact [OF parse ok c(1) _ u(1) _ rt(1) capt that] u(2,3) c(2) fields(1) by (simp add: build_packet_def rebuild_rtp_def Let_def)
  show ?thesis
  proof (rule sent_as_irI [of s _ _ _ cap hdr _ "take ?m (drop (?n + 12) packet)" a])
    show "network_sent a s" using c(3) by (simp add: network_sent_image s_def a_def Let_def)
    show "transport_sent RTP a s" using fields c by (simp add: transport_sent_def s_def) (simp add: rtp_octets_def)
    show "terminal_protocol s = 17" using c(8) by (simp add: s_def terminal_protocol_def split: if_splits)
  qed (use c hdr build fields in \<open>simp_all add: s_def emit_ir_of_def\<close>)
qed

section \<open>The first packet of a flow\<close>

definition first_packet :: "profile \<Rightarrow> rohc_context \<Rightarrow> bool" where
  \<comment> \<open>nothing has been sent on the context, or it has been used for another profile\<close>
  "first_packet pr c \<longleftrightarrow> (if ctx_profile_has_been_used c \<and> ctx_profile c \<noteq> pr then True else ctx_tx_count c = 0)"

lemma first_packet_begins:
  assumes "first_packet pr before" "pr \<noteq> Uncompressed" "context_wf before"
  shows "ctx_tx_count (begin_profile md large cid pr before) = 0" "context_wf (begin_profile md large cid pr before)"
    "ctx_cid (begin_profile md large cid pr before) = cid" "ctx_large_cid (begin_profile md large cid pr before) = large"
proof -
  have z: "ctx_tx_count context_zero = 0" by (simp add: context_zero_def)
  show "ctx_tx_count (begin_profile md large cid pr before) = 0"
    "ctx_cid (begin_profile md large cid pr before) = cid" "ctx_large_cid (begin_profile md large cid pr before) = large"
    using assms(1,2) z by (auto simp: first_packet_def begin_profile_def require_confirmation_before_pt0_alias_def Let_def split: if_splits)
qed (rule replaced_wf [OF assms(3)])

lemma view_transport:
  assumes "parse_ip_view packet = Done v" and "plain_network packet v"
  shows "transport_at packet (pv_header_len v) (pv_terminal_protocol v)" "classify_packet packet = classify_transport packet (pv_header_len v) (pv_terminal_protocol v)"
proof -
  show t: "transport_at packet (pv_header_len v) (pv_terminal_protocol v)"
    using assms(1)
  proof (cases rule: parse_ip_view_cases)
    case (v4 ip hl)
    note h = ipv4_parse_Done [OF v4(1)]
    have "ip4_flags_fragment ip = load_be16 packet 6" using h by (auto simp: ipv4_header_of_def load_be16_def)
    then show ?thesis using v4 assms(2) by (auto simp: transport_at_def plain_network_def network_ok_def ipv4_consistent_def)
  next
    case (v6 ip hl nxt ext)
    moreover have "ipv4_parse packet = Reject" using v6(2) assms(1) by (auto simp: parse_ip_view_def seq_res_eq_Done split: res.splits)
    ultimately show ?thesis by (auto simp: transport_at_def)
  qed
  show "classify_packet packet = classify_transport packet (pv_header_len v) (pv_terminal_protocol v)"
    using t by (cases packet rule: classify_packet_cases) (auto dest: transport_at_unique)
qed

definition plain_packet :: "profile \<Rightarrow> bytes \<Rightarrow> parsed_ip_view \<Rightarrow> bool" where
  \<comment> \<open>plain network headers, over UDP a consistent length field, and an RTP header without padding, extension and CSRC list\<close>
  "plain_packet pr packet v \<longleftrightarrow> plain_network packet v \<and>
     (pr \<in> {UDP, RTP} \<longrightarrow> load_be16 packet (pv_header_len v + 4) = of_nat (length packet - pv_header_len v)) \<and>
     (pr = RTP \<longrightarrow> packet ! (pv_header_len v + 8) AND 0x3F = 0)"

lemma udp_parse_length: "udp_parse packet off = Done u \<Longrightarrow> udp_length u = load_be16 packet (off + 4)"
  by (auto simp: udp_parse_def udp_header_of_def load_be16_def bounds_check_def copy_in_def add.commute split: if_splits)

lemma plain_profile:
  assumes parse: "parse_ip_view packet = Done v" and plain: "plain_network packet v"
  shows "(case pv_ip4 v of Some ip \<Rightarrow> is_fragmented (ip4_flags_fragment ip) | None \<Rightarrow> False) = False"
    "(\<not> pv_is_ipv6 v \<and> pv_header_len v \<noteq> 20) = False"
    "(pv_is_ipv6 v \<and> (pv_extension_len v \<noteq> 0 \<or> (case pv_ip6 v of Some ip \<Rightarrow> ip6_version_tc_flow ip AND 0x000FFFFF \<noteq> 0 | None \<Rightarrow> False))) = False"
proof -
  have "\<not> pv_is_ipv6 v \<Longrightarrow> \<not> is_fragmented (load_be16 packet 6)" using plain by (simp add: plain_network_def network_ok_def ipv4_consistent_def)
  with parse show "(case pv_ip4 v of Some ip \<Rightarrow> is_fragmented (ip4_flags_fragment ip) | None \<Rightarrow> False) = False"
    by (cases rule: parse_ip_view_cases) (auto dest!: ipv4_parse_Done simp: ipv4_header_of_def load_be16_def)
qed (use plain in \<open>auto simp: plain_network_def split: option.splits if_splits\<close>)

lemma plain_chosen:
  assumes "parse_ip_view packet = Done v" and "plain_network packet v" and "classify_packet packet = Done pr"
    and "\<And>r. rtp = Some r \<Longrightarrow> rh_vpxcc r AND 0x3F = 0"
  shows "choose_profile packet v False rtp = Done pr"
  using plain_profile(2,3) [OF assms(1,2)] assms(3,4) unfolding choose_profile_def Let_def by (cases rtp) auto

lemma plain_context_sent:
  assumes parse: "parse_ip_view packet = Done v" and plain: "plain_packet pr packet v" and first: "context_wf before" "first_packet pr before"
    and pr: "classify_packet packet = Done pr" "pr \<in> {RTP, UDP, ESP, IP}"
    and out: "compress_context md large cid cap packet v before = Done (Some q, ctx)"
  shows "sent_as_ir pr cid large packet q"
proof -
  have net: "plain_network packet v" using plain by (simp add: plain_packet_def)
  note shape = plain_profile [OF parse net]
  define c0 where "c0 = begin_profile md large cid pr before"
  have "pr \<noteq> Uncompressed" using pr(2) by auto
  note c0 = first_packet_begins [OF first(2) this first(1), of md large cid, folded c0_def]
  let ?n = "pv_header_len v" and ?p = "pv_terminal_protocol v"
  have cls: "Done pr = classify_transport packet ?n ?p" using view_transport(2) [OF parse net] pr(1) by simp
  have none: "choose_profile packet v False None = Done pr" by (rule plain_chosen [OF parse net pr(1)]) simp
  note expand = compress_context_def Let_def shape
  consider (IP) "pr = IP" | (ESP) "pr = ESP" | (UDP) "pr = UDP" | (RTP) "pr = RTP" using pr(2) by blast
  then show ?thesis
  proof cases
    case IP
    then have "?p \<noteq> 17" "?p \<noteq> 136" using cls by (auto simp: classify_transport_eq split: if_splits)
    then have "compress_ip md cid cap packet v c0 = Done (Some q, ctx)" using out none by (simp add: expand IP c0_def)
    then show ?thesis using compress_ip_sends [OF parse net c0(2,1)] c0(3,4) IP by simp
  next
    case ESP
    then have p: "?p = 50" using cls by (auto simp: classify_transport_eq split: if_splits)
    then have "compress_esp md cid cap packet v c0 = Done (Some q, ctx)" using out none by (simp add: expand ESP c0_def)
    then show ?thesis using compress_esp_sends [OF parse net c0(2,1) p] c0(3,4) ESP by simp
  next
    case UDP
    then have p: "?p = 17" "\<not> carries_rtp packet ?n" "?n + 8 \<le> length packet" using cls by (auto simp: classify_transport_eq split: if_splits)
    obtain u where u: "udp_parse packet ?n = Done u" using p(3) by (simp add: udp_parse_def bounds_check_def)
    have "udp_length u = of_nat (length packet - ?n)" using udp_parse_length [OF u] plain UDP by (simp add: plain_packet_def)
    moreover have "compress_udp md cid cap packet v u c0 = Done (Some q, ctx)"
      using out none p u rtp_parse_cases [of packet ?n] by (simp add: expand UDP c0_def or_none_def)
    ultimately show ?thesis using compress_udp_sends [OF parse net c0(2,1) u p(1)] c0(3,4) UDP by simp
  next
    case RTP
    then have p: "?p = 17" "carries_rtp packet ?n" using cls by (auto simp: classify_transport_eq split: if_splits)
    obtain u where u: "udp_parse packet ?n = Done u" using carries_rtp_room [OF p(2)] by (simp add: udp_parse_def bounds_check_def)
    obtain rt where rt: "rtp_parse packet (?n + 8) = Done rt"
      using p(2) rtp_parse_cases [of packet ?n] rtp_parse_not_Fault by (cases "rtp_parse packet (?n + 8)") auto
    have fit: "rh_vpxcc rt AND 0x3F = 0" using rtp_parse_octets(3) [OF rt] plain RTP by (simp add: plain_packet_def)
    have "udp_length u = of_nat (length packet - ?n)" using udp_parse_length [OF u] plain RTP by (simp add: plain_packet_def)
    moreover have "compress_rtp md cid cap before packet v u rt c0 = Done (Some q, ctx)"
      using out p u rt plain_chosen [OF parse net pr(1), of "Some rt"] fit by (simp add: expand RTP c0_def or_none_def)
    ultimately show ?thesis using compress_rtp_sends [OF parse net c0(2,1) u p(1) _ rt fit] c0(3,4) RTP by simp
  qed
qed

lemma entry_like_rtp: "entry_like c c' \<Longrightarrow> ctx_rtp c' = ctx_rtp c"
  unfolding entry_like_def by (drule arg_cong [of _ _ ctx_rtp]) simp

lemma first_packet_arrives:
  assumes "comp_ok c" "rohc_comp_has_segment c = 0" "decomp_ok d" "\<not> decomp_reassembly_active d" "peers c d"
    and "2 < capacity" "\<not> comp_large_cid_space c \<or> segment_buffer_max \<le> capacity"
    and "rohc_compress4 c packet segment_buffer_max = Done (Some full, u)" "length full \<le> capacity \<or> length full \<le> comp_mrru c"
    and "parse_ip_view packet = Done v" and limit: "length packet \<le> limit"
    and plain: "plain_packet pr packet v" and pr: "classify_packet packet = Done pr" "pr \<in> {RTP, UDP, ESP, IP}"
    and first: "\<And>i. context_table_get (comp_contexts c) (comp_current_cid c) = Done (Some i) \<Longrightarrow> first_packet pr (context_table_entry (comp_contexts c) i)"
    and legacy: "\<And>q x. protect_output (comp_oipsec c) packet q = Done full \<Longrightarrow> legacy_ir_of pr q x = Reject"
    and lists: "\<And>j. pr = RTP \<Longrightarrow> context_table_get (decomp_contexts d) (comp_current_cid c) = Done (Some j) \<Longrightarrow>
        no_lists (context_table_entry (decomp_contexts d) j)"
  shows "\<exists>qs c' d'. send_packet c packet capacity = Done (qs, c') \<and> receive_all d qs limit = Done ([packet], d') \<and> decomp_ok d' \<and> comp_ok c'"
proof (rule delivered_if_received [OF assms(1-10)])
  fix i j q ctx w
  assume i: "context_table_get (comp_contexts c) (comp_current_cid c) = Done (Some i)"
    and out: "compress_context (comp_mode c) (comp_large_cid_space c) (comp_current_cid c) segment_buffer_max packet v
        (context_table_entry (comp_contexts c) i) = Done (Some q, ctx)"
    and w: "decomp_ok w" "same_setup d w" "context_table_get (decomp_contexts w) (comp_current_cid c) = Done (Some j)"
      "decomp_large_cid_space w = comp_large_cid_space c" "protect_output (decomp_oipsec w) packet q = Done full"
  have "context_wf (context_table_entry (comp_contexts c) i)" using contexts.get_good [OF _ i] assms(1) by (simp add: comp_ok_def)
  then have "sent_as_ir pr (comp_current_cid c) (comp_large_cid_space c) packet q"
    using plain_context_sent [OF assms(10) plain _ first [OF i] pr out] by blast
  then obtain s a payload where s: "context_wf s" "ir_emittable pr s" "ctx_cid s = comp_current_cid c" "ctx_large_cid s = comp_large_cid_space c"
      "pr = ESP \<longrightarrow> terminal_protocol s = 50" "pr \<in> {UDP, RTP} \<longrightarrow> terminal_protocol s = 17" "q = ir_frame pr (ir_profile_of pr) s @ payload"
      "ctx_profile a = pr" "\<forall>cap. length packet \<le> cap \<longrightarrow> build_packet cap a payload = Done packet" "network_sent a s" "transport_sent pr a s"
    unfolding sent_as_ir_def by blast
  have ok: "std_ip_ok s" using s(2) by (simp add: ir_emittable_def)
  have j: "context_table_get (decomp_contexts d) (comp_current_cid c) = Done (Some j)"
      "entry_like (context_table_entry (decomp_contexts d) j) (context_table_entry (decomp_contexts w) j)"
    using w(2,3) by (simp_all add: same_setup_def like_except_def)
  have same: "decomp_oipsec w = comp_oipsec c" using w(2) assms(5) by (simp add: same_setup_def peers_def)
  show "\<exists>d'. rohc_decompress4 w full limit = Done (0, packet, d') \<and> decomp_ok d'"
  proof (rule ir_received [OF w(1) s(1,2) _ pr(2) _ _ _ s(7) w(5) _ limit _ s(8), of j])
    show "legacy_ir_of pr q x = Reject" for x using legacy [of q] w(5) same by simp
    show "same_network a (receive_ir pr s x) \<and> same_transport pr a (receive_ir pr s x)" if "pr = RTP \<Longrightarrow> no_lists x" for x
      using received_network [OF s(10) pr(2)] received_transport [OF s(11) pr(2) ok that] by blast
    show "no_lists (context_table_entry (decomp_contexts w) j)" if "pr = RTP" using lists [OF that j(1)] entry_like_rtp [OF j(2)] by (simp add: no_lists_def)
  qed (use s w in auto)
qed

section \<open>Main result\<close>

definition udp_datagram :: bytes where
  \<comment> \<open>a UDP datagram over IPv4 without data, from port 5000 to port 5001\<close>
  "udp_datagram = [0x45, 0, 0, 28, 0, 0, 0x40, 0, 64, 17, 0x26, 0xCF, 10, 0, 0, 1, 10, 0, 0, 2, 0x13, 0x88, 0x13, 0x89, 0, 8, 0xB2, 0x5A]"

lemma udp_datagram_plain: "\<exists>v. parse_ip_view udp_datagram = Done v \<and> plain_packet UDP udp_datagram v" and
  udp_datagram_profile: "classify_packet udp_datagram = Done UDP"
proof -
  have "case parse_ip_view udp_datagram of Done v \<Rightarrow> pv_header_len v = 20 \<and> \<not> pv_is_ipv6 v | _ \<Rightarrow> False" by code_simp
  then obtain v where v: "parse_ip_view udp_datagram = Done v" "pv_header_len v = 20" "\<not> pv_is_ipv6 v" by (auto split: res.splits)
  have "ipv4_consistent udp_datagram 20" by code_simp
  moreover have "udp_datagram ! 6 AND 0x80 = 0" by code_simp
  ultimately have "plain_network udp_datagram v" using v(2,3) by (simp only: plain_network_def network_ok_def if_False simp_thms)
  moreover have "load_be16 udp_datagram 24 = 8" by code_simp
  moreover have "length udp_datagram = 28" by (simp add: udp_datagram_def)
  ultimately have "plain_packet UDP udp_datagram v" using v(2) by (simp add: plain_packet_def)
  then show "\<exists>v. parse_ip_view udp_datagram = Done v \<and> plain_packet UDP udp_datagram v" using v(1) by blast
  show "classify_packet udp_datagram = Done UDP" by code_simp
qed

lemma udp_datagram_sent: "\<exists>full u. rohc_compress4 (fresh_comp n) udp_datagram segment_buffer_max = Done (Some full, u) \<and> length full = 25"
proof -
  have "case parse_ip_view udp_datagram of Done v \<Rightarrow>
      (case compress_context Optimistic False 0 segment_buffer_max udp_datagram v context_zero of Done (Some q, ctx) \<Rightarrow> length q = 25 | _ \<Rightarrow> False) | _ \<Rightarrow> False"
    by code_simp
  then obtain v q ctx where "parse_ip_view udp_datagram = Done v" "length q = 25"
      "compress_context Optimistic False 0 segment_buffer_max udp_datagram v context_zero = Done (Some q, ctx)"
    by (auto split: res.splits option.splits prod.splits)
  then show ?thesis using fresh_sends [of udp_datagram v q ctx n] by (auto simp: segment_buffer_max_def)
qed

lemma short_udp_not_legacy: "length q < 26 \<Longrightarrow> legacy_ir_of UDP q c = Reject"
  by (simp add: legacy_ir_of_def decode_ir_udp_legacy_def read_legacy_ir_prefix_def)

text \<open>
  C7. The first packet of a flow arrives. Let a reachable compressor and a reachable decompressor use the same CID space and the same
  integrity settings, the decompressor having at least the compressor's contexts and MRRU, with no segment pending on either side. Let the packet
  belong to RTP, UDP, ESP or IP, have consistent lengths and IPv4 checksum, no options, extension headers or flow label, over RTP no
  padding, extension or CSRC list, and let it be the first of its profile on the current CID. Whenever \<open>rohc_compress4\<close> makes a
  packet of it, that packet, protected or not, and with small CIDs in one piece or in segments, brings the receiver to return
  exactly the original, whatever the receiver's contexts hold from earlier flows; with large CIDs the buffer has to be large
  enough for every packet, so that nothing is cut. Two conditions come from the code: the decoder of the
  legacy format, which is tried as well, has to reject the packet, and over RTP the receiver's context must not hold lists,
  which an IR packet does not clear.
\<close>

theorem first_packet_delivered:
  assumes "comp_reachable c" "rohc_comp_has_segment c = 0" "decomp_reachable d" "\<not> decomp_reassembly_active d" "peers c d"
    and "2 < capacity" "\<not> comp_large_cid_space c \<or> segment_buffer_max \<le> capacity"
    and "rohc_compress4 c packet segment_buffer_max = Done (Some full, u)" "length full \<le> capacity \<or> length full \<le> comp_mrru c"
    and "parse_ip_view packet = Done v" "length packet \<le> limit"
    and "plain_packet pr packet v" "classify_packet packet = Done pr" "pr \<in> {RTP, UDP, ESP, IP}"
    and i: "context_table_get (comp_contexts c) (comp_current_cid c) = Done (Some i)" and first: "first_packet pr (context_table_entry (comp_contexts c) i)"
    and legacy: "\<And>q x. protect_output (comp_oipsec c) packet q = Done full \<Longrightarrow> legacy_ir_of pr q x = Reject"
    and lists: "\<And>j. pr = RTP \<Longrightarrow> context_table_get (decomp_contexts d) (comp_current_cid c) = Done (Some j) \<Longrightarrow>
        no_lists (context_table_entry (decomp_contexts d) j)"
  shows "\<exists>qs c' d'. send_packet c packet capacity = Done (qs, c') \<and> receive_all d qs limit = Done ([packet], d')"
proof -
  have "first_packet pr (context_table_entry (comp_contexts c) k)" if "context_table_get (comp_contexts c) (comp_current_cid c) = Done (Some k)" for k
    using that i first by simp
  then show ?thesis
    using first_packet_arrives [OF comp_reachable_ok [OF assms(1)] assms(2) reachable_ok [OF assms(3)] assms(4-14) _ legacy lists] by blast
qed

theorem first_packet_delivered_witness:
  "\<exists>qs c' d'. send_packet (fresh_comp 100) udp_datagram 10 = Done (qs, c') \<and> receive_all (fresh_decomp 100) qs 1500 = Done ([udp_datagram], d')"
proof -
  obtain full u where full: "rohc_compress4 (fresh_comp 100) udp_datagram segment_buffer_max = Done (Some full, u)" "length full = 25"
    using udp_datagram_sent by blast
  obtain v where v: "parse_ip_view udp_datagram = Done v" "plain_packet UDP udp_datagram v" using udp_datagram_plain by blast
  have "length full \<le> 10 \<or> length full \<le> comp_mrru (fresh_comp 100)" using full(2) by (simp add: fresh_fields segment_buffer_max_def)
  moreover have "length udp_datagram \<le> 1500" by (simp add: udp_datagram_def)
  moreover have "first_packet UDP context_zero" by (simp add: first_packet_def context_zero_def)
  moreover have "legacy_ir_of UDP q x = Reject" if "protect_output (comp_oipsec (fresh_comp 100)) udp_datagram q = Done full" for q x
    using that full(2) by (intro short_udp_not_legacy) (simp add: protect_output_def fresh_fields oipsec_off_def)
  ultimately show ?thesis
    using first_packet_delivered [OF fresh_reachable(1) _ fresh_reachable(2) _ fresh_fields(3) _ _ full(1) _ v(1) _ v(2) udp_datagram_profile,
        of 10 1500 0]
    by (simp add: fresh_fields fresh_entry)
qed

end
