(* ===== verification/Tunnel.thy ===== *)
theory Tunnel
  imports Prelude
begin

text \<open>
  The framing and the flow table of the tunnel example (\<open>examples/linux_tun_tunnel/tunnel_protocol.cpp\<close> and \<open>.hpp\<close>): the
  flow key of an IPv4 packet, the table that assigns the sixteen small CIDs to flows, the envelope of a datagram, the
  feedback message, and the two steps that connect a codec with the network. A function of the source that returns
  \<open>Result::Ok\<close> is \<open>Inr\<close> of what it leaves in its out-parameters, and \<open>Inl\<close> of the error otherwise. The codec is a parameter:
  a record of functions on a context of any type. The socket and device handling of \<open>linux_tun_tunnel.cpp\<close> is not modelled.
\<close>

section \<open>Model: results, packets and flow keys\<close>

datatype tun_error = InvalidArgument | Oversized | MalformedData | UnknownVersion | UnknownType | CodecFailure

datatype message_type = MtCompressed | MtFeedback

definition validate_ipv4_packet :: "bytes \<Rightarrow> nat \<Rightarrow> (tun_error + unit) res" where
  "validate_ipv4_packet packet maximum_packet_size =
     (if maximum_packet_size < 20 then Done (Inl InvalidArgument)
      else if length packet < 20 then Done (Inl MalformedData)
      else if length packet > maximum_packet_size then Done (Inl Oversized)
      else rd packet 0 (\<lambda>b0. if drop_bit 4 b0 \<noteq> 4 then Done (Inl UnknownVersion)
        else rd packet 2 (\<lambda>b2. rd packet 3 (\<lambda>b3.
          let header_len = unat (b0 AND 0x0F) * 4; total_len = unat b2 * 256 + unat b3 in
          if header_len < 20 \<or> header_len > length packet \<or> total_len \<noteq> length packet then Done (Inl MalformedData)
          else Done (Inr ())))))"

record flow_key =
  fk_bytes :: bytes
  fk_length :: byte

definition key_zero :: flow_key where
  "key_zero = \<lparr>fk_bytes = replicate 20 0, fk_length = 0\<rparr>"

definition key_push :: "bytes \<Rightarrow> flow_key \<Rightarrow> (flow_key \<Rightarrow> 'a res) \<Rightarrow> 'a res" where
  \<comment> \<open>storing octets at \<open>length\<close> in the array of twenty, which advances \<open>length\<close>\<close>
  "key_push bs key k =
     (let n = unat (fk_length key) in
      if n + length bs \<le> length (fk_bytes key)
      then k \<lparr>fk_bytes = take n (fk_bytes key) @ bs @ drop (n + length bs) (fk_bytes key),
              fk_length = fk_length key + of_nat (length bs)\<rparr>
      else Fault)"

definition append16 :: "u16 \<Rightarrow> flow_key \<Rightarrow> (flow_key \<Rightarrow> 'a res) \<Rightarrow> 'a res" where
  "append16 value key k = key_push (be16 value) key k"

definition append32 :: "bytes \<Rightarrow> nat \<Rightarrow> flow_key \<Rightarrow> (flow_key \<Rightarrow> 'a res) \<Rightarrow> 'a res" where
  "append32 packet i key k = copy_in packet i 4 (\<lambda>bs. key_push bs key k)"

definition key_equal :: "flow_key \<Rightarrow> flow_key \<Rightarrow> bool" where
  "key_equal a b \<longleftrightarrow> fk_length a = fk_length b \<and> take (unat (fk_length a)) (fk_bytes a) = take (unat (fk_length a)) (fk_bytes b)"

definition rtp_extension_end :: "bytes \<Rightarrow> byte \<Rightarrow> nat \<Rightarrow> (bool \<times> nat) res" where
  \<comment> \<open>\<open>valid_rtp\<close> and \<open>header\<close> after the header extension\<close>
  "rtp_extension_end payload b0 base =
     (if base \<le> length payload \<and> b0 AND 0x10 \<noteq> 0 then
        if base + 4 \<le> length payload then
          rd payload (base + 2) (\<lambda>w1. rd payload (base + 3) (\<lambda>w0.
            let hdr = base + 4 + (unat w1 * 256 + unat w0) * 4 in Done (hdr \<le> length payload, hdr)))
        else Done (False, base)
      else Done (base \<le> length payload, base))"

definition is_rtp_payload :: "bytes \<Rightarrow> bool res" where
  "is_rtp_payload payload =
     (if length payload < 12 then Done False
      else rd payload 0 (\<lambda>b0. if drop_bit 6 b0 \<noteq> 2 then Done False
        else seq_res (rtp_extension_end payload b0 (12 + unat (b0 AND 0x0F) * 4)) (\<lambda>(valid_rtp, hdr).
          if valid_rtp \<and> b0 AND 0x20 \<noteq> 0 then
            if length payload > hdr then rd payload (length payload - 1) (\<lambda>pad. Done (pad \<noteq> 0 \<and> unat pad \<le> length payload - hdr))
            else Done False
          else Done valid_rtp)))"

definition udp_flow :: "bytes \<Rightarrow> nat \<Rightarrow> flow_key \<Rightarrow> (tun_error + flow_key) res" where
  "udp_flow packet ihl key =
     (if length packet < ihl + 8 then Done (Inl MalformedData)
      else rd packet (ihl + 4) (\<lambda>l1. rd packet (ihl + 5) (\<lambda>l0.
        let udp_len = unat l1 * 256 + unat l0 in
        if udp_len < 8 \<or> udp_len \<noteq> length packet - ihl then Done (Inl MalformedData)
        else key_push [2] key (\<lambda>key.
          rd packet ihl (\<lambda>s1. rd packet (ihl + 1) (\<lambda>s0. append16 (of_be16 s1 s0) key (\<lambda>key.
          rd packet (ihl + 2) (\<lambda>d1. rd packet (ihl + 3) (\<lambda>d0. append16 (of_be16 d1 d0) key (\<lambda>key.
          view packet (ihl + 8) (\<lambda>payload.
          seq_res (is_rtp_payload payload) (\<lambda>rtp.
            if rtp then append32 payload 8 (key\<lparr>fk_bytes := (fk_bytes key)[9 := 3]\<rparr>) (\<lambda>key. Done (Inr key))
            else Done (Inr key)))))))))))))"

definition identify_flow :: "bytes \<Rightarrow> (tun_error + flow_key) res" where
  "identify_flow packet =
     seq_res (validate_ipv4_packet packet (length packet)) (\<lambda>valid. case valid of
       Inl e \<Rightarrow> Done (Inl e)
     | Inr _ \<Rightarrow> rd packet 0 (\<lambda>b0. let ihl = unat (b0 AND 0x0F) * 4 in
         append32 packet 12 key_zero (\<lambda>key. append32 packet 16 key (\<lambda>key.
         rd packet 9 (\<lambda>protocol. key_push [protocol] key (\<lambda>key.
         rd packet 6 (\<lambda>f1. rd packet 7 (\<lambda>f0.
         if of_be16 f1 f0 AND 0x3FFF \<noteq> 0 then
           key_push [1] key (\<lambda>key. rd packet 4 (\<lambda>i1. rd packet 5 (\<lambda>i0. append16 (of_be16 i1 i0) key (\<lambda>key. Done (Inr key)))))
         else if protocol = 17 then udp_flow packet ihl key
         else if protocol = 50 then
           if length packet < ihl + 8 then Done (Inl MalformedData)
           else key_push [4] key (\<lambda>key. append32 packet ihl key (\<lambda>key. Done (Inr key)))
         else key_push [0] key (\<lambda>key. Done (Inr key))))))))))"

section \<open>Model: the flow table\<close>

record flow_entry =
  fe_key :: flow_key
  fe_last_used :: u64
  fe_used :: bool

record flow_table =
  ft_entries :: "flow_entry list"
  ft_clock :: u64
  ft_assignments :: u64
  ft_evictions :: u64
  ft_mapping_failures :: u64

record flow_assignment =
  fa_cid :: byte
  fa_newly_assigned :: bool
  fa_evicted :: bool

definition flow_table_new :: flow_table where
  "flow_table_new = \<lparr>ft_entries = replicate 16 \<lparr>fe_key = key_zero, fe_last_used = 0, fe_used = False\<rparr>,
     ft_clock = 0, ft_assignments = 0, ft_evictions = 0, ft_mapping_failures = 0\<rparr>"

fun find_entry :: "(flow_entry \<Rightarrow> bool) \<Rightarrow> flow_entry list \<Rightarrow> nat \<Rightarrow> nat option" where
  \<comment> \<open>the loops over \<open>entries_\<close> that stop at the first hit\<close>
  "find_entry hit [] cid = None"
| "find_entry hit (e # es) cid = (if hit e then Some cid else find_entry hit es (cid + 1))"

definition oldest_entry :: "flow_entry list \<Rightarrow> nat" where
  "oldest_entry es = foldl (\<lambda>selected cid. if fe_last_used (es ! cid) < fe_last_used (es ! selected) then cid else selected)
     0 [1..<length es]"

definition select_key :: "flow_table \<Rightarrow> flow_key \<Rightarrow> flow_assignment \<times> flow_table" where
  \<comment> \<open>\<open>FlowTable::select\<close> once the packet has a flow key\<close>
  "select_key t key =
     (let clock = ft_clock t + 1; t = t\<lparr>ft_clock := clock\<rparr>; es = ft_entries t in
      case find_entry (\<lambda>e. fe_used e \<and> key_equal (fe_key e) key) es 0 of
        Some cid \<Rightarrow> (\<lparr>fa_cid = of_nat cid, fa_newly_assigned = False, fa_evicted = False\<rparr>,
          t\<lparr>ft_entries := es[cid := (es ! cid)\<lparr>fe_last_used := clock\<rparr>]\<rparr>)
      | None \<Rightarrow>
          let (selected, evicted) = (case find_entry (\<lambda>e. \<not> fe_used e) es 0 of
                Some cid \<Rightarrow> (cid, False) | None \<Rightarrow> (oldest_entry es, True)) in
          (\<lparr>fa_cid = of_nat selected, fa_newly_assigned = True, fa_evicted = evicted\<rparr>,
           t\<lparr>ft_entries := es[selected := \<lparr>fe_key = key, fe_last_used = clock, fe_used = True\<rparr>],
             ft_evictions := ft_evictions t + (if evicted then 1 else 0), ft_assignments := ft_assignments t + 1\<rparr>))"

definition select :: "flow_table \<Rightarrow> bytes \<Rightarrow> ((tun_error + flow_assignment) \<times> flow_table) res" where
  "select t packet =
     seq_res (identify_flow packet) (\<lambda>parsed. case parsed of
       Inl e \<Rightarrow> Done (Inl e, t\<lparr>ft_mapping_failures := ft_mapping_failures t + 1\<rparr>)
     | Inr key \<Rightarrow> let (assignment, t) = select_key t key in Done (Inr assignment, t))"

definition active_contexts :: "flow_table \<Rightarrow> nat" where
  "active_contexts t = length (filter fe_used (ft_entries t))"

section \<open>Model: frames and feedback messages\<close>

definition tun_magic :: bytes where
  "tun_magic = [0x52, 0x48, 0x43, 0x54]"

definition envelope_size :: nat where
  "envelope_size = 8"

definition transport_version :: byte where
  "transport_version = 1"

definition feedback_payload_size :: nat where
  "feedback_payload_size = 5"

definition message_code :: "message_type \<Rightarrow> byte" where
  "message_code t = (case t of MtCompressed \<Rightarrow> 1 | MtFeedback \<Rightarrow> 2)"

definition known_type :: "byte \<Rightarrow> message_type option" where
  "known_type b = (if b = 1 then Some MtCompressed else if b = 2 then Some MtFeedback else None)"

definition encode_frame :: "message_type \<Rightarrow> bytes \<Rightarrow> nat \<Rightarrow> (tun_error + bytes) res" where
  "encode_frame t payload output_capacity =
     (if length payload > 0xFFFF \<or> output_capacity < envelope_size + length payload then Done (Inl Oversized)
      else put_all output_capacity [] tun_magic (\<lambda>out.
        put output_capacity out transport_version (\<lambda>out. put output_capacity out (message_code t) (\<lambda>out.
        put output_capacity out (of_nat (length payload div 256)) (\<lambda>out. put output_capacity out (of_nat (length payload)) (\<lambda>out.
        put_all output_capacity out payload (\<lambda>out. Done (Inr out))))))))"

definition decode_frame :: "bytes \<Rightarrow> (tun_error + message_type \<times> bytes) res" where
  "decode_frame datagram =
     (if length datagram < envelope_size \<or> take 4 datagram \<noteq> tun_magic then Done (Inl MalformedData)
      else rd datagram 4 (\<lambda>version. if version \<noteq> transport_version then Done (Inl UnknownVersion)
        else rd datagram 5 (\<lambda>t. case known_type t of
          None \<Rightarrow> Done (Inl UnknownType)
        | Some ty \<Rightarrow> rd datagram 6 (\<lambda>l1. rd datagram 7 (\<lambda>l0.
            let payload_len = unat l1 * 256 + unat l0 in
            if payload_len \<noteq> length datagram - envelope_size then Done (Inl MalformedData)
            else if ty = MtCompressed \<and> payload_len = 0 \<or> ty = MtFeedback \<and> payload_len \<noteq> feedback_payload_size
            then Done (Inl MalformedData)
            else copy_in datagram envelope_size payload_len (\<lambda>payload. Done (Inr (ty, payload))))))))"

definition encode_feedback :: "u32 \<Rightarrow> byte \<Rightarrow> nat \<Rightarrow> (tun_error + bytes) res" where
  "encode_feedback cid feedback_type output_capacity =
     (if output_capacity < feedback_payload_size \<or> cid > 15 \<or> feedback_type > 2 then Done (Inl InvalidArgument)
      else put_all output_capacity [] (be32 cid) (\<lambda>out. put output_capacity out feedback_type (\<lambda>out. Done (Inr out))))"

definition decode_feedback :: "bytes \<Rightarrow> (tun_error + u32 \<times> byte) res" where
  "decode_feedback payload =
     (if length payload \<noteq> feedback_payload_size then Done (Inl MalformedData)
      else rd payload 0 (\<lambda>a. rd payload 1 (\<lambda>b. rd payload 2 (\<lambda>c. rd payload 3 (\<lambda>d. rd payload 4 (\<lambda>feedback_type.
        let cid = of_be32 a b c d in
        Done (if cid \<le> 15 \<and> feedback_type \<le> 2 then Inr (cid, feedback_type) else Inl MalformedData)))))))"

section \<open>Model: codec and datagrams\<close>

record 's codec =
  cd_compress :: "('s \<Rightarrow> bytes \<Rightarrow> nat \<Rightarrow> bytes option \<times> 's) option"
  cd_decompress :: "('s \<Rightarrow> bytes \<Rightarrow> nat \<Rightarrow> bytes option \<times> 's) option"
  cd_feedback :: "('s \<Rightarrow> u32 \<Rightarrow> byte \<Rightarrow> 's) option"

definition prepare_compressed_datagram ::
    "'s codec \<Rightarrow> 's \<Rightarrow> bytes \<Rightarrow> nat \<Rightarrow> nat \<Rightarrow> nat \<Rightarrow> ((tun_error + bytes \<times> bytes) \<times> 's) res" where
  \<comment> \<open>the compressed packet and the datagram around it\<close>
  "prepare_compressed_datagram codec s packet maximum_packet_size compressed_capacity datagram_capacity =
     seq_res (validate_ipv4_packet packet maximum_packet_size) (\<lambda>validation. case validation of
       Inl e \<Rightarrow> Done (Inl e, s)
     | Inr _ \<Rightarrow> (case cd_compress codec of
         None \<Rightarrow> Done (Inl InvalidArgument, s)
       | Some run \<Rightarrow> (case run s packet compressed_capacity of
           (None, s) \<Rightarrow> Done (Inl CodecFailure, s)
         | (Some compressed, s) \<Rightarrow>
             if length compressed = 0 \<or> length compressed > compressed_capacity then Done (Inl CodecFailure, s)
             else seq_res (encode_frame MtCompressed compressed datagram_capacity) (\<lambda>framed. case framed of
               Inl e \<Rightarrow> Done (Inl e, s)
             | Inr datagram \<Rightarrow> Done (Inr (compressed, datagram), s)))))"

definition consume_datagram ::
    "'s codec \<Rightarrow> 's \<Rightarrow> bytes \<Rightarrow> nat \<Rightarrow> nat \<Rightarrow> ((tun_error + message_type \<times> bytes) \<times> 's) res" where
  \<comment> \<open>the type of the message and the packet, which is empty for feedback\<close>
  "consume_datagram codec s datagram maximum_packet_size packet_capacity =
     seq_res (decode_frame datagram) (\<lambda>decoded. case decoded of
       Inl e \<Rightarrow> Done (Inl e, s)
     | Inr (MtFeedback, payload) \<Rightarrow>
         seq_res (decode_feedback payload) (\<lambda>fb. case fb of
           Inl e \<Rightarrow> Done (Inl e, s)
         | Inr (cid, t) \<Rightarrow> (case cd_feedback codec of
             None \<Rightarrow> Done (Inl InvalidArgument, s)
           | Some deliver \<Rightarrow> Done (Inr (MtFeedback, []), deliver s cid t)))
     | Inr (MtCompressed, payload) \<Rightarrow> (case cd_decompress codec of
         None \<Rightarrow> Done (Inl InvalidArgument, s)
       | Some run \<Rightarrow> (case run s payload packet_capacity of
           (None, s) \<Rightarrow> Done (Inl CodecFailure, s)
         | (Some packet, s) \<Rightarrow>
             if length packet > packet_capacity then Done (Inl CodecFailure, s)
             else seq_res (validate_ipv4_packet packet maximum_packet_size) (\<lambda>validation. case validation of
               Inl e \<Rightarrow> Done (Inl e, s)
             | Inr _ \<Rightarrow> Done (Inr (MtCompressed, packet), s)))))"

section \<open>Flow keys\<close>

text \<open>Every key is a string of at most twenty octets in an array that is zero behind it.\<close>

definition key_of :: "bytes \<Rightarrow> flow_key" where
  "key_of bs = \<lparr>fk_bytes = bs @ replicate (20 - length bs) 0, fk_length = of_nat (length bs)\<rparr>"

definition key_octets :: "flow_key \<Rightarrow> bytes" where
  "key_octets key = take (unat (fk_length key)) (fk_bytes key)"

definition flow_of :: "bytes \<Rightarrow> tun_error + bytes" where
  "flow_of packet = (case identify_flow packet of Done (Inr key) \<Rightarrow> Inr (key_octets key) | Done (Inl e) \<Rightarrow> Inl e | _ \<Rightarrow> Inl InvalidArgument)"

lemma unat_short: "n \<le> 20 \<Longrightarrow> unat (of_nat n :: byte) = n"
  by (simp add: unat_of_nat take_bit_nat_eq_self)

lemma key_octets_of [simp]: "length bs \<le> 20 \<Longrightarrow> key_octets (key_of bs) = bs"
  by (simp add: key_octets_def key_of_def unat_short)

lemma key_equal_of:
  assumes short: "length a \<le> 20" "length b \<le> 20"
  shows "key_equal (key_of a) (key_of b) \<longleftrightarrow> a = b"
proof
  assume eq: "key_equal (key_of a) (key_of b)"
  then have "unat (of_nat (length a) :: byte) = unat (of_nat (length b) :: byte)" by (simp add: key_equal_def key_of_def)
  then have "length a = length b" using short by (simp add: unat_short)
  then show "a = b" using eq short by (simp add: key_equal_def key_of_def unat_short)
qed (simp add: key_equal_def)

lemma key_zero_of: "key_zero = key_of []"
  by (simp add: key_zero_def key_of_def)

lemma key_push_of [simp]:
  "length a + length bs \<le> 20 \<Longrightarrow> key_push bs (key_of a) k = k (key_of (a @ bs))"
  by (simp add: key_push_def key_of_def unat_short Let_def)

lemma append16_of [simp]: "length a + 2 \<le> 20 \<Longrightarrow> append16 v (key_of a) k = k (key_of (a @ be16 v))"
  by (simp add: append16_def)

lemma append32_of [simp]:
  "length a + 4 \<le> 20 \<Longrightarrow> i + 4 \<le> length p \<Longrightarrow> append32 p i (key_of a) k = k (key_of (a @ take 4 (drop i p)))"
  by (simp add: append32_def)

lemma key_of_update:
  "i < length bs \<Longrightarrow> (key_of bs)\<lparr>fk_bytes := (fk_bytes (key_of bs))[i := v]\<rparr> = key_of (bs[i := v])"
  by (simp add: key_of_def list_update_append)

definition gives_key :: "(tun_error + flow_key) res \<Rightarrow> bool" where
  "gives_key r \<longleftrightarrow> (\<exists>e. r = Done (Inl e)) \<or> (\<exists>bs. length bs \<le> 20 \<and> r = Done (Inr (key_of bs)))"

lemma gives_keyI [intro]: "gives_key (Done (Inl e))" "length bs \<le> 20 \<Longrightarrow> gives_key (Done (Inr (key_of bs)))"
  by (auto simp: gives_key_def)

lemma is_rtp_payload_total: "\<exists>b. is_rtp_payload payload = Done b \<and> (b \<longrightarrow> 12 \<le> length payload)"
proof (cases "length payload < 12")
  case False
  then have "payload \<noteq> []" by auto
  moreover have "\<exists>b. \<not> b" by blast
  ultimately show ?thesis using False by (simp add: is_rtp_payload_def rtp_extension_end_def Let_def)
qed (auto simp: is_rtp_payload_def)

lemma udp_flow_gives_key:
  assumes "length a = 9" and "ihl + 8 \<le> length packet \<or> ihl \<le> length packet"
  shows "gives_key (udp_flow packet ihl (key_of a))"
proof (cases "ihl + 8 \<le> length packet")
  case True
  obtain b where b: "is_rtp_payload (drop (ihl + 8) packet) = Done b" "b \<longrightarrow> 12 \<le> length (drop (ihl + 8) packet)"
    using is_rtp_payload_total by blast
  then show ?thesis using True assms(1)
    by (auto simp: udp_flow_def Let_def key_of_update not_less intro!: gives_keyI)
qed (auto simp: udp_flow_def)

lemma validate_total:
  "\<exists>v. validate_ipv4_packet packet n = Done v \<and> (v = Inr () \<longrightarrow> 20 \<le> length packet \<and> length packet \<le> n \<and>
     20 \<le> unat (packet ! 0 AND 0x0F) * 4 \<and> unat (packet ! 0 AND 0x0F) * 4 \<le> length packet)"
proof (cases "length packet < 20")
  case False
  then have "packet \<noteq> []" by auto
  with False show ?thesis by (simp add: validate_ipv4_packet_def Let_def)
qed (simp add: validate_ipv4_packet_def)

lemma validate_not_Fault: "validate_ipv4_packet packet n \<noteq> Fault"
  using validate_total [of packet n] by auto

lemma identify_flow_gives_key: "gives_key (identify_flow packet)"
proof -
  obtain v where v: "validate_ipv4_packet packet (length packet) = Done v"
    and ok: "v = Inr () \<longrightarrow> 20 \<le> length packet \<and> 20 \<le> unat (packet ! 0 AND 0x0F) * 4 \<and> unat (packet ! 0 AND 0x0F) * 4 \<le> length packet"
    using validate_total by blast
  show ?thesis
  proof (cases v)
    case (Inl e)
    then show ?thesis by (auto simp: identify_flow_def v)
  next
    case (Inr u)
    then have "packet \<noteq> []" using ok by auto
    then show ?thesis using ok Inr
      by (auto simp: identify_flow_def v Let_def key_zero_of intro!: gives_keyI udp_flow_gives_key)
  qed
qed

lemma flow_of_cases:
  obtains (error) e where "identify_flow packet = Done (Inl e)" "flow_of packet = Inl e"
  | (flow) bs where "length bs \<le> 20" "identify_flow packet = Done (Inr (key_of bs))" "flow_of packet = Inr bs"
  using identify_flow_gives_key [of packet] by (auto simp: gives_key_def flow_of_def)

section \<open>The flow table is a cache of the least recently used flows\<close>

text \<open>
  The specification: the flows that hold a CID, the one used last in front. A flow that holds none takes the next free CID
  or, when all are taken, the one of the flow at the end of the list.
\<close>

definition lru_use :: "bytes \<Rightarrow> (bytes \<times> nat) list \<Rightarrow> flow_assignment \<times> (bytes \<times> nat) list" where
  "lru_use f l =
     (case map_of l f of
        Some c \<Rightarrow> (\<lparr>fa_cid = of_nat c, fa_newly_assigned = False, fa_evicted = False\<rparr>, (f, c) # removeAll (f, c) l)
      | None \<Rightarrow> if length l < 16 then (\<lparr>fa_cid = of_nat (length l), fa_newly_assigned = True, fa_evicted = False\<rparr>, (f, length l) # l)
          else (\<lparr>fa_cid = of_nat (snd (last l)), fa_newly_assigned = True, fa_evicted = True\<rparr>, (f, snd (last l)) # butlast l))"

fun lru_all :: "(bytes \<times> nat) list \<Rightarrow> (tun_error + bytes) list \<Rightarrow> (tun_error + flow_assignment) list \<times> (bytes \<times> nat) list" where
  "lru_all l [] = ([], l)"
| "lru_all l (Inl e # fs) = (let (rs, l) = lru_all l fs in (Inl e # rs, l))"
| "lru_all l (Inr f # fs) = (let (a, l) = lru_use f l; (rs, l) = lru_all l fs in (Inr a # rs, l))"

fun select_all :: "flow_table \<Rightarrow> bytes list \<Rightarrow> ((tun_error + flow_assignment) list \<times> flow_table) res" where
  "select_all t [] = Done ([], t)"
| "select_all t (p # ps) = seq_res (select t p) (\<lambda>(r, t). seq_res (select_all t ps) (\<lambda>(rs, t). Done (r # rs, t)))"

definition cached :: "(bytes \<times> nat) list \<Rightarrow> bool" where
  "cached l \<longleftrightarrow> length l \<le> 16 \<and> distinct (map fst l) \<and> distinct (map snd l) \<and> snd ` set l = {..<length l}"

definition represents :: "flow_table \<Rightarrow> (bytes \<times> nat) list \<Rightarrow> bool" where
  "represents t l \<longleftrightarrow> cached l \<and> length (ft_entries t) = 16 \<and>
     (\<forall>i<16. fe_used (ft_entries t ! i) \<longleftrightarrow> i < length l) \<and>
     (\<forall>(f, c)\<in>set l. length f \<le> 20 \<and> fe_key (ft_entries t ! c) = key_of f \<and> fe_last_used (ft_entries t ! c) \<le> ft_clock t) \<and>
     sorted_wrt (\<lambda>(_, c) (_, d). fe_last_used (ft_entries t ! d) < fe_last_used (ft_entries t ! c)) l"

lemma find_entry_Some:
  "find_entry hit es n = Some i \<Longrightarrow> n \<le> i \<and> i < n + length es \<and> hit (es ! (i - n)) \<and> (\<forall>j<i - n. \<not> hit (es ! j))"
proof (induction es arbitrary: n)
  case (Cons e es)
  show ?case
  proof (cases "hit e")
    case False
    then have ih: "Suc n \<le> i \<and> i < Suc n + length es \<and> hit (es ! (i - Suc n)) \<and> (\<forall>j<i - Suc n. \<not> hit (es ! j))"
      using Cons.IH [of "Suc n"] Cons.prems by simp
    then obtain d where "i = Suc (n + d)" using less_eqE [of "Suc n" i] by auto
    with ih False show ?thesis by (auto simp: less_Suc_eq_0_disj)
  qed (use Cons.prems in auto)
qed simp

lemma find_entry_None: "find_entry hit es n = None \<longleftrightarrow> (\<forall>e\<in>set es. \<not> hit e)"
  by (induction es arbitrary: n) auto

lemma find_entry_unique:
  assumes "i < length es" and "hit (es ! i)" and "\<And>j. j < length es \<Longrightarrow> hit (es ! j) \<Longrightarrow> i \<le> j"
  shows "find_entry hit es 0 = Some i"
proof (cases "find_entry hit es 0")
  case None
  then show ?thesis using assms(1,2) by (auto simp: find_entry_None)
next
  case (Some j)
  then have "j < length es" "hit (es ! j)" "\<forall>k<j. \<not> hit (es ! k)" using find_entry_Some by fastforce+
  then show ?thesis using assms Some by (metis linorder_not_le order_antisym)
qed

lemma oldest_entry_least:
  assumes "es \<noteq> []"
  shows "oldest_entry es < length es \<and> (\<forall>i<length es. fe_last_used (es ! oldest_entry es) \<le> fe_last_used (es ! i))"
proof -
  let ?pick = "\<lambda>selected cid. if fe_last_used (es ! cid) < fe_last_used (es ! selected) then cid else selected"
  have "foldl ?pick 0 [1..<n] < n \<and> (\<forall>i<n. fe_last_used (es ! foldl ?pick 0 [1..<n]) \<le> fe_last_used (es ! i))" if "0 < n" for n
    using that
  proof (induction n)
    case (Suc n)
    then show ?case
      by (cases "n = 0") (auto simp: less_Suc_eq not_less dest: order.trans order.strict_implies_order)
  qed simp
  then show ?thesis using assms by (simp add: oldest_entry_def)
qed

lemma lru_use_evict:
  "l = r @ [(g, c)] \<Longrightarrow> length l = 16 \<Longrightarrow> map_of l f = None \<Longrightarrow>
   lru_use f l = (\<lparr>fa_cid = of_nat c, fa_newly_assigned = True, fa_evicted = True\<rparr>, (f, c) # r)"
  unfolding lru_use_def by (simp only: option.case) simp

lemma full_split:
  assumes "length l = (16 :: nat)"
  obtains r g c where "l = r @ [(g, c)]"
  using assms by (cases l rule: rev_exhaust) auto

lemma cached_lru_use:
  assumes "cached l"
  shows "cached (snd (lru_use f l))"
proof (cases "map_of l f")
  case None
  then have new: "f \<notin> fst ` set l" by (simp add: map_of_eq_None_iff)
  show ?thesis
  proof (cases "length l < 16")
    case True
    then show ?thesis using None new assms by (auto simp: lru_use_def cached_def lessThan_Suc)
  next
    case False
    then have full: "length l = 16" using assms by (simp add: cached_def)
    then obtain r g c where l: "l = r @ [(g, c)]" by (rule full_split)
    then show ?thesis using assms full new unfolding lru_use_evict [OF l full None] by (simp add: cached_def)
  qed
next
  case (Some c)
  then have mem: "(f, c) \<in> set l" by (rule map_of_SomeD)
  let ?l = "(f, c) # removeAll (f, c) l"
  have "distinct ?l" using assms distinct_map by (auto simp: cached_def intro: distinct_removeAll)
  moreover have set: "set ?l = set l" using mem by auto
  ultimately have "length ?l = length l" using assms by (metis cached_def distinct_card distinct_map)
  moreover have "distinct (map fst ?l)" "distinct (map snd ?l)"
    using assms mem \<open>distinct ?l\<close> set unfolding cached_def distinct_map by metis+
  ultimately show ?thesis using Some assms set by (simp add: lru_use_def cached_def del: removeAll.simps)
qed

lemma represents_hit:
  assumes "represents t l" and "length f \<le> 20" and "i < 16"
  shows "fe_used (ft_entries t ! i) \<and> key_equal (fe_key (ft_entries t ! i)) (key_of f) \<longleftrightarrow> (f, i) \<in> set l"
proof
  assume hit: "fe_used (ft_entries t ! i) \<and> key_equal (fe_key (ft_entries t ! i)) (key_of f)"
  then have "i \<in> snd ` set l" using assms(1,3) by (auto simp: represents_def cached_def)
  then obtain g where g: "(g, i) \<in> set l" by auto
  then have "fe_key (ft_entries t ! i) = key_of g" "length g \<le> 20" using assms(1) by (auto simp: represents_def)
  then show "(f, i) \<in> set l" using hit g assms(2) by (simp add: key_equal_of)
next
  assume mem: "(f, i) \<in> set l"
  then have "i \<in> snd ` set l" by force
  then have "i < length l" using assms(1) by (auto simp: represents_def cached_def)
  then show "fe_used (ft_entries t ! i) \<and> key_equal (fe_key (ft_entries t ! i)) (key_of f)"
    using assms mem by (auto simp: represents_def key_equal_of)
qed

lemma represents_front:
  assumes rep: "represents t l" and "cached ((f, c) # r)" and "length f \<le> 20" and "c < 16"
    and "set r \<subseteq> set l" and "\<And>i. i < 16 \<Longrightarrow> i < Suc (length r) \<longleftrightarrow> i < length l \<or> i = c"
    and sorted: "sorted_wrt (\<lambda>(_, c) (_, d). fe_last_used (ft_entries t ! d) < fe_last_used (ft_entries t ! c)) r"
    and later: "ft_clock t < ft_clock u" and entries: "ft_entries u = (ft_entries t)[c := \<lparr>fe_key = key_of f, fe_last_used = ft_clock u, fe_used = True\<rparr>]"
  shows "represents u ((f, c) # r)"
proof -
  have len: "length (ft_entries t) = 16" and es: "\<And>g d. (g, d) \<in> set r \<Longrightarrow> length g \<le> 20 \<and> fe_key (ft_entries t ! d) = key_of g \<and>
      fe_last_used (ft_entries t ! d) < ft_clock u"
    using rep assms(5) later by (auto simp: represents_def intro: order.strict_trans1 dest!: subsetD)
  have other: "(g, d) \<in> set r \<Longrightarrow> d \<noteq> c" for g d using assms(2) by (force simp: cached_def)
  have keep: "ft_entries u ! d = ft_entries t ! d" if "(g, d) \<in> set r" for g d using other [OF that] entries by simp
  have "sorted_wrt (\<lambda>(_, c) (_, d). fe_last_used (ft_entries u ! d) < fe_last_used (ft_entries u ! c)) r"
    by (rule sorted_wrt_mono_rel [OF _ sorted]) (auto simp: keep)
  moreover have "fe_used (ft_entries u ! i) \<longleftrightarrow> i < Suc (length r)" if "i < 16" for i
    using that rep assms(6) [OF that] entries by (cases "i = c") (auto simp: represents_def len)
  moreover have "ft_entries u ! c = \<lparr>fe_key = key_of f, fe_last_used = ft_clock u, fe_used = True\<rparr>" and "length (ft_entries u) = 16"
    using entries len assms(4) by simp_all
  moreover have "length g \<le> 20 \<and> fe_key (ft_entries u ! d) = key_of g \<and> fe_last_used (ft_entries u ! d) < ft_clock u"
    if "(g, d) \<in> set r" for g d using keep [OF that] es [OF that] by simp
  ultimately show ?thesis
    using assms(2,3) by (auto simp: represents_def less_imp_le)
qed

lemma select_key_lru:
  assumes rep: "represents t l" and f: "length f \<le> 20" and clock: "ft_clock t < ft_clock t + 1"
  shows "fst (select_key t (key_of f)) = fst (lru_use f l) \<and> represents (snd (select_key t (key_of f))) (snd (lru_use f l)) \<and>
    ft_clock (snd (select_key t (key_of f))) = ft_clock t + 1"
proof -
  let ?es = "ft_entries t" and ?hit = "\<lambda>e. fe_used e \<and> key_equal (fe_key e) (key_of f)"
  have len: "length ?es = 16" and ok: "cached l" using rep by (auto simp: represents_def)
  have sorted: "sorted_wrt (\<lambda>(_, c) (_, d). fe_last_used (?es ! d) < fe_last_used (?es ! c)) l" using rep by (simp add: represents_def)
  note hit = represents_hit [OF rep f]
  have ok': "cached (snd (lru_use f l))" by (rule cached_lru_use [OF ok])
  show ?thesis
  proof (cases "map_of l f")
    case (Some c)
    then have mem: "(f, c) \<in> set l" by (rule map_of_SomeD)
    then have "c \<in> snd ` set l" by force
    then have c: "c < length l" "c < 16" using ok by (auto simp: cached_def)
    have "find_entry ?hit ?es 0 = Some c"
    proof (rule find_entry_unique)
      fix j assume "j < length ?es" "?hit (?es ! j)"
      then have "(f, j) \<in> set l" using hit len by simp
      then show "c \<le> j" using mem ok by (metis cached_def eq_key_imp_eq_value order_refl)
    qed (use c len hit mem in simp_all)
    moreover have "fe_key (?es ! c) = key_of f" "fe_used (?es ! c)" using rep mem c by (auto simp: represents_def)
    moreover have "represents (snd (select_key t (key_of f))) ((f, c) # removeAll (f, c) l)"
    proof (rule represents_front [OF rep _ f c(2)])
      show "cached ((f, c) # removeAll (f, c) l)" using ok' Some by (simp add: lru_use_def)
      then have "length ((f, c) # removeAll (f, c) l) = length l"
        using ok mem by (metis cached_def distinct_card distinct_map insert_Diff list.simps(15) set_removeAll)
      then show "i < Suc (length (removeAll (f, c) l)) \<longleftrightarrow> i < length l \<or> i = c" for i using c by auto
    qed (use sorted clock calculation flow_entry.surjective [of "?es ! c"] in \<open>auto simp: select_key_def Let_def removeAll_filter_not_eq sorted_wrt_filter intro!: arg_cong [where f = "list_update ?es c"]\<close>)
    ultimately show ?thesis using Some by (simp add: select_key_def lru_use_def Let_def)
  next
    case None
    then have "\<not> ?hit (?es ! i)" if "i < 16" for i using hit [OF that] by (force simp: map_of_eq_None_iff)
    then have none: "find_entry ?hit ?es 0 = None" using len by (auto simp: find_entry_None in_set_conv_nth)
    show ?thesis
    proof (cases "length l < 16")
      case True
      have unused: "find_entry (\<lambda>e. \<not> fe_used e) ?es 0 = Some (length l)"
        by (rule find_entry_unique) (use True len rep in \<open>auto simp: represents_def\<close>)
      have "represents (snd (select_key t (key_of f))) ((f, length l) # l)"
        by (rule represents_front [OF rep _ f True])
          (use ok' None True sorted clock none unused in \<open>auto simp: lru_use_def select_key_def Let_def\<close>)
      then show ?thesis using None True none unused by (simp add: select_key_def lru_use_def Let_def)
    next
      case False
      then have full: "length l = 16" using ok by (simp add: cached_def)
      have "\<forall>e\<in>set ?es. fe_used e" using rep full len by (auto simp: represents_def in_set_conv_nth)
      then have unused: "find_entry (\<lambda>e. \<not> fe_used e) ?es 0 = None" by (simp add: find_entry_None)
      obtain r g c where l: "l = r @ [(g, c)]" using full by (rule full_split)
      note use = lru_use_evict [OF l full None]
      have c: "c < 16" using ok full l by (auto simp: cached_def)
      have old: "oldest_entry ?es = c"
      proof (rule ccontr)
        assume ne: "oldest_entry ?es \<noteq> c"
        have least: "oldest_entry ?es < 16" "fe_last_used (?es ! oldest_entry ?es) \<le> fe_last_used (?es ! c)"
          using oldest_entry_least [of ?es] len c by (metis (no_types) list.size(3) zero_neq_numeral)+
        then have "oldest_entry ?es \<in> snd ` set l" using ok full by (simp add: cached_def)
        then obtain h where "(h, oldest_entry ?es) \<in> set r" using ne l by auto
        then show False using sorted l least by (auto simp: sorted_wrt_append)
      qed
      have "cached ((f, c) # r)" using ok' by (simp add: use)
      then have "represents (snd (select_key t (key_of f))) ((f, c) # r)"
        by (rule represents_front [OF rep _ f c])
          (use sorted clock none unused old full l c in \<open>auto simp: select_key_def Let_def sorted_wrt_append\<close>)
      then show ?thesis using none unused old by (simp add: use select_key_def Let_def)
    qed
  qed
qed

lemma lru_all_append:
  "lru_all l (fs @ gs) = (let (rs, l) = lru_all l fs; (ss, l) = lru_all l gs in (rs @ ss, l))"
  by (induction l fs rule: lru_all.induct) (auto simp: Let_def split: prod.splits)

lemma cached_lru_all: "cached l \<Longrightarrow> cached (snd (lru_all l fs))"
proof (induction l fs rule: lru_all.induct)
  case (3 l f fs)
  then show ?case using cached_lru_use [of l f] by (auto split: prod.splits)
qed (auto split: prod.splits)

lemma select_all_lru:
  assumes "represents t l" and "unat (ft_clock t) + length ps < 2 ^ 64"
  shows "\<exists>u. select_all t ps = Done (fst (lru_all l (map flow_of ps)), u) \<and> represents u (snd (lru_all l (map flow_of ps)))"
  using assms
proof (induction ps arbitrary: t l)
  case (Cons p ps)
  show ?case
  proof (cases rule: flow_of_cases [of p])
    case (error e)
    let ?t = "t\<lparr>ft_mapping_failures := ft_mapping_failures t + 1\<rparr>"
    have "represents ?t l" using Cons.prems by (simp add: represents_def)
    then show ?thesis using Cons.IH [of ?t l] Cons.prems error by (auto simp: select_def split: prod.splits)
  next
    case (flow f)
    have next_clock: "unat (ft_clock t + 1) = Suc (unat (ft_clock t))" using Cons.prems by (simp add: unat_add_nowrap)
    then have "ft_clock t < ft_clock t + 1" by (simp add: word_less_nat_alt)
    note step = select_key_lru [OF Cons.prems(1) flow(1) this]
    obtain a u where u: "select_key t (key_of f) = (a, u)" by (cases "select_key t (key_of f)")
    obtain b m where m: "lru_use f l = (b, m)" by (cases "lru_use f l")
    have "represents u m" "ft_clock u = ft_clock t + 1" "a = b" using step u m by auto
    then show ?thesis using Cons.IH [of u m] Cons.prems next_clock flow u m by (auto simp: select_def split: prod.splits)
  qed
qed simp

lemma flow_table_new_represents: "represents flow_table_new []"
  by (simp add: represents_def cached_def flow_table_new_def)

lemma represents_active:
  assumes "represents t l"
  shows "active_contexts t = length l"
proof -
  have "length l \<le> 16" "length (ft_entries t) = 16" "\<And>i. i < 16 \<Longrightarrow> fe_used (ft_entries t ! i) \<longleftrightarrow> i < length l"
    using assms by (auto simp: represents_def cached_def)
  then have "{i. i < length (ft_entries t) \<and> fe_used (ft_entries t ! i)} = {..<length l}" by auto
  then show ?thesis by (simp add: active_contexts_def length_filter_conv_card)
qed

text \<open>
  C16. The flow table refines the cache of the least recently used flows. From an empty table and for every sequence of
  fewer than \<open>2 ^ 64\<close> packets of any octets, \<open>select\<close> returns, without leaving a packet or a flow key, exactly the
  assignments of the specification: a flow keeps its CID, a new flow takes a free one, and only with all sixteen taken it
  takes that of the flow whose last packet is oldest. No two flows hold the same CID.
\<close>

theorem flow_table_lru:
  assumes "length ps < 2 ^ 64"
  shows "\<exists>t. select_all flow_table_new ps = Done (fst (lru_all [] (map flow_of ps)), t) \<and>
    active_contexts t = length (snd (lru_all [] (map flow_of ps))) \<and>
    active_contexts t \<le> 16 \<and> distinct (map fst (snd (lru_all [] (map flow_of ps)))) \<and> distinct (map snd (snd (lru_all [] (map flow_of ps))))"
proof -
  obtain t where "select_all flow_table_new ps = Done (fst (lru_all [] (map flow_of ps)), t)"
      and rep: "represents t (snd (lru_all [] (map flow_of ps)))"
    using select_all_lru [OF flow_table_new_represents, of ps] assms by (auto simp: flow_table_new_def)
  then show ?thesis using represents_active [OF rep] by (auto simp: represents_def cached_def)
qed

definition example_ip :: bytes where
  "example_ip = [0x45, 0, 0, 20, 0, 0, 0, 0, 64, 1, 0, 0, 10, 0, 0, 1, 10, 0, 0, 2]"

lemma example_flow: "flow_of example_ip = Inr [10, 0, 0, 1, 10, 0, 0, 2, 1, 0]"
  by code_simp

theorem flow_table_lru_witness:
  "\<exists>t. select_all flow_table_new [example_ip, [0x60], example_ip] =
     Done ([Inr \<lparr>fa_cid = 0, fa_newly_assigned = True, fa_evicted = False\<rparr>, Inl InvalidArgument,
            Inr \<lparr>fa_cid = 0, fa_newly_assigned = False, fa_evicted = False\<rparr>], t) \<and> active_contexts t = 1"
proof -
  have "flow_of [0x60] = Inl InvalidArgument" by code_simp
  then show ?thesis using flow_table_lru [of "[example_ip, [0x60], example_ip]"] by (simp add: example_flow lru_use_def) blast
qed

definition recent :: "bytes \<Rightarrow> nat \<Rightarrow> bytes set \<Rightarrow> (bytes \<times> nat) list \<Rightarrow> bool" where
  "recent f c S l \<longleftrightarrow> (\<exists>a b. l = a @ (f, c) # b \<and> fst ` set a \<subseteq> S)"

lemma recentI: "l = a @ (f, c) # b \<Longrightarrow> fst ` set a \<subseteq> S \<Longrightarrow> recent f c S l"
  by (auto simp: recent_def)

lemma recent_Cons [simp]: "recent f c S ((f, c) # l)"
  by (rule recentI [of _ "[]"]) auto

lemma recent_lru_use:
  assumes ok: "cached l" and recent: "recent f c S l" and S: "finite S" "card S < 16" and g: "g \<in> insert f S"
  shows "recent f c S (snd (lru_use g l))"
proof -
  obtain a b where l: "l = a @ (f, c) # b" and a: "fst ` set a \<subseteq> S" using recent by (auto simp: recent_def)
  show ?thesis
  proof (cases "map_of l g")
    case (Some d)
    then have use: "snd (lru_use g l) = (g, d) # removeAll (g, d) l" by (simp add: lru_use_def)
    show ?thesis
    proof (cases "g = f")
      case True
      then have "(f, d) \<in> set l" "(f, c) \<in> set l" using Some l by (auto dest: map_of_SomeD)
      then have "d = c" using ok by (metis cached_def eq_key_imp_eq_value)
      then show ?thesis using True use by simp
    next
      case False
      then have "removeAll (g, d) l = removeAll (g, d) a @ (f, c) # removeAll (g, d) b" by (simp add: l)
      then have "snd (lru_use g l) = ((g, d) # removeAll (g, d) a) @ (f, c) # removeAll (g, d) b" using use by simp
      then show ?thesis by (rule recentI) (use a g False in auto)
    qed
  next
    case None
    then have new: "g \<notin> fst ` set l" by (simp add: map_of_eq_None_iff)
    then have "g \<in> S" using g l by auto
    show ?thesis
    proof (cases "length l < 16")
      case True
      then have "snd (lru_use g l) = (g, length l) # l" using None by (simp add: lru_use_def)
      then have "snd (lru_use g l) = ((g, length l) # a) @ (f, c) # b" by (simp add: l)
      then show ?thesis by (rule recentI) (use a \<open>g \<in> S\<close> in auto)
    next
      case False
      have "b \<noteq> []"
      proof
        assume "b = []"
        then have "card (insert g (fst ` set a)) = 16"
          using l False ok new by (simp add: cached_def card_image distinct_map) (metis distinct_card)
        moreover have "insert g (fst ` set a) \<subseteq> S" using a \<open>g \<in> S\<close> by simp
        ultimately show False using S card_mono by (metis not_less)
      qed
      moreover have "snd (lru_use g l) = (g, snd (last l)) # butlast l" using None False by (simp add: lru_use_def)
      ultimately have "snd (lru_use g l) = ((g, snd (last l)) # a) @ (f, c) # butlast b" by (simp add: l butlast_append)
      then show ?thesis by (rule recentI) (use a \<open>g \<in> S\<close> in auto)
    qed
  qed
qed

lemma recent_lru_all:
  assumes "cached l" and "recent f c S l" and "finite S" and "card S < 16" and "\<And>g. Inr g \<in> set fs \<Longrightarrow> g \<in> insert f S"
  shows "recent f c S (snd (lru_all l fs))"
  using assms
proof (induction l fs rule: lru_all.induct)
  case (3 l g fs)
  obtain b m where m: "lru_use g l = (b, m)" by (cases "lru_use g l")
  have "cached m" "recent f c S m" using cached_lru_use [of l g] recent_lru_use [of l f c S g] 3 m by auto
  then show ?case using 3 m by (auto split: prod.splits)
qed (auto split: prod.splits)

lemma recent_use_front:
  "\<exists>c. fa_cid (fst (lru_use f l)) = of_nat c \<and> recent f c S (snd (lru_use f l))"
proof (cases "map_of l f")
  case None
  then show ?thesis by (cases "length l < 16") (simp_all add: lru_use_def, (rule exI, rule conjI [OF refl recent_Cons])+)
next
  case (Some c)
  then show ?thesis by (auto simp: lru_use_def intro: exI [of _ c])
qed

lemma recent_reuse:
  assumes "cached l" and "recent f c S l"
  shows "fst (lru_use f l) = \<lparr>fa_cid = of_nat c, fa_newly_assigned = False, fa_evicted = False\<rparr>"
proof -
  have "map_of l f = Some c" using assms by (auto simp: recent_def cached_def)
  then show ?thesis by (simp add: lru_use_def)
qed

text \<open>
  C17. A flow keeps its CID. Whatever packets came before, the flow of a packet \<open>p\<close> is found again under the same CID by a later
  packet of the same flow as long as packets of fewer than sixteen other flows lie between the two.
\<close>

theorem flow_keeps_cid:
  assumes "flow_of p = Inr f" and "flow_of q = Inr f" and "card {g. g \<noteq> f \<and> (\<exists>x\<in>set between. flow_of x = Inr g)} < 16"
    and "length before + length between + 2 < 2 ^ 64"
  shows "\<exists>rs a ss t. select_all flow_table_new (before @ p # between @ [q]) =
      Done (rs @ Inr a # ss @ [Inr \<lparr>fa_cid = fa_cid a, fa_newly_assigned = False, fa_evicted = False\<rparr>], t) \<and>
    length rs = length before \<and> length ss = length between"
proof -
  let ?S = "{g. g \<noteq> f \<and> (\<exists>x\<in>set between. flow_of x = Inr g)}"
  obtain rs l where l: "lru_all [] (map flow_of before) = (rs, l)" by (cases "lru_all [] (map flow_of before)")
  obtain a m where m: "lru_use f l = (a, m)" by (cases "lru_use f l")
  obtain ss n where n: "lru_all m (map flow_of between) = (ss, n)" by (cases "lru_all m (map flow_of between)")
  have len: "length (fst (lru_all l fs)) = length fs" for l fs
    by (induction l fs rule: lru_all.induct) (auto split: prod.splits)
  have "cached l" using cached_lru_all [of "[]" "map flow_of before"] l by (simp add: cached_def)
  moreover have "cached m" using cached_lru_use [OF calculation, of f] m by simp
  moreover obtain c where c: "fa_cid a = of_nat c" "recent f c ?S m" using recent_use_front [of f l ?S] m by auto
  moreover have "finite ?S" by (rule finite_subset [of _ "projr ` flow_of ` set between"]) (force simp: image_iff, simp)
  ultimately have "recent f c ?S n" using recent_lru_all [of m f c ?S "map flow_of between"] assms(3) n by force
  moreover have "cached n" using cached_lru_all [OF \<open>cached m\<close>, of "map flow_of between"] n by simp
  ultimately have q: "fst (lru_use f n) = \<lparr>fa_cid = fa_cid a, fa_newly_assigned = False, fa_evicted = False\<rparr>"
    using c recent_reuse by simp
  have "fst (lru_all [] (map flow_of (before @ p # between @ [q]))) =
      rs @ Inr a # ss @ [Inr \<lparr>fa_cid = fa_cid a, fa_newly_assigned = False, fa_evicted = False\<rparr>]"
    using assms(1,2) l m n q by (cases "lru_use f n") (simp add: lru_all_append)
  moreover have "\<exists>t. select_all flow_table_new (before @ p # between @ [q]) = Done (fst (lru_all [] (map flow_of (before @ p # between @ [q]))), t)"
    using select_all_lru [OF flow_table_new_represents, of "before @ p # between @ [q]"] assms(4) by (auto simp: flow_table_new_def)
  ultimately show ?thesis using len [of "[]" "map flow_of before"] len [of m "map flow_of between"] l n by auto
qed

theorem flow_keeps_cid_witness:
  "\<exists>rs a ss t. select_all flow_table_new ([] @ example_ip # [[0x60]] @ [example_ip]) =
     Done (rs @ Inr a # ss @ [Inr \<lparr>fa_cid = fa_cid a, fa_newly_assigned = False, fa_evicted = False\<rparr>], t) \<and>
     length rs = length ([] :: bytes list) \<and> length ss = length [[0x60 :: byte]]"
proof -
  have "flow_of [0x60] = Inl InvalidArgument" by code_simp
  then show ?thesis
    by (intro flow_keeps_cid [of example_ip _ example_ip "[[0x60]]" "[]", OF example_flow example_flow]) simp_all
qed

section \<open>Frames\<close>

definition frame_octets :: "message_type \<Rightarrow> bytes \<Rightarrow> bytes" where
  "frame_octets t payload = tun_magic @ [transport_version, message_code t, of_nat (length payload div 256), of_nat (length payload)] @ payload"

definition frame_ok :: "message_type \<Rightarrow> bytes \<Rightarrow> bool" where
  "frame_ok t payload \<longleftrightarrow> length payload \<le> 0xFFFF \<and> (case t of MtCompressed \<Rightarrow> payload \<noteq> [] | MtFeedback \<Rightarrow> length payload = 5)"

lemmas frame_defs = tun_magic_def envelope_size_def transport_version_def feedback_payload_size_def

lemma encode_frame_eq:
  "encode_frame t payload cap =
     Done (if length payload \<le> 0xFFFF \<and> 8 + length payload \<le> cap then Inr (frame_octets t payload) else Inl Oversized)"
  by (simp add: encode_frame_def frame_octets_def frame_defs)

lemma known_type_code: "known_type b = Some t \<longleftrightarrow> b = message_code t"
  by (cases t) (auto simp: known_type_def message_code_def)

lemma length_octets:
  assumes "n \<le> 0xFFFF"
  shows "unat (of_nat (n div 256) :: byte) * 256 + unat (of_nat n :: byte) = n"
proof -
  have "n div 256 < 256" using assms by (simp add: div_less_iff_less_mult)
  then show ?thesis by (simp add: unat_of_nat take_bit_eq_mod)
qed

lemma octets_length: "of_nat ((unat a * 256 + unat b) div 256) = (a :: byte)" "of_nat (unat a * 256 + unat b) = (b :: byte)"
proof -
  have "(unat a * 256 + unat b) div 256 = unat a" by (simp add: div_add1_eq)
  then show "of_nat ((unat a * 256 + unat b) div 256) = a" by simp
  have "(256 :: byte) = 0" by simp
  then have "of_nat (unat a) * of_nat 256 = (0 :: byte)" by (simp only: of_nat_numeral mult_zero_right)
  then show "of_nat (unat a * 256 + unat b) = b" by (simp only: of_nat_add of_nat_mult) simp
qed

lemma decode_frame_iff: "decode_frame d = Done (Inr (t, payload)) \<longleftrightarrow> frame_ok t payload \<and> d = frame_octets t payload"
proof
  assume dec: "decode_frame d = Done (Inr (t, payload))"
  then have len: "8 \<le> length d" and magic: "take 4 d = tun_magic"
    by (auto simp: decode_frame_def frame_defs split: if_splits)
  have d: "d = take 4 d @ [d ! 4, d ! 5, d ! 6, d ! 7] @ drop 8 d"
    using len Cons_nth_drop_Suc [of 4 d] Cons_nth_drop_Suc [of 5 d] Cons_nth_drop_Suc [of 6 d] Cons_nth_drop_Suc [of 7 d]
      append_take_drop_id [of 4 d] by simp
  have "length d - 8 \<le> 0xFFFF" if "unat (d ! 6) * 256 + unat (d ! 7) = length d - 8"
    using that unat_byte_less [of "d ! 6"] unat_byte_less [of "d ! 7"] by linarith
  then have "frame_ok t payload \<and> d ! 4 = transport_version \<and> d ! 5 = message_code t \<and> payload = drop 8 d \<and>
      length payload = unat (d ! 6) * 256 + unat (d ! 7)"
    using dec len magic
    by (cases t) (auto simp: decode_frame_def frame_defs frame_ok_def Let_def known_type_code
        split: if_splits option.splits)
  then have "frame_ok t payload" and "d ! 4 = transport_version" "d ! 5 = message_code t" "payload = drop 8 d"
    and n: "length payload = unat (d ! 6) * 256 + unat (d ! 7)" by auto
  moreover have "frame_octets t payload = tun_magic @ [transport_version, message_code t, d ! 6, d ! 7] @ payload"
    unfolding frame_octets_def n octets_length ..
  ultimately show "frame_ok t payload \<and> d = frame_octets t payload" using d magic by metis
next
  assume ok: "frame_ok t payload \<and> d = frame_octets t payload"
  then have "unat (of_nat (length payload div 256) :: byte) * 256 + unat (of_nat (length payload) :: byte) = length payload"
    using length_octets by (simp add: frame_ok_def)
  then show "decode_frame d = Done (Inr (t, payload))"
    using ok known_type_code [of "message_code t" t]
    by (cases t) (auto simp: decode_frame_def frame_octets_def frame_defs frame_ok_def Let_def)
qed

lemma decode_frame_total: "decode_frame d \<noteq> Fault" "decode_frame d \<noteq> Reject"
  by (auto simp: decode_frame_def frame_defs Let_def split: option.splits)

lemma decode_feedback_total: "decode_feedback d \<noteq> Fault" "decode_feedback d \<noteq> Reject"
  by (auto simp: decode_feedback_def frame_defs Let_def)

text \<open>
  C18. The envelope. \<open>encode_frame\<close> writes a frame of either type exactly when the payload has at most 65535 octets and fits the
  output with eight octets of envelope, and \<open>decode_frame\<close> reads only octets of the datagram and accepts exactly these
  frames, for a non-empty packet or a feedback message of five octets, with their type. A packet that the codec of the receiver
  restores from what the codec of the sender made of it is therefore delivered: \<open>prepare_compressed_datagram\<close> frames it and
  \<open>consume_datagram\<close> of that datagram returns the packet. A feedback message that \<open>encode_feedback\<close> and \<open>encode_frame\<close> have
  written reaches the codec with its CID and type.
\<close>

theorem tunnel_delivers:
  assumes "validate_ipv4_packet packet maximum = Done (Inr ())" and "cd_compress codec = Some squeeze" and "cd_decompress codec = Some expand"
    and "squeeze s packet compressed_cap = (Some z, s')" and "z \<noteq> []" and "length z \<le> compressed_cap" and "length z \<le> 0xFFFF"
    and "8 + length z \<le> datagram_cap" and "expand r z packet_cap = (Some packet, r')" and "length packet \<le> packet_cap"
    and "cd_feedback codec = Some deliver" and "cid \<le> 15" and "fb \<le> 2"
  shows "prepare_compressed_datagram codec s packet maximum compressed_cap datagram_cap = Done (Inr (z, frame_octets MtCompressed z), s') \<and>
    consume_datagram codec r (frame_octets MtCompressed z) maximum packet_cap = Done (Inr (MtCompressed, packet), r') \<and>
    (\<exists>d. encode_feedback cid fb 5 = Done (Inr (be32 cid @ [fb])) \<and> encode_frame MtFeedback (be32 cid @ [fb]) 13 = Done (Inr d) \<and>
       d = frame_octets MtFeedback (be32 cid @ [fb]) \<and>
       consume_datagram codec r d maximum packet_cap = Done (Inr (MtFeedback, []), deliver r cid fb)) \<and>
    (\<forall>d t p cap. encode_frame t p cap = Done (Inr d) \<longleftrightarrow> length p \<le> 0xFFFF \<and> 8 + length p \<le> cap \<and> d = frame_octets t p) \<and>
    (\<forall>d t p. decode_frame d = Done (Inr (t, p)) \<longleftrightarrow> frame_ok t p \<and> d = frame_octets t p) \<and>
    (\<forall>d. consume_datagram codec r d maximum packet_cap \<noteq> Fault)"
proof (intro conjI allI)
  have z: "decode_frame (frame_octets MtCompressed z) = Done (Inr (MtCompressed, z))"
    using assms(5,7) by (simp add: decode_frame_iff frame_ok_def)
  have f: "decode_frame (frame_octets MtFeedback (be32 cid @ [fb])) = Done (Inr (MtFeedback, be32 cid @ [fb]))"
    by (simp add: decode_frame_iff frame_ok_def)
  show "prepare_compressed_datagram codec s packet maximum compressed_cap datagram_cap = Done (Inr (z, frame_octets MtCompressed z), s')"
    using assms(1,2,4-8) by (simp add: prepare_compressed_datagram_def encode_frame_eq)
  show "consume_datagram codec r (frame_octets MtCompressed z) maximum packet_cap = Done (Inr (MtCompressed, packet), r')"
    using assms(1,3,9,10) z by (simp add: consume_datagram_def)
  have "encode_feedback cid fb 5 = Done (Inr (be32 cid @ [fb]))"
    using assms(12,13) by (simp add: encode_feedback_def frame_defs not_less)
  moreover have "consume_datagram codec r (frame_octets MtFeedback (be32 cid @ [fb])) maximum packet_cap = Done (Inr (MtFeedback, []), deliver r cid fb)"
    using assms(11-13) f by (simp add: consume_datagram_def decode_feedback_def frame_defs Let_def nth_append)
  ultimately show "\<exists>d. encode_feedback cid fb 5 = Done (Inr (be32 cid @ [fb])) \<and> encode_frame MtFeedback (be32 cid @ [fb]) 13 = Done (Inr d) \<and>
      d = frame_octets MtFeedback (be32 cid @ [fb]) \<and> consume_datagram codec r d maximum packet_cap = Done (Inr (MtFeedback, []), deliver r cid fb)"
    by (simp add: encode_frame_eq)
  show "encode_frame t p cap = Done (Inr d) \<longleftrightarrow> length p \<le> 0xFFFF \<and> 8 + length p \<le> cap \<and> d = frame_octets t p" for d t p cap
    by (auto simp: encode_frame_eq split: if_splits)
  show "consume_datagram codec r d maximum packet_cap \<noteq> Fault" for d
    unfolding consume_datagram_def
    using decode_frame_total [of d] decode_feedback_total validate_not_Fault
    by (auto simp: seq_res_eq_Fault split: sum.splits option.splits prod.splits message_type.splits if_splits)
qed (rule decode_frame_iff)

definition plain_codec :: "unit codec" where
  "plain_codec = \<lparr>cd_compress = Some (\<lambda>s p cap. (if length p \<le> cap then Some p else None, s)),
     cd_decompress = Some (\<lambda>s p cap. (if length p \<le> cap then Some p else None, s)), cd_feedback = Some (\<lambda>s cid t. s)\<rparr>"

theorem tunnel_delivers_witness:
  "prepare_compressed_datagram plain_codec () example_ip 1500 1500 1500 = Done (Inr (example_ip, frame_octets MtCompressed example_ip), ()) \<and>
   consume_datagram plain_codec () (frame_octets MtCompressed example_ip) 1500 1500 = Done (Inr (MtCompressed, example_ip), ())"
proof -
  have "validate_ipv4_packet example_ip 1500 = Done (Inr ())" by code_simp
  then show ?thesis
    using tunnel_delivers [of example_ip 1500 plain_codec "\<lambda>s p cap. (if length p \<le> cap then Some p else None, s)"
        "\<lambda>s p cap. (if length p \<le> cap then Some p else None, s)" "()" 1500 example_ip "()" 1500 "()" 1500 "()" "\<lambda>s cid t. s" 0 0]
    by (simp add: plain_codec_def example_ip_def)
qed

end
