(* ===== verification/Spec2Isabelle.thy ===== *)
theory Spec2Isabelle
  imports Crc Cid Bits Lsb Lists Protocols Context FormalCo FormalCoPt0 Feedback FeedbackWire Lla PacketType AssistedLink FoPrivate
    FoRtp Ppp RohcOIpsec CApiRebuild CApiIrLink Tunnel
begin

text \<open>
  \<^bold>\<open>A verification development for rohccxx\<close>, a C++ implementation of Robust Header Compression (RFC 3095, RFC 5225,
  RFC 5795) with link-layer assistance (RFC 3242, RFC 3408, RFC 4362), PPP negotiation (RFC 3241) and ROHC over IPsec
  (RFC 5856 to RFC 5858).

  \<^bold>\<open>The program.\<close> A compressor turns IP packets into short packets that refer to a context; a decompressor keeps the same
  context and rebuilds the packets. The headers under \<open>include/rohccxx\<close> hold the codecs: checksums, bit fields, LSB
  encodings, header chains, and one emitter and one decoder per packet format. Two layers put them together. The classes
  of \<open>src/core\<close> (\<open>Compressor\<close>, \<open>Decompressor\<close>) handle one RTP flow per object. The C interface of
  \<open>src/c_api/rohc_c_api.cpp\<close> handles all profiles, context identifiers, compact packets, segmentation, feedback and integrity
  protection. \<open>examples/linux_tun_tunnel\<close> is a tunnel on top of the C interface.

  \<^bold>\<open>Theories and sources\<close>, each theory importing the ones it calls:
  \<^item> \<open>Prelude\<close>: machine words, the outcome type \<open>res\<close>, checked memory access, the calculi \<open>safe\<close> and \<open>returns\<close> that follow the
    control flow of an operation, big-endian octets, and the locale \<open>prefix_codec\<close> of an encoder with its decoder.
  \<^item> \<open>Crc\<close> (\<open>utils/crc.hpp\<close>), \<open>Cid\<close> (\<open>core/cid.hpp\<close>), \<open>Bits\<close> (\<open>bit_reader.hpp\<close>, \<open>bit_writer.hpp\<close>, \<open>bit_crc.hpp\<close>), \<open>Lsb\<close> and
    \<open>Lists\<close> (\<open>lsb_window.hpp\<close>, \<open>encoding_methods.hpp\<close>), \<open>Protocols\<close> (\<open>protocols/*.hpp\<close>, \<open>wire/*.hpp\<close>).
  \<^item> \<open>Context\<close>: \<open>context.hpp\<close>, \<open>context_table.hpp\<close>, \<open>context_init.hpp\<close>, \<open>context_crc.hpp\<close>, \<open>profile.hpp\<close>; the record
    \<open>rohc_context\<close> has one field per member, the table is a store of contexts (locale \<open>entry_store\<close>).
  \<^item> \<open>Chains\<close>, \<open>IrEmit\<close>, \<open>IrDecode\<close>, \<open>IrDynDecode\<close>, \<open>IrRoundtrip\<close>: \<open>rfc5225_chains.hpp\<close>, \<open>emit_ir.hpp\<close>, \<open>emit_ir_dyn.hpp\<close>,
    \<open>decode_ir.hpp\<close>, \<open>decode_ir_dyn.hpp\<close>.
  \<^item> \<open>FormalCo\<close>, \<open>FormalCoPt0\<close>: the compressed packets of RFC 5225 in \<open>formal_co.hpp\<close>. \<open>FoPrivate\<close>, \<open>FoRtp\<close>: the first-order
    packets of the library's own formats.
  \<^item> \<open>Feedback\<close>, \<open>FeedbackWire\<close> (\<open>feedback.hpp\<close>), \<open>Lla\<close> (\<open>lla.hpp\<close>), \<open>Ppp\<close> (\<open>ppp.hpp\<close>), \<open>Sha256\<close> and \<open>RohcOIpsec\<close>
    (\<open>rohcoipsec.hpp\<close>), \<open>PacketType\<close> (\<open>classify.hpp\<close>, \<open>packet_type.hpp\<close>, \<open>segment.hpp\<close>, \<open>emit_uncompressed.hpp\<close>).
  \<^item> \<open>Endpoint\<close>, \<open>EndToEnd\<close>, \<open>AssistedLink\<close>: \<open>src/core/compressor.cpp\<close> and \<open>decompressor.cpp\<close>, the two objects joined by a
    channel that loses, repeats, reorders and injects packets (an inductive step relation), and headerless packets.
  \<^item> \<open>CApiPackets\<close>, \<open>CApiRebuild\<close>, \<open>CApiPredicates\<close>, \<open>CApiConfig\<close>, \<open>CApiState\<close>, \<open>CApiCompress\<close>, \<open>CApiDecompress\<close>:
    \<open>src/c_api/rohc_c_api.cpp\<close> and \<open>rohccxx.h\<close>, from the packet images and the decisions to the records behind the handles,
    \<open>rohc_compress4\<close> and \<open>rohc_decompress4\<close>. \<open>CApiSafety\<close> (decompressor), \<open>CApiCompressSafety\<close> and \<open>CApiCompressorUse\<close>
    (compressor) hold no further model: they define the invariants of the two objects and the requests a client can make.
    \<open>CApiLink\<close> joins the two objects by the loops of a client that fetches segments and passes packets on, and \<open>CApiIrLink\<close>
    follows the first packet of a flow through them.
  \<^item> \<open>Tunnel\<close>: \<open>examples/linux_tun_tunnel/tunnel_protocol.cpp\<close>.

  \<^bold>\<open>Conventions.\<close> A buffer is a list of octets; an output buffer is its capacity and the octets written so far. \<open>Done\<close> is
  success, \<open>Reject\<close> is \<open>return false\<close>, \<open>Fault\<close> is an access outside a buffer or an array, so that the absence of \<open>Fault\<close> is
  memory safety. Integers keep their width (\<open>byte\<close>, \<open>u16\<close>, \<open>u32\<close>, \<open>u64\<close>) and wrap; sizes are natural numbers whose
  subtraction wraps like \<open>size_t\<close> (\<open>szsub\<close>) and whose additions do not overflow. Arrays of fixed size are lists with a
  well-formedness predicate (\<open>context_wf\<close>). Null pointers, locks and failing allocations are not modelled: a call of the
  interface is one step. The scratch buffers have the sizes of the source: 2048 octets for an IR packet, 4096 for a
  segment. What a failing codec leaves in its out-parameters is not described, except in \<open>CApiCompress\<close> and
  \<open>CApiDecompress\<close>, where the state after a failure is part of the result. All recursion is structural or has a measure; no
  fuel is used.

  \<^bold>\<open>What the lemmas show.\<close>
  \<^item> Codecs: what is written is read back, on every input the decoder neither reads outside the buffer nor accepts a form
    that is not canonical, and the tables and incremental algorithms agree with their reference definitions (CRC registers,
    SHA-256, the Internet checksum, W-LSB intervals, the generic compressed packets).
  \<^item> Contexts and feedback: invariants under every operation, correlation of acknowledgments with the ring of sent numbers,
    the effect of each kind of feedback.
  \<^item> The two objects of \<open>src/core\<close>: every plain packet sent that the decoder of the legacy format rejects is rebuilt
    exactly whenever it arrives, failures change nothing, and the
    packets returned are consistent.
  \<^item> The C interface: capturing a packet and rebuilding it is the identity; sequence numbers of compact packets are recovered
    exactly within the window the compressor keeps to; the recursion over reassembled segments ends, and how deep it gets.
    Every sequence of calls on a compressor or a decompressor, with any packets and arguments, stays inside every buffer and
    array, returns, and keeps the object well formed. Compressing changes the context of the current CID only;
    decompressing changes one context when it delivers a packet and otherwise none, up to the CID, the CID space and the
    mode noted in it. With small CIDs segmentation is transparent: the decompressor behaves on the
    segments as on the packet in one piece; with large CIDs segments can be refused. Packets that no profile compresses, and
    plain first packets of the profiles RTP, UDP, ESP and IP, are delivered exactly, with or without integrity protection, in
    segments only with small CIDs.
  \<^item> The tunnel: the flow table is a cache of the least recently used flows, and frames are delivered.

  \<^bold>\<open>Not modelled.\<close> The sockets, the device and the event loop of \<open>linux_tun_tunnel.cpp\<close> (I/O), the tables of
  \<open>rfc5225_grammar.hpp\<close> (descriptions of test cases that no packet code reads), the fuzzing harnesses and tests, the version
  and free functions of the C interface, debugging output, and two helpers of \<open>rfc5225_chains.hpp\<close> that nothing calls.
\<close>

end
